(* ===== verification/Prelude.thy ===== *)
theory Prelude
  imports Complex_Main "HOL-Library.Word"
begin

text \<open>
  Shared vocabulary of the development: the named collections the component theories feed, the
  type synonyms for the machine integers of the C++ sources, the result type of the fallible
  operations, and the facts about lists, integers modulo \<open>m\<close> and three-element index sets that
  several components use.
\<close>

named_theorems modarith \<open>congruences modulo a fixed integer, oriented for the simplifier\<close>
named_theorems sharing \<open>facts about replicated shares and their reconstruction\<close>
named_theorems exec_simps \<open>equations that run a modelled operation on a concrete state\<close>

section \<open>Machine integers and results\<close>

type_synonym i64 = "64 word"
type_synonym u16 = "16 word"
type_synonym u32 = "32 word"
type_synonym u64 = "64 word"
type_synonym u8 = "8 word"

text \<open>
  The ways a modelled C++ operation can fail to produce a value: an exception thrown by
  \<^verbatim>\<open>RaiseException\<close> (\<open>Raised\<close>), a negative or positive return code handed to the caller
  (\<open>Code\<close>), and behaviour the language leaves undefined, such as reading past the end of a
  buffer or through a null pointer (\<open>Undefined\<close>).
\<close>

datatype failure = Raised string | Code int | Undefined string

type_synonym 'a res = "failure + 'a"

definition bindR :: "'a res \<Rightarrow> ('a \<Rightarrow> 'b res) \<Rightarrow> 'b res" where
  "bindR m f = (case m of Inl e \<Rightarrow> Inl e | Inr x \<Rightarrow> f x)"

lemma bindR_simps [simp]:
  "bindR (Inl e) f = Inl e"
  "bindR (Inr x) f = f x"
  by (simp_all add: bindR_def)

lemma bindR_eq_Inr [simp]:
  "bindR m f = Inr y \<longleftrightarrow> (\<exists>x. m = Inr x \<and> f x = Inr y)"
  by (cases m) simp_all

lemma bindR_cong [fundef_cong]:
  "m = m' \<Longrightarrow> (\<And>x. m' = Inr x \<Longrightarrow> f x = f' x) \<Longrightarrow> bindR m f = bindR m' f'"
  by (cases m') simp_all

section \<open>Ordered maps and floating point\<close>

text \<open>
  A \<^verbatim>\<open>std::map\<close> is an association list with distinct keys. \<^verbatim>\<open>insert\<close> keeps an existing entry,
  \<^verbatim>\<open>operator[]\<close> with an assignment replaces it; \<^verbatim>\<open>size()\<close> is the length. Most keys are strings.
\<close>

type_synonym 'v std_map = "(string \<times> 'v) list"

definition map_insert :: "'k \<Rightarrow> 'v \<Rightarrow> ('k \<times> 'v) list \<Rightarrow> ('k \<times> 'v) list" where
  "map_insert k v m = (if map_of m k = None then (k, v) # m else m)"

definition map_assign :: "'k \<Rightarrow> 'v \<Rightarrow> ('k \<times> 'v) list \<Rightarrow> ('k \<times> 'v) list" where
  "map_assign k v m = (k, v) # filter (\<lambda>e. fst e \<noteq> k) m"

definition map_wf :: "('k \<times> 'v) list \<Rightarrow> bool" where
  "map_wf m \<longleftrightarrow> distinct (map fst m)"

lemma map_wf_Nil [simp]: "map_wf []"
  by (simp add: map_wf_def)

lemma map_insert_wf [simp]: "map_wf m \<Longrightarrow> map_wf (map_insert k v m)"
  by (auto simp: map_wf_def map_insert_def map_of_eq_None_iff)

lemma map_assign_wf [simp]: "map_wf m \<Longrightarrow> map_wf (map_assign k v m)"
  by (auto simp: map_wf_def map_assign_def distinct_map inj_on_def)

lemma map_of_insert [simp]:
  "map_of (map_insert k v m) k' =
     (if k' = k then (case map_of m k of None \<Rightarrow> Some v | Some u \<Rightarrow> Some u) else map_of m k')"
  by (simp add: map_insert_def split: option.splits)

lemma map_of_assign [simp]: "map_of (map_assign k v m) k' = (if k' = k then Some v else map_of m k')"
proof -
  have "map_of (filter (\<lambda>e. fst e \<noteq> k) m) k' = map_of m k'" if "k' \<noteq> k" using that by (induction m) auto
  then show ?thesis by (simp add: map_assign_def)
qed

text \<open>
  The operations on \<^verbatim>\<open>double\<close> that the sources use. The development does not look inside them: the
  results hold for every implementation, and where one relies on a law of IEEE arithmetic it says so.
\<close>

record 'd fp_ops =
  fp_add :: "'d \<Rightarrow> 'd \<Rightarrow> 'd"
  fp_sub :: "'d \<Rightarrow> 'd \<Rightarrow> 'd"
  fp_mul :: "'d \<Rightarrow> 'd \<Rightarrow> 'd"
  fp_div :: "'d \<Rightarrow> 'd \<Rightarrow> 'd"
  fp_of_i64 :: "i64 \<Rightarrow> 'd"
  fp_stod :: "string \<Rightarrow> 'd res"

section \<open>Integers modulo m\<close>

text \<open>Two integers are congruent when their remainders agree; the modulus divides the difference.\<close>

lemma mod_eq_iff_dvd_diff: "(a::int) mod m = b mod m \<longleftrightarrow> m dvd a - b"
  by (rule mod_eq_dvd_iff)

lemma mod_eq_dvd_trans:
  "(a::int) mod m = b mod m \<Longrightarrow> d dvd m \<Longrightarrow> a mod d = b mod d"
  by (metis mod_mod_cancel)

lemma power_mod_cong: "(a::int) mod m = b mod m \<Longrightarrow> a ^ k mod m = b ^ k mod m"
  by (metis power_mod)

lemma mult_mod_cong:
  "(a::int) mod m = a' mod m \<Longrightarrow> b mod m = b' mod m \<Longrightarrow> a * b mod m = a' * b' mod m"
  by (metis mod_mult_eq)

lemma coprime_dvd_mult_int: "coprime (a::int) b \<Longrightarrow> a dvd c \<Longrightarrow> b dvd c \<Longrightarrow> a * b dvd c"
  by (rule divides_mult)

text \<open>Chinese remaindering, uniqueness: agreement modulo coprime factors is agreement modulo the product.\<close>

lemma crt_unique:
  assumes "coprime (a::int) b" "x mod a = y mod a" "x mod b = y mod b"
  shows "x mod (a * b) = y mod (a * b)"
  using assms by (simp add: mod_eq_iff_dvd_diff coprime_dvd_mult_int)

text \<open>
  Garner's recombination as the code writes it: \<open>cp + (cq - cp) * e\<close> where \<open>e\<close> is \<open>0\<close> modulo \<open>a\<close>
  and \<open>1\<close> modulo \<open>b\<close>.
\<close>

lemma garner_recombine:
  assumes cop: "coprime (a::int) b" and e0: "e mod a = 0" and e1: "e mod b = 1 mod b"
    and xp: "cp mod a = x mod a" and xq: "cq mod b = x mod b"
  shows "(cp + (cq - cp) * e) mod (a * b) = x mod (a * b)"
proof (rule crt_unique [OF cop])
  have "a dvd (cq - cp) * e" using e0 by (simp add: mod_eq_0_iff_dvd)
  then have "(cp + (cq - cp) * e) mod a = cp mod a"
    by (simp add: mod_eq_iff_dvd_diff)
  then show "(cp + (cq - cp) * e) mod a = x mod a" using xp by simp
  have "(cq - cp) * e mod b = (cq - cp) * 1 mod b"
    by (rule mult_mod_cong) (simp_all add: e1)
  then have "(cp + (cq - cp) * e) mod b = (cp + (cq - cp) * 1) mod b"
    by (metis mod_add_right_eq)
  then show "(cp + (cq - cp) * e) mod b = x mod b" using xq by simp
qed

lemma mod_mult_split: "(1 + a * n) mod (n * n) = 1 + n * (a mod n)"
  if "1 < (n::int)"
proof -
  have "(1 + a * n) mod (n * n) = (1 + n * (a mod n)) mod (n * n)"
  proof -
    have "n * n dvd (1 + a * n) - (1 + n * (a mod n))"
      by (metis add_diff_cancel_left dvd_triv_left minus_mod_eq_mult_div mult.assoc
          mult.commute right_diff_distrib)
    then show ?thesis by (simp add: mod_eq_iff_dvd_diff)
  qed
  moreover have "1 + n * (a mod n) < n * n"
  proof -
    have "a mod n \<le> n - 1" using that pos_mod_bound [of n a] by linarith
    then have "n * (a mod n) \<le> n * (n - 1)" using that by (intro mult_left_mono) auto
    then show ?thesis using that by (simp add: right_diff_distrib)
  qed
  moreover have "0 \<le> n * (a mod n)" using that by simp
  moreover have "1 < n * n" using that by (metis less_1_mult)
  ultimately show ?thesis by simp
qed

lemma zdiv_less_of_less_mult: "0 < c \<Longrightarrow> a < b * c \<Longrightarrow> a div c < (b::int)"
proof (rule ccontr)
  assume c: "0 < c" "a < b * c" "\<not> a div c < b"
  then have "b * c \<le> a div c * c" by (simp add: mult_right_mono)
  also have "\<dots> \<le> a" using c(1) by (simp add: minus_mod_eq_div_mult [symmetric])
  finally show False using c(2) by simp
qed

lemma le_zdiv_of_mult_le: "0 < c \<Longrightarrow> b * c \<le> a \<Longrightarrow> b \<le> a div (c::int)"
  using zdiv_mono1 [of "b * c" a c] by simp

section \<open>Powers of one plus a multiple of the modulus\<close>

text \<open>
  The binomial theorem modulo \<open>n\<^sup>2\<close> keeps the first two terms only; this is what makes
  \<open>1 + m * n\<close> an additively homomorphic encoding of \<open>m\<close>.
\<close>

lemma power_one_plus_mod_square:
  "(1 + a * n) ^ k mod (n * n) = (1 + int k * a * n) mod (n * n)" for n :: int
proof (induction k)
  case 0
  then show ?case by simp
next
  case (Suc k)
  have "(1 + a * n) ^ Suc k mod (n * n) = (1 + a * n) * ((1 + int k * a * n) mod (n * n)) mod (n * n)"
    using Suc by (metis mod_mult_right_eq power_Suc)
  also have "\<dots> = (1 + a * n) * (1 + int k * a * n) mod (n * n)"
    by (simp add: mod_mult_right_eq)
  also have "(1 + a * n) * (1 + int k * a * n) = 1 + int (Suc k) * a * n + (int k * a * a) * (n * n)"
    by (simp add: algebra_simps)
  finally show ?case by simp
qed

section \<open>Lists\<close>

lemma prod_list_dvd: "x \<in> set xs \<Longrightarrow> (x::int) dvd prod_list xs"
  by (induction xs) auto

lemma prod_list_pos: "(\<And>x. x \<in> set xs \<Longrightarrow> 0 < (x::int)) \<Longrightarrow> 0 < prod_list xs"
  by (induction xs) auto

lemma nth_map2:
  "i < length xs \<Longrightarrow> i < length ys \<Longrightarrow> map2 f xs ys ! i = f (xs ! i) (ys ! i)"
  by simp

end
