(* ===== verification/Number_Facts.thy ===== *)
theory Number_Facts
  imports Prelude
begin

text \<open>
  The number theory the Paillier component rests on, over the integers GMP's \<^verbatim>\<open>mpz_t\<close> holds:
  primality, coprimality of a prime and a non-multiple, Fermat's little theorem, and the order of
  units modulo a product of two primes and modulo a squared prime.
\<close>

definition is_prime :: "int \<Rightarrow> bool" where
  "is_prime p \<longleftrightarrow> 1 < p \<and> (\<forall>d \<in> {2..<p}. \<not> d dvd p)"

lemma is_prime_gt_1: "is_prime p \<Longrightarrow> 1 < p"
  by (simp add: is_prime_def)

lemma is_prime_divisor:
  assumes "is_prime p" "0 < d" "d dvd p"
  shows "d = 1 \<or> d = p"
proof -
  have "d \<le> p" using assms is_prime_gt_1 [of p] by (simp add: zdvd_imp_le)
  moreover have "d \<notin> {2..<p}" using assms by (auto simp: is_prime_def)
  ultimately show ?thesis using assms(2) by auto
qed

lemma is_prime_coprime:
  assumes "is_prime p" "\<not> p dvd a"
  shows "coprime p a"
proof -
  have "0 < gcd p a" using is_prime_gt_1 [OF assms(1)] by (simp add: zero_less_mult_iff)
  then have "gcd p a = 1 \<or> gcd p a = p" using is_prime_divisor [OF assms(1)] by simp
  moreover have "gcd p a \<noteq> p" using assms(2) by (metis gcd_dvd2)
  ultimately show ?thesis by (simp add: coprime_iff_gcd_eq_1)
qed

lemma is_prime_dvd_mult:
  assumes "is_prime p" "p dvd a * b"
  shows "p dvd a \<or> p dvd b"
  using assms is_prime_coprime [of p a] coprime_dvd_mult_right_iff by blast

lemma is_prime_neq_coprime:
  assumes "is_prime p" "is_prime q" "p \<noteq> q"
  shows "coprime p q"
proof (rule is_prime_coprime [OF assms(1)])
  show "\<not> p dvd q"
    using assms is_prime_divisor [of q p] is_prime_gt_1 [of p] by auto
qed

lemma is_prime_small_not_dvd: "0 < a \<Longrightarrow> a < p \<Longrightarrow> \<not> p dvd (a::int)"
  by (simp add: zdvd_not_zless)

text \<open>Multiplication by a unit permutes the non-zero residues.\<close>

lemma unit_permutes_residues:
  assumes p: "is_prime p" and a: "\<not> p dvd a"
  shows "bij_betw (\<lambda>x. a * x mod p) {1..<p} {1..<p}"
proof -
  let ?f = "\<lambda>x. a * x mod p"
  have p1: "1 < p" using is_prime_gt_1 [OF p] .
  have inj: "inj_on ?f {1..<p}"
  proof (rule inj_onI)
    fix x y assume xy: "x \<in> {1..<p}" "y \<in> {1..<p}" "?f x = ?f y"
    then have "p dvd a * (x - y)" by (simp add: mod_eq_iff_dvd_diff right_diff_distrib)
    then have "p dvd x - y" using is_prime_dvd_mult [OF p] a by blast
    then have "x mod p = y mod p" by (simp add: mod_eq_iff_dvd_diff)
    then show "x = y" using xy by simp
  qed
  have "?f ` {1..<p} \<subseteq> {1..<p}"
  proof
    fix z assume "z \<in> ?f ` {1..<p}"
    then obtain x where x: "x \<in> {1..<p}" "z = a * x mod p" by blast
    then have "\<not> p dvd a * x"
      using is_prime_dvd_mult [OF p] a is_prime_small_not_dvd by fastforce
    then have "z \<noteq> 0" using x by (simp add: mod_eq_0_iff_dvd)
    moreover have "0 \<le> z" "z < p" using x p1 by simp_all
    ultimately show "z \<in> {1..<p}" by simp
  qed
  then show ?thesis using inj by (simp add: bij_betw_def endo_inj_surj)
qed

lemma fermat_little:
  assumes p: "is_prime p" and a: "\<not> p dvd a"
  shows "a ^ nat (p - 1) mod p = 1"
proof -
  let ?S = "{1..<p}"
  have p1: "1 < p" using is_prime_gt_1 [OF p] .
  have "(\<Prod>x\<in>?S. a * x) mod p = (\<Prod>x\<in>?S. a * x mod p) mod p"
    by (simp add: mod_prod_eq)
  also have "(\<Prod>x\<in>?S. a * x mod p) = (\<Prod>x\<in>?S. x)"
    using prod.reindex_bij_betw [OF unit_permutes_residues [OF p a], of "\<lambda>x. x"] .
  finally have "a ^ nat (p - 1) * \<Prod>?S mod p = \<Prod>?S mod p"
    by (simp add: prod.distrib)
  then have "p dvd (a ^ nat (p - 1) - 1) * \<Prod>?S"
    by (simp add: mod_eq_iff_dvd_diff left_diff_distrib)
  moreover have "coprime p (\<Prod>?S)"
    by (rule prod_coprime_right) (auto intro!: is_prime_coprime p dest: zdvd_imp_le)
  ultimately have "p dvd a ^ nat (p - 1) - 1"
    by (simp add: coprime_dvd_mult_left_iff)
  then have "a ^ nat (p - 1) mod p = 1 mod p" by (simp add: mod_eq_iff_dvd_diff)
  then show ?thesis using p1 by simp
qed

lemma fermat_multiple:
  assumes "is_prime p" "\<not> p dvd a" "nat (p - 1) dvd k"
  shows "a ^ k mod p = 1"
proof -
  from assms(3) obtain j where "k = nat (p - 1) * j" ..
  then have "a ^ k mod p = (a ^ nat (p - 1) mod p) ^ j mod p"
    by (simp add: power_mult power_mod)
  then show ?thesis
    using fermat_little [OF assms(1,2)] is_prime_gt_1 [OF assms(1)] by simp
qed

text \<open>
  A number that is \<open>1\<close> modulo \<open>n\<close> is \<open>1\<close> modulo \<open>n\<^sup>2\<close> once raised to a multiple of \<open>n\<close>.
\<close>

lemma power_lifts_to_square:
  assumes "x mod n = 1 mod (n::int)" and "n dvd int k"
  shows "x ^ k mod (n * n) = 1 mod (n * n)"
proof -
  from assms(1) have "n dvd x - 1" by (simp add: mod_eq_iff_dvd_diff)
  then obtain j where "x - 1 = n * j" ..
  then have x: "x = 1 + j * n" by (simp add: algebra_simps)
  from assms(2) obtain i where "int k = n * i" ..
  then have "1 + int k * j * n = 1 + (i * j) * (n * n)" by simp
  then show ?thesis
    unfolding x power_one_plus_mod_square by (metis mod_mult_self1)
qed

lemma power_square_mod_root:
  "x mod (n * n) = y mod (n * n) \<Longrightarrow> x mod n = y mod (n::int)"
  by (rule mod_eq_dvd_trans) auto

end
