(* ===== verification/Digits.thy ===== *)
theory Digits
  imports Prelude
begin

text \<open>
  Numbers as text: positional digits in a radix, and the conversions of the C and C++ libraries that
  the sources call, \<^verbatim>\<open>atol\<close>, \<^verbatim>\<open>atoi\<close>, \<^verbatim>\<open>std::stoi\<close> and \<^verbatim>\<open>std::to_string\<close>.
\<close>

section \<open>Digits in a radix\<close>

definition digit_char :: "nat \<Rightarrow> char" where
  "digit_char d = char_of (48 + d)"

definition char_digit :: "char \<Rightarrow> nat" where
  "char_digit c = of_char c - 48"

fun digits_ref :: "nat \<Rightarrow> nat \<Rightarrow> string" where
  "digits_ref b n =
     (if b < 2 \<or> n < b then [digit_char n] else digits_ref b (n div b) @ [digit_char (n mod b)])"

declare digits_ref.simps [simp del]

definition value_ref :: "nat \<Rightarrow> string \<Rightarrow> nat" where
  "value_ref b = foldl (\<lambda>n c. n * b + char_digit c) 0"

lemma char_digit_inverse: "d < 62 \<Longrightarrow> char_digit (digit_char d) = d"
  by (simp add: char_digit_def digit_char_def)

lemma value_ref_snoc: "value_ref b (cs @ [c]) = value_ref b cs * b + char_digit c"
  by (simp add: value_ref_def)

lemma value_digits_ref:
  "2 \<le> b \<Longrightarrow> b \<le> 62 \<Longrightarrow> value_ref b (digits_ref b n) = n"
proof (induction b n rule: digits_ref.induct)
  case (1 b n)
  show ?case
  proof (cases "n < b")
    case True
    then show ?thesis using 1
      by (simp add: digits_ref.simps [of b n] value_ref_def char_digit_inverse)
  next
    case False
    then have "value_ref b (digits_ref b (n div b)) = n div b" using 1 by simp
    moreover have "n mod b < 62" using 1 by (meson mod_less_divisor order_less_le_trans
          pos2 order_less_le_trans)
    ultimately show ?thesis using 1 False
      by (simp add: digits_ref.simps [of b n] value_ref_snoc char_digit_inverse)
  qed
qed

lemma digits_ref_not_minus:
  "2 \<le> b \<Longrightarrow> b \<le> 62 \<Longrightarrow> CHR ''-'' \<notin> set (digits_ref b n)"
proof (induction b n rule: digits_ref.induct)
  case (1 b n)
  have d: "CHR ''-'' \<noteq> digit_char d" if "d < 62" for d
  proof -
    have "of_char (digit_char d) = (48 + d :: nat)" using that by (simp add: digit_char_def)
    moreover have "of_char (CHR ''-'') = (45::nat)" by simp
    ultimately have "(of_char (CHR ''-'') :: nat) \<noteq> of_char (digit_char d)" by linarith
    then show ?thesis by metis
  qed
  have "n mod b < 62" using 1 by (meson mod_less_divisor order_less_le_trans
        pos2 order_less_le_trans)
  moreover have "n < b \<Longrightarrow> n < 62" using 1 by simp
  ultimately show ?case using 1 by (simp add: digits_ref.simps [of b n] d)
qed

lemma digits_ref_nonempty: "digits_ref b n \<noteq> []"
  by (simp add: digits_ref.simps [of b n])

section \<open>Library conversions\<close>

text \<open>\<^verbatim>\<open>atol\<close>: white space, a sign, digits; a value that does not fit is undefined.\<close>

definition digit_val :: "char \<Rightarrow> nat option" where
  "digit_val c = (let n = of_char c :: nat in if 48 \<le> n \<and> n \<le> 57 then Some (n - 48) else None)"

fun atol_digits :: "string \<Rightarrow> nat \<Rightarrow> nat" where
  "atol_digits [] acc = acc"
| "atol_digits (c # cs) acc =
     (case digit_val c of Some d \<Rightarrow> atol_digits cs (10 * acc + d) | None \<Rightarrow> acc)"

definition isspace :: "char \<Rightarrow> bool" where
  "isspace c \<longleftrightarrow> (let n = of_char c :: nat in n = 32 \<or> (9 \<le> n \<and> n \<le> 13))"

definition atol :: "string \<Rightarrow> i64 res" where
  "atol s =
     (let t = dropWhile isspace s;
          v = (case t of
                 [] \<Rightarrow> 0
               | c # cs \<Rightarrow>
                   if c = CHR ''-'' then - int (atol_digits cs 0)
                   else if c = CHR ''+'' then int (atol_digits cs 0)
                   else int (atol_digits t 0))
      in if - (2 ^ 63) \<le> v \<and> v < 2 ^ 63 then Inr (word_of_int v) else Inl (Undefined ''atol out of range''))"

text \<open>
  \<^verbatim>\<open>std::stoi\<close>: the same prefix, but an exception when there is no digit or the value is no \<^verbatim>\<open>int\<close>;
  \<^verbatim>\<open>atoi\<close> gives 0 without digits and is undefined out of range.
\<close>

definition int_prefix :: "string \<Rightarrow> int option" where
  "int_prefix s =
     (let t = dropWhile isspace s;
          (neg, ds) = (case t of [] \<Rightarrow> (False, []) | c # cs \<Rightarrow>
             if c = CHR ''-'' then (True, cs) else if c = CHR ''+'' then (False, cs) else (False, t))
      in case ds of
           [] \<Rightarrow> None
         | d # _ \<Rightarrow> if digit_val d = None then None
                  else Some (if neg then - int (atol_digits ds 0) else int (atol_digits ds 0)))"

definition stoi :: "string \<Rightarrow> int res" where
  "stoi s =
     (case int_prefix s of
        None \<Rightarrow> Inl (Raised ''stoi'')
      | Some v \<Rightarrow> if - (2 ^ 31) \<le> v \<and> v < 2 ^ 31 then Inr v else Inl (Raised ''stoi''))"

definition atoi :: "string \<Rightarrow> int res" where
  "atoi s =
     (case int_prefix s of
        None \<Rightarrow> Inr 0
      | Some v \<Rightarrow> if - (2 ^ 31) \<le> v \<and> v < 2 ^ 31 then Inr v else Inl (Undefined ''atoi out of range''))"

definition to_string_nat :: "nat \<Rightarrow> string" where
  "to_string_nat n = digits_ref 10 n"

section \<open>Printing and reading back\<close>

lemma digit_val_digit_char: "d < 10 \<Longrightarrow> digit_val (digit_char d) = Some d"
  by (simp add: digit_val_def digit_char_def)

lemma digits_ref_chars: "c \<in> set (digits_ref 10 n) \<Longrightarrow> \<exists>d < 10. c = digit_char d"
proof (induction "10 :: nat" n rule: digits_ref.induct)
  case (1 n)
  have "n mod 10 < 10" by simp
  then show ?case using 1 by (fastforce simp: digits_ref.simps [of 10 n] split: if_splits)
qed

lemma digit_char_neq: "d < 10 \<Longrightarrow> of_char c \<notin> {48..57 :: nat} \<Longrightarrow> digit_char d \<noteq> c"
  by (auto simp: digit_char_def)

lemma digits_ref_excludes: "of_char c \<notin> {48..57 :: nat} \<Longrightarrow> c \<notin> set (digits_ref 10 n)"
  using digits_ref_chars digit_char_neq by metis

lemma atol_digits_value:
  "\<forall>c \<in> set cs. \<exists>d < 10. c = digit_char d \<Longrightarrow>
     atol_digits cs acc = foldl (\<lambda>n c. n * 10 + char_digit c) acc cs"
proof (induction cs arbitrary: acc)
  case (Cons c cs)
  then obtain d where d: "d < 10" "c = digit_char d" by auto
  with Cons show ?case by (simp add: digit_val_digit_char char_digit_inverse mult.commute)
qed simp

lemma int_prefix_to_string [simp]: "int_prefix (to_string_nat n) = Some (int n)"
proof -
  let ?s = "digits_ref 10 n"
  obtain c cs where s: "?s = c # cs" using digits_ref_nonempty by (cases ?s) auto
  have "c \<in> set ?s" using s by simp
  then obtain d where d: "d < 10" "c = digit_char d" using digits_ref_chars by blast
  have "\<not> isspace c" using d by (simp add: isspace_def digit_char_def)
  moreover have "c \<noteq> CHR ''-''" "c \<noteq> CHR ''+''" using d digit_char_neq by auto
  moreover have "atol_digits ?s 0 = n"
    using atol_digits_value [of ?s 0] digits_ref_chars value_digits_ref [of 10 n]
    by (simp add: value_ref_def)
  ultimately show ?thesis
    using s d by (simp add: int_prefix_def to_string_nat_def Let_def digit_val_digit_char)
qed

lemma stoi_to_string: "n < 2 ^ 31 \<Longrightarrow> stoi (to_string_nat n) = Inr (int n)"
  by (simp add: stoi_def)

lemma stoi_to_string_large: "2 ^ 31 \<le> n \<Longrightarrow> stoi (to_string_nat n) = Inl (Raised ''stoi'')"
  by (simp add: stoi_def)

end
