(* ===== verification/Gmp.thy ===== *)
theory Gmp
  imports Number_Facts Digits
begin

text \<open>
  The boundary to the GNU multiple precision library. An \<^verbatim>\<open>mpz_t\<close> is an \<open>int\<close>; its ring
  operations, comparisons, remainders and exact quotients are those of \<open>int\<close>. The number
  theoretic and text functions of the library are not part of the repository: they are the fields
  of the record \<open>gmp\<close>, an argument of every definition that calls them, and what the library's
  manual documents of them are the predicates \<open>gmp_arith\<close> and \<open>gmp_text\<close>. The end of the theory
  gives one concrete library and shows that it satisfies the documented behaviour.
\<close>

record gmp =
  mpz_powm :: "int \<Rightarrow> int \<Rightarrow> int \<Rightarrow> int"
  mpz_invert :: "int \<Rightarrow> int \<Rightarrow> int"
  mpz_nextprime :: "int \<Rightarrow> int"
  mpz_probab_prime_p :: "int \<Rightarrow> nat \<Rightarrow> bool"
  mpz_set_str :: "string \<Rightarrow> int \<Rightarrow> int"
  mpz_get_str :: "int \<Rightarrow> int \<Rightarrow> string"

text \<open>Documented behaviour of \<^verbatim>\<open>mpz_powm\<close> and \<^verbatim>\<open>mpz_invert\<close>.\<close>

definition gmp_arith :: "gmp \<Rightarrow> bool" where
  "gmp_arith G \<longleftrightarrow>
     (\<forall>b e m. 0 \<le> e \<and> 0 < m \<longrightarrow> mpz_powm G b e m = b ^ nat e mod m) \<and>
     (\<forall>a m. 1 < m \<and> coprime a m \<longrightarrow>
        0 \<le> mpz_invert G a m \<and> mpz_invert G a m < m \<and> a * mpz_invert G a m mod m = 1)"

text \<open>Documented behaviour of the conversions: reading back a printed number gives the number.\<close>

definition gmp_text :: "gmp \<Rightarrow> bool" where
  "gmp_text G \<longleftrightarrow>
     (\<forall>radix v. 2 \<le> radix \<and> radix \<le> 62 \<longrightarrow> mpz_set_str G (mpz_get_str G radix v) radix = v)"

text \<open>
  \<^verbatim>\<open>mpz_nextprime\<close> returns a prime above its argument, at most twice the argument by Bertrand's
  postulate; stated for arguments below \<open>2 ^ k\<close>.
\<close>

definition gmp_nextprime :: "gmp \<Rightarrow> nat \<Rightarrow> bool" where
  "gmp_nextprime G k \<longleftrightarrow>
     (\<forall>x. 1 \<le> x \<and> x < 2 ^ k \<longrightarrow>
        is_prime (mpz_nextprime G x) \<and> x < mpz_nextprime G x \<and> mpz_nextprime G x \<le> 2 * x)"

lemma gmp_powm [modarith]:
  "gmp_arith G \<Longrightarrow> 0 \<le> e \<Longrightarrow> 0 < m \<Longrightarrow> mpz_powm G b e m = b ^ nat e mod m"
  by (simp add: gmp_arith_def)

lemma gmp_invert [modarith]:
  "gmp_arith G \<Longrightarrow> 1 < m \<Longrightarrow> coprime a m \<Longrightarrow> a * mpz_invert G a m mod m = 1"
  by (simp add: gmp_arith_def)

lemma gmp_invert' [modarith]:
  "gmp_arith G \<Longrightarrow> 1 < m \<Longrightarrow> coprime a m \<Longrightarrow> mpz_invert G a m * a mod m = 1"
  by (simp add: gmp_arith_def mult.commute)

lemma gmp_get_set:
  "gmp_text G \<Longrightarrow> 2 \<le> radix \<Longrightarrow> radix \<le> 62 \<Longrightarrow> mpz_set_str G (mpz_get_str G radix v) radix = v"
  by (simp add: gmp_text_def)

text \<open>Multiplying by an inverse cancels a factor modulo \<open>m\<close>.\<close>

lemma gmp_invert_cancel:
  assumes "gmp_arith G" "1 < m" "coprime a m"
  shows "(a * x) mod m * mpz_invert G a m mod m = x mod m"
proof -
  have "(a * x) mod m * mpz_invert G a m mod m = (a * mpz_invert G a m) * x mod m"
    by (simp only: mod_mult_left_eq mult.assoc mult.commute [of x])
  also have "\<dots> = (a * mpz_invert G a m mod m) * x mod m"
    by (simp add: mod_mult_left_eq)
  finally show ?thesis using assms by (simp add: gmp_invert)
qed

section \<open>A concrete library\<close>

text \<open>
  The reference library exponentiates by squaring, inverts with Bezout coefficients, searches the
  next prime upwards, decides primality by trial division and prints positional digits.
\<close>

fun sqmul_ref :: "int \<Rightarrow> nat \<Rightarrow> int \<Rightarrow> int" where
  "sqmul_ref b e m =
     (if e = 0 then 1 mod m
      else let r = sqmul_ref (b * b mod m) (e div 2) m in if even e then r else b * r mod m)"

declare sqmul_ref.simps [simp del]

definition powm_ref :: "int \<Rightarrow> int \<Rightarrow> int \<Rightarrow> int" where
  "powm_ref b e m = sqmul_ref b (nat e) m"

definition invert_ref :: "int \<Rightarrow> int \<Rightarrow> int" where
  "invert_ref a m = fst (bezw (nat (a mod m)) (nat m)) mod m"

fun nextprime_ref :: "nat \<Rightarrow> int \<Rightarrow> int" where
  "nextprime_ref 0 x = x"
| "nextprime_ref (Suc k) x = (if is_prime (x + 1) then x + 1 else nextprime_ref k (x + 1))"

definition get_str_ref :: "int \<Rightarrow> int \<Rightarrow> string" where
  "get_str_ref radix v =
     (if v < 0 then CHR ''-'' # digits_ref (nat radix) (nat (- v)) else digits_ref (nat radix) (nat v))"

definition set_str_ref :: "string \<Rightarrow> int \<Rightarrow> int" where
  "set_str_ref s radix =
     (case s of
        [] \<Rightarrow> 0
      | c # cs \<Rightarrow>
          if c = CHR ''-'' then - int (value_ref (nat radix) cs)
          else int (value_ref (nat radix) s))"

definition gmp_ref :: gmp where
  "gmp_ref = \<lparr>mpz_powm = powm_ref, mpz_invert = invert_ref,
     mpz_nextprime = (\<lambda>x. nextprime_ref (nat x) x),
     mpz_probab_prime_p = (\<lambda>x reps. is_prime x),
     mpz_set_str = set_str_ref, mpz_get_str = get_str_ref\<rparr>"

lemma invert_ref_correct:
  assumes "1 < m" "coprime a m"
  shows "a * invert_ref a m mod m = 1"
proof -
  let ?x = "nat (a mod m)" and ?y = "nat m"
  have "coprime (a mod m) m" using assms by simp
  then have "gcd (a mod m) m = 1" by (simp only: coprime_iff_gcd_eq_1)
  moreover have "int (gcd ?x ?y) = gcd (a mod m) m"
    using assms(1) by (simp flip: gcd_int_int_eq)
  ultimately have "gcd ?x ?y = 1" by linarith
  then have "fst (bezw ?x ?y) * int ?x + snd (bezw ?x ?y) * int ?y = 1"
    using bezw_aux [of ?x ?y] by simp
  then have "(fst (bezw ?x ?y) * (a mod m) + snd (bezw ?x ?y) * m) mod m = 1 mod m"
    using assms(1) by simp
  then have "fst (bezw ?x ?y) * a mod m = 1"
    using assms(1) by (simp add: mod_mult_right_eq)
  then show ?thesis
    by (simp add: invert_ref_def mod_mult_right_eq mult.commute)
qed

lemma sqmul_ref_correct: "sqmul_ref b e m = b ^ e mod m"
proof (induction b e m rule: sqmul_ref.induct)
  case (1 b e m)
  show ?case
  proof (cases "e = 0")
    case False
    then have IH: "sqmul_ref (b * b mod m) (e div 2) m = (b * b) ^ (e div 2) mod m"
      using 1 by (simp add: power_mod)
    have step: "sqmul_ref b e m = (if even e then (b * b) ^ (e div 2) mod m
        else b * ((b * b) ^ (e div 2) mod m) mod m)"
      using False by (simp add: sqmul_ref.simps [of b e m] IH Let_def)
    show ?thesis
    proof (cases "even e")
      case True
      then have "e = 2 * (e div 2)" by simp
      then have "b ^ e = (b * b) ^ (e div 2)" by (metis power_mult power2_eq_square)
      then show ?thesis using True step by simp
    next
      case odd: False
      then have "e = Suc (2 * (e div 2))" by simp
      then have "b ^ e = b * (b * b) ^ (e div 2)" by (metis power_Suc power_mult power2_eq_square)
      then show ?thesis using odd step by (simp add: mod_mult_right_eq)
    qed
  qed (simp add: sqmul_ref.simps [of b 0 m])
qed

lemma gmp_arith_ref: "gmp_arith gmp_ref"
  using invert_ref_correct
  by (simp add: gmp_arith_def gmp_ref_def powm_ref_def sqmul_ref_correct) (simp add: invert_ref_def)

lemma nextprime_ref_bounds:
  "x < q \<Longrightarrow> q \<le> x + int k \<Longrightarrow> is_prime q \<Longrightarrow>
   is_prime (nextprime_ref k x) \<and> x < nextprime_ref k x \<and> nextprime_ref k x \<le> x + int k"
proof (induction k arbitrary: x)
  case (Suc k)
  show ?case
  proof (cases "is_prime (x + 1)")
    case False
    then have "x + 1 < q" using Suc.prems by (metis add1_zle_eq order_le_less)
    then show ?thesis using Suc.IH [of "x + 1"] Suc.prems False by simp
  qed simp
qed simp

lemma gmp_nextprime_ref: "gmp_nextprime gmp_ref 5"
proof -
  have primes: "is_prime 2" "is_prime 3" "is_prime 5" "is_prime 7" "is_prime 13" "is_prime 23"
    "is_prime 43" by code_simp+
  let ?np = "\<lambda>x. nextprime_ref (nat x) x"
  have "is_prime (?np x) \<and> x < ?np x \<and> ?np x \<le> 2 * x" if x: "1 \<le> x" "x < 32" for x
  proof -
    have w: ?thesis if "x < q" "q \<le> 2 * x" "is_prime q" for q
      using nextprime_ref_bounds [of x q "nat x"] that x by simp
    have "(x < 2 \<and> 2 \<le> 2 * x) \<or> (x < 3 \<and> 3 \<le> 2 * x) \<or> (x < 5 \<and> 5 \<le> 2 * x) \<or>
      (x < 7 \<and> 7 \<le> 2 * x) \<or> (x < 13 \<and> 13 \<le> 2 * x) \<or> (x < 23 \<and> 23 \<le> 2 * x) \<or>
      (x < 43 \<and> 43 \<le> 2 * x)" using x by linarith
    then show ?thesis using w primes by blast
  qed
  then show ?thesis by (simp add: gmp_nextprime_def gmp_ref_def)
qed

lemma gmp_text_ref: "gmp_text gmp_ref"
proof -
  have "set_str_ref (get_str_ref r v) r = v" if r: "2 \<le> r" "r \<le> 62" for r v :: int
  proof (cases "v < 0")
    case True
    then show ?thesis using r
      by (simp add: get_str_ref_def set_str_ref_def value_digits_ref nat_le_iff)
  next
    case False
    let ?d = "digits_ref (nat r) (nat v)"
    obtain c cs where d: "?d = c # cs" using digits_ref_nonempty by (meson list.exhaust)
    have "2 \<le> nat r" "nat r \<le> 62" using r by simp_all
    then have "c \<noteq> CHR ''-''" using digits_ref_not_minus [of "nat r" "nat v"] d by auto
    moreover have "value_ref (nat r) (c # cs) = nat v"
      using value_digits_ref [of "nat r" "nat v"] r d by simp
    ultimately show ?thesis using False d
      by (simp add: get_str_ref_def set_str_ref_def)
  qed
  then show ?thesis by (simp add: gmp_text_def gmp_ref_def)
qed

end
