(* ===== verification/Powmod.thy ===== *)
theory Powmod
  imports Gmp
begin

text \<open>
  Fixed-base modular exponentiation with a window table
  (\<^verbatim>\<open>algorithm/opt_paillier/src/powmod.cc\<close>): the table of \<open>base ^ (h ^ i)\<close>, the digit buffer,
  and the two nested loops that multiply table entries by decreasing digit value. The main result
  is that the routine returns \<open>base ^ exp mod m\<close> for every exponent of at most \<^verbatim>\<open>maxbits\<close> bits;
  an exponent the digit buffer cannot hold is reported as undefined behaviour.
\<close>

record fb_instance =
  m_mod :: int
  m_table_G :: "int list"
  m_h :: nat
  m_t :: nat
  m_w :: nat

text \<open>\<^verbatim>\<open>#define ROUNDUP(a,b) ((a)-1)/(b)+1\<close> on \<^verbatim>\<open>size_t\<close>, whose subtraction wraps.\<close>

definition ROUNDUP :: "nat \<Rightarrow> nat \<Rightarrow> nat" where
  "ROUNDUP a b = (a + (2 ^ 64 - 1)) mod 2 ^ 64 div b + 1"

definition fbpowmod_init_extend ::
  "gmp \<Rightarrow> int \<Rightarrow> int \<Rightarrow> nat \<Rightarrow> nat \<Rightarrow> fb_instance res" where
  "fbpowmod_init_extend G base modulus maxbits winsize =
     (if winsize = 0 then Inl (Undefined ''division by zero in ROUNDUP'')
      else if 31 \<le> winsize then Inl (Undefined ''shift of int out of range'')
      else
        let h = 2 ^ winsize; t = ROUNDUP maxbits winsize in
        Inr \<lparr>m_mod = modulus,
          m_table_G = map (\<lambda>i. mpz_powm G base (int h ^ i) modulus) [0..<t + 1],
          m_h = h, m_t = t, m_w = winsize\<rparr>)"

text \<open>
  The first loop writes the base-\<open>h\<close> digits of the exponent into a buffer of \<open>m_t + 1\<close> entries;
  \<open>slots\<close> counts the entries left.
\<close>

fun fb_digits :: "fb_instance \<Rightarrow> nat \<Rightarrow> int \<Rightarrow> nat list res" where
  "fb_digits ins 0 e = (if 0 < e then Inl (Undefined ''write past m_e'') else Inr [])"
| "fb_digits ins (Suc slots) e =
     (if 0 < e
      then bindR (fb_digits ins slots (e div 2 ^ m_w ins))
             (\<lambda>ds. Inr (nat (e mod int (m_h ins)) # ds))
      else Inr [])"

text \<open>The inner loop for one digit value \<open>j\<close>, and the outer loop from \<open>m_h - 1\<close> down to \<open>1\<close>.\<close>

definition fb_inner :: "fb_instance \<Rightarrow> nat list \<Rightarrow> nat \<Rightarrow> int \<Rightarrow> int" where
  "fb_inner ins es j temp =
     fold (\<lambda>(d, g) acc. if d = j then acc * g mod m_mod ins else acc) (zip es (m_table_G ins)) temp"

fun fb_outer :: "fb_instance \<Rightarrow> nat list \<Rightarrow> nat \<Rightarrow> int \<Rightarrow> int \<Rightarrow> int" where
  "fb_outer ins es 0 temp result = result"
| "fb_outer ins es (Suc j) temp result =
     (let temp' = fb_inner ins es (Suc j) temp in
      fb_outer ins es j temp' (result * temp' mod m_mod ins))"

definition fbpowmod_extend :: "fb_instance \<Rightarrow> int \<Rightarrow> int res" where
  "fbpowmod_extend ins e =
     bindR (fb_digits ins (m_t ins + 1) e) (\<lambda>es. Inr (fb_outer ins es (m_h ins - 1) 1 1))"

section \<open>The digit loop\<close>

fun digit_value :: "nat \<Rightarrow> nat list \<Rightarrow> int" where
  "digit_value h [] = 0"
| "digit_value h (d # ds) = int d + int h * digit_value h ds"

lemma fb_digits_value:
  assumes "m_h ins = 2 ^ m_w ins" "0 \<le> e" "fb_digits ins k e = Inr ds"
  shows "digit_value (m_h ins) ds = e \<and> length ds \<le> k \<and> (\<forall>d \<in> set ds. d < m_h ins)"
  using assms(2,3)
proof (induction k arbitrary: e ds)
  case 0
  then show ?case by (auto split: if_splits)
next
  case (Suc k)
  show ?case
  proof (cases "0 < e")
    case True
    then obtain ds' where ds': "fb_digits ins k (e div 2 ^ m_w ins) = Inr ds'"
      and ds: "ds = nat (e mod int (m_h ins)) # ds'" using Suc.prems by auto
    have IH: "digit_value (m_h ins) ds' = e div 2 ^ m_w ins \<and> length ds' \<le> k \<and>
        (\<forall>d \<in> set ds'. d < m_h ins)"
      using Suc.IH [OF _ ds'] True by (simp add: pos_imp_zdiv_nonneg_iff)
    have h: "int (m_h ins) = 2 ^ m_w ins" using assms(1) by simp
    have "nat (e mod int (m_h ins)) < m_h ins"
      by (simp add: h nat_less_iff assms(1))
    moreover have "int (nat (e mod int (m_h ins))) + int (m_h ins) * (e div 2 ^ m_w ins) = e"
      by (simp add: h)
    ultimately show ?thesis using IH ds by auto
  next
    case False
    then show ?thesis using Suc.prems by auto
  qed
qed

lemma fb_digits_enough:
  assumes "e < 2 ^ (m_w ins * k)"
  shows "\<exists>ds. fb_digits ins k e = Inr ds"
  using assms
proof (induction k arbitrary: e)
  case 0
  then show ?case by simp
next
  case (Suc k)
  show ?case
  proof (cases "0 < e")
    case True
    have "e < 2 ^ (m_w ins * k) * 2 ^ m_w ins"
      using Suc.prems by (simp add: power_add mult.commute)
    then have "e div 2 ^ m_w ins < 2 ^ (m_w ins * k)"
      by (intro zdiv_less_of_less_mult) simp_all
    then show ?thesis using Suc.IH True by fastforce
  next
    case False
    then show ?thesis by simp
  qed
qed

section \<open>The multiplication loops\<close>

lemma fb_inner_mod:
  "fb_inner ins es j temp mod m_mod ins =
     temp * prod_list (map (\<lambda>(d, g). if d = j then g else 1) (zip es (m_table_G ins))) mod m_mod ins"
proof -
  have "fold (\<lambda>(d, g) acc. if d = j then acc * g mod m else acc) ps t mod m =
      t * prod_list (map (\<lambda>(d, g). if d = j then g else 1) ps) mod m" for ps :: "(nat \<times> int) list" and t m
  proof (induction ps arbitrary: t)
    case (Cons p ps)
    obtain d g where "p = (d, g)" by force
    then show ?case using Cons by (simp add: mod_mult_left_eq mult.assoc)
  qed simp
  then show ?thesis by (simp add: fb_inner_def)
qed

lemma prod_list_split_digit:
  "prod_list (map (\<lambda>(d, g). if d = Suc j then g else 1) ps) ^ Suc j *
     prod_list (map (\<lambda>(d, g). if d \<le> j then g ^ d else 1) ps) =
   prod_list (map (\<lambda>(d, g). if d \<le> Suc j then g ^ d else (1::int)) ps)"
proof (induction ps)
  case (Cons p ps)
  obtain d g where p: "p = (d, g)" by force
  consider "d = Suc j" | "d \<le> j" | "Suc j < d" by linarith
  then show ?case
    by cases (simp_all add: p Cons [symmetric] power_mult_distrib mult.assoc mult.left_commute)
qed simp

lemma fb_outer_mod:
  "fb_outer ins es j temp result mod m_mod ins =
     result * temp ^ j *
     prod_list (map (\<lambda>(d, g). if d \<le> j then g ^ d else 1) (zip es (m_table_G ins))) mod m_mod ins"
proof (induction j arbitrary: temp result)
  case 0
  have "prod_list (map (\<lambda>(d, g). if d \<le> 0 then g ^ d else (1::int)) ps) = 1"
    for ps :: "(nat \<times> int) list" by (induction ps) auto
  then show ?case by simp
next
  case (Suc j)
  let ?m = "m_mod ins" and ?ps = "zip es (m_table_G ins)"
  let ?low = "prod_list (map (\<lambda>(d, g). if d \<le> j then g ^ d else 1) ?ps)"
  let ?eq = "prod_list (map (\<lambda>(d, g). if d = Suc j then g else 1) ?ps)"
  let ?t = "fb_inner ins es (Suc j) temp"
  have t: "?t mod ?m = temp * ?eq mod ?m" by (rule fb_inner_mod)
  have "fb_outer ins es (Suc j) temp result mod ?m =
      (result * ?t mod ?m) * ?t ^ j * ?low mod ?m"
    using Suc.IH by (simp add: Let_def)
  also have "\<dots> = result * (?t ^ Suc j * ?low) mod ?m"
    by (simp add: mod_mult_left_eq mult.assoc)
  also have "\<dots> = result * ((temp * ?eq) ^ Suc j * ?low) mod ?m"
    by (intro mult_mod_cong power_mod_cong t refl)
  also have "(temp * ?eq) ^ Suc j * ?low = temp ^ Suc j * (?eq ^ Suc j * ?low)"
    by (simp only: power_mult_distrib mult.assoc)
  finally show ?case by (simp only: prod_list_split_digit mult.assoc)
qed

lemma fb_outer_range:
  "1 < m_mod ins \<Longrightarrow> 0 \<le> result \<Longrightarrow> result < m_mod ins \<Longrightarrow>
   0 \<le> fb_outer ins es j temp result \<and> fb_outer ins es j temp result < m_mod ins"
  by (induction j arbitrary: temp result) (simp_all add: Let_def)

section \<open>Correctness of the routine\<close>

lemma table_product:
  assumes "\<And>i. i < length es \<Longrightarrow> gs ! i mod m = b ^ (h ^ (i + s)) mod m"
    and "length es \<le> length gs" "\<And>d. d \<in> set es \<Longrightarrow> d \<le> k"
  shows "prod_list (map (\<lambda>(d, g). if d \<le> k then g ^ d else 1) (zip es gs)) mod m =
    (b :: int) ^ (nat (digit_value h es) * h ^ s) mod m"
  using assms
proof (induction es arbitrary: gs s)
  case Nil
  then show ?case by simp
next
  case (Cons d es)
  then obtain g gs' where gs: "gs = g # gs'" by (cases gs) auto
  have dv: "0 \<le> digit_value h es" by (induction es) auto
  let ?tl = "prod_list (map (\<lambda>(d, g). if d \<le> k then g ^ d else 1) (zip es gs'))"
  have g: "g mod m = b ^ h ^ s mod m" using Cons.prems(1) [of 0] gs by simp
  have IH: "?tl mod m = b ^ (nat (digit_value h es) * h ^ Suc s) mod m"
  proof (rule Cons.IH)
    show "gs' ! i mod m = b ^ h ^ (i + Suc s) mod m" if "i < length es" for i
      using Cons.prems(1) [of "Suc i"] that gs by simp
  qed (use Cons.prems gs in auto)
  have "prod_list (map (\<lambda>(d, g). if d \<le> k then g ^ d else 1) (zip (d # es) gs)) mod m =
      g ^ d * ?tl mod m" using Cons.prems gs by simp
  also have "\<dots> = (b ^ h ^ s) ^ d * b ^ (nat (digit_value h es) * h ^ Suc s) mod m"
    by (rule mult_mod_cong [OF power_mod_cong [OF g] IH])
  also have "(b ^ h ^ s) ^ d * b ^ (nat (digit_value h es) * h ^ Suc s) =
      b ^ (nat (digit_value h (d # es)) * h ^ s)"
    using dv by (simp add: nat_add_distrib nat_mult_distrib algebra_simps flip: power_mult power_add)
  finally show ?case .
qed

lemma ROUNDUP_covers:
  assumes "0 < w" "1 \<le> b" "b < 2 ^ 64"
  shows "b \<le> w * ROUNDUP b w"
proof -
  have "b + (2 ^ 64 - 1) = (b - 1) + 2 ^ 64" using assms(2) by simp
  then have "(b + (2 ^ 64 - 1)) mod 2 ^ 64 = (b - 1) mod 2 ^ 64" by (metis mod_add_self2)
  also have "\<dots> = b - 1" using assms(3) by simp
  finally have "ROUNDUP b w = (b - 1) div w + 1" by (simp add: ROUNDUP_def)
  moreover have "b - 1 < w * ((b - 1) div w + 1)"
    using assms(1) by (metis add.commute dividend_less_times_div mult_Suc_right plus_1_eq_Suc)
  ultimately show ?thesis by simp
qed

lemma fbpowmod_extend_exact:
  assumes G: "gmp_arith G" and m: "1 < m"
    and ins: "fbpowmod_init_extend G base m maxbits w = Inr ins"
    and e: "0 \<le> e" "e < 2 ^ (w * (ROUNDUP maxbits w + 1))"
  shows "fbpowmod_extend ins e = Inr (base ^ nat e mod m)"
proof -
  let ?h = "2 ^ w :: nat" and ?t = "ROUNDUP maxbits w"
  have w: "m_w ins = w" and h: "m_h ins = ?h" and t: "m_t ins = ?t" and mm: "m_mod ins = m"
    and tab: "m_table_G ins = map (\<lambda>i. mpz_powm G base (int ?h ^ i) m) [0..<?t + 1]"
    using ins by (auto simp: fbpowmod_init_extend_def Let_def split: if_splits)
  obtain es where es: "fb_digits ins (m_t ins + 1) e = Inr es"
    using fb_digits_enough e(2) w t by metis
  have v: "digit_value ?h es = e" "length es \<le> ?t + 1" "\<And>d. d \<in> set es \<Longrightarrow> d \<le> ?h - 1"
    using fb_digits_value [OF _ e(1) es] h w t by (auto simp: less_eq_iff_succ_less)
  have "m_table_G ins ! i mod m = base ^ (?h ^ (i + 0)) mod m" if "i < length es" for i
  proof -
    have "mpz_powm G base (int ?h ^ i) m = base ^ (?h ^ i) mod m"
      using m by (simp add: gmp_powm [OF G] nat_power_eq)
    then show ?thesis using that v(2) by (simp add: tab del: upt_Suc)
  qed
  then have "prod_list (map (\<lambda>(d, g). if d \<le> ?h - 1 then g ^ d else 1) (zip es (m_table_G ins))) mod m
      = base ^ nat e mod m"
    using table_product [of es "m_table_G ins" m base ?h 0 "?h - 1"] v tab by simp
  moreover have "fb_outer ins es (?h - 1) 1 1 mod m = fb_outer ins es (?h - 1) 1 1"
    using fb_outer_range [of ins 1 es "?h - 1" 1] m mm by simp
  ultimately show ?thesis
    using fb_outer_mod [of ins es "?h - 1" 1 1] mm h es by (simp add: fbpowmod_extend_def)
qed

text \<open>
  C25. Fixed-base exponentiation is exact: for a modulus above 1, a window of 1 to 30 bits and an
  exponent of at most \<open>maxbits\<close> bits, initialising the table succeeds and the windowed loops
  return \<open>base ^ e mod m\<close>, the value \<^verbatim>\<open>mpz_powm\<close> would compute.
\<close>

theorem fbpowmod_correct:
  assumes "gmp_arith G" "1 < m" "0 < w" "w < 31" "1 \<le> maxbits" "maxbits < 2 ^ 64"
    and "0 \<le> e" "e < 2 ^ maxbits"
  shows "\<exists>ins. fbpowmod_init_extend G base m maxbits w = Inr ins \<and>
    fbpowmod_extend ins e = Inr (base ^ nat e mod m)"
proof -
  obtain ins where ins: "fbpowmod_init_extend G base m maxbits w = Inr ins"
    using assms(3,4) by (simp add: fbpowmod_init_extend_def Let_def)
  have "maxbits \<le> w * (ROUNDUP maxbits w + 1)"
    using ROUNDUP_covers [of w maxbits] assms by simp
  then have "(2::int) ^ maxbits \<le> 2 ^ (w * (ROUNDUP maxbits w + 1))"
    by (simp add: power_increasing)
  then have "e < 2 ^ (w * (ROUNDUP maxbits w + 1))" using assms(8) by linarith
  then show ?thesis
    using fbpowmod_extend_exact [OF assms(1,2) ins assms(7)] ins by blast
qed

theorem fbpowmod_correct_witness:
  "\<exists>ins. fbpowmod_init_extend gmp_ref 5 77 6 2 = Inr ins \<and>
    fbpowmod_extend ins 43 = Inr (5 ^ 43 mod 77)"
  using fbpowmod_correct [of gmp_ref 77 2 6 43 5] by (simp add: gmp_arith_ref)

text \<open>
  The digit buffer is the limit of the routine: an exponent with more base-\<open>h\<close> digits than the
  \<open>m_t + 1\<close> entries of \<^verbatim>\<open>m_e\<close> makes the first loop write past the buffer.
\<close>

theorem fbpowmod_overflow:
  assumes "fbpowmod_init_extend G base m maxbits w = Inr ins"
    and "2 ^ (w * (ROUNDUP maxbits w + 1)) \<le> e"
  shows "fbpowmod_extend ins e = Inl (Undefined ''write past m_e'')"
proof -
  have w: "m_w ins = w" "m_t ins = ROUNDUP maxbits w"
    using assms(1) by (auto simp: fbpowmod_init_extend_def Let_def split: if_splits)
  have "fb_digits ins k x = Inl (Undefined ''write past m_e'')" if "2 ^ (w * k) \<le> x" for k x
    using that
  proof (induction k arbitrary: x)
    case (Suc k)
    have "0 < x" using Suc.prems by (meson less_le_trans zero_less_numeral zero_less_power)
    moreover have "2 ^ (w * k) \<le> x div 2 ^ w"
      using Suc.prems by (intro le_zdiv_of_mult_le) (simp_all add: power_add mult.commute)
    ultimately show ?case using Suc.IH w by simp
  qed simp
  then have "fb_digits ins (m_t ins + 1) e = Inl (Undefined ''write past m_e'')"
    using assms(2) w by metis
  then show ?thesis by (simp only: fbpowmod_extend_def bindR_simps)
qed

theorem fbpowmod_overflow_witness:
  "\<exists>ins. fbpowmod_init_extend gmp_ref 5 77 4 2 = Inr ins \<and>
     fbpowmod_extend ins 64 = Inl (Undefined ''write past m_e'')"
proof -
  obtain ins where "fbpowmod_init_extend gmp_ref 5 77 4 2 = Inr ins"
    by (simp add: fbpowmod_init_extend_def Let_def)
  moreover have "(2::int) ^ (2 * (ROUNDUP 4 2 + 1)) \<le> 64" by (simp add: ROUNDUP_def)
  ultimately show ?thesis using fbpowmod_overflow by blast
qed

end
