(* ===== verification/Aby_Utils.thy ===== *)
theory Aby_Utils
  imports Prelude
begin

text \<open>
  The helpers of \<^verbatim>\<open>algorithm/opt_paillier/src/utils.cc\<close>: the logarithms, whose shift loop does not
  end on a negative argument, and the random number source. Each call of \<^verbatim>\<open>aby_prng\<close> reads one
  block of \<^verbatim>\<open>/dev/urandom\<close>; the blocks a run reads are a list, its \<open>tape\<close>.
\<close>

unbundle bit_operations_syntax

section \<open>Logarithms\<close>

text \<open>\<^verbatim>\<open>while (bitstemp >>= 1) ++targetlevel;\<close> with the arithmetic shift of a signed \<^verbatim>\<open>int\<close>.\<close>

partial_function (option) level_loop :: "int \<Rightarrow> nat \<Rightarrow> nat option" where
  "level_loop bitstemp targetlevel =
     (if bitstemp div 2 = 0 then Some targetlevel
      else level_loop (bitstemp div 2) (Suc targetlevel))"

definition ceil_of_level :: "int \<Rightarrow> nat option" where
  "ceil_of_level bits =
     map_option (\<lambda>l. l + (if 2 ^ l < bits then 1 else 0)) (level_loop bits 0)"

definition ceil_log2 :: "int \<Rightarrow> nat option" where
  "ceil_log2 bits = (if bits = 1 then Some 1 else ceil_of_level bits)"

definition ceil_log2_min1 :: "int \<Rightarrow> nat option" where
  "ceil_log2_min1 bits = (if bits \<le> 1 then Some 1 else ceil_of_level bits)"

definition ceil_log2_real :: "int \<Rightarrow> nat option" where
  "ceil_log2_real bits = (if bits = 1 then Some 0 else ceil_of_level bits)"

definition floor_log2 :: "int \<Rightarrow> nat option" where
  "floor_log2 bits = (if bits = 1 then Some 1 else level_loop bits 0)"

lemma level_loop_floor:
  "1 \<le> b \<Longrightarrow> \<exists>l. level_loop b t = Some (t + l) \<and> 2 ^ l \<le> b \<and> b < 2 ^ Suc l"
proof (induction "nat b" arbitrary: b t rule: less_induct)
  case less
  show ?case
  proof (cases "b div 2 = 0")
    case True
    then have "b = 1" using less.prems by linarith
    then show ?thesis by (auto simp: level_loop.simps [of 1 t] intro!: exI [of _ 0])
  next
    case False
    then have "1 \<le> b div 2" "nat (b div 2) < nat b" using less.prems by linarith+
    then obtain l where "level_loop (b div 2) (Suc t) = Some (Suc t + l)"
      "2 ^ l \<le> b div 2" "b div 2 < 2 ^ Suc l" using less.hyps by blast
    moreover have "b = 2 * (b div 2) + b mod 2" "b mod 2 < 2" "0 \<le> b mod 2" by simp_all
    ultimately show ?thesis using False
      by (intro exI [of _ "Suc l"]) (auto simp: level_loop.simps [of b t])
  qed
qed

lemma level_loop_returns_nonneg: "level_loop b t = Some r \<Longrightarrow> 0 \<le> b"
proof (rule level_loop.raw_induct [where P = "\<lambda>b t r. 0 \<le> b"])
  fix f and b :: int and t r :: nat
  assume IH: "\<And>b t r. f b t = Some r \<Longrightarrow> 0 \<le> (b::int)"
    and eq: "(if b div 2 = 0 then Some t else f (b div 2) (Suc t)) = Some r"
  show "0 \<le> b"
  proof (cases "b div 2 = 0")
    case False
    with eq have "f (b div 2) (Suc t) = Some r" by simp
    then have "0 \<le> b div 2" by (rule IH)
    then show ?thesis by (simp add: pos_imp_zdiv_nonneg_iff)
  qed linarith
qed

section \<open>Random numbers\<close>

definition ceil_divide :: "nat \<Rightarrow> nat \<Rightarrow> nat" where
  "ceil_divide x y = (x + y - 1) div y"

text \<open>\<^verbatim>\<open>mpz_import\<close> with the most significant byte first.\<close>

definition mpz_import :: "u8 list \<Rightarrow> int" where
  "mpz_import data = foldl (\<lambda>a b. a * 256 + uint b) 0 data"

text \<open>
  \<^verbatim>\<open>aby_prng\<close> on the block the device delivered: import its bytes, then clear the bits above
  \<open>bitlen\<close>. A block of another length is no behaviour of the read loop.
\<close>

definition aby_prng :: "nat \<Rightarrow> u8 list \<Rightarrow> int option" where
  "aby_prng bitlen data =
     (let byte_count = ceil_divide bitlen 8 in
      if length data \<noteq> byte_count then None
      else if bitlen mod 8 \<noteq> 0
      then Some (fold (\<lambda>i v. unset_bit (byte_count * 8 - i - 1) v) [0..<8 - bitlen mod 8] (mpz_import data))
      else Some (mpz_import data))"

lemma mpz_import_range: "0 \<le> mpz_import data \<and> mpz_import data < 256 ^ length data"
proof (induction data rule: rev_induct)
  case (snoc b bs)
  have "uint b < 256" using uint_lt2p [of b] by simp
  moreover have "mpz_import bs + 1 \<le> 256 ^ length bs" using snoc by simp
  then have "(mpz_import bs + 1) * 256 \<le> 256 ^ length bs * 256" by (rule mult_right_mono) simp
  ultimately show ?case using snoc by (simp add: mpz_import_def mult.commute)
qed (simp add: mpz_import_def)

lemma byte_power: "(256::int) ^ k = 2 ^ (k * 8)"
  by (simp add: mult.commute [of _ 8] power_mult)

lemma bit_fold_unset_bit:
  "bit (fold (\<lambda>i v. unset_bit (f i) v) xs v) j \<longleftrightarrow> bit (v::int) j \<and> j \<notin> f ` set xs"
  by (induction xs arbitrary: v) (auto simp: bit_unset_bit_iff)

lemma aby_prng_take_bit:
  assumes "aby_prng bitlen data = Some v"
  shows "v = mpz_import data mod 2 ^ bitlen"
proof (cases "bitlen mod 8 = 0")
  case True
  have "length data * 8 = bitlen" "v = mpz_import data"
    using assms True by (auto simp: aby_prng_def ceil_divide_def Let_def split: if_splits)
  then show ?thesis using mpz_import_range [of data] by (simp add: byte_power)
next
  case False
  let ?n = "length data"
  have len: "?n = (bitlen + 7) div 8" and
    v: "v = fold (\<lambda>i v. unset_bit (?n * 8 - i - 1) v) [0..<8 - bitlen mod 8] (mpz_import data)"
    using assms False by (auto simp: aby_prng_def ceil_divide_def Let_def split: if_splits)
  have n: "?n * 8 = bitlen + (8 - bitlen mod 8)" using False len by presburger
  have "(\<lambda>i. ?n * 8 - i - 1) ` {0..<8 - bitlen mod 8} = {bitlen..<?n * 8}"
  proof (intro set_eqI iffI)
    fix j assume "j \<in> {bitlen..<?n * 8}"
    then show "j \<in> (\<lambda>i. ?n * 8 - i - 1) ` {0..<8 - bitlen mod 8}"
      using n by (intro image_eqI [of _ _ "?n * 8 - 1 - j"]) auto
  qed (use n in auto)
  moreover have "take_bit (?n * 8) (mpz_import data) = mpz_import data"
    using mpz_import_range [of data] by (simp add: take_bit_eq_mod byte_power)
  then have "\<not> bit (mpz_import data) j" if "?n * 8 \<le> j" for j
    using that by (metis bit_take_bit_iff linorder_not_less)
  ultimately have "v = take_bit bitlen (mpz_import data)"
    by (intro bit_eqI) (auto simp: v bit_fold_unset_bit bit_take_bit_iff not_less)
  then show ?thesis by (simp add: take_bit_eq_mod)
qed

lemma aby_prng_readable:
  assumes "length data = ceil_divide bitlen 8"
  shows "aby_prng bitlen data = Some (mpz_import data mod 2 ^ bitlen)"
proof -
  obtain v where "aby_prng bitlen data = Some v" using assms 
    by (cases "bitlen mod 8 = 0") (auto simp: aby_prng_def Let_def)
  then show ?thesis using aby_prng_take_bit by blast
qed

lemma mpz_import_zeros: "mpz_import (replicate k 0 @ data) = mpz_import data"
  by (induction k) (simp_all add: mpz_import_def)

lemma aby_prng_range:
  "aby_prng bitlen data = Some v \<Longrightarrow> 0 \<le> v \<and> v < 2 ^ bitlen"
  by (drule aby_prng_take_bit) simp

end
