(* ===== verification/Paillier.thy ===== *)
theory Paillier
  imports Powmod Aby_Utils
begin

text \<open>
  The optimised Paillier cryptosystem of \<^verbatim>\<open>algorithm/opt_paillier/src/paillier.cc\<close>. The key
  structures are the records \<open>opt_public_key_t\<close> and \<open>opt_secret_key_t\<close>; every function of the file
  that computes is one definition, with the random blocks it reads as an argument. The predicate
  \<open>key_ok\<close> collects what key generation establishes. Two interfaces organise the proofs: a
  provider of powers of \<open>h_s\<close> modulo \<open>n\<^sup>2\<close> (three implementations) and a decryptor (two).
\<close>

section \<open>Keys\<close>

record opt_public_key_t =
  pk_nbits :: nat
  pk_lbits :: nat
  pk_n :: int
  pk_half_n :: int
  pk_n_squared :: int
  pk_h_s :: int
  pk_fb_mod_P_sqaured :: fb_instance
  pk_fb_mod_Q_sqaured :: fb_instance

record opt_secret_key_t =
  sk_p :: int
  sk_q :: int
  sk_p' :: int
  sk_q' :: int
  sk_alpha :: int
  sk_beta :: int
  sk_P :: int
  sk_Q :: int
  sk_P_squared :: int
  sk_Q_squared :: int
  sk_double_alpha :: int
  sk_double_beta :: int
  sk_double_alpha_inverse :: int
  sk_P_squared_mul_P_squared_inverse :: int
  sk_P_mul_P_inverse :: int
  sk_double_p :: int
  sk_double_q :: int
  sk_Q_mul_double_p_inverse :: int
  sk_P_mul_double_q_inverse :: int

section \<open>Powers of the generator modulo the squared modulus\<close>

definition opt_paillier_mod_n_squared_crt ::
  "gmp \<Rightarrow> int \<Rightarrow> int \<Rightarrow> opt_public_key_t \<Rightarrow> opt_secret_key_t \<Rightarrow> int" where
  "opt_paillier_mod_n_squared_crt G base e pub prv =
     (let cp = mpz_powm G (base mod sk_P_squared prv) e (sk_P_squared prv);
          cq = mpz_powm G (base mod sk_Q_squared prv) e (sk_Q_squared prv)
      in (cp + (cq - cp) * sk_P_squared_mul_P_squared_inverse prv) mod pk_n_squared pub)"

definition opt_paillier_mod_n_squared_crt_fb ::
  "int \<Rightarrow> opt_public_key_t \<Rightarrow> opt_secret_key_t \<Rightarrow> int res" where
  "opt_paillier_mod_n_squared_crt_fb e pub prv =
     bindR (fbpowmod_extend (pk_fb_mod_P_sqaured pub) e) (\<lambda>cp.
     bindR (fbpowmod_extend (pk_fb_mod_Q_sqaured pub) e) (\<lambda>cq.
     Inr ((cp + (cq - cp) * sk_P_squared_mul_P_squared_inverse prv) mod pk_n_squared pub)))"

section \<open>Plaintexts\<close>

definition opt_paillier_set_plaintext :: "gmp \<Rightarrow> string \<Rightarrow> opt_public_key_t \<Rightarrow> int \<Rightarrow> int" where
  "opt_paillier_set_plaintext G plaintext pub radix =
     (let v = mpz_set_str G plaintext radix in
      if v < 0 then (v + pk_n pub) mod pk_n pub else v)"

definition opt_paillier_get_plaintext :: "gmp \<Rightarrow> int \<Rightarrow> opt_public_key_t \<Rightarrow> int \<Rightarrow> string" where
  "opt_paillier_get_plaintext G v pub radix =
     (if pk_half_n pub \<le> v then mpz_get_str G radix (v - pk_n pub) else mpz_get_str G radix v)"

definition validate_message :: "int \<Rightarrow> opt_public_key_t \<Rightarrow> bool" where
  "validate_message msg pub = (if msg < 0 then False else if pk_n pub \<le> msg then False else True)"

section \<open>Encryption and decryption\<close>

definition draw_r :: "opt_public_key_t \<Rightarrow> u8 list \<Rightarrow> int res" where
  "draw_r pub block =
     (case aby_prng (pk_lbits pub) block of
        None \<Rightarrow> Inl (Undefined ''incomplete read of /dev/urandom'')
      | Some r \<Rightarrow> Inr r)"

definition opt_paillier_encrypt ::
  "gmp \<Rightarrow> opt_public_key_t \<Rightarrow> int \<Rightarrow> u8 list \<Rightarrow> int res" where
  "opt_paillier_encrypt G pub plaintext block =
     bindR (draw_r pub block) (\<lambda>r.
     Inr ((plaintext * pk_n pub + 1) * mpz_powm G (pk_h_s pub) r (pk_n_squared pub)
          mod pk_n_squared pub))"

definition opt_paillier_encrypt_crt ::
  "gmp \<Rightarrow> opt_public_key_t \<Rightarrow> opt_secret_key_t \<Rightarrow> int \<Rightarrow> u8 list \<Rightarrow> int res" where
  "opt_paillier_encrypt_crt G pub prv plaintext block =
     bindR (draw_r pub block) (\<lambda>r.
     Inr ((plaintext * pk_n pub + 1) * opt_paillier_mod_n_squared_crt G (pk_h_s pub) r pub prv
          mod pk_n_squared pub))"

definition opt_paillier_encrypt_crt_fb ::
  "opt_public_key_t \<Rightarrow> opt_secret_key_t \<Rightarrow> int \<Rightarrow> u8 list \<Rightarrow> int res" where
  "opt_paillier_encrypt_crt_fb pub prv plaintext block =
     bindR (draw_r pub block) (\<lambda>r.
     bindR (opt_paillier_mod_n_squared_crt_fb r pub prv) (\<lambda>hr.
     Inr ((plaintext * pk_n pub + 1) * hr mod pk_n_squared pub)))"

definition opt_paillier_decrypt ::
  "gmp \<Rightarrow> opt_public_key_t \<Rightarrow> opt_secret_key_t \<Rightarrow> int \<Rightarrow> int" where
  "opt_paillier_decrypt G pub prv ciphertext =
     (mpz_powm G ciphertext (sk_double_alpha prv) (pk_n_squared pub) - 1) div pk_n pub
       * sk_double_alpha_inverse prv mod pk_n pub"

definition opt_paillier_decrypt_crt ::
  "gmp \<Rightarrow> opt_public_key_t \<Rightarrow> opt_secret_key_t \<Rightarrow> int \<Rightarrow> int" where
  "opt_paillier_decrypt_crt G pub prv ciphertext =
     (let cp = (mpz_powm G (ciphertext mod sk_P_squared prv) (sk_double_p prv) (sk_P_squared prv) - 1)
                 div sk_P prv * sk_Q_mul_double_p_inverse prv mod sk_P prv;
          cq = (mpz_powm G (ciphertext mod sk_Q_squared prv) (sk_double_q prv) (sk_Q_squared prv) - 1)
                 div sk_Q prv * sk_P_mul_double_q_inverse prv mod sk_Q prv
      in (cp + (cq - cp) * sk_P_mul_P_inverse prv) mod pk_n pub)"

definition opt_paillier_add :: "int \<Rightarrow> int \<Rightarrow> opt_public_key_t \<Rightarrow> int" where
  "opt_paillier_add op1 op2 pub = op1 * op2 mod pk_n_squared pub"

definition opt_paillier_constant_mul :: "gmp \<Rightarrow> int \<Rightarrow> int \<Rightarrow> opt_public_key_t \<Rightarrow> int" where
  "opt_paillier_constant_mul G op1 op2 pub = mpz_powm G op1 op2 (pk_n_squared pub)"

section \<open>What key generation establishes\<close>

definition generator_of :: "int \<Rightarrow> int \<Rightarrow> int \<Rightarrow> int" where
  "generator_of y double_beta n = (- (y ^ nat double_beta mod n)) ^ nat n mod (n * n)"

definition key_ok :: "gmp \<Rightarrow> opt_public_key_t \<Rightarrow> opt_secret_key_t \<Rightarrow> bool" where
  "key_ok G pub prv \<longleftrightarrow>
     gmp_arith G \<and>
     is_prime (sk_P prv) \<and> is_prime (sk_Q prv) \<and> sk_P prv \<noteq> sk_Q prv \<and>
     0 < sk_p prv \<and> 0 < sk_q prv \<and> 0 < sk_p' prv \<and> 0 < sk_q' prv \<and>
     sk_P prv = 2 * sk_p prv * sk_p' prv + 1 \<and> sk_Q prv = 2 * sk_q prv * sk_q' prv + 1 \<and>
     sk_P_squared prv = sk_P prv * sk_P prv \<and> sk_Q_squared prv = sk_Q prv * sk_Q prv \<and>
     sk_double_p prv = 2 * sk_p prv \<and> sk_double_q prv = 2 * sk_q prv \<and>
     sk_double_alpha prv = 2 * (sk_p prv * sk_q prv) \<and>
     sk_double_beta prv = 2 * (sk_p' prv * sk_q' prv) \<and>
     pk_n pub = sk_P prv * sk_Q prv \<and> pk_n_squared pub = pk_n pub * pk_n pub \<and>
     pk_half_n pub = pk_n pub div 2 \<and>
     coprime (sk_double_alpha prv) (pk_n pub) \<and>
     (\<exists>y. coprime y (pk_n pub) \<and> pk_h_s pub = generator_of y (sk_double_beta prv) (pk_n pub)) \<and>
     sk_P_mul_P_inverse prv = mpz_invert G (sk_P prv) (sk_Q prv) * sk_P prv \<and>
     sk_P_squared_mul_P_squared_inverse prv =
       mpz_invert G (sk_P_squared prv) (sk_Q_squared prv) * sk_P_squared prv \<and>
     sk_double_alpha_inverse prv = mpz_invert G (sk_double_alpha prv) (pk_n pub) \<and>
     sk_Q_mul_double_p_inverse prv = mpz_invert G (sk_Q prv * sk_double_p prv) (sk_P prv) \<and>
     sk_P_mul_double_q_inverse prv = mpz_invert G (sk_P prv * sk_double_q prv) (sk_Q prv) \<and>
     pk_lbits pub + 1 < 2 ^ 64 \<and>
     fbpowmod_init_extend G (pk_h_s pub mod sk_P_squared prv) (sk_P_squared prv) (pk_lbits pub + 1) 4
       = Inr (pk_fb_mod_P_sqaured pub) \<and>
     fbpowmod_init_extend G (pk_h_s pub mod sk_Q_squared prv) (sk_Q_squared prv) (pk_lbits pub + 1) 4
       = Inr (pk_fb_mod_Q_sqaured pub)"

text \<open>The ciphertexts of \<open>m\<close>: \<open>(1 + m * n) * h_s ^ r\<close> modulo \<open>n\<^sup>2\<close>.\<close>

definition cipher :: "opt_public_key_t \<Rightarrow> int \<Rightarrow> nat \<Rightarrow> int" where
  "cipher pub m r = (1 + m * pk_n pub) * pk_h_s pub ^ r mod pk_n_squared pub"

section \<open>The order of the generator\<close>

text \<open>
  For a prime \<open>R\<close> dividing \<open>n\<close>, an even exponent \<open>k\<close> kills the sign of the generator, and when
  \<open>R - 1\<close> divides \<open>double_beta * k\<close> Fermat's theorem makes the rest vanish modulo \<open>R\<^sup>2\<close>.
\<close>

lemma generator_order:
  assumes R: "is_prime R" "R dvd n" and n: "0 < n" and y: "coprime y n" and k: "even k"
    and ord: "nat (R - 1) dvd nat db * k"
  shows "generator_of y db n ^ k mod (R * R) = 1"
proof -
  let ?g = "- (y ^ nat db mod n)"
  have ny: "\<not> R dvd y"
  proof
    assume "R dvd y"
    then have "is_unit R" using R(2) y coprime_common_divisor by blast
    then show False using is_prime_gt_1 [OF R(1)] by simp
  qed
  have "?g ^ k mod R = (y ^ nat db mod n) ^ k mod R" using k by simp
  also have "\<dots> = (y ^ nat db) ^ k mod R"
    using R(2) by (intro power_mod_cong) (simp add: mod_mod_cancel)
  also have "\<dots> = 1"
    using fermat_multiple [OF R(1) ny ord] by (simp add: power_mult)
  finally have "?g ^ k mod R = 1 mod R" using is_prime_gt_1 [OF R(1)] by simp
  then have "(?g ^ k) ^ nat n mod (R * R) = 1 mod (R * R)"
    using R(2) n by (intro power_lifts_to_square) simp_all
  moreover have "generator_of y db n ^ k mod (R * R) = (?g ^ nat n) ^ k mod (R * R)"
    using R(2) by (intro power_mod_cong) (simp add: generator_of_def mod_mod_cancel mult_dvd_mono)
  moreover have "1 < R * R" using is_prime_gt_1 [OF R(1)] by (metis less_1_mult)
  ultimately show ?thesis by (simp add: mult.commute flip: power_mult)
qed

text \<open>Consequences of \<open>key_ok\<close> used by all clients, gathered in one place.\<close>

lemma key_okD:
  assumes "key_ok G pub prv"
  shows "gmp_arith G" "is_prime (sk_P prv)" "is_prime (sk_Q prv)" "sk_P prv \<noteq> sk_Q prv"
    "0 < sk_p prv" "0 < sk_q prv" "0 < sk_p' prv" "0 < sk_q' prv"
    "sk_P prv = 2 * sk_p prv * sk_p' prv + 1" "sk_Q prv = 2 * sk_q prv * sk_q' prv + 1"
    "sk_P_squared prv = sk_P prv * sk_P prv" "sk_Q_squared prv = sk_Q prv * sk_Q prv"
    "sk_double_p prv = 2 * sk_p prv" "sk_double_q prv = 2 * sk_q prv"
    "sk_double_alpha prv = 2 * (sk_p prv * sk_q prv)"
    "sk_double_beta prv = 2 * (sk_p' prv * sk_q' prv)"
    "pk_n pub = sk_P prv * sk_Q prv" "pk_n_squared pub = pk_n pub * pk_n pub"
    "pk_half_n pub = pk_n pub div 2" "coprime (sk_double_alpha prv) (pk_n pub)"
    "\<exists>y. coprime y (pk_n pub) \<and> pk_h_s pub = generator_of y (sk_double_beta prv) (pk_n pub)"
    "sk_P_mul_P_inverse prv = mpz_invert G (sk_P prv) (sk_Q prv) * sk_P prv"
    "sk_P_squared_mul_P_squared_inverse prv =
       mpz_invert G (sk_P_squared prv) (sk_Q_squared prv) * sk_P_squared prv"
    "sk_double_alpha_inverse prv = mpz_invert G (sk_double_alpha prv) (pk_n pub)"
    "sk_Q_mul_double_p_inverse prv = mpz_invert G (sk_Q prv * sk_double_p prv) (sk_P prv)"
    "sk_P_mul_double_q_inverse prv = mpz_invert G (sk_P prv * sk_double_q prv) (sk_Q prv)"
    "pk_lbits pub + 1 < 2 ^ 64"
    "fbpowmod_init_extend G (pk_h_s pub mod sk_P_squared prv) (sk_P_squared prv) (pk_lbits pub + 1) 4
       = Inr (pk_fb_mod_P_sqaured pub)"
    "fbpowmod_init_extend G (pk_h_s pub mod sk_Q_squared prv) (sk_Q_squared prv) (pk_lbits pub + 1) 4
       = Inr (pk_fb_mod_Q_sqaured pub)"
  using assms unfolding key_ok_def by blast+

lemma key_ok_primes:
  assumes "key_ok G pub prv"
  shows "is_prime (sk_P prv)" "is_prime (sk_Q prv)" "coprime (sk_P prv) (sk_Q prv)"
    "1 < sk_P prv" "1 < sk_Q prv" "pk_n pub = sk_P prv * sk_Q prv" "1 < pk_n pub"
    "pk_n_squared pub = pk_n pub * pk_n pub"
    "pk_n_squared pub = (sk_P prv * sk_P prv) * (sk_Q prv * sk_Q prv)" "1 < pk_n_squared pub"
    "coprime (sk_P prv * sk_P prv) (sk_Q prv * sk_Q prv)"
    "1 < sk_P prv * sk_P prv" "1 < sk_Q prv * sk_Q prv"
proof -
  show P: "is_prime (sk_P prv)" and Q: "is_prime (sk_Q prv)"
    and n: "pk_n pub = sk_P prv * sk_Q prv" and nn: "pk_n_squared pub = pk_n pub * pk_n pub"
    using key_okD [OF assms] by blast+
  show c: "coprime (sk_P prv) (sk_Q prv)"
    using key_okD(2-4) [OF assms] by (rule is_prime_neq_coprime)
  show P1: "1 < sk_P prv" and Q1: "1 < sk_Q prv" using P Q is_prime_gt_1 by blast+
  show n1: "1 < pk_n pub" using P1 Q1 n by (simp add: less_1_mult)
  show "pk_n_squared pub = (sk_P prv * sk_P prv) * (sk_Q prv * sk_Q prv)" by (simp add: n nn)
  show "1 < pk_n_squared pub" "1 < sk_P prv * sk_P prv" "1 < sk_Q prv * sk_Q prv"
    using n1 nn P1 Q1 by (simp_all add: less_1_mult)
  show "coprime (sk_P prv * sk_P prv) (sk_Q prv * sk_Q prv)" using c by simp
qed

lemma key_ok_orders:
  assumes "key_ok G pub prv"
  shows "pk_h_s pub ^ nat (sk_double_p prv) mod (sk_P prv * sk_P prv) = 1" (is ?P)
    and "pk_h_s pub ^ nat (sk_double_q prv) mod (sk_Q prv * sk_Q prv) = 1" (is ?Q)
    and "pk_h_s pub ^ nat (sk_double_alpha prv) mod pk_n_squared pub = 1" (is ?N)
proof -
  note k = key_ok_primes [OF assms]
  from assms obtain y where y: "coprime y (pk_n pub)"
    and h: "pk_h_s pub = generator_of y (sk_double_beta prv) (pk_n pub)"
    using key_okD(21) [OF assms] by blast
  note pos = key_okD(5-8) [OF assms]
  have eqs: "sk_double_p prv = 2 * sk_p prv" "sk_double_q prv = 2 * sk_q prv"
    "sk_double_alpha prv = 2 * (sk_p prv * sk_q prv)"
    "sk_double_beta prv = 2 * (sk_p' prv * sk_q' prv)"
    "sk_P prv - 1 = 2 * sk_p prv * sk_p' prv" "sk_Q prv - 1 = 2 * sk_q prv * sk_q' prv"
    using key_okD(9,10,13-16) [OF assms] by simp_all
  have dvd: "nat a dvd nat b * nat c" if "a dvd b * c" "0 \<le> a" "0 \<le> b" "0 \<le> c" for a b c :: int
    using that by (simp add: nat_mult_distrib [symmetric] nat_dvd_iff)
  have ev: "even (nat (2 * x))" for x :: int by (simp add: even_nat_iff nat_mult_distrib)
  have beta: "0 \<le> sk_double_beta prv" using pos eqs by simp
  note gen = generator_order [OF _ _ _ y, of _ _ "sk_double_beta prv", folded h]
  have P: "pk_h_s pub ^ nat e mod (sk_P prv * sk_P prv) = 1"
    if "sk_P prv - 1 dvd sk_double_beta prv * e" "0 \<le> e" "even e" for e
    using that k beta by (intro gen dvd) (auto simp: even_nat_iff)
  have Q: "pk_h_s pub ^ nat e mod (sk_Q prv * sk_Q prv) = 1"
    if "sk_Q prv - 1 dvd sk_double_beta prv * e" "0 \<le> e" "even e" for e
    using that k beta by (intro gen dvd) (auto simp: even_nat_iff)
  show ?P using pos by (intro P) (auto simp: eqs intro!: dvdI [of _ _ "2 * sk_q' prv"])
  show ?Q using pos by (intro Q) (auto simp: eqs intro!: dvdI [of _ _ "2 * sk_p' prv"])
  let ?ha = "pk_h_s pub ^ nat (sk_double_alpha prv)"
  have "?ha mod (sk_P prv * sk_P prv) = 1"
    using pos by (intro P) (auto simp: eqs intro!: dvdI [of _ _ "2 * sk_q prv * sk_q' prv"])
  moreover have "?ha mod (sk_Q prv * sk_Q prv) = 1"
    using pos by (intro Q) (auto simp: eqs intro!: dvdI [of _ _ "2 * sk_p prv * sk_p' prv"])
  ultimately have "?ha mod pk_n_squared pub = 1 mod pk_n_squared pub"
    unfolding k(9) using k(12,13) by (intro crt_unique [OF k(11)]) simp_all
  then show ?N using k(10) by simp
qed

section \<open>The providers of generator powers\<close>

text \<open>
  The interface the three encryption routines share: for an accepted key and a random exponent of
  at most \<open>bits\<close> bits, the provider returns \<open>h_s ^ r mod n\<^sup>2\<close>.
\<close>

type_synonym keypair = "gmp \<times> opt_public_key_t \<times> opt_secret_key_t"

abbreviation key_valid :: "keypair \<Rightarrow> bool" where
  "key_valid \<equiv> \<lambda>(G, pub, prv). key_ok G pub prv"

locale hs_power =
  fixes valid :: "'k \<Rightarrow> bool"
    and pub_of :: "'k \<Rightarrow> opt_public_key_t"
    and pw :: "'k \<Rightarrow> int \<Rightarrow> int res"
  assumes pw_spec:
    "valid k \<Longrightarrow> 0 \<le> r \<Longrightarrow> r < 2 ^ pk_lbits (pub_of k) \<Longrightarrow>
     pw k r = Inr (pk_h_s (pub_of k) ^ nat r mod pk_n_squared (pub_of k))"
begin

text \<open>
  An encryption routine built on the provider returns a ciphertext of its plaintext for every block
  of random bytes of the right length.
\<close>

lemma encrypt_is_cipher:
  assumes "valid k" "aby_prng (pk_lbits (pub_of k)) block = Some r"
  shows "bindR (draw_r (pub_of k) block) (\<lambda>r. bindR (pw k r) (\<lambda>hr.
      Inr ((m * pk_n (pub_of k) + 1) * hr mod pk_n_squared (pub_of k)))) =
    Inr (cipher (pub_of k) m (nat r))"
  using assms aby_prng_range [OF assms(2)]
  by (simp add: draw_r_def pw_spec cipher_def mod_mult_right_eq add.commute)

end

lemma powm_provider:
  assumes "key_ok G pub prv" "0 \<le> r"
  shows "mpz_powm G (pk_h_s pub) r (pk_n_squared pub) = pk_h_s pub ^ nat r mod pk_n_squared pub"
  using key_okD(1) [OF assms(1)] key_ok_primes(10) [OF assms(1)] assms(2) by (simp add: gmp_powm)

text \<open>Recombination of the two half-size powers gives the power modulo \<open>n\<^sup>2\<close>.\<close>

lemma squares_recombine:
  assumes "key_ok G pub prv"
    and "cp mod (sk_P prv * sk_P prv) = x mod (sk_P prv * sk_P prv)"
    and "cq mod (sk_Q prv * sk_Q prv) = x mod (sk_Q prv * sk_Q prv)"
  shows "(cp + (cq - cp) * sk_P_squared_mul_P_squared_inverse prv) mod pk_n_squared pub =
    x mod pk_n_squared pub"
proof -
  note k = key_ok_primes [OF assms(1)]
  let ?e = "sk_P_squared_mul_P_squared_inverse prv"
  have e: "?e = mpz_invert G (sk_P prv * sk_P prv) (sk_Q prv * sk_Q prv) * (sk_P prv * sk_P prv)"
    using key_okD(11,12,23) [OF assms(1)] by simp
  have "?e mod (sk_Q prv * sk_Q prv) = 1 mod (sk_Q prv * sk_Q prv)"
    unfolding e using gmp_invert' [OF key_okD(1) [OF assms(1)] k(13,11)] k(13) by simp
  then show ?thesis
    unfolding k(9) using assms(2,3) by (intro garner_recombine [OF k(11)]) (simp_all add: e)
qed

lemma crt_provider:
  assumes "key_ok G pub prv" "0 \<le> r"
  shows "opt_paillier_mod_n_squared_crt G b r pub prv = b ^ nat r mod pk_n_squared pub"
proof -
  note k = key_ok_primes [OF assms(1)]
  have "mpz_powm G (b mod s) r s mod s = b ^ nat r mod s" if "1 < s" for s
    using key_okD(1) [OF assms(1)] assms(2) that by (simp add: gmp_powm power_mod)
  then show ?thesis
    unfolding opt_paillier_mod_n_squared_crt_def Let_def
    using key_okD(11,12) [OF assms(1)] k(12,13) by (intro squares_recombine [OF assms(1)]) simp_all
qed

lemma crt_fb_provider:
  assumes "key_ok G pub prv" "0 \<le> r" "r < 2 ^ pk_lbits pub"
  shows "opt_paillier_mod_n_squared_crt_fb r pub prv = Inr (pk_h_s pub ^ nat r mod pk_n_squared pub)"
proof -
  note d = key_okD [OF assms(1)] and k = key_ok_primes [OF assms(1)]
  let ?b = "pk_lbits pub + 1"
  have "?b \<le> 4 * (ROUNDUP ?b 4 + 1)" using ROUNDUP_covers [of 4 ?b] d(27) by simp
  then have "(2::int) ^ ?b \<le> 2 ^ (4 * (ROUNDUP ?b 4 + 1))" by (rule power_increasing) simp
  moreover have "(2::int) ^ pk_lbits pub \<le> 2 ^ ?b" by (rule power_increasing) simp_all
  ultimately have r: "r < 2 ^ (4 * (ROUNDUP ?b 4 + 1))" using assms(3) by linarith
  have "fbpowmod_extend (pk_fb_mod_P_sqaured pub) r =
      Inr ((pk_h_s pub mod sk_P_squared prv) ^ nat r mod sk_P_squared prv)"
    by (rule fbpowmod_extend_exact [OF d(1) _ d(28) assms(2) r]) (simp add: d(11) k(12))
  moreover have "fbpowmod_extend (pk_fb_mod_Q_sqaured pub) r =
      Inr ((pk_h_s pub mod sk_Q_squared prv) ^ nat r mod sk_Q_squared prv)"
    by (rule fbpowmod_extend_exact [OF d(1) _ d(29) assms(2) r]) (simp add: d(12) k(13))
  ultimately show ?thesis
    unfolding opt_paillier_mod_n_squared_crt_fb_def using d(11,12)
    by (simp add: power_mod squares_recombine [OF assms(1)])
qed

interpretation plain_power: hs_power key_valid "\<lambda>(G, pub, prv). pub"
  "\<lambda>(G, pub, prv) r. Inr (mpz_powm G (pk_h_s pub) r (pk_n_squared pub))"
  by unfold_locales (auto simp: powm_provider)

interpretation crt_power: hs_power key_valid "\<lambda>(G, pub, prv). pub"
  "\<lambda>(G, pub, prv) r. Inr (opt_paillier_mod_n_squared_crt G (pk_h_s pub) r pub prv)"
  by unfold_locales (auto simp: crt_provider)

interpretation fb_power: hs_power key_valid "\<lambda>(G, pub, prv). pub"
  "\<lambda>(G, pub, prv) r. opt_paillier_mod_n_squared_crt_fb r pub prv"
  by unfold_locales (auto simp: crt_fb_provider)

lemma encrypt_cipher:
  assumes "key_ok G pub prv" "aby_prng (pk_lbits pub) block = Some r"
  shows "opt_paillier_encrypt G pub m block = Inr (cipher pub m (nat r))"
    and "opt_paillier_encrypt_crt G pub prv m block = Inr (cipher pub m (nat r))"
    and "opt_paillier_encrypt_crt_fb pub prv m block = Inr (cipher pub m (nat r))"
  using plain_power.encrypt_is_cipher [of "(G, pub, prv)" block r m]
    crt_power.encrypt_is_cipher [of "(G, pub, prv)" block r m]
    fb_power.encrypt_is_cipher [of "(G, pub, prv)" block r m] assms
  by (simp_all add: opt_paillier_encrypt_def opt_paillier_encrypt_crt_def
      opt_paillier_encrypt_crt_fb_def)

section \<open>Decryptors\<close>

text \<open>
  The interface of decryption: on every ciphertext of \<open>m\<close>, whatever the exponent, the decryptor
  returns \<open>m mod n\<close>. The homomorphic laws follow once for every decryptor.
\<close>

locale decryptor =
  fixes valid :: "'k \<Rightarrow> bool"
    and pub_of :: "'k \<Rightarrow> opt_public_key_t"
    and dec :: "'k \<Rightarrow> int \<Rightarrow> int"
  assumes modulus: "valid k \<Longrightarrow> pk_n_squared (pub_of k) = pk_n (pub_of k) * pk_n (pub_of k)"
    and dec_spec: "valid k \<Longrightarrow> dec k (cipher (pub_of k) m r) = m mod pk_n (pub_of k)"
begin

lemma cipher_mult:
  assumes "valid k"
  shows "cipher (pub_of k) m r * cipher (pub_of k) m' r' mod pk_n_squared (pub_of k) =
    cipher (pub_of k) (m + m') (r + r')"
proof -
  let ?n = "pk_n (pub_of k)" and ?h = "pk_h_s (pub_of k)"
  have "cipher (pub_of k) m r * cipher (pub_of k) m' r' mod (?n * ?n) =
      ((1 + m * ?n) * (1 + m' * ?n)) * ?h ^ (r + r') mod (?n * ?n)"
    by (simp add: cipher_def modulus [OF assms] mod_mult_eq power_add ac_simps)
  also have "(1 + m * ?n) * (1 + m' * ?n) = (1 + (m + m') * ?n) + (m * m') * (?n * ?n)"
    by (simp add: algebra_simps)
  also have "(\<dots>) * ?h ^ (r + r') mod (?n * ?n) = (1 + (m + m') * ?n) * ?h ^ (r + r') mod (?n * ?n)"
    by (intro mult_mod_cong) simp_all
  finally show ?thesis by (simp add: cipher_def modulus [OF assms])
qed

lemma cipher_power:
  assumes "valid k"
  shows "cipher (pub_of k) m r ^ j mod pk_n_squared (pub_of k) = cipher (pub_of k) (int j * m) (j * r)"
proof (induction j)
  case 0
  then show ?case by (simp add: cipher_def)
next
  case (Suc j)
  have "cipher (pub_of k) m r ^ Suc j mod pk_n_squared (pub_of k) =
      cipher (pub_of k) m r * cipher (pub_of k) (int j * m) (j * r) mod pk_n_squared (pub_of k)"
    using Suc by (metis mod_mult_right_eq power_Suc)
  then show ?case by (simp add: cipher_mult [OF assms] algebra_simps)
qed

lemma dec_add:
  "valid k \<Longrightarrow> dec k (opt_paillier_add (cipher (pub_of k) m r) (cipher (pub_of k) m' r') (pub_of k)) =
     (m + m') mod pk_n (pub_of k)"
  by (simp add: opt_paillier_add_def cipher_mult dec_spec)

lemma dec_power:
  "valid k \<Longrightarrow> dec k (cipher (pub_of k) m r ^ j mod pk_n_squared (pub_of k)) =
     int j * m mod pk_n (pub_of k)"
  by (simp add: cipher_power dec_spec)

end

lemma decrypt_cipher:
  assumes "key_ok G pub prv"
  shows "opt_paillier_decrypt G pub prv (cipher pub m r) = m mod pk_n pub"
proof -
  note d = key_okD [OF assms] and k = key_ok_primes [OF assms]
  let ?n = "pk_n pub" and ?a = "sk_double_alpha prv" and ?h = "pk_h_s pub"
  have a: "0 \<le> ?a" using d(5,6,15) by simp
  have "mpz_powm G (cipher pub m r) ?a (?n * ?n) =
      (1 + m * ?n) ^ nat ?a * (?h ^ nat ?a) ^ r mod (?n * ?n)"
    using k(8,10) a by (simp add: gmp_powm [OF d(1)] cipher_def power_mod power_mult_distrib
        mult.commute flip: power_mult)
  also have "\<dots> = (1 + int (nat ?a) * m * ?n) * 1 ^ r mod (?n * ?n)"
    using key_ok_orders(3) [OF assms] k(8,10)
    by (intro mult_mod_cong power_one_plus_mod_square power_mod_cong) simp
  also have "\<dots> = 1 + ?n * (?a * m mod ?n)"
    using mod_mult_split [OF k(7), of "?a * m"] a by (simp add: mult.assoc)
  finally have "(mpz_powm G (cipher pub m r) ?a (pk_n_squared pub) - 1) div ?n = ?a * m mod ?n"
    using k(7,8) by simp
  then show ?thesis
    using gmp_invert_cancel [OF d(1) k(7) d(20)] d(24) by (simp add: opt_paillier_decrypt_def)
qed

text \<open>One half of the CRT decryption, for a prime factor \<open>R\<close> of \<open>n\<close> with cofactor \<open>S\<close>.\<close>

lemma decrypt_half:
  assumes G: "gmp_arith G" and R: "1 < R" and n: "pk_n pub = R * S"
    and nn: "pk_n_squared pub = pk_n pub * pk_n pub"
    and e: "0 \<le> e" and ord: "pk_h_s pub ^ nat e mod (R * R) = 1" and cop: "coprime (S * e) R"
  shows "(mpz_powm G (cipher pub m r mod (R * R)) e (R * R) - 1) div R * mpz_invert G (S * e) R mod R
    = m mod R"
proof -
  let ?h = "pk_h_s pub"
  have RR: "1 < R * R" using R by (simp add: less_1_mult)
  have "cipher pub m r mod (R * R) = (1 + m * (R * S)) * ?h ^ r mod (R * R)"
    by (simp add: cipher_def n nn mod_mod_cancel mult_dvd_mono)
  then have "mpz_powm G (cipher pub m r mod (R * R)) e (R * R) =
      (1 + (m * S) * R) ^ nat e * (?h ^ nat e) ^ r mod (R * R)"
    using e RR by (simp add: gmp_powm [OF G] power_mod power_mult_distrib ac_simps flip: power_mult)
  also have "\<dots> = (1 + int (nat e) * (m * S) * R) * 1 ^ r mod (R * R)"
    using ord RR by (intro mult_mod_cong power_one_plus_mod_square power_mod_cong) simp
  also have "\<dots> = 1 + R * ((S * e) * m mod R)"
    using mod_mult_split [OF R, of "(S * e) * m"] e by (simp add: ac_simps)
  finally show ?thesis using R gmp_invert_cancel [OF G R cop, of m] by simp
qed

lemma decrypt_crt_cipher:
  assumes "key_ok G pub prv"
  shows "opt_paillier_decrypt_crt G pub prv (cipher pub m r) = m mod pk_n pub"
proof -
  note d = key_okD [OF assms] and k = key_ok_primes [OF assms] and o = key_ok_orders [OF assms]
  let ?P = "sk_P prv" and ?Q = "sk_Q prv" and ?dp = "sk_double_p prv" and ?dq = "sk_double_q prv"
  have small: "0 < 2 * a \<and> 2 * a < 2 * a * b + 1" if "0 < a" "0 < b" for a b :: int
    using that mult_left_mono [of 1 b "2 * a"] by auto
  have "\<not> ?P dvd ?dp" "\<not> ?Q dvd ?dq"
    using small [OF d(5,7)] small [OF d(6,8)] d(9,10,13,14) by (simp_all add: zdvd_not_zless)
  then have cp: "coprime (?Q * ?dp) ?P" and cq: "coprime (?P * ?dq) ?Q"
    using k(1-3) is_prime_coprime by (simp_all add: coprime_commute)
  have "(mpz_powm G (cipher pub m r mod (?P * ?P)) ?dp (?P * ?P) - 1) div ?P
      * sk_Q_mul_double_p_inverse prv mod ?P = m mod ?P"
    unfolding d(25) using d(5,13) k(4,6,8) o(1) cp by (intro decrypt_half [OF d(1)]) simp_all
  moreover have "(mpz_powm G (cipher pub m r mod (?Q * ?Q)) ?dq (?Q * ?Q) - 1) div ?Q
      * sk_P_mul_double_q_inverse prv mod ?Q = m mod ?Q"
    unfolding d(26) using d(6,14) k(5,6,8) o(2) cq
    by (intro decrypt_half [OF d(1)]) (simp_all add: mult.commute)
  moreover have "(m mod ?P + (m mod ?Q - m mod ?P) * sk_P_mul_P_inverse prv) mod (?P * ?Q) =
      m mod (?P * ?Q)"
    using gmp_invert' [OF d(1) k(5) k(3)] k(5) d(22)
    by (intro garner_recombine [OF k(3)]) (simp_all add: mult.commute)
  ultimately show ?thesis
    by (simp add: opt_paillier_decrypt_crt_def Let_def d(11,12) k(6))
qed

interpretation plain_dec: decryptor key_valid "\<lambda>(G, pub, prv). pub"
  "\<lambda>(G, pub, prv). opt_paillier_decrypt G pub prv"
  by unfold_locales (auto simp: decrypt_cipher key_okD(18))

interpretation crt_dec: decryptor key_valid "\<lambda>(G, pub, prv). pub"
  "\<lambda>(G, pub, prv). opt_paillier_decrypt_crt G pub prv"
  by unfold_locales (auto simp: decrypt_crt_cipher key_okD(18))

section \<open>The cryptosystem\<close>

locale paillier_scheme =
  hs_power valid pub_of pw + decryptor valid pub_of dec
  for valid :: "'k \<Rightarrow> bool" and pub_of :: "'k \<Rightarrow> opt_public_key_t"
    and pw :: "'k \<Rightarrow> int \<Rightarrow> int res" and dec :: "'k \<Rightarrow> int \<Rightarrow> int"
begin

definition enc :: "'k \<Rightarrow> int \<Rightarrow> u8 list \<Rightarrow> int res" where
  "enc k m block = bindR (draw_r (pub_of k) block) (\<lambda>r. bindR (pw k r) (\<lambda>hr.
     Inr ((m * pk_n (pub_of k) + 1) * hr mod pk_n_squared (pub_of k))))"

lemma round_trip:
  assumes "valid k" "aby_prng (pk_lbits (pub_of k)) block = Some r"
    and "0 \<le> m" "m < pk_n (pub_of k)"
  shows "\<exists>c. enc k m block = Inr c \<and> dec k c = m"
  using assms by (simp add: enc_def encrypt_is_cipher dec_spec)

lemma add_round_trip:
  assumes "valid k" "aby_prng (pk_lbits (pub_of k)) block = Some r"
    "aby_prng (pk_lbits (pub_of k)) block' = Some r'"
  shows "\<exists>c c'. enc k m block = Inr c \<and> enc k m' block' = Inr c' \<and>
    dec k (opt_paillier_add c c' (pub_of k)) = (m + m') mod pk_n (pub_of k)"
  using assms by (simp add: enc_def encrypt_is_cipher dec_add)

end

interpretation plain_scheme: paillier_scheme key_valid "\<lambda>(G, pub, prv). pub"
  "\<lambda>(G, pub, prv) r. Inr (mpz_powm G (pk_h_s pub) r (pk_n_squared pub))"
  "\<lambda>(G, pub, prv). opt_paillier_decrypt G pub prv"
  by unfold_locales

interpretation fast_scheme: paillier_scheme key_valid "\<lambda>(G, pub, prv). pub"
  "\<lambda>(G, pub, prv) r. opt_paillier_mod_n_squared_crt_fb r pub prv"
  "\<lambda>(G, pub, prv). opt_paillier_decrypt_crt G pub prv"
  by unfold_locales

lemma scheme_enc:
  "plain_scheme.enc (G, pub, prv) m block = opt_paillier_encrypt G pub m block"
  "fast_scheme.enc (G, pub, prv) m block = opt_paillier_encrypt_crt_fb pub prv m block"
  by (simp_all add: plain_scheme.enc_def fast_scheme.enc_def opt_paillier_encrypt_def
      opt_paillier_encrypt_crt_fb_def)

section \<open>A small key\<close>

text \<open>
  The key with \<open>P = 7\<close>, \<open>Q = 11\<close> and \<open>y = 2\<close>, on which the hypotheses of the theorems below hold.
\<close>

definition small_prv :: opt_secret_key_t where
  "small_prv = \<lparr>sk_p = 3, sk_q = 5, sk_p' = 1, sk_q' = 1, sk_alpha = 15, sk_beta = 1,
     sk_P = 7, sk_Q = 11, sk_P_squared = 49, sk_Q_squared = 121, sk_double_alpha = 30,
     sk_double_beta = 2, sk_double_alpha_inverse = mpz_invert gmp_ref 30 77,
     sk_P_squared_mul_P_squared_inverse = mpz_invert gmp_ref 49 121 * 49,
     sk_P_mul_P_inverse = mpz_invert gmp_ref 7 11 * 7, sk_double_p = 6, sk_double_q = 10,
     sk_Q_mul_double_p_inverse = mpz_invert gmp_ref 66 7,
     sk_P_mul_double_q_inverse = mpz_invert gmp_ref 70 11\<rparr>"

definition small_table :: "int \<Rightarrow> fb_instance" where
  "small_table m = \<lparr>m_mod = m,
     m_table_G = map (\<lambda>i. mpz_powm gmp_ref (generator_of 2 2 77 mod m) (16 ^ i) m) [0..<3],
     m_h = 16, m_t = 2, m_w = 4\<rparr>"

definition small_pub :: opt_public_key_t where
  "small_pub = \<lparr>pk_nbits = 7, pk_lbits = 4, pk_n = 77, pk_half_n = 38, pk_n_squared = 5929,
     pk_h_s = generator_of 2 2 77, pk_fb_mod_P_sqaured = small_table 49,
     pk_fb_mod_Q_sqaured = small_table 121\<rparr>"

lemma is_prime_7_11: "is_prime 7" "is_prime 11"
  by code_simp+

lemma small_key_ok: "key_ok gmp_ref small_pub small_prv"
proof -
  have tab: "fbpowmod_init_extend gmp_ref (generator_of 2 2 77 mod m) m 5 4 = Inr (small_table m)" for m
    by (simp add: fbpowmod_init_extend_def small_table_def ROUNDUP_def numeral_3_eq_3 del: upt_Suc)
  have "coprime (30::int) 77" "coprime (2::int) 77" unfolding coprime_iff_gcd_eq_1 by code_simp+
  then show ?thesis
    unfolding key_ok_def
    by (simp add: small_pub_def small_prv_def is_prime_7_11 gmp_arith_ref tab)
       (rule exI [of _ 2], simp)
qed

section \<open>Properties\<close>

text \<open>
  C17. Decryption inverts encryption: for a valid key, a message \<open>0 \<le> m < n\<close> and any block of random
  bytes the generator can read, the plain encryption routine returns a ciphertext, and both the
  textbook and the CRT decryption of it return \<open>m\<close>.
\<close>

theorem paillier_round_trip:
  assumes "key_ok G pub prv" "aby_prng (pk_lbits pub) block = Some r" "validate_message m pub"
  shows "\<exists>c. opt_paillier_encrypt G pub m block = Inr c \<and>
    opt_paillier_decrypt G pub prv c = m \<and> opt_paillier_decrypt_crt G pub prv c = m"
proof -
  have m: "0 \<le> m" "m < pk_n pub" using assms(3) by (auto simp: validate_message_def split: if_splits)
  show ?thesis
    using plain_scheme.round_trip [of "(G, pub, prv)" block r m] assms(1,2) m
      crt_dec.dec_spec [of "(G, pub, prv)" m "nat r"] encrypt_cipher(1) [OF assms(1,2)]
    by (simp add: scheme_enc)
qed

theorem paillier_round_trip_witness:
  "\<exists>c. opt_paillier_encrypt gmp_ref small_pub 42 [19] = Inr c \<and>
    opt_paillier_decrypt gmp_ref small_pub small_prv c = 42 \<and>
    opt_paillier_decrypt_crt gmp_ref small_pub small_prv c = 42"
proof -
  have "aby_prng (pk_lbits small_pub) [19] = Some 3"
    unfolding small_pub_def by code_simp
  moreover have "validate_message 42 small_pub" by (simp add: validate_message_def small_pub_def)
  ultimately show ?thesis using paillier_round_trip [OF small_key_ok] by blast
qed

text \<open>
  C20. The three encryption routines are the same function: with the same key, plaintext and random
  block, plain exponentiation, CRT exponentiation and fixed-base CRT exponentiation return the same
  ciphertext (in particular the fixed-base digit buffer never overflows).
\<close>

theorem encryptions_agree:
  assumes "key_ok G pub prv" "aby_prng (pk_lbits pub) block = Some r"
  shows "\<exists>c. opt_paillier_encrypt G pub m block = Inr c \<and>
    opt_paillier_encrypt_crt G pub prv m block = Inr c \<and>
    opt_paillier_encrypt_crt_fb pub prv m block = Inr c"
  using encrypt_cipher [OF assms] by simp

theorem encryptions_agree_witness:
  "\<exists>c. opt_paillier_encrypt gmp_ref small_pub 5 [200] = Inr c \<and>
    opt_paillier_encrypt_crt gmp_ref small_pub small_prv 5 [200] = Inr c \<and>
    opt_paillier_encrypt_crt_fb small_pub small_prv 5 [200] = Inr c"
proof -
  have "aby_prng (pk_lbits small_pub) [200] = Some 8"
    unfolding small_pub_def by code_simp
  then show ?thesis by (rule encryptions_agree [OF small_key_ok])
qed

text \<open>
  C21. Additive homomorphism: decrypting the product of two ciphertexts, as \<^verbatim>\<open>opt_paillier_add\<close>
  forms it, gives the sum of the plaintexts modulo \<open>n\<close>, with the fast encryption and the CRT
  decryption.
\<close>

theorem paillier_add_homomorphic:
  assumes "key_ok G pub prv" "aby_prng (pk_lbits pub) block = Some r"
    "aby_prng (pk_lbits pub) block' = Some r'"
  shows "\<exists>c c'. opt_paillier_encrypt_crt_fb pub prv m block = Inr c \<and>
    opt_paillier_encrypt_crt_fb pub prv m' block' = Inr c' \<and>
    opt_paillier_decrypt_crt G pub prv (opt_paillier_add c c' pub) = (m + m') mod pk_n pub"
  using fast_scheme.add_round_trip [of "(G, pub, prv)" block r block' r' m m'] assms
  by (simp add: scheme_enc)

theorem paillier_add_homomorphic_witness:
  "\<exists>c c'. opt_paillier_encrypt_crt_fb small_pub small_prv 70 [7] = Inr c \<and>
    opt_paillier_encrypt_crt_fb small_pub small_prv 20 [9] = Inr c' \<and>
    opt_paillier_decrypt_crt gmp_ref small_pub small_prv (opt_paillier_add c c' small_pub) = 13"
proof -
  have "aby_prng (pk_lbits small_pub) [7] = Some 7" "aby_prng (pk_lbits small_pub) [9] = Some 9"
    unfolding small_pub_def by code_simp+
  from paillier_add_homomorphic [OF small_key_ok this, of 70 20] show ?thesis
    by (simp add: small_pub_def)
qed

text \<open>
  Multiplication by a constant: raising a ciphertext of \<open>m\<close> to a non-negative constant \<open>k\<close>, as
  \<^verbatim>\<open>opt_paillier_constant_mul\<close> does, gives a ciphertext that decrypts to \<open>k * m mod n\<close>.
\<close>

theorem paillier_constant_mul:
  assumes "key_ok G pub prv" "aby_prng (pk_lbits pub) block = Some r" "0 \<le> k"
  shows "\<exists>c. opt_paillier_encrypt_crt G pub prv m block = Inr c \<and>
    opt_paillier_decrypt G pub prv (opt_paillier_constant_mul G c k pub) = k * m mod pk_n pub"
proof -
  have "mpz_powm G (cipher pub m (nat r)) k (pk_n_squared pub) =
      cipher pub m (nat r) ^ nat k mod pk_n_squared pub"
    using key_okD(1) [OF assms(1)] key_ok_primes(10) [OF assms(1)] assms(3) by (simp add: gmp_powm)
  then show ?thesis
    using plain_dec.dec_power [of "(G, pub, prv)" m "nat r" "nat k"] assms encrypt_cipher(2) [OF assms(1,2)]
    by (simp add: opt_paillier_constant_mul_def)
qed

theorem paillier_constant_mul_witness:
  "\<exists>c. opt_paillier_encrypt_crt gmp_ref small_pub small_prv 20 [3] = Inr c \<and>
    opt_paillier_decrypt gmp_ref small_pub small_prv (opt_paillier_constant_mul gmp_ref c 5 small_pub) = 23"
proof -
  have "aby_prng (pk_lbits small_pub) [3] = Some 3" unfolding small_pub_def by code_simp
  from paillier_constant_mul [OF small_key_ok this, of 5 20] show ?thesis
    by (simp add: small_pub_def)
qed

text \<open>
  Signed text round trip: a decimal (or other radix) numeral of a value between \<open>half_n - n\<close>
  (inclusive) and \<open>half_n\<close> (exclusive), read by \<^verbatim>\<open>opt_paillier_set_plaintext\<close>, encrypted, decrypted
  and printed by \<^verbatim>\<open>opt_paillier_get_plaintext\<close>, gives the same numeral back.
\<close>

theorem signed_text_round_trip:
  assumes "key_ok G pub prv" "gmp_text G" "2 \<le> radix" "radix \<le> 62"
    and "aby_prng (pk_lbits pub) block = Some r"
    and "pk_half_n pub - pk_n pub \<le> v" "v < pk_half_n pub" "s = mpz_get_str G radix v"
  shows "\<exists>c. opt_paillier_encrypt G pub (opt_paillier_set_plaintext G s pub radix) block = Inr c \<and>
    opt_paillier_get_plaintext G (opt_paillier_decrypt_crt G pub prv c) pub radix = s"
proof -
  let ?n = "pk_n pub" and ?m = "opt_paillier_set_plaintext G s pub radix"
  have n: "1 < ?n" "pk_half_n pub = ?n div 2"
    using key_ok_primes(7) key_okD(19) assms(1) by blast+
  have "v mod ?n = v + ?n" if "v < 0"
  proof -
    have "0 \<le> v + ?n" "v + ?n < ?n" using that assms(6) n by linarith+
    then have "(v + ?n) mod ?n = v + ?n" by (rule mod_pos_pos_trivial)
    then show ?thesis by simp
  qed
  then have m: "?m = (if v < 0 then v + ?n else v)"
    using assms(2-4,8) by (auto simp: opt_paillier_set_plaintext_def gmp_get_set Let_def)
  then have "0 \<le> ?m" "?m < ?n" using assms(6,7) n by (auto split: if_splits)
  then have "opt_paillier_decrypt_crt G pub prv (cipher pub ?m (nat r)) = ?m"
    using decrypt_crt_cipher [OF assms(1)] by simp
  moreover have "opt_paillier_get_plaintext G ?m pub radix = s"
    using m assms(6-8) n by (auto simp: opt_paillier_get_plaintext_def)
  ultimately show ?thesis using encrypt_cipher(1) [OF assms(1,5)] by simp
qed

theorem signed_text_round_trip_witness:
  "\<exists>c. opt_paillier_encrypt gmp_ref small_pub
      (opt_paillier_set_plaintext gmp_ref ''-31'' small_pub 10) [5] = Inr c \<and>
    opt_paillier_get_plaintext gmp_ref (opt_paillier_decrypt_crt gmp_ref small_pub small_prv c)
      small_pub 10 = ''-31''"
proof -
  have "aby_prng (pk_lbits small_pub) [5] = Some 5" unfolding small_pub_def by code_simp
  moreover have "''-31'' = mpz_get_str gmp_ref 10 (- 31)"
    by (simp add: gmp_ref_def get_str_ref_def) code_simp
  moreover have "pk_half_n small_pub - pk_n small_pub \<le> - 31" "- 31 < pk_half_n small_pub"
    by (simp_all add: small_pub_def)
  ultimately show ?thesis
    using signed_text_round_trip [OF small_key_ok gmp_text_ref, of 10] by simp
qed

end
