(* ===== verification/Paillier_Keygen.thy ===== *)
theory Paillier_Keygen
  imports Paillier
begin

text \<open>
  Key generation of \<^verbatim>\<open>paillier.cc\<close>. The random blocks the run reads are its tape, one block per call
  of \<^verbatim>\<open>aby_prng\<close>; every retry loop consumes the tape, and \<open>None\<close> means that the given tape ends
  before the loop does. The main result is that whatever the tape, a key pair that is returned
  satisfies \<open>key_ok\<close>, so all theorems about encryption and decryption apply to generated keys, provided the numbers
  that passed GMP's probabilistic tests are prime.
\<close>

definition mapTo_nbits_lbits :: "nat \<Rightarrow> (nat \<times> nat) option" where
  "mapTo_nbits_lbits k_sec =
     (if k_sec = 112 then Some (2048, 448)
      else if k_sec = 128 then Some (3072, 512)
      else if k_sec = 192 then Some (7680, 768)
      else None)"

definition prob :: nat where
  "prob = 30"

text \<open>\<^verbatim>\<open>aby_prng\<close>, \<^verbatim>\<open>mpz_setbit\<close> and \<^verbatim>\<open>mpz_nextprime\<close>, the way each candidate is drawn.\<close>

definition candidate :: "gmp \<Rightarrow> nat \<Rightarrow> u8 list \<Rightarrow> int option" where
  "candidate G bits block = map_option (\<lambda>x. mpz_nextprime G (set_bit bits x)) (aby_prng bits block)"

fun gen_cofactors :: "gmp \<Rightarrow> nat \<Rightarrow> u8 list list \<Rightarrow> (int \<times> int \<times> u8 list list) option" where
  "gen_cofactors G bits (b1 # b2 # tape) =
     (case (candidate G bits b1, candidate G bits b2) of
        (Some p', Some q') \<Rightarrow> if p' = q' then gen_cofactors G bits tape else Some (p', q', tape)
      | _ \<Rightarrow> None)"
| "gen_cofactors G bits _ = None"

fun gen_p :: "gmp \<Rightarrow> nat \<Rightarrow> int \<Rightarrow> u8 list list \<Rightarrow> (int \<times> int \<times> u8 list list) option" where
  "gen_p G bits p' [] = None"
| "gen_p G bits p' (b # tape) =
     (case candidate G bits b of
        None \<Rightarrow> None
      | Some p \<Rightarrow>
          let P = p * p' * 2 + 1 in
          if \<not> mpz_probab_prime_p G P prob then gen_p G bits p' tape else Some (p, P, tape))"

fun gen_q :: "gmp \<Rightarrow> nat \<Rightarrow> int \<Rightarrow> int \<Rightarrow> u8 list list \<Rightarrow> (int \<times> int \<times> u8 list list) option" where
  "gen_q G bits p q' [] = None"
| "gen_q G bits p q' (b # tape) =
     (case candidate G bits b of
        None \<Rightarrow> None
      | Some q \<Rightarrow>
          if p = q then gen_q G bits p q' tape
          else
            let Q = q * q' * 2 + 1 in
            if \<not> mpz_probab_prime_p G Q prob then gen_q G bits p q' tape else Some (q, Q, tape))"

text \<open>\<^verbatim>\<open>mpz_sizeinbase(n, 2)\<close> of a positive number.\<close>

fun sizeinbase2 :: "nat \<Rightarrow> nat" where
  "sizeinbase2 x = (if x < 2 then 1 else Suc (sizeinbase2 (x div 2)))"

declare sizeinbase2.simps [simp del]

fun gen_y :: "int \<Rightarrow> u8 list list \<Rightarrow> (int \<times> u8 list list) option" where
  "gen_y n [] = None"
| "gen_y n (b # tape) =
     (case aby_prng (sizeinbase2 (nat n) + 128) b of
        None \<Rightarrow> None
      | Some x \<Rightarrow> let y = x mod n in if gcd y n \<noteq> 1 then gen_y n tape else Some (y, tape))"

text \<open>The secret key fields computed from the four primes, in the order of the source.\<close>

definition derive_prv :: "gmp \<Rightarrow> int \<Rightarrow> int \<Rightarrow> int \<Rightarrow> int \<Rightarrow> int \<Rightarrow> int \<Rightarrow> opt_secret_key_t" where
  "derive_prv G p p' P q q' Q =
     (let alpha = p * q; beta = p' * q';
          double_alpha = alpha * 2; double_beta = beta * 2;
          P_squared = P * P; Q_squared = Q * Q;
          double_p = p * 2; double_q = q * 2;
          n = P * Q
      in \<lparr>sk_p = p, sk_q = q, sk_p' = p', sk_q' = q', sk_alpha = alpha, sk_beta = beta,
          sk_P = P, sk_Q = Q, sk_P_squared = P_squared, sk_Q_squared = Q_squared,
          sk_double_alpha = double_alpha, sk_double_beta = double_beta,
          sk_double_alpha_inverse = mpz_invert G double_alpha n,
          sk_P_squared_mul_P_squared_inverse = mpz_invert G P_squared Q_squared * P_squared,
          sk_P_mul_P_inverse = mpz_invert G P Q * P,
          sk_double_p = double_p, sk_double_q = double_q,
          sk_Q_mul_double_p_inverse = mpz_invert G (Q * double_p) P,
          sk_P_mul_double_q_inverse = mpz_invert G (P * double_q) Q\<rparr>)"

definition derive_pub ::
  "gmp \<Rightarrow> nat \<Rightarrow> nat \<Rightarrow> opt_secret_key_t \<Rightarrow> int \<Rightarrow> opt_public_key_t option" where
  "derive_pub G nbits lbits prv y =
     (let n = sk_P prv * sk_Q prv; n_squared = n * n;
          h_s = mpz_powm G (- mpz_powm G y (sk_double_beta prv) n) n n_squared
      in case (fbpowmod_init_extend G (h_s mod sk_P_squared prv) (sk_P_squared prv) (lbits + 1) 4,
               fbpowmod_init_extend G (h_s mod sk_Q_squared prv) (sk_Q_squared prv) (lbits + 1) 4) of
           (Inr fP, Inr fQ) \<Rightarrow>
             Some \<lparr>pk_nbits = nbits, pk_lbits = lbits, pk_n = n, pk_half_n = n div 2,
               pk_n_squared = n_squared, pk_h_s = h_s,
               pk_fb_mod_P_sqaured = fP, pk_fb_mod_Q_sqaured = fQ\<rparr>
         | _ \<Rightarrow> None)"

definition keygen_body ::
  "gmp \<Rightarrow> nat \<Rightarrow> nat \<Rightarrow> u8 list list \<Rightarrow> (opt_public_key_t \<times> opt_secret_key_t \<times> u8 list list) option" where
  "keygen_body G nbits lbits tape =
     (let l_dividetwo = lbits div 2; n_dividetwo = nbits div 2 in
      Option.bind (gen_cofactors G (n_dividetwo - l_dividetwo - 1) tape) (\<lambda>(p', q', tape1).
      Option.bind (gen_p G l_dividetwo p' tape1) (\<lambda>(p, P, tape2).
      Option.bind (gen_q G l_dividetwo p q' tape2) (\<lambda>(q, Q, tape3).
      Option.bind (gen_y (P * Q) tape3) (\<lambda>(y, tape4).
      let prv = derive_prv G p p' P q q' Q in
      Option.bind (derive_pub G nbits lbits prv y) (\<lambda>pub. Some (pub, prv, tape4)))))))"

text \<open>
  A security level that is not in the table makes \<^verbatim>\<open>mapTo_nbits_lbits[k_sec]\<close> insert an empty vector,
  whose element 0 does not exist.
\<close>

definition opt_paillier_keygen ::
  "gmp \<Rightarrow> nat \<Rightarrow> u8 list list \<Rightarrow> (opt_public_key_t \<times> opt_secret_key_t \<times> u8 list list) option res" where
  "opt_paillier_keygen G k_sec tape =
     (case mapTo_nbits_lbits k_sec of
        None \<Rightarrow> Inl (Undefined ''index into an empty vector'')
      | Some (nbits, lbits) \<Rightarrow> Inr (keygen_body G nbits lbits tape))"

text \<open>
  What is relied on of \<^verbatim>\<open>mpz_nextprime\<close>: it looks for the next number that passes a probabilistic test, which every prime
  passes, so that its result lies above the argument and, by Bertrand's postulate, not above the double. That
  the result is prime is not assumed.
\<close>

definition gmp_next_above :: "gmp \<Rightarrow> nat \<Rightarrow> bool" where
  "gmp_next_above G k \<longleftrightarrow> (\<forall>x. 1 \<le> x \<and> x < 2 ^ k \<longrightarrow> x < mpz_nextprime G x \<and> mpz_nextprime G x \<le> 2 * x)"

section \<open>The loops\<close>

lemma candidate_props:
  assumes "gmp_next_above G k" "bits < k" "candidate G bits block = Some p"
  shows "2 ^ bits < p" "p < 2 ^ (bits + 2)"
proof -
  obtain x where x: "aby_prng bits block = Some x" "p = mpz_nextprime G (set_bit bits x)"
    using assms(3) by (auto simp: candidate_def)
  have r: "0 \<le> x" "x < 2 ^ bits" using aby_prng_range [OF x(1)] by auto
  have "\<not> bit x bits" using r by (metis bit_take_bit_iff less_irrefl take_bit_int_eq_self)
  then have s: "set_bit bits x = x + 2 ^ bits" by (simp add: set_bit_eq)
  have b: "2 ^ bits \<le> set_bit bits x" "set_bit bits x < 2 ^ (bits + 1)" using r s by simp_all
  have "(2::int) ^ (bits + 1) \<le> 2 ^ k" using assms(2) by (intro power_increasing) auto
  moreover have "(1::int) \<le> 2 ^ bits" by simp
  ultimately have "1 \<le> set_bit bits x \<and> set_bit bits x < 2 ^ k" using b by linarith
  then have "set_bit bits x < p \<and> p \<le> 2 * set_bit bits x"
    using assms(1) x(2) by (simp add: gmp_next_above_def)
  then show "2 ^ bits < p" "p < 2 ^ (bits + 2)" using b by simp_all
qed

lemma gen_cofactors_props:
  "gen_cofactors G bits tape = Some (p', q', rest) \<Longrightarrow>
   p' \<noteq> q' \<and> (\<exists>b. candidate G bits b = Some p') \<and> (\<exists>b. candidate G bits b = Some q')"
  by (induction G bits tape rule: gen_cofactors.induct) (auto split: option.splits if_splits)

lemma gen_p_props:
  "gen_p G bits p' tape = Some (p, P, rest) \<Longrightarrow>
   P = 2 * p * p' + 1 \<and> mpz_probab_prime_p G P prob \<and> (\<exists>b. candidate G bits b = Some p)"
  by (induction tape) (auto simp: Let_def split: option.splits if_splits)

lemma gen_q_props:
  "gen_q G bits p q' tape = Some (q, Q, rest) \<Longrightarrow>
   p \<noteq> q \<and> Q = 2 * q * q' + 1 \<and> mpz_probab_prime_p G Q prob \<and> (\<exists>b. candidate G bits b = Some q)"
  by (induction tape) (auto simp: Let_def split: option.splits if_splits)

lemma gen_y_props: "gen_y n tape = Some (y, rest) \<Longrightarrow> coprime y n"
  by (induction tape) (auto simp: Let_def coprime_iff_gcd_eq_1 split: option.splits if_splits)

section \<open>Generated keys are valid\<close>

lemma safe_primes_distinct:
  assumes "is_prime p" "is_prime q" "is_prime q'" "p \<noteq> q" "p < q'"
  shows "2 * p * p' + 1 \<noteq> 2 * q * q' + 1"
proof
  assume "2 * p * p' + 1 = 2 * q * q' + 1"
  then have "p dvd q * q'" by (metis add_right_cancel dvd_triv_left mult.assoc mult_cancel_left
        zero_neq_numeral)
  then have "p dvd q \<or> p dvd q'" by (rule is_prime_dvd_mult [OF assms(1)])
  then show False
    using assms is_prime_divisor [of q p] is_prime_divisor [of q' p] is_prime_gt_1 [OF assms(1)] by auto
qed

lemma alpha_coprime:
  assumes "is_prime P" "1 < p" "p < P" "1 < q" "q < P" "P \<noteq> 2"
  shows "coprime (p * q * 2) P"
proof -
  have "2 < P" using is_prime_gt_1 [OF assms(1)] assms(6) by simp
  then have "\<not> P dvd p" "\<not> P dvd q" "\<not> P dvd 2" using assms by (simp_all add: zdvd_not_zless)
  then have "\<not> P dvd p * q * 2" using is_prime_dvd_mult [OF assms(1)] by blast
  then have "coprime P (p * q * 2)" by (rule is_prime_coprime [OF assms(1)])
  then show ?thesis by (metis coprime_commute)
qed

lemma derived_key_ok:
  assumes G: "gmp_arith G" and lb: "lbits + 1 < 2 ^ 64"
    and pr: "is_prime p" "is_prime q" "is_prime p'" "is_prime q'" "is_prime P" "is_prime Q"
    and ne: "p \<noteq> q" and PQ: "P = 2 * p * p' + 1" "Q = 2 * q * q' + 1"
    and lt: "p < p'" "p < q'" "q < p'" "q < q'"
    and y: "coprime y (P * Q)"
    and pub: "derive_pub G nbits lbits (derive_prv G p p' P q q' Q) y = Some pub"
  shows "key_ok G pub (derive_prv G p p' P q q' Q)"
proof -
  let ?n = "P * Q" and ?prv = "derive_prv G p p' P q q' Q"
  have gt: "1 < p" "1 < q" "1 < p'" "1 < q'" "1 < P" "1 < Q" using pr is_prime_gt_1 by blast+
  have n: "1 < ?n" using gt by (simp add: less_1_mult)
  have nn: "1 < ?n * ?n" using n by (simp only: less_1_mult)
  have "p' \<le> p * p'" "q' \<le> q * q'" using gt by simp_all
  then have big: "p' < P" "q' < Q" using PQ gt by simp_all
  have "coprime (p * q * 2) P"
    by (rule alpha_coprime [OF pr(5)]) (use gt lt big in linarith)+
  moreover have "coprime (p * q * 2) Q"
    by (rule alpha_coprime [OF pr(6)]) (use gt lt big in linarith)+
  ultimately have cop: "coprime (p * q * 2) ?n" by simp
  have ne': "P \<noteq> Q" unfolding PQ by (rule safe_primes_distinct [OF pr(1,2,4) ne lt(2)])
  have beta: "0 \<le> p' * q' * 2" using gt by simp
  let ?h = "mpz_powm G (- mpz_powm G y (p' * q' * 2) ?n) ?n (?n * ?n)"
  have h: "?h = generator_of y (p' * q' * 2) ?n"
    using n nn beta by (simp add: gmp_powm [OF G] generator_of_def)
  have "\<exists>y. coprime y ?n \<and> ?h = generator_of y (p' * q' * 2) ?n" using y h by blast
  then show ?thesis
    using pub G lb pr gt ne' PQ cop
    unfolding key_ok_def derive_pub_def
    by (auto simp: derive_prv_def Let_def split: sum.splits)
qed

text \<open>
  C22. Key generation establishes the invariant all other results assume: for any tape of random
  blocks on which key generation returns a key pair, the pair satisfies \<open>key_ok\<close> if the six numbers in it that GMP's
  probabilistic tests let pass (the four divisors and the two factors of \<open>n\<close>) are prime, provided the bit lengths
  leave room between the two kinds of divisors, as the lengths of all three security levels do.
\<close>

theorem keygen_establishes_key_ok:
  assumes "gmp_arith G" "gmp_next_above G (nbits div 2)"
    and "lbits div 2 * 2 + 3 \<le> nbits div 2" "lbits + 1 < 2 ^ 64"
    and "keygen_body G nbits lbits tape = Some (pub, prv, rest)"
    and "\<forall>x \<in> {sk_p prv, sk_q prv, sk_p' prv, sk_q' prv, sk_P prv, sk_Q prv}. is_prime x"
  shows "key_ok G pub prv"
proof -
  let ?l = "lbits div 2" and ?c = "nbits div 2 - lbits div 2 - 1"
  obtain p' q' t1 p P t2 q Q t3 y t4 where
    c: "gen_cofactors G ?c tape = Some (p', q', t1)" and p: "gen_p G ?l p' t1 = Some (p, P, t2)"
    and q: "gen_q G ?l p q' t2 = Some (q, Q, t3)" and y: "gen_y (P * Q) t3 = Some (y, t4)"
    and prv: "prv = derive_prv G p p' P q q' Q" and pub: "derive_pub G nbits lbits prv y = Some pub"
    using assms(5) by (auto simp: keygen_body_def Let_def split: bind_splits prod.splits)
  have bits: "?l < nbits div 2" "?c < nbits div 2" "?l + 2 \<le> ?c" using assms(3) by simp_all
  note cand = candidate_props [OF assms(2)]
  from c obtain b1 b2 where b: "candidate G ?c b1 = Some p'" "candidate G ?c b2 = Some q'"
    using gen_cofactors_props by blast
  from p obtain b3 where P: "P = 2 * p * p' + 1" "mpz_probab_prime_p G P prob"
    "candidate G ?l b3 = Some p" using gen_p_props by blast
  from q obtain b4 where Q: "p \<noteq> q" "Q = 2 * q * q' + 1" "mpz_probab_prime_p G Q prob"
    "candidate G ?l b4 = Some q" using gen_q_props by blast
  have "(2::int) ^ (?l + 2) \<le> 2 ^ ?c" using bits(3) by (intro power_increasing) simp_all
  then have lt: "p < p'" "p < q'" "q < p'" "q < q'"
    using cand(1) [OF bits(2) b(1)] cand(1) [OF bits(2) b(2)]
      cand(2) [OF bits(1) P(3)] cand(2) [OF bits(1) Q(4)] by linarith+
  have pr: "is_prime p" "is_prime q" "is_prime p'" "is_prime q'" "is_prime P" "is_prime Q"
    using assms(6) by (simp_all add: prv derive_prv_def Let_def)
  show ?thesis
    unfolding prv
    by (rule derived_key_ok [OF assms(1,4) pr Q(1) P(1) Q(2) lt gen_y_props [OF y] pub [unfolded prv]])
qed

theorem keygen_establishes_key_ok_witness:
  "\<exists>pub prv. keygen_body gmp_ref 10 2 [[2], [4], [0], [1], replicate 17 0 @ [2]] = Some (pub, prv, []) \<and>
     key_ok gmp_ref pub prv"
proof -
  have pr: "gmp_next_above gmp_ref (10 div 2)"
    using gmp_nextprime_ref by (simp add: gmp_next_above_def gmp_nextprime_def)
  let ?y = "replicate 17 0 @ [2]"
  have cand: "candidate gmp_ref 3 [2] = Some 11" "candidate gmp_ref 3 [4] = Some 13"
    "candidate gmp_ref 1 [0] = Some 3" "candidate gmp_ref 1 [1] = Some 5"
    "mpz_probab_prime_p gmp_ref 67 prob" "mpz_probab_prime_p gmp_ref 131 prob"
    by code_simp+
  then have c: "gen_cofactors gmp_ref 3 [[2], [4], [0], [1], ?y] = Some (11, 13, [[0], [1], ?y])"
    "gen_p gmp_ref 1 11 [[0], [1], ?y] = Some (3, 67, [[1], ?y])"
    "gen_q gmp_ref 1 3 13 [[1], ?y] = Some (5, 131, [?y])"
    by simp_all
  have "aby_prng 142 ?y = Some (mpz_import ?y mod 2 ^ 142)"
    by (rule aby_prng_readable) (simp add: ceil_divide_def)
  then have "aby_prng 142 ?y = Some 2"
    unfolding mpz_import_zeros by (simp add: mpz_import_def)
  moreover have "sizeinbase2 8777 = 14" by (simp add: sizeinbase2.simps)
  moreover have "coprime (2::int) 8777" by simp
  then have "gcd (2::int) 8777 = 1" by (simp only: coprime_iff_gcd_eq_1)
  ultimately have y: "gen_y 8777 [?y] = Some (2, [])" by simp
  obtain pub where p: "derive_pub gmp_ref 10 2 (derive_prv gmp_ref 3 11 67 5 13 131) 2 = Some pub"
    by (simp add: derive_pub_def fbpowmod_init_extend_def Let_def)
  let ?prv = "derive_prv gmp_ref 3 11 67 5 13 131"
  have body: "keygen_body gmp_ref 10 2 [[2], [4], [0], [1], ?y] = Some (pub, ?prv, [])"
  proof -
    have sz: "2 div 2 = (1::nat)" "10 div 2 - 1 - 1 = (3::nat)" by simp_all
    show ?thesis
      unfolding keygen_body_def Let_def sz c(1) bind.bind_lunit prod.case c(2,3) by (simp add: y p del: gen_y.simps)
  qed
  have "is_prime 3" "is_prime 5" "is_prime 11" "is_prime 13" "is_prime 67" "is_prime 131" by code_simp+
  then have "\<forall>x \<in> {sk_p ?prv, sk_q ?prv, sk_p' ?prv, sk_q' ?prv, sk_P ?prv, sk_Q ?prv}. is_prime x"
    by (simp add: derive_prv_def Let_def)
  then have "key_ok gmp_ref pub ?prv" by (rule keygen_establishes_key_ok [OF gmp_arith_ref pr _ _ body, rotated 2]) simp_all
  with body show ?thesis by blast
qed

text \<open>
  The search for the prime \<open>P\<close> returns: on a tape whose blocks are all readable and one of
  which leads to an accepted \<open>P\<close>, the loop stops, at the first such block, and leaves the blocks
  after it unread.
\<close>

theorem gen_p_returns_first:
  assumes "\<forall>b \<in> set rejected. \<exists>p. candidate G bits b = Some p \<and>
      \<not> mpz_probab_prime_p G (2 * p * p' + 1) prob"
    and "candidate G bits b = Some p" "mpz_probab_prime_p G (2 * p * p' + 1) prob"
  shows "gen_p G bits p' (rejected @ b # rest) = Some (p, 2 * p * p' + 1, rest)"
  using assms by (induction rejected) (auto simp: Let_def ac_simps)

theorem gen_p_returns_first_witness:
  "gen_p gmp_ref 2 13 ([[1]] @ [0] # [[2]]) = Some (5, 131, [[2]])"
proof -
  have r: "\<exists>p. candidate gmp_ref 2 [1] = Some p \<and> \<not> mpz_probab_prime_p gmp_ref (2 * p * 13 + 1) prob"
    by (rule exI [of _ 7]) code_simp
  have "candidate gmp_ref 2 [0] = Some 5" "mpz_probab_prime_p gmp_ref (2 * 5 * 13 + 1) prob"
    by code_simp+
  from gen_p_returns_first [OF _ this, of "[[1]]" "[[2]]"] r show ?thesis by simp
qed

text \<open>The bit lengths of the three security levels leave the room key generation needs.\<close>

lemma security_levels_sizes:
  "mapTo_nbits_lbits k_sec = Some (nbits, lbits) \<Longrightarrow>
   lbits div 2 * 2 + 3 \<le> nbits div 2 \<and> lbits + 1 < 2 ^ 64"
  by (auto simp: mapTo_nbits_lbits_def split: if_splits)

end
