(* ===== verification/Crt_Datapack.thy ===== *)
theory Crt_Datapack
  imports Paillier
begin

text \<open>
  Packing several signed numbers into one residue by Chinese remaindering
  (\<^verbatim>\<open>algorithm/opt_paillier/src/crt_datapack.cc\<close>): the moduli are consecutive primes, packing sums
  the CRT basis elements, and retrieval reduces modulo each prime and re-centres the residue.
\<close>

record CrtMod =
  crt_half_mod :: "int list"
  crt_mod :: "int list"
  crt_size :: nat
  mod_size :: nat

fun next_primes :: "gmp \<Rightarrow> nat \<Rightarrow> int \<Rightarrow> int list" where
  "next_primes G 0 cur = []"
| "next_primes G (Suc k) cur = (let m = mpz_nextprime G cur in m # next_primes G k m)"

definition init_crt :: "gmp \<Rightarrow> nat \<Rightarrow> nat \<Rightarrow> u8 list \<Rightarrow> CrtMod option" where
  "init_crt G size_arg mod_size_arg block =
     map_option (\<lambda>x.
       let ms = next_primes G size_arg (set_bit mod_size_arg x)
       in \<lparr>crt_half_mod = map (\<lambda>m. m div 2) ms, crt_mod = ms, crt_size = size_arg,
           mod_size = mod_size_arg\<rparr>) (aby_prng mod_size_arg block)"

definition pack_step :: "gmp \<Rightarrow> string list \<Rightarrow> int list \<Rightarrow> int \<Rightarrow> int \<Rightarrow> nat \<Rightarrow> int \<Rightarrow> int" where
  "pack_step G seq ms muls radix i res0 =
     (let v = mpz_set_str G (seq ! i) radix;
          cur = (if v < 0 then (v + ms ! i) mod ms ! i else v);
          coef = muls div ms ! i
      in (res0 + cur * coef * mpz_invert G coef (ms ! i)) mod muls)"

definition data_packing_crt :: "gmp \<Rightarrow> string list \<Rightarrow> CrtMod \<Rightarrow> int \<Rightarrow> int res" where
  "data_packing_crt G seq crtmod radix =
     (if crt_size crtmod < length seq then Inl (Raised ''size of packing is more than crt's'')
      else
        let muls = prod_list (take (length seq) (crt_mod crtmod))
        in Inr (fold (pack_step G seq (crt_mod crtmod) muls radix) [0..<length seq] 0))"

definition data_retrieve_crt :: "gmp \<Rightarrow> int \<Rightarrow> CrtMod \<Rightarrow> nat \<Rightarrow> int \<Rightarrow> string list res" where
  "data_retrieve_crt G pack crtmod data_size radix =
     (if crt_size crtmod < data_size then Inl (Raised ''size of packing is more than crt's'')
      else Inr (map (\<lambda>i.
        let cur = pack mod crt_mod crtmod ! i;
            cur' = (if crt_half_mod crtmod ! i \<le> cur then cur - crt_mod crtmod ! i else cur)
        in mpz_get_str G radix cur') [0..<data_size]))"

section \<open>The invariant of the moduli\<close>

definition pairwise_coprime :: "int list \<Rightarrow> bool" where
  "pairwise_coprime ms \<longleftrightarrow> (\<forall>i j. i < length ms \<and> j < length ms \<and> i \<noteq> j \<longrightarrow> coprime (ms ! i) (ms ! j))"

definition crt_ok :: "CrtMod \<Rightarrow> bool" where
  "crt_ok c \<longleftrightarrow> length (crt_mod c) = crt_size c \<and>
     crt_half_mod c = map (\<lambda>m. m div 2) (crt_mod c) \<and>
     (\<forall>m \<in> set (crt_mod c). 1 < m) \<and> pairwise_coprime (crt_mod c)"

lemma next_primes_props:
  assumes "gmp_nextprime G k" "1 \<le> cur" "cur < 2 ^ j" "j + n \<le> k"
  shows "length (next_primes G n cur) = n \<and> sorted_wrt (<) (next_primes G n cur) \<and>
    (\<forall>m \<in> set (next_primes G n cur). is_prime m \<and> cur < m)"
  using assms(2-4)
proof (induction n arbitrary: cur j)
  case (Suc n)
  let ?m = "mpz_nextprime G cur"
  have "(2::int) ^ j \<le> 2 ^ k" using Suc.prems by (intro power_increasing) auto
  with Suc.prems have "cur < 2 ^ k" by linarith
  with assms(1) Suc.prems(1) have m: "is_prime ?m" "cur < ?m" "?m \<le> 2 * cur"
    by (auto simp: gmp_nextprime_def)
  then have "1 \<le> ?m" "?m < 2 ^ Suc j" using Suc.prems by simp_all
  from Suc.IH [OF this] Suc.prems show ?case using m by (fastforce simp: Let_def)
qed simp

lemma increasing_primes_coprime:
  assumes "sorted_wrt (<) ms" "\<forall>m \<in> set ms. is_prime m"
  shows "pairwise_coprime ms"
proof -
  have "ms ! i \<noteq> ms ! j" if "i < length ms" "j < length ms" "i \<noteq> j" for i j
    using that assms(1) by (metis less_irrefl nat_neq_iff sorted_wrt_nth_less)
  then show ?thesis using assms(2) by (simp add: pairwise_coprime_def is_prime_neq_coprime)
qed

lemma init_crt_ok:
  assumes "gmp_nextprime G (mod_size_arg + 1 + size_arg)" "init_crt G size_arg mod_size_arg block = Some c"
  shows "crt_ok c"
proof -
  obtain x where x: "aby_prng mod_size_arg block = Some x"
    and c: "crt_mod c = next_primes G size_arg (set_bit mod_size_arg x)"
      "crt_half_mod c = map (\<lambda>m. m div 2) (crt_mod c)" "crt_size c = size_arg"
    using assms(2) by (auto simp: init_crt_def Let_def)
  have r: "0 \<le> x" "x < 2 ^ mod_size_arg" using aby_prng_range [OF x] by auto
  then have "set_bit mod_size_arg x = x + 2 ^ mod_size_arg"
    by (metis bit_take_bit_iff less_irrefl take_bit_int_eq_self set_bit_eq of_bool_eq(2) mult_1)
  then have "1 \<le> set_bit mod_size_arg x" "set_bit mod_size_arg x < 2 ^ (mod_size_arg + 1)"
    using r by (auto simp: add_nonneg_pos int_one_le_iff_zero_less)
  from next_primes_props [OF assms(1) this, of size_arg]
  show ?thesis
    using c is_prime_gt_1 increasing_primes_coprime by (auto simp: crt_ok_def)
qed

section \<open>Packing and retrieving\<close>

lemma coprime_prod_list: "(\<And>x. x \<in> set xs \<Longrightarrow> coprime x m) \<Longrightarrow> coprime (prod_list xs) (m::int)"
  by (induction xs) auto

lemma cofactor:
  assumes "pairwise_coprime ms" "\<forall>m \<in> set ms. 1 < m" "i < length ms"
  shows "coprime (prod_list ms div ms ! i) (ms ! i)"
    and "j < length ms \<Longrightarrow> j \<noteq> i \<Longrightarrow> ms ! j dvd prod_list ms div ms ! i"
proof -
  let ?rest = "take i ms @ drop (Suc i) ms"
  have "ms = take i ms @ ms ! i # drop (Suc i) ms" using assms(3) by (rule id_take_nth_drop)
  then have "prod_list ms = ms ! i * prod_list ?rest"
    by (metis (no_types) mult.left_commute prod_list.Cons prod_list.append)
  moreover have "1 < ms ! i" using assms(2,3) by simp
  ultimately have div: "prod_list ms div ms ! i = prod_list ?rest" by simp
  have nth: "\<exists>j < length ms. j \<noteq> i \<and> x = ms ! j" if "x \<in> set ?rest" for x
  proof -
    from that consider l where "l < i" "x = ms ! l" | l where "Suc i + l < length ms" "x = ms ! (Suc i + l)"
      using assms(3) by (auto simp: in_set_conv_nth less_diff_conv add.commute)
    then show ?thesis
    proof cases
      case (1 l)
      then show ?thesis using assms(3) by (intro exI [of _ l]) simp
    next
      case (2 l)
      then show ?thesis by (intro exI [of _ "Suc i + l"]) simp
    qed
  qed
  show "coprime (prod_list ms div ms ! i) (ms ! i)"
    unfolding div using nth assms(1,3) by (intro coprime_prod_list) (auto simp: pairwise_coprime_def)
  show "ms ! j dvd prod_list ms div ms ! i" if "j < length ms" "j \<noteq> i"
  proof -
    have "ms ! j \<in> set ?rest"
    proof (cases "j < i")
      case True
      then show ?thesis using assms(3) by (auto simp: in_set_conv_nth intro!: exI [of _ j])
    next
      case False
      then have "drop (Suc i) ms ! (j - Suc i) = ms ! j" "j - Suc i < length (drop (Suc i) ms)"
        using that by auto
      then show ?thesis by (metis UnCI nth_mem set_append)
    qed
    then show ?thesis unfolding div by (rule prod_list_dvd)
  qed
qed

text \<open>The packed number is congruent to each value modulo its prime.\<close>

lemma pack_residues:
  assumes G: "gmp_arith G" and ms: "pairwise_coprime ms" "\<forall>m \<in> set ms. 1 < m"
    and k: "k \<le> length ms" and i: "i < length ms"
  shows "fold (pack_step G seq ms (prod_list ms) radix) [0..<k] 0 mod ms ! i =
    (if i < k then mpz_set_str G (seq ! i) radix mod ms ! i else 0)"
  using k
proof (induction k)
  case (Suc k)
  let ?M = "prod_list ms" and ?v = "mpz_set_str G (seq ! k) radix"
  let ?cur = "if ?v < 0 then (?v + ms ! k) mod ms ! k else ?v" and ?c = "?M div ms ! k"
  let ?t = "?cur * ?c * mpz_invert G ?c (ms ! k)"
  let ?r = "fold (pack_step G seq ms ?M radix) [0..<k] 0"
  have kl: "k < length ms" using Suc.prems by simp
  have "ms ! i dvd ?M" using i by (simp add: prod_list_dvd)
  then have step: "fold (pack_step G seq ms ?M radix) [0..<Suc k] 0 mod ms ! i = (?r + ?t) mod ms ! i"
    by (simp add: pack_step_def Let_def mod_mod_cancel)
  show ?case
  proof (cases "i = k")
    case True
    have "?c * mpz_invert G ?c (ms ! k) mod ms ! k = 1"
      using cofactor(1) [OF ms kl] ms(2) kl by (intro gmp_invert [OF G]) simp_all
    then have "?t mod ms ! k = ?cur mod ms ! k"
      unfolding mult.assoc [of ?cur]
      by (subst mod_mult_right_eq [symmetric]) simp
    moreover have "?cur mod ms ! k = ?v mod ms ! k" by simp
    moreover have "ms ! k dvd ?r" using Suc.IH Suc.prems True by (simp add: dvd_eq_mod_eq_0)
    then have "(?r + ?t) mod ms ! k = ?t mod ms ! k" by (simp add: mod_eq_iff_dvd_diff)
    ultimately show ?thesis using step True by simp
  next
    case False
    then have "ms ! i dvd ?t" using cofactor(2) [OF ms kl i] by simp
    then have "(?r + ?t) mod ms ! i = ?r mod ms ! i" by (simp add: mod_eq_iff_dvd_diff)
    then show ?thesis using step False Suc by auto
  qed
qed simp

lemma pack_range:
  "0 < muls \<Longrightarrow> 0 \<le> fold (pack_step G seq ms muls radix) xs 0 \<and>
     fold (pack_step G seq ms muls radix) xs 0 < muls"
  by (induction xs rule: rev_induct) (simp_all add: pack_step_def Let_def)

text \<open>Re-centring a residue recovers a value from its balanced range.\<close>

lemma recentre:
  fixes v :: int
  assumes "1 < m" "m div 2 - m \<le> v" "v < m div 2"
  shows "(if m div 2 \<le> v mod m then v mod m - m else v mod m) = v"
proof (cases "v < 0")
  case True
  have "(v + m) mod m = v + m" using True assms by (intro mod_pos_pos_trivial) linarith+
  then have "v mod m = v + m" by simp
  then show ?thesis using assms by simp
next
  case False
  then have "v mod m = v" using assms by (intro mod_pos_pos_trivial) linarith+
  then show ?thesis using assms False by simp
qed

definition balanced :: "CrtMod \<Rightarrow> int list \<Rightarrow> bool" where
  "balanced c vs \<longleftrightarrow> (\<forall>i < length vs.
     crt_mod c ! i div 2 - crt_mod c ! i \<le> vs ! i \<and> vs ! i < crt_mod c ! i div 2)"

lemma pack_props:
  assumes "gmp_arith G" "gmp_text G" "2 \<le> radix" "radix \<le> 62" "crt_ok c" "length vs \<le> crt_size c"
  shows "\<exists>x. data_packing_crt G (map (mpz_get_str G radix) vs) c radix = Inr x \<and>
    0 \<le> x \<and> x < prod_list (take (length vs) (crt_mod c)) \<and>
    (\<forall>i < length vs. x mod crt_mod c ! i = vs ! i mod crt_mod c ! i)"
proof -
  let ?ms = "take (length vs) (crt_mod c)" and ?seq = "map (mpz_get_str G radix) vs"
  have len: "length ?ms = length vs" using assms(5,6) by (simp add: crt_ok_def)
  have ms: "pairwise_coprime ?ms" "\<forall>m \<in> set ?ms. 1 < m"
    using assms(5,6) by (auto simp: crt_ok_def pairwise_coprime_def dest: in_set_takeD)
  have "pack_step G ?seq (crt_mod c) (prod_list ?ms) radix i = pack_step G ?seq ?ms (prod_list ?ms) radix i"
    if "i < length vs" for i using that by (simp add: pack_step_def Let_def fun_eq_iff)
  then have eq: "fold (pack_step G ?seq (crt_mod c) (prod_list ?ms) radix) [0..<length vs] 0 =
      fold (pack_step G ?seq ?ms (prod_list ?ms) radix) [0..<length vs] 0"
    by (intro fold_cong) auto
  let ?x = "fold (pack_step G ?seq ?ms (prod_list ?ms) radix) [0..<length vs] 0"
  have "?x mod crt_mod c ! i = vs ! i mod crt_mod c ! i" if "i < length vs" for i
    using pack_residues [OF assms(1) ms, of "length vs" i ?seq radix] that len assms(2-4)
    by (simp add: gmp_get_set)
  moreover have "0 < prod_list ?ms" using ms(2) by (intro prod_list_pos) force
  ultimately show ?thesis
    using pack_range [of "prod_list ?ms" G ?seq ?ms radix "[0..<length vs]"] assms(6) eq
    by (simp add: data_packing_crt_def Let_def)
qed

lemma retrieve_balanced:
  assumes "gmp_text G" "crt_ok c" "length vs \<le> crt_size c" "balanced c vs"
    and "\<forall>i < length vs. x mod crt_mod c ! i = vs ! i mod crt_mod c ! i"
  shows "data_retrieve_crt G x c (length vs) radix = Inr (map (mpz_get_str G radix) vs)"
proof -
  have "(if crt_half_mod c ! i \<le> x mod crt_mod c ! i then x mod crt_mod c ! i - crt_mod c ! i
      else x mod crt_mod c ! i) = vs ! i" if "i < length vs" for i
    using recentre [of "crt_mod c ! i" "vs ! i"] that assms(2-5)
    by (auto simp: crt_ok_def balanced_def)
  then have "map (\<lambda>i. mpz_get_str G radix (if crt_half_mod c ! i \<le> x mod crt_mod c ! i
      then x mod crt_mod c ! i - crt_mod c ! i else x mod crt_mod c ! i)) [0..<length vs] =
      map (mpz_get_str G radix) (map ((!) vs) [0..<length vs])"
    unfolding map_map by (intro map_cong refl) simp
  then show ?thesis using assms(3) unfolding data_retrieve_crt_def Let_def map_nth by simp
qed

section \<open>Properties\<close>

text \<open>
  Packing is inverted by retrieval: with moduli made by \<^verbatim>\<open>init_crt\<close>, a sequence of numbers no
  longer than the number of moduli, each in the balanced range of its modulus, is packed into one
  non-negative number below the product of the moduli, and retrieving from that number returns the
  digits of every entry.
\<close>

theorem crt_pack_round_trip:
  assumes "gmp_arith G" "gmp_text G" "gmp_nextprime G (mod_size_arg + 1 + size_arg)"
    and "init_crt G size_arg mod_size_arg block = Some c"
    and "length vs \<le> size_arg" "balanced c vs" "2 \<le> radix" "radix \<le> 62"
  shows "\<exists>x. data_packing_crt G (map (mpz_get_str G radix) vs) c radix = Inr x \<and>
    0 \<le> x \<and> x < prod_list (take (length vs) (crt_mod c)) \<and>
    data_retrieve_crt G x c (length vs) radix = Inr (map (mpz_get_str G radix) vs)"
proof -
  have ok: "crt_ok c" by (rule init_crt_ok [OF assms(3,4)])
  have "crt_size c = size_arg" using assms(4) by (auto simp: init_crt_def Let_def)
  then have len: "length vs \<le> crt_size c" using assms(5) by simp
  show ?thesis
    using pack_props [OF assms(1,2,7,8) ok len] retrieve_balanced [OF assms(2) ok len assms(6)] by blast
qed

lemma small_crt:
  "init_crt gmp_ref 2 2 [0] = Some \<lparr>crt_half_mod = [2, 3], crt_mod = [5, 7], crt_size = 2, mod_size = 2\<rparr>"
  by code_simp

theorem crt_pack_round_trip_witness:
  "\<exists>x. data_packing_crt gmp_ref [''1'', ''-3''] \<lparr>crt_half_mod = [2, 3], crt_mod = [5, 7],
       crt_size = 2, mod_size = 2\<rparr> 10 = Inr x \<and> 0 \<le> x \<and> x < 35 \<and>
     data_retrieve_crt gmp_ref x \<lparr>crt_half_mod = [2, 3], crt_mod = [5, 7],
       crt_size = 2, mod_size = 2\<rparr> 2 10 = Inr [''1'', ''-3'']"
proof -
  have str: "map (mpz_get_str gmp_ref 10) [1, -3] = [''1'', ''-3'']" by code_simp
  have "gmp_nextprime gmp_ref (2 + 1 + 2)" using gmp_nextprime_ref by simp
  note t = crt_pack_round_trip [OF gmp_arith_ref gmp_text_ref this small_crt, of "[1, -3]" 10, unfolded str]
  have "balanced \<lparr>crt_half_mod = [2, 3], crt_mod = [5, 7], crt_size = 2, mod_size = 2\<rparr> [1, -3]"
    by (auto simp: balanced_def less_Suc_eq)
  with t show ?thesis by (simp add: numeral_2_eq_2)
qed

text \<open>
  Packed vectors add under encryption: pack two vectors, encrypt both with the fixed-base
  routine, multiply the ciphertexts with \<^verbatim>\<open>opt_paillier_add\<close>, decrypt by CRT and retrieve: the result
  is the entrywise sum of the vectors, as long as each sum stays in the balanced range of its
  modulus and twice the product of the moduli used does not exceed \<open>n\<close>.
\<close>

theorem packed_addition:
  assumes "key_ok G pub prv" "gmp_text G" "crt_ok c" "2 \<le> radix" "radix \<le> 62"
    and "length vs = length ws" "length vs \<le> crt_size c" "balanced c (map2 (+) vs ws)"
    and "2 * prod_list (take (length vs) (crt_mod c)) \<le> pk_n pub"
    and "aby_prng (pk_lbits pub) block = Some r" "aby_prng (pk_lbits pub) block' = Some r'"
  shows "\<exists>x y cx cy. data_packing_crt G (map (mpz_get_str G radix) vs) c radix = Inr x \<and>
    data_packing_crt G (map (mpz_get_str G radix) ws) c radix = Inr y \<and>
    opt_paillier_encrypt_crt_fb pub prv x block = Inr cx \<and>
    opt_paillier_encrypt_crt_fb pub prv y block' = Inr cy \<and>
    data_retrieve_crt G (opt_paillier_decrypt_crt G pub prv (opt_paillier_add cx cy pub)) c
      (length vs) radix = Inr (map (mpz_get_str G radix) (map2 (+) vs ws))"
proof -
  have G: "gmp_arith G" using assms(1) by (simp add: key_ok_def)
  obtain x where x: "data_packing_crt G (map (mpz_get_str G radix) vs) c radix = Inr x"
    "0 \<le> x" "x < prod_list (take (length vs) (crt_mod c))"
    "\<forall>i < length vs. x mod crt_mod c ! i = vs ! i mod crt_mod c ! i"
    using pack_props [OF G assms(2,4,5,3,7)] by blast
  obtain y where y: "data_packing_crt G (map (mpz_get_str G radix) ws) c radix = Inr y"
    "0 \<le> y" "y < prod_list (take (length vs) (crt_mod c))"
    "\<forall>i < length vs. y mod crt_mod c ! i = ws ! i mod crt_mod c ! i"
    using pack_props [OF G assms(2,4,5,3), of ws] assms(6,7) by auto
  obtain cx cy where e: "opt_paillier_encrypt_crt_fb pub prv x block = Inr cx"
    "opt_paillier_encrypt_crt_fb pub prv y block' = Inr cy"
    "opt_paillier_decrypt_crt G pub prv (opt_paillier_add cx cy pub) = (x + y) mod pk_n pub"
    using fast_scheme.add_round_trip [of "(G, pub, prv)" block r block' r' x y] assms(1,10,11)
    by (auto simp: scheme_enc)
  have "(x + y) mod pk_n pub = x + y" using x(2,3) y(2,3) assms(9) by simp
  moreover have "(x + y) mod crt_mod c ! i = map2 (+) vs ws ! i mod crt_mod c ! i"
    if "i < length (map2 (+) vs ws)" for i
    using that x(4) y(4) assms(6) by (simp add: nth_map2) (metis mod_add_eq)
  ultimately show ?thesis
    using retrieve_balanced [OF assms(2,3) _ assms(8), of "x + y" radix] x(1) y(1) e assms(6,7) by simp
qed

theorem packed_addition_witness:
  "\<exists>x y cx cy. data_packing_crt gmp_ref [''1'', ''-2''] \<lparr>crt_half_mod = [2, 3], crt_mod = [5, 7],
       crt_size = 2, mod_size = 2\<rparr> 10 = Inr x \<and>
    data_packing_crt gmp_ref [''-2'', ''1''] \<lparr>crt_half_mod = [2, 3], crt_mod = [5, 7],
       crt_size = 2, mod_size = 2\<rparr> 10 = Inr y \<and>
    opt_paillier_encrypt_crt_fb small_pub small_prv x [7] = Inr cx \<and>
    opt_paillier_encrypt_crt_fb small_pub small_prv y [9] = Inr cy \<and>
    data_retrieve_crt gmp_ref
      (opt_paillier_decrypt_crt gmp_ref small_pub small_prv (opt_paillier_add cx cy small_pub))
      \<lparr>crt_half_mod = [2, 3], crt_mod = [5, 7], crt_size = 2, mod_size = 2\<rparr> 2 10 = Inr [''-1'', ''-1'']"
proof -
  let ?c = "\<lparr>crt_half_mod = [2, 3], crt_mod = [5, 7], crt_size = 2, mod_size = 2\<rparr> :: CrtMod"
  have str: "map (mpz_get_str gmp_ref 10) [1, -2] = [''1'', ''-2'']"
    "map (mpz_get_str gmp_ref 10) [-2, 1] = [''-2'', ''1'']"
    "map (mpz_get_str gmp_ref 10) [-1, -1] = [''-1'', ''-1'']" by code_simp+
  have "gmp_nextprime gmp_ref (2 + 1 + 2)" using gmp_nextprime_ref by simp
  then have ok: "crt_ok ?c" using small_crt by (rule init_crt_ok)
  have r: "aby_prng (pk_lbits small_pub) [7] = Some 7" "aby_prng (pk_lbits small_pub) [9] = Some 9"
    unfolding small_pub_def by code_simp+
  have sum: "map2 (+) [1, -2] [-2, 1] = [-1, -1 :: int]" by simp
  have b: "balanced ?c [-1, -1]" by (auto simp: balanced_def less_Suc_eq)
  note t = packed_addition [OF small_key_ok gmp_text_ref ok, of 10 "[1, -2]" "[-2, 1]" "[7]" 7 "[9]" 9,
      unfolded sum str, OF _ _ _ _ b _ r]
  have n: "pk_n small_pub = 77" by (simp add: small_pub_def)
  show ?thesis using t by (simp add: n numeral_2_eq_2)
qed

end
