(* ===== verification/Expr_Parser.thy ===== *)
theory Expr_Parser
  imports Prelude "HOL-Library.Multiset"
begin

text \<open>
  The expression front end of \<^verbatim>\<open>executor/express.cc\<close>: \<^verbatim>\<open>isOperator\<close>, \<^verbatim>\<open>Priority\<close>, the conversion of an
  infix expression to a suffix stack (\<^verbatim>\<open>parseExpress\<close>) and its check (\<^verbatim>\<open>checkExpress\<close>). A
  \<^verbatim>\<open>std::stack\<close> is a list whose head is the top. The loop variable \<open>i\<close> of the parser is represented
  by the rest of the text together with the character before it, which is \<open>None\<close> exactly when
  \<open>i = 0\<close>. The specification is a syntax tree with its printer and its postfix form.
\<close>

section \<open>Characters and tokens\<close>

definition isOperator :: "char \<Rightarrow> bool" where
  "isOperator c \<longleftrightarrow> c = CHR ''+'' \<or> c = CHR ''-'' \<or> c = CHR ''*'' \<or> c = CHR ''/''"

definition isOperator_str :: "string \<Rightarrow> bool" where
  "isOperator_str s \<longleftrightarrow> s = ''+'' \<or> s = ''-'' \<or> s = ''*'' \<or> s = ''/''"

definition Priority :: "char \<Rightarrow> nat" where
  "Priority c = (if c = CHR ''+'' \<or> c = CHR ''-'' then 1
     else if c = CHR ''*'' \<or> c = CHR ''/'' then 2 else 0)"

text \<open>\<^verbatim>\<open>s.c_str()[0]\<close>, the terminating zero for the empty string.\<close>

definition cstr0 :: "string \<Rightarrow> char" where
  "cstr0 s = (case s of [] \<Rightarrow> CHR 0x00 | c # cs \<Rightarrow> c)"

section \<open>The parser\<close>

record parse_state =
  ps_temp :: string
  ps_suffix_stk :: "string list"
  ps_stk2 :: "string list"

text \<open>\<^verbatim>\<open>if (!temp.empty()) stk2.push(temp)\<close>.\<close>

definition push_temp :: "string \<Rightarrow> string list \<Rightarrow> string list" where
  "push_temp temp stk2 = (if temp = [] then stk2 else temp # stk2)"

text \<open>The loop that makes room for the operator \<open>c\<close>.\<close>

fun push_operator :: "char \<Rightarrow> string list \<Rightarrow> string list \<Rightarrow> string list \<times> string list" where
  "push_operator c [] stk2 = ([[c]], stk2)"
| "push_operator c (t # stk) stk2 =
     (if cstr0 t = CHR ''('' then ([c] # t # stk, stk2)
      else if Priority (cstr0 t) < Priority c then ([c] # t # stk, stk2)
      else push_operator c stk (t # stk2))"

text \<open>The loop for a closing bracket, and the removal of the opening one.\<close>

fun pop_bracket :: "string \<Rightarrow> string list \<Rightarrow> string list \<Rightarrow> parse_state" where
  "pop_bracket temp [] stk2 = \<lparr>ps_temp = temp, ps_suffix_stk = [], ps_stk2 = stk2\<rparr>"
| "pop_bracket temp (t # stk) stk2 =
     (if cstr0 t \<noteq> CHR ''('' then pop_bracket [] stk (t # push_temp temp stk2)
      else \<lparr>ps_temp = temp, ps_suffix_stk = stk, ps_stk2 = stk2\<rparr>)"

text \<open>
  The two loops that read a negative number, up to an operator or up to a closing bracket. They do
  not check the length of the text: without such a character they read past its end.
\<close>

fun scan_until :: "(char \<Rightarrow> bool) \<Rightarrow> string \<Rightarrow> (string \<times> string) res" where
  "scan_until stop [] = Inl (Undefined ''read past the end of the expression'')"
| "scan_until stop (c # cs) =
     (if stop c then Inr ([], c # cs)
      else bindR (scan_until stop cs) (\<lambda>(tok, rest). Inr (c # tok, rest)))"

text \<open>One iteration on an operator, a bracket or any other character.\<close>

definition parse_char :: "char \<Rightarrow> parse_state \<Rightarrow> parse_state" where
  "parse_char c st =
     (if isOperator c then
        let (stk, out) = push_operator c (ps_suffix_stk st) (push_temp (ps_temp st) (ps_stk2 st))
        in \<lparr>ps_temp = [], ps_suffix_stk = stk, ps_stk2 = out\<rparr>
      else if c = CHR ''('' then st\<lparr>ps_suffix_stk := [c] # ps_suffix_stk st\<rparr>
      else if c = CHR '')'' then pop_bracket (ps_temp st) (ps_suffix_stk st) (ps_stk2 st)
      else st\<lparr>ps_temp := ps_temp st @ [c]\<rparr>)"

lemma scan_until_rest_le: "scan_until stop cs = Inr (tok, rest) \<Longrightarrow> length tok + length rest = length cs"
  by (induction cs arbitrary: tok) (auto split: if_splits simp: bindR_def split: sum.splits)

function parse_loop :: "char option \<Rightarrow> string \<Rightarrow> parse_state \<Rightarrow> parse_state res" where
  "parse_loop prev [] st =
     Inr (st\<lparr>ps_temp := [], ps_stk2 := push_temp (ps_temp st) (ps_stk2 st)\<rparr>)"
| "parse_loop prev (c # cs) st =
     (if c = CHR ''-'' \<and> prev = None then
        (case scan_until isOperator cs of
           Inl e \<Rightarrow> Inl e
         | Inr (tok, rest) \<Rightarrow>
             parse_loop (Some (last (c # tok))) rest (st\<lparr>ps_temp := ps_temp st @ c # tok\<rparr>))
      else if c = CHR ''-'' \<and> prev = Some (CHR ''('') then
        (case scan_until (\<lambda>x. x = CHR '')'') cs of
           Inl e \<Rightarrow> Inl e
         | Inr (tok, rest) \<Rightarrow>
             parse_loop (Some (last (c # tok))) rest (st\<lparr>ps_temp := ps_temp st @ c # tok\<rparr>))
      else parse_loop (Some c) cs (parse_char c st))"
  by pat_completeness auto
termination
  by (relation "measure (\<lambda>(prev, cs, st). length cs)") (auto dest: scan_until_rest_le)

text \<open>\<^verbatim>\<open>parseExpress\<close> on the stack the executor already holds.\<close>

definition parseExpress :: "string \<Rightarrow> string list \<Rightarrow> string list res" where
  "parseExpress expr suffix_stk =
     bindR (parse_loop None expr \<lparr>ps_temp = [], ps_suffix_stk = suffix_stk, ps_stk2 = []\<rparr>)
       (\<lambda>st. Inr (rev (ps_stk2 st) @ ps_suffix_stk st))"

text \<open>\<^verbatim>\<open>checkExpress\<close>: the operator count is a \<^verbatim>\<open>uint16_t\<close>, the sizes are 64 bits wide.\<close>

definition checkExpress :: "string list \<Rightarrow> bool" where
  "checkExpress suffix =
     (if \<exists>s \<in> set suffix. s = ''('' \<or> s = '')'' then False
      else
        let num_op = word_of_nat (length (filter isOperator_str suffix)) :: u16 in
        if word_of_nat (length suffix) - ucast num_op \<noteq> (ucast num_op + 1 :: u64) then False
        else \<not> (\<exists>s \<in> set suffix. CHR ''('' \<in> set s \<or> CHR '')'' \<in> set s))"

section \<open>Specification: syntax trees\<close>

text \<open>
  Arithmetic expressions as users write them. \<open>Neg s\<close> is a negative number in brackets. The
  printer adds no brackets, so a tree is well formed when the operands of an operator bind at least
  as tightly as it (strictly, on the right, because the operators associate to the left).
\<close>

datatype ast = Leaf string | Neg string | Paren ast | BinOp char ast ast

definition ident :: "string \<Rightarrow> bool" where
  "ident s \<longleftrightarrow> s \<noteq> [] \<and> (\<forall>c \<in> set s. \<not> isOperator c \<and> c \<noteq> CHR ''('' \<and> c \<noteq> CHR '')'')"

fun prec :: "ast \<Rightarrow> nat" where
  "prec (BinOp c l r) = Priority c"
| "prec _ = 3"

fun wf_ast :: "ast \<Rightarrow> bool" where
  "wf_ast (Leaf s) = ident s"
| "wf_ast (Neg s) = ident s"
| "wf_ast (Paren e) = wf_ast e"
| "wf_ast (BinOp c l r) = (isOperator c \<and> wf_ast l \<and> wf_ast r \<and> Priority c \<le> prec l \<and> Priority c < prec r)"

fun print :: "ast \<Rightarrow> string" where
  "print (Leaf s) = s"
| "print (Neg s) = ''(-'' @ s @ '')''"
| "print (Paren e) = ''('' @ print e @ '')''"
| "print (BinOp c l r) = print l @ [c] @ print r"

fun postfix :: "ast \<Rightarrow> string list" where
  "postfix (Leaf s) = [s]"
| "postfix (Neg s) = [CHR ''-'' # s]"
| "postfix (Paren e) = postfix e"
| "postfix (BinOp c l r) = postfix l @ postfix r @ [[c]]"

fun op_count :: "ast \<Rightarrow> nat" where
  "op_count (Paren e) = op_count e"
| "op_count (BinOp c l r) = Suc (op_count l + op_count r)"
| "op_count _ = 0"

section \<open>Parsing a printed tree\<close>

lemma isOperator_not_bracket [simp]: "isOperator c \<Longrightarrow> c \<noteq> CHR ''('' \<and> c \<noteq> CHR '')''"
  by (auto simp: isOperator_def)

lemma isOperator_minus [simp]: "isOperator (CHR ''-'')"
  by (simp add: isOperator_def)

lemma Priority_le_2: "Priority c \<le> 2"
  by (simp add: Priority_def)

lemma cstr0_Cons [simp]: "cstr0 (c # cs) = c"
  by (simp add: cstr0_def)

lemma isOperator_str_single [simp]: "isOperator_str [c] = isOperator c"
  by (auto simp: isOperator_str_def isOperator_def)

text \<open>An identifier is read character by character into \<open>temp\<close>.\<close>

lemma parse_ident:
  assumes "\<forall>c \<in> set s. \<not> isOperator c \<and> c \<noteq> CHR ''('' \<and> c \<noteq> CHR '')''"
  shows "s = [] \<or> parse_loop prev (s @ r) st =
    parse_loop (Some (last s)) r (st\<lparr>ps_temp := ps_temp st @ s\<rparr>)"
  using assms
proof (induction s arbitrary: prev st)
  case (Cons c s)
  then have c: "\<not> isOperator c" "c \<noteq> CHR ''-''" by (auto simp: isOperator_def)
  then have "parse_loop prev ((c # s) @ r) st = parse_loop (Some c) (s @ r) (st\<lparr>ps_temp := ps_temp st @ [c]\<rparr>)"
    using Cons.prems by (simp add: parse_char_def)
  then show ?case using Cons.IH [of "Some c" "st\<lparr>ps_temp := ps_temp st @ [c]\<rparr>"] Cons.prems by auto
qed simp

text \<open>
  When an operator arrives, the pending operators that bind at least as tightly are moved to the
  output, in order, and the stack below them is left alone.
\<close>

definition pending :: "nat \<Rightarrow> string list \<Rightarrow> bool" where
  "pending p ops \<longleftrightarrow> (\<forall>t \<in> set ops. cstr0 t \<noteq> CHR ''('' \<and> p \<le> Priority (cstr0 t))"

definition stops :: "nat \<Rightarrow> string list \<Rightarrow> bool" where
  "stops p stk \<longleftrightarrow> (case stk of [] \<Rightarrow> True | t # ts \<Rightarrow> cstr0 t = CHR ''('' \<or> Priority (cstr0 t) < p)"

lemma push_operator_pending:
  "pending (Priority c) ops \<Longrightarrow> stops (Priority c) stk \<Longrightarrow>
   push_operator c (ops @ stk) out = ([c] # stk, rev ops @ out)"
proof (induction ops arbitrary: out)
  case Nil
  then show ?case by (cases stk) (auto simp: stops_def)
qed (auto simp: pending_def)

lemma pop_bracket_pending:
  "pending p ops \<Longrightarrow> pop_bracket temp (ops @ ''('' # stk) out =
     \<lparr>ps_temp = (if ops = [] then temp else []), ps_suffix_stk = stk,
      ps_stk2 = (if ops = [] then out else rev ops @ push_temp temp out)\<rparr>"
  by (induction ops arbitrary: temp out) (auto simp: pending_def push_temp_def)

text \<open>
  What reading the text \<open>txt\<close> of the tree \<open>e\<close> does to the parser, from an empty \<open>temp\<close>: the tokens
  output so far, \<open>temp\<close> and the new pending operators together spell the postfix form of \<open>e\<close>.
\<close>

definition reads :: "char option \<Rightarrow> string \<Rightarrow> string list \<Rightarrow> nat \<Rightarrow> string \<Rightarrow> bool" where
  "reads prev txt toks p r \<longleftrightarrow> (\<forall>stk out. stops p stk \<longrightarrow>
     (\<exists>q temp ops out'. q \<noteq> CHR ''('' \<and> pending p ops \<and>
        rev (push_temp temp out') @ ops = rev out @ toks \<and>
        parse_loop prev (txt @ r) \<lparr>ps_temp = [], ps_suffix_stk = stk, ps_stk2 = out\<rparr> =
        parse_loop (Some q) r \<lparr>ps_temp = temp, ps_suffix_stk = ops @ stk, ps_stk2 = out'\<rparr>))"

lemma readsE:
  assumes "reads prev txt toks p r" "stops p stk"
  obtains q temp ops out' where "q \<noteq> CHR ''(''" "pending p ops"
    "rev (push_temp temp out') @ ops = rev out @ toks"
    "parse_loop prev (txt @ r) \<lparr>ps_temp = [], ps_suffix_stk = stk, ps_stk2 = out\<rparr> =
     parse_loop (Some q) r \<lparr>ps_temp = temp, ps_suffix_stk = ops @ stk, ps_stk2 = out'\<rparr>"
proof -
  note assms(1) [unfolded reads_def, rule_format, OF assms(2), of out]
  then show thesis by (elim exE conjE) (rule that)
qed

lemma reads_leaf:
  assumes "ident s"
  shows "reads prev s [s] p r"
proof -
  have "s \<noteq> []" "last s \<noteq> CHR ''(''" using assms by (auto simp: ident_def)
  moreover have "parse_loop prev (s @ r) \<lparr>ps_temp = [], ps_suffix_stk = stk, ps_stk2 = out\<rparr> =
      parse_loop (Some (last s)) r \<lparr>ps_temp = s, ps_suffix_stk = [] @ stk, ps_stk2 = out\<rparr>" for stk out
    using parse_ident [of s prev r "\<lparr>ps_temp = [], ps_suffix_stk = stk, ps_stk2 = out\<rparr>"] assms
    by (simp add: ident_def)
  moreover have "pending p []" by (simp add: pending_def)
  ultimately show ?thesis unfolding reads_def
    by (intro allI impI, rename_tac stk out, rule_tac x = "last s" in exI, rule_tac x = s in exI,
        rule_tac x = "[]" in exI, rule_tac x = out in exI) (simp add: push_temp_def)
qed

lemma reads_BinOp:
  assumes l: "reads prev txtl toksl pl (c # txtr @ r)" and r: "\<And>q. reads (Some q) txtr toksr pr r"
    and c: "isOperator c" and p: "Priority c \<le> pl" "Priority c < pr"
  shows "reads prev (txtl @ [c] @ txtr) (toksl @ toksr @ [[c]]) (Priority c) r"
  unfolding reads_def
proof (intro allI impI)
  fix stk out assume stk: "stops (Priority c) stk"
  then have "stops pl stk" using p(1) by (auto simp: stops_def split: list.splits)
  with l obtain q temp ops out' where L: "q \<noteq> CHR ''(''" "pending pl ops"
    "rev (push_temp temp out') @ ops = rev out @ toksl"
    "parse_loop prev (txtl @ c # txtr @ r) \<lparr>ps_temp = [], ps_suffix_stk = stk, ps_stk2 = out\<rparr> =
     parse_loop (Some q) (c # txtr @ r) \<lparr>ps_temp = temp, ps_suffix_stk = ops @ stk, ps_stk2 = out'\<rparr>"
    by (rule readsE)
  let ?out = "rev ops @ push_temp temp out'"
  have "pending (Priority c) ops" using L(2) p(1) by (auto simp: pending_def)
  then have step: "parse_loop (Some q) (c # txtr @ r)
      \<lparr>ps_temp = temp, ps_suffix_stk = ops @ stk, ps_stk2 = out'\<rparr> =
      parse_loop (Some c) (txtr @ r) \<lparr>ps_temp = [], ps_suffix_stk = [c] # stk, ps_stk2 = ?out\<rparr>"
    using L(1) c push_operator_pending [OF _ stk] by (simp add: parse_char_def)
  have "stops pr ([c] # stk)" using p(2) by (simp add: stops_def)
  with r obtain q' temp' ops' out'' where R: "q' \<noteq> CHR ''(''" "pending pr ops'"
    "rev (push_temp temp' out'') @ ops' = rev ?out @ toksr"
    "parse_loop (Some c) (txtr @ r) \<lparr>ps_temp = [], ps_suffix_stk = [c] # stk, ps_stk2 = ?out\<rparr> =
     parse_loop (Some q') r \<lparr>ps_temp = temp', ps_suffix_stk = ops' @ [c] # stk, ps_stk2 = out''\<rparr>"
    by (rule readsE)
  show "\<exists>q temp ops out'. q \<noteq> CHR ''('' \<and> pending (Priority c) ops \<and>
      rev (push_temp temp out') @ ops = rev out @ toksl @ toksr @ [[c]] \<and>
      parse_loop prev ((txtl @ [c] @ txtr) @ r) \<lparr>ps_temp = [], ps_suffix_stk = stk, ps_stk2 = out\<rparr> =
      parse_loop (Some q) r \<lparr>ps_temp = temp, ps_suffix_stk = ops @ stk, ps_stk2 = out'\<rparr>"
  proof (intro exI conjI)
    show "q' \<noteq> CHR ''(''" by (rule R)
    show "pending (Priority c) (ops' @ [[c]])" using R(2) p(2) c by (fastforce simp: pending_def)
    show "rev (push_temp temp' out'') @ ops' @ [[c]] = rev out @ toksl @ toksr @ [[c]]"
      using R(3) L(3) by (metis append.assoc rev_append rev_rev_ident)
    show "parse_loop prev ((txtl @ [c] @ txtr) @ r) \<lparr>ps_temp = [], ps_suffix_stk = stk, ps_stk2 = out\<rparr> =
      parse_loop (Some q') r \<lparr>ps_temp = temp', ps_suffix_stk = (ops' @ [[c]]) @ stk, ps_stk2 = out''\<rparr>"
      using L(4) step R(4) by simp
  qed
qed

lemma reads_Paren:
  assumes "\<And>q. reads (Some q) txt toks p' ('')'' @ r)"
  shows "reads prev (''('' @ txt @ '')'') toks p r"
  unfolding reads_def
proof (intro allI impI)
  fix stk out assume "stops p stk"
  have "stops p' (''('' # stk)" by (simp add: stops_def)
  with assms obtain q temp ops out' where L: "q \<noteq> CHR ''(''" "pending p' ops"
    "rev (push_temp temp out') @ ops = rev out @ toks"
    "parse_loop (Some (CHR ''('')) (txt @ '')'' @ r) \<lparr>ps_temp = [], ps_suffix_stk = ''('' # stk, ps_stk2 = out\<rparr> =
     parse_loop (Some q) ('')'' @ r) \<lparr>ps_temp = temp, ps_suffix_stk = ops @ ''('' # stk, ps_stk2 = out'\<rparr>"
    by (rule readsE)
  let ?st = "pop_bracket temp (ops @ ''('' # stk) out'"
  have st: "?st = \<lparr>ps_temp = (if ops = [] then temp else []), ps_suffix_stk = stk,
      ps_stk2 = (if ops = [] then out' else rev ops @ push_temp temp out')\<rparr>"
    by (rule pop_bracket_pending [OF L(2)])
  have op: "\<not> isOperator (CHR ''('')" "\<not> isOperator (CHR '')'')" by (auto simp: isOperator_def)
  show "\<exists>q temp ops out'. q \<noteq> CHR ''('' \<and> pending p ops \<and>
      rev (push_temp temp out') @ ops = rev out @ toks \<and>
      parse_loop prev ((''('' @ txt @ '')'') @ r) \<lparr>ps_temp = [], ps_suffix_stk = stk, ps_stk2 = out\<rparr> =
      parse_loop (Some q) r \<lparr>ps_temp = temp, ps_suffix_stk = ops @ stk, ps_stk2 = out'\<rparr>"
  proof (intro exI conjI)
    show "CHR '')'' \<noteq> CHR ''(''" by simp
    show "pending p []" by (simp add: pending_def)
    show "rev (push_temp (ps_temp ?st) (ps_stk2 ?st)) @ [] = rev out @ toks"
      using L(3) st by (auto simp: push_temp_def)
    show "parse_loop prev ((''('' @ txt @ '')'') @ r) \<lparr>ps_temp = [], ps_suffix_stk = stk, ps_stk2 = out\<rparr> =
      parse_loop (Some (CHR '')'')) r \<lparr>ps_temp = ps_temp ?st, ps_suffix_stk = [] @ stk, ps_stk2 = ps_stk2 ?st\<rparr>"
      using L(4) op st by (simp add: parse_char_def)
  qed
qed

lemma scan_until_ident:
  "\<forall>c \<in> set s. \<not> stop c \<Longrightarrow> stop d \<Longrightarrow> scan_until stop (s @ d # r) = Inr (s, d # r)"
  by (induction s) auto

lemma ident_last: "ident s \<Longrightarrow> last (c # s) \<noteq> CHR ''(''"
  by (auto simp: ident_def)

lemma reads_Neg:
  assumes "ident s"
  shows "reads prev (''(-'' @ s @ '')'') [CHR ''-'' # s] p r"
  unfolding reads_def
proof (intro allI impI)
  fix stk out assume "stops p stk"
  have scan: "scan_until (\<lambda>x. x = CHR '')'') (s @ CHR '')'' # r) = Inr (s, CHR '')'' # r)"
    using assms by (intro scan_until_ident) (auto simp: ident_def)
  have op: "\<not> isOperator (CHR ''('')" "\<not> isOperator (CHR '')'')" by (auto simp: isOperator_def)
  have "parse_loop prev ((''(-'' @ s @ '')'') @ r) \<lparr>ps_temp = [], ps_suffix_stk = stk, ps_stk2 = out\<rparr> =
      parse_loop (Some (CHR '')'')) r \<lparr>ps_temp = CHR ''-'' # s, ps_suffix_stk = [] @ stk, ps_stk2 = out\<rparr>"
    using scan op by (simp add: parse_char_def)
  then show "\<exists>q temp ops out'. q \<noteq> CHR ''('' \<and> pending p ops \<and>
      rev (push_temp temp out') @ ops = rev out @ [CHR ''-'' # s] \<and>
      parse_loop prev ((''(-'' @ s @ '')'') @ r) \<lparr>ps_temp = [], ps_suffix_stk = stk, ps_stk2 = out\<rparr> =
      parse_loop (Some q) r \<lparr>ps_temp = temp, ps_suffix_stk = ops @ stk, ps_stk2 = out'\<rparr>"
    by (intro exI [of _ "CHR '')''"] exI [of _ "CHR ''-'' # s"] exI [of _ "[]"] exI [of _ out])
       (simp add: push_temp_def pending_def)
qed

lemma reads_print: "wf_ast e \<Longrightarrow> reads prev (print e) (postfix e) (prec e) r"
proof (induction e arbitrary: prev r)
  case (BinOp c l r')
  then show ?case by (simp only: print.simps postfix.simps prec.simps wf_ast.simps) (blast intro: reads_BinOp)
next
  case (Neg s)
  then show ?case using reads_Neg [of s prev 3] by simp
next
  case (Paren e)
  then show ?case using reads_Paren [of "print e" "postfix e" "prec e" _ prev 3] by simp
qed (simp add: reads_leaf)

text \<open>A text that is read as \<open>toks\<close> from the start, with an empty stack, is parsed to \<open>toks\<close>.\<close>

lemma reads_parse:
  assumes "reads None txt toks p []"
  shows "parseExpress txt [] = Inr toks"
proof -
  have "stops p []" by (simp add: stops_def)
  with assms obtain q temp ops out' where "rev (push_temp temp out') @ ops = rev [] @ toks"
    "parse_loop None (txt @ []) \<lparr>ps_temp = [], ps_suffix_stk = [], ps_stk2 = []\<rparr> =
     parse_loop (Some q) [] \<lparr>ps_temp = temp, ps_suffix_stk = ops @ [], ps_stk2 = out'\<rparr>"
    by (rule readsE)
  then show ?thesis by (simp add: parseExpress_def)
qed

text \<open>
  A minus sign at the very start negates the leftmost number, provided that number stands outside
  all brackets and an operator follows it.
\<close>

fun negate_left :: "ast \<Rightarrow> ast option" where
  "negate_left (Leaf s) = Some (Leaf (CHR ''-'' # s))"
| "negate_left (BinOp c l r) = map_option (\<lambda>l'. BinOp c l' r) (negate_left l)"
| "negate_left _ = None"

lemma reads_negate_left:
  assumes "wf_ast e" "negate_left e = Some e'" "isOperator d"
  shows "reads None (CHR ''-'' # print e) (postfix e') (prec e) (d # r)"
  using assms
proof (induction e arbitrary: e' d r)
  case (Leaf s)
  have scan: "scan_until isOperator (s @ d # r) = Inr (s, d # r)"
    using Leaf by (intro scan_until_ident) (auto simp: ident_def)
  show ?case
    unfolding reads_def
  proof (intro allI impI)
    fix stk out
    have "parse_loop None ((CHR ''-'' # print (Leaf s)) @ d # r)
        \<lparr>ps_temp = [], ps_suffix_stk = stk, ps_stk2 = out\<rparr> =
      parse_loop (Some (last (CHR ''-'' # s))) (d # r)
        \<lparr>ps_temp = CHR ''-'' # s, ps_suffix_stk = [] @ stk, ps_stk2 = out\<rparr>"
      using scan by simp
    then show "\<exists>q temp ops out'. q \<noteq> CHR ''('' \<and> pending (prec (Leaf s)) ops \<and>
      rev (push_temp temp out') @ ops = rev out @ postfix e' \<and>
      parse_loop None ((CHR ''-'' # print (Leaf s)) @ d # r)
        \<lparr>ps_temp = [], ps_suffix_stk = stk, ps_stk2 = out\<rparr> =
      parse_loop (Some q) (d # r) \<lparr>ps_temp = temp, ps_suffix_stk = ops @ stk, ps_stk2 = out'\<rparr>"
      using Leaf ident_last
      by (intro exI [of _ "last (CHR ''-'' # s)"] exI [of _ "CHR ''-'' # s"] exI [of _ "[]"] exI [of _ out])
         (auto simp: push_temp_def pending_def)
  qed
next
  case (BinOp c l r')
  then obtain l' where l': "negate_left l = Some l'" "e' = BinOp c l' r'" by auto
  have "reads None (CHR ''-'' # print l) (postfix l') (prec l) (c # print r' @ d # r)"
    using BinOp.IH(1) BinOp.prems l' by simp
  from reads_BinOp [OF this reads_print] BinOp.prems l' show ?case by simp
qed simp_all

lemma reads_negate_op:
  assumes "wf_ast (BinOp c l r)" "negate_left l = Some l'"
  shows "reads None (CHR ''-'' # print (BinOp c l r)) (postfix (BinOp c l' r)) (Priority c) []"
  using reads_BinOp [OF reads_negate_left [OF _ assms(2)] reads_print, of c r "[]"] assms(1) by simp

section \<open>Checking a parsed tree\<close>

lemma isOperator_strE:
  assumes "isOperator_str s" obtains c where "s = [c]" "isOperator c"
proof -
  from assms have "\<exists>c. s = [c]" unfolding isOperator_str_def by (elim disjE) blast+
  then obtain c where s: "s = [c]" by (rule exE)
  from assms have "isOperator c" unfolding s isOperator_str_single .
  with s show thesis by (rule that)
qed

lemma ident_not_operator: "ident s \<Longrightarrow> \<not> isOperator_str s"
proof
  assume "ident s" "isOperator_str s"
  from this(2) obtain c where "s = [c]" "isOperator c" by (rule isOperator_strE)
  with \<open>ident s\<close> show False by (simp add: ident_def)
qed

lemma ident_neg_not_operator: "ident s \<Longrightarrow> \<not> isOperator_str (CHR ''-'' # s)"
  by (auto simp: ident_def isOperator_str_def)

lemma postfix_operators:
  "wf_ast e \<Longrightarrow> length (filter isOperator_str (postfix e)) = op_count e"
  by (induction e) (simp_all add: ident_not_operator ident_neg_not_operator)

lemma postfix_length: "length (postfix e) = 2 * op_count e + 1"
  by (induction e) simp_all

lemma postfix_no_brackets:
  "wf_ast e \<Longrightarrow> t \<in> set (postfix e) \<Longrightarrow> CHR ''('' \<notin> set t \<and> CHR '')'' \<notin> set t"
  by (induction e) (auto simp: ident_def isOperator_def)

text \<open>The count that \<^verbatim>\<open>checkExpress\<close> compares is exact as long as it fits into 16 bits.\<close>

lemma count_test:
  assumes "n < 2 ^ 62"
  shows "word_of_nat (2 * n + 1) - ucast (word_of_nat n :: u16) = (ucast (word_of_nat n :: u16) + 1 :: u64)
    \<longleftrightarrow> n < 2 ^ 16"
proof -
  let ?m = "n mod 2 ^ 16"
  have m: "ucast (word_of_nat n :: u16) = (word_of_nat ?m :: u64)"
    by (simp add: unsigned_of_nat take_bit_eq_mod)
  have "word_of_nat (2 * n + 1) - word_of_nat ?m = (word_of_nat ?m + 1 :: u64) \<longleftrightarrow>
      (word_of_nat (2 * n + 1) :: u64) = word_of_nat (2 * ?m + 1)"
    by (simp add: diff_eq_eq)
  also have "\<dots> \<longleftrightarrow> n = ?m"
  proof
    assume eq: "(word_of_nat (2 * n + 1) :: u64) = word_of_nat (2 * ?m + 1)"
    have "?m \<le> n" by simp
    then have "2 * n + 1 < 2 ^ 64" "2 * ?m + 1 < 2 ^ 64" using assms by simp_all
    moreover have "(2 * n + 1) mod 2 ^ LENGTH(64) = (2 * ?m + 1) mod 2 ^ LENGTH(64)"
      using arg_cong [OF eq, of unat] by (simp only: unat_of_nat)
    ultimately have "2 * n + 1 = 2 * ?m + 1" by simp
    then show "n = ?m" by simp
  qed simp
  also have "\<dots> \<longleftrightarrow> n < 2 ^ 16"
    by (metis mod_less mod_less_divisor zero_less_numeral zero_less_power)
  finally show ?thesis by (simp only: m)
qed

lemma checkExpress_postfix:
  assumes "wf_ast e" "op_count e < 2 ^ 62"
  shows "checkExpress (postfix e) \<longleftrightarrow> op_count e < 2 ^ 16"
proof -
  note br = postfix_no_brackets [OF assms(1)]
  have "\<not> (\<exists>s \<in> set (postfix e). s = ''('' \<or> s = '')'')" using br by fastforce
  moreover have "\<not> (\<exists>s \<in> set (postfix e). CHR ''('' \<in> set s \<or> CHR '')'' \<in> set s)" using br by blast
  ultimately show ?thesis
    using count_test [OF assms(2)]
    by (simp add: checkExpress_def postfix_operators [OF assms(1)] postfix_length)
qed

section \<open>No character is lost\<close>

definition content1 :: "char \<Rightarrow> char multiset" where
  "content1 c = (if c = CHR ''('' \<or> c = CHR '')'' then {#} else {#c#})"

definition content :: "string \<Rightarrow> char multiset" where
  "content s = sum_list (map content1 s)"

definition stock :: "parse_state \<Rightarrow> char multiset" where
  "stock st = content (ps_temp st) + content (concat (ps_suffix_stk st)) + content (concat (ps_stk2 st))"

lemma content_simps [simp]:
  "content [] = {#}"
  "content (s @ t) = content s + content t"
  "content (c # s) = content1 c + content s"
  "content1 (CHR ''('') = {#}"
  "content1 (CHR '')'') = {#}"
  by (simp_all add: content_def content1_def)

definition single_ops :: "string list \<Rightarrow> bool" where
  "single_ops stk \<longleftrightarrow> (\<forall>t \<in> set stk. length t = 1)"

lemma push_temp_content [simp]:
  "content (concat (push_temp temp out)) = content temp + content (concat out)"
  by (simp add: push_temp_def)

lemma push_operator_content:
  "push_operator c stk out = (stk', out') \<Longrightarrow> single_ops stk \<Longrightarrow>
   content (concat stk') + content (concat out') = content1 c + content (concat stk) + content (concat out) \<and>
   single_ops stk'"
  by (induction c stk out rule: push_operator.induct)
     (auto simp: single_ops_def ac_simps split: if_splits)

lemma pop_bracket_content:
  "single_ops stk \<Longrightarrow>
   stock (pop_bracket temp stk out) = content temp + content (concat stk) + content (concat out) \<and>
   single_ops (ps_suffix_stk (pop_bracket temp stk out))"
proof (induction temp stk out rule: pop_bracket.induct)
  case (2 temp t stk out)
  show ?case
  proof (cases "cstr0 t = CHR ''(''")
    case True
    moreover have "length t = 1" using 2(2) by (simp add: single_ops_def)
    ultimately have "t = ''(''" by (cases t) (auto simp: cstr0_def)
    then show ?thesis using 2(2) by (simp add: stock_def single_ops_def)
  next
    case False
    then show ?thesis using 2 by (simp add: single_ops_def ac_simps)
  qed
qed (simp add: stock_def single_ops_def)

lemma parse_char_content:
  assumes "single_ops (ps_suffix_stk st)"
  shows "stock (parse_char c st) = content1 c + stock st \<and> single_ops (ps_suffix_stk (parse_char c st))"
proof (cases "isOperator c")
  case True
  then show ?thesis
    using push_operator_content [OF _ assms, of c "push_temp (ps_temp st) (ps_stk2 st)"]
    by (auto simp: parse_char_def stock_def ac_simps split: prod.splits)
next
  case False
  show ?thesis
    using False pop_bracket_content [OF assms, of "ps_temp st" "ps_stk2 st"] assms
    by (auto simp: parse_char_def stock_def single_ops_def ac_simps)
qed

lemma scan_until_append: "scan_until stop cs = Inr (tok, rest) \<Longrightarrow> cs = tok @ rest"
  by (induction cs arbitrary: tok) (auto split: if_splits)

lemma parse_loop_content:
  "parse_loop prev cs st = Inr st' \<Longrightarrow> single_ops (ps_suffix_stk st) \<Longrightarrow>
   stock st' = content cs + stock st"
proof (induction prev cs st rule: parse_loop.induct)
  case (1 prev st)
  then show ?case by (auto simp: stock_def)
next
  case (2 prev c cs st)
  consider "c = CHR ''-'' \<and> prev = None" | "c = CHR ''-'' \<and> prev = Some (CHR ''('')"
    | "\<not> (c = CHR ''-'' \<and> prev = None)" "\<not> (c = CHR ''-'' \<and> prev = Some (CHR ''(''))" by blast
  then show ?case
  proof cases
    case 1
    with "2.prems" obtain tok rest where t: "scan_until isOperator cs = Inr (tok, rest)"
      by (auto split: sum.splits)
    with 1 "2.IH"(1) [OF 1 t refl] "2.prems" scan_until_append [OF t] show ?thesis
      by (simp add: stock_def ac_simps)
  next
    case 2
    with "2.prems" obtain tok rest where t: "scan_until (\<lambda>x. x = CHR '')'') cs = Inr (tok, rest)"
      by (auto split: sum.splits)
    with 2 "2.IH"(2) [OF _ 2 t refl] "2.prems" scan_until_append [OF t] show ?thesis
      by (simp add: stock_def ac_simps)
  next
    case 3
    with "2.prems" have "parse_loop (Some c) cs (parse_char c st) = Inr st'" by simp
    with "2.IH"(3) [OF 3] parse_char_content [OF "2.prems"(2), of c] show ?thesis
      by (simp add: ac_simps)
  qed
qed

lemma parse_loop_temp: "parse_loop prev cs st = Inr st' \<Longrightarrow> ps_temp st' = []"
  by (induction prev cs st rule: parse_loop.induct) (auto split: if_splits sum.splits)

section \<open>Properties\<close>

text \<open>
  C7. Parsing inverts printing: for every well-formed tree, \<^verbatim>\<open>parseExpress\<close> on its text, from an empty
  stack, returns (without undefined behaviour) exactly the postfix form of the tree: precedence, left
  associativity, nested brackets and bracketed negative numbers are all respected.
\<close>

theorem parse_print:
  assumes "wf_ast e"
  shows "parseExpress (print e) [] = Inr (postfix e)"
  by (rule reads_parse [OF reads_print [OF assms]])

theorem parse_print_witness:
  "parseExpress ''A+B*(C-(-5))/D'' [] = Inr [''A'', ''B'', ''C'', ''-5'', ''-'', ''*'', ''D'', ''/'', ''+'']"
proof -
  let ?e = "BinOp (CHR ''+'') (Leaf ''A'') (BinOp (CHR ''/'') (BinOp (CHR ''*'') (Leaf ''B'')
      (Paren (BinOp (CHR ''-'') (Leaf ''C'') (Neg ''5'')))) (Leaf ''D''))"
  have "wf_ast ?e" by (simp add: ident_def isOperator_def Priority_def)
  from parse_print [OF this] show ?thesis by simp
qed

text \<open>
  A minus sign at the start of an expression that goes on with an operator is the sign of the
  leftmost number: the parser returns the postfix form of the tree with that leaf negated.
\<close>

theorem parse_leading_minus:
  assumes "wf_ast (BinOp c l r)" "negate_left l = Some l'"
  shows "parseExpress (CHR ''-'' # print (BinOp c l r)) [] = Inr (postfix (BinOp c l' r))"
  by (rule reads_parse [OF reads_negate_op [OF assms]])

theorem parse_leading_minus_witness:
  "parseExpress ''-100/A'' [] = Inr [''-100'', ''A'', ''/'']"
proof -
  have "wf_ast (BinOp (CHR ''/'') (Leaf ''100'') (Leaf ''A''))"
    by (simp add: ident_def isOperator_def Priority_def)
  from parse_leading_minus [OF this, of "Leaf ''-100''"] show ?thesis by simp
qed

text \<open>
  \<^verbatim>\<open>checkExpress\<close> on the suffix form of a well-formed tree accepts it exactly when the tree has
  fewer than 65536 operators: the count is kept in 16 bits, and a larger valid expression is
  rejected because the count wraps around.
\<close>

theorem check_accepts_iff:
  assumes "wf_ast e" "op_count e < 2 ^ 62"
  shows "checkExpress (postfix e) \<longleftrightarrow> op_count e < 2 ^ 16"
  by (rule checkExpress_postfix [OF assms])

theorem check_accepts_iff_witness:
  "checkExpress [''A'', ''B'', ''*''] \<and> op_count (BinOp (CHR ''*'') (Leaf ''A'') (Leaf ''B'')) = 1"
proof -
  let ?e = "BinOp (CHR ''*'') (Leaf ''A'') (Leaf ''B'')"
  have "wf_ast ?e" by (simp add: ident_def isOperator_def Priority_def)
  from check_accepts_iff [OF this] show ?thesis by simp
qed

text \<open>
  The parser loses nothing: on every text on which it has defined behaviour, well formed or not,
  the characters of the resulting tokens, brackets aside, are those of the text, each as often as it
  occurs there.
\<close>

theorem parse_keeps_content:
  assumes "parseExpress expr [] = Inr suffix"
  shows "content (concat suffix) = content expr"
proof -
  obtain st where st: "parse_loop None expr \<lparr>ps_temp = [], ps_suffix_stk = [], ps_stk2 = []\<rparr> = Inr st"
    "suffix = rev (ps_stk2 st) @ ps_suffix_stk st"
    using assms by (auto simp: parseExpress_def)
  have "content (concat (rev xs)) = content (concat xs)" for xs by (induction xs) (simp_all add: ac_simps)
  moreover have "ps_temp st = []" using parse_loop_temp [OF st(1)] .
  ultimately show ?thesis
    using parse_loop_content [OF st(1)] st(2) by (simp add: stock_def single_ops_def ac_simps)
qed

theorem parse_keeps_content_witness:
  "content (concat [''a'', ''*'', ''b'']) = content ''(a*)b''"
  by (rule parse_keeps_content)
     (simp add: parseExpress_def parse_char_def isOperator_def push_temp_def)

end
