(* ===== verification/Column_Config.thy ===== *)
theory Column_Config
  imports Prelude
begin

text \<open>
  The two bookkeeping classes of \<^verbatim>\<open>executor/express.cc\<close>: \<^verbatim>\<open>ColumnConfig\<close> (owner, type and locality of
  every column) and \<^verbatim>\<open>FeedDict\<close> (the values of the local columns). An operation that returns a code
  yields the new state and the code; \<open>Inl\<close> is an exception. A \<^verbatim>\<open>FeedDict\<close> reads the configuration it
  points to, which its operations take as an argument. Vectors handed over with \<^verbatim>\<open>std::move\<close> are
  values here.
\<close>

section \<open>ColumnConfig\<close>

datatype ColDtype = INT64 | FP64

record ColumnConfig =
  cfg_party_id :: u32
  col_owner :: "u32 std_map"
  col_dtype :: "ColDtype std_map"
  local_col :: "bool std_map"

definition new_ColumnConfig :: "u32 \<Rightarrow> ColumnConfig" where
  "new_ColumnConfig party_id = \<lparr>cfg_party_id = party_id, col_owner = [], col_dtype = [], local_col = []\<rparr>"

definition DtypeToString :: "ColDtype \<Rightarrow> string" where
  "DtypeToString dtype = (if dtype = FP64 then ''FP64'' else ''I64'')"

definition cfg_importColumnDtype :: "string \<Rightarrow> ColDtype \<Rightarrow> ColumnConfig \<Rightarrow> ColumnConfig \<times> int" where
  "cfg_importColumnDtype col_name dtype cfg =
     (case map_of (col_dtype cfg) col_name of
        Some _ \<Rightarrow> (cfg, -1)
      | None \<Rightarrow> (cfg\<lparr>col_dtype := map_insert col_name dtype (col_dtype cfg)\<rparr>, 0))"

definition cfg_importColumnOwner :: "string \<Rightarrow> u32 \<Rightarrow> ColumnConfig \<Rightarrow> (ColumnConfig \<times> int) res" where
  "cfg_importColumnOwner col_name party_id cfg =
     (case map_of (col_owner cfg) col_name of
        Some _ \<Rightarrow> Inl (Raised ''owner attr is imported'')
      | None \<Rightarrow> Inr (cfg\<lparr>col_owner := map_insert col_name party_id (col_owner cfg)\<rparr>, 0))"

definition getColumnDtype :: "string \<Rightarrow> ColumnConfig \<Rightarrow> ColDtype res" where
  "getColumnDtype col_name cfg =
     (case map_of (col_dtype cfg) col_name of
        None \<Rightarrow> Inl (Raised ''Can't find dtype attr for column'')
      | Some dtype \<Rightarrow> Inr dtype)"

definition resolveLocalColumn :: "ColumnConfig \<Rightarrow> ColumnConfig res" where
  "resolveLocalColumn cfg =
     (if length (col_dtype cfg) \<noteq> length (col_owner cfg)
      then Inl (Raised ''Count of owner attr and dtype attr must be the same'')
      else if \<exists>e \<in> set (col_owner cfg). map_of (col_dtype cfg) (fst e) = None
      then Inl (Raised ''Import column's owner attr, but don't import it's dtype attr'')
      else Inr (cfg\<lparr>local_col := fold (\<lambda>(name, owner). map_insert name (owner = cfg_party_id cfg))
        (col_owner cfg) (local_col cfg)\<rparr>))"

definition getColumnLocality :: "string \<Rightarrow> ColumnConfig \<Rightarrow> bool res" where
  "getColumnLocality col_name cfg =
     (case map_of (local_col cfg) col_name of
        None \<Rightarrow> Inl (Raised ''Can't find column locality by column name'')
      | Some is_local \<Rightarrow> Inr is_local)"

definition hasFP64Column :: "ColumnConfig \<Rightarrow> bool" where
  "hasFP64Column cfg \<longleftrightarrow> (\<exists>e \<in> set (col_dtype cfg). snd e = FP64)"

definition ColumnConfig_Clean :: "ColumnConfig \<Rightarrow> ColumnConfig" where
  "ColumnConfig_Clean cfg = cfg\<lparr>col_owner := [], col_dtype := [], local_col := []\<rparr>"

section \<open>FeedDict\<close>

record 'd FeedDict =
  float_run :: bool
  val_count :: i64
  fp64_col :: "'d list std_map"
  int64_col :: "i64 list std_map"

definition new_FeedDict :: "bool \<Rightarrow> 'd FeedDict" where
  "new_FeedDict fp64_run = \<lparr>float_run = fp64_run, val_count = -1, fp64_col = [], int64_col = []\<rparr>"

definition checkLocalColumn :: "string \<Rightarrow> ColumnConfig \<Rightarrow> int res" where
  "checkLocalColumn col_name cfg = bindR (getColumnLocality col_name cfg) (\<lambda>is_local. Inr 0)"

definition setOrCheckValueCount :: "i64 \<Rightarrow> 'd FeedDict \<Rightarrow> 'd FeedDict \<times> int" where
  "setOrCheckValueCount new_count fd =
     (let fd' = (if val_count fd = -1 then fd\<lparr>val_count := new_count\<rparr> else fd)
      in if val_count fd' \<noteq> new_count then (fd', -1) else (fd', 0))"

definition importColumnValues_fp64 ::
  "ColumnConfig \<Rightarrow> string \<Rightarrow> 'd list \<Rightarrow> 'd FeedDict \<Rightarrow> ('d FeedDict \<times> int) res" where
  "importColumnValues_fp64 cfg col_name fp64_vec fd =
     bindR (getColumnLocality col_name cfg) (\<lambda>is_local.
       if \<not> is_local then Inr (fd, -1)
       else
         let (fd, ret) = setOrCheckValueCount (word_of_nat (length fp64_vec)) fd in
         if ret \<noteq> 0 then Inr (fd, -2)
         else if \<not> float_run fd then Inr (fd, -1)
         else if map_of (fp64_col fd) col_name \<noteq> None then Inr (fd, -2)
         else Inr (fd\<lparr>fp64_col := map_insert col_name fp64_vec (fp64_col fd)\<rparr>, 0))"

definition importColumnValues_i64 ::
  "'d fp_ops \<Rightarrow> ColumnConfig \<Rightarrow> string \<Rightarrow> i64 list \<Rightarrow> 'd FeedDict \<Rightarrow> ('d FeedDict \<times> int) res" where
  "importColumnValues_i64 F cfg col_name int64_vec fd =
     bindR (getColumnLocality col_name cfg) (\<lambda>is_local.
       if \<not> is_local then Inr (fd, -1)
       else bindR (getColumnDtype col_name cfg) (\<lambda>dtype.
         if dtype \<noteq> INT64 then Inr (fd, -2)
         else
           let (fd, ret) = setOrCheckValueCount (word_of_nat (length int64_vec)) fd in
           if ret \<noteq> 0 then Inr (fd, -2)
           else if float_run fd then
             let fp64_vec = map (fp_of_i64 F) int64_vec in
             bindR (importColumnValues_fp64 cfg col_name fp64_vec fd) (\<lambda>(fd, ret).
               if ret \<noteq> 0 then Inr (fd, -3)
               else Inr (fd\<lparr>fp64_col := map_insert col_name fp64_vec (fp64_col fd)\<rparr>, 0))
           else if map_of (int64_col fd) col_name \<noteq> None then Inr (fd, -4)
           else Inr (fd\<lparr>int64_col := map_insert col_name int64_vec (int64_col fd)\<rparr>, 0)))"

text \<open>\<^verbatim>\<open>getColumnValues\<close> returns a code; on 0 the vector is the second component.\<close>

definition getColumnValues_i64 :: "ColumnConfig \<Rightarrow> string \<Rightarrow> 'd FeedDict \<Rightarrow> (int + i64 list) res" where
  "getColumnValues_i64 cfg col_name fd =
     bindR (getColumnLocality col_name cfg) (\<lambda>is_local.
       if \<not> is_local then Inr (Inl (-1))
       else if float_run fd then Inr (Inl (-1))
       else case map_of (int64_col fd) col_name of None \<Rightarrow> Inr (Inl (-2)) | Some v \<Rightarrow> Inr (Inr v))"

definition getColumnValues_fp64 :: "ColumnConfig \<Rightarrow> string \<Rightarrow> 'd FeedDict \<Rightarrow> (int + 'd list) res" where
  "getColumnValues_fp64 cfg col_name fd =
     bindR (getColumnLocality col_name cfg) (\<lambda>is_local.
       if \<not> is_local then Inr (Inl (-1))
       else if \<not> float_run fd then Inr (Inl (-1))
       else case map_of (fp64_col fd) col_name of None \<Rightarrow> Inr (Inl (-2)) | Some v \<Rightarrow> Inr (Inr v))"

definition getColumnValuesCount :: "'d FeedDict \<Rightarrow> u32" where
  "getColumnValuesCount fd = ucast (val_count fd)"

definition FeedDict_Clean :: "'d FeedDict \<Rightarrow> 'd FeedDict" where
  "FeedDict_Clean fd = fd\<lparr>float_run := False, fp64_col := [], int64_col := []\<rparr>"

text \<open>The import loop of \<^verbatim>\<open>LocalExpressExecutor::importColumnValues\<close>, which ignores the codes.\<close>

fun import_all :: "(string \<Rightarrow> 'v \<Rightarrow> 's \<Rightarrow> ('s \<times> int) res) \<Rightarrow> (string \<times> 'v) list \<Rightarrow> 's \<Rightarrow> 's res" where
  "import_all put [] s = Inr s"
| "import_all put ((k, v) # kvs) s = bindR (put k v s) (\<lambda>(s', ret). import_all put kvs s')"

section \<open>Locality\<close>

lemma fold_insert_locality:
  "map_wf kvs \<Longrightarrow> map_of (fold (\<lambda>(name, owner). map_insert name (f owner)) kvs m) name =
     (case map_of m name of Some b \<Rightarrow> Some b | None \<Rightarrow> map_option f (map_of kvs name))"
proof (induction kvs arbitrary: m)
  case (Cons kv kvs)
  obtain k v where kv: "kv = (k, v)" by (cases kv)
  have "map_of kvs k = None" using Cons.prems kv by (simp add: map_wf_def map_of_eq_None_iff)
  with Cons kv show ?case by (auto simp: map_wf_def split: option.splits)
qed (simp split: option.splits)

lemma map_wf_same_size:
  assumes "map_wf m" "map_wf m'" "length m = length m'" "fst ` set m' \<subseteq> fst ` set m"
  shows "fst ` set m' = fst ` set m"
proof -
  have "card (fst ` set m) = card (fst ` set m')"
    using assms(1-3) by (metis distinct_card length_map list.set_map map_wf_def)
  then show ?thesis using assms(4) by (metis List.finite_set card_subset_eq finite_imageI)
qed

section \<open>The invariant of the feed dictionary\<close>

definition column_ok :: "ColumnConfig \<Rightarrow> i64 \<Rightarrow> string \<times> 'a list \<Rightarrow> bool" where
  "column_ok cfg n kv \<longleftrightarrow> map_of (local_col cfg) (fst kv) = Some True \<and>
     length (snd kv) < 2 ^ 63 \<and> word_of_nat (length (snd kv)) = n"

definition fd_ok :: "ColumnConfig \<Rightarrow> 'd FeedDict \<Rightarrow> bool" where
  "fd_ok cfg fd \<longleftrightarrow> map_wf (fp64_col fd) \<and> map_wf (int64_col fd) \<and>
     (if float_run fd then int64_col fd = [] else fp64_col fd = []) \<and>
     (\<forall>kv \<in> set (fp64_col fd). column_ok cfg (val_count fd) kv) \<and>
     (\<forall>kv \<in> set (int64_col fd). column_ok cfg (val_count fd) kv)"

lemma length_not_minus_one: "k < 2 ^ 63 \<Longrightarrow> (word_of_nat k :: i64) \<noteq> -1"
proof
  assume k: "k < 2 ^ 63" and "(word_of_nat k :: i64) = -1"
  then have "word_of_nat (Suc k) = (0 :: i64)" by simp
  then have "2 ^ LENGTH(64) dvd Suc k" by (simp only: word_of_nat_eq_0_iff)
  then have "2 ^ 64 \<le> Suc k" by (intro dvd_imp_le) simp_all
  with k show False by simp
qed

lemma column_ok_count: "column_ok cfg n kv \<Longrightarrow> n \<noteq> -1"
  using length_not_minus_one by (auto simp: column_ok_def)

lemma fd_ok_set_count:
  assumes "fd_ok cfg fd" "setOrCheckValueCount n fd = (fd', ret)"
  shows "fd_ok cfg fd' \<and> float_run fd' = float_run fd \<and> fp64_col fd' = fp64_col fd \<and>
    int64_col fd' = int64_col fd \<and> (ret = 0 \<longleftrightarrow> val_count fd' = n) \<and>
    (val_count fd \<noteq> -1 \<longrightarrow> fd' = fd) \<and> (val_count fd = -1 \<longrightarrow> ret = 0)"
proof (cases "val_count fd = -1")
  case True
  then have "fp64_col fd = []" "int64_col fd = []"
    using assms(1) column_ok_count by (metis fd_ok_def list.set_intros(1) neq_Nil_conv)+
  then show ?thesis using assms True by (auto simp: setOrCheckValueCount_def Let_def fd_ok_def)
next
  case False
  then show ?thesis using assms by (auto simp: setOrCheckValueCount_def Let_def split: if_splits)
qed

lemma fd_ok_insert:
  assumes "fd_ok cfg fd" "map_of (local_col cfg) k = Some True"
  shows "float_run fd \<Longrightarrow> column_ok cfg (val_count fd) (k, w) \<Longrightarrow>
      fd_ok cfg (fd\<lparr>fp64_col := map_insert k w (fp64_col fd)\<rparr>)"
    and "\<not> float_run fd \<Longrightarrow> column_ok cfg (val_count fd) (k, v) \<Longrightarrow>
      fd_ok cfg (fd\<lparr>int64_col := map_insert k v (int64_col fd)\<rparr>)"
  using assms by (auto simp: fd_ok_def map_insert_def map_wf_def map_of_eq_None_iff)

lemma import_fp64_ok:
  assumes "fd_ok cfg fd" "length v < 2 ^ 63" "importColumnValues_fp64 cfg k v fd = Inr (fd', ret)"
  shows "fd_ok cfg fd'"
proof (cases "map_of (local_col cfg) k = Some True")
  case True
  obtain fd1 r where f: "setOrCheckValueCount (word_of_nat (length v)) fd = (fd1, r)" by fastforce
  note g = fd_ok_set_count [OF assms(1) f]
  have "column_ok cfg (val_count fd1) (k, v)" if "r = 0"
    using that g True assms(2) by (simp add: column_ok_def)
  with g True assms(3) f fd_ok_insert(1) [of cfg fd1 k v] show ?thesis
    by (auto simp: importColumnValues_fp64_def getColumnLocality_def split: if_splits)
next
  case False
  then show ?thesis using assms(1,3)
    by (auto simp: importColumnValues_fp64_def getColumnLocality_def split: option.splits)
qed

lemma import_fp64_keeps_mode:
  "importColumnValues_fp64 cfg k v fd = Inr (fd', ret) \<Longrightarrow> float_run fd' = float_run fd \<and>
     (ret = 0 \<longrightarrow> map_of (fp64_col fd') k \<noteq> None)"
  by (auto simp: importColumnValues_fp64_def setOrCheckValueCount_def Let_def split: if_splits)

lemma import_i64_ok:
  assumes "fd_ok cfg fd" "length v < 2 ^ 63" "importColumnValues_i64 F cfg k v fd = Inr (fd', ret)"
  shows "fd_ok cfg fd'"
proof (cases "map_of (local_col cfg) k = Some True \<and> map_of (col_dtype cfg) k = Some INT64")
  case True
  obtain fd1 r where f: "setOrCheckValueCount (word_of_nat (length v)) fd = (fd1, r)" by fastforce
  note g = fd_ok_set_count [OF assms(1) f]
  consider "r \<noteq> 0" | "r = 0" "float_run fd1" | "r = 0" "\<not> float_run fd1" by blast
  then show ?thesis
  proof cases
    case 1
    then show ?thesis using assms(3) f g True
      by (auto simp: importColumnValues_i64_def getColumnLocality_def getColumnDtype_def)
  next
    case 2
    then obtain fd2 r2 where h: "importColumnValues_fp64 cfg k (map (fp_of_i64 F) v) fd1 = Inr (fd2, r2)"
      and d: "fd' = (if r2 \<noteq> 0 then fd2
        else fd2\<lparr>fp64_col := map_insert k (map (fp_of_i64 F) v) (fp64_col fd2)\<rparr>)"
      using assms(3) f True
      by (auto simp: importColumnValues_i64_def getColumnLocality_def getColumnDtype_def Let_def
          split: if_splits)
    have "fd_ok cfg fd2" using import_fp64_ok [OF _ _ h] g assms(2) by simp
    moreover have "fd' = fd2"
      using d import_fp64_keeps_mode [OF h] by (auto simp: map_insert_def)
    ultimately show ?thesis by simp
  next
    case 3
    then have "column_ok cfg (val_count fd1) (k, v)" using g True assms(2) by (simp add: column_ok_def)
    with 3 show ?thesis using assms(3) f g True fd_ok_insert(2) [of cfg fd1 k v]
      by (auto simp: importColumnValues_i64_def getColumnLocality_def getColumnDtype_def split: if_splits)
  qed
next
  case False
  then have "fd' = fd" using assms(3)
    by (auto simp: importColumnValues_i64_def getColumnLocality_def getColumnDtype_def
        split: option.splits if_splits)
  then show ?thesis using assms(1) by simp
qed

section \<open>The interface of a column store\<close>

text \<open>
  What the executors rely on: importing an acceptable column succeeds, keeps the invariant, makes the
  (converted) values available under its name, and leaves the other columns and their acceptability
  alone.
\<close>

locale column_store =
  fixes inv :: "'s \<Rightarrow> bool"
    and put :: "string \<Rightarrow> 'v list \<Rightarrow> 's \<Rightarrow> ('s \<times> int) res"
    and fetch :: "string \<Rightarrow> 's \<Rightarrow> (int + 'w list) res"
    and conv :: "'v \<Rightarrow> 'w"
    and accepts :: "'s \<Rightarrow> string \<Rightarrow> 'v list \<Rightarrow> bool"
  assumes put_accepted: "inv s \<Longrightarrow> accepts s k v \<Longrightarrow> \<exists>s'. put k v s = Inr (s', 0) \<and> inv s' \<and>
      fetch k s' = Inr (Inr (map conv v)) \<and> (\<forall>k'. k' \<noteq> k \<longrightarrow> fetch k' s' = fetch k' s) \<and>
      (\<forall>k' v'. k' \<noteq> k \<longrightarrow> length v' = length v \<longrightarrow> accepts s k' v' \<longrightarrow> accepts s' k' v')"
begin

lemma put_all:
  assumes "inv s" "map_wf kvs" "\<forall>(k, v) \<in> set kvs. accepts s k v \<and> length v = n"
  shows "\<exists>s'. import_all put kvs s = Inr s' \<and> inv s' \<and>
    (\<forall>k. fetch k s' = (case map_of kvs k of Some v \<Rightarrow> Inr (Inr (map conv v)) | None \<Rightarrow> fetch k s))"
  using assms
proof (induction kvs arbitrary: s)
  case (Cons kv kvs)
  obtain k v where kv: "kv = (k, v)" by (cases kv)
  obtain s1 where s1: "put k v s = Inr (s1, 0)" "inv s1" "fetch k s1 = Inr (Inr (map conv v))"
    "\<forall>k'. k' \<noteq> k \<longrightarrow> fetch k' s1 = fetch k' s"
    "\<forall>k' v'. k' \<noteq> k \<longrightarrow> length v' = length v \<longrightarrow> accepts s k' v' \<longrightarrow> accepts s1 k' v'"
    using put_accepted [OF Cons.prems(1), of k v] Cons.prems(3) kv by auto
  have k: "k \<notin> fst ` set kvs" using Cons.prems(2) kv by (simp add: map_wf_def)
  have "\<forall>(k', v') \<in> set kvs. accepts s1 k' v' \<and> length v' = n"
    using Cons.prems(3) kv k s1(5) by (force simp: image_iff)
  with Cons.IH [OF s1(2)] Cons.prems(2) obtain s2 where s2: "import_all put kvs s1 = Inr s2" "inv s2"
    "\<forall>k. fetch k s2 = (case map_of kvs k of Some v \<Rightarrow> Inr (Inr (map conv v)) | None \<Rightarrow> fetch k s1)"
    by (auto simp: map_wf_def)
  moreover have "map_of kvs k = None" using k by (simp add: map_of_eq_None_iff)
  ultimately show ?case using s1(1,3,4) kv by (auto split: option.splits)
qed auto

end

definition store_accepts ::
  "bool \<Rightarrow> bool \<Rightarrow> ColumnConfig \<Rightarrow> 'd FeedDict \<Rightarrow> string \<Rightarrow> 'v list \<Rightarrow> bool" where
  "store_accepts fp ints cfg fd k v \<longleftrightarrow> map_of (local_col cfg) k = Some True \<and>
     (ints \<longrightarrow> map_of (col_dtype cfg) k = Some INT64) \<and>
     length v < 2 ^ 63 \<and> (val_count fd = -1 \<or> val_count fd = word_of_nat (length v)) \<and>
     (if fp then map_of (fp64_col fd) k = None else map_of (int64_col fd) k = None)"

lemma set_count_accepted:
  "store_accepts fp ints cfg fd k v \<Longrightarrow>
   setOrCheckValueCount (word_of_nat (length v)) fd = (fd\<lparr>val_count := word_of_nat (length v)\<rparr>, 0)"
  by (auto simp: setOrCheckValueCount_def store_accepts_def Let_def)

lemma import_fp64_accepted:
  assumes "float_run fd" "store_accepts True ints cfg fd k v"
  shows "importColumnValues_fp64 cfg k v fd =
    Inr (fd\<lparr>val_count := word_of_nat (length v), fp64_col := (k, v) # fp64_col fd\<rparr>, 0)"
  using assms set_count_accepted [OF assms(2)]
  by (simp add: importColumnValues_fp64_def getColumnLocality_def store_accepts_def map_insert_def)

lemma import_i64_accepted:
  assumes "store_accepts (float_run fd) True cfg fd k v"
  shows "importColumnValues_i64 F cfg k v fd = Inr
    (if float_run fd
     then fd\<lparr>val_count := word_of_nat (length v), fp64_col := (k, map (fp_of_i64 F) v) # fp64_col fd\<rparr>
     else fd\<lparr>val_count := word_of_nat (length v), int64_col := (k, v) # int64_col fd\<rparr>, 0)"
proof (cases "float_run fd")
  case True
  let ?fd = "fd\<lparr>val_count := word_of_nat (length v)\<rparr>"
  have "store_accepts True True cfg ?fd k (map (fp_of_i64 F) v)"
    using assms True by (simp add: store_accepts_def)
  from import_fp64_accepted [OF _ this] True assms set_count_accepted [OF assms] show ?thesis
    by (simp add: importColumnValues_i64_def getColumnLocality_def getColumnDtype_def
        store_accepts_def Let_def map_insert_def)
next
  case False
  then show ?thesis using assms set_count_accepted [OF assms]
    by (simp add: importColumnValues_i64_def getColumnLocality_def getColumnDtype_def
        store_accepts_def map_insert_def)
qed

lemma get_after_fp64 [simp]:
  "getColumnValues_fp64 cfg k (fd\<lparr>val_count := n, fp64_col := (j, w) # fp64_col fd\<rparr>) =
     (if k = j then bindR (getColumnLocality k cfg) (\<lambda>l. Inr (if l \<and> float_run fd then Inr w else Inl (-1)))
      else getColumnValues_fp64 cfg k fd)"
  "getColumnValues_i64 cfg k (fd\<lparr>val_count := n, int64_col := (j, v) # int64_col fd\<rparr>) =
     (if k = j then bindR (getColumnLocality k cfg) (\<lambda>l. Inr (if l \<and> \<not> float_run fd then Inr v else Inl (-1)))
      else getColumnValues_i64 cfg k fd)"
  by (auto simp: getColumnValues_fp64_def getColumnValues_i64_def intro!: bindR_cong)

lemma accepts_after:
  assumes "length v' = length v" "k' \<noteq> k" "length v < 2 ^ 63"
  shows "store_accepts True ints cfg fd k' v' \<Longrightarrow>
      store_accepts True ints cfg (fd\<lparr>val_count := word_of_nat (length v), fp64_col := (k, w) # fp64_col fd\<rparr>) k' v'"
    and "store_accepts False ints cfg fd k' v' \<Longrightarrow>
      store_accepts False ints cfg (fd\<lparr>val_count := word_of_nat (length v), int64_col := (k, x) # int64_col fd\<rparr>) k' v'"
  using assms by (auto simp: store_accepts_def)

interpretation fp64_store: column_store "\<lambda>fd :: 'd FeedDict. fd_ok cfg fd \<and> float_run fd"
  "importColumnValues_fp64 cfg" "getColumnValues_fp64 cfg" "\<lambda>x. x" "store_accepts True False cfg" for cfg
proof unfold_locales
  fix s :: "'d FeedDict" and k and v :: "'d list"
  assume *: "fd_ok cfg s \<and> float_run s" "store_accepts True False cfg s k v"
  note a = import_fp64_accepted [of s False cfg k v]
  have "fd_ok cfg (s\<lparr>val_count := word_of_nat (length v), fp64_col := (k, v) # fp64_col s\<rparr>)"
    using import_fp64_ok [of cfg s v k] * a by (auto simp: store_accepts_def)
  with * a show "\<exists>s'. importColumnValues_fp64 cfg k v s = Inr (s', 0) \<and> (fd_ok cfg s' \<and> float_run s') \<and>
      getColumnValues_fp64 cfg k s' = Inr (Inr (map (\<lambda>x. x) v)) \<and>
      (\<forall>k'. k' \<noteq> k \<longrightarrow> getColumnValues_fp64 cfg k' s' = getColumnValues_fp64 cfg k' s) \<and>
      (\<forall>k' v'. k' \<noteq> k \<longrightarrow> length v' = length v \<longrightarrow> store_accepts True False cfg s k' v' \<longrightarrow>
        store_accepts True False cfg s' k' v')"
    using accepts_after(1) [of _ v _ k] by (auto simp: store_accepts_def getColumnLocality_def)
qed

interpretation i64_store: column_store "\<lambda>fd :: 'd FeedDict. fd_ok cfg fd \<and> \<not> float_run fd"
  "importColumnValues_i64 F cfg" "getColumnValues_i64 cfg" "\<lambda>x. x" "store_accepts False True cfg" for F cfg
proof unfold_locales
  fix s :: "'d FeedDict" and k and v :: "i64 list"
  assume *: "fd_ok cfg s \<and> \<not> float_run s" "store_accepts False True cfg s k v"
  note a = import_i64_accepted [of s cfg k v F]
  have "fd_ok cfg (s\<lparr>val_count := word_of_nat (length v), int64_col := (k, v) # int64_col s\<rparr>)"
    using import_i64_ok [of cfg s v F k] * a by (auto simp: store_accepts_def)
  with * a show "\<exists>s'. importColumnValues_i64 F cfg k v s = Inr (s', 0) \<and> (fd_ok cfg s' \<and> \<not> float_run s') \<and>
      getColumnValues_i64 cfg k s' = Inr (Inr (map (\<lambda>x. x) v)) \<and>
      (\<forall>k'. k' \<noteq> k \<longrightarrow> getColumnValues_i64 cfg k' s' = getColumnValues_i64 cfg k' s) \<and>
      (\<forall>k' v'. k' \<noteq> k \<longrightarrow> length v' = length v \<longrightarrow> store_accepts False True cfg s k' v' \<longrightarrow>
        store_accepts False True cfg s' k' v')"
    using accepts_after(2) [of _ v _ k] by (auto simp: store_accepts_def getColumnLocality_def)
qed

interpretation converting_store: column_store "\<lambda>fd :: 'd FeedDict. fd_ok cfg fd \<and> float_run fd"
  "importColumnValues_i64 F cfg" "getColumnValues_fp64 cfg" "fp_of_i64 F" "store_accepts True True cfg" for F cfg
proof unfold_locales
  fix s :: "'d FeedDict" and k and v :: "i64 list"
  assume *: "fd_ok cfg s \<and> float_run s" "store_accepts True True cfg s k v"
  note a = import_i64_accepted [of s cfg k v F]
  have "fd_ok cfg (s\<lparr>val_count := word_of_nat (length v), fp64_col := (k, map (fp_of_i64 F) v) # fp64_col s\<rparr>)"
    using import_i64_ok [of cfg s v F k] * a by (auto simp: store_accepts_def)
  with * a show "\<exists>s'. importColumnValues_i64 F cfg k v s = Inr (s', 0) \<and> (fd_ok cfg s' \<and> float_run s') \<and>
      getColumnValues_fp64 cfg k s' = Inr (Inr (map (fp_of_i64 F) v)) \<and>
      (\<forall>k'. k' \<noteq> k \<longrightarrow> getColumnValues_fp64 cfg k' s' = getColumnValues_fp64 cfg k' s) \<and>
      (\<forall>k' v'. k' \<noteq> k \<longrightarrow> length v' = length v \<longrightarrow> store_accepts True True cfg s k' v' \<longrightarrow>
        store_accepts True True cfg s' k' v')"
    using accepts_after(1) [of _ v _ k] by (auto simp: store_accepts_def getColumnLocality_def)
qed

section \<open>Properties\<close>

text \<open>
  Locality: on consistent tables \<^verbatim>\<open>resolveLocalColumn\<close> returns exactly when the columns with an
  owner are those with a type (any other configuration raises), and afterwards a column is local
  exactly when this party owns it.
\<close>

theorem resolve_locality:
  assumes "map_wf (col_owner cfg)" "map_wf (col_dtype cfg)" "local_col cfg = []"
  shows "if fst ` set (col_owner cfg) = fst ` set (col_dtype cfg)
    then \<exists>cfg'. resolveLocalColumn cfg = Inr cfg' \<and> (\<forall>name. map_of (local_col cfg') name =
      map_option (\<lambda>owner. owner = cfg_party_id cfg) (map_of (col_owner cfg) name))
    else \<exists>msg. resolveLocalColumn cfg = Inl (Raised msg)"
proof -
  have none: "map_of (col_dtype cfg) k = None \<longleftrightarrow> k \<notin> fst ` set (col_dtype cfg)" for k
    by (simp add: map_of_eq_None_iff)
  have sizes: "length (col_dtype cfg) = length (col_owner cfg)"
    if "fst ` set (col_owner cfg) = fst ` set (col_dtype cfg)"
    using that assms(1,2) by (metis distinct_card length_map list.set_map map_wf_def)
  show ?thesis
    using map_wf_same_size [OF assms(2,1)] sizes
      fold_insert_locality [OF assms(1), of "\<lambda>owner. owner = cfg_party_id cfg" "[]"]
    by (auto simp: resolveLocalColumn_def none assms(3) image_subset_iff)
qed

theorem resolve_locality_witness:
  "(let cfg = \<lparr>cfg_party_id = 1, col_owner = [(''A'', 1), (''B'', 2)],
      col_dtype = [(''B'', FP64), (''A'', INT64)], local_col = []\<rparr> in
    \<exists>cfg'. resolveLocalColumn cfg = Inr cfg' \<and> map_of (local_col cfg') ''A'' = Some True \<and>
      map_of (local_col cfg') ''B'' = Some False)"
proof -
  let ?cfg = "\<lparr>cfg_party_id = 1, col_owner = [(''A'', 1), (''B'', 2)],
      col_dtype = [(''B'', FP64), (''A'', INT64)], local_col = []\<rparr>"
  have "fst ` set (col_owner ?cfg) = fst ` set (col_dtype ?cfg)" by auto
  with resolve_locality [of ?cfg] obtain cfg' where c: "resolveLocalColumn ?cfg = Inr cfg'"
    "\<forall>name. map_of (local_col cfg') name =
      map_option (\<lambda>owner. owner = cfg_party_id ?cfg) (map_of (col_owner ?cfg) name)"
    by (auto simp: map_wf_def)
  from c(2) have "map_of (local_col cfg') ''A'' = Some True" "map_of (local_col cfg') ''B'' = Some False"
    by simp_all
  with c(1) show ?thesis unfolding Let_def by blast
qed

text \<open>
  C32. The feed dictionary stays consistent: whatever is imported and whatever code comes back, all
  stored columns are local, have the one common length, and live in the table of the run mode.
\<close>

theorem feed_dict_invariant:
  assumes "fd_ok cfg fd" "length iv < 2 ^ 63" "length fv < 2 ^ 63"
    and "importColumnValues_i64 F cfg k iv fd = Inr (fd1, r1)"
    and "importColumnValues_fp64 cfg k' fv fd1 = Inr (fd2, r2)"
  shows "fd_ok cfg fd1 \<and> fd_ok cfg fd2"
  using import_i64_ok [OF assms(1,2,4)] import_fp64_ok [OF _ assms(3,5)] by simp

definition int_fp :: "int fp_ops" where
  "int_fp = \<lparr>fp_add = (+), fp_sub = (-), fp_mul = (*), fp_div = (div), fp_of_i64 = sint,
     fp_stod = (\<lambda>s. Inl (Raised ''stod''))\<rparr>"

theorem feed_dict_invariant_witness:
  "(let cfg = \<lparr>cfg_party_id = 0, col_owner = [], col_dtype = [(''A'', INT64)],
      local_col = [(''A'', True), (''B'', True)]\<rparr> in
    \<exists>fd1 fd2. importColumnValues_i64 int_fp cfg ''A'' [3, 4] (new_FeedDict True) = Inr (fd1, 0) \<and>
      importColumnValues_fp64 cfg ''B'' [7] fd1 = Inr (fd2, -2) \<and> fd_ok cfg fd1 \<and> fd_ok cfg fd2)"
proof -
  let ?cfg = "\<lparr>cfg_party_id = 0, col_owner = [], col_dtype = [(''A'', INT64)],
      local_col = [(''A'', True), (''B'', True)]\<rparr>"
  have "fd_ok ?cfg (new_FeedDict True :: int FeedDict)" by (simp add: fd_ok_def new_FeedDict_def)
  moreover let ?fd = "\<lparr>float_run = True, val_count = 2, fp64_col = [(''A'', [3, 4])], int64_col = []\<rparr> :: int FeedDict"
  have "importColumnValues_i64 int_fp ?cfg ''A'' [3, 4] (new_FeedDict True) = Inr (?fd, 0)"
    by (simp add: importColumnValues_i64_def importColumnValues_fp64_def new_FeedDict_def Let_def
        getColumnLocality_def getColumnDtype_def setOrCheckValueCount_def map_insert_def int_fp_def)
  moreover have "importColumnValues_fp64 ?cfg ''B'' [7] ?fd = Inr (?fd, -2)"
    by (simp add: importColumnValues_fp64_def getColumnLocality_def setOrCheckValueCount_def)
  ultimately show ?thesis
    using feed_dict_invariant [of ?cfg "new_FeedDict True" "[3, 4]" "[7]" int_fp "''A''" ?fd 0 "''B''" ?fd "-2"]
    unfolding Let_def by auto
qed

text \<open>
  What is imported is what is read: importing a table of integer columns of one length into a
  fresh dictionary, for local columns declared as integers, never fails, and afterwards every column
  reads back as imported in integer mode, and as its conversion to \<^verbatim>\<open>double\<close> in floating-point mode.
\<close>

theorem import_then_get:
  assumes "map_wf kvs" "n < 2 ^ 63"
    and "\<forall>(k, v) \<in> set kvs. length v = n \<and> map_of (local_col cfg) k = Some True \<and>
      map_of (col_dtype cfg) k = Some INT64"
  shows "\<exists>fd fd'. import_all (importColumnValues_i64 F cfg) kvs (new_FeedDict False) = Inr fd \<and>
    import_all (importColumnValues_i64 F cfg) kvs (new_FeedDict True) = Inr fd' \<and>
    (\<forall>(k, v) \<in> set kvs. getColumnValues_i64 cfg k fd = Inr (Inr v) \<and>
      getColumnValues_fp64 cfg k fd' = Inr (Inr (map (fp_of_i64 F) v)))"
proof -
  have ok: "fd_ok cfg (new_FeedDict m)" for m by (simp add: fd_ok_def new_FeedDict_def)
  have acc: "\<forall>(k, v) \<in> set kvs. store_accepts m True cfg (new_FeedDict m) k v \<and> length v = n" for m
    using assms(2,3) by (auto simp: store_accepts_def new_FeedDict_def)
  have kv: "map_of kvs k = Some v" if "(k, v) \<in> set kvs" for k v
    using that assms(1) by (simp add: map_wf_def)
  from i64_store.put_all [of cfg "new_FeedDict False" kvs n F] ok acc [of False] assms(1)
  obtain fd where "import_all (importColumnValues_i64 F cfg) kvs (new_FeedDict False) = Inr fd"
    "\<forall>k v. map_of kvs k = Some v \<longrightarrow> getColumnValues_i64 cfg k fd = Inr (Inr v)"
    by (force simp: new_FeedDict_def)
  moreover from converting_store.put_all [of cfg "new_FeedDict True" kvs n F] ok acc [of True] assms(1)
  obtain fd' where "import_all (importColumnValues_i64 F cfg) kvs (new_FeedDict True) = Inr fd'"
    "\<forall>k v. map_of kvs k = Some v \<longrightarrow> getColumnValues_fp64 cfg k fd' = Inr (Inr (map (fp_of_i64 F) v))"
    by (force simp: new_FeedDict_def)
  ultimately show ?thesis using kv by blast
qed

theorem import_then_get_witness:
  "(let cfg = \<lparr>cfg_party_id = 0, col_owner = [], col_dtype = [(''A'', INT64)], local_col = [(''A'', True)]\<rparr> in
    \<exists>fd fd'. import_all (importColumnValues_i64 int_fp cfg) [(''A'', [3, 4])] (new_FeedDict False) = Inr fd \<and>
      import_all (importColumnValues_i64 int_fp cfg) [(''A'', [3, 4])] (new_FeedDict True) = Inr fd' \<and>
      getColumnValues_i64 cfg ''A'' fd = Inr (Inr [3, 4]) \<and>
      getColumnValues_fp64 cfg ''A'' fd' = Inr (Inr [3, 4]))"
  using import_then_get [of "[(''A'', [3, 4])]" 2
      "\<lparr>cfg_party_id = 0, col_owner = [], col_dtype = [(''A'', INT64)], local_col = [(''A'', True)]\<rparr>" int_fp]
  by (simp add: map_wf_def int_fp_def)

end
