(* ===== verification/Express_Eval.thy ===== *)
theory Express_Eval
  imports Expr_Parser Column_Config Digits
begin

text \<open>
  The executor state of \<^verbatim>\<open>executor/express.h\<close> and the methods that prepare a run (import of columns
  and of the expression, choice of the run mode), and the stack loop that the MPC executor and the
  local executor share: it is parameterised by the construction of token values and by the four
  arithmetic operations. The locale \<open>postfix_machine\<close> states what the loop needs of them and proves
  that the loop evaluates the tree that was parsed.
\<close>

section \<open>Token values and the executor\<close>

text \<open>
  The tagged union \<^verbatim>\<open>TokenValue\<close>; the constructors are the tags 0 to 6. The pointers in it are read
  only, so the values they point to take their place. \<open>'f\<close> and \<open>'s\<close> are the share matrices.
\<close>

datatype ('d, 'f, 's) TokenValue =
    FP64Vec "'d list" | I64Vec "i64 list" | FP64Val 'd | I64Val i64 | RemoteCol | ShFP64 'f | ShI64 's

definition TypeToString :: "('d, 'f, 's) TokenValue \<Rightarrow> string" where
  "TypeToString v =
     (case v of ShFP64 _ \<Rightarrow> ''share value for FP64 values'' | ShI64 _ \<Rightarrow> ''share value for I64 values''
      | I64Val _ \<Rightarrow> ''const I64 value'' | FP64Val _ \<Rightarrow> ''const FP64 value''
      | I64Vec _ \<Rightarrow> ''local I64 column'' | FP64Vec _ \<Rightarrow> ''local FP64 column''
      | RemoteCol \<Rightarrow> ''remote column'')"

datatype TokenType = COLUMN | VALUE

record ('d, 'f, 's) MPCExpressExecutor =
  fp64_run :: bool
  expr :: string
  suffix_stk :: "string list"
  col_config :: "ColumnConfig option"
  feed_dict :: "'d FeedDict option"
  token_val_map :: "('d, 'f, 's) TokenValue std_map"
  token_type_map :: "TokenType std_map"
  party_id :: u32

text \<open>Two members are not initialised by the constructor and keep whatever value they have.\<close>

definition new_MPCExpressExecutor :: "bool \<Rightarrow> u32 \<Rightarrow> ('d, 'f, 's) MPCExpressExecutor" where
  "new_MPCExpressExecutor garbage_run garbage_id = \<lparr>fp64_run = garbage_run, expr = [], suffix_stk = [],
     col_config = None, feed_dict = None, token_val_map = [], token_type_map = [], party_id = garbage_id\<rparr>"

definition deref :: "'a option \<Rightarrow> 'a res" where
  "deref p = (case p of None \<Rightarrow> Inl (Undefined ''null pointer'') | Some x \<Rightarrow> Inr x)"

lemma deref_simps [simp]: "deref None = Inl (Undefined ''null pointer'')" "deref (Some x) = Inr x"
  by (simp_all add: deref_def)

section \<open>Preparing a run\<close>

definition initColumnConfig :: "u32 \<Rightarrow> ('d, 'f, 's) MPCExpressExecutor \<Rightarrow> ('d, 'f, 's) MPCExpressExecutor" where
  "initColumnConfig pid ex = ex\<lparr>col_config := Some (new_ColumnConfig pid)\<rparr>"

definition importColumnDtype ::
  "string \<Rightarrow> bool \<Rightarrow> ('d, 'f, 's) MPCExpressExecutor \<Rightarrow> (('d, 'f, 's) MPCExpressExecutor \<times> int) res" where
  "importColumnDtype col_name is_fp64 ex =
     bindR (deref (col_config ex)) (\<lambda>cfg.
       let (cfg', ret) = cfg_importColumnDtype col_name (if is_fp64 then FP64 else INT64) cfg
       in Inr (ex\<lparr>col_config := Some cfg'\<rparr>, ret))"

definition importColumnOwner ::
  "string \<Rightarrow> u32 \<Rightarrow> ('d, 'f, 's) MPCExpressExecutor \<Rightarrow> (('d, 'f, 's) MPCExpressExecutor \<times> int) res" where
  "importColumnOwner col_name pid ex =
     bindR (deref (col_config ex)) (\<lambda>cfg.
       bindR (cfg_importColumnOwner col_name pid cfg) (\<lambda>(cfg', ret).
         Inr (ex\<lparr>col_config := Some cfg'\<rparr>, ret)))"

definition InitFeedDict :: "('d, 'f, 's) MPCExpressExecutor \<Rightarrow> ('d, 'f, 's) MPCExpressExecutor" where
  "InitFeedDict ex =
     (case feed_dict ex of
        None \<Rightarrow> ex\<lparr>feed_dict := Some (new_FeedDict (fp64_run ex))\<rparr>
      | Some _ \<Rightarrow> ex)"

definition importColumnValues_int ::
  "'d fp_ops \<Rightarrow> string \<Rightarrow> i64 list \<Rightarrow> ('d, 'f, 's) MPCExpressExecutor \<Rightarrow>
     (('d, 'f, 's) MPCExpressExecutor \<times> int) res" where
  "importColumnValues_int F col_name vec ex =
     bindR (deref (feed_dict ex)) (\<lambda>fd. bindR (deref (col_config ex)) (\<lambda>cfg.
       bindR (importColumnValues_i64 F cfg col_name vec fd) (\<lambda>(fd', ret).
         Inr (ex\<lparr>feed_dict := Some fd'\<rparr>, ret))))"

definition importColumnValues_dbl ::
  "string \<Rightarrow> 'd list \<Rightarrow> ('d, 'f, 's) MPCExpressExecutor \<Rightarrow> (('d, 'f, 's) MPCExpressExecutor \<times> int) res" where
  "importColumnValues_dbl col_name vec ex =
     bindR (deref (feed_dict ex)) (\<lambda>fd. bindR (deref (col_config ex)) (\<lambda>cfg.
       bindR (importColumnValues_fp64 cfg col_name vec fd) (\<lambda>(fd', ret).
         Inr (ex\<lparr>feed_dict := Some fd'\<rparr>, ret))))"

definition importExpress ::
  "string \<Rightarrow> ('d, 'f, 's) MPCExpressExecutor \<Rightarrow> (('d, 'f, 's) MPCExpressExecutor \<times> int) res" where
  "importExpress e ex =
     bindR (parseExpress e (suffix_stk ex)) (\<lambda>stk.
       let ex' = ex\<lparr>suffix_stk := stk\<rparr> in
       if \<not> checkExpress stk then Inr (ex', -1) else Inr (ex'\<lparr>expr := e\<rparr>, 0))"

text \<open>
  The loop of \<^verbatim>\<open>resolveRunMode\<close> over the suffix tokens. \<^verbatim>\<open>getColumnDtype\<close> either returns 0, and the
  token is a column, or raises: the branch for a number, taken on a non-zero code, is never reached,
  and \<^verbatim>\<open>has_fp64_val\<close> keeps its initial value.
\<close>

fun resolve_tokens ::
  "ColumnConfig \<Rightarrow> string list \<Rightarrow> TokenType std_map \<Rightarrow> bool \<Rightarrow> (TokenType std_map \<times> bool) res" where
  "resolve_tokens cfg [] ttm has_div_op = Inr (ttm, has_div_op)"
| "resolve_tokens cfg (token # toks) ttm has_div_op =
     (if isOperator_str token then resolve_tokens cfg toks ttm (has_div_op \<or> token = ''/'')
      else bindR (getColumnDtype token cfg) (\<lambda>dtype.
        resolve_tokens cfg toks (map_insert token COLUMN ttm) has_div_op))"

definition resolveRunMode ::
  "('d, 'f, 's) MPCExpressExecutor \<Rightarrow> (('d, 'f, 's) MPCExpressExecutor \<times> int) res" where
  "resolveRunMode ex =
     bindR (deref (col_config ex)) (\<lambda>cfg. bindR (resolveLocalColumn cfg) (\<lambda>cfg'.
       bindR (resolve_tokens cfg' (suffix_stk ex) (token_type_map ex) False) (\<lambda>(ttm, has_div_op).
         Inr (ex\<lparr>col_config := Some cfg', token_type_map := ttm,
           fp64_run := (has_div_op \<or> hasFP64Column cfg')\<rparr>, 0))))"

definition Clean :: "('d, 'f, 's) MPCExpressExecutor \<Rightarrow> ('d, 'f, 's) MPCExpressExecutor" where
  "Clean ex = ex\<lparr>col_config := None, feed_dict := None, suffix_stk := [], token_val_map := [],
     token_type_map := []\<rparr>"

section \<open>The stack loop\<close>

text \<open>
  \<open>leaf\<close> constructs the value of a token (a non-zero code is \<open>Inl\<close>), \<open>app\<close> runs one operation and may
  change the state \<open>'c\<close> of what it calls. The result holds the return code, the suffix stack, the
  token stack, the value map and that state.
\<close>

record ('v, 'c) eval_out =
  eo_ret :: int
  eo_suffix :: "string list"
  eo_stk1 :: "string list"
  eo_map :: "'v std_map"
  eo_rt :: 'c

fun eval_loop ::
  "(string \<Rightarrow> (int + 'v) res) \<Rightarrow> (string \<Rightarrow> 'v \<Rightarrow> 'v \<Rightarrow> 'c \<Rightarrow> ('v \<times> 'c) res) \<Rightarrow>
   string list \<Rightarrow> string list \<Rightarrow> 'v list \<Rightarrow> 'v std_map \<Rightarrow> 'c \<Rightarrow> ('v, 'c) eval_out res" where
  "eval_loop leaf app [] stk1 val_stk tvm rt =
     Inr \<lparr>eo_ret = 0, eo_suffix = [], eo_stk1 = stk1, eo_map = tvm, eo_rt = rt\<rparr>"
| "eval_loop leaf app (token # suffix) stk1 val_stk tvm rt =
     (if isOperator_str token then
        (case (stk1, val_stk) of
           (b # a # stk1', val2 # val1 # val_stk') \<Rightarrow>
             bindR (app token val1 val2 rt) (\<lambda>(v, rt').
               let new_token = ''('' @ a @ token @ b @ '')'' in
               eval_loop leaf app suffix (new_token # stk1') (v # val_stk') (map_assign new_token v tvm) rt')
         | _ \<Rightarrow> Inl (Undefined ''top of an empty stack''))
      else
        bindR (leaf token) (\<lambda>r. case r of
           Inl code \<Rightarrow> Inr \<lparr>eo_ret = -1, eo_suffix = suffix, eo_stk1 = token # stk1, eo_map = tvm, eo_rt = rt\<rparr>
         | Inr v \<Rightarrow> eval_loop leaf app suffix (token # stk1) (v # val_stk) (map_assign token v tvm) rt))"

section \<open>Specification of an evaluation\<close>

text \<open>The meaning of a tree over meanings of its tokens and of the operators.\<close>

fun meaning :: "(string \<Rightarrow> 'm option) \<Rightarrow> (string \<Rightarrow> 'm \<Rightarrow> 'm \<Rightarrow> 'm option) \<Rightarrow> ast \<Rightarrow> 'm option" where
  "meaning leaf_m app_m (Leaf s) = leaf_m s"
| "meaning leaf_m app_m (Neg s) = leaf_m (CHR ''-'' # s)"
| "meaning leaf_m app_m (Paren e) = meaning leaf_m app_m e"
| "meaning leaf_m app_m (BinOp c l r) =
     Option.bind (meaning leaf_m app_m l) (\<lambda>a. Option.bind (meaning leaf_m app_m r) (\<lambda>b. app_m [c] a b))"

text \<open>The name under which the loop files the value of a subexpression.\<close>

fun token_of :: "ast \<Rightarrow> string" where
  "token_of (Leaf s) = s"
| "token_of (Neg s) = CHR ''-'' # s"
| "token_of (Paren e) = token_of e"
| "token_of (BinOp c l r) = ''('' @ token_of l @ [c] @ token_of r @ '')''"

locale postfix_machine =
  fixes leaf :: "string \<Rightarrow> (int + 'v) res"
    and app :: "string \<Rightarrow> 'v \<Rightarrow> 'v \<Rightarrow> 'c \<Rightarrow> ('v \<times> 'c) res"
    and rel :: "'v \<Rightarrow> 'm \<Rightarrow> bool"
    and leaf_m :: "string \<Rightarrow> 'm option"
    and app_m :: "string \<Rightarrow> 'm \<Rightarrow> 'm \<Rightarrow> 'm option"
  assumes leaf_ok: "leaf_m s = Some m \<Longrightarrow> \<exists>v. leaf s = Inr (Inr v) \<and> rel v m"
    and app_ok: "isOperator c \<Longrightarrow> rel v1 m1 \<Longrightarrow> rel v2 m2 \<Longrightarrow> app_m [c] m1 m2 = Some m \<Longrightarrow>
      \<exists>v rt'. app [c] v1 v2 rt = Inr (v, rt') \<and> rel v m"
begin

lemma loop_postfix:
  assumes "wf_ast e" "meaning leaf_m app_m e = Some m"
  shows "\<exists>v tvm' rt'. rel v m \<and> map_of tvm' (token_of e) = Some v \<and>
    (\<forall>rest. eval_loop leaf app (postfix e @ rest) stk1 vals tvm rt =
      eval_loop leaf app rest (token_of e # stk1) (v # vals) tvm' rt')"
  using assms
proof (induction e arbitrary: m stk1 vals tvm rt)
  case (Leaf s)
  then obtain v where "leaf s = Inr (Inr v)" "rel v m" using leaf_ok by auto
  with Leaf show ?case by (intro exI [of _ v] exI [of _ "map_assign s v tvm"] exI [of _ rt])
      (simp add: ident_not_operator)
next
  case (Neg s)
  then obtain v where "leaf (CHR ''-'' # s) = Inr (Inr v)" "rel v m" using leaf_ok by auto
  with Neg show ?case by (intro exI [of _ v] exI [of _ "map_assign (CHR ''-'' # s) v tvm"] exI [of _ rt])
      (simp add: ident_neg_not_operator)
next
  case (Paren e)
  then show ?case by simp
next
  case (BinOp c l r)
  from BinOp.prems obtain ml mr where m: "meaning leaf_m app_m l = Some ml"
    "meaning leaf_m app_m r = Some mr" "app_m [c] ml mr = Some m" by (auto split: bind_splits)
  from BinOp.IH(1) [OF _ m(1), of stk1 vals tvm rt] BinOp.prems obtain vl tl rl where l: "rel vl ml"
    "\<And>rest. eval_loop leaf app (postfix l @ rest) stk1 vals tvm rt =
      eval_loop leaf app rest (token_of l # stk1) (vl # vals) tl rl" by auto
  from BinOp.IH(2) [OF _ m(2), of "token_of l # stk1" "vl # vals" tl rl] BinOp.prems
  obtain vr tr rr where r: "rel vr mr"
    "\<And>rest. eval_loop leaf app (postfix r @ rest) (token_of l # stk1) (vl # vals) tl rl =
      eval_loop leaf app rest (token_of r # token_of l # stk1) (vr # vl # vals) tr rr" by auto
  obtain v rt' where v: "app [c] vl vr rr = Inr (v, rt')" "rel v m"
    using app_ok [OF _ l(1) r(1) m(3), of rr] BinOp.prems(1) by auto
  show ?case using v BinOp.prems(1)
    by (intro exI [of _ v] exI [of _ "map_assign (token_of (BinOp c l r)) v tr"] exI [of _ rt'])
       (simp add: l(2) r(2) Let_def)
qed

lemma loop_complete:
  assumes "wf_ast e" "meaning leaf_m app_m e = Some m"
  shows "\<exists>v tvm' rt'. rel v m \<and> map_of tvm' (token_of e) = Some v \<and>
    eval_loop leaf app (postfix e) [] [] tvm rt =
      Inr \<lparr>eo_ret = 0, eo_suffix = [], eo_stk1 = [token_of e], eo_map = tvm', eo_rt = rt'\<rparr>"
proof -
  obtain v tvm' rt' where "rel v m" "map_of tvm' (token_of e) = Some v"
    "\<And>rest. eval_loop leaf app (postfix e @ rest) [] [] tvm rt =
      eval_loop leaf app rest [token_of e] [v] tvm' rt'"
    using loop_postfix [OF assms, of "[]" "[]" tvm rt] by auto
  then show ?thesis
    by (metis append_Nil2 eval_loop.simps(1))
qed

lemma loop_binop:
  assumes "wf_ast (BinOp c l r)" "meaning leaf_m app_m (BinOp c l r) = Some m"
  shows "\<exists>vl vr ml mr rt1 v rt' tvm'. rel vl ml \<and> rel vr mr \<and> app_m [c] ml mr = Some m \<and>
    app [c] vl vr rt1 = Inr (v, rt') \<and> map_of tvm' (token_of (BinOp c l r)) = Some v \<and>
    eval_loop leaf app (postfix (BinOp c l r)) [] [] tvm rt =
      Inr \<lparr>eo_ret = 0, eo_suffix = [], eo_stk1 = [token_of (BinOp c l r)], eo_map = tvm', eo_rt = rt'\<rparr>"
proof -
  have wf: "wf_ast l" "wf_ast r" "isOperator c" using assms(1) by simp_all
  obtain ml mr where m: "meaning leaf_m app_m l = Some ml" "meaning leaf_m app_m r = Some mr"
    "app_m [c] ml mr = Some m" using assms(2) by (auto split: bind_splits)
  obtain vl tl rl where l: "rel vl ml" "\<And>rest. eval_loop leaf app (postfix l @ rest) [] [] tvm rt =
      eval_loop leaf app rest [token_of l] [vl] tl rl"
    using loop_postfix [OF wf(1) m(1), of "[]" "[]" tvm rt] by auto
  obtain vr tr rr where r: "rel vr mr" "\<And>rest. eval_loop leaf app (postfix r @ rest) [token_of l] [vl] tl rl =
      eval_loop leaf app rest [token_of r, token_of l] [vr, vl] tr rr"
    using loop_postfix [OF wf(2) m(2), of "[token_of l]" "[vl]" tl rl] by auto
  obtain v rt' where v: "app [c] vl vr rr = Inr (v, rt')" using app_ok [OF wf(3) l(1) r(1) m(3), of rr] by blast
  show ?thesis using wf(3) v l(1) r(1) m(3)
    by (intro exI [of _ vl] exI [of _ vr] exI [of _ ml] exI [of _ mr] exI [of _ rr] exI [of _ v] exI [of _ rt']
        exI [of _ "map_assign (token_of (BinOp c l r)) v tr"]) (simp add: l(2) r(2) Let_def)
qed

end

end
