(* ===== verification/Local_Executor.thy ===== *)
theory Local_Executor
  imports Express_Eval
begin

text \<open>
  \<^verbatim>\<open>LocalExpressExecutor\<close> of \<^verbatim>\<open>executor/express.cc\<close>: evaluation of the expression on plain columns that are
  all local, in integer or in floating-point mode. Integer arithmetic wraps around at 64 bits, as it
  does on the two's complement machines the program is built for. Reading the member of the value
  union that was not set, or past the end of a vector, is undefined behaviour.
\<close>

record ('d, 'f, 's) LocalExpressExecutor =
  le_token_val_map :: "('d, 'f, 's) TokenValue std_map"
  new_feed :: "'d FeedDict"
  new_col_cfg :: ColumnConfig
  final_val_double :: "'d list"
  final_val_int64 :: "i64 list"

section \<open>Setting up\<close>

definition createNewColumnConfig :: "ColumnConfig \<Rightarrow> ColumnConfig" where
  "createNewColumnConfig outside =
     (let cfg = new_ColumnConfig (cfg_party_id outside) in
      cfg\<lparr>local_col := fold (\<lambda>(name, b). map_insert name True) (local_col outside) (local_col cfg),
          col_dtype := fold (\<lambda>(name, dtype). map_insert name dtype) (col_dtype outside) (col_dtype cfg)\<rparr>)"

definition creatNewFeedDict :: "('d, 'f, 's) MPCExpressExecutor \<Rightarrow> 'd FeedDict" where
  "creatNewFeedDict ex = new_FeedDict (fp64_run ex)"

text \<open>\<^verbatim>\<open>init\<close> for a table of integer columns and for a table of \<^verbatim>\<open>double\<close> columns.\<close>

definition local_init ::
  "(ColumnConfig \<Rightarrow> string \<Rightarrow> 'v list \<Rightarrow> 'd FeedDict \<Rightarrow> ('d FeedDict \<times> int) res) \<Rightarrow>
   (string \<times> 'v list) list \<Rightarrow> ('d, 'f, 's) MPCExpressExecutor \<Rightarrow> ('d, 'f, 's) LocalExpressExecutor res" where
  "local_init import col_and_val ex =
     bindR (deref (col_config ex)) (\<lambda>outside.
       let cfg = createNewColumnConfig outside in
       bindR (import_all (import cfg) col_and_val (creatNewFeedDict ex)) (\<lambda>fd.
         Inr \<lparr>le_token_val_map = [], new_feed = fd, new_col_cfg = cfg,
              final_val_double = [], final_val_int64 = []\<rparr>))"

definition local_init_i64 ::
  "'d fp_ops \<Rightarrow> (string \<times> i64 list) list \<Rightarrow> ('d, 'f, 's) MPCExpressExecutor \<Rightarrow>
     ('d, 'f, 's) LocalExpressExecutor res" where
  "local_init_i64 F = local_init (importColumnValues_i64 F)"

definition local_init_fp64 ::
  "(string \<times> 'd list) list \<Rightarrow> ('d, 'f, 's) MPCExpressExecutor \<Rightarrow> ('d, 'f, 's) LocalExpressExecutor res" where
  "local_init_fp64 = local_init importColumnValues_fp64"

section \<open>Evaluation\<close>

definition local_createTokenValue ::
  "'d fp_ops \<Rightarrow> ('d, 'f, 's) MPCExpressExecutor \<Rightarrow> ('d, 'f, 's) LocalExpressExecutor \<Rightarrow> string \<Rightarrow>
     (int + ('d, 'f, 's) TokenValue) res" where
  "local_createTokenValue F ex le token =
     (case (case map_of (token_type_map ex) token of Some t \<Rightarrow> t | None \<Rightarrow> COLUMN) of
        COLUMN \<Rightarrow>
          if fp64_run ex then
            bindR (getColumnValues_fp64 (new_col_cfg le) token (new_feed le)) (\<lambda>r.
              Inr (case r of Inl code \<Rightarrow> Inl (-1) | Inr v \<Rightarrow> Inr (FP64Vec v)))
          else
            bindR (getColumnValues_i64 (new_col_cfg le) token (new_feed le)) (\<lambda>r.
              Inr (case r of Inl code \<Rightarrow> Inl (-1) | Inr v \<Rightarrow> Inr (I64Vec v)))
      | VALUE \<Rightarrow>
          if fp64_run ex then bindR (fp_stod F token) (\<lambda>d. Inr (Inr (FP64Val d)))
          else bindR (atol token) (\<lambda>n. Inr (Inr (I64Val n))))"

text \<open>
  The loops over the rows: \<open>f\<close> is the operation on two columns and on a constant and a column,
  \<open>g\<close> the one on a column and a constant (the source adds a constant on the right from the left).
\<close>

datatype 'a operand = Vec "'a list" | Const 'a | Unset

fun row_loop :: "('a \<Rightarrow> 'a \<Rightarrow> 'a) \<Rightarrow> ('a \<Rightarrow> 'a \<Rightarrow> 'a) \<Rightarrow> 'a operand \<Rightarrow> 'a operand \<Rightarrow> 'a list res" where
  "row_loop f g (Vec xs) (Vec ys) =
     (if length ys < length xs then Inl (Undefined ''read past a vector'') else Inr (map2 f xs ys))"
| "row_loop f g (Const c) (Vec ys) = Inr (map (\<lambda>y. f c y) ys)"
| "row_loop f g (Vec xs) (Const c) = Inr (map (\<lambda>x. g x c) xs)"
| "row_loop f g _ _ = Inl (Undefined ''union member not set'')"

fun fp64_operand :: "('d, 'f, 's) TokenValue \<Rightarrow> 'd operand" where
  "fp64_operand (FP64Vec v) = Vec v"
| "fp64_operand (FP64Val c) = Const c"
| "fp64_operand _ = Unset"

fun i64_operand :: "('d, 'f, 's) TokenValue \<Rightarrow> i64 operand" where
  "i64_operand (I64Vec v) = Vec v"
| "i64_operand (I64Val c) = Const c"
| "i64_operand _ = Unset"

definition local_apply ::
  "'d fp_ops \<Rightarrow> bool \<Rightarrow> string \<Rightarrow> ('d, 'f, 's) TokenValue \<Rightarrow> ('d, 'f, 's) TokenValue \<Rightarrow> unit \<Rightarrow>
     (('d, 'f, 's) TokenValue \<times> unit) res" where
  "local_apply F fp token val1 val2 rt =
     (let fp_run = (\<lambda>f g. bindR (row_loop f g (fp64_operand val1) (fp64_operand val2)) (\<lambda>v. Inr (FP64Vec v, ())));
          i64_run = (\<lambda>f g. bindR (row_loop f g (i64_operand val1) (i64_operand val2)) (\<lambda>v. Inr (I64Vec v, ())))
      in if token = ''+'' then
           if fp then fp_run (fp_add F) (\<lambda>x c. fp_add F c x) else i64_run (+) (\<lambda>x c. c + x)
         else if token = ''-'' then
           if fp then fp_run (fp_sub F) (fp_sub F) else i64_run (-) (-)
         else if token = ''*'' then
           if fp then fp_run (fp_mul F) (fp_mul F) else i64_run (*) (*)
         else fp_run (fp_div F) (fp_div F))"

text \<open>
  \<^verbatim>\<open>runLocalEvaluate\<close> parses the stored expression again, onto the stack of the MPC executor, runs
  the loop and copies the value filed under the final token.
\<close>

definition runLocalEvaluate ::
  "'d fp_ops \<Rightarrow> ('d, 'f, 's) MPCExpressExecutor \<Rightarrow> ('d, 'f, 's) LocalExpressExecutor \<Rightarrow>
     (('d, 'f, 's) MPCExpressExecutor \<times> ('d, 'f, 's) LocalExpressExecutor \<times> int) res" where
  "runLocalEvaluate F ex le =
     bindR (parseExpress (expr ex) (suffix_stk ex)) (\<lambda>stk.
     bindR (eval_loop (local_createTokenValue F ex le) (local_apply F (fp64_run ex)) stk [] []
         (le_token_val_map le) ()) (\<lambda>out.
       if eo_ret out \<noteq> 0
       then Inr (ex\<lparr>suffix_stk := eo_suffix out\<rparr>, le\<lparr>le_token_val_map := eo_map out\<rparr>, -1)
       else
         case rev (eo_stk1 out) of
           [] \<Rightarrow> Inl (Undefined ''top of an empty stack'')
         | final_token # rest \<Rightarrow>
             (case map_of (eo_map out) final_token of
                Some (FP64Vec v) \<Rightarrow>
                  Inr (ex\<lparr>suffix_stk := rest\<rparr>,
                    le\<lparr>le_token_val_map := eo_map out, final_val_double := final_val_double le @ v\<rparr>, 0)
              | Some (I64Vec v) \<Rightarrow>
                  Inr (ex\<lparr>suffix_stk := rest\<rparr>,
                    le\<lparr>le_token_val_map := eo_map out, final_val_int64 := final_val_int64 le @ v\<rparr>, 0)
              | _ \<Rightarrow> Inl (Undefined ''union member not set''))))"

definition getFinalVal_double :: "('d, 'f, 's) LocalExpressExecutor \<Rightarrow> 'd list \<Rightarrow> 'd list" where
  "getFinalVal_double le final_val = final_val @ final_val_double le"

definition getFinalVal_int64 :: "('d, 'f, 's) LocalExpressExecutor \<Rightarrow> i64 list \<Rightarrow> i64 list" where
  "getFinalVal_int64 le final_val = final_val @ final_val_int64 le"

section \<open>Specification: values by row\<close>

text \<open>
  The meaning of a token is a constant or a column. An operator works row by row; a constant is the
  same in every row. Two constants have no meaning here: the code has no case for them. The second
  function of a pair is used for a constant on the right, as in the code.
\<close>

type_synonym 'a op_pair = "('a \<Rightarrow> 'a \<Rightarrow> 'a) \<times> ('a \<Rightarrow> 'a \<Rightarrow> 'a)"

definition row_meaning :: "'a op_pair \<Rightarrow> 'a operand \<Rightarrow> 'a operand \<Rightarrow> 'a operand option" where
  "row_meaning fg a b =
     (case (a, b) of
        (Vec xs, Vec ys) \<Rightarrow> if length xs = length ys then Some (Vec (map2 (fst fg) xs ys)) else None
      | (Const c, Vec ys) \<Rightarrow> Some (Vec (map (fst fg c) ys))
      | (Vec xs, Const c) \<Rightarrow> Some (Vec (map (\<lambda>x. snd fg x c) xs))
      | _ \<Rightarrow> None)"

definition i64_op :: "string \<Rightarrow> i64 op_pair option" where
  "i64_op t = (if t = ''+'' then Some ((+), \<lambda>x c. c + x) else if t = ''-'' then Some ((-), (-))
     else if t = ''*'' then Some ((*), (*)) else None)"

definition fp64_op :: "'d fp_ops \<Rightarrow> string \<Rightarrow> 'd op_pair option" where
  "fp64_op F t = (if t = ''+'' then Some (fp_add F, \<lambda>x c. fp_add F c x)
     else if t = ''-'' then Some (fp_sub F, fp_sub F) else if t = ''*'' then Some (fp_mul F, fp_mul F)
     else if t = ''/'' then Some (fp_div F, fp_div F) else None)"

definition app_rows :: "(string \<Rightarrow> 'a op_pair option) \<Rightarrow> string \<Rightarrow> 'a operand \<Rightarrow> 'a operand \<Rightarrow> 'a operand option" where
  "app_rows ops t a b = Option.bind (ops t) (\<lambda>fg. row_meaning fg a b)"

text \<open>The value of a tree in one row, from the values of the tokens in that row.\<close>

definition row_value :: "(string \<Rightarrow> 'a op_pair option) \<Rightarrow> (string \<Rightarrow> 'a option) \<Rightarrow> ast \<Rightarrow> 'a option" where
  "row_value ops env = meaning env (\<lambda>t x y. map_option (\<lambda>fg. fst fg x y) (ops t))"

fun row_at :: "nat \<Rightarrow> 'a operand \<Rightarrow> 'a option" where
  "row_at i (Vec xs) = (if i < length xs then Some (xs ! i) else None)"
| "row_at i (Const c) = Some c"
| "row_at i Unset = None"

lemma row_at_meaning:
  assumes "row_meaning fg a b = Some m" "row_at i m = Some z" "\<And>x c. snd fg x c = fst fg x c"
  shows "\<exists>x y. row_at i a = Some x \<and> row_at i b = Some y \<and> z = fst fg x y"
  using assms by (auto simp: row_meaning_def split: operand.splits if_splits)

lemma app_rowsE:
  assumes "app_rows ops t a b = Some m"
  obtains fg where "ops t = Some fg" "row_meaning fg a b = Some m"
  using assms by (auto simp: app_rows_def split: bind_splits)

lemma app_rows_Vec:
  "ops t = Some fg \<Longrightarrow> length xs = length ys \<Longrightarrow>
   app_rows ops t (Vec xs) (Vec ys) = Some (Vec (map2 (fst fg) xs ys))"
  by (simp add: app_rows_def row_meaning_def)

lemma meaning_by_row:
  assumes "meaning leaf_m (app_rows ops) e = Some m" "row_at i m = Some z"
    and "\<And>t fg x c. ops t = Some fg \<Longrightarrow> snd fg x c = fst fg x c"
  shows "row_value ops (\<lambda>s. Option.bind (leaf_m s) (row_at i)) e = Some z"
  using assms(1,2)
proof (induction e arbitrary: m z)
  case (BinOp c l r)
  then obtain ml mr where "meaning leaf_m (app_rows ops) l = Some ml"
    "meaning leaf_m (app_rows ops) r = Some mr" "app_rows ops [c] ml mr = Some m"
    by (auto split: bind_splits)
  then obtain fg where m: "meaning leaf_m (app_rows ops) l = Some ml"
    "meaning leaf_m (app_rows ops) r = Some mr" "ops [c] = Some fg" "row_meaning fg ml mr = Some m"
    using app_rowsE by metis
  obtain x y where xy: "row_at i ml = Some x" "row_at i mr = Some y" "z = fst fg x y"
    using row_at_meaning [OF m(4) BinOp.prems(2) assms(3) [OF m(3)]] by blast
  with BinOp.IH(1) [OF m(1) xy(1)] BinOp.IH(2) [OF m(2) xy(2)] m(3) show ?case
    by (simp add: row_value_def)
qed (simp_all add: row_value_def)

lemma row_value_cong:
  "(\<And>s. s \<in> set (postfix e) \<Longrightarrow> env s = env' s) \<Longrightarrow> row_value ops env e = row_value ops env' e"
  unfolding row_value_def by (induction e) auto

section \<open>The loop implements the specification\<close>

definition set_operand :: "'a operand \<Rightarrow> 'a operand option" where
  "set_operand a = (if a = Unset then None else Some a)"

definition local_leaf ::
  "(('d, 'f, 's) TokenValue \<Rightarrow> 'a operand) \<Rightarrow> 'd fp_ops \<Rightarrow> ('d, 'f, 's) MPCExpressExecutor \<Rightarrow>
     ('d, 'f, 's) LocalExpressExecutor \<Rightarrow> string \<Rightarrow> 'a operand option" where
  "local_leaf view F ex le s =
     (case local_createTokenValue F ex le s of Inr (Inr v) \<Rightarrow> set_operand (view v) | _ \<Rightarrow> None)"

lemma row_loop_meaning:
  assumes "row_meaning (f, g) a b = Some m" "a \<noteq> Unset" "b \<noteq> Unset"
  shows "\<exists>v. row_loop f g a b = Inr v \<and> m = Vec v"
  using assms by (cases a; cases b) (auto simp: row_meaning_def split: if_splits)

lemma local_leafE:
  assumes "local_leaf view F ex le s = Some m"
  obtains v where "local_createTokenValue F ex le s = Inr (Inr v)" "view v = m" "m \<noteq> Unset"
  using assms by (auto simp: local_leaf_def set_operand_def split: sum.splits if_splits)

interpretation int_machine: postfix_machine "local_createTokenValue F ex le" "local_apply F False"
  "\<lambda>v m. i64_operand v = m \<and> m \<noteq> Unset" "local_leaf i64_operand F ex le" "app_rows i64_op" for F ex le
proof unfold_locales
  fix s m assume "local_leaf i64_operand F ex le s = Some m"
  then show "\<exists>v. local_createTokenValue F ex le s = Inr (Inr v) \<and> i64_operand v = m \<and> m \<noteq> Unset"
    by (rule local_leafE) blast
next
  fix c and v1 v2 :: "('a, 'b, 'c) TokenValue" and m1 m2 m rt
  assume *: "i64_operand v1 = m1 \<and> m1 \<noteq> Unset" "i64_operand v2 = m2 \<and> m2 \<noteq> Unset"
    "app_rows i64_op [c] m1 m2 = Some m"
  then obtain f g where fg: "i64_op [c] = Some (f, g)" "row_meaning (f, g) m1 m2 = Some m"
    by (auto simp: app_rows_def split: bind_splits)
  from row_loop_meaning [OF fg(2)] * obtain v where "row_loop f g m1 m2 = Inr v" "m = Vec v" by auto
  with * fg(1) show "\<exists>v rt'. local_apply F False [c] v1 v2 rt = Inr (v, rt') \<and> i64_operand v = m \<and> m \<noteq> Unset"
    by (auto simp: local_apply_def i64_op_def split: if_splits)
qed

interpretation fp_machine: postfix_machine "local_createTokenValue F ex le" "local_apply F True"
  "\<lambda>v m. fp64_operand v = m \<and> m \<noteq> Unset" "local_leaf fp64_operand F ex le" "app_rows (fp64_op F)" for F ex le
proof unfold_locales
  fix s m assume "local_leaf fp64_operand F ex le s = Some m"
  then show "\<exists>v. local_createTokenValue F ex le s = Inr (Inr v) \<and> fp64_operand v = m \<and> m \<noteq> Unset"
    by (rule local_leafE) blast
next
  fix c and v1 v2 :: "('a, 'b, 'c) TokenValue" and m1 m2 m rt
  assume *: "fp64_operand v1 = m1 \<and> m1 \<noteq> Unset" "fp64_operand v2 = m2 \<and> m2 \<noteq> Unset"
    "app_rows (fp64_op F) [c] m1 m2 = Some m"
  then obtain f g where fg: "fp64_op F [c] = Some (f, g)" "row_meaning (f, g) m1 m2 = Some m"
    by (auto simp: app_rows_def split: bind_splits)
  from row_loop_meaning [OF fg(2)] * obtain v where "row_loop f g m1 m2 = Inr v" "m = Vec v" by auto
  with * fg(1) show "\<exists>v rt'. local_apply F True [c] v1 v2 rt = Inr (v, rt') \<and> fp64_operand v = m \<and> m \<noteq> Unset"
    by (auto simp: local_apply_def fp64_op_def split: if_splits)
qed

section \<open>A run on a table of columns\<close>

text \<open>
  \<open>on_columns kvs n ops e\<close>: the tokens of \<open>e\<close> are columns of the table, all of length \<open>n\<close>, and its
  operators are among \<open>ops\<close>.
\<close>

fun on_columns :: "(string \<times> 'a list) list \<Rightarrow> string set \<Rightarrow> ast \<Rightarrow> bool" where
  "on_columns kvs ops (Leaf s) = (map_of kvs s \<noteq> None)"
| "on_columns kvs ops (Neg s) = False"
| "on_columns kvs ops (Paren e) = on_columns kvs ops e"
| "on_columns kvs ops (BinOp c l r) = ([c] \<in> ops \<and> on_columns kvs ops l \<and> on_columns kvs ops r)"

lemma on_columns_meaning:
  assumes "on_columns kvs (dom ops) e" "\<forall>(k, v) \<in> set kvs. length v = n"
    and "\<And>s v. map_of kvs s = Some v \<Longrightarrow> leaf_m s = Some (Vec v)"
  shows "\<exists>v. meaning leaf_m (app_rows ops) e = Some (Vec v) \<and> length v = n"
  using assms(1)
proof (induction e)
  case (Leaf s)
  then obtain v where "map_of kvs s = Some v" by auto
  moreover from this have "length v = n" using assms(2) map_of_SomeD by fastforce
  ultimately show ?case using assms(3) by auto
next
  case (BinOp c l r)
  then obtain vl vr where v: "meaning leaf_m (app_rows ops) l = Some (Vec vl)" "length vl = n"
    "meaning leaf_m (app_rows ops) r = Some (Vec vr)" "length vr = n" by auto
  moreover obtain fg where "ops [c] = Some fg" using BinOp.prems by auto
  ultimately show ?case by (simp add: app_rows_Vec)
qed auto

lemma on_columns_value:
  assumes "on_columns kvs ops' e"
    and "\<And>s v. map_of kvs s = Some v \<Longrightarrow> leaf_m s = Some (Vec v)"
    and "\<forall>(k, v) \<in> set kvs. length v = n" "i < n"
  shows "row_value ops (\<lambda>s. Option.bind (leaf_m s) (row_at i)) e =
    row_value ops (\<lambda>s. map_option (\<lambda>v. v ! i) (map_of kvs s)) e"
  using assms(1)
proof (induction e)
  case (Leaf s)
  then obtain v where v: "map_of kvs s = Some v" by auto
  then have "length v = n" using assms(3) map_of_SomeD by fastforce
  with v show ?case using assms(2,4) by (simp add: row_value_def)
qed (auto simp: row_value_def)

text \<open>The configuration of the local executor: every known column counts as local.\<close>

lemma fold_insert_keep:
  "map_of (fold (\<lambda>(name, b). map_insert name (f b)) kvs m) k =
     (case map_of m k of Some x \<Rightarrow> Some x | None \<Rightarrow> map_option f (map_of kvs k))"
  by (induction kvs arbitrary: m) (auto split: option.splits)

lemma createNewColumnConfig_props:
  "map_of (local_col (createNewColumnConfig cfg)) k = map_option (\<lambda>b. True) (map_of (local_col cfg) k)"
  "map_of (col_dtype (createNewColumnConfig cfg)) k = map_of (col_dtype cfg) k"
  using fold_insert_keep [of "\<lambda>b. True" "local_col cfg" "[]" k] fold_insert_keep [of "\<lambda>b. b" "col_dtype cfg" "[]" k]
  by (simp_all add: createNewColumnConfig_def new_ColumnConfig_def Let_def option.map_ident)

lemma runLocalEvaluate_run:
  assumes "wf_ast e" "expr ex = print e" "suffix_stk ex = []"
    and "eval_loop (local_createTokenValue F ex le) (local_apply F (fp64_run ex)) (postfix e) [] []
        (le_token_val_map le) () =
      Inr \<lparr>eo_ret = 0, eo_suffix = [], eo_stk1 = [token_of e], eo_map = tvm', eo_rt = rt'\<rparr>"
    and "map_of tvm' (token_of e) = Some v"
  shows "i64_operand v = Vec xs \<Longrightarrow> runLocalEvaluate F ex le = Inr (ex,
      le\<lparr>le_token_val_map := tvm', final_val_int64 := final_val_int64 le @ xs\<rparr>, 0)"
    and "fp64_operand v = Vec ys \<Longrightarrow> runLocalEvaluate F ex le = Inr (ex,
      le\<lparr>le_token_val_map := tvm', final_val_double := final_val_double le @ ys\<rparr>, 0)"
proof -
  have p: "parseExpress (expr ex) (suffix_stk ex) = Inr (postfix e)"
    using reads_parse [OF reads_print [OF assms(1)]] assms(2,3) by simp
  have ex: "ex\<lparr>suffix_stk := []\<rparr> = ex" using assms(3) by simp
  show "i64_operand v = Vec xs \<Longrightarrow> runLocalEvaluate F ex le = Inr (ex,
      le\<lparr>le_token_val_map := tvm', final_val_int64 := final_val_int64 le @ xs\<rparr>, 0)"
    using assms(4,5) p ex by (cases v) (simp_all add: runLocalEvaluate_def)
  show "fp64_operand v = Vec ys \<Longrightarrow> runLocalEvaluate F ex le = Inr (ex,
      le\<lparr>le_token_val_map := tvm', final_val_double := final_val_double le @ ys\<rparr>, 0)"
    using assms(4,5) p ex by (cases v) (simp_all add: runLocalEvaluate_def)
qed

text \<open>An executor that is ready for a local run of \<open>e\<close>.\<close>

definition local_ready :: "bool \<Rightarrow> ast \<Rightarrow> ColumnConfig \<Rightarrow> ('d, 'f, 's) MPCExpressExecutor \<Rightarrow> bool" where
  "local_ready fp e cfg ex \<longleftrightarrow> wf_ast e \<and> expr ex = print e \<and> suffix_stk ex = [] \<and> fp64_run ex = fp \<and>
     col_config ex = Some cfg \<and> VALUE \<notin> snd ` set (token_type_map ex)"

lemma local_ready_type:
  assumes "local_ready fp e cfg ex"
  shows "(case map_of (token_type_map ex) s of Some t \<Rightarrow> t | None \<Rightarrow> COLUMN) = COLUMN"
proof (cases "map_of (token_type_map ex) s")
  case (Some t)
  then have "(s, t) \<in> set (token_type_map ex)" by (rule map_of_SomeD)
  then have "t \<in> snd ` set (token_type_map ex)" by (rule image_eqI [rotated]) simp
  then have "t \<noteq> VALUE" using assms unfolding local_ready_def by blast
  then show ?thesis using Some by (cases t) simp_all
qed simp

lemma local_init_reads:
  assumes "local_ready fp e cfg ex" "import_all (import (createNewColumnConfig cfg)) kvs (new_FeedDict fp) = Inr fd"
  shows "\<exists>le. local_init import kvs ex = Inr le \<and> new_feed le = fd \<and>
    new_col_cfg le = createNewColumnConfig cfg \<and> final_val_double le = [] \<and> final_val_int64 le = []"
  using assms by (auto simp: local_init_def local_ready_def creatNewFeedDict_def Let_def)

lemma new_FeedDict_ok: "fd_ok cfg (new_FeedDict m)"
  by (simp add: fd_ok_def new_FeedDict_def)

lemma snd_i64_op: "i64_op t = Some fg \<Longrightarrow> snd fg x c = fst fg x c"
  by (auto simp: i64_op_def split: if_splits)

lemma snd_fp64_op:
  "fp64_op F t = Some fg \<Longrightarrow> \<forall>x y. fp_add F x y = fp_add F y x \<Longrightarrow> snd fg x c = fst fg x c"
  by (auto simp: fp64_op_def split: if_splits)

lemma all_less_two: "(\<forall>i < (2::nat). P i) \<longleftrightarrow> P 0 \<and> P 1"
  by (auto simp: less_2_cases_iff)

section \<open>Properties\<close>

text \<open>
  C3. Local evaluation in integer mode is correct, end to end: for an expression over integer
  columns of one length, initialising the local executor with the table of columns and running it
  returns 0, leaves the expression stack empty, and the final vector holds, in every row, the value
  of the expression in that row, computed modulo \<open>2 ^ 64\<close>.
\<close>

theorem local_run_i64:
  assumes "local_ready False e cfg ex" "on_columns kvs (dom i64_op) e" "map_wf kvs" "n < 2 ^ 63"
    and "\<forall>(k, v) \<in> set kvs. length v = n \<and> map_of (local_col cfg) k \<noteq> None \<and>
      map_of (col_dtype cfg) k = Some INT64"
  shows "\<exists>le le'. local_init_i64 F kvs ex = Inr le \<and> runLocalEvaluate F ex le = Inr (ex, le', 0) \<and>
    length (final_val_int64 le') = n \<and>
    (\<forall>i < n. row_value i64_op (\<lambda>s. map_option (\<lambda>v. v ! i) (map_of kvs s)) e = Some (final_val_int64 le' ! i))"
proof -
  let ?cfg = "createNewColumnConfig cfg"
  have "\<forall>(k, v) \<in> set kvs. store_accepts False True ?cfg (new_FeedDict False :: 'a FeedDict) k v \<and> length v = n"
    using assms(4,5) by (auto simp: store_accepts_def new_FeedDict_def createNewColumnConfig_props)
  from i64_store.put_all [OF _ assms(3) this, of F] new_FeedDict_ok
  obtain fd where fd: "import_all (importColumnValues_i64 F ?cfg) kvs (new_FeedDict False) = Inr fd"
    "\<And>k v. map_of kvs k = Some v \<Longrightarrow> getColumnValues_i64 ?cfg k fd = Inr (Inr v)"
    by (force simp: new_FeedDict_def)
  obtain le where le: "local_init_i64 F kvs ex = Inr le" "new_feed le = fd" "new_col_cfg le = ?cfg"
    "final_val_int64 le = []"
    using local_init_reads [of False e cfg ex "importColumnValues_i64 F" kvs fd] assms(1) fd(1)
    unfolding local_init_i64_def by blast
  let ?leaf = "local_leaf i64_operand F ex le"
  have ready: "\<not> fp64_run ex" "wf_ast e" "expr ex = print e" "suffix_stk ex = []"
    using assms(1) by (simp_all add: local_ready_def)
  have leaf: "?leaf s = Some (Vec v)" if "map_of kvs s = Some v" for s v
    using that fd(2) le(2,3) ready local_ready_type [OF assms(1)]
    by (simp add: local_leaf_def local_createTokenValue_def set_operand_def)
  have len: "\<forall>(k, v) \<in> set kvs. length v = n" using assms(5) by auto
  obtain v where v: "meaning ?leaf (app_rows i64_op) e = Some (Vec v)" "length v = n"
    using on_columns_meaning [OF assms(2) len, of ?leaf] leaf by blast
  obtain tv tvm rt where run: "i64_operand tv = Vec v" "map_of tvm (token_of e) = Some tv"
    "eval_loop (local_createTokenValue F ex le) (local_apply F False) (postfix e) [] [] (le_token_val_map le) () =
      Inr \<lparr>eo_ret = 0, eo_suffix = [], eo_stk1 = [token_of e], eo_map = tvm, eo_rt = rt\<rparr>"
    using int_machine.loop_complete [OF ready(2) v(1)] by blast
  have "runLocalEvaluate F ex le = Inr (ex, le\<lparr>le_token_val_map := tvm, final_val_int64 := v\<rparr>, 0)"
    using runLocalEvaluate_run(1) [OF ready(2-4), of F le tvm rt tv v] run ready(1) le(4) by simp
  moreover have "row_value i64_op (\<lambda>s. map_option (\<lambda>v. v ! i) (map_of kvs s)) e = Some (v ! i)" if "i < n" for i
    using meaning_by_row [OF v(1), of i "v ! i"] on_columns_value [OF assms(2) leaf len that] v(2) that
      snd_i64_op by simp
  ultimately show ?thesis using le(1) v(2) by auto
qed

theorem local_run_i64_witness:
  "(let ex = \<lparr>fp64_run = False, expr = ''A*(B-A)'', suffix_stk = [], col_config = Some
        \<lparr>cfg_party_id = 0, col_owner = [(''A'', 0), (''B'', 1)], col_dtype = [(''A'', INT64), (''B'', INT64)],
         local_col = [(''A'', True), (''B'', False)]\<rparr>, feed_dict = None, token_val_map = [],
       token_type_map = [(''A'', COLUMN), (''B'', COLUMN)], party_id = 0\<rparr>
       :: (int, unit, unit) MPCExpressExecutor
    in \<exists>le le'. local_init_i64 int_fp [(''A'', [2, 3]), (''B'', [10, 20])] ex = Inr le \<and>
      runLocalEvaluate int_fp ex le = Inr (ex, le', 0) \<and> final_val_int64 le' = [16, 51])"
proof -
  let ?cfg = "\<lparr>cfg_party_id = 0, col_owner = [(''A'', 0), (''B'', 1)],
      col_dtype = [(''A'', INT64), (''B'', INT64)], local_col = [(''A'', True), (''B'', False)]\<rparr>"
  let ?ex = "\<lparr>fp64_run = False, expr = ''A*(B-A)'', suffix_stk = [], col_config = Some ?cfg,
      feed_dict = None, token_val_map = [], token_type_map = [(''A'', COLUMN), (''B'', COLUMN)], party_id = 0\<rparr>
      :: (int, unit, unit) MPCExpressExecutor"
  let ?e = "BinOp (CHR ''*'') (Leaf ''A'') (Paren (BinOp (CHR ''-'') (Leaf ''B'') (Leaf ''A'')))"
  let ?kvs = "[(''A'', [2, 3]), (''B'', [10, 20])] :: (string \<times> i64 list) list"
  have "local_ready False ?e ?cfg ?ex"
    by (simp add: local_ready_def ident_def isOperator_def Priority_def)
  moreover have "on_columns ?kvs (dom i64_op) ?e" by (simp add: dom_def i64_op_def)
  ultimately obtain le le' where r: "local_init_i64 int_fp ?kvs ?ex = Inr le"
    "runLocalEvaluate int_fp ?ex le = Inr (?ex, le', 0)" "length (final_val_int64 le') = 2"
    "\<forall>i < 2. row_value i64_op (\<lambda>s. map_option (\<lambda>v. v ! i) (map_of ?kvs s)) ?e = Some (final_val_int64 le' ! i)"
    using local_run_i64 [of ?e ?cfg ?ex ?kvs 2 int_fp] by (auto simp: map_wf_def)
  from r(4) have "final_val_int64 le' ! 0 = 16" "final_val_int64 le' ! 1 = 51"
    by (simp_all add: row_value_def i64_op_def all_less_two)
  with r(3) have "final_val_int64 le' = [16, 51]"
    by (auto simp: list_eq_iff_nth_eq less_Suc_eq numeral_2_eq_2)
  with r(1,2) show ?thesis unfolding Let_def by blast
qed

text \<open>
  Local evaluation in floating-point mode: the same for a table of \<^verbatim>\<open>double\<close> columns and all four
  operators, for any arithmetic in which addition is commutative, as it is in IEEE arithmetic (the
  code adds a constant on the right from the left).
\<close>

theorem local_run_fp64:
  assumes "local_ready True e cfg ex" "on_columns kvs (dom (fp64_op F)) e" "map_wf kvs" "n < 2 ^ 63"
    and "\<forall>(k, v) \<in> set kvs. length v = n \<and> map_of (local_col cfg) k \<noteq> None"
    and "\<forall>x y. fp_add F x y = fp_add F y x"
  shows "\<exists>le le'. local_init_fp64 kvs ex = Inr le \<and> runLocalEvaluate F ex le = Inr (ex, le', 0) \<and>
    length (final_val_double le') = n \<and>
    (\<forall>i < n. row_value (fp64_op F) (\<lambda>s. map_option (\<lambda>v. v ! i) (map_of kvs s)) e = Some (final_val_double le' ! i))"
proof -
  let ?cfg = "createNewColumnConfig cfg"
  have "\<forall>(k, v) \<in> set kvs. store_accepts True False ?cfg (new_FeedDict True :: 'a FeedDict) k v \<and> length v = n"
    using assms(4,5) by (auto simp: store_accepts_def new_FeedDict_def createNewColumnConfig_props)
  from fp64_store.put_all [OF _ assms(3) this] new_FeedDict_ok
  obtain fd where fd: "import_all (importColumnValues_fp64 ?cfg) kvs (new_FeedDict True) = Inr fd"
    "\<And>k v. map_of kvs k = Some v \<Longrightarrow> getColumnValues_fp64 ?cfg k fd = Inr (Inr v)"
    by (force simp: new_FeedDict_def)
  obtain le where le: "local_init_fp64 kvs ex = Inr le" "new_feed le = fd" "new_col_cfg le = ?cfg"
    "final_val_double le = []"
    using local_init_reads [of True e cfg ex importColumnValues_fp64 kvs fd] assms(1) fd(1)
    unfolding local_init_fp64_def by blast
  let ?leaf = "local_leaf fp64_operand F ex le"
  have ready: "fp64_run ex" "wf_ast e" "expr ex = print e" "suffix_stk ex = []"
    using assms(1) by (simp_all add: local_ready_def)
  have leaf: "?leaf s = Some (Vec v)" if "map_of kvs s = Some v" for s v
    using that fd(2) le(2,3) ready local_ready_type [OF assms(1)]
    by (simp add: local_leaf_def local_createTokenValue_def set_operand_def)
  have len: "\<forall>(k, v) \<in> set kvs. length v = n" using assms(5) by auto
  obtain v where v: "meaning ?leaf (app_rows (fp64_op F)) e = Some (Vec v)" "length v = n"
    using on_columns_meaning [OF assms(2) len, of ?leaf] leaf by blast
  obtain tv tvm rt where run: "fp64_operand tv = Vec v" "map_of tvm (token_of e) = Some tv"
    "eval_loop (local_createTokenValue F ex le) (local_apply F True) (postfix e) [] [] (le_token_val_map le) () =
      Inr \<lparr>eo_ret = 0, eo_suffix = [], eo_stk1 = [token_of e], eo_map = tvm, eo_rt = rt\<rparr>"
    using fp_machine.loop_complete [OF ready(2) v(1)] by blast
  have "runLocalEvaluate F ex le = Inr (ex, le\<lparr>le_token_val_map := tvm, final_val_double := v\<rparr>, 0)"
    using runLocalEvaluate_run(2) [OF ready(2-4), of F le tvm rt tv v] run ready(1) le(4) by simp
  moreover have "row_value (fp64_op F) (\<lambda>s. map_option (\<lambda>v. v ! i) (map_of kvs s)) e = Some (v ! i)"
    if "i < n" for i
    using meaning_by_row [OF v(1), of i "v ! i"] on_columns_value [OF assms(2) leaf len that] v(2) that
      snd_fp64_op [OF _ assms(6)] by simp
  ultimately show ?thesis using le(1) v(2) by auto
qed

theorem local_run_fp64_witness:
  "(let ex = \<lparr>fp64_run = True, expr = ''A/B+A'', suffix_stk = [], col_config = Some
        \<lparr>cfg_party_id = 0, col_owner = [], col_dtype = [], local_col = [(''A'', True), (''B'', False)]\<rparr>,
       feed_dict = None, token_val_map = [], token_type_map = [], party_id = 0\<rparr>
       :: (int, unit, unit) MPCExpressExecutor
    in \<exists>le le'. local_init_fp64 [(''A'', [20]), (''B'', [5])] ex = Inr le \<and>
      runLocalEvaluate int_fp ex le = Inr (ex, le', 0) \<and> final_val_double le' ! 0 = 24)"
proof -
  let ?cfg = "\<lparr>cfg_party_id = 0, col_owner = [], col_dtype = [], local_col = [(''A'', True), (''B'', False)]\<rparr>"
  let ?ex = "\<lparr>fp64_run = True, expr = ''A/B+A'', suffix_stk = [], col_config = Some ?cfg,
      feed_dict = None, token_val_map = [], token_type_map = [], party_id = 0\<rparr>
      :: (int, unit, unit) MPCExpressExecutor"
  let ?e = "BinOp (CHR ''+'') (BinOp (CHR ''/'') (Leaf ''A'') (Leaf ''B'')) (Leaf ''A'')"
  let ?kvs = "[(''A'', [20]), (''B'', [5])] :: (string \<times> int list) list"
  have "local_ready True ?e ?cfg ?ex"
    by (simp add: local_ready_def ident_def isOperator_def Priority_def)
  moreover have "on_columns ?kvs (dom (fp64_op int_fp)) ?e" by (simp add: dom_def fp64_op_def)
  moreover have "\<forall>x y. fp_add int_fp x y = fp_add int_fp y x" by (simp add: int_fp_def)
  ultimately obtain le le' where r: "local_init_fp64 ?kvs ?ex = Inr le"
    "runLocalEvaluate int_fp ?ex le = Inr (?ex, le', 0)"
    "\<forall>i < 1. row_value (fp64_op int_fp) (\<lambda>s. map_option (\<lambda>v. v ! i) (map_of ?kvs s)) ?e =
      Some (final_val_double le' ! i)"
    using local_run_fp64 [of ?e ?cfg ?ex ?kvs int_fp 1] by (auto simp: map_wf_def)
  from r(3) have "final_val_double le' ! 0 = 24"
    by (simp add: row_value_def fp64_op_def int_fp_def)
  with r(1,2) show ?thesis unfolding Let_def by blast
qed

text \<open>
  The acceptance test is too weak: \<^verbatim>\<open>(a*)b\<close> has one operator and two names, so \<^verbatim>\<open>importExpress\<close>
  accepts it and returns 0, but its suffix form applies the operator to a single value: whatever the
  tokens and operations evaluate to, a run on it takes the top of an empty stack.
\<close>

theorem malformed_accepted:
  "\<exists>ex. importExpress ''(a*)b'' (new_MPCExpressExecutor False 0 :: ('d, 'f, 's) MPCExpressExecutor) = Inr (ex, 0) \<and>
    suffix_stk ex = [''a'', ''*'', ''b''] \<and>
    (\<forall>val_of app rt. eval_loop (\<lambda>s. Inr (Inr (val_of s))) app (suffix_stk ex) [] [] [] rt =
      Inl (Undefined ''top of an empty stack''))"
  by (auto simp: importExpress_def new_MPCExpressExecutor_def parseExpress_def parse_char_def isOperator_def
      push_temp_def checkExpress_def isOperator_str_def)

lemma resolve_tokens_spec:
  "resolve_tokens cfg toks ttm d =
     (if \<forall>t \<in> set toks. isOperator_str t \<or> map_of (col_dtype cfg) t \<noteq> None
      then Inr (fold (\<lambda>t m. if isOperator_str t then m else map_insert t COLUMN m) toks ttm, d \<or> ''/'' \<in> set toks)
      else Inl (Raised ''Can't find dtype attr for column''))"
proof (induction toks arbitrary: ttm d)
  case (Cons t toks)
  have "t \<noteq> ''/''" if "\<not> isOperator_str t" using that by (auto simp: isOperator_str_def)
  with Cons show ?case by (auto simp: getColumnDtype_def split: option.splits)
qed simp

text \<open>
  The run mode: once localities are resolved, \<^verbatim>\<open>resolveRunMode\<close> succeeds exactly when every token
  that is no operator has a declared type, and then selects floating point if and only if the
  expression divides or some column is floating point. Any other token, a number included, raises
  an exception, although the code goes on to treat it as a constant.
\<close>

theorem resolve_run_mode:
  assumes "col_config ex = Some cfg" "resolveLocalColumn cfg = Inr cfg'"
  shows "if \<forall>t \<in> set (suffix_stk ex). isOperator_str t \<or> map_of (col_dtype cfg) t \<noteq> None
    then \<exists>ex'. resolveRunMode ex = Inr (ex', 0) \<and> col_config ex' = Some cfg' \<and>
      fp64_run ex' = (''/'' \<in> set (suffix_stk ex) \<or> hasFP64Column cfg)
    else resolveRunMode ex = Inl (Raised ''Can't find dtype attr for column'')"
proof -
  have "col_dtype cfg' = col_dtype cfg" using assms(2) by (auto simp: resolveLocalColumn_def split: if_splits)
  then show ?thesis
    using assms resolve_tokens_spec [of cfg' "suffix_stk ex" "token_type_map ex" False]
    by (auto simp: resolveRunMode_def hasFP64Column_def)
qed

theorem resolve_run_mode_witness:
  "resolveRunMode \<lparr>fp64_run = False, expr = ''2*A'', suffix_stk = [''2'', ''A'', ''*''], col_config = Some
       \<lparr>cfg_party_id = 0, col_owner = [(''A'', 0)], col_dtype = [(''A'', INT64)], local_col = []\<rparr>,
     feed_dict = None, token_val_map = [], token_type_map = [], party_id = 0\<rparr> =
   Inl (Raised ''Can't find dtype attr for column'')"
proof -
  let ?cfg = "\<lparr>cfg_party_id = 0, col_owner = [(''A'', 0)], col_dtype = [(''A'', INT64)], local_col = []\<rparr>"
  have "resolveLocalColumn ?cfg = Inr (?cfg\<lparr>local_col := [(''A'', True)]\<rparr>)"
    by (simp add: resolveLocalColumn_def map_insert_def)
  from resolve_run_mode [OF _ this, of "\<lparr>fp64_run = False, expr = ''2*A'', suffix_stk = [''2'', ''A'', ''*''],
      col_config = Some ?cfg, feed_dict = None, token_val_map = [], token_type_map = [], party_id = 0\<rparr>"]
  show ?thesis by (simp add: isOperator_str_def)
qed

end
