(* ===== verification/Aby3_Operator.thy ===== *)
theory Aby3_Operator
  imports Prelude
begin

text \<open>
  \<^verbatim>\<open>MPCOperator\<close> of \<^verbatim>\<open>operator/aby3_operator.h\<close> and \<^verbatim>\<open>aby3_operator.cc\<close>. A value is shared among three
  parties as a sum of three parts modulo \<open>2 ^ 64\<close>; party \<open>p\<close> holds part \<open>p\<close> as component 0 and part
  \<open>p - 1\<close> as component 1. The operations that need no communication are definitions for one party;
  the ones that call the ABY3 library on all parties take the values of all parties, a function of
  the party index, and thread the state \<open>'rt\<close> of the library (random generators, channels). The
  library is the record \<open>aby3_lib\<close>, what is relied on is \<open>aby3_ok\<close>.
\<close>

section \<open>Matrices and shares\<close>

text \<open>A dense matrix in row-major order.\<close>

record mat =
  m_rows :: nat
  m_cols :: nat
  m_data :: "i64 list"

definition mat_ok :: "mat \<Rightarrow> bool" where
  "mat_ok m \<longleftrightarrow> length (m_data m) = m_rows m * m_cols m"

definition shape :: "mat \<Rightarrow> nat \<times> nat" where
  "shape m = (m_rows m, m_cols m)"

definition map_mat :: "(i64 \<Rightarrow> i64) \<Rightarrow> mat \<Rightarrow> mat" where
  "map_mat f m = m\<lparr>m_data := map f (m_data m)\<rparr>"

definition map2_mat :: "(i64 \<Rightarrow> i64 \<Rightarrow> i64) \<Rightarrow> mat \<Rightarrow> mat \<Rightarrow> mat" where
  "map2_mat f a b = a\<lparr>m_data := map2 f (m_data a) (m_data b)\<rparr>"

record 'a share =
  sh0 :: 'a
  sh1 :: 'a

type_synonym si64 = "i64 share"
type_synonym si64Matrix = "mat share"

text \<open>The parties are 0, 1 and 2; \<open>par3\<close> runs the same step at every one of them.\<close>

definition par3 :: "(nat \<Rightarrow> 'a res) \<Rightarrow> (nat \<Rightarrow> 'a) res" where
  "par3 f = bindR (f 0) (\<lambda>a. bindR (f 1) (\<lambda>b. bindR (f 2) (\<lambda>c.
     Inr (\<lambda>p. if p = 0 then a else if p = 1 then b else c))))"

section \<open>The ABY3 library\<close>

record 'rt aby3_lib =
  lib_add :: "si64Matrix \<Rightarrow> si64Matrix \<Rightarrow> si64Matrix"
  lib_sub :: "si64Matrix \<Rightarrow> si64Matrix \<Rightarrow> si64Matrix"
  lib_const_mul :: "i64 \<Rightarrow> si64Matrix \<Rightarrow> si64Matrix"
  lib_local_int :: "nat \<Rightarrow> mat \<Rightarrow> (nat \<Rightarrow> nat \<times> nat) \<Rightarrow> 'rt \<Rightarrow> ((nat \<Rightarrow> si64Matrix) \<times> 'rt) res"
  lib_dot_mul :: "(nat \<Rightarrow> si64Matrix) \<Rightarrow> (nat \<Rightarrow> si64Matrix) \<Rightarrow> 'rt \<Rightarrow> ((nat \<Rightarrow> si64Matrix) \<times> 'rt) res"
  lib_mul :: "(nat \<Rightarrow> si64Matrix) \<Rightarrow> (nat \<Rightarrow> si64Matrix) \<Rightarrow> 'rt \<Rightarrow> ((nat \<Rightarrow> si64Matrix) \<times> 'rt) res"
  lib_reveal :: "(nat \<Rightarrow> si64Matrix) \<Rightarrow> nat \<Rightarrow> 'rt \<Rightarrow> (mat \<times> 'rt) res"

text \<open>
  \<open>sharing S x\<close>: the parties hold replicated shares, of one shape, of the matrix \<open>x\<close>.
\<close>

definition sharing :: "(nat \<Rightarrow> si64Matrix) \<Rightarrow> mat \<Rightarrow> bool" where
  "sharing S x \<longleftrightarrow> sh1 (S 1) = sh0 (S 0) \<and> sh1 (S 2) = sh0 (S 1) \<and> sh1 (S 0) = sh0 (S 2) \<and>
     (\<forall>p \<in> {0, 1, 2}. shape (sh0 (S p)) = shape x \<and> mat_ok (sh0 (S p))) \<and>
     x = map2_mat (+) (map2_mat (+) (sh0 (S 0)) (sh0 (S 1))) (sh0 (S 2))"

definition sharing1 :: "(nat \<Rightarrow> si64) \<Rightarrow> i64 \<Rightarrow> bool" where
  "sharing1 S x \<longleftrightarrow> sh1 (S 1) = sh0 (S 0) \<and> sh1 (S 2) = sh0 (S 1) \<and> sh1 (S 0) = sh0 (S 2) \<and>
     x = sh0 (S 0) + sh0 (S 1) + sh0 (S 2)"

text \<open>
  The documented behaviour: share addition, subtraction and multiplication by a constant work
  componentwise and locally; input sharing gives replicated shares of the owner's matrix when all
  parties reserved its shape; entrywise multiplication gives shares of the product; revealing gives
  the shared value to the receiver.
\<close>

definition aby3_ok :: "'rt aby3_lib \<Rightarrow> bool" where
  "aby3_ok L \<longleftrightarrow>
     (\<forall>a b. lib_add L a b = \<lparr>sh0 = map2_mat (+) (sh0 a) (sh0 b), sh1 = map2_mat (+) (sh1 a) (sh1 b)\<rparr>) \<and>
     (\<forall>a b. lib_sub L a b = \<lparr>sh0 = map2_mat (-) (sh0 a) (sh0 b), sh1 = map2_mat (-) (sh1 a) (sh1 b)\<rparr>) \<and>
     (\<forall>c a. lib_const_mul L c a = \<lparr>sh0 = map_mat ((*) c) (sh0 a), sh1 = map_mat ((*) c) (sh1 a)\<rparr>) \<and>
     (\<forall>owner m dest rt. owner < 3 \<longrightarrow> mat_ok m \<longrightarrow> (\<forall>p \<in> {0, 1, 2}. dest p = shape m) \<longrightarrow>
        (\<exists>S rt'. lib_local_int L owner m dest rt = Inr (S, rt') \<and> sharing S m)) \<and>
     (\<forall>A B x y rt. sharing A x \<longrightarrow> sharing B y \<longrightarrow> shape x = shape y \<longrightarrow>
        (\<exists>S rt'. lib_dot_mul L A B rt = Inr (S, rt') \<and> sharing S (map2_mat (*) x y))) \<and>
     (\<forall>S x to rt. sharing S x \<longrightarrow> to < 3 \<longrightarrow> (\<exists>rt'. lib_reveal L S to rt = Inr (x, rt')))"

section \<open>Operations of one party\<close>

text \<open>\<^verbatim>\<open>sum = sharedInt[0]\<close> and the loop over the rest; an empty vector has no element 0.\<close>

definition MPC_Add :: "'rt aby3_lib \<Rightarrow> si64Matrix list \<Rightarrow> si64Matrix res" where
  "MPC_Add L sharedInt =
     (case sharedInt of
        [] \<Rightarrow> Inl (Undefined ''element of an empty vector'')
      | s # ss \<Rightarrow> Inr (foldl (lib_add L) s ss))"

definition MPC_Add_Const1 :: "nat \<Rightarrow> i64 \<Rightarrow> si64 \<Rightarrow> si64" where
  "MPC_Add_Const1 partyIdx constInt sharedInt =
     (if partyIdx = 0 then sharedInt\<lparr>sh0 := sh0 sharedInt + constInt\<rparr>
      else if partyIdx = 1 then sharedInt\<lparr>sh1 := sh1 sharedInt + constInt\<rparr>
      else sharedInt)"

definition MPC_Add_Const :: "nat \<Rightarrow> i64 \<Rightarrow> si64Matrix \<Rightarrow> si64Matrix" where
  "MPC_Add_Const partyIdx constInt s =
     (if partyIdx = 0 then s\<lparr>sh0 := map_mat (\<lambda>x. x + constInt) (sh0 s)\<rparr>
      else if partyIdx = 1 then s\<lparr>sh1 := map_mat (\<lambda>x. x + constInt) (sh1 s)\<rparr>
      else s)"

definition MPC_Add_ConstMatrix :: "nat \<Rightarrow> mat \<Rightarrow> si64Matrix \<Rightarrow> si64Matrix res" where
  "MPC_Add_ConstMatrix partyIdx constFixedMatrix s =
     (if m_cols (sh0 s) \<noteq> m_cols constFixedMatrix \<or> m_rows (sh0 s) \<noteq> m_rows constFixedMatrix
      then Inl (Raised ''LOCATION'')
      else if partyIdx = 0 then Inr (s\<lparr>sh0 := map2_mat (+) (sh0 s) constFixedMatrix\<rparr>)
      else if partyIdx = 1 then Inr (s\<lparr>sh1 := map2_mat (+) (sh1 s) constFixedMatrix\<rparr>)
      else Inr s)"

definition MPC_Sub :: "'rt aby3_lib \<Rightarrow> si64Matrix \<Rightarrow> si64Matrix list \<Rightarrow> si64Matrix" where
  "MPC_Sub L minuend subtrahends = foldl (lib_sub L) minuend subtrahends"

definition MPC_Sub_Const1 :: "nat \<Rightarrow> i64 \<Rightarrow> si64 \<Rightarrow> bool \<Rightarrow> si64" where
  "MPC_Sub_Const1 partyIdx constInt sharedInt mode =
     (let temp = (if partyIdx = 0 then sharedInt\<lparr>sh0 := sh0 sharedInt - constInt\<rparr>
                  else if partyIdx = 1 then sharedInt\<lparr>sh1 := sh1 sharedInt - constInt\<rparr>
                  else sharedInt)
      in if \<not> mode then \<lparr>sh0 = - sh0 temp, sh1 = - sh1 temp\<rparr> else temp)"

definition MPC_Sub_Const :: "nat \<Rightarrow> i64 \<Rightarrow> si64Matrix \<Rightarrow> bool \<Rightarrow> si64Matrix" where
  "MPC_Sub_Const partyIdx constInt s mode =
     (let temp = (if partyIdx = 0 then s\<lparr>sh0 := map_mat (\<lambda>x. x - constInt) (sh0 s)\<rparr>
                  else if partyIdx = 1 then s\<lparr>sh1 := map_mat (\<lambda>x. x - constInt) (sh1 s)\<rparr>
                  else s)
      in if \<not> mode then \<lparr>sh0 = map_mat uminus (sh0 temp), sh1 = map_mat uminus (sh1 temp)\<rparr> else temp)"

definition MPC_Mul_Const :: "'rt aby3_lib \<Rightarrow> i64 \<Rightarrow> si64Matrix \<Rightarrow> si64Matrix" where
  "MPC_Mul_Const L constInt s = lib_const_mul L constInt s"

section \<open>Operations of all parties\<close>

definition createShares ::
  "'rt aby3_lib \<Rightarrow> nat \<Rightarrow> mat \<Rightarrow> (nat \<Rightarrow> nat \<times> nat) \<Rightarrow> 'rt \<Rightarrow> ((nat \<Rightarrow> si64Matrix) \<times> 'rt) res" where
  "createShares L owner vals dest rt = lib_local_int L owner vals dest rt"

text \<open>
  \<^verbatim>\<open>createSharesByShape\<close>: the owner sends its shape to the next and the previous party. Party \<open>p\<close> takes
  it from the channel on whose other side the owner \<open>pIdx p\<close> it was told sits, and raises when that is
  itself; a party told the wrong owner would wait for a message that never comes.
\<close>

definition shape_channel :: "nat \<Rightarrow> nat \<Rightarrow> nat res" where
  "shape_channel partyIdx pIdx =
     (if pIdx = (partyIdx + 1) mod 3 then Inr ((partyIdx + 1) mod 3)
      else if pIdx = (partyIdx + 2) mod 3 then Inr ((partyIdx + 2) mod 3)
      else Inl (Raised ''RTE_LOC''))"

definition createSharesByShape ::
  "'rt aby3_lib \<Rightarrow> nat \<Rightarrow> mat \<Rightarrow> (nat \<Rightarrow> nat) \<Rightarrow> 'rt \<Rightarrow> ((nat \<Rightarrow> si64Matrix) \<times> 'rt) res" where
  "createSharesByShape L owner val pIdx rt =
     bindR (par3 (\<lambda>p. if p = owner then Inr (shape val)
         else bindR (shape_channel p (pIdx p)) (\<lambda>q.
           if q = owner then Inr (shape val) else Inl (Undefined ''waits for a message never sent''))))
       (\<lambda>dest. lib_local_int L owner val dest rt)"

definition MPC_Dot_Mul ::
  "'rt aby3_lib \<Rightarrow> (nat \<Rightarrow> si64Matrix) \<Rightarrow> (nat \<Rightarrow> si64Matrix) \<Rightarrow> 'rt \<Rightarrow> ((nat \<Rightarrow> si64Matrix) \<times> 'rt) res" where
  "MPC_Dot_Mul L A B rt =
     bindR (par3 (\<lambda>p. if m_cols (sh0 (A p)) \<noteq> m_cols (sh0 (B p)) \<or> m_rows (sh0 (A p)) \<noteq> m_rows (sh0 (B p))
         then Inl (Raised ''Shape does not match'') else Inr ()))
       (\<lambda>_. lib_dot_mul L A B rt)"

text \<open>\<^verbatim>\<open>MPC_Mul\<close> multiplies the vector up from the left with the matrix product of the library.\<close>

fun MPC_Mul_loop ::
  "'rt aby3_lib \<Rightarrow> (nat \<Rightarrow> si64Matrix) \<Rightarrow> (nat \<Rightarrow> si64Matrix) list \<Rightarrow> 'rt \<Rightarrow> ((nat \<Rightarrow> si64Matrix) \<times> 'rt) res" where
  "MPC_Mul_loop L acc [] rt = Inr (acc, rt)"
| "MPC_Mul_loop L acc (S # Ss) rt = bindR (lib_mul L acc S rt) (\<lambda>(acc', rt'). MPC_Mul_loop L acc' Ss rt')"

definition MPC_Mul ::
  "'rt aby3_lib \<Rightarrow> (nat \<Rightarrow> si64Matrix) list \<Rightarrow> 'rt \<Rightarrow> ((nat \<Rightarrow> si64Matrix) \<times> 'rt) res" where
  "MPC_Mul L sharedInt rt =
     (case sharedInt of
        [] \<Rightarrow> Inl (Undefined ''element of an empty vector'')
      | S # Ss \<Rightarrow> MPC_Mul_loop L S Ss rt)"

text \<open>\<^verbatim>\<open>reveal(vals)\<close> at the receiver together with \<^verbatim>\<open>reveal(vals, Idx)\<close> at the others.\<close>

definition reveal :: "'rt aby3_lib \<Rightarrow> (nat \<Rightarrow> si64Matrix) \<Rightarrow> nat \<Rightarrow> 'rt \<Rightarrow> (mat \<times> 'rt) res" where
  "reveal L vals to rt = lib_reveal L vals to rt"

section \<open>Reconstruction\<close>

lemma shape_map_mat [simp]: "shape (map_mat f m) = shape m" "mat_ok (map_mat f m) = mat_ok m"
  by (simp_all add: shape_def map_mat_def mat_ok_def)

lemma shape_map2_mat [simp]: "shape (map2_mat f a b) = shape a"
  by (simp add: shape_def map2_mat_def)

lemma map2_mat_ok: "mat_ok a \<Longrightarrow> mat_ok b \<Longrightarrow> shape a = shape b \<Longrightarrow> mat_ok (map2_mat f a b)"
  by (simp add: shape_def map2_mat_def mat_ok_def)

lemma mat_eqI:
  assumes "shape a = shape b" "mat_ok a" "mat_ok b"
    and "\<And>i. i < length (m_data a) \<Longrightarrow> m_data a ! i = m_data b ! i"
  shows "a = (b :: mat)"
proof -
  have "m_data a = m_data b" using assms by (intro nth_equalityI) (auto simp: shape_def mat_ok_def)
  then show ?thesis using assms(1) by (simp add: shape_def)
qed

lemma mat_ok_same: "mat_ok a \<Longrightarrow> mat_ok b \<Longrightarrow> shape a = shape b \<Longrightarrow> length (m_data a) = length (m_data b)"
  by (simp add: mat_ok_def shape_def)

lemma nth_mat [simp]:
  "i < length (m_data m) \<Longrightarrow> m_data (map_mat f m) ! i = f (m_data m ! i)"
  "length (m_data (map_mat f m)) = length (m_data m)"
  "length (m_data (map2_mat h a b)) = min (length (m_data a)) (length (m_data b))"
  "i < length (m_data a) \<Longrightarrow> i < length (m_data b) \<Longrightarrow>
   m_data (map2_mat h a b) ! i = h (m_data a ! i) (m_data b ! i)"
  by (simp_all add: map_mat_def map2_mat_def)

lemma sharingD:
  assumes "sharing S x"
  shows "sh1 (S 1) = sh0 (S 0)" "sh1 (S 2) = sh0 (S 1)" "sh1 (S 0) = sh0 (S 2)"
    and "mat_ok (sh0 (S 0))" "mat_ok (sh0 (S 1))" "mat_ok (sh0 (S 2))"
    and "shape (sh0 (S 0)) = shape x" "shape (sh0 (S 1)) = shape x" "shape (sh0 (S 2)) = shape x"
    and "x = map2_mat (+) (map2_mat (+) (sh0 (S 0)) (sh0 (S 1))) (sh0 (S 2))"
  using assms unfolding sharing_def by blast+

text \<open>
  A local operation that acts on the three parts entry by entry acts on the shared value, whenever
  the sum of the three results is the result on the sum.
\<close>

lemma sharing_unary:
  assumes "sharing S x"
    and "\<And>p. p \<in> {0, 1, 2} \<Longrightarrow> T p = \<lparr>sh0 = map_mat (f p) (sh0 (S p)), sh1 = map_mat (f ((p + 2) mod 3)) (sh1 (S p))\<rparr>"
    and "\<And>a b c. f 0 a + f 1 b + f 2 c = g (a + b + c)"
  shows "sharing T (map_mat g x)"
proof -
  note s = sharingD [OF assms(1)]
  let ?a = "sh0 (S 0)" and ?b = "sh0 (S 1)" and ?c = "sh0 (S 2)"
  have T: "sh0 (T 0) = map_mat (f 0) ?a" "sh0 (T 1) = map_mat (f 1) ?b" "sh0 (T 2) = map_mat (f 2) ?c"
    "sh1 (T 0) = map_mat (f 2) ?c" "sh1 (T 1) = map_mat (f 0) ?a" "sh1 (T 2) = map_mat (f 1) ?b"
    using assms(2) [of 0] assms(2) [of 1] assms(2) [of 2] s(1-3)
    by (simp_all add: numeral_2_eq_2)
  have ok: "mat_ok ?a" "mat_ok ?b" "mat_ok ?c" "shape ?b = shape ?a" "shape ?c = shape ?a" "shape x = shape ?a"
    using s(4-9) by simp_all
  note x = s(10)
  have len: "length (m_data ?b) = length (m_data ?a)" "length (m_data ?c) = length (m_data ?a)"
    using ok mat_ok_same by metis+
  have "map_mat g x = map2_mat (+) (map2_mat (+) (map_mat (f 0) ?a) (map_mat (f 1) ?b)) (map_mat (f 2) ?c)"
  proof (rule mat_eqI)
    show "mat_ok (map_mat g x)" unfolding x shape_map_mat using ok by (simp add: map2_mat_ok)
    show "mat_ok (map2_mat (+) (map2_mat (+) (map_mat (f 0) ?a) (map_mat (f 1) ?b)) (map_mat (f 2) ?c))"
      using ok by (simp add: map2_mat_ok)
    show "shape (map_mat g x) = shape (map2_mat (+) (map2_mat (+) (map_mat (f 0) ?a) (map_mat (f 1) ?b)) (map_mat (f 2) ?c))"
      using ok by simp
  qed (simp add: x len assms(3) del: One_nat_def)
  then show ?thesis using ok T by (simp add: sharing_def)
qed

lemma sharing_binary:
  assumes "sharing S x" "sharing S' y" "shape x = shape y"
    and "\<And>p. p \<in> {0, 1, 2} \<Longrightarrow> T p = \<lparr>sh0 = map2_mat f (sh0 (S p)) (sh0 (S' p)), sh1 = map2_mat f (sh1 (S p)) (sh1 (S' p))\<rparr>"
    and "\<And>a b c a' b' c'. f a a' + f b b' + f c c' = f (a + b + c) (a' + b' + c')"
  shows "sharing T (map2_mat f x y)"
proof -
  note s = sharingD [OF assms(1)] and s' = sharingD [OF assms(2)]
  let ?a = "sh0 (S 0)" and ?b = "sh0 (S 1)" and ?c = "sh0 (S 2)"
  let ?a' = "sh0 (S' 0)" and ?b' = "sh0 (S' 1)" and ?c' = "sh0 (S' 2)"
  have T: "sh0 (T 0) = map2_mat f ?a ?a'" "sh0 (T 1) = map2_mat f ?b ?b'" "sh0 (T 2) = map2_mat f ?c ?c'"
    "sh1 (T 0) = map2_mat f ?c ?c'" "sh1 (T 1) = map2_mat f ?a ?a'" "sh1 (T 2) = map2_mat f ?b ?b'"
    using assms(4) [of 0] assms(4) [of 1] assms(4) [of 2] s(1-3) s'(1-3) by simp_all
  have ok: "mat_ok ?a" "mat_ok ?b" "mat_ok ?c" "shape ?b = shape ?a" "shape ?c = shape ?a" "shape x = shape ?a"
    "mat_ok ?a'" "mat_ok ?b'" "mat_ok ?c'" "shape ?b' = shape ?a" "shape ?c' = shape ?a" "shape ?a' = shape ?a"
    using s(4-9) s'(4-9) assms(3) by simp_all
  note xy = s(10) s'(10)
  have len: "length (m_data ?b) = length (m_data ?a)" "length (m_data ?c) = length (m_data ?a)"
    "length (m_data ?a') = length (m_data ?a)" "length (m_data ?b') = length (m_data ?a)"
    "length (m_data ?c') = length (m_data ?a)"
    using ok mat_ok_same by metis+
  let ?r = "map2_mat (+) (map2_mat (+) (map2_mat f ?a ?a') (map2_mat f ?b ?b')) (map2_mat f ?c ?c')"
  have "map2_mat f x y = ?r"
  proof (rule mat_eqI)
    show "mat_ok (map2_mat f x y)" unfolding xy using ok by (simp add: map2_mat_ok)
    show "mat_ok ?r" using ok by (simp add: map2_mat_ok)
    show "shape (map2_mat f x y) = shape ?r" using ok by simp
  qed (simp add: xy len assms(5))
  then show ?thesis using ok T by (simp add: sharing_def map2_mat_ok)
qed

section \<open>The operations on shared values\<close>

lemma aby3_ok_D:
  assumes "aby3_ok L"
  shows lib_add_eq: "lib_add L a b = \<lparr>sh0 = map2_mat (+) (sh0 a) (sh0 b), sh1 = map2_mat (+) (sh1 a) (sh1 b)\<rparr>"
    and lib_sub_eq: "lib_sub L a b = \<lparr>sh0 = map2_mat (-) (sh0 a) (sh0 b), sh1 = map2_mat (-) (sh1 a) (sh1 b)\<rparr>"
    and lib_const_mul_eq: "lib_const_mul L c a = \<lparr>sh0 = map_mat ((*) c) (sh0 a), sh1 = map_mat ((*) c) (sh1 a)\<rparr>"
    and lib_local: "owner < 3 \<Longrightarrow> mat_ok m \<Longrightarrow> \<forall>p \<in> {0, 1, 2}. dest p = shape m \<Longrightarrow>
      \<exists>S rt'. lib_local_int L owner m dest rt = Inr (S, rt') \<and> sharing S m"
    and lib_dot: "sharing A x \<Longrightarrow> sharing B y \<Longrightarrow> shape x = shape y \<Longrightarrow>
      \<exists>S rt'. lib_dot_mul L A B rt = Inr (S, rt') \<and> sharing S (map2_mat (*) x y)"
    and lib_rev: "sharing T z \<Longrightarrow> to < 3 \<Longrightarrow> \<exists>rt'. lib_reveal L T to rt = Inr (z, rt')"
  using assms unfolding aby3_ok_def by blast+

lemma share_add:
  assumes "aby3_ok L" "sharing A x" "sharing B y" "shape x = shape y"
  shows "sharing (\<lambda>p. lib_add L (A p) (B p)) (map2_mat (+) x y)"
  by (rule sharing_binary [OF assms(2-4)]) (simp_all add: lib_add_eq [OF assms(1)])

lemma share_sub:
  assumes "aby3_ok L" "sharing A x" "sharing B y" "shape x = shape y"
  shows "sharing (\<lambda>p. lib_sub L (A p) (B p)) (map2_mat (-) x y)"
  by (rule sharing_binary [OF assms(2-4)]) (simp_all add: lib_sub_eq [OF assms(1)])

lemma sharing_shape: "sharing S x \<Longrightarrow> p \<in> {0, 1, 2} \<Longrightarrow> shape (sh0 (S p)) = shape x"
  unfolding sharing_def by blast

lemma sharing_add_const:
  assumes "sharing S x"
  shows "sharing (\<lambda>p. MPC_Add_Const p c (S p)) (map_mat (\<lambda>v. v + c) x)"
proof (rule sharing_unary [OF assms, where f = "\<lambda>p v. if p = 0 then v + c else v"])
  have id: "map_mat (\<lambda>v. v) m = m" for m by (simp add: map_mat_def)
  show "MPC_Add_Const p c (S p) = \<lparr>sh0 = map_mat (\<lambda>v. if p = 0 then v + c else v) (sh0 (S p)),
      sh1 = map_mat (\<lambda>v. if (p + 2) mod 3 = 0 then v + c else v) (sh1 (S p))\<rparr>" if "p \<in> {0, 1, 2}" for p
    using that by (auto simp: MPC_Add_Const_def id)
qed simp

lemma sharing_sub_const:
  assumes "sharing S x"
  shows "sharing (\<lambda>p. MPC_Sub_Const p c (S p) True) (map_mat (\<lambda>v. v - c) x)"
    and "sharing (\<lambda>p. MPC_Sub_Const p c (S p) False) (map_mat (\<lambda>v. c - v) x)"
proof -
  have id: "map_mat (\<lambda>v. v) m = m" for m by (simp add: map_mat_def)
  have mm: "map_mat f (map_mat g m) = map_mat (\<lambda>v. f (g v)) m" for f g m by (simp add: map_mat_def comp_def)
  show "sharing (\<lambda>p. MPC_Sub_Const p c (S p) True) (map_mat (\<lambda>v. v - c) x)"
  proof (rule sharing_unary [OF assms, where f = "\<lambda>p v. if p = 0 then v - c else v"])
    show "MPC_Sub_Const p c (S p) True = \<lparr>sh0 = map_mat (\<lambda>v. if p = 0 then v - c else v) (sh0 (S p)),
        sh1 = map_mat (\<lambda>v. if (p + 2) mod 3 = 0 then v - c else v) (sh1 (S p))\<rparr>" if "p \<in> {0, 1, 2}" for p
      using that by (auto simp: MPC_Sub_Const_def id)
  qed simp
  show "sharing (\<lambda>p. MPC_Sub_Const p c (S p) False) (map_mat (\<lambda>v. c - v) x)"
  proof (rule sharing_unary [OF assms, where f = "\<lambda>p v. if p = 0 then c - v else - v"])
    show "MPC_Sub_Const p c (S p) False = \<lparr>sh0 = map_mat (\<lambda>v. if p = 0 then c - v else - v) (sh0 (S p)),
        sh1 = map_mat (\<lambda>v. if (p + 2) mod 3 = 0 then c - v else - v) (sh1 (S p))\<rparr>" if "p \<in> {0, 1, 2}" for p
      using that by (auto simp: MPC_Sub_Const_def Let_def mm)
  qed simp
qed

lemma sharing_mul_const:
  assumes "aby3_ok L" "sharing S x"
  shows "sharing (\<lambda>p. MPC_Mul_Const L c (S p)) (map_mat ((*) c) x)"
  by (rule sharing_unary [OF assms(2), where f = "\<lambda>p. (*) c"])
     (simp_all add: MPC_Mul_Const_def lib_const_mul_eq [OF assms(1)] distrib_left)

lemma sharing_dot_mul:
  assumes "aby3_ok L" "sharing A x" "sharing B y" "shape x = shape y"
  shows "\<exists>S rt'. MPC_Dot_Mul L A B rt = Inr (S, rt') \<and> sharing S (map2_mat (*) x y)"
proof -
  have "shape (sh0 (A p)) = shape (sh0 (B p))" if "p \<in> {0, 1, 2}" for p
    using that assms(2-4) by (simp only: sharing_shape)
  then show ?thesis
    using lib_dot [OF assms] by (simp add: MPC_Dot_Mul_def par3_def shape_def)
qed

lemma foldl_shares:
  assumes "aby3_ok L" "sharing A x" "length Bs = length ys"
    and "\<And>i. i < length Bs \<Longrightarrow> sharing (Bs ! i) (ys ! i) \<and> shape (ys ! i) = shape x"
  shows "sharing (\<lambda>p. foldl (lib_add L) (A p) (map (\<lambda>B. B p) Bs)) (foldl (map2_mat (+)) x ys)"
    and "sharing (\<lambda>p. foldl (lib_sub L) (A p) (map (\<lambda>B. B p) Bs)) (foldl (map2_mat (-)) x ys)"
proof -
  have "sharing (\<lambda>p. foldl (lib_add L) (A p) (map (\<lambda>B. B p) Bs)) (foldl (map2_mat (+)) x ys) \<and>
    sharing (\<lambda>p. foldl (lib_sub L) (A' p) (map (\<lambda>B. B p) Bs)) (foldl (map2_mat (-)) x' ys)"
    if "sharing A x" "sharing A' x'" "shape x' = shape x"
      "\<And>i. i < length Bs \<Longrightarrow> sharing (Bs ! i) (ys ! i) \<and> shape (ys ! i) = shape x" for A A' x x'
    using assms(3) that
  proof (induction Bs ys arbitrary: A A' x x' rule: list_induct2)
    case (Cons B Bs y ys)
    have h: "sharing B y" "shape y = shape x" using Cons.prems(4) [of 0] by simp_all
    have t: "sharing (Bs ! i) (ys ! i) \<and> shape (ys ! i) = shape x" if "i < length Bs" for i
      using Cons.prems(4) [of "Suc i"] that by simp
    show ?case
      using Cons.IH [OF share_add [OF assms(1) Cons.prems(1) h(1)] share_sub [OF assms(1) Cons.prems(2) h(1)]]
        Cons.prems(3) h(2) t by simp
  qed simp
  then show "sharing (\<lambda>p. foldl (lib_add L) (A p) (map (\<lambda>B. B p) Bs)) (foldl (map2_mat (+)) x ys)"
    "sharing (\<lambda>p. foldl (lib_sub L) (A p) (map (\<lambda>B. B p) Bs)) (foldl (map2_mat (-)) x ys)"
    using assms(2,4) by blast+
qed

section \<open>A concrete library\<close>

text \<open>
  Shares in which the first part is the value: they satisfy all that is relied on (and hide nothing),
  and serve to run the operations on concrete inputs.
\<close>

definition zero_mat :: "mat \<Rightarrow> mat" where
  "zero_mat m = map_mat (\<lambda>v. 0) m"

definition plain_shares :: "mat \<Rightarrow> nat \<Rightarrow> si64Matrix" where
  "plain_shares m p = (if p = 0 then \<lparr>sh0 = m, sh1 = zero_mat m\<rparr>
     else if p = 1 then \<lparr>sh0 = zero_mat m, sh1 = m\<rparr> else \<lparr>sh0 = zero_mat m, sh1 = zero_mat m\<rparr>)"

definition open_shares :: "(nat \<Rightarrow> si64Matrix) \<Rightarrow> mat" where
  "open_shares S = map2_mat (+) (map2_mat (+) (sh0 (S 0)) (sh0 (S 1))) (sh0 (S 2))"

definition lib_ref :: "unit aby3_lib" where
  "lib_ref = \<lparr>
     lib_add = (\<lambda>a b. \<lparr>sh0 = map2_mat (+) (sh0 a) (sh0 b), sh1 = map2_mat (+) (sh1 a) (sh1 b)\<rparr>),
     lib_sub = (\<lambda>a b. \<lparr>sh0 = map2_mat (-) (sh0 a) (sh0 b), sh1 = map2_mat (-) (sh1 a) (sh1 b)\<rparr>),
     lib_const_mul = (\<lambda>c a. \<lparr>sh0 = map_mat ((*) c) (sh0 a), sh1 = map_mat ((*) c) (sh1 a)\<rparr>),
     lib_local_int = (\<lambda>owner m dest rt.
       if dest 0 = shape m \<and> dest 1 = shape m \<and> dest 2 = shape m then Inr (plain_shares m, ())
       else Inl (Raised ''shape'')),
     lib_dot_mul = (\<lambda>A B rt. Inr (plain_shares (map2_mat (*) (open_shares A) (open_shares B)), ())),
     lib_mul = (\<lambda>A B rt. Inl (Raised ''matrix product'')),
     lib_reveal = (\<lambda>S to rt. Inr (open_shares S, ()))\<rparr>"

lemma plain_shares_sharing:
  assumes "mat_ok m" shows "sharing (plain_shares m) m"
proof -
  have "map2_mat (+) (map2_mat (+) m (zero_mat m)) (zero_mat m) = m"
    by (rule mat_eqI) (use assms in \<open>simp_all add: zero_mat_def map2_mat_ok\<close>)
  then show ?thesis using assms by (simp add: sharing_def plain_shares_def zero_mat_def)
qed

lemma sharing_ok: "sharing S x \<Longrightarrow> mat_ok x"
  using sharingD [of S x] map2_mat_ok by (metis shape_map2_mat)

lemma sharing_open: "sharing S x \<Longrightarrow> open_shares S = x"
  using sharingD(10) by (simp add: open_shares_def)

lemma aby3_ok_ref: "aby3_ok lib_ref"
  unfolding aby3_ok_def
proof (intro conjI allI impI)
  fix owner rt and m :: mat and dest :: "nat \<Rightarrow> nat \<times> nat"
  assume "mat_ok m" "\<forall>p \<in> {0, 1, 2}. dest p = shape m"
  then show "\<exists>S rt'. lib_local_int lib_ref owner m dest rt = Inr (S, rt') \<and> sharing S m"
    by (simp add: lib_ref_def plain_shares_sharing)
next
  fix A B x y rt assume "sharing A x" "sharing B y" "shape x = shape y"
  then show "\<exists>S rt'. lib_dot_mul lib_ref A B rt = Inr (S, rt') \<and> sharing S (map2_mat (*) x y)"
    by (simp add: lib_ref_def sharing_open plain_shares_sharing sharing_ok map2_mat_ok)
next
  fix S x to rt assume "sharing S x"
  then show "\<exists>rt'. lib_reveal lib_ref S to rt = Inr (x, rt')" by (simp add: lib_ref_def sharing_open)
qed (simp_all add: lib_ref_def)

section \<open>Properties\<close>

text \<open>
  C8. Arithmetic on shares: on replicated shares of \<open>x\<close> and of matrices of the same shape, the local
  operations give replicated shares of the results modulo \<open>2 ^ 64\<close>: the sum and the difference over a
  vector of shared matrices, adding a constant, subtracting it, subtracting from it, and multiplying
  by it. Only one party's part changes with a constant, and its two holders stay consistent.
\<close>

theorem mpc_linear_operations:
  assumes "aby3_ok L" "sharing A x" "length Bs = length ys"
    and "\<forall>i < length Bs. sharing (Bs ! i) (ys ! i) \<and> shape (ys ! i) = shape x"
  shows "(\<exists>R. (\<forall>p. MPC_Add L (A p # map (\<lambda>B. B p) Bs) = Inr (R p)) \<and> sharing R (foldl (map2_mat (+)) x ys)) \<and>
    sharing (\<lambda>p. MPC_Sub L (A p) (map (\<lambda>B. B p) Bs)) (foldl (map2_mat (-)) x ys) \<and>
    sharing (\<lambda>p. MPC_Add_Const p c (A p)) (map_mat (\<lambda>v. v + c) x) \<and>
    sharing (\<lambda>p. MPC_Sub_Const p c (A p) True) (map_mat (\<lambda>v. v - c) x) \<and>
    sharing (\<lambda>p. MPC_Sub_Const p c (A p) False) (map_mat (\<lambda>v. c - v) x) \<and>
    sharing (\<lambda>p. MPC_Mul_Const L c (A p)) (map_mat ((*) c) x)"
proof -
  note f = foldl_shares [OF assms(1-3)]
  have "\<exists>R. (\<forall>p. MPC_Add L (A p # map (\<lambda>B. B p) Bs) = Inr (R p)) \<and> sharing R (foldl (map2_mat (+)) x ys)"
    using f(1) assms(4)
    by (intro exI [of _ "\<lambda>p. foldl (lib_add L) (A p) (map (\<lambda>B. B p) Bs)"]) (simp add: MPC_Add_def)
  then show ?thesis
    using f(2) assms(4) sharing_add_const [OF assms(2)] sharing_sub_const [OF assms(2)]
      sharing_mul_const [OF assms(1,2)] by (simp add: MPC_Sub_def)
qed

theorem mpc_linear_operations_witness:
  "(let m = \<lparr>m_rows = 2, m_cols = 1, m_data = [3, 4]\<rparr>; n = \<lparr>m_rows = 2, m_cols = 1, m_data = [10, 20]\<rparr> in
    sharing (\<lambda>p. MPC_Sub lib_ref (plain_shares m p) [plain_shares n p]) \<lparr>m_rows = 2, m_cols = 1, m_data = [-7, -16]\<rparr> \<and>
    sharing (\<lambda>p. MPC_Sub_Const p 1 (plain_shares m p) False) \<lparr>m_rows = 2, m_cols = 1, m_data = [-2, -3]\<rparr>)"
proof -
  let ?m = "\<lparr>m_rows = 2, m_cols = 1, m_data = [3, 4]\<rparr> :: mat" and ?n = "\<lparr>m_rows = 2, m_cols = 1, m_data = [10, 20]\<rparr> :: mat"
  have "sharing (plain_shares ?m) ?m" "sharing (plain_shares ?n) ?n"
    by (simp_all add: plain_shares_sharing mat_ok_def)
  with mpc_linear_operations [OF aby3_ok_ref, of "plain_shares ?m" ?m "[plain_shares ?n]" "[?n]" 1]
  show ?thesis by (simp add: Let_def shape_def map2_mat_def map_mat_def)
qed

text \<open>
  The scalar operations with a constant agree with the matrix ones: they turn replicated shares
  of \<open>x\<close> into shares of \<open>x + c\<close>, \<open>x - c\<close> and \<open>c - x\<close>.
\<close>

theorem mpc_scalar_constants:
  assumes "sharing1 S x"
  shows "sharing1 (\<lambda>p. MPC_Add_Const1 p c (S p)) (x + c) \<and>
    sharing1 (\<lambda>p. MPC_Sub_Const1 p c (S p) True) (x - c) \<and>
    sharing1 (\<lambda>p. MPC_Sub_Const1 p c (S p) False) (c - x)"
  using assms by (simp add: sharing1_def MPC_Add_Const1_def MPC_Sub_Const1_def Let_def)

theorem mpc_scalar_constants_witness:
  "sharing1 (\<lambda>p. MPC_Sub_Const1 p 10 (\<lparr>sh0 = word_of_nat p, sh1 = word_of_nat ((p + 2) mod 3)\<rparr>) False) 7"
proof -
  have "sharing1 (\<lambda>p. \<lparr>sh0 = word_of_nat p, sh1 = word_of_nat ((p + 2) mod 3)\<rparr>) 3" by (simp add: sharing1_def)
  from mpc_scalar_constants [OF this, of 10] show ?thesis by simp
qed

end
