(* ===== verification/Mpc_Executor.thy ===== *)
theory Mpc_Executor
  imports Local_Executor Aby3_Operator
begin

text \<open>
  \<^verbatim>\<open>MPCExpressExecutor\<close> of \<^verbatim>\<open>executor/express.cc\<close> in integer mode. The three parties run the same program
  in lockstep, so a run is modelled for all of them at once: a value is a function from the party
  index to the \<^verbatim>\<open>TokenValue\<close> that party holds, a column is a vector at its owner and \<open>RemoteCol\<close> at the
  others. Parties that disagree on what to do next (different expressions, different kinds of value)
  would wait for each other; such runs are reported as undefined. The operations of the
  floating-point mode are the parameter \<open>fp_app\<close> of the loop.
\<close>

type_synonym 'd tval = "('d, si64Matrix, si64Matrix) TokenValue"
type_synonym 'd exec = "('d, si64Matrix, si64Matrix) MPCExpressExecutor"

section \<open>Token values\<close>

definition createTokenValue :: "'d fp_ops \<Rightarrow> 'd exec \<Rightarrow> string \<Rightarrow> (int + 'd tval) res" where
  "createTokenValue F ex token =
     (case (case map_of (token_type_map ex) token of Some t \<Rightarrow> t | None \<Rightarrow> COLUMN) of
        COLUMN \<Rightarrow>
          bindR (deref (col_config ex)) (\<lambda>cfg.
          bindR (getColumnLocality token cfg) (\<lambda>is_local.
            if \<not> is_local then Inr (Inr RemoteCol)
            else bindR (deref (feed_dict ex)) (\<lambda>fd.
              if fp64_run ex then
                bindR (getColumnValues_fp64 cfg token fd) (\<lambda>r.
                  Inr (case r of Inl code \<Rightarrow> Inl (-2) | Inr v \<Rightarrow> Inr (FP64Vec v)))
              else
                bindR (getColumnValues_i64 cfg token fd) (\<lambda>r.
                  Inr (case r of Inl code \<Rightarrow> Inl (-2) | Inr v \<Rightarrow> Inr (I64Vec v))))))
      | VALUE \<Rightarrow>
          if fp64_run ex then bindR (fp_stod F token) (\<lambda>d. Inr (Inr (FP64Val d)))
          else bindR (atol token) (\<lambda>n. Inr (Inr (I64Val n))))"

text \<open>The step at all parties; a code other than 0 at one of them ends the run with that code.\<close>

definition createTokenValues :: "'d fp_ops \<Rightarrow> (nat \<Rightarrow> 'd exec) \<Rightarrow> string \<Rightarrow> (int + (nat \<Rightarrow> 'd tval)) res" where
  "createTokenValues F exs token =
     bindR (par3 (\<lambda>p. createTokenValue F (exs p) token)) (\<lambda>r.
       case (r 0, r 1, r 2) of
         (Inr a, Inr b, Inr c) \<Rightarrow> Inr (Inr (\<lambda>p. if p = 0 then a else if p = 1 then b else c))
       | _ \<Rightarrow> Inr (Inl (-2)))"

text \<open>
  \<^verbatim>\<open>constructI64Matrix\<close>. For a constant it reads the \<^verbatim>\<open>double\<close> member of the union, which is not the one
  that was set; no caller passes a constant.
\<close>

fun constructI64Matrix :: "'d tval \<Rightarrow> mat res" where
  "constructI64Matrix (I64Vec v) = Inr \<lparr>m_rows = length v, m_cols = 1, m_data = v\<rparr>"
| "constructI64Matrix _ = Inl (Undefined ''union member not set'')"

fun is_input :: "'d tval \<Rightarrow> bool" where
  "is_input (I64Vec v) = True"
| "is_input RemoteCol = True"
| "is_input _ = False"

text \<open>\<^verbatim>\<open>createI64Shares\<close> at all parties: the one that has the column inputs it, the others receive.\<close>

definition createI64Shares ::
  "'rt aby3_lib \<Rightarrow> (nat \<Rightarrow> nat) \<Rightarrow> (nat \<Rightarrow> 'd tval) \<Rightarrow> 'rt \<Rightarrow> ((nat \<Rightarrow> si64Matrix) \<times> 'rt) res" where
  "createI64Shares L cnt val rt =
     (case filter (\<lambda>p. \<not> (case val p of RemoteCol \<Rightarrow> True | _ \<Rightarrow> False)) [0, 1, 2] of
        [p] \<Rightarrow> bindR (constructI64Matrix (val p)) (\<lambda>m. createShares L p m (\<lambda>q. (cnt q, 1)) rt)
      | _ \<Rightarrow> Inl (Undefined ''not exactly one party inputs the column''))"

section \<open>Operations\<close>

text \<open>
  The operand of an operation: shares made from a column or held already, or a constant. Every
  operation first asks the feed dictionary for the common length of the columns.
\<close>

datatype loaded = LShares "nat \<Rightarrow> si64Matrix" | LConst "nat \<Rightarrow> i64"

definition load_i64 ::
  "'rt aby3_lib \<Rightarrow> (nat \<Rightarrow> nat) \<Rightarrow> (nat \<Rightarrow> 'd tval) \<Rightarrow> 'rt \<Rightarrow> (loaded \<times> 'rt) res" where
  "load_i64 L cnt val rt =
     (if is_input (val 0) \<and> is_input (val 1) \<and> is_input (val 2)
      then bindR (createI64Shares L cnt val rt) (\<lambda>(S, rt'). Inr (LShares S, rt'))
      else case (val 0, val 1, val 2) of
        (I64Val a, I64Val b, I64Val c) \<Rightarrow> Inr (LConst (\<lambda>p. if p = 0 then a else if p = 1 then b else c), rt)
      | (ShI64 a, ShI64 b, ShI64 c) \<Rightarrow> Inr (LShares (\<lambda>p. if p = 0 then a else if p = 1 then b else c), rt)
      | _ \<Rightarrow> Inl (Undefined ''union member not set''))"

definition load_both ::
  "'rt aby3_lib \<Rightarrow> (nat \<Rightarrow> nat) res \<Rightarrow> (nat \<Rightarrow> 'd tval) \<Rightarrow> (nat \<Rightarrow> 'd tval) \<Rightarrow> 'rt \<Rightarrow>
     ((loaded \<times> loaded) \<times> 'rt) res" where
  "load_both L counts val1 val2 rt =
     bindR counts (\<lambda>cnt.
     bindR (load_i64 L cnt val1 rt) (\<lambda>(a, rt1). bindR (load_i64 L cnt val2 rt1) (\<lambda>(b, rt2).
       Inr ((a, b), rt2))))"

definition runMPCAddI64 ::
  "'rt aby3_lib \<Rightarrow> (nat \<Rightarrow> nat) res \<Rightarrow> (nat \<Rightarrow> 'd tval) \<Rightarrow> (nat \<Rightarrow> 'd tval) \<Rightarrow> 'rt \<Rightarrow> ((nat \<Rightarrow> 'd tval) \<times> 'rt) res" where
  "runMPCAddI64 L counts val1 val2 rt =
     bindR (load_both L counts val1 val2 rt) (\<lambda>(ab, rt').
       case ab of
         (LShares A, LShares B) \<Rightarrow>
           bindR (par3 (\<lambda>p. MPC_Add L [A p, B p])) (\<lambda>R. Inr (\<lambda>p. ShI64 (R p), rt'))
       | (LConst c, LShares B) \<Rightarrow> Inr (\<lambda>p. ShI64 (MPC_Add_Const p (c p) (B p)), rt')
       | (LShares A, LConst c) \<Rightarrow> Inr (\<lambda>p. ShI64 (MPC_Add_Const p (c p) (A p)), rt')
       | _ \<Rightarrow> Inl (Undefined ''null pointer''))"

definition runMPCSubI64 ::
  "'rt aby3_lib \<Rightarrow> (nat \<Rightarrow> nat) res \<Rightarrow> (nat \<Rightarrow> 'd tval) \<Rightarrow> (nat \<Rightarrow> 'd tval) \<Rightarrow> 'rt \<Rightarrow> ((nat \<Rightarrow> 'd tval) \<times> 'rt) res" where
  "runMPCSubI64 L counts val1 val2 rt =
     bindR (load_both L counts val1 val2 rt) (\<lambda>(ab, rt').
       case ab of
         (LShares A, LShares B) \<Rightarrow> Inr (\<lambda>p. ShI64 (MPC_Sub L (A p) [B p]), rt')
       | (LConst c, LShares B) \<Rightarrow> Inr (\<lambda>p. ShI64 (MPC_Sub_Const p (c p) (B p) False), rt')
       | (LShares A, LConst c) \<Rightarrow> Inr (\<lambda>p. ShI64 (MPC_Sub_Const p (c p) (A p) True), rt')
       | _ \<Rightarrow> Inl (Undefined ''null pointer''))"

definition runMPCMulI64 ::
  "'rt aby3_lib \<Rightarrow> (nat \<Rightarrow> nat) res \<Rightarrow> (nat \<Rightarrow> 'd tval) \<Rightarrow> (nat \<Rightarrow> 'd tval) \<Rightarrow> 'rt \<Rightarrow> ((nat \<Rightarrow> 'd tval) \<times> 'rt) res" where
  "runMPCMulI64 L counts val1 val2 rt =
     bindR (load_both L counts val1 val2 rt) (\<lambda>(ab, rt').
       case ab of
         (LShares A, LShares B) \<Rightarrow>
           bindR (MPC_Dot_Mul L A B rt') (\<lambda>(R, rt''). Inr (\<lambda>p. ShI64 (R p), rt''))
       | (LConst c, LShares B) \<Rightarrow> Inr (\<lambda>p. ShI64 (MPC_Mul_Const L (c p) (B p)), rt')
       | (LShares A, LConst c) \<Rightarrow> Inr (\<lambda>p. ShI64 (MPC_Mul_Const L (c p) (A p)), rt')
       | _ \<Rightarrow> Inl (Undefined ''null pointer''))"

type_synonym ('d, 'rt) joint_op = "(nat \<Rightarrow> 'd tval) \<Rightarrow> (nat \<Rightarrow> 'd tval) \<Rightarrow> 'rt \<Rightarrow> ((nat \<Rightarrow> 'd tval) \<times> 'rt) res"

definition mpc_apply ::
  "'rt aby3_lib \<Rightarrow> (nat \<Rightarrow> nat) res \<Rightarrow> (string \<Rightarrow> ('d, 'rt) joint_op) \<Rightarrow> bool \<Rightarrow> string \<Rightarrow> ('d, 'rt) joint_op" where
  "mpc_apply L counts fp_app fp token val1 val2 rt =
     (if fp \<or> token = ''/'' then fp_app token val1 val2 rt
      else if token = ''+'' then runMPCAddI64 L counts val1 val2 rt
      else if token = ''-'' then runMPCSubI64 L counts val1 val2 rt
      else runMPCMulI64 L counts val1 val2 rt)"

section \<open>The run\<close>

definition feed_counts :: "(nat \<Rightarrow> 'd exec) \<Rightarrow> (nat \<Rightarrow> nat) res" where
  "feed_counts exs = par3 (\<lambda>p. bindR (deref (feed_dict (exs p))) (\<lambda>fd. Inr (unat (getColumnValuesCount fd))))"

text \<open>The state of party \<open>p\<close> after the loop: its component of every value that was filed.\<close>

definition mpc_put :: "(nat \<Rightarrow> 'd exec) \<Rightarrow> string list \<Rightarrow> (nat \<Rightarrow> 'd tval) std_map \<Rightarrow> nat \<Rightarrow> 'd exec" where
  "mpc_put exs suffix tvm p = (exs p)\<lparr>suffix_stk := suffix,
     token_val_map := map (\<lambda>(k, v). (k, v p)) tvm @
       filter (\<lambda>e. map_of tvm (fst e) = None) (token_val_map (exs p))\<rparr>"

text \<open>
  \<^verbatim>\<open>runMPCEvaluate\<close> at all parties. The suffix stack and the mode must be the same everywhere.
\<close>

definition runMPCEvaluate ::
  "'rt aby3_lib \<Rightarrow> 'd fp_ops \<Rightarrow> (string \<Rightarrow> ('d, 'rt) joint_op) \<Rightarrow> (nat \<Rightarrow> 'd exec) \<Rightarrow> 'rt \<Rightarrow>
     ((nat \<Rightarrow> 'd exec) \<times> int \<times> 'rt) res" where
  "runMPCEvaluate L F fp_app exs rt =
     (if suffix_stk (exs 1) \<noteq> suffix_stk (exs 0) \<or> suffix_stk (exs 2) \<noteq> suffix_stk (exs 0) \<or>
        fp64_run (exs 1) \<noteq> fp64_run (exs 0) \<or> fp64_run (exs 2) \<noteq> fp64_run (exs 0)
      then Inl (Undefined ''parties run different expressions'')
      else
        bindR (eval_loop (createTokenValues F exs) (mpc_apply L (feed_counts exs) fp_app (fp64_run (exs 0)))
            (suffix_stk (exs 0)) [] [] [] rt) (\<lambda>out.
          if eo_ret out \<noteq> 0 then Inr (mpc_put exs (eo_suffix out) (eo_map out), -1, eo_rt out)
          else Inr (mpc_put exs (rev (eo_stk1 out)) (eo_map out), 0, eo_rt out)))"

definition first_column :: "mat \<Rightarrow> i64 list" where
  "first_column m = map (\<lambda>i. m_data m ! (i * m_cols m)) [0..<m_rows m]"

text \<open>
  \<^verbatim>\<open>revealMPCResult\<close> for integers: the value filed under the final token is revealed to each party of
  the list in turn, which appends it to its vector.
\<close>

fun reveal_loop ::
  "'rt aby3_lib \<Rightarrow> (nat \<Rightarrow> si64Matrix) \<Rightarrow> nat list \<Rightarrow> (nat \<Rightarrow> i64 list) \<Rightarrow> 'rt \<Rightarrow> ((nat \<Rightarrow> i64 list) \<times> 'rt) res" where
  "reveal_loop L S [] vecs rt = Inr (vecs, rt)"
| "reveal_loop L S (to # parties) vecs rt =
     bindR (reveal L S to rt) (\<lambda>(m, rt'). reveal_loop L S parties (vecs(to := vecs to @ first_column m)) rt')"

definition final_share :: "'d exec \<Rightarrow> ('d exec \<times> si64Matrix) res" where
  "final_share ex =
     (case suffix_stk ex of
        [] \<Rightarrow> Inl (Undefined ''top of an empty stack'')
      | final_token # rest \<Rightarrow>
          (case map_of (token_val_map ex) final_token of
             Some (ShI64 s) \<Rightarrow> Inr (ex\<lparr>suffix_stk := rest\<rparr>, s)
           | _ \<Rightarrow> Inl (Undefined ''union member not set'')))"

definition revealMPCResult ::
  "'rt aby3_lib \<Rightarrow> (nat \<Rightarrow> 'd exec) \<Rightarrow> nat list \<Rightarrow> (nat \<Rightarrow> i64 list) \<Rightarrow> 'rt \<Rightarrow>
     ((nat \<Rightarrow> 'd exec) \<times> (nat \<Rightarrow> i64 list) \<times> 'rt) res" where
  "revealMPCResult L exs parties vecs rt =
     bindR (par3 (\<lambda>p. final_share (exs p))) (\<lambda>r.
     bindR (reveal_loop L (\<lambda>p. snd (r p)) parties vecs rt) (\<lambda>(vecs', rt').
       Inr (\<lambda>p. fst (r p), vecs', rt')))"

section \<open>Shares of columns\<close>

definition column :: "i64 list \<Rightarrow> mat" where
  "column xs = \<lparr>m_rows = length xs, m_cols = 1, m_data = xs\<rparr>"

lemma column_props [simp]:
  "mat_ok (column xs)" "shape (column xs) = (length xs, 1)" "first_column (column xs) = xs"
  "map_mat f (column xs) = column (map f xs)"
  "length xs = length ys \<Longrightarrow> map2_mat h (column xs) (column ys) = column (map2 h xs ys)"
  by (simp_all add: column_def mat_ok_def shape_def first_column_def map_mat_def map2_mat_def map_nth)

text \<open>What a value held jointly means: the vector of a column or of shares, or a constant.\<close>

definition input_column :: "(nat \<Rightarrow> 'd tval) \<Rightarrow> i64 list option" where
  "input_column v =
     (case (v 0, v 1, v 2) of
        (I64Vec xs, RemoteCol, RemoteCol) \<Rightarrow> Some xs
      | (RemoteCol, I64Vec xs, RemoteCol) \<Rightarrow> Some xs
      | (RemoteCol, RemoteCol, I64Vec xs) \<Rightarrow> Some xs
      | _ \<Rightarrow> None)"

definition joint_rel :: "(nat \<Rightarrow> nat) \<Rightarrow> (nat \<Rightarrow> 'd tval) \<Rightarrow> i64 operand \<Rightarrow> bool" where
  "joint_rel cnt v m \<longleftrightarrow>
     (\<exists>xs. m = Vec xs \<and> input_column v = Some xs \<and> cnt 0 = length xs \<and> cnt 1 = length xs \<and> cnt 2 = length xs) \<or>
     (\<exists>xs S. m = Vec xs \<and> sharing S (column xs) \<and> v 0 = ShI64 (S 0) \<and> v 1 = ShI64 (S 1) \<and> v 2 = ShI64 (S 2)) \<or>
     (\<exists>c. m = Const c \<and> v 0 = I64Val c \<and> v 1 = I64Val c \<and> v 2 = I64Val c)"

definition joint_value :: "(nat \<Rightarrow> nat) \<Rightarrow> (nat \<Rightarrow> 'd tval) \<Rightarrow> i64 operand option" where
  "joint_value cnt v =
     (case input_column v of
        Some xs \<Rightarrow>
          if cnt 0 = length xs \<and> cnt 1 = length xs \<and> cnt 2 = length xs then Some (Vec xs) else None
      | None \<Rightarrow>
          (case (v 0, v 1, v 2) of
             (I64Val a, I64Val b, I64Val c) \<Rightarrow> if a = b \<and> b = c then Some (Const a) else None
           | _ \<Rightarrow> None))"

definition joint_leaf ::
  "'d fp_ops \<Rightarrow> (nat \<Rightarrow> 'd exec) \<Rightarrow> (nat \<Rightarrow> nat) \<Rightarrow> string \<Rightarrow> i64 operand option" where
  "joint_leaf F exs cnt s =
     (case createTokenValues F exs s of Inr (Inr v) \<Rightarrow> joint_value cnt v | _ \<Rightarrow> None)"

lemma joint_value_rel: "joint_value cnt v = Some m \<Longrightarrow> joint_rel cnt v m"
proof (cases "input_column v")
  case None
  assume "joint_value cnt v = Some m"
  with None show ?thesis by (auto simp: joint_value_def joint_rel_def split: TokenValue.splits if_splits)
next
  case (Some xs)
  assume "joint_value cnt v = Some m"
  with Some show ?thesis by (auto simp: joint_value_def joint_rel_def split: if_splits)
qed

lemma sharing_cong: "S 0 = T 0 \<Longrightarrow> S 1 = T 1 \<Longrightarrow> S 2 = T 2 \<Longrightarrow> sharing S x = sharing T x"
  by (simp add: sharing_def)

section \<open>Each operation computes on the joint values\<close>

text \<open>What loading an operand of meaning \<open>m\<close> yields.\<close>

definition loads :: "loaded \<Rightarrow> i64 operand \<Rightarrow> bool" where
  "loads l m \<longleftrightarrow>
     (case (l, m) of
        (LShares S, Vec xs) \<Rightarrow> sharing S (column xs)
      | (LConst k, Const c) \<Rightarrow> k 0 = c \<and> k 1 = c \<and> k 2 = c
      | _ \<Rightarrow> False)"

lemma load_input:
  assumes "aby3_ok L" "input_column v = Some xs" "cnt 0 = length xs" "cnt 1 = length xs" "cnt 2 = length xs"
  shows "\<exists>S rt'. load_i64 L cnt v rt = Inr (LShares S, rt') \<and> sharing S (column xs)"
proof -
  let ?dest = "\<lambda>q. (cnt q, 1 :: nat)"
  have "\<exists>S rt'. lib_local_int L p (column xs) ?dest rt = Inr (S, rt') \<and> sharing S (column xs)"
    if "p < 3" for p
    by (rule lib_local [OF assms(1) that]) (use assms(3-5) in simp_all)
  then have loc: "\<exists>S rt'. lib_local_int L p \<lparr>m_rows = length xs, m_cols = 1, m_data = xs\<rparr> ?dest rt = Inr (S, rt') \<and>
      sharing S (column xs)" if "p < 3" for p
    using that by (simp add: column_def)
  show ?thesis
    using assms(2) loc [of 0] loc [of 1] loc [of 2]
    by (auto simp: input_column_def load_i64_def createI64Shares_def createShares_def
        split: TokenValue.splits)
qed

lemma load_joint:
  assumes "aby3_ok L" "joint_rel cnt v m"
  shows "\<exists>l rt'. load_i64 L cnt v rt = Inr (l, rt') \<and> loads l m"
proof -
  from assms(2) consider xs where "m = Vec xs" "input_column v = Some xs" "cnt 0 = length xs"
      "cnt 1 = length xs" "cnt 2 = length xs"
    | xs S where "m = Vec xs" "sharing S (column xs)" "v 0 = ShI64 (S 0)" "v 1 = ShI64 (S 1)" "v 2 = ShI64 (S 2)"
    | c where "m = Const c" "v 0 = I64Val c" "v 1 = I64Val c" "v 2 = I64Val c"
    unfolding joint_rel_def by blast
  then show ?thesis
  proof cases
    case 1
    then show ?thesis using load_input [OF assms(1) 1(2-5), of rt] by (fastforce simp: loads_def)
  next
    case (2 xs S)
    have "sharing (\<lambda>p. if p = 0 then S 0 else if p = 1 then S 1 else S 2) (column xs)"
      using 2(2) sharing_cong [of S "\<lambda>p. if p = 0 then S 0 else if p = 1 then S 1 else S 2"] by simp
    with 2 show ?thesis by (simp add: load_i64_def loads_def del: One_nat_def)
  next
    case 3
    then show ?thesis by (simp add: load_i64_def loads_def)
  qed
qed

lemma load_both_joint:
  assumes "aby3_ok L" "joint_rel cnt v1 m1" "joint_rel cnt v2 m2"
  shows "\<exists>a b rt'. load_both L (Inr cnt) v1 v2 rt = Inr ((a, b), rt') \<and> loads a m1 \<and> loads b m2"
proof -
  obtain a rt1 where a: "load_i64 L cnt v1 rt = Inr (a, rt1)" "loads a m1"
    using load_joint [OF assms(1,2), of rt] by blast
  obtain b rt2 where "load_i64 L cnt v2 rt1 = Inr (b, rt2)" "loads b m2"
    using load_joint [OF assms(1,3), of rt1] by blast
  with a show ?thesis by (simp add: load_both_def)
qed

lemma joint_relI_shares: "sharing S (column xs) \<Longrightarrow> joint_rel cnt (\<lambda>p. ShI64 (S p)) (Vec xs)"
  unfolding joint_rel_def by blast

lemma loads_cases:
  assumes "loads a m1" "loads b m2" "row_meaning (f, g) m1 m2 = Some m"
  obtains A xs B ys where "a = LShares A" "b = LShares B" "sharing A (column xs)" "sharing B (column ys)"
      "length xs = length ys" "m1 = Vec xs" "m2 = Vec ys" "m = Vec (map2 f xs ys)"
    | k c B ys where "a = LConst k" "b = LShares B" "k 0 = c" "k 1 = c" "k 2 = c" "sharing B (column ys)"
      "m = Vec (map (f c) ys)"
    | k c A xs where "a = LShares A" "b = LConst k" "k 0 = c" "k 1 = c" "k 2 = c" "sharing A (column xs)"
      "m = Vec (map (\<lambda>x. g x c) xs)"
  using assms by (cases a; cases b; cases m1; cases m2) (auto simp: loads_def row_meaning_def split: if_splits)

lemma sharing_column_eq: "sharing S x \<Longrightarrow> x = column xs \<Longrightarrow> sharing S (column xs)"
  by simp

lemma add_joint:
  assumes "aby3_ok L" "loads a m1" "loads b m2" "row_meaning ((+), \<lambda>x c. c + x) m1 m2 = Some m"
    and "load_both L (Inr cnt) v1 v2 rt = Inr ((a, b), rt')"
  shows "\<exists>S xs rt'. runMPCAddI64 L (Inr cnt) v1 v2 rt = Inr (\<lambda>p. ShI64 (S p), rt') \<and> m = Vec xs \<and>
    sharing S (column xs)"
  using assms(2-4)
proof (cases rule: loads_cases)
  case (1 A xs B ys)
  let ?R = "\<lambda>p::nat. if p = 0 then lib_add L (A 0) (B 0) else if p = 1 then lib_add L (A 1) (B 1) else lib_add L (A 2) (B 2)"
  have "sharing (\<lambda>p. lib_add L (A p) (B p)) (column (map2 (+) xs ys))"
    using share_add [OF assms(1) 1(3,4)] 1(5) by simp
  then have "sharing ?R (column (map2 (+) xs ys))"
    using sharing_cong [of "\<lambda>p. lib_add L (A p) (B p)" ?R] by simp
  moreover have "runMPCAddI64 L (Inr cnt) v1 v2 rt = Inr (\<lambda>p. ShI64 (?R p), rt')"
    using 1(1,2) assms(5) by (simp add: runMPCAddI64_def MPC_Add_def par3_def del: One_nat_def)
  ultimately show ?thesis using 1(8)
    by (intro exI [of _ ?R] exI [of _ "map2 (+) xs ys"] exI [of _ rt']) simp
next
  case (2 k c B ys)
  have "sharing (\<lambda>p. MPC_Add_Const p (k p) (B p)) (column (map (\<lambda>v. v + c) ys))"
    using sharing_add_const [OF 2(6), of c] 2(3-5)
      sharing_cong [of "\<lambda>p. MPC_Add_Const p c (B p)" "\<lambda>p. MPC_Add_Const p (k p) (B p)"] by simp
  moreover have plus: "(+) c = (\<lambda>v. v + c)" by (simp add: fun_eq_iff add.commute)
  ultimately show ?thesis using 2(1,2) 2(7) [unfolded plus] assms(5)
    by (intro exI [of _ "\<lambda>p. MPC_Add_Const p (k p) (B p)"]) (simp add: runMPCAddI64_def)
next
  case (3 k c A xs)
  have "sharing (\<lambda>p. MPC_Add_Const p (k p) (A p)) (column (map (\<lambda>v. v + c) xs))"
    using sharing_add_const [OF 3(6), of c] 3(3-5)
      sharing_cong [of "\<lambda>p. MPC_Add_Const p c (A p)" "\<lambda>p. MPC_Add_Const p (k p) (A p)"] by simp
  moreover have plus: "(+) c = (\<lambda>v. v + c)" by (simp add: fun_eq_iff add.commute)
  ultimately show ?thesis using 3(1,2) 3(7) [unfolded plus] assms(5)
    by (intro exI [of _ "\<lambda>p. MPC_Add_Const p (k p) (A p)"]) (simp add: runMPCAddI64_def)
qed

lemma sub_joint:
  assumes "aby3_ok L" "loads a m1" "loads b m2" "row_meaning ((-), (-)) m1 m2 = Some m"
    and "load_both L (Inr cnt) v1 v2 rt = Inr ((a, b), rt')"
  shows "\<exists>S xs rt'. runMPCSubI64 L (Inr cnt) v1 v2 rt = Inr (\<lambda>p. ShI64 (S p), rt') \<and> m = Vec xs \<and>
    sharing S (column xs)"
  using assms(2-4)
proof (cases rule: loads_cases)
  case (1 A xs B ys)
  have "sharing (\<lambda>p. MPC_Sub L (A p) [B p]) (column (map2 (-) xs ys))"
    using share_sub [OF assms(1) 1(3,4)] 1(5) by (simp add: MPC_Sub_def)
  then show ?thesis using 1(1,2,8) assms(5)
    by (intro exI [of _ "\<lambda>p. MPC_Sub L (A p) [B p]"]) (simp add: runMPCSubI64_def)
next
  case (2 k c B ys)
  have "sharing (\<lambda>p. MPC_Sub_Const p (k p) (B p) False) (column (map ((-) c) ys))"
    using sharing_sub_const(2) [OF 2(6), of c] 2(3-5)
      sharing_cong [of "\<lambda>p. MPC_Sub_Const p c (B p) False" "\<lambda>p. MPC_Sub_Const p (k p) (B p) False"] by simp
  then show ?thesis using 2(1,2,7) assms(5)
    by (intro exI [of _ "\<lambda>p. MPC_Sub_Const p (k p) (B p) False"]) (simp add: runMPCSubI64_def)
next
  case (3 k c A xs)
  have "sharing (\<lambda>p. MPC_Sub_Const p (k p) (A p) True) (column (map (\<lambda>v. v - c) xs))"
    using sharing_sub_const(1) [OF 3(6), of c] 3(3-5)
      sharing_cong [of "\<lambda>p. MPC_Sub_Const p c (A p) True" "\<lambda>p. MPC_Sub_Const p (k p) (A p) True"] by simp
  then show ?thesis using 3(1,2,7) assms(5)
    by (intro exI [of _ "\<lambda>p. MPC_Sub_Const p (k p) (A p) True"]) (simp add: runMPCSubI64_def)
qed

lemma mul_joint:
  assumes "aby3_ok L" "loads a m1" "loads b m2" "row_meaning ((*), (*)) m1 m2 = Some m"
    and "load_both L (Inr cnt) v1 v2 rt = Inr ((a, b), rt')"
  shows "\<exists>S xs rt'. runMPCMulI64 L (Inr cnt) v1 v2 rt = Inr (\<lambda>p. ShI64 (S p), rt') \<and> m = Vec xs \<and>
    sharing S (column xs)"
  using assms(2-4)
proof (cases rule: loads_cases)
  case (1 A xs B ys)
  obtain R rt'' where "MPC_Dot_Mul L A B rt' = Inr (R, rt'')" "sharing R (column (map2 (*) xs ys))"
    using sharing_dot_mul [OF assms(1) 1(3,4), of rt'] 1(5) by auto
  then show ?thesis using 1(1,2,8) assms(5)
    by (intro exI [of _ R]) (simp add: runMPCMulI64_def)
next
  case (2 k c B ys)
  have "sharing (\<lambda>p. MPC_Mul_Const L (k p) (B p)) (column (map ((*) c) ys))"
    using sharing_mul_const [OF assms(1) 2(6), of c] 2(3-5)
      sharing_cong [of "\<lambda>p. MPC_Mul_Const L c (B p)" "\<lambda>p. MPC_Mul_Const L (k p) (B p)"] by simp
  then show ?thesis using 2(1,2,7) assms(5)
    by (intro exI [of _ "\<lambda>p. MPC_Mul_Const L (k p) (B p)"]) (simp add: runMPCMulI64_def)
next
  case (3 k c A xs)
  have "sharing (\<lambda>p. MPC_Mul_Const L (k p) (A p)) (column (map ((*) c) xs))"
    using sharing_mul_const [OF assms(1) 3(6), of c] 3(3-5)
      sharing_cong [of "\<lambda>p. MPC_Mul_Const L c (A p)" "\<lambda>p. MPC_Mul_Const L (k p) (A p)"] by simp
  moreover have "(\<lambda>x. x * c) = (*) c" by (simp add: fun_eq_iff mult.commute)
  ultimately show ?thesis using 3(1,2) 3(7) [unfolded \<open>(\<lambda>x. x * c) = (*) c\<close>] assms(5)
    by (intro exI [of _ "\<lambda>p. MPC_Mul_Const L (k p) (A p)"]) (simp add: runMPCMulI64_def)
qed

lemma mpc_apply_joint:
  assumes "aby3_ok L" "joint_rel cnt v1 m1" "joint_rel cnt v2 m2" "app_rows i64_op [c] m1 m2 = Some m"
  shows "\<exists>S xs rt'. mpc_apply L (Inr cnt) fp_app False [c] v1 v2 rt = Inr (\<lambda>p. ShI64 (S p), rt') \<and>
    m = Vec xs \<and> sharing S (column xs)"
proof -
  obtain a b rt' where l: "load_both L (Inr cnt) v1 v2 rt = Inr ((a, b), rt')" "loads a m1" "loads b m2"
    using load_both_joint [OF assms(1-3), of rt] by blast
  obtain fg where fg: "i64_op [c] = Some fg" "row_meaning fg m1 m2 = Some m" using assms(4) by (rule app_rowsE)
  then consider "[c] = ''+''" "fg = ((+), \<lambda>x c. c + x)" | "[c] = ''-''" "fg = ((-), (-))"
    | "[c] = ''*''" "fg = ((*), (*))"
    by (auto simp: i64_op_def split: if_splits)
  then show ?thesis
  proof cases
    case 1
    then show ?thesis using add_joint [OF assms(1) l(2,3) _ l(1)] fg(2) by (simp add: mpc_apply_def)
  next
    case 2
    then show ?thesis using sub_joint [OF assms(1) l(2,3) _ l(1)] fg(2) by (simp add: mpc_apply_def)
  next
    case 3
    then show ?thesis using mul_joint [OF assms(1) l(2,3) _ l(1)] fg(2) by (simp add: mpc_apply_def)
  qed
qed

text \<open>The joint run is a postfix machine whose meaning is that of the local run.\<close>

lemma mpc_machine:
  fixes F :: "'d fp_ops"
  assumes "aby3_ok L"
  shows "postfix_machine (createTokenValues F exs) (mpc_apply L (Inr cnt) fp_app False) (joint_rel cnt)
    (joint_leaf F exs cnt) (app_rows i64_op)"
proof unfold_locales
  fix s m assume *: "joint_leaf F exs cnt s = Some m"
  then obtain v where "createTokenValues F exs s = Inr (Inr v)" "joint_value cnt v = Some m"
    by (auto simp: joint_leaf_def split: sum.splits)
  then show "\<exists>v. createTokenValues F exs s = Inr (Inr v) \<and> joint_rel cnt v m"
    using joint_value_rel by blast
next
  fix c and v1 v2 :: "nat \<Rightarrow> 'd tval" and m1 m2 m rt
  assume "joint_rel cnt v1 m1" "joint_rel cnt v2 m2" "app_rows i64_op [c] m1 m2 = Some m"
  from mpc_apply_joint [OF assms this] joint_relI_shares
  show "\<exists>v rt'. mpc_apply L (Inr cnt) fp_app False [c] v1 v2 rt = Inr (v, rt') \<and> joint_rel cnt v m" by metis
qed

section \<open>A run on the columns of three parties\<close>

text \<open>
  The three parties are ready to evaluate \<open>e\<close> on the table \<open>kvs\<close>: same suffix stack, integer mode, all
  feed dictionaries filled with columns of length \<open>n\<close>, every column of the table known to all, local
  to one party and stored there.
\<close>

definition holds_column :: "'d exec \<Rightarrow> nat \<Rightarrow> nat \<Rightarrow> string \<Rightarrow> i64 list \<Rightarrow> bool" where
  "holds_column ex p owner k v \<longleftrightarrow>
     (case (col_config ex, feed_dict ex) of
        (Some cfg, Some fd) \<Rightarrow> getColumnLocality k cfg = Inr (p = owner) \<and>
          (p = owner \<longrightarrow> getColumnValues_i64 cfg k fd = Inr (Inr v))
      | _ \<Rightarrow> False)"

definition mpc_ready :: "ast \<Rightarrow> (string \<times> i64 list) list \<Rightarrow> nat \<Rightarrow> (nat \<Rightarrow> 'd exec) \<Rightarrow> bool" where
  "mpc_ready e kvs n exs \<longleftrightarrow>
     (\<forall>p \<in> {0, 1, 2}. suffix_stk (exs p) = postfix e \<and> \<not> fp64_run (exs p) \<and>
        VALUE \<notin> snd ` set (token_type_map (exs p)) \<and>
        (case feed_dict (exs p) of Some fd \<Rightarrow> unat (getColumnValuesCount fd) = n | None \<Rightarrow> False)) \<and>
     (\<forall>(k, v) \<in> set kvs. length v = n \<and>
        (\<exists>owner \<in> {0, 1, 2}. \<forall>p \<in> {0, 1, 2}. holds_column (exs p) p owner k v))"

lemma column_type:
  "VALUE \<notin> snd ` set m \<Longrightarrow> (case map_of m s of Some t \<Rightarrow> t | None \<Rightarrow> COLUMN) = COLUMN"
proof (cases "map_of m s")
  case (Some t)
  assume "VALUE \<notin> snd ` set m"
  moreover have "t \<in> snd ` set m" using Some by (force dest: map_of_SomeD)
  ultimately show ?thesis using Some by (cases t) auto
qed simp

lemma createTokenValue_column:
  assumes "VALUE \<notin> snd ` set (token_type_map ex)" "\<not> fp64_run ex" "holds_column ex p owner k v"
  shows "createTokenValue F ex k = Inr (Inr (if p = owner then I64Vec v else RemoteCol))"
  using assms(2,3) column_type [OF assms(1), of k]
  by (auto simp: createTokenValue_def holds_column_def split: option.splits)

lemma joint_leaf_column:
  assumes "mpc_ready e kvs n exs" "map_of kvs k = Some v" "cnt 0 = n" "cnt 1 = n" "cnt 2 = n"
  shows "joint_leaf F exs cnt k = Some (Vec v)"
proof -
  have kv: "(k, v) \<in> set kvs" using assms(2) by (rule map_of_SomeD)
  from bspec [OF conjunct2 [OF assms(1) [unfolded mpc_ready_def]] kv, unfolded prod.case]
  obtain owner where o: "length v = n" "owner \<in> {0, 1, 2}"
    "\<And>p. p \<in> {0, 1, 2} \<Longrightarrow> holds_column (exs p) p owner k v" by blast
  have c: "createTokenValue F (exs p) k = Inr (Inr (if p = owner then I64Vec v else RemoteCol))"
    if "p \<in> {0, 1, 2}" for p
    using bspec [OF conjunct1 [OF assms(1) [unfolded mpc_ready_def]] that] o(3) [OF that]
    by (intro createTokenValue_column) blast+
  show ?thesis
    using c [of 0] c [of 1] c [of 2] o(1,2) assms(3-5)
    by (auto simp: joint_leaf_def joint_value_def createTokenValues_def par3_def input_column_def)
qed

lemma map_of_mpc_put:
  "map_of tvm k = Some v \<Longrightarrow> map_of (token_val_map (mpc_put exs stk tvm p)) k = Some (v p)"
  by (simp add: mpc_put_def map_of_map map_add_def map_of_map [of "\<lambda>v. v p", simplified comp_def])

lemma reveal_loop_shares:
  assumes "aby3_ok L" "sharing S x" "\<forall>p \<in> set parties. p < 3"
  shows "distinct parties \<Longrightarrow> \<exists>vecs' rt'. reveal_loop L S parties vecs rt = Inr (vecs', rt') \<and>
    (\<forall>p. vecs' p = (if p \<in> set parties then vecs p @ first_column x else vecs p))"
  using assms(3)
proof (induction parties arbitrary: vecs rt)
  case (Cons to ps)
  have d: "distinct ps" "\<forall>p \<in> set ps. p < 3" using Cons.prems by auto
  obtain rt1 where "reveal L S to rt = Inr (x, rt1)"
    using lib_rev [OF assms(1,2), of to rt] Cons.prems by (auto simp: reveal_def)
  moreover obtain vecs' rt' where
    "reveal_loop L S ps (vecs(to := vecs to @ first_column x)) rt1 = Inr (vecs', rt')"
    "\<forall>p. vecs' p = (if p \<in> set ps then (vecs(to := vecs to @ first_column x)) p @ first_column x
       else (vecs(to := vecs to @ first_column x)) p)"
    using Cons.IH [OF d, of "vecs(to := vecs to @ first_column x)" rt1] by blast
  ultimately show ?case using Cons.prems by auto
qed simp

text \<open>The loop on an expression with at least one operator ends with shares of its value.\<close>

lemma mpc_loop_shares:
  assumes "aby3_ok L" "wf_ast (BinOp c l r)" "meaning (joint_leaf F exs cnt) (app_rows i64_op) (BinOp c l r) = Some m"
  shows "\<exists>S xs tvm rt'. m = Vec xs \<and> sharing S (column xs) \<and>
    map_of tvm (token_of (BinOp c l r)) = Some (\<lambda>p. ShI64 (S p)) \<and>
    eval_loop (createTokenValues F exs) (mpc_apply L (Inr cnt) fp_app False) (postfix (BinOp c l r)) [] [] [] rt =
      Inr \<lparr>eo_ret = 0, eo_suffix = [], eo_stk1 = [token_of (BinOp c l r)], eo_map = tvm, eo_rt = rt'\<rparr>"
proof -
  note loop = postfix_machine.loop_binop [OF mpc_machine [OF assms(1)] assms(2,3)]
  obtain vl vr ml mr rt1 v rt' tvm where b: "joint_rel cnt vl ml" "joint_rel cnt vr mr"
    "app_rows i64_op [c] ml mr = Some m" "mpc_apply L (Inr cnt) fp_app False [c] vl vr rt1 = Inr (v, rt')"
    "map_of tvm (token_of (BinOp c l r)) = Some v"
    "eval_loop (createTokenValues F exs) (mpc_apply L (Inr cnt) fp_app False) (postfix (BinOp c l r)) [] [] [] rt =
      Inr \<lparr>eo_ret = 0, eo_suffix = [], eo_stk1 = [token_of (BinOp c l r)], eo_map = tvm, eo_rt = rt'\<rparr>"
    using loop [of fp_app "[]" rt] by blast
  obtain S xs where "v = (\<lambda>p. ShI64 (S p))" "m = Vec xs" "sharing S (column xs)"
    using mpc_apply_joint [OF assms(1) b(1-3), of fp_app rt1] b(4) by auto
  with b(5,6) show ?thesis by blast
qed

text \<open>The whole run of parties that are ready, with what stays the same.\<close>

lemma ready_run:
  assumes "aby3_ok L" "wf_ast (BinOp c l r)" "on_columns kvs (dom i64_op) (BinOp c l r)"
    and "mpc_ready (BinOp c l r) kvs n exs" "distinct parties" "\<forall>p \<in> set parties. p < 3"
  shows "\<exists>exs' rt1 exs'' vecs rt2. runMPCEvaluate L F fp_app exs rt = Inr (exs', 0, rt1) \<and>
    fp64_run (exs' 0) = fp64_run (exs 0) \<and>
    revealMPCResult L exs' parties (\<lambda>_. []) rt1 = Inr (exs'', vecs, rt2) \<and>
    (\<forall>p \<in> set parties. length (vecs p) = n \<and> (\<forall>i < n.
      row_value i64_op (\<lambda>s. map_option (\<lambda>v. v ! i) (map_of kvs s)) (BinOp c l r) = Some (vecs p ! i)))"
proof -
  let ?e = "BinOp c l r" and ?cnt = "\<lambda>p::nat. n"
  note party = bspec [OF conjunct1 [OF assms(4) [unfolded mpc_ready_def]]]
  have counts: "\<exists>fd. feed_dict (exs p) = Some fd \<and> unat (getColumnValuesCount fd) = n" if "p \<in> {0, 1, 2}" for p
    using party [OF that] by (auto split: option.splits)
  have fc: "feed_counts exs = Inr ?cnt"
    using counts [of 0] counts [of 1] counts [of 2] by (auto simp: feed_counts_def par3_def fun_eq_iff)
  have leaf: "joint_leaf F exs ?cnt s = Some (Vec v)" if "map_of kvs s = Some v" for s v
    by (rule joint_leaf_column [OF assms(4) that]) simp_all
  have len: "\<forall>(k, v) \<in> set kvs. length v = n"
    using conjunct2 [OF assms(4) [unfolded mpc_ready_def]] by fast
  obtain v where v: "meaning (joint_leaf F exs ?cnt) (app_rows i64_op) ?e = Some (Vec v)" "length v = n"
    using on_columns_meaning [OF assms(3) len, of "joint_leaf F exs ?cnt"] leaf by blast
  obtain S tvm rt1 where S: "sharing S (column v)" "map_of tvm (token_of ?e) = Some (\<lambda>p. ShI64 (S p))"
    "eval_loop (createTokenValues F exs) (mpc_apply L (Inr ?cnt) fp_app False) (postfix ?e) [] [] [] rt =
      Inr \<lparr>eo_ret = 0, eo_suffix = [], eo_stk1 = [token_of ?e], eo_map = tvm, eo_rt = rt1\<rparr>"
    using mpc_loop_shares [OF assms(1,2) v(1)] by (metis operand.inject(1))
  let ?exs = "mpc_put exs [token_of ?e] tvm"
  have run: "runMPCEvaluate L F fp_app exs rt = Inr (?exs, 0, rt1)"
    using party [of 0] party [of 1] party [of 2] S(3) fc by (simp add: runMPCEvaluate_def)
  have "final_share (?exs p) = Inr ((?exs p)\<lparr>suffix_stk := []\<rparr>, S p)" for p
    using map_of_mpc_put [OF S(2), of exs "[token_of ?e]" p] by (simp add: final_share_def mpc_put_def)
  then obtain q where q: "par3 (\<lambda>p. final_share (?exs p)) = Inr q" "snd (q 0) = S 0" "snd (q 1) = S 1" "snd (q 2) = S 2"
    by (simp add: par3_def)
  have "sharing (\<lambda>p. snd (q p)) (column v)" using S(1) sharing_cong [of "\<lambda>p. snd (q p)" S] q by simp
  from reveal_loop_shares [OF assms(1) this assms(6,5), of "\<lambda>_. []" rt1] obtain vecs rt2 where
    "reveal_loop L (\<lambda>p. snd (q p)) parties (\<lambda>_. []) rt1 = Inr (vecs, rt2)" "\<And>p. p \<in> set parties \<Longrightarrow> vecs p = v"
    by auto
  moreover have "row_value i64_op (\<lambda>s. map_option (\<lambda>v. v ! i) (map_of kvs s)) ?e = Some (v ! i)" if "i < n" for i
    using meaning_by_row [OF v(1), of i "v ! i"] on_columns_value [OF assms(3) leaf len that] v(2) that
      snd_i64_op by simp
  moreover have "fp64_run (?exs 0) = fp64_run (exs 0)" by (simp add: mpc_put_def)
  ultimately show ?thesis using run q(1) v(2) by (auto simp: revealMPCResult_def)
qed

section \<open>Properties\<close>

text \<open>
  C2. Secure evaluation is correct: if the three parties are ready to evaluate an expression with at
  least one operator over integer columns that each belong to one of them, the joint run ends with
  code 0, and revealing the result gives every named receiver, in each row, the value of the
  expression on that row's plain values modulo \<open>2 ^ 64\<close>. It holds for any behaviour of the ABY3
  library allowed by \<open>aby3_ok\<close>, in particular for any random shares.
\<close>

theorem mpc_run_i64:
  assumes "aby3_ok L" "wf_ast (BinOp c l r)" "on_columns kvs (dom i64_op) (BinOp c l r)"
    and "mpc_ready (BinOp c l r) kvs n exs" "distinct parties" "\<forall>p \<in> set parties. p < 3"
  shows "\<exists>exs' rt1 exs'' vecs rt2. runMPCEvaluate L F fp_app exs rt = Inr (exs', 0, rt1) \<and>
    revealMPCResult L exs' parties (\<lambda>_. []) rt1 = Inr (exs'', vecs, rt2) \<and>
    (\<forall>p \<in> set parties. length (vecs p) = n \<and> (\<forall>i < n.
      row_value i64_op (\<lambda>s. map_option (\<lambda>v. v ! i) (map_of kvs s)) (BinOp c l r) = Some (vecs p ! i)))"
  using ready_run [OF assms, of F fp_app rt] by blast

text \<open>Three parties, each with one column, ready for \<^verbatim>\<open>A*(B-C)\<close>.\<close>

definition small_cfg :: "nat \<Rightarrow> ColumnConfig" where
  "small_cfg p = \<lparr>cfg_party_id = word_of_nat p, col_owner = [(''A'', 0), (''B'', 1), (''C'', 2)],
     col_dtype = [(''A'', INT64), (''B'', INT64), (''C'', INT64)],
     local_col = [(''A'', p = 0), (''B'', p = 1), (''C'', p = 2)]\<rparr>"

definition small_exec :: "nat \<Rightarrow> int exec" where
  "small_exec p = \<lparr>fp64_run = False, expr = ''A*(B-C)'', suffix_stk = [''A'', ''B'', ''C'', ''-'', ''*''],
     col_config = Some (small_cfg p),
     feed_dict = Some \<lparr>float_run = False, val_count = 2, fp64_col = [],
       int64_col = [if p = 0 then (''A'', [2, 3]) else if p = 1 then (''B'', [10, 20]) else (''C'', [4, 30])]\<rparr>,
     token_val_map = [], token_type_map = [(''A'', COLUMN), (''B'', COLUMN), (''C'', COLUMN)],
     party_id = word_of_nat p\<rparr>"

lemma small_exec_ready:
  "mpc_ready (BinOp (CHR ''*'') (Leaf ''A'') (Paren (BinOp (CHR ''-'') (Leaf ''B'') (Leaf ''C''))))
     [(''A'', [2, 3]), (''B'', [10, 20]), (''C'', [4, 30])] 2 small_exec"
proof -
  let ?kvs = "[(''A'', [2, 3]), (''B'', [10, 20]), (''C'', [4, 30])] :: (string \<times> i64 list) list"
  have "\<exists>owner \<in> {0, 1, 2}. \<forall>p \<in> {0, 1, 2}. holds_column (small_exec p) p owner k v"
    if "(k, v) \<in> set ?kvs" for k v
    using that by (auto simp: holds_column_def small_exec_def small_cfg_def getColumnLocality_def getColumnValues_i64_def)
  then show ?thesis
    unfolding mpc_ready_def by (simp add: small_exec_def getColumnValuesCount_def)
qed

theorem mpc_run_i64_witness:
  "\<exists>exs' rt1 exs'' vecs rt2.
    runMPCEvaluate lib_ref int_fp (\<lambda>_ _ _ _. Inl (Raised ''fp'')) small_exec () = Inr (exs', 0, rt1) \<and>
    revealMPCResult lib_ref exs' [1, 2] (\<lambda>_. []) rt1 = Inr (exs'', vecs, rt2) \<and>
    vecs 1 ! 0 = 12 \<and> vecs 1 ! 1 = -30 \<and> vecs 2 ! 1 = -30"
proof -
  let ?l = "Leaf ''A''" and ?r = "Paren (BinOp (CHR ''-'') (Leaf ''B'') (Leaf ''C''))"
  let ?e = "BinOp (CHR ''*'') ?l ?r"
  let ?kvs = "[(''A'', [2, 3]), (''B'', [10, 20]), (''C'', [4, 30])] :: (string \<times> i64 list) list"
  have wf: "wf_ast ?e" by (simp add: ident_def isOperator_def Priority_def)
  have on: "on_columns ?kvs (dom i64_op) ?e" by (simp add: dom_def i64_op_def)
  have "distinct [1, 2 :: nat]" "\<forall>p \<in> set [1, 2 :: nat]. p < 3" by simp_all
  from mpc_run_i64 [OF aby3_ok_ref wf on small_exec_ready this, of int_fp "\<lambda>_ _ _ _. Inl (Raised ''fp'')" "()"]
  obtain exs' rt1 exs'' vecs rt2 where
    "runMPCEvaluate lib_ref int_fp (\<lambda>_ _ _ _. Inl (Raised ''fp'')) small_exec () = Inr (exs', 0, rt1)"
    "revealMPCResult lib_ref exs' [1, 2] (\<lambda>_. []) rt1 = Inr (exs'', vecs, rt2)" and
    v: "\<forall>p \<in> set [1, 2]. length (vecs p) = 2 \<and> (\<forall>i < 2.
      row_value i64_op (\<lambda>s. map_option (\<lambda>v. v ! i) (map_of ?kvs s)) ?e = Some (vecs p ! i))" by blast
  moreover from v have "vecs 1 ! 0 = 12 \<and> vecs 1 ! 1 = -30 \<and> vecs 2 ! 1 = -30"
    by (simp add: row_value_def i64_op_def all_less_two)
  ultimately show ?thesis by blast
qed

text \<open>
  A party that owns no column has no value count: \<^verbatim>\<open>getColumnValuesCount\<close> turns the initial \<open>-1\<close> into
  \<open>2 ^ 32 - 1\<close>, and the executor reserves share matrices with that many rows.
\<close>

lemma no_column_count: "getColumnValuesCount (new_FeedDict m) = 4294967295"
proof -
  have "(ucast (-1 :: i64) :: u32) = 4294967295" by code_simp
  then show ?thesis by (simp add: getColumnValuesCount_def new_FeedDict_def)
qed

end
