(* ===== verification/Fixed_Operator.thy ===== *)
theory Fixed_Operator
  imports Aby3_Operator
begin

text \<open>
  The fixed-point templates of \<^verbatim>\<open>operator/aby3_operator.h\<close>. A fixed-point number is an integer with
  \<open>Dbit\<close> binary places, a shared fixed-point matrix holds shares of those integers, so the library
  of \<open>Aby3_Operator\<close> serves for sharing, sums and revealing. What fixed-point numbers add is the record
  \<open>fx_lib\<close>: the conversions from and to \<^verbatim>\<open>double\<close>, the products, which cut off \<open>Dbit\<close> places again and
  may be off in the last one, and the evaluation of step functions.
\<close>

section \<open>The library for fixed-point numbers\<close>

record 'd dmat =
  d_rows :: nat
  d_cols :: nat
  d_data :: "'d list"

text \<open>
  A step function: thresholds and, for each of the intervals they cut, the coefficients of a
  polynomial of degree 0 or 1, as the member variables of \<^verbatim>\<open>Sh3Piecewise\<close>.
\<close>

record pieces =
  mThresholds :: "int list"
  mCoefficients :: "int list list"

record ('d, 'rt) fx_lib =
  fx_of_double :: "'d \<Rightarrow> i64"
  fx_to_double :: "i64 \<Rightarrow> 'd"
  fx_dot_mul :: "(nat \<Rightarrow> si64Matrix) \<Rightarrow> (nat \<Rightarrow> si64Matrix) \<Rightarrow> 'rt \<Rightarrow> ((nat \<Rightarrow> si64Matrix) \<times> 'rt) res"
  fx_const_mul :: "(nat \<Rightarrow> i64) \<Rightarrow> (nat \<Rightarrow> si64Matrix) \<Rightarrow> 'rt \<Rightarrow> ((nat \<Rightarrow> si64Matrix) \<times> 'rt) res"
  fx_piecewise :: "pieces \<Rightarrow> (nat \<Rightarrow> si64Matrix) \<Rightarrow> 'rt \<Rightarrow> ((nat \<Rightarrow> si64Matrix) \<times> 'rt) res"

text \<open>
  \<open>R x y z\<close>: the library may return \<open>z\<close> as the product of \<open>x\<close> and \<open>y\<close>. The documented behaviour: products
  are shares of admissible results, entry by entry, whatever the order of the factors.
\<close>

type_synonym fx_rel = "i64 \<Rightarrow> i64 \<Rightarrow> i64 \<Rightarrow> bool"

definition entries :: "(i64 \<Rightarrow> i64 \<Rightarrow> bool) \<Rightarrow> mat \<Rightarrow> mat \<Rightarrow> bool" where
  "entries P x z \<longleftrightarrow> shape z = shape x \<and> mat_ok z \<and> (\<forall>i < length (m_data z). P (m_data x ! i) (m_data z ! i))"

definition entries2 :: "fx_rel \<Rightarrow> mat \<Rightarrow> mat \<Rightarrow> mat \<Rightarrow> bool" where
  "entries2 P x y z \<longleftrightarrow> shape z = shape x \<and> mat_ok z \<and>
     (\<forall>i < length (m_data z). P (m_data x ! i) (m_data y ! i) (m_data z ! i))"

definition fx_ok :: "fx_rel \<Rightarrow> ('d, 'rt) fx_lib \<Rightarrow> bool" where
  "fx_ok R X \<longleftrightarrow>
     (\<forall>x y z. R x y z \<longrightarrow> R y x z) \<and>
     (\<forall>A B x y rt. sharing A x \<longrightarrow> sharing B y \<longrightarrow> shape x = shape y \<longrightarrow>
        (\<exists>S z rt'. fx_dot_mul X A B rt = Inr (S, rt') \<and> sharing S z \<and> entries2 R x y z)) \<and>
     (\<forall>k c A x rt. k 0 = c \<longrightarrow> k 1 = c \<longrightarrow> k 2 = c \<longrightarrow> sharing A x \<longrightarrow>
        (\<exists>S z rt'. fx_const_mul X k A rt = Inr (S, rt') \<and> sharing S z \<and> entries (R c) x z))"

section \<open>Input and output\<close>

definition fixed_matrix :: "('d, 'rt) fx_lib \<Rightarrow> 'd dmat \<Rightarrow> mat" where
  "fixed_matrix X vals = \<lparr>m_rows = d_rows vals, m_cols = d_cols vals, m_data = map (fx_of_double X) (d_data vals)\<rparr>"

definition createShares_f64 ::
  "'rt aby3_lib \<Rightarrow> ('d, 'rt) fx_lib \<Rightarrow> nat \<Rightarrow> 'd dmat \<Rightarrow> (nat \<Rightarrow> nat \<times> nat) \<Rightarrow> 'rt \<Rightarrow> ((nat \<Rightarrow> si64Matrix) \<times> 'rt) res" where
  "createShares_f64 L X owner vals dest rt = lib_local_int L owner (fixed_matrix X vals) dest rt"

definition reveal_f64 ::
  "'rt aby3_lib \<Rightarrow> ('d, 'rt) fx_lib \<Rightarrow> (nat \<Rightarrow> si64Matrix) \<Rightarrow> nat \<Rightarrow> 'rt \<Rightarrow> ('d dmat \<times> 'rt) res" where
  "reveal_f64 L X vals to rt =
     bindR (lib_reveal L vals to rt) (\<lambda>(temp, rt').
       Inr (\<lparr>d_rows = m_rows temp, d_cols = m_cols temp, d_data = map (fx_to_double X) (m_data temp)\<rparr>, rt'))"

section \<open>Operations of one party\<close>

definition MPC_Add_f64 :: "'rt aby3_lib \<Rightarrow> si64Matrix list \<Rightarrow> si64Matrix res" where
  "MPC_Add_f64 L sharedFixedInt =
     (case sharedFixedInt of
        [] \<Rightarrow> Inl (Undefined ''element of an empty vector'')
      | s # ss \<Rightarrow> Inr (foldl (lib_add L) s ss))"

definition MPC_Add_Const_f64 :: "nat \<Rightarrow> i64 \<Rightarrow> si64Matrix \<Rightarrow> si64Matrix" where
  "MPC_Add_Const_f64 partyIdx constfixed s =
     (if partyIdx = 0 then s\<lparr>sh0 := map_mat (\<lambda>x. x + constfixed) (sh0 s)\<rparr>
      else if partyIdx = 1 then s\<lparr>sh1 := map_mat (\<lambda>x. x + constfixed) (sh1 s)\<rparr>
      else s)"

definition MPC_Sub_f64 :: "'rt aby3_lib \<Rightarrow> si64Matrix \<Rightarrow> si64Matrix list \<Rightarrow> si64Matrix" where
  "MPC_Sub_f64 L minuend subtrahends = foldl (lib_sub L) minuend subtrahends"

definition MPC_Sub_Const_f64 :: "nat \<Rightarrow> i64 \<Rightarrow> si64Matrix \<Rightarrow> bool \<Rightarrow> si64Matrix" where
  "MPC_Sub_Const_f64 partyIdx constfixed s mode =
     (let temp = (if partyIdx = 0 then s\<lparr>sh0 := map_mat (\<lambda>x. x - constfixed) (sh0 s)\<rparr>
                  else if partyIdx = 1 then s\<lparr>sh1 := map_mat (\<lambda>x. x - constfixed) (sh1 s)\<rparr>
                  else s)
      in if \<not> mode then \<lparr>sh0 = map_mat uminus (sh0 temp), sh1 = map_mat uminus (sh1 temp)\<rparr> else temp)"

text \<open>They do on the representations what the integer operations do.\<close>

lemma f64_linear [simp]:
  "MPC_Add_f64 L = MPC_Add L" "MPC_Add_Const_f64 = MPC_Add_Const" "MPC_Sub_f64 L = MPC_Sub L"
  "MPC_Sub_Const_f64 = MPC_Sub_Const"
  by (simp_all add: fun_eq_iff MPC_Add_f64_def MPC_Add_def MPC_Add_Const_f64_def MPC_Add_Const_def
      MPC_Sub_f64_def MPC_Sub_def MPC_Sub_Const_f64_def MPC_Sub_Const_def)

section \<open>Operations of all parties\<close>

definition MPC_Dot_Mul_f64 ::
  "('d, 'rt) fx_lib \<Rightarrow> (nat \<Rightarrow> si64Matrix) \<Rightarrow> (nat \<Rightarrow> si64Matrix) \<Rightarrow> 'rt \<Rightarrow> ((nat \<Rightarrow> si64Matrix) \<times> 'rt) res" where
  "MPC_Dot_Mul_f64 X A B rt =
     bindR (par3 (\<lambda>p. if m_cols (sh0 (A p)) \<noteq> m_cols (sh0 (B p)) \<or> m_rows (sh0 (A p)) \<noteq> m_rows (sh0 (B p))
         then Inl (Raised ''Shape does not match'') else Inr ()))
       (\<lambda>_. fx_dot_mul X A B rt)"

definition MPC_Mul_Const_f64 ::
  "('d, 'rt) fx_lib \<Rightarrow> (nat \<Rightarrow> i64) \<Rightarrow> (nat \<Rightarrow> si64Matrix) \<Rightarrow> 'rt \<Rightarrow> ((nat \<Rightarrow> si64Matrix) \<times> 'rt) res" where
  "MPC_Mul_Const_f64 X constFixed S rt = fx_const_mul X constFixed S rt"

lemma fx_ok_D:
  assumes "fx_ok R X"
  shows fx_sym: "R x y z \<Longrightarrow> R y x z"
    and fx_dot: "sharing A u \<Longrightarrow> sharing B v \<Longrightarrow> shape u = shape v \<Longrightarrow>
      \<exists>S z rt'. fx_dot_mul X A B rt = Inr (S, rt') \<and> sharing S z \<and> entries2 R u v z"
    and fx_const: "k 0 = c \<Longrightarrow> k 1 = c \<Longrightarrow> k 2 = c \<Longrightarrow> sharing A u \<Longrightarrow>
      \<exists>S z rt'. fx_const_mul X k A rt = Inr (S, rt') \<and> sharing S z \<and> entries (R c) u z"
  using assms unfolding fx_ok_def by blast+

lemma sharing_dot_mul_f64:
  assumes "fx_ok R X" "sharing A x" "sharing B y" "shape x = shape y"
  shows "\<exists>S z rt'. MPC_Dot_Mul_f64 X A B rt = Inr (S, rt') \<and> sharing S z \<and> entries2 R x y z"
proof -
  have "shape (sh0 (A p)) = shape (sh0 (B p))" if "p \<in> {0, 1, 2}" for p
    using that assms(2-4) by (simp only: sharing_shape)
  then show ?thesis
    using fx_dot [OF assms] by (simp add: MPC_Dot_Mul_f64_def par3_def shape_def)
qed

end
