(* ===== verification/Mpc_Fixed.thy ===== *)
theory Mpc_Fixed
  imports Mpc_Executor Fixed_Operator
begin

text \<open>
  \<^verbatim>\<open>MPCExpressExecutor\<close> of \<^verbatim>\<open>executor/express.cc\<close> in floating-point mode: columns and constants are
  converted to fixed-point numbers and shared, and every operation works on shares of fixed-point
  numbers. The division of two shared values, \<^verbatim>\<open>MPC_Div\<close>, is a parameter of the run (\<open>Mpc_Division\<close> models it).
\<close>

section \<open>Operands\<close>

fun constructFP64Matrix :: "'d tval \<Rightarrow> 'd dmat res" where
  "constructFP64Matrix (FP64Vec v) = Inr \<lparr>d_rows = length v, d_cols = 1, d_data = v\<rparr>"
| "constructFP64Matrix _ = Inl (Undefined ''union member not set'')"

fun is_fp_input :: "'d tval \<Rightarrow> bool" where
  "is_fp_input (FP64Vec v) = True"
| "is_fp_input RemoteCol = True"
| "is_fp_input _ = False"

definition createFP64Shares ::
  "'rt aby3_lib \<Rightarrow> ('d, 'rt) fx_lib \<Rightarrow> (nat \<Rightarrow> nat) \<Rightarrow> (nat \<Rightarrow> 'd tval) \<Rightarrow> 'rt \<Rightarrow> ((nat \<Rightarrow> si64Matrix) \<times> 'rt) res" where
  "createFP64Shares L X cnt val rt =
     (case filter (\<lambda>p. \<not> (case val p of RemoteCol \<Rightarrow> True | _ \<Rightarrow> False)) [0, 1, 2] of
        [p] \<Rightarrow> bindR (constructFP64Matrix (val p)) (\<lambda>m. createShares_f64 L X p m (\<lambda>q. (cnt q, 1)) rt)
      | _ \<Rightarrow> Inl (Undefined ''not exactly one party inputs the column''))"

definition load_fp64 ::
  "'rt aby3_lib \<Rightarrow> ('d, 'rt) fx_lib \<Rightarrow> (nat \<Rightarrow> nat) \<Rightarrow> (nat \<Rightarrow> 'd tval) \<Rightarrow> 'rt \<Rightarrow> (loaded \<times> 'rt) res" where
  "load_fp64 L X cnt val rt =
     (if is_fp_input (val 0) \<and> is_fp_input (val 1) \<and> is_fp_input (val 2)
      then bindR (createFP64Shares L X cnt val rt) (\<lambda>(S, rt'). Inr (LShares S, rt'))
      else case (val 0, val 1, val 2) of
        (FP64Val a, FP64Val b, FP64Val c) \<Rightarrow>
          Inr (LConst (\<lambda>p. fx_of_double X (if p = 0 then a else if p = 1 then b else c)), rt)
      | (ShFP64 a, ShFP64 b, ShFP64 c) \<Rightarrow> Inr (LShares (\<lambda>p. if p = 0 then a else if p = 1 then b else c), rt)
      | _ \<Rightarrow> Inl (Undefined ''union member not set''))"

definition load_both_fp ::
  "'rt aby3_lib \<Rightarrow> ('d, 'rt) fx_lib \<Rightarrow> (nat \<Rightarrow> nat) res \<Rightarrow> (nat \<Rightarrow> 'd tval) \<Rightarrow> (nat \<Rightarrow> 'd tval) \<Rightarrow> 'rt \<Rightarrow>
     ((loaded \<times> loaded) \<times> 'rt) res" where
  "load_both_fp L X counts val1 val2 rt =
     bindR counts (\<lambda>cnt.
     bindR (load_fp64 L X cnt val1 rt) (\<lambda>(a, rt1). bindR (load_fp64 L X cnt val2 rt1) (\<lambda>(b, rt2).
       Inr ((a, b), rt2))))"

section \<open>Operations\<close>

definition runMPCAddFP64 ::
  "'rt aby3_lib \<Rightarrow> ('d, 'rt) fx_lib \<Rightarrow> (nat \<Rightarrow> nat) res \<Rightarrow> ('d, 'rt) joint_op" where
  "runMPCAddFP64 L X counts val1 val2 rt =
     bindR (load_both_fp L X counts val1 val2 rt) (\<lambda>(ab, rt').
       case ab of
         (LShares A, LShares B) \<Rightarrow>
           bindR (par3 (\<lambda>p. MPC_Add_f64 L [A p, B p])) (\<lambda>R. Inr (\<lambda>p. ShFP64 (R p), rt'))
       | (LConst c, LShares B) \<Rightarrow> Inr (\<lambda>p. ShFP64 (MPC_Add_Const_f64 p (c p) (B p)), rt')
       | (LShares A, LConst c) \<Rightarrow> Inr (\<lambda>p. ShFP64 (MPC_Add_Const_f64 p (c p) (A p)), rt')
       | _ \<Rightarrow> Inl (Undefined ''null pointer''))"

definition runMPCSubFP64 ::
  "'rt aby3_lib \<Rightarrow> ('d, 'rt) fx_lib \<Rightarrow> (nat \<Rightarrow> nat) res \<Rightarrow> ('d, 'rt) joint_op" where
  "runMPCSubFP64 L X counts val1 val2 rt =
     bindR (load_both_fp L X counts val1 val2 rt) (\<lambda>(ab, rt').
       case ab of
         (LShares A, LShares B) \<Rightarrow> Inr (\<lambda>p. ShFP64 (MPC_Sub_f64 L (A p) [B p]), rt')
       | (LConst c, LShares B) \<Rightarrow> Inr (\<lambda>p. ShFP64 (MPC_Sub_Const_f64 p (c p) (B p) False), rt')
       | (LShares A, LConst c) \<Rightarrow> Inr (\<lambda>p. ShFP64 (MPC_Sub_Const_f64 p (c p) (A p) True), rt')
       | _ \<Rightarrow> Inl (Undefined ''null pointer''))"

definition runMPCMulFP64 ::
  "'rt aby3_lib \<Rightarrow> ('d, 'rt) fx_lib \<Rightarrow> (nat \<Rightarrow> nat) res \<Rightarrow> ('d, 'rt) joint_op" where
  "runMPCMulFP64 L X counts val1 val2 rt =
     bindR (load_both_fp L X counts val1 val2 rt) (\<lambda>(ab, rt').
       case ab of
         (LShares A, LShares B) \<Rightarrow>
           bindR (MPC_Dot_Mul_f64 X A B rt') (\<lambda>(R, rt''). Inr (\<lambda>p. ShFP64 (R p), rt''))
       | (LConst c, LShares B) \<Rightarrow>
           bindR (MPC_Mul_Const_f64 X c B rt') (\<lambda>(R, rt''). Inr (\<lambda>p. ShFP64 (R p), rt''))
       | (LShares A, LConst c) \<Rightarrow>
           bindR (MPC_Mul_Const_f64 X c A rt') (\<lambda>(R, rt''). Inr (\<lambda>p. ShFP64 (R p), rt''))
       | _ \<Rightarrow> Inl (Undefined ''null pointer''))"

text \<open>
  \<^verbatim>\<open>runMPCDivFP64\<close>. A constant dividend becomes a shared column, input by party 0; a constant divisor
  becomes a multiplication by its reciprocal, computed on the fixed-point number read back.
\<close>

type_synonym 'rt share_op = "(nat \<Rightarrow> si64Matrix) \<Rightarrow> (nat \<Rightarrow> si64Matrix) \<Rightarrow> 'rt \<Rightarrow> ((nat \<Rightarrow> si64Matrix) \<times> 'rt) res"

definition load_dividend ::
  "'rt aby3_lib \<Rightarrow> ('d, 'rt) fx_lib \<Rightarrow> (nat \<Rightarrow> nat) \<Rightarrow> (nat \<Rightarrow> 'd tval) \<Rightarrow> 'rt \<Rightarrow> ((nat \<Rightarrow> si64Matrix) \<times> 'rt) res" where
  "load_dividend L X cnt val rt =
     (case (val 0, val 1, val 2) of
        (FP64Val a, FP64Val b, FP64Val c) \<Rightarrow>
          createShares_f64 L X 0 \<lparr>d_rows = cnt 0, d_cols = 1, d_data = replicate (cnt 0) a\<rparr> (\<lambda>q. (cnt q, 1)) rt
      | _ \<Rightarrow>
          bindR (load_fp64 L X cnt val rt) (\<lambda>(l, rt').
            case l of LShares S \<Rightarrow> Inr (S, rt') | LConst c \<Rightarrow> Inl (Undefined ''union member not set'')))"

definition runMPCDivFP64 ::
  "'rt aby3_lib \<Rightarrow> ('d, 'rt) fx_lib \<Rightarrow> 'd fp_ops \<Rightarrow> 'rt share_op \<Rightarrow> (nat \<Rightarrow> nat) res \<Rightarrow> ('d, 'rt) joint_op" where
  "runMPCDivFP64 L X F MPC_Div counts val1 val2 rt =
     bindR counts (\<lambda>cnt. bindR (load_dividend L X cnt val1 rt) (\<lambda>(A, rt1).
     bindR (load_fp64 L X cnt val2 rt1) (\<lambda>(b, rt2).
       case b of
         LShares B \<Rightarrow> bindR (MPC_Div A B rt2) (\<lambda>(R, rt3). Inr (\<lambda>p. ShFP64 (R p), rt3))
       | LConst c \<Rightarrow>
           (case val1 0 of
              FP64Val _ \<Rightarrow> Inl (Undefined ''null pointer'')
            | _ \<Rightarrow> bindR (MPC_Mul_Const_f64 X
                    (\<lambda>p. fx_of_double X (fp_div F (fp_of_i64 F 1) (fx_to_double X (c p)))) A rt2)
                  (\<lambda>(R, rt3). Inr (\<lambda>p. ShFP64 (R p), rt3))))))"

definition fp64_app ::
  "'rt aby3_lib \<Rightarrow> ('d, 'rt) fx_lib \<Rightarrow> 'd fp_ops \<Rightarrow> 'rt share_op \<Rightarrow> (nat \<Rightarrow> nat) res \<Rightarrow> string \<Rightarrow> ('d, 'rt) joint_op" where
  "fp64_app L X F MPC_Div counts token =
     (if token = ''+'' then runMPCAddFP64 L X counts
      else if token = ''-'' then runMPCSubFP64 L X counts
      else if token = ''*'' then runMPCMulFP64 L X counts
      else runMPCDivFP64 L X F MPC_Div counts)"

section \<open>Revealing\<close>

definition first_column_f64 :: "'d dmat \<Rightarrow> 'd list" where
  "first_column_f64 m = map (\<lambda>i. d_data m ! (i * d_cols m)) [0..<d_rows m]"

fun reveal_loop_f64 ::
  "'rt aby3_lib \<Rightarrow> ('d, 'rt) fx_lib \<Rightarrow> (nat \<Rightarrow> si64Matrix) \<Rightarrow> nat list \<Rightarrow> (nat \<Rightarrow> 'd list) \<Rightarrow> 'rt \<Rightarrow>
     ((nat \<Rightarrow> 'd list) \<times> 'rt) res" where
  "reveal_loop_f64 L X S [] vecs rt = Inr (vecs, rt)"
| "reveal_loop_f64 L X S (to # parties) vecs rt =
     bindR (reveal_f64 L X S to rt) (\<lambda>(m, rt').
       reveal_loop_f64 L X S parties (vecs(to := vecs to @ first_column_f64 m)) rt')"

definition final_share_f64 :: "'d exec \<Rightarrow> ('d exec \<times> si64Matrix) res" where
  "final_share_f64 ex =
     (case suffix_stk ex of
        [] \<Rightarrow> Inl (Undefined ''top of an empty stack'')
      | final_token # rest \<Rightarrow>
          (case map_of (token_val_map ex) final_token of
             Some (ShFP64 s) \<Rightarrow> Inr (ex\<lparr>suffix_stk := rest\<rparr>, s)
           | _ \<Rightarrow> Inl (Undefined ''union member not set'')))"

definition revealMPCResult_f64 ::
  "'rt aby3_lib \<Rightarrow> ('d, 'rt) fx_lib \<Rightarrow> (nat \<Rightarrow> 'd exec) \<Rightarrow> nat list \<Rightarrow> (nat \<Rightarrow> 'd list) \<Rightarrow> 'rt \<Rightarrow>
     ((nat \<Rightarrow> 'd exec) \<times> (nat \<Rightarrow> 'd list) \<times> 'rt) res" where
  "revealMPCResult_f64 L X exs parties vecs rt =
     bindR (par3 (\<lambda>p. final_share_f64 (exs p))) (\<lambda>r.
     bindR (reveal_loop_f64 L X (\<lambda>p. snd (r p)) parties vecs rt) (\<lambda>(vecs', rt').
       Inr (\<lambda>p. fst (r p), vecs', rt')))"

section \<open>The integer view of a value\<close>

text \<open>
  In floating-point mode a value stands for its fixed-point representation. Through that view, the
  operations that need no product are those of the integer mode.
\<close>

fun fx_view :: "('d, 'rt) fx_lib \<Rightarrow> 'd tval \<Rightarrow> 'd tval" where
  "fx_view X (FP64Vec ds) = I64Vec (map (fx_of_double X) ds)"
| "fx_view X (FP64Val d) = I64Val (fx_of_double X d)"
| "fx_view X RemoteCol = RemoteCol"
| "fx_view X (ShFP64 s) = ShI64 s"
| "fx_view X (I64Vec v) = FP64Vec []"
| "fx_view X (I64Val c) = FP64Vec []"
| "fx_view X (ShI64 s) = ShFP64 s"

fun fx_shares :: "'d tval \<Rightarrow> 'd tval" where
  "fx_shares (ShI64 s) = ShFP64 s"
| "fx_shares v = v"

lemma is_input_view [simp]: "is_input (fx_view X v) = is_fp_input v"
  by (cases v) simp_all

lemma remote_view [simp]:
  "(case fx_view X v of RemoteCol \<Rightarrow> True | _ \<Rightarrow> False) = (case v of RemoteCol \<Rightarrow> True | _ \<Rightarrow> False)"
  by (cases v) simp_all

lemma createFP64Shares_view:
  assumes "is_fp_input (val 0)" "is_fp_input (val 1)" "is_fp_input (val 2)"
  shows "createFP64Shares L X cnt val rt = createI64Shares L cnt (\<lambda>p. fx_view X (val p)) rt"
  using assms
  by (cases "val 0"; cases "val 1"; cases "val 2")
     (simp_all add: createFP64Shares_def createI64Shares_def createShares_f64_def createShares_def fixed_matrix_def)

lemma load_fp64_view: "load_fp64 L X cnt val rt = load_i64 L cnt (\<lambda>p. fx_view X (val p)) rt"
proof (cases "is_fp_input (val 0) \<and> is_fp_input (val 1) \<and> is_fp_input (val 2)")
  case True
  then show ?thesis by (simp add: load_fp64_def load_i64_def createFP64Shares_view)
next
  case False
  then show ?thesis
    by (cases "val 0"; cases "val 1"; cases "val 2") (simp_all add: load_fp64_def load_i64_def fun_eq_iff)
qed

lemma load_both_fp_view:
  "load_both_fp L X counts v1 v2 rt = load_both L counts (\<lambda>p. fx_view X (v1 p)) (\<lambda>p. fx_view X (v2 p)) rt"
  by (simp add: load_both_fp_def load_both_def load_fp64_view)

section \<open>Specification: the values a run may have\<close>

text \<open>
  Sums and differences are exact; a product may be any that the library allows. \<open>fx_value R env e z\<close>: \<open>z\<close>
  is a possible value of the tree when the tokens have the fixed-point values \<open>env\<close>.
\<close>

definition fx_step :: "fx_rel \<Rightarrow> string \<Rightarrow> fx_rel" where
  "fx_step R t x y z \<longleftrightarrow>
     (t = ''+'' \<and> z = x + y) \<or> (t = ''-'' \<and> z = x - y) \<or> (t = ''*'' \<and> R x y z)"

inductive fx_value :: "fx_rel \<Rightarrow> (string \<Rightarrow> i64 option) \<Rightarrow> ast \<Rightarrow> i64 \<Rightarrow> bool" for R env where
  Leaf: "env s = Some x \<Longrightarrow> fx_value R env (Leaf s) x"
| Neg: "env (CHR ''-'' # s) = Some x \<Longrightarrow> fx_value R env (Neg s) x"
| Paren: "fx_value R env e x \<Longrightarrow> fx_value R env (Paren e) x"
| BinOp: "fx_value R env l x \<Longrightarrow> fx_value R env r y \<Longrightarrow> fx_step R [c] x y z \<Longrightarrow> fx_value R env (BinOp c l r) z"

inductive_cases fx_value_elims: "fx_value R env (Leaf s) x" "fx_value R env (Paren e) x" "fx_value R env (BinOp c l r) z"

text \<open>On columns: the set of the columns a subexpression may have.\<close>

definition fx_rows :: "fx_rel \<Rightarrow> string \<Rightarrow> i64 list \<Rightarrow> i64 list \<Rightarrow> i64 list \<Rightarrow> bool" where
  "fx_rows R t xs ys zs \<longleftrightarrow> length zs = length xs \<and> (\<forall>i < length zs. fx_step R t (xs ! i) (ys ! i) (zs ! i))"

definition fx_app :: "fx_rel \<Rightarrow> string \<Rightarrow> i64 list set \<Rightarrow> i64 list set \<Rightarrow> i64 list set option" where
  "fx_app R t A B =
     (if t \<in> {''+'', ''-'', ''*''} \<and> (\<forall>xs \<in> A. \<forall>ys \<in> B. length xs = length ys)
      then Some {zs. \<exists>xs \<in> A. \<exists>ys \<in> B. fx_rows R t xs ys zs} else None)"

definition fx_rel_of :: "('d, 'rt) fx_lib \<Rightarrow> (nat \<Rightarrow> nat) \<Rightarrow> (nat \<Rightarrow> 'd tval) \<Rightarrow> i64 list set \<Rightarrow> bool" where
  "fx_rel_of X cnt v A \<longleftrightarrow> (\<exists>xs \<in> A. joint_rel cnt (\<lambda>p. fx_view X (v p)) (Vec xs))"

definition fx_leaf ::
  "('d, 'rt) fx_lib \<Rightarrow> 'd fp_ops \<Rightarrow> (nat \<Rightarrow> 'd exec) \<Rightarrow> (nat \<Rightarrow> nat) \<Rightarrow> string \<Rightarrow> i64 list set option" where
  "fx_leaf X F exs cnt s =
     (case createTokenValues F exs s of
        Inr (Inr v) \<Rightarrow> (case joint_value cnt (\<lambda>p. fx_view X (v p)) of Some (Vec xs) \<Rightarrow> Some {xs} | _ \<Rightarrow> None)
      | _ \<Rightarrow> None)"

section \<open>Each operation computes a possible value\<close>

text \<open>Addition and subtraction, through the view.\<close>

lemma add_fp_view:
  assumes "runMPCAddI64 L counts (\<lambda>p. fx_view X (v1 p)) (\<lambda>p. fx_view X (v2 p)) rt = Inr (\<lambda>p. ShI64 (S p), rt')"
  shows "runMPCAddFP64 L X counts v1 v2 rt = Inr (\<lambda>p. ShFP64 (S p), rt')"
proof -
  obtain a b rt1 where l: "load_both L counts (\<lambda>p. fx_view X (v1 p)) (\<lambda>p. fx_view X (v2 p)) rt = Inr ((a, b), rt1)"
    using assms by (auto simp: runMPCAddI64_def)
  show ?thesis using assms
    by (cases a; cases b) (auto simp: runMPCAddI64_def runMPCAddFP64_def load_both_fp_view l fun_eq_iff)
qed

lemma sub_fp_view:
  assumes "runMPCSubI64 L counts (\<lambda>p. fx_view X (v1 p)) (\<lambda>p. fx_view X (v2 p)) rt = Inr (\<lambda>p. ShI64 (S p), rt')"
  shows "runMPCSubFP64 L X counts v1 v2 rt = Inr (\<lambda>p. ShFP64 (S p), rt')"
proof -
  obtain a b rt1 where l: "load_both L counts (\<lambda>p. fx_view X (v1 p)) (\<lambda>p. fx_view X (v2 p)) rt = Inr ((a, b), rt1)"
    using assms by (auto simp: runMPCSubI64_def)
  show ?thesis using assms
    by (cases a; cases b) (auto simp: runMPCSubI64_def runMPCSubFP64_def load_both_fp_view l fun_eq_iff)
qed

lemma loads_Vec: "loads a (Vec xs) \<Longrightarrow> \<exists>A. a = LShares A \<and> sharing A (column xs)"
  by (cases a) (simp_all add: loads_def)

lemma entries2_column:
  assumes "entries2 R (column xs) (column ys) z" "length xs = length ys"
  shows "\<exists>zs. z = column zs \<and> fx_rows R ''*'' xs ys zs"
proof -
  have z: "z = column (m_data z)" "length (m_data z) = length xs"
    using assms(1) by (auto simp: entries2_def shape_def column_def mat_ok_def)
  moreover have "R (xs ! i) (ys ! i) (m_data z ! i)" if "i < length (m_data z)" for i
    using assms(1) that by (simp add: entries2_def column_def)
  ultimately have "fx_rows R ''*'' xs ys (m_data z)" by (simp add: fx_rows_def fx_step_def)
  with z(1) show ?thesis by blast
qed

lemma fp64_app_joint:
  assumes "aby3_ok L" "fx_ok R X" "t \<in> {''+'', ''-'', ''*''}" "length xs = length ys"
    and "joint_rel cnt (\<lambda>p. fx_view X (v1 p)) (Vec xs)" "joint_rel cnt (\<lambda>p. fx_view X (v2 p)) (Vec ys)"
  shows "\<exists>S zs rt'. fp64_app L X F dv (Inr cnt) t v1 v2 rt = Inr (\<lambda>p. ShFP64 (S p), rt') \<and>
    sharing S (column zs) \<and> fx_rows R t xs ys zs"
proof -
  let ?v1 = "\<lambda>p. fx_view X (v1 p)" and ?v2 = "\<lambda>p. fx_view X (v2 p)"
  obtain a b rt1 where l: "load_both L (Inr cnt) ?v1 ?v2 rt = Inr ((a, b), rt1)" "loads a (Vec xs)" "loads b (Vec ys)"
    using load_both_joint [OF assms(1,5,6), of rt] by blast
  from assms(3) consider "t = ''+''" | "t = ''-''" | "t = ''*''" by blast
  then show ?thesis
  proof cases
    case 1
    have "row_meaning ((+), \<lambda>x c. c + x) (Vec xs) (Vec ys) = Some (Vec (map2 (+) xs ys))"
      using assms(4) by (simp add: row_meaning_def)
    from add_joint [OF assms(1) l(2,3) this l(1)] obtain S rt' where
      "runMPCAddI64 L (Inr cnt) ?v1 ?v2 rt = Inr (\<lambda>p. ShI64 (S p), rt')" "sharing S (column (map2 (+) xs ys))" by auto
    with 1 assms(4) show ?thesis
      by (intro exI [of _ S] exI [of _ "map2 (+) xs ys"] exI [of _ rt'])
         (auto dest: add_fp_view simp: fp64_app_def fx_rows_def fx_step_def)
  next
    case 2
    have "row_meaning ((-), (-)) (Vec xs) (Vec ys) = Some (Vec (map2 (-) xs ys))"
      using assms(4) by (simp add: row_meaning_def)
    from sub_joint [OF assms(1) l(2,3) this l(1)] obtain S rt' where
      "runMPCSubI64 L (Inr cnt) ?v1 ?v2 rt = Inr (\<lambda>p. ShI64 (S p), rt')" "sharing S (column (map2 (-) xs ys))" by auto
    with 2 assms(4) show ?thesis
      by (intro exI [of _ S] exI [of _ "map2 (-) xs ys"] exI [of _ rt'])
         (auto dest: sub_fp_view simp: fp64_app_def fx_rows_def fx_step_def)
  next
    case 3
    obtain A B where s: "a = LShares A" "sharing A (column xs)" "b = LShares B" "sharing B (column ys)"
      using loads_Vec l(2,3) by blast
    obtain S z rt' where z: "MPC_Dot_Mul_f64 X A B rt1 = Inr (S, rt')" "sharing S z"
      "entries2 R (column xs) (column ys) z"
      using sharing_dot_mul_f64 [OF assms(2) s(2,4), of rt1] assms(4) by auto
    then obtain zs where "z = column zs" "fx_rows R ''*'' xs ys zs" using entries2_column assms(4) by blast
    with 3 z(1,2) l(1) s(1,3) show ?thesis
      by (intro exI [of _ S] exI [of _ zs] exI [of _ rt']) (simp add: fp64_app_def runMPCMulFP64_def load_both_fp_view)
  qed
qed

lemma fx_rel_ofI: "sharing S (column zs) \<Longrightarrow> zs \<in> A \<Longrightarrow> fx_rel_of X cnt (\<lambda>p. ShFP64 (S p)) A"
  unfolding fx_rel_of_def using joint_relI_shares [of S zs cnt] by (auto intro: bexI [of _ zs])

lemma fx_appD:
  assumes "fx_app R t A B = Some C" "fx_rel_of X cnt v1 A" "fx_rel_of X cnt v2 B"
  obtains xs ys where "t \<in> {''+'', ''-'', ''*''}" "length xs = length ys"
    "joint_rel cnt (\<lambda>p. fx_view X (v1 p)) (Vec xs)" "joint_rel cnt (\<lambda>p. fx_view X (v2 p)) (Vec ys)"
    "\<And>zs. fx_rows R t xs ys zs \<Longrightarrow> zs \<in> C"
proof -
  have t: "t \<in> {''+'', ''-'', ''*''}" "\<forall>xs \<in> A. \<forall>ys \<in> B. length xs = length ys"
    "C = {zs. \<exists>xs \<in> A. \<exists>ys \<in> B. fx_rows R t xs ys zs}"
    using assms(1) by (simp_all add: fx_app_def split: if_splits)
  obtain xs ys where "xs \<in> A" "ys \<in> B" "joint_rel cnt (\<lambda>p. fx_view X (v1 p)) (Vec xs)"
    "joint_rel cnt (\<lambda>p. fx_view X (v2 p)) (Vec ys)"
    using assms(2,3) unfolding fx_rel_of_def by blast
  with t that show thesis by blast
qed

lemma mpc_apply_fp: "mpc_apply L counts fp_app True t v1 v2 rt = fp_app t v1 v2 rt"
  by (simp add: mpc_apply_def)

lemma fx_apply_shares:
  assumes "aby3_ok L" "fx_ok R X" "fx_rel_of X cnt v1 A" "fx_rel_of X cnt v2 B" "fx_app R [c] A B = Some C"
  shows "\<exists>S zs rt'. mpc_apply L counts (fp64_app L X F dv (Inr cnt)) True [c] v1 v2 rt = Inr (\<lambda>p. ShFP64 (S p), rt') \<and>
    zs \<in> C \<and> sharing S (column zs)"
proof -
  from fx_appD [OF assms(5,3,4)] obtain xs ys where f: "[c] \<in> {''+'', ''-'', ''*''}" "length xs = length ys"
    "joint_rel cnt (\<lambda>p. fx_view X (v1 p)) (Vec xs)" "joint_rel cnt (\<lambda>p. fx_view X (v2 p)) (Vec ys)"
    "\<And>zs. fx_rows R [c] xs ys zs \<Longrightarrow> zs \<in> C" by blast
  from fp64_app_joint [OF assms(1,2) f(1-4), of F dv rt] f(5) show ?thesis by (metis mpc_apply_fp)
qed

lemma fx_machine:
  fixes F :: "'d fp_ops"
  assumes "aby3_ok L" "fx_ok R X"
  shows "postfix_machine (createTokenValues F exs) (mpc_apply L counts (fp64_app L X F dv (Inr cnt)) True)
    (fx_rel_of X cnt) (fx_leaf X F exs cnt) (fx_app R)"
proof unfold_locales
  fix s A assume "fx_leaf X F exs cnt s = Some A"
  then obtain v xs where v: "createTokenValues F exs s = Inr (Inr v)"
    "joint_value cnt (\<lambda>p. fx_view X (v p)) = Some (Vec xs)" "A = {xs}"
    by (auto simp: fx_leaf_def split: sum.splits option.splits operand.splits)
  then show "\<exists>v. createTokenValues F exs s = Inr (Inr v) \<and> fx_rel_of X cnt v A"
    using joint_value_rel unfolding fx_rel_of_def by blast
next
  fix c and v1 v2 :: "nat \<Rightarrow> 'd tval" and A B C rt
  assume "fx_rel_of X cnt v1 A" "fx_rel_of X cnt v2 B" "fx_app R [c] A B = Some C"
  from fx_apply_shares [OF assms this] fx_rel_ofI
  show "\<exists>v rt'. mpc_apply L counts (fp64_app L X F dv (Inr cnt)) True [c] v1 v2 rt = Inr (v, rt') \<and> fx_rel_of X cnt v C"
    by metis
qed

section \<open>A run on the columns of three parties\<close>

definition holds_column_fp :: "'d exec \<Rightarrow> nat \<Rightarrow> nat \<Rightarrow> string \<Rightarrow> 'd list \<Rightarrow> bool" where
  "holds_column_fp ex p owner k v \<longleftrightarrow>
     (case (col_config ex, feed_dict ex) of
        (Some cfg, Some fd) \<Rightarrow> getColumnLocality k cfg = Inr (p = owner) \<and>
          (p = owner \<longrightarrow> getColumnValues_fp64 cfg k fd = Inr (Inr v))
      | _ \<Rightarrow> False)"

definition mpc_ready_fp :: "ast \<Rightarrow> (string \<times> 'd list) list \<Rightarrow> nat \<Rightarrow> (nat \<Rightarrow> 'd exec) \<Rightarrow> bool" where
  "mpc_ready_fp e kvs n exs \<longleftrightarrow>
     (\<forall>p \<in> {0, 1, 2}. suffix_stk (exs p) = postfix e \<and> fp64_run (exs p) \<and>
        VALUE \<notin> snd ` set (token_type_map (exs p)) \<and>
        (case feed_dict (exs p) of Some fd \<Rightarrow> unat (getColumnValuesCount fd) = n | None \<Rightarrow> False)) \<and>
     (\<forall>(k, v) \<in> set kvs. length v = n \<and>
        (\<exists>owner \<in> {0, 1, 2}. \<forall>p \<in> {0, 1, 2}. holds_column_fp (exs p) p owner k v))"

lemma createTokenValue_column_fp:
  assumes "VALUE \<notin> snd ` set (token_type_map ex)" "fp64_run ex" "holds_column_fp ex p owner k v"
  shows "createTokenValue F ex k = Inr (Inr (if p = owner then FP64Vec v else RemoteCol))"
  using assms(2,3) column_type [OF assms(1), of k]
  by (auto simp: createTokenValue_def holds_column_fp_def split: option.splits)

lemma fx_leaf_column:
  assumes "mpc_ready_fp e kvs n exs" "map_of kvs k = Some v" "cnt 0 = n" "cnt 1 = n" "cnt 2 = n"
  shows "fx_leaf X F exs cnt k = Some {map (fx_of_double X) v} \<and> length v = n"
proof -
  have kv: "(k, v) \<in> set kvs" using assms(2) by (rule map_of_SomeD)
  from bspec [OF conjunct2 [OF assms(1) [unfolded mpc_ready_fp_def]] kv, unfolded prod.case]
  obtain owner where o: "length v = n" "owner \<in> {0, 1, 2}"
    "\<And>p. p \<in> {0, 1, 2} \<Longrightarrow> holds_column_fp (exs p) p owner k v" by blast
  have c: "createTokenValue F (exs p) k = Inr (Inr (if p = owner then FP64Vec v else RemoteCol))"
    if "p \<in> {0, 1, 2}" for p
    using bspec [OF conjunct1 [OF assms(1) [unfolded mpc_ready_fp_def]] that] o(3) [OF that]
    by (intro createTokenValue_column_fp) blast+
  show ?thesis
    using c [of 0] c [of 1] c [of 2] o(1,2) assms(3-5)
    by (auto simp: fx_leaf_def joint_value_def createTokenValues_def par3_def input_column_def)
qed

lemma fx_meaning:
  assumes "\<And>k v. map_of kvs k = Some v \<Longrightarrow> leaf_m k = Some {map f v} \<and> length v = n"
  shows "on_columns kvs {''+'', ''-'', ''*''} e \<Longrightarrow> \<exists>A. meaning leaf_m (fx_app R) e = Some A \<and>
    (\<forall>zs \<in> A. length zs = n \<and> (\<forall>i < n. fx_value R (\<lambda>s. map_option (\<lambda>v. f (v ! i)) (map_of kvs s)) e (zs ! i)))"
proof (induction e)
  case (Leaf s)
  then obtain v where "map_of kvs s = Some v" by auto
  with assms show ?case by (auto intro: fx_value.Leaf)
next
  case (Paren e)
  then show ?case by (auto intro!: fx_value.Paren)
next
  case (BinOp c l r)
  then obtain A B where A: "meaning leaf_m (fx_app R) l = Some A" "\<And>zs. zs \<in> A \<Longrightarrow> length zs = n"
      "\<And>zs i. zs \<in> A \<Longrightarrow> i < n \<Longrightarrow> fx_value R (\<lambda>s. map_option (\<lambda>v. f (v ! i)) (map_of kvs s)) l (zs ! i)"
    and B: "meaning leaf_m (fx_app R) r = Some B" "\<And>zs. zs \<in> B \<Longrightarrow> length zs = n"
      "\<And>zs i. zs \<in> B \<Longrightarrow> i < n \<Longrightarrow> fx_value R (\<lambda>s. map_option (\<lambda>v. f (v ! i)) (map_of kvs s)) r (zs ! i)"
    by (metis on_columns.simps(4))
  let ?C = "{zs. \<exists>xs \<in> A. \<exists>ys \<in> B. fx_rows R [c] xs ys zs}"
  have "[c] \<in> {''+'', ''-'', ''*''}" using BinOp.prems by simp
  then have "fx_app R [c] A B = Some ?C" using A(2) B(2) unfolding fx_app_def by (simp only: if_True) simp
  moreover have "length zs = n \<and> (\<forall>i < n. fx_value R (\<lambda>s. map_option (\<lambda>v. f (v ! i)) (map_of kvs s)) (BinOp c l r) (zs ! i))"
    if C: "zs \<in> ?C" for zs
  proof -
    obtain xs ys where "xs \<in> A" "ys \<in> B" "fx_rows R [c] xs ys zs" using C by blast
    then have l: "length xs = n" "length zs = n" "\<And>i. i < n \<Longrightarrow> fx_step R [c] (xs ! i) (ys ! i) (zs ! i)"
      using A(2) unfolding fx_rows_def by auto
    show ?thesis
      using l(2) fx_value.BinOp [OF A(3) [OF \<open>xs \<in> A\<close>] B(3) [OF \<open>ys \<in> B\<close>] l(3)] by blast
  qed
  ultimately show ?case using A(1) B(1) by simp
qed simp

lemma first_column_f64_column:
  "first_column_f64 \<lparr>d_rows = length zs, d_cols = 1, d_data = map f zs\<rparr> = map f zs"
  unfolding first_column_f64_def by (rule nth_equalityI) simp_all

lemma reveal_loop_f64_shares:
  assumes "aby3_ok L" "sharing S (column zs)" "\<forall>p \<in> set parties. p < 3"
  shows "distinct parties \<Longrightarrow> \<exists>vecs' rt'. reveal_loop_f64 L X S parties vecs rt = Inr (vecs', rt') \<and>
    (\<forall>p. vecs' p = (if p \<in> set parties then vecs p @ map (fx_to_double X) zs else vecs p))"
  using assms(3)
proof (induction parties arbitrary: vecs rt)
  case (Cons to ps)
  have d: "distinct ps" "\<forall>p \<in> set ps. p < 3" using Cons.prems by auto
  let ?vecs = "vecs(to := vecs to @ map (fx_to_double X) zs)"
  obtain rt1 where "lib_reveal L S to rt = Inr (column zs, rt1)"
    using lib_rev [OF assms(1,2), of to rt] Cons.prems by auto
  then have "reveal_f64 L X S to rt = Inr (\<lparr>d_rows = length zs, d_cols = 1, d_data = map (fx_to_double X) zs\<rparr>, rt1)"
    by (simp add: reveal_f64_def column_def)
  moreover obtain vecs' rt' where
    "reveal_loop_f64 L X S ps ?vecs rt1 = Inr (vecs', rt')"
    "\<forall>p. vecs' p = (if p \<in> set ps then ?vecs p @ map (fx_to_double X) zs else ?vecs p)"
    using Cons.IH [OF d, of ?vecs rt1] by blast
  ultimately show ?case using Cons.prems by (auto simp: first_column_f64_column simp del: One_nat_def)
qed simp

section \<open>Properties\<close>

text \<open>
  C10. Secure evaluation in floating-point mode: if the three parties are ready to evaluate an
  expression of sums, differences and products over columns that each belong to one of them, the
  joint run ends with code 0, and revealing gives every named receiver, in each row, the conversion
  of a fixed-point number that is a value of the expression on the fixed-point numbers of that row,
  with exact sums and differences and with products the library allows.
\<close>

theorem mpc_run_fp64:
  assumes "aby3_ok L" "fx_ok R X" "wf_ast (BinOp c l r)" "on_columns kvs {''+'', ''-'', ''*''} (BinOp c l r)"
    and "mpc_ready_fp (BinOp c l r) kvs n exs" "distinct parties" "\<forall>p \<in> set parties. p < 3"
  shows "\<exists>exs' rt1 exs'' vecs rt2.
    runMPCEvaluate L F (fp64_app L X F dv (feed_counts exs)) exs rt = Inr (exs', 0, rt1) \<and>
    revealMPCResult_f64 L X exs' parties (\<lambda>_. []) rt1 = Inr (exs'', vecs, rt2) \<and>
    (\<forall>p \<in> set parties. length (vecs p) = n \<and> (\<forall>i < n. \<exists>z. vecs p ! i = fx_to_double X z \<and>
      fx_value R (\<lambda>s. map_option (\<lambda>v. fx_of_double X (v ! i)) (map_of kvs s)) (BinOp c l r) z))"
proof -
  let ?e = "BinOp c l r" and ?cnt = "\<lambda>p::nat. n"
  note party = bspec [OF conjunct1 [OF assms(5) [unfolded mpc_ready_fp_def]]]
  have counts: "\<exists>fd. feed_dict (exs p) = Some fd \<and> unat (getColumnValuesCount fd) = n" if "p \<in> {0, 1, 2}" for p
    using party [OF that] by (auto split: option.splits)
  have fc: "feed_counts exs = Inr ?cnt"
    using counts [of 0] counts [of 1] counts [of 2] by (auto simp: feed_counts_def par3_def fun_eq_iff)
  have leaf: "fx_leaf X F exs ?cnt k = Some {map (fx_of_double X) v} \<and> length v = n" if "map_of kvs k = Some v" for k v
    by (rule fx_leaf_column [OF assms(5) that]) simp_all
  obtain C where C: "meaning (fx_leaf X F exs ?cnt) (fx_app R) ?e = Some C"
    "\<And>zs. zs \<in> C \<Longrightarrow> length zs = n \<and> (\<forall>i < n. fx_value R (\<lambda>s. map_option (\<lambda>v. fx_of_double X (v ! i)) (map_of kvs s)) ?e (zs ! i))"
    using fx_meaning [where leaf_m = "fx_leaf X F exs ?cnt", OF leaf assms(4), where R = R] by blast
  let ?app = "mpc_apply L (Inr ?cnt) (fp64_app L X F dv (Inr ?cnt)) True"
  from postfix_machine.loop_binop [OF fx_machine [OF assms(1,2)] assms(3) C(1), of "Inr ?cnt" dv "[]" rt]
  obtain vl vr A B rt0 v rt1 tvm where b: "fx_rel_of X ?cnt vl A" "fx_rel_of X ?cnt vr B" "fx_app R [c] A B = Some C"
    "?app [c] vl vr rt0 = Inr (v, rt1)" "map_of tvm (token_of ?e) = Some v"
    "eval_loop (createTokenValues F exs) ?app (postfix ?e) [] [] [] rt =
      Inr \<lparr>eo_ret = 0, eo_suffix = [], eo_stk1 = [token_of ?e], eo_map = tvm, eo_rt = rt1\<rparr>" by blast
  from fx_apply_shares [OF assms(1,2) b(1-3), of "Inr ?cnt" F dv rt0] b(4)
  obtain S zs where S: "v = (\<lambda>p. ShFP64 (S p))" "zs \<in> C" "sharing S (column zs)" by auto
  let ?exs = "mpc_put exs [token_of ?e] tvm"
  have run: "runMPCEvaluate L F (fp64_app L X F dv (feed_counts exs)) exs rt = Inr (?exs, 0, rt1)"
    using party [of 0] party [of 1] party [of 2] b(6) fc by (simp add: runMPCEvaluate_def)
  have "final_share_f64 (?exs p) = Inr ((?exs p)\<lparr>suffix_stk := []\<rparr>, S p)" for p
    using map_of_mpc_put [OF b(5), of exs "[token_of ?e]" p] S(1) by (simp add: final_share_f64_def mpc_put_def)
  then obtain q where q: "par3 (\<lambda>p. final_share_f64 (?exs p)) = Inr q" "snd (q 0) = S 0" "snd (q 1) = S 1" "snd (q 2) = S 2"
    by (simp add: par3_def)
  have "sharing (\<lambda>p. snd (q p)) (column zs)" using S(3) sharing_cong [of "\<lambda>p. snd (q p)" S] q by simp
  from reveal_loop_f64_shares [OF assms(1) this assms(7,6), of X "\<lambda>_. []" rt1] obtain vecs rt2 where
    v: "reveal_loop_f64 L X (\<lambda>p. snd (q p)) parties (\<lambda>_. []) rt1 = Inr (vecs, rt2)"
      "\<And>p. p \<in> set parties \<Longrightarrow> vecs p = map (fx_to_double X) zs" by auto
  have "revealMPCResult_f64 L X ?exs parties (\<lambda>_. []) rt1 = Inr (\<lambda>p. fst (q p), vecs, rt2)"
    using q(1) v(1) by (simp add: revealMPCResult_f64_def)
  moreover have "length (vecs p) = n \<and> (\<forall>i < n. \<exists>z. vecs p ! i = fx_to_double X z \<and>
      fx_value R (\<lambda>s. map_option (\<lambda>v. fx_of_double X (v ! i)) (map_of kvs s)) ?e z)" if "p \<in> set parties" for p
    using v(2) [OF that] C(2) [OF S(2)] by (metis length_map nth_map)
  ultimately show ?thesis using run by blast
qed

text \<open>A concrete library with four binary places on whole numbers, and a run of \<^verbatim>\<open>A*(B-C)\<close>.\<close>

definition fx_prod :: "i64 \<Rightarrow> i64 \<Rightarrow> i64" where
  "fx_prod x y = word_of_int (sint x * sint y div 16)"

definition fx_ref :: "(int, unit) fx_lib" where
  "fx_ref = \<lparr>fx_of_double = (\<lambda>d. word_of_int (16 * d)), fx_to_double = (\<lambda>x. sint x div 16),
     fx_dot_mul = (\<lambda>A B rt. Inr (plain_shares (map2_mat fx_prod (open_shares A) (open_shares B)), ())),
     fx_const_mul = (\<lambda>c A rt. Inr (plain_shares (map_mat (fx_prod (c 0)) (open_shares A)), ())),
     fx_piecewise = (\<lambda>P A rt. Inl (Raised ''piecewise''))\<rparr>"

lemma fx_ok_ref: "fx_ok (\<lambda>x y z. z = fx_prod x y) fx_ref"
  unfolding fx_ok_def
proof (intro conjI allI impI)
  fix A B x y rt assume s: "sharing A x" "sharing B y" "shape x = shape y"
  have xy: "mat_ok x" "mat_ok y" by (rule sharing_ok [OF s(1)], rule sharing_ok [OF s(2)])
  have "mat_ok (map2_mat fx_prod x y)" "length (m_data x) = length (m_data y)"
    by (rule map2_mat_ok [OF xy s(3)], rule mat_ok_same [OF xy s(3)])
  with s show "\<exists>S z rt'. fx_dot_mul fx_ref A B rt = Inr (S, rt') \<and> sharing S z \<and>
      entries2 (\<lambda>x y z. z = fx_prod x y) x y z"
    by (intro exI [of _ "plain_shares (map2_mat fx_prod x y)"] exI [of _ "map2_mat fx_prod x y"] exI [of _ "()"])
       (simp add: fx_ref_def sharing_open plain_shares_sharing entries2_def)
next
  fix k :: "nat \<Rightarrow> i64" and c A x rt assume s: "k 0 = c" "k 1 = c" "k 2 = c" "sharing A x"
  have "mat_ok x" by (rule sharing_ok [OF s(4)])
  with s show "\<exists>S z rt'. fx_const_mul fx_ref k A rt = Inr (S, rt') \<and> sharing S z \<and>
      entries (\<lambda>y z. z = fx_prod c y) x z"
    by (intro exI [of _ "plain_shares (map_mat (fx_prod c) x)"] exI [of _ "map_mat (fx_prod c) x"] exI [of _ "()"])
       (simp add: fx_ref_def sharing_open plain_shares_sharing entries_def)
qed (simp add: fx_prod_def mult.commute)

definition small_exec_fp :: "nat \<Rightarrow> int exec" where
  "small_exec_fp p = (small_exec p)\<lparr>fp64_run := True,
     feed_dict := Some \<lparr>float_run = True, val_count = 2,
       fp64_col = [if p = 0 then (''A'', [2, 3]) else if p = 1 then (''B'', [10, 20]) else (''C'', [4, 30])],
       int64_col = []\<rparr>\<rparr>"

lemma small_exec_fp_ready:
  "mpc_ready_fp (BinOp (CHR ''*'') (Leaf ''A'') (Paren (BinOp (CHR ''-'') (Leaf ''B'') (Leaf ''C''))))
     [(''A'', [2, 3]), (''B'', [10, 20]), (''C'', [4, 30])] 2 small_exec_fp"
proof -
  let ?kvs = "[(''A'', [2, 3]), (''B'', [10, 20]), (''C'', [4, 30])] :: (string \<times> int list) list"
  have "\<exists>owner \<in> {0, 1, 2}. \<forall>p \<in> {0, 1, 2}. holds_column_fp (small_exec_fp p) p owner k v"
    if "(k, v) \<in> set ?kvs" for k v
    using that by (auto simp: holds_column_fp_def small_exec_fp_def small_exec_def small_cfg_def
        getColumnLocality_def getColumnValues_fp64_def)
  then show ?thesis
    unfolding mpc_ready_fp_def by (simp add: small_exec_fp_def small_exec_def getColumnValuesCount_def)
qed

lemma small_product: "fx_to_double fx_ref (fx_prod (fx_of_double fx_ref 3) (fx_of_double fx_ref 20 - fx_of_double fx_ref 30)) = -30"
  by code_simp

theorem mpc_run_fp64_witness:
  "\<exists>exs' rt1 exs'' vecs rt2.
    runMPCEvaluate lib_ref int_fp (fp64_app lib_ref fx_ref int_fp (\<lambda>_ _ _. Inl (Raised ''div'')) (feed_counts small_exec_fp))
      small_exec_fp () = Inr (exs', 0, rt1) \<and>
    revealMPCResult_f64 lib_ref fx_ref exs' [1, 2] (\<lambda>_. []) rt1 = Inr (exs'', vecs, rt2) \<and> vecs 2 ! 1 = -30"
proof -
  let ?e = "BinOp (CHR ''*'') (Leaf ''A'') (Paren (BinOp (CHR ''-'') (Leaf ''B'') (Leaf ''C'')))"
  let ?kvs = "[(''A'', [2, 3]), (''B'', [10, 20]), (''C'', [4, 30])] :: (string \<times> int list) list"
  have wf: "wf_ast ?e" by (simp add: ident_def isOperator_def Priority_def)
  have on: "on_columns ?kvs {''+'', ''-'', ''*''} ?e" by simp
  have "distinct [1, 2 :: nat]" "\<forall>p \<in> set [1, 2 :: nat]. p < 3" by simp_all
  from mpc_run_fp64 [OF aby3_ok_ref fx_ok_ref wf on small_exec_fp_ready this, of int_fp "\<lambda>_ _ _. Inl (Raised ''div'')" "()"]
  obtain exs' rt1 exs'' vecs rt2 where r:
    "runMPCEvaluate lib_ref int_fp (fp64_app lib_ref fx_ref int_fp (\<lambda>_ _ _. Inl (Raised ''div'')) (feed_counts small_exec_fp))
      small_exec_fp () = Inr (exs', 0, rt1)"
    "revealMPCResult_f64 lib_ref fx_ref exs' [1, 2] (\<lambda>_. []) rt1 = Inr (exs'', vecs, rt2)" and
    v: "\<And>p. p \<in> set [1, 2] \<Longrightarrow> length (vecs p) = 2 \<and> (\<forall>i < 2. \<exists>z. vecs p ! i = fx_to_double fx_ref z \<and>
      fx_value (\<lambda>x y z. z = fx_prod x y) (\<lambda>s. map_option (\<lambda>v. fx_of_double fx_ref (v ! i)) (map_of ?kvs s)) ?e z)"
    by blast
  obtain z where z: "vecs 2 ! 1 = fx_to_double fx_ref z"
    "fx_value (\<lambda>x y z. z = fx_prod x y) (\<lambda>s. map_option (\<lambda>v. fx_of_double fx_ref (v ! 1)) (map_of ?kvs s)) ?e z"
    using mp [OF spec [OF conjunct2 [OF v [of 2]], of 1]] by auto
  have "z = fx_prod (fx_of_double fx_ref 3) (fx_of_double fx_ref 20 - fx_of_double fx_ref 30)"
    using z(2) by (auto elim!: fx_value_elims simp: fx_step_def)
  with z(1) r small_product show ?thesis by auto
qed

end
