(* ===== verification/Mpc_Division.thy ===== *)
theory Mpc_Division
  imports Mpc_Fixed
begin

text \<open>
  The division of shared fixed-point columns, \<^verbatim>\<open>MPC_Div\<close> of \<^verbatim>\<open>operator/aby3_operator.h\<close>, with the step functions and the search for the power of two
  it uses. The divisor is scaled by that power, a straight line approximates its reciprocal, and two factors
  improve the quotient. The analysis gives the error of every entry of the result. A step function counts as evaluated when its call
  returns (the code starts the task of the library and waits for it with a later one), and the reveals in arguments of
  \<^verbatim>\<open>VLOG\<close> are left out: at verbosity 6 they open every intermediate result to all parties.
\<close>

section \<open>Step functions\<close>

definition mAbs_pieces :: pieces where
  "mAbs_pieces = \<lparr>mThresholds = [0], mCoefficients = [[0, - 1], [0, 1]]\<rparr>"

definition mQuoDertermine_pieces :: pieces where
  "mQuoDertermine_pieces = \<lparr>mThresholds = [0], mCoefficients = [[- 1], [1]]\<rparr>"

definition mdivision_pieces :: pieces where
  "mdivision_pieces = \<lparr>mThresholds = [0], mCoefficients = [[0, 0], [1, 0]]\<rparr>"

type_synonym s3 = "nat \<Rightarrow> si64Matrix"

definition MPC_Abs :: "('d, 'rt) fx_lib \<Rightarrow> s3 \<Rightarrow> 'rt \<Rightarrow> (s3 \<times> 'rt) res" where
  "MPC_Abs X Y rt = fx_piecewise X mAbs_pieces Y rt"

definition MPC_QuoDertermine :: "('d, 'rt) fx_lib \<Rightarrow> s3 \<Rightarrow> 'rt \<Rightarrow> (s3 \<times> 'rt) res" where
  "MPC_QuoDertermine X Y rt = fx_piecewise X mQuoDertermine_pieces Y rt"

definition MPC_DReLu :: "('d, 'rt) fx_lib \<Rightarrow> s3 \<Rightarrow> 'rt \<Rightarrow> (s3 \<times> 'rt) res" where
  "MPC_DReLu X Y rt = fx_piecewise X mdivision_pieces Y rt"

section \<open>Constants and revealing\<close>

text \<open>
  What the division uses besides: revealing to all parties, powers of two and the literals as \<^verbatim>\<open>double\<close>, and the
  conversion and the test of a revealed number.
\<close>

record ('d, 'rt) div_lib =
  dv_revealAll :: "s3 \<Rightarrow> 'rt \<Rightarrow> (mat \<times> 'rt) res"
  dv_pow2 :: "int \<Rightarrow> 'd"
  dv_2_9142 :: 'd
  dv_to_u64 :: "'d \<Rightarrow> nat"
  dv_is_zero :: "'d \<Rightarrow> bool"

definition revealAll_f64 :: "('d, 'rt) fx_lib \<Rightarrow> ('d, 'rt) div_lib \<Rightarrow> s3 \<Rightarrow> 'rt \<Rightarrow> ('d list \<times> 'rt) res" where
  "revealAll_f64 X V vals rt = bindR (dv_revealAll V vals rt) (\<lambda>(temp, rt'). Inr (map (fx_to_double X) (m_data temp), rt'))"

text \<open>A column of public numbers, shared by party 0.\<close>

definition share_doubles :: "'rt aby3_lib \<Rightarrow> ('d, 'rt) fx_lib \<Rightarrow> 'd list \<Rightarrow> 'rt \<Rightarrow> (s3 \<times> 'rt) res" where
  "share_doubles L X vals rt =
     createShares_f64 L X 0 \<lparr>d_rows = length vals, d_cols = 1, d_data = vals\<rparr> (\<lambda>_. (length vals, 1)) rt"

definition sub3 :: "'rt aby3_lib \<Rightarrow> s3 \<Rightarrow> s3 \<Rightarrow> s3" where
  "sub3 L A B = (\<lambda>p. lib_sub L (A p) (B p))"

definition add3 :: "'rt aby3_lib \<Rightarrow> s3 \<Rightarrow> s3 \<Rightarrow> s3" where
  "add3 L A B = (\<lambda>p. lib_add L (A p) (B p))"

section \<open>Powers of two\<close>

text \<open>
  One round of the search: \<open>bound\<close> gives the number that belongs to a rank, \<open>diff\<close> the difference whose sign is revealed to
  all parties. The ranks are below 64 as long as the revealed numbers are 0 or 1; a shift by more is undefined.
\<close>

definition pow_round ::
  "'rt aby3_lib \<Rightarrow> ('d, 'rt) fx_lib \<Rightarrow> ('d, 'rt) div_lib \<Rightarrow> (nat \<Rightarrow> 'd) \<Rightarrow> (s3 \<Rightarrow> s3 \<Rightarrow> s3) \<Rightarrow> s3 \<Rightarrow> nat \<Rightarrow> nat list \<Rightarrow> 'rt \<Rightarrow> (nat list \<times> 'rt) res" where
  "pow_round L X V bound diff Y i Alpha rt =
     (let rank_matrix = map (\<lambda>a. a + 2 ^ i) Alpha in
      if \<not> list_all (\<lambda>r. r < 64) rank_matrix then Inl (Undefined ''shift'')
      else bindR (share_doubles L X (map bound rank_matrix) rt) (\<lambda>(sfrank_temp, rt1).
           bindR (MPC_DReLu X (diff Y sfrank_temp) rt1) (\<lambda>(drelu_result, rt2).
           bindR (revealAll_f64 X V drelu_result rt2) (\<lambda>(drelu_result_temp, rt3).
             Inr (map2 (\<lambda>a d. a + 2 ^ i * dv_to_u64 V d) Alpha drelu_result_temp, rt3)))))"

fun pow_rounds ::
  "'rt aby3_lib \<Rightarrow> ('d, 'rt) fx_lib \<Rightarrow> ('d, 'rt) div_lib \<Rightarrow> (nat \<Rightarrow> 'd) \<Rightarrow> (s3 \<Rightarrow> s3 \<Rightarrow> s3) \<Rightarrow> s3 \<Rightarrow> nat \<Rightarrow> nat list \<Rightarrow> 'rt \<Rightarrow> (nat list \<times> 'rt) res" where
  "pow_rounds L X V bound diff Y 0 Alpha rt = Inr (Alpha, rt)"
| "pow_rounds L X V bound diff Y (Suc i) Alpha rt =
     bindR (pow_round L X V bound diff Y i Alpha rt) (\<lambda>(Alpha1, rt1). pow_rounds L X V bound diff Y i Alpha1 rt1)"

definition MPC_Pow :: "'rt aby3_lib \<Rightarrow> ('d, 'rt) fx_lib \<Rightarrow> ('d, 'rt) div_lib \<Rightarrow> nat \<Rightarrow> s3 \<Rightarrow> 'rt \<Rightarrow> (int list \<times> 'rt) res" where
  "MPC_Pow L X V rows Y rt =
     bindR (pow_rounds L X V (\<lambda>r. dv_pow2 V (int r)) (sub3 L) Y 6 (replicate rows 0) rt) (\<lambda>(Alpha, rt').
       Inr (map (\<lambda>a. int a + 1) Alpha, rt'))"

definition MPC_Pow2 :: "'rt aby3_lib \<Rightarrow> ('d, 'rt) fx_lib \<Rightarrow> ('d, 'rt) div_lib \<Rightarrow> nat \<Rightarrow> s3 \<Rightarrow> 'rt \<Rightarrow> (int list \<times> 'rt) res" where
  "MPC_Pow2 L X V rows Y rt =
     bindR (pow_rounds L X V (\<lambda>r. dv_pow2 V (- int r)) (\<lambda>Y r. sub3 L r Y) Y 6 (replicate rows 0) rt) (\<lambda>(Alpha, rt').
       Inr (map (\<lambda>a. - int a) Alpha, rt'))"

section \<open>Division\<close>

definition MPC_Dotproduct :: "('d, 'rt) fx_lib \<Rightarrow> s3 \<Rightarrow> s3 \<Rightarrow> 'rt \<Rightarrow> (s3 \<times> 'rt) res" where
  "MPC_Dotproduct X A B rt =
     bindR (par3 (\<lambda>p. if m_cols (sh0 (A p)) = m_cols (sh0 (B p)) \<and> m_rows (sh0 (A p)) = m_rows (sh0 (B p))
         then Inr () else Inl (Undefined ''assertion''))) (\<lambda>_. fx_dot_mul X A B rt)"

definition pick_mat :: "nat list \<Rightarrow> mat \<Rightarrow> mat" where
  "pick_mat idx m = \<lparr>m_rows = length idx, m_cols = 1, m_data = map ((!) (m_data m)) idx\<rparr>"

definition pick_rows :: "nat list \<Rightarrow> s3 \<Rightarrow> s3" where
  "pick_rows idx S = (\<lambda>p. \<lparr>sh0 = pick_mat idx (sh0 (S p)), sh1 = pick_mat idx (sh1 (S p))\<rparr>)"

text \<open>The ranks of the two groups in the order of the rows; the flags say which rows belong to the first group.\<close>

fun merge_ranks :: "bool list \<Rightarrow> int list \<Rightarrow> int list \<Rightarrow> int list" where
  "merge_ranks (True # fs) (r # ls) ms = r # merge_ranks fs ls ms"
| "merge_ranks (False # fs) ls (r # ms) = r # merge_ranks fs ls ms"
| "merge_ranks _ _ _ = []"

definition index_where :: "(bool \<Rightarrow> bool) \<Rightarrow> bool list \<Rightarrow> nat list" where
  "index_where P fs = filter (\<lambda>i. P (fs ! i)) [0..<length fs]"

text \<open>The ranks of the absolute divisors: a comparison with one half selects the search.\<close>

definition divisor_ranks ::
  "'rt aby3_lib \<Rightarrow> ('d, 'rt) fx_lib \<Rightarrow> ('d, 'rt) div_lib \<Rightarrow> nat \<Rightarrow> s3 \<Rightarrow> 'rt \<Rightarrow> (int list \<times> 'rt) res" where
  "divisor_ranks L X V rows denominator rt =
     bindR (share_doubles L X (replicate rows (dv_pow2 V (- 1))) rt) (\<lambda>(sfzeropointfive, rt1).
     bindR (MPC_DReLu X (sub3 L denominator sfzeropointfive) rt1) (\<lambda>(drelu_result, rt2).
     bindR (revealAll_f64 X V drelu_result rt2) (\<lambda>(drelu_result_temp, rt3).
       let fs = map (dv_is_zero V) drelu_result_temp; lessIdx = index_where (\<lambda>f. f) fs; moreIdx = index_where Not fs in
       bindR (if lessIdx = [] then Inr ([], rt3) else MPC_Pow2 L X V (length lessIdx) (pick_rows lessIdx denominator) rt3) (\<lambda>(rankLess, rt4).
       bindR (if moreIdx = [] then Inr ([], rt4) else MPC_Pow L X V (length moreIdx) (pick_rows moreIdx denominator) rt4) (\<lambda>(rankMore, rt5).
         Inr (merge_ranks fs rankLess rankMore, rt5))))))"

text \<open>
  The quotient of the absolute values: \<open>n\<close> the powers of two, \<open>c\<close> the scaled divisor, \<open>w0\<close> the approximate
  reciprocal, \<open>epsilon0\<close> its defect.
\<close>

definition quotient ::
  "'rt aby3_lib \<Rightarrow> ('d, 'rt) fx_lib \<Rightarrow> ('d, 'rt) div_lib \<Rightarrow> nat \<Rightarrow> int list \<Rightarrow> s3 \<Rightarrow> s3 \<Rightarrow> 'rt \<Rightarrow> (s3 \<times> 'rt) res" where
  "quotient L X V rows rank numerator denominator rt =
     bindR (share_doubles L X (replicate rows (dv_2_9142 V)) rt) (\<lambda>(sftwopotnine, rt1).
     bindR (share_doubles L X (replicate rows (dv_pow2 V 0)) rt1) (\<lambda>(sfconstant_one, rt2).
     bindR (share_doubles L X (map (\<lambda>r. dv_pow2 V (- r)) rank) rt2) (\<lambda>(sfnormalization, rt3).
     bindR (MPC_Dotproduct X denominator sfnormalization rt3) (\<lambda>(c, rt4).
     let temp_twoc = (\<lambda>p. lib_const_mul L 2 (c p)) in
     bindR (MPC_Dotproduct X (sub3 L sftwopotnine temp_twoc) sfnormalization rt4) (\<lambda>(w0, rt5).
     bindR (MPC_Dotproduct X denominator w0 rt5) (\<lambda>(bw0, rt6).
     bindR (MPC_Dotproduct X numerator w0 rt6) (\<lambda>(aw0, rt7).
     let epsilon0 = sub3 L sfconstant_one bw0 in
     bindR (MPC_Dotproduct X (add3 L sfconstant_one epsilon0) aw0 rt7) (\<lambda>(epsilon_prod, rt8).
     bindR (MPC_Dotproduct X epsilon0 epsilon0 rt8) (\<lambda>(epsilon_i, rt9).
       MPC_Dotproduct X epsilon_prod (add3 L sfconstant_one epsilon_i) rt9)))))))))"

text \<open>Only the first column of a matrix is handled; the entries of the others would not be set.\<close>

definition MPC_Div ::
  "'rt aby3_lib \<Rightarrow> ('d, 'rt) fx_lib \<Rightarrow> ('d, 'rt) div_lib \<Rightarrow> s3 \<Rightarrow> s3 \<Rightarrow> 'rt \<Rightarrow> (s3 \<times> 'rt) res" where
  "MPC_Div L X V A B rt =
     bindR (par3 (\<lambda>p. if m_cols (sh0 (A p)) \<noteq> m_cols (sh0 (B p)) \<or> m_rows (sh0 (A p)) \<noteq> m_rows (sh0 (B p))
         then Inl (Raised ''Shape does not match'')
         else if m_cols (sh0 (B p)) \<noteq> 1 then Inl (Undefined ''only one column is set'') else Inr ())) (\<lambda>_.
     let rows = m_rows (sh0 (B 0)) in
     bindR (MPC_QuoDertermine X B rt) (\<lambda>(denominator_sign, rt1).
     bindR (MPC_Abs X B rt1) (\<lambda>(denominator, rt2).
     bindR (MPC_QuoDertermine X A rt2) (\<lambda>(numerator_sign, rt3).
     bindR (MPC_Abs X A rt3) (\<lambda>(numerator, rt4).
     bindR (MPC_Dotproduct X denominator_sign numerator_sign rt4) (\<lambda>(quotient_sign, rt5).
     bindR (divisor_ranks L X V rows denominator rt5) (\<lambda>(rank, rt6).
     bindR (quotient L X V rows rank numerator denominator rt6) (\<lambda>(epsilon_prod, rt7).
       MPC_Dotproduct X epsilon_prod quotient_sign rt7))))))))"

section \<open>What the libraries promise\<close>

text \<open>
  A product may be off in the last place, provided that the exact product of the representations fits (ABY3 multiplies in 64 bits
  and then cuts off the places). A step function gives the value of its piece; a number at a threshold belongs to the piece above. Powers of two that are too small become zero.
\<close>

definition fx_near :: "nat \<Rightarrow> fx_rel" where
  "fx_near D x y z \<longleftrightarrow> (\<bar>sint x * sint y\<bar> < 2 ^ 62 \<longrightarrow> \<bar>sint z * 2 ^ D - sint x * sint y\<bar> \<le> 2 ^ D)"

definition piece_value :: "nat \<Rightarrow> pieces \<Rightarrow> i64 \<Rightarrow> i64" where
  "piece_value D P w =
     (let cs = mCoefficients P ! length (filter (\<lambda>t. t * 2 ^ D \<le> sint w) (mThresholds P)) in
      word_of_int (cs ! 0 * 2 ^ D + (if 1 < length cs then cs ! 1 * sint w else 0)))"

definition div_ok :: "nat \<Rightarrow> ('d, 'rt) fx_lib \<Rightarrow> ('d, 'rt) div_lib \<Rightarrow> bool" where
  "div_ok D X V \<longleftrightarrow>
     (\<forall>P \<in> {mAbs_pieces, mQuoDertermine_pieces, mdivision_pieces}. \<forall>A x rt. sharing A x \<longrightarrow>
        (\<exists>S rt'. fx_piecewise X P A rt = Inr (S, rt') \<and> sharing S (map_mat (piece_value D P) x))) \<and>
     (\<forall>S x rt. sharing S x \<longrightarrow> (\<exists>rt'. dv_revealAll V S rt = Inr (x, rt'))) \<and>
     (\<forall>k. k + int D < 62 \<longrightarrow> fx_of_double X (dv_pow2 V k) = word_of_int (if k + int D < 0 then 0 else 2 ^ nat (k + int D))) \<and>
     \<bar>real_of_int (sint (fx_of_double X (dv_2_9142 V))) - 29142 / 10000 * 2 ^ D\<bar> \<le> 1 \<and>
     dv_to_u64 V (fx_to_double X 0) = 0 \<and> dv_to_u64 V (fx_to_double X (2 ^ D)) = 1 \<and>
     dv_is_zero V (fx_to_double X 0) \<and> \<not> dv_is_zero V (fx_to_double X (2 ^ D))"

lemma div_okD:
  assumes "div_ok D X V"
  shows div_piece: "P \<in> {mAbs_pieces, mQuoDertermine_pieces, mdivision_pieces} \<Longrightarrow> sharing A x \<Longrightarrow>
      \<exists>S rt'. fx_piecewise X P A rt = Inr (S, rt') \<and> sharing S (map_mat (piece_value D P) x)"
    and div_reveal: "sharing S x \<Longrightarrow> \<exists>rt'. dv_revealAll V S rt = Inr (x, rt')"
    and div_pow2: "k + int D < 62 \<Longrightarrow> fx_of_double X (dv_pow2 V k) = word_of_int (if k + int D < 0 then 0 else 2 ^ nat (k + int D))"
    and div_29142: "\<bar>real_of_int (sint (fx_of_double X (dv_2_9142 V))) - 29142 / 10000 * 2 ^ D\<bar> \<le> 1"
    and div_flag: "dv_to_u64 V (fx_to_double X 0) = 0" "dv_to_u64 V (fx_to_double X (2 ^ D)) = 1"
      "dv_is_zero V (fx_to_double X 0)" "\<not> dv_is_zero V (fx_to_double X (2 ^ D))"
  using assms unfolding div_ok_def by blast+

section \<open>Columns\<close>

lemma column_maps:
  "map_mat f (column xs) = column (map f xs)"
  "length xs = length ys \<Longrightarrow> map2_mat g (column xs) (column ys) = column (map2 g xs ys)"
  by (simp_all add: map_mat_def map2_mat_def column_def)

lemma share_doubles_column:
  assumes "aby3_ok L"
  shows "\<exists>S rt'. share_doubles L X vals rt = Inr (S, rt') \<and> sharing S (column (map (fx_of_double X) vals))"
proof -
  have "fixed_matrix X \<lparr>d_rows = length vals, d_cols = 1, d_data = vals\<rparr> = column (map (fx_of_double X) vals)"
    by (simp add: fixed_matrix_def column_def)
  then show ?thesis
    using lib_local [OF assms, of 0 "column (map (fx_of_double X) vals)" "\<lambda>_. (length vals, 1)" rt]
    by (simp add: share_doubles_def createShares_f64_def)
qed

lemma sub3_column:
  assumes "aby3_ok L" "sharing A (column xs)" "sharing B (column ys)" "length xs = length ys"
  shows "sharing (sub3 L A B) (column (map2 (-) xs ys))"
  using share_sub [OF assms(1-3)] assms(4) by (simp add: sub3_def column_maps)

lemma add3_column:
  assumes "aby3_ok L" "sharing A (column xs)" "sharing B (column ys)" "length xs = length ys"
  shows "sharing (add3 L A B) (column (map2 (+) xs ys))"
  using share_add [OF assms(1-3)] assms(4) by (simp add: add3_def column_maps)

lemma double_column:
  assumes "aby3_ok L" "sharing A (column xs)"
  shows "sharing (\<lambda>p. lib_const_mul L 2 (A p)) (column (map ((*) 2) xs))"
proof -
  have "sharing (\<lambda>p. lib_const_mul L 2 (A p)) (map_mat ((*) 2) (column xs))"
    by (rule sharing_unary [OF assms(2), where f = "\<lambda>_. (*) 2"]) (simp_all add: lib_const_mul_eq [OF assms(1)] algebra_simps)
  then show ?thesis by (simp add: column_maps)
qed

text \<open>Rows of a product.\<close>

definition near_rows :: "nat \<Rightarrow> i64 list \<Rightarrow> i64 list \<Rightarrow> i64 list \<Rightarrow> bool" where
  "near_rows D xs ys zs \<longleftrightarrow> length zs = length xs \<and> (\<forall>i < length xs. fx_near D (xs ! i) (ys ! i) (zs ! i))"

lemma near_rowsD: "near_rows D xs ys zs \<Longrightarrow> i < length xs \<Longrightarrow> fx_near D (xs ! i) (ys ! i) (zs ! i)"
  by (simp add: near_rows_def)

lemma product_column:
  assumes "fx_ok (fx_near D) X" "sharing A (column xs)" "sharing B (column ys)" "length xs = length ys"
  shows "\<exists>S zs rt'. MPC_Dotproduct X A B rt = Inr (S, rt') \<and> sharing S (column zs) \<and> near_rows D xs ys zs"
proof -
  obtain S z rt' where z: "fx_dot_mul X A B rt = Inr (S, rt')" "sharing S z" "entries2 (fx_near D) (column xs) (column ys) z"
    using fx_dot [OF assms(1-3), of rt] assms(4) by auto
  have "shape (sh0 (A p)) = shape (sh0 (B p))" if "p \<in> {0, 1, 2}" for p
    using that assms(2-4) by (simp add: sharing_shape)
  then have "MPC_Dotproduct X A B rt = Inr (S, rt')" using z(1) by (simp add: MPC_Dotproduct_def par3_def shape_def)
  moreover have "z = column (m_data z)" "length (m_data z) = length xs"
    using z(3) by (auto simp: entries2_def shape_def column_def mat_ok_def)
  moreover from this(2) have "near_rows D xs ys (m_data z)" using z(3) by (simp add: entries2_def near_rows_def column_def)
  ultimately show ?thesis using z(2) by metis
qed

section \<open>Step functions on columns\<close>

lemma piece_values:
  "piece_value D mAbs_pieces w = (if sint w < 0 then - w else w)"
  "piece_value D mQuoDertermine_pieces w = (if sint w < 0 then - (2 ^ D) else 2 ^ D)"
  "piece_value D mdivision_pieces w = (if sint w < 0 then 0 else 2 ^ D)"
  by (simp_all add: piece_value_def mAbs_pieces_def mQuoDertermine_pieces_def mdivision_pieces_def)

lemma steps_column:
  assumes "div_ok D X V" "sharing Y (column ys)"
  shows "\<exists>S rt'. MPC_Abs X Y rt = Inr (S, rt') \<and> sharing S (column (map (\<lambda>w. if sint w < 0 then - w else w) ys))"
    and "\<exists>S rt'. MPC_QuoDertermine X Y rt = Inr (S, rt') \<and> sharing S (column (map (\<lambda>w. if sint w < 0 then - (2 ^ D) else 2 ^ D) ys))"
    and "\<exists>S rt'. MPC_DReLu X Y rt = Inr (S, rt') \<and> sharing S (column (map (\<lambda>w. if sint w < 0 then 0 else 2 ^ D) ys))"
  using div_piece [OF assms(1) _ assms(2), of mAbs_pieces rt] div_piece [OF assms(1) _ assms(2), of mQuoDertermine_pieces rt]
    div_piece [OF assms(1) _ assms(2), of mdivision_pieces rt]
  by (simp_all add: MPC_Abs_def MPC_QuoDertermine_def MPC_DReLu_def column_maps piece_values [abs_def])

text \<open>The sign of a difference, revealed to all.\<close>

lemma revealed_signs:
  assumes "div_ok D X V" "sharing Y (column ys)"
  shows "\<exists>S rt1 rt2. MPC_DReLu X Y rt = Inr (S, rt1) \<and>
    revealAll_f64 X V S rt1 = Inr (map (\<lambda>w. fx_to_double X (if sint w < 0 then 0 else 2 ^ D)) ys, rt2)"
proof -
  obtain S rt1 where S: "MPC_DReLu X Y rt = Inr (S, rt1)" "sharing S (column (map (\<lambda>w. if sint w < 0 then 0 else 2 ^ D) ys))"
    using steps_column(3) [OF assms] by blast
  with div_reveal [OF assms(1) S(2), of rt1] show ?thesis by (auto simp: revealAll_f64_def column_def)
qed

lemma pick_column:
  assumes "sharing S (column xs)" "\<forall>i \<in> set idx. i < length xs"
  shows "sharing (pick_rows idx S) (column (map ((!) xs) idx))"
proof -
  note s = sharingD [OF assms(1)]
  have len: "length (m_data (sh0 (S 0))) = length xs" "length (m_data (sh0 (S 1))) = length xs" "length (m_data (sh0 (S 2))) = length xs"
    using s(4-9) by (simp_all add: mat_ok_def shape_def column_def)
  have "m_data (column xs) = m_data (map2_mat (+) (map2_mat (+) (sh0 (S 0)) (sh0 (S 1))) (sh0 (S 2)))" by (rule arg_cong [OF s(10)])
  then have e: "xs = m_data (map2_mat (+) (map2_mat (+) (sh0 (S 0)) (sh0 (S 1))) (sh0 (S 2)))" by (simp add: column_def)
  have "xs ! i = m_data (sh0 (S 0)) ! i + m_data (sh0 (S 1)) ! i + m_data (sh0 (S 2)) ! i" if "i < length xs" for i
  proof -
    have "xs ! i = m_data (map2_mat (+) (map2_mat (+) (sh0 (S 0)) (sh0 (S 1))) (sh0 (S 2))) ! i" by (rule arg_cong [OF e])
    then show ?thesis using that len by simp
  qed
  then have "column (map ((!) xs) idx) = map2_mat (+) (map2_mat (+) (pick_mat idx (sh0 (S 0))) (pick_mat idx (sh0 (S 1)))) (pick_mat idx (sh0 (S 2)))"
    using assms(2) by (simp add: column_def map2_mat_def pick_mat_def) (intro nth_equalityI, simp_all)
  then show ?thesis using s(1-3) by (simp add: sharing_def pick_rows_def) (simp add: pick_mat_def shape_def mat_ok_def column_def)
qed

section \<open>The search for a power of two\<close>

text \<open>A round fixes one more binary digit of the number that is searched.\<close>

lemma next_digit:
  fixes m i :: nat
  defines "r \<equiv> m div 2 ^ Suc i * 2 ^ Suc i + 2 ^ i"
  shows "m div 2 ^ Suc i * 2 ^ Suc i + 2 ^ i * (if r \<le> m then 1 else 0) = m div 2 ^ i * 2 ^ i"
proof -
  define q where "q = m div 2 ^ i"
  have q2: "m div 2 ^ Suc i = q div 2" by (simp only: q_def power_Suc2 div_mult2_eq)
  have "r = (2 * (q div 2) + 1) * 2 ^ i" unfolding r_def q2 by (simp add: algebra_simps)
  then have "r \<le> m \<longleftrightarrow> 2 * (q div 2) + 1 \<le> q" by (simp add: q_def less_eq_div_iff_mult_less_eq)
  also have "\<dots> \<longleftrightarrow> odd q" by presburger
  finally have t: "r \<le> m \<longleftrightarrow> odd q" .
  have "2 * (q div 2) + (if odd q then 1 else 0) = q" by presburger
  then have "(2 * (q div 2) + (if odd q then 1 else 0)) * 2 ^ i = q * 2 ^ i" by simp
  then show ?thesis unfolding q2 t q_def [symmetric] by (simp add: algebra_simps split: if_splits)
qed

definition tested :: "nat \<Rightarrow> nat \<Rightarrow> nat" where
  "tested i m = m div 2 ^ Suc i * 2 ^ Suc i + 2 ^ i"

lemma tested_bound: "m < 64 \<Longrightarrow> i < 6 \<Longrightarrow> tested i m < 64"
proof -
  assume "m < 64" "i < 6"
  define k where "k = 5 - i"
  have k: "(64 :: nat) = 2 ^ Suc i * 2 ^ k" using \<open>i < 6\<close> by (simp add: k_def flip: power_Suc power_add)
  have "m div 2 ^ Suc i < 2 ^ k" using \<open>m < 64\<close> k by (simp add: less_mult_imp_div_less mult.commute)
  then have "Suc (m div 2 ^ Suc i) * 2 ^ Suc i \<le> 2 ^ k * 2 ^ Suc i" by (intro mult_le_mono1) simp
  then have "m div 2 ^ Suc i * 2 ^ Suc i + 2 ^ Suc i \<le> 64" unfolding k mult.commute [of "2 ^ k"] mult_Suc add.commute [of "2 ^ Suc i"] .
  moreover have "(2 :: nat) ^ i < 2 ^ Suc i" by simp
  ultimately show ?thesis unfolding tested_def by linarith
qed

text \<open>
  The rounds find \<open>ms\<close> when every difference that is looked at has the sign it should: not negative exactly if the
  tested number is at most the one searched.
\<close>

lemma pow_round_search:
  assumes ok: "aby3_ok L" "div_ok D X V" and i: "i < 6" and ms: "\<forall>m \<in> set ms. m < 64" "length ms = length ys"
    and diff: "\<And>R rs. sharing R (column rs) \<Longrightarrow> length rs = length ys \<Longrightarrow> sharing (diff Y R) (column (map2 d ys rs))"
    and test: "\<And>j. j < length ys \<Longrightarrow> 0 \<le> sint (d (ys ! j) (fx_of_double X (bound (tested i (ms ! j))))) \<longleftrightarrow> tested i (ms ! j) \<le> ms ! j"
  shows "\<exists>rt'. pow_round L X V bound diff Y i (map (\<lambda>m. m div 2 ^ Suc i * 2 ^ Suc i) ms) rt = Inr (map (\<lambda>m. m div 2 ^ i * 2 ^ i) ms, rt')"
proof -
  let ?rank = "map (tested i) ms"
  have rank: "map (\<lambda>a. a + 2 ^ i) (map (\<lambda>m. m div 2 ^ Suc i * 2 ^ Suc i) ms) = ?rank" by (simp add: tested_def)
  have small: "list_all (\<lambda>r. r < 64) ?rank" using ms(1) tested_bound i by (auto simp: list_all_iff)
  obtain R rt1 where R: "share_doubles L X (map bound ?rank) rt = Inr (R, rt1)" "sharing R (column (map (fx_of_double X) (map bound ?rank)))"
    using share_doubles_column [OF ok(1)] by blast
  have "sharing (diff Y R) (column (map2 d ys (map (fx_of_double X) (map bound ?rank))))" using diff [OF R(2)] ms(2) by simp
  then obtain S rt2 rt3 where S: "MPC_DReLu X (diff Y R) rt1 = Inr (S, rt2)"
    "revealAll_f64 X V S rt2 = Inr (map (\<lambda>w. fx_to_double X (if sint w < 0 then 0 else 2 ^ D)) (map2 d ys (map (fx_of_double X) (map bound ?rank))), rt3)"
    using revealed_signs [OF ok(2)] by blast
  let ?ds = "map (\<lambda>w. fx_to_double X (if sint w < 0 then 0 else 2 ^ D)) (map2 d ys (map (fx_of_double X) (map bound ?rank)))"
  have "map2 (\<lambda>a e. a + 2 ^ i * dv_to_u64 V e) (map (\<lambda>m. m div 2 ^ Suc i * 2 ^ Suc i) ms) ?ds = map (\<lambda>m. m div 2 ^ i * 2 ^ i) ms"
  proof (rule nth_equalityI)
    fix j assume "j < length (map2 (\<lambda>a e. a + 2 ^ i * dv_to_u64 V e) (map (\<lambda>m. m div 2 ^ Suc i * 2 ^ Suc i) ms) ?ds)"
    then have j: "j < length ms" "j < length ys" using ms(2) by simp_all
    have "dv_to_u64 V (?ds ! j) = (if tested i (ms ! j) \<le> ms ! j then 1 else 0)"
      using test [OF j(2)] j div_flag(1,2) [OF ok(2)] by (auto simp: not_less)
    then show "map2 (\<lambda>a e. a + 2 ^ i * dv_to_u64 V e) (map (\<lambda>m. m div 2 ^ Suc i * 2 ^ Suc i) ms) ?ds ! j = map (\<lambda>m. m div 2 ^ i * 2 ^ i) ms ! j"
      using j ms(2) next_digit [of "ms ! j" i] by (simp add: tested_def)
  qed (use ms(2) in simp)
  then show ?thesis using R(1) S small unfolding pow_round_def rank Let_def by simp
qed

lemma pow_rounds_search:
  assumes ok: "aby3_ok L" "div_ok D X V" and ms: "\<forall>m \<in> set ms. m < 64" "length ms = length ys"
    and diff: "\<And>R rs. sharing R (column rs) \<Longrightarrow> length rs = length ys \<Longrightarrow> sharing (diff Y R) (column (map2 d ys rs))"
    and test: "\<And>i j. i < 6 \<Longrightarrow> j < length ys \<Longrightarrow>
      0 \<le> sint (d (ys ! j) (fx_of_double X (bound (tested i (ms ! j))))) \<longleftrightarrow> tested i (ms ! j) \<le> ms ! j"
    and "k \<le> 6"
  shows "\<exists>rt'. pow_rounds L X V bound diff Y k (map (\<lambda>m. m div 2 ^ k * 2 ^ k) ms) rt = Inr (ms, rt')"
  using \<open>k \<le> 6\<close>
proof (induction k arbitrary: rt)
  case (Suc k)
  then have "k < 6" by simp
  obtain rt1 where "pow_round L X V bound diff Y k (map (\<lambda>m. m div 2 ^ Suc k * 2 ^ Suc k) ms) rt = Inr (map (\<lambda>m. m div 2 ^ k * 2 ^ k) ms, rt1)"
    using pow_round_search [where d = d and ys = ys and diff = diff and bound = bound and Y = Y and ms = ms and i = k, OF ok \<open>k < 6\<close> ms diff test [OF \<open>k < 6\<close>]] by blast
  then show ?case using Suc.IH [of rt1] Suc.prems by simp
qed simp

lemma whole_search:
  assumes "aby3_ok L" "div_ok D X V" "\<forall>m \<in> set ms. m < 64" "length ms = length ys"
    and "\<And>R rs. sharing R (column rs) \<Longrightarrow> length rs = length ys \<Longrightarrow> sharing (diff Y R) (column (map2 d ys rs))"
    and "\<And>i j. i < 6 \<Longrightarrow> j < length ys \<Longrightarrow>
      0 \<le> sint (d (ys ! j) (fx_of_double X (bound (tested i (ms ! j))))) \<longleftrightarrow> tested i (ms ! j) \<le> ms ! j"
  shows "\<exists>rt'. pow_rounds L X V bound diff Y 6 (replicate (length ys) 0) rt = Inr (ms, rt')"
proof -
  have "map (\<lambda>m. m div 2 ^ 6 * 2 ^ 6) ms = replicate (length ys) 0"
    using assms(3,4) by (intro nth_equalityI) auto
  then show ?thesis using pow_rounds_search [where d = d and ys = ys and diff = diff and bound = bound and Y = Y and ms = ms and k = 6 and rt = rt, OF assms] by simp
qed

section \<open>Signed arithmetic\<close>

lemma sint_of_small: "- (2 ^ 63) \<le> k \<Longrightarrow> k < 2 ^ 63 \<Longrightarrow> sint (word_of_int k :: i64) = k"
proof -
  assume k: "- (2 ^ 63) \<le> k" "k < 2 ^ 63"
  have "sint (word_of_int k :: i64) = signed_take_bit 63 k" by (simp add: signed_of_int)
  also have "\<dots> = k" using k by (intro signed_take_bit_int_eq_self) simp_all
  finally show ?thesis .
qed

lemma sint_arith:
  fixes x y :: i64
  shows "\<bar>sint x - sint y\<bar> < 2 ^ 63 \<Longrightarrow> sint (x - y) = sint x - sint y"
    and "\<bar>sint x + sint y\<bar> < 2 ^ 63 \<Longrightarrow> sint (x + y) = sint x + sint y"
    and "\<bar>sint x\<bar> < 2 ^ 63 \<Longrightarrow> sint (- x) = - sint x"
    and "\<bar>2 * sint x\<bar> < 2 ^ 63 \<Longrightarrow> sint (2 * x) = 2 * sint x"
proof -
  have "x - y = word_of_int (sint x - sint y)" "x + y = word_of_int (sint x + sint y)" "- x = word_of_int (- sint x)"
    "2 * x = word_of_int (2 * sint x)" by simp_all
  then show "\<bar>sint x - sint y\<bar> < 2 ^ 63 \<Longrightarrow> sint (x - y) = sint x - sint y"
    "\<bar>sint x + sint y\<bar> < 2 ^ 63 \<Longrightarrow> sint (x + y) = sint x + sint y"
    "\<bar>sint x\<bar> < 2 ^ 63 \<Longrightarrow> sint (- x) = - sint x" "\<bar>2 * sint x\<bar> < 2 ^ 63 \<Longrightarrow> sint (2 * x) = 2 * sint x"
    using sint_of_small [of "sint x - sint y"] sint_of_small [of "sint x + sint y"] sint_of_small [of "- sint x"]
      sint_of_small [of "2 * sint x"] by (simp_all only:)
qed

lemma sint_of_nonneg: "0 \<le> k \<Longrightarrow> k \<le> 2 ^ 61 \<Longrightarrow> sint (word_of_int k :: i64) = k"
  by (intro sint_of_small) simp_all

lemma small_diff:
  fixes x y :: i64
  assumes "0 \<le> sint x" "sint x \<le> 2 ^ 61" "0 \<le> sint y" "sint y \<le> 2 ^ 61"
  shows "sint (x - y) = sint x - sint y"
  using assms by (intro sint_arith(1)) simp

lemma sint_pow2: "n < 63 \<Longrightarrow> sint (2 ^ n :: i64) = 2 ^ n"
proof -
  assume "n < 63"
  then have "(2 :: int) ^ n < 2 ^ 63" by (intro power_strict_increasing) simp_all
  then have "sint (word_of_int (2 ^ n) :: i64) = 2 ^ n" by (intro sint_of_small) (simp_all add: order_trans [of _ 0])
  then show ?thesis by simp
qed

section \<open>Ranks\<close>

text \<open>
  The rank of a positive representation \<open>y\<close>: below one half the largest power below \<open>D\<close> with which \<open>y\<close> can be multiplied without
  exceeding one, negated; otherwise the number of binary digits of the whole part, at least one.
\<close>

definition rank_ok :: "nat \<Rightarrow> int \<Rightarrow> int \<Rightarrow> bool" where
  "rank_ok D y k \<longleftrightarrow>
     (if y < 2 ^ (D - 1) then \<exists>m \<le> D. k = - int m \<and> y * 2 ^ m \<le> 2 ^ D \<and> 2 ^ D < y * 2 ^ Suc m
      else \<exists>m < 32. k = int m + 1 \<and> y < 2 ^ (D + Suc m) \<and> (m = 0 \<or> 2 ^ (D + m) \<le> y))"

lemma largest_power:
  fixes y :: int
  assumes "0 < y" "y < 2 ^ (D + 32)"
  obtains m where "m < 32" "\<And>r. 0 < r \<Longrightarrow> 2 ^ (D + r) \<le> y \<longleftrightarrow> r \<le> m" "y < 2 ^ (D + Suc m)" "m = 0 \<or> 2 ^ (D + m) \<le> y"
proof -
  have "1 \<le> nat y" using assms(1) by simp
  then obtain n where n: "2 ^ n \<le> nat y" "nat y < 2 ^ (n + 1)" using ex_power_ivl1 [of 2 "nat y"] by blast
  then have y: "2 ^ n \<le> y" "y < 2 ^ (n + 1)" using assms(1) by (simp_all add: le_nat_iff nat_less_iff)
  have mono: "2 ^ k \<le> y \<longleftrightarrow> k \<le> n" for k
  proof
    assume "2 ^ k \<le> y"
    then have "(2 :: int) ^ k < 2 ^ (n + 1)" using y(2) by linarith
    then have "k < n + 1" by (rule power_less_imp_less_exp [rotated]) simp
    then show "k \<le> n" by simp
  next
    assume "k \<le> n"
    then have "(2 :: int) ^ k \<le> 2 ^ n" by (intro power_increasing) simp_all
    then show "2 ^ k \<le> y" using y(1) by linarith
  qed
  have "n < D + 32"
  proof -
    have "(2 :: int) ^ n < 2 ^ (D + 32)" using y(1) assms(2) by linarith
    then show ?thesis by (simp only: power_strict_increasing_iff)
  qed
  show ?thesis
  proof (rule that [of "n - D"])
    show "n - D < 32" using \<open>n < D + 32\<close> by simp
    show "2 ^ (D + r) \<le> y \<longleftrightarrow> r \<le> n - D" if "0 < r" for r using mono [of "D + r"] that by auto
    show "y < 2 ^ (D + Suc (n - D))" using mono [of "D + Suc (n - D)"] by linarith
    show "n - D = 0 \<or> 2 ^ (D + (n - D)) \<le> y" using mono by auto
  qed
qed

lemma largest_factor:
  fixes y :: int
  assumes "0 < y" "y \<le> 2 ^ D"
  obtains m where "m \<le> D" "\<And>r. y * 2 ^ r \<le> 2 ^ D \<longleftrightarrow> r \<le> m"
proof -
  define m where "m = (GREATEST r. y * 2 ^ r \<le> 2 ^ D)"
  have b: "r \<le> D" if "y * 2 ^ r \<le> 2 ^ D" for r
  proof -
    have "(2 :: int) ^ r \<le> y * 2 ^ r" using assms(1) by simp
    then have "(2 :: int) ^ r \<le> 2 ^ D" using that by linarith
    then show ?thesis by simp
  qed
  have m: "y * 2 ^ m \<le> 2 ^ D" unfolding m_def by (rule GreatestI_nat [where k = 0 and b = D]) (use assms b in auto)
  show ?thesis
  proof (rule that [of m])
    show "m \<le> D" using b [OF m] .
    show "y * 2 ^ r \<le> 2 ^ D \<longleftrightarrow> r \<le> m" for r
    proof
      assume "y * 2 ^ r \<le> 2 ^ D"
      then show "r \<le> m" unfolding m_def by (rule Greatest_le_nat [where b = D]) (use b in auto)
    next
      assume "r \<le> m"
      then have "(2 :: int) ^ r \<le> 2 ^ m" by (intro power_increasing) simp_all
      then have "y * 2 ^ r \<le> y * 2 ^ m" using assms(1) by simp
      then show "y * 2 ^ r \<le> 2 ^ D" using m by linarith
    qed
  qed
qed

lemma more_rank_ok:
  assumes "2 ^ (D - 1) \<le> y" "y < 2 ^ (D + 32)"
  shows "\<exists>m < 32. rank_ok D y (int m + 1) \<and> (\<forall>r > 0. 2 ^ (D + r) \<le> y \<longleftrightarrow> r \<le> m)"
proof -
  have "0 < y" using assms(1) by (simp add: order_less_le_trans [of 0 "2 ^ (D - 1)"])
  from largest_power [OF this assms(2)] obtain m where "m < 32" "\<And>r. 0 < r \<Longrightarrow> 2 ^ (D + r) \<le> y \<longleftrightarrow> r \<le> m"
    "y < 2 ^ (D + Suc m)" "m = 0 \<or> 2 ^ (D + m) \<le> y" by blast
  then show ?thesis using assms(1) by (auto simp: rank_ok_def intro!: exI [of _ m])
qed

lemma less_rank_ok:
  assumes "0 < y" "y < 2 ^ (D - 1)"
  shows "\<exists>m \<le> D. rank_ok D y (- int m) \<and> (\<forall>r. y * 2 ^ r \<le> 2 ^ D \<longleftrightarrow> r \<le> m)"
proof -
  have "(2 :: int) ^ (D - 1) \<le> 2 ^ D" by (intro power_increasing) simp_all
  then have "y \<le> 2 ^ D" using assms(2) by linarith
  from largest_factor [OF assms(1) this] obtain m where m: "m \<le> D" "\<And>r. y * 2 ^ r \<le> 2 ^ D \<longleftrightarrow> r \<le> m" by blast
  moreover have "y * 2 ^ m \<le> 2 ^ D" "2 ^ D < y * 2 ^ Suc m" using m(2) [of m] m(2) [of "Suc m"] by simp_all
  ultimately show ?thesis using assms(2) by (auto simp: rank_ok_def)
qed

section \<open>The ranks of a column\<close>

lemma tested_positive: "0 < tested i m"
  by (simp add: tested_def)

lemma tested_small: "m < 32 \<Longrightarrow> i < 6 \<Longrightarrow> tested i m \<le> 32"
proof (cases "i = 5")
  case False
  assume m: "m < 32" "i < 6"
  then have i: "i < 5" using False by simp
  define k where "k = 4 - i"
  have k: "(32 :: nat) = 2 ^ Suc i * 2 ^ k" using i by (simp add: k_def flip: power_Suc power_add)
  have "m div 2 ^ Suc i < 2 ^ k" using m(1) k by (simp add: less_mult_imp_div_less mult.commute)
  then have "Suc (m div 2 ^ Suc i) * 2 ^ Suc i \<le> 2 ^ k * 2 ^ Suc i" by (intro mult_le_mono1) simp
  then have "m div 2 ^ Suc i * 2 ^ Suc i + 2 ^ Suc i \<le> 32" unfolding k mult.commute [of "2 ^ k"] mult_Suc add.commute [of "2 ^ Suc i"] .
  moreover have "(2 :: nat) ^ i \<le> 2 ^ Suc i" by simp
  ultimately show ?thesis unfolding tested_def by linarith
qed (simp add: tested_def)

lemma list_choice: "\<forall>y \<in> set ys. \<exists>m. P y m \<Longrightarrow> \<exists>ms. length ms = length ys \<and> (\<forall>j < length ys. P (ys ! j) (ms ! j))"
proof -
  assume "\<forall>y \<in> set ys. \<exists>m. P y m"
  then obtain f where "\<forall>y \<in> set ys. P y (f y)" by metis
  then show ?thesis by (intro exI [of _ "map f ys"]) auto
qed

lemma MPC_Pow_ranks:
  assumes ok: "aby3_ok L" "div_ok D X V" and "D \<le> 29" and Y: "sharing Y (column ys)"
    and ys: "\<forall>y \<in> set ys. 2 ^ (D - 1) \<le> sint y \<and> sint y < 2 ^ (D + 32)"
  shows "\<exists>ranks rt'. MPC_Pow L X V (length ys) Y rt = Inr (ranks, rt') \<and> length ranks = length ys \<and>
    (\<forall>j < length ys. rank_ok D (sint (ys ! j)) (ranks ! j))"
proof -
  have "\<forall>y \<in> set ys. \<exists>m. m < 32 \<and> rank_ok D (sint y) (int m + 1) \<and> (\<forall>r > 0. 2 ^ (D + r) \<le> sint y \<longleftrightarrow> r \<le> m)"
    using ys more_rank_ok by meson
  then obtain ms where ms: "length ms = length ys"
    "\<forall>j < length ys. ms ! j < 32 \<and> rank_ok D (sint (ys ! j)) (int (ms ! j) + 1) \<and> (\<forall>r > 0. 2 ^ (D + r) \<le> sint (ys ! j) \<longleftrightarrow> r \<le> ms ! j)"
    using list_choice [of ys "\<lambda>y m. m < 32 \<and> rank_ok D (sint y) (int m + 1) \<and> (\<forall>r > 0. 2 ^ (D + r) \<le> sint y \<longleftrightarrow> r \<le> m)"] by blast
  have small: "\<forall>m \<in> set ms. m < 64" 
  proof
    fix m assume "m \<in> set ms"
    then obtain j where "j < length ms" "m = ms ! j" by (auto simp: in_set_conv_nth)
    then have "m < 32" using ms by simp
    then show "m < 64" by simp
  qed
  have test: "0 \<le> sint (ys ! j - fx_of_double X (dv_pow2 V (int (tested i (ms ! j))))) \<longleftrightarrow> tested i (ms ! j) \<le> ms ! j"
    if "i < 6" "j < length ys" for i j
  proof -
    let ?r = "tested i (ms ! j)"
    have r: "?r \<le> 32" "0 < ?r" using ms(2) that tested_small tested_positive by auto
    have p: "fx_of_double X (dv_pow2 V (int ?r)) = word_of_int (2 ^ (D + ?r))"
      using div_pow2 [OF ok(2), of "int ?r"] r \<open>D \<le> 29\<close> by (simp add: nat_add_distrib add.commute)
    have s: "sint (2 ^ (D + ?r) :: i64) = 2 ^ (D + ?r)" using r \<open>D \<le> 29\<close> by (intro sint_pow2) simp
    have "(2 :: int) ^ (D + ?r) \<le> 2 ^ 61" "(2 :: int) ^ (D + 32) \<le> 2 ^ 61" using r \<open>D \<le> 29\<close> by (intro power_increasing; simp)+
    moreover have "0 < sint (ys ! j)" "sint (ys ! j) < 2 ^ (D + 32)"
      using ys that(2) by (auto intro: order_less_le_trans [of 0 "2 ^ (D - 1)"])
    moreover have "(0 :: int) < 2 ^ (D + ?r)" by simp
    ultimately have "sint (ys ! j - 2 ^ (D + ?r)) = sint (ys ! j) - sint (2 ^ (D + ?r) :: i64)" using s by (intro small_diff; linarith)
    then have "sint (ys ! j - fx_of_double X (dv_pow2 V (int ?r))) = sint (ys ! j) - 2 ^ (D + ?r)" unfolding s p by simp
    then show ?thesis using ms(2) that(2) r(2) by simp
  qed
  have diff: "sharing (sub3 L Y R) (column (map2 (-) ys rs))" if "sharing R (column rs)" "length rs = length ys" for R rs
    using sub3_column [OF ok(1) Y that(1)] that(2) by simp
  obtain rt' where "pow_rounds L X V (\<lambda>r. dv_pow2 V (int r)) (sub3 L) Y 6 (replicate (length ys) 0) rt = Inr (ms, rt')"
    using whole_search [where d = "(-)" and diff = "sub3 L" and bound = "\<lambda>r. dv_pow2 V (int r)" and Y = Y and ys = ys and rt = rt,
        OF ok small ms(1) diff test] by blast
  then show ?thesis using ms by (simp add: MPC_Pow_def)
qed

lemma MPC_Pow2_ranks:
  assumes ok: "aby3_ok L" "div_ok D X V" and "D \<le> 29" and Y: "sharing Y (column ys)"
    and ys: "\<forall>y \<in> set ys. 0 < sint y \<and> sint y < 2 ^ (D - 1)"
  shows "\<exists>ranks rt'. MPC_Pow2 L X V (length ys) Y rt = Inr (ranks, rt') \<and> length ranks = length ys \<and>
    (\<forall>j < length ys. rank_ok D (sint (ys ! j)) (ranks ! j))"
proof -
  have "\<forall>y \<in> set ys. \<exists>m. m \<le> D \<and> rank_ok D (sint y) (- int m) \<and> (\<forall>r. sint y * 2 ^ r \<le> 2 ^ D \<longleftrightarrow> r \<le> m)"
    using ys less_rank_ok by meson
  then obtain ms where ms: "length ms = length ys"
    "\<forall>j < length ys. ms ! j \<le> D \<and> rank_ok D (sint (ys ! j)) (- int (ms ! j)) \<and> (\<forall>r. sint (ys ! j) * 2 ^ r \<le> 2 ^ D \<longleftrightarrow> r \<le> ms ! j)"
    using list_choice [of ys "\<lambda>y m. m \<le> D \<and> rank_ok D (sint y) (- int m) \<and> (\<forall>r. sint y * 2 ^ r \<le> 2 ^ D \<longleftrightarrow> r \<le> m)"] by blast
  have small: "\<forall>m \<in> set ms. m < 64" 
  proof
    fix m assume "m \<in> set ms"
    then obtain j where "j < length ms" "m = ms ! j" by (auto simp: in_set_conv_nth)
    then have "m \<le> D" using ms by simp
    then show "m < 64" using \<open>D \<le> 29\<close> by simp
  qed
  have test: "0 \<le> sint (fx_of_double X (dv_pow2 V (- int (tested i (ms ! j)))) - ys ! j) \<longleftrightarrow> tested i (ms ! j) \<le> ms ! j"
    if "i < 6" "j < length ys" for i j
  proof -
    let ?r = "tested i (ms ! j)"
    let ?p = "if ?r \<le> D then 2 ^ (D - ?r) else 0 :: int"
    have y: "0 < sint (ys ! j)" "sint (ys ! j) < 2 ^ (D - 1)" using ys that(2) by auto
    have p: "0 \<le> ?p" "?p \<le> 2 ^ D" "(2 :: int) ^ (D - 1) \<le> 2 ^ D" using \<open>D \<le> 29\<close> by (simp_all add: power_increasing)
    have "(2 :: int) ^ D \<le> 2 ^ 61" using \<open>D \<le> 29\<close> by (intro power_increasing) simp_all
    have "fx_of_double X (dv_pow2 V (- int ?r)) = word_of_int ?p"
      using div_pow2 [OF ok(2), of "- int ?r"] \<open>D \<le> 29\<close> by (auto simp: nat_diff_distrib not_less)
    moreover have s: "sint (word_of_int ?p :: i64) = ?p"
      using p \<open>2 ^ D \<le> 2 ^ 61\<close> by (intro sint_of_nonneg; linarith)
    moreover have "sint (word_of_int ?p - ys ! j) = sint (word_of_int ?p :: i64) - sint (ys ! j)"
      using p y s \<open>2 ^ D \<le> 2 ^ 61\<close> by (intro small_diff; linarith)
    ultimately have "sint (fx_of_double X (dv_pow2 V (- int ?r)) - ys ! j) = ?p - sint (ys ! j)" by (simp only:)
    moreover have "sint (ys ! j) \<le> ?p \<longleftrightarrow> sint (ys ! j) * 2 ^ ?r \<le> 2 ^ D"
    proof (cases "?r \<le> D")
      case True
      then have "(2 :: int) ^ D = 2 ^ (D - ?r) * 2 ^ ?r" by (simp flip: power_add)
      then show ?thesis using True by simp
    next
      case False
      then have "(2 :: int) ^ D < 2 ^ ?r" by (intro power_strict_increasing) simp_all
      moreover have "(2 :: int) ^ ?r \<le> sint (ys ! j) * 2 ^ ?r" using y(1) by simp
      ultimately have "\<not> sint (ys ! j) * 2 ^ ?r \<le> 2 ^ D" by linarith
      then show ?thesis using False y(1) by simp
    qed
    ultimately show ?thesis using ms(2) that(2) by simp
  qed
  have diff: "sharing (sub3 L R Y) (column (map2 (\<lambda>y r. r - y) ys rs))" if "sharing R (column rs)" "length rs = length ys" for R rs
  proof -
    have "map2 (-) rs ys = map2 (\<lambda>y r. r - y) ys rs" using that(2) by (intro nth_equalityI) simp_all
    then show ?thesis using sub3_column [OF ok(1) that(1) Y that(2)] by (simp only:)
  qed
  obtain rt' where "pow_rounds L X V (\<lambda>r. dv_pow2 V (- int r)) (\<lambda>Y r. sub3 L r Y) Y 6 (replicate (length ys) 0) rt = Inr (ms, rt')"
    using whole_search [where d = "\<lambda>y r. r - y" and diff = "\<lambda>Y r. sub3 L r Y" and bound = "\<lambda>r. dv_pow2 V (- int r)" and Y = Y and ys = ys and rt = rt,
        OF ok small ms(1) diff test] by blast
  then show ?thesis using ms by (simp add: MPC_Pow2_def)
qed

lemma index_where_Cons: "index_where P (f # fs) = (if P f then [0] else []) @ map Suc (index_where P fs)"
proof -
  have "[0..<length (f # fs)] = 0 # map Suc [0..<length fs]" by (metis length_Cons map_Suc_upt upt_conv_Cons zero_less_Suc)
  then show ?thesis unfolding index_where_def by (simp add: filter_map comp_def)
qed

lemma merge_ranks_rows:
  "merge_ranks fs (map g (index_where (\<lambda>f. f) fs)) (map h (index_where Not fs)) = map (\<lambda>i. if fs ! i then g i else h i) [0..<length fs]"
proof (induction fs arbitrary: g h)
  case Nil
  show ?case by (simp add: index_where_def)
next
  case (Cons f fs)
  have "[0..<length (f # fs)] = 0 # map Suc [0..<length fs]" by (metis length_Cons map_Suc_upt upt_conv_Cons zero_less_Suc)
  then show ?case using Cons [of "\<lambda>i. g (Suc i)" "\<lambda>i. h (Suc i)"] by (cases f) (simp_all add: index_where_Cons comp_def del: upt_Suc)
qed

lemma index_where_iff: "i \<in> set (index_where P fs) \<longleftrightarrow> i < length fs \<and> P (fs ! i)"
  by (auto simp: index_where_def)

text \<open>Ranks found for the rows of an index list, as a function of the row.\<close>

lemma ranks_by_row:
  assumes "distinct idx" "length ranks = length idx" "\<forall>j < length idx. Q (idx ! j) (ranks ! j)"
  shows "\<exists>g. ranks = map g idx \<and> (\<forall>i \<in> set idx. Q i (g i))"
proof -
  define g where "g i = ranks ! (THE j. j < length idx \<and> idx ! j = i)" for i
  have "(THE j'. j' < length idx \<and> idx ! j' = idx ! j) = j" if "j < length idx" for j
    using that assms(1) by (intro the_equality) (auto simp: nth_eq_iff_index_eq)
  then have g: "g (idx ! j) = ranks ! j" if "j < length idx" for j using that by (simp add: g_def)
  then have "ranks = map g idx" using assms(2) by (intro nth_equalityI) simp_all
  moreover have "\<forall>i \<in> set idx. Q i (g i)" using assms(3) g by (auto simp: in_set_conv_nth)
  ultimately show ?thesis by blast
qed

lemma divisor_ranks_ok:
  assumes ok: "aby3_ok L" "div_ok D X V" and D: "1 \<le> D" "D \<le> 29" and Y: "sharing Y (column ys)"
    and ys: "\<forall>y \<in> set ys. 0 < sint y \<and> sint y < 2 ^ (D + 32)"
  shows "\<exists>ranks rt'. divisor_ranks L X V (length ys) Y rt = Inr (ranks, rt') \<and> length ranks = length ys \<and>
    (\<forall>j < length ys. rank_ok D (sint (ys ! j)) (ranks ! j))"
proof -
  have half: "fx_of_double X (dv_pow2 V (- 1)) = 2 ^ (D - 1)"
    using div_pow2 [OF ok(2), of "- 1"] D by (simp add: nat_diff_distrib)
  obtain H rt1 where H: "share_doubles L X (replicate (length ys) (dv_pow2 V (- 1))) rt = Inr (H, rt1)"
    "sharing H (column (replicate (length ys) (2 ^ (D - 1))))"
    using share_doubles_column [OF ok(1), of X "replicate (length ys) (dv_pow2 V (- 1))" rt] half by auto
  have "sharing (sub3 L Y H) (column (map2 (-) ys (replicate (length ys) (2 ^ (D - 1)))))" using sub3_column [OF ok(1) Y H(2)] by simp
  then obtain S rt2 rt3 where S: "MPC_DReLu X (sub3 L Y H) rt1 = Inr (S, rt2)"
    "revealAll_f64 X V S rt2 = Inr (map (\<lambda>w. fx_to_double X (if sint w < 0 then 0 else 2 ^ D)) (map2 (-) ys (replicate (length ys) (2 ^ (D - 1)))), rt3)"
    using revealed_signs [OF ok(2)] by blast
  define fs where "fs = map (\<lambda>y. sint y < 2 ^ (D - 1)) ys"
  have flags: "map (dv_is_zero V) (map (\<lambda>w. fx_to_double X (if sint w < 0 then 0 else 2 ^ D)) (map2 (-) ys (replicate (length ys) (2 ^ (D - 1))))) = fs"
  proof (rule nth_equalityI)
    fix j assume "j < length (map (dv_is_zero V) (map (\<lambda>w. fx_to_double X (if sint w < 0 then 0 else 2 ^ D)) (map2 (-) ys (replicate (length ys) (2 ^ (D - 1))))))"
    then have j: "j < length ys" by simp
    have "(2 :: int) ^ (D - 1) \<le> 2 ^ 61" "(2 :: int) ^ (D + 32) \<le> 2 ^ 61" "(0 :: int) < 2 ^ (D - 1)" using D by (intro power_increasing; simp)+ simp
    moreover have "0 < sint (ys ! j)" "sint (ys ! j) < 2 ^ (D + 32)" using ys j by auto
    moreover have s: "sint (2 ^ (D - 1) :: i64) = 2 ^ (D - 1)" using D by (intro sint_pow2) simp
    ultimately have "sint (ys ! j - 2 ^ (D - 1)) = sint (ys ! j) - sint (2 ^ (D - 1) :: i64)" by (intro small_diff; linarith)
    then have "sint (ys ! j - 2 ^ (D - 1)) = sint (ys ! j) - 2 ^ (D - 1)" unfolding s .
    then show "map (dv_is_zero V) (map (\<lambda>w. fx_to_double X (if sint w < 0 then 0 else 2 ^ D)) (map2 (-) ys (replicate (length ys) (2 ^ (D - 1))))) ! j = fs ! j"
      using j div_flag(3,4) [OF ok(2)] by (simp add: fs_def)
  qed (simp add: fs_def)
  have len: "length fs = length ys" by (simp add: fs_def)
  let ?less = "index_where (\<lambda>f. f) fs" and ?more = "index_where Not fs"
  have dist: "distinct ?less" "distinct ?more" by (simp_all add: index_where_def)
  have rows: "i < length ys \<and> (fs ! i \<longleftrightarrow> sint (ys ! i) < 2 ^ (D - 1))" if "i \<in> set ?less \<or> i \<in> set ?more" for i
    using that len by (auto simp: index_where_iff fs_def)
  obtain rl rt4 where rl: "(if ?less = [] then Inr ([], rt3) else MPC_Pow2 L X V (length ?less) (pick_rows ?less Y) rt3) = Inr (rl, rt4)"
    "length rl = length ?less" "\<forall>j < length ?less. rank_ok D (sint (ys ! (?less ! j))) (rl ! j)"
  proof (cases "?less = []")
    case False
    have "sharing (pick_rows ?less Y) (column (map ((!) ys) ?less))" using pick_column [OF Y] rows by blast
    moreover have "\<forall>y \<in> set (map ((!) ys) ?less). 0 < sint y \<and> sint y < 2 ^ (D - 1)"
      using ys rows by (auto simp: index_where_iff)
    ultimately show ?thesis using that False MPC_Pow2_ranks [OF ok D(2), of "pick_rows ?less Y" "map ((!) ys) ?less" rt3] by auto
  qed (use that in auto)
  obtain rm rt5 where rm: "(if ?more = [] then Inr ([], rt4) else MPC_Pow L X V (length ?more) (pick_rows ?more Y) rt4) = Inr (rm, rt5)"
    "length rm = length ?more" "\<forall>j < length ?more. rank_ok D (sint (ys ! (?more ! j))) (rm ! j)"
  proof (cases "?more = []")
    case False
    have "sharing (pick_rows ?more Y) (column (map ((!) ys) ?more))" using pick_column [OF Y] rows by blast
    moreover have "\<forall>y \<in> set (map ((!) ys) ?more). 2 ^ (D - 1) \<le> sint y \<and> sint y < 2 ^ (D + 32)"
      using ys len by (auto simp: index_where_iff fs_def not_less)
    ultimately show ?thesis using that False MPC_Pow_ranks [OF ok D(2), of "pick_rows ?more Y" "map ((!) ys) ?more" rt4] by auto
  qed (use that in auto)
  obtain g where g: "rl = map g ?less" "\<forall>i \<in> set ?less. rank_ok D (sint (ys ! i)) (g i)" using ranks_by_row [OF dist(1) rl(2,3)] by blast
  obtain h where h: "rm = map h ?more" "\<forall>i \<in> set ?more. rank_ok D (sint (ys ! i)) (h i)" using ranks_by_row [OF dist(2) rm(2,3)] by blast
  let ?ranks = "merge_ranks fs rl rm"
  have "?ranks = map (\<lambda>i. if fs ! i then g i else h i) [0..<length ys]" using merge_ranks_rows [of fs g h] g(1) h(1) len by simp
  then have "length ?ranks = length ys" "\<forall>j < length ys. rank_ok D (sint (ys ! j)) (?ranks ! j)"
    using g(2) h(2) len by (auto simp: index_where_iff)
  moreover have "divisor_ranks L X V (length ys) Y rt = Inr (?ranks, rt5)"
    unfolding divisor_ranks_def H(1) by (simp only: bindR_simps prod.case S flags Let_def rl(1) rm(1))
  ultimately show ?thesis by blast
qed

section \<open>The error of the quotient\<close>

lemma abs_prod_le: "\<bar>x\<bar> \<le> a \<Longrightarrow> \<bar>y\<bar> \<le> b \<Longrightarrow> \<bar>x * y\<bar> \<le> a * (b :: real)"
  by (simp add: abs_mult mult_mono)

text \<open>The defect of the first reciprocal: the polynomial of the scaled divisor, and rounding.\<close>

lemma first_defect:
  fixes b n h :: real
  assumes "0 \<le> h" "0 < b" "b * n \<le> 1" "0 \<le> b * n"
    and "\<bar>T - 29142 / 10000\<bar> \<le> h" "\<bar>c - b * n\<bar> \<le> h" "\<bar>w0 - (T - 2 * c) * n\<bar> \<le> h"
  shows "\<bar>(1 - b * w0) - (1 - b * n * (29142 / 10000 - 2 * (b * n)))\<bar> \<le> (b + 3) * h"
proof -
  have "\<bar>b * (w0 - (T - 2 * c) * n)\<bar> \<le> b * h" using assms(2,7) by (intro abs_prod_le) simp_all
  moreover have "\<bar>(b * n) * ((T - 29142 / 10000) - 2 * (c - b * n))\<bar> \<le> 1 * (3 * h)"
  proof (rule abs_prod_le)
    show "\<bar>b * n\<bar> \<le> 1" using assms(3,4) by linarith
    show "\<bar>(T - 29142 / 10000) - 2 * (c - b * n)\<bar> \<le> 3 * h" using assms(5,6) unfolding abs_le_iff by simp
  qed
  moreover have "(1 - b * w0) - (1 - b * n * (29142 / 10000 - 2 * (b * n))) =
      - (b * (w0 - (T - 2 * c) * n)) - (b * n) * ((T - 29142 / 10000) - 2 * (c - b * n))" by (simp add: algebra_simps)
  ultimately have "\<bar>(1 - b * w0) - (1 - b * n * (29142 / 10000 - 2 * (b * n)))\<bar> \<le> b * h + 1 * (3 * h)" by (simp only:)
  then show ?thesis by (simp add: algebra_simps)
qed

text \<open>The two factors leave the fourth power of the defect, and rounding.\<close>

lemma improved_quotient:
  fixes a b h \<delta> :: real
  assumes h: "0 \<le> h" "h \<le> 1 / 64" and ab: "0 \<le> a" "0 < b"
    and d: "\<delta> = 1 - b * w0" "\<bar>\<delta>\<bar> \<le> 1 / 2"
    and u: "\<bar>u - b * w0\<bar> \<le> h" and v: "\<bar>v - a * w0\<bar> \<le> h"
    and p: "\<bar>p - (1 + (1 - u)) * v\<bar> \<le> h" and e: "\<bar>e - (1 - u) * (1 - u)\<bar> \<le> h" and q: "\<bar>q - p * (1 + e)\<bar> \<le> h"
  shows "\<bar>q - a / b * (1 - \<delta> ^ 4)\<bar> \<le> (5 + 4 * (a / b)) * h"
proof -
  define Q where "Q = a / b"
  define e2 where "e2 = (1 - u) - \<delta>"
  have Q: "0 \<le> Q" "a * w0 = Q * (1 - \<delta>)" using ab d(1) by (simp_all add: Q_def)
  have e2: "1 - u = \<delta> + e2" "\<bar>e2\<bar> \<le> h" using u d(1) by (simp_all add: e2_def abs_le_iff) 
  have aw: "\<bar>Q * (1 - \<delta>)\<bar> \<le> Q * (3 / 2)" using Q(1) d(2) by (intro abs_prod_le) (simp_all add: abs_le_iff)
  have hh: "h * h \<le> h * (1 / 64)" using h by (intro mult_left_mono)
  have hQ: "0 \<le> h * Q" using h(1) Q(1) by simp
  let ?P = "(1 + \<delta>) * (Q * (1 - \<delta>))"
  have d2: "0 \<le> \<delta> * \<delta>" "\<delta> * \<delta> \<le> 1 / 4" using abs_prod_le [OF d(2) d(2)] by simp_all
  have P: "\<bar>?P\<bar> \<le> Q * 1"
  proof -
    have "?P = Q * (1 - \<delta> * \<delta>)" by (simp add: algebra_simps)
    moreover have "\<bar>Q * (1 - \<delta> * \<delta>)\<bar> \<le> Q * 1" using Q(1) d2 by (intro abs_prod_le) (simp_all add: abs_le_iff)
    ultimately show ?thesis by (simp only:)
  qed
  have "\<bar>(1 + (\<delta> + e2)) * (v - Q * (1 - \<delta>))\<bar> \<le> (97 / 64) * h + h * h"
  proof -
    have "\<bar>(1 + (\<delta> + e2)) * (v - Q * (1 - \<delta>))\<bar> \<le> (3 / 2 + h) * h"
      using e2(2) d(2) v h(1) by (intro abs_prod_le) (simp_all add: abs_le_iff Q(2), linarith+)
    then show ?thesis using h(1) by (simp add: algebra_simps)
  qed
  moreover have "\<bar>e2 * (Q * (1 - \<delta>))\<bar> \<le> h * (Q * (3 / 2))" using e2(2) aw by (rule abs_prod_le)
  moreover have "p - ?P = (p - (1 + (1 - u)) * v) + (1 + (\<delta> + e2)) * (v - Q * (1 - \<delta>)) + e2 * (Q * (1 - \<delta>))"
    by (simp add: e2(1) algebra_simps)
  ultimately have pP: "\<bar>p - ?P\<bar> \<le> h * (163 / 64) + (3 / 2) * (h * Q)" using p hh by (simp add: abs_le_iff) linarith
  have "\<bar>2 * (\<delta> * e2)\<bar> \<le> h" "\<bar>e2 * e2\<bar> \<le> h * (1 / 64)"
    using abs_prod_le [OF d(2) e2(2)] abs_prod_le [OF e2(2) e2(2)] hh by (simp_all add: abs_mult)
  moreover have "e - \<delta> * \<delta> = (e - (1 - u) * (1 - u)) + 2 * (\<delta> * e2) + e2 * e2" by (simp add: e2(1) algebra_simps)
  ultimately have ed: "\<bar>e - \<delta> * \<delta>\<bar> \<le> h * (129 / 64)" using e by linarith
  then have e1: "\<bar>1 + e\<bar> \<le> 83 / 64" using d2 h by linarith
  have "\<bar>(p - ?P) * (1 + e)\<bar> \<le> (h * (163 / 64) + (3 / 2) * (h * Q)) * (83 / 64)" by (rule abs_prod_le [OF pP e1])
  moreover have "\<bar>?P * (e - \<delta> * \<delta>)\<bar> \<le> Q * 1 * (h * (129 / 64))" by (rule abs_prod_le [OF P ed])
  moreover have "q - ?P * (1 + \<delta> * \<delta>) = (q - p * (1 + e)) + (p - ?P) * (1 + e) + ?P * (e - \<delta> * \<delta>)" by (simp add: algebra_simps)
  moreover have "(h * (163 / 64) + (3 / 2) * (h * Q)) * (83 / 64) = h * (13529 / 4096) + (249 / 128) * (h * Q)"
    "Q * 1 * (h * (129 / 64)) = (129 / 64) * (h * Q)" by (simp_all add: algebra_simps)
  ultimately have "\<bar>q - ?P * (1 + \<delta> * \<delta>)\<bar> \<le> 5 * h + 4 * (h * Q)" using q h(1) hQ by linarith
  moreover have "?P * (1 + \<delta> * \<delta>) = Q * (1 - \<delta> ^ 4)" by (simp add: algebra_simps power4_eq_xxxx)
  ultimately show ?thesis by (simp add: Q_def algebra_simps)
qed

text \<open>The polynomial on the scaled divisors.\<close>

lemma polynomial_bounds:
  fixes c :: real
  shows "1 / 2 \<le> c \<Longrightarrow> c \<le> 1 \<Longrightarrow> \<bar>1 - c * (29142 / 10000 - 2 * c)\<bar> \<le> 858 / 10000"
    and "1 / 4 \<le> c \<Longrightarrow> c \<le> 1 / 2 \<Longrightarrow> \<bar>1 - c * (29142 / 10000 - 2 * c)\<bar> \<le> 3965 / 10000"
proof -
  have sq: "1 - c * (29142 / 10000 - 2 * c) = 2 * (c - 14571 / 20000)\<^sup>2 - 12314041 / 200000000" for c :: real
    by (simp add: power2_eq_square algebra_simps)
  have le: "(c - 14571 / 20000)\<^sup>2 \<le> k\<^sup>2" if "\<bar>c - 14571 / 20000\<bar> \<le> k" for k
    using that abs_le_square_iff [of "c - 14571 / 20000" k] by linarith
  have ge: "0 \<le> (c - 14571 / 20000)\<^sup>2" by simp
  show "\<bar>1 - c * (29142 / 10000 - 2 * c)\<bar> \<le> 858 / 10000" if "1 / 2 \<le> c" "c \<le> 1"
  proof -
    have "(c - 14571 / 20000)\<^sup>2 \<le> (5429 / 20000)\<^sup>2" by (rule le) (use that in linarith)
    also have "(5429 / 20000 :: real)\<^sup>2 = 29474041 / 400000000" by (simp add: power2_eq_square)
    finally show ?thesis unfolding sq using ge by linarith
  qed
  show "\<bar>1 - c * (29142 / 10000 - 2 * c)\<bar> \<le> 3965 / 10000" if "1 / 4 \<le> c" "c \<le> 1 / 2"
  proof -
    have "(c - 14571 / 20000)\<^sup>2 \<le> (9571 / 20000)\<^sup>2" by (rule le) (use that in linarith)
    also have "(9571 / 20000 :: real)\<^sup>2 = 91604041 / 400000000" by (simp add: power2_eq_square)
    finally show ?thesis unfolding sq using ge by linarith
  qed
qed

section \<open>Numbers of a representation\<close>

definition val :: "nat \<Rightarrow> i64 \<Rightarrow> real" where
  "val D w = sint w / 2 ^ D"

lemma val_pos: "0 < sint y \<Longrightarrow> 0 < val D y"
  unfolding val_def by (rule divide_pos_pos) (simp_all only: of_int_0_less_iff zero_less_power zero_less_numeral)

text \<open>How large the product of two numbers may be.\<close>

definition room :: "nat \<Rightarrow> real" where
  "room D = 2 ^ 62 / (2 ^ D * 2 ^ D)"

lemma room_bounds:
  assumes "D \<le> 20"
  shows "2 ^ 22 \<le> room D" "5 / 2 * 2 ^ D < room D"
proof -
  have d: "(2 :: real) ^ D \<le> 2 ^ 20" using assms by (intro power_increasing) simp_all
  then have dd: "(2 :: real) ^ D * 2 ^ D \<le> 2 ^ 20 * 2 ^ 20" by (intro mult_mono) simp_all
  then have "(2 :: real) ^ D * (2 ^ D * 2 ^ D) \<le> 2 ^ 20 * (2 ^ 20 * 2 ^ 20)" using d by (intro mult_mono) simp_all
  then show "5 / 2 * 2 ^ D < room D" by (simp add: room_def field_simps)
  show "2 ^ 22 \<le> room D" using dd by (simp add: room_def field_simps)
qed

lemma near_val:
  assumes "fx_near D x y z" "\<bar>val D x * val D y\<bar> < room D"
  shows "\<bar>val D z - val D x * val D y\<bar> \<le> 1 / 2 ^ D"
proof -
  have "real_of_int \<bar>sint x * sint y\<bar> < real_of_int (2 ^ 62)" using assms(2) by (simp add: val_def room_def abs_mult field_simps)
  then have "\<bar>sint x * sint y\<bar> < 2 ^ 62" by (simp only: of_int_less_iff)
  then have "\<bar>sint z * 2 ^ D - sint x * sint y\<bar> \<le> 2 ^ D" using assms(1) by (simp add: fx_near_def)
  then have "real_of_int \<bar>sint z * 2 ^ D - sint x * sint y\<bar> \<le> real_of_int (2 ^ D)" by (simp only: of_int_le_iff)
  then have n: "\<bar>real_of_int (sint z) * 2 ^ D - real_of_int (sint x) * real_of_int (sint y)\<bar> \<le> 2 ^ D" (is "\<bar>?n\<bar> \<le> _") by simp
  have "val D z - val D x * val D y = ?n / (2 ^ D * 2 ^ D)" by (simp add: val_def field_simps)
  then have "\<bar>val D z - val D x * val D y\<bar> = \<bar>?n\<bar> / (2 ^ D * 2 ^ D)" by (simp only: abs_divide) simp
  also have "\<dots> \<le> 2 ^ D / (2 ^ D * 2 ^ D)" using n by (rule divide_right_mono) simp
  finally show ?thesis by simp
qed

lemma val_bound:
  assumes "D \<le> 20" "\<bar>val D x\<bar> \<le> 2 ^ 40"
  shows "\<bar>sint x\<bar> \<le> 2 ^ 60"
proof -
  have "(2 :: real) ^ D \<le> 2 ^ 20" using assms by (intro power_increasing) simp_all
  then have "\<bar>val D x\<bar> * 2 ^ D \<le> 2 ^ 40 * 2 ^ 20" using assms(2) by (intro mult_mono) simp_all
  then have "real_of_int \<bar>sint x\<bar> \<le> real_of_int (2 ^ 60)" by (simp add: val_def)
  then show ?thesis by (simp only: of_int_le_iff)
qed

lemma val_arith:
  assumes "D \<le> 20" "\<bar>val D x\<bar> \<le> 2 ^ 40" "\<bar>val D y\<bar> \<le> 2 ^ 40"
  shows "val D (x - y) = val D x - val D y" "val D (x + y) = val D x + val D y" "val D (2 * x) = 2 * val D x" "val D (- x) = - val D x"
proof -
  have b: "\<bar>sint x\<bar> \<le> 2 ^ 60" "\<bar>sint y\<bar> \<le> 2 ^ 60" using val_bound assms by blast+
  have "\<bar>sint x - sint y\<bar> < 2 ^ 63" "\<bar>sint x + sint y\<bar> < 2 ^ 63" "\<bar>2 * sint x\<bar> < 2 ^ 63" "\<bar>sint x\<bar> < 2 ^ 63" using b by simp_all
  then show "val D (x - y) = val D x - val D y" "val D (x + y) = val D x + val D y" "val D (2 * x) = 2 * val D x" "val D (- x) = - val D x"
    using sint_arith(1,2) [of x y] sint_arith(3,4) [of x] by (simp_all add: val_def diff_divide_distrib add_divide_distrib)
qed

lemma val_one: "D \<le> 20 \<Longrightarrow> val D (2 ^ D) = 1"
  by (simp add: val_def sint_pow2)

text \<open>The power of two of a divisor: the scaled divisor lies between a quarter and one, and between a half and one unless the divisor does.\<close>

lemma rank_scale:
  assumes D: "6 \<le> D" "D \<le> 20" and y: "0 < sint y" "val D y \<le> 2 ^ (D - 2)" and k: "rank_ok D (sint y) k"
  obtains n where "val D (word_of_int (if - k + int D < 0 then 0 else 2 ^ nat (- k + int D))) = n" "- k + int D < 62"
    "0 < n" "n \<le> 2 ^ D" "val D y * n \<le> 1" "1 / 4 \<le> val D y * n"
    "if 1 / 2 \<le> val D y \<and> val D y < 1 then val D y * n = val D y / 2 else 1 / 2 \<le> val D y * n"
proof (cases "sint y < 2 ^ (D - 1)")
  case True
  then obtain m where m: "m \<le> D" "k = - int m" "sint y * 2 ^ m \<le> 2 ^ D" "2 ^ D < sint y * 2 ^ Suc m" using k by (auto simp: rank_ok_def)
  have "real_of_int (sint y * 2 ^ m) \<le> real_of_int (2 ^ D)" "real_of_int (2 ^ D) < real_of_int (sint y * 2 ^ Suc m)"
    using m(3,4) by (simp_all only: of_int_le_iff of_int_less_iff)
  then have b: "val D y * 2 ^ m \<le> 1" "1 / 2 \<le> val D y * 2 ^ m" by (simp_all add: val_def field_simps)
  have e: "nat (int m + int D) = m + D" by simp
  have "val D (word_of_int (2 ^ (m + D))) = 2 ^ m" using sint_pow2 [of "m + D"] m(1) D(2) by (simp add: val_def power_add)
  moreover have "val D y < 1 / 2"
  proof -
    have "real_of_int (sint y) < real_of_int (2 ^ (D - 1))" using True by (simp only: of_int_less_iff)
    moreover have "(2 :: real) ^ D = 2 ^ (D - 1) * 2" using D(1) by (simp flip: power_Suc2)
    ultimately show ?thesis by (simp add: val_def field_simps)
  qed
  moreover have "(2 :: real) ^ m \<le> 2 ^ D" using m(1) by simp
  ultimately show ?thesis using that [of "2 ^ m"] b m(1,2) D e by simp
next
  case False
  then obtain m where m: "m < 32" "k = int m + 1" "sint y < 2 ^ (D + Suc m)" "m = 0 \<or> 2 ^ (D + m) \<le> sint y" using k by (auto simp: rank_ok_def)
  have "real_of_int (2 ^ (D - 1)) \<le> real_of_int (sint y)" "real_of_int (sint y) < real_of_int (2 ^ (D + Suc m))"
    "m = 0 \<or> real_of_int (2 ^ (D + m)) \<le> real_of_int (sint y)"
    using False m(3,4) by (auto simp only: of_int_le_iff of_int_less_iff)
  moreover have d: "(2 :: real) ^ D = 2 ^ (D - 1) * 2" using D(1) by (simp flip: power_Suc2)
  ultimately have b: "1 / 2 \<le> val D y" "val D y < 2 ^ Suc m" "m = 0 \<or> 2 ^ m \<le> val D y"
    by (simp_all add: val_def field_simps power_add)
  have "m = 0 \<or> (2 :: real) ^ m \<le> 2 ^ (D - 2)" using b(3) y(2) by linarith
  then have mD: "m \<le> D - 2" by auto
  have "- k + int D = int (D - Suc m)" using m(2) mD D(1) by linarith
  then have e: "(if - k + int D < 0 then 0 else 2 ^ nat (- k + int D)) = (2 ^ (D - Suc m) :: int)" "- k + int D < 62" using D(2) by simp_all
  have "(2 :: real) ^ D = 2 ^ (D - Suc m) * 2 ^ Suc m" using mD D(1) by (simp only: power_add [symmetric]) simp
  then have v: "val D (word_of_int (2 ^ (D - Suc m))) = 1 / 2 ^ Suc m" using sint_pow2 [of "D - Suc m"] D(2) by (simp add: val_def)
  have "(1 :: real) \<le> 2 ^ Suc m" by (rule one_le_power) simp
  then have "(1 :: real) / 2 ^ Suc m \<le> 1" by (simp add: divide_le_eq del: power_Suc)
  moreover have "(1 :: real) \<le> 2 ^ D" by simp
  ultimately have n: "(1 :: real) / 2 ^ Suc m \<le> 2 ^ D" by linarith
  have "if 1 / 2 \<le> val D y \<and> val D y < 1 then val D y * (1 / 2 ^ Suc m) = val D y / 2 else 1 / 2 \<le> val D y * (1 / 2 ^ Suc m)"
  proof (cases "m = 0")
    case False
    then have "2 ^ m \<le> val D y" "(2 :: real) ^ 1 \<le> 2 ^ m" using b(3) by (blast, intro power_increasing) simp_all
    then show ?thesis by (simp add: field_simps)
  qed (use b(1) in simp)
  moreover have "1 / 4 \<le> val D y * (1 / 2 ^ Suc m)" using b(1,3) by (auto simp: field_simps)
  moreover have "val D y * (1 / 2 ^ Suc m) \<le> 1" using b(2) by (simp add: field_simps)
  ultimately show ?thesis using that [of "1 / 2 ^ Suc m", unfolded e(1), OF v e(2) _ n] by simp
qed

section \<open>One row of the quotient\<close>

text \<open>A bound on the defect of the first reciprocal, relative to the reciprocal.\<close>

definition defect :: "nat \<Rightarrow> real \<Rightarrow> real" where
  "defect D b = (if 1 / 2 \<le> b \<and> b < 1 then 3965 / 10000 else 858 / 10000) + (b + 3) / 2 ^ D"

lemma defect_half:
  assumes "6 \<le> D" "0 < b" "b \<le> 2 ^ (D - 2)"
  shows "0 \<le> defect D b" "defect D b \<le> 1 / 2"
proof -
  have "(2 :: real) ^ 6 \<le> 2 ^ D" using assms(1) by (intro power_increasing) simp_all
  then have h: "1 / (2 :: real) ^ D \<le> 1 / 64" by (simp add: field_simps)
  have "D = (D - 2) + 2" using assms(1) by simp
  then have "(2 :: real) ^ D = 2 ^ (D - 2) * 2 ^ 2" by (metis power_add)
  then have q: "2 ^ (D - 2) / (2 :: real) ^ D = 1 / 4" by simp
  show "0 \<le> defect D b" using assms(2) by (simp add: defect_def)
  show "defect D b \<le> 1 / 2"
  proof (cases "b < 1")
    case True
    have "(b + 3) * (1 / 2 ^ D) \<le> 4 * (1 / 64)" using True h assms(2) by (intro mult_mono) simp_all
    then have "(b + 3) / 2 ^ D \<le> 1 / 16" by simp
    moreover have "(if 1 / 2 \<le> b \<and> b < 1 then 3965 / 10000 else 858 / 10000) \<le> (3965 / 10000 :: real)" by simp
    ultimately show ?thesis unfolding defect_def by linarith
  next
    case False
    have "b / 2 ^ D \<le> 2 ^ (D - 2) / 2 ^ D" using assms(3) by (rule divide_right_mono) simp
    then have "b / 2 ^ D \<le> 1 / 4" using q by linarith
    moreover have "(b + 3) / 2 ^ D = b / 2 ^ D + 3 * (1 / 2 ^ D)" by (simp add: add_divide_distrib)
    moreover have "defect D b = 858 / 10000 + (b + 3) / 2 ^ D" using False by (simp add: defect_def)
    ultimately show ?thesis using h by linarith
  qed
qed

lemma quotient_row:
  assumes D: "6 \<le> D" "D \<le> 20" and y: "0 < sint y" "val D y \<le> 2 ^ (D - 2)" and x: "0 \<le> val D x" "val D x / val D y \<le> room D / 16"
    and k: "rank_ok D (sint y) k" and T: "\<bar>val D T - 29142 / 10000\<bar> \<le> 1 / 2 ^ D"
    and N: "N = word_of_int (if - k + int D < 0 then 0 else 2 ^ nat (- k + int D))"
    and c: "fx_near D y N c" and w0: "fx_near D (T - 2 * c) N w0" and u: "fx_near D y w0 u" and v: "fx_near D x w0 v"
    and p: "fx_near D (2 ^ D + (2 ^ D - u)) v p" and e: "fx_near D (2 ^ D - u) (2 ^ D - u) e" and q: "fx_near D p (2 ^ D + e) q"
  shows "\<bar>val D q - val D x / val D y\<bar> \<le> val D x / val D y * defect D (val D y) ^ 4 + (5 + 4 * (val D x / val D y)) / 2 ^ D"
proof -
  define h :: real where "h = 1 / 2 ^ D"
  let ?b = "val D y" and ?a = "val D x"
  have "(2 :: real) ^ 6 \<le> 2 ^ D" using D(1) by (intro power_increasing) simp_all
  then have h: "0 \<le> h" "h \<le> 1 / 64" by (simp_all add: h_def field_simps)
  have b: "0 < ?b" by (rule val_pos [OF y(1)])
  note R = room_bounds [OF D(2)]
  obtain n where n: "val D N = n" "0 < n" "n \<le> 2 ^ D" "?b * n \<le> 1" "1 / 4 \<le> ?b * n"
    "if 1 / 2 \<le> ?b \<and> ?b < 1 then ?b * n = ?b / 2 else 1 / 2 \<le> ?b * n"
    using rank_scale [OF D y k] unfolding N by metis
  note nv = near_val [where D = D, folded h_def]
  have C: "\<bar>val D c - ?b * n\<bar> \<le> h" using nv [OF c] n R(1) by simp
  then have "\<bar>val D c\<bar> \<le> 2" using n(4,5) h(2) by linarith
  then have t: "val D (T - 2 * c) = val D T - 2 * val D c"
    using val_arith [OF D(2), of c c] val_arith(1) [OF D(2), of T "2 * c"] T h unfolding h_def [symmetric] by simp
  have "\<bar>val D T - 2 * val D c\<bar> \<le> 5 / 2" using C T n(4,5) h unfolding h_def [symmetric] by linarith
  then have "\<bar>(val D T - 2 * val D c) * n\<bar> \<le> 5 / 2 * 2 ^ D" using n(2,3) by (intro abs_prod_le) simp_all
  then have W: "\<bar>val D w0 - (val D T - 2 * val D c) * n\<bar> \<le> h" using nv [OF w0] n(1) R(2) t by simp
  define \<delta> where "\<delta> = 1 - ?b * val D w0"
  have d1: "\<bar>\<delta> - (1 - ?b * n * (29142 / 10000 - 2 * (?b * n)))\<bar> \<le> (?b + 3) * h" unfolding \<delta>_def
    by (rule first_defect [where T = "val D T" and c = "val D c"]) (use h b n C W T in \<open>simp_all add: h_def\<close>)
  have "\<bar>1 - ?b * n * (29142 / 10000 - 2 * (?b * n))\<bar> \<le> (if 1 / 2 \<le> ?b \<and> ?b < 1 then 3965 / 10000 else 858 / 10000)"
    using polynomial_bounds [of "?b * n"] n(4-6) by (auto split: if_splits)
  then have d3: "\<bar>\<delta>\<bar> \<le> defect D ?b" using d1 by (simp add: defect_def h_def split: if_splits)
  then have d2: "\<bar>\<delta>\<bar> \<le> 1 / 2" using defect_half [OF D(1) b y(2)] by linarith
  define Q where "Q = ?a / ?b"
  have Q: "0 \<le> Q" "Q \<le> room D / 16" "?a * val D w0 = Q * (1 - \<delta>)" using x b by (simp_all add: Q_def \<delta>_def)
  have "\<bar>?b * val D w0\<bar> \<le> 3 / 2" using d2 unfolding \<delta>_def by linarith
  then have U: "\<bar>val D u - ?b * val D w0\<bar> \<le> h" using nv [OF u] R(1) by simp
  have "\<bar>Q * (1 - \<delta>)\<bar> \<le> Q * (3 / 2)" using Q(1) d2 by (intro abs_prod_le) simp_all
  then have aw: "\<bar>?a * val D w0\<bar> \<le> Q * (3 / 2)" using Q(3) by simp
  then have V: "\<bar>val D v - ?a * val D w0\<bar> \<le> h" using nv [OF v] Q(2) R(1) by simp
  have u1: "\<bar>1 - val D u\<bar> \<le> 1 / 2 + h" using U d2 unfolding \<delta>_def by linarith
  have s1: "val D (2 ^ D - u) = 1 - val D u" using val_arith(1) [OF D(2), of "2 ^ D" u] val_one [OF D(2)] u1 h by simp
  have s2: "val D (2 ^ D + (2 ^ D - u)) = 1 + (1 - val D u)"
    using val_arith(2) [OF D(2), of "2 ^ D" "2 ^ D - u"] val_one [OF D(2)] u1 h s1 by simp
  have pv: "\<bar>(1 + (1 - val D u)) * val D v\<bar> \<le> 2 * (Q * (3 / 2) + h)" using u1 h V aw by (intro abs_prod_le) linarith+
  then have P: "\<bar>val D p - (1 + (1 - val D u)) * val D v\<bar> \<le> h" using nv [OF p] s2 Q(2) R(1) h(2) by simp
  have uu: "\<bar>(1 - val D u) * (1 - val D u)\<bar> \<le> 1 * 1" using u1 h by (intro abs_prod_le) linarith+
  then have E: "\<bar>val D e - (1 - val D u) * (1 - val D u)\<bar> \<le> h" using nv [OF e] s1 R(1) by simp
  have e1: "\<bar>val D e\<bar> \<le> 1 + h" using E uu by linarith
  then have s3: "val D (2 ^ D + e) = 1 + val D e" using val_arith(2) [OF D(2), of "2 ^ D" e] val_one [OF D(2)] h by simp
  have "\<bar>val D p\<bar> \<le> \<bar>(1 + (1 - val D u)) * val D v\<bar> + h" using P abs_triangle_ineq2 [of "val D p" "(1 + (1 - val D u)) * val D v"] by linarith
  then have p1: "\<bar>val D p\<bar> \<le> Q * 3 + 1" using pv h by simp
  have e2: "\<bar>1 + val D e\<bar> \<le> 129 / 64" using e1 h by linarith
  have "\<bar>val D p * (1 + val D e)\<bar> \<le> (Q * 3 + 1) * (129 / 64)" by (rule abs_prod_le [OF p1 e2])
  then have QQ: "\<bar>val D q - val D p * (1 + val D e)\<bar> \<le> h" using nv [OF q] s3 Q(2) R(1) by simp
  have "\<bar>val D q - ?a / ?b * (1 - \<delta> ^ 4)\<bar> \<le> (5 + 4 * (?a / ?b)) * h"
    by (rule improved_quotient [OF h x(1) b \<delta>_def d2 U V P E QQ])
  moreover have "\<delta> ^ 4 \<le> defect D ?b ^ 4" using power_mono [OF d3, of 4] by simp
  then have "0 \<le> Q * \<delta> ^ 4" "Q * \<delta> ^ 4 \<le> Q * defect D ?b ^ 4" using Q(1) by (simp_all add: mult_left_mono)
  ultimately show ?thesis by (simp add: Q_def [symmetric] h_def right_diff_distrib)
qed

text \<open>The same for numbers with a sign: the signs are multiplied on their own.\<close>

lemma val_abs:
  assumes "\<bar>sint x\<bar> < 2 ^ 63"
  shows "val D (if sint x < 0 then - x else x) = \<bar>val D x\<bar>"
proof (cases "sint x < 0")
  case True
  then have "val D x < 0" unfolding val_def by (intro divide_neg_pos) (simp_all only: of_int_less_0_iff zero_less_power zero_less_numeral)
  moreover have "val D (- x) = - val D x" using sint_arith(3) [OF assms] by (simp add: val_def)
  ultimately show ?thesis using True by simp
next
  case False
  then have "0 \<le> val D x" unfolding val_def by (intro divide_nonneg_pos) (simp_all only: of_int_0_le_iff not_less zero_less_power zero_less_numeral)
  then show ?thesis using False by simp
qed

lemma val_sign: "val D x = \<bar>val D x\<bar> * (if sint x < 0 then - 1 else 1)"
proof -
  have "sint x < 0 \<longleftrightarrow> val D x < 0" by (simp only: val_def divide_less_0_iff of_int_less_0_iff) simp
  then show ?thesis by simp
qed

lemma numerator_fits:
  assumes "D \<le> 20" "2 \<le> D" "0 < b" "b \<le> 2 ^ (D - 2)" "\<bar>val D x\<bar> / b \<le> room D / 16"
  shows "\<bar>sint x\<bar> < 2 ^ 63"
proof -
  have "D = (D - 2) + 2" using assms(2) by simp
  then have q: "(2 :: real) ^ D = 2 ^ (D - 2) * 2 ^ 2" by (metis power_add)
  have "\<bar>val D x\<bar> = \<bar>val D x\<bar> / b * b" using assms(3) by simp
  also have "\<dots> \<le> room D / 16 * 2 ^ (D - 2)" using assms(3-5) by (intro mult_mono) (simp_all add: room_def)
  also have "\<dots> = 2 ^ 56 / 2 ^ D" unfolding room_def q by (simp add: field_simps)
  finally have "real_of_int \<bar>sint x\<bar> \<le> real_of_int (2 ^ 56)" by (simp add: val_def field_simps)
  then have "\<bar>sint x\<bar> \<le> 2 ^ 56" by (simp only: of_int_le_iff)
  then show ?thesis by simp
qed

lemma signed_row:
  fixes D :: nat and x y :: i64
  defines "a \<equiv> \<bar>val D x\<bar>" and "b \<equiv> \<bar>val D y\<bar>"
  assumes D: "6 \<le> D" "D \<le> 20" and y: "0 < b" "b \<le> 2 ^ (D - 2)" and x: "a / b \<le> room D / 16"
    and q: "\<bar>val D q - a / b\<bar> \<le> a / b * defect D b ^ 4 + (5 + 4 * (a / b)) / 2 ^ D"
    and g: "fx_near D (if sint y < 0 then - (2 ^ D) else 2 ^ D) (if sint x < 0 then - (2 ^ D) else 2 ^ D) g" and z: "fx_near D q g z"
  shows "\<bar>val D z - val D x / val D y\<bar> \<le> a / b * defect D b ^ 4 + (7 + 6 * (a / b)) / 2 ^ D"
proof -
  define h :: real where "h = 1 / 2 ^ D"
  have "(2 :: real) ^ 6 \<le> 2 ^ D" using D(1) by (intro power_increasing) simp_all
  then have h: "0 \<le> h" "h \<le> 1 / 64" by (simp_all add: h_def field_simps)
  define Q where "Q = a / b"
  have Q: "0 \<le> Q" "Q \<le> room D / 16" using x y by (simp_all add: Q_def a_def)
  note R = room_bounds(1) [OF D(2)] and nv = near_val [where D = D, folded h_def]
  have one: "val D (if sint w < 0 then - (2 ^ D) else 2 ^ D) = (if sint w < 0 then - 1 else 1)" for w :: i64
    using val_arith(4) [OF D(2), of "2 ^ D" "2 ^ D"] val_one [OF D(2)] by simp
  define \<sigma> :: real where "\<sigma> = (if sint y < 0 then - 1 else 1) * (if sint x < 0 then - 1 else 1)"
  have \<sigma>: "\<bar>\<sigma>\<bar> = 1" by (simp add: \<sigma>_def)
  have "val D x / val D y = \<sigma> * Q" using val_sign [of D x] val_sign [of D y] by (auto simp: \<sigma>_def Q_def a_def b_def)
  have G: "\<bar>val D g - \<sigma>\<bar> \<le> h" using nv [OF g] R unfolding one \<sigma>_def by (simp split: if_splits)
  have "defect D b ^ 4 \<le> (1 / 2) ^ 4" using defect_half [OF D(1) y] by (intro power_mono) simp_all
  then have "Q * defect D b ^ 4 \<le> Q * (1 / 16)" using Q(1) by (intro mult_left_mono) (simp_all add: power_divide)
  moreover have "(5 + 4 * Q) * h \<le> (5 + 4 * Q) * (1 / 64)" using Q(1) h by (intro mult_left_mono) simp_all
  moreover have q': "\<bar>val D q - Q\<bar> \<le> Q * defect D b ^ 4 + (5 + 4 * Q) * h" using q by (simp add: Q_def h_def)
  ultimately have q1: "\<bar>val D q\<bar> \<le> 5 / 4 * Q + 1" using Q(1) by (simp add: algebra_simps)
  have "\<bar>val D q * val D g\<bar> \<le> (5 / 4 * Q + 1) * 2" using q1 G \<sigma> h by (intro abs_prod_le) linarith+
  then have z1: "\<bar>val D z - val D q * val D g\<bar> \<le> h" using nv [OF z] Q(2) R by simp
  have z2: "\<bar>val D q * (val D g - \<sigma>)\<bar> \<le> (5 / 4 * Q + 1) * h" by (rule abs_prod_le [OF q1 G])
  have "\<bar>\<sigma> * (val D q - Q)\<bar> = \<bar>val D q - Q\<bar>" using \<sigma> by (simp add: abs_mult)
  moreover have "val D z - \<sigma> * Q = (val D z - val D q * val D g) + val D q * (val D g - \<sigma>) + \<sigma> * (val D q - Q)" by (simp add: algebra_simps)
  moreover have "(5 / 4 * Q + 1) * h = 5 / 4 * (Q * h) + h" "(5 + 4 * Q) * h = 5 * h + 4 * (Q * h)" "(7 + 6 * Q) * h = 7 * h + 6 * (Q * h)"
    by (simp_all add: algebra_simps)
  moreover have "0 \<le> Q * h" using Q(1) h(1) by simp
  ultimately have "\<bar>val D z - \<sigma> * Q\<bar> \<le> Q * defect D b ^ 4 + (7 + 6 * Q) * h" using z1 z2 q' h(1) by linarith
  then show ?thesis using \<open>val D x / val D y = \<sigma> * Q\<close> by (simp add: Q_def h_def)
qed

section \<open>The quotient of columns\<close>

text \<open>The numbers of one row of the quotient, from the divisor and its rank to the result.\<close>

definition quotient_row_of :: "nat \<Rightarrow> i64 \<Rightarrow> i64 \<Rightarrow> i64 \<Rightarrow> int \<Rightarrow> i64 \<Rightarrow> bool" where
  "quotient_row_of D T x y k q \<longleftrightarrow>
     (let N = word_of_int (if - k + int D < 0 then 0 else 2 ^ nat (- k + int D)) in
      \<exists>c w0 u v p e. fx_near D y N c \<and> fx_near D (T - 2 * c) N w0 \<and> fx_near D y w0 u \<and> fx_near D x w0 v \<and>
        fx_near D (2 ^ D + (2 ^ D - u)) v p \<and> fx_near D (2 ^ D - u) (2 ^ D - u) e \<and> fx_near D p (2 ^ D + e) q)"

lemma constant_column:
  assumes "aby3_ok L"
  shows "\<exists>S rt'. share_doubles L X (replicate n d) rt = Inr (S, rt') \<and> sharing S (column (replicate n (fx_of_double X d)))"
  using share_doubles_column [OF assms, of X "replicate n d" rt] by simp

lemma quotient_column:
  assumes ok: "aby3_ok L" "fx_ok (fx_near D) X" "div_ok D X V" and D: "D < 62"
    and A: "sharing A (column xs)" and B: "sharing B (column ys)" and len: "length xs = length ys" "length ranks = length ys"
    and ranks: "\<forall>k \<in> set ranks. - k + int D < 62"
  shows "\<exists>S qs rt'. quotient L X V (length ys) ranks A B rt = Inr (S, rt') \<and> sharing S (column qs) \<and> length qs = length ys \<and>
    (\<forall>i < length ys. quotient_row_of D (fx_of_double X (dv_2_9142 V)) (xs ! i) (ys ! i) (ranks ! i) (qs ! i))"
proof -
  let ?T = "fx_of_double X (dv_2_9142 V)" and ?n = "length ys"
  let ?N = "\<lambda>k. word_of_int (if - k + int D < 0 then 0 else 2 ^ nat (- k + int D)) :: i64"
  have one: "fx_of_double X (dv_pow2 V 0) = 2 ^ D" using div_pow2 [OF ok(3), of 0] D by simp
  have pow: "map (fx_of_double X) (map (\<lambda>r. dv_pow2 V (- r)) ranks) = map ?N ranks" using div_pow2 [OF ok(3)] ranks by simp
  obtain T rt1 where T: "share_doubles L X (replicate ?n (dv_2_9142 V)) rt = Inr (T, rt1)" "sharing T (column (replicate ?n ?T))"
    using constant_column [OF ok(1), of X ?n "dv_2_9142 V" rt] by blast
  obtain O1 rt2 where O1: "share_doubles L X (replicate ?n (dv_pow2 V 0)) rt1 = Inr (O1, rt2)" "sharing O1 (column (replicate ?n (2 ^ D)))"
    using constant_column [OF ok(1), of X ?n "dv_pow2 V 0" rt1] unfolding one by blast
  obtain N rt3 where N: "share_doubles L X (map (\<lambda>r. dv_pow2 V (- r)) ranks) rt2 = Inr (N, rt3)" "sharing N (column (map ?N ranks))"
    using share_doubles_column [OF ok(1), of X "map (\<lambda>r. dv_pow2 V (- r)) ranks" rt2] unfolding pow by blast
  note dot = product_column [OF ok(2)]
  obtain C cs rt4 where C: "MPC_Dotproduct X B N rt3 = Inr (C, rt4)" "sharing C (column cs)" "near_rows D ys (map ?N ranks) cs"
    using dot [OF B N(2), where rt = rt3, unfolded length_map, OF len(2) [symmetric]] by blast
  have lc: "length cs = ?n" using C(3) by (simp add: near_rows_def)
  have M: "sharing (sub3 L T (\<lambda>p. lib_const_mul L 2 (C p))) (column (map2 (-) (replicate ?n ?T) (map ((*) 2) cs)))"
    by (rule sub3_column [OF ok(1) T(2) double_column [OF ok(1) C(2)]]) (simp add: lc)
  have lm: "length (map2 (-) (replicate ?n ?T) (map ((*) 2) cs)) = length (map ?N ranks)" by (simp add: lc len)
  from dot [OF M N(2) lm, where rt = rt4] obtain W ws rt5 where W: "MPC_Dotproduct X (sub3 L T (\<lambda>p. lib_const_mul L 2 (C p))) N rt4 = Inr (W, rt5)"
    "sharing W (column ws)" "near_rows D (map2 (-) (replicate ?n ?T) (map ((*) 2) cs)) (map ?N ranks) ws"
    by blast
  have lw: "length ws = ?n" using W(3) lc by (simp add: near_rows_def)
  obtain U us rt6 where U: "MPC_Dotproduct X B W rt5 = Inr (U, rt6)" "sharing U (column us)" "near_rows D ys ws us"
    using dot [OF B W(2) lw [symmetric], where rt = rt5] by blast
  obtain V' vs rt7 where V': "MPC_Dotproduct X A W rt6 = Inr (V', rt7)" "sharing V' (column vs)" "near_rows D xs ws vs"
    using dot [OF A W(2) trans [OF len(1) lw [symmetric]], where rt = rt6] by blast
  have lu: "length us = ?n" "length vs = ?n" using U(3) V'(3) len by (simp_all add: near_rows_def)
  let ?es = "map2 (-) (replicate ?n (2 ^ D)) us" and ?E = "sub3 L O1 U"
  have E: "sharing ?E (column ?es)" by (rule sub3_column [OF ok(1) O1(2) U(2)]) (simp add: lu)
  have F: "sharing (add3 L O1 ?E) (column (map2 (+) (replicate ?n (2 ^ D)) ?es))" by (rule add3_column [OF ok(1) O1(2) E]) (simp add: lu)
  have lf: "length (map2 (+) (replicate ?n (2 ^ D)) ?es) = length vs" by (simp add: lu)
  from dot [OF F V'(2) lf, where rt = rt7] obtain P ps rt8 where P: "MPC_Dotproduct X (add3 L O1 ?E) V' rt7 = Inr (P, rt8)"
    "sharing P (column ps)" "near_rows D (map2 (+) (replicate ?n (2 ^ D)) ?es) vs ps" by blast
  obtain I es rt9 where I: "MPC_Dotproduct X ?E ?E rt8 = Inr (I, rt9)" "sharing I (column es)" "near_rows D ?es ?es es"
    using dot [OF E E refl, where rt = rt8] by blast
  have lp: "length ps = ?n" "length es = ?n" using P(3) I(3) lu by (simp_all add: near_rows_def)
  have H: "sharing (add3 L O1 I) (column (map2 (+) (replicate ?n (2 ^ D)) es))" by (rule add3_column [OF ok(1) O1(2) I(2)]) (simp add: lp)
  have lh: "length ps = length (map2 (+) (replicate ?n (2 ^ D)) es)" by (simp add: lp)
  from dot [OF P(2) H lh, where rt = rt9] obtain S qs rt10 where S: "MPC_Dotproduct X P (add3 L O1 I) rt9 = Inr (S, rt10)"
    "sharing S (column qs)" "near_rows D ps (map2 (+) (replicate ?n (2 ^ D)) es) qs" by blast
  have "quotient_row_of D ?T (xs ! i) (ys ! i) (ranks ! i) (qs ! i)" if i: "i < ?n" for i
  proof -
    have nth: "map ?N ranks ! i = ?N (ranks ! i)" "map2 (-) (replicate ?n ?T) (map ((*) 2) cs) ! i = ?T - 2 * cs ! i"
      "?es ! i = 2 ^ D - us ! i" "map2 (+) (replicate ?n (2 ^ D)) ?es ! i = 2 ^ D + (2 ^ D - us ! i)"
      "map2 (+) (replicate ?n (2 ^ D)) es ! i = 2 ^ D + es ! i" using i len lc lu lp by simp_all
    note row = near_rowsD [OF C(3), of i] near_rowsD [OF W(3), of i] near_rowsD [OF U(3), of i] near_rowsD [OF V'(3), of i]
      near_rowsD [OF P(3), of i] near_rowsD [OF I(3), of i] near_rowsD [OF S(3), of i]
    have lens: "i < length ys" "i < length (map2 (-) (replicate ?n ?T) (map ((*) 2) cs))" "i < length xs"
      "i < length (map2 (+) (replicate ?n (2 ^ D)) ?es)" "i < length ?es" "i < length ps" using i len lc lu lp by simp_all
    show ?thesis unfolding quotient_row_of_def Let_def
      by (intro exI conjI) (rule row [unfolded nth] lens)+
  qed
  moreover have "length qs = ?n" using S(3) lp by (simp add: near_rows_def)
  moreover have "quotient L X V ?n ranks A B rt = Inr (S, rt10)"
    unfolding quotient_def T(1) O1(1) N(1) C(1) by (simp only: bindR_simps prod.case Let_def T(1) O1(1) N(1) C(1) W(1) U(1) V'(1) P(1) I(1) S(1))
  ultimately show ?thesis using S(2) by blast
qed

lemma quotient_accuracy:
  assumes D: "6 \<le> D" "D \<le> 20" and y: "0 < sint y" "val D y \<le> 2 ^ (D - 2)" and x: "0 \<le> val D x" "val D x / val D y \<le> room D / 16"
    and k: "rank_ok D (sint y) k" and T: "\<bar>val D T - 29142 / 10000\<bar> \<le> 1 / 2 ^ D" and row: "quotient_row_of D T x y k q"
  shows "\<bar>val D q - val D x / val D y\<bar> \<le> val D x / val D y * defect D (val D y) ^ 4 + (5 + 4 * (val D x / val D y)) / 2 ^ D"
  using row quotient_row [OF D y x k T refl] unfolding quotient_row_of_def Let_def by (elim exE conjE)

text \<open>The range of the divisors, in representations.\<close>

lemma divisor_fits:
  assumes "D \<le> 20" "2 \<le> D" "0 < \<bar>val D y\<bar>" "\<bar>val D y\<bar> \<le> 2 ^ (D - 2)"
  shows "0 < sint (if sint y < 0 then - y else y)" "sint (if sint y < 0 then - y else y) < 2 ^ (D + 32)" "\<bar>sint y\<bar> < 2 ^ 63"
proof -
  have "\<bar>val D y\<bar> * 2 ^ D \<le> 2 ^ (D - 2) * 2 ^ D" using assms(4) by (intro mult_right_mono) simp_all
  then have "real_of_int \<bar>sint y\<bar> \<le> real_of_int (2 ^ (D - 2 + D))" by (simp add: val_def power_add)
  then have b: "\<bar>sint y\<bar> \<le> 2 ^ (D - 2 + D)" by (simp only: of_int_le_iff)
  have "(2 :: int) ^ (D - 2 + D) < 2 ^ (D + 32)" "(2 :: int) ^ (D - 2 + D) < 2 ^ 63" using assms(1) by (intro power_strict_increasing; simp)+
  then have c: "\<bar>sint y\<bar> < 2 ^ (D + 32)" "\<bar>sint y\<bar> < 2 ^ 63" using b by linarith+
  then show "\<bar>sint y\<bar> < 2 ^ 63" by simp
  have "val D y = 0" if "sint y = 0" unfolding val_def that by simp
  then have nz: "sint y \<noteq> 0" using assms(3) by auto
  show "0 < sint (if sint y < 0 then - y else y)" "sint (if sint y < 0 then - y else y) < 2 ^ (D + 32)"
    using sint_arith(3) [OF c(2)] c(1) nz by (simp, cases "sint y < 0", simp_all add: abs_less_iff)
qed

lemma rank_small:
  assumes "D \<le> 20" "6 \<le> D" "rank_ok D y k"
  shows "- k + int D < 62"
  using assms by (auto simp: rank_ok_def split: if_splits)

text \<open>
  The division of columns. For a library whose products are accurate to one unit in the last place (as ABY3's are, except with a small probability),
  with six to twenty binary places, divisors other than zero of at most \<open>2 ^ (D - 2)\<close> and quotients with room in 64 bits, the division
  of three parties ends and gives shares of a column whose entries differ from the quotients by at most the fourth power of the defect of the first
  reciprocal, relative to the quotient, and a few units in the last place.
\<close>

theorem division_accuracy:
  assumes ok: "aby3_ok L" "fx_ok (fx_near D) X" "div_ok D X V" and D: "6 \<le> D" "D \<le> 20"
    and A: "sharing A (column xs)" and B: "sharing B (column ys)" and len: "length xs = length ys"
    and rows: "\<forall>i < length ys. 0 < \<bar>val D (ys ! i)\<bar> \<and> \<bar>val D (ys ! i)\<bar> \<le> 2 ^ (D - 2) \<and> \<bar>val D (xs ! i)\<bar> / \<bar>val D (ys ! i)\<bar> \<le> room D / 16"
  shows "\<exists>S zs rt'. MPC_Div L X V A B rt = Inr (S, rt') \<and> sharing S (column zs) \<and> length zs = length ys \<and>
    (\<forall>i < length ys. let r = \<bar>val D (xs ! i)\<bar> / \<bar>val D (ys ! i)\<bar> in
       \<bar>val D (zs ! i) - val D (xs ! i) / val D (ys ! i)\<bar> \<le> r * defect D \<bar>val D (ys ! i)\<bar> ^ 4 + (7 + 6 * r) / 2 ^ D)"
proof -
  let ?ab = "\<lambda>w :: i64. if sint w < 0 then - w else w" and ?sg = "\<lambda>w :: i64. if sint w < 0 then - (2 ^ D) else 2 ^ D :: i64"
  let ?T = "fx_of_double X (dv_2_9142 V)"
  note fits = divisor_fits [OF D(2)]
  have T: "\<bar>val D ?T - 29142 / 10000\<bar> \<le> 1 / 2 ^ D"
    using div_29142 [OF ok(3)] by (simp add: val_def abs_le_iff field_simps)
  obtain Bs rt1 where Bs: "MPC_QuoDertermine X B rt = Inr (Bs, rt1)" "sharing Bs (column (map ?sg ys))" using steps_column(2) [OF ok(3) B] by blast
  obtain Ba rt2 where Ba: "MPC_Abs X B rt1 = Inr (Ba, rt2)" "sharing Ba (column (map ?ab ys))" using steps_column(1) [OF ok(3) B] by blast
  obtain As rt3 where As: "MPC_QuoDertermine X A rt2 = Inr (As, rt3)" "sharing As (column (map ?sg xs))" using steps_column(2) [OF ok(3) A] by blast
  obtain Aa rt4 where Aa: "MPC_Abs X A rt3 = Inr (Aa, rt4)" "sharing Aa (column (map ?ab xs))" using steps_column(1) [OF ok(3) A] by blast
  obtain G gs rt5 where G: "MPC_Dotproduct X Bs As rt4 = Inr (G, rt5)" "sharing G (column gs)" "near_rows D (map ?sg ys) (map ?sg xs) gs"
    using product_column [OF ok(2) Bs(2) As(2), where rt = rt4, unfolded length_map, OF len [symmetric]] by blast
  have pos: "\<forall>y \<in> set (map ?ab ys). 0 < sint y \<and> sint y < 2 ^ (D + 32)"
  proof
    fix w assume "w \<in> set (map ?ab ys)"
    then obtain i where i: "i < length ys" "w = ?ab (ys ! i)" by (auto simp only: set_map image_iff in_set_conv_nth)
    have "2 \<le> D" "0 < \<bar>val D (ys ! i)\<bar>" "\<bar>val D (ys ! i)\<bar> \<le> 2 ^ (D - 2)" using rows i(1) D(1) by auto
    then show "0 < sint w \<and> sint w < 2 ^ (D + 32)" unfolding i(2) by (intro conjI fits(1,2))
  qed
  obtain ranks rt6 where R: "divisor_ranks L X V (length ys) Ba rt5 = Inr (ranks, rt6)" "length ranks = length ys"
    "\<forall>j < length ys. rank_ok D (sint (?ab (ys ! j))) (ranks ! j)"
    using divisor_ranks_ok [OF ok(1,3) _ _ Ba(2) pos, of rt5] D by auto
  have small: "\<forall>k \<in> set ranks. - k + int D < 62" using R(2,3) rank_small [OF D(2,1)] by (metis in_set_conv_nth)
  obtain Q qs rt7 where Q: "quotient L X V (length ys) ranks Aa Ba rt6 = Inr (Q, rt7)" "sharing Q (column qs)" "length qs = length ys"
    "\<forall>i < length ys. quotient_row_of D ?T (?ab (xs ! i)) (?ab (ys ! i)) (ranks ! i) (qs ! i)"
    using quotient_column [OF ok _ Aa(2) Ba(2) _ _ small, of rt6] D len R(2) by auto
  have lg: "length qs = length gs" using Q(3) G(3) by (simp add: near_rows_def)
  obtain S zs rt8 where S: "MPC_Dotproduct X Q G rt7 = Inr (S, rt8)" "sharing S (column zs)" "near_rows D qs gs zs"
    using product_column [OF ok(2) Q(2) G(2) lg, where rt = rt7] by blast
  have "\<bar>val D (zs ! i) - val D (xs ! i) / val D (ys ! i)\<bar> \<le> r * defect D \<bar>val D (ys ! i)\<bar> ^ 4 + (7 + 6 * r) / 2 ^ D"
    if i: "i < length ys" and r: "r = \<bar>val D (xs ! i)\<bar> / \<bar>val D (ys ! i)\<bar>" for i r
  proof -
    have row: "0 < \<bar>val D (ys ! i)\<bar>" "\<bar>val D (ys ! i)\<bar> \<le> 2 ^ (D - 2)" "\<bar>val D (xs ! i)\<bar> / \<bar>val D (ys ! i)\<bar> \<le> room D / 16" using rows i by auto
    have D2: "2 \<le> D" using D(1) by simp
    have ab: "val D (?ab (ys ! i)) = \<bar>val D (ys ! i)\<bar>" "val D (?ab (xs ! i)) = \<bar>val D (xs ! i)\<bar>"
      by (rule val_abs [OF fits(3) [OF D2 row(1,2)]], rule val_abs [OF numerator_fits [OF D(2) D2 row]])
    have q: "\<bar>val D (qs ! i) - \<bar>val D (xs ! i)\<bar> / \<bar>val D (ys ! i)\<bar>\<bar> \<le>
      \<bar>val D (xs ! i)\<bar> / \<bar>val D (ys ! i)\<bar> * defect D \<bar>val D (ys ! i)\<bar> ^ 4 + (5 + 4 * (\<bar>val D (xs ! i)\<bar> / \<bar>val D (ys ! i)\<bar>)) / 2 ^ D"
      using quotient_accuracy [OF D fits(1) [OF D2 row(1,2)] _ _ _ _ T, of "?ab (xs ! i)" "ranks ! i" "qs ! i"] R(3) Q(4) i row
      unfolding ab by simp
    have g: "fx_near D (?sg (ys ! i)) (?sg (xs ! i)) (gs ! i)" using near_rowsD [OF G(3), of i] i len by simp
    have z: "fx_near D (qs ! i) (gs ! i) (zs ! i)" using near_rowsD [OF S(3), of i] i Q(3) by simp
    show ?thesis unfolding r by (rule signed_row [OF D row q g z])
  qed
  moreover have "length zs = length ys" using S(3) Q(3) by (simp add: near_rows_def)
  moreover have "MPC_Div L X V A B rt = Inr (S, rt8)"
  proof -
    have "shape (sh0 (B p)) = (length ys, 1) \<and> shape (sh0 (A p)) = (length ys, 1)" if "p \<in> {0, 1, 2}" for p
      using that sharing_shape [OF B] sharing_shape [OF A] len by (auto simp: shape_def column_def)
    then have "\<forall>p \<in> {0, 1, 2}. m_cols (sh0 (A p)) = m_cols (sh0 (B p)) \<and> m_rows (sh0 (A p)) = m_rows (sh0 (B p)) \<and> m_cols (sh0 (B p)) = 1"
      "m_rows (sh0 (B 0)) = length ys" by (simp_all add: shape_def)
    then show ?thesis unfolding MPC_Div_def par3_def
      by (simp add: Bs(1) Ba(1) As(1) Aa(1) G(1) R(1) Q(1) S(1) Let_def)
  qed
  ultimately show ?thesis using S(2) by (auto simp: Let_def)
qed

section \<open>A library with eight places\<close>

text \<open>Real numbers as doubles, products rounded down, step functions computed on the opened shares.\<close>

definition prod8 :: "i64 \<Rightarrow> i64 \<Rightarrow> i64" where
  "prod8 x y = word_of_int (sint x * sint y div 256)"

definition fx8 :: "(real, unit) fx_lib" where
  "fx8 = \<lparr>fx_of_double = (\<lambda>d. word_of_int \<lfloor>d * 256\<rfloor>), fx_to_double = (\<lambda>x. sint x / 256),
     fx_dot_mul = (\<lambda>A B rt. Inr (plain_shares (map2_mat prod8 (open_shares A) (open_shares B)), ())),
     fx_const_mul = (\<lambda>c A rt. Inr (plain_shares (map_mat (prod8 (c 0)) (open_shares A)), ())),
     fx_piecewise = (\<lambda>P A rt. Inr (plain_shares (map_mat (piece_value 8 P) (open_shares A)), ()))\<rparr>"

definition div8 :: "(real, unit) div_lib" where
  "div8 = \<lparr>dv_revealAll = (\<lambda>A rt. Inr (open_shares A, ())), dv_pow2 = (\<lambda>k. 2 powi k), dv_2_9142 = 29142 / 10000,
     dv_to_u64 = (\<lambda>d. nat \<lfloor>d\<rfloor>), dv_is_zero = (\<lambda>d. d = 0)\<rparr>"

lemma prod8_near: "fx_near 8 x y (prod8 x y)"
proof -
  have "\<bar>sint (prod8 x y) * 256 - sint x * sint y\<bar> \<le> 256" if "\<bar>sint x * sint y\<bar> < 2 ^ 62"
  proof -
    define t where "t = sint x * sint y"
    have "\<bar>t\<bar> < 4611686018427387904" using that unfolding t_def [symmetric] by simp
    then have "- (2 ^ 63) \<le> t div 256 \<and> t div 256 < 2 ^ 63" by (simp, presburger)
    then have "- (2 ^ 63) \<le> t div 256" "t div 256 < 2 ^ 63" by blast+
    then have "sint (prod8 x y) = t div 256" unfolding prod8_def t_def [symmetric] by (rule sint_of_small)
    then show ?thesis unfolding t_def [symmetric] by linarith
  qed
  then show ?thesis by (simp add: fx_near_def)
qed

lemma fx8_ok: "fx_ok (fx_near 8) fx8"
  unfolding fx_ok_def
proof (intro conjI allI impI)
  fix A B x y rt assume s: "sharing A x" "sharing B y" "shape x = shape y"
  have xy: "mat_ok x" "mat_ok y" by (rule sharing_ok [OF s(1)], rule sharing_ok [OF s(2)])
  have "mat_ok (map2_mat prod8 x y)" "length (m_data x) = length (m_data y)"
    by (rule map2_mat_ok [OF xy s(3)], rule mat_ok_same [OF xy s(3)])
  with s show "\<exists>S z rt'. fx_dot_mul fx8 A B rt = Inr (S, rt') \<and> sharing S z \<and> entries2 (fx_near 8) x y z"
    by (intro exI [of _ "plain_shares (map2_mat prod8 x y)"] exI [of _ "map2_mat prod8 x y"] exI [of _ "()"])
       (simp add: fx8_def sharing_open plain_shares_sharing entries2_def prod8_near)
next
  fix k :: "nat \<Rightarrow> i64" and c A x rt assume s: "k 0 = c" "k 1 = c" "k 2 = c" "sharing A x"
  have "mat_ok x" by (rule sharing_ok [OF s(4)])
  with s show "\<exists>S z rt'. fx_const_mul fx8 k A rt = Inr (S, rt') \<and> sharing S z \<and> entries (fx_near 8 c) x z"
    by (intro exI [of _ "plain_shares (map_mat (prod8 c) x)"] exI [of _ "map_mat (prod8 c) x"] exI [of _ "()"])
       (simp add: fx8_def sharing_open plain_shares_sharing entries_def prod8_near)
qed (simp add: fx_near_def mult.commute)

lemma powi_floor:
  "\<lfloor>(2 :: real) powi k * 256\<rfloor> = (if k + 8 < 0 then 0 else 2 ^ nat (k + 8))"
proof -
  have e: "(2 :: real) powi k * 256 = 2 powi (k + 8)" by (simp add: power_int_add)
  show ?thesis
  proof (cases "k + 8 < 0")
    case True
    have "0 < (2 :: real) powi (k + 8)" by (rule zero_less_power_int) simp
    moreover have "(2 :: real) powi (k + 8) < 2 powi 0" using True by (intro power_int_strict_increasing) simp_all
    ultimately show ?thesis unfolding e using True by (simp add: floor_eq_iff)
  next
    case False
    then have "(2 :: real) powi (k + 8) = of_int (2 ^ nat (k + 8))" by (simp add: power_int_def)
    then show ?thesis unfolding e using False by simp
  qed
qed

lemma div8_ok: "div_ok 8 fx8 div8"
  unfolding div_ok_def
proof (intro conjI ballI allI impI)
  fix P and A :: s3 and x rt assume s: "sharing A x"
  have "mat_ok x" by (rule sharing_ok [OF s])
  with s show "\<exists>S rt'. fx_piecewise fx8 P A rt = Inr (S, rt') \<and> sharing S (map_mat (piece_value 8 P) x)"
    by (intro exI [of _ "plain_shares (map_mat (piece_value 8 P) x)"] exI [of _ "()"])
       (simp add: fx8_def sharing_open plain_shares_sharing)
next
  fix S x rt assume "sharing S x"
  then show "\<exists>rt'. dv_revealAll div8 S rt = Inr (x, rt')" by (simp add: div8_def sharing_open)
next
  fix k show "fx_of_double fx8 (dv_pow2 div8 k) = word_of_int (if k + int 8 < 0 then 0 else 2 ^ nat (k + int 8))"
    by (simp only: fx8_def div8_def fx_lib.simps div_lib.simps powi_floor) simp
qed (simp_all add: fx8_def div8_def)

text \<open>Three by minus two, with eight places.\<close>

theorem division_accuracy_witness:
  "\<exists>S zs rt'. MPC_Div lib_ref fx8 div8 (plain_shares (column [768])) (plain_shares (column [- 512])) () = Inr (S, rt') \<and>
     sharing S (column zs) \<and> length zs = 1 \<and> \<bar>val 8 (zs ! 0) + 3 / 2\<bar> \<le> 1 / 10"
proof -
  have v: "val 8 768 = 3" "val 8 (- 512) = - 2" by (simp_all add: val_def)
  have sh: "sharing (plain_shares (column [768])) (column [768])" "sharing (plain_shares (column [- 512])) (column [- 512])"
    by (intro plain_shares_sharing; simp add: mat_ok_def column_def)+
  have d: "3 / 2 * defect 8 2 ^ 4 \<le> (1 / 100 :: real)" by (simp add: defect_def power_divide)
  have rows: "\<forall>i < length [- 512 :: i64]. 0 < \<bar>val 8 ([- 512] ! i)\<bar> \<and> \<bar>val 8 ([- 512] ! i)\<bar> \<le> 2 ^ (8 - 2) \<and>
    \<bar>val 8 ([768] ! i)\<bar> / \<bar>val 8 ([- 512] ! i)\<bar> \<le> room 8 / 16" by (simp add: v room_def)
  obtain S zs rt' where r: "MPC_Div lib_ref fx8 div8 (plain_shares (column [768])) (plain_shares (column [- 512])) () = Inr (S, rt')"
    "sharing S (column zs)" "length zs = length [- 512 :: i64]"
    and b: "\<forall>i < length [- 512 :: i64]. let r = \<bar>val 8 ([768] ! i)\<bar> / \<bar>val 8 ([- 512] ! i)\<bar> in
      \<bar>val 8 (zs ! i) - val 8 ([768] ! i) / val 8 ([- 512] ! i)\<bar> \<le> r * defect 8 \<bar>val 8 ([- 512] ! i)\<bar> ^ 4 + (7 + 6 * r) / 2 ^ 8"
    using division_accuracy [OF aby3_ok_ref fx8_ok div8_ok _ _ sh _ rows, of "()"] by auto
  have "\<bar>val 8 (zs ! 0) - 3 / - 2\<bar> \<le> \<bar>3\<bar> / \<bar>- 2\<bar> * defect 8 \<bar>- 2\<bar> ^ 4 + (7 + 6 * (\<bar>3\<bar> / \<bar>- 2\<bar>)) / 2 ^ 8"
    using spec [OF b, of 0] by (simp only: v Let_def nth_Cons_0) simp
  then have "\<bar>val 8 (zs ! 0) + 3 / 2\<bar> \<le> 3 / 2 * defect 8 2 ^ 4 + 16 / 256" by simp
  then have "\<bar>val 8 (zs ! 0) + 3 / 2\<bar> \<le> 1 / 10" using d by linarith
  then show ?thesis using r by auto
qed

end
