(* ===== verification/Text_Util.thy ===== *)
theory Text_Util
  imports Digits "HOL-Library.Sublist" "HOL-Library.List_Lexorder" "HOL-Library.Char_ord"
begin

text \<open>
  The text helpers of \<^verbatim>\<open>util/util.cc\<close> and the textual form of a \<^verbatim>\<open>Node\<close> of \<^verbatim>\<open>common/common.h\<close>: splitting
  at a character or at a separator, case conversion, hexadecimal dumps, and the conversions between
  the program's node records, the protocol buffer's node records and text.
\<close>

section \<open>Splitting\<close>

text \<open>
  \<^verbatim>\<open>str_split\<close> with a character: \<^verbatim>\<open>getline\<close> reads up to the delimiter or the end, and the loop goes on
  while the stream is good, that is, until \<^verbatim>\<open>getline\<close> has met the end.
\<close>

function str_split :: "string \<Rightarrow> char \<Rightarrow> string list" where
  "str_split str delimiter =
     (let substr = takeWhile (\<lambda>c. c \<noteq> delimiter) str in
      case dropWhile (\<lambda>c. c \<noteq> delimiter) str of
        [] \<Rightarrow> [substr]
      | _ # rest \<Rightarrow> substr # str_split rest delimiter)"
  by pat_completeness auto
termination
proof (relation "measure (\<lambda>(str, delimiter). length str)")
  fix str delimiter substr c rest
  assume "dropWhile (\<lambda>c. c \<noteq> delimiter) str = c # rest"
  then have "length (c # rest) \<le> length str" by (metis length_dropWhile_le)
  then show "((rest, delimiter), str, delimiter) \<in> measure (\<lambda>(str, delimiter). length str)" by simp
qed simp

declare str_split.simps [simp del]

text \<open>\<^verbatim>\<open>std::string::find\<close> and \<^verbatim>\<open>substr\<close> at positions inside the string.\<close>

fun find_rel :: "string \<Rightarrow> string \<Rightarrow> nat option" where
  "find_rel pattern [] = (if pattern = [] then Some 0 else None)"
| "find_rel pattern (c # s) =
     (if prefix pattern (c # s) then Some 0 else map_option Suc (find_rel pattern s))"

definition str_find :: "string \<Rightarrow> string \<Rightarrow> nat \<Rightarrow> nat option" where
  "str_find str pattern pos =
     (if length str < pos then None else map_option (\<lambda>i. pos + i) (find_rel pattern (drop pos str)))"

definition substr :: "string \<Rightarrow> nat \<Rightarrow> nat \<Rightarrow> string" where
  "substr str pos n = take n (drop pos str)"

text \<open>
  \<^verbatim>\<open>str_split\<close> with a separator string. With an empty separator the search never advances, so the loop
  is a partial function: \<open>None\<close> is a loop that does not end.
\<close>

partial_function (option) split_loop ::
  "string \<Rightarrow> string \<Rightarrow> nat \<Rightarrow> nat option \<Rightarrow> string list \<Rightarrow> (string list \<times> nat) option" where
  "split_loop str pattern pos1 pos2 v =
     (case pos2 of
        None \<Rightarrow> Some (v, pos1)
      | Some p2 \<Rightarrow>
          split_loop str pattern (p2 + length pattern) (str_find str pattern (p2 + length pattern))
            (v @ [substr str pos1 (p2 - pos1)]))"

definition str_split_pattern :: "string \<Rightarrow> string \<Rightarrow> string list option" where
  "str_split_pattern str pattern =
     (case split_loop str pattern 0 (str_find str pattern 0) [] of
        None \<Rightarrow> None
      | Some (v, pos1) \<Rightarrow> Some (if pos1 \<noteq> length str then v @ [drop pos1 str] else v))"

section \<open>Characters\<close>

text \<open>\<^verbatim>\<open>std::string::compare\<close> orders by unsigned character codes; equal strings are indistinguishable.\<close>

definition sort_peers :: "string list \<Rightarrow> string list" where
  "sort_peers peers = (if peers = [] \<or> length peers = 1 then peers else sort peers)"

definition toupper :: "char \<Rightarrow> char" where
  "toupper c = (let n = of_char c :: nat in if 97 \<le> n \<and> n \<le> 122 then char_of (n - 32) else c)"

definition tolower :: "char \<Rightarrow> char" where
  "tolower c = (let n = of_char c :: nat in if 65 \<le> n \<and> n \<le> 90 then char_of (n + 32) else c)"

definition strToUpper :: "string \<Rightarrow> string" where
  "strToUpper str = map toupper str"

definition strToLower :: "string \<Rightarrow> string" where
  "strToLower str = map tolower str"

text \<open>Every byte is printed with two lower case hexadecimal digits, padded with a zero.\<close>

definition hex_digit :: "nat \<Rightarrow> char" where
  "hex_digit d = (if d < 10 then char_of (48 + d) else char_of (87 + d))"

definition buf_to_hex_string :: "u8 list \<Rightarrow> string" where
  "buf_to_hex_string pdata = concat (map (\<lambda>b. [hex_digit (unat b div 16), hex_digit (unat b mod 16)]) pdata)"

text \<open>\<^verbatim>\<open>CompletePath\<close> of \<^verbatim>\<open>util/file_util.cc\<close>.\<close>

definition CompletePath :: "string \<Rightarrow> string \<Rightarrow> string" where
  "CompletePath default_storage_path file_path =
     (if file_path = [] then []
      else if hd file_path = CHR ''/'' then file_path
      else if default_storage_path = [] then file_path
      else default_storage_path @ ''/'' @ file_path)"

section \<open>Nodes\<close>

record Node =
  nd_id :: string
  nd_ip :: string
  nd_port :: u32
  nd_use_tls :: bool
  nd_role :: string

text \<open>The links of a party that a scheduler describes for the virtual machines of a node.\<close>

datatype LinkType = LT_SERVER | LT_CLIENT

record EndPoint =
  ep_ip :: string
  ep_port :: int
  ep_name :: string
  ep_link_type :: LinkType

record VirtualMachine =
  vm_party_id :: int
  vm_next :: EndPoint
  vm_prev :: EndPoint

text \<open>The message \<^verbatim>\<open>rpc::Node\<close>, the fields the sources touch; \<^verbatim>\<open>port\<close> and \<^verbatim>\<open>party_id\<close> are \<^verbatim>\<open>int32\<close>.\<close>

record pb_node =
  pb_node_id :: string
  pb_ip :: string
  pb_port :: u32
  pb_use_tls :: bool
  pb_role :: string
  pb_vm :: "VirtualMachine list"
  pb_party_id :: int

definition node_to_string :: "Node \<Rightarrow> string" where
  "node_to_string n =
     nd_id n @ '':'' @ nd_ip n @ '':'' @ to_string_nat (unat (nd_port n)) @ '':'' @
     (if nd_use_tls n then ''1'' else ''0'') @ '':'' @ nd_role n"

text \<open>\<^verbatim>\<open>fromString\<close> does not check the number of fields; a missing one is read out of range.\<close>

definition node_fromString :: "string \<Rightarrow> Node \<Rightarrow> Node res" where
  "node_fromString node_info n =
     (let v = str_split node_info (CHR '':'') in
      if length v < 3 then Inl (Undefined ''element past the end of a vector'')
      else bindR (stoi (v ! 2)) (\<lambda>port.
        if length v < 4 then Inl (Undefined ''element past the end of a vector'')
        else
          let n' = n\<lparr>nd_id := v ! 0, nd_ip := v ! 1, nd_port := word_of_int port,
                     nd_use_tls := (v ! 3 = ''1'')\<rparr>
          in Inr (if length v = 5 then n'\<lparr>nd_role := v ! 4\<rparr> else n')))"

definition parseToNode :: "string \<Rightarrow> Node \<Rightarrow> (Node \<times> bool) res" where
  "parseToNode node_info n =
     (let addr_info = str_split node_info (CHR '':'') in
      if length addr_info < 4 then Inr (n, False)
      else bindR (stoi (addr_info ! 2)) (\<lambda>port.
        Inr (n\<lparr>nd_id := addr_info ! 0, nd_ip := addr_info ! 1, nd_port := word_of_int port,
               nd_use_tls := (addr_info ! 3 = ''1'')\<rparr>, True)))"

definition parseTopbNode :: "string \<Rightarrow> pb_node \<Rightarrow> (pb_node \<times> bool) res" where
  "parseTopbNode node_info n =
     (let addr_info = str_split node_info (CHR '':'') in
      if length addr_info < 4 then Inr (n, False)
      else bindR (stoi (addr_info ! 2)) (\<lambda>port.
        Inr (n\<lparr>pb_node_id := addr_info ! 0, pb_ip := addr_info ! 1, pb_port := word_of_int port,
               pb_use_tls := (addr_info ! 3 = ''1'')\<rparr>, True)))"

definition new_pb_node :: pb_node where
  "new_pb_node = \<lparr>pb_node_id = [], pb_ip = [], pb_port = 0, pb_use_tls = False, pb_role = [], pb_vm = [], pb_party_id = 0\<rparr>"

text \<open>A peer that does not parse leaves an empty node in the list: the return code is not looked at.\<close>

fun peer_to_list :: "string list \<Rightarrow> pb_node list res" where
  "peer_to_list [] = Inr []"
| "peer_to_list (p # ps) =
     bindR (parseTopbNode p new_pb_node) (\<lambda>(n, ok). bindR (peer_to_list ps) (\<lambda>ns. Inr (n # ns)))"

definition pbNode2Node :: "pb_node \<Rightarrow> Node \<Rightarrow> Node" where
  "pbNode2Node p n = n\<lparr>nd_id := pb_node_id p, nd_ip := pb_ip p, nd_port := pb_port p,
     nd_role := pb_role p, nd_use_tls := pb_use_tls p\<rparr>"

definition node2PbNode :: "Node \<Rightarrow> pb_node \<Rightarrow> pb_node" where
  "node2PbNode n p = p\<lparr>pb_node_id := nd_id n, pb_ip := nd_ip n, pb_port := nd_port n,
     pb_role := nd_role n, pb_use_tls := nd_use_tls n\<rparr>"

text \<open>\<^verbatim>\<open>operator==\<close> compares neither the name nor the role.\<close>

definition node_eq :: "Node \<Rightarrow> Node \<Rightarrow> bool" where
  "node_eq a b \<longleftrightarrow> nd_ip a = nd_ip b \<and> nd_port a = nd_port b \<and> nd_use_tls a = nd_use_tls b"

section \<open>Joining and splitting\<close>

definition join :: "string \<Rightarrow> string list \<Rightarrow> string" where
  "join sep ws = (case ws of [] \<Rightarrow> [] | w # rest \<Rightarrow> w @ concat (map (\<lambda>x. sep @ x) rest))"

lemma join_simps [simp]:
  "join sep [] = []" "join sep [w] = w" "join sep (w # v # ws) = w @ sep @ join sep (v # ws)"
  by (simp_all add: join_def)

lemma str_split_last: "d \<notin> set w \<Longrightarrow> str_split w d = [w]"
proof -
  assume "d \<notin> set w"
  then have "takeWhile (\<lambda>c. c \<noteq> d) w = w" "dropWhile (\<lambda>c. c \<noteq> d) w = []" by auto
  then show ?thesis by (subst str_split.simps) (simp only: Let_def list.case)
qed

lemma str_split_field: "d \<notin> set w \<Longrightarrow> str_split (w @ d # rest) d = w # str_split rest d"
proof -
  assume "d \<notin> set w"
  then have "takeWhile (\<lambda>c. c \<noteq> d) (w @ d # rest) = w" "dropWhile (\<lambda>c. c \<noteq> d) (w @ d # rest) = d # rest"
    by (induction w) auto
  then show ?thesis by (subst str_split.simps) (simp only: Let_def list.case)
qed

lemma str_split_join:
  "ws \<noteq> [] \<Longrightarrow> \<forall>w \<in> set ws. d \<notin> set w \<Longrightarrow> str_split (join [d] ws) d = ws"
proof (induction ws)
  case (Cons w ws)
  then show ?case by (cases ws) (simp_all add: str_split_last str_split_field)
qed simp

lemma str_split_nonempty [simp]: "str_split s d \<noteq> []"
  by (subst str_split.simps) (simp add: Let_def split: list.split)

lemma join_str_split: "join [d] (str_split s d) = s"
proof (induction s d rule: str_split.induct)
  case (1 s d)
  show ?case
  proof (cases "dropWhile (\<lambda>c. c \<noteq> d) s")
    case Nil
    then have "takeWhile (\<lambda>c. c \<noteq> d) s = s" by (metis append_Nil2 takeWhile_dropWhile_id)
    then have "str_split s d = [s]" by (subst str_split.simps) (simp only: Let_def Nil list.case)
    then show ?thesis by simp
  next
    case (Cons c rest)
    then have c: "c = d" by (metis (full_types) dropWhile_eq_Cons_conv)
    have "str_split s d = takeWhile (\<lambda>c. c \<noteq> d) s # str_split rest d"
      by (subst str_split.simps) (simp add: Cons Let_def)
    moreover have "join [d] (str_split rest d) = rest" using 1 Cons by blast
    moreover obtain v vs where "str_split rest d = v # vs" by (cases "str_split rest d") simp_all
    ultimately have "join [d] (str_split s d) = takeWhile (\<lambda>c. c \<noteq> d) s @ d # rest" by simp
    also have "\<dots> = s" using takeWhile_dropWhile_id [of "\<lambda>c. c \<noteq> d" s] Cons c by simp
    finally show ?thesis .
  qed
qed

section \<open>Separators\<close>

lemma find_rel_Some:
  "find_rel pat s = Some i \<Longrightarrow> i + length pat \<le> length s \<and> take (length pat) (drop i s) = pat"
proof (induction pat s arbitrary: i rule: find_rel.induct)
  case (2 pat c s)
  then show ?case
  proof (cases "prefix pat (c # s)")
    case True
    then obtain zs where "c # s = pat @ zs" by (auto simp: prefix_def)
    then show ?thesis using 2 True
      by (metis add_0 append_eq_conv_conj drop0 find_rel.simps(2) length_append le_add1 option.inject)
  next
    case False
    then obtain j where "find_rel pat s = Some j" "i = Suc j" using 2 by auto
    then show ?thesis using 2 False by simp
  qed
qed (simp split: if_splits)

lemma find_rel_first:
  "pat \<noteq> [] \<Longrightarrow> hd pat \<notin> set w \<Longrightarrow> find_rel pat (w @ pat @ rest) = Some (length w)"
proof (induction w)
  case Nil
  then show ?case by (cases pat) simp_all
next
  case (Cons c w)
  then have "\<not> prefix pat (c # w @ pat @ rest)" by (cases pat) auto
  then show ?case using Cons by simp
qed

lemma find_rel_none: "pat \<noteq> [] \<Longrightarrow> hd pat \<notin> set w \<Longrightarrow> find_rel pat w = None"
proof (induction w)
  case (Cons c w)
  then have "\<not> prefix pat (c # w)" by (cases pat) auto
  then show ?case using Cons by simp
qed simp

lemma str_find_Some:
  assumes "str_find str pat pos = Some p"
  shows "pos \<le> p \<and> p + length pat \<le> length str \<and> take (length pat) (drop p str) = pat"
  using assms find_rel_Some [of pat "drop pos str"]
  by (auto simp: str_find_def add.commute split: if_splits)

text \<open>The loop on a text with a position behind the last separator found.\<close>

lemma split_loop_simps:
  "split_loop str pat pos1 None v = Some (v, pos1)"
  "split_loop str pat pos1 (Some p2) v =
     split_loop str pat (p2 + length pat) (str_find str pat (p2 + length pat)) (v @ [substr str pos1 (p2 - pos1)])"
  by (subst split_loop.simps; simp)+

lemma split_loop_returns:
  assumes "pat \<noteq> []" "pos2 = str_find str pat pos1" "pos1 \<le> length str"
  shows "\<exists>ws pos. split_loop str pat pos1 pos2 v = Some (v @ ws, pos) \<and> pos \<le> length str \<and>
    drop pos1 str = concat (map (\<lambda>w. w @ pat) ws) @ drop pos str"
  using assms
proof (induction "length str - pos1" arbitrary: pos1 pos2 v rule: less_induct)
  case less
  show ?case
  proof (cases pos2)
    case None
    then show ?thesis using less by (intro exI [of _ "[]"] exI [of _ pos1]) (simp add: split_loop_simps)
  next
    case (Some p2)
    then have p2: "pos1 \<le> p2" "p2 + length pat \<le> length str" "take (length pat) (drop p2 str) = pat"
      using less(3) str_find_Some by metis+
    have "length str - (p2 + length pat) < length str - pos1" using p2 less(2) by (cases pat) auto
    from less(1) [OF this less(2) refl p2(2), of "v @ [substr str pos1 (p2 - pos1)]"] obtain ws pos where
      IH: "split_loop str pat (p2 + length pat) (str_find str pat (p2 + length pat))
          (v @ [substr str pos1 (p2 - pos1)]) = Some ((v @ [substr str pos1 (p2 - pos1)]) @ ws, pos)"
        "pos \<le> length str"
        "drop (p2 + length pat) str = concat (map (\<lambda>w. w @ pat) ws) @ drop pos str" by blast
    have "drop pos1 str = substr str pos1 (p2 - pos1) @ drop p2 str"
      using p2(1) by (simp add: substr_def) (metis append_take_drop_id drop_drop le_add_diff_inverse2)
    also have "drop p2 str = pat @ drop (p2 + length pat) str"
      using p2(3) by (metis append_take_drop_id drop_drop add.commute)
    finally show ?thesis using IH Some
      by (intro exI [of _ "substr str pos1 (p2 - pos1) # ws"] exI [of _ pos]) (simp add: split_loop_simps)
  qed
qed

lemma split_loop_stuck:
  assumes "split_loop str pat pos1 pos2 v = Some r"
  shows "\<not> (pat = [] \<and> (\<exists>p. pos2 = Some p \<and> p \<le> length str))"
proof (rule split_loop.raw_induct
    [where P = "\<lambda>str pat pos1 pos2 v r. \<not> (pat = [] \<and> (\<exists>p. pos2 = Some p \<and> p \<le> length str))", OF _ assms])
  fix sl str pat pos1 pos2 v r
  assume IH: "\<And>str pat pos1 pos2 v r. sl str pat pos1 pos2 v = Some r \<Longrightarrow>
      \<not> (pat = [] \<and> (\<exists>p. pos2 = Some p \<and> p \<le> length str))"
    and body: "(case pos2 of None \<Rightarrow> Some (v, pos1) | Some p2 \<Rightarrow>
      sl str pat (p2 + length pat) (str_find str pat (p2 + length pat)) (v @ [substr str pos1 (p2 - pos1)])) = Some r"
  show "\<not> (pat = [] \<and> (\<exists>p. pos2 = Some p \<and> p \<le> length str))"
  proof
    assume a: "pat = [] \<and> (\<exists>p. pos2 = Some p \<and> p \<le> length str)"
    then obtain p where p: "pos2 = Some p" "p \<le> length str" by blast
    have "find_rel [] (drop p str) = Some 0" by (cases "drop p str") simp_all
    then have "str_find str [] p = Some p" using p by (simp add: str_find_def)
    then show False using IH [of str "[]" p "Some p"] body a p by fastforce
  qed
qed

lemma split_loop_join:
  assumes "pat \<noteq> []" "ws \<noteq> []" "\<forall>w \<in> set ws. hd pat \<notin> set w"
    and "str = pre @ join pat ws" "pos1 = length pre"
  shows "split_loop str pat pos1 (str_find str pat pos1) v =
    Some (v @ butlast ws, length str - length (last ws))"
  using assms
proof (induction ws arbitrary: pre pos1 v)
  case (Cons w ws)
  show ?case
  proof (cases ws)
    case Nil
    then have "str_find str pat pos1 = None" using Cons by (simp add: str_find_def find_rel_none)
    then show ?thesis using Cons Nil by (simp add: split_loop_simps)
  next
    case (Cons w' ws')
    then have "drop pos1 str = w @ pat @ join pat ws" "pos1 \<le> length str" using Cons.prems by simp_all
    then have "str_find str pat pos1 = Some (pos1 + length w)"
      using Cons.prems by (simp add: str_find_def find_rel_first)
    moreover have "substr str pos1 (length w) = w" using \<open>drop pos1 str = _\<close> by (simp add: substr_def)
    moreover have "split_loop str pat (pos1 + length w + length pat)
        (str_find str pat (pos1 + length w + length pat)) (v @ [w]) =
        Some ((v @ [w]) @ butlast ws, length str - length (last ws))"
      using Cons Cons.prems by (intro Cons.IH [of "pre @ w @ pat"]) simp_all
    ultimately show ?thesis using Cons by (simp add: split_loop_simps)
  qed
qed simp

lemma length_join_last: "ws \<noteq> [] \<Longrightarrow> length (last ws) \<le> length (join pat ws)"
  by (induction ws rule: induct_list012) auto

lemma drop_join_last: "ws \<noteq> [] \<Longrightarrow> drop (length (join pat ws) - length (last ws)) (join pat ws) = last ws"
proof (induction ws rule: induct_list012)
  case (3 w v ws)
  have "length (last (v # ws)) \<le> length (join pat (v # ws))" by (rule length_join_last) simp
  then show ?case using 3 by simp
qed simp_all

section \<open>Hexadecimal\<close>

definition hex_value :: "char \<Rightarrow> nat" where
  "hex_value c = (let n = of_char c :: nat in if n < 58 then n - 48 else n - 87)"

fun hex_to_buf :: "string \<Rightarrow> u8 list" where
  "hex_to_buf (a # b # s) = word_of_nat (16 * hex_value a + hex_value b) # hex_to_buf s"
| "hex_to_buf _ = []"

lemma hex_value_digit: "d < 16 \<Longrightarrow> hex_value (hex_digit d) = d"
  by (auto simp: hex_value_def hex_digit_def)

lemma hex_to_buf_inverse: "hex_to_buf (buf_to_hex_string bs) = bs"
proof (induction bs)
  case (Cons b bs)
  have "unat b < 2 ^ 8" by (rule order_less_le_trans [OF unsigned_less]) simp
  then have "unat b div 16 < 16" by simp
  moreover have "unat b mod 16 < 16" by simp
  moreover have "16 * (unat b div 16) + unat b mod 16 = unat b" by simp
  ultimately have "word_of_nat (16 * hex_value (hex_digit (unat b div 16)) + hex_value (hex_digit (unat b mod 16))) = b"
    by (simp only: hex_value_digit word_unat_eq_iff) (simp add: unsigned_of_nat take_bit_nat_eq_self)
  then show ?case using Cons by (simp only: buf_to_hex_string_def list.map concat.simps append.simps hex_to_buf.simps)
qed (simp add: buf_to_hex_string_def)

section \<open>The fields of a node\<close>

lemma node_fields_split:
  assumes "CHR '':'' \<notin> set (nd_id n)" "CHR '':'' \<notin> set (nd_ip n)" "CHR '':'' \<notin> set (nd_role n)"
  shows "str_split (node_to_string n) (CHR '':'') =
    [nd_id n, nd_ip n, to_string_nat (unat (nd_port n)), if nd_use_tls n then ''1'' else ''0'', nd_role n]"
proof -
  have "CHR '':'' \<notin> set (to_string_nat k)" for k by (simp add: to_string_nat_def digits_ref_excludes)
  then show ?thesis
    using str_split_join [of "[nd_id n, nd_ip n, to_string_nat (unat (nd_port n)),
      if nd_use_tls n then ''1'' else ''0'', nd_role n]" "CHR '':''"] assms
    by (simp add: node_to_string_def)
qed

section \<open>Properties\<close>

text \<open>
  A node survives its textual form: for a node whose name, address and role contain no colon and
  whose port fits into 31 bits, \<^verbatim>\<open>fromString\<close> applied to \<^verbatim>\<open>to_string\<close> gives the node back whatever the
  target held before, and \<^verbatim>\<open>parseToNode\<close> gives all of it but the role.
\<close>

theorem node_text_round_trip:
  assumes "CHR '':'' \<notin> set (nd_id n)" "CHR '':'' \<notin> set (nd_ip n)" "CHR '':'' \<notin> set (nd_role n)"
    and "unat (nd_port n) < 2 ^ 31"
  shows "node_fromString (node_to_string n) m = Inr n \<and>
    parseToNode (node_to_string n) m = Inr (n\<lparr>nd_role := nd_role m\<rparr>, True)"
proof -
  note v = node_fields_split [OF assms(1-3)]
  have "word_of_int (int (unat (nd_port n))) = nd_port n" by simp
  then show ?thesis using assms(4)
    by (simp add: node_fromString_def parseToNode_def v stoi_to_string Let_def del: of_int_of_nat_eq)
qed

theorem node_text_round_trip_witness:
  "let n = \<lparr>nd_id = ''n0'', nd_ip = ''10.0.0.1'', nd_port = 50050, nd_use_tls = True, nd_role = ''default''\<rparr>
   in node_fromString (node_to_string n) (n\<lparr>nd_id := ''old'', nd_use_tls := False\<rparr>) = Inr n"
  using node_text_round_trip [of "\<lparr>nd_id = ''n0'', nd_ip = ''10.0.0.1'', nd_port = 50050, nd_use_tls = True,
    nd_role = ''default''\<rparr>"]
  by (simp add: Let_def)

text \<open>
  C40. \<^verbatim>\<open>str_split\<close> with a separator string returns exactly when the separator is not empty: with an empty
  one the position never advances and the loop goes on for ever.
\<close>

theorem split_returns_iff:
  "(\<exists>v. str_split_pattern str pattern = Some v) \<longleftrightarrow> pattern \<noteq> []"
proof (cases "pattern = []")
  case True
  have "find_rel [] str = Some 0" by (cases str) simp_all
  then have "str_find str pattern 0 = Some 0" using True by (simp add: str_find_def)
  then have "split_loop str pattern 0 (str_find str pattern 0) [] = None"
    using split_loop_stuck [of str pattern 0 "Some 0" "[]"] True
    by (cases "split_loop str pattern 0 (Some 0) []") simp_all
  then show ?thesis using True by (simp add: str_split_pattern_def)
next
  case False
  with split_loop_returns [OF this refl, of 0 str "[]"] show ?thesis
    by (auto simp: str_split_pattern_def)
qed

text \<open>
  Records survive joining and splitting, except for an empty last field: fields that do not
  contain the first character of the separator, joined with it, split into the same fields, but when
  the last one is empty it is missing from the result.
\<close>

theorem record_round_trip:
  assumes "pattern \<noteq> []" "ws \<noteq> []" "\<forall>w \<in> set ws. hd pattern \<notin> set w"
  shows "str_split_pattern (join pattern ws) pattern =
    Some (if last ws = [] then butlast ws else ws)"
proof -
  let ?s = "join pattern ws"
  have "split_loop ?s pattern 0 (str_find ?s pattern 0) [] = Some (butlast ws, length ?s - length (last ws))"
    using split_loop_join [OF assms, of ?s "[]" 0 "[]"] by simp
  moreover have "length ?s - length (last ws) \<noteq> length ?s \<longleftrightarrow> last ws \<noteq> []"
    using length_join_last [OF assms(2), of pattern] by (cases "last ws") auto
  ultimately show ?thesis using assms(2) drop_join_last [OF assms(2), of pattern]
    by (simp add: str_split_pattern_def)
qed

theorem record_round_trip_witness:
  "str_split_pattern ''1#2##3'' ''#'' = Some [''1'', ''2'', [], ''3''] \<and>
   str_split_pattern ''a####'' ''####'' = Some [''a'']"
  using record_round_trip [of "''#''" "[''1'', ''2'', [], ''3'']"] record_round_trip [of "''####''" "[''a'', []]"]
  by simp

text \<open>
  A hexadecimal dump determines the bytes: it has two characters per byte, and reading the pairs
  of digits gives the buffer back.
\<close>

theorem hex_round_trip:
  "length (buf_to_hex_string pdata) = 2 * length pdata \<and> hex_to_buf (buf_to_hex_string pdata) = pdata"
proof
  show "length (buf_to_hex_string pdata) = 2 * length pdata"
    by (induction pdata) (simp_all add: buf_to_hex_string_def)
qed (rule hex_to_buf_inverse)

end
