(* ===== verification/Party_Config.thy ===== *)
theory Party_Config
  imports Text_Util
begin

text \<open>
  The parties of a task: \<^verbatim>\<open>PartyConfig\<close> of \<^verbatim>\<open>common/party_config.cc\<close>, which is read off the task
  message, and \<^verbatim>\<open>ABY3PartyConfig\<close> of \<^verbatim>\<open>algorithm/base.h\<close>, which arranges three parties in a ring.
\<close>

section \<open>The configuration\<close>

record PartyConfig =
  pc_node_id :: string
  pc_party_id :: nat
  pc_task_id :: string
  pc_job_id :: string
  pc_request_id :: string
  node_id_map :: "(nat \<times> string) list"
  node_map :: "pb_node std_map"

text \<open>The parts of the message \<^verbatim>\<open>rpc::Task\<close> that are read here.\<close>

record task_parties =
  tp_party_name :: string
  tp_access_info :: "(string \<times> pb_node) list"
  tp_task_id :: string
  tp_job_id :: string
  tp_request_id :: string

text \<open>
  The constructor. Party ids are kept in 16 bits. The id of this party is only set when its name is
  among the parties; \<open>garbage\<close> is what the member holds otherwise.
\<close>

definition party_key :: "pb_node \<Rightarrow> nat" where
  "party_key node = nat (pb_party_id node mod 2 ^ 16)"

definition add_party :: "string \<times> pb_node \<Rightarrow> PartyConfig \<Rightarrow> PartyConfig" where
  "add_party e c =
     (let (party_name, node) = e;
          c' = c\<lparr>node_id_map := map_assign (party_key node) party_name (node_id_map c),
                 node_map := map_assign party_name node (node_map c)\<rparr>
      in if party_name = pc_node_id c then c'\<lparr>pc_party_id := party_key node\<rparr> else c')"

definition new_PartyConfig :: "nat \<Rightarrow> task_parties \<Rightarrow> PartyConfig" where
  "new_PartyConfig garbage t =
     fold add_party (tp_access_info t)
       \<lparr>pc_node_id = tp_party_name t, pc_party_id = garbage, pc_task_id = tp_task_id t, pc_job_id = tp_job_id t,
        pc_request_id = tp_request_id t, node_id_map = [], node_map = []\<rparr>"

definition CopyFrom :: "PartyConfig \<Rightarrow> PartyConfig \<Rightarrow> PartyConfig" where
  "CopyFrom config c =
     c\<lparr>pc_node_id := pc_node_id config, pc_task_id := pc_task_id config, pc_job_id := pc_job_id config,
       pc_request_id := pc_request_id config, pc_party_id := pc_party_id config,
       node_id_map := node_id_map config, node_map := node_map config\<rparr>"

section \<open>The ring of three parties\<close>

definition NextPartyId :: "PartyConfig \<Rightarrow> nat" where
  "NextPartyId c = (pc_party_id c + 1) mod 3"

definition PrevPartyId :: "PartyConfig \<Rightarrow> nat" where
  "PrevPartyId c = (pc_party_id c + 2) mod 3"

text \<open>\<^verbatim>\<open>operator[]\<close> gives an empty name for an id that is not in the map.\<close>

definition name_of_id :: "PartyConfig \<Rightarrow> nat \<Rightarrow> string" where
  "name_of_id c i = (case map_of (node_id_map c) i of Some name \<Rightarrow> name | None \<Rightarrow> [])"

definition NextPartyName :: "PartyConfig \<Rightarrow> string" where
  "NextPartyName c = name_of_id c (NextPartyId c)"

definition PrevPartyName :: "PartyConfig \<Rightarrow> string" where
  "PrevPartyName c = name_of_id c (PrevPartyId c)"

definition PartyName2PartyInfo :: "PartyConfig \<Rightarrow> string \<Rightarrow> Node" where
  "PartyName2PartyInfo c party_name =
     pbNode2Node (case map_of (node_map c) party_name of Some n \<Rightarrow> n | None \<Rightarrow> new_pb_node)
       \<lparr>nd_id = [], nd_ip = [], nd_port = 0, nd_use_tls = False, nd_role = []\<rparr>"

definition IsSelfParty :: "PartyConfig \<Rightarrow> nat \<Rightarrow> bool" where
  "IsSelfParty c party_id = (party_id = pc_party_id c)"

definition IsPrevParty :: "PartyConfig \<Rightarrow> nat \<Rightarrow> bool" where
  "IsPrevParty c party_id = (party_id = PrevPartyId c)"

definition IsNextParty :: "PartyConfig \<Rightarrow> nat \<Rightarrow> bool" where
  "IsNextParty c party_id = (party_id = NextPartyId c)"

text \<open>The search goes through the map in the order of the ids.\<close>

definition PartyName2PartyId :: "PartyConfig \<Rightarrow> string \<Rightarrow> nat option" where
  "PartyName2PartyId c party_name =
     map_option fst (find (\<lambda>(i, name). party_name = name) (sort_key fst (node_id_map c)))"

text \<open>\<^verbatim>\<open>ExtractProxyNode\<close>: \<open>proxy\<close> is the entry of the auxiliary servers under the proxy's name.\<close>

definition ExtractProxyNode :: "pb_node option \<Rightarrow> Node \<Rightarrow> Node \<times> bool" where
  "ExtractProxyNode proxy n = (case proxy of None \<Rightarrow> (n, False) | Some p \<Rightarrow> (pbNode2Node p n, True))"

section \<open>Names and ids\<close>

text \<open>Every party has its own name and its own id below \<open>2 ^ 16\<close>.\<close>

definition parties_ok :: "(string \<times> pb_node) list \<Rightarrow> bool" where
  "parties_ok info \<longleftrightarrow> distinct (map fst info) \<and> distinct (map (\<lambda>e. pb_party_id (snd e)) info) \<and>
     (\<forall>e \<in> set info. 0 \<le> pb_party_id (snd e) \<and> pb_party_id (snd e) < 2 ^ 16)"

lemma party_key_id: "0 \<le> pb_party_id n \<Longrightarrow> pb_party_id n < 2 ^ 16 \<Longrightarrow> party_key n = nat (pb_party_id n)"
  by (simp add: party_key_def)

lemma add_party_fields [simp]:
  "node_id_map (add_party e c) = map_assign (party_key (snd e)) (fst e) (node_id_map c)"
  "node_map (add_party e c) = map_assign (fst e) (snd e) (node_map c)"
  "pc_party_id (add_party e c) = (if fst e = pc_node_id c then party_key (snd e) else pc_party_id c)"
  "pc_node_id (add_party e c) = pc_node_id c"
  by (simp_all add: add_party_def Let_def split: prod.splits)

lemma fold_add_party:
  assumes "distinct (map fst info)" "distinct (map (\<lambda>e. party_key (snd e)) info)"
  shows "map_of (node_id_map (fold add_party info c)) i =
      (case find (\<lambda>e. party_key (snd e) = i) info of Some e \<Rightarrow> Some (fst e) | None \<Rightarrow> map_of (node_id_map c) i)"
    and "map_of (node_map (fold add_party info c)) name =
      (case map_of info name of Some n \<Rightarrow> Some n | None \<Rightarrow> map_of (node_map c) name)"
    and "pc_party_id (fold add_party info c) =
      (case map_of info (pc_node_id c) of Some n \<Rightarrow> party_key n | None \<Rightarrow> pc_party_id c)"
    and "pc_node_id (fold add_party info c) = pc_node_id c"
    and "map_wf (node_id_map c) \<Longrightarrow> map_wf (node_id_map (fold add_party info c))"
  using assms
proof (induction info arbitrary: c)
  case (Cons e info)
  {
    case 1
    then have "find (\<lambda>x. party_key (snd x) = party_key (snd e)) info = None" by (auto simp: find_None_iff image_iff)
    with 1 Cons.IH(1) show ?case by (auto split: option.splits)
  next
    case 2
    then have "map_of info (fst e) = None" by (simp add: map_of_eq_None_iff)
    with 2 Cons.IH(2) show ?case by (cases e) (auto split: option.splits)
  next
    case 3
    then have "map_of info (fst e) = None" by (simp add: map_of_eq_None_iff)
    with 3 Cons.IH(3) show ?case by (cases e) (auto split: option.splits)
  next
    case 4
    with Cons.IH(4) show ?case by simp
  next
    case 5
    with Cons.IH(5) show ?case by simp
  }
qed simp_all

lemma find_unique:
  assumes "x \<in> set xs" "P x" "\<And>y. y \<in> set xs \<Longrightarrow> P y \<Longrightarrow> y = x"
  shows "find P xs = Some x"
proof (cases "find P xs")
  case None
  with assms(1,2) show ?thesis by (auto simp: find_None_iff)
next
  case (Some y)
  then have "y \<in> set xs" "P y" by (auto simp: find_Some_iff)
  with assms(3) Some show ?thesis by simp
qed

lemma party_keys_distinct:
  assumes "parties_ok info" shows "distinct (map (\<lambda>e. party_key (snd e)) info)"
proof -
  have "map (\<lambda>e. party_key (snd e)) info = map nat (map (\<lambda>e. pb_party_id (snd e)) info)"
    using assms by (simp add: parties_ok_def party_key_id)
  moreover have "inj_on nat (set (map (\<lambda>e. pb_party_id (snd e)) info))"
    by (rule inj_on_subset [of nat "{0..}"]) (use assms in \<open>auto simp: parties_ok_def inj_on_def\<close>)
  ultimately show ?thesis using assms by (simp only: distinct_map parties_ok_def)
qed

lemma party_of_key:
  assumes "parties_ok info" "(name, node) \<in> set info" "e \<in> set info" "party_key (snd e) = party_key node"
  shows "e = (name, node)"
  using party_keys_distinct [OF assms(1)] assms(2-4)
    inj_onD [of "\<lambda>e. party_key (snd e)" "set info" e "(name, node)"] by (simp add: distinct_map)

lemma node_id_map_new:
  assumes "parties_ok (tp_access_info t)"
  shows "map_of (node_id_map (new_PartyConfig g t)) i =
    map_option fst (find (\<lambda>e. party_key (snd e) = i) (tp_access_info t))"
  using fold_add_party(1) [OF _ party_keys_distinct [OF assms]] assms
  by (simp add: new_PartyConfig_def parties_ok_def split: option.splits)

section \<open>Properties\<close>

text \<open>
  Names, ids and addresses of the parties agree: from a task whose parties have distinct names
  and distinct ids below \<open>2 ^ 16\<close>, the configuration maps every name to its id and to its address, every
  id back to its name, and knows the id of this party.
\<close>

theorem party_names_and_ids:
  assumes "parties_ok (tp_access_info t)" "(name, node) \<in> set (tp_access_info t)"
  shows "PartyName2PartyId (new_PartyConfig g t) name = Some (nat (pb_party_id node)) \<and>
    name_of_id (new_PartyConfig g t) (nat (pb_party_id node)) = name \<and>
    nd_ip (PartyName2PartyInfo (new_PartyConfig g t) name) = pb_ip node \<and>
    (name = tp_party_name t \<longrightarrow> pc_party_id (new_PartyConfig g t) = nat (pb_party_id node))"
proof -
  let ?c = "new_PartyConfig g t" and ?info = "tp_access_info t"
  note kd = party_keys_distinct [OF assms(1)]
  have fd: "distinct (map fst ?info)" using assms(1) by (simp add: parties_ok_def)
  have key: "party_key node = nat (pb_party_id node)"
    using assms by (force simp: parties_ok_def intro: party_key_id)
  have "find (\<lambda>e. party_key (snd e) = party_key node) ?info = Some (name, node)"
    by (rule find_unique [OF assms(2)]) (use party_of_key [OF assms] in auto)
  then have name: "map_of (node_id_map ?c) (party_key node) = Some name"
    using node_id_map_new [OF assms(1)] by simp
  have wf: "map_wf (node_id_map ?c)" using fold_add_party(5) [OF fd kd] by (simp add: new_PartyConfig_def)
  have only: "(i, name) \<in> set (node_id_map ?c) \<Longrightarrow> i = party_key node" for i
  proof -
    assume "(i, name) \<in> set (node_id_map ?c)"
    then have "map_of (node_id_map ?c) i = Some name" using wf by (simp add: map_wf_def)
    then obtain e where "find (\<lambda>e. party_key (snd e) = i) ?info = Some e" "fst e = name"
      using node_id_map_new [OF assms(1)] by auto
    then have "e \<in> set ?info" "party_key (snd e) = i" "fst e = name" by (auto simp: find_Some_iff)
    then show "i = party_key node" using fd assms(2) by (metis eq_key_imp_eq_value prod.collapse)
  qed
  have "find (\<lambda>(i, nm). name = nm) (sort_key fst (node_id_map ?c)) = Some (party_key node, name)"
  proof (rule find_unique)
    show "(party_key node, name) \<in> set (sort_key fst (node_id_map ?c))" using map_of_SomeD [OF name] by simp
    show "y = (party_key node, name)" if "y \<in> set (sort_key fst (node_id_map ?c))" "case y of (i, nm) \<Rightarrow> name = nm" for y
      using that only [of "fst y"] by (simp add: case_prod_beta prod_eq_iff)
  qed simp
  moreover have "map_of ?info name = Some node" using fd assms(2) by simp
  ultimately show ?thesis
    using name key fold_add_party(2,3) [OF fd kd]
    by (auto simp: PartyName2PartyId_def name_of_id_def PartyName2PartyInfo_def new_PartyConfig_def pbNode2Node_def)
qed

definition three_parties :: task_parties where
  "three_parties = \<lparr>tp_party_name = ''PARTY1'', tp_access_info =
     [(''PARTY2'', new_pb_node\<lparr>pb_party_id := 2, pb_ip := ''10.0.0.2''\<rparr>), (''PARTY0'', new_pb_node\<lparr>pb_ip := ''10.0.0.0''\<rparr>),
      (''PARTY1'', new_pb_node\<lparr>pb_party_id := 1, pb_ip := ''10.0.0.1''\<rparr>)],
     tp_task_id = ''t'', tp_job_id = ''j'', tp_request_id = ''r''\<rparr>"

theorem party_names_and_ids_witness:
  "PartyName2PartyId (new_PartyConfig 7 three_parties) ''PARTY2'' = Some 2 \<and>
   pc_party_id (new_PartyConfig 7 three_parties) = 1"
  using party_names_and_ids [of three_parties "''PARTY2''" "new_pb_node\<lparr>pb_party_id := 2, pb_ip := ''10.0.0.2''\<rparr>" 7]
    party_names_and_ids [of three_parties "''PARTY1''" "new_pb_node\<lparr>pb_party_id := 1, pb_ip := ''10.0.0.1''\<rparr>" 7]
  by (simp add: three_parties_def parties_ok_def new_pb_node_def)

text \<open>
  The ring closes: for a party id below 3, the next party of the previous party is the party itself,
  and so is the previous party of the next; exactly one of the three tests for self, next and previous
  holds for any id below 3.
\<close>

theorem party_ring:
  assumes "pc_party_id c < 3" "i < 3"
  shows "NextPartyId (c\<lparr>pc_party_id := PrevPartyId c\<rparr>) = pc_party_id c \<and>
    PrevPartyId (c\<lparr>pc_party_id := NextPartyId c\<rparr>) = pc_party_id c \<and>
    length (filter (\<lambda>b. b) [IsSelfParty c i, IsNextParty c i, IsPrevParty c i]) = 1"
proof -
  consider "pc_party_id c = 0" | "pc_party_id c = 1" | "pc_party_id c = 2" using assms(1) by linarith
  then show ?thesis
  proof cases
    case 1
    with assms(2) show ?thesis
      by (simp add: NextPartyId_def PrevPartyId_def IsSelfParty_def IsNextParty_def IsPrevParty_def)
  next
    case 2
    with assms(2) show ?thesis
      by (simp add: NextPartyId_def PrevPartyId_def IsSelfParty_def IsNextParty_def IsPrevParty_def)
  next
    case 3
    with assms(2) show ?thesis
      by (simp add: NextPartyId_def PrevPartyId_def IsSelfParty_def IsNextParty_def IsPrevParty_def)
  qed
qed

theorem party_ring_witness:
  "PrevPartyId (new_PartyConfig 7 three_parties) = 0 \<and> NextPartyId (new_PartyConfig 7 three_parties) = 2 \<and>
   NextPartyId ((new_PartyConfig 7 three_parties)\<lparr>pc_party_id := 0\<rparr>) = 1"
proof -
  have "pc_party_id (new_PartyConfig 7 three_parties) = 1"
    by (simp add: new_PartyConfig_def three_parties_def party_key_def)
  then show ?thesis using party_ring [of "new_PartyConfig 7 three_parties" 0]
    by (simp add: NextPartyId_def PrevPartyId_def)
qed

end
