(* ===== verification/Mpc_Compare.thy ===== *)
theory Mpc_Compare
  imports Aby3_Operator
begin

text \<open>
  The comparison of two parties' values, \<^verbatim>\<open>MPC_Compare\<close> of \<^verbatim>\<open>operator/aby3_operator.cc\<close> and \<^verbatim>\<open>.h\<close>: the
  parties exchange the shapes of their matrices, agree which of them takes no part, one side negates
  its values, and the sign bit of the sum is computed on binary shares. The shares and the circuit
  belong to the ABY3 library: jointly held binary shares are an abstract type \<open>'b\<close>.
\<close>

unbundle bit_operations_syntax

record ('b, 'rt) bin_lib =
  lib_local_bin :: "nat \<Rightarrow> i64 list \<Rightarrow> (nat \<Rightarrow> nat) \<Rightarrow> 'rt \<Rightarrow> ('b \<times> 'rt) res"
  lib_add_msb :: "'b \<Rightarrow> 'b \<Rightarrow> 'rt \<Rightarrow> ('b \<times> 'rt) res"
  lib_bin_open :: "'b \<Rightarrow> i64 list"

text \<open>
  The documented behaviour: inputting a column, when all parties reserved its length, gives shares of
  it; the circuit \<^verbatim>\<open>int_int_add_msb\<close> gives the top bit of the sum of each pair.
\<close>

definition bin_ok :: "('b, 'rt) bin_lib \<Rightarrow> bool" where
  "bin_ok B \<longleftrightarrow>
     (\<forall>owner xs num rt. owner < 3 \<longrightarrow> (\<forall>p \<in> {0, 1, 2}. num p = length xs) \<longrightarrow>
        (\<exists>b rt'. lib_local_bin B owner xs num rt = Inr (b, rt') \<and> lib_bin_open B b = xs)) \<and>
     (\<forall>a b rt. length (lib_bin_open B a) = length (lib_bin_open B b) \<longrightarrow>
        (\<exists>c rt'. lib_add_msb B a b rt = Inr (c, rt') \<and>
          lib_bin_open B c = map2 (\<lambda>x y. of_bool (bit (x + y) 63)) (lib_bin_open B a) (lib_bin_open B b)))"

section \<open>Agreeing on shapes\<close>

text \<open>
  Party \<open>partyIdx\<close> learns the shape of party \<open>i\<close>: its own, or the one that comes from the previous or
  from the next party. \<open>sent q\<close> is what party \<open>q\<close> sent to both neighbours.
\<close>

definition recv_shape :: "nat \<Rightarrow> (nat \<Rightarrow> nat \<times> nat) \<Rightarrow> nat \<Rightarrow> (nat \<times> nat) res" where
  "recv_shape partyIdx sent i =
     (if partyIdx = i then Inr (sent partyIdx)
      else if partyIdx = (i + 1) mod 3 then Inr (sent ((partyIdx + 2) mod 3))
      else if partyIdx = (i + 2) mod 3 then Inr (sent ((partyIdx + 1) mod 3))
      else Inl (Raised ''Message recv logic error.''))"

definition all_party_shape :: "nat \<Rightarrow> (nat \<Rightarrow> nat \<times> nat) \<Rightarrow> (nat \<Rightarrow> nat \<times> nat) res" where
  "all_party_shape partyIdx sent = par3 (recv_shape partyIdx sent)"

text \<open>The loop that looks for the party without a value.\<close>

fun find_skip :: "(nat \<Rightarrow> nat \<times> nat) \<Rightarrow> nat list \<Rightarrow> nat option \<Rightarrow> nat option res" where
  "find_skip shp [] skip_index = Inr skip_index"
| "find_skip shp (i # is) skip_index =
     (if fst (shp i) = 0 \<and> snd (shp i) = 0 then
        (if skip_index \<noteq> None then Inl (Raised ''There are two party that don't provide any value'')
         else find_skip shp is (Some i))
      else find_skip shp is skip_index)"

text \<open>Moving the two shapes that count to positions 0 and 1, and comparing them.\<close>

definition shift_shapes :: "nat \<Rightarrow> (nat \<Rightarrow> nat \<times> nat) \<Rightarrow> nat \<Rightarrow> nat \<times> nat" where
  "shift_shapes skip_index shp =
     (if skip_index = 0 then (shp(0 := shp 1))(1 := shp 2)
      else if skip_index \<noteq> 2 then shp(1 := shp 2)
      else shp)"

definition check_same :: "(nat \<Rightarrow> nat \<times> nat) \<Rightarrow> unit res" where
  "check_same shp =
     (if fst (shp 0) \<noteq> fst (shp 1) \<or> snd (shp 0) \<noteq> snd (shp 1)
      then Inl (Raised ''Shape of matrix in two party must be the same.'') else Inr ())"

text \<open>
  The part of \<^verbatim>\<open>MPC_Compare(m, sh_res)\<close> before the shares: the party to skip and the number of
  elements, a \<^verbatim>\<open>uint64_t\<close>.
\<close>

definition plan_with_value :: "nat \<Rightarrow> (nat \<Rightarrow> nat \<times> nat) \<Rightarrow> (nat \<times> nat) res" where
  "plan_with_value partyIdx sent =
     bindR (all_party_shape partyIdx sent) (\<lambda>shp.
     bindR (find_skip shp [0, 1, 2] None) (\<lambda>sk.
       case sk of
         None \<Rightarrow> Inl (Raised ''This operator is binary, can only handle value from two party.'')
       | Some skip_index \<Rightarrow>
           let shp' = shift_shapes skip_index shp in
           bindR (check_same shp') (\<lambda>_. Inr (skip_index, fst (shp' 0) * snd (shp' 0) mod 2 ^ 64))))"

text \<open>The same of \<^verbatim>\<open>MPC_Compare(sh_res)\<close>, which keeps the number of elements in a \<^verbatim>\<open>uint32_t\<close>.\<close>

definition plan_without_value :: "nat \<Rightarrow> (nat \<Rightarrow> nat \<times> nat) \<Rightarrow> (nat \<times> nat) res" where
  "plan_without_value partyIdx sent =
     bindR (all_party_shape partyIdx sent) (\<lambda>shp.
       let shp' = shift_shapes partyIdx shp in
       bindR (check_same shp') (\<lambda>_. Inr (partyIdx, fst (shp' 0) * snd (shp' 0) mod 2 ^ 32)))"

section \<open>The comparison\<close>

text \<open>Whether a party negates its values.\<close>

definition negates :: "nat \<Rightarrow> nat \<Rightarrow> bool" where
  "negates skip_index partyIdx =
     (if skip_index = 0 \<or> skip_index = 1 then partyIdx = 2 else partyIdx = 1)"

definition negate_if :: "bool \<Rightarrow> mat \<Rightarrow> mat" where
  "negate_if b m = (if b then map_mat (\<lambda>v. v * -1) m else m)"

definition input_of :: "(nat \<Rightarrow> mat option) \<Rightarrow> nat \<Rightarrow> nat \<Rightarrow> i64 list res" where
  "input_of ms skip_index i =
     (case ms i of
        Some m \<Rightarrow> Inr (m_data (negate_if (negates skip_index i) m))
      | None \<Rightarrow> Inl (Undefined ''waits for shares never sent''))"

text \<open>
  \<^verbatim>\<open>MPC_Compare\<close> at all parties: \<open>ms p\<close> is the matrix party \<open>p\<close> passes, \<open>None\<close> for the variant without
  one. The result is the shares of the bits and the matrices afterwards: the values are restored,
  the shape stays flattened to one column.
\<close>

definition MPC_Compare ::
  "('b, 'rt) bin_lib \<Rightarrow> (nat \<Rightarrow> mat option) \<Rightarrow> 'rt \<Rightarrow> ('b \<times> (nat \<Rightarrow> mat option) \<times> 'rt) res" where
  "MPC_Compare B ms rt =
     (let sent = (\<lambda>p. case ms p of Some m \<Rightarrow> shape m | None \<Rightarrow> (0, 0)) in
      bindR (par3 (\<lambda>p. case ms p of Some m \<Rightarrow> plan_with_value p sent | None \<Rightarrow> plan_without_value p sent)) (\<lambda>plan.
        let skip_index = fst (plan 0); num_elem = (\<lambda>p. snd (plan p)) in
        if fst (plan 1) \<noteq> skip_index \<or> fst (plan 2) \<noteq> skip_index
        then Inl (Undefined ''parties disagree'')
        else
          case filter (\<lambda>i. i \<noteq> skip_index) [0, 1, 2] of
            [i, j] \<Rightarrow>
              bindR (input_of ms skip_index i) (\<lambda>xs. bindR (lib_local_bin B i xs num_elem rt) (\<lambda>(a, rt1).
              bindR (input_of ms skip_index j) (\<lambda>ys. bindR (lib_local_bin B j ys num_elem rt1) (\<lambda>(b, rt2).
              bindR (lib_add_msb B a b rt2) (\<lambda>(c, rt3).
                Inr (c, (\<lambda>p. map_option (\<lambda>m. negate_if (negates skip_index p)
                    ((negate_if (negates skip_index p) m)\<lparr>m_rows := num_elem p, m_cols := 1\<rparr>)) (ms p)), rt3))))))
          | _ \<Rightarrow> Inl (Undefined ''parties disagree'')))"

text \<open>The variant for fixed-point matrices works on their integer representation.\<close>

definition MPC_Compare_f64 ::
  "('b, 'rt) bin_lib \<Rightarrow> (nat \<Rightarrow> mat option) \<Rightarrow> 'rt \<Rightarrow> ('b \<times> (nat \<Rightarrow> mat option) \<times> 'rt) res" where
  "MPC_Compare_f64 B ms rt = MPC_Compare B ms rt"

section \<open>Lemmas\<close>

lemma all_party_shape_correct:
  assumes "p \<in> {0, 1, 2}"
  shows "\<exists>shp. all_party_shape p sent = Inr shp \<and> shp 0 = sent 0 \<and> shp 1 = sent 1 \<and> shp 2 = sent 2"
proof -
  from assms consider "p = 0" | "p = 1" | "p = 2" by blast
  then show ?thesis
    by cases (simp_all add: all_party_shape_def par3_def recv_shape_def numeral_2_eq_2)
qed

lemma sign_of_difference:
  fixes x y :: i64
  assumes "- (2 ^ 63) \<le> sint x - sint y" "sint x - sint y < 2 ^ 63"
  shows "bit (x - y) 63 \<longleftrightarrow> sint x < sint y"
proof -
  have "sint (x - y) = sint (word_of_int (sint x - sint y) :: i64)" by simp
  also have "\<dots> = signed_take_bit 63 (sint x - sint y)" by (simp only: signed_of_int) simp
  also have "\<dots> = sint x - sint y" using assms by (intro signed_take_bit_int_eq_self) simp_all
  finally have "sint (x - y) = sint x - sint y" .
  moreover have "bit (x - y) 63 \<longleftrightarrow> sint (x - y) < 0" using bit_last_iff [of "x - y"] by simp
  ultimately show ?thesis by simp
qed

text \<open>The plans agree when exactly one party has no value and the two others have the same shape.\<close>

definition two_of_three :: "nat \<Rightarrow> nat \<Rightarrow> nat \<Rightarrow> bool" where
  "two_of_three k i j \<longleftrightarrow> (k = 0 \<and> i = 1 \<and> j = 2) \<or> (k = 1 \<and> i = 0 \<and> j = 2) \<or> (k = 2 \<and> i = 0 \<and> j = 1)"

lemma plans_agree:
  assumes "two_of_three k i j" "sent k = (0, 0)" "sent i = (r, c)" "sent j = (r, c)" "(r, c) \<noteq> (0, 0)"
    and "p \<in> {0, 1, 2}"
  shows "plan_with_value p sent = Inr (k, r * c mod 2 ^ 64)"
    and "p = k \<Longrightarrow> plan_without_value p sent = Inr (k, r * c mod 2 ^ 32)"
proof -
  obtain shp where shp: "all_party_shape p sent = Inr shp" "shp 0 = sent 0" "shp 1 = sent 1" "shp 2 = sent 2"
    using all_party_shape_correct [OF assms(6)] by blast
  from assms(1) consider "k = 0" "i = 1" "j = 2" | "k = 1" "i = 0" "j = 2" | "k = 2" "i = 0" "j = 1"
    unfolding two_of_three_def by blast
  note k = this
  from k show "plan_with_value p sent = Inr (k, r * c mod 2 ^ 64)"
    by cases (use assms(2-5) shp in \<open>auto simp: plan_with_value_def shift_shapes_def check_same_def Let_def
        simp del: One_nat_def\<close>)
  from k show "plan_without_value p sent = Inr (k, r * c mod 2 ^ 32)" if "p = k"
    by cases (use that assms(2-5) shp in \<open>auto simp: plan_without_value_def shift_shapes_def check_same_def Let_def
        simp del: One_nat_def\<close>)
qed

lemma negates_second: "two_of_three k i j \<Longrightarrow> negates k j \<and> \<not> negates k i"
  by (auto simp: two_of_three_def negates_def)

lemma others: "two_of_three k i j \<Longrightarrow> filter (\<lambda>q. q \<noteq> k) [0, 1, 2] = [i, j] \<and> k < 3 \<and> i < 3 \<and> j < 3"
  by (auto simp: two_of_three_def)

lemma negate_twice: "negate_if b ((negate_if b m)\<lparr>m_rows := r, m_cols := c\<rparr>) = m\<lparr>m_rows := r, m_cols := c\<rparr>"
  by (simp add: negate_if_def map_mat_def comp_def)

lemma bin_ok_D:
  assumes "bin_ok B"
  shows bin_local: "owner < 3 \<Longrightarrow> \<forall>p \<in> {0, 1, 2}. num p = length xs \<Longrightarrow>
      \<exists>b rt'. lib_local_bin B owner xs num rt = Inr (b, rt') \<and> lib_bin_open B b = xs"
    and bin_msb: "length (lib_bin_open B a) = length (lib_bin_open B b) \<Longrightarrow>
      \<exists>c rt'. lib_add_msb B a b rt = Inr (c, rt') \<and>
        lib_bin_open B c = map2 (\<lambda>x y. of_bool (bit (x + y) 63)) (lib_bin_open B a) (lib_bin_open B b)"
  using assms unfolding bin_ok_def by blast+

text \<open>The comparison at all parties: the bits, and what they mean when the difference fits.\<close>

lemma compare_bits:
  assumes "bin_ok B" "two_of_three k i j"
    and "ms i = Some mi" "ms j = Some mj" "mat_ok mi" "mat_ok mj" "shape mi = (r, c)" "shape mj = (r, c)"
    and "ms k = None \<or> (\<exists>m. ms k = Some m \<and> shape m = (0, 0))" "(r, c) \<noteq> (0, 0)" "r * c < 2 ^ 32"
  shows "\<exists>b ms' rt'. MPC_Compare B ms rt = Inr (b, ms', rt') \<and> length (lib_bin_open B b) = r * c \<and>
    (\<forall>n < r * c. lib_bin_open B b ! n = of_bool (bit (m_data mi ! n - m_data mj ! n) 63)) \<and>
    ms' i = Some (mi\<lparr>m_rows := r * c, m_cols := 1\<rparr>) \<and> ms' j = Some (mj\<lparr>m_rows := r * c, m_cols := 1\<rparr>)"
proof -
  let ?sent = "\<lambda>p. case ms p of Some m \<Rightarrow> shape m | None \<Rightarrow> (0, 0)"
  have sent: "?sent k = (0, 0)" "?sent i = (r, c)" "?sent j = (r, c)" using assms(3,4,7-9) by auto
  have rc: "r * c mod 2 ^ 64 = r * c" "r * c mod 2 ^ 32 = r * c" using assms(11) by simp_all
  have plan: "(case ms p of Some m \<Rightarrow> plan_with_value p ?sent | None \<Rightarrow> plan_without_value p ?sent) = Inr (k, r * c)"
    if "p \<in> {0, 1, 2}" for p
  proof -
    have "p = k" if "ms p = None"
      using that \<open>p \<in> {0, 1, 2}\<close> assms(2-4) by (auto simp: two_of_three_def)
    then show ?thesis using plans_agree [OF assms(2) sent assms(10) that] rc by (auto split: option.splits)
  qed
  have par: "par3 (\<lambda>p. case ms p of Some m \<Rightarrow> plan_with_value p ?sent | None \<Rightarrow> plan_without_value p ?sent) =
      Inr (\<lambda>p. (k, r * c))"
    using plan [of 0] plan [of 1] plan [of 2] by (simp add: par3_def fun_eq_iff)
  have len: "length (m_data mi) = r * c" "length (m_data mj) = r * c"
    using assms(5-8) by (simp_all add: mat_ok_def shape_def)
  have "input_of ms k i = Inr (m_data mi)" "input_of ms k j = Inr (map uminus (m_data mj))"
    using negates_second [OF assms(2)] assms(3,4) by (simp_all add: input_of_def negate_if_def map_mat_def)
  moreover obtain a rt1 where a: "lib_local_bin B i (m_data mi) (\<lambda>p. r * c) rt = Inr (a, rt1)"
    "lib_bin_open B a = m_data mi"
    using bin_local [OF assms(1), of i "\<lambda>p. r * c" "m_data mi" rt] others [OF assms(2)] len(1) by auto
  moreover obtain b rt2 where b: "lib_local_bin B j (map uminus (m_data mj)) (\<lambda>p. r * c) rt1 = Inr (b, rt2)"
    "lib_bin_open B b = map uminus (m_data mj)"
    using bin_local [OF assms(1), of j "\<lambda>p. r * c" "map uminus (m_data mj)" rt1] others [OF assms(2)] len(2) by auto
  moreover obtain d rt3 where "lib_add_msb B a b rt2 = Inr (d, rt3)"
    "lib_bin_open B d = map2 (\<lambda>x y. of_bool (bit (x + y) 63)) (m_data mi) (map uminus (m_data mj))"
    using bin_msb [OF assms(1), of a b rt2] a(2) b(2) len by auto
  ultimately show ?thesis
    using par others [OF assms(2)] len assms(3,4)
    by (auto simp: MPC_Compare_def Let_def negate_twice)
qed

lemma compare_joint:
  assumes "bin_ok B" "two_of_three k i j"
    and "ms i = Some mi" "ms j = Some mj" "mat_ok mi" "mat_ok mj" "shape mi = (r, c)" "shape mj = (r, c)"
    and "ms k = None \<or> (\<exists>m. ms k = Some m \<and> shape m = (0, 0))" "(r, c) \<noteq> (0, 0)" "r * c < 2 ^ 32"
  shows "\<exists>b ms' rt'. MPC_Compare B ms rt = Inr (b, ms', rt') \<and> length (lib_bin_open B b) = r * c \<and>
    (\<forall>n < r * c. - (2 ^ 63) \<le> sint (m_data mi ! n) - sint (m_data mj ! n) \<and>
        sint (m_data mi ! n) - sint (m_data mj ! n) < 2 ^ 63 \<longrightarrow>
      lib_bin_open B b ! n = (if sint (m_data mi ! n) < sint (m_data mj ! n) then 1 else 0)) \<and>
    ms' i = Some (mi\<lparr>m_rows := r * c, m_cols := 1\<rparr>) \<and> ms' j = Some (mj\<lparr>m_rows := r * c, m_cols := 1\<rparr>)"
proof -
  obtain b ms' rt' where b: "MPC_Compare B ms rt = Inr (b, ms', rt')" "length (lib_bin_open B b) = r * c"
    "\<forall>n < r * c. lib_bin_open B b ! n = of_bool (bit (m_data mi ! n - m_data mj ! n) 63)"
    "ms' i = Some (mi\<lparr>m_rows := r * c, m_cols := 1\<rparr>)" "ms' j = Some (mj\<lparr>m_rows := r * c, m_cols := 1\<rparr>)"
    using compare_bits [OF assms, of rt] by (elim exE conjE)
  have "lib_bin_open B b ! n = (if sint (m_data mi ! n) < sint (m_data mj ! n) then 1 else 0)"
    if "n < r * c" "- (2 ^ 63) \<le> sint (m_data mi ! n) - sint (m_data mj ! n) \<and>
      sint (m_data mi ! n) - sint (m_data mj ! n) < 2 ^ 63" for n
    using b(3) that(1) sign_of_difference [OF conjunct1 [OF that(2)] conjunct2 [OF that(2)]] by (simp only: split: if_splits) simp
  then show ?thesis using b(1,2,4,5) by blast
qed

text \<open>A party that passes no matrix gets none back.\<close>

lemma compare_keeps_none:
  assumes "MPC_Compare B ms rt = Inr (b, ms', rt')" "ms p = None"
  shows "ms' p = None"
  using assms by (auto simp: MPC_Compare_def Let_def split: if_splits list.splits)

section \<open>Properties\<close>

text \<open>
  C9. Comparison is correct: when two parties \<open>i < j\<close> pass matrices of one shape and the third passes
  none, or an empty one, all parties agree, the run ends, and the resulting bit of every entry tells
  whether party \<open>i\<close>'s value is less than party \<open>j\<close>'s, as signed numbers, provided their difference
  fits into 64 bits. The parties keep their values, but their matrices end up as a single column.
\<close>

theorem compare_correct:
  assumes "bin_ok B" "two_of_three k i j"
    and "ms i = Some mi" "ms j = Some mj" "mat_ok mi" "mat_ok mj" "shape mi = (r, c)" "shape mj = (r, c)"
    and "ms k = None \<or> (\<exists>m. ms k = Some m \<and> shape m = (0, 0))" "(r, c) \<noteq> (0, 0)" "r * c < 2 ^ 32"
  shows "\<exists>b ms' rt'. MPC_Compare B ms rt = Inr (b, ms', rt') \<and> length (lib_bin_open B b) = r * c \<and>
    (\<forall>n < r * c. - (2 ^ 63) \<le> sint (m_data mi ! n) - sint (m_data mj ! n) \<and>
        sint (m_data mi ! n) - sint (m_data mj ! n) < 2 ^ 63 \<longrightarrow>
      lib_bin_open B b ! n = (if sint (m_data mi ! n) < sint (m_data mj ! n) then 1 else 0)) \<and>
    ms' i = Some (mi\<lparr>m_rows := r * c, m_cols := 1\<rparr>) \<and> ms' j = Some (mj\<lparr>m_rows := r * c, m_cols := 1\<rparr>)"
  using compare_joint [OF assms] .

definition bin_ref :: "(i64 list, unit) bin_lib" where
  "bin_ref = \<lparr>lib_local_bin = (\<lambda>owner xs num rt.
       if num 0 = length xs \<and> num 1 = length xs \<and> num 2 = length xs then Inr (xs, ()) else Inl (Raised ''size'')),
     lib_add_msb = (\<lambda>a b rt. Inr (map2 (\<lambda>x y. of_bool (bit (x + y) 63)) a b, ())),
     lib_bin_open = (\<lambda>b. b)\<rparr>"

lemma bin_ok_ref: "bin_ok bin_ref"
  by (simp add: bin_ok_def bin_ref_def)

theorem compare_correct_witness:
  "\<exists>b ms' rt'. MPC_Compare bin_ref (\<lambda>p. if p = 0 then Some \<lparr>m_rows = 1, m_cols = 2, m_data = [3, -5]\<rparr>
      else if p = 2 then Some \<lparr>m_rows = 1, m_cols = 2, m_data = [4, -6]\<rparr> else None) () = Inr (b, ms', rt') \<and>
    lib_bin_open bin_ref b ! 0 = 1 \<and> lib_bin_open bin_ref b ! 1 = 0"
proof -
  let ?m0 = "\<lparr>m_rows = 1, m_cols = 2, m_data = [3, -5]\<rparr> :: mat" and ?m2 = "\<lparr>m_rows = 1, m_cols = 2, m_data = [4, -6]\<rparr> :: mat"
  let ?ms = "\<lambda>p. if p = 0 then Some ?m0 else if p = 2 then Some ?m2 else None"
  have "two_of_three 1 0 2" by (simp add: two_of_three_def)
  moreover have "mat_ok ?m0" "mat_ok ?m2" "shape ?m0 = (1, 2)" "shape ?m2 = (1, 2)" by (simp_all add: mat_ok_def shape_def)
  ultimately obtain b ms' rt' where r: "MPC_Compare bin_ref ?ms () = Inr (b, ms', rt')"
    "\<forall>n < 2. - (2 ^ 63) \<le> sint (m_data ?m0 ! n) - sint (m_data ?m2 ! n) \<and>
        sint (m_data ?m0 ! n) - sint (m_data ?m2 ! n) < 2 ^ 63 \<longrightarrow>
      lib_bin_open bin_ref b ! n = (if sint (m_data ?m0 ! n) < sint (m_data ?m2 ! n) then 1 else 0)"
    using compare_correct [OF bin_ok_ref, of 1 0 2 ?ms ?m0 ?m2 1 2 "()"] by auto
  from r(2) [rule_format, of 0] r(2) [rule_format, of 1]
  have "lib_bin_open bin_ref b ! 0 = 1" "lib_bin_open bin_ref b ! 1 = 0" by simp_all
  with r(1) show ?thesis by blast
qed

text \<open>
  A comparison needs exactly two providers: if all three parties pass a value, or a party that
  passes one finds two parties without, every party with a value raises an exception and no shares
  are made.
\<close>

theorem compare_needs_two:
  assumes "p \<in> {0, 1, 2}"
    and "card {q \<in> {0, 1, 2}. sent q = (0, 0)} \<noteq> 1"
  shows "\<exists>msg. plan_with_value p sent = Inl (Raised msg)"
proof -
  obtain shp where shp: "all_party_shape p sent = Inr shp" "shp 0 = sent 0" "shp 1 = sent 1" "shp 2 = sent 2"
    using all_party_shape_correct [OF assms(1)] by blast
  have "{q \<in> {0, 1, 2}. sent q = (0, 0)} =
      (if sent 0 = (0, 0) then {0} else {}) \<union> (if sent 1 = (0, 0) then {1} else {}) \<union>
      (if sent 2 = (0, 0) then {2 :: nat} else {})" by (auto intro: gr0I)
  with assms(2) show ?thesis using shp
    by (auto simp: plan_with_value_def prod_eq_iff split: if_splits)
qed

theorem compare_needs_two_witness:
  "\<exists>msg. plan_with_value 1 (\<lambda>q. (2, q + 1)) = Inl (Raised msg)"
proof -
  have "{q \<in> {0, 1, 2 :: nat}. (2 :: nat, q + 1) = (0, 0)} = {}" by auto
  then have "card {q \<in> {0, 1, 2 :: nat}. (2 :: nat, q + 1) = (0, 0)} \<noteq> 1" by (simp only: card.empty)
  then show ?thesis by (intro compare_needs_two) simp_all
qed

end
