(* ===== verification/Arithmetic.thy ===== *)
theory Arithmetic
  imports Party_Config Mpc_Fixed Mpc_Compare
begin

text \<open>
  \<^verbatim>\<open>ArithmeticExecutor\<close> of \<^verbatim>\<open>algorithm/arithmetic.cc\<close>, the task that evaluates an expression or a
  comparison over the columns of three parties: it reads the parameters of the task, loads the
  columns of the party's table, prepares the expression executor, runs it with the others and saves
  the column of results. A return code other than 0 ends the task: it is the failure \<open>Code\<close>, and the
  state is not used again.
\<close>

section \<open>State\<close>

record 'd ArithmeticExecutor =
  ar_party_id :: nat
  ar_party_name :: string
  data_file_path :: string
  dataset_id :: string
  is_dataset_detail :: bool
  ar_parties :: "nat list"
  is_cmp :: bool
  i64_cmp :: bool
  ar_expr :: string
  cmp_col1 :: string
  cmp_col2 :: string
  col_and_owner :: "u32 std_map"
  col_and_dtype :: "bool std_map"
  mpc_op_exec :: "(nat \<times> string \<times> string) option"
  mpc_exec :: "'d exec option"
  col_and_val_double :: "'d list std_map"
  col_and_val_int :: "i64 list std_map"
  res_name :: string

definition new_ArithmeticExecutor :: "PartyConfig \<Rightarrow> 'd ArithmeticExecutor" where
  "new_ArithmeticExecutor config = \<lparr>ar_party_id = pc_party_id config, ar_party_name = pc_node_id config,
     data_file_path = [], dataset_id = [], is_dataset_detail = False, ar_parties = [], is_cmp = False,
     i64_cmp = True, ar_expr = [], cmp_col1 = [], cmp_col2 = [], col_and_owner = [], col_and_dtype = [],
     mpc_op_exec = None, mpc_exec = None, col_and_val_double = [], col_and_val_int = [], res_name = []\<rparr>"

text \<open>The parts of the message \<^verbatim>\<open>rpc::Task\<close> the executor reads; all parameters used are strings.\<close>

record party_dataset =
  pd_detail :: bool
  pd_data :: "string std_map"

record task_message =
  tm_proxy :: "pb_node option"
  tm_party_datasets :: "party_dataset std_map"
  tm_param_map :: "string std_map"

section \<open>Loading the parameters\<close>

text \<open>
  An entry \<^verbatim>\<open>col-owner\<close> or \<^verbatim>\<open>col-type\<close> is cut at its first dash. Without one, \<^verbatim>\<open>find\<close> gives \<open>-1\<close>, and both
  parts are the whole entry.
\<close>

definition cut_at :: "char \<Rightarrow> string \<Rightarrow> string \<times> string" where
  "cut_at c s = (case str_find s [c] 0 of None \<Rightarrow> (s, s) | Some pos \<Rightarrow> (take pos s, drop (pos + 1) s))"

text \<open>\<^verbatim>\<open>substr\<close> throws when it starts behind the end; a negative count is a huge one.\<close>

definition substr_from :: "string \<Rightarrow> nat \<Rightarrow> int \<Rightarrow> string res" where
  "substr_from s pos n =
     (if length s < pos then Inl (Raised ''basic_string::substr'')
      else Inr (if n < 0 then drop pos s else take (nat n) (drop pos s)))"

fun load_owners :: "PartyConfig \<Rightarrow> string list \<Rightarrow> u32 std_map \<Rightarrow> u32 std_map res" where
  "load_owners config [] m = Inr m"
| "load_owners config (w # ws) m =
     (let (col, party_name) = cut_at (CHR ''-'') w in
      case PartyName2PartyId config party_name of
        None \<Rightarrow> Inl (Code (-1))
      | Some owner \<Rightarrow> load_owners config ws (map_insert col (word_of_nat owner) m))"

fun load_dtypes :: "string list \<Rightarrow> bool std_map \<Rightarrow> bool std_map res" where
  "load_dtypes [] m = Inr m"
| "load_dtypes (w # ws) m =
     (let (col, txt) = cut_at (CHR ''-'') w in
      bindR (atoi txt) (\<lambda>dtype. load_dtypes ws (map_insert col (dtype \<noteq> 0) m)))"

fun load_receivers :: "PartyConfig \<Rightarrow> string list \<Rightarrow> nat list res" where
  "load_receivers config [] = Inr []"
| "load_receivers config (w # ws) =
     (case PartyName2PartyId config w of
        None \<Rightarrow> Inl (Code (-1))
      | Some pid \<Rightarrow> bindR (load_receivers config ws) (\<lambda>ps. Inr (pid # ps)))"

definition param :: "string std_map \<Rightarrow> string \<Rightarrow> string" where
  "param param_map key = (case map_of param_map key of Some s \<Rightarrow> s | None \<Rightarrow> [])"

text \<open>The dataset of this party: the path and the id.\<close>

definition load_data_file :: "task_message \<Rightarrow> 'd ArithmeticExecutor \<Rightarrow> 'd ArithmeticExecutor res" where
  "load_data_file task ar =
     (case map_of (tm_party_datasets task) (ar_party_name ar) of
        None \<Rightarrow> Inl (Code (-1))
      | Some ds \<Rightarrow>
          (case map_of (pd_data ds) ''Data_File'' of
             None \<Rightarrow> Inl (Code (-1))
           | Some file \<Rightarrow>
               if pd_detail ds then
                 (case map_of (tm_param_map task) ''Data_File'' of
                    None \<Rightarrow> Inl (Code (-1))
                  | Some path \<Rightarrow> Inr (ar\<lparr>is_dataset_detail := True, data_file_path := path, dataset_id := file\<rparr>))
               else Inr (ar\<lparr>data_file_path := file, dataset_id := file\<rparr>)))"

text \<open>
  The names of the columns of a comparison \<^verbatim>\<open>CMP(a,b)\<close> are cut out of the expression whatever it is,
  before the code looks whether it is a comparison.
\<close>

definition load_expr_text :: "string \<Rightarrow> 'd ArithmeticExecutor \<Rightarrow> 'd ArithmeticExecutor res" where
  "load_expr_text e ar =
     (let comma_index = (case str_find e '','' 0 of None \<Rightarrow> -1 | Some i \<Rightarrow> int i) in
      bindR (substr_from e 4 (comma_index - 4)) (\<lambda>c1.
      bindR (substr_from e (nat (comma_index + 1)) (int (length e) - comma_index - 2)) (\<lambda>c2.
        Inr (ar\<lparr>ar_expr := e, cmp_col1 := c1, cmp_col2 := c2, is_cmp := (take 3 e = ''CMP'')\<rparr>))))"

text \<open>The names of the channels of the operator that compares: to the next and from the previous party.\<close>

definition channel_names :: "nat \<Rightarrow> string \<times> string" where
  "channel_names pid =
     (if pid = 0 then (''01'', ''02'') else if pid = 1 then (''12'', ''01'')
      else if pid = 2 then (''02'', ''12'') else ([], []))"

definition catch_std :: "'a res \<Rightarrow> 'a res" where
  "catch_std r = (case r of Inl (Raised _) \<Rightarrow> Inl (Code (-1)) | _ \<Rightarrow> r)"

definition loadParams ::
  "PartyConfig \<Rightarrow> string \<Rightarrow> bool \<Rightarrow> u32 \<Rightarrow> task_message \<Rightarrow> 'd ArithmeticExecutor \<Rightarrow> 'd ArithmeticExecutor res" where
  "loadParams config storage_path garbage_run garbage_id task ar =
     (if tm_proxy task = None then Inl (Code (-1))
      else bindR (load_data_file task ar) (\<lambda>ar1. catch_std (
        bindR (load_owners config (str_split (param (tm_param_map task) ''Col_And_Owner'') (CHR '';'')) (col_and_owner ar1)) (\<lambda>owners.
        bindR (load_dtypes (str_split (param (tm_param_map task) ''Col_And_Dtype'') (CHR '';'')) (col_and_dtype ar1)) (\<lambda>dtypes.
        bindR (load_expr_text (param (tm_param_map task) ''Expr'') (ar1\<lparr>col_and_owner := owners, col_and_dtype := dtypes\<rparr>)) (\<lambda>ar2.
        bindR (load_receivers config (str_split (param (tm_param_map task) ''RevealToParties'') (CHR '';''))) (\<lambda>ps.
          Inr (ar2\<lparr>mpc_op_exec := (if is_cmp ar2 then Some (ar_party_id ar2, channel_names (ar_party_id ar2)) else mpc_op_exec ar2),
            mpc_exec := (if is_cmp ar2 then mpc_exec ar2 else Some (new_MPCExpressExecutor garbage_run garbage_id)),
            ar_parties := ar_parties ar2 @ ps,
            res_name := CompletePath storage_path (param (tm_param_map task) ''ResFileName'')\<rparr>))))))))"

section \<open>Loading the table\<close>

text \<open>A column of the table that the dataset's driver delivers: chunks of integers, of doubles, or of another type.\<close>

datatype 'd chunks = IntChunks "i64 list list" | DoubleChunks "'d list list" | OtherChunks "nat list"

type_synonym 'd table = "(string \<times> 'd chunks) list"

definition chunks_length :: "'d chunks \<Rightarrow> nat" where
  "chunks_length c = (case c of IntChunks cs \<Rightarrow> length (concat cs) | DoubleChunks cs \<Rightarrow> length (concat cs)
     | OtherChunks ns \<Rightarrow> sum_list ns)"

text \<open>
  One column: it is skipped when the task does not name it. The lookup of its type by name gives no
  field when the name is not unique.
\<close>

definition load_column ::
  "'d fp_ops \<Rightarrow> 'd table \<Rightarrow> nat \<Rightarrow> string \<times> 'd chunks \<Rightarrow> 'd ArithmeticExecutor \<Rightarrow> 'd ArithmeticExecutor res" where
  "load_column F table array_len col ar =
     (case map_of (col_and_dtype ar) (fst col) of
        None \<Rightarrow> Inr ar
      | Some dtype \<Rightarrow>
          if length (filter (\<lambda>c. fst c = fst col) table) \<noteq> 1 then Inl (Undefined ''null pointer'')
          else if \<not> dtype then
            (case snd col of
               IntChunks cs \<Rightarrow>
                 if length (concat cs) \<noteq> array_len then Inl (Raised ''Column has another number of values'')
                 else Inr (ar\<lparr>col_and_val_int := map_insert (fst col) (concat cs) (col_and_val_int ar)\<rparr>)
             | _ \<Rightarrow> Inl (Raised ''Local data type is inconsistent with the demand data type!''))
          else
            bindR (case snd col of
                IntChunks cs \<Rightarrow> Inr (map (fp_of_i64 F) (concat cs))
              | DoubleChunks cs \<Rightarrow> Inr (concat cs)
              | OtherChunks ns \<Rightarrow> Inl (Undefined ''cast of a column of another type'')) (\<lambda>tmp_data.
              if length tmp_data \<noteq> array_len then Inl (Raised ''Column has another number of values'')
              else Inr (ar\<lparr>col_and_val_double := map_insert (fst col) tmp_data (col_and_val_double ar)\<rparr>)))"

fun load_columns ::
  "'d fp_ops \<Rightarrow> 'd table \<Rightarrow> nat \<Rightarrow> (string \<times> 'd chunks) list \<Rightarrow> 'd ArithmeticExecutor \<Rightarrow> 'd ArithmeticExecutor res" where
  "load_columns F table array_len [] ar = Inr ar"
| "load_columns F table array_len (col # cols) ar =
     bindR (load_column F table array_len col ar) (load_columns F table array_len cols)"

text \<open>
  \<^verbatim>\<open>_LoadDatasetFromCSV\<close>: \<open>None\<close> when there is no driver, cursor or dataset. The number of values of the
  last column is returned as an \<^verbatim>\<open>int\<close>.
\<close>

definition LoadDatasetFromCSV ::
  "'d fp_ops \<Rightarrow> 'd table option \<Rightarrow> 'd ArithmeticExecutor \<Rightarrow> ('d ArithmeticExecutor \<times> int) res" where
  "LoadDatasetFromCSV F tbl ar =
     (case tbl of
        None \<Rightarrow> Inr (ar, -1)
      | Some table \<Rightarrow>
          if table = [] then Inl (Undefined ''column of an empty table'')
          else
            let array_len = chunks_length (snd (last table)) in
            bindR (load_columns F table array_len table ar) (\<lambda>ar'.
              Inr (ar', sint (word_of_nat array_len :: u32))))"

section \<open>Preparing the run\<close>

text \<open>For a comparison: columns of different types are compared as doubles, the integer one is converted by its owner.\<close>

definition load_cmp :: "'d fp_ops \<Rightarrow> 'd ArithmeticExecutor \<Rightarrow> 'd ArithmeticExecutor res" where
  "load_cmp F ar =
     (case (map_of (col_and_dtype ar) (cmp_col1 ar), map_of (col_and_dtype ar) (cmp_col2 ar)) of
        (Some t1, Some t2) \<Rightarrow>
          if t1 = t2 then Inr (ar\<lparr>i64_cmp := \<not> t1\<rparr>)
          else
            let convert_col = (if \<not> t1 then cmp_col1 ar else cmp_col2 ar); ar1 = ar\<lparr>i64_cmp := False\<rparr> in
            (case map_of (col_and_owner ar) convert_col of
               None \<Rightarrow> Inl (Raised ''Can't find the party that column belong to.'')
             | Some owner \<Rightarrow>
                 if word_of_nat (ar_party_id ar) \<noteq> owner then Inr ar1
                 else
                   (case map_of (col_and_val_int ar) convert_col of
                      None \<Rightarrow> Inl (Raised ''Can't find column value with column name'')
                    | Some v \<Rightarrow>
                        Inr (ar1\<lparr>col_and_val_double := map_insert convert_col (map (fp_of_i64 F) v) (col_and_val_double ar),
                          col_and_val_int := filter (\<lambda>e. fst e \<noteq> convert_col) (col_and_val_int ar)\<rparr>)))
      | _ \<Rightarrow> Inl (Raised ''Can't find dtype of column''))"

text \<open>
  For an expression: the executor gets the owners, the types and the expression, resolves the mode,
  and the local values are imported, the doubles if there are any, else the integers. No return code
  is looked at.
\<close>

definition load_exec :: "'d fp_ops \<Rightarrow> 'd ArithmeticExecutor \<Rightarrow> 'd exec \<Rightarrow> 'd exec res" where
  "load_exec F ar ex =
     bindR (import_all importColumnOwner (col_and_owner ar) (initColumnConfig (word_of_nat (ar_party_id ar)) ex)) (\<lambda>ex1.
     bindR (import_all importColumnDtype (col_and_dtype ar) ex1) (\<lambda>ex2.
     bindR (importExpress (ar_expr ar) ex2) (\<lambda>(ex3, ret1).
     bindR (resolveRunMode ex3) (\<lambda>(ex4, ret2).
       let ex5 = InitFeedDict ex4 in
       if col_and_val_double ar \<noteq> [] then import_all importColumnValues_dbl (col_and_val_double ar) ex5
       else import_all (importColumnValues_int F) (col_and_val_int ar) ex5))))"

definition loadDataset ::
  "'d fp_ops \<Rightarrow> 'd table option \<Rightarrow> 'd ArithmeticExecutor \<Rightarrow> 'd ArithmeticExecutor res" where
  "loadDataset F tbl ar =
     bindR (LoadDatasetFromCSV F tbl ar) (\<lambda>(ar1, ret).
       if ret \<le> 0 then Inl (Code (-1))
       else if is_cmp ar1 then load_cmp F ar1
       else bindR (deref (mpc_exec ar1)) (\<lambda>ex. bindR (load_exec F ar1 ex) (\<lambda>ex'.
         Inr (ar1\<lparr>mpc_exec := Some ex'\<rparr>))))"

section \<open>Running\<close>

text \<open>What the parties have at the end: doubles, integers or truth values.\<close>

record 'd results =
  final_double :: "'d list"
  final_int64 :: "i64 list"
  cmp_res :: "bool list"

text \<open>
  The matrix a party brings to a comparison, a single row. \<^verbatim>\<open>operator[]\<close> gives owner 0 for a column
  without an owner and no values for a column that was not loaded.
\<close>

definition owner_of :: "'d ArithmeticExecutor \<Rightarrow> string \<Rightarrow> u32" where
  "owner_of ar col = (case map_of (col_and_owner ar) col of Some o' \<Rightarrow> o' | None \<Rightarrow> 0)"

definition cmp_matrix :: "'d ArithmeticExecutor \<Rightarrow> (string \<Rightarrow> i64 list) \<Rightarrow> mat option" where
  "cmp_matrix ar vals =
     (let me = word_of_nat (ar_party_id ar);
          row = (\<lambda>c. Some \<lparr>m_rows = 1, m_cols = length (vals c), m_data = vals c\<rparr>)
      in if owner_of ar (cmp_col1 ar) = me then row (cmp_col1 ar)
         else if owner_of ar (cmp_col2 ar) = me then row (cmp_col2 ar)
         else None)"

definition int_values :: "'d ArithmeticExecutor \<Rightarrow> string \<Rightarrow> i64 list" where
  "int_values ar c = (case map_of (col_and_val_int ar) c of Some v \<Rightarrow> v | None \<Rightarrow> [])"

definition fixed_values :: "('d, 'rt) fx_lib \<Rightarrow> 'd ArithmeticExecutor \<Rightarrow> string \<Rightarrow> i64 list" where
  "fixed_values X ar c = (case map_of (col_and_val_double ar) c of Some v \<Rightarrow> map (fx_of_double X) v | None \<Rightarrow> [])"

text \<open>The comparison at all parties, and revealing its bits to the receivers.\<close>

definition execute_cmp ::
  "('b, 'rt) bin_lib \<Rightarrow> ('d, 'rt) fx_lib \<Rightarrow> (nat \<Rightarrow> 'd ArithmeticExecutor) \<Rightarrow> 'rt \<Rightarrow> ((nat \<Rightarrow> 'd results) \<times> 'rt) res" where
  "execute_cmp B X ars rt =
     (if i64_cmp (ars 1) \<noteq> i64_cmp (ars 0) \<or> i64_cmp (ars 2) \<noteq> i64_cmp (ars 0)
      then Inl (Undefined ''parties run different comparisons'')
      else
        bindR (par3 (\<lambda>p. deref (mpc_op_exec (ars p)))) (\<lambda>ops.
        bindR (if i64_cmp (ars 0) then MPC_Compare B (\<lambda>p. cmp_matrix (ars p) (int_values (ars p))) rt
               else MPC_Compare_f64 B (\<lambda>p. cmp_matrix (ars p) (fixed_values X (ars p))) rt) (\<lambda>(sh_res, ms, rt').
          Inr (\<lambda>p. \<lparr>final_double = [], final_int64 = [], cmp_res =
            concat (map (\<lambda>party. if party = p then map (\<lambda>v. v \<noteq> 0) (lib_bin_open B sh_res) else [])
              (ar_parties (ars p)))\<rparr>, rt'))))"

text \<open>The expression at all parties. The code that \<^verbatim>\<open>runMPCEvaluate\<close> returns is not looked at.\<close>

definition execute_expr ::
  "'rt aby3_lib \<Rightarrow> ('d, 'rt) fx_lib \<Rightarrow> 'd fp_ops \<Rightarrow> 'rt share_op \<Rightarrow> (nat \<Rightarrow> 'd ArithmeticExecutor) \<Rightarrow> 'rt \<Rightarrow>
     ((nat \<Rightarrow> 'd results) \<times> 'rt) res" where
  "execute_expr L X F dv ars rt =
     bindR (par3 (\<lambda>p. deref (mpc_exec (ars p)))) (\<lambda>exs.
     bindR (runMPCEvaluate L F (fp64_app L X F dv (feed_counts exs)) exs rt) (\<lambda>(exs1, ret, rt1).
       if fp64_run (exs1 0) then
         bindR (revealMPCResult_f64 L X exs1 (ar_parties (ars 0)) (\<lambda>_. []) rt1) (\<lambda>(exs2, vecs, rt2).
           Inr (\<lambda>p. \<lparr>final_double = vecs p, final_int64 = [], cmp_res = []\<rparr>, rt2))
       else
         bindR (revealMPCResult L exs1 (ar_parties (ars 0)) (\<lambda>_. []) rt1) (\<lambda>(exs2, vecs, rt2).
           Inr (\<lambda>p. \<lparr>final_double = [], final_int64 = vecs p, cmp_res = []\<rparr>, rt2))))"

definition execute ::
  "'rt aby3_lib \<Rightarrow> ('b, 'rt) bin_lib \<Rightarrow> ('d, 'rt) fx_lib \<Rightarrow> 'd fp_ops \<Rightarrow> 'rt share_op \<Rightarrow>
     (nat \<Rightarrow> 'd ArithmeticExecutor) \<Rightarrow> 'rt \<Rightarrow> ((nat \<Rightarrow> 'd results) \<times> 'rt) res" where
  "execute L B X F dv ars rt =
     (if is_cmp (ars 1) \<noteq> is_cmp (ars 0) \<or> is_cmp (ars 2) \<noteq> is_cmp (ars 0) \<or>
        ar_parties (ars 1) \<noteq> ar_parties (ars 0) \<or> ar_parties (ars 2) \<noteq> ar_parties (ars 0)
      then Inl (Undefined ''parties run different tasks'')
      else if is_cmp (ars 0) then execute_cmp B X ars rt else execute_expr L X F dv ars rt)"

section \<open>Saving\<close>

text \<open>
  The column that is written: its name is the expression, its declared type follows the kind of the
  results, but all values go through a builder of doubles. A party that is no receiver writes nothing.
\<close>

datatype field_type = Float64 | Int64 | Boolean

definition saveModel ::
  "'d fp_ops \<Rightarrow> 'd ArithmeticExecutor \<Rightarrow> 'd results \<Rightarrow> (string \<times> field_type \<times> 'd list) option" where
  "saveModel F ar r =
     (if ar_party_id ar \<notin> set (ar_parties ar) then None
      else if final_double r \<noteq> [] then Some (ar_expr ar, Float64, final_double r)
      else if final_int64 r \<noteq> [] then Some (ar_expr ar, Int64, map (fp_of_i64 F) (final_int64 r))
      else Some (ar_expr ar, Boolean, map (\<lambda>b. fp_of_i64 F (if b then 1 else 0)) (cmp_res r)))"

end
