(* ===== verification/Arithmetic_Run.thy ===== *)
theory Arithmetic_Run
  imports Arithmetic
begin

text \<open>
  What an arithmetic task computes, from the parameters in its message to the saved column: reading
  the parameters, loading the tables, preparing the executors of the three parties and running them
  compose to the evaluation of the expression in every row.
\<close>

section \<open>Importing names, owners and types\<close>

lemma import_owners:
  assumes "col_config ex = Some cfg" "distinct (map fst kvs)" "\<forall>k \<in> fst ` set kvs. map_of (col_owner cfg) k = None"
  shows "import_all importColumnOwner kvs ex =
    Inr (ex\<lparr>col_config := Some (cfg\<lparr>col_owner := rev kvs @ col_owner cfg\<rparr>)\<rparr>)"
  using assms
proof (induction kvs arbitrary: ex cfg)
  case (Cons kv kvs)
  obtain k v where kv: "kv = (k, v)" by (cases kv)
  let ?cfg = "cfg\<lparr>col_owner := (k, v) # col_owner cfg\<rparr>"
  have "importColumnOwner k v ex = Inr (ex\<lparr>col_config := Some ?cfg\<rparr>, 0)"
    using Cons.prems kv by (simp add: importColumnOwner_def cfg_importColumnOwner_def map_insert_def)
  moreover have "\<forall>k' \<in> fst ` set kvs. map_of (col_owner ?cfg) k' = None" using Cons.prems kv by auto
  then have "import_all importColumnOwner kvs (ex\<lparr>col_config := Some ?cfg\<rparr>) =
      Inr (ex\<lparr>col_config := Some (?cfg\<lparr>col_owner := rev kvs @ col_owner ?cfg\<rparr>)\<rparr>)"
    using Cons.IH [of "ex\<lparr>col_config := Some ?cfg\<rparr>" ?cfg] Cons.prems(2) kv by simp
  ultimately show ?case using kv by simp
qed simp

lemma import_dtypes:
  assumes "col_config ex = Some cfg" "distinct (map fst kvs)" "\<forall>k \<in> fst ` set kvs. map_of (col_dtype cfg) k = None"
  shows "import_all importColumnDtype kvs ex = Inr (ex\<lparr>col_config := Some (cfg\<lparr>col_dtype :=
    rev (map (\<lambda>(k, b). (k, if b then FP64 else INT64)) kvs) @ col_dtype cfg\<rparr>)\<rparr>)"
  using assms
proof (induction kvs arbitrary: ex cfg)
  case (Cons kv kvs)
  obtain k b where kv: "kv = (k, b)" by (cases kv)
  let ?t = "if b then FP64 else INT64"
  let ?cfg = "cfg\<lparr>col_dtype := (k, ?t) # col_dtype cfg\<rparr>"
  have "importColumnDtype k b ex = Inr (ex\<lparr>col_config := Some ?cfg\<rparr>, 0)"
    using Cons.prems kv by (simp add: importColumnDtype_def cfg_importColumnDtype_def map_insert_def)
  moreover have "\<forall>k' \<in> fst ` set kvs. map_of (col_dtype ?cfg) k' = None" using Cons.prems kv by auto
  then have "import_all importColumnDtype kvs (ex\<lparr>col_config := Some ?cfg\<rparr>) = Inr (ex\<lparr>col_config := Some
      (?cfg\<lparr>col_dtype := rev (map (\<lambda>(k, b). (k, if b then FP64 else INT64)) kvs) @ col_dtype ?cfg\<rparr>)\<rparr>)"
    using Cons.IH [of "ex\<lparr>col_config := Some ?cfg\<rparr>" ?cfg] Cons.prems(2) kv by simp
  ultimately show ?case using kv by simp
qed simp

lemma map_of_rev: "distinct (map fst kvs) \<Longrightarrow> map_of (rev kvs) k = map_of kvs k"
  by (metis distinct_rev map_of_eqI map_of_is_SomeI map_of_SomeD rev_map set_rev not_Some_eq)

section \<open>Importing the values\<close>

text \<open>The executor hands every column to its feed dictionary.\<close>

lemma import_values:
  assumes "feed_dict ex = Some fd" "col_config ex = Some cfg"
  shows "import_all (importColumnValues_int F) kvs ex =
    bindR (import_all (importColumnValues_i64 F cfg) kvs fd) (\<lambda>fd'. Inr (ex\<lparr>feed_dict := Some fd'\<rparr>))"
  using assms
proof (induction kvs arbitrary: ex fd)
  case (Cons kv kvs)
  obtain k v where kv: "kv = (k, v)" by (cases kv)
  show ?case
  proof (cases "importColumnValues_i64 F cfg k v fd")
    case (Inr a)
    then show ?thesis using Cons.prems kv Cons.IH [of "ex\<lparr>feed_dict := Some (fst a)\<rparr>" "fst a"]
      by (cases a) (simp add: importColumnValues_int_def)
  qed (use Cons.prems kv in \<open>simp add: importColumnValues_int_def\<close>)
qed simp

text \<open>Columns of other parties are refused, which nobody notices.\<close>

lemma import_skips_remote:
  assumes "\<forall>(k, v) \<in> set kvs. map_of (local_col cfg) k \<noteq> None"
  shows "import_all (importColumnValues_i64 F cfg) kvs fd =
    import_all (importColumnValues_i64 F cfg) (filter (\<lambda>kv. map_of (local_col cfg) (fst kv) = Some True) kvs) fd"
  using assms
proof (induction kvs arbitrary: fd)
  case (Cons kv kvs)
  obtain k v where kv: "kv = (k, v)" by (cases kv)
  have rest: "import_all (importColumnValues_i64 F cfg) kvs fd =
    import_all (importColumnValues_i64 F cfg) (filter (\<lambda>kv. map_of (local_col cfg) (fst kv) = Some True) kvs) fd" for fd
    using Cons by simp
  show ?case
  proof (cases "map_of (local_col cfg) k = Some True")
    case False
    then have "importColumnValues_i64 F cfg k v fd = Inr (fd, -1)"
      using Cons.prems kv by (auto simp: importColumnValues_i64_def getColumnLocality_def)
    then show ?thesis using kv rest False by simp
  qed (use kv rest in \<open>simp add: bindR_def split: sum.splits prod.splits\<close>)
qed simp

section \<open>Preparing the executor\<close>

text \<open>Owners and types are declared for the same columns, all of integers.\<close>

definition columns_agree :: "u32 std_map \<Rightarrow> bool std_map \<Rightarrow> bool" where
  "columns_agree owners dtypes \<longleftrightarrow> map_wf owners \<and> map_wf dtypes \<and> fst ` set owners = fst ` set dtypes \<and>
     True \<notin> snd ` set dtypes"

lemma columns_agreeD:
  assumes "columns_agree owners dtypes"
  shows "distinct (map fst owners)" "distinct (map fst dtypes)" "fst ` set owners = fst ` set dtypes"
    "\<And>k d. (k, d) \<in> set dtypes \<Longrightarrow> d = False" "map_of dtypes k = (if k \<in> fst ` set owners then Some False else None)"
proof -
  show d: "distinct (map fst owners)" "distinct (map fst dtypes)" "fst ` set owners = fst ` set dtypes"
    using assms by (simp_all add: columns_agree_def map_wf_def)
  show f: "d = False" if "(k, d) \<in> set dtypes" for k d
    using assms that by (cases d) (force simp: columns_agree_def)+
  show "map_of dtypes k = (if k \<in> fst ` set owners then Some False else None)"
    using d(3) f map_of_SomeD [of dtypes k] by (cases "map_of dtypes k") (force simp: map_of_eq_None_iff)+
qed

text \<open>The configuration the executor of party \<open>pid\<close> has once localities are resolved.\<close>

definition task_config :: "u32 \<Rightarrow> u32 std_map \<Rightarrow> bool std_map \<Rightarrow> ColumnConfig" where
  "task_config pid owners dtypes = \<lparr>cfg_party_id = pid, col_owner = rev owners,
     col_dtype = rev (map (\<lambda>(k, b). (k, if b then FP64 else INT64)) dtypes),
     local_col = fold (\<lambda>(name, owner). map_insert name (owner = pid)) (rev owners) []\<rparr>"

lemma task_config_props:
  assumes "columns_agree owners dtypes"
  shows "map_of (local_col (task_config pid owners dtypes)) k = map_option (\<lambda>owner. owner = pid) (map_of owners k)"
    "map_of (col_dtype (task_config pid owners dtypes)) k = (if k \<in> fst ` set owners then Some INT64 else None)"
    "\<not> hasFP64Column (task_config pid owners dtypes)"
    "resolveLocalColumn ((task_config pid owners dtypes)\<lparr>local_col := []\<rparr>) = Inr (task_config pid owners dtypes)"
proof -
  let ?ts = "map (\<lambda>(k, b). (k, if b then FP64 else INT64)) dtypes"
  note a = columns_agreeD [OF assms]
  have keys: "map fst ?ts = map fst dtypes" by (induction dtypes) auto
  have ts: "?ts = map (\<lambda>(k, b). (k, INT64)) dtypes" using a(4) by force
  have "map_of ?ts k = map_option (\<lambda>b. INT64) (map_of dtypes k)" for k
    unfolding ts by (induction dtypes) auto
  moreover have "distinct (map fst ?ts)" using a(2) keys by (simp only:)
  note rev_ts = map_of_rev [OF this]
  ultimately show dt: "map_of (col_dtype (task_config pid owners dtypes)) k = (if k \<in> fst ` set owners then Some INT64 else None)" for k
    using a(5) [of k] rev_ts [of k] by (simp add: task_config_def)
  have "map_wf (rev owners)" using a(1) by (simp add: map_wf_def rev_map [symmetric])
  then show "map_of (local_col (task_config pid owners dtypes)) k = map_option (\<lambda>owner. owner = pid) (map_of owners k)"
    using fold_insert_locality [of "rev owners" "\<lambda>owner. owner = pid" "[]" k] map_of_rev [OF a(1), of k]
    by (simp add: task_config_def)
  show "\<not> hasFP64Column (task_config pid owners dtypes)"
    using ts by (auto simp: hasFP64Column_def task_config_def)
  have "length owners = length dtypes"
    using a(1-3) by (metis distinct_card length_map list.set_map)
  moreover have "map_of (col_dtype (task_config pid owners dtypes)) (fst x) \<noteq> None" if "x \<in> set (rev owners)" for x
    using dt [of "fst x"] that by simp
  ultimately show "resolveLocalColumn ((task_config pid owners dtypes)\<lparr>local_col := []\<rparr>) = Inr (task_config pid owners dtypes)"
    by (auto simp: resolveLocalColumn_def task_config_def)
qed

text \<open>The tokens of an integer expression over known columns: operators other than division, and columns.\<close>

lemma on_columns_tokens:
  assumes "wf_ast e" "on_columns kvs (dom i64_op) e" "t \<in> set (postfix e)"
  shows "t \<noteq> ''/''" "isOperator_str t \<or> map_of kvs t \<noteq> None"
proof -
  have op: "c \<noteq> CHR ''/''" if "[c] \<in> dom i64_op" for c using that by (auto simp: i64_op_def split: if_splits)
  have "t \<noteq> ''/'' \<and> (isOperator_str t \<or> map_of kvs t \<noteq> None)" using assms
  proof (induction e)
    case (Leaf s)
    then have "\<not> isOperator_str s" using ident_not_operator by simp
    then have "s \<noteq> ''/''" by (auto simp: isOperator_str_def)
    with Leaf show ?case by simp
  next
    case (BinOp c l r)
    then show ?case using op [of c] by auto
  qed auto
  then show "t \<noteq> ''/''" "isOperator_str t \<or> map_of kvs t \<noteq> None" by auto
qed

lemma fold_columns_type:
  "VALUE \<notin> snd ` set m \<Longrightarrow> VALUE \<notin> snd ` set (fold (\<lambda>t m. if isOperator_str t then m else map_insert t COLUMN m) toks m)"
  by (induction toks arbitrary: m) (auto simp: map_insert_def)

definition ready_exec :: "u32 \<Rightarrow> ast \<Rightarrow> ColumnConfig \<Rightarrow> 'd FeedDict \<Rightarrow> 'd exec" where
  "ready_exec g e cfg fd = \<lparr>fp64_run = False, expr = print e, suffix_stk = postfix e, col_config = Some cfg,
     feed_dict = Some fd, token_val_map = [],
     token_type_map = fold (\<lambda>t m. if isOperator_str t then m else map_insert t COLUMN m) (postfix e) [], party_id = g\<rparr>"

lemma load_exec_run:
  fixes ar :: "'d ArithmeticExecutor"
  assumes "columns_agree (col_and_owner ar) (col_and_dtype ar)" "wf_ast e" "op_count e < 2 ^ 16"
    and "on_columns kvs (dom i64_op) e" "fst ` set kvs \<subseteq> fst ` set (col_and_owner ar)"
    and "ar_expr ar = print e" "col_and_val_double ar = []"
    and cfg: "cfg = task_config (word_of_nat (ar_party_id ar)) (col_and_owner ar) (col_and_dtype ar)"
  shows "load_exec F ar (new_MPCExpressExecutor g g') =
    bindR (import_all (importColumnValues_i64 F cfg) (col_and_val_int ar) (new_FeedDict False))
      (\<lambda>fd. Inr (ready_exec g' e cfg fd))"
proof -
  let ?ex0 = "new_MPCExpressExecutor g g' :: 'd exec" and ?cfg0 = "new_ColumnConfig (word_of_nat (ar_party_id ar))"
  let ?ttm = "fold (\<lambda>t m. if isOperator_str t then m else map_insert t COLUMN m) (postfix e) []"
  note a = columns_agreeD [OF assms(1)] and t = task_config_props [OF assms(1), of "word_of_nat (ar_party_id ar)", folded cfg]
  let ?ex1 = "?ex0\<lparr>col_config := Some (?cfg0\<lparr>col_owner := rev (col_and_owner ar)\<rparr>)\<rparr>"
  have 1: "import_all importColumnOwner (col_and_owner ar) (initColumnConfig (word_of_nat (ar_party_id ar)) ?ex0) = Inr ?ex1"
    using import_owners [of "initColumnConfig (word_of_nat (ar_party_id ar)) ?ex0" ?cfg0 "col_and_owner ar"] a(1)
    by (simp add: initColumnConfig_def new_ColumnConfig_def)
  let ?ex2 = "?ex0\<lparr>col_config := Some (cfg\<lparr>local_col := []\<rparr>)\<rparr>"
  have 2: "import_all importColumnDtype (col_and_dtype ar) ?ex1 = Inr ?ex2"
    using import_dtypes [of ?ex1 "?cfg0\<lparr>col_owner := rev (col_and_owner ar)\<rparr>" "col_and_dtype ar"] a(2) cfg
    by (simp add: new_ColumnConfig_def task_config_def)
  have "checkExpress (postfix e)" using checkExpress_postfix [OF assms(2)] assms(3) by simp
  then have 3: "importExpress (ar_expr ar) ?ex2 = Inr (?ex2\<lparr>suffix_stk := postfix e, expr := print e\<rparr>, 0)"
    using reads_parse [OF reads_print [OF assms(2)]] assms(6) by (simp add: importExpress_def new_MPCExpressExecutor_def)
  have "isOperator_str s \<or> map_of (col_dtype cfg) s \<noteq> None" if "s \<in> set (postfix e)" for s
    using on_columns_tokens(2) [OF assms(2,4) that] assms(5) t(2) [of s] map_of_SomeD [of kvs s] by force
  moreover have "''/'' \<notin> set (postfix e)" using on_columns_tokens(1) [OF assms(2,4)] by blast
  ultimately have "resolve_tokens cfg (postfix e) [] False = Inr (?ttm, False)"
    by (simp add: resolve_tokens_spec)
  then have 4: "resolveRunMode (?ex2\<lparr>suffix_stk := postfix e, expr := print e\<rparr>) =
      Inr (?ex2\<lparr>suffix_stk := postfix e, expr := print e, col_config := Some cfg, token_type_map := ?ttm, fp64_run := False\<rparr>, 0)"
    using t(3,4) by (simp add: resolveRunMode_def new_MPCExpressExecutor_def)
  have 5: "InitFeedDict (?ex2\<lparr>suffix_stk := postfix e, expr := print e, col_config := Some cfg, token_type_map := ?ttm, fp64_run := False\<rparr>) =
      ready_exec g' e cfg (new_FeedDict False)"
    by (simp add: InitFeedDict_def new_MPCExpressExecutor_def ready_exec_def)
  have "import_all (importColumnValues_int F) (col_and_val_int ar) (ready_exec g' e cfg (new_FeedDict False)) =
      bindR (import_all (importColumnValues_i64 F cfg) (col_and_val_int ar) (new_FeedDict False))
        (\<lambda>fd. Inr (ready_exec g' e cfg fd))"
    by (subst import_values [of _ "new_FeedDict False" cfg]) (simp_all add: ready_exec_def)
  then show ?thesis unfolding load_exec_def 1 2 bindR_simps 3 prod.case 4 Let_def 5 assms(7) by simp
qed

text \<open>Loading the columns of a party: its own columns can be read back and give the number of rows.\<close>

lemma feed_after_load:
  assumes "columns_agree owners dtypes" "map_wf vals" "fst ` set vals \<subseteq> fst ` set owners"
    and "\<forall>(k, v) \<in> set vals. length v = n" "n < 2 ^ 31"
    and "map_of owners k0 = Some pid" "map_of vals k0 \<noteq> None" and cfg: "cfg = task_config pid owners dtypes"
  shows "\<exists>fd. import_all (importColumnValues_i64 F cfg) vals (new_FeedDict False) = Inr fd \<and>
    unat (getColumnValuesCount fd) = n \<and>
    (\<forall>k v. map_of owners k = Some pid \<longrightarrow> map_of vals k = Some v \<longrightarrow> getColumnValues_i64 cfg k fd = Inr (Inr v))"
proof -
  let ?own = "\<lambda>kv. map_of (local_col cfg) (fst kv) = Some True"
  note t = task_config_props [OF assms(1), of pid, folded cfg]
  have "map_of (local_col cfg) k \<noteq> None" if "(k, v) \<in> set vals" for k v
  proof -
    have "k \<in> fst ` set owners" using assms(3) that by force
    then show ?thesis using t(1) [of k] by (simp add: map_of_eq_None_iff)
  qed
  then have "\<forall>(k, v) \<in> set vals. map_of (local_col cfg) k \<noteq> None" by blast
  note skip = import_skips_remote [OF this, of F "new_FeedDict False"]
  have wf: "map_wf (filter ?own vals)" using assms(2) by (simp add: map_wf_def distinct_map_filter)
  have "store_accepts False True cfg (new_FeedDict False) k v \<and> length v = n"
    if kv: "(k, v) \<in> set (filter ?own vals)" for k v
  proof -
    have "k \<in> fst ` set owners" using assms(3) kv by force
    with kv t(2) [of k] assms(4,5) show ?thesis by (auto simp: store_accepts_def new_FeedDict_def)
  qed
  then have "\<forall>(k, v) \<in> set (filter ?own vals). store_accepts False True cfg (new_FeedDict False) k v \<and> length v = n" by blast
  with i64_store.put_all [of cfg "new_FeedDict False" "filter ?own vals" n F] wf new_FeedDict_ok [of cfg False]
  obtain fd where fd: "import_all (importColumnValues_i64 F cfg) vals (new_FeedDict False) = Inr fd"
    "fd_ok cfg fd" "\<not> float_run fd"
    "\<And>k v. map_of (filter ?own vals) k = Some v \<Longrightarrow> getColumnValues_i64 cfg k fd = Inr (Inr v)"
    unfolding skip by (force simp: new_FeedDict_def)
  have get: "getColumnValues_i64 cfg k fd = Inr (Inr v)" if "map_of owners k = Some pid" "map_of vals k = Some v" for k v
  proof (rule fd(4))
    have "(k, v) \<in> set (filter ?own vals)" using that t(1) [of k] map_of_SomeD [OF that(2)] by simp
    then show "map_of (filter ?own vals) k = Some v" using wf by (simp add: map_wf_def)
  qed
  obtain v0 where v0: "map_of vals k0 = Some v0" using assms(7) by auto
  have "(k0, v0) \<in> set (int64_col fd)"
    using get [OF assms(6) v0] by (auto simp: getColumnValues_i64_def dest: map_of_SomeD split: if_splits option.splits)
  then have "column_ok cfg (val_count fd) (k0, v0)" using fd(2) by (auto simp: fd_ok_def)
  then have "val_count fd = word_of_nat n" using map_of_SomeD [OF v0] assms(4) by (auto simp: column_ok_def)
  then have "unat (getColumnValuesCount fd) = n"
    using assms(5) by (simp add: getColumnValuesCount_def unsigned_of_nat take_bit_nat_eq_self)
  with fd(1) get show ?thesis by blast
qed

section \<open>Loading a table\<close>

definition chunk_ints :: "'d chunks \<Rightarrow> i64 list" where
  "chunk_ints c = (case c of IntChunks cs \<Rightarrow> concat cs | _ \<Rightarrow> [])"

text \<open>The columns of the table that the task names, in the order in which the map is filled.\<close>

definition task_columns :: "'v std_map \<Rightarrow> 'd table \<Rightarrow> i64 list std_map" where
  "task_columns dtypes table =
     rev (map (\<lambda>col. (fst col, chunk_ints (snd col))) (filter (\<lambda>col. map_of dtypes (fst col) \<noteq> None) table))"

lemma count_unique_key: "distinct (map fst t) \<Longrightarrow> col \<in> set t \<Longrightarrow> length (filter (\<lambda>c. fst c = fst col) t) = 1"
proof (induction t)
  case (Cons a t)
  have "fst c \<noteq> fst a" if "c \<in> set t" for c using that Cons.prems(1) by (metis distinct.simps(2) image_eqI list.set_map list.simps(9))
  then have "filter (\<lambda>c. fst c = fst a) t = []" by simp
  with Cons show ?case by (cases "col = a") (auto simp: image_iff)
qed simp

lemma load_columns_ints:
  assumes "True \<notin> snd ` set (col_and_dtype ar)" "set cols \<subseteq> set table" "distinct (map fst table)" "distinct (map fst cols)"
    and "\<forall>col \<in> set cols. map_of (col_and_dtype ar) (fst col) \<noteq> None \<longrightarrow>
      (\<exists>cs. snd col = IntChunks cs \<and> length (concat cs) = n) \<and> map_of (col_and_val_int ar) (fst col) = None"
  shows "load_columns F table n cols ar =
    Inr (ar\<lparr>col_and_val_int := task_columns (col_and_dtype ar) cols @ col_and_val_int ar\<rparr>)"
  using assms
proof (induction cols arbitrary: ar)
  case (Cons col cols)
  show ?case
  proof (cases "map_of (col_and_dtype ar) (fst col)")
    case None
    then show ?thesis using Cons by (simp add: load_column_def task_columns_def)
  next
    case (Some d)
    then have "d \<in> snd ` set (col_and_dtype ar)" by (force dest: map_of_SomeD)
    then have d: "\<not> d" using Cons.prems(1) by auto
    have one: "length (filter (\<lambda>c. fst c = fst col) table) = 1"
      using count_unique_key [OF Cons.prems(3), of col] Cons.prems(2) by simp
    obtain cs where cs: "snd col = IntChunks cs" "length (concat cs) = n" "map_of (col_and_val_int ar) (fst col) = None"
      using Cons.prems(5) Some by auto
    let ?ar = "ar\<lparr>col_and_val_int := (fst col, concat cs) # col_and_val_int ar\<rparr>"
    have "load_column F table n col ar = Inr ?ar"
      using Some d one cs by (simp add: load_column_def map_insert_def)
    moreover have "\<forall>c \<in> set cols. map_of (col_and_dtype ?ar) (fst c) \<noteq> None \<longrightarrow>
      (\<exists>cs. snd c = IntChunks cs \<and> length (concat cs) = n) \<and> map_of (col_and_val_int ?ar) (fst c) = None"
      using Cons.prems(4,5) by (auto simp: image_iff)
    note IH = Cons.IH [OF _ _ _ _ this, simplified]
    ultimately show ?thesis using Cons.prems Some cs IH by (simp add: task_columns_def chunk_ints_def)
  qed
qed (simp add: task_columns_def)

text \<open>
  The table of party \<open>p\<close> fits the task: its columns have different names, those the task names hold
  integers, \<open>n\<close> in each, as has the last column; it has the columns of \<open>kvs\<close> that the party owns, and
  there is one.
\<close>

definition table_fits ::
  "u32 std_map \<Rightarrow> (string \<times> i64 list) list \<Rightarrow> nat \<Rightarrow> u32 \<Rightarrow> 'd table \<Rightarrow> bool" where
  "table_fits owners kvs n pid table \<longleftrightarrow> table \<noteq> [] \<and> distinct (map fst table) \<and> chunks_length (snd (last table)) = n \<and>
     (\<forall>(k, c) \<in> set table. k \<in> fst ` set owners \<longrightarrow> (\<exists>cs. c = IntChunks cs \<and> length (concat cs) = n)) \<and>
     (\<forall>(k, v) \<in> set kvs. map_of owners k = Some pid \<longrightarrow> (\<exists>cs. (k, IntChunks cs) \<in> set table \<and> concat cs = v)) \<and>
     (\<exists>k \<in> fst ` set table. map_of owners k = Some pid)"

lemma table_fitsD:
  assumes "table_fits owners kvs n pid table"
  shows "table \<noteq> []" "distinct (map fst table)" "chunks_length (snd (last table)) = n"
    "\<And>k c. (k, c) \<in> set table \<Longrightarrow> k \<in> fst ` set owners \<Longrightarrow> \<exists>cs. c = IntChunks cs \<and> length (concat cs) = n"
    "\<And>k v. (k, v) \<in> set kvs \<Longrightarrow> map_of owners k = Some pid \<Longrightarrow> \<exists>cs. (k, IntChunks cs) \<in> set table \<and> concat cs = v"
    "\<exists>k \<in> fst ` set table. map_of owners k = Some pid"
proof -
  note t = assms [unfolded table_fits_def]
  show "table \<noteq> []" using t by (elim conjE)
  show "distinct (map fst table)" using t by (elim conjE)
  show "chunks_length (snd (last table)) = n" using t by (elim conjE)
  show "\<exists>k \<in> fst ` set table. map_of owners k = Some pid" using t by (elim conjE)
  show "\<exists>cs. c = IntChunks cs \<and> length (concat cs) = n" if "(k, c) \<in> set table" "k \<in> fst ` set owners" for k c
    using bspec [OF conjunct1 [OF conjunct2 [OF conjunct2 [OF conjunct2 [OF t]]]] that(1)] that(2) by simp
  show "\<exists>cs. (k, IntChunks cs) \<in> set table \<and> concat cs = v" if "(k, v) \<in> set kvs" "map_of owners k = Some pid" for k v
    using bspec [OF conjunct1 [OF conjunct2 [OF conjunct2 [OF conjunct2 [OF conjunct2 [OF t]]]]] that(1)] that(2) by simp
qed

lemma task_columns_props:
  assumes "columns_agree owners dtypes" "table_fits owners kvs n pid table"
  shows "map_wf (task_columns dtypes table)" "fst ` set (task_columns dtypes table) \<subseteq> fst ` set owners"
    "\<forall>(k, v) \<in> set (task_columns dtypes table). length v = n"
    "\<And>k v. (k, v) \<in> set kvs \<Longrightarrow> map_of owners k = Some pid \<Longrightarrow> map_of (task_columns dtypes table) k = Some v"
    "\<exists>k. map_of owners k = Some pid \<and> map_of (task_columns dtypes table) k \<noteq> None"
proof -
  let ?ts = "task_columns dtypes table"
  have dom: "map_of dtypes k \<noteq> None \<longleftrightarrow> k \<in> fst ` set owners" for k
    using columns_agreeD(5) [OF assms(1), of k] by (cases "k \<in> fst ` set owners") simp_all
  have mem: "(k, v) \<in> set ?ts \<longleftrightarrow> (\<exists>c. (k, c) \<in> set table \<and> k \<in> fst ` set owners \<and> v = chunk_ints c)" for k v
    by (force simp: task_columns_def dom [symmetric])
  note fits = table_fitsD [OF assms(2)]
  have "distinct (map fst (filter (\<lambda>col. map_of dtypes (fst col) \<noteq> None) table))"
    using fits(2) by (simp add: distinct_map_filter)
  then show wf: "map_wf ?ts" by (simp add: map_wf_def task_columns_def rev_map [symmetric] comp_def)
  show "fst ` set ?ts \<subseteq> fst ` set owners" using mem by force
  have "length v = n" if ts: "(k, v) \<in> set ?ts" for k v
  proof -
    obtain c where "(k, c) \<in> set table" "k \<in> fst ` set owners" "v = chunk_ints c" using ts mem by blast
    with fits(4) [of k c] show ?thesis by (auto simp: chunk_ints_def)
  qed
  then show "\<forall>(k, v) \<in> set ?ts. length v = n" by blast
  have own: "k \<in> fst ` set owners" if "map_of owners k = Some pid" for k
    using that by (force dest: map_of_SomeD)
  show "map_of ?ts k = Some v" if kv: "(k, v) \<in> set kvs" "map_of owners k = Some pid" for k v
  proof -
    obtain cs where "(k, IntChunks cs) \<in> set table" "concat cs = v"
      using fits(5) [OF kv] by blast
    moreover have "chunk_ints (IntChunks cs) = concat cs" by (simp add: chunk_ints_def)
    ultimately have "(k, v) \<in> set ?ts" using mem [of k v] own [OF kv(2)] by metis
    then show ?thesis using wf by (simp add: map_wf_def)
  qed
  from fits(6) obtain col where col: "col \<in> set table" "map_of owners (fst col) = Some pid" by blast
  then have "(fst col, chunk_ints (snd col)) \<in> set ?ts" using mem own prod.collapse by metis
  then have "map_of ?ts (fst col) \<noteq> None" using wf by (simp add: map_wf_def)
  with col(2) show "\<exists>k. map_of owners k = Some pid \<and> map_of ?ts k \<noteq> None" by blast
qed

section \<open>From the tables to the saved results\<close>

text \<open>
  The state of three parties after \<^verbatim>\<open>loadParams\<close>, for an expression \<open>e\<close> over the columns \<open>kvs\<close> whose
  owners are declared in \<open>owners\<close>.
\<close>

definition task_loaded ::
  "ast \<Rightarrow> u32 std_map \<Rightarrow> bool std_map \<Rightarrow> nat list \<Rightarrow> (nat \<Rightarrow> 'd ArithmeticExecutor) \<Rightarrow> bool" where
  "task_loaded e owners dtypes receivers ars \<longleftrightarrow>
     (\<forall>p \<in> {0, 1, 2}. ar_party_id (ars p) = p \<and> \<not> is_cmp (ars p) \<and> ar_expr (ars p) = print e \<and>
        (\<exists>g g'. mpc_exec (ars p) = Some (new_MPCExpressExecutor g g')) \<and>
        col_and_owner (ars p) = owners \<and> col_and_dtype (ars p) = dtypes \<and>
        col_and_val_double (ars p) = [] \<and> col_and_val_int (ars p) = [] \<and> ar_parties (ars p) = receivers)"

text \<open>The state of a party after \<^verbatim>\<open>loadDataset\<close>.\<close>

definition party_ready ::
  "ast \<Rightarrow> u32 std_map \<Rightarrow> bool std_map \<Rightarrow> nat list \<Rightarrow> (string \<times> i64 list) list \<Rightarrow> nat \<Rightarrow> nat \<Rightarrow> 'd ArithmeticExecutor \<Rightarrow> bool" where
  "party_ready e owners dtypes receivers kvs n p ar \<longleftrightarrow>
     \<not> is_cmp ar \<and> ar_expr ar = print e \<and> ar_parties ar = receivers \<and> ar_party_id ar = p \<and>
     (\<exists>g fd. mpc_exec ar = Some (ready_exec g e (task_config (word_of_nat p) owners dtypes) fd) \<and>
        unat (getColumnValuesCount fd) = n \<and>
        (\<forall>(k, v) \<in> set kvs. map_of owners k = Some (word_of_nat p) \<longrightarrow>
          getColumnValues_i64 (task_config (word_of_nat p) owners dtypes) k fd = Inr (Inr v)))"

lemma loadDataset_ready:
  fixes ars :: "nat \<Rightarrow> 'd ArithmeticExecutor"
  assumes "task_loaded e owners dtypes receivers ars" "columns_agree owners dtypes" "wf_ast e" "op_count e < 2 ^ 16"
    and "on_columns kvs (dom i64_op) e" "fst ` set kvs \<subseteq> fst ` set owners" "0 < n" "n < 2 ^ 31"
    and "p \<in> {0, 1, 2}" "table_fits owners kvs n (word_of_nat p) table"
  shows "\<exists>ar'. loadDataset F (Some table) (ars p) = Inr ar' \<and> party_ready e owners dtypes receivers kvs n p ar'"
proof -
  let ?cfg = "task_config (word_of_nat p) owners dtypes" and ?vals = "task_columns dtypes table"
  obtain g g' where ar: "ar_party_id (ars p) = p" "\<not> is_cmp (ars p)" "ar_expr (ars p) = print e"
    "mpc_exec (ars p) = Some (new_MPCExpressExecutor g g')" "col_and_owner (ars p) = owners"
    "col_and_dtype (ars p) = dtypes" "col_and_val_double (ars p) = []" "col_and_val_int (ars p) = []"
    "ar_parties (ars p) = receivers"
    using assms(1,9) unfolding task_loaded_def by blast
  let ?ar = "(ars p)\<lparr>col_and_val_int := ?vals\<rparr>"
  note tp = task_columns_props [OF assms(2,10)]
  note tf = table_fitsD [OF assms(10)]
  have "load_columns F table n table (ars p) = Inr ?ar"
  proof (subst load_columns_ints [of "ars p" table table n F])
    show "\<forall>col \<in> set table. map_of (col_and_dtype (ars p)) (fst col) \<noteq> None \<longrightarrow>
        (\<exists>cs. snd col = IntChunks cs \<and> length (concat cs) = n) \<and> map_of (col_and_val_int (ars p)) (fst col) = None"
    proof (intro ballI impI conjI)
      fix col assume c: "col \<in> set table" "map_of (col_and_dtype (ars p)) (fst col) \<noteq> None"
      then have "fst col \<in> fst ` set owners" using columns_agreeD(5) [OF assms(2), of "fst col"] ar(6) by metis
      then show "\<exists>cs. snd col = IntChunks cs \<and> length (concat cs) = n" using tf(4) [of "fst col" "snd col"] c(1) by simp
      show "map_of (col_and_val_int (ars p)) (fst col) = None" using ar(8) by simp
    qed
  qed (use assms(2) tf ar in \<open>simp_all add: columns_agree_def\<close>)
  moreover have "0 < sint (word_of_nat n :: u32)"
    using assms(7,8) by (simp add: sint_uint signed_take_bit_int_eq_self unsigned_of_nat take_bit_nat_eq_self)
  ultimately have csv: "LoadDatasetFromCSV F (Some table) (ars p) = Inr (?ar, sint (word_of_nat n :: u32))"
      "\<not> sint (word_of_nat n :: u32) \<le> 0"
    using tf by (simp_all add: LoadDatasetFromCSV_def Let_def)
  obtain k0 where k0: "map_of owners k0 = Some (word_of_nat p)" "map_of ?vals k0 \<noteq> None" using tp(5) by blast
  obtain fd where fd: "import_all (importColumnValues_i64 F ?cfg) ?vals (new_FeedDict False) = Inr fd"
    "unat (getColumnValuesCount fd) = n" "\<And>k v. map_of owners k = Some (word_of_nat p) \<Longrightarrow> map_of ?vals k = Some v \<Longrightarrow>
      getColumnValues_i64 ?cfg k fd = Inr (Inr v)"
    using feed_after_load [OF assms(2) tp(1-3) assms(8) k0 refl, of F] by blast
  have "load_exec F ?ar (new_MPCExpressExecutor g g') = Inr (ready_exec g' e ?cfg fd)"
    using load_exec_run [of ?ar e kvs ?cfg F g g'] assms(2-6) ar fd(1) by simp
  then have "loadDataset F (Some table) (ars p) = Inr (?ar\<lparr>mpc_exec := Some (ready_exec g' e ?cfg fd)\<rparr>)"
    using csv ar by (simp add: loadDataset_def)
  moreover have "\<forall>(k, v) \<in> set kvs. map_of owners k = Some (word_of_nat p) \<longrightarrow> getColumnValues_i64 ?cfg k fd = Inr (Inr v)"
    using fd(3) tp(4) by blast
  ultimately show ?thesis using fd(2) ar
    by (intro exI [of _ "?ar\<lparr>mpc_exec := Some (ready_exec g' e ?cfg fd)\<rparr>"]) (auto simp: party_ready_def)
qed

lemma party_ready_exec:
  assumes "party_ready e owners dtypes receivers kvs n p ar" "mpc_exec ar = Some ex"
  obtains g fd where "ex = ready_exec g e (task_config (word_of_nat p) owners dtypes) fd"
    "unat (getColumnValuesCount fd) = n" "\<forall>(k, v) \<in> set kvs. map_of owners k = Some (word_of_nat p) \<longrightarrow>
      getColumnValues_i64 (task_config (word_of_nat p) owners dtypes) k fd = Inr (Inr v)"
proof -
  from assms(1) [unfolded party_ready_def] obtain g fd where
    x: "mpc_exec ar = Some (ready_exec g e (task_config (word_of_nat p) owners dtypes) fd)"
    "unat (getColumnValuesCount fd) = n" and
    v: "\<forall>(k, v) \<in> set kvs. map_of owners k = Some (word_of_nat p) \<longrightarrow>
      getColumnValues_i64 (task_config (word_of_nat p) owners dtypes) k fd = Inr (Inr v)"
    by (elim conjE exE)
  show ?thesis
  proof (rule that)
    show "ex = ready_exec g e (task_config (word_of_nat p) owners dtypes) fd" using x(1) assms(2) by simp
  qed (rule x(2), rule v)
qed

lemma ready_execs:
  fixes exs :: "nat \<Rightarrow> 'd exec"
  assumes "columns_agree owners dtypes"
    and "\<And>p. p \<in> {0, 1, 2} \<Longrightarrow> party_ready e owners dtypes receivers kvs n p (ars p) \<and> mpc_exec (ars p) = Some (exs p)"
    and "\<And>k v. (k, v) \<in> set kvs \<Longrightarrow> length v = n \<and> (\<exists>owner \<in> {0, 1, 2}. map_of owners k = Some (word_of_nat owner))"
  shows "mpc_ready e kvs n exs"
  unfolding mpc_ready_def
proof (intro conjI ballI)
  fix p :: nat assume p: "p \<in> {0, 1, 2}"
  obtain g fd where ex: "exs p = ready_exec g e (task_config (word_of_nat p) owners dtypes) fd"
    "unat (getColumnValuesCount fd) = n"
    by (rule party_ready_exec [OF conjunct1 [OF assms(2) [OF p]] conjunct2 [OF assms(2) [OF p]]])
  show "suffix_stk (exs p) = postfix e" "\<not> fp64_run (exs p)" "VALUE \<notin> snd ` set (token_type_map (exs p))"
    "case feed_dict (exs p) of Some fd \<Rightarrow> unat (getColumnValuesCount fd) = n | None \<Rightarrow> False"
    using ex fold_columns_type [of "[]" "postfix e"] by (simp_all add: ready_exec_def)
next
  fix kv assume kv: "kv \<in> set kvs"
  obtain k v where e: "kv = (k, v)" by (cases kv)
  obtain owner where o: "length v = n" "owner \<in> {0, 1, 2}" "map_of owners k = Some (word_of_nat owner)"
    using assms(3) kv e by blast
  have "holds_column (exs p) p owner k v" if p: "p \<in> {0, 1, 2}" for p
  proof -
    have eq: "(word_of_nat owner :: u32) = word_of_nat p \<longleftrightarrow> p = owner" using o(2) p by auto
    then have "getColumnLocality k (task_config (word_of_nat p) owners dtypes) = Inr (p = owner)"
      using task_config_props(1) [OF assms(1), of "word_of_nat p" k] o(3) by (simp add: getColumnLocality_def)
    moreover obtain g fd where ex: "exs p = ready_exec g e (task_config (word_of_nat p) owners dtypes) fd"
      "unat (getColumnValuesCount fd) = n" and get: "\<forall>(k, v) \<in> set kvs. map_of owners k = Some (word_of_nat p) \<longrightarrow>
        getColumnValues_i64 (task_config (word_of_nat p) owners dtypes) k fd = Inr (Inr v)"
      by (rule party_ready_exec [OF conjunct1 [OF assms(2) [OF p]] conjunct2 [OF assms(2) [OF p]]])
    have "p = owner \<longrightarrow> getColumnValues_i64 (task_config (word_of_nat p) owners dtypes) k fd = Inr (Inr v)"
      using bspec [OF get kv] e o(3) by (cases "p = owner") simp_all
    ultimately show ?thesis using ex(1) by (simp add: holds_column_def ready_exec_def)
  qed
  with o(1,2) e show "case kv of (k, v) \<Rightarrow> length v = n \<and>
      (\<exists>owner \<in> {0, 1, 2}. \<forall>p \<in> {0, 1, 2}. holds_column (exs p) p owner k v)" by blast
qed

section \<open>Reading the parameters\<close>

text \<open>The text of the parameters as the clients of the program write them.\<close>

definition owners_text :: "string std_map \<Rightarrow> string" where
  "owners_text cols = join '';'' (map (\<lambda>(col, party). col @ ''-'' @ party) cols)"

definition dtypes_text :: "bool std_map \<Rightarrow> string" where
  "dtypes_text cols = join '';'' (map (\<lambda>(col, dtype). col @ ''-'' @ (if dtype then ''1'' else ''0'')) cols)"

text \<open>A name that survives in these texts.\<close>

definition plain_name :: "string \<Rightarrow> bool" where
  "plain_name s \<longleftrightarrow> CHR '';'' \<notin> set s \<and> CHR ''-'' \<notin> set s"

lemma cut_at_entry: "CHR ''-'' \<notin> set col \<Longrightarrow> cut_at (CHR ''-'') (col @ ''-'' @ rest) = (col, rest)"
  using find_rel_first [of "''-''" col rest] by (simp add: cut_at_def str_find_def)

lemma load_owners_text:
  assumes "distinct (map fst cols)" "\<forall>(col, party) \<in> set cols. plain_name col \<and> PartyName2PartyId config party = Some (ids party)"
    and "\<forall>k \<in> fst ` set cols. map_of m k = None"
  shows "load_owners config (map (\<lambda>(col, party). col @ ''-'' @ party) cols) m =
    Inr (rev (map (\<lambda>(col, party). (col, word_of_nat (ids party))) cols) @ m)"
  using assms
proof (induction cols arbitrary: m)
  case (Cons e cols)
  obtain col party where e: "e = (col, party)" by (cases e)
  have "CHR ''-'' \<notin> set col" using Cons.prems(2) e by (simp add: plain_name_def)
  moreover have "\<forall>k \<in> fst ` set cols. map_of ((col, word_of_nat (ids party)) # m) k = None"
    using Cons.prems(1,3) e by auto
  ultimately show ?case
    using Cons.prems e Cons.IH [of "(col, word_of_nat (ids party)) # m"] cut_at_entry [of col party]
    by (simp add: map_insert_def)
qed simp

lemma atoi_flag: "atoi (if b then ''1'' else ''0'') = Inr (if b then 1 else 0)"
  by (simp add: atoi_def int_prefix_def isspace_def digit_val_def)

lemma load_dtypes_text:
  assumes "distinct (map fst cols)" "\<forall>col \<in> fst ` set cols. plain_name col" "\<forall>k \<in> fst ` set cols. map_of m k = None"
  shows "load_dtypes (map (\<lambda>(col, dtype). col @ ''-'' @ (if dtype then ''1'' else ''0'')) cols) m = Inr (rev cols @ m)"
  using assms
proof (induction cols arbitrary: m)
  case (Cons e cols)
  obtain col dtype where e: "e = (col, dtype)" by (cases e)
  have "CHR ''-'' \<notin> set col" using Cons.prems(2) e by (simp add: plain_name_def)
  moreover have "\<forall>k \<in> fst ` set cols. map_of ((col, dtype) # m) k = None" using Cons.prems(1,3) e by auto
  ultimately show ?case
    using Cons.prems e Cons.IH [of "(col, dtype) # m"] cut_at_entry [of col] atoi_flag [of dtype]
    by (cases dtype) (simp_all add: map_insert_def)
qed simp

lemma load_receivers_names:
  "\<forall>w \<in> set ws. PartyName2PartyId config w = Some (ids w) \<Longrightarrow> load_receivers config ws = Inr (map ids ws)"
  by (induction ws) simp_all

text \<open>An expression of at least four characters that does not begin with \<^verbatim>\<open>CMP\<close> is not taken for a comparison.\<close>

lemma load_expr_accepted:
  assumes "4 \<le> length e" "take 3 e \<noteq> ''CMP''"
  shows "\<exists>c1 c2. \<forall>ar :: 'd ArithmeticExecutor.
    load_expr_text e ar = Inr (ar\<lparr>ar_expr := e, cmp_col1 := c1, cmp_col2 := c2, is_cmp := False\<rparr>)"
proof -
  define ci where "ci = (case str_find e '','' 0 of None \<Rightarrow> -1 | Some i \<Rightarrow> int i)"
  have ci: "nat (ci + 1) \<le> length e"
  proof (cases "str_find e '','' 0")
    case (Some i)
    then have "i + 1 \<le> length e" using str_find_Some [OF Some] by simp
    then show ?thesis using Some by (simp add: ci_def nat_add_distrib)
  qed (simp add: ci_def)
  obtain c1 where c1: "substr_from e 4 (ci - 4) = Inr c1" using assms(1) by (auto simp add: substr_from_def)
  obtain c2 where c2: "substr_from e (nat (ci + 1)) (int (length e) - ci - 2) = Inr c2" using ci by (auto simp add: substr_from_def)
  show ?thesis
    unfolding load_expr_text_def ci_def [symmetric] Let_def c1 c2 bindR_simps using assms(2) by auto
qed

text \<open>A message for party \<open>pid\<close> that names the columns, their owners and types, the expression and the receivers.\<close>

definition task_text ::
  "ast \<Rightarrow> string std_map \<Rightarrow> bool std_map \<Rightarrow> string list \<Rightarrow> string \<Rightarrow> task_message \<Rightarrow> bool" where
  "task_text e cols dts ws name task \<longleftrightarrow> tm_proxy task \<noteq> None \<and>
     (case map_of (tm_party_datasets task) name of None \<Rightarrow> False | Some ds \<Rightarrow>
        map_of (pd_data ds) ''Data_File'' \<noteq> None \<and> (pd_detail ds \<longrightarrow> map_of (tm_param_map task) ''Data_File'' \<noteq> None)) \<and>
     param (tm_param_map task) ''Col_And_Owner'' = owners_text cols \<and>
     param (tm_param_map task) ''Col_And_Dtype'' = dtypes_text dts \<and>
     param (tm_param_map task) ''Expr'' = print e \<and>
     param (tm_param_map task) ''RevealToParties'' = join '';'' ws"

text \<open>The names in such a message can be told apart after splitting.\<close>

definition names_ok :: "string std_map \<Rightarrow> bool std_map \<Rightarrow> string list \<Rightarrow> bool" where
  "names_ok cols dts ws \<longleftrightarrow> cols \<noteq> [] \<and> dts \<noteq> [] \<and> ws \<noteq> [] \<and> distinct (map fst cols) \<and> distinct (map fst dts) \<and>
     (\<forall>(col, party) \<in> set cols. plain_name col \<and> CHR '';'' \<notin> set party) \<and> (\<forall>col \<in> fst ` set dts. plain_name col) \<and>
     (\<forall>w \<in> set ws. CHR '';'' \<notin> set w)"

lemma names_okD:
  assumes "names_ok cols dts ws"
  shows "cols \<noteq> []" "dts \<noteq> []" "ws \<noteq> []" "distinct (map fst cols)" "distinct (map fst dts)"
    "\<And>e. e \<in> set cols \<Longrightarrow> plain_name (fst e) \<and> CHR '';'' \<notin> set (snd e)"
    "\<forall>col \<in> fst ` set dts. plain_name col" "\<forall>w \<in> set ws. CHR '';'' \<notin> set w"
proof -
  note n = assms [unfolded names_ok_def]
  show "cols \<noteq> []" using n by (elim conjE)
  show "dts \<noteq> []" using n by (elim conjE)
  show "ws \<noteq> []" using n by (elim conjE)
  show "distinct (map fst cols)" using n by (elim conjE)
  show "distinct (map fst dts)" using n by (elim conjE)
  show "\<forall>col \<in> fst ` set dts. plain_name col" using n by (elim conjE)
  show "\<forall>w \<in> set ws. CHR '';'' \<notin> set w" using n by (elim conjE)
  have c: "\<forall>(col, party) \<in> set cols. plain_name col \<and> CHR '';'' \<notin> set party" using n by (elim conjE)
  show "plain_name (fst e) \<and> CHR '';'' \<notin> set (snd e)" if "e \<in> set cols" for e
    using bspec [OF c that] by (simp add: case_prod_beta)
qed

lemma split_params:
  assumes "names_ok cols dts ws"
  shows "str_split (owners_text cols) (CHR '';'') = map (\<lambda>(col, party). col @ ''-'' @ party) cols"
    "str_split (dtypes_text dts) (CHR '';'') = map (\<lambda>(col, dtype). col @ ''-'' @ (if dtype then ''1'' else ''0'')) dts"
    "str_split (join '';'' ws) (CHR '';'') = ws"
proof -
  note n = names_okD [OF assms]
  let ?cs = "map (\<lambda>(col, party). col @ ''-'' @ party) cols"
  let ?ds = "map (\<lambda>(col, dtype). col @ ''-'' @ (if dtype then ''1'' else ''0'')) dts"
  have "\<forall>w \<in> set ?cs. CHR '';'' \<notin> set w"
  proof
    fix w assume "w \<in> set ?cs"
    then obtain x where x: "x \<in> set cols" "w = fst x @ ''-'' @ snd x" by auto
    then show "CHR '';'' \<notin> set w" using n(6) [OF x(1)] by (simp add: plain_name_def)
  qed
  then show "str_split (owners_text cols) (CHR '';'') = ?cs"
    unfolding owners_text_def by (intro str_split_join) (simp_all add: n(1))
  have "\<forall>w \<in> set ?ds. CHR '';'' \<notin> set w"
  proof
    fix w assume "w \<in> set ?ds"
    then obtain x where x: "x \<in> set dts" "w = fst x @ ''-'' @ (if snd x then ''1'' else ''0'')" by auto
    then have "plain_name (fst x)" using n(7) by blast
    then show "CHR '';'' \<notin> set w" using x(2) by (simp add: plain_name_def)
  qed
  then show "str_split (dtypes_text dts) (CHR '';'') = ?ds"
    unfolding dtypes_text_def by (intro str_split_join) (simp_all add: n(2))
  show "str_split (join '';'' ws) (CHR '';'') = ws" by (rule str_split_join [OF n(3,8)])
qed

lemma load_data_file_ok:
  assumes "task_text e cols dts ws (ar_party_name ar) task"
  shows "\<exists>detail path id. load_data_file task ar =
    Inr (ar\<lparr>is_dataset_detail := detail, data_file_path := path, dataset_id := id\<rparr>)"
proof -
  obtain ds fl where d: "map_of (tm_party_datasets task) (ar_party_name ar) = Some ds"
    "map_of (pd_data ds) ''Data_File'' = Some fl" "pd_detail ds \<longrightarrow> map_of (tm_param_map task) ''Data_File'' \<noteq> None"
    using assms by (auto simp: task_text_def split: option.splits)
  show ?thesis
  proof (cases "pd_detail ds")
    case True
    then obtain path where "map_of (tm_param_map task) ''Data_File'' = Some path" using d(3) by auto
    with True d(1,2) show ?thesis
      by (intro exI [of _ True] exI [of _ path] exI [of _ fl]) (simp add: load_data_file_def)
  next
    case False
    with d(1,2) show ?thesis
      by (intro exI [of _ "is_dataset_detail ar"] exI [of _ fl]) (simp add: load_data_file_def)
  qed
qed

lemma loadParams_text:
  assumes "task_text e cols dts ws (pc_node_id config) task" "names_ok cols dts ws"
    and "4 \<le> length (print e)" "take 3 (print e) \<noteq> ''CMP''"
    and ids: "\<forall>w \<in> snd ` set cols \<union> set ws. PartyName2PartyId config w = Some (ids w)"
  shows "\<exists>ar :: 'd ArithmeticExecutor. loadParams config path g g' task (new_ArithmeticExecutor config) = Inr ar \<and>
    ar_party_id ar = pc_party_id config \<and> \<not> is_cmp ar \<and> ar_expr ar = print e \<and>
    mpc_exec ar = Some (new_MPCExpressExecutor g g') \<and>
    col_and_owner ar = rev (map (\<lambda>(col, party). (col, word_of_nat (ids party))) cols) \<and> col_and_dtype ar = rev dts \<and>
    col_and_val_double ar = [] \<and> col_and_val_int ar = [] \<and> ar_parties ar = map ids ws"
proof -
  let ?ar0 = "new_ArithmeticExecutor config :: 'd ArithmeticExecutor"
  have "task_text e cols dts ws (ar_party_name ?ar0) task" using assms(1) by (simp add: new_ArithmeticExecutor_def)
  from load_data_file_ok [OF this] obtain detail fl id where
    f: "load_data_file task ?ar0 = Inr (?ar0\<lparr>is_dataset_detail := detail, data_file_path := fl, dataset_id := id\<rparr>)" by blast
  let ?ar1 = "?ar0\<lparr>is_dataset_detail := detail, data_file_path := fl, dataset_id := id\<rparr>"
  note n = names_okD [OF assms(2)] and s = split_params [OF assms(2)]
  have o: "load_owners config (map (\<lambda>(col, party). col @ ''-'' @ party) cols) (col_and_owner ?ar1) =
      Inr (rev (map (\<lambda>(col, party). (col, word_of_nat (ids party))) cols))"
  proof -
    have "plain_name (fst x) \<and> PartyName2PartyId config (snd x) = Some (ids (snd x))" if "x \<in> set cols" for x
      using n(6) [OF that] ids that by simp
    then have "\<forall>(col, party) \<in> set cols. plain_name col \<and> PartyName2PartyId config party = Some (ids party)" by fastforce
    from load_owners_text [OF n(4) this, of "[]"] show ?thesis by (simp add: new_ArithmeticExecutor_def)
  qed
  have t: "load_dtypes (map (\<lambda>(col, dtype). col @ ''-'' @ (if dtype then ''1'' else ''0'')) dts) (col_and_dtype ?ar1) = Inr (rev dts)"
    using load_dtypes_text [OF n(5,7), of "[]"] by (simp add: new_ArithmeticExecutor_def)
  have w: "load_receivers config ws = Inr (map ids ws)" using load_receivers_names [of ws config ids] ids by simp
  obtain c1 c2 where x: "\<And>ar :: 'd ArithmeticExecutor. load_expr_text (print e) ar =
      Inr (ar\<lparr>ar_expr := print e, cmp_col1 := c1, cmp_col2 := c2, is_cmp := False\<rparr>)"
    using load_expr_accepted [OF assms(3,4)] by blast
  show ?thesis
    using assms(1) f o t w x s
    by (simp add: loadParams_def task_text_def catch_std_def new_ArithmeticExecutor_def)
qed

section \<open>Properties\<close>

text \<open>
  C1. An arithmetic task computes its expression: three parties that have read the parameters of an
  integer expression with fewer than 65536 operators, and whose tables fit (each owns a column, all
  columns have the same number of rows), load their data without an error, run the task, and every
  receiver ends up with the value of the expression, modulo \<open>2 ^ 64\<close>, in each row; what it saves is
  the column of these values, converted to \<^verbatim>\<open>double\<close>, under the text of the expression. It holds for
  any behaviour of the ABY3 library allowed by \<open>aby3_ok\<close>.
\<close>

theorem arithmetic_task:
  fixes ars :: "nat \<Rightarrow> 'd ArithmeticExecutor"
  assumes lib: "aby3_ok L"
    and loaded: "task_loaded (BinOp c l r) owners dtypes receivers ars" "distinct receivers" "\<forall>p \<in> set receivers. p < 3"
    and expr: "wf_ast (BinOp c l r)" "op_count (BinOp c l r) < 2 ^ 16" "on_columns kvs (dom i64_op) (BinOp c l r)"
    and cols: "columns_agree owners dtypes" "\<forall>(k, v) \<in> set kvs. map_of owners k \<in> {Some 0, Some 1, Some 2}"
    and tables: "0 < n" "n < 2 ^ 31" "\<forall>p \<in> {0, 1, 2}. table_fits owners kvs n (word_of_nat p) (tables p)"
  shows "\<exists>ars' rs rt'. (\<forall>p \<in> {0, 1, 2}. loadDataset F (Some (tables p)) (ars p) = Inr (ars' p)) \<and>
    execute L B X F dv ars' rt = Inr (rs, rt') \<and>
    (\<forall>p \<in> set receivers. length (final_int64 (rs p)) = n \<and> (\<forall>i < n.
        row_value i64_op (\<lambda>s. map_option (\<lambda>v. v ! i) (map_of kvs s)) (BinOp c l r) = Some (final_int64 (rs p) ! i)) \<and>
      saveModel F (ars' p) (rs p) = Some (print (BinOp c l r), Int64, map (fp_of_i64 F) (final_int64 (rs p))))"
proof -
  let ?e = "BinOp c l r"
  have owner: "\<exists>owner \<in> {0, 1, 2}. map_of owners k = Some (word_of_nat owner)" if "(k, v) \<in> set kvs" for k v
    using cols(2) that by auto
  have keys: "fst ` set kvs \<subseteq> fst ` set owners" using owner by (force dest: map_of_SomeD)
  have len: "length v = n" if kv: "(k, v) \<in> set kvs" for k v
  proof -
    obtain p where p: "p \<in> {0, 1, 2}" "map_of owners k = Some (word_of_nat p)" using owner kv by blast
    note fits = table_fitsD [OF bspec [OF tables(3) p(1)]]
    obtain cs where "(k, IntChunks cs) \<in> set (tables p)" "concat cs = v" using fits(5) [OF kv p(2)] by blast
    moreover have "k \<in> fst ` set owners" using keys kv by force
    ultimately show ?thesis using fits(4) by fastforce
  qed
  have "\<exists>ar'. loadDataset F (Some (tables p)) (ars p) = Inr ar' \<and> party_ready ?e owners dtypes receivers kvs n p ar'"
    if "p \<in> {0, 1, 2}" for p
    by (rule loadDataset_ready [OF loaded(1) cols(1) expr keys tables(1,2) that bspec [OF tables(3) that]])
  then obtain ars' where ars': "\<And>p. p \<in> {0, 1, 2} \<Longrightarrow>
      loadDataset F (Some (tables p)) (ars p) = Inr (ars' p) \<and> party_ready ?e owners dtypes receivers kvs n p (ars' p)"
    by metis
  have some: "mpc_exec (ars' p) = Some (the (mpc_exec (ars' p)))" if "p \<in> {0, 1, 2}" for p
    using ars' [OF that] by (auto simp: party_ready_def)
  define exs where "exs = (\<lambda>p::nat. the (mpc_exec (ars' (if p = 0 then 0 else if p = 1 then 1 else 2))))"
  have par: "par3 (\<lambda>p. deref (mpc_exec (ars' p))) = Inr exs"
    using some [of 0] some [of 1] some [of 2] by (auto simp: par3_def exs_def bindR_def deref_def fun_eq_iff split: option.splits)
  have "mpc_exec (ars' p) = Some (exs p)" if "p \<in> {0, 1, 2}" for p
  proof -
    have "exs p = the (mpc_exec (ars' p))" using that by (auto simp: exs_def)
    then show ?thesis using some [OF that] by simp
  qed
  then have "mpc_ready ?e kvs n exs"
    by (intro ready_execs [OF cols(1), where receivers = receivers and ars = ars'] conjI conjunct2 [OF ars'] len owner)
  from ready_run [OF lib expr(1,3) this loaded(2,3), of F "fp64_app L X F dv (feed_counts exs)" rt]
  obtain exs' rt1 exs'' vecs rt2 where run: "runMPCEvaluate L F (fp64_app L X F dv (feed_counts exs)) exs rt = Inr (exs', 0, rt1)"
    "fp64_run (exs' 0) = fp64_run (exs 0)" "revealMPCResult L exs' receivers (\<lambda>_. []) rt1 = Inr (exs'', vecs, rt2)"
    "\<forall>p \<in> set receivers. length (vecs p) = n \<and> (\<forall>i < n.
      row_value i64_op (\<lambda>s. map_option (\<lambda>v. v ! i) (map_of kvs s)) ?e = Some (vecs p ! i))" by blast
  have same: "\<not> is_cmp (ars' p)" "ar_parties (ars' p) = receivers" "ar_expr (ars' p) = print ?e" "ar_party_id (ars' p) = p"
    if "p \<in> {0, 1, 2}" for p using ars' [OF that] by (simp_all add: party_ready_def)
  have "\<not> fp64_run (exs 0)" using ars' [of 0] by (auto simp: exs_def party_ready_def ready_exec_def)
  let ?rs = "\<lambda>p. \<lparr>final_double = [], final_int64 = vecs p, cmp_res = []\<rparr> :: 'd results"
  have "execute L B X F dv ars' rt = Inr (?rs, rt2)"
    using same [of 0] same [of 1] same [of 2] par run \<open>\<not> fp64_run (exs 0)\<close>
    by (simp add: execute_def execute_expr_def)
  moreover have "saveModel F (ars' p) (?rs p) = Some (print ?e, Int64, map (fp_of_i64 F) (vecs p))" if "p \<in> set receivers" for p
  proof -
    have "p < 3" using loaded(3) that by blast
    then have "p \<in> {0, 1, 2}" by auto
    then show ?thesis using same [of p] that run(4) tables(1) by (auto simp: saveModel_def)
  qed
  ultimately show ?thesis using ars' run(4) by (intro exI [of _ ars'] exI [of _ ?rs] exI [of _ rt2]) simp
qed

text \<open>Three parties with one column each and the task \<^verbatim>\<open>A*(B-C)\<close>; party 1 and party 2 receive the result.\<close>

definition small_owners :: "u32 std_map" where
  "small_owners = [(''A'', 0), (''B'', 1), (''C'', 2)]"

definition small_dtypes :: "bool std_map" where
  "small_dtypes = [(''A'', False), (''B'', False), (''C'', False)]"

definition small_ar :: "nat \<Rightarrow> int ArithmeticExecutor" where
  "small_ar p = \<lparr>ar_party_id = p, ar_party_name = ''P'', data_file_path = ''f'', dataset_id = ''f'',
     is_dataset_detail = False, ar_parties = [1, 2], is_cmp = False, i64_cmp = True, ar_expr = ''A*(B-C)'',
     cmp_col1 = [], cmp_col2 = [], col_and_owner = small_owners, col_and_dtype = small_dtypes, mpc_op_exec = None,
     mpc_exec = Some (new_MPCExpressExecutor True 7), col_and_val_double = [], col_and_val_int = [], res_name = ''r''\<rparr>"

definition small_table :: "nat \<Rightarrow> int table" where
  "small_table p = (if p = 0 then [(''A'', IntChunks [[2], [3]])] else if p = 1 then [(''B'', IntChunks [[10, 20]])]
     else [(''C'', IntChunks [[4], [], [30]]), (''note'', OtherChunks [2])])"

lemma small_task:
  "task_loaded (BinOp (CHR ''*'') (Leaf ''A'') (Paren (BinOp (CHR ''-'') (Leaf ''B'') (Leaf ''C''))))
     small_owners small_dtypes [1, 2] small_ar"
  "columns_agree small_owners small_dtypes"
  "\<forall>p \<in> {0, 1, 2}. table_fits small_owners [(''A'', [2, 3]), (''B'', [10, 20]), (''C'', [4, 30])] 2 (word_of_nat p) (small_table p)"
  by (auto simp: task_loaded_def small_ar_def columns_agree_def small_owners_def small_dtypes_def map_wf_def
      table_fits_def small_table_def chunks_length_def)

theorem arithmetic_task_witness:
  "\<exists>ars' rs rt'. (\<forall>p \<in> {0, 1, 2}. loadDataset int_fp (Some (small_table p)) (small_ar p) = Inr (ars' p)) \<and>
    execute lib_ref bin_ref fx_ref int_fp (\<lambda>_ _ _. Inl (Raised ''div'')) ars' () = Inr (rs, rt') \<and>
    final_int64 (rs 1) ! 0 = 12 \<and> final_int64 (rs 1) ! 1 = -30 \<and> final_int64 (rs 2) ! 1 = -30 \<and>
    saveModel int_fp (ars' 1) (rs 1) = Some (''A*(B-C)'', Int64, map (fp_of_i64 int_fp) (final_int64 (rs 1)))"
proof -
  let ?l = "Leaf ''A''" and ?r = "Paren (BinOp (CHR ''-'') (Leaf ''B'') (Leaf ''C''))"
  let ?e = "BinOp (CHR ''*'') ?l ?r"
  let ?kvs = "[(''A'', [2, 3]), (''B'', [10, 20]), (''C'', [4, 30])] :: (string \<times> i64 list) list"
  have e: "wf_ast ?e" "op_count ?e < 2 ^ 16" by (simp_all add: ident_def isOperator_def Priority_def)
  have on: "on_columns ?kvs (dom i64_op) ?e" by (simp add: dom_def i64_op_def)
  have o: "\<forall>(k, v) \<in> set ?kvs. map_of small_owners k \<in> {Some 0, Some 1, Some 2}" by (simp add: small_owners_def)
  have d: "distinct [1, 2 :: nat]" "\<forall>p \<in> set [1, 2 :: nat]. p < 3" "(0 :: nat) < 2" "(2 :: nat) < 2 ^ 31" by simp_all
  from arithmetic_task [OF aby3_ok_ref small_task(1) d(1,2) e on small_task(2) o d(3,4) small_task(3),
      of int_fp bin_ref fx_ref "\<lambda>_ _ _. Inl (Raised ''div'')" "()"]
  obtain ars' rs rt' where x: "\<forall>p \<in> {0, 1, 2}. loadDataset int_fp (Some (small_table p)) (small_ar p) = Inr (ars' p)"
    "execute lib_ref bin_ref fx_ref int_fp (\<lambda>_ _ _. Inl (Raised ''div'')) ars' () = Inr (rs, rt')" and
    v: "\<And>p. p \<in> set [1, 2] \<Longrightarrow> (\<forall>i < 2. row_value i64_op (\<lambda>s. map_option (\<lambda>v. v ! i) (map_of ?kvs s)) ?e =
        Some (final_int64 (rs p) ! i)) \<and>
      saveModel int_fp (ars' p) (rs p) = Some (print ?e, Int64, map (fp_of_i64 int_fp) (final_int64 (rs p)))" by blast
  have "final_int64 (rs 1) ! 0 = 12" "final_int64 (rs 1) ! 1 = -30" "final_int64 (rs 2) ! 1 = -30"
    using v [of 1] v [of 2] by (simp_all add: row_value_def i64_op_def all_less_two)
  moreover have "saveModel int_fp (ars' 1) (rs 1) = Some (''A*(B-C)'', Int64, map (fp_of_i64 int_fp) (final_int64 (rs 1)))"
    using v [of 1] by simp
  ultimately show ?thesis using x by blast
qed

text \<open>
  C12. The parameters of a task survive their text form: from a message that lists columns with owners
  and types, an expression of at least four characters that does not begin with \<^verbatim>\<open>CMP\<close>, and the
  receivers, with names free of separators, \<^verbatim>\<open>loadParams\<close> returns at every party and leaves exactly
  these owners (as party ids), types, expression and receivers: the three parties have loaded the task.
\<close>

theorem params_round_trip:
  assumes "\<forall>p \<in> {0, 1, 2}. pc_party_id (config p) = p \<and> task_text e cols dts ws (pc_node_id (config p)) (task p) \<and>
      (\<forall>w \<in> snd ` set cols \<union> set ws. PartyName2PartyId (config p) w = Some (ids w))"
    and "names_ok cols dts ws" "4 \<le> length (print e)" "take 3 (print e) \<noteq> ''CMP''"
  shows "\<exists>ars :: nat \<Rightarrow> 'd ArithmeticExecutor.
    (\<forall>p \<in> {0, 1, 2}. loadParams (config p) path (g p) (g' p) (task p) (new_ArithmeticExecutor (config p)) = Inr (ars p)) \<and>
    task_loaded e (rev (map (\<lambda>(col, party). (col, word_of_nat (ids party))) cols)) (rev dts) (map ids ws) ars"
proof -
  let ?Q = "\<lambda>p (ar :: 'd ArithmeticExecutor).
    loadParams (config p) path (g p) (g' p) (task p) (new_ArithmeticExecutor (config p)) = Inr ar \<and>
    ar_party_id ar = p \<and> \<not> is_cmp ar \<and> ar_expr ar = print e \<and> mpc_exec ar = Some (new_MPCExpressExecutor (g p) (g' p)) \<and>
    col_and_owner ar = rev (map (\<lambda>(col, party). (col, word_of_nat (ids party))) cols) \<and> col_and_dtype ar = rev dts \<and>
    col_and_val_double ar = [] \<and> col_and_val_int ar = [] \<and> ar_parties ar = map ids ws"
  have "\<exists>ar. ?Q p ar" if "p \<in> {0, 1, 2}" for p
  proof -
    have c: "pc_party_id (config p) = p" "task_text e cols dts ws (pc_node_id (config p)) (task p)"
      "\<forall>w \<in> snd ` set cols \<union> set ws. PartyName2PartyId (config p) w = Some (ids w)"
      using bspec [OF assms(1) that] by blast+
    show ?thesis using loadParams_text [OF c(2) assms(2-4) c(3), of path "g p" "g' p"] unfolding c(1) .
  qed
  then have "\<forall>p \<in> {0, 1, 2}. \<exists>ar. ?Q p ar" by (rule ballI)
  from bchoice [OF this] obtain ars where ars: "\<forall>p \<in> {0, 1, 2}. ?Q p (ars p)" by (elim exE)
  have "task_loaded e (rev (map (\<lambda>(col, party). (col, word_of_nat (ids party))) cols)) (rev dts) (map ids ws) ars"
    unfolding task_loaded_def
  proof
    fix p :: nat assume "p \<in> {0, 1, 2}"
    from bspec [OF ars this] show "ar_party_id (ars p) = p \<and> \<not> is_cmp (ars p) \<and> ar_expr (ars p) = print e \<and>
        (\<exists>g g'. mpc_exec (ars p) = Some (new_MPCExpressExecutor g g')) \<and>
        col_and_owner (ars p) = rev (map (\<lambda>(col, party). (col, word_of_nat (ids party))) cols) \<and>
        col_and_dtype (ars p) = rev dts \<and> col_and_val_double (ars p) = [] \<and> col_and_val_int (ars p) = [] \<and>
        ar_parties (ars p) = map ids ws"
      by (intro conjI exI [of _ "g p"] exI [of _ "g' p"]) simp_all
  qed
  moreover have "\<forall>p \<in> {0, 1, 2}. loadParams (config p) path (g p) (g' p) (task p) (new_ArithmeticExecutor (config p)) = Inr (ars p)"
    using ars by simp
  ultimately show ?thesis by (intro exI [of _ ars] conjI)
qed

definition small_config :: "nat \<Rightarrow> PartyConfig" where
  "small_config p = \<lparr>pc_node_id = (if p = 0 then ''P0'' else if p = 1 then ''P1'' else ''P2''), pc_party_id = p, pc_task_id = [], pc_job_id = [],
     pc_request_id = [], node_id_map = [(0, ''P0''), (1, ''P1''), (2, ''P2'')], node_map = []\<rparr>"

definition small_message :: task_message where
  "small_message = \<lparr>tm_proxy = Some new_pb_node, tm_party_datasets = map (\<lambda>n. (n, \<lparr>pd_detail = False,
       pd_data = [(''Data_File'', ''f'')]\<rparr>)) [''P0'', ''P1'', ''P2''],
     tm_param_map = [(''Col_And_Owner'', ''A-P0;B-P2''), (''Col_And_Dtype'', ''A-0;B-1''), (''Expr'', ''(A+B)''),
       (''RevealToParties'', ''P1;P0'')]\<rparr>"

theorem params_round_trip_witness:
  "\<exists>ars :: nat \<Rightarrow> int ArithmeticExecutor.
    (\<forall>p \<in> {0, 1, 2}. loadParams (small_config p) ''/d'' True 9 small_message (new_ArithmeticExecutor (small_config p)) = Inr (ars p)) \<and>
    task_loaded (Paren (BinOp (CHR ''+'') (Leaf ''A'') (Leaf ''B''))) [(''B'', 2), (''A'', 0)] [(''B'', True), (''A'', False)] [1, 0] ars"
proof -
  let ?e = "Paren (BinOp (CHR ''+'') (Leaf ''A'') (Leaf ''B''))" and ?ids = "\<lambda>w. if w = ''P1'' then 1 else if w = ''P2'' then 2 else 0"
  let ?cols = "[(''A'', ''P0''), (''B'', ''P2'')]" and ?dts = "[(''A'', False), (''B'', True)]" and ?ws = "[''P1'', ''P0'']"
  have "\<forall>p \<in> {0, 1, 2}. pc_party_id (small_config p) = p \<and> task_text ?e ?cols ?dts ?ws (pc_node_id (small_config p)) small_message \<and>
      (\<forall>w \<in> snd ` set ?cols \<union> set ?ws. PartyName2PartyId (small_config p) w = Some (?ids w))"
    by (simp add: small_config_def small_message_def task_text_def param_def owners_text_def dtypes_text_def
        PartyName2PartyId_def)
  moreover have "names_ok ?cols ?dts ?ws" by (simp add: names_ok_def plain_name_def)
  ultimately show ?thesis
    using params_round_trip [of small_config ?e ?cols ?dts ?ws "\<lambda>_. small_message" ?ids "''/d''" "\<lambda>_. True" "\<lambda>_. 9"]
    by simp
qed

text \<open>
  Short expressions are refused: \<^verbatim>\<open>loadParams\<close> cuts the names of a comparison out of the expression,
  from its fifth character on, before it knows whether it is a comparison, so with fewer than four
  characters (\<^verbatim>\<open>A+B\<close>, say) it never returns successfully, whatever the rest of the task.
\<close>

theorem short_expression_rejected:
  assumes "length (param (tm_param_map task) ''Expr'') < 4"
  shows "\<exists>f. loadParams config path g g' task ar = Inl f"
proof -
  have "load_expr_text (param (tm_param_map task) ''Expr'') ar' = Inl (Raised ''basic_string::substr'')" for ar' :: "'a ArithmeticExecutor"
    using assms by (simp add: load_expr_text_def substr_from_def Let_def)
  then show ?thesis by (auto simp: loadParams_def catch_std_def bindR_def split: sum.splits failure.splits)
qed

theorem short_expression_rejected_witness:
  "\<exists>f. loadParams (small_config 0) ''/d'' True 9 (small_message\<lparr>tm_param_map := [(''Expr'', ''A+B'')]\<rparr>)
     (new_ArithmeticExecutor (small_config 0) :: int ArithmeticExecutor) = Inl f"
  by (rule short_expression_rejected) (simp add: param_def)

end
