(* ===== verification/Ts_Queue.thy ===== *)
theory Ts_Queue
  imports Prelude
begin

text \<open>
  \<^verbatim>\<open>ThreadSafeQueue\<close> of \<^verbatim>\<open>util/threadsafe_queue.h\<close>. The operations on the data (the queue and the stop flag)
  are functions; the threads that call them are a step relation with the mutex and the condition
  variable. Between two acquisitions of the mutex a thread's accesses to the queue are one step; the
  stop flag is an atomic variable that is written without the mutex.
\<close>

section \<open>Data\<close>

record 'a tsq =
  m_queue :: "'a list"
  stop_flag :: bool

definition new_tsq :: "'a tsq" where
  "new_tsq = \<lparr>m_queue = [], stop_flag = False\<rparr>"

definition q_emplace :: "'a \<Rightarrow> 'a tsq \<Rightarrow> 'a tsq" where
  "q_emplace item q = q\<lparr>m_queue := m_queue q @ [item]\<rparr>"

definition q_empty :: "'a tsq \<Rightarrow> bool" where
  "q_empty q = (m_queue q = [])"

definition q_try_pop :: "'a tsq \<Rightarrow> 'a option \<times> 'a tsq" where
  "q_try_pop q = (case m_queue q of [] \<Rightarrow> (None, q) | x # xs \<Rightarrow> (Some x, q\<lparr>m_queue := xs\<rparr>))"

text \<open>The predicate \<^verbatim>\<open>wait_and_pop\<close> and \<^verbatim>\<open>pop\<close> wait for, and what they do once it holds: \<open>None\<close> when stopped.\<close>

definition q_ready :: "'a tsq \<Rightarrow> bool" where
  "q_ready q = (stop_flag q \<or> m_queue q \<noteq> [])"

definition q_take :: "'a tsq \<Rightarrow> ('a option \<times> 'a tsq) res" where
  "q_take q =
     (if stop_flag q then Inr (None, q)
      else case m_queue q of
        [] \<Rightarrow> Inl (Undefined ''front of an empty queue'')
      | x # xs \<Rightarrow> Inr (Some x, q\<lparr>m_queue := xs\<rparr>))"

definition q_shutdown :: "'a tsq \<Rightarrow> 'a tsq" where
  "q_shutdown q = q\<lparr>stop_flag := True\<rparr>"

section \<open>Threads\<close>

text \<open>
  Where a thread is: outside the queue, before the critical section of \<^verbatim>\<open>emplace\<close>, before \<^verbatim>\<open>notify_one\<close>,
  about to take the mutex in \<^verbatim>\<open>wait_and_pop\<close> (at its start or when woken), and, holding it, before the
  test, between a failed test and going to sleep, or between a successful test and its end.
\<close>

datatype 'a pc = Idle | Emplacing 'a | Notifying | Locking | Testing | Dozing | Taking | Sleeping

record 'a system =
  sys_data :: "'a tsq"
  m_mutex :: "nat option"
  pcs :: "nat \<Rightarrow> 'a pc"

definition new_system :: "'a system" where
  "new_system = \<lparr>sys_data = new_tsq, m_mutex = None, pcs = \<lambda>_. Idle\<rparr>"

datatype 'a label = Tau | Pushed 'a | Popped 'a

definition move :: "nat \<Rightarrow> 'a pc \<Rightarrow> 'a system \<Rightarrow> 'a system" where
  "move t c s = s\<lparr>pcs := (pcs s)(t := c)\<rparr>"

text \<open>
  One step of thread \<open>t\<close>. With \<open>spurious\<close>, a sleeping thread may wake up on its own, as condition
  variables allow.
\<close>

inductive step :: "bool \<Rightarrow> 'a system \<Rightarrow> nat \<Rightarrow> 'a label \<Rightarrow> 'a system \<Rightarrow> bool" for spurious where
  emplace_start: "pcs s t = Idle \<Longrightarrow> step spurious s t Tau (move t (Emplacing v) s)"
| emplace_push: "pcs s t = Emplacing v \<Longrightarrow> m_mutex s = None \<Longrightarrow>
    step spurious s t (Pushed v) (move t Notifying (s\<lparr>sys_data := q_emplace v (sys_data s)\<rparr>))"
| notify_nobody: "pcs s t = Notifying \<Longrightarrow> \<forall>u. pcs s u \<noteq> Sleeping \<Longrightarrow> step spurious s t Tau (move t Idle s)"
| notify_one: "pcs s t = Notifying \<Longrightarrow> pcs s u = Sleeping \<Longrightarrow> step spurious s t Tau (move t Idle (move u Locking s))"
| try_pop: "pcs s t = Idle \<Longrightarrow> m_mutex s = None \<Longrightarrow> q_try_pop (sys_data s) = (r, q) \<Longrightarrow>
    step spurious s t (case r of None \<Rightarrow> Tau | Some v \<Rightarrow> Popped v) (s\<lparr>sys_data := q\<rparr>)"
| wait_start: "pcs s t = Idle \<Longrightarrow> step spurious s t Tau (move t Locking s)"
| wait_lock: "pcs s t = Locking \<Longrightarrow> m_mutex s = None \<Longrightarrow> step spurious s t Tau (move t Testing (s\<lparr>m_mutex := Some t\<rparr>))"
| wait_ready: "pcs s t = Testing \<Longrightarrow> q_ready (sys_data s) \<Longrightarrow> step spurious s t Tau (move t Taking s)"
| wait_test: "pcs s t = Testing \<Longrightarrow> \<not> q_ready (sys_data s) \<Longrightarrow> step spurious s t Tau (move t Dozing s)"
| wait_sleep: "pcs s t = Dozing \<Longrightarrow> step spurious s t Tau (move t Sleeping (s\<lparr>m_mutex := None\<rparr>))"
| wait_take: "pcs s t = Taking \<Longrightarrow> q_take (sys_data s) = Inr (r, q) \<Longrightarrow>
    step spurious s t (case r of None \<Rightarrow> Tau | Some v \<Rightarrow> Popped v) (move t Idle (s\<lparr>sys_data := q, m_mutex := None\<rparr>))"
| wake_up: "spurious \<Longrightarrow> pcs s t = Sleeping \<Longrightarrow> step spurious s t Tau (move t Locking s)"
| shutdown_store: "pcs s t = Idle \<Longrightarrow> step spurious s t Tau (move t Notifying (s\<lparr>sys_data := q_shutdown (sys_data s)\<rparr>))"

inductive_cases step_cases: "step spurious s t l s'"

text \<open>Runs, with the values pushed and popped in their order.\<close>

inductive run :: "bool \<Rightarrow> 'a system \<Rightarrow> 'a list \<Rightarrow> 'a list \<Rightarrow> 'a system \<Rightarrow> bool" for spurious where
  run_nil: "run spurious s [] [] s"
| run_tau: "run spurious s ins outs s1 \<Longrightarrow> step spurious s1 t Tau s2 \<Longrightarrow> run spurious s ins outs s2"
| run_push: "run spurious s ins outs s1 \<Longrightarrow> step spurious s1 t (Pushed v) s2 \<Longrightarrow> run spurious s (ins @ [v]) outs s2"
| run_pop: "run spurious s ins outs s1 \<Longrightarrow> step spurious s1 t (Popped v) s2 \<Longrightarrow> run spurious s ins (outs @ [v]) s2"

section \<open>The atomic queue\<close>

text \<open>
  The contract: an atomic first-in first-out queue with a stop flag. A step of the threaded queue
  either leaves the abstract queue alone (\<open>Tau\<close>, possibly raising the flag) or is one operation on it.
\<close>

definition atomic_step :: "'a label \<Rightarrow> 'a tsq \<Rightarrow> 'a tsq \<Rightarrow> bool" where
  "atomic_step l q q' =
     (case l of
        Tau \<Rightarrow> m_queue q' = m_queue q \<and> (stop_flag q \<longrightarrow> stop_flag q')
      | Pushed v \<Rightarrow> q' = q_emplace v q
      | Popped v \<Rightarrow> q_try_pop q = (Some v, q'))"

lemma step_refines: "step spurious s t l s' \<Longrightarrow> atomic_step l (sys_data s) (sys_data s')"
  by (erule step_cases)
     (auto simp: atomic_step_def move_def q_emplace_def q_shutdown_def q_try_pop_def q_take_def
       split: option.splits list.splits if_splits)

lemma try_pop_front: "q_try_pop q = (Some v, q') \<Longrightarrow> m_queue q = v # m_queue q'"
  by (cases "m_queue q") (auto simp: q_try_pop_def)

lemma run_fifo: "run spurious s ins outs s' \<Longrightarrow> m_queue (sys_data s) @ ins = outs @ m_queue (sys_data s')"
proof (induction rule: run.induct)
  case (run_tau s ins outs s1 t s2)
  then show ?case using step_refines [OF run_tau.hyps(2)] by (simp add: atomic_step_def)
next
  case (run_push s ins outs s1 t v s2)
  then show ?case using step_refines [OF run_push.hyps(2)] by (simp add: atomic_step_def q_emplace_def)
next
  case (run_pop s ins outs s1 t v s2)
  then show ?case using step_refines [OF run_pop.hyps(2)]
    by (auto simp: atomic_step_def dest: try_pop_front)
qed simp

section \<open>Invariants\<close>

definition holding :: "'a pc \<Rightarrow> bool" where
  "holding c \<longleftrightarrow> c = Testing \<or> c = Dozing \<or> c = Taking"

text \<open>Threads that will take an item, test again or wake another thread.\<close>

definition stirring :: "'a pc \<Rightarrow> bool" where
  "stirring c \<longleftrightarrow> c = Notifying \<or> c = Locking \<or> c = Testing \<or> c = Taking"

definition stirring_set :: "'a system \<Rightarrow> nat set" where
  "stirring_set s = {t. stirring (pcs s t)}"

text \<open>
  The mutex is held exactly by the thread inside the critical section; a thread about to sleep has
  seen an empty queue and nobody can have changed it; a thread about to take has an item or is
  stopped; and, unless the queue was shut down, when threads sleep there is a stirring thread for
  every item.
\<close>

definition lock_inv :: "'a system \<Rightarrow> bool" where
  "lock_inv s \<longleftrightarrow> (\<forall>t. m_mutex s = Some t \<longleftrightarrow> holding (pcs s t))"

definition data_inv :: "'a system \<Rightarrow> bool" where
  "data_inv s \<longleftrightarrow> (\<forall>t. (pcs s t = Dozing \<longrightarrow> m_queue (sys_data s) = []) \<and> (pcs s t = Taking \<longrightarrow> q_ready (sys_data s)))"

definition wake_inv :: "'a system \<Rightarrow> bool" where
  "wake_inv s \<longleftrightarrow> finite (stirring_set s) \<and>
     (stop_flag (sys_data s) \<or> (\<forall>t. pcs s t \<noteq> Sleeping) \<or> length (m_queue (sys_data s)) \<le> card (stirring_set s))"

lemma move_simps [simp]:
  "sys_data (move t c s) = sys_data s" "m_mutex (move t c s) = m_mutex s" "pcs (move t c s) = (pcs s)(t := c)"
  by (simp_all add: move_def)

lemma q_take_cases:
  "q_take q = Inr (r, q') \<Longrightarrow> (stop_flag q \<and> r = None \<and> q' = q) \<or>
     (\<not> stop_flag q \<and> (\<exists>v. r = Some v \<and> m_queue q = v # m_queue q' \<and> \<not> stop_flag q'))"
  by (auto simp: q_take_def split: if_splits list.splits)

lemma q_try_pop_cases:
  "q_try_pop q = (r, q') \<Longrightarrow> stop_flag q' = stop_flag q \<and>
     (r = None \<and> q' = q \<and> m_queue q = [] \<or> (\<exists>v. r = Some v \<and> m_queue q = v # m_queue q'))"
  by (auto simp: q_try_pop_def split: list.splits)

lemma holding_simps [simp]:
  "holding Testing" "holding Dozing" "holding Taking" "\<not> holding Idle" "\<not> holding (Emplacing v)"
  "\<not> holding Notifying" "\<not> holding Locking" "\<not> holding Sleeping"
  by (simp_all add: holding_def)

lemma holder_unique: "lock_inv s \<Longrightarrow> holding (pcs s t) \<Longrightarrow> holding (pcs s u) \<Longrightarrow> u = t"
  unfolding lock_inv_def by (metis option.inject)

lemma nobody_holds: "lock_inv s \<Longrightarrow> m_mutex s = None \<Longrightarrow> \<not> holding (pcs s u)"
  by (simp add: lock_inv_def)

lemma q_ready_take: "q_ready q \<Longrightarrow> \<exists>r. q_take q = Inr r"
  by (cases "m_queue q") (simp_all add: q_ready_def q_take_def)

lemma lock_inv_step:
  assumes "step spurious s t l s'" "lock_inv s"
  shows "lock_inv s'"
  using assms(1)
proof (cases rule: step.cases)
  case wait_sleep
  then show ?thesis using holder_unique [OF assms(2), of t] by (auto simp: lock_inv_def)
next
  case (wait_take r q)
  then show ?thesis using holder_unique [OF assms(2), of t] by (auto simp: lock_inv_def)
qed (use assms(2) in \<open>auto simp: lock_inv_def\<close>)

lemma data_inv_step:
  assumes "step spurious s t l s'" "lock_inv s" "data_inv s"
  shows "data_inv s'"
  using assms(1)
proof (cases rule: step.cases)
  case (emplace_push v)
  then have "pcs s u \<noteq> Dozing \<and> pcs s u \<noteq> Taking" for u using nobody_holds [OF assms(2), of u] by auto
  then show ?thesis using emplace_push by (auto simp: data_inv_def)
next
  case (try_pop r q)
  then have "pcs s u \<noteq> Dozing \<and> pcs s u \<noteq> Taking" for u using nobody_holds [OF assms(2), of u] by auto
  then show ?thesis using try_pop by (auto simp: data_inv_def)
next
  case (wait_take r q)
  then have "pcs s' u \<noteq> Dozing \<and> pcs s' u \<noteq> Taking" for u
    using holder_unique [OF assms(2), of t u] by (cases "u = t") auto
  then show ?thesis by (simp add: data_inv_def)
qed (use assms(3) in \<open>auto simp: data_inv_def q_ready_def q_shutdown_def split: if_splits\<close>)

text \<open>How a move changes the set of stirring threads.\<close>

lemma stirring_move:
  "stirring_set (move t c s) = (if stirring c then insert t (stirring_set s) else stirring_set s - {t})"
  by (auto simp: stirring_set_def)

lemma stirring_update [simp]:
  "stirring_set (s\<lparr>sys_data := q\<rparr>) = stirring_set s" "stirring_set (s\<lparr>m_mutex := m\<rparr>) = stirring_set s"
  by (simp_all add: stirring_set_def)

lemma stirring_simps [simp]:
  "stirring Notifying" "stirring Locking" "stirring Testing" "stirring Taking" "\<not> stirring Idle"
  "\<not> stirring (Emplacing v)" "\<not> stirring Dozing" "\<not> stirring Sleeping"
  by (simp_all add: stirring_def)

lemma mem_stirring [simp]: "t \<in> stirring_set s \<longleftrightarrow> stirring (pcs s t)"
  by (simp add: stirring_set_def)

lemma wake_inv_step:
  assumes "step spurious s t l s'" "data_inv s" "wake_inv s"
  shows "wake_inv s'"
proof (cases "stop_flag (sys_data s')")
  case True
  have "finite (stirring_set s')" using assms(1,3)
    by (cases rule: step.cases) (auto simp: wake_inv_def stirring_move)
  then show ?thesis using True by (simp add: wake_inv_def)
next
  case False
  show ?thesis using assms(1)
  proof (cases rule: step.cases)
    case (emplace_push v)
    then have "t \<notin> stirring_set s" by simp
    then show ?thesis using emplace_push assms(3) False
      by (auto simp: wake_inv_def stirring_move q_emplace_def)
  next
    case (notify_one u)
    then have u: "u \<notin> stirring_set s" "t \<in> stirring_set s" "u \<noteq> t" by auto
    then have "card (insert u (stirring_set s) - {t}) = card (stirring_set s)"
      using assms(3) by (simp add: wake_inv_def card_Diff_singleton card_gt_0_iff)
    then show ?thesis using notify_one u assms(3) False
      by (auto simp: wake_inv_def stirring_move split: if_splits)
  next
    case (wait_take r q)
    then have "card (stirring_set s - {t}) = card (stirring_set s) - 1" by (simp add: card_Diff_singleton)
    then show ?thesis using wait_take assms(3) False q_take_cases [OF wait_take(4)]
      by (auto simp: wake_inv_def stirring_move split: if_splits)
  next
    case (try_pop r q)
    then show ?thesis using assms(3) False q_try_pop_cases [OF try_pop(5)]
      by (auto simp: wake_inv_def)
  next
    case wait_sleep
    then have "m_queue (sys_data s) = []" using assms(2) by (simp add: data_inv_def)
    then show ?thesis using wait_sleep assms(3) by (auto simp: wake_inv_def stirring_move)
  next
    case wait_test
    then have "m_queue (sys_data s) = []" by (simp add: q_ready_def)
    then show ?thesis using wait_test assms(3) by (auto simp: wake_inv_def stirring_move)
  qed (use assms(3) False in \<open>auto simp: wake_inv_def stirring_move insert_absorb q_shutdown_def split: if_splits\<close>)
qed

definition queue_inv :: "'a system \<Rightarrow> bool" where
  "queue_inv s \<longleftrightarrow> lock_inv s \<and> data_inv s \<and> wake_inv s"

lemma queue_inv_new: "queue_inv new_system"
  by (simp add: queue_inv_def new_system_def lock_inv_def data_inv_def wake_inv_def stirring_set_def)

lemma queue_inv_step: "step spurious s t l s' \<Longrightarrow> queue_inv s \<Longrightarrow> queue_inv s'"
  using lock_inv_step data_inv_step wake_inv_step unfolding queue_inv_def by blast

lemma run_inv: "run spurious s ins outs s' \<Longrightarrow> queue_inv s \<Longrightarrow> queue_inv s'"
  by (induction rule: run.induct) (auto intro: queue_inv_step)

section \<open>Calls run to an end\<close>

text \<open>Steps of threads that are inside a call, without spurious wake-ups.\<close>

definition call_step :: "'a system \<Rightarrow> 'a system \<Rightarrow> bool" where
  "call_step s s' \<longleftrightarrow> (\<exists>t l. pcs s t \<noteq> Idle \<and> step False s t l s')"

text \<open>How many such steps a thread can cause; waking another one counts for the thread that notifies.\<close>

definition steps_left :: "'a pc \<Rightarrow> nat" where
  "steps_left c = (case c of Idle \<Rightarrow> 0 | Sleeping \<Rightarrow> 0 | Dozing \<Rightarrow> 1 | Taking \<Rightarrow> 1 | Testing \<Rightarrow> 2 | Locking \<Rightarrow> 3 | Notifying \<Rightarrow> 4 | Emplacing v \<Rightarrow> 5)"

definition busy :: "'a system \<Rightarrow> nat set" where
  "busy s = {t. 0 < steps_left (pcs s t)}"

definition call_weight :: "'a system \<Rightarrow> nat" where
  "call_weight s = (\<Sum>t \<in> busy s. steps_left (pcs s t))"

lemma steps_left_simps [simp]:
  "steps_left Idle = 0" "steps_left Sleeping = 0" "steps_left Dozing = 1" "steps_left Taking = 1" "steps_left Testing = 2"
  "steps_left Locking = 3" "steps_left Notifying = 4" "steps_left (Emplacing v) = 5"
  by (simp_all add: steps_left_def)

lemma steps_left_0: "steps_left c = 0 \<longleftrightarrow> c = Idle \<or> c = Sleeping"
  by (cases c) simp_all

lemma busy_update [simp]: "busy (s\<lparr>sys_data := q\<rparr>) = busy s" "busy (s\<lparr>m_mutex := m\<rparr>) = busy s"
  "call_weight (s\<lparr>sys_data := q\<rparr>) = call_weight s" "call_weight (s\<lparr>m_mutex := m\<rparr>) = call_weight s"
  by (simp_all add: busy_def call_weight_def)

lemma busy_move: "finite (busy s) \<Longrightarrow> finite (busy (move t c s))"
  by (rule finite_subset [of _ "insert t (busy s)"]) (auto simp: busy_def split: if_splits)

lemma weight_over: "finite A \<Longrightarrow> busy s \<subseteq> A \<Longrightarrow> call_weight s = (\<Sum>t \<in> A. steps_left (pcs s t))"
  unfolding call_weight_def by (rule sum.mono_neutral_left) (auto simp: busy_def)

lemma weight_move:
  assumes "finite (busy s)"
  shows "call_weight (move t c s) + steps_left (pcs s t) = call_weight s + steps_left c"
proof -
  let ?A = "insert t (busy s)"
  have "busy (move t c s) \<subseteq> ?A" by (auto simp: busy_def split: if_splits)
  then have m: "call_weight (move t c s) = (\<Sum>u \<in> ?A. steps_left (pcs (move t c s) u))" using assms by (intro weight_over) auto
  have "(\<Sum>u \<in> ?A - {t}. steps_left (pcs (move t c s) u)) = (\<Sum>u \<in> ?A - {t}. steps_left (pcs s u))" by (intro sum.cong) auto
  moreover have "call_weight s = (\<Sum>u \<in> ?A. steps_left (pcs s u))" using assms by (intro weight_over) auto
  ultimately show ?thesis
    using m assms sum.remove [of ?A t "\<lambda>u. steps_left (pcs (move t c s) u)"] sum.remove [of ?A t "\<lambda>u. steps_left (pcs s u)"]
    by auto
qed

lemma weight_less:
  "finite (busy s0) \<Longrightarrow> call_weight s0 = call_weight s \<Longrightarrow> steps_left c < steps_left (pcs s0 t) \<Longrightarrow> call_weight (move t c s0) < call_weight s"
  using weight_move [of s0 t c] by linarith

lemma step_busy: "step spurious s t l s' \<Longrightarrow> finite (busy s) \<Longrightarrow> finite (busy s')"
  by (erule step_cases) (auto intro!: busy_move)

lemma run_busy: "run spurious s ins outs s' \<Longrightarrow> finite (busy s) \<Longrightarrow> finite (busy s')"
  by (induction rule: run.induct) (auto intro: step_busy)

lemma call_step_weight:
  assumes "call_step s s'" "finite (busy s)"
  shows "call_weight s' < call_weight s"
proof -
  obtain t l where "pcs s t \<noteq> Idle" "step False s t l s'" using assms(1) by (auto simp: call_step_def)
  from this(2) show ?thesis
  proof (cases rule: step.cases)
    case (notify_one u)
    then show ?thesis using weight_move [OF assms(2), of u Locking] weight_move [OF busy_move [OF assms(2), of u Locking], of t Idle]
      by (auto split: if_splits)
  qed (use \<open>pcs s t \<noteq> Idle\<close> assms(2) in \<open>auto intro!: weight_less simp del: move_simps\<close>)
qed

lemma call_step_keeps: "call_step s s' \<Longrightarrow> queue_inv s \<and> finite (busy s) \<Longrightarrow> queue_inv s' \<and> finite (busy s')"
  using queue_inv_step step_busy by (auto simp: call_step_def)

lemma call_steps:
  "(call_step ^^ k) s s' \<Longrightarrow> queue_inv s \<and> finite (busy s) \<Longrightarrow> queue_inv s' \<and> finite (busy s') \<and> k + call_weight s' \<le> call_weight s"
proof (induction k arbitrary: s')
  case (Suc k)
  then obtain s1 where s1: "(call_step ^^ k) s s1" "call_step s1 s'" by auto
  with Suc have "queue_inv s1 \<and> finite (busy s1) \<and> k + call_weight s1 \<le> call_weight s" by blast
  then show ?case using call_step_keeps [OF s1(2)] call_step_weight [OF s1(2)] by auto
qed simp

text \<open>A thread inside a call that does not sleep can go on, or the holder of the mutex can.\<close>

lemma holder_steps:
  assumes "queue_inv s" "holding (pcs s u)"
  shows "\<exists>s'. call_step s s'"
proof -
  have n: "pcs s u \<noteq> Idle" using assms(2) by auto
  consider "pcs s u = Testing" | "pcs s u = Dozing" | "pcs s u = Taking" using assms(2) by (auto simp: holding_def)
  then have "\<exists>l s'. step False s u l s'"
  proof cases
    case 3
    then have "q_ready (sys_data s)" using assms(1) by (simp add: queue_inv_def data_inv_def)
    then obtain r where "q_take (sys_data s) = Inr r" using q_ready_take by blast
    then show ?thesis using wait_take [OF 3] by (cases r) blast
  qed (use wait_ready wait_test wait_sleep in blast)+
  then show ?thesis using n by (auto simp: call_step_def)
qed

lemma call_progress:
  assumes "queue_inv s" "pcs s t \<noteq> Idle" "pcs s t \<noteq> Sleeping"
  shows "\<exists>s'. call_step s s'"
proof (cases "m_mutex s")
  case None
  show ?thesis
  proof (cases "pcs s t")
    case (Emplacing v)
    then show ?thesis using emplace_push [OF Emplacing None] by (force simp: call_step_def)
  next
    case Notifying
    then show ?thesis using notify_nobody [OF Notifying] notify_one [OF Notifying] by (force simp: call_step_def)
  next
    case Locking
    then show ?thesis using wait_lock [OF Locking None] by (force simp: call_step_def)
  qed (use assms holder_steps [of s t] in auto)
next
  case (Some u)
  then have "holding (pcs s u)" using assms(1) unfolding queue_inv_def lock_inv_def by blast
  then show ?thesis by (rule holder_steps [OF assms(1)])
qed

section \<open>Properties\<close>

text \<open>
  C33. The queue is an atomic first-in first-out queue under every interleaving of any number of
  threads, with or without spurious wake-ups: what was popped so far, followed by what is queued, is
  what was pushed, in the order of the pushes; at most one thread is in the critical section of
  \<^verbatim>\<open>wait_and_pop\<close>; and a thread about to take an item never finds the queue empty.
\<close>

theorem queue_fifo:
  assumes "run spurious new_system ins outs s"
  shows "ins = outs @ m_queue (sys_data s) \<and>
    (\<forall>t u. holding (pcs s t) \<longrightarrow> holding (pcs s u) \<longrightarrow> u = t) \<and>
    (\<forall>t. pcs s t = Taking \<longrightarrow> (\<exists>r. q_take (sys_data s) = Inr r))"
proof (intro conjI allI impI)
  have inv: "lock_inv s" "data_inv s" using run_inv [OF assms queue_inv_new] by (simp_all add: queue_inv_def)
  show "ins = outs @ m_queue (sys_data s)" using run_fifo [OF assms] by (simp add: new_system_def new_tsq_def)
  show "u = t" if "holding (pcs s t)" "holding (pcs s u)" for t u using holder_unique [OF inv(1) that] .
  show "\<exists>r. q_take (sys_data s) = Inr r" if "pcs s t = Taking" for t
    using inv(2) that q_ready_take by (auto simp: data_inv_def)
qed

text \<open>Whole calls without interference.\<close>

lemma run_sleep:
  assumes "run spurious s0 ins outs s" "pcs s t = Idle" "m_mutex s = None" "\<not> q_ready (sys_data s)"
  shows "run spurious s0 ins outs (move t Sleeping s)"
proof -
  let ?s2 = "move t Testing ((move t Locking s)\<lparr>m_mutex := Some t\<rparr>)"
  have "run spurious s0 ins outs (move t Locking s)" by (rule run_tau [OF assms(1) wait_start]) (rule assms(2))
  then have "run spurious s0 ins outs ?s2" by (rule run_tau [OF _ wait_lock]) (simp_all add: assms(3))
  then have "run spurious s0 ins outs (move t Dozing ?s2)" by (rule run_tau [OF _ wait_test]) (simp_all add: assms(4))
  then have "run spurious s0 ins outs (move t Sleeping ((move t Dozing ?s2)\<lparr>m_mutex := None\<rparr>))"
    by (rule run_tau [OF _ wait_sleep]) simp
  moreover have "move t Sleeping ((move t Dozing ?s2)\<lparr>m_mutex := None\<rparr>) = move t Sleeping s"
    using assms(3) by (cases s) (simp add: move_def)
  ultimately show ?thesis by simp
qed

lemma run_emplace:
  assumes "run spurious s0 ins outs s" "pcs s t = Idle" "m_mutex s = None" "pcs s u = Sleeping"
  shows "run spurious s0 (ins @ [v]) outs (move t Idle (move u Locking (s\<lparr>sys_data := q_emplace v (sys_data s)\<rparr>)))"
proof -
  let ?s1 = "move t (Emplacing v) s"
  let ?s2 = "move t Notifying (?s1\<lparr>sys_data := q_emplace v (sys_data s)\<rparr>)"
  have tu: "t \<noteq> u" using assms(2,4) by auto
  have "run spurious s0 ins outs ?s1" by (rule run_tau [OF assms(1) emplace_start]) (rule assms(2))
  then have "run spurious s0 (ins @ [v]) outs (move t Notifying (?s1\<lparr>sys_data := q_emplace v (sys_data ?s1)\<rparr>))"
    by (rule run_push [OF _ emplace_push]) (simp_all add: assms(3))
  then have "run spurious s0 (ins @ [v]) outs ?s2" by simp
  then have "run spurious s0 (ins @ [v]) outs (move t Idle (move u Locking ?s2))"
    by (rule run_tau [OF _ notify_one]) (use tu assms(4) in \<open>simp_all add: move_def\<close>)
  moreover have "move t Idle (move u Locking ?s2) = move t Idle (move u Locking (s\<lparr>sys_data := q_emplace v (sys_data s)\<rparr>))"
    using tu by (cases s) (simp add: move_def fun_upd_twist)
  ultimately show ?thesis by simp
qed

text \<open>Threads 1 and 2 wait, thread 0 pushes 5 and wakes thread 1.\<close>

lemma small_run:
  "\<exists>s. run False new_system [5 :: int] [] s \<and> pcs s = (\<lambda>_. Idle)(1 := Locking, 2 := Sleeping) \<and> sys_data s = q_emplace 5 new_tsq \<and> m_mutex s = None"
proof -
  let ?s1 = "move 1 Sleeping new_system :: int system"
  let ?s2 = "move 2 Sleeping ?s1"
  note d = new_system_def new_tsq_def q_ready_def
  have "run False new_system [] [] ?s1" by (rule run_sleep [OF run_nil]) (simp_all add: d)
  then have "run False new_system [] [] ?s2" by (rule run_sleep) (simp_all add: d)
  then have "run False new_system ([] @ [5]) [] (move 0 Idle (move 1 Locking (?s2\<lparr>sys_data := q_emplace 5 (sys_data ?s2)\<rparr>)))"
    (is "run _ _ _ _ ?s") by (rule run_emplace) (simp_all add: d)
  moreover have "pcs ?s = (\<lambda>_. Idle)(1 := Locking, 2 := Sleeping)" "sys_data ?s = q_emplace 5 new_tsq" "m_mutex ?s = None"
    by (simp_all add: new_system_def fun_eq_iff)
  ultimately show ?thesis by (intro exI [of _ ?s]) simp
qed

theorem queue_fifo_witness:
  "\<exists>s. run False new_system [5 :: int] [] s \<and> [5] = [] @ m_queue (sys_data s) \<and> pcs s 1 = Locking"
proof -
  obtain s where s: "run False new_system [5 :: int] [] s" "pcs s = (\<lambda>_. Idle)(1 := Locking, 2 := Sleeping)" using small_run by blast
  from queue_fifo [OF s(1)] s show ?thesis by (intro exI [of _ s]) simp
qed

text \<open>
  C34. No wake-up is lost between producers and consumers. Let the calls that are under way in any reachable state run
  on their own, without new calls and without spurious wake-ups, in any order: they come to rest after a bounded number of steps.
  At rest every thread has left its call or sleeps in \<^verbatim>\<open>wait_and_pop\<close>, and, unless the queue was shut down, no thread sleeps while an
  item is queued.
\<close>

theorem no_lost_wakeup:
  assumes "run spurious new_system ins outs s" "(call_step ^^ k) s s'"
  shows "k \<le> call_weight s \<and>
    ((\<nexists>s''. call_step s' s'') \<longrightarrow> (\<forall>t. pcs s' t = Idle \<or> pcs s' t = Sleeping) \<and>
      (\<not> stop_flag (sys_data s') \<longrightarrow> (\<exists>t. pcs s' t = Sleeping) \<longrightarrow> m_queue (sys_data s') = []))"
proof -
  have "finite (busy (new_system :: 'a system))" by (simp add: busy_def new_system_def)
  then have "queue_inv s \<and> finite (busy s)" using run_inv [OF assms(1) queue_inv_new] run_busy [OF assms(1)] by simp
  then have inv: "queue_inv s'" "k + call_weight s' \<le> call_weight s" using call_steps [OF assms(2)] by blast+
  have "(\<forall>t. pcs s' t = Idle \<or> pcs s' t = Sleeping) \<and>
      (\<not> stop_flag (sys_data s') \<longrightarrow> (\<exists>t. pcs s' t = Sleeping) \<longrightarrow> m_queue (sys_data s') = [])" if rest: "\<nexists>s''. call_step s' s''"
  proof -
    have quiet: "pcs s' t = Idle \<or> pcs s' t = Sleeping" for t using call_progress [OF inv(1), of t] rest by blast
    then have "stirring_set s' = {}" by (auto simp: stirring_set_def stirring_def) (metis pc.distinct)+
    then show ?thesis using quiet inv(1) by (auto simp: queue_inv_def wake_inv_def)
  qed
  then show ?thesis using inv(2) by auto
qed

text \<open>Threads 1 and 2 wait, thread 0 has pushed 5: thread 1, once woken, takes it, and thread 2 sleeps at an empty queue.\<close>

theorem no_lost_wakeup_witness:
  "\<exists>s s'. run False new_system [5 :: int] [] s \<and> (call_step ^^ 3) s s' \<and> (\<nexists>s''. call_step s' s'') \<and>
    pcs s' 2 = Sleeping \<and> m_queue (sys_data s') = []"
proof -
  obtain s where s: "run False new_system [5 :: int] [] s" "pcs s = (\<lambda>_. Idle)(1 := Locking, 2 := Sleeping)"
    "sys_data s = q_emplace 5 new_tsq" "m_mutex s = None" using small_run by blast
  let ?s1 = "move 1 Testing (s\<lparr>m_mutex := Some 1\<rparr>)"
  let ?s2 = "move 1 Taking ?s1"
  let ?s3 = "move 1 Idle (?s2\<lparr>sys_data := new_tsq, m_mutex := None\<rparr>)"
  have q: "q_ready (sys_data ?s1)" "q_take (sys_data ?s2) = Inr (Some 5, new_tsq)"
    using s(3) by (simp_all add: q_ready_def q_take_def q_emplace_def new_tsq_def)
  have "step False s 1 Tau ?s1" by (rule wait_lock) (simp_all add: s)
  then have 1: "call_step s ?s1" unfolding call_step_def by (intro exI [of _ 1] exI [of _ Tau]) (simp add: s(2))
  have "step False ?s1 1 Tau ?s2" by (rule wait_ready [OF _ q(1)]) simp
  then have 2: "call_step ?s1 ?s2" unfolding call_step_def by (intro exI [of _ 1] exI [of _ Tau]) simp
  have "step False ?s2 1 (Popped 5) ?s3" using wait_take [OF _ q(2), of 1 False] by simp
  then have 3: "call_step ?s2 ?s3" unfolding call_step_def by (intro exI [of _ 1] exI [of _ "Popped 5"]) simp
  have run: "(call_step ^^ 3) s ?s3" unfolding numeral_3_eq_3 using 1 2 3 by (meson relpowp_0_I relpowp_Suc_I)
  have p: "pcs ?s3 = (\<lambda>_. Idle)(2 := Sleeping)" using s(2) by (simp add: fun_eq_iff)
  then have "\<not> step False ?s3 2 l s''" for l s'' by (auto elim!: step_cases simp del: move_simps)
  then have rest: "\<nexists>s''. call_step ?s3 s''" using p by (auto simp: call_step_def split: if_splits)
  have "\<not> stop_flag (sys_data ?s3)" by (simp add: new_tsq_def)
  moreover have "\<exists>t. pcs ?s3 t = Sleeping" unfolding p by auto
  ultimately have "m_queue (sys_data ?s3) = []" using no_lost_wakeup [OF s(1) run] rest by blast
  then show ?thesis using s(1) run rest p by (intro exI [of _ s] exI [of _ ?s3]) (auto simp del: move_simps)
qed

text \<open>
  \<^verbatim>\<open>shutdown\<close> can leave a waiting thread behind: it writes the flag without the mutex, so the flag may
  change between the test of a thread and its falling asleep; the notification then reaches nobody,
  and the thread sleeps although the queue is stopped, every other thread is idle, and no step of its
  own is left (a spurious wake-up apart).
\<close>

theorem shutdown_strands_waiter:
  "\<exists>s :: 'a system. run False new_system [] [] s \<and> stop_flag (sys_data s) \<and>
    pcs s = (\<lambda>_. Idle)(1 := Sleeping) \<and> (\<forall>l s'. \<not> step False s 1 l s')"
proof -
  let ?s2 = "move 1 Testing ((move 1 Locking new_system)\<lparr>m_mutex := Some 1\<rparr>) :: 'a system"
  let ?s3 = "move 1 Dozing ?s2"
  let ?s4 = "move 0 Notifying (?s3\<lparr>sys_data := q_shutdown (sys_data ?s3)\<rparr>)"
  let ?s5 = "move 0 Idle ?s4"
  let ?s6 = "move 1 Sleeping (?s5\<lparr>m_mutex := None\<rparr>)"
  note d = new_system_def new_tsq_def q_ready_def move_def
  have "run False new_system [] [] (move 1 Locking new_system :: 'a system)"
    by (rule run_tau [OF run_nil wait_start]) (simp add: d)
  then have "run False new_system [] [] ?s2" by (rule run_tau [OF _ wait_lock]) (simp_all add: d)
  then have "run False new_system [] [] ?s3" by (rule run_tau [OF _ wait_test]) (simp_all add: d)
  then have "run False new_system [] [] ?s4" by (rule run_tau [OF _ shutdown_store]) (simp add: d)
  then have "run False new_system [] [] ?s5" by (rule run_tau [OF _ notify_nobody]) (simp_all add: d)
  then have r: "run False new_system [] [] ?s6" by (rule run_tau [OF _ wait_sleep]) (simp add: d)
  have p: "pcs ?s6 = (\<lambda>_. Idle)(1 := Sleeping)" by (simp add: d fun_eq_iff)
  have "\<not> step False ?s6 1 l s'" for l s'
    using p by (auto elim!: step_cases simp del: move_simps)
  with r p show ?thesis by (intro exI [of _ ?s6]) (simp add: d q_shutdown_def)
qed

end
