(* ===== verification/Link_Context.thy ===== *)
theory Link_Context
  imports Ts_Queue Text_Util
begin

text \<open>
  \<^verbatim>\<open>LinkContext\<close> of \<^verbatim>\<open>util/network/link_context.cc\<close>, the mailboxes of a task: queues of received data, of data
  to be fetched and of completion marks, each under a key; and the operations of \<^verbatim>\<open>TaskBase\<close>
  (\<^verbatim>\<open>task/semantic/task.cc\<close>) on top of it. The functions give what one call does when no other thread
  interferes; \<open>Ts_Queue\<close> shows that each queue operation is atomic. A call that has to wait yields
  \<open>None\<close> together with the state in which it sleeps. The channel to another node is a parameter.
\<close>

section \<open>State\<close>

datatype retcode = SUCCESS | FAIL

record LinkContext =
  lc_job_id :: string
  lc_task_id :: string
  lc_request_id :: string
  lc_sub_task_id :: string
  in_data_queue :: "string tsq std_map"
  out_data_queue :: "string tsq std_map"
  complete_queue :: "retcode tsq std_map"
  lc_stop :: bool
  recv_timeout_ms :: int
  send_timeout_ms :: int
  connection_mgr :: "Node std_map"

text \<open>A channel is known by the node it was built for; the connections are kept under the node's text.\<close>

definition new_LinkContext :: LinkContext where
  "new_LinkContext = \<lparr>lc_job_id = [], lc_task_id = [], lc_request_id = [], lc_sub_task_id = [],
     in_data_queue = [], out_data_queue = [], complete_queue = [], lc_stop = False,
     recv_timeout_ms = -1, send_timeout_ms = -1, connection_mgr = []\<rparr>"

definition setTaskInfo :: "string \<Rightarrow> string \<Rightarrow> string \<Rightarrow> string \<Rightarrow> LinkContext \<Rightarrow> LinkContext" where
  "setTaskInfo job_id task_id request_id sub_task_id lc =
     lc\<lparr>lc_job_id := job_id, lc_task_id := task_id, lc_request_id := request_id, lc_sub_task_id := sub_task_id\<rparr>"

definition setRecvTimeout :: "int \<Rightarrow> LinkContext \<Rightarrow> LinkContext" where
  "setRecvTimeout t lc = lc\<lparr>recv_timeout_ms := t\<rparr>"

definition setSendTimeout :: "int \<Rightarrow> LinkContext \<Rightarrow> LinkContext" where
  "setSendTimeout t lc = lc\<lparr>send_timeout_ms := t\<rparr>"

definition HasStopped :: "LinkContext \<Rightarrow> bool" where
  "HasStopped lc = lc_stop lc"

section \<open>The queues\<close>

definition Clean_link :: "LinkContext \<Rightarrow> LinkContext" where
  "Clean_link lc =
     lc\<lparr>lc_stop := True,
        in_data_queue := map (\<lambda>(k, q). (k, q_shutdown q)) (in_data_queue lc),
        out_data_queue := map (\<lambda>(k, q). (k, q_shutdown q)) (out_data_queue lc),
        complete_queue := map (\<lambda>(k, q). (k, q_shutdown q)) (complete_queue lc)\<rparr>"

text \<open>A queue is created on first use; a queue of received data is created stopped in a stopped context.\<close>

definition GetRecvQueue :: "string \<Rightarrow> LinkContext \<Rightarrow> string tsq \<times> LinkContext" where
  "GetRecvQueue key lc =
     (case map_of (in_data_queue lc) key of
        Some q \<Rightarrow> (q, lc)
      | None \<Rightarrow>
          let q = (if lc_stop lc then q_shutdown new_tsq else new_tsq) in
          (q, lc\<lparr>in_data_queue := map_assign key q (in_data_queue lc)\<rparr>))"

definition GetSendQueue :: "string \<Rightarrow> LinkContext \<Rightarrow> string tsq \<times> LinkContext" where
  "GetSendQueue key lc =
     (case map_of (out_data_queue lc) key of
        Some q \<Rightarrow> (q, lc)
      | None \<Rightarrow> (new_tsq, lc\<lparr>out_data_queue := map_assign key new_tsq (out_data_queue lc)\<rparr>))"

definition GetCompleteQueue :: "string \<Rightarrow> LinkContext \<Rightarrow> retcode tsq \<times> LinkContext" where
  "GetCompleteQueue key lc =
     (case map_of (complete_queue lc) key of
        Some q \<Rightarrow> (q, lc)
      | None \<Rightarrow> (new_tsq, lc\<lparr>complete_queue := map_assign key new_tsq (complete_queue lc)\<rparr>))"

text \<open>\<^verbatim>\<open>wait_and_pop\<close> of a caller that is alone: \<open>None\<close> when it sleeps, \<open>Some None\<close> when the queue is stopped.\<close>

definition q_wait :: "'a tsq \<Rightarrow> ('a option \<times> 'a tsq) option" where
  "q_wait q = (if q_ready q then (case q_take q of Inr r \<Rightarrow> Some r | Inl _ \<Rightarrow> None) else None)"

text \<open>The uses of the queues: push and wait under a key. A stopped wait leaves the buffer empty.\<close>

definition recv_push :: "string \<Rightarrow> string \<Rightarrow> LinkContext \<Rightarrow> LinkContext" where
  "recv_push key data lc =
     (let (q, lc1) = GetRecvQueue key lc in
      lc1\<lparr>in_data_queue := map_assign key (q_emplace data q) (in_data_queue lc1)\<rparr>)"

definition send_push :: "string \<Rightarrow> string \<Rightarrow> LinkContext \<Rightarrow> LinkContext" where
  "send_push key data lc =
     (let (q, lc1) = GetSendQueue key lc in
      lc1\<lparr>out_data_queue := map_assign key (q_emplace data q) (out_data_queue lc1)\<rparr>)"

definition complete_push :: "string \<Rightarrow> retcode \<Rightarrow> LinkContext \<Rightarrow> LinkContext" where
  "complete_push key code lc =
     (let (q, lc1) = GetCompleteQueue key lc in
      lc1\<lparr>complete_queue := map_assign key (q_emplace code q) (complete_queue lc1)\<rparr>)"

definition recv_wait :: "string \<Rightarrow> LinkContext \<Rightarrow> LinkContext \<times> string option" where
  "recv_wait key lc =
     (let (q, lc1) = GetRecvQueue key lc in
      case q_wait q of
        None \<Rightarrow> (lc1, None)
      | Some (r, q') \<Rightarrow> (lc1\<lparr>in_data_queue := map_assign key q' (in_data_queue lc1)\<rparr>, Some (case r of Some d \<Rightarrow> d | None \<Rightarrow> [])))"

definition send_wait :: "string \<Rightarrow> LinkContext \<Rightarrow> LinkContext \<times> string option" where
  "send_wait key lc =
     (let (q, lc1) = GetSendQueue key lc in
      case q_wait q of
        None \<Rightarrow> (lc1, None)
      | Some (r, q') \<Rightarrow> (lc1\<lparr>out_data_queue := map_assign key q' (out_data_queue lc1)\<rparr>, Some (case r of Some d \<Rightarrow> d | None \<Rightarrow> [])))"

definition complete_wait :: "string \<Rightarrow> LinkContext \<Rightarrow> LinkContext \<times> unit option" where
  "complete_wait key lc =
     (let (q, lc1) = GetCompleteQueue key lc in
      case q_wait q of
        None \<Rightarrow> (lc1, None)
      | Some (r, q') \<Rightarrow> (lc1\<lparr>complete_queue := map_assign key q' (complete_queue lc1)\<rparr>, Some ()))"

section \<open>Sending and receiving\<close>

text \<open>
  The channel to another node, with the state \<open>'n\<close> of the network; \<^verbatim>\<open>sendRecv\<close> gets the buffer of its caller.
\<close>

record 'n channel =
  ch_send :: "string \<Rightarrow> string \<Rightarrow> 'n \<Rightarrow> retcode \<times> 'n"
  ch_sendRecv :: "string \<Rightarrow> string \<Rightarrow> string \<Rightarrow> 'n \<Rightarrow> (retcode \<times> string) \<times> 'n"
  ch_forwardRecv :: "string \<Rightarrow> 'n \<Rightarrow> string \<times> 'n"
  ch_CheckSendCompleteStatus :: "string \<Rightarrow> u64 \<Rightarrow> 'n \<Rightarrow> retcode \<times> 'n"

definition Send :: "(Node \<Rightarrow> 'n channel) \<Rightarrow> string \<Rightarrow> Node \<Rightarrow> string \<Rightarrow> 'n \<Rightarrow> retcode \<times> 'n" where
  "Send getChannel key dest_node send_buf n = ch_send (getChannel dest_node) key send_buf n"

definition Recv :: "string \<Rightarrow> LinkContext \<Rightarrow> LinkContext \<times> (retcode \<times> string) option" where
  "Recv key lc = (let (lc1, r) = recv_wait key lc in (lc1, map_option (\<lambda>d. (SUCCESS, d)) r))"

text \<open>With a buffer of a fixed size: the second component is the buffer afterwards.\<close>

definition Recv_buf :: "string \<Rightarrow> nat \<Rightarrow> string \<Rightarrow> LinkContext \<Rightarrow> LinkContext \<times> (retcode \<times> string) option" where
  "Recv_buf key recv_size recv_buf lc =
     (let (lc1, r) = recv_wait key lc in
      (lc1, map_option (\<lambda>d. if recv_size \<noteq> length d then (FAIL, recv_buf) else (SUCCESS, d)) r))"

definition Recv_from :: "(Node \<Rightarrow> 'n channel) \<Rightarrow> string \<Rightarrow> Node \<Rightarrow> 'n \<Rightarrow> (retcode \<times> string) \<times> 'n" where
  "Recv_from getChannel key dest_node n =
     (let (d, n') = ch_forwardRecv (getChannel dest_node) key n in
      (if d = [] then (FAIL, d) else (SUCCESS, d), n'))"

definition Recv_from_buf ::
  "(Node \<Rightarrow> 'n channel) \<Rightarrow> string \<Rightarrow> Node \<Rightarrow> nat \<Rightarrow> string \<Rightarrow> 'n \<Rightarrow> (retcode \<times> string) \<times> 'n" where
  "Recv_from_buf getChannel key dest_node recv_size recv_buf n =
     (let ((ret, d), n') = Recv_from getChannel key dest_node n in
      (if ret \<noteq> SUCCESS then (FAIL, recv_buf) else if length d \<noteq> recv_size then (FAIL, recv_buf) else (SUCCESS, d), n'))"

definition SendRecv_to :: "(Node \<Rightarrow> 'n channel) \<Rightarrow> string \<Rightarrow> Node \<Rightarrow> string \<Rightarrow> string \<Rightarrow> 'n \<Rightarrow> (retcode \<times> string) \<times> 'n" where
  "SendRecv_to getChannel key dest_node send_buf recv_buf n = ch_sendRecv (getChannel dest_node) key send_buf recv_buf n"

text \<open>The receiving side of \<^verbatim>\<open>SendRecv\<close>: take the data, offer the answer, wait until it is fetched.\<close>

definition SendRecv :: "string \<Rightarrow> string \<Rightarrow> LinkContext \<Rightarrow> LinkContext \<times> (retcode \<times> string) option" where
  "SendRecv key send_buf lc =
     (let (lc1, r) = recv_wait key lc in
      case r of
        None \<Rightarrow> (lc1, None)
      | Some d \<Rightarrow>
          if HasStopped lc1 then (lc1, Some (FAIL, d))
          else let (lc2, c) = complete_wait key (send_push key send_buf lc1) in (lc2, map_option (\<lambda>_. (SUCCESS, d)) c))"

definition CheckSendCompleteStatus :: "(Node \<Rightarrow> 'n channel) \<Rightarrow> string \<Rightarrow> Node \<Rightarrow> u64 \<Rightarrow> 'n \<Rightarrow> retcode \<times> 'n" where
  "CheckSendCompleteStatus getChannel key dest_node expected n =
     ch_CheckSendCompleteStatus (getChannel dest_node) key expected n"

section \<open>Tasks\<close>

text \<open>\<^verbatim>\<open>TaskBase\<close>: the link context is a pointer, checked before use.\<close>

definition task_send :: "(Node \<Rightarrow> 'n channel) \<Rightarrow> string \<Rightarrow> Node \<Rightarrow> string \<Rightarrow> LinkContext option \<Rightarrow> 'n \<Rightarrow> retcode \<times> 'n" where
  "task_send getChannel key dest_node send_buff ctx n =
     (case ctx of None \<Rightarrow> (FAIL, n) | Some _ \<Rightarrow> ch_send (getChannel dest_node) key send_buff n)"

definition task_sendRecv ::
  "(Node \<Rightarrow> 'n channel) \<Rightarrow> string \<Rightarrow> Node \<Rightarrow> string \<Rightarrow> string \<Rightarrow> LinkContext option \<Rightarrow> 'n \<Rightarrow> (retcode \<times> string) \<times> 'n" where
  "task_sendRecv getChannel key dest_node send_buff recv_buff ctx n =
     (case ctx of
        None \<Rightarrow> ((FAIL, recv_buff), n)
      | Some _ \<Rightarrow>
          let ((ret, d), n') = ch_sendRecv (getChannel dest_node) key send_buff [] n in
          (if ret \<noteq> SUCCESS then (FAIL, recv_buff) else (SUCCESS, d), n'))"

definition task_recv :: "string \<Rightarrow> LinkContext option \<Rightarrow> LinkContext option \<times> (retcode \<times> string) option" where
  "task_recv key ctx =
     (case ctx of
        None \<Rightarrow> (None, Some (FAIL, []))
      | Some lc \<Rightarrow> let (lc1, r) = recv_wait key lc in (Some lc1, map_option (\<lambda>d. (SUCCESS, d)) r))"

definition task_recv_buf ::
  "string \<Rightarrow> nat \<Rightarrow> string \<Rightarrow> LinkContext option \<Rightarrow> LinkContext option \<times> (retcode \<times> string) option" where
  "task_recv_buf key len recv_buff ctx =
     (let (ctx', r) = task_recv key ctx in
      (ctx', map_option (\<lambda>(ret, d). if ret \<noteq> SUCCESS then (FAIL, recv_buff)
         else if length d \<noteq> len then (FAIL, recv_buff) else (SUCCESS, d)) r))"

definition pushDataToSendQueue :: "string \<Rightarrow> string \<Rightarrow> LinkContext option \<Rightarrow> LinkContext option \<times> retcode option" where
  "pushDataToSendQueue key send_data ctx =
     (if send_data = [] then (ctx, Some FAIL)
      else case ctx of
        None \<Rightarrow> (None, Some FAIL)
      | Some lc \<Rightarrow> let (lc1, c) = complete_wait key (send_push key send_data lc) in (Some lc1, map_option (\<lambda>_. SUCCESS) c))"

section \<open>The interface of keyed mailboxes\<close>

fun take_many :: "('s \<Rightarrow> 's \<times> 'w option) \<Rightarrow> nat \<Rightarrow> 's \<Rightarrow> 's \<times> 'w option list" where
  "take_many get 0 s = (s, [])"
| "take_many get (Suc n) s = (let (s1, r) = get s; (s2, rs) = take_many get n s1 in (s2, r # rs))"

text \<open>
  What the tasks rely on, for any of the three families of queues: what is put under a key is
  appended to what waits there, taking removes the first item and sleeps when there is none, and
  other keys are not touched.
\<close>

locale mailboxes =
  fixes open_box :: "'s \<Rightarrow> bool"
    and put :: "string \<Rightarrow> 'v \<Rightarrow> 's \<Rightarrow> 's"
    and get :: "string \<Rightarrow> 's \<Rightarrow> 's \<times> 'w option"
    and view :: "'v \<Rightarrow> 'w"
    and waiting :: "string \<Rightarrow> 's \<Rightarrow> 'v list"
  assumes put_open: "open_box s \<Longrightarrow> open_box (put k v s)"
    and put_waiting: "open_box s \<Longrightarrow> waiting k' (put k v s) = (if k' = k then waiting k s @ [v] else waiting k' s)"
    and get_open: "open_box s \<Longrightarrow> open_box (fst (get k s))"
    and get_waiting: "open_box s \<Longrightarrow> waiting k' (fst (get k s)) = (if k' = k then tl (waiting k s) else waiting k' s)"
    and get_result: "open_box s \<Longrightarrow> snd (get k s) = (case waiting k s of [] \<Rightarrow> None | v # _ \<Rightarrow> Some (view v))"
begin

lemma put_all_waiting:
  "open_box s \<Longrightarrow> open_box (fold (\<lambda>(k, v). put k v) ms s) \<and>
     waiting key (fold (\<lambda>(k, v). put k v) ms s) = waiting key s @ map snd (filter (\<lambda>m. fst m = key) ms)"
  by (induction ms arbitrary: s) (auto simp: put_open put_waiting)

lemma take_many_result:
  "open_box s \<Longrightarrow> n \<le> length (waiting key s) \<Longrightarrow>
   snd (take_many (get key) n s) = map (\<lambda>v. Some (view v)) (take n (waiting key s)) \<and>
   open_box (fst (take_many (get key) n s)) \<and>
   (\<forall>k. waiting k (fst (take_many (get key) n s)) = (if k = key then drop n (waiting k s) else waiting k s))"
proof (induction n arbitrary: s)
  case (Suc n)
  obtain v vs where v: "waiting key s = v # vs" using Suc.prems(2) by (cases "waiting key s") auto
  have "n \<le> length (waiting key (fst (get key s)))" using Suc.prems v by (simp add: get_waiting)
  note IH = Suc.IH [OF get_open [OF Suc.prems(1)] this]
  show ?case using IH get_result [OF Suc.prems(1), of key] v get_waiting [OF Suc.prems(1), of _ key]
    by (simp add: case_prod_beta Let_def)
qed simp

end

section \<open>The three families of queues are mailboxes\<close>

definition waiting_in :: "'a tsq std_map \<Rightarrow> string \<Rightarrow> 'a list" where
  "waiting_in m k = (case map_of m k of Some q \<Rightarrow> m_queue q | None \<Rightarrow> [])"

definition open_in :: "'a tsq std_map \<Rightarrow> bool" where
  "open_in m \<longleftrightarrow> (\<forall>k q. map_of m k = Some q \<longrightarrow> \<not> stop_flag q)"

lemma open_in_assign: "open_in m \<Longrightarrow> \<not> stop_flag q \<Longrightarrow> open_in (map_assign k q m)"
  by (auto simp: open_in_def)

lemma waiting_in_assign: "waiting_in (map_assign k q m) k' = (if k' = k then m_queue q else waiting_in m k')"
  by (simp add: waiting_in_def)

lemma open_in_found: "open_in m \<Longrightarrow> map_of m k = Some q \<Longrightarrow> \<not> stop_flag q"
  by (auto simp: open_in_def)

lemma q_wait_open:
  "\<not> stop_flag q \<Longrightarrow> q_wait q = (case m_queue q of [] \<Rightarrow> None | x # xs \<Rightarrow> Some (Some x, q\<lparr>m_queue := xs\<rparr>))"
  by (cases "m_queue q") (simp_all add: q_wait_def q_ready_def q_take_def)

lemma q_wait_stopped: "stop_flag q \<Longrightarrow> q_wait q = Some (None, q)"
  by (simp add: q_wait_def q_ready_def q_take_def)

lemma new_tsq_simps [simp]: "m_queue new_tsq = []" "\<not> stop_flag new_tsq"
  by (simp_all add: new_tsq_def)

lemma q_emplace_simps [simp]: "m_queue (q_emplace v q) = m_queue q @ [v]" "stop_flag (q_emplace v q) = stop_flag q"
  by (simp_all add: q_emplace_def)

lemma q_shutdown_simps [simp]: "m_queue (q_shutdown q) = m_queue q" "stop_flag (q_shutdown q)"
  by (simp_all add: q_shutdown_def)

lemmas box_simps = Let_def waiting_in_assign open_in_assign open_in_found q_wait_open

interpretation in_box: mailboxes "\<lambda>lc. \<not> lc_stop lc \<and> open_in (in_data_queue lc)" recv_push recv_wait "\<lambda>d. d"
  "\<lambda>k lc. waiting_in (in_data_queue lc) k"
  by unfold_locales
     (auto simp: recv_push_def recv_wait_def GetRecvQueue_def box_simps waiting_in_def [of _ k for k]
       split: option.splits list.splits)

interpretation out_box: mailboxes "\<lambda>lc. open_in (out_data_queue lc)" send_push send_wait "\<lambda>d. d"
  "\<lambda>k lc. waiting_in (out_data_queue lc) k"
  by unfold_locales
     (auto simp: send_push_def send_wait_def GetSendQueue_def box_simps waiting_in_def [of _ k for k]
       split: option.splits list.splits)

interpretation complete_box: mailboxes "\<lambda>lc. open_in (complete_queue lc)" complete_push complete_wait "\<lambda>_. ()"
  "\<lambda>k lc. waiting_in (complete_queue lc) k"
  by unfold_locales
     (auto simp: complete_push_def complete_wait_def GetCompleteQueue_def box_simps waiting_in_def [of _ k for k]
       split: option.splits list.splits)

lemma new_link_open [simp]:
  "\<not> lc_stop new_LinkContext" "open_in (in_data_queue new_LinkContext)" "open_in (out_data_queue new_LinkContext)"
  "open_in (complete_queue new_LinkContext)" "waiting_in (in_data_queue new_LinkContext) k = []"
  by (simp_all add: new_LinkContext_def open_in_def waiting_in_def)

text \<open>Receiving through \<^verbatim>\<open>Recv\<close> is receiving from the mailbox.\<close>

lemma take_many_Recv:
  "take_many (Recv key) n lc = map_prod id (map (map_option (\<lambda>d. (SUCCESS, d)))) (take_many (recv_wait key) n lc)"
proof (induction n arbitrary: lc)
  case (Suc n)
  then show ?case by (simp add: Recv_def Let_def case_prod_beta)
qed simp

text \<open>In a stopped context every queue of received data is stopped.\<close>

lemma map_of_shutdown: "map_of (map (\<lambda>(k, q). (k, q_shutdown q)) m) key = map_option q_shutdown (map_of m key)"
  by (induction m) auto

lemma recv_wait_stopped: "snd (recv_wait key (Clean_link lc)) = Some []"
  "lc_stop (fst (recv_wait key (Clean_link lc)))"
proof -
  have q: "stop_flag (fst (GetRecvQueue key (Clean_link lc)))"
    by (auto simp: GetRecvQueue_def Clean_link_def map_of_shutdown Let_def split: option.splits)
  show "snd (recv_wait key (Clean_link lc)) = Some []"
    using q_wait_stopped [OF q] by (simp add: recv_wait_def case_prod_beta Let_def)
  show "lc_stop (fst (recv_wait key (Clean_link lc)))"
    using q_wait_stopped [OF q]
    by (auto simp: recv_wait_def case_prod_beta Let_def GetRecvQueue_def Clean_link_def split: option.splits)
qed

section \<open>Properties\<close>

text \<open>
  Mailboxes deliver in order and keep keys apart: after any messages under any keys have been
  pushed into a fresh context, receiving under a key as often as there are messages for it returns
  exactly these, successfully and in the order they arrived, whatever else was pushed; the next
  \<^verbatim>\<open>Recv\<close> sleeps.
\<close>

theorem link_delivery:
  "let mine = map snd (filter (\<lambda>m. fst m = key) ms);
       (lc, received) = take_many (Recv key) (length mine) (fold (\<lambda>(k, d). recv_push k d) ms new_LinkContext) in
   received = map (\<lambda>d. Some (SUCCESS, d)) mine \<and> snd (Recv key lc) = None"
proof -
  let ?lc = "fold (\<lambda>(k, d). recv_push k d) ms new_LinkContext"
  let ?mine = "map snd (filter (\<lambda>m. fst m = key) ms)"
  have lc: "\<not> lc_stop ?lc \<and> open_in (in_data_queue ?lc)" "waiting_in (in_data_queue ?lc) key = ?mine"
    using in_box.put_all_waiting [of new_LinkContext ms key] by simp_all
  note t = in_box.take_many_result [OF lc(1), of "length ?mine" key]
  have "snd (take_many (Recv key) (length ?mine) ?lc) = map (\<lambda>d. Some (SUCCESS, d)) ?mine"
    using t lc(2) by (simp add: take_many_Recv)
  moreover have "snd (recv_wait key (fst (take_many (recv_wait key) (length ?mine) ?lc))) = None"
    using t lc(2) in_box.get_result [of "fst (take_many (recv_wait key) (length ?mine) ?lc)" key] by simp
  ultimately show ?thesis by (simp add: take_many_Recv Recv_def Let_def case_prod_beta)
qed

text \<open>
  Closing a context releases the receivers but not the senders: after \<^verbatim>\<open>Clean\<close>, \<^verbatim>\<open>Recv\<close> under any key
  returns at once, with \<^verbatim>\<open>SUCCESS\<close> and empty data even if data was waiting, \<^verbatim>\<open>Recv\<close> into a buffer of another
  size and \<^verbatim>\<open>SendRecv\<close> fail; but \<^verbatim>\<open>pushDataToSendQueue\<close> under a key whose completion queue was not used
  before still sleeps, because that queue is created open.
\<close>

theorem clean_releases_receivers:
  assumes "map_of (complete_queue lc) key = None" and "data \<noteq> []"
  shows "snd (Recv key (Clean_link lc)) = Some (SUCCESS, []) \<and>
    snd (Recv_buf key (Suc n) buf (Clean_link lc)) = Some (FAIL, buf) \<and>
    snd (SendRecv key answer (Clean_link lc)) = Some (FAIL, []) \<and>
    snd (pushDataToSendQueue key data (Some (Clean_link lc))) = None"
proof -
  have "snd (pushDataToSendQueue key data (Some (Clean_link lc))) = None"
    using assms
    by (auto simp: pushDataToSendQueue_def complete_wait_def GetCompleteQueue_def send_push_def GetSendQueue_def
        Clean_link_def map_of_shutdown Let_def q_wait_open split: option.splits prod.splits)
  then show ?thesis using recv_wait_stopped [of key lc]
    by (simp add: Recv_def Recv_buf_def SendRecv_def Let_def case_prod_beta HasStopped_def)
qed

theorem clean_releases_receivers_witness:
  "snd (Recv ''k'' (Clean_link (recv_push ''k'' ''x'' new_LinkContext))) = Some (SUCCESS, []) \<and>
   snd (Recv_buf ''k'' 1 ''b'' (Clean_link (recv_push ''k'' ''x'' new_LinkContext))) = Some (FAIL, ''b'') \<and>
   snd (SendRecv ''k'' ''a'' (Clean_link (recv_push ''k'' ''x'' new_LinkContext))) = Some (FAIL, []) \<and>
   snd (pushDataToSendQueue ''k'' ''d'' (Some (Clean_link (recv_push ''k'' ''x'' new_LinkContext)))) = None"
  using clean_releases_receivers [of "recv_push ''k'' ''x'' new_LinkContext" "''k''" "''d''" 0 "''b''" "''a''"]
  by (simp add: recv_push_def GetRecvQueue_def new_LinkContext_def Let_def)

end
