(* ===== verification/Grpc_Channel.thy ===== *)
theory Grpc_Channel
  imports Link_Context
begin

text \<open>
  \<^verbatim>\<open>GrpcChannel\<close> and \<^verbatim>\<open>GrpcLinkContext\<close> of \<^verbatim>\<open>util/network/grpc_link_context.cc\<close>: the connection of one node to
  another. The stub that gRPC generates is a parameter: a call takes a deadline and a request and
  returns whether its status is OK, the reply and the new state \<open>'n\<close> of everything beyond the stub.
\<close>

section \<open>Messages\<close>

record TaskContext =
  tc_task_id :: string
  tc_job_id :: string
  tc_request_id :: string
  tc_sub_task_id :: string

record TaskRequest =
  tr_task_info :: TaskContext
  tr_role :: string
  tr_data_len :: u64
  tr_data :: string

record TaskResponse =
  rs_ret_code :: retcode
  rs_msg_info :: string
  rs_data_len :: u64
  rs_data :: string

definition empty_TaskContext :: TaskContext where
  "empty_TaskContext = \<lparr>tc_task_id = [], tc_job_id = [], tc_request_id = [], tc_sub_task_id = []\<rparr>"

definition empty_TaskResponse :: TaskResponse where
  "empty_TaskResponse = \<lparr>rs_ret_code = SUCCESS, rs_msg_info = [], rs_data_len = 0, rs_data = []\<rparr>"

text \<open>A deadline, in milliseconds from the start of the call.\<close>

type_synonym deadline = "int option"

record 'n stub =
  rpc_Send :: "deadline \<Rightarrow> TaskRequest list \<Rightarrow> 'n \<Rightarrow> (bool \<times> TaskResponse) \<times> 'n"
  rpc_SendRecv :: "deadline \<Rightarrow> TaskRequest list \<Rightarrow> 'n \<Rightarrow> (bool \<times> TaskResponse list) \<times> 'n"
  rpc_ForwardRecv :: "deadline \<Rightarrow> TaskRequest \<Rightarrow> 'n \<Rightarrow> (bool \<times> TaskRequest list) \<times> 'n"

type_synonym ('q, 'p, 'n) unary = "deadline \<Rightarrow> 'q \<Rightarrow> 'n \<Rightarrow> (bool \<times> 'p) \<times> 'n"

section \<open>Requests\<close>

definition LIMITED_PACKAGE_SIZE :: nat where
  "LIMITED_PACKAGE_SIZE = 3 * 1024 * 1024"

definition CONTROL_CMD_TIMEOUT_S :: int where
  "CONTROL_CMD_TIMEOUT_S = 5"

definition retry_max_times :: nat where
  "retry_max_times = 3"

definition BuildTaskInfo :: "LinkContext option \<Rightarrow> TaskContext \<Rightarrow> retcode \<times> TaskContext" where
  "BuildTaskInfo link_ctx task_info =
     (case link_ctx of
        None \<Rightarrow> (FAIL, task_info)
      | Some lc \<Rightarrow>
          (SUCCESS, task_info\<lparr>tc_job_id := lc_job_id lc, tc_task_id := lc_task_id lc,
             tc_sub_task_id := lc_sub_task_id lc, tc_request_id := lc_request_id lc\<rparr>))"

text \<open>
  The loop that cuts data into packages, from \<open>sended_size\<close> on; the three places that build packages
  run it with messages of their own.
\<close>

function packages_from :: "string \<Rightarrow> nat \<Rightarrow> string list" where
  "packages_from data sended_size =
     (let data_len = min LIMITED_PACKAGE_SIZE (length data - sended_size);
          sended_size' = sended_size + data_len in
      take data_len (drop sended_size data) #
      (if sended_size' < length data then packages_from data sended_size' else []))"
  by pat_completeness auto

termination packages_from
  by (relation "measure (\<lambda>(data, sended_size). length data - sended_size)") (auto simp: LIMITED_PACKAGE_SIZE_def)

declare packages_from.simps [simp del]

definition buildTaskRequest :: "LinkContext option \<Rightarrow> string \<Rightarrow> string \<Rightarrow> TaskRequest list" where
  "buildTaskRequest link_ctx role data =
     map (\<lambda>package. \<lparr>tr_task_info = snd (BuildTaskInfo link_ctx empty_TaskContext), tr_role = role,
                     tr_data_len = word_of_nat (length data), tr_data = package\<rparr>)
         (packages_from data 0)"

text \<open>The deadline of a call that carries data; \<open>lc\<close> is the context of the channel.\<close>

definition send_deadline :: "LinkContext \<Rightarrow> deadline" where
  "send_deadline lc = (if send_timeout_ms lc > 0 then Some (send_timeout_ms lc) else None)"

section \<open>Calls with retries\<close>

text \<open>
  The loop around a call: a call whose status is OK ends it, any other is repeated until
  \<^verbatim>\<open>retry_max_times_\<close> calls have failed. Every operation below runs it on a call of its own.
\<close>

function retry_loop :: "('n \<Rightarrow> (bool \<times> 'p) \<times> 'n) \<Rightarrow> nat \<Rightarrow> 'n \<Rightarrow> (retcode \<times> 'p) \<times> 'n" where
  "retry_loop call retry_time n =
     (let ((ok, reply), n') = call n in
      if ok then ((SUCCESS, reply), n')
      else let retry_time' = retry_time + 1 in
        if retry_time' < retry_max_times then retry_loop call retry_time' n' else ((FAIL, reply), n'))"
  by pat_completeness auto

termination retry_loop
  by (relation "measure (\<lambda>(call, retry_time, n). retry_max_times - retry_time)") auto

declare retry_loop.simps [simp del]

definition send :: "'n stub \<Rightarrow> LinkContext \<Rightarrow> string \<Rightarrow> string \<Rightarrow> 'n \<Rightarrow> retcode \<times> 'n" where
  "send stub lc role data n =
     (let send_requests = buildTaskRequest (Some lc) role data;
          ((ret, response), n') = retry_loop (rpc_Send stub (send_deadline lc) send_requests) 0 n in
      (if ret = SUCCESS \<and> rs_ret_code response \<noteq> SUCCESS then FAIL else ret, n'))"

definition send_wrapper :: "'n stub \<Rightarrow> LinkContext \<Rightarrow> string \<Rightarrow> string \<Rightarrow> 'n \<Rightarrow> bool \<times> 'n" where
  "send_wrapper stub lc role data n = (let (ret, n') = send stub lc role data n in (ret = SUCCESS, n'))"

text \<open>\<^verbatim>\<open>sendRecv\<close> appends what it reads to the caller's buffer; it does not look at \<^verbatim>\<open>ret_code\<close>.\<close>

definition sendRecv :: "'n stub \<Rightarrow> LinkContext \<Rightarrow> string \<Rightarrow> string \<Rightarrow> string \<Rightarrow> 'n \<Rightarrow> (retcode \<times> string) \<times> 'n" where
  "sendRecv stub lc role send_data recv_data n =
     (let ((ok, responses), n') = rpc_SendRecv stub (send_deadline lc) (buildTaskRequest (Some lc) role send_data) n;
          recv_data' = recv_data @ concat (map rs_data responses) in
      ((if \<not> ok then FAIL else SUCCESS, recv_data'), n'))"

definition forwardRecv :: "'n stub \<Rightarrow> LinkContext \<Rightarrow> string \<Rightarrow> 'n \<Rightarrow> string \<times> 'n" where
  "forwardRecv stub lc role n =
     (let send_request = \<lparr>tr_task_info = snd (BuildTaskInfo (Some lc) empty_TaskContext), tr_role = role,
                          tr_data_len = 0, tr_data = []\<rparr>;
          ((ok, responses), n') = rpc_ForwardRecv stub (send_deadline lc) send_request n in
      (if \<not> ok then [] else concat (map tr_data responses), n'))"

section \<open>Control\<close>

definition control_deadline :: deadline where
  "control_deadline = Some (CONTROL_CMD_TIMEOUT_S * 1000)"

text \<open>
  The loop of \<^verbatim>\<open>submitTask\<close> ends in \<^verbatim>\<open>while (0)\<close>: its \<^verbatim>\<open>continue\<close> goes to that condition and leaves the loop.
\<close>

definition submitTask :: "('q, 'p, 'n) unary \<Rightarrow> 'q \<Rightarrow> 'n \<Rightarrow> (retcode \<times> 'p) \<times> 'n" where
  "submitTask SubmitTask request n =
     (let ((ok, reply), n') = SubmitTask control_deadline request n in
      if ok then ((SUCCESS, reply), n')
      else let retry_time = 0 + 1 in
        if retry_time < retry_max_times then ((SUCCESS, reply), n') else ((FAIL, reply), n'))"

definition executeTask :: "('q, 'p, 'n) unary \<Rightarrow> 'q \<Rightarrow> 'n \<Rightarrow> (retcode \<times> 'p) \<times> 'n" where
  "executeTask ExecuteTask request = retry_loop (ExecuteTask control_deadline request) 0"

definition StopTask :: "(TaskContext, unit, 'n) unary \<Rightarrow> TaskContext \<Rightarrow> 'n \<Rightarrow> (retcode \<times> unit) \<times> 'n" where
  "StopTask StopTask_rpc request = retry_loop (StopTask_rpc control_deadline request) 0"

definition killTask :: "('q, 'p, 'n) unary \<Rightarrow> 'q \<Rightarrow> 'n \<Rightarrow> (retcode \<times> 'p) \<times> 'n" where
  "killTask KillTask request = retry_loop (KillTask control_deadline request) 0"

definition updateTaskStatus :: "('q, unit, 'n) unary \<Rightarrow> 'q \<Rightarrow> 'n \<Rightarrow> (retcode \<times> unit) \<times> 'n" where
  "updateTaskStatus UpdateTaskStatus request = retry_loop (UpdateTaskStatus control_deadline request) 0"

definition fetchTaskStatus :: "(TaskContext, 'p, 'n) unary \<Rightarrow> TaskContext \<Rightarrow> 'n \<Rightarrow> (retcode \<times> 'p) \<times> 'n" where
  "fetchTaskStatus FetchTaskStatus request = retry_loop (FetchTaskStatus control_deadline request) 0"

record CompleteStatusRequest =
  cs_task_info :: TaskContext
  cs_key :: string
  cs_complete_count :: u64

definition channel_CheckSendCompleteStatus ::
  "(CompleteStatusRequest, unit, 'n) unary \<Rightarrow> LinkContext \<Rightarrow> string \<Rightarrow> u64 \<Rightarrow> 'n \<Rightarrow> retcode \<times> 'n" where
  "channel_CheckSendCompleteStatus CompleteStatus lc key expected_complete_num n =
     (let request = \<lparr>cs_task_info = snd (BuildTaskInfo (Some lc) empty_TaskContext), cs_key = key,
                     cs_complete_count = expected_complete_num\<rparr>;
          ((ret, _), n') = retry_loop (CompleteStatus control_deadline request) 0 n in
      (ret, n'))"

definition NewDataset :: "('q, 'p, 'n) unary \<Rightarrow> 'q \<Rightarrow> 'n \<Rightarrow> (retcode \<times> 'p) \<times> 'n" where
  "NewDataset NewDataset_rpc request = retry_loop (NewDataset_rpc control_deadline request) 0"

text \<open>
  \<^verbatim>\<open>DownloadData\<close> reads blocks until one carries an error code; each response is its code, paired with
  its data. The blocks read before stay in the caller's list.
\<close>

fun read_blocks :: "(bool \<times> string) list \<Rightarrow> string list \<Rightarrow> bool \<times> string list" where
  "read_blocks [] data = (False, data)"
| "read_blocks ((success, block) # rest) data =
     (if \<not> success then (True, data) else read_blocks rest (data @ [block]))"

definition DownloadData ::
  "('q, (bool \<times> string) list, 'n) unary \<Rightarrow> 'q \<Rightarrow> string list \<Rightarrow> 'n \<Rightarrow> (retcode \<times> string list) \<times> 'n" where
  "DownloadData DownloadData_rpc request data n =
     (let ((ok, responses), n') = DownloadData_rpc control_deadline request n;
          (has_error, data') = read_blocks responses data in
      (if \<not> ok then (FAIL, data') else if has_error then (FAIL, data') else (SUCCESS, data'), n'))"

section \<open>Connections\<close>

definition getChannel :: "Node \<Rightarrow> LinkContext \<Rightarrow> Node \<times> LinkContext" where
  "getChannel node lc =
     (let node_info = node_to_string node in
      case map_of (connection_mgr lc) node_info of
        Some channel \<Rightarrow> (channel, lc)
      | None \<Rightarrow> (node, lc\<lparr>connection_mgr := map_assign node_info node (connection_mgr lc)\<rparr>))"

text \<open>The channel of a node as the link context uses it.\<close>

definition grpc_channel :: "'n stub \<Rightarrow> (CompleteStatusRequest, unit, 'n) unary \<Rightarrow> LinkContext \<Rightarrow> 'n channel" where
  "grpc_channel stub CompleteStatus lc =
     \<lparr>ch_send = send stub lc, ch_sendRecv = sendRecv stub lc, ch_forwardRecv = forwardRecv stub lc,
      ch_CheckSendCompleteStatus = channel_CheckSendCompleteStatus CompleteStatus lc\<rparr>"

section \<open>Packages\<close>

lemma package_size_pos: "0 < LIMITED_PACKAGE_SIZE"
  by (simp add: LIMITED_PACKAGE_SIZE_def)

lemma packages_from_more:
  "s + LIMITED_PACKAGE_SIZE < length data \<Longrightarrow>
   packages_from data s = take LIMITED_PACKAGE_SIZE (drop s data) # packages_from data (s + LIMITED_PACKAGE_SIZE)"
  by (subst packages_from.simps) (simp add: Let_def)

lemma packages_from_last: "\<not> s + LIMITED_PACKAGE_SIZE < length data \<Longrightarrow> packages_from data s = [drop s data]"
  by (subst packages_from.simps) (auto simp: Let_def)

text \<open>The two cases as a rule of induction.\<close>

lemma packages_induct [case_names more last]:
  assumes "\<And>s. s + LIMITED_PACKAGE_SIZE < length data \<Longrightarrow> P (s + LIMITED_PACKAGE_SIZE) \<Longrightarrow> P s"
    and "\<And>s. \<not> s + LIMITED_PACKAGE_SIZE < length data \<Longrightarrow> P s"
  shows "P s"
proof (induction "length data - s" arbitrary: s rule: less_induct)
  case less
  show ?case
  proof (cases "s + LIMITED_PACKAGE_SIZE < length data")
    case True
    then have "length data - (s + LIMITED_PACKAGE_SIZE) < length data - s" using package_size_pos by linarith
    then show ?thesis using assms(1) [OF True] less by blast
  qed (rule assms(2))
qed

lemma packages_from_concat: "concat (packages_from data s) = drop s data"
proof (induction s rule: packages_induct [where data = data])
  case (more s)
  have "take LIMITED_PACKAGE_SIZE (drop s data) @ drop LIMITED_PACKAGE_SIZE (drop s data) = drop s data"
    by (rule append_take_drop_id)
  with more show ?case by (simp add: packages_from_more add.commute)
qed (simp add: packages_from_last)

lemma packages_from_size: "p \<in> set (packages_from data s) \<Longrightarrow> length p \<le> LIMITED_PACKAGE_SIZE"
  by (induction s rule: packages_induct [where data = data]) (auto simp: packages_from_more packages_from_last)

lemma packages_from_ne: "packages_from data s \<noteq> []"
  by (subst packages_from.simps) (simp add: Let_def)

text \<open>How many packages: the quotient rounded up, and one for empty data.\<close>

lemma packages_from_length:
  "s < length data \<Longrightarrow> length (packages_from data s) = (length data - s - 1) div LIMITED_PACKAGE_SIZE + 1"
proof (induction s rule: packages_induct [where data = data])
  case (more s)
  let ?L = LIMITED_PACKAGE_SIZE
  have eq: "length data - s - 1 = length data - (s + ?L) - 1 + ?L" using more.hyps by simp
  have "(length data - s - 1) div ?L = (length data - (s + ?L) - 1) div ?L + 1"
    unfolding eq using package_size_pos by (intro div_add_self2) simp
  with more show ?case by (simp add: packages_from_more)
next
  case (last s)
  then have "length data - s - 1 < LIMITED_PACKAGE_SIZE" by simp
  with last show ?case by (simp add: packages_from_last)
qed

section \<open>Retries\<close>

text \<open>The state after \<open>k\<close> calls, and what the call after them returns.\<close>

fun after :: "('n \<Rightarrow> 'r \<times> 'n) \<Rightarrow> nat \<Rightarrow> 'n \<Rightarrow> 'n" where
  "after call 0 n = n"
| "after call (Suc k) n = after call k (snd (call n))"

definition attempt :: "('n \<Rightarrow> 'r \<times> 'n) \<Rightarrow> nat \<Rightarrow> 'n \<Rightarrow> 'r" where
  "attempt call k n = fst (call (after call k n))"

lemma after_Suc: "after call (Suc k) n = snd (call (after call k n))"
  by (induction k arbitrary: n) simp_all

lemma attempt_simps [simp]: "attempt call 0 n = fst (call n)" "attempt call (Suc k) n = attempt call k (snd (call n))"
  by (simp_all add: attempt_def)

lemma retry_loop_first:
  "fst (attempt call k n) \<Longrightarrow> (\<forall>i<k. \<not> fst (attempt call i n)) \<Longrightarrow> r + k < retry_max_times \<Longrightarrow>
   retry_loop call r n = ((SUCCESS, snd (attempt call k n)), after call (Suc k) n)"
proof (induction k arbitrary: r n)
  case 0
  then show ?case by (subst retry_loop.simps) (simp add: Let_def case_prod_beta)
next
  case (Suc k)
  have no: "\<not> fst (fst (call n))" using Suc.prems(2) by (metis attempt_simps(1) zero_less_Suc)
  have "\<forall>i<k. \<not> fst (attempt call i (snd (call n)))" using Suc.prems(2) by (metis Suc_mono attempt_simps(2))
  with Suc.IH [of "snd (call n)" "r + 1"] Suc.prems no show ?case
    by (subst retry_loop.simps) (simp add: Let_def case_prod_beta)
qed

lemma retry_loop_exhausted:
  "r + k = retry_max_times \<Longrightarrow> 0 < k \<Longrightarrow> (\<forall>i<k. \<not> fst (attempt call i n)) \<Longrightarrow>
   retry_loop call r n = ((FAIL, snd (attempt call (k - 1) n)), after call k n)"
proof (induction k arbitrary: r n)
  case (Suc k)
  have no: "\<not> fst (fst (call n))" using Suc.prems(3) by (metis attempt_simps(1) zero_less_Suc)
  have rest: "\<forall>i<k. \<not> fst (attempt call i (snd (call n)))" using Suc.prems(3) by (metis Suc_mono attempt_simps(2))
  show ?case
  proof (cases k)
    case 0
    with Suc.prems no show ?thesis by (subst retry_loop.simps) (simp add: Let_def case_prod_beta)
  next
    case (Suc j)
    with Suc.IH [of "r + 1" "snd (call n)"] Suc.prems no rest show ?thesis
      by (subst retry_loop.simps) (simp add: Let_def case_prod_beta)
  qed
qed simp

text \<open>Either some call among the first \<^verbatim>\<open>retry_max_times_\<close> is the first to succeed, or all of them fail.\<close>

lemma retry_loop_result:
  "(\<exists>k<retry_max_times. fst (attempt call k n) \<and> (\<forall>i<k. \<not> fst (attempt call i n)) \<and>
      retry_loop call 0 n = ((SUCCESS, snd (attempt call k n)), after call (Suc k) n)) \<or>
   ((\<forall>i<retry_max_times. \<not> fst (attempt call i n)) \<and>
      retry_loop call 0 n = ((FAIL, snd (attempt call (retry_max_times - 1) n)), after call retry_max_times n))"
proof (cases "\<exists>k<retry_max_times. fst (attempt call k n)")
  case True
  then obtain k where k: "k < retry_max_times" "fst (attempt call k n)" "\<forall>i<k. \<not> fst (attempt call i n)"
    using exists_least_iff [of "\<lambda>k. k < retry_max_times \<and> fst (attempt call k n)"] by auto
  from retry_loop_first [OF k(2,3), of 0] k show ?thesis by auto
next
  case False
  then show ?thesis using retry_loop_exhausted [of 0 retry_max_times call n] by (auto simp: retry_max_times_def)
qed

section \<open>Properties\<close>

text \<open>
  Data is cut into packages without loss: the requests that \<^verbatim>\<open>buildTaskRequest\<close> makes carry the data in
  order, none more than \<^verbatim>\<open>LIMITED_PACKAGE_SIZE\<close> bytes, all with the role, the total length and the ids of
  the task; there is one for empty data and otherwise as many as packages are needed.
\<close>

theorem requests_carry_data:
  "concat (map tr_data (buildTaskRequest (Some lc) role data)) = data \<and>
   length (buildTaskRequest (Some lc) role data) = (length data - 1) div LIMITED_PACKAGE_SIZE + 1 \<and>
   list_all (\<lambda>q. length (tr_data q) \<le> LIMITED_PACKAGE_SIZE \<and> tr_role q = role \<and>
       tr_data_len q = word_of_nat (length data) \<and> tc_request_id (tr_task_info q) = lc_request_id lc \<and>
       tc_task_id (tr_task_info q) = lc_task_id lc) (buildTaskRequest (Some lc) role data)"
proof -
  have "map tr_data (buildTaskRequest (Some lc) role data) = packages_from data 0"
    by (simp add: buildTaskRequest_def comp_def)
  moreover have "length (packages_from data 0) = (length data - 1) div LIMITED_PACKAGE_SIZE + 1"
    by (cases "data = []") (simp_all add: packages_from_last packages_from_length)
  ultimately show ?thesis
    by (auto simp: packages_from_concat buildTaskRequest_def BuildTaskInfo_def list_all_iff dest: packages_from_size)
qed

text \<open>
  A command is sent up to three times: \<^verbatim>\<open>executeTask\<close> returns \<^verbatim>\<open>SUCCESS\<close> with the reply of the first call
  whose status is OK and makes no call after it, and returns \<^verbatim>\<open>FAIL\<close> exactly when \<^verbatim>\<open>retry_max_times_\<close> calls
  have failed.
\<close>

theorem execute_task_retries:
  fixes rpc :: "('q, 'p, 'n) unary"
  assumes "call = rpc control_deadline request"
  shows "(\<exists>k. k < retry_max_times \<and> fst (attempt call k n) \<and> (\<forall>i. i < k \<longrightarrow> \<not> fst (attempt call i n)) \<and>
      executeTask rpc request n = ((SUCCESS, snd (attempt call k n)), after call (Suc k) n)) \<or>
    ((\<forall>i. i < retry_max_times \<longrightarrow> \<not> fst (attempt call i n)) \<and>
      executeTask rpc request n = ((FAIL, snd (attempt call (retry_max_times - 1) n)), after call retry_max_times n))"
  using retry_loop_result [of call n] assms by (simp add: executeTask_def)

theorem execute_task_retries_witness:
  "executeTask (\<lambda>_ request n. ((n = 2, request + n), n + 1)) 10 (0::nat) = ((SUCCESS, 12::nat), 3)"
proof -
  let ?rpc = "\<lambda>_ request n. ((n = 2, request + n), n + 1)"
  have after: "after (?rpc control_deadline 10) k (0::nat) = k" for k
  proof (induction k)
    case (Suc k)
    then show ?case by (simp only: after_Suc) simp
  qed simp
  show ?thesis
    using execute_task_retries [OF refl, of ?rpc "10::nat" "0::nat"] unfolding attempt_def after
    by (auto simp: retry_max_times_def dest: spec [of _ 2])
qed

text \<open>
  \<^verbatim>\<open>submitTask\<close> never reports a failure: it makes one call and returns \<^verbatim>\<open>SUCCESS\<close> whatever the status of
  this call is, because its loop ends in \<^verbatim>\<open>while (0)\<close>.
\<close>

theorem submit_task_never_fails:
  "submitTask rpc request n =
     ((SUCCESS, snd (fst (rpc control_deadline request n))), snd (rpc control_deadline request n))"
  by (simp add: submitTask_def retry_max_times_def case_prod_beta Let_def)

end
