(* ===== verification/Task_Worker.thy ===== *)
theory Task_Worker
  imports Grpc_Channel
begin

text \<open>
  \<^verbatim>\<open>Worker\<close> of \<^verbatim>\<open>node/worker/worker.cc\<close>, which runs one task on a node, in a thread or in a process of its
  own, and which on the scheduler's node collects the status reports of the parties. A
  \<^verbatim>\<open>std::promise\<close> is an optional value that can be set once. The task factory, the dataset service,
  serialisation and the launched process are parameters.
\<close>

section \<open>Messages\<close>

datatype StatusCode = ST_RUNNING | ST_SUCCESS | ST_FAIL | ST_NONEXIST | ST_FINISHED

record TaskStatus =
  ts_task_info :: TaskContext
  ts_party :: string
  ts_status :: StatusCode
  ts_message :: string

definition empty_TaskStatus :: TaskStatus where
  "empty_TaskStatus = \<lparr>ts_task_info = empty_TaskContext, ts_party = [], ts_status = ST_RUNNING, ts_message = []\<rparr>"

text \<open>
  A parameter of a task: the members of the \<^verbatim>\<open>oneof\<close> the sources look at; any other is \<open>value_other\<close> with its
  bytes, and an empty message has none.
\<close>

datatype param_value =
  value_not_set | value_int32 "32 word" | value_string string | value_int32_array "32 word list" |
  value_string_array "string list" | value_int64 i64 | value_other string

datatype VarType = VT_INT32 | VT_INT64 | VT_STRING | VT_FLOAT | VT_DOUBLE | VT_CHAR | VT_BYTE

record ParamValue =
  pv_var_type :: VarType
  pv_is_array :: bool
  pv_value :: param_value

definition empty_ParamValue :: ParamValue where
  "empty_ParamValue = \<lparr>pv_var_type = VT_INT32, pv_is_array = False, pv_value = value_not_set\<rparr>"

record Dataset =
  ds_data :: "string std_map"
  ds_detail :: bool

datatype Language = PYTHON | JAVA | CPP | PROTO

datatype TaskType = ACTOR_TASK | NODE_TASK | PIR_TASK | PSI_TASK | NODE_PIR_TASK | NODE_PSI_TASK | TEE_TASK |
  TEE_EXECUTOR_TASK | TEE_DATAPROVIDER_TASK

record pb_task =
  pt_type :: TaskType
  pt_language :: Language
  pt_code :: string
  pt_node_map :: "pb_node std_map"
  pt_task_info :: TaskContext
  pt_party_name :: string
  pt_params :: "ParamValue std_map"
  pt_party_datasets :: "Dataset std_map"
  pt_party_access_info :: "pb_node std_map"
  pt_auxiliary_server :: "pb_node std_map"

record PushTaskRequest =
  pr_task :: pb_task
  pr_manual_launch :: bool

section \<open>Tasks\<close>

record task =
  tk_stop :: bool
  tk_ctx_stop :: bool
  tk_link :: "LinkContext option"

definition new_task :: task where
  "new_task = \<lparr>tk_stop = False, tk_ctx_stop = False, tk_link = Some new_LinkContext\<rparr>"

definition task_kill :: "task \<Rightarrow> task" where
  "task_kill t = t\<lparr>tk_stop := True, tk_ctx_stop := True, tk_link := map_option Clean_link (tk_link t)\<rparr>"

section \<open>State\<close>

datatype TaskRunMode = THREAD | PROCESS

record Worker =
  wk_node_id :: string
  wk_worker_id :: string
  wk_task_info :: TaskContext
  task_ptr :: "task option"
  task_ready_promise :: "bool option"
  task_status_q :: "TaskStatus tsq"
  final_status :: "StatusCode std_map"
  task_finish_promise :: "retcode option"
  party_count :: nat
  scheduler_finished :: bool
  task_run_mode :: TaskRunMode
  process_running :: bool

definition new_Worker :: "string \<Rightarrow> TaskContext \<Rightarrow> Worker" where
  "new_Worker node_id task_info =
     \<lparr>wk_node_id = node_id, wk_worker_id = tc_request_id task_info, wk_task_info = task_info, task_ptr = None,
      task_ready_promise = None, task_status_q = new_tsq, final_status = [], task_finish_promise = None,
      party_count = 0, scheduler_finished = False, task_run_mode = PROCESS, process_running = False\<rparr>"

definition setPartyCount :: "nat \<Rightarrow> Worker \<Rightarrow> Worker" where
  "setPartyCount n w = w\<lparr>party_count := n\<rparr>"

text \<open>Setting a promise that has a value throws; reading one that has none waits.\<close>

definition set_ready :: "bool \<Rightarrow> Worker \<Rightarrow> Worker res" where
  "set_ready v w =
     (if task_ready_promise w = None then Inr (w\<lparr>task_ready_promise := Some v\<rparr>) else Inl (Raised ''promise already satisfied''))"

definition set_finish :: "retcode \<Rightarrow> Worker \<Rightarrow> Worker res" where
  "set_finish v w =
     (if task_finish_promise w = None then Inr (w\<lparr>task_finish_promise := Some v\<rparr>) else Inl (Raised ''promise already satisfied''))"

definition waitForTaskReady :: "Worker \<Rightarrow> retcode option" where
  "waitForTaskReady w = map_option (\<lambda>ready. if \<not> ready then FAIL else SUCCESS) (task_ready_promise w)"

definition waitUntilTaskFinish :: "Worker \<Rightarrow> retcode option" where
  "waitUntilTaskFinish w = task_finish_promise w"

section \<open>Running the task\<close>

text \<open>\<^verbatim>\<open>value_int32()\<close> of another kind of value is 0; \<^verbatim>\<open>PsiTag::TEE\<close> is 2.\<close>

definition ExecuteMode :: "PushTaskRequest \<Rightarrow> Worker \<Rightarrow> TaskRunMode" where
  "ExecuteMode request w =
     (case map_of (pt_params (pr_task request)) ''psiTag'' of
        Some v \<Rightarrow> (if (case pv_value v of value_int32 i \<Rightarrow> i | _ \<Rightarrow> 0) = 2 then THREAD else task_run_mode w)
      | None \<Rightarrow> task_run_mode w)"

text \<open>The moments at which a worker has its task and says so, in a thread and with a process.\<close>

definition thread_start :: "task \<Rightarrow> Worker \<Rightarrow> Worker res" where
  "thread_start t w = set_ready True (w\<lparr>task_ptr := Some t\<rparr>)"

definition process_start :: "Worker \<Rightarrow> Worker res" where
  "process_start w = bindR (set_ready True w) (\<lambda>w1. Inr (w1\<lparr>process_running := True\<rparr>))"

definition ExecuteTaskByThread ::
  "(PushTaskRequest \<Rightarrow> task option) \<Rightarrow> (task \<Rightarrow> int \<times> task) \<Rightarrow> PushTaskRequest \<Rightarrow> Worker \<Rightarrow> (retcode \<times> Worker) res" where
  "ExecuteTaskByThread create task_execute request w =
     (case create request of
        None \<Rightarrow> bindR (set_ready False (w\<lparr>task_ptr := None\<rparr>)) (\<lambda>w1. Inr (FAIL, w1))
      | Some t \<Rightarrow>
          bindR (thread_start t w) (\<lambda>w1.
          let (ret, t') = task_execute t; w2 = w1\<lparr>task_ptr := Some t'\<rparr> in
          Inr (if ret \<noteq> 0 then FAIL else SUCCESS, w2)))"

text \<open>
  The datasets of this party are replaced by their access information, when the dataset service
  knows it; the id moves to the parameters.
\<close>

fun access_datasets ::
  "(string \<Rightarrow> string option) \<Rightarrow> string std_map \<Rightarrow> ParamValue std_map \<Rightarrow> string std_map \<times> ParamValue std_map" where
  "access_datasets access_info [] params = ([], params)"
| "access_datasets access_info ((dataset_name, dataset_id) # rest) params =
     (case access_info dataset_id of
        None \<Rightarrow> let (ds, ps) = access_datasets access_info rest params in ((dataset_name, dataset_id) # ds, ps)
      | Some info \<Rightarrow>
          let (ds, ps) = access_datasets access_info rest (map_assign dataset_name (empty_ParamValue\<lparr>pv_value := value_string dataset_id\<rparr>) params) in
          ((dataset_name, info) # ds, ps))"

fun access_party ::
  "(string \<Rightarrow> string option) \<Rightarrow> string \<Rightarrow> Dataset std_map \<Rightarrow> ParamValue std_map \<Rightarrow> Dataset std_map \<times> ParamValue std_map" where
  "access_party access_info self [] params = ([], params)"
| "access_party access_info self ((party_name, datasets) # rest) params =
     (if party_name \<noteq> self
      then let (dss, ps) = access_party access_info self rest params in ((party_name, datasets) # dss, ps)
      else let (ds, ps) = access_datasets access_info (ds_data datasets) params;
               (dss, ps') = access_party access_info self rest ps in
           ((party_name, \<lparr>ds_data = ds, ds_detail = True\<rparr>) # dss, ps'))"

definition process_request :: "(string \<Rightarrow> string option) \<Rightarrow> PushTaskRequest \<Rightarrow> PushTaskRequest" where
  "process_request access_info request =
     (let t = pr_task request;
          (dss, ps) = access_party access_info (pt_party_name t) (pt_party_datasets t) (pt_params t) in
      request\<lparr>pr_task := t\<lparr>pt_party_datasets := dss, pt_params := ps\<rparr>\<rparr>)"

definition process_args :: "(string \<Rightarrow> string) \<Rightarrow> string \<Rightarrow> string \<Rightarrow> string \<Rightarrow> string \<Rightarrow> string list" where
  "process_args base64_encode node_id config_file task_config request_id =
     [''--node_id='' @ node_id, ''--config_file='' @ config_file, ''--request='' @ base64_encode task_config,
      ''--request_id='' @ request_id]"

text \<open>
  A line of the process's output: a line of the logging library gets the task inserted after its
  prefix. The position of \<^verbatim>\<open>]\<close> is \<^verbatim>\<open>npos\<close> when there is none, which the addition wraps to 0; the text after
  the prefix is one byte longer than the rest of the line and so ends in the terminating zero.
\<close>

definition forward_log :: "string \<Rightarrow> string \<Rightarrow> string option" where
  "forward_log TASK_INFO_STR log_content =
     (case log_content of
        [] \<Rightarrow> None
      | first_ch # _ \<Rightarrow>
          if first_ch \<in> {CHR ''I'', CHR ''W'', CHR ''E''} then
            let name_end = (if CHR '']'' \<in> set log_content then length (takeWhile (\<lambda>c. c \<noteq> CHR '']'') log_content) + 1 else 0) in
            Some (take name_end log_content @ '' '' @ TASK_INFO_STR @ drop name_end log_content @ [CHR 0x00])
          else Some (TASK_INFO_STR @ log_content))"

text \<open>
  What the operating system reports of the process: its lines of output and its exit code, \<open>None\<close>
  when waiting for it throws. The handle is dropped only on the successful path.
\<close>

definition ExecuteTaskByProcess ::
  "(string \<Rightarrow> string option) \<Rightarrow> (PushTaskRequest \<Rightarrow> string option) \<Rightarrow> (string \<Rightarrow> string) \<Rightarrow> string \<Rightarrow>
   (string list \<Rightarrow> string list \<times> int option) \<Rightarrow> PushTaskRequest \<Rightarrow> Worker \<Rightarrow> (retcode \<times> Worker) res" where
  "ExecuteTaskByProcess access_info serialize base64_encode config_file launch request w =
     (let w1 = w\<lparr>task_ptr := Some new_task\<rparr>; send_request = process_request access_info request in
      case serialize send_request of
        None \<Rightarrow> Inr (FAIL, w1)
      | Some task_config \<Rightarrow>
          let (output, exit_code) = launch (process_args base64_encode (wk_node_id w) config_file task_config
                                      (tc_request_id (pt_task_info (pr_task send_request)))) in
          bindR (process_start w1) (\<lambda>w2.
          case exit_code of
            None \<Rightarrow> Inr (FAIL, w2)
          | Some ret \<Rightarrow> if ret \<noteq> 0 then Inr (FAIL, w2) else Inr (SUCCESS, w2\<lparr>process_running := False\<rparr>)))"

definition execute_worker ::
  "(PushTaskRequest \<Rightarrow> Worker \<Rightarrow> (retcode \<times> Worker) res) \<Rightarrow> (PushTaskRequest \<Rightarrow> Worker \<Rightarrow> (retcode \<times> Worker) res) \<Rightarrow>
   PushTaskRequest \<Rightarrow> Worker \<Rightarrow> (retcode \<times> Worker) res" where
  "execute_worker by_thread by_process request w =
     (case ExecuteMode request w of THREAD \<Rightarrow> by_thread request w | PROCESS \<Rightarrow> by_process request w)"

definition kill_task :: "(unit \<Rightarrow> unit res) \<Rightarrow> Worker \<Rightarrow> Worker res" where
  "kill_task Process_kill w =
     (let w1 = (case task_ptr w of None \<Rightarrow> w | Some t \<Rightarrow> w\<lparr>task_ptr := Some (task_kill t)\<rparr>) in
      if process_running w1 then bindR (Process_kill ()) (\<lambda>_. Inr w1) else Inr w1)"

section \<open>Collecting status reports\<close>

definition worker_fetchTaskStatus :: "Worker \<Rightarrow> (retcode \<times> TaskStatus) \<times> Worker" where
  "worker_fetchTaskStatus w =
     (case q_try_pop (task_status_q w) of
        (Some s, q) \<Rightarrow> ((SUCCESS, s), w\<lparr>task_status_q := q\<rparr>)
      | (None, q) \<Rightarrow> ((FAIL, empty_TaskStatus), w\<lparr>task_status_q := q\<rparr>))"

definition finish_once :: "retcode \<Rightarrow> Worker \<Rightarrow> Worker res" where
  "finish_once v w =
     (if \<not> scheduler_finished w then bindR (set_finish v w) (\<lambda>w1. Inr (w1\<lparr>scheduler_finished := True\<rparr>)) else Inr w)"

definition record_final :: "TaskStatus \<Rightarrow> Worker \<Rightarrow> Worker res" where
  "record_final s w =
     (let w1 = w\<lparr>final_status := map_assign (ts_party s) (ts_status s) (final_status w)\<rparr> in
      bindR (if ts_status s = ST_FAIL then finish_once FAIL w1 else Inr w1) (\<lambda>w2.
      if length (final_status w2) = party_count w2 then finish_once SUCCESS w2 else Inr w2))"

definition worker_updateTaskStatus :: "TaskStatus \<Rightarrow> Worker \<Rightarrow> (retcode \<times> Worker) res" where
  "worker_updateTaskStatus s w =
     bindR (if ts_status s = ST_SUCCESS \<or> ts_status s = ST_FAIL then record_final s w else Inr w) (\<lambda>w1.
     Inr (SUCCESS, w1\<lparr>task_status_q := q_emplace s (task_status_q w1)\<rparr>))"

text \<open>A sequence of reports.\<close>

fun report_all :: "TaskStatus list \<Rightarrow> Worker \<Rightarrow> Worker res" where
  "report_all [] w = Inr w"
| "report_all (s # ss) w = bindR (worker_updateTaskStatus s w) (\<lambda>(_, w1). report_all ss w1)"

section \<open>The verdict\<close>

definition is_final :: "TaskStatus \<Rightarrow> bool" where
  "is_final s \<longleftrightarrow> ts_status s = ST_SUCCESS \<or> ts_status s = ST_FAIL"

definition reported :: "TaskStatus list \<Rightarrow> string set" where
  "reported sts = ts_party ` {s \<in> set sts. is_final s}"

text \<open>What the reports up to the first failure decide for \<open>c\<close> expected parties.\<close>

definition verdict :: "nat \<Rightarrow> TaskStatus list \<Rightarrow> retcode option" where
  "verdict c sts =
     (let clean = takeWhile (\<lambda>s. ts_status s \<noteq> ST_FAIL) sts in
      if 0 < c \<and> c \<le> card (reported clean) then Some SUCCESS else if clean \<noteq> sts then Some FAIL else None)"

text \<open>
  The same when the reports \<open>early\<close> came before the number of parties was known: a failure among them decides at once; otherwise
  the parties are counted when a later final report comes, and success needs exactly \<open>c\<close> of them then.
\<close>

definition failed :: "TaskStatus list \<Rightarrow> bool" where
  "failed sts \<longleftrightarrow> list_ex (\<lambda>s. ts_status s = ST_FAIL) sts"

definition completes :: "nat \<Rightarrow> TaskStatus list \<Rightarrow> TaskStatus list \<Rightarrow> bool" where
  "completes c early late \<longleftrightarrow>
     list_ex (\<lambda>k. is_final (late ! k) \<and> \<not> failed (take (Suc k) late) \<and> card (reported (early @ take (Suc k) late)) = c) [0..<length late]"

definition verdict_after :: "nat \<Rightarrow> TaskStatus list \<Rightarrow> TaskStatus list \<Rightarrow> retcode option" where
  "verdict_after c early late =
     (if failed early then Some FAIL else if completes c early late then Some SUCCESS else if failed late then Some FAIL else None)"

text \<open>What a worker knows after these reports; before it knows the number of parties this is 0.\<close>

definition collected :: "nat \<Rightarrow> TaskStatus list \<Rightarrow> TaskStatus list \<Rightarrow> Worker \<Rightarrow> bool" where
  "collected c early late w \<longleftrightarrow>
     party_count w = c \<and> map_wf (final_status w) \<and> fst ` set (final_status w) = reported (early @ late) \<and>
     task_finish_promise w = verdict_after c early late \<and> (scheduler_finished w \<longleftrightarrow> task_finish_promise w \<noteq> None) \<and>
     m_queue (task_status_q w) = early @ late"

lemma finish_once_total: "(scheduler_finished w \<longleftrightarrow> task_finish_promise w \<noteq> None) \<Longrightarrow>
  finish_once v w = Inr (if task_finish_promise w = None then w\<lparr>task_finish_promise := Some v, scheduler_finished := True\<rparr> else w)"
  by (auto simp: finish_once_def set_finish_def)

lemma finite_reported [simp]: "finite (reported sts)"
  by (simp add: reported_def)

lemma reported_snoc: "reported (sts @ [s]) = (if is_final s then insert (ts_party s) (reported sts) else reported sts)"
  by (auto simp: reported_def)

lemma reported_Cons: "reported [] = {}" "reported (s # sts) = (if is_final s then insert (ts_party s) (reported sts) else reported sts)"
  by (auto simp: reported_def)

lemma reported_mono: "card (reported (takeWhile P sts)) \<le> card (reported sts)"
  by (intro card_mono) (auto simp: reported_def dest: set_takeWhileD)

lemma map_assign_keys: "fst ` set (map_assign k v m) = insert k (fst ` set m)"
  by (auto simp: map_assign_def image_iff)

lemma map_wf_length: "map_wf m \<Longrightarrow> length m = card (fst ` set m)"
  by (metis distinct_card length_map list.set_map map_wf_def)

abbreviation until_failure :: "TaskStatus list \<Rightarrow> TaskStatus list" where
  "until_failure \<equiv> takeWhile (\<lambda>s. ts_status s \<noteq> ST_FAIL)"

lemma verdict_failed: "until_failure sts \<noteq> sts \<Longrightarrow>
  verdict c sts = Some (if 0 < c \<and> c \<le> card (reported (until_failure sts)) then SUCCESS else FAIL)"
  by (simp add: verdict_def Let_def del: takeWhile_eq_all_conv)

lemma verdict_clean: "until_failure sts = sts \<Longrightarrow>
  verdict c sts = (if 0 < c \<and> c \<le> card (reported sts) then Some SUCCESS else None)"
  by (simp add: verdict_def Let_def del: takeWhile_eq_all_conv)

lemma verdict_snoc:
  "verdict c (sts @ [s]) =
     (if verdict c sts \<noteq> None then verdict c sts
      else if ts_status s = ST_FAIL then Some FAIL
      else if 0 < c \<and> c \<le> card (reported (sts @ [s])) then Some SUCCESS else None)"
proof (cases "until_failure sts = sts")
  case False
  then have same: "until_failure (sts @ [s]) = until_failure sts" by (auto simp: takeWhile_append1)
  have "length (until_failure sts) \<le> length sts" by (rule length_takeWhile_le)
  then have "until_failure (sts @ [s]) \<noteq> sts @ [s]" unfolding same
    by (metis length_append_singleton not_less_eq_eq order_refl)
  from verdict_failed [OF False] verdict_failed [OF this] show ?thesis by (simp add: same)
next
  case True
  have more: "card (reported sts) \<le> card (reported (sts @ [s]))"
    by (intro card_mono) (auto simp: reported_def)
  have ext: "until_failure (sts @ [s]) = sts @ (if ts_status s = ST_FAIL then [] else [s])"
    using True by (auto simp: takeWhile_append2)
  show ?thesis
  proof (cases "ts_status s = ST_FAIL")
    case fail: True
    then have "verdict c (sts @ [s]) = Some (if 0 < c \<and> c \<le> card (reported sts) then SUCCESS else FAIL)"
      using ext verdict_failed [of "sts @ [s]" c] by simp
    then show ?thesis using verdict_clean [OF True] fail by simp
  next
    case ok: False
    then have "until_failure (sts @ [s]) = sts @ [s]" using ext by simp
    from verdict_clean [OF this] verdict_clean [OF True] more ok show ?thesis by auto
  qed
qed

lemma verdict_None: "verdict c sts = None \<Longrightarrow> c = 0 \<or> card (reported sts) < c"
  using verdict_failed [of sts c] verdict_clean [of sts c] by (cases "until_failure sts = sts") (auto split: if_splits)

lemma completes_snoc:
  "completes c early (late @ [s]) \<longleftrightarrow>
     completes c early late \<or> is_final s \<and> \<not> failed (late @ [s]) \<and> card (reported (early @ late @ [s])) = c"
proof -
  have "list_ex (\<lambda>k. is_final ((late @ [s]) ! k) \<and> \<not> failed (take (Suc k) (late @ [s])) \<and> card (reported (early @ take (Suc k) (late @ [s]))) = c) [0..<length late] =
      completes c early late"
    unfolding completes_def by (rule list_ex_cong) (auto simp: nth_append)
  then show ?thesis by (auto simp: completes_def [of c early "late @ [s]"])
qed

lemma failed_snoc: "failed (sts @ [s]) \<longleftrightarrow> failed sts \<or> ts_status s = ST_FAIL"
  by (auto simp: failed_def)

lemma verdict_after_snoc:
  "verdict_after c early (late @ [s]) =
     (if verdict_after c early late \<noteq> None then verdict_after c early late
      else if ts_status s = ST_FAIL then Some FAIL
      else if is_final s \<and> card (reported (early @ late @ [s])) = c then Some SUCCESS else None)"
  by (auto simp: verdict_after_def completes_snoc failed_snoc)

text \<open>Without early reports the number of parties is met exactly when it is reached.\<close>

lemma verdict_no_early: "verdict_after c [] sts = verdict c sts"
proof (induction sts rule: rev_induct)
  case Nil
  show ?case by (cases c) (simp_all add: verdict_after_def completes_def failed_def verdict_clean reported_def)
next
  case (snoc s sts)
  have step: "card (reported (sts @ [s])) \<le> Suc (card (reported sts))" "is_final s \<Longrightarrow> card (reported (sts @ [s])) \<noteq> 0"
    "\<not> is_final s \<Longrightarrow> reported (sts @ [s]) = reported sts"
    by (auto simp: reported_snoc card_insert_if card_gt_0_iff)
  show ?case
  proof (cases "verdict c sts")
    case None
    then show ?thesis using snoc step verdict_None [OF None] by (cases "is_final s") (auto simp: verdict_after_snoc verdict_snoc)
  qed (simp add: verdict_after_snoc verdict_snoc snoc)
qed

text \<open>One report: no exception, and the worker knows one report more.\<close>

lemma record_final_step:
  assumes w: "collected c early late w" and final: "is_final s"
  shows "\<exists>w'. record_final s w = Inr w' \<and> party_count w' = c \<and> map_wf (final_status w') \<and>
    fst ` set (final_status w') = reported (early @ late @ [s]) \<and> task_finish_promise w' = verdict_after c early (late @ [s]) \<and>
    (scheduler_finished w' \<longleftrightarrow> task_finish_promise w' \<noteq> None) \<and> task_status_q w' = task_status_q w"
proof -
  define w1 where "w1 = w\<lparr>final_status := map_assign (ts_party s) (ts_status s) (final_status w)\<rparr>"
  define w2 where "w2 = (if ts_status s = ST_FAIL \<and> task_finish_promise w = None
    then w1\<lparr>task_finish_promise := Some FAIL, scheduler_finished := True\<rparr> else w1)"
  have keys: "fst ` set (final_status w1) = reported (early @ late @ [s])" "map_wf (final_status w1)"
    using w final reported_snoc [of "early @ late" s] by (auto simp: w1_def collected_def map_assign_keys)
  have flags: "scheduler_finished w1 \<longleftrightarrow> task_finish_promise w1 \<noteq> None" "task_finish_promise w1 = verdict_after c early late" "party_count w1 = c"
    using w by (simp_all add: w1_def collected_def)
  have len: "length (final_status w1) = card (reported (early @ late @ [s]))"
    using map_wf_length [OF keys(2)] keys(1) by simp
  have w2: "(if ts_status s = ST_FAIL then finish_once FAIL w1 else Inr w1) = Inr w2"
    using flags w by (auto simp: w2_def finish_once_total w1_def collected_def)
  have "final_status w2 = final_status w1" "party_count w2 = c"
    "scheduler_finished w2 \<longleftrightarrow> task_finish_promise w2 \<noteq> None" "task_status_q w2 = task_status_q w"
    using flags by (auto simp: w2_def w1_def)
  note w2s = this
  have "record_final s w = (if card (reported (early @ late @ [s])) = c then finish_once SUCCESS w2 else Inr w2)"
    using w2 w2s len by (simp add: record_final_def w1_def [symmetric] Let_def)
  moreover have "task_finish_promise w2 = (if verdict_after c early late = None \<and> ts_status s = ST_FAIL then Some FAIL else verdict_after c early late)"
    using flags w by (auto simp: w2_def collected_def)
  ultimately show ?thesis
    using w2s keys final by (auto simp: finish_once_total verdict_after_snoc)
qed

lemma update_step:
  assumes w: "collected c early late w"
  shows "\<exists>w'. worker_updateTaskStatus s w = Inr (SUCCESS, w') \<and> collected c early (late @ [s]) w'"
proof (cases "is_final s")
  case True
  from record_final_step [OF w this] obtain w1 where w1: "record_final s w = Inr w1" "party_count w1 = c"
    "map_wf (final_status w1)" "fst ` set (final_status w1) = reported (early @ late @ [s])"
    "task_finish_promise w1 = verdict_after c early (late @ [s])" "scheduler_finished w1 \<longleftrightarrow> task_finish_promise w1 \<noteq> None"
    "task_status_q w1 = task_status_q w" by blast
  then show ?thesis using True w
    by (simp add: worker_updateTaskStatus_def is_final_def collected_def q_emplace_def)
next
  case False
  then have "reported (early @ late @ [s]) = reported (early @ late)" using reported_snoc [of "early @ late" s] by simp
  moreover have "verdict_after c early (late @ [s]) = verdict_after c early late"
    using False by (auto simp: verdict_after_snoc is_final_def)
  ultimately show ?thesis using False w
    by (simp add: worker_updateTaskStatus_def is_final_def collected_def q_emplace_def)
qed

lemma report_all_collected:
  "collected c early late w \<Longrightarrow> \<exists>w'. report_all sts w = Inr w' \<and> collected c early (late @ sts) w'"
proof (induction sts arbitrary: late w)
  case (Cons s sts)
  from update_step [OF Cons.prems, of s] obtain w1 where
    "worker_updateTaskStatus s w = Inr (SUCCESS, w1)" "collected c early (late @ [s]) w1" by blast
  with Cons.IH [of "late @ [s]" w1] show ?case by simp
qed auto

lemma new_Worker_collected: "collected 0 [] [] (new_Worker node_id task_info)"
  by (simp add: collected_def new_Worker_def reported_def verdict_no_early verdict_clean new_tsq_def)

text \<open>Setting the number of parties makes the reports so far early ones.\<close>

lemma count_collected:
  assumes "collected 0 [] sts w"
  shows "collected c sts [] (setPartyCount c w)"
proof -
  have "verdict 0 sts = verdict_after c sts []"
    using verdict_failed [of sts 0] verdict_clean [of sts 0] by (auto simp: verdict_after_def completes_def failed_def list_ex_iff)
  then show ?thesis using assms by (simp add: collected_def setPartyCount_def verdict_no_early)
qed

lemma reports_around_count:
  "\<exists>w1 w. report_all early (new_Worker node_id task_info) = Inr w1 \<and> report_all late (setPartyCount c w1) = Inr w \<and> collected c early late w"
proof -
  obtain w1 where w1: "report_all early (new_Worker node_id task_info) = Inr w1" "collected 0 [] early w1"
    using report_all_collected [OF new_Worker_collected, of early] by auto
  from report_all_collected [OF count_collected [OF w1(2), of c], of late] w1(1) show ?thesis by auto
qed

text \<open>Calls of \<^verbatim>\<open>fetchTaskStatus\<close> one after the other.\<close>

fun fetches :: "nat \<Rightarrow> Worker \<Rightarrow> (retcode \<times> TaskStatus) list" where
  "fetches 0 w = []"
| "fetches (Suc k) w = (let (r, w1) = worker_fetchTaskStatus w in r # fetches k w1)"

lemma fetches_in_order:
  "m_queue (task_status_q w) = sts \<Longrightarrow> fetches (Suc (length sts)) w = map (Pair SUCCESS) sts @ [(FAIL, empty_TaskStatus)]"
  by (induction sts arbitrary: w) (simp_all add: worker_fetchTaskStatus_def q_try_pop_def)

section \<open>Properties\<close>

text \<open>
  C35. The scheduler's verdict. Reports that come before \<^verbatim>\<open>setPartyCount\<close> (\<open>early\<close>) and after it (\<open>late\<close>) are all accepted without an
  exception, and fetching returns them in order and then nothing. The task is decided as follows: \<^verbatim>\<open>FAIL\<close> if an early report was a failure;
  otherwise \<^verbatim>\<open>SUCCESS\<close> if at some final late report, with no failure up to it, exactly \<open>c\<close> different parties
  had finished; otherwise \<^verbatim>\<open>FAIL\<close> if a late report was a failure; otherwise it is undecided. Without early reports this is \<^verbatim>\<open>SUCCESS\<close> exactly if at
  least \<open>c\<close> parties had finished before the first failure.
\<close>

theorem scheduler_verdict:
  "\<exists>w1 w. report_all early (new_Worker node_id task_info) = Inr w1 \<and> report_all late (setPartyCount c w1) = Inr w \<and>
     waitUntilTaskFinish w = verdict_after c early late \<and>
     fetches (Suc (length (early @ late))) w = map (Pair SUCCESS) (early @ late) @ [(FAIL, empty_TaskStatus)] \<and>
     (early = [] \<longrightarrow> verdict_after c early late = verdict c late)"
proof -
  obtain w1 w where w: "report_all early (new_Worker node_id task_info) = Inr w1" "report_all late (setPartyCount c w1) = Inr w"
    "collected c early late w" using reports_around_count by blast
  then have "m_queue (task_status_q w) = early @ late" "waitUntilTaskFinish w = verdict_after c early late"
    by (simp_all add: collected_def waitUntilTaskFinish_def)
  then show ?thesis using w(1,2) fetches_in_order [of w "early @ late"] verdict_no_early [of c late] by simp
qed

theorem scheduler_verdict_witness:
  "let ok = (\<lambda>p. empty_TaskStatus\<lparr>ts_party := p, ts_status := ST_SUCCESS\<rparr>) in
   \<exists>w1 w. report_all [] (new_Worker ''n'' empty_TaskContext) = Inr w1 \<and> report_all [ok ''A'', ok ''B''] (setPartyCount 2 w1) = Inr w \<and>
     waitUntilTaskFinish w = Some SUCCESS"
proof -
  let ?ok = "\<lambda>p. empty_TaskStatus\<lparr>ts_party := p, ts_status := ST_SUCCESS\<rparr>"
  have "reported [?ok ''A'', ?ok ''B''] = {''A'', ''B''}" by (simp add: reported_Cons is_final_def)
  then have v: "verdict 2 [?ok ''A'', ?ok ''B''] = Some SUCCESS" by (simp add: verdict_def)
  from scheduler_verdict [of "[]" "''n''" empty_TaskContext "[?ok ''A'', ?ok ''B'']" 2] obtain w1 w where
    "report_all [] (new_Worker ''n'' empty_TaskContext) = Inr w1" "report_all [?ok ''A'', ?ok ''B''] (setPartyCount 2 w1) = Inr w"
    "waitUntilTaskFinish w = verdict_after 2 [] [?ok ''A'', ?ok ''B'']" "verdict_after 2 [] [?ok ''A'', ?ok ''B''] = verdict 2 [?ok ''A'', ?ok ''B'']"
    by blast
  then show ?thesis unfolding Let_def v by metis
qed

text \<open>
  Reports that come before the number of parties is known are lost for the verdict: if all parties
  report success before \<^verbatim>\<open>setPartyCount\<close>, the task stays undecided afterwards, and the thread that waits
  for its end waits on. Only failures are seen early.
\<close>

theorem early_success_is_lost:
  "\<exists>w. report_all sts (new_Worker node_id task_info) = Inr w \<and>
     waitUntilTaskFinish (setPartyCount c w) = (if failed sts then Some FAIL else None)"
  using reports_around_count [of sts node_id task_info "[]" c]
  by (auto simp: waitUntilTaskFinish_def collected_def verdict_after_def completes_def failed_def)

text \<open>
  If the task cannot be serialised, a worker in process mode reports failure but never says whether
  the task is ready, so the caller of \<^verbatim>\<open>waitForTaskReady\<close> waits on; when the process starts, the task is
  ready and the result is \<^verbatim>\<open>SUCCESS\<close> exactly for the exit code 0.
\<close>

theorem process_ready:
  assumes "task_ready_promise w = None"
  shows "\<exists>ret w'. ExecuteTaskByProcess access_info serialize base64_encode config_file launch request w = Inr (ret, w') \<and>
    (case serialize (process_request access_info request) of
       None \<Rightarrow> ret = FAIL \<and> waitForTaskReady w' = None
     | Some cfg \<Rightarrow> waitForTaskReady w' = Some SUCCESS \<and>
         (ret = SUCCESS \<longleftrightarrow> snd (launch (process_args base64_encode (wk_node_id w) config_file cfg
            (tc_request_id (pt_task_info (pr_task request))))) = Some 0))"
proof -
  have "tc_request_id (pt_task_info (pr_task (process_request access_info request))) = tc_request_id (pt_task_info (pr_task request))"
    by (simp add: process_request_def Let_def case_prod_beta)
  then show ?thesis using assms
    by (auto simp: ExecuteTaskByProcess_def process_start_def waitForTaskReady_def set_ready_def Let_def case_prod_beta split: option.splits)
qed

theorem process_ready_witness:
  "\<exists>w'. ExecuteTaskByProcess (\<lambda>_. None) (\<lambda>_. None) id [] (\<lambda>_. ([], None))
      \<lparr>pr_task = \<lparr>pt_type = ACTOR_TASK, pt_language = PROTO, pt_code = [], pt_node_map = [], pt_task_info = empty_TaskContext, pt_party_name = [], pt_params = [], pt_party_datasets = [],
         pt_party_access_info = [], pt_auxiliary_server = []\<rparr>, pr_manual_launch = False\<rparr>
      (new_Worker ''n'' empty_TaskContext) = Inr (FAIL, w') \<and> waitForTaskReady w' = None"
  using process_ready [of "new_Worker ''n'' empty_TaskContext" "\<lambda>_. None" "\<lambda>_. None" id "[]" "\<lambda>_. ([], None)"]
  by (force simp: new_Worker_def)

end
