(* ===== verification/Vm_Node.thy ===== *)
theory Vm_Node
  imports Task_Worker
begin

text \<open>
  \<^verbatim>\<open>VMNodeImpl\<close> of \<^verbatim>\<open>node/node_impl.cc\<close>: the registry of a node's workers, the queue of the thread that
  manages it, the cache of finished tasks, the filter of repeated tasks, the handlers of the data
  and control requests, and one turn of each of the node's threads. Workers are shared objects: the
  maps hold references into a store. The time of day is an argument. Where a handler polls for a
  worker, a list of ticks says what the other threads did during each pause and how much time had
  passed after it.
\<close>

section \<open>State\<close>

datatype OperateTaskType = kUnknown | kAdd | kDel | kKill

type_synonym task_manage = "string \<times> nat option \<times> OperateTaskType"

record VMNodeImpl =
  vn_node_id :: string
  duplicate_task_id_filter :: "int std_map"
  worker_store :: "Worker list"
  task_executor_map :: "nat option list std_map"
  task_scheduler_map :: "nat std_map"
  finished_task_status :: "(StatusCode \<times> int) std_map"
  task_manage_queue :: "task_manage tsq"
  write_flag :: bool
  finished_task_queue :: "nat option list tsq"
  kill_task_queue :: "nat option list tsq"
  finished_scheduler_workers :: "string tsq"
  vn_stop :: bool

definition new_VMNodeImpl :: "string \<Rightarrow> VMNodeImpl" where
  "new_VMNodeImpl node_id =
     \<lparr>vn_node_id = node_id, duplicate_task_id_filter = [], worker_store = [], task_executor_map = [],
      task_scheduler_map = [], finished_task_status = [], task_manage_queue = new_tsq, write_flag = False,
      finished_task_queue = new_tsq, kill_task_queue = new_tsq, finished_scheduler_workers = new_tsq, vn_stop = False\<rparr>"

definition task_id_timeout_s :: int where "task_id_timeout_s = 30"

definition cached_task_status_timeout :: int where "cached_task_status_timeout = 5"

definition scheduler_worker_timeout_s :: int where "scheduler_worker_timeout_s = 20"

definition wait_worker_ready_timeout_ms :: int where "wait_worker_ready_timeout_ms = 5 * 1000"

definition map_erase :: "'k \<Rightarrow> ('k \<times> 'v) list \<Rightarrow> ('k \<times> 'v) list" where
  "map_erase k m = filter (\<lambda>e. fst e \<noteq> k) m"

section \<open>Looking up\<close>

definition GetWorkerId :: "TaskContext \<Rightarrow> string" where
  "GetWorkerId task_info = tc_request_id task_info"

text \<open>A new worker is an object of its own; the result is its reference.\<close>

definition CreateWorker :: "TaskContext \<Rightarrow> VMNodeImpl \<Rightarrow> nat \<times> VMNodeImpl" where
  "CreateWorker task_info vn =
     (length (worker_store vn), vn\<lparr>worker_store := worker_store vn @ [new_Worker (vn_node_id vn) task_info]\<rparr>)"

definition GetWorker :: "TaskContext \<Rightarrow> VMNodeImpl \<Rightarrow> nat option res" where
  "GetWorker task_info vn =
     (case map_of (task_executor_map vn) (GetWorkerId task_info) of
        Some (r # _) \<Rightarrow> Inr r
      | Some [] \<Rightarrow> Inl (Undefined ''front of an empty queue'')
      | None \<Rightarrow> Inr None)"

definition GetSchedulerWorker :: "TaskContext \<Rightarrow> VMNodeImpl \<Rightarrow> nat option" where
  "GetSchedulerWorker task_info vn = map_of (task_scheduler_map vn) (GetWorkerId task_info)"

definition IsTaskWorkerReady :: "string \<Rightarrow> VMNodeImpl \<Rightarrow> bool" where
  "IsTaskWorkerReady worker_id vn = (if write_flag vn then False else map_of (task_executor_map vn) worker_id \<noteq> None)"

definition CacheLastTaskStatus :: "int \<Rightarrow> string \<Rightarrow> StatusCode \<Rightarrow> VMNodeImpl \<Rightarrow> VMNodeImpl" where
  "CacheLastTaskStatus now worker_id status vn =
     vn\<lparr>finished_task_status := map_assign worker_id (status, now) (finished_task_status vn)\<rparr>"

definition IsFinishedTask :: "string \<Rightarrow> VMNodeImpl \<Rightarrow> bool \<times> StatusCode" where
  "IsFinishedTask worker_id vn =
     (case map_of (finished_task_status vn) worker_id of
        Some (status, _) \<Rightarrow> (True, status)
      | None \<Rightarrow> (False, ST_FINISHED))"

section \<open>Repeated tasks\<close>

definition CleanDuplicateTaskIdFilter :: "int \<Rightarrow> VMNodeImpl \<Rightarrow> VMNodeImpl" where
  "CleanDuplicateTaskIdFilter now vn =
     (let timeouted = map fst (filter (\<lambda>(_, c_time). now - c_time > task_id_timeout_s) (duplicate_task_id_filter vn)) in
      vn\<lparr>duplicate_task_id_filter := fold map_erase timeouted (duplicate_task_id_filter vn)\<rparr>)"

definition task_uid :: "TaskContext \<Rightarrow> string" where
  "task_uid task_info = tc_request_id task_info @ ''_'' @ tc_sub_task_id task_info"

definition IsDuplicateTask :: "int \<Rightarrow> TaskContext \<Rightarrow> VMNodeImpl \<Rightarrow> bool \<times> VMNodeImpl" where
  "IsDuplicateTask now task_info vn =
     (case map_of (duplicate_task_id_filter vn) (task_uid task_info) of
        Some _ \<Rightarrow> (True, vn)
      | None \<Rightarrow> (False, vn\<lparr>duplicate_task_id_filter := map_insert (task_uid task_info) now (duplicate_task_id_filter vn)\<rparr>))"

section \<open>Status reports\<close>

definition GetSchedulerNode :: "PushTaskRequest \<Rightarrow> Node \<Rightarrow> retcode \<times> Node" where
  "GetSchedulerNode request scheduler_node =
     (case map_of (pt_auxiliary_server (pr_task request)) ''SCHEDULER_NODE'' of
        Some pb \<Rightarrow> (SUCCESS, pbNode2Node pb scheduler_node)
      | None \<Rightarrow> (FAIL, scheduler_node))"

definition new_Node :: Node where
  "new_Node = \<lparr>nd_id = [], nd_ip = [], nd_port = 0, nd_use_tls = False, nd_role = []\<rparr>"

text \<open>The report is sent over the channel to the scheduler; \<open>update\<close> is \<^verbatim>\<open>updateTaskStatus\<close> of that channel.\<close>

definition NotifyTaskStatus ::
  "(Node \<Rightarrow> TaskStatus \<Rightarrow> 'n \<Rightarrow> retcode \<times> 'n) \<Rightarrow> PushTaskRequest \<Rightarrow> StatusCode \<Rightarrow> string \<Rightarrow> 'n \<Rightarrow> retcode \<times> 'n" where
  "NotifyTaskStatus update request status message n =
     (let (ret, scheduler_node) = GetSchedulerNode request new_Node in
      if ret \<noteq> SUCCESS then (FAIL, n)
      else update scheduler_node
        \<lparr>ts_task_info = pt_task_info (pr_task request), ts_party = pt_party_name (pr_task request),
         ts_status = status, ts_message = message\<rparr> n)"

text \<open>Applying a method to a worker object. A reference always points into the store.\<close>

definition at_worker :: "nat \<Rightarrow> (Worker \<Rightarrow> ('a \<times> Worker) res) \<Rightarrow> VMNodeImpl \<Rightarrow> ('a \<times> VMNodeImpl) res" where
  "at_worker r f vn =
     (if r < length (worker_store vn)
      then bindR (f (worker_store vn ! r)) (\<lambda>(a, w). Inr (a, vn\<lparr>worker_store := (worker_store vn)[r := w]\<rparr>))
      else Inl (Undefined ''dangling worker''))"

definition UpdateTaskStatus :: "TaskStatus \<Rightarrow> VMNodeImpl \<Rightarrow> (retcode \<times> VMNodeImpl) res" where
  "UpdateTaskStatus s vn =
     (case GetSchedulerWorker (ts_task_info s) vn of
        None \<Rightarrow> Inr (FAIL, vn)
      | Some r \<Rightarrow> bindR (at_worker r (worker_updateTaskStatus s) vn) (\<lambda>(_, vn1). Inr (SUCCESS, vn1)))"

text \<open>
  The loop adds an entry to the reply before it asks for a report, so the entry of the last,
  unsuccessful attempt stays in the reply. It takes one turn per waiting report and one more.
\<close>

fun fetch_loop :: "nat \<Rightarrow> Worker \<Rightarrow> TaskStatus list \<times> Worker" where
  "fetch_loop 0 w = ([], w)"
| "fetch_loop (Suc fuel) w =
     (let ((ret, status), w1) = worker_fetchTaskStatus w in
      if ret \<noteq> SUCCESS then ([status], w1)
      else let (rest, w2) = fetch_loop fuel w1 in (status # rest, w2))"

definition FetchTaskStatus :: "TaskContext \<Rightarrow> VMNodeImpl \<Rightarrow> (TaskStatus list \<times> VMNodeImpl) res" where
  "FetchTaskStatus task_info vn =
     (case GetSchedulerWorker task_info vn of
        None \<Rightarrow> Inr ([empty_TaskStatus\<lparr>ts_status := ST_NONEXIST, ts_message := ''No shecudler found for task''\<rparr>], vn)
      | Some r \<Rightarrow> at_worker r (\<lambda>w. Inr (fetch_loop (Suc (length (m_queue (task_status_q w)))) w)) vn)"

section \<open>Data requests\<close>

text \<open>A tick of the polling loop: what the other threads did, and the milliseconds since the loop began.\<close>

type_synonym tick = "(VMNodeImpl \<Rightarrow> VMNodeImpl) \<times> int"

fun WaitUntilWorkerReady :: "string \<Rightarrow> int \<Rightarrow> tick list \<Rightarrow> VMNodeImpl \<Rightarrow> retcode option \<times> VMNodeImpl" where
  "WaitUntilWorkerReady worker_id timeout_ms ticks vn =
     (if IsTaskWorkerReady worker_id vn then (Some SUCCESS, vn)
      else case ticks of
        [] \<Rightarrow> (None, vn)
      | (others, time_elapse_ms) # ticks' \<Rightarrow>
          let vn1 = others vn in
          if timeout_ms = -1 then WaitUntilWorkerReady worker_id timeout_ms ticks' vn1
          else if time_elapse_ms > timeout_ms then (Some FAIL, vn1)
          else WaitUntilWorkerReady worker_id timeout_ms ticks' vn1)"

declare WaitUntilWorkerReady.simps [simp del]

text \<open>
  The beginning of the four data handlers: the task must not have finished, its worker must appear
  in time and have a link context. A null worker or context is refused; \<^verbatim>\<open>getTask()\<close> is not checked.
\<close>

datatype lookup = Polling | Refused | Found nat task LinkContext

definition find_link :: "tick list \<Rightarrow> TaskContext \<Rightarrow> VMNodeImpl \<Rightarrow> (lookup \<times> VMNodeImpl) res" where
  "find_link ticks task_info vn =
     (let worker_id = GetWorkerId task_info in
      if fst (IsFinishedTask worker_id vn) then Inr (Refused, vn)
      else case WaitUntilWorkerReady worker_id wait_worker_ready_timeout_ms ticks vn of
        (None, vn1) \<Rightarrow> Inr (Polling, vn1)
      | (Some FAIL, vn1) \<Rightarrow> Inr (Refused, vn1)
      | (Some SUCCESS, vn1) \<Rightarrow>
          bindR (GetWorker task_info vn1) (\<lambda>worker_ptr.
          case worker_ptr of
            None \<Rightarrow> Inr (Refused, vn1)
          | Some r \<Rightarrow>
              if r < length (worker_store vn1) then
                (case task_ptr (worker_store vn1 ! r) of
                   None \<Rightarrow> Inl (Undefined ''getTask() is null'')
                 | Some t \<Rightarrow> Inr (case tk_link t of None \<Rightarrow> Refused | Some lc \<Rightarrow> Found r t lc, vn1))
              else Inl (Undefined ''dangling worker'')))"

definition set_link :: "nat \<Rightarrow> task \<Rightarrow> LinkContext \<Rightarrow> VMNodeImpl \<Rightarrow> VMNodeImpl" where
  "set_link r t lc vn =
     vn\<lparr>worker_store := (worker_store vn)[r := (worker_store vn ! r)\<lparr>task_ptr := Some (t\<lparr>tk_link := Some lc\<rparr>)\<rparr>]\<rparr>"

text \<open>What a handler then does with the context; \<open>None\<close> means that the call sleeps on a queue.\<close>

definition with_link ::
  "tick list \<Rightarrow> TaskContext \<Rightarrow> (LinkContext \<Rightarrow> LinkContext \<times> 'a option) \<Rightarrow> 'a \<Rightarrow> VMNodeImpl \<Rightarrow> ((retcode \<times> 'a) option \<times> VMNodeImpl) res" where
  "with_link ticks task_info f buffer vn =
     bindR (find_link ticks task_info vn) (\<lambda>(l, vn1).
     case l of
       Polling \<Rightarrow> Inr (None, vn1)
     | Refused \<Rightarrow> Inr (Some (FAIL, buffer), vn1)
     | Found r t lc \<Rightarrow> let (lc1, a) = f lc in Inr (map_option (\<lambda>x. (SUCCESS, x)) a, set_link r t lc1 vn1))"

definition ProcessReceivedData ::
  "tick list \<Rightarrow> TaskContext \<Rightarrow> string \<Rightarrow> string \<Rightarrow> VMNodeImpl \<Rightarrow> ((retcode \<times> unit) option \<times> VMNodeImpl) res" where
  "ProcessReceivedData ticks task_info key data_buffer = with_link ticks task_info (\<lambda>lc. (recv_push key data_buffer lc, Some ())) ()"

definition ProcessSendData ::
  "tick list \<Rightarrow> TaskContext \<Rightarrow> string \<Rightarrow> string \<Rightarrow> VMNodeImpl \<Rightarrow> ((retcode \<times> string) option \<times> VMNodeImpl) res" where
  "ProcessSendData ticks task_info key data_buffer =
     with_link ticks task_info
       (\<lambda>lc. let (lc1, d) = send_wait key lc in
             case d of None \<Rightarrow> (lc1, None) | Some x \<Rightarrow> (complete_push key SUCCESS lc1, Some x)) data_buffer"

definition ProcessForwardData ::
  "tick list \<Rightarrow> TaskContext \<Rightarrow> string \<Rightarrow> string \<Rightarrow> VMNodeImpl \<Rightarrow> ((retcode \<times> string) option \<times> VMNodeImpl) res" where
  "ProcessForwardData ticks task_info key data_buffer =
     with_link ticks task_info
       (\<lambda>lc. let (lc1, d) = recv_wait key lc in
             case d of None \<Rightarrow> (lc1, None) | Some x \<Rightarrow> (complete_push key SUCCESS lc1, Some x)) data_buffer"

text \<open>Waits until as many completion marks as expected have been taken.\<close>

fun complete_loop :: "string \<Rightarrow> nat \<Rightarrow> LinkContext \<Rightarrow> LinkContext \<times> unit option" where
  "complete_loop key 0 lc = (lc, Some ())"
| "complete_loop key (Suc missing) lc =
     (let (lc1, c) = complete_wait key lc in case c of None \<Rightarrow> (lc1, None) | Some _ \<Rightarrow> complete_loop key missing lc1)"

definition ProcessCompleteStatus ::
  "tick list \<Rightarrow> TaskContext \<Rightarrow> string \<Rightarrow> u64 \<Rightarrow> VMNodeImpl \<Rightarrow> ((retcode \<times> unit) option \<times> VMNodeImpl) res" where
  "ProcessCompleteStatus ticks task_info key expected_complete_num =
     with_link ticks task_info (complete_loop key (unat expected_complete_num)) ()"

section \<open>Starting and stopping tasks\<close>

definition push_manage :: "task_manage \<Rightarrow> VMNodeImpl \<Rightarrow> VMNodeImpl" where
  "push_manage item vn = vn\<lparr>task_manage_queue := q_emplace item (task_manage_queue vn)\<rparr>"

text \<open>
  \<^verbatim>\<open>ExecuteTask\<close> in three parts, because the thread it starts runs beside it: up to the start of the thread
  (the reference of the worker, or \<open>None\<close> for a repeated task); the thread's own end; and the rest of the
  handler, which first waits until the worker says whether the task is ready.
\<close>

definition ExecuteTask_begin :: "int \<Rightarrow> PushTaskRequest \<Rightarrow> VMNodeImpl \<Rightarrow> nat option \<times> VMNodeImpl" where
  "ExecuteTask_begin now request vn =
     (let task_info = pt_task_info (pr_task request);
          vn1 = CleanDuplicateTaskIdFilter now vn;
          (duplicate, vn2) = IsDuplicateTask now task_info vn1 in
      if duplicate then (None, vn2)
      else let (r, vn3) = CreateWorker task_info vn2 in (Some r, vn3))"

definition executor_begin ::
  "(Node \<Rightarrow> TaskStatus \<Rightarrow> 'n \<Rightarrow> retcode \<times> 'n) \<Rightarrow> Node \<Rightarrow> PushTaskRequest \<Rightarrow> 'n \<Rightarrow> PushTaskRequest \<times> 'n" where
  "executor_begin update proxy_node request n =
     (let t = pr_task request;
          request1 = request\<lparr>pr_task := t\<lparr>pt_auxiliary_server :=
            map_assign ''PROXY_NODE'' (node2PbNode proxy_node new_pb_node) (pt_auxiliary_server t)\<rparr>\<rparr>;
          (_, n1) = NotifyTaskStatus update request1 ST_RUNNING ''task is running'' n in
      (request1, n1))"

text \<open>The status for what \<^verbatim>\<open>execute\<close> returned or threw; \<open>None\<close> when its behaviour is undefined.\<close>

definition execute_status :: "(retcode \<times> Worker) res \<Rightarrow> (StatusCode \<times> string) option" where
  "execute_status result =
     (case result of
        Inr (SUCCESS, _) \<Rightarrow> Some (ST_SUCCESS, ''task finished'')
      | Inr (FAIL, _) \<Rightarrow> Some (ST_FAIL, ''task execute encountes error'')
      | Inl (Raised what) \<Rightarrow> Some (ST_FAIL, take 1024 what)
      | Inl _ \<Rightarrow> None)"

definition executor_end ::
  "(Node \<Rightarrow> TaskStatus \<Rightarrow> 'n \<Rightarrow> retcode \<times> 'n) \<Rightarrow> int \<Rightarrow> PushTaskRequest \<Rightarrow> string \<Rightarrow> StatusCode \<Rightarrow> string \<Rightarrow>
   VMNodeImpl \<Rightarrow> 'n \<Rightarrow> VMNodeImpl \<times> 'n" where
  "executor_end update now request worker_id status status_info vn n =
     (let (_, n1) = NotifyTaskStatus update request status status_info n in
      if pr_manual_launch request then (vn, n1)
      else (push_manage (worker_id, None, kDel) (CacheLastTaskStatus now worker_id status vn), n1))"

definition ExecuteTask_ready ::
  "(Node \<Rightarrow> TaskStatus \<Rightarrow> 'n \<Rightarrow> retcode \<times> 'n) \<Rightarrow> Node \<Rightarrow> PushTaskRequest \<Rightarrow> nat \<Rightarrow> VMNodeImpl \<Rightarrow> 'n \<Rightarrow>
   ((retcode \<times> pb_node list) \<times> VMNodeImpl \<times> 'n) option" where
  "ExecuteTask_ready update service_node request r vn n =
     (case waitForTaskReady (worker_store vn ! r) of
        None \<Rightarrow> None
      | Some FAIL \<Rightarrow> let (_, n1) = NotifyTaskStatus update request ST_FAIL ''Initialize task failed.'' n in Some ((FAIL, []), vn, n1)
      | Some SUCCESS \<Rightarrow>
          Some ((SUCCESS, [node2PbNode service_node new_pb_node]),
                push_manage (GetWorkerId (pt_task_info (pr_task request)), Some r, kAdd) vn, n))"

definition node_StopTask :: "TaskContext \<Rightarrow> VMNodeImpl \<Rightarrow> retcode \<times> VMNodeImpl" where
  "node_StopTask task_info vn = (SUCCESS, push_manage (GetWorkerId task_info, None, kDel) vn)"

datatype ExecutorType = CLIENT | SCHEDULER

definition KillTask :: "TaskContext \<Rightarrow> ExecutorType \<Rightarrow> VMNodeImpl \<Rightarrow> (retcode \<times> VMNodeImpl) res" where
  "KillTask task_info executor vn =
     (let worker_id = GetWorkerId task_info in
      if fst (IsFinishedTask worker_id vn) then Inr (SUCCESS, vn)
      else case executor of
        CLIENT \<Rightarrow>
          (case GetSchedulerWorker task_info vn of
             None \<Rightarrow> Inr (SUCCESS, vn)
           | Some r \<Rightarrow>
               bindR (at_worker r (worker_updateTaskStatus
                   \<lparr>ts_task_info = task_info, ts_party = ''SCHEDULER'', ts_status = ST_FAIL,
                    ts_message = ''kill task by client actively''\<rparr>) vn) (\<lambda>(_, vn1). Inr (SUCCESS, vn1)))
      | SCHEDULER \<Rightarrow> Inr (SUCCESS, push_manage (worker_id, None, kKill) vn))"

section \<open>Threads\<close>

definition ExecuteAddTaskOperation :: "string \<Rightarrow> nat option \<Rightarrow> VMNodeImpl \<Rightarrow> VMNodeImpl" where
  "ExecuteAddTaskOperation worker_id task vn =
     (case map_of (task_executor_map vn) worker_id of
        Some queue \<Rightarrow> vn\<lparr>task_executor_map := map_assign worker_id (queue @ [task]) (task_executor_map vn)\<rparr>
      | None \<Rightarrow> vn\<lparr>task_executor_map := map_assign worker_id [task] (task_executor_map vn), write_flag := False\<rparr>)"

definition ExecuteDelTaskOperation :: "string \<Rightarrow> VMNodeImpl \<Rightarrow> VMNodeImpl" where
  "ExecuteDelTaskOperation worker_id vn =
     (case map_of (task_executor_map vn) worker_id of
        Some queue \<Rightarrow> vn\<lparr>task_executor_map := map_erase worker_id (task_executor_map vn),
                        finished_task_queue := q_emplace queue (finished_task_queue vn), write_flag := False\<rparr>
      | None \<Rightarrow> vn\<lparr>write_flag := False\<rparr>)"

definition ExecuteKillTaskOperation :: "string \<Rightarrow> VMNodeImpl \<Rightarrow> VMNodeImpl" where
  "ExecuteKillTaskOperation worker_id vn =
     (case map_of (task_executor_map vn) worker_id of
        Some queue \<Rightarrow> vn\<lparr>task_executor_map := map_erase worker_id (task_executor_map vn),
                        kill_task_queue := q_emplace queue (kill_task_queue vn), write_flag := False\<rparr>
      | None \<Rightarrow> vn\<lparr>write_flag := False\<rparr>)"

text \<open>
  One turn of a thread: \<open>None\<close> while it sleeps on its queue, otherwise whether it goes on. A stopped
  queue leaves the default value, whose type is \<^verbatim>\<open>kUnknown\<close>.
\<close>

definition ManageTaskOperator_turn :: "VMNodeImpl \<Rightarrow> (bool \<times> VMNodeImpl) option" where
  "ManageTaskOperator_turn vn =
     (case q_wait (task_manage_queue vn) of
        None \<Rightarrow> None
      | Some (item, q) \<Rightarrow>
          let vn1 = vn\<lparr>task_manage_queue := q\<rparr>;
              (worker_id, task, type) = (case item of Some i \<Rightarrow> i | None \<Rightarrow> ([], None, kUnknown)) in
          if vn_stop vn1 then Some (False, vn1)
          else Some (True, case type of
              kAdd \<Rightarrow> ExecuteAddTaskOperation worker_id task vn1
            | kDel \<Rightarrow> ExecuteDelTaskOperation worker_id vn1
            | kKill \<Rightarrow> ExecuteKillTaskOperation worker_id vn1
            | kUnknown \<Rightarrow> vn1))"

fun kill_workers :: "(unit \<Rightarrow> unit res) \<Rightarrow> nat option list \<Rightarrow> VMNodeImpl \<Rightarrow> VMNodeImpl res" where
  "kill_workers Process_kill [] vn = Inr vn"
| "kill_workers Process_kill (None # rs) vn = kill_workers Process_kill rs vn"
| "kill_workers Process_kill (Some r # rs) vn =
     bindR (at_worker r (\<lambda>w. bindR (kill_task Process_kill w) (\<lambda>w1. Inr ((), w1))) vn) (\<lambda>(_, vn1). kill_workers Process_kill rs vn1)"

definition ProcessKillTask_turn :: "(unit \<Rightarrow> unit res) \<Rightarrow> VMNodeImpl \<Rightarrow> (bool \<times> VMNodeImpl) option res" where
  "ProcessKillTask_turn Process_kill vn =
     (case q_wait (kill_task_queue vn) of
        None \<Rightarrow> Inr None
      | Some (item, q) \<Rightarrow>
          let vn1 = vn\<lparr>kill_task_queue := q\<rparr> in
          if vn_stop vn1 then Inr (Some (False, vn1))
          else bindR (kill_workers Process_kill (case item of Some rs \<Rightarrow> rs | None \<Rightarrow> []) vn1) (\<lambda>vn2. Inr (Some (True, vn2))))"

definition CleanFinishedTask_turn :: "VMNodeImpl \<Rightarrow> (bool \<times> VMNodeImpl) option" where
  "CleanFinishedTask_turn vn =
     (case q_wait (finished_task_queue vn) of
        None \<Rightarrow> None
      | Some (_, q) \<Rightarrow> let vn1 = vn\<lparr>finished_task_queue := q\<rparr> in Some (\<not> vn_stop vn1, vn1))"

definition CleanTimeoutCachedTaskStatus_turn :: "int \<Rightarrow> VMNodeImpl \<Rightarrow> bool \<times> VMNodeImpl" where
  "CleanTimeoutCachedTaskStatus_turn now vn =
     (if vn_stop vn then (False, vn)
      else let timeout_worker_id =
             map fst (filter (\<lambda>(_, (_, timestamp)). now - timestamp > cached_task_status_timeout) (finished_task_status vn)) in
        (True, vn\<lparr>finished_task_status := fold map_erase timeout_worker_id (finished_task_status vn)\<rparr>))"

text \<open>
  The thread that forgets scheduler workers keeps the times at which they finished and those that
  have timed out; it only looks at them when another worker finishes, and erases them when there are
  more than a hundred.
\<close>

definition CleanFinishedSchedulerWorker_turn ::
  "int \<Rightarrow> int std_map \<times> string list \<Rightarrow> VMNodeImpl \<Rightarrow> (bool \<times> (int std_map \<times> string list) \<times> VMNodeImpl) option" where
  "CleanFinishedSchedulerWorker_turn now st vn =
     (case q_wait (finished_scheduler_workers vn) of
        None \<Rightarrow> None
      | Some (item, q) \<Rightarrow>
          let vn1 = vn\<lparr>finished_scheduler_workers := q\<rparr>;
              worker_id = (case item of Some i \<Rightarrow> i | None \<Rightarrow> []) in
          if vn_stop vn1 then Some (False, st, vn1)
          else
            let (finished_scheduler, timeouted) = st;
                fs1 = map_assign worker_id now finished_scheduler;
                late = filter (\<lambda>(_, t). now - t > scheduler_worker_timeout_s) fs1;
                fs2 = filter (\<lambda>(_, t). \<not> now - t > scheduler_worker_timeout_s) fs1;
                timeouted1 = remdups (map fst late @ timeouted) in
            if length timeouted1 > 100
            then Some (True, (fs2, []), vn1\<lparr>task_scheduler_map := fold map_erase timeouted1 (task_scheduler_map vn1)\<rparr>)
            else Some (True, (fs2, timeouted1), vn1))"

section \<open>Dispatching\<close>

definition GetAllParties :: "pb_task \<Rightarrow> Node list" where
  "GetAllParties task_config =
     map (\<lambda>(_, pb). pbNode2Node pb new_Node) (pt_party_access_info task_config) @
     (case map_of (pt_auxiliary_server task_config) ''AUXILIARY_COMPUTE_NODE'' of
        Some pb \<Rightarrow> [pbNode2Node pb new_Node]
      | None \<Rightarrow> [])"

text \<open>The nodes that get the kill command when a task has failed: every node once.\<close>

fun add_parties :: "Node list \<Rightarrow> string list \<times> Node list \<Rightarrow> string list \<times> Node list" where
  "add_parties [] st = st"
| "add_parties (party # rest) (duplicate_filter, recv_cmd_party) =
     (let node_info = node_to_string party in
      if node_info \<in> set duplicate_filter then add_parties rest (duplicate_filter, recv_cmd_party)
      else add_parties rest (node_info # duplicate_filter, recv_cmd_party @ [party]))"

definition kill_receivers :: "pb_task \<Rightarrow> Node list \<Rightarrow> Node list" where
  "kill_receivers task_config parties = snd (add_parties parties (add_parties (GetAllParties task_config) ([], [])))"

text \<open>
  \<^verbatim>\<open>DispatchTask\<close> up to the parser, with \<^verbatim>\<open>insert\<close>, which keeps a worker already registered under the id; and what
  follows for each outcome of creating the parser and of distributing the task to the parties.
\<close>

datatype dispatch_outcome = NoParser | Dispatched retcode "Node list" | Threw string

definition DispatchTask_begin :: "TaskContext \<Rightarrow> VMNodeImpl \<Rightarrow> nat \<times> VMNodeImpl" where
  "DispatchTask_begin task_info vn =
     (let (r, vn1) = CreateWorker task_info vn in
      (r, vn1\<lparr>task_scheduler_map := map_insert (GetWorkerId task_info) r (task_scheduler_map vn1)\<rparr>))"

record PushTaskReply =
  rp_ret_code :: int
  rp_msg_info :: string
  rp_party_count :: int
  rp_task_server :: "pb_node list"

definition DispatchTask_end ::
  "dispatch_outcome \<Rightarrow> Node \<Rightarrow> nat \<Rightarrow> PushTaskReply \<Rightarrow> VMNodeImpl \<Rightarrow> ((retcode \<times> PushTaskReply) \<times> VMNodeImpl) res" where
  "DispatchTask_end outcome service_node r reply vn =
     (case outcome of
        NoParser \<Rightarrow> Inr ((FAIL, reply\<lparr>rp_ret_code := 1, rp_msg_info := ''create LanguageParser failed''\<rparr>), vn)
      | Dispatched FAIL _ \<Rightarrow> Inr ((FAIL, reply\<lparr>rp_ret_code := 1, rp_msg_info := ''dispatch task to party failed''\<rparr>), vn)
      | Dispatched SUCCESS task_server \<Rightarrow>
          bindR (at_worker r (\<lambda>w. Inr ((), setPartyCount (length task_server) w)) vn) (\<lambda>(_, vn1).
          Inr ((SUCCESS, reply\<lparr>rp_task_server := rp_task_server reply @ [node2PbNode service_node new_pb_node],
                              rp_party_count := int (length task_server)\<rparr>), vn1))
      | Threw what \<Rightarrow>
          Inr ((SUCCESS, reply\<lparr>rp_ret_code := 2, rp_msg_info := ''dispatch task to party failed, detail: '' @ what\<rparr>), vn))"

text \<open>The scheduler's thread: it waits for the verdict, kills a failed task everywhere and says it is done.\<close>

definition scheduler_func ::
  "(Node \<Rightarrow> TaskContext \<Rightarrow> 'n \<Rightarrow> 'n) \<Rightarrow> nat \<Rightarrow> Node list \<Rightarrow> pb_task \<Rightarrow> VMNodeImpl \<Rightarrow> 'n \<Rightarrow> (VMNodeImpl \<times> 'n) option" where
  "scheduler_func kill r parties task_config vn n =
     (case waitUntilTaskFinish (worker_store vn ! r) of
        None \<Rightarrow> None
      | Some ret \<Rightarrow>
          let n1 = (if ret \<noteq> SUCCESS
                    then fold (\<lambda>party. kill party (pt_task_info task_config)) (kill_receivers task_config parties) n else n) in
          Some (vn\<lparr>finished_scheduler_workers :=
                  q_emplace (tc_request_id (pt_task_info task_config)) (finished_scheduler_workers vn)\<rparr>, n1))"

section \<open>Every node is asked once\<close>

lemma add_parties_result:
  "set f = node_to_string ` set ps \<Longrightarrow> distinct (map node_to_string ps) \<Longrightarrow>
   (case add_parties qs (f, ps) of (f', ps') \<Rightarrow>
      set f' = node_to_string ` set ps' \<and> distinct (map node_to_string ps') \<and>
      node_to_string ` set ps' = node_to_string ` set (ps @ qs) \<and> set ps' \<subseteq> set (ps @ qs))"
proof (induction qs arbitrary: f ps)
  case (Cons q qs)
  show ?case
  proof (cases "node_to_string q \<in> set f")
    case True
    with Cons.prems have "node_to_string q \<in> node_to_string ` set ps" by simp
    then show ?thesis using Cons.IH [OF Cons.prems] True
      by (auto simp: Let_def case_prod_beta insert_absorb image_Un)
  next
    case False
    with Cons.prems have "set (node_to_string q # f) = node_to_string ` set (ps @ [q])" "distinct (map node_to_string (ps @ [q]))"
      by auto
    from Cons.IH [OF this] False show ?thesis by (auto simp: Let_def case_prod_beta image_Un)
  qed
qed auto

section \<open>A repeated task\<close>

lemma map_of_erase [simp]: "map_of (map_erase k m) k' = (if k' = k then None else map_of m k')"
  by (induction m) (auto simp: map_erase_def)

lemma map_of_erase_all: "map_of (fold map_erase ks m) k = (if k \<in> set ks then None else map_of m k)"
  by (induction ks arbitrary: m) auto

lemma map_erase_wf: "map_wf m \<Longrightarrow> map_wf (map_erase k m)"
  by (auto simp: map_wf_def map_erase_def distinct_map_filter)

lemma map_erase_all_wf: "map_wf m \<Longrightarrow> map_wf (fold map_erase ks m)"
  by (induction ks arbitrary: m) (auto intro: map_erase_wf)

lemma keys_filter:
  "map_wf m \<Longrightarrow> k \<in> set (map fst (filter (\<lambda>(_, v). P v) m)) \<longleftrightarrow> (\<exists>v. map_of m k = Some v \<and> P v)"
  by (force simp: map_wf_def)

lemma clean_filter:
  "map_wf (duplicate_task_id_filter vn) \<Longrightarrow>
   map_of (duplicate_task_id_filter (CleanDuplicateTaskIdFilter now vn)) u =
     (case map_of (duplicate_task_id_filter vn) u of
        Some t \<Rightarrow> if now - t > task_id_timeout_s then None else Some t | None \<Rightarrow> None)"
  using keys_filter [of "duplicate_task_id_filter vn" u "\<lambda>t. now - t > task_id_timeout_s"]
  by (auto simp: CleanDuplicateTaskIdFilter_def Let_def map_of_erase_all simp del: set_map set_filter split: option.splits)

text \<open>A request is taken exactly when the filter does not hold a younger entry of the same task.\<close>

lemma begin_result:
  assumes "map_wf (duplicate_task_id_filter vn)"
  shows "case map_of (duplicate_task_id_filter vn) (task_uid (pt_task_info (pr_task request))) of
      Some t \<Rightarrow> if now - t > task_id_timeout_s then fst (ExecuteTask_begin now request vn) = Some (length (worker_store vn))
                else fst (ExecuteTask_begin now request vn) = None
    | None \<Rightarrow> fst (ExecuteTask_begin now request vn) = Some (length (worker_store vn))"
  using clean_filter [OF assms, of now "task_uid (pt_task_info (pr_task request))"]
  by (auto simp: ExecuteTask_begin_def IsDuplicateTask_def CreateWorker_def CleanDuplicateTaskIdFilter_def Let_def
      split: option.splits)

end
