(* ===== verification/Node_Interface.thy ===== *)
theory Node_Interface
  imports Vm_Node
begin

text \<open>
  \<^verbatim>\<open>VMNodeInterface\<close> of \<^verbatim>\<open>node/node_interface.cc\<close>, the gRPC service of a node, and what a channel of another node
  gets from it. A service function returns the reply, \<open>None\<close> while it waits; its status is always OK.
\<close>

section \<open>Packages\<close>

definition BuildTaskResponse :: "string \<Rightarrow> TaskResponse list" where
  "BuildTaskResponse data =
     map (\<lambda>package. \<lparr>rs_ret_code = SUCCESS, rs_msg_info = [], rs_data_len = word_of_nat (length data), rs_data = package\<rparr>)
         (packages_from data 0)"

definition BuildTaskRequest :: "TaskContext \<Rightarrow> string \<Rightarrow> string \<Rightarrow> TaskRequest list" where
  "BuildTaskRequest task_info key data =
     map (\<lambda>package. \<lparr>tr_task_info = task_info, tr_role = key, tr_data_len = word_of_nat (length data), tr_data = package\<rparr>)
         (packages_from data 0)"

text \<open>Reading a stream of requests: ids and key come from the first, the data from all.\<close>

fun read_requests :: "TaskRequest list \<Rightarrow> bool \<Rightarrow> TaskContext \<times> string \<times> string \<Rightarrow> TaskContext \<times> string \<times> string" where
  "read_requests [] recv_meta_info st = st"
| "read_requests (q # qs) recv_meta_info (task_info, key, received_data) =
     (let (task_info', key') = (if \<not> recv_meta_info then (tr_task_info q, tr_role q) else (task_info, key)) in
      read_requests qs True (task_info', key', received_data @ tr_data q))"

section \<open>Data requests\<close>

definition node_Send :: "tick list \<Rightarrow> TaskRequest list \<Rightarrow> TaskResponse \<Rightarrow> VMNodeImpl \<Rightarrow> (TaskResponse option \<times> VMNodeImpl) res" where
  "node_Send ticks requests response vn =
     (let (task_info, key, received_data) = read_requests requests False (empty_TaskContext, [], []) in
      bindR (ProcessReceivedData ticks task_info key received_data vn) (\<lambda>(r, vn1).
      case r of
        None \<Rightarrow> Inr (None, vn1)
      | Some (ret, _) \<Rightarrow>
          let response1 = (if ret \<noteq> SUCCESS then response\<lparr>rs_ret_code := FAIL\<rparr> else response) in
          Inr (Some (response1\<lparr>rs_ret_code := SUCCESS\<rparr>), vn1)))"

definition no_data :: "string \<Rightarrow> TaskResponse" where
  "no_data key = empty_TaskResponse\<lparr>rs_ret_code := FAIL, rs_msg_info := ''no data is available for key:'' @ key\<rparr>"

definition node_Recv :: "tick list \<Rightarrow> TaskRequest \<Rightarrow> VMNodeImpl \<Rightarrow> (TaskResponse list option \<times> VMNodeImpl) res" where
  "node_Recv ticks request vn =
     (let key = tr_role request in
      bindR (ProcessSendData ticks (tr_task_info request) key [] vn) (\<lambda>(r, vn1).
      Inr (map_option (\<lambda>(ret, send_data). if ret \<noteq> SUCCESS then [no_data key] else BuildTaskResponse send_data) r, vn1)))"

definition node_SendRecv :: "tick list \<Rightarrow> tick list \<Rightarrow> TaskRequest list \<Rightarrow> VMNodeImpl \<Rightarrow> (TaskResponse list option \<times> VMNodeImpl) res" where
  "node_SendRecv ticks ticks' requests vn =
     (let (task_info, key, received_data) = read_requests requests False (empty_TaskContext, [], []) in
      bindR (ProcessReceivedData ticks task_info key received_data vn) (\<lambda>(r, vn1).
      case r of
        None \<Rightarrow> Inr (None, vn1)
      | Some (FAIL, _) \<Rightarrow>
          Inr (Some [empty_TaskResponse\<lparr>rs_ret_code := FAIL, rs_msg_info := ''ProcessReceivedData encountes error''\<rparr>], vn1)
      | Some (SUCCESS, _) \<Rightarrow>
          bindR (ProcessSendData ticks' task_info key [] vn1) (\<lambda>(r', vn2).
          Inr (map_option (\<lambda>(ret, send_data). if ret \<noteq> SUCCESS then [no_data key] else BuildTaskResponse send_data) r', vn2))))"

definition node_ForwardRecv :: "tick list \<Rightarrow> TaskRequest \<Rightarrow> VMNodeImpl \<Rightarrow> (TaskRequest list option \<times> VMNodeImpl) res" where
  "node_ForwardRecv ticks request vn =
     (let key = tr_role request; task_info = tr_task_info request in
      bindR (ProcessForwardData ticks task_info key [] vn) (\<lambda>(r, vn1).
      Inr (map_option (\<lambda>(ret, recv_data).
          if ret \<noteq> SUCCESS then [\<lparr>tr_task_info = empty_TaskContext, tr_role = [], tr_data_len = 0, tr_data = []\<rparr>]
          else BuildTaskRequest task_info key recv_data) r, vn1)))"

definition node_CompleteStatus :: "tick list \<Rightarrow> CompleteStatusRequest \<Rightarrow> VMNodeImpl \<Rightarrow> (unit option \<times> VMNodeImpl) res" where
  "node_CompleteStatus ticks request vn =
     bindR (ProcessCompleteStatus ticks (cs_task_info request) (cs_key request) (cs_complete_count request) vn)
       (\<lambda>(r, vn1). Inr (map_option (\<lambda>_. ()) r, vn1))"

section \<open>Control requests\<close>

text \<open>The service functions drop the return code of the node and reply OK.\<close>

definition interface_FetchTaskStatus :: "TaskContext \<Rightarrow> VMNodeImpl \<Rightarrow> (TaskStatus list \<times> VMNodeImpl) res" where
  "interface_FetchTaskStatus request vn = FetchTaskStatus request vn"

definition interface_UpdateTaskStatus :: "TaskStatus \<Rightarrow> VMNodeImpl \<Rightarrow> (unit \<times> VMNodeImpl) res" where
  "interface_UpdateTaskStatus request vn = bindR (UpdateTaskStatus request vn) (\<lambda>(_, vn1). Inr ((), vn1))"

definition interface_StopTask :: "TaskContext \<Rightarrow> VMNodeImpl \<Rightarrow> unit \<times> VMNodeImpl" where
  "interface_StopTask request vn = (let (_, vn1) = node_StopTask request vn in ((), vn1))"

definition interface_KillTask :: "TaskContext \<Rightarrow> ExecutorType \<Rightarrow> VMNodeImpl \<Rightarrow> (unit \<times> VMNodeImpl) res" where
  "interface_KillTask task_info executor vn = bindR (KillTask task_info executor vn) (\<lambda>(_, vn1). Inr ((), vn1))"

text \<open>Polling as in the node, with a look at the caller's cancellation before the first poll and after every failed one.\<close>

fun interface_poll :: "string \<Rightarrow> int \<Rightarrow> (bool \<times> tick) list \<Rightarrow> VMNodeImpl \<Rightarrow> retcode option \<times> VMNodeImpl" where
  "interface_poll worker_id timeout_ms ticks vn =
     (if IsTaskWorkerReady worker_id vn then (Some SUCCESS, vn)
      else case ticks of
        [] \<Rightarrow> (None, vn)
      | (cancelled, others, time_elapse_ms) # ticks' \<Rightarrow>
          if cancelled then (Some FAIL, vn)
          else let vn1 = others vn in
            if timeout_ms = -1 then interface_poll worker_id timeout_ms ticks' vn1
            else if time_elapse_ms > timeout_ms then (Some FAIL, vn1)
            else interface_poll worker_id timeout_ms ticks' vn1)"

declare interface_poll.simps [simp del]

definition interface_WaitUntilWorkerReady :: "string \<Rightarrow> bool \<Rightarrow> int \<Rightarrow> (bool \<times> tick) list \<Rightarrow> VMNodeImpl \<Rightarrow> retcode option \<times> VMNodeImpl" where
  "interface_WaitUntilWorkerReady worker_id cancelled timeout_ms ticks vn =
     (if cancelled then (Some FAIL, vn) else interface_poll worker_id timeout_ms ticks vn)"

section \<open>A network that loses requests and replies\<close>

text \<open>
  What a caller can meet: the \<open>i\<close>-th call arrives at the service or not, and the reply comes back or
  not; \<open>script i\<close> says so, with an argument for the service such as its clock. The state counts the calls.
\<close>

definition faulty_call ::
  "('e \<Rightarrow> 's \<Rightarrow> 'r \<times> 's) \<Rightarrow> 'r \<Rightarrow> (nat \<Rightarrow> 'e \<times> bool \<times> bool) \<Rightarrow> 's \<times> nat \<Rightarrow> (bool \<times> 'r) \<times> 's \<times> nat" where
  "faulty_call serve none script st =
     (let (s, i) = st; (e, arrives, answered) = script i in
      if arrives then let (r, s1) = serve e s in ((answered, if answered then r else none), s1, Suc i)
      else ((False, none), s, Suc i))"

definition arrives_at :: "(nat \<Rightarrow> 'e \<times> bool \<times> bool) \<Rightarrow> nat \<Rightarrow> bool" where
  "arrives_at script i = fst (snd (script i))"

definition arrived :: "(nat \<Rightarrow> 'e \<times> bool \<times> bool) \<Rightarrow> nat \<Rightarrow> nat" where
  "arrived script j = length (filter (arrives_at script) [0..<j])"

fun served :: "('e \<Rightarrow> 's \<Rightarrow> 'r \<times> 's) \<Rightarrow> (nat \<Rightarrow> 'e \<times> bool \<times> bool) \<Rightarrow> nat \<Rightarrow> 's \<Rightarrow> 's" where
  "served serve script 0 s = s"
| "served serve script (Suc j) s =
     (let s1 = served serve script j s in if arrives_at script j then snd (serve (fst (script j)) s1) else s1)"

definition answered_at :: "(nat \<Rightarrow> 'e \<times> bool \<times> bool) \<Rightarrow> nat \<Rightarrow> bool" where
  "answered_at script i \<longleftrightarrow> arrives_at script i \<and> snd (snd (script i))"

lemma arrived_Suc: "arrived script (Suc j) = arrived script j + (if arrives_at script j then 1 else 0)"
  by (simp add: arrived_def)

lemma faulty_call_result:
  "snd (faulty_call serve none script (s, i)) = (if arrives_at script i then snd (serve (fst (script i)) s) else s, Suc i)"
  "fst (fst (faulty_call serve none script (s, i))) \<Longrightarrow> answered_at script i"
  by (auto simp: faulty_call_def arrives_at_def answered_at_def Let_def case_prod_beta split: if_splits)

lemma after_faulty: "after (faulty_call serve none script) j (s, 0) = (served serve script j s, j)"
  by (induction j) (simp_all add: after_Suc faulty_call_result Let_def del: after.simps(2))

text \<open>Whatever the network does, the service has handled between one and three arrivals of a call that succeeds.\<close>

lemma retry_over_network:
  "\<exists>j ret r. 0 < j \<and> j \<le> retry_max_times \<and>
     retry_loop (faulty_call serve none script) 0 (s, 0) = ((ret, r), served serve script j s, j) \<and>
     (ret = SUCCESS \<longrightarrow> answered_at script (j - 1) \<and> r = fst (serve (fst (script (j - 1))) (served serve script (j - 1) s)))"
proof -
  let ?call = "faulty_call serve none script"
  note retry_loop_result [of ?call "(s, 0)"]
  then show ?thesis
  proof (elim disjE exE conjE)
    fix k assume k: "k < retry_max_times" "fst (attempt ?call k (s, 0))"
      "retry_loop ?call 0 (s, 0) = ((SUCCESS, snd (attempt ?call k (s, 0))), after ?call (Suc k) (s, 0))"
    from k(2) have ok: "fst (fst (?call (served serve script k s, k)))" by (simp add: attempt_def after_faulty)
    then have "answered_at script k" by (rule faulty_call_result)
    moreover from ok this have "snd (attempt ?call k (s, 0)) = fst (serve (fst (script k)) (served serve script k s))"
      by (auto simp: attempt_def after_faulty faulty_call_def arrives_at_def answered_at_def Let_def case_prod_beta split: if_splits)
    ultimately show ?thesis using k(1,3) unfolding after_faulty by (intro exI [of _ "Suc k"]) auto
  next
    assume "retry_loop ?call 0 (s, 0) = ((FAIL, snd (attempt ?call (retry_max_times - 1) (s, 0))), after ?call retry_max_times (s, 0))"
    then show ?thesis unfolding after_faulty by (intro exI [of _ retry_max_times]) (auto simp: retry_max_times_def)
  qed
qed

section \<open>Sending to a worker\<close>

text \<open>A registered worker of an unfinished task, with its task and open context.\<close>

definition open_worker :: "TaskContext \<Rightarrow> nat \<Rightarrow> task \<Rightarrow> LinkContext \<Rightarrow> VMNodeImpl \<Rightarrow> bool" where
  "open_worker task_info r t lc vn \<longleftrightarrow>
     \<not> fst (IsFinishedTask (GetWorkerId task_info) vn) \<and> \<not> write_flag vn \<and>
     (\<exists>q. map_of (task_executor_map vn) (GetWorkerId task_info) = Some (Some r # q)) \<and>
     r < length (worker_store vn) \<and> task_ptr (worker_store vn ! r) = Some t \<and> tk_link t = Some lc \<and>
     \<not> lc_stop lc \<and> open_in (in_data_queue lc)"

lemma open_worker_found: "open_worker task_info r t lc vn \<Longrightarrow> find_link ticks task_info vn = Inr (Found r t lc, vn)"
  by (auto simp: open_worker_def find_link_def IsTaskWorkerReady_def WaitUntilWorkerReady.simps GetWorker_def Let_def)

lemma open_worker_set:
  "open_worker task_info r t lc vn \<Longrightarrow> \<not> lc_stop lc' \<Longrightarrow> open_in (in_data_queue lc') \<Longrightarrow>
   open_worker task_info r (t\<lparr>tk_link := Some lc'\<rparr>) lc' (set_link r t lc' vn)"
  by (auto simp: open_worker_def set_link_def IsFinishedTask_def)

text \<open>The messages that wait for a worker under a key.\<close>

definition waiting_at :: "TaskContext \<Rightarrow> string \<Rightarrow> VMNodeImpl \<Rightarrow> string list" where
  "waiting_at task_info key vn =
     (case find_link [] task_info vn of Inr (Found r t lc, _) \<Rightarrow> waiting_in (in_data_queue lc) key | _ \<Rightarrow> [])"

lemma read_requests_True: "read_requests qs True (info, key, d) = (info, key, d @ concat (map tr_data qs))"
  by (induction qs arbitrary: d) simp_all

text \<open>
  The reader of a stream gets a beginning of its packages when the connection breaks: the part of the data
  that is read from the first \<open>c\<close> packages of a request.
\<close>

definition part_read :: "string \<Rightarrow> nat \<Rightarrow> string" where
  "part_read data c = concat (take c (packages_from data 0))"

lemma part_read_beginning: "\<exists>rest. data = part_read data c @ rest"
  using packages_from_concat [of data 0] append_take_drop_id [of c "packages_from data 0"]
  by (metis concat_append drop0 part_read_def)

lemma part_read_whole: "length (packages_from data 0) \<le> c \<Longrightarrow> part_read data c = data"
  using packages_from_concat [of data 0] by (simp add: part_read_def)

lemma length_request: "length (buildTaskRequest (Some lc) key data) = length (packages_from data 0)"
  by (simp add: buildTaskRequest_def)

lemma read_built:
  assumes "0 < c"
  shows "read_requests (take c (buildTaskRequest (Some lc) role data)) False (empty_TaskContext, [], []) =
     (snd (BuildTaskInfo (Some lc) empty_TaskContext), role, part_read data c)"
proof -
  obtain p ps where p: "packages_from data 0 = p # ps" using packages_from_ne [of data 0] by (cases "packages_from data 0") auto
  obtain c' where c: "c = Suc c'" using assms by (cases c) auto
  show ?thesis by (simp add: c buildTaskRequest_def part_read_def p read_requests_True comp_def take_map)
qed

text \<open>
  The service as the network sees it: its reader gets the first \<open>c\<close> packages; a call that waits or fails
  gives no reply. The client of a broken stream gets an error and no reply, whatever the service returns.
\<close>

definition serve_Send :: "TaskRequest list \<Rightarrow> nat \<Rightarrow> VMNodeImpl \<Rightarrow> TaskResponse \<times> VMNodeImpl" where
  "serve_Send requests c vn =
     (case node_Send [] (take c requests) empty_TaskResponse vn of
        Inr (Some response, vn1) \<Rightarrow> (response, vn1)
      | _ \<Rightarrow> (empty_TaskResponse, vn))"

definition stream_script :: "TaskRequest list \<Rightarrow> (nat \<Rightarrow> nat \<times> bool \<times> bool) \<Rightarrow> nat \<Rightarrow> nat \<times> bool \<times> bool" where
  "stream_script requests script i =
     (let (c, arrives, answered) = script i in (c, arrives, answered \<and> length requests \<le> c))"

definition node_stub :: "(nat \<Rightarrow> nat \<times> bool \<times> bool) \<Rightarrow> (VMNodeImpl \<times> nat) stub \<Rightarrow> (VMNodeImpl \<times> nat) stub" where
  "node_stub script stub =
     stub\<lparr>rpc_Send := \<lambda>_ requests. faulty_call (serve_Send requests) empty_TaskResponse (stream_script requests script)\<rparr>"

text \<open>The messages that the first \<open>j\<close> calls put under the key: none from a stream without a package.\<close>

definition delivered :: "(nat \<Rightarrow> nat \<times> bool \<times> bool) \<Rightarrow> string \<Rightarrow> nat \<Rightarrow> string list" where
  "delivered script data j =
     map (\<lambda>i. part_read data (fst (script i))) (filter (\<lambda>i. arrives_at script i \<and> 0 < fst (script i)) [0..<j])"

lemma delivered_Suc:
  "delivered script data (Suc j) =
     delivered script data j @ (if arrives_at script j \<and> 0 < fst (script j) then [part_read data (fst (script j))] else [])"
  by (simp add: delivered_def)

lemma stream_script_sel [simp]:
  "fst (stream_script requests script i) = fst (script i)" "arrives_at (stream_script requests script) i = arrives_at script i"
  by (simp_all add: stream_script_def arrives_at_def Let_def case_prod_beta)

lemma delivered_parts: "m \<in> set (delivered script data j) \<Longrightarrow> \<exists>rest. data = m @ rest"
  by (auto simp: delivered_def part_read_beginning)

lemma delivered_whole:
  "i < j \<Longrightarrow> arrives_at script i \<Longrightarrow> length (packages_from data 0) \<le> fst (script i) \<Longrightarrow> data \<in> set (delivered script data j)"
  using packages_from_ne [of data 0]
  by (cases "packages_from data 0") (auto simp: delivered_def part_read_whole intro!: image_eqI [of _ _ i])

text \<open>An empty stream names the worker of an empty request id; without such a worker the call waits in vain.\<close>

lemma serve_nothing:
  assumes "map_of (task_executor_map vn) [] = None"
  shows "serve_Send requests 0 vn = (empty_TaskResponse, vn)"
  using assms
  by (simp add: serve_Send_def node_Send_def ProcessReceivedData_def with_link_def find_link_def GetWorkerId_def empty_TaskContext_def
      WaitUntilWorkerReady.simps IsTaskWorkerReady_def Let_def empty_TaskResponse_def)

lemma serve_open:
  assumes "open_worker (snd (BuildTaskInfo (Some lc) empty_TaskContext)) r t wc vn" and "0 < c"
  shows "serve_Send (buildTaskRequest (Some lc) key data) c vn =
    (empty_TaskResponse, set_link r t (recv_push key (part_read data c) wc) vn)"
  using open_worker_found [OF assms(1), of "[]"]
  by (simp add: serve_Send_def node_Send_def read_built [OF assms(2)] ProcessReceivedData_def with_link_def empty_TaskResponse_def)

lemma served_open:
  fixes script :: "nat \<Rightarrow> nat \<times> bool \<times> bool" and key data :: string
  assumes w: "open_worker info r t wc vn" and info: "info = snd (BuildTaskInfo (Some lc) empty_TaskContext)"
    and none: "map_of (task_executor_map vn) [] = None"
  defines "vns \<equiv> \<lambda>j. served (serve_Send (buildTaskRequest (Some lc) key data)) script j vn"
  shows "map_of (task_executor_map (vns j)) [] = None \<and>
    (\<exists>t' wc'. open_worker info r t' wc' (vns j) \<and>
      (\<forall>k. waiting_in (in_data_queue wc') k = waiting_in (in_data_queue wc) k @ (if k = key then delivered script data j else [])))"
proof (induction j)
  case 0
  show ?case using w none by (auto simp: vns_def delivered_def)
next
  case (Suc j)
  let ?c = "fst (script j)"
  from Suc obtain t' wc' where w': "open_worker info r t' wc' (vns j)" "map_of (task_executor_map (vns j)) [] = None"
    "\<forall>k. waiting_in (in_data_queue wc') k = waiting_in (in_data_queue wc) k @ (if k = key then delivered script data j else [])"
    by blast
  have step: "vns (Suc j) = (if arrives_at script j then snd (serve_Send (buildTaskRequest (Some lc) key data) ?c (vns j)) else vns j)"
    by (simp add: vns_def Let_def)
  show ?case
  proof (cases "arrives_at script j \<and> 0 < ?c")
    case True
    let ?wc = "recv_push key (part_read data ?c) wc'"
    have op: "\<not> lc_stop wc' \<and> open_in (in_data_queue wc')" using w'(1) by (simp add: open_worker_def)
    have new: "vns (Suc j) = set_link r t' ?wc (vns j)"
      using True serve_open [of lc r t' wc' "vns j" ?c key data] w'(1) info by (simp add: step)
    from in_box.put_open [OF op] open_worker_set [OF w'(1), of ?wc]
    have "open_worker info r (t'\<lparr>tk_link := Some ?wc\<rparr>) ?wc (vns (Suc j))" by (simp add: new)
    moreover have "waiting_in (in_data_queue ?wc) k = waiting_in (in_data_queue wc) k @ (if k = key then delivered script data (Suc j) else [])" for k
      using in_box.put_waiting [OF op, of key "part_read data ?c" k] w'(3) True by (auto simp: delivered_Suc)
    moreover have "map_of (task_executor_map (vns (Suc j))) [] = None" using w'(2) by (simp add: new set_link_def)
    ultimately show ?thesis by blast
  next
    case False
    then have same: "vns (Suc j) = vns j" "delivered script data (Suc j) = delivered script data j"
      using serve_nothing [OF w'(2)] by (auto simp: step delivered_Suc)
    show ?thesis unfolding same using w' by blast
  qed
qed

section \<open>Starting a task over the network\<close>

definition serve_ExecuteTask :: "PushTaskRequest \<Rightarrow> int \<Rightarrow> VMNodeImpl \<Rightarrow> unit \<times> VMNodeImpl" where
  "serve_ExecuteTask request now vn = ((), snd (ExecuteTask_begin now request vn))"

abbreviation request_uid :: "PushTaskRequest \<Rightarrow> string" where
  "request_uid request \<equiv> task_uid (pt_task_info (pr_task request))"

lemma begin_new:
  assumes "map_wf (duplicate_task_id_filter vn)" and "map_of (duplicate_task_id_filter vn) (request_uid request) = None"
  shows "length (worker_store (snd (ExecuteTask_begin now request vn))) = length (worker_store vn) + 1 \<and>
    map_of (duplicate_task_id_filter (snd (ExecuteTask_begin now request vn))) (request_uid request) = Some now \<and>
    map_wf (duplicate_task_id_filter (snd (ExecuteTask_begin now request vn)))"
  using clean_filter [OF assms(1), of now "request_uid request"] assms map_erase_all_wf [OF assms(1)]
  by (simp add: ExecuteTask_begin_def IsDuplicateTask_def CreateWorker_def CleanDuplicateTaskIdFilter_def Let_def)

lemma begin_again:
  assumes "map_wf (duplicate_task_id_filter vn)" and "map_of (duplicate_task_id_filter vn) (request_uid request) = Some t"
    and "now - t \<le> task_id_timeout_s"
  shows "worker_store (snd (ExecuteTask_begin now request vn)) = worker_store vn \<and>
    map_of (duplicate_task_id_filter (snd (ExecuteTask_begin now request vn))) (request_uid request) = Some t \<and>
    map_wf (duplicate_task_id_filter (snd (ExecuteTask_begin now request vn)))"
  using clean_filter [OF assms(1), of now "request_uid request"] assms map_erase_all_wf [OF assms(1)]
  by (simp add: ExecuteTask_begin_def IsDuplicateTask_def CleanDuplicateTaskIdFilter_def Let_def)

lemma served_task:
  assumes wf: "map_wf (duplicate_task_id_filter vn)" and new: "map_of (duplicate_task_id_filter vn) (request_uid request) = None"
    and near: "\<And>i k. fst (script i) - fst (script k) \<le> task_id_timeout_s"
  defines "after_calls \<equiv> \<lambda>j. served (serve_ExecuteTask request) script j vn"
  shows "map_wf (duplicate_task_id_filter (after_calls j)) \<and>
    (if arrived script j = 0 then after_calls j = vn
     else length (worker_store (after_calls j)) = length (worker_store vn) + 1 \<and>
       (\<exists>i. map_of (duplicate_task_id_filter (after_calls j)) (request_uid request) = Some (fst (script i))))"
proof (induction j)
  case 0
  show ?case by (simp add: after_calls_def arrived_def wf)
next
  case (Suc j)
  show ?case
  proof (cases "arrives_at script j")
    case False
    then have same: "after_calls (Suc j) = after_calls j" "arrived script (Suc j) = arrived script j"
      by (simp_all add: after_calls_def arrived_Suc Let_def)
    show ?thesis unfolding same by (rule Suc)
  next
    case True
    then have step: "after_calls (Suc j) = snd (ExecuteTask_begin (fst (script j)) request (after_calls j))"
      and pos: "arrived script (Suc j) \<noteq> 0"
      by (simp_all add: after_calls_def Let_def serve_ExecuteTask_def arrived_Suc)
    show ?thesis
    proof (cases "arrived script j = 0")
      case True
      with Suc begin_new [OF wf new, of "fst (script j)"] pos show ?thesis by (auto simp: step)
    next
      case False
      with Suc obtain i where i: "map_wf (duplicate_task_id_filter (after_calls j))"
        "length (worker_store (after_calls j)) = length (worker_store vn) + 1"
        "map_of (duplicate_task_id_filter (after_calls j)) (request_uid request) = Some (fst (script i))" by auto
      from begin_again [OF i(1,3) near] i(2) pos show ?thesis by (auto simp: step)
    qed
  qed
qed

section \<open>Properties\<close>

text \<open>
  C14. What \<^verbatim>\<open>SUCCESS\<close> of \<^verbatim>\<open>send\<close> means for a worker that is registered and open: over a network that loses
  calls and replies and breaks streams after any number of packages, every call that gets a package
  through puts the part of the data that was read under its key, in order, and nothing under another key;
  each part is a beginning of the data; there are at most three calls; and \<^verbatim>\<open>SUCCESS\<close> is reported only if
  the whole data is among the parts. A lost reply delivers the data again, a broken stream a truncated copy,
  which the receiver cannot tell from the data. The node runs no task with an empty request id, to which
  the service would take a stream without packages.
\<close>

theorem send_at_least_once:
  assumes "open_worker (snd (BuildTaskInfo (Some lc) empty_TaskContext)) r t wc vn"
    and "map_of (task_executor_map vn) [] = None"
  shows "\<exists>ret vn' j. send (node_stub script stub) lc key data (vn, 0) = (ret, vn', j) \<and> j \<le> retry_max_times \<and>
    (\<forall>k. waiting_at (snd (BuildTaskInfo (Some lc) empty_TaskContext)) k vn' =
       waiting_in (in_data_queue wc) k @ (if k = key then delivered script data j else [])) \<and>
    (\<forall>m. m \<in> set (delivered script data j) \<longrightarrow> (\<exists>rest. data = m @ rest)) \<and>
    (ret = SUCCESS \<longrightarrow> data \<in> set (delivered script data j))"
proof -
  let ?info = "snd (BuildTaskInfo (Some lc) empty_TaskContext)" and ?reqs = "buildTaskRequest (Some lc) key data"
  let ?serve = "serve_Send ?reqs" and ?script = "stream_script (buildTaskRequest (Some lc) key data) script"
  obtain j ret x where j: "0 < j" "j \<le> retry_max_times"
    "retry_loop (faulty_call ?serve empty_TaskResponse ?script) 0 (vn, 0) = ((ret, x), served ?serve ?script j vn, j)"
    "ret = SUCCESS \<longrightarrow> answered_at ?script (j - 1)"
    using retry_over_network [of ?serve empty_TaskResponse ?script vn] by blast
  have same: "delivered ?script data j = delivered script data j" by (simp add: delivered_def)
  obtain t' wc' where w: "open_worker ?info r t' wc' (served ?serve ?script j vn)"
    "\<forall>k. waiting_in (in_data_queue wc') k = waiting_in (in_data_queue wc) k @ (if k = key then delivered script data j else [])"
    using served_open [OF assms(1) refl assms(2), of key data ?script j] unfolding same by blast
  have "waiting_at ?info k (served ?serve ?script j vn) = waiting_in (in_data_queue wc') k" for k
    using open_worker_found [OF w(1)] by (simp add: waiting_at_def)
  moreover have "ret = SUCCESS \<longrightarrow> data \<in> set (delivered script data j)"
    using j(1,4) delivered_whole [of "j - 1" j script data]
    by (auto simp: answered_at_def stream_script_def arrives_at_def length_request Let_def case_prod_beta)
  moreover have "\<exists>ret'. send (node_stub script stub) lc key data (vn, 0) = (ret', served ?serve ?script j vn, j) \<and> (ret' = SUCCESS \<longrightarrow> ret = SUCCESS)"
    using j(3) by (auto simp: send_def node_stub_def Let_def)
  ultimately show ?thesis using j(2) w(2) delivered_parts by (metis (no_types, lifting))
qed

definition small_stub :: "(VMNodeImpl \<times> nat) stub" where
  "small_stub = \<lparr>rpc_Send = \<lambda>_ _ s. ((False, empty_TaskResponse), s), rpc_SendRecv = \<lambda>_ _ s. ((False, []), s),
     rpc_ForwardRecv = \<lambda>_ _ s. ((False, []), s)\<rparr>"

definition small_node :: VMNodeImpl where
  "small_node = (new_VMNodeImpl ''n'')
     \<lparr>worker_store := [(new_Worker ''n'' (empty_TaskContext\<lparr>tc_request_id := ''r''\<rparr>))\<lparr>task_ptr := Some new_task\<rparr>],
      task_executor_map := [(''r'', [Some 0])]\<rparr>"

lemma small_node_open:
  "open_worker (snd (BuildTaskInfo (Some (new_LinkContext\<lparr>lc_request_id := ''r''\<rparr>)) empty_TaskContext)) 0 new_task new_LinkContext small_node"
  by (simp add: open_worker_def small_node_def new_VMNodeImpl_def GetWorkerId_def BuildTaskInfo_def IsFinishedTask_def new_task_def)

text \<open>The first call breaks before a package is read, the second arrives and its reply is lost, the third is answered.\<close>

theorem send_at_least_once_witness:
  "\<exists>ret vn' j. send (node_stub (\<lambda>i. (i, True, i = 2)) small_stub) (new_LinkContext\<lparr>lc_request_id := ''r''\<rparr>) ''k'' ''abc'' (small_node, 0) =
     (ret, vn', j) \<and> j \<le> 3 \<and> (ret = SUCCESS \<longrightarrow> 2 \<le> j) \<and>
     waiting_at (empty_TaskContext\<lparr>tc_request_id := ''r''\<rparr>) ''k'' vn' = replicate (j - 1) ''abc''"
proof -
  let ?script = "\<lambda>i::nat. (i, True, i = 2)"
  have part: "part_read ''abc'' i = (if i = 0 then [] else ''abc'')" for i
    by (cases i) (simp_all add: part_read_def packages_from_last LIMITED_PACKAGE_SIZE_def)
  have parts: "delivered ?script ''abc'' j = replicate (j - 1) ''abc''" for j
    by (induction j) (auto simp: delivered_Suc delivered_def arrives_at_def part replicate_append_same Suc_diff_le
        simp flip: replicate_Suc)
  have none: "map_of (task_executor_map small_node) [] = None" by (simp add: small_node_def)
  show ?thesis
    using send_at_least_once [OF small_node_open none, of ?script small_stub "''k''" "''abc''"]
    unfolding parts
    by (auto simp: BuildTaskInfo_def new_LinkContext_def empty_TaskContext_def waiting_in_def retry_max_times_def)
qed

text \<open>
  A refused message looks like a delivered one: when the task of the message has finished, the node drops
  the data and nothing changes, but the service overwrites its \<^verbatim>\<open>FAIL\<close> with \<^verbatim>\<open>SUCCESS\<close>, and \<^verbatim>\<open>send\<close> reports
  success to the sender.
\<close>

theorem refused_send_succeeds:
  assumes "fst (IsFinishedTask (lc_request_id lc) vn)" and "script 0 = (c, True, True)" and "length (packages_from data 0) \<le> c"
  shows "send (node_stub script stub) lc key data (vn, 0) = (SUCCESS, vn, 1)"
proof -
  have "find_link [] (snd (BuildTaskInfo (Some lc) empty_TaskContext)) vn = Inr (Refused, vn)"
    using assms(1) by (simp add: find_link_def Let_def GetWorkerId_def BuildTaskInfo_def)
  moreover have "0 < c" using assms(3) packages_from_ne [of data 0] by (cases "packages_from data 0") auto
  ultimately have "serve_Send (buildTaskRequest (Some lc) key data) c vn = (empty_TaskResponse, vn)"
    by (simp add: serve_Send_def node_Send_def read_built ProcessReceivedData_def with_link_def empty_TaskResponse_def)
  then have "retry_loop (faulty_call (serve_Send (buildTaskRequest (Some lc) key data)) empty_TaskResponse
      (stream_script (buildTaskRequest (Some lc) key data) script)) 0 (vn, 0) = ((SUCCESS, empty_TaskResponse), vn, 1)"
    using assms(2,3) by (subst retry_loop.simps) (simp add: faulty_call_def stream_script_def length_request)
  then show ?thesis by (simp add: send_def node_stub_def Let_def empty_TaskResponse_def)
qed

theorem refused_send_succeeds_witness:
  "send (node_stub (\<lambda>_. (1, True, True)) small_stub) (new_LinkContext\<lparr>lc_request_id := ''r''\<rparr>) ''k'' ''abc''
     (CacheLastTaskStatus 7 ''r'' ST_SUCCESS small_node, 0) = (SUCCESS, CacheLastTaskStatus 7 ''r'' ST_SUCCESS small_node, 1)"
  by (rule refused_send_succeeds [where c = 1])
    (simp_all add: IsFinishedTask_def CacheLastTaskStatus_def packages_from_last LIMITED_PACKAGE_SIZE_def)

text \<open>
  C15. A task is started once, however often its command is repeated: \<^verbatim>\<open>executeTask\<close> over a network that may
  lose requests and replies, with calls that arrive within the half minute for which a node remembers
  a task, makes the node create one worker if any of the calls arrived, and none otherwise; when it
  reports \<^verbatim>\<open>SUCCESS\<close>, there is exactly one.
\<close>

theorem task_starts_once:
  assumes "map_wf (duplicate_task_id_filter vn)" and "map_of (duplicate_task_id_filter vn) (request_uid request) = None"
    and "\<And>i k. fst (script i) - fst (script k) \<le> task_id_timeout_s"
  shows "\<exists>ret vn' j. executeTask (\<lambda>_ q. faulty_call (serve_ExecuteTask q) () script) request (vn, 0) = ((ret, ()), vn', j) \<and>
    length (worker_store vn') = length (worker_store vn) + (if arrived script j = 0 then 0 else 1) \<and>
    (ret = SUCCESS \<longrightarrow> arrived script j \<noteq> 0)"
proof -
  let ?serve = "serve_ExecuteTask request"
  obtain j ret where j: "0 < j" "retry_loop (faulty_call ?serve () script) 0 (vn, 0) = ((ret, ()), served ?serve script j vn, j)"
    "ret = SUCCESS \<longrightarrow> arrives_at script (j - 1)"
    using retry_over_network [of ?serve "()" script vn] by (auto simp: answered_at_def)
  moreover have "ret = SUCCESS \<longrightarrow> arrived script j \<noteq> 0" using j(1,3) arrived_Suc [of script "j - 1"] by simp
  ultimately show ?thesis using served_task [of vn request script j] assms
    by (auto simp: executeTask_def split: if_splits)
qed

definition small_request :: PushTaskRequest where
  "small_request = \<lparr>pr_task = \<lparr>pt_type = ACTOR_TASK, pt_language = PROTO, pt_code = [], pt_node_map = [], pt_task_info = empty_TaskContext\<lparr>tc_request_id := ''r''\<rparr>, pt_party_name = ''P'', pt_params = [],
     pt_party_datasets = [], pt_party_access_info = [], pt_auxiliary_server = []\<rparr>, pr_manual_launch = False\<rparr>"

theorem task_starts_once_witness:
  "\<exists>ret vn' j. executeTask (\<lambda>_ q. faulty_call (serve_ExecuteTask q) () (\<lambda>i. (int (min i 9), True, False))) small_request
     (new_VMNodeImpl ''n'', 0) = ((ret, ()), vn', j) \<and> length (worker_store vn') = (if j = 0 then 0 else 1)"
proof -
  let ?script = "\<lambda>i. (int (min i 9), True, False)"
  have all: "arrived ?script j = j" for j by (simp add: arrived_def arrives_at_def)
  have near: "fst (?script i) - fst (?script k) \<le> task_id_timeout_s" for i k
    by (auto simp: min_def task_id_timeout_s_def)
  have "map_wf (duplicate_task_id_filter (new_VMNodeImpl ''n''))"
    "map_of (duplicate_task_id_filter (new_VMNodeImpl ''n'')) (request_uid small_request) = None"
    "length (worker_store (new_VMNodeImpl ''n'')) = 0" by (simp_all add: new_VMNodeImpl_def)
  note new = this
  from task_starts_once [where script = ?script, OF new(1,2) near] show ?thesis
    unfolding all new(3) add_0 by blast
qed

end
