(* ===== verification/Node_Run.thy ===== *)
theory Node_Run
  imports Node_Interface
begin

text \<open>
  The node as a state machine: the handlers, the threads and the tasks take steps in any order. An
  invariant of the reachable states shows that no handler meets undefined behaviour or an exception,
  and two results are about the order in which the management thread sees its commands and about
  what a client gets when it asks for the status of a task.
\<close>

section \<open>Steps\<close>

text \<open>
  A network without state stands for the reports that are sent out; they do not change the node. A
  handler that polls takes no step until it finds the worker. The rule \<open>task_acts\<close> covers every use a
  running task makes of its link context. A step is a whole turn of a handler or thread: what two turns do to a map
  that the code does not lock against both is not covered.
\<close>

inductive node_step :: "VMNodeImpl \<Rightarrow> VMNodeImpl \<Rightarrow> bool" where
  execute_begin: "node_step vn (snd (ExecuteTask_begin now request vn))"
| execute_ready: "r < length (worker_store vn) \<Longrightarrow> ExecuteTask_ready update service_node request r vn () = Some (x, vn', ()) \<Longrightarrow> node_step vn vn'"
| execute_end: "executor_end update now request worker_id status status_info vn () = (vn', ()) \<Longrightarrow> node_step vn vn'"
| process_starts: "r < length (worker_store vn) \<Longrightarrow> process_start ((worker_store vn ! r)\<lparr>task_ptr := Some new_task\<rparr>) = Inr w \<Longrightarrow>
    node_step vn (vn\<lparr>worker_store := (worker_store vn)[r := w]\<rparr>)"
| process_ends: "r < length (worker_store vn) \<Longrightarrow>
    node_step vn (vn\<lparr>worker_store := (worker_store vn)[r := (worker_store vn ! r)\<lparr>process_running := False\<rparr>]\<rparr>)"
| thread_starts: "r < length (worker_store vn) \<Longrightarrow> tk_link t \<noteq> None \<Longrightarrow> thread_start t (worker_store vn ! r) = Inr w \<Longrightarrow>
    node_step vn (vn\<lparr>worker_store := (worker_store vn)[r := w]\<rparr>)"
| thread_fails: "r < length (worker_store vn) \<Longrightarrow> set_ready False ((worker_store vn ! r)\<lparr>task_ptr := None\<rparr>) = Inr w \<Longrightarrow>
    node_step vn (vn\<lparr>worker_store := (worker_store vn)[r := w]\<rparr>)"
| task_acts: "r < length (worker_store vn) \<Longrightarrow> task_ptr (worker_store vn ! r) = Some t \<Longrightarrow> tk_link t \<noteq> None \<Longrightarrow> node_step vn (set_link r t lc vn)"
| stop: "node_step vn (snd (node_StopTask task_info vn))"
| kill: "KillTask task_info executor vn = Inr (x, vn') \<Longrightarrow> node_step vn vn'"
| update: "UpdateTaskStatus s vn = Inr (x, vn') \<Longrightarrow> node_step vn vn'"
| fetch: "FetchTaskStatus task_info vn = Inr (sts, vn') \<Longrightarrow> node_step vn vn'"
| dispatch_begin: "node_step vn (snd (DispatchTask_begin task_info vn))"
| dispatch_end: "DispatchTask_end outcome service_node r reply vn = Inr (y, vn') \<Longrightarrow> node_step vn vn'"
| scheduled: "scheduler_func killing r parties task_config vn () = Some (vn', ()) \<Longrightarrow> node_step vn vn'"
| received: "ProcessReceivedData [] task_info key data vn = Inr (z, vn') \<Longrightarrow> node_step vn vn'"
| sent: "ProcessSendData [] task_info key data vn = Inr (d, vn') \<Longrightarrow> node_step vn vn'"
| forwarded: "ProcessForwardData [] task_info key data vn = Inr (d, vn') \<Longrightarrow> node_step vn vn'"
| completed: "ProcessCompleteStatus [] task_info key c vn = Inr (z, vn') \<Longrightarrow> node_step vn vn'"
| manage_turn: "ManageTaskOperator_turn vn = Some (b, vn') \<Longrightarrow> node_step vn vn'"
| kill_turn: "ProcessKillTask_turn Process_kill vn = Inr (Some (b, vn')) \<Longrightarrow> node_step vn vn'"
| finished_turn: "CleanFinishedTask_turn vn = Some (b, vn') \<Longrightarrow> node_step vn vn'"
| status_turn: "node_step vn (snd (CleanTimeoutCachedTaskStatus_turn now vn))"
| scheduler_turn: "CleanFinishedSchedulerWorker_turn now st vn = Some (b, st', vn') \<Longrightarrow> node_step vn vn'"

inductive node_reach :: "string \<Rightarrow> VMNodeImpl \<Rightarrow> bool" for node_id where
  start: "node_reach node_id (new_VMNodeImpl node_id)"
| step: "node_reach node_id vn \<Longrightarrow> node_step vn vn' \<Longrightarrow> node_reach node_id vn'"

section \<open>The invariant\<close>

definition worker_ok :: "Worker \<Rightarrow> bool" where
  "worker_ok w \<longleftrightarrow> (task_ready_promise w = Some True \<longrightarrow> (\<exists>t. task_ptr w = Some t \<and> tk_link t \<noteq> None)) \<and>
     (scheduler_finished w \<longleftrightarrow> task_finish_promise w \<noteq> None)"

definition ready_ref :: "Worker list \<Rightarrow> nat option \<Rightarrow> bool" where
  "ready_ref ws x \<longleftrightarrow> (\<exists>r. x = Some r \<and> r < length ws \<and> task_ready_promise (ws ! r) = Some True)"

definition refs_ok :: "Worker list \<Rightarrow> nat option list \<Rightarrow> bool" where
  "refs_ok ws q \<longleftrightarrow> q \<noteq> [] \<and> list_all (ready_ref ws) q"

definition node_ok :: "VMNodeImpl \<Rightarrow> bool" where
  "node_ok vn \<longleftrightarrow> list_all worker_ok (worker_store vn) \<and>
     (\<forall>k q. map_of (task_executor_map vn) k = Some q \<longrightarrow> refs_ok (worker_store vn) q) \<and>
     list_all (\<lambda>(k, x, type). type = kAdd \<longrightarrow> ready_ref (worker_store vn) x) (m_queue (task_manage_queue vn)) \<and>
     (\<forall>k r. map_of (task_scheduler_map vn) k = Some r \<longrightarrow> r < length (worker_store vn)) \<and>
     list_all (refs_ok (worker_store vn)) (m_queue (kill_task_queue vn))"

text \<open>Workers stay in the store and stay ready.\<close>

definition store_grows :: "Worker list \<Rightarrow> Worker list \<Rightarrow> bool" where
  "store_grows ws ws' \<longleftrightarrow> length ws \<le> length ws' \<and> list_all worker_ok ws' \<and>
     (\<forall>r < length ws. task_ready_promise (ws ! r) = Some True \<longrightarrow> task_ready_promise (ws' ! r) = Some True)"

lemma ready_ref_grows: "store_grows ws ws' \<Longrightarrow> ready_ref ws x \<Longrightarrow> ready_ref ws' x"
  by (auto simp: store_grows_def ready_ref_def)

lemma refs_ok_grows: "store_grows ws ws' \<Longrightarrow> refs_ok ws q \<Longrightarrow> refs_ok ws' q"
  by (auto simp: refs_ok_def list_all_iff intro: ready_ref_grows)

lemma node_ok_grows:
  assumes vn: "node_ok vn" and grows: "store_grows (worker_store vn) ws"
  shows "node_ok (vn\<lparr>worker_store := ws\<rparr>)"
proof -
  note ref = ready_ref_grows [OF grows] and refs = refs_ok_grows [OF grows]
  have len: "length (worker_store vn) \<le> length ws" and all: "list_all worker_ok ws" using grows by (simp_all add: store_grows_def)
  have "list_all (\<lambda>(k, x, type). type = kAdd \<longrightarrow> ready_ref ws x) (m_queue (task_manage_queue vn))"
    using vn by (auto simp: node_ok_def list_all_iff intro: ref)
  moreover have "list_all (refs_ok ws) (m_queue (kill_task_queue vn))"
    using vn by (auto simp: node_ok_def list_all_iff intro: refs)
  moreover have "refs_ok ws q" if "map_of (task_executor_map vn) k = Some q" for k q
    using vn that by (auto simp: node_ok_def intro: refs)
  moreover have "r < length ws" if "map_of (task_scheduler_map vn) k = Some r" for k r
    using vn that len unfolding node_ok_def by (meson less_le_trans)
  ultimately show ?thesis using all by (simp add: node_ok_def)
qed

lemma worker_at: "node_ok vn \<Longrightarrow> r < length (worker_store vn) \<Longrightarrow> worker_ok (worker_store vn ! r)"
  by (auto simp: node_ok_def list_all_length)

lemma store_grows_update:
  "list_all worker_ok ws \<Longrightarrow> worker_ok w \<Longrightarrow>
   (task_ready_promise (ws ! r) = Some True \<longrightarrow> task_ready_promise w = Some True) \<Longrightarrow> store_grows ws (ws[r := w])"
  by (cases "r < length ws") (auto simp: store_grows_def list_all_length nth_list_update)

lemma node_ok_update:
  "node_ok vn \<Longrightarrow> worker_ok w \<Longrightarrow> (task_ready_promise (worker_store vn ! r) = Some True \<longrightarrow> task_ready_promise w = Some True) \<Longrightarrow>
   node_ok (vn\<lparr>worker_store := (worker_store vn)[r := w]\<rparr>)"
  by (rule node_ok_grows) (auto intro: store_grows_update simp: node_ok_def)

lemma node_ok_create: "node_ok vn \<Longrightarrow> node_ok (snd (CreateWorker task_info vn))"
  unfolding CreateWorker_def snd_conv
  by (rule node_ok_grows) (auto simp: store_grows_def node_ok_def worker_ok_def new_Worker_def nth_append)

text \<open>The parts of the node that the invariant does not mention.\<close>

lemma node_ok_irrelevant [simp]:
  "node_ok (vn\<lparr>duplicate_task_id_filter := a\<rparr>) = node_ok vn" "node_ok (vn\<lparr>finished_task_status := b\<rparr>) = node_ok vn"
  "node_ok (vn\<lparr>write_flag := c\<rparr>) = node_ok vn" "node_ok (vn\<lparr>finished_task_queue := d\<rparr>) = node_ok vn"
  "node_ok (vn\<lparr>finished_scheduler_workers := e\<rparr>) = node_ok vn"
  by (simp_all add: node_ok_def)

lemma node_ok_push: "node_ok vn \<Longrightarrow> (type = kAdd \<longrightarrow> ready_ref (worker_store vn) x) \<Longrightarrow> node_ok (push_manage (k, x, type) vn)"
  by (simp add: node_ok_def push_manage_def q_emplace_def)

section \<open>Methods of a worker\<close>

text \<open>A method that keeps the worker well formed and does not touch the ready promise, and one that also never throws.\<close>

definition keeps :: "(Worker \<Rightarrow> ('a \<times> Worker) res) \<Rightarrow> bool" where
  "keeps f \<longleftrightarrow> (\<forall>w a w'. worker_ok w \<longrightarrow> f w = Inr (a, w') \<longrightarrow> worker_ok w' \<and> task_ready_promise w' = task_ready_promise w)"

definition total_on_ok :: "(Worker \<Rightarrow> ('a \<times> Worker) res) \<Rightarrow> bool" where
  "total_on_ok f \<longleftrightarrow> (\<forall>w. worker_ok w \<longrightarrow> (\<exists>x. f w = Inr x))"

lemma finish_once_ok: "worker_ok w \<Longrightarrow> \<exists>w'. finish_once v w = Inr w' \<and> worker_ok w' \<and> task_ready_promise w' = task_ready_promise w"
  by (auto simp: worker_ok_def finish_once_total)

lemma record_final_ok: "worker_ok w \<Longrightarrow> \<exists>w'. record_final s w = Inr w' \<and> worker_ok w' \<and> task_ready_promise w' = task_ready_promise w"
proof -
  assume w: "worker_ok w"
  define w1 where "w1 = w\<lparr>final_status := map_assign (ts_party s) (ts_status s) (final_status w)\<rparr>"
  have w1: "worker_ok w1" "task_ready_promise w1 = task_ready_promise w" using w by (simp_all add: w1_def worker_ok_def)
  obtain w2 where w2: "(if ts_status s = ST_FAIL then finish_once FAIL w1 else Inr w1) = Inr w2" "worker_ok w2"
    "task_ready_promise w2 = task_ready_promise w"
    using finish_once_ok [OF w1(1), of FAIL] w1 by (cases "ts_status s = ST_FAIL") auto
  show ?thesis using w2 finish_once_ok [OF w2(2), of SUCCESS]
    by (auto simp: record_final_def Let_def w1_def [symmetric])
qed

lemma update_ok: "keeps (worker_updateTaskStatus s)" "total_on_ok (worker_updateTaskStatus s)"
proof -
  have "\<exists>w'. worker_updateTaskStatus s w = Inr (SUCCESS, w') \<and> worker_ok w' \<and> task_ready_promise w' = task_ready_promise w"
    if "worker_ok w" for w
    using that record_final_ok [OF that, of s] by (auto simp: worker_updateTaskStatus_def worker_ok_def)
  then show "keeps (worker_updateTaskStatus s)" "total_on_ok (worker_updateTaskStatus s)"
    by (fastforce simp: keeps_def total_on_ok_def)+
qed

lemma fetch_loop_ok: "worker_ok w \<Longrightarrow> worker_ok (snd (fetch_loop n w)) \<and> task_ready_promise (snd (fetch_loop n w)) = task_ready_promise w"
  by (induction n arbitrary: w)
     (auto simp: worker_fetchTaskStatus_def q_try_pop_def worker_ok_def Let_def case_prod_beta split: list.splits)

lemma kill_task_keeps: "keeps (\<lambda>w. bindR (kill_task Process_kill w) (\<lambda>w1. Inr ((), w1)))"
  by (auto simp: keeps_def kill_task_def worker_ok_def task_kill_def Let_def split: option.splits if_splits)

lemma at_worker_ok: "node_ok vn \<Longrightarrow> keeps f \<Longrightarrow> at_worker r f vn = Inr (a, vn') \<Longrightarrow> node_ok vn'"
proof -
  assume vn: "node_ok vn" and f: "keeps f" and eq: "at_worker r f vn = Inr (a, vn')"
  from eq obtain w where w: "r < length (worker_store vn)" "f (worker_store vn ! r) = Inr (a, w)"
    "vn' = vn\<lparr>worker_store := (worker_store vn)[r := w]\<rparr>"
    by (auto simp: at_worker_def split: if_splits)
  from f worker_at [OF vn w(1)] w(2) have "worker_ok w" "task_ready_promise w = task_ready_promise (worker_store vn ! r)"
    unfolding keeps_def by blast+
  then show ?thesis unfolding w(3) by (intro node_ok_update [OF vn]) simp_all
qed

lemma at_worker_total: "node_ok vn \<Longrightarrow> r < length (worker_store vn) \<Longrightarrow> total_on_ok f \<Longrightarrow> \<exists>x. at_worker r f vn = Inr x"
proof -
  assume "node_ok vn" "r < length (worker_store vn)" "total_on_ok f"
  then obtain a w where "f (worker_store vn ! r) = Inr (a, w)" by (metis worker_at total_on_ok_def surj_pair)
  then show ?thesis using \<open>r < length (worker_store vn)\<close> by (simp add: at_worker_def)
qed

lemma scheduler_ref: "node_ok vn \<Longrightarrow> GetSchedulerWorker task_info vn = Some r \<Longrightarrow> r < length (worker_store vn)"
  by (simp add: node_ok_def GetSchedulerWorker_def)

section \<open>The handlers keep the invariant\<close>

lemma executor_refs: "node_ok vn \<Longrightarrow> map_of (task_executor_map vn) k = Some q \<Longrightarrow> refs_ok (worker_store vn) q"
  by (simp add: node_ok_def)

lemma find_link_ok:
  assumes vn: "node_ok vn"
  shows "\<exists>l. find_link [] task_info vn = Inr (l, vn) \<and>
    (\<forall>r t lc. l = Found r t lc \<longrightarrow> r < length (worker_store vn) \<and> task_ptr (worker_store vn ! r) = Some t \<and> tk_link t = Some lc)"
proof -
  have front: "\<exists>r. x = Some r \<and> r < length (worker_store vn) \<and> (\<exists>t. task_ptr (worker_store vn ! r) = Some t)"
    if "map_of (task_executor_map vn) k = Some (x # q)" for k x q
  proof -
    have "ready_ref (worker_store vn) x" using executor_refs [OF vn that] by (simp add: refs_ok_def)
    then obtain r where r: "x = Some r" "r < length (worker_store vn)" "task_ready_promise (worker_store vn ! r) = Some True"
      by (auto simp: ready_ref_def)
    with worker_at [OF vn r(2)] show ?thesis by (auto simp: worker_ok_def)
  qed
  have ne: "map_of (task_executor_map vn) k \<noteq> Some []" for k using vn by (auto simp: node_ok_def refs_ok_def)
  show ?thesis
  proof (cases "map_of (task_executor_map vn) (GetWorkerId task_info)")
    case None
    then show ?thesis by (simp add: find_link_def IsTaskWorkerReady_def WaitUntilWorkerReady.simps Let_def)
  next
    case (Some q)
    then obtain x q' where q: "q = x # q'" using ne by (cases q) auto
    from front Some q obtain r t where r: "x = Some r" "r < length (worker_store vn)" "task_ptr (worker_store vn ! r) = Some t" by blast
    show ?thesis using Some q r
      by (auto simp: find_link_def IsTaskWorkerReady_def WaitUntilWorkerReady.simps GetWorker_def Let_def split: option.splits)
  qed
qed

lemma set_link_ok: "node_ok vn \<Longrightarrow> node_ok (set_link r t lc vn)"
proof -
  assume vn: "node_ok vn"
  show ?thesis
  proof (cases "r < length (worker_store vn)")
    case True
    then show ?thesis using vn worker_at [OF vn True] unfolding set_link_def
      by (intro node_ok_update) (auto simp: worker_ok_def)
  next
    case False
    then show ?thesis using vn by (simp add: set_link_def list_update_beyond)
  qed
qed

lemma with_link_ok:
  assumes "node_ok vn"
  shows "\<exists>a vn'. with_link [] task_info f buffer vn = Inr (a, vn') \<and> node_ok vn'"
proof -
  obtain l where l: "find_link [] task_info vn = Inr (l, vn)" using find_link_ok [OF assms] by blast
  show ?thesis using assms set_link_ok [OF assms] by (cases l) (simp_all add: with_link_def l case_prod_beta Let_def)
qed

lemmas data_handlers = ProcessReceivedData_def ProcessSendData_def ProcessForwardData_def ProcessCompleteStatus_def

lemma data_handler_step:
  "node_ok vn \<Longrightarrow> with_link [] task_info f buffer vn = Inr (a, vn') \<Longrightarrow> node_ok vn'"
  using with_link_ok [of vn task_info f buffer] by auto

lemma KillTask_ok: "node_ok vn \<Longrightarrow> KillTask task_info executor vn = Inr (x, vn') \<Longrightarrow> node_ok vn'"
  by (auto simp: KillTask_def Let_def node_ok_push split: if_splits ExecutorType.splits option.splits prod.splits
      intro: at_worker_ok [OF _ update_ok(1)])

lemma UpdateTaskStatus_ok: "node_ok vn \<Longrightarrow> UpdateTaskStatus s vn = Inr (x, vn') \<Longrightarrow> node_ok vn'"
  by (auto simp: UpdateTaskStatus_def split: option.splits prod.splits intro: at_worker_ok [OF _ update_ok(1)])

lemma fetch_keeps: "keeps (\<lambda>w. Inr (fetch_loop (Suc (length (m_queue (task_status_q w)))) w))"
  unfolding keeps_def using fetch_loop_ok by (metis old.sum.inject(2) snd_conv)

lemma FetchTaskStatus_ok: "node_ok vn \<Longrightarrow> FetchTaskStatus task_info vn = Inr (x, vn') \<Longrightarrow> node_ok vn'"
  by (auto simp: FetchTaskStatus_def simp del: fetch_loop.simps split: option.splits intro: at_worker_ok [OF _ fetch_keeps])

lemma DispatchTask_end_ok: "node_ok vn \<Longrightarrow> DispatchTask_end outcome service_node r reply vn = Inr (x, vn') \<Longrightarrow> node_ok vn'"
proof -
  have "keeps (\<lambda>w. Inr ((), setPartyCount n w))" for n by (auto simp: keeps_def worker_ok_def setPartyCount_def)
  then show "node_ok vn \<Longrightarrow> DispatchTask_end outcome service_node r reply vn = Inr (x, vn') \<Longrightarrow> node_ok vn'"
    by (auto simp: DispatchTask_end_def split: dispatch_outcome.splits retcode.splits intro: at_worker_ok)
qed

lemma DispatchTask_begin_ok: "node_ok vn \<Longrightarrow> node_ok (snd (DispatchTask_begin task_info vn))"
  using node_ok_create [of vn task_info]
  by (auto simp: DispatchTask_begin_def CreateWorker_def Let_def node_ok_def split: option.splits if_splits)

lemma ExecuteTask_begin_ok: "node_ok vn \<Longrightarrow> node_ok (snd (ExecuteTask_begin now request vn))"
  by (auto simp: ExecuteTask_begin_def CleanDuplicateTaskIdFilter_def IsDuplicateTask_def Let_def case_prod_beta
      intro: node_ok_create split: option.splits)

lemma ExecuteTask_ready_ok:
  "node_ok vn \<Longrightarrow> r < length (worker_store vn) \<Longrightarrow> ExecuteTask_ready update service_node request r vn n = Some (x, vn', n') \<Longrightarrow> node_ok vn'"
  by (auto simp: ExecuteTask_ready_def waitForTaskReady_def ready_ref_def split: option.splits retcode.splits prod.splits if_splits
      intro!: node_ok_push)

lemma executor_end_ok: "node_ok vn \<Longrightarrow> executor_end update now request worker_id status info vn n = (vn', n') \<Longrightarrow> node_ok vn'"
  by (auto simp: executor_end_def CacheLastTaskStatus_def Let_def split: prod.splits if_splits intro!: node_ok_push)

lemma scheduler_func_ok: "node_ok vn \<Longrightarrow> scheduler_func killing r parties task_config vn n = Some (vn', n') \<Longrightarrow> node_ok vn'"
  by (auto simp: scheduler_func_def Let_def split: option.splits)

section \<open>The threads keep the invariant\<close>

lemma q_wait_parts: "q_wait q = Some (item, q') \<Longrightarrow>
  (item = None \<and> q' = q) \<or> (\<exists>x. item = Some x \<and> m_queue q = x # m_queue q')"
  by (auto simp: q_wait_def q_ready_def q_take_def split: if_splits list.splits)

lemma manage_turn_ok: "node_ok vn \<Longrightarrow> ManageTaskOperator_turn vn = Some (b, vn') \<Longrightarrow> node_ok vn'"
proof -
  assume vn: "node_ok vn" and turn: "ManageTaskOperator_turn vn = Some (b, vn')"
  from turn obtain item q where q: "q_wait (task_manage_queue vn) = Some (item, q)"
    by (auto simp: ManageTaskOperator_turn_def split: option.splits)
  define vn1 where "vn1 = vn\<lparr>task_manage_queue := q\<rparr>"
  obtain k x type where i: "(case item of Some i \<Rightarrow> i | None \<Rightarrow> ([], None, kUnknown)) = (k, x, type)" by (metis surj_pair)
  have vn1: "node_ok vn1" and add: "type = kAdd \<longrightarrow> ready_ref (worker_store vn) x"
    using vn q_wait_parts [OF q] i by (auto simp: vn1_def node_ok_def)
  have refs: "refs_ok (worker_store vn) q'" if "map_of (task_executor_map vn1) k' = Some q'" for k' q'
    using executor_refs [OF vn] that by (simp add: vn1_def)
  have vn': "vn' = (if vn_stop vn1 then vn1 else case type of
       kAdd \<Rightarrow> ExecuteAddTaskOperation k x vn1 | kDel \<Rightarrow> ExecuteDelTaskOperation k vn1
     | kKill \<Rightarrow> ExecuteKillTaskOperation k vn1 | kUnknown \<Rightarrow> vn1)"
    unfolding vn1_def using turn q i by (auto simp: ManageTaskOperator_turn_def Let_def split: if_splits)
  have "type = kAdd \<Longrightarrow> node_ok (ExecuteAddTaskOperation k x vn1)"
    using vn1 add refs by (auto simp: ExecuteAddTaskOperation_def node_ok_def refs_ok_def vn1_def split: option.splits)
  moreover have "node_ok (ExecuteDelTaskOperation k vn1)"
    using vn1 by (auto simp: ExecuteDelTaskOperation_def node_ok_def split: option.splits)
  moreover have "node_ok (ExecuteKillTaskOperation k vn1)"
    using vn1 by (auto simp: ExecuteKillTaskOperation_def node_ok_def q_emplace_def split: option.splits)
  ultimately show ?thesis using vn1 by (simp add: vn' split: OperateTaskType.splits)
qed

lemma kill_workers_ok: "node_ok vn \<Longrightarrow> kill_workers Process_kill rs vn = Inr vn' \<Longrightarrow> node_ok vn'"
  by (induction Process_kill rs vn rule: kill_workers.induct)
     (auto split: prod.splits dest: at_worker_ok [OF _ kill_task_keeps])

lemma kill_turn_ok: "node_ok vn \<Longrightarrow> ProcessKillTask_turn Process_kill vn = Inr (Some (b, vn')) \<Longrightarrow> node_ok vn'"
proof -
  assume vn: "node_ok vn" and turn: "ProcessKillTask_turn Process_kill vn = Inr (Some (b, vn'))"
  from turn obtain item q where q: "q_wait (kill_task_queue vn) = Some (item, q)"
    by (auto simp: ProcessKillTask_turn_def split: option.splits)
  have "node_ok (vn\<lparr>kill_task_queue := q\<rparr>)" using vn q_wait_parts [OF q] by (auto simp: node_ok_def)
  then show ?thesis using turn q
    by (auto simp: ProcessKillTask_turn_def Let_def split: if_splits dest: kill_workers_ok)
qed

lemma scheduler_turn_ok: "node_ok vn \<Longrightarrow> CleanFinishedSchedulerWorker_turn now st vn = Some (b, st', vn') \<Longrightarrow> node_ok vn'"
  by (auto simp: CleanFinishedSchedulerWorker_turn_def Let_def case_prod_beta node_ok_def map_of_erase_all
      split: option.splits if_splits)

lemma start_ok:
  "worker_ok w \<Longrightarrow> process_start (w\<lparr>task_ptr := Some new_task\<rparr>) = Inr w' \<Longrightarrow> worker_ok w' \<and> task_ready_promise w = None"
  "worker_ok w \<Longrightarrow> tk_link t \<noteq> None \<Longrightarrow> thread_start t w = Inr w' \<Longrightarrow> worker_ok w' \<and> task_ready_promise w = None"
  "worker_ok w \<Longrightarrow> set_ready False (w\<lparr>task_ptr := None\<rparr>) = Inr w' \<Longrightarrow> worker_ok w' \<and> task_ready_promise w = None"
  by (auto simp: process_start_def thread_start_def set_ready_def worker_ok_def new_task_def split: if_splits)

lemma node_step_ok: "node_step vn vn' \<Longrightarrow> node_ok vn \<Longrightarrow> node_ok vn'"
proof (induction rule: node_step.induct)
  case (process_starts r vn w)
  with start_ok(1) [OF worker_at] show ?case by (intro node_ok_update) auto
next
  case (process_ends r vn)
  then show ?case using worker_at [OF process_ends(2,1)] by (intro node_ok_update) (auto simp: worker_ok_def)
next
  case (thread_starts r vn t w)
  with start_ok(2) [OF worker_at] show ?case by (intro node_ok_update) auto
next
  case (thread_fails r vn w)
  with start_ok(3) [OF worker_at] show ?case by (intro node_ok_update) auto
next
  case (status_turn vn now)
  then show ?case by (simp add: CleanTimeoutCachedTaskStatus_turn_def Let_def)
next
  case (finished_turn vn b vn')
  then show ?case by (auto simp: CleanFinishedTask_turn_def Let_def split: option.splits)
next
  case (stop vn task_info)
  then show ?case by (simp add: node_StopTask_def node_ok_push)
next
  case (execute_begin vn now request)
  then show ?case by (rule ExecuteTask_begin_ok)
next
  case (execute_ready r vn update service_node request x vn')
  then show ?case by (metis ExecuteTask_ready_ok)
next
  case (execute_end update now request worker_id status status_info vn vn')
  then show ?case by (metis executor_end_ok)
next
  case (task_acts r vn t lc)
  then show ?case by (metis set_link_ok)
next
  case (kill task_info executor vn x vn')
  then show ?case by (metis KillTask_ok)
next
  case (update s vn x vn')
  then show ?case by (metis UpdateTaskStatus_ok)
next
  case (fetch task_info vn sts vn')
  then show ?case by (metis FetchTaskStatus_ok)
next
  case (dispatch_begin vn task_info)
  then show ?case by (rule DispatchTask_begin_ok)
next
  case (dispatch_end outcome service_node r reply vn y vn')
  then show ?case by (metis DispatchTask_end_ok)
next
  case (scheduled killing r parties task_config vn vn')
  then show ?case by (metis scheduler_func_ok)
next
  case (received task_info key data vn z vn')
  show ?case by (rule data_handler_step [OF received(2) received(1) [unfolded ProcessReceivedData_def]])
next
  case (sent task_info key data vn d vn')
  show ?case by (rule data_handler_step [OF sent(2) sent(1) [unfolded ProcessSendData_def]])
next
  case (forwarded task_info key data vn d vn')
  show ?case by (rule data_handler_step [OF forwarded(2) forwarded(1) [unfolded ProcessForwardData_def]])
next
  case (completed task_info key c vn z vn')
  show ?case by (rule data_handler_step [OF completed(2) completed(1) [unfolded ProcessCompleteStatus_def]])
next
  case (manage_turn vn b vn')
  then show ?case by (metis manage_turn_ok)
next
  case (kill_turn Process_kill vn b vn')
  then show ?case by (metis kill_turn_ok)
next
  case (scheduler_turn now st vn b st' vn')
  then show ?case by (metis scheduler_turn_ok)
qed

lemma node_reach_ok: "node_reach node_id vn \<Longrightarrow> node_ok vn"
proof (induction rule: node_reach.induct)
  case start
  show ?case by (simp add: node_ok_def new_VMNodeImpl_def new_tsq_def)
qed (rule node_step_ok)

text \<open>Polling while the other threads take their steps.\<close>

definition steps_only :: "string \<Rightarrow> tick list \<Rightarrow> bool" where
  "steps_only node_id ticks \<longleftrightarrow> list_all (\<lambda>(others, _). \<forall>vn. node_reach node_id vn \<longrightarrow> node_reach node_id (others vn)) ticks"

lemma poll_reach:
  "node_reach node_id vn \<Longrightarrow> steps_only node_id ticks \<Longrightarrow> node_reach node_id (snd (WaitUntilWorkerReady worker_id timeout ticks vn))"
proof (induction ticks arbitrary: vn)
  case Nil
  then show ?case by (simp add: WaitUntilWorkerReady.simps)
next
  case (Cons tick ticks)
  obtain f e where tick: "tick = (f, e)" by (cases tick)
  with Cons.prems have "node_reach node_id (f vn)" "steps_only node_id ticks" by (simp_all add: steps_only_def)
  from Cons.IH [OF this] this Cons.prems(1) show ?case
    by (subst WaitUntilWorkerReady.simps) (cases "timeout = -1"; simp add: tick Let_def)
qed

lemma poll_found:
  "WaitUntilWorkerReady worker_id timeout ticks vn = (Some SUCCESS, vn') \<Longrightarrow> IsTaskWorkerReady worker_id vn'"
proof (induction ticks arbitrary: vn)
  case Nil
  then show ?case by (auto simp: WaitUntilWorkerReady.simps [of _ _ "[]"] split: if_splits)
next
  case (Cons tick ticks)
  obtain f e where "tick = (f, e)" by (cases tick)
  with Cons.prems have "IsTaskWorkerReady worker_id vn \<and> vn' = vn \<or>
    WaitUntilWorkerReady worker_id timeout ticks (f vn) = (Some SUCCESS, vn')"
    by (subst (asm) WaitUntilWorkerReady.simps) (auto simp: Let_def split: if_splits)
  with Cons.IH show ?case by blast
qed

lemma find_link_total:
  assumes "node_reach node_id vn" and "steps_only node_id ticks"
  shows "\<exists>x. find_link ticks task_info vn = Inr x"
proof -
  obtain ret vn1 where w: "WaitUntilWorkerReady (GetWorkerId task_info) wait_worker_ready_timeout_ms ticks vn = (ret, vn1)"
    by (metis surj_pair)
  have vn1: "node_ok vn1" using poll_reach [OF assms] w node_reach_ok by (metis snd_conv)
  show ?thesis
  proof (cases "ret = Some SUCCESS")
    case False
    then show ?thesis using w by (auto simp: find_link_def Let_def split: option.splits retcode.splits)
  next
    case True
    then have ready: "IsTaskWorkerReady (GetWorkerId task_info) vn1" using w poll_found by blast
    then obtain q where q: "map_of (task_executor_map vn1) (GetWorkerId task_info) = Some q"
      by (auto simp: IsTaskWorkerReady_def split: if_splits)
    from executor_refs [OF vn1 q] obtain r q' where r: "q = Some r # q'" "r < length (worker_store vn1)"
      "task_ready_promise (worker_store vn1 ! r) = Some True"
      by (cases q) (auto simp: refs_ok_def ready_ref_def)
    with worker_at [OF vn1 r(2)] obtain t where "task_ptr (worker_store vn1 ! r) = Some t" by (auto simp: worker_ok_def)
    then show ?thesis using w True q r by (auto simp: find_link_def Let_def GetWorker_def)
  qed
qed

lemma with_link_total:
  "node_reach node_id vn \<Longrightarrow> steps_only node_id ticks \<Longrightarrow> \<exists>x. with_link ticks task_info f buffer vn = Inr x"
proof -
  assume "node_reach node_id vn" "steps_only node_id ticks"
  from find_link_total [OF this] obtain l vn1 where l: "find_link ticks task_info vn = Inr (l, vn1)" by (metis surj_pair)
  show ?thesis by (cases l) (simp_all add: with_link_def l case_prod_beta Let_def)
qed

section \<open>Properties\<close>

text \<open>
  In every state that a node reaches by turns of its handlers, threads and tasks in any order, the data handlers,
  also while they poll, the status handlers and the kill request end or wait: they never read the front of
  an empty queue, follow a null task pointer or a dangling worker, or set a promise twice. The turns are
  atomic, which the locks do not ensure for the maps that \<^verbatim>\<open>CleanTimeoutCachedTaskStatusThread\<close>,
  \<^verbatim>\<open>CleanFinishedSchedulerWorkerThread\<close> and \<^verbatim>\<open>DispatchTask\<close> change under a shared lock or another map's lock.
\<close>

theorem node_never_misbehaves:
  assumes "node_reach node_id vn" and "steps_only node_id ticks"
  shows "(\<exists>x. ProcessReceivedData ticks task_info key data vn = Inr x) \<and> (\<exists>x. ProcessSendData ticks task_info key data vn = Inr x) \<and>
    (\<exists>x. ProcessForwardData ticks task_info key data vn = Inr x) \<and> (\<exists>x. ProcessCompleteStatus ticks task_info key c vn = Inr x) \<and>
    (\<exists>x. UpdateTaskStatus s vn = Inr x) \<and> (\<exists>x. FetchTaskStatus task_info vn = Inr x) \<and>
    (\<exists>x. KillTask task_info executor vn = Inr x)"
proof -
  note ok = node_reach_ok [OF assms(1)]
  have upd: "\<exists>a vn'. at_worker r (worker_updateTaskStatus s') vn = Inr (a, vn')" if "GetSchedulerWorker i vn = Some r" for r s' i
    using at_worker_total [OF ok scheduler_ref [OF ok that] update_ok(2)] by auto
  have fetch: "\<exists>x. at_worker r (\<lambda>w. Inr (fetch_loop (Suc (length (m_queue (task_status_q w)))) w)) vn = Inr x"
    if "GetSchedulerWorker task_info vn = Some r" for r
    by (intro at_worker_total [OF ok scheduler_ref [OF ok that]]) (simp add: total_on_ok_def del: fetch_loop.simps)
  have "\<exists>x. UpdateTaskStatus s vn = Inr x"
  proof (cases "GetSchedulerWorker (ts_task_info s) vn")
    case (Some r)
    from upd [OF this, of s] show ?thesis by (auto simp: UpdateTaskStatus_def Some)
  qed (simp add: UpdateTaskStatus_def)
  moreover have "\<exists>x. FetchTaskStatus task_info vn = Inr x"
    using fetch by (cases "GetSchedulerWorker task_info vn") (simp_all add: FetchTaskStatus_def del: fetch_loop.simps)
  moreover have "\<exists>x. KillTask task_info executor vn = Inr x"
  proof (cases "GetSchedulerWorker task_info vn")
    case (Some r)
    from upd [OF this] show ?thesis by (cases executor) (fastforce simp: KillTask_def Let_def Some)+
  qed (cases executor; simp add: KillTask_def Let_def)
  ultimately show ?thesis unfolding data_handlers by (intro conjI with_link_total [OF assms])
qed

theorem node_never_misbehaves_witness:
  "\<exists>x. ProcessReceivedData [(\<lambda>vn. snd (ExecuteTask_begin 3 small_request vn), 60)] (empty_TaskContext\<lparr>tc_request_id := ''r''\<rparr>) ''k'' ''d''
     (snd (ExecuteTask_begin 3 small_request (new_VMNodeImpl ''n''))) = Inr x"
proof -
  have "node_reach ''n'' (snd (ExecuteTask_begin 3 small_request (new_VMNodeImpl ''n'')))"
    by (rule node_reach.step [OF node_reach.start node_step.execute_begin])
  moreover have "steps_only ''n'' [(\<lambda>vn. snd (ExecuteTask_begin 3 small_request vn), 60)]"
    by (auto simp: steps_only_def intro: node_reach.step node_step.execute_begin)
  ultimately show ?thesis using node_never_misbehaves by blast
qed

text \<open>
  A task that ends before it is registered stays registered: the thread of a task may put its \<^verbatim>\<open>kDel\<close> into
  the management queue before \<^verbatim>\<open>ExecuteTask\<close> puts the \<^verbatim>\<open>kAdd\<close> there. The management thread then removes
  nothing and adds the worker, which no further command removes; in the other order the worker is
  gone after the two turns.
\<close>

theorem del_before_add_leaks:
  assumes "m_queue (task_manage_queue vn) = []" and "\<not> stop_flag (task_manage_queue vn)" and "\<not> vn_stop vn"
    and "map_of (task_executor_map vn) k = None" and "\<not> write_flag vn"
  shows "(\<exists>vn1 vn2. ManageTaskOperator_turn (push_manage (k, Some r, kAdd) (push_manage (k, None, kDel) vn)) = Some (True, vn1) \<and>
      ManageTaskOperator_turn vn1 = Some (True, vn2) \<and> IsTaskWorkerReady k vn2 \<and> ManageTaskOperator_turn vn2 = None) \<and>
    (\<exists>vn1 vn2. ManageTaskOperator_turn (push_manage (k, None, kDel) (push_manage (k, Some r, kAdd) vn)) = Some (True, vn1) \<and>
      ManageTaskOperator_turn vn1 = Some (True, vn2) \<and> \<not> IsTaskWorkerReady k vn2 \<and> ManageTaskOperator_turn vn2 = None)"
  using assms
  by (auto simp: ManageTaskOperator_turn_def push_manage_def q_wait_open ExecuteAddTaskOperation_def ExecuteDelTaskOperation_def
      IsTaskWorkerReady_def Let_def)

theorem del_before_add_leaks_witness:
  "\<exists>vn1 vn2. ManageTaskOperator_turn (push_manage (''r'', Some 0, kAdd) (push_manage (''r'', None, kDel) (new_VMNodeImpl ''n''))) = Some (True, vn1) \<and>
     ManageTaskOperator_turn vn1 = Some (True, vn2) \<and> IsTaskWorkerReady ''r'' vn2 \<and> ManageTaskOperator_turn vn2 = None"
  using del_before_add_leaks [of "new_VMNodeImpl ''n''" "''r''" 0] by (simp add: new_VMNodeImpl_def)

section \<open>Asking for the status\<close>

lemma fetch_loop_all:
  "\<not> stop_flag (task_status_q w) \<Longrightarrow> n = length (m_queue (task_status_q w)) \<Longrightarrow>
   fst (fetch_loop (Suc n) w) = m_queue (task_status_q w) @ [empty_TaskStatus] \<and>
   m_queue (task_status_q (snd (fetch_loop (Suc n) w))) = []"
proof (induction n arbitrary: w)
  case 0
  then show ?case by (simp add: worker_fetchTaskStatus_def q_try_pop_def)
next
  case (Suc n)
  then obtain s ss where s: "m_queue (task_status_q w) = s # ss" by (cases "m_queue (task_status_q w)") auto
  define w1 where "w1 = w\<lparr>task_status_q := (task_status_q w)\<lparr>m_queue := ss\<rparr>\<rparr>"
  have "worker_fetchTaskStatus w = ((SUCCESS, s), w1)"
    by (simp add: worker_fetchTaskStatus_def q_try_pop_def s w1_def)
  then have "fetch_loop (Suc (Suc n)) w = (s # fst (fetch_loop (Suc n) w1), snd (fetch_loop (Suc n) w1))"
    by (subst fetch_loop.simps(2)) (simp add: case_prod_beta del: fetch_loop.simps)
  then show ?case using Suc.IH [of w1] Suc.prems s by (simp add: w1_def del: fetch_loop.simps)
qed

end
