(* ===== verification/Mpc_Statistics.thy ===== *)
theory Mpc_Statistics
  imports Fixed_Operator Mpc_Compare
begin

text \<open>
  \<^verbatim>\<open>MPCStatisticsOperator\<close> and its two implementations of \<^verbatim>\<open>executor/statistics.cc\<close> and \<^verbatim>\<open>.h\<close>: sums, averages,
  minima and maxima of columns that three parties hold. Each party first works on its own table
  (\<^verbatim>\<open>PlainTextDataCompute\<close>), then the parties combine their results with the ABY3 operator
  (\<^verbatim>\<open>CipherTextDataCompute\<close>). The first part is a definition for one party, the second for all of them.
  A return code other than \<^verbatim>\<open>SUCCESS\<close> is the failure \<open>Code\<close>.
\<close>

section \<open>Types and tables\<close>

datatype ColumnDtype = STRING | INTEGER | DOUBLE | LONG | ENUM | BOOLEAN | UNKNOWN

definition columnDtypeToString :: "ColumnDtype \<Rightarrow> string" where
  "columnDtypeToString type =
     (case type of BOOLEAN \<Rightarrow> ''BOOLEAN'' | DOUBLE \<Rightarrow> ''FP64'' | INTEGER \<Rightarrow> ''INT64'' | LONG \<Rightarrow> ''INT64''
      | ENUM \<Rightarrow> ''ENUM'' | STRING \<Rightarrow> ''STRING'' | _ \<Rightarrow> ''UNKNOWN TYPE'')"

definition columnDtypeFromInteger :: "int \<Rightarrow> ColumnDtype" where
  "columnDtypeFromInteger val =
     (if val = 0 then STRING else if val = 1 then INTEGER else if val = 2 then DOUBLE
      else if val = 3 then LONG else if val = 4 then ENUM else if val = 5 then BOOLEAN else UNKNOWN)"

datatype MPCStatisticsType = AVG_t | SUM_t | MAX_t | MIN_t | UNKNOWN_t

definition statisticsTypeToString :: "MPCStatisticsType \<Rightarrow> string" where
  "statisticsTypeToString type =
     (case type of AVG_t \<Rightarrow> ''AVG'' | SUM_t \<Rightarrow> ''SUM'' | MAX_t \<Rightarrow> ''MAX'' | MIN_t \<Rightarrow> ''MIN'' | UNKNOWN_t \<Rightarrow> ''UNKNOWN'')"

text \<open>
  A column of an Arrow table: the type of the field and the values of each chunk. Of the other types
  only the number of values of each chunk is known.
\<close>

datatype 'd column =
    INT8s "8 word list list" | UINT8s "8 word list list" | INT16s "16 word list list" | UINT16s "16 word list list"
  | INT32s "32 word list list" | UINT32s "32 word list list" | INT64s "64 word list list" | UINT64s "64 word list list"
  | FLOAT64s "'d list list" | OTHERs "nat list"

type_synonym 'd arrow_table = "'d column std_map"

fun num_chunks :: "'d column \<Rightarrow> nat" where
  "num_chunks (INT8s c) = length c"
| "num_chunks (UINT8s c) = length c"
| "num_chunks (INT16s c) = length c"
| "num_chunks (UINT16s c) = length c"
| "num_chunks (INT32s c) = length c"
| "num_chunks (UINT32s c) = length c"
| "num_chunks (INT64s c) = length c"
| "num_chunks (UINT64s c) = length c"
| "num_chunks (FLOAT64s c) = length c"
| "num_chunks (OTHERs c) = length c"

text \<open>
  What the statistics need of \<^verbatim>\<open>double\<close> besides arithmetic: comparison, the limits of the type, and the
  64 bits of a number, which a cast of an array of one type to an array of the other reinterprets.
\<close>

record 'd fp_cmp =
  fp_le :: "'d \<Rightarrow> 'd \<Rightarrow> bool"
  fp_lt :: "'d \<Rightarrow> 'd \<Rightarrow> bool"
  fp_min :: 'd
  fp_max :: 'd
  fp_bits :: "'d \<Rightarrow> i64"
  fp_of_bits :: "i64 \<Rightarrow> 'd"

definition unread :: "nat list \<Rightarrow> 'a list list res" where
  "unread ns = (if \<forall>n \<in> set ns. n = 0 then Inr (map (\<lambda>_. []) ns)
     else Inl (Undefined ''array of another type''))"

text \<open>Casts to \<^verbatim>\<open>Int8Array\<close>, \<^verbatim>\<open>Int16Array\<close>, \<^verbatim>\<open>Int32Array\<close> and \<^verbatim>\<open>Int64Array\<close>, by the type that was detected.\<close>

fun read_ints :: "'d fp_cmp \<Rightarrow> 'd column \<Rightarrow> i64 list list res" where
  "read_ints C (INT8s c) = Inr (map (map signed) c)"
| "read_ints C (UINT8s c) = Inr (map (map signed) c)"
| "read_ints C (INT16s c) = Inr (map (map signed) c)"
| "read_ints C (UINT16s c) = Inr (map (map signed) c)"
| "read_ints C (INT32s c) = Inr (map (map signed) c)"
| "read_ints C (UINT32s c) = Inr (map (map signed) c)"
| "read_ints C (INT64s c) = Inr c"
| "read_ints C (UINT64s c) = Inr c"
| "read_ints C (FLOAT64s c) = Inr (map (map (fp_bits C)) c)"
| "read_ints C (OTHERs c) = unread c"

text \<open>The cast to \<^verbatim>\<open>DoubleArray\<close>, whatever the type is.\<close>

fun read_doubles :: "'d fp_cmp \<Rightarrow> 'd column \<Rightarrow> 'd list list res" where
  "read_doubles C (FLOAT64s c) = Inr c"
| "read_doubles C (INT64s c) = Inr (map (map (fp_of_bits C)) c)"
| "read_doubles C (UINT64s c) = Inr (map (map (fp_of_bits C)) c)"
| "read_doubles C (INT8s c) = unread (map length c)"
| "read_doubles C (UINT8s c) = unread (map length c)"
| "read_doubles C (INT16s c) = unread (map length c)"
| "read_doubles C (UINT16s c) = unread (map length c)"
| "read_doubles C (INT32s c) = unread (map length c)"
| "read_doubles C (UINT32s c) = unread (map length c)"
| "read_doubles C (OTHERs c) = unread c"

fun each :: "('a \<Rightarrow> 'b res) \<Rightarrow> 'a list \<Rightarrow> 'b list res" where
  "each f [] = Inr []"
| "each f (x # xs) = bindR (f x) (\<lambda>y. bindR (each f xs) (\<lambda>ys. Inr (y # ys)))"

section \<open>Sums and averages\<close>

record 'd MPCSumOrAvg =
  use_mpc_div :: bool
  avg_result :: bool
  sum_result :: "'d list"

definition new_MPCSumOrAvg :: "MPCStatisticsType \<Rightarrow> 'd MPCSumOrAvg" where
  "new_MPCSumOrAvg type = \<lparr>use_mpc_div = False, avg_result = (type = AVG_t), sum_result = []\<rparr>"

text \<open>The sum and the number of the values of all chunks of a column.\<close>

definition sum_and_count :: "'d fp_ops \<Rightarrow> ('v \<Rightarrow> 'd) \<Rightarrow> 'v list list \<Rightarrow> 'd \<times> 'd" where
  "sum_and_count F conv chunks =
     foldl (\<lambda>(s, n) chunk. (foldl (\<lambda>s v. fp_add F s (conv v)) s chunk, fp_add F n (fp_of_i64 F (of_nat (length chunk)))))
       (fp_of_i64 F 0, fp_of_i64 F 0) chunks"

definition column_sum :: "'d fp_ops \<Rightarrow> 'd fp_cmp \<Rightarrow> 'd arrow_table \<Rightarrow> ColumnDtype std_map \<Rightarrow> string \<Rightarrow> ('d \<times> 'd) res" where
  "column_sum F C table all_type column =
     (case map_of table column of
        None \<Rightarrow> Inl (Code 1)
      | Some chunked_array \<Rightarrow>
          if num_chunks chunked_array = 0 then Inr (sum_and_count F (fp_of_i64 F) [])
          else
            case map_of all_type column of
              None \<Rightarrow> Inl (Undefined ''dereferences the end of a map'')
            | Some col_type \<Rightarrow>
                if col_type = INTEGER \<or> col_type = LONG then
                  bindR (read_ints C chunked_array) (\<lambda>c. Inr (sum_and_count F (fp_of_i64 F) c))
                else if col_type = DOUBLE then
                  bindR (read_doubles C chunked_array) (\<lambda>c. Inr (sum_and_count F (\<lambda>v. v) c))
                else Inl (Code 1))"

definition sum_PlainTextDataCompute ::
  "'d fp_ops \<Rightarrow> 'd fp_cmp \<Rightarrow> 'd arrow_table \<Rightarrow> string list \<Rightarrow> ColumnDtype std_map \<Rightarrow> ('d list \<times> 'd list) res" where
  "sum_PlainTextDataCompute F C table columns all_type =
     bindR (each (column_sum F C table all_type) columns) (\<lambda>ps. Inr (map fst ps, map snd ps))"

definition column_matrix :: "'d list \<Rightarrow> 'd dmat" where
  "column_matrix xs = \<lparr>d_rows = length xs, d_cols = 1, d_data = xs\<rparr>"

text \<open>Every party shares its column in turn; the others have reserved the shape of their own.\<close>

definition share_columns ::
  "'rt aby3_lib \<Rightarrow> ('d, 'rt) fx_lib \<Rightarrow> (nat \<Rightarrow> 'd list) \<Rightarrow> 'rt \<Rightarrow> ((nat \<Rightarrow> nat \<Rightarrow> si64Matrix) \<times> 'rt) res" where
  "share_columns L X cols rt =
     (let dest = (\<lambda>p. (length (cols p), 1)) in
      bindR (createShares_f64 L X 0 (column_matrix (cols 0)) dest rt) (\<lambda>(S0, rt0).
      bindR (createShares_f64 L X 1 (column_matrix (cols 1)) dest rt0) (\<lambda>(S1, rt1).
      bindR (createShares_f64 L X 2 (column_matrix (cols 2)) dest rt1) (\<lambda>(S2, rt2).
        Inr ((\<lambda>i. if i = 0 then S0 else if i = 1 then S1 else S2), rt2)))))"

definition add_shares :: "'rt aby3_lib \<Rightarrow> (nat \<Rightarrow> nat \<Rightarrow> si64Matrix) \<Rightarrow> nat \<Rightarrow> si64Matrix" where
  "add_shares L sh p = lib_add L (lib_add L (sh 0 p) (sh 1 p)) (sh 2 p)"

text \<open>The loop in which one party after the other learns the values.\<close>

definition reveal_to_each ::
  "'rt aby3_lib \<Rightarrow> ('d, 'rt) fx_lib \<Rightarrow> (nat \<Rightarrow> si64Matrix) \<Rightarrow> 'rt \<Rightarrow> ((nat \<Rightarrow> 'd list) \<times> 'rt) res" where
  "reveal_to_each L X sh rt =
     bindR (reveal_f64 L X sh 0 rt) (\<lambda>(r0, rt0).
     bindR (reveal_f64 L X sh 1 rt0) (\<lambda>(r1, rt1).
     bindR (reveal_f64 L X sh 2 rt1) (\<lambda>(r2, rt2).
       Inr ((\<lambda>p. d_data (if p = 0 then r0 else if p = 1 then r1 else r2)), rt2))))"

text \<open>
  \<^verbatim>\<open>CipherTextDataCompute\<close> at all parties, which were all constructed for the same statistics \<open>op\<close>;
  \<open>mpc_div\<close> is \<^verbatim>\<open>MPC_Div\<close>.
\<close>

definition sum_CipherTextDataCompute ::
  "'rt aby3_lib \<Rightarrow> ('d, 'rt) fx_lib \<Rightarrow> 'd fp_ops \<Rightarrow>
   ((nat \<Rightarrow> si64Matrix) \<Rightarrow> (nat \<Rightarrow> si64Matrix) \<Rightarrow> 'rt \<Rightarrow> ((nat \<Rightarrow> si64Matrix) \<times> 'rt) res) \<Rightarrow>
   'd MPCSumOrAvg \<Rightarrow> (nat \<Rightarrow> 'd list) \<Rightarrow> (nat \<Rightarrow> 'd list) \<Rightarrow> 'rt \<Rightarrow> ((nat \<Rightarrow> 'd MPCSumOrAvg) \<times> 'rt) res" where
  "sum_CipherTextDataCompute L X F mpc_div op col_sum col_count rt =
     bindR (share_columns L X col_sum rt) (\<lambda>(sh_sums, rt1).
     bindR (share_columns L X col_count rt1) (\<lambda>(sh_count, rt2).
       let sh_all_sum = add_shares L sh_sums; sh_all_count = add_shares L sh_count in
       if avg_result op then
         if use_mpc_div op then
           bindR (mpc_div sh_all_sum sh_all_count rt2) (\<lambda>(sh_avg, rt3).
           bindR (reveal_to_each L X sh_avg rt3) (\<lambda>(r, rt4). Inr ((\<lambda>p. op\<lparr>sum_result := r p\<rparr>), rt4)))
         else
           bindR (reveal_to_each L X sh_all_sum rt2) (\<lambda>(plaintext_sum, rt3).
           bindR (reveal_to_each L X sh_all_count rt3) (\<lambda>(plaintext_count, rt4).
             Inr ((\<lambda>p. op\<lparr>sum_result := map2 (fp_div F) (plaintext_sum p) (plaintext_count p)\<rparr>), rt4)))
       else
         bindR (reveal_to_each L X sh_all_sum rt2) (\<lambda>(plaintext_sum, rt3).
           Inr ((\<lambda>p. op\<lparr>sum_result := plaintext_sum p\<rparr>), rt3))))"

definition sum_run ::
  "'rt aby3_lib \<Rightarrow> ('d, 'rt) fx_lib \<Rightarrow> 'd fp_ops \<Rightarrow> 'd fp_cmp \<Rightarrow>
   ((nat \<Rightarrow> si64Matrix) \<Rightarrow> (nat \<Rightarrow> si64Matrix) \<Rightarrow> 'rt \<Rightarrow> ((nat \<Rightarrow> si64Matrix) \<times> 'rt) res) \<Rightarrow> 'd MPCSumOrAvg \<Rightarrow>
   (nat \<Rightarrow> 'd arrow_table) \<Rightarrow> (nat \<Rightarrow> string list) \<Rightarrow> (nat \<Rightarrow> ColumnDtype std_map) \<Rightarrow> 'rt \<Rightarrow>
   ((nat \<Rightarrow> 'd MPCSumOrAvg) \<times> 'rt) res" where
  "sum_run L X F C mpc_div op dataset columns all_type rt =
     bindR (par3 (\<lambda>p. sum_PlainTextDataCompute F C (dataset p) (columns p) (all_type p))) (\<lambda>plain.
       sum_CipherTextDataCompute L X F mpc_div op (\<lambda>p. fst (plain p)) (\<lambda>p. snd (plain p)) rt)"

definition sum_getResult :: "'d MPCSumOrAvg \<Rightarrow> 'd list" where
  "sum_getResult op = sum_result op"

section \<open>Minima and maxima\<close>

record 'd MPCMinOrMax =
  mm_type :: MPCStatisticsType
  mpc_result :: "'d list"

definition new_MPCMinOrMax :: "MPCStatisticsType \<Rightarrow> 'd MPCMinOrMax" where
  "new_MPCMinOrMax type = \<lparr>mm_type = type, mpc_result = []\<rparr>"

text \<open>
  \<^verbatim>\<open>minOrMax\<close> over a chunk: \<open>le\<close> is \<^verbatim>\<open><=\<close> of the type of the values. \<^verbatim>\<open>fillInitValue\<close> for the types the source
  calls it with: the limits of \<^verbatim>\<open>int32_t\<close>, of \<^verbatim>\<open>int64_t\<close> and of \<^verbatim>\<open>double\<close>.
\<close>

definition minOrMax :: "MPCStatisticsType \<Rightarrow> ('v \<Rightarrow> 'v \<Rightarrow> bool) \<Rightarrow> 'v list \<Rightarrow> 'v \<Rightarrow> 'v" where
  "minOrMax type le array val =
     (if type = MAX_t then foldl (\<lambda>val x. if le val x then x else val) val array
      else foldl (\<lambda>val x. if le x val then x else val) val array)"

definition fillInitValue_i32 :: "MPCStatisticsType \<Rightarrow> i64" where
  "fillInitValue_i32 type = (if type = MAX_t then - (2 ^ 31) else 2 ^ 31 - 1)"

definition fillInitValue_i64 :: "MPCStatisticsType \<Rightarrow> i64" where
  "fillInitValue_i64 type = (if type = MAX_t then - (2 ^ 63) else 2 ^ 63 - 1)"

definition fillInitValue_double :: "'d fp_cmp \<Rightarrow> MPCStatisticsType \<Rightarrow> 'd" where
  "fillInitValue_double C type = (if type = MAX_t then fp_min C else fp_max C)"

definition fillChunkResult :: "'d fp_cmp \<Rightarrow> MPCStatisticsType \<Rightarrow> 'd \<Rightarrow> 'd \<Rightarrow> 'd" where
  "fillChunkResult C type cur_val new_val =
     (if type = MIN_t then (if fp_lt C new_val cur_val then new_val else cur_val)
      else if type = MAX_t then (if fp_lt C cur_val new_val then new_val else cur_val)
      else cur_val)"

definition sle :: "i64 \<Rightarrow> i64 \<Rightarrow> bool" where
  "sle a b \<longleftrightarrow> sint a \<le> sint b"

text \<open>
  The extreme value of a column: integers of 32 and of 64 bits and doubles are looked at, chunks of other
  integer types are passed over.
\<close>

definition column_extreme ::
  "'d fp_ops \<Rightarrow> 'd fp_cmp \<Rightarrow> MPCStatisticsType \<Rightarrow> 'd arrow_table \<Rightarrow> ColumnDtype std_map \<Rightarrow> string \<Rightarrow> 'd res" where
  "column_extreme F C type table col_dtype col_name =
     (case map_of table col_name of
        None \<Rightarrow> Inl (Code 1)
      | Some chunked_array \<Rightarrow>
          let init = fillInitValue_double C type;
              ints = (\<lambda>start. foldl (\<lambda>r array. fillChunkResult C type r (fp_of_i64 F (minOrMax type sle array start))) init)
          in if num_chunks chunked_array = 0 then Inr init
          else
            case map_of col_dtype col_name of
              None \<Rightarrow> Inl (Undefined ''dereferences the end of a map'')
            | Some col_type \<Rightarrow>
                if col_type = INTEGER \<or> col_type = LONG then
                  (case chunked_array of
                     INT32s c \<Rightarrow> Inr (ints (fillInitValue_i32 type) (map (map signed) c))
                   | INT64s c \<Rightarrow> Inr (ints (fillInitValue_i64 type) c)
                   | _ \<Rightarrow> Inr init)
                else if col_type = DOUBLE then
                  bindR (read_doubles C chunked_array) (\<lambda>c.
                    Inr (foldl (\<lambda>r array. fillChunkResult C type r (minOrMax type (fp_le C) array init)) init c))
                else Inl (Code 1))"

definition mm_PlainTextDataCompute ::
  "'d fp_ops \<Rightarrow> 'd fp_cmp \<Rightarrow> MPCStatisticsType \<Rightarrow> 'd arrow_table \<Rightarrow> string list \<Rightarrow> ColumnDtype std_map \<Rightarrow> 'd list res" where
  "mm_PlainTextDataCompute F C type table columns col_dtype = each (column_extreme F C type table col_dtype) columns"

text \<open>
  Revealing to all parties at once, for binary shares and for shares of fixed-point numbers, is a
  function of the library of its own.
\<close>

record ('b, 'rt) reveal_lib =
  lib_revealAll_bin :: "'b \<Rightarrow> 'rt \<Rightarrow> (i64 list \<times> 'rt) res"
  lib_revealAll :: "(nat \<Rightarrow> si64Matrix) \<Rightarrow> 'rt \<Rightarrow> (mat \<times> 'rt) res"

definition reveal_ok :: "('b, 'rt) bin_lib \<Rightarrow> ('b, 'rt) reveal_lib \<Rightarrow> bool" where
  "reveal_ok B V \<longleftrightarrow>
     (\<forall>b rt. \<exists>rt'. lib_revealAll_bin V b rt = Inr (lib_bin_open B b, rt')) \<and>
     (\<forall>S x rt. sharing S x \<longrightarrow> (\<exists>rt'. lib_revealAll V S rt = Inr (x, rt')))"

text \<open>One comparison of two parties' numbers, of which all learn whether the first is the smaller one.\<close>

definition compare_two ::
  "('b, 'rt) bin_lib \<Rightarrow> ('b, 'rt) reveal_lib \<Rightarrow> nat \<Rightarrow> nat \<Rightarrow> (nat \<Rightarrow> mat) \<Rightarrow> 'rt \<Rightarrow> (bool \<times> (nat \<Rightarrow> mat) \<times> 'rt) res" where
  "compare_two B V i j m rt =
     bindR (MPC_Compare_f64 B (\<lambda>p. if p = i \<or> p = j then Some (m p) else None) rt) (\<lambda>(sh_result, ms, rt1).
     bindR (lib_revealAll_bin V sh_result rt1) (\<lambda>(cmp_result, rt2).
       case cmp_result of
         [] \<Rightarrow> Inl (Undefined ''element of an empty matrix'')
       | r # _ \<Rightarrow> Inr (r \<noteq> 0, (\<lambda>p. case ms p of Some x \<Rightarrow> x | None \<Rightarrow> m p), rt2)))"

text \<open>The party with the smallest number, and the matrices after the two comparisons.\<close>

definition find_party ::
  "('b, 'rt) bin_lib \<Rightarrow> ('b, 'rt) reveal_lib \<Rightarrow> (nat \<Rightarrow> mat) \<Rightarrow> 'rt \<Rightarrow> (nat \<times> (nat \<Rightarrow> mat) \<times> 'rt) res" where
  "find_party B V m rt =
     bindR (compare_two B V 0 1 m rt) (\<lambda>(less, m1, rt1).
       let smaller_party = (if less then 0 else 1) in
       bindR (compare_two B V smaller_party 2 m1 rt1) (\<lambda>(less', m2, rt2).
         Inr (if less' then smaller_party else 2, m2, rt2)))"

text \<open>The party found shares its number, and all learn it.\<close>

definition announce ::
  "'rt aby3_lib \<Rightarrow> ('d, 'rt) fx_lib \<Rightarrow> ('b, 'rt) reveal_lib \<Rightarrow> nat \<Rightarrow> (nat \<Rightarrow> mat) \<Rightarrow> 'rt \<Rightarrow> ('d \<times> 'rt) res" where
  "announce L X V party m rt =
     bindR (lib_local_int L party (m party) (\<lambda>p. (1, 1)) rt) (\<lambda>(sh_m, rt1).
     bindR (lib_revealAll V sh_m rt1) (\<lambda>(temp, rt2).
       case m_data temp of
         [] \<Rightarrow> Inl (Undefined ''element of an empty matrix'')
       | v # _ \<Rightarrow> Inr (fx_to_double X v, rt2)))"

definition number :: "i64 \<Rightarrow> mat" where
  "number v = \<lparr>m_rows = 1, m_cols = 1, m_data = [v]\<rparr>"

definition minValueOfAllParty ::
  "'rt aby3_lib \<Rightarrow> ('d, 'rt) fx_lib \<Rightarrow> ('b, 'rt) bin_lib \<Rightarrow> ('b, 'rt) reveal_lib \<Rightarrow> (nat \<Rightarrow> 'd) \<Rightarrow> 'rt \<Rightarrow> ('d \<times> 'rt) res" where
  "minValueOfAllParty L X B V local_min rt =
     (let m = (\<lambda>p. number (fx_of_double X (local_min p))) in
      bindR (find_party B V m rt) (\<lambda>(smallest_party, m', rt1). announce L X V smallest_party m' rt1))"

definition maxValueOfAllParty ::
  "'rt aby3_lib \<Rightarrow> ('d, 'rt) fx_lib \<Rightarrow> 'd fp_ops \<Rightarrow> ('b, 'rt) bin_lib \<Rightarrow> ('b, 'rt) reveal_lib \<Rightarrow> (nat \<Rightarrow> 'd) \<Rightarrow> 'rt \<Rightarrow> ('d \<times> 'rt) res" where
  "maxValueOfAllParty L X F B V local_max rt =
     (let m = (\<lambda>p. number (fx_of_double X (local_max p)));
          m_negative = (\<lambda>p. number (fx_of_double X (fp_mul F (fp_of_i64 F (-1)) (local_max p)))) in
      bindR (find_party B V m_negative rt) (\<lambda>(largest_party, m', rt1). announce L X V largest_party m rt1))"

text \<open>
  \<^verbatim>\<open>CipherTextDataCompute\<close> at all parties: column by column, as many as each party has.
\<close>

fun for_columns :: "((nat \<Rightarrow> 'd) \<Rightarrow> 'rt \<Rightarrow> ('d \<times> 'rt) res) \<Rightarrow> nat \<Rightarrow> (nat \<Rightarrow> 'd list) \<Rightarrow> 'rt \<Rightarrow> ('d list \<times> 'rt) res" where
  "for_columns f 0 cols rt =
     (if cols 0 = [] \<and> cols 1 = [] \<and> cols 2 = [] then Inr ([], rt) else Inl (Undefined ''parties disagree''))"
| "for_columns f (Suc n) cols rt =
     (if cols 0 = [] \<or> cols 1 = [] \<or> cols 2 = [] then Inl (Undefined ''parties disagree'')
      else bindR (f (\<lambda>p. hd (cols p)) rt) (\<lambda>(r, rt1).
        bindR (for_columns f n (\<lambda>p. tl (cols p)) rt1) (\<lambda>(rs, rt2). Inr (r # rs, rt2))))"

definition mm_CipherTextDataCompute ::
  "'rt aby3_lib \<Rightarrow> ('d, 'rt) fx_lib \<Rightarrow> 'd fp_ops \<Rightarrow> ('b, 'rt) bin_lib \<Rightarrow> ('b, 'rt) reveal_lib \<Rightarrow>
   'd MPCMinOrMax \<Rightarrow> (nat \<Rightarrow> 'd list) \<Rightarrow> 'rt \<Rightarrow> ('d MPCMinOrMax \<times> 'rt) res" where
  "mm_CipherTextDataCompute L X F B V op col_data rt =
     bindR (for_columns (if mm_type op = MIN_t then minValueOfAllParty L X B V else maxValueOfAllParty L X F B V)
         (length (col_data 0)) col_data rt)
       (\<lambda>(rs, rt1). Inr (op\<lparr>mpc_result := rs\<rparr>, rt1))"

definition mm_run ::
  "'rt aby3_lib \<Rightarrow> ('d, 'rt) fx_lib \<Rightarrow> 'd fp_ops \<Rightarrow> 'd fp_cmp \<Rightarrow> ('b, 'rt) bin_lib \<Rightarrow> ('b, 'rt) reveal_lib \<Rightarrow>
   'd MPCMinOrMax \<Rightarrow> (nat \<Rightarrow> 'd arrow_table) \<Rightarrow> (nat \<Rightarrow> string list) \<Rightarrow> (nat \<Rightarrow> ColumnDtype std_map) \<Rightarrow> 'rt \<Rightarrow>
   ('d MPCMinOrMax \<times> 'rt) res" where
  "mm_run L X F C B V op dataset columns col_dtype rt =
     bindR (par3 (\<lambda>p. mm_PlainTextDataCompute F C (mm_type op) (dataset p) (columns p) (col_dtype p))) (\<lambda>col_data.
       mm_CipherTextDataCompute L X F B V op col_data rt)"

definition mm_getResult :: "'d MPCMinOrMax \<Rightarrow> 'd list" where
  "mm_getResult op = mpc_result op"

section \<open>Lemmas on sums\<close>

lemma fixed_column:
  "shape (fixed_matrix X (column_matrix xs)) = (length xs, 1)" "mat_ok (fixed_matrix X (column_matrix xs))"
  "m_data (fixed_matrix X (column_matrix xs)) = map (fx_of_double X) xs"
  by (simp_all add: fixed_matrix_def column_matrix_def shape_def mat_ok_def)

lemma share_columns_ok:
  assumes "aby3_ok L" "length (cols 0) = n" "length (cols 1) = n" "length (cols 2) = n"
  shows "\<exists>sh rt'. share_columns L X cols rt = Inr (sh, rt') \<and>
    (\<forall>i \<in> {0, 1, 2}. sharing (sh i) (fixed_matrix X (column_matrix (cols i))))"
proof -
  have d: "\<forall>p \<in> {0, 1, 2}. (\<lambda>p. (length (cols p), 1)) p = shape (fixed_matrix X (column_matrix (cols i)))"
    if "i \<in> {0, 1, 2}" for i using assms(2-4) that by (auto simp: fixed_column)
  note s = lib_local [OF assms(1) _ fixed_column(2) d, folded createShares_f64_def]
  obtain S0 rt0 where 0: "createShares_f64 L X 0 (column_matrix (cols 0)) (\<lambda>p. (length (cols p), 1)) rt = Inr (S0, rt0)"
    "sharing S0 (fixed_matrix X (column_matrix (cols 0)))" using s [of 0 0 rt] by auto
  obtain S1 rt1 where 1: "createShares_f64 L X 1 (column_matrix (cols 1)) (\<lambda>p. (length (cols p), 1)) rt0 = Inr (S1, rt1)"
    "sharing S1 (fixed_matrix X (column_matrix (cols 1)))" using s [of 1 1 rt0] by auto
  obtain S2 rt2 where 2: "createShares_f64 L X 2 (column_matrix (cols 2)) (\<lambda>p. (length (cols p), 1)) rt1 = Inr (S2, rt2)"
    "sharing S2 (fixed_matrix X (column_matrix (cols 2)))" using s [of 2 2 rt1] by auto
  from 0 1 2 show ?thesis by (simp add: share_columns_def)
qed

text \<open>Entry \<open>i\<close> of the sum of the columns, in fixed point.\<close>

definition fixed_sum :: "('d, 'rt) fx_lib \<Rightarrow> (nat \<Rightarrow> 'd list) \<Rightarrow> nat \<Rightarrow> i64" where
  "fixed_sum X cols i = fx_of_double X (cols 0 ! i) + fx_of_double X (cols 1 ! i) + fx_of_double X (cols 2 ! i)"

lemma add_shares_ok:
  assumes "aby3_ok L" "\<forall>i \<in> {0, 1, 2}. sharing (sh i) (fixed_matrix X (column_matrix (cols i)))"
    and "length (cols 0) = n" "length (cols 1) = n" "length (cols 2) = n"
  shows "\<exists>x. sharing (add_shares L sh) x \<and> m_data x = map (fixed_sum X cols) [0..<n]"
proof -
  let ?m = "\<lambda>i. fixed_matrix X (column_matrix (cols i))"
  have "sharing (\<lambda>p. lib_add L (lib_add L (sh 0 p) (sh 1 p)) (sh 2 p)) (map2_mat (+) (map2_mat (+) (?m 0) (?m 1)) (?m 2))"
    using assms by (intro share_add) (simp_all add: fixed_column)
  moreover have "add_shares L sh = (\<lambda>p. lib_add L (lib_add L (sh 0 p) (sh 1 p)) (sh 2 p))"
    by (simp add: add_shares_def fun_eq_iff)
  moreover have "m_data (map2_mat (+) (map2_mat (+) (?m 0) (?m 1)) (?m 2)) = map (fixed_sum X cols) [0..<n]"
    using assms(3-5) by (intro nth_equalityI) (simp_all add: map2_mat_def fixed_column fixed_sum_def)
  ultimately show ?thesis by metis
qed

lemma reveal_to_each_ok:
  assumes "aby3_ok L" "sharing S x"
  shows "\<exists>rt'. reveal_to_each L X S rt = Inr (\<lambda>p. map (fx_to_double X) (m_data x), rt')"
proof -
  have r: "\<exists>rt'. lib_reveal L S i rt = Inr (x, rt')" if "i < 3" for i rt using lib_rev [OF assms that] .
  obtain rt0 where "lib_reveal L S 0 rt = Inr (x, rt0)" using r [of 0 rt] by auto
  moreover obtain rt1 where "lib_reveal L S 1 rt0 = Inr (x, rt1)" using r [of 1 rt0] by auto
  moreover obtain rt2 where "lib_reveal L S 2 rt1 = Inr (x, rt2)" using r [of 2 rt1] by auto
  ultimately show ?thesis by (simp add: reveal_to_each_def reveal_f64_def fun_eq_iff)
qed

lemma sum_ciphertext:
  assumes "aby3_ok L"
    and "length (totals 0) = n" "length (totals 1) = n" "length (totals 2) = n"
    and "length (counts 0) = n" "length (counts 1) = n" "length (counts 2) = n"
  shows "\<exists>ops rt'. sum_CipherTextDataCompute L X F d (new_MPCSumOrAvg type) totals counts rt = Inr (ops, rt') \<and>
    (\<forall>p. sum_getResult (ops p) = map (\<lambda>i. let total = fx_to_double X (fixed_sum X totals i) in
       if type = AVG_t then fp_div F total (fx_to_double X (fixed_sum X counts i)) else total) [0..<n])"
proof -
  obtain sh rt1 where 1: "share_columns L X totals rt = Inr (sh, rt1)"
    "\<forall>i \<in> {0, 1, 2}. sharing (sh i) (fixed_matrix X (column_matrix (totals i)))"
    using share_columns_ok [OF assms(1-4)] by blast
  obtain sc rt2 where 2: "share_columns L X counts rt1 = Inr (sc, rt2)"
    "\<forall>i \<in> {0, 1, 2}. sharing (sc i) (fixed_matrix X (column_matrix (counts i)))"
    using share_columns_ok [OF assms(1,5-7)] by blast
  obtain x where x: "sharing (add_shares L sh) x" "m_data x = map (fixed_sum X totals) [0..<n]"
    using add_shares_ok [OF assms(1) 1(2) assms(2-4)] by blast
  obtain y where y: "sharing (add_shares L sc) y" "m_data y = map (fixed_sum X counts) [0..<n]"
    using add_shares_ok [OF assms(1) 2(2) assms(5-7)] by blast
  obtain rt3 where 3: "reveal_to_each L X (add_shares L sh) rt2 = Inr (\<lambda>p. map (fx_to_double X) (m_data x), rt3)"
    using reveal_to_each_ok [OF assms(1) x(1)] by blast
  obtain rt4 where 4: "reveal_to_each L X (add_shares L sc) rt3 = Inr (\<lambda>p. map (fx_to_double X) (m_data y), rt4)"
    using reveal_to_each_ok [OF assms(1) y(1)] by blast
  have div: "map2 (fp_div F) (map (fx_to_double X) (m_data x)) (map (fx_to_double X) (m_data y)) =
      map (\<lambda>i. fp_div F (fx_to_double X (fixed_sum X totals i)) (fx_to_double X (fixed_sum X counts i))) [0..<n]"
    by (intro nth_equalityI) (simp_all add: x(2) y(2))
  show ?thesis
    using 1(1) 2(1) 3 4 div
    by (cases "type = AVG_t")
       (simp_all add: sum_CipherTextDataCompute_def new_MPCSumOrAvg_def sum_getResult_def x(2) comp_def Let_def)
qed

lemma each_length: "each f xs = Inr ys \<Longrightarrow> length ys = length xs"
  by (induction xs arbitrary: ys) auto

lemma each_nth: "each f xs = Inr ys \<Longrightarrow> i < length xs \<Longrightarrow> f (xs ! i) = Inr (ys ! i)"
  by (induction xs arbitrary: ys i) (auto simp: nth_Cons split: nat.splits)

lemma each_total:
  assumes "\<And>x. x \<in> set xs \<Longrightarrow> \<exists>y. f x = Inr y"
  shows "\<exists>ys. each f xs = Inr ys"
  using assms
proof (induction xs)
  case (Cons x xs)
  obtain y where "f x = Inr y" using Cons.prems [of x] by auto
  moreover obtain ys where "each f xs = Inr ys" using Cons by auto
  ultimately show ?case by simp
qed simp

lemma sum_run_ok:
  assumes "aby3_ok L"
    and "\<forall>p \<in> {0, 1, 2}. length (columns p) = n \<and>
      sum_PlainTextDataCompute F C (dataset p) (columns p) (dtypes p) = Inr (totals p, counts p)"
  shows "\<exists>ops rt'. sum_run L X F C d (new_MPCSumOrAvg type) dataset columns dtypes rt = Inr (ops, rt') \<and>
    (\<forall>p. sum_getResult (ops p) = map (\<lambda>i. let total = fx_to_double X (fixed_sum X totals i) in
       if type = AVG_t then fp_div F total (fx_to_double X (fixed_sum X counts i)) else total) [0..<n])"
proof -
  have plain: "sum_PlainTextDataCompute F C (dataset p) (columns p) (dtypes p) = Inr (totals p, counts p)"
    "length (totals p) = n" "length (counts p) = n" if "p \<in> {0, 1, 2}" for p
  proof -
    show pl: "sum_PlainTextDataCompute F C (dataset p) (columns p) (dtypes p) = Inr (totals p, counts p)"
      using assms(2) that by blast
    have "length (columns p) = n" using assms(2) that by blast
    then show "length (totals p) = n" "length (counts p) = n"
      using pl each_length [of "column_sum F C (dataset p) (dtypes p)" "columns p"]
      by (auto simp: sum_PlainTextDataCompute_def dest!: arg_cong [of _ "totals p" length] arg_cong [of _ "counts p" length])
  qed
  let ?t = "\<lambda>p. if p = (0::nat) then totals 0 else if p = 1 then totals 1 else totals 2"
  let ?c = "\<lambda>p. if p = (0::nat) then counts 0 else if p = 1 then counts 1 else counts 2"
  have eq: "fixed_sum X ?t = fixed_sum X totals" "fixed_sum X ?c = fixed_sum X counts"
    by (simp_all add: fixed_sum_def fun_eq_iff)
  have "par3 (\<lambda>p. sum_PlainTextDataCompute F C (dataset p) (columns p) (dtypes p)) = Inr (\<lambda>p. (?t p, ?c p))"
    using plain(1) by (simp add: par3_def fun_eq_iff)
  then show ?thesis
    using sum_ciphertext [OF assms(1), of ?t n ?c X F d type rt, unfolded eq] plain(2,3) by (simp add: sum_run_def)
qed

section \<open>Lemmas on minima and maxima\<close>

lemma compare_two_bits:
  assumes "bin_ok B" "reveal_ok B V" "two_of_three k i j" "m i = number a" "m j = number b"
  shows "\<exists>rt'. compare_two B V i j m rt = Inr (bit (a - b) 63, m, rt')"
proof -
  let ?ms = "\<lambda>p. if p = i \<or> p = j then Some (m p) else None"
  have k: "?ms k = None" "?ms i = Some (number a)" "?ms j = Some (number b)"
    using assms(3-5) by (auto simp: two_of_three_def)
  have sz: "mat_ok (number v)" "shape (number v) = (1, 1)" "(number v)\<lparr>m_rows := 1 * 1, m_cols := 1\<rparr> = number v"
    "m_data (number v) = [v]" for v
    by (simp_all add: number_def mat_ok_def shape_def)
  obtain c ms' rt1 where c: "MPC_Compare B ?ms rt = Inr (c, ms', rt1)" "length (lib_bin_open B c) = 1 * 1"
    "\<forall>n < 1 * 1. lib_bin_open B c ! n = of_bool (bit ([a] ! n - [b] ! n) 63)"
    "ms' i = Some (number a)" "ms' j = Some (number b)"
    using compare_bits [OF assms(1,3) k(2,3) sz(1,1) sz(2,2) disjI1 [OF k(1)], of rt] sz(3,4) by auto
  from c(2,3) have o: "lib_bin_open B c = [of_bool (bit (a - b) 63)]"
    by (cases "lib_bin_open B c") auto
  obtain rt2 where r: "lib_revealAll_bin V c rt1 = Inr (lib_bin_open B c, rt2)"
    using assms(2) unfolding reveal_ok_def by blast
  have "(case ms' p of Some x \<Rightarrow> x | None \<Rightarrow> m p) = m p" for p
    using compare_keeps_none [OF c(1), of p] c(4,5) assms(4,5) by (cases "p = i \<or> p = j") auto
  then show ?thesis using c(1) o r by (simp add: compare_two_def MPC_Compare_f64_def)
qed

lemma compare_two_ok:
  assumes "bin_ok B" "reveal_ok B V" "two_of_three k i j" "m i = number a" "m j = number b"
    and "- (2 ^ 63) \<le> sint a - sint b" "sint a - sint b < 2 ^ 63"
  shows "\<exists>rt'. compare_two B V i j m rt = Inr (sint a < sint b, m, rt')"
  using compare_two_bits [OF assms(1-5)] unfolding sign_of_difference [OF assms(6,7)] .

lemma find_party_ok:
  assumes "bin_ok B" "reveal_ok B V" "\<forall>p \<in> {0, 1, 2}. m p = number (a p)"
    and "\<forall>p \<in> {0, 1, 2}. \<bar>sint (a p)\<bar> < 2 ^ 62"
  shows "\<exists>w \<in> {0, 1, 2}. \<exists>rt'. find_party B V m rt = Inr (w, m, rt') \<and> (\<forall>p \<in> {0, 1, 2}. sint (a w) \<le> sint (a p))"
proof -
  have f: "- (2 ^ 63) \<le> sint (a i) - sint (a j)" "sint (a i) - sint (a j) < 2 ^ 63"
    if "i \<in> {0, 1, 2}" "j \<in> {0, 1, 2}" for i j
    using assms(4) that by (auto simp: abs_less_iff dest!: bspec [of _ _ i] bspec [of _ _ j])
  have c: "\<exists>rt'. compare_two B V i j m rt = Inr (sint (a i) < sint (a j), m, rt')"
    if "two_of_three k i j" for i j k rt
  proof -
    have ij: "i \<in> {0, 1, 2}" "j \<in> {0, 1, 2}" using that by (auto simp: two_of_three_def)
    show ?thesis by (rule compare_two_ok [OF assms(1,2) that bspec [OF assms(3) ij(1)] bspec [OF assms(3) ij(2)] f [OF ij]])
  qed
  obtain rt1 where 1: "compare_two B V 0 1 m rt = Inr (sint (a 0) < sint (a 1), m, rt1)"
    using c [of 2 0 1] by (auto simp: two_of_three_def)
  show ?thesis
  proof (cases "sint (a 0) < sint (a 1)")
    case True
    obtain rt2 where "compare_two B V 0 2 m rt1 = Inr (sint (a 0) < sint (a 2), m, rt2)"
      using c [of 1 0 2] by (auto simp: two_of_three_def)
    then show ?thesis using 1 True by (auto simp: find_party_def)
  next
    case False
    obtain rt2 where "compare_two B V 1 2 m rt1 = Inr (sint (a 1) < sint (a 2), m, rt2)"
      using c [of 0 1 2] by (auto simp: two_of_three_def)
    then show ?thesis using 1 False by (auto simp: find_party_def)
  qed
qed

lemma announce_ok:
  assumes "aby3_ok L" "reveal_ok B V" "party \<in> {0, 1, 2}" "m party = number v"
  shows "\<exists>rt'. announce L X V party m rt = Inr (fx_to_double X v, rt')"
proof -
  have "party < 3" using assms(3) by auto
  moreover have "mat_ok (number v)" "shape (number v) = (1, 1)" by (simp_all add: number_def mat_ok_def shape_def)
  ultimately obtain S rt1 where "lib_local_int L party (number v) (\<lambda>p. (1, 1)) rt = Inr (S, rt1)" "sharing S (number v)"
    using lib_local [OF assms(1), of party "number v" "\<lambda>p. (1, 1)" rt] by auto
  moreover from this(2) obtain rt2 where "lib_revealAll V S rt1 = Inr (number v, rt2)"
    using assms(2) unfolding reveal_ok_def by blast
  ultimately show ?thesis using assms(4) by (simp add: announce_def number_def)
qed

lemma min_of_all:
  assumes "aby3_ok L" "bin_ok B" "reveal_ok B V" "\<forall>p \<in> {0, 1, 2}. \<bar>sint (fx_of_double X (x p))\<bar> < 2 ^ 62"
  shows "\<exists>w \<in> {0, 1, 2}. \<exists>rt'. minValueOfAllParty L X B V x rt = Inr (fx_to_double X (fx_of_double X (x w)), rt') \<and>
    (\<forall>p \<in> {0, 1, 2}. sint (fx_of_double X (x w)) \<le> sint (fx_of_double X (x p)))"
proof -
  let ?m = "\<lambda>p. number (fx_of_double X (x p))"
  obtain w rt1 where w: "w \<in> {0, 1, 2}" "find_party B V ?m rt = Inr (w, ?m, rt1)"
    "\<forall>p \<in> {0, 1, 2}. sint (fx_of_double X (x w)) \<le> sint (fx_of_double X (x p))"
    using find_party_ok [OF assms(2,3), of ?m "\<lambda>p. fx_of_double X (x p)" rt] assms(4) by auto
  obtain rt2 where "announce L X V w ?m rt1 = Inr (fx_to_double X (fx_of_double X (x w)), rt2)"
    using announce_ok [OF assms(1,3) w(1), of ?m, OF refl] by blast
  then show ?thesis using w by (auto simp: minValueOfAllParty_def)
qed

lemma sint_small:
  assumes "- (2 ^ 63) \<le> k" "k < 2 ^ 63"
  shows "sint (word_of_int k :: i64) = k"
proof -
  have "sint (word_of_int k :: i64) = signed_take_bit 63 k" by (simp only: signed_of_int) simp
  also have "\<dots> = k" using assms by (intro signed_take_bit_int_eq_self) simp_all
  finally show ?thesis .
qed

lemma sint_minus: "\<bar>sint v\<bar> < 2 ^ 62 \<Longrightarrow> sint (- v) = - sint (v :: i64)"
  using sint_small [of "- sint v"] by (simp add: abs_less_iff)

lemma max_of_all:
  assumes "aby3_ok L" "bin_ok B" "reveal_ok B V" "\<forall>p \<in> {0, 1, 2}. \<bar>sint (fx_of_double X (x p))\<bar> < 2 ^ 62"
    and "\<forall>p \<in> {0, 1, 2}. fx_of_double X (fp_mul F (fp_of_i64 F (-1)) (x p)) = - fx_of_double X (x p)"
  shows "\<exists>w \<in> {0, 1, 2}. \<exists>rt'. maxValueOfAllParty L X F B V x rt = Inr (fx_to_double X (fx_of_double X (x w)), rt') \<and>
    (\<forall>p \<in> {0, 1, 2}. sint (fx_of_double X (x p)) \<le> sint (fx_of_double X (x w)))"
proof -
  let ?m = "\<lambda>p. number (fx_of_double X (x p))"
  let ?n = "\<lambda>p. number (fx_of_double X (fp_mul F (fp_of_i64 F (-1)) (x p)))"
  have s: "\<forall>p \<in> {0, 1, 2}. sint (- fx_of_double X (x p)) = - sint (fx_of_double X (x p))"
    using assms(4) sint_minus by blast
  obtain w rt1 where w: "w \<in> {0, 1, 2}" "find_party B V ?n rt = Inr (w, ?n, rt1)"
    "\<forall>p \<in> {0, 1, 2}. sint (- fx_of_double X (x w)) \<le> sint (- fx_of_double X (x p))"
    using find_party_ok [OF assms(2,3), of ?n "\<lambda>p. - fx_of_double X (x p)" rt] assms(4,5) s by auto
  obtain rt2 where "announce L X V w ?m rt1 = Inr (fx_to_double X (fx_of_double X (x w)), rt2)"
    using announce_ok [OF assms(1,3) w(1), of ?m, OF refl] by blast
  moreover have "\<forall>p \<in> {0, 1, 2}. sint (fx_of_double X (x p)) \<le> sint (fx_of_double X (x w))" using w(1,3) s by auto
  ultimately show ?thesis using w(1,2) by (auto simp: maxValueOfAllParty_def)
qed

lemma for_columns_ok:
  assumes "\<forall>p \<in> {0, 1, 2}. length (cols p) = n"
    and "\<And>i x rt. i < n \<Longrightarrow> \<forall>p \<in> {0, 1, 2}. x p = cols p ! i \<Longrightarrow> \<exists>r rt'. f x rt = Inr (r, rt') \<and> P i r"
  shows "\<exists>rs rt'. for_columns f n cols rt = Inr (rs, rt') \<and> length rs = n \<and> (\<forall>i < n. P i (rs ! i))"
  using assms
proof (induction n arbitrary: cols rt P)
  case (Suc n)
  have ne: "cols 0 \<noteq> []" "cols 1 \<noteq> []" "cols 2 \<noteq> []" using Suc.prems(1) by auto
  then have "\<forall>p \<in> {0, 1, 2}. hd (cols p) = cols p ! 0" by (simp add: hd_conv_nth)
  then obtain r rt1 where r: "f (\<lambda>p. hd (cols p)) rt = Inr (r, rt1)" "P 0 r"
    using Suc.prems(2) [of 0 "\<lambda>p. hd (cols p)" rt] by blast
  have len: "\<forall>p \<in> {0, 1, 2}. length (tl (cols p)) = n" using Suc.prems(1) by auto
  have step: "\<exists>r rt'. f x rt = Inr (r, rt') \<and> P (Suc i) r" if "i < n" "\<forall>p \<in> {0, 1, 2}. x p = tl (cols p) ! i" for i x rt
    using Suc.prems(2) [of "Suc i" x rt] that len by (auto simp: nth_tl)
  obtain rs rt2 where "for_columns f n (\<lambda>p. tl (cols p)) rt1 = Inr (rs, rt2)" "length rs = n" "\<forall>i < n. P (Suc i) (rs ! i)"
    using Suc.IH [of "\<lambda>p. tl (cols p)" "\<lambda>i. P (Suc i)" rt1, OF len step] by blast
  then show ?case using r ne by (auto simp: nth_Cons split: nat.splits)
qed simp

end
