(* ===== verification/Missing_Columns.thy ===== *)
theory Missing_Columns
  imports Mpc_Statistics Text_Util
begin

text \<open>
  The part of \<^verbatim>\<open>algorithm/missing_val_processing.cc\<close> and \<^verbatim>\<open>.h\<close> that one party runs on a column of its own table:
  reading cells as numbers, the pass that collects sum, extremes and the positions of unreadable cells,
  and the rebuilding of the column with a replacement. \<^verbatim>\<open>std::stod\<close> and \<^verbatim>\<open>std::to_string(double)\<close> come with the
  representation of \<^verbatim>\<open>double\<close> as the record \<open>fp_text\<close>.
\<close>

section \<open>Numbers as text\<close>

datatype conv_error = Invalid_argument | Out_of_range

text \<open>\<^verbatim>\<open>std::stoll\<close> with the number of characters it has used: white space, a sign and digits.\<close>

definition int_prefix_length :: "string \<Rightarrow> nat" where
  "int_prefix_length s =
     (let t = dropWhile isspace s;
          sign = (case t of [] \<Rightarrow> 0 | c # _ \<Rightarrow> if c = CHR ''-'' \<or> c = CHR ''+'' then 1 else 0)
      in length (takeWhile isspace s) + sign + length (takeWhile (\<lambda>c. digit_val c \<noteq> None) (drop sign t)))"

definition stoll :: "string \<Rightarrow> conv_error + i64 \<times> nat" where
  "stoll s =
     (case int_prefix s of
        None \<Rightarrow> Inl Invalid_argument
      | Some v \<Rightarrow> if - (2 ^ 63) \<le> v \<and> v < 2 ^ 63 then Inr (word_of_int v, int_prefix_length s) else Inl Out_of_range)"

definition to_string_i64 :: "i64 \<Rightarrow> string" where
  "to_string_i64 v =
     (if sint v < 0 then CHR ''-'' # to_string_nat (nat (- sint v)) else to_string_nat (nat (sint v)))"

record 'd fp_text =
  fp_stod_len :: "string \<Rightarrow> conv_error + 'd \<times> nat"
  fp_to_string :: "'d \<Rightarrow> string"

text \<open>The return code and the variable that takes the value.\<close>

definition strToInt64 :: "string \<Rightarrow> i64 \<Rightarrow> int \<times> i64" where
  "strToInt64 str i64_val =
     (case stoll str of
        Inl Invalid_argument \<Rightarrow> (-1, i64_val)
      | Inl Out_of_range \<Rightarrow> (-2, i64_val)
      | Inr (v, conv_length) \<Rightarrow> if conv_length \<noteq> length str then (-1, v) else (0, v))"

definition strToDouble :: "'d fp_text \<Rightarrow> string \<Rightarrow> 'd \<Rightarrow> int \<times> 'd" where
  "strToDouble T str d_val =
     (case fp_stod_len T str of
        Inl Invalid_argument \<Rightarrow> (-1, d_val)
      | Inl Out_of_range \<Rightarrow> (-2, d_val)
      | Inr (v, conv_length) \<Rightarrow> if conv_length \<noteq> length str then (-1, v) else (0, v))"

section \<open>Columns and tables\<close>

text \<open>
  A chunked column of the table: text with missing cells, as the CSV reader delivers a column that is
  forced to be text, numbers, or a type the algorithm does not read.
\<close>

datatype 'd mcol = Strs "string option list list" | I64s "i64 list list" | F64s "'d list list" | Others "nat list"

type_synonym 'd mtable = "(string \<times> 'd mcol) list"

fun chunk_lengths :: "'d mcol \<Rightarrow> nat list" where
  "chunk_lengths (Strs c) = map length c"
| "chunk_lengths (I64s c) = map length c"
| "chunk_lengths (F64s c) = map length c"
| "chunk_lengths (Others c) = c"

definition chunk_count :: "'d mcol \<Rightarrow> nat" where
  "chunk_count c = length (chunk_lengths c)"

definition col_length :: "'d mcol \<Rightarrow> nat" where
  "col_length c = sum_list (chunk_lengths c)"

definition num_rows :: "'d mtable \<Rightarrow> nat" where
  "num_rows t = (case t of [] \<Rightarrow> 0 | (_, c) # _ \<Rightarrow> col_length c)"

text \<open>\<^verbatim>\<open>static_pointer_cast\<close> of the chunks to the array class that the code expects.\<close>

fun as_strings :: "'d mcol \<Rightarrow> string option list list res" where
  "as_strings (Strs c) = Inr c"
| "as_strings c = unread (chunk_lengths c)"

fun as_i64s :: "'d fp_cmp \<Rightarrow> 'd mcol \<Rightarrow> i64 list list res" where
  "as_i64s C (I64s c) = Inr c"
| "as_i64s C (F64s c) = Inr (map (map (fp_bits C)) c)"
| "as_i64s C c = unread (chunk_lengths c)"

fun as_doubles :: "'d fp_cmp \<Rightarrow> 'd mcol \<Rightarrow> 'd list list res" where
  "as_doubles C (F64s c) = Inr c"
| "as_doubles C (I64s c) = Inr (map (map (fp_of_bits C)) c)"
| "as_doubles C c = unread (chunk_lengths c)"

definition first_chunks :: "nat \<Rightarrow> 'a list \<Rightarrow> 'a list res" where
  "first_chunks n chunks = (if n \<le> length chunks then Inr (take n chunks) else Inl (Undefined ''chunk out of range''))"

section \<open>The pass over a column\<close>

record 'v scan =
  sc_sum :: 'v
  sc_max :: 'v
  sc_min :: 'v
  sc_abnormal_num :: nat
  sc_null_num :: nat

definition new_scan :: "'v \<Rightarrow> 'v \<Rightarrow> 'v \<Rightarrow> 'v scan" where
  "new_scan zero lowest highest = \<lparr>sc_sum = zero, sc_max = lowest, sc_min = highest, sc_abnormal_num = 0, sc_null_num = 0\<rparr>"

definition take_value :: "('v \<Rightarrow> 'v \<Rightarrow> 'v) \<Rightarrow> ('v \<Rightarrow> 'v \<Rightarrow> bool) \<Rightarrow> 'v \<Rightarrow> 'v scan \<Rightarrow> 'v scan" where
  "take_value add lt v s = s\<lparr>sc_max := (if lt (sc_max s) v then v else sc_max s),
     sc_min := (if lt v (sc_min s) then v else sc_min s), sc_sum := add (sc_sum s) v\<rparr>"

text \<open>The loop over the cells of a chunk, which lists the indexes of cells that are no numbers.\<close>

fun scan_cells ::
  "('v \<Rightarrow> 'v \<Rightarrow> 'v) \<Rightarrow> ('v \<Rightarrow> 'v \<Rightarrow> bool) \<Rightarrow> (string \<Rightarrow> 'v option) \<Rightarrow> nat \<Rightarrow> string option list \<Rightarrow> 'v scan \<Rightarrow> nat list \<Rightarrow>
   'v scan \<times> nat list" where
  "scan_cells add lt conv j [] s abnormal = (s, abnormal)"
| "scan_cells add lt conv j (None # cells) s abnormal = scan_cells add lt conv (Suc j) cells s abnormal"
| "scan_cells add lt conv j (Some str # cells) s abnormal =
     (case conv str of
        None \<Rightarrow> scan_cells add lt conv (Suc j) cells (s\<lparr>sc_abnormal_num := Suc (sc_abnormal_num s)\<rparr>) (abnormal @ [j])
      | Some v \<Rightarrow> scan_cells add lt conv (Suc j) cells (take_value add lt v s) abnormal)"

fun scan_chunks ::
  "('v \<Rightarrow> 'v \<Rightarrow> 'v) \<Rightarrow> ('v \<Rightarrow> 'v \<Rightarrow> bool) \<Rightarrow> (string \<Rightarrow> 'v option) \<Rightarrow> string option list list \<Rightarrow> 'v scan \<Rightarrow> 'v scan \<times> nat list list" where
  "scan_chunks add lt conv [] s = (s, [])"
| "scan_chunks add lt conv (chunk # chunks) s =
     (let (s1, abnormal) = scan_cells add lt conv 0 chunk s [];
          (s2, rest) = scan_chunks add lt conv chunks
             (s1\<lparr>sc_null_num := sc_null_num s1 + length (filter (\<lambda>c. c = None) chunk)\<rparr>)
      in (s2, abnormal # rest))"

text \<open>The loop over a chunk of numbers, which come from a database.\<close>

definition scan_values :: "('v \<Rightarrow> 'v \<Rightarrow> 'v) \<Rightarrow> ('v \<Rightarrow> 'v \<Rightarrow> bool) \<Rightarrow> 'v list list \<Rightarrow> 'v scan \<Rightarrow> 'v scan" where
  "scan_values add lt chunks s = foldl (foldl (\<lambda>s v. take_value add lt v s)) s chunks"

text \<open>What the secure part and the replacement need of the pass.\<close>

record 'v pass =
  ps_sum :: 'v
  ps_max :: 'v
  ps_min :: 'v
  ps_count :: u32
  ps_abnormal :: "nat list list"

definition int_cell :: "string \<Rightarrow> i64 option" where
  "int_cell s = (case strToInt64 s 0 of (ret, v) \<Rightarrow> if ret = 0 then Some v else None)"

definition double_cell :: "'d fp_ops \<Rightarrow> 'd fp_text \<Rightarrow> string \<Rightarrow> 'd option" where
  "double_cell F T s = (case strToDouble T s (fp_of_i64 F 0) of (ret, v) \<Rightarrow> if ret = 0 then Some v else None)"

definition slt :: "i64 \<Rightarrow> i64 \<Rightarrow> bool" where
  "slt a b \<longleftrightarrow> sint a < sint b"

definition text_pass ::
  "('v \<Rightarrow> 'v \<Rightarrow> 'v) \<Rightarrow> ('v \<Rightarrow> 'v \<Rightarrow> bool) \<Rightarrow> (string \<Rightarrow> 'v option) \<Rightarrow> 'v scan \<Rightarrow> nat \<Rightarrow> string option list list \<Rightarrow> 'v pass" where
  "text_pass add lt conv s0 rows chunks =
     (let (s, abnormal) = scan_chunks add lt conv chunks s0 in
      \<lparr>ps_sum = sc_sum s, ps_max = sc_max s, ps_min = sc_min s,
       ps_count = word_of_int (int rows - int (sc_null_num s) - int (sc_abnormal_num s)), ps_abnormal = abnormal\<rparr>)"

definition db_pass ::
  "('v \<Rightarrow> 'v \<Rightarrow> 'v) \<Rightarrow> ('v \<Rightarrow> 'v \<Rightarrow> bool) \<Rightarrow> 'v scan \<Rightarrow> nat \<Rightarrow> nat list \<Rightarrow> 'v list list \<Rightarrow> 'v pass" where
  "db_pass add lt s0 rows both_index chunks =
     (let s = scan_values add lt chunks s0 in
      \<lparr>ps_sum = sc_sum s, ps_max = sc_max s, ps_min = sc_min s,
       ps_count = word_of_int (int rows - int (length both_index)), ps_abnormal = replicate (length chunks) []\<rparr>)"

text \<open>
  Integer columns take the number of chunks from column 0 of the table, columns of doubles from the column
  itself. \<open>use_db\<close> carries the rows that the database driver has marked.
\<close>

definition int_pass :: "'d fp_cmp \<Rightarrow> 'd mtable \<Rightarrow> nat \<Rightarrow> nat list option \<Rightarrow> i64 pass res" where
  "int_pass C table col_index use_db =
     (let chunk_num = chunk_count (snd (table ! 0)); column = snd (table ! col_index);
          s0 = new_scan 0 (- (2 ^ 63)) (2 ^ 63 - 1) in
      case use_db of
        Some both_index \<Rightarrow>
          bindR (as_i64s C column) (\<lambda>c. bindR (first_chunks chunk_num c) (\<lambda>chunks.
            Inr (db_pass (+) slt s0 (num_rows table) both_index chunks)))
      | None \<Rightarrow>
          bindR (as_strings column) (\<lambda>c. bindR (first_chunks chunk_num c) (\<lambda>chunks.
            Inr (text_pass (+) slt int_cell s0 (num_rows table) chunks))))"

definition double_pass ::
  "'d fp_ops \<Rightarrow> 'd fp_cmp \<Rightarrow> 'd fp_text \<Rightarrow> 'd mtable \<Rightarrow> nat \<Rightarrow> nat list option \<Rightarrow> 'd pass res" where
  "double_pass F C T table col_index use_db =
     (let column = snd (table ! col_index);
          s0 = new_scan (fp_of_i64 F 0) (fp_min C) (fp_max C) in
      case use_db of
        Some both_index \<Rightarrow>
          bindR (as_doubles C column) (\<lambda>chunks.
            Inr (db_pass (fp_add F) (fp_lt C) s0 (num_rows table) both_index chunks))
      | None \<Rightarrow>
          bindR (as_strings column) (\<lambda>chunks.
            Inr (text_pass (fp_add F) (fp_lt C) (double_cell F T) s0 (num_rows table) chunks)))"

section \<open>Rebuilding a column\<close>

definition replace_at :: "nat list \<Rightarrow> 'a \<Rightarrow> 'a list \<Rightarrow> 'a list res" where
  "replace_at indexes v xs =
     (if \<forall>i \<in> set indexes. i < length xs then Inr (foldl (\<lambda>xs i. xs[i := v]) xs indexes)
      else Inl (Undefined ''writes past a vector''))"

text \<open>\<^verbatim>\<open>_buildNewColumn\<close> for text: null cells first, then the abnormal cells of the chunk.\<close>

fun rebuild_chunks :: "string \<Rightarrow> string option list list \<Rightarrow> nat list list \<Rightarrow> string list list res" where
  "rebuild_chunks rep [] abnormal_index = Inr []"
| "rebuild_chunks rep (chunk # chunks) [] = Inl (Undefined ''reads past a vector'')"
| "rebuild_chunks rep (chunk # chunks) (abnormal # rest) =
     bindR (replace_at abnormal rep (map (\<lambda>c. case c of None \<Rightarrow> rep | Some s \<Rightarrow> s) chunk)) (\<lambda>vals.
     bindR (rebuild_chunks rep chunks rest) (\<lambda>new_col_val. Inr (vals # new_col_val)))"

definition joined :: "'a list list \<Rightarrow> 'a list res" where
  "joined new_col_val = (if new_col_val = [] then Inl (Undefined ''element of an empty vector'') else Inr (concat new_col_val))"

definition stoll_or :: "string \<Rightarrow> i64 res" where
  "stoll_or s = (case stoll s of Inl _ \<Rightarrow> Inl (Raised ''stoll'') | Inr (v, _) \<Rightarrow> Inr v)"

definition stod_or :: "'d fp_text \<Rightarrow> string \<Rightarrow> 'd res" where
  "stod_or T s = (case fp_stod_len T s of Inl _ \<Rightarrow> Inl (Raised ''stod'') | Inr (v, _) \<Rightarrow> Inr v)"

definition buildNewColumn_text ::
  "'d fp_text \<Rightarrow> 'd mcol \<Rightarrow> string \<Rightarrow> nat list list \<Rightarrow> bool \<Rightarrow> 'd mcol res" where
  "buildNewColumn_text T column rep abnormal_index need_double =
     bindR (as_strings column) (\<lambda>chunks.
     bindR (rebuild_chunks rep chunks abnormal_index) (\<lambda>new_col_val.
     bindR (joined new_col_val) (\<lambda>vals.
       if need_double then bindR (each (stod_or T) vals) (\<lambda>ds. Inr (F64s [ds]))
       else bindR (each stoll_or vals) (\<lambda>is. Inr (I64s [is])))))"

text \<open>\<^verbatim>\<open>_buildNewColumn\<close> for numbers from a database; the text is only converted when there is a row to replace.\<close>

definition buildNewColumn_db ::
  "'d fp_cmp \<Rightarrow> 'd fp_text \<Rightarrow> 'd mcol \<Rightarrow> string \<Rightarrow> nat list \<Rightarrow> bool \<Rightarrow> 'd mcol res" where
  "buildNewColumn_db C T column rep both_index need_double =
     (if need_double then
        bindR (as_doubles C column) (\<lambda>chunks. bindR (joined chunks) (\<lambda>vals.
          if both_index = [] then Inr (F64s [vals])
          else bindR (stod_or T rep) (\<lambda>v. bindR (replace_at both_index v vals) (\<lambda>ds. Inr (F64s [ds])))))
      else
        bindR (as_i64s C column) (\<lambda>chunks. bindR (joined chunks) (\<lambda>vals.
          if both_index = [] then Inr (I64s [vals])
          else bindR (stoll_or rep) (\<lambda>v. bindR (replace_at both_index v vals) (\<lambda>is. Inr (I64s [is]))))))"

text \<open>\<^verbatim>\<open>Table::SetColumn\<close> of Arrow refuses a column of another length.\<close>

definition SetColumn :: "nat \<Rightarrow> string \<Rightarrow> 'd mcol \<Rightarrow> 'd mtable \<Rightarrow> 'd mtable option" where
  "SetColumn col_index name column table =
     (if col_index < length table \<and> col_length column = num_rows table then Some (table[col_index := (name, column)]) else None)"

datatype 'd replacement = ReplaceInt i64 | ReplaceDouble 'd

definition replacement_text :: "'d fp_text \<Rightarrow> 'd replacement \<Rightarrow> string" where
  "replacement_text T col_value = (case col_value of ReplaceInt v \<Rightarrow> to_string_i64 v | ReplaceDouble d \<Rightarrow> fp_to_string T d)"

definition replaceValue ::
  "'d fp_cmp \<Rightarrow> 'd fp_text \<Rightarrow> string \<Rightarrow> 'd mtable \<Rightarrow> nat \<Rightarrow> 'd replacement \<Rightarrow> nat list list \<Rightarrow> nat list option \<Rightarrow> 'd mtable res" where
  "replaceValue C T name table col_index col_value abnormal_index use_db =
     (let column = snd (table ! col_index); rep = replacement_text T col_value;
          need_double = (case col_value of ReplaceInt _ \<Rightarrow> False | ReplaceDouble _ \<Rightarrow> True) in
      bindR (case use_db of
               Some both_index \<Rightarrow> buildNewColumn_db C T column rep both_index need_double
             | None \<Rightarrow> buildNewColumn_text T column rep abnormal_index need_double) (\<lambda>new_array.
        case SetColumn col_index name new_array table of
          None \<Rightarrow> Inl (Raised (''Replace content of column '' @ name @ '' failed''))
        | Some t \<Rightarrow> Inr t))"

section \<open>Reading back what was printed\<close>

lemma takeWhile_digits: "takeWhile (\<lambda>c. digit_val c \<noteq> None) (to_string_nat n) = to_string_nat n"
  using digits_ref_chars digit_val_digit_char by (fastforce simp: to_string_nat_def takeWhile_eq_all_conv)

lemma to_string_nat_head:
  obtains c cs where "to_string_nat n = c # cs" "\<not> isspace c" "c \<noteq> CHR ''-''" "c \<noteq> CHR ''+''"
proof -
  obtain c cs where s: "digits_ref 10 n = c # cs" using digits_ref_nonempty by (cases "digits_ref 10 n") auto
  then obtain d where d: "d < 10" "c = digit_char d" using digits_ref_chars [of c n] by auto
  then have "\<not> isspace c" by (simp add: isspace_def digit_char_def)
  moreover have "c \<noteq> CHR ''-''" "c \<noteq> CHR ''+''" using d digit_char_neq by auto
  ultimately show thesis using s that by (simp add: to_string_nat_def)
qed

lemma int_prefix_length_to_string: "int_prefix_length (to_string_nat n) = length (to_string_nat n)"
proof -
  obtain c cs where s: "to_string_nat n = c # cs" "\<not> isspace c" "c \<noteq> CHR ''-''" "c \<noteq> CHR ''+''"
    by (rule to_string_nat_head)
  then show ?thesis using takeWhile_digits [of n] by (simp add: int_prefix_length_def Let_def)
qed

lemma int_prefix_minus: "int_prefix (CHR ''-'' # to_string_nat n) = Some (- int n)"
proof -
  obtain c cs where s: "to_string_nat n = c # cs" "\<not> isspace c" "c \<noteq> CHR ''-''" "c \<noteq> CHR ''+''"
    by (rule to_string_nat_head)
  then show ?thesis using int_prefix_to_string [of n]
    by (auto simp: int_prefix_def Let_def isspace_def split: if_splits)
qed

lemma int_prefix_length_minus: "int_prefix_length (CHR ''-'' # to_string_nat n) = Suc (length (to_string_nat n))"
  using arg_cong [OF takeWhile_digits [of n], of length] by (simp add: int_prefix_length_def Let_def isspace_def del: takeWhile_eq_all_conv)

lemma stoll_to_string: "stoll (to_string_i64 v) = Inr (v, length (to_string_i64 v))"
proof -
  have "- (2 ^ 63) \<le> sint v" "sint v < 2 ^ 63" using sint_range_size [of v] by (simp_all add: word_size)
  then show ?thesis
    by (simp add: stoll_def to_string_i64_def int_prefix_minus int_prefix_length_minus int_prefix_length_to_string)
qed

lemma stoll_or_to_string [simp]: "stoll_or (to_string_i64 v) = Inr v"
  by (simp add: stoll_or_def stoll_to_string)

lemma int_cell_to_string: "int_cell (to_string_i64 v) = Some v"
  by (simp add: int_cell_def strToInt64_def stoll_to_string)

lemma int_cell_stoll: "int_cell s = Some v \<Longrightarrow> stoll_or s = Inr v"
  by (auto simp: int_cell_def strToInt64_def stoll_or_def split: sum.splits conv_error.splits prod.splits if_splits)

lemma double_cell_stod: "double_cell F T s = Some v \<Longrightarrow> stod_or T s = Inr v"
  by (auto simp: double_cell_def strToDouble_def stod_or_def split: sum.splits conv_error.splits prod.splits if_splits)

section \<open>What the pass finds\<close>

text \<open>The number in a cell, if any, and a column with a number put in where there is none.\<close>

definition cell_value :: "(string \<Rightarrow> 'v option) \<Rightarrow> string option \<Rightarrow> 'v option" where
  "cell_value conv c = (case c of None \<Rightarrow> None | Some s \<Rightarrow> conv s)"

definition fill_missing :: "(string \<Rightarrow> 'v option) \<Rightarrow> 'v \<Rightarrow> string option list \<Rightarrow> 'v list" where
  "fill_missing conv v cells = map (\<lambda>c. case cell_value conv c of Some x \<Rightarrow> x | None \<Rightarrow> v) cells"

definition readable :: "(string \<Rightarrow> 'v option) \<Rightarrow> string option list \<Rightarrow> 'v list" where
  "readable conv cells = List.map_filter (cell_value conv) cells"

text \<open>The indexes of the cells that hold something that is no number.\<close>

fun bad_from :: "(string \<Rightarrow> 'v option) \<Rightarrow> nat \<Rightarrow> string option list \<Rightarrow> nat list" where
  "bad_from conv j [] = []"
| "bad_from conv j (c # cs) = (if c \<noteq> None \<and> cell_value conv c = None then j # bad_from conv (Suc j) cs else bad_from conv (Suc j) cs)"

lemma readable_simps [simp]:
  "readable conv [] = []"
  "readable conv (c # cs) = (case cell_value conv c of None \<Rightarrow> readable conv cs | Some v \<Rightarrow> v # readable conv cs)"
  "readable conv (cs @ ds) = readable conv cs @ readable conv ds"
  unfolding readable_def map_filter_simps by (simp_all add: map_filter_def cong: option.case_cong)

lemma set_readable: "set (readable conv cells) = {v. \<exists>c \<in> set cells. cell_value conv c = Some v}"
  by (induction cells) (auto split: option.splits)

definition add_values :: "('v \<Rightarrow> 'v \<Rightarrow> 'v) \<Rightarrow> ('v \<Rightarrow> 'v \<Rightarrow> bool) \<Rightarrow> 'v list \<Rightarrow> 'v scan \<Rightarrow> 'v scan" where
  "add_values add lt vs s = foldl (\<lambda>s v. take_value add lt v s) s vs"

lemma take_value_abnormal:
  "take_value add lt v (s\<lparr>sc_abnormal_num := n, sc_null_num := k\<rparr>) = (take_value add lt v s)\<lparr>sc_abnormal_num := n, sc_null_num := k\<rparr>"
  "sc_abnormal_num (take_value add lt v s) = sc_abnormal_num s" "sc_null_num (take_value add lt v s) = sc_null_num s"
  by (simp_all add: take_value_def)

lemma add_values_counters:
  "add_values add lt vs (s\<lparr>sc_abnormal_num := n, sc_null_num := k\<rparr>) = (add_values add lt vs s)\<lparr>sc_abnormal_num := n, sc_null_num := k\<rparr>"
  "sc_abnormal_num (add_values add lt vs s) = sc_abnormal_num s" "sc_null_num (add_values add lt vs s) = sc_null_num s"
  by (induction vs arbitrary: s) (simp_all add: add_values_def take_value_abnormal)

lemma scan_cells_spec:
  "scan_cells add lt conv j cells s abnormal =
     ((add_values add lt (readable conv cells) s)\<lparr>sc_abnormal_num := sc_abnormal_num s + length (bad_from conv j cells),
        sc_null_num := sc_null_num s\<rparr>, abnormal @ bad_from conv j cells)"
proof (induction cells arbitrary: j s abnormal)
  case Nil
  then show ?case by (simp add: add_values_def)
next
  case (Cons c cells)
  have upd: "add_values add lt vs (s\<lparr>sc_abnormal_num := n\<rparr>) = (add_values add lt vs s)\<lparr>sc_abnormal_num := n\<rparr>" for vs n
    using add_values_counters(1) [where s = s and n = n and k = "sc_null_num s" and vs = vs and add = add and lt = lt]
      add_values_counters(3) [where s = s and vs = vs and add = add and lt = lt] by (metis scan.surjective scan.update_convs(4,5))
  show ?case
  proof (cases "c = None \<or> cell_value conv c \<noteq> None")
    case True
    then show ?thesis using Cons
      by (cases c) (auto simp: cell_value_def add_values_def take_value_abnormal)
  next
    case False
    then obtain str where "c = Some str" "conv str = None" by (auto simp: cell_value_def)
    then show ?thesis using Cons by (simp add: cell_value_def upd)
  qed
qed

lemma bad_length:
  "length (readable conv cells) + length (bad_from conv j cells) + length (filter (\<lambda>c. c = None) cells) = length cells"
  by (induction cells arbitrary: j) (auto simp: cell_value_def split: option.splits)

lemma scan_chunks_spec:
  "scan_chunks add lt conv chunks s = (s', abnormal) \<Longrightarrow>
     abnormal = map (bad_from conv 0) chunks \<and>
     (\<exists>n k. s' = (add_values add lt (readable conv (concat chunks)) s)\<lparr>sc_abnormal_num := n, sc_null_num := k\<rparr> \<and>
        n + k + length (readable conv (concat chunks)) = sc_abnormal_num s + sc_null_num s + length (concat chunks))"
proof (induction chunks arbitrary: s s' abnormal)
  case Nil
  have "\<exists>n k. s = s\<lparr>sc_abnormal_num := n, sc_null_num := k\<rparr> \<and> n + k = sc_abnormal_num s + sc_null_num s"
    by (rule exI [of _ "sc_abnormal_num s"], rule exI [of _ "sc_null_num s"]) simp
  then show ?case using Nil by (simp add: add_values_def)
next
  case (Cons chunk chunks)
  let ?s1 = "(add_values add lt (readable conv chunk) s)\<lparr>sc_abnormal_num := sc_abnormal_num s + length (bad_from conv 0 chunk),
     sc_null_num := sc_null_num s + length (filter (\<lambda>c. c = None) chunk)\<rparr>"
  obtain s2 rest where r: "scan_chunks add lt conv chunks ?s1 = (s2, rest)" by fastforce
  with Cons.prems have s': "s' = s2" "abnormal = bad_from conv 0 chunk # rest"
    by (auto simp: scan_cells_spec)
  obtain n k where nk: "rest = map (bad_from conv 0) chunks"
    "s2 = (add_values add lt (readable conv (concat chunks)) ?s1)\<lparr>sc_abnormal_num := n, sc_null_num := k\<rparr>"
    "n + k + length (readable conv (concat chunks)) = sc_abnormal_num ?s1 + sc_null_num ?s1 + length (concat chunks)"
    using Cons.IH [OF r] by blast
  have "add_values add lt (readable conv (concat chunks)) ?s1 =
      (add_values add lt (readable conv (concat (chunk # chunks))) s)\<lparr>sc_abnormal_num := sc_abnormal_num ?s1, sc_null_num := sc_null_num ?s1\<rparr>"
    unfolding add_values_counters by (simp add: add_values_def)
  then show ?case using nk s' bad_length [of conv chunk 0]
    by (intro conjI exI [of _ n] exI [of _ k]) simp_all
qed

section \<open>What the rebuilding does\<close>

lemma update_bad:
  "foldl (\<lambda>xs i. xs[i := v]) (pre @ map g cells) (bad_from conv (length pre) cells) =
     pre @ map (\<lambda>c. if c \<noteq> None \<and> cell_value conv c = None then v else g c) cells"
proof (induction cells arbitrary: pre)
  case (Cons c cells)
  show ?case using Cons [of "pre @ [v]"] Cons [of "pre @ [g c]"] by simp
qed simp

lemma bad_bound: "i \<in> set (bad_from conv j cells) \<Longrightarrow> j \<le> i \<and> i < j + length cells"
  by (induction cells arbitrary: j) (fastforce split: if_splits)+

definition refilled :: "(string \<Rightarrow> 'v option) \<Rightarrow> string \<Rightarrow> string option \<Rightarrow> string" where
  "refilled conv rep c = (case cell_value conv c of None \<Rightarrow> rep | Some _ \<Rightarrow> (case c of None \<Rightarrow> rep | Some s \<Rightarrow> s))"

lemma rebuild_scanned:
  "rebuild_chunks rep chunks (map (bad_from conv 0) chunks) = Inr (map (map (refilled conv rep)) chunks)"
proof (induction chunks)
  case (Cons chunk chunks)
  let ?g = "\<lambda>c. case c of None \<Rightarrow> rep | Some s \<Rightarrow> s"
  have "(if c \<noteq> None \<and> cell_value conv c = None then rep else ?g c) = refilled conv rep c" for c
    by (auto simp: refilled_def cell_value_def split: option.splits)
  then have "replace_at (bad_from conv 0 chunk) rep (map ?g chunk) = Inr (map (refilled conv rep) chunk)"
    using update_bad [of rep "[]" ?g chunk conv] bad_bound [of _ conv 0 chunk] by (simp add: replace_at_def)
  then show ?case using Cons by simp
qed simp

lemma each_map: "(\<And>x. x \<in> set xs \<Longrightarrow> f x = Inr (g x)) \<Longrightarrow> each f xs = Inr (map g xs)"
  by (induction xs) auto

text \<open>
  Replacing after a pass over the same chunks keeps every number and puts the replacement everywhere else.
  All that matters is that the second conversion, \<open>read\<close>, agrees with the one of the pass, \<open>conv\<close>.
\<close>

locale cell_reader =
  fixes conv :: "string \<Rightarrow> 'v option" and read :: "string \<Rightarrow> 'v res"
  assumes read_cell: "conv s = Some v \<Longrightarrow> read s = Inr v"
begin

lemma refilled_cells:
  assumes "read rep = Inr v"
  shows "each read (map (refilled conv rep) cells) = Inr (fill_missing conv v cells)"
proof -
  have "read (refilled conv rep c) = Inr (case cell_value conv c of Some x \<Rightarrow> x | None \<Rightarrow> v)" for c
    using assms read_cell by (auto simp: refilled_def cell_value_def split: option.splits)
  then show ?thesis unfolding fill_missing_def by (induction cells) auto
qed

lemma rebuilt:
  assumes "read rep = Inr v" "chunks \<noteq> []"
  shows "bindR (rebuild_chunks rep chunks (map (bad_from conv 0) chunks)) (\<lambda>c. bindR (joined c) (each read)) =
    Inr (fill_missing conv v (concat chunks))"
  using assms refilled_cells [of rep v "concat chunks"] by (simp add: rebuild_scanned joined_def map_concat [symmetric])

end

interpretation int_cells: cell_reader int_cell stoll_or
  by unfold_locales (rule int_cell_stoll)

interpretation double_cells: cell_reader "double_cell F T" "stod_or T" for F :: "'d fp_ops" and T :: "'d fp_text"
  by unfold_locales (rule double_cell_stod)

lemma build_text_int:
  assumes "chunks \<noteq> []"
  shows "buildNewColumn_text T (Strs chunks) (to_string_i64 v) (map (bad_from int_cell 0) chunks) False =
    Inr (I64s [fill_missing int_cell v (concat chunks)])"
  using int_cells.rebuilt [of "to_string_i64 v" v chunks] assms by (auto simp: buildNewColumn_text_def rebuild_scanned)

lemma build_text_double:
  assumes "chunks \<noteq> []" "stod_or T rep = Inr d"
  shows "buildNewColumn_text T (Strs chunks) rep (map (bad_from (double_cell F T) 0) chunks) True =
    Inr (F64s [fill_missing (double_cell F T) d (concat chunks)])"
  using double_cells.rebuilt [of T rep d chunks F] assms by (auto simp: buildNewColumn_text_def rebuild_scanned)

end
