(* ===== verification/Statistics_Run.thy ===== *)
theory Statistics_Run
  imports Mpc_Statistics
begin

text \<open>
  What \<open>Mpc_Statistics\<close> computes: from the tables of the three parties to the numbers all of them learn,
  for minima, maxima, sums and averages. Of floating point the results use the order of numbers that are
  not NaN and the conversion to fixed point on its range; exact arithmetic on real numbers is an
  instance of both.
\<close>

section \<open>Extreme values of a party's columns\<close>

text \<open>
  \<open>num x\<close>: the double \<open>x\<close> is not a NaN. On these numbers IEEE comparison is a linear order, and the
  conversion of integers follows it.
\<close>

definition fp_order_ok :: "('d \<Rightarrow> bool) \<Rightarrow> 'd fp_ops \<Rightarrow> 'd fp_cmp \<Rightarrow> bool" where
  "fp_order_ok num F C \<longleftrightarrow>
     (\<forall>x y. num x \<longrightarrow> num y \<longrightarrow> fp_le C x y \<or> fp_le C y x) \<and>
     (\<forall>x y z. num x \<longrightarrow> num y \<longrightarrow> num z \<longrightarrow> fp_le C x y \<longrightarrow> fp_le C y z \<longrightarrow> fp_le C x z) \<and>
     (\<forall>x y. num x \<longrightarrow> num y \<longrightarrow> (fp_lt C x y \<longleftrightarrow> \<not> fp_le C y x)) \<and>
     num (fp_min C) \<and> num (fp_max C) \<and> (\<forall>a. num (fp_of_i64 F a)) \<and>
     (\<forall>a b. sint a \<le> sint b \<longrightarrow> fp_le C (fp_of_i64 F a) (fp_of_i64 F b))"

lemma fp_orderD:
  assumes "fp_order_ok num F C"
  shows "num x \<Longrightarrow> num y \<Longrightarrow> fp_le C x y \<or> fp_le C y x"
    and "num x \<Longrightarrow> num y \<Longrightarrow> num z \<Longrightarrow> fp_le C x y \<Longrightarrow> fp_le C y z \<Longrightarrow> fp_le C x z"
    and "num x \<Longrightarrow> num y \<Longrightarrow> fp_lt C x y \<longleftrightarrow> \<not> fp_le C y x"
    and "num (fp_min C)" "num (fp_max C)" "num (fp_of_i64 F a)"
    and "sint a \<le> sint b \<Longrightarrow> fp_le C (fp_of_i64 F a) (fp_of_i64 F b)"
  using assms unfolding fp_order_ok_def by blast+

definition ahead :: "MPCStatisticsType \<Rightarrow> ('v \<Rightarrow> 'v \<Rightarrow> bool) \<Rightarrow> 'v \<Rightarrow> 'v \<Rightarrow> bool" where
  "ahead type le x y \<longleftrightarrow> (if type = MAX_t then le y x else le x y)"

definition best :: "('v \<Rightarrow> 'v \<Rightarrow> bool) \<Rightarrow> 'v set \<Rightarrow> 'v \<Rightarrow> bool" where
  "best le A r \<longleftrightarrow> r \<in> A \<and> (\<forall>v \<in> A. le r v)"

lemma foldl_best:
  assumes "\<And>x y. x \<in> D \<Longrightarrow> y \<in> D \<Longrightarrow> le x y \<or> le y x"
    and "\<And>x y z. x \<in> D \<Longrightarrow> y \<in> D \<Longrightarrow> z \<in> D \<Longrightarrow> le x y \<Longrightarrow> le y z \<Longrightarrow> le x z"
    and "init \<in> D" "set xs \<subseteq> D"
  shows "best le (insert init (set xs)) (foldl (\<lambda>val x. if le x val then x else val) init xs)"
  using assms(3,4)
proof (induction xs arbitrary: init)
  case Nil
  then show ?case using assms(1) [of init init] by (simp add: best_def)
next
  case (Cons x xs)
  let ?v = "if le x init then x else init"
  have v: "?v \<in> D" "le ?v x" "le ?v init" "?v = x \<or> ?v = init" using Cons.prems assms(1) [of x init] assms(1) [of x x] assms(1) [of init init] by auto
  have b: "best le (insert ?v (set xs)) (foldl (\<lambda>val x. if le x val then x else val) ?v xs)"
    using Cons.IH [OF v(1)] Cons.prems by simp
  let ?r = "foldl (\<lambda>val x. if le x val then x else val) ?v xs"
  have "?r \<in> insert ?v (set xs)" using b unfolding best_def by blast
  then have "?r \<in> D" "?r \<in> insert init (set (x # xs))" using v(1,4) Cons.prems by auto
  moreover have "le ?r y" if y: "y \<in> insert init (set (x # xs))" for y
  proof -
    consider "y \<in> set xs" | "y = x \<or> y = init" using y by auto
    then show ?thesis
    proof cases
      case 1 then show ?thesis using b unfolding best_def by blast
    next
      case 2
      then have "le ?v y" "y \<in> D" using v(2,3) Cons.prems by auto
      moreover have "le ?r ?v" using b unfolding best_def by blast
      ultimately show ?thesis using assms(2) [OF \<open>?r \<in> D\<close> v(1)] by blast
    qed
  qed
  ultimately show ?case by (auto simp: best_def)
qed

lemma minOrMax_best:
  assumes "\<And>x y. x \<in> D \<Longrightarrow> y \<in> D \<Longrightarrow> le x y \<or> le y x"
    and "\<And>x y z. x \<in> D \<Longrightarrow> y \<in> D \<Longrightarrow> z \<in> D \<Longrightarrow> le x y \<Longrightarrow> le y z \<Longrightarrow> le x z"
    and "init \<in> D" "set xs \<subseteq> D"
  shows "best (ahead type le) (insert init (set xs)) (minOrMax type le xs init)"
proof (cases "type = MAX_t")
  case True
  have "best (\<lambda>x y. le y x) (insert init (set xs)) (foldl (\<lambda>val x. if le val x then x else val) init xs)"
    by (rule foldl_best [where D = D]) (use assms in blast)+
  then show ?thesis using True by (simp add: minOrMax_def ahead_def best_def)
next
  case False
  have "best le (insert init (set xs)) (foldl (\<lambda>val x. if le x val then x else val) init xs)"
    by (rule foldl_best [where D = D]) (use assms in blast)+
  then show ?thesis using False by (simp add: minOrMax_def ahead_def best_def)
qed

text \<open>A chunk of integers that is not empty: the limit of the type does not matter.\<close>

lemma int_chunk_best:
  assumes "xs \<noteq> []" "\<forall>x \<in> set xs. ahead type sle x init"
  shows "best (ahead type sle) (set xs) (minOrMax type sle xs init)"
proof -
  obtain y ys where xs: "xs = y # ys" using assms(1) by (cases xs) auto
  have "minOrMax type sle xs init = minOrMax type sle ys y"
    using assms(2) xs by (simp add: minOrMax_def ahead_def split: if_splits)
  moreover have "best (ahead type sle) (insert y (set ys)) (minOrMax type sle ys y)"
    by (rule minOrMax_best [of UNIV]) (auto simp: sle_def)
  ultimately show ?thesis using xs by simp
qed

lemma chunk_fold_best:
  assumes "fp_order_ok num F C" "type = MIN_t \<or> type = MAX_t"
    and "num init" "\<forall>a \<in> set chunks. \<forall>v \<in> A a. num v"
    and "\<forall>a \<in> set chunks. f a \<in> insert init (A a) \<and> (\<forall>v \<in> A a. ahead type (fp_le C) (f a) v)"
    and "best (ahead type (fp_le C)) (insert init S) r" "\<forall>v \<in> S. num v"
  shows "best (ahead type (fp_le C)) (insert init (S \<union> (\<Union>a \<in> set chunks. A a)))
    (foldl (\<lambda>r a. fillChunkResult C type r (f a)) r chunks)"
  using assms(4-)
proof (induction chunks arbitrary: r S)
  case (Cons a chunks)
  note o = fp_orderD [OF assms(1)]
  let ?r = "fillChunkResult C type r (f a)"
  have n: "num r" "num (f a)" using Cons.prems assms(3) by (auto simp: best_def)
  have r: "?r = r \<or> ?r = f a" "ahead type (fp_le C) ?r r" "ahead type (fp_le C) ?r (f a)"
    using assms(2) o(1) [OF n] o(1) [OF n(1,1)] o(1) [OF n(2,2)] o(3) [OF n] o(3) [OF n(2,1)]
    by (auto simp: fillChunkResult_def ahead_def)
  have tr: "ahead type (fp_le C) ?r v" if "ahead type (fp_le C) w v" "w = r \<or> w = f a" "num v" for w v
    using that r n o(2) [of v w ?r] o(2) [of ?r w v] by (auto simp: ahead_def split: if_splits)
  have "best (ahead type (fp_le C)) (insert init (S \<union> A a)) ?r"
    unfolding best_def
  proof
    show "?r \<in> insert init (S \<union> A a)" using r(1) Cons.prems by (auto simp: best_def)
    show "\<forall>v \<in> insert init (S \<union> A a). ahead type (fp_le C) ?r v"
      using tr Cons.prems assms(3) by (auto simp: best_def)
  qed
  then have "best (ahead type (fp_le C)) (insert init ((S \<union> A a) \<union> (\<Union>a \<in> set chunks. A a)))
      (foldl (\<lambda>r a. fillChunkResult C type r (f a)) ?r chunks)"
    using Cons.prems by (intro Cons.IH) auto
  then show ?case by (simp add: Un_assoc)
qed simp

text \<open>The values of a column of a type that is looked at, and that no chunk is empty.\<close>

fun column_values :: "'d fp_ops \<Rightarrow> ColumnDtype \<Rightarrow> 'd column \<Rightarrow> 'd list option" where
  "column_values F t (INT32s c) = (if t = INTEGER \<or> t = LONG then Some (map (\<lambda>v. fp_of_i64 F (signed v)) (concat c)) else None)"
| "column_values F t (INT64s c) = (if t = INTEGER \<or> t = LONG then Some (map (fp_of_i64 F) (concat c)) else None)"
| "column_values F t (FLOAT64s c) = (if t = DOUBLE then Some (concat c) else None)"
| "column_values F t _ = None"

fun filled :: "'d column \<Rightarrow> bool" where
  "filled (INT32s c) \<longleftrightarrow> c \<noteq> [] \<and> [] \<notin> set c"
| "filled (INT64s c) \<longleftrightarrow> c \<noteq> [] \<and> [] \<notin> set c"
| "filled (FLOAT64s c) \<longleftrightarrow> c \<noteq> [] \<and> [] \<notin> set c"
| "filled _ \<longleftrightarrow> False"

lemma int_chunks_extreme:
  assumes "fp_order_ok num F C" "type = MIN_t \<or> type = MAX_t" "[] \<notin> set c"
    and "\<forall>a \<in> set c. \<forall>x \<in> set a. ahead type sle x start"
  shows "best (ahead type (fp_le C)) (insert (fillInitValue_double C type) (fp_of_i64 F ` set (concat c)))
    (foldl (\<lambda>r a. fillChunkResult C type r (fp_of_i64 F (minOrMax type sle a start))) (fillInitValue_double C type) c)"
proof -
  note o = fp_orderD [OF assms(1)]
  let ?i = "fillInitValue_double C type" and ?A = "\<lambda>a. fp_of_i64 F ` set a"
  have i: "num ?i" using o(4,5) by (simp add: fillInitValue_double_def)
  have "\<forall>a \<in> set c. fp_of_i64 F (minOrMax type sle a start) \<in> insert ?i (?A a) \<and>
      (\<forall>v \<in> ?A a. ahead type (fp_le C) (fp_of_i64 F (minOrMax type sle a start)) v)"
  proof
    fix a assume a: "a \<in> set c"
    then have "best (ahead type sle) (set a) (minOrMax type sle a start)"
      using assms(3,4) by (intro int_chunk_best) auto
    then show "fp_of_i64 F (minOrMax type sle a start) \<in> insert ?i (?A a) \<and>
      (\<forall>v \<in> ?A a. ahead type (fp_le C) (fp_of_i64 F (minOrMax type sle a start)) v)"
      using o(7) by (auto simp: best_def ahead_def sle_def split: if_splits)
  qed
  from chunk_fold_best [OF assms(1,2) i _ this, of "{}" ?i] o(1) [OF i i] o(6)
  show ?thesis by (auto simp: best_def ahead_def image_UN)
qed

lemma sint_signed: "sint (signed (v :: 32 word) :: i64) = sint v"
proof -
  have "- (2 ^ 31) \<le> sint v" "sint v < 2 ^ 31" using sint_greater_eq [of v] sint_less [of v] by simp_all
  then have "sint (word_of_int (sint v) :: i64) = sint v" by (intro sint_small) simp_all
  then show ?thesis by simp
qed

lemma limits_i32:
  fixes c :: "32 word list list"
  shows "\<forall>a \<in> set (map (map signed) c). \<forall>x \<in> set a. ahead type sle x (fillInitValue_i32 type)"
proof -
  have "- (2 ^ 31) \<le> sint v \<and> sint v \<le> 2 ^ 31 - 1" for v :: "32 word"
    using sint_greater_eq [of v] sint_less [of v] by simp
  moreover have "sint (- (2 ^ 31) :: i64) = - (2 ^ 31)" "sint (2 ^ 31 - 1 :: i64) = 2 ^ 31 - 1"
    by simp_all
  ultimately show ?thesis by (auto simp: ahead_def sle_def fillInitValue_i32_def sint_signed)
qed

lemma limits_i64: "\<forall>a \<in> set c. \<forall>x \<in> set a. ahead type sle x (fillInitValue_i64 type)"
proof -
  have "- (2 ^ 63) \<le> sint v \<and> sint v \<le> 2 ^ 63 - 1" for v :: i64
    using sint_greater_eq [of v] sint_less [of v] by simp
  moreover have "sint (- (2 ^ 63) :: i64) = - (2 ^ 63)" "sint (2 ^ 63 - 1 :: i64) = 2 ^ 63 - 1"
    by simp_all
  ultimately show ?thesis by (auto simp: ahead_def sle_def fillInitValue_i64_def)
qed

lemma column_extreme_ok:
  assumes "fp_order_ok num F C" "type = MIN_t \<or> type = MAX_t"
    and "map_of table name = Some c" "map_of dtypes name = Some t" "filled c"
    and "column_values F t c = Some vs" "\<forall>v \<in> set vs. num v"
  shows "\<exists>r. column_extreme F C type table dtypes name = Inr r \<and>
    best (ahead type (fp_le C)) (insert (fillInitValue_double C type) (set vs)) r"
proof -
  note o = fp_orderD [OF assms(1)]
  let ?i = "fillInitValue_double C type"
  have i: "num ?i" using o(4,5) by (simp add: fillInitValue_double_def)
  from assms(5) consider (i32) d where "c = INT32s d" | (i64) d where "c = INT64s d" | (fp) d where "c = FLOAT64s d"
    by (cases c) auto
  then show ?thesis
  proof cases
    case i32
    have "[] \<notin> set (map (map signed) d)" using assms(5) i32 by auto
    then show ?thesis using i32
      using assms(3-6) int_chunks_extreme [OF assms(1,2) _ limits_i32 [of d]]
      by (auto simp: column_extreme_def image_image image_UN split: if_splits)
  next
    case i64
    then show ?thesis
      using assms(3-6) int_chunks_extreme [OF assms(1,2) _ limits_i64, of d]
      by (auto simp: column_extreme_def split: if_splits)
  next
    case fp
    then have t: "t = DOUBLE" and vs: "vs = concat d" using assms(6) by (auto split: if_splits)
    have "\<forall>a \<in> set d. minOrMax type (fp_le C) a ?i \<in> insert ?i (set a) \<and>
        (\<forall>v \<in> set a. ahead type (fp_le C) (minOrMax type (fp_le C) a ?i) v)"
    proof
      fix a assume "a \<in> set d"
      then have "best (ahead type (fp_le C)) (insert ?i (set a)) (minOrMax type (fp_le C) a ?i)"
        using assms(7) vs i o(1) by (intro minOrMax_best [where D = "Collect num"]) (auto intro: o(2))
      then show "minOrMax type (fp_le C) a ?i \<in> insert ?i (set a) \<and>
        (\<forall>v \<in> set a. ahead type (fp_le C) (minOrMax type (fp_le C) a ?i) v)" by (auto simp: best_def)
    qed
    from chunk_fold_best [OF assms(1,2) i _ this, of "{}" ?i] o(1) [OF i i] assms(7) vs
    have "best (ahead type (fp_le C)) (insert ?i (set vs))
        (foldl (\<lambda>r a. fillChunkResult C type r (minOrMax type (fp_le C) a ?i)) ?i d)"
      by (auto simp: best_def ahead_def)
    then show ?thesis using fp t assms(3-5) by (simp add: column_extreme_def Let_def)
  qed
qed

section \<open>Extreme values of all parties\<close>

text \<open>
  What is relied on of the conversion to fixed point, for the doubles \<open>rng\<close> that lie in its range: it
  follows the order, changes the sign with the number, and leaves room for a difference.
\<close>

definition fx_convert_ok :: "('d \<Rightarrow> bool) \<Rightarrow> 'd fp_ops \<Rightarrow> 'd fp_cmp \<Rightarrow> ('d, 'rt) fx_lib \<Rightarrow> bool" where
  "fx_convert_ok rng F C X \<longleftrightarrow>
     (\<forall>x y. rng x \<longrightarrow> rng y \<longrightarrow> fp_le C x y \<longrightarrow> sint (fx_of_double X x) \<le> sint (fx_of_double X y)) \<and>
     (\<forall>x. rng x \<longrightarrow> fx_of_double X (fp_mul F (fp_of_i64 F (-1)) x) = - fx_of_double X x) \<and>
     (\<forall>x. rng x \<longrightarrow> \<bar>sint (fx_of_double X x)\<bar> < 2 ^ 62)"

text \<open>The column \<open>name\<close> of a party's table has the values \<open>vs\<close>, all in the range.\<close>

definition party_column ::
  "('d \<Rightarrow> bool) \<Rightarrow> 'd fp_ops \<Rightarrow> 'd arrow_table \<Rightarrow> ColumnDtype std_map \<Rightarrow> string \<Rightarrow> 'd list \<Rightarrow> bool" where
  "party_column rng F table dtypes name vs \<longleftrightarrow>
     (\<exists>c t. map_of table name = Some c \<and> map_of dtypes name = Some t \<and> filled c \<and> column_values F t c = Some vs) \<and>
     (\<forall>v \<in> set vs. rng v)"

text \<open>The values that compete: for a maximum the smallest positive double takes part.\<close>

definition candidates :: "'d fp_cmp \<Rightarrow> MPCStatisticsType \<Rightarrow> 'd list \<Rightarrow> 'd set" where
  "candidates C type vs = (if type = MAX_t then insert (fp_min C) (set vs) else set vs)"

lemma concat_ne: "c \<noteq> [] \<Longrightarrow> [] \<notin> set c \<Longrightarrow> concat c \<noteq> []"
  by (cases c) auto

lemma filled_values: "filled c \<Longrightarrow> column_values F t c = Some vs \<Longrightarrow> vs \<noteq> []"
  by (cases c) (auto dest!: concat_ne split: if_splits)

text \<open>One column: each party's number is the best of its candidates, and the best of these is announced.\<close>

lemma extreme_of_all:
  assumes lib: "aby3_ok L" "bin_ok B" "reveal_ok B V" and fx: "fx_convert_ok rng F C X"
    and ty: "type = MIN_t \<or> type = MAX_t"
    and x: "\<forall>p \<in> {0, 1, 2}. best (ahead type (fp_le C)) (A p) (x p) \<and> (\<forall>v \<in> A p. rng v)"
  shows "\<exists>z rt'. (if type = MIN_t then minValueOfAllParty L X B V else maxValueOfAllParty L X F B V) x rt =
      Inr (fx_to_double X z, rt') \<and> best (ahead type sle) (fx_of_double X ` (\<Union>p \<in> {0, 1, 2}. A p)) z"
proof -
  let ?g = "\<lambda>v. fx_of_double X v"
  have mono: "rng u \<Longrightarrow> rng v \<Longrightarrow> fp_le C u v \<Longrightarrow> sint (?g u) \<le> sint (?g v)"
    and neg: "rng u \<Longrightarrow> ?g (fp_mul F (fp_of_i64 F (-1)) u) = - ?g u" and small: "rng u \<Longrightarrow> \<bar>sint (?g u)\<bar> < 2 ^ 62" for u v
    using fx unfolding fx_convert_ok_def by blast+
  have xA: "x p \<in> A p" "rng (x p)" if "p \<in> {0, 1, 2}" for p using x that unfolding best_def by blast+
  have xv: "ahead type sle (?g (x p)) (?g v)" if "p \<in> {0, 1, 2}" "v \<in> A p" for p v
  proof -
    have "ahead type (fp_le C) (x p) v" "rng v" using x that unfolding best_def by blast+
    then show ?thesis using mono xA(2) [OF that(1)] by (auto simp: ahead_def sle_def split: if_splits)
  qed
  have tr: "ahead type sle a c" if "ahead type sle a b" "ahead type sle b c" for a b c
    using that by (auto simp: ahead_def sle_def split: if_splits)
  have s: "\<forall>p \<in> {0, 1, 2}. \<bar>sint (?g (x p))\<bar> < 2 ^ 62"
    and ng: "\<forall>p \<in> {0, 1, 2}. ?g (fp_mul F (fp_of_i64 F (-1)) (x p)) = - ?g (x p)"
    using small neg xA(2) by blast+
  obtain w rt' where w: "w \<in> {0, 1, 2}" "(if type = MIN_t then minValueOfAllParty L X B V else maxValueOfAllParty L X F B V) x rt =
      Inr (fx_to_double X (?g (x w)), rt')" "\<forall>p \<in> {0, 1, 2}. ahead type sle (?g (x w)) (?g (x p))"
  proof (cases "type = MIN_t")
    case True
    with min_of_all [OF lib s, of rt] that show ?thesis by (auto simp: ahead_def sle_def simp del: insert_iff)
  next
    case False
    then have "type = MAX_t" using ty by blast
    with max_of_all [OF lib s ng, of rt] that show ?thesis by (auto simp: ahead_def sle_def simp del: insert_iff)
  qed
  have "best (ahead type sle) (?g ` (\<Union>p \<in> {0, 1, 2}. A p)) (?g (x w))"
    unfolding best_def
  proof (intro conjI ballI)
    show "?g (x w) \<in> ?g ` (\<Union>p \<in> {0, 1, 2}. A p)" using w(1) xA(1) by blast
    fix y assume "y \<in> ?g ` (\<Union>p \<in> {0, 1, 2}. A p)"
    then obtain p v where "p \<in> {0, 1, 2}" "v \<in> A p" "y = ?g v" by blast
    then show "ahead type sle (?g (x w)) y" using tr w(3) xv by blast
  qed
  then show ?thesis using w(2) by blast
qed

lemma plain_extreme:
  assumes "fp_order_ok num F C" "type = MIN_t \<or> type = MAX_t" "party_column rng F table dtypes name vs"
    and "\<forall>v. rng v \<longrightarrow> num v \<and> fp_lt C v (fp_max C)"
  shows "\<exists>r. column_extreme F C type table dtypes name = Inr r \<and> best (ahead type (fp_le C)) (candidates C type vs) r"
proof -
  obtain c t where c: "map_of table name = Some c" "map_of dtypes name = Some t" "filled c"
    "column_values F t c = Some vs" and v: "\<forall>v \<in> set vs. num v \<and> fp_lt C v (fp_max C)"
    using assms(3,4) unfolding party_column_def by blast
  obtain r where r: "column_extreme F C type table dtypes name = Inr r"
    "best (ahead type (fp_le C)) (insert (fillInitValue_double C type) (set vs)) r"
    using column_extreme_ok [OF assms(1,2) c] v by blast
  obtain w where w: "w \<in> set vs" using filled_values [OF c(3,4)] by (cases vs) auto
  have "r \<noteq> fp_max C \<or> r \<in> set vs" if "type = MIN_t"
    using that r(2) w v fp_orderD(3,5) [OF assms(1)] by (auto simp: best_def ahead_def)
  then have "best (ahead type (fp_le C)) (candidates C type vs) r"
    using r(2) assms(2) by (auto simp: best_def candidates_def fillInitValue_double_def)
  then show ?thesis using r(1) by blast
qed

text \<open>All that is relied on: of the library, of comparison, and of the conversion, whose range holds no NaN and nothing beyond the largest double.\<close>

definition mm_env ::
  "'rt aby3_lib \<Rightarrow> ('b, 'rt) bin_lib \<Rightarrow> ('b, 'rt) reveal_lib \<Rightarrow> ('d \<Rightarrow> bool) \<Rightarrow> ('d \<Rightarrow> bool) \<Rightarrow>
   'd fp_ops \<Rightarrow> 'd fp_cmp \<Rightarrow> ('d, 'rt) fx_lib \<Rightarrow> bool" where
  "mm_env L B V num rng F C X \<longleftrightarrow> aby3_ok L \<and> bin_ok B \<and> reveal_ok B V \<and> fp_order_ok num F C \<and>
     fx_convert_ok rng F C X \<and> rng (fp_min C) \<and> (\<forall>v. rng v \<longrightarrow> num v \<and> fp_lt C v (fp_max C))"

text \<open>Each of the three parties has \<open>n\<close> columns, column \<open>i\<close> of party \<open>p\<close> with the values \<open>vals p i\<close>.\<close>

definition party_data ::
  "('d \<Rightarrow> bool) \<Rightarrow> 'd fp_ops \<Rightarrow> (nat \<Rightarrow> 'd arrow_table) \<Rightarrow> (nat \<Rightarrow> string list) \<Rightarrow> (nat \<Rightarrow> ColumnDtype std_map) \<Rightarrow>
   nat \<Rightarrow> (nat \<Rightarrow> nat \<Rightarrow> 'd list) \<Rightarrow> bool" where
  "party_data rng F dataset columns dtypes n vals \<longleftrightarrow>
     (\<forall>p \<in> {0, 1, 2}. length (columns p) = n \<and>
       (\<forall>i < n. party_column rng F (dataset p) (dtypes p) (columns p ! i) (vals p i)))"

lemma extreme_run:
  assumes "mm_env L B V num rng F C X" and ty: "type = MIN_t \<or> type = MAX_t"
    and pd: "party_data rng F dataset columns dtypes n vals"
  shows "\<exists>op rt'. mm_run L X F C B V (new_MPCMinOrMax type) dataset columns dtypes rt = Inr (op, rt') \<and>
    length (mm_getResult op) = n \<and>
    (\<forall>i < n. \<exists>z. best (ahead type sle) (fx_of_double X ` (\<Union>p \<in> {0, 1, 2}. candidates C type (vals p i))) z \<and>
      mm_getResult op ! i = fx_to_double X z)"
proof -
  have lib: "aby3_ok L" "bin_ok B" "reveal_ok B V"
    and fp: "fp_order_ok num F C" "fx_convert_ok rng F C X" "rng (fp_min C)" "\<forall>v. rng v \<longrightarrow> num v \<and> fp_lt C v (fp_max C)"
    using assms(1) unfolding mm_env_def by blast+
  note data = pd [unfolded party_data_def]
  let ?ext = "\<lambda>p. column_extreme F C type (dataset p) (dtypes p)"
  have e: "\<exists>r. ?ext p (columns p ! i) = Inr r \<and> best (ahead type (fp_le C)) (candidates C type (vals p i)) r"
    if "p \<in> {0, 1, 2}" "i < n" for p i
  proof -
    have "party_column rng F (dataset p) (dtypes p) (columns p ! i) (vals p i)" using data that by blast
    from plain_extreme [OF fp(1) ty this fp(4)] show ?thesis .
  qed
  have pl: "\<exists>rs. each (?ext p) (columns p) = Inr rs" if "p \<in> {0, 1, 2}" for p
  proof (rule each_total)
    fix x assume "x \<in> set (columns p)"
    then obtain i where "i < length (columns p)" "x = columns p ! i" by (auto simp: in_set_conv_nth)
    moreover have "length (columns p) = n" using data that by blast
    ultimately show "\<exists>y. ?ext p x = Inr y" using e [OF that] by blast
  qed
  obtain r0 r1 r2 where r: "each (?ext 0) (columns 0) = Inr r0" "each (?ext 1) (columns 1) = Inr r1"
    "each (?ext 2) (columns 2) = Inr r2" using pl [of 0] pl [of 1] pl [of 2] by auto
  define cols where "cols p = (if p = (0::nat) then r0 else if p = 1 then r1 else r2)" for p
  have cols: "each (?ext p) (columns p) = Inr (cols p)" if "p \<in> {0, 1, 2}" for p
    using r that by (auto simp: cols_def)
  have lc: "length (columns p) = n" if "p \<in> {0, 1, 2}" for p using data that by blast
  have len: "\<forall>p \<in> {0, 1, 2}. length (cols p) = n" using each_length [OF cols] lc by metis
  have b: "best (ahead type (fp_le C)) (candidates C type (vals p i)) (cols p ! i)" if "p \<in> {0, 1, 2}" "i < n" for p i
  proof -
    have "?ext p (columns p ! i) = Inr (cols p ! i)" using each_nth [OF cols [OF that(1)]] lc [OF that(1)] that(2) by blast
    then show ?thesis using e [OF that] by simp
  qed
  have rng: "rng v" if "v \<in> candidates C type (vals p i)" "p \<in> {0, 1, 2}" "i < n" for v p i
  proof -
    have "\<forall>v \<in> set (vals p i). rng v" using data that(2,3) unfolding party_column_def by blast
    then show ?thesis using that(1) fp(3) by (auto simp: candidates_def split: if_splits)
  qed
  let ?f = "if type = MIN_t then minValueOfAllParty L X B V else maxValueOfAllParty L X F B V"
  let ?P = "\<lambda>i r. \<exists>z. best (ahead type sle) (fx_of_double X ` (\<Union>p \<in> {0, 1, 2}. candidates C type (vals p i))) z \<and> r = fx_to_double X z"
  have step: "\<exists>r rt'. ?f x rt = Inr (r, rt') \<and> ?P i r" if i: "i < n" and x: "\<forall>p \<in> {0, 1, 2}. x p = cols p ! i" for i x rt
  proof -
    have "\<forall>p \<in> {0, 1, 2}. best (ahead type (fp_le C)) (candidates C type (vals p i)) (x p) \<and>
        (\<forall>v \<in> candidates C type (vals p i). rng v)"
    proof (intro ballI conjI)
      fix p :: nat assume p: "p \<in> {0, 1, 2}"
      show "best (ahead type (fp_le C)) (candidates C type (vals p i)) (x p)" using b [OF p i] x p by (simp only:)
      show "rng v" if "v \<in> candidates C type (vals p i)" for v using rng [OF that p i] .
    qed
    from extreme_of_all [OF lib fp(2) ty this, of rt] show ?thesis by blast
  qed
  obtain rs rt' where rs: "for_columns ?f n cols rt = Inr (rs, rt')" "length rs = n" "\<forall>i < n. ?P i (rs ! i)"
    using for_columns_ok [of cols n ?f ?P rt, OF len step] by blast
  have "par3 (\<lambda>p. mm_PlainTextDataCompute F C type (dataset p) (columns p) (dtypes p)) = Inr cols"
    using r by (simp add: par3_def mm_PlainTextDataCompute_def cols_def fun_eq_iff)
  moreover have "length (cols 0) = n" using len by blast
  ultimately show ?thesis using rs
    by (simp add: mm_run_def mm_CipherTextDataCompute_def new_MPCMinOrMax_def mm_getResult_def)
qed

section \<open>Real numbers as an instance\<close>

text \<open>Exact arithmetic on real numbers, with the limits of \<^verbatim>\<open>double\<close>, and conversion to 16 binary places by cutting off.\<close>

definition fp_real :: "real fp_ops" where
  "fp_real = \<lparr>fp_add = (+), fp_sub = (-), fp_mul = (*), fp_div = (/), fp_of_i64 = (\<lambda>a. real_of_int (sint a)),
     fp_stod = (\<lambda>s. Inl (Raised ''stod''))\<rparr>"

definition cmp_real :: "real fp_cmp" where
  "cmp_real = \<lparr>fp_le = (\<le>), fp_lt = (<), fp_min = 1 / 2 ^ 1022, fp_max = 2 ^ 1024 - 2 ^ 971,
     fp_bits = (\<lambda>x. 0), fp_of_bits = (\<lambda>b. 0)\<rparr>"

definition trunc16 :: "real \<Rightarrow> int" where
  "trunc16 x = (if 0 \<le> x then \<lfloor>x * 2 ^ 16\<rfloor> else - \<lfloor>- x * 2 ^ 16\<rfloor>)"

definition fx_real :: "(real, unit) fx_lib" where
  "fx_real = \<lparr>fx_of_double = (\<lambda>x. word_of_int (trunc16 x)), fx_to_double = (\<lambda>z. real_of_int (sint z) / 2 ^ 16),
     fx_dot_mul = (\<lambda>A B rt. Inl (Raised ''product'')), fx_const_mul = (\<lambda>k A rt. Inl (Raised ''product'')),
     fx_piecewise = (\<lambda>ps A rt. Inl (Raised ''pieces''))\<rparr>"

definition reveal_ref :: "(i64 list, unit) reveal_lib" where
  "reveal_ref = \<lparr>lib_revealAll_bin = (\<lambda>b rt. Inr (b, ())), lib_revealAll = (\<lambda>S rt. Inr (open_shares S, ()))\<rparr>"

definition rng_real :: "real \<Rightarrow> bool" where
  "rng_real x \<longleftrightarrow> \<bar>x\<bar> < 2 ^ 40"

lemma trunc16_close: "\<bar>real_of_int (trunc16 x) - x * 2 ^ 16\<bar> < 1"
  unfolding trunc16_def by (simp; linarith)

lemma trunc16_small: "rng_real x \<Longrightarrow> \<bar>trunc16 x\<bar> < 2 ^ 57"
proof -
  assume "rng_real x"
  then have "\<bar>x * 2 ^ 16\<bar> < 2 ^ 56" by (simp add: rng_real_def abs_mult)
  then have "\<bar>real_of_int (trunc16 x)\<bar> < real_of_int (2 ^ 57)" using trunc16_close [of x] by simp
  then show ?thesis by (simp only: of_int_abs [symmetric] of_int_less_iff)
qed

lemma sint_fx_real: "rng_real x \<Longrightarrow> sint (fx_of_double fx_real x) = trunc16 x"
  using trunc16_small [of x] sint_small [of "trunc16 x"] by (simp add: fx_real_def abs_less_iff)

lemma trunc16_mono: "x \<le> y \<Longrightarrow> trunc16 x \<le> trunc16 y"
proof -
  assume xy: "x \<le> y"
  consider "0 \<le> x" | "x < 0" "0 \<le> y" | "x < 0" "y < 0" using xy by linarith
  then show ?thesis
  proof cases
    case 2
    then have "0 \<le> \<lfloor>- x * 2 ^ 16\<rfloor>" "0 \<le> \<lfloor>y * 2 ^ 16\<rfloor>" by simp_all
    then have "- \<lfloor>- x * 2 ^ 16\<rfloor> \<le> \<lfloor>y * 2 ^ 16\<rfloor>" by linarith
    then show ?thesis using 2 by (simp add: trunc16_def)
  qed (use xy in \<open>auto simp: trunc16_def intro!: floor_mono\<close>)
qed

lemma mm_env_real: "mm_env lib_ref bin_ref reveal_ref (\<lambda>x. True) rng_real fp_real cmp_real fx_real"
proof -
  have "fx_of_double fx_real (- x) = - fx_of_double fx_real x" for x
    by (cases "x = 0") (simp_all add: fx_real_def trunc16_def)
  moreover have small: "\<bar>trunc16 x\<bar> < 2 ^ 62" if "rng_real x" for x using trunc16_small [OF that] by simp
  ultimately have "fx_convert_ok rng_real fp_real cmp_real fx_real"
    using sint_fx_real trunc16_mono small
    by (auto simp: fx_convert_ok_def fp_real_def cmp_real_def sint_fx_real)
  moreover have "reveal_ok bin_ref reveal_ref" by (simp add: reveal_ok_def reveal_ref_def bin_ref_def sharing_open)
  moreover have "fp_order_ok (\<lambda>x. True) fp_real cmp_real"
    by (auto simp: fp_order_ok_def fp_real_def cmp_real_def simp del: of_int_sint)
  moreover have "rng_real (fp_min cmp_real)" by (simp add: rng_real_def cmp_real_def)
  moreover have "fp_lt cmp_real v (fp_max cmp_real)" if "rng_real v" for v
  proof -
    have "(2 :: real) ^ 40 < 2 ^ 1024 - 2 ^ 971" by simp
    then show ?thesis using that by (simp add: rng_real_def cmp_real_def abs_less_iff)
  qed
  ultimately show ?thesis using aby3_ok_ref bin_ok_ref by (simp add: mm_env_def)
qed

text \<open>Three small tables, of 64-bit and 32-bit integers and of doubles.\<close>

definition example_tables :: "nat \<Rightarrow> real arrow_table" where
  "example_tables p = [(''a'', if p = 0 then INT64s [[3, -5], [2]] else if p = 1 then INT32s [[4]] else FLOAT64s [[-1/2]])]"

definition example_values :: "nat \<Rightarrow> nat \<Rightarrow> real list" where
  "example_values p i = (if p = 0 then [3, -5, 2] else if p = 1 then [4] else [-1/2])"

definition example_types :: "nat \<Rightarrow> ColumnDtype std_map" where
  "example_types p = [(''a'', if p = 0 then LONG else if p = 1 then INTEGER else DOUBLE)]"

lemma example_party_data:
  "party_data rng_real fp_real example_tables (\<lambda>p. [''a'']) example_types 1 example_values"
  by (simp add: party_data_def party_column_def example_tables_def example_types_def example_values_def
      rng_real_def fp_real_def)

text \<open>The start value does not matter when some value is at least as large.\<close>

lemma best_of_values:
  assumes env: "mm_env L B V num rng F C X" and ty: "type = MIN_t \<or> type = MAX_t" and A: "\<forall>p \<in> {0, 1, 2 :: nat}. \<forall>v \<in> set (vs p). rng v"
    and pos: "type = MAX_t \<longrightarrow> (\<exists>p \<in> {0, 1, 2}. \<exists>v \<in> set (vs p). fp_le C (fp_min C) v)"
    and z: "best (ahead type sle) (fx_of_double X ` (\<Union>p \<in> {0, 1, 2}. candidates C type (vs p))) z"
  shows "best (ahead type sle) (fx_of_double X ` (\<Union>p \<in> {0, 1, 2}. set (vs p))) z"
proof (cases "type = MAX_t")
  case True
  obtain p v where v: "p \<in> {0, 1, 2}" "v \<in> set (vs p)" "fp_le C (fp_min C) v" using pos True by blast
  have "sle (fx_of_double X (fp_min C)) (fx_of_double X v)"
    using env A v unfolding mm_env_def fx_convert_ok_def sle_def by blast
  moreover have "sle (fx_of_double X v) z" using z v(1,2) True by (force simp: best_def ahead_def candidates_def)
  ultimately have "z = fx_of_double X v" if "z = fx_of_double X (fp_min C)"
    using that by (simp add: sle_def) (metis order_antisym signed_word_eqI)
  then show ?thesis using z v(1,2) True by (auto simp: best_def candidates_def)
next
  case False
  then show ?thesis using z by (simp add: candidates_def)
qed

section \<open>Properties\<close>

text \<open>
  C38. A maximum of negative numbers is lost: if every value of every column at every party is below
  the smallest positive normal double, from which the search for the maximum starts, all parties get
  the fixed-point form of that start value, whatever the values are.
\<close>

theorem negative_maximum_lost:
  assumes "mm_env L B V num rng F C X" "party_data rng F dataset columns dtypes n vals"
    and "\<forall>p \<in> {0, 1, 2}. \<forall>i < n. \<forall>v \<in> set (vals p i). fp_lt C v (fp_min C)"
  shows "\<exists>op rt'. mm_run L X F C B V (new_MPCMinOrMax MAX_t) dataset columns dtypes rt = Inr (op, rt') \<and>
    mm_getResult op = replicate n (fx_to_double X (fx_of_double X (fp_min C)))"
proof -
  let ?A = "\<lambda>i. fx_of_double X ` (\<Union>p \<in> {0, 1, 2}. candidates C MAX_t (vals p i))"
  obtain op rt' where r: "mm_run L X F C B V (new_MPCMinOrMax MAX_t) dataset columns dtypes rt = Inr (op, rt')"
    "length (mm_getResult op) = n"
    and z: "\<forall>i < n. \<exists>z. best (ahead MAX_t sle) (?A i) z \<and> mm_getResult op ! i = fx_to_double X z"
    using extreme_run [OF assms(1) _ assms(2), of MAX_t rt] by auto
  have o: "fp_order_ok num F C" "fx_convert_ok rng F C X" "rng (fp_min C)" "\<And>v. rng v \<Longrightarrow> num v"
    using assms(1) unfolding mm_env_def by blast+
  have below: "sle (fx_of_double X v) (fx_of_double X (fp_min C))"
    if "p \<in> {0, 1, 2}" "i < n" "v \<in> candidates C MAX_t (vals p i)" for p i v
  proof (cases "v = fp_min C")
    case False
    then have v: "v \<in> set (vals p i)" using that(3) by (simp add: candidates_def)
    then have "rng v" using assms(2) that(1,2) unfolding party_data_def party_column_def by blast
    moreover have "fp_lt C v (fp_min C)" using assms(3) v that(1,2) by blast
    ultimately have "fp_le C v (fp_min C)" "rng v" using fp_orderD(1,3) [OF o(1), of v "fp_min C"] o(3,4) by blast+
    then show ?thesis using o(2,3) by (simp add: fx_convert_ok_def sle_def)
  qed (simp add: sle_def)
  have "mm_getResult op ! i = fx_to_double X (fx_of_double X (fp_min C))" if i: "i < n" for i
  proof -
    obtain z where zi: "best (ahead MAX_t sle) (?A i) z" "mm_getResult op ! i = fx_to_double X z" using z i by blast
    then obtain p v where v: "p \<in> {0, 1, 2}" "v \<in> candidates C MAX_t (vals p i)" "z = fx_of_double X v"
      unfolding best_def by blast
    have "fp_min C \<in> candidates C MAX_t (vals p i)" by (simp add: candidates_def)
    then have "sle (fx_of_double X (fp_min C)) z" using zi(1) v(1) by (auto simp: best_def ahead_def)
    then have "sint z = sint (fx_of_double X (fp_min C))" using below [OF v(1) i v(2)] v(3) by (simp add: sle_def)
    then show ?thesis using zi(2) by (metis signed_word_eqI)
  qed
  then have "mm_getResult op = replicate n (fx_to_double X (fx_of_double X (fp_min C)))"
    using r(2) by (simp add: list_eq_iff_nth_eq)
  then show ?thesis using r(1) by blast
qed

theorem negative_maximum_lost_witness:
  "\<exists>op rt'. mm_run lib_ref fx_real fp_real cmp_real bin_ref reveal_ref (new_MPCMinOrMax MAX_t)
      (\<lambda>p. [(''a'', FLOAT64s [[-7], [- real p - 1]])]) (\<lambda>p. [''a'']) (\<lambda>p. [(''a'', DOUBLE)]) () = Inr (op, rt') \<and>
    mm_getResult op = [0]"
proof -
  have "party_data rng_real fp_real (\<lambda>p. [(''a'', FLOAT64s [[-7], [- real p - 1]])]) (\<lambda>p. [''a'']) (\<lambda>p. [(''a'', DOUBLE)]) 1
      (\<lambda>p i. [-7, - real p - 1])"
    by (simp add: party_data_def party_column_def rng_real_def)
  moreover have "fx_to_double fx_real (fx_of_double fx_real (fp_min cmp_real)) = 0"
    by (simp add: fx_real_def trunc16_def cmp_real_def floor_eq_iff)
  ultimately show ?thesis
    using negative_maximum_lost [OF mm_env_real, of _ "\<lambda>p. [''a'']" "\<lambda>p. [(''a'', DOUBLE)]" 1 "\<lambda>p i. [-7, - real p - 1]" "()"]
    by (simp add: cmp_real_def)
qed

text \<open>
  C11. Sum and average: when the parties have as many columns, the run ends and all parties get, for
  every column, the double of the sum of the fixed-point forms of the three local sums, and for an
  average its quotient by the same of the three numbers of values.
\<close>

theorem secure_sum:
  assumes "aby3_ok L"
    and "\<forall>p \<in> {0, 1, 2}. length (columns p) = n \<and>
      sum_PlainTextDataCompute F C (dataset p) (columns p) (dtypes p) = Inr (totals p, counts p)"
  shows "\<exists>ops rt'. sum_run L X F C d (new_MPCSumOrAvg type) dataset columns dtypes rt = Inr (ops, rt') \<and>
    (\<forall>p. sum_getResult (ops p) = map (\<lambda>i. let total = fx_to_double X (fixed_sum X totals i) in
       if type = AVG_t then fp_div F total (fx_to_double X (fixed_sum X counts i)) else total) [0..<n])"
  by (rule sum_run_ok [OF assms])

theorem secure_sum_witness:
  "\<exists>ops rt'. sum_run lib_ref fx_real fp_real cmp_real (\<lambda>A B rt. Inl (Raised ''division'')) (new_MPCSumOrAvg AVG_t)
      (\<lambda>p. [(''a'', INT8s [[of_nat p + 1], [4, -2]])]) (\<lambda>p. [''a'']) (\<lambda>p. [(''a'', INTEGER)]) () = Inr (ops, rt') \<and>
    sum_getResult (ops 1) = [4 / 3]"
proof -
  let ?ds = "\<lambda>p. [(''a'', INT8s [[of_nat p + 1], [4, -2]])] :: real arrow_table"
  have "\<forall>p \<in> {0, 1, 2}. length [''a''] = 1 \<and>
      sum_PlainTextDataCompute fp_real cmp_real (?ds p) [''a''] [(''a'', INTEGER)] = Inr ([real p + 3], [3])"
    by (simp add: sum_PlainTextDataCompute_def column_sum_def sum_and_count_def fp_real_def)
  from secure_sum [OF aby3_ok_ref this, of fx_real "\<lambda>A B rt. Inl (Raised ''division'')" AVG_t "()"]
  obtain ops rt' where r: "sum_run lib_ref fx_real fp_real cmp_real (\<lambda>A B rt. Inl (Raised ''division'')) (new_MPCSumOrAvg AVG_t)
      ?ds (\<lambda>p. [''a'']) (\<lambda>p. [(''a'', INTEGER)]) () = Inr (ops, rt')"
    "sum_getResult (ops 1) = [fp_div fp_real (fx_to_double fx_real (fixed_sum fx_real (\<lambda>p. [real p + 3]) 0))
       (fx_to_double fx_real (fixed_sum fx_real (\<lambda>p. [3]) 0))]" by (auto simp: Let_def)
  moreover have "fixed_sum fx_real (\<lambda>p. [real p + 3]) 0 = 786432" "fixed_sum fx_real (\<lambda>p. [3]) 0 = 589824"
    by (simp_all add: fixed_sum_def fx_real_def trunc16_def)
  ultimately have "sum_getResult (ops 1) = [4 / 3]" by (simp add: fp_real_def fx_real_def)
  with r(1) show ?thesis by blast
qed

text \<open>What doubles stand for, and how well fixed point keeps it.\<close>

definition fx_accurate :: "('d \<Rightarrow> real) \<Rightarrow> ('d, 'rt) fx_lib \<Rightarrow> bool" where
  "fx_accurate val X \<longleftrightarrow>
     (\<forall>x. \<bar>val x\<bar> < 2 ^ 40 \<longrightarrow> \<bar>real_of_int (sint (fx_of_double X x)) - val x * 2 ^ 16\<bar> < 1) \<and>
     (\<forall>z. \<bar>sint z\<bar> < 2 ^ 53 \<longrightarrow> val (fx_to_double X z) = real_of_int (sint z) / 2 ^ 16)"

lemma fixed_sum_accuracy:
  assumes "fx_accurate val X" "\<forall>p \<in> {0, 1, 2}. \<bar>val (totals p ! i)\<bar> < 2 ^ 35"
  shows "\<bar>val (fx_to_double X (fixed_sum X totals i)) - (val (totals 0 ! i) + val (totals 1 ! i) + val (totals 2 ! i))\<bar> < 3 / 2 ^ 16"
proof -
  let ?z = "\<lambda>p. sint (fx_of_double X (totals p ! i))" and ?v = "\<lambda>p. val (totals p ! i)"
  have c: "\<bar>real_of_int (?z p) - ?v p * 2 ^ 16\<bar> < 1" "\<bar>?z p\<bar> \<le> 2 ^ 51" if p: "p \<in> {0, 1, 2}" for p
  proof -
    have v: "\<bar>?v p\<bar> < 2 ^ 35" using assms(2) p by blast
    then show a: "\<bar>real_of_int (?z p) - ?v p * 2 ^ 16\<bar> < 1" using assms(1) unfolding fx_accurate_def by auto
    have "\<bar>real_of_int (?z p)\<bar> < 2 ^ 51 + 1" using a v by (simp add: abs_if split: if_splits)
    then have "real_of_int \<bar>?z p\<bar> < real_of_int (2 ^ 51 + 1)" by simp
    then show "\<bar>?z p\<bar> \<le> 2 ^ 51" by (simp only: of_int_less_iff)
  qed
  note c0 = c [of 0] and c1 = c [of 1] and c2 = c [of 2]
  let ?s = "?z 0 + ?z 1 + ?z 2"
  have s: "\<bar>?s\<bar> < 2 ^ 53" using c0(2) c1(2) c2(2) by simp
  have "fixed_sum X totals i = word_of_int ?s" by (simp add: fixed_sum_def)
  then have "sint (fixed_sum X totals i) = ?s" using s sint_small [of ?s] by (simp add: abs_less_iff)
  then have "val (fx_to_double X (fixed_sum X totals i)) = real_of_int ?s / 2 ^ 16"
    using assms(1) s unfolding fx_accurate_def by metis
  moreover have "\<bar>real_of_int ?s - (?v 0 + ?v 1 + ?v 2) * 2 ^ 16\<bar> < 3"
    using c0(1) c1(1) c2(1) by (simp add: abs_less_iff algebra_simps)
  moreover have "\<bar>a / 2 ^ 16 - b\<bar> < 3 / 2 ^ 16" if "\<bar>a - b * 2 ^ 16\<bar> < 3" for a b :: real
  proof -
    have "a / 2 ^ 16 - b = (a - b * 2 ^ 16) / 2 ^ 16" by (simp add: field_simps)
    then show ?thesis using that by (simp add: abs_divide divide_strict_right_mono del: power_numeral)
  qed
  ultimately show ?thesis by (simp only:)
qed

text \<open>
  C13. Accuracy of a secure sum: with the numbers that doubles stand for, a conversion to fixed point
  that is off by less than one unit, and local sums below \<open>2 ^ 35\<close>, the revealed sum of every column
  differs from the sum of the three local sums by less than three units, \<open>3 / 2 ^ 16\<close>.
\<close>

theorem secure_sum_accuracy:
  assumes "aby3_ok L" "fx_accurate val X"
    and "\<forall>p \<in> {0, 1, 2}. length (columns p) = n \<and>
      sum_PlainTextDataCompute F C (dataset p) (columns p) (dtypes p) = Inr (totals p, counts p)"
    and "\<forall>p \<in> {0, 1, 2}. \<forall>i < n. \<bar>val (totals p ! i)\<bar> < 2 ^ 35"
  shows "\<exists>ops rt'. sum_run L X F C d (new_MPCSumOrAvg SUM_t) dataset columns dtypes rt = Inr (ops, rt') \<and>
    (\<forall>p. length (sum_getResult (ops p)) = n \<and> (\<forall>i < n.
      \<bar>val (sum_getResult (ops p) ! i) - (val (totals 0 ! i) + val (totals 1 ! i) + val (totals 2 ! i))\<bar> < 3 / 2 ^ 16))"
proof -
  obtain ops rt' where r: "sum_run L X F C d (new_MPCSumOrAvg SUM_t) dataset columns dtypes rt = Inr (ops, rt')"
    "\<forall>p. sum_getResult (ops p) = map (\<lambda>i. fx_to_double X (fixed_sum X totals i)) [0..<n]"
    using sum_run_ok [OF assms(1,3), of X d SUM_t rt] by (auto simp: Let_def)
  have a: "\<bar>val (fx_to_double X (fixed_sum X totals i)) - (val (totals 0 ! i) + val (totals 1 ! i) + val (totals 2 ! i))\<bar> < 3 / 2 ^ 16"
    if "i < n" for i
    using fixed_sum_accuracy [OF assms(2), of totals i] assms(4) that by blast
  have "\<forall>p. length (sum_getResult (ops p)) = n \<and> (\<forall>i < n.
      \<bar>val (sum_getResult (ops p) ! i) - (val (totals 0 ! i) + val (totals 1 ! i) + val (totals 2 ! i))\<bar> < 3 / 2 ^ 16)"
    using r(2) a by simp
  with r(1) show ?thesis by blast
qed

lemma fx_accurate_real: "fx_accurate (\<lambda>x. x) fx_real"
  unfolding fx_accurate_def
proof (intro conjI allI impI)
  fix x :: real assume "\<bar>x\<bar> < 2 ^ 40"
  then have "sint (fx_of_double fx_real x) = trunc16 x" by (simp add: sint_fx_real rng_real_def)
  then show "\<bar>real_of_int (sint (fx_of_double fx_real x)) - x * 2 ^ 16\<bar> < 1" using trunc16_close [of x] by (simp only:)
qed (simp add: fx_real_def)

theorem secure_sum_accuracy_witness:
  "\<exists>ops rt'. sum_run lib_ref fx_real fp_real cmp_real (\<lambda>A B rt. Inl (Raised ''division'')) (new_MPCSumOrAvg SUM_t)
      (\<lambda>p. [(''a'', FLOAT64s [[1 / 3], [real p]])]) (\<lambda>p. [''a'']) (\<lambda>p. [(''a'', DOUBLE)]) () = Inr (ops, rt') \<and>
    \<bar>sum_getResult (ops 2) ! 0 - 4\<bar> < 3 / 2 ^ 16"
proof -
  let ?ds = "\<lambda>p. [(''a'', FLOAT64s [[1 / 3], [real p]])]"
  have "\<forall>p \<in> {0, 1, 2}. length [''a''] = 1 \<and>
      sum_PlainTextDataCompute fp_real cmp_real (?ds p) [''a''] [(''a'', DOUBLE)] = Inr ([1 / 3 + real p], [2])"
    by (simp add: sum_PlainTextDataCompute_def column_sum_def sum_and_count_def fp_real_def)
  moreover have "\<forall>p \<in> {0, 1, 2}. \<forall>i < 1. \<bar>[1 / 3 + real p] ! i\<bar> < 2 ^ 35" by simp
  ultimately show ?thesis
    using secure_sum_accuracy [OF aby3_ok_ref fx_accurate_real, of "\<lambda>p. [''a'']" 1 fp_real cmp_real ?ds "\<lambda>p. [(''a'', DOUBLE)]"
        "\<lambda>p. [1 / 3 + real p]" "\<lambda>p. [2]" "\<lambda>A B rt. Inl (Raised ''division'')" "()"] by force
qed

end
