(* ===== verification/Json_Doc.thy ===== *)
theory Json_Doc
  imports Digits
begin

text \<open>
  JSON documents as the sources see them. The libraries that parse and print texts are parameters; a
  parser is a function from texts to documents. Two libraries are used: \<^verbatim>\<open>rapidjson\<close>, whose accessors stop the
  program (\<open>Undefined\<close>) when a document has another shape than they need, and \<^verbatim>\<open>nlohmann::json\<close>, whose accessors
  throw. The members of an object are listed in the order of their names.
\<close>

section \<open>Documents and the accessors that check nothing\<close>

datatype json = JNull | JBool bool | JInt int | JNumber string | JStr string | JArr "json list" | JObj "(string \<times> json) list"

definition HasMember :: "json \<Rightarrow> string \<Rightarrow> bool res" where
  "HasMember j name = (case j of JObj ms \<Rightarrow> Inr (map_of ms name \<noteq> None) | _ \<Rightarrow> Inl (Undefined ''not an object''))"

definition json_get :: "json \<Rightarrow> string \<Rightarrow> json res" where
  "json_get j name =
     (case j of
        JObj ms \<Rightarrow> (case map_of ms name of Some v \<Rightarrow> Inr v | None \<Rightarrow> Inl (Undefined ''no such member''))
      | _ \<Rightarrow> Inl (Undefined ''not an object''))"

text \<open>\<^verbatim>\<open>GetString\<close> and \<^verbatim>\<open>GetInt\<close> without a check; an \<^verbatim>\<open>int\<close> has 32 bits.\<close>

definition GetString :: "json \<Rightarrow> string res" where
  "GetString j = (case j of JStr s \<Rightarrow> Inr s | _ \<Rightarrow> Inl (Undefined ''not a string''))"

definition GetInt :: "json \<Rightarrow> int res" where
  "GetInt j = (case j of JInt n \<Rightarrow> if - (2 ^ 31) \<le> n \<and> n < 2 ^ 31 then Inr n else Inl (Undefined ''not an int'')
     | _ \<Rightarrow> Inl (Undefined ''not an int''))"

definition require :: "bool res \<Rightarrow> string \<Rightarrow> unit res" where
  "require r msg = bindR r (\<lambda>b. if b then Inr () else Inl (Raised msg))"

text \<open>A test of the kind of a value that throws when it fails, and the value.\<close>

definition array_or :: "string \<Rightarrow> json \<Rightarrow> json list res" where
  "array_or msg j = (case j of JArr xs \<Rightarrow> Inr xs | _ \<Rightarrow> Inl (Raised msg))"

definition object_or :: "string \<Rightarrow> json \<Rightarrow> (string \<times> json) list res" where
  "object_or msg j = (case j of JObj ms \<Rightarrow> Inr ms | _ \<Rightarrow> Inl (Raised msg))"

definition string_or :: "string \<Rightarrow> json \<Rightarrow> string res" where
  "string_or msg j = (case j of JStr s \<Rightarrow> Inr s | _ \<Rightarrow> Inl (Raised msg))"

definition found_or :: "string \<Rightarrow> 'a option \<Rightarrow> 'a res" where
  "found_or msg r = (case r of Some x \<Rightarrow> Inr x | None \<Rightarrow> Inl (Raised msg))"

section \<open>The accessors that throw\<close>

text \<open>
  \<^verbatim>\<open>operator[]\<close> makes a missing member null and turns a null into an object; the conversion \<^verbatim>\<open>get\<close> throws for
  a value of another type. To an integer it converts every number and a truth value; \<open>trunc\<close> is
  what the cast makes of a floating-point number.
\<close>

definition nl_at :: "json \<Rightarrow> string \<Rightarrow> json res" where
  "nl_at j name =
     (case j of
        JObj ms \<Rightarrow> Inr (case map_of ms name of Some v \<Rightarrow> v | None \<Rightarrow> JNull)
      | JNull \<Rightarrow> Inr JNull
      | _ \<Rightarrow> Inl (Raised ''type_error''))"

definition nl_string :: "json \<Rightarrow> string res" where
  "nl_string j = (case j of JStr s \<Rightarrow> Inr s | _ \<Rightarrow> Inl (Raised ''type_error''))"

definition nl_bool :: "json \<Rightarrow> bool res" where
  "nl_bool j = (case j of JBool b \<Rightarrow> Inr b | _ \<Rightarrow> Inl (Raised ''type_error''))"

definition nl_int :: "(string \<Rightarrow> int) \<Rightarrow> json \<Rightarrow> int res" where
  "nl_int trunc j =
     (case j of
        JInt n \<Rightarrow> Inr n
      | JNumber s \<Rightarrow> Inr (trunc s)
      | JBool b \<Rightarrow> Inr (if b then 1 else 0)
      | _ \<Rightarrow> Inl (Raised ''type_error''))"

definition nl_parse :: "(string \<Rightarrow> json option) \<Rightarrow> string \<Rightarrow> json res" where
  "nl_parse parse s = (case parse s of Some j \<Rightarrow> Inr j | None \<Rightarrow> Inl (Raised ''parse_error''))"

definition nl_contains :: "json \<Rightarrow> string \<Rightarrow> bool" where
  "nl_contains j name = (case j of JObj ms \<Rightarrow> map_of ms name \<noteq> None | _ \<Rightarrow> False)"

text \<open>\<^verbatim>\<open>items()\<close>: the members of an object, the elements of an array with their indexes, any other value alone.\<close>

definition nl_items :: "json \<Rightarrow> (string \<times> json) list" where
  "nl_items j =
     (case j of
        JObj ms \<Rightarrow> ms
      | JArr xs \<Rightarrow> zip (map to_string_nat [0..<length xs]) xs
      | JNull \<Rightarrow> []
      | v \<Rightarrow> [([], v)])"

lemmas nl_defs = nl_at_def nl_string_def nl_bool_def nl_int_def nl_parse_def nl_contains_def

end
