(* ===== verification/Statistics_Task.thy ===== *)
theory Statistics_Task
  imports Statistics_Run Json_Doc Arithmetic "HOL-Library.List_Lexorder" "HOL-Library.Char_ord"
begin

text \<open>
  \<^verbatim>\<open>MPCStatisticsExecutor\<close> of \<^verbatim>\<open>algorithm/mpc_statistics.cc\<close>, the task that computes statistics over the columns
  of three parties, and the parts of \<^verbatim>\<open>task/semantic/mpc_task.cc\<close> that run an algorithm. The parameters come
  as two JSON texts.
\<close>

section \<open>State\<close>

record 'd MPCStatisticsExecutor =
  st_party_name :: string
  st_party_id :: nat
  do_nothing :: bool
  st_result :: "'d list"
  target_columns :: "string list"
  input_value :: "'d arrow_table option"
  new_ds_id :: string
  output_path :: string
  ds_name :: string
  st_dataset_id :: string
  st_dataset_detail :: bool
  col_type :: "ColumnDtype std_map"
  st_type :: MPCStatisticsType
  st_executor :: "MPCStatisticsType option"

definition new_MPCStatisticsExecutor :: "PartyConfig \<Rightarrow> 'd MPCStatisticsExecutor" where
  "new_MPCStatisticsExecutor config = \<lparr>st_party_name = pc_node_id config, st_party_id = pc_party_id config,
     do_nothing = False, st_result = [], target_columns = [], input_value = None, new_ds_id = [], output_path = [],
     ds_name = [], st_dataset_id = [], st_dataset_detail = False, col_type = [], st_type = UNKNOWN_t, st_executor = None\<rparr>"

section \<open>Reading the parameters\<close>

text \<open>The loop over \<^verbatim>\<open>features\<close>, up to the item of this party's dataset.\<close>

fun find_feature :: "string \<Rightarrow> json list \<Rightarrow> json option res" where
  "find_feature ds [] = Inr None"
| "find_feature ds (item # items) =
     bindR (require (HasMember item ''resourceId'') ''Can't find 'resourceId' in the value of 'features'.'') (\<lambda>_.
     bindR (json_get item ''resourceId'') (\<lambda>v.
     bindR (string_or ''Type of 'resourceId' should be string.'' v) (\<lambda>resource_id.
       if ds \<noteq> resource_id then find_feature ds items else Inr (Some item))))"

definition parse_type :: "string \<Rightarrow> MPCStatisticsType res" where
  "parse_type s =
     (if s = ''1'' then Inr AVG_t else if s = ''2'' then Inr SUM_t else if s = ''3'' then Inr MAX_t
      else if s = ''4'' then Inr MIN_t else Inl (Raised ''Unknown statistics type''))"

text \<open>
  \<^verbatim>\<open>_parseColumnName\<close>: the columns to look at and the kind of statistics. The truth value tells whether it
  returned \<^verbatim>\<open>SUCCESS\<close>; without columns it returns before it has read the kind.
\<close>

definition parseColumnName ::
  "(string \<Rightarrow> json option) \<Rightarrow> string \<Rightarrow> 'd MPCStatisticsExecutor \<Rightarrow> (bool \<times> 'd MPCStatisticsExecutor) res" where
  "parseColumnName parse json_str st0 =
     (let st = st0\<lparr>do_nothing := False\<rparr> in
      bindR (found_or ''Parse json string failed'' (parse json_str)) (\<lambda>json_doc.
      bindR (require (HasMember json_doc ''features'') ''Json object should have 'features' member'') (\<lambda>_.
      bindR (json_get json_doc ''features'') (\<lambda>features.
      bindR (array_or ''Value of 'features' in json must be a array.'' features) (\<lambda>items.
      bindR (find_feature (ds_name st) items) (\<lambda>found.
      bindR (found_or ''Can't find content for dataset'' found) (\<lambda>item.
      bindR (json_get item ''checked'') (\<lambda>checked.
      bindR (array_or ''Value of 'checked' should be a array.'' checked) (\<lambda>cs.
        if cs = [] then Inr (False, st\<lparr>do_nothing := True\<rparr>)
        else
          bindR (each (string_or ''value of array in the value of 'checked' should be a string'') cs) (\<lambda>names.
          bindR (require (HasMember json_doc ''type'') ''Json object should have 'type' member'') (\<lambda>_.
          bindR (json_get json_doc ''type'') (\<lambda>t.
          bindR (GetString t) (\<lambda>s.
          bindR (parse_type s) (\<lambda>ty.
            Inr (True, st\<lparr>target_columns := target_columns st @ names, st_type := ty\<rparr>)))))))))))))))"

fun insert_types :: "(string \<times> json) list \<Rightarrow> ColumnDtype std_map \<Rightarrow> ColumnDtype std_map res" where
  "insert_types [] m = Inr m"
| "insert_types ((name, v) # ms) m =
     bindR (GetInt v) (\<lambda>n. insert_types ms (map_insert name (columnDtypeFromInteger n) m))"

definition parseColumnDtype ::
  "(string \<Rightarrow> json option) \<Rightarrow> string \<Rightarrow> string \<Rightarrow> 'd MPCStatisticsExecutor \<Rightarrow> 'd MPCStatisticsExecutor res" where
  "parseColumnDtype parse storage_path json_str st =
     bindR (found_or ''Parse json string failed'' (parse json_str)) (\<lambda>json_doc.
     bindR (require (HasMember json_doc (ds_name st)) ''Can't find key of the dataset'') (\<lambda>_.
     bindR (json_get json_doc (ds_name st)) (\<lambda>map_obj.
     bindR (require (HasMember map_obj ''columns'') ''Can't find key 'columns' in json.'') (\<lambda>_.
     bindR (require (HasMember map_obj ''newDataSetId'') ''Can't find key 'newDataSetId' in json.'') (\<lambda>_.
     bindR (require (HasMember map_obj ''outputFilePath'') ''Can't find key 'outputFilePath' in json.'') (\<lambda>_.
     bindR (json_get map_obj ''columns'') (\<lambda>dtype_obj.
     bindR (object_or ''Value of 'columns' should be object.'' dtype_obj) (\<lambda>ms.
     bindR (insert_types ms (col_type st)) (\<lambda>types.
     bindR (json_get map_obj ''newDataSetId'') (\<lambda>new_id_obj.
     bindR (string_or ''Value of 'newDataSetId' should be string.'' new_id_obj) (\<lambda>new_id.
     bindR (json_get map_obj ''outputFilePath'') (\<lambda>new_path.
     bindR (string_or ''Value of 'outputFilePath' should be string.'' new_path) (\<lambda>path.
       Inr (st\<lparr>col_type := types, new_ds_id := new_id, output_path := CompletePath storage_path path\<rparr>))))))))))))))"

definition load_ds_name :: "task_message \<Rightarrow> 'd MPCStatisticsExecutor \<Rightarrow> 'd MPCStatisticsExecutor res" where
  "load_ds_name task st =
     (case map_of (tm_party_datasets task) (st_party_name st) of
        None \<Rightarrow> Inl (Code (-1))
      | Some ds \<Rightarrow>
          (case map_of (pd_data ds) ''Data_File'' of
             None \<Rightarrow> Inl (Code (-1))
           | Some file \<Rightarrow>
               if pd_detail ds then
                 (case map_of (tm_param_map task) ''Data_File'' of
                    None \<Rightarrow> Inl (Code (-1))
                  | Some name \<Rightarrow> Inr (st\<lparr>st_dataset_detail := True, ds_name := name, st_dataset_id := file\<rparr>))
               else Inr (st\<lparr>ds_name := file, st_dataset_id := file\<rparr>)))"

text \<open>The loop that makes sure that every column has a type that is supported.\<close>

fun check_types :: "ColumnDtype std_map \<Rightarrow> string list \<Rightarrow> unit res" where
  "check_types types [] = Inr ()"
| "check_types types (col # cols) =
     (case map_of types col of
        None \<Rightarrow> Inl (Raised [])
      | Some t \<Rightarrow> if t \<noteq> LONG \<and> t \<noteq> INTEGER \<and> t \<noteq> DOUBLE then Inl (Raised ''don't support this dtype now'')
          else check_types types cols)"

text \<open>
  \<^verbatim>\<open>loadParams\<close>. The last line of its log message reads the element before the number of columns, which
  is kept in 16 bits.
\<close>

definition stat_loadParams ::
  "(string \<Rightarrow> json option) \<Rightarrow> string \<Rightarrow> task_message \<Rightarrow> 'd MPCStatisticsExecutor \<Rightarrow> 'd MPCStatisticsExecutor res" where
  "stat_loadParams parse storage_path task st =
     (if tm_proxy task = None then Inl (Code (-1))
      else bindR (load_ds_name task st) (\<lambda>st1.
      bindR (parseColumnName parse (param (tm_param_map task) ''TaskDetail'') st1) (\<lambda>(ok, st2).
        if \<not> ok then (if do_nothing st2 then Inr st2 else Inl (Code (-1)))
        else
          bindR (parseColumnDtype parse storage_path (param (tm_param_map task) ''ColumnInfo'') st2) (\<lambda>st3.
            let st4 = st3\<lparr>target_columns := sort (target_columns st3)\<rparr> in
            bindR (check_types (col_type st4) (target_columns st4)) (\<lambda>_.
              if length (target_columns st4) mod 2 ^ 16 = 0 then Inl (Undefined ''element before the first of a vector'')
              else Inr st4)))))"

section \<open>Running\<close>

text \<open>\<^verbatim>\<open>load id detail\<close> is the table that the dataset service's driver delivers.\<close>

definition stat_loadDataset ::
  "(string \<Rightarrow> bool \<Rightarrow> 'd arrow_table option) \<Rightarrow> 'd MPCStatisticsExecutor \<Rightarrow> 'd MPCStatisticsExecutor res" where
  "stat_loadDataset load st =
     (if do_nothing st then Inr st
      else case load (st_dataset_id st) (st_dataset_detail st) of
             None \<Rightarrow> Inl (Code (-1))
           | Some table \<Rightarrow> Inr (st\<lparr>input_value := Some table\<rparr>))"

text \<open>\<open>op_type\<close> is the operation in the task configuration that the algorithm holds, 0 when none was set.\<close>

definition InitEngine :: "int \<Rightarrow> 'd MPCStatisticsExecutor \<Rightarrow> 'd MPCStatisticsExecutor res" where
  "InitEngine op_type st =
     bindR (if st_type st = UNKNOWN_t then
              (if op_type = 0 then Inr MAX_t else if op_type = 1 then Inr MIN_t else if op_type = 2 then Inr AVG_t
               else if op_type = 3 then Inr SUM_t else Inl (Raised ''Unknown Algorithm operation type''))
            else Inr (st_type st))
       (\<lambda>ty. Inr (st\<lparr>st_type := ty, st_executor := Some ty\<rparr>))"

text \<open>The executors of the three parties have to be of one type; it is the type they were made for.\<close>

definition same_executor :: "(nat \<Rightarrow> 'd MPCStatisticsExecutor) \<Rightarrow> MPCStatisticsType res" where
  "same_executor sts =
     (case st_executor (sts 0) of
        None \<Rightarrow> Inl (Undefined ''null pointer'')
      | Some ty \<Rightarrow>
          if st_executor (sts 1) = Some ty \<and> st_executor (sts 2) = Some ty then Inr ty
          else Inl (Undefined ''parties run different statistics''))"

definition stat_execute ::
  "'rt aby3_lib \<Rightarrow> ('d, 'rt) fx_lib \<Rightarrow> 'd fp_ops \<Rightarrow> 'd fp_cmp \<Rightarrow> ('b, 'rt) bin_lib \<Rightarrow> ('b, 'rt) reveal_lib \<Rightarrow> 'rt share_op \<Rightarrow>
   (nat \<Rightarrow> 'd MPCStatisticsExecutor) \<Rightarrow> 'rt \<Rightarrow> ((nat \<Rightarrow> 'd MPCStatisticsExecutor) \<times> 'rt) res" where
  "stat_execute L X F C B V dv sts rt =
     (if do_nothing (sts 0) \<and> do_nothing (sts 1) \<and> do_nothing (sts 2) then Inr (sts, rt)
      else if do_nothing (sts 0) \<or> do_nothing (sts 1) \<or> do_nothing (sts 2)
      then Inl (Undefined ''waits for a party that does nothing'')
      else
        bindR (par3 (\<lambda>p. deref (input_value (sts p)))) (\<lambda>tables.
        bindR (same_executor sts) (\<lambda>ty.
          let columns = (\<lambda>p. target_columns (sts p)); types = (\<lambda>p. col_type (sts p)) in
          if ty = AVG_t \<or> ty = SUM_t then
            bindR (sum_run L X F C dv (new_MPCSumOrAvg ty) tables columns types rt) (\<lambda>(ops, rt1).
              Inr ((\<lambda>p. (sts p)\<lparr>st_result := sum_getResult (ops p)\<rparr>), rt1))
          else
            bindR (mm_run L X F C B V (new_MPCMinOrMax ty) tables columns types rt) (\<lambda>(op, rt1).
              Inr ((\<lambda>p. (sts p)\<lparr>st_result := mm_getResult op\<rparr>), rt1)))))"

text \<open>
  \<^verbatim>\<open>execute\<close> on numbers that are already there, with how many values each stands for: only the secure part
  runs, and the result is also handed out.
\<close>

definition stat_execute_info ::
  "'rt aby3_lib \<Rightarrow> ('d, 'rt) fx_lib \<Rightarrow> 'd fp_ops \<Rightarrow> ('b, 'rt) bin_lib \<Rightarrow> ('b, 'rt) reveal_lib \<Rightarrow> 'rt share_op \<Rightarrow>
   (nat \<Rightarrow> 'd MPCStatisticsExecutor) \<Rightarrow> (nat \<Rightarrow> ('d \<times> 'd) list) \<Rightarrow> 'rt \<Rightarrow> ((nat \<Rightarrow> 'd list) \<times> 'rt) res" where
  "stat_execute_info L X F B V dv sts info rt =
     (let col_data = (\<lambda>p. map fst (info p)); col_rows = (\<lambda>p. map snd (info p)) in
      bindR (same_executor sts) (\<lambda>ty.
        if ty = AVG_t \<or> ty = SUM_t then
          bindR (sum_CipherTextDataCompute L X F dv (new_MPCSumOrAvg ty) col_data col_rows rt) (\<lambda>(ops, rt1).
            Inr ((\<lambda>p. sum_getResult (ops p)), rt1))
        else
          bindR (mm_CipherTextDataCompute L X F B V (new_MPCMinOrMax ty) col_data rt) (\<lambda>(op, rt1).
            Inr ((\<lambda>p. mm_getResult op), rt1))))"

text \<open>
  \<^verbatim>\<open>saveModel\<close>: a table with one row, written to the output path (\<open>write\<close> is the driver) and registered
  under the new id.
\<close>

definition stat_saveModel ::
  "(string \<Rightarrow> 'd arrow_table \<Rightarrow> bool) \<Rightarrow> 'd MPCStatisticsExecutor \<Rightarrow> (string \<times> string \<times> 'd arrow_table) option res" where
  "stat_saveModel write st =
     (if do_nothing st then Inr None
      else if length (st_result st) \<noteq> length (target_columns st) then Inl (Undefined ''table that does not fit its schema'')
      else
        let table = zip (target_columns st) (map (\<lambda>r. FLOAT64s [[r]]) (st_result st)) in
        if write (output_path st) table then Inr (Some (new_ds_id st, output_path st, table)) else Inl (Code (-1)))"

section \<open>The task that runs an algorithm\<close>

text \<open>
  \<^verbatim>\<open>ExecuteImpl\<close> at all parties, for any algorithm: read the parameters, load the data, prepare, run with
  the others, save. What \<^verbatim>\<open>InitEngine\<close> returns is not looked at; setting up and closing the channels
  belongs to the network layer.
\<close>

definition ExecuteImpl ::
  "(nat \<Rightarrow> 's res) \<Rightarrow> (nat \<Rightarrow> 's \<Rightarrow> 's res) \<Rightarrow> (nat \<Rightarrow> 's \<Rightarrow> 's res) \<Rightarrow>
   ((nat \<Rightarrow> 's) \<Rightarrow> 'rt \<Rightarrow> ((nat \<Rightarrow> 's) \<times> 'rt) res) \<Rightarrow> (nat \<Rightarrow> 's \<Rightarrow> 'o res) \<Rightarrow> 'rt \<Rightarrow> ((nat \<Rightarrow> 'o) \<times> 'rt) res" where
  "ExecuteImpl load_params load_dataset init_engine exec save rt =
     bindR (par3 load_params) (\<lambda>sts1.
     bindR (par3 (\<lambda>p. load_dataset p (sts1 p))) (\<lambda>sts2.
     bindR (par3 (\<lambda>p. init_engine p (sts2 p))) (\<lambda>sts3.
     bindR (exec sts3 rt) (\<lambda>(sts4, rt1).
     bindR (par3 (\<lambda>p. save p (sts4 p))) (\<lambda>out. Inr (out, rt1))))))"

definition statistics_task ::
  "'rt aby3_lib \<Rightarrow> ('d, 'rt) fx_lib \<Rightarrow> 'd fp_ops \<Rightarrow> 'd fp_cmp \<Rightarrow> ('b, 'rt) bin_lib \<Rightarrow> ('b, 'rt) reveal_lib \<Rightarrow> 'rt share_op \<Rightarrow>
   (string \<Rightarrow> json option) \<Rightarrow> string \<Rightarrow> (nat \<Rightarrow> PartyConfig) \<Rightarrow> (nat \<Rightarrow> task_message) \<Rightarrow>
   (nat \<Rightarrow> string \<Rightarrow> bool \<Rightarrow> 'd arrow_table option) \<Rightarrow> (nat \<Rightarrow> string \<Rightarrow> 'd arrow_table \<Rightarrow> bool) \<Rightarrow> 'rt \<Rightarrow>
   ((nat \<Rightarrow> (string \<times> string \<times> 'd arrow_table) option) \<times> 'rt) res" where
  "statistics_task L X F C B V dv parse storage_path config task load write rt =
     ExecuteImpl (\<lambda>p. stat_loadParams parse storage_path (task p) (new_MPCStatisticsExecutor (config p)))
       (\<lambda>p. stat_loadDataset (load p)) (\<lambda>p. InitEngine 0) (stat_execute L X F C B V dv) (\<lambda>p. stat_saveModel (write p)) rt"

text \<open>
  A party may take part without data, as \<^verbatim>\<open>auxiliary compute server\<close>: it gets the number of columns from
  the launcher and makes up a neutral number for each. A shape that is not two-dimensional or an unknown
  operation leaves the vectors short, which \<^verbatim>\<open>MPCTask::execute\<close> does not notice.
\<close>

definition MakeAuxiliaryComputeData :: "'d fp_ops \<Rightarrow> 'd fp_cmp \<Rightarrow> int \<Rightarrow> int list \<Rightarrow> ('d list \<times> i64 list) res" where
  "MakeAuxiliaryComputeData F C op_type dims =
     (if length dims \<noteq> 2 then Inr ([], [])
      else if dims ! 1 < 0 then Inl (Raised ''vector::reserve'')
      else
        let col_size = nat (dims ! 1) in
        if op_type = 0 then Inr (replicate col_size (fp_min C), replicate col_size 0)
        else if op_type = 1 then Inr (replicate col_size (fp_max C), replicate col_size 0)
        else if op_type = 2 \<or> op_type = 3 then Inr (replicate col_size (fp_of_i64 F 0), replicate col_size 0)
        else Inr ([], replicate col_size 0))"

text \<open>
  \<^verbatim>\<open>ExecuteTask\<close> at all parties: numbers and row counts side by side; a task without proxy node and
  exceptions end in \<^verbatim>\<open>FAIL\<close>. The task configuration names the operation.
\<close>

definition data_info :: "'d fp_ops \<Rightarrow> 'd list \<Rightarrow> i64 list \<Rightarrow> ('d \<times> 'd) list res" where
  "data_info F input_data rows_per_col =
     (if length rows_per_col < length input_data then Inl (Undefined ''read past a vector'')
      else Inr (map2 (\<lambda>x n. (x, fp_of_i64 F n)) input_data rows_per_col))"

definition ExecuteTask ::
  "'rt aby3_lib \<Rightarrow> ('d, 'rt) fx_lib \<Rightarrow> 'd fp_ops \<Rightarrow> ('b, 'rt) bin_lib \<Rightarrow> ('b, 'rt) reveal_lib \<Rightarrow> 'rt share_op \<Rightarrow>
   (nat \<Rightarrow> 'd MPCStatisticsExecutor) \<Rightarrow> (nat \<Rightarrow> task_message) \<Rightarrow> (nat \<Rightarrow> int) \<Rightarrow> (nat \<Rightarrow> 'd list \<times> i64 list) \<Rightarrow> 'rt \<Rightarrow> ((nat \<Rightarrow> 'd list) \<times> 'rt) res" where
  "ExecuteTask L X F B V dv sts task op_type input rt =
     bindR (par3 (\<lambda>p. data_info F (fst (input p)) (snd (input p)))) (\<lambda>info.
       case bindR (par3 (\<lambda>p. if tm_proxy (task p) = None then Inl (Code 1) else InitEngine (op_type p) (sts p))) (\<lambda>sts1. stat_execute_info L X F B V dv sts1 info rt) of
         Inl (Raised _) \<Rightarrow> Inl (Code 1)
       | r \<Rightarrow> r)"

section \<open>Lemmas\<close>

lemma check_typesD:
  "check_types types cols = Inr u \<Longrightarrow> c \<in> set cols \<Longrightarrow> \<exists>t \<in> {LONG, INTEGER, DOUBLE}. map_of types c = Some t"
  by (induction cols) (auto split: option.splits if_splits)

text \<open>What is known once the parameters have been read.\<close>

definition stat_ready :: "'d MPCStatisticsExecutor \<Rightarrow> bool" where
  "stat_ready st \<longleftrightarrow> do_nothing st \<or>
     target_columns st \<noteq> [] \<and> sorted (target_columns st) \<and> st_type st \<noteq> UNKNOWN_t \<and>
     (\<forall>c \<in> set (target_columns st). \<exists>t \<in> {LONG, INTEGER, DOUBLE}. map_of (col_type st) c = Some t)"

lemma parse_type_known: "parse_type s = Inr ty \<Longrightarrow> ty \<noteq> UNKNOWN_t"
  by (auto simp: parse_type_def split: if_splits)

lemma parseColumnName_type:
  assumes "parseColumnName parse s st = Inr (True, st')"
  shows "st_type st' \<noteq> UNKNOWN_t"
  using assms parse_type_known by (auto simp: parseColumnName_def Let_def split: if_splits)

lemma parseColumnDtype_type:
  assumes "parseColumnDtype parse sp s st = Inr st'"
  shows "st_type st' = st_type st"
  using assms by (auto simp: parseColumnDtype_def)

lemma loadParams_ready:
  assumes "stat_loadParams parse sp task st = Inr st'"
  shows "stat_ready st'"
proof -
  obtain st1 ok st2 where st2: "parseColumnName parse (param (tm_param_map task) ''TaskDetail'') st1 = Inr (ok, st2)"
    and rest: "(if \<not> ok then (if do_nothing st2 then Inr st2 else Inl (Code (-1)))
        else
          bindR (parseColumnDtype parse sp (param (tm_param_map task) ''ColumnInfo'') st2) (\<lambda>st3.
            let st4 = st3\<lparr>target_columns := sort (target_columns st3)\<rparr> in
            bindR (check_types (col_type st4) (target_columns st4)) (\<lambda>_.
              if length (target_columns st4) mod 2 ^ 16 = 0 then Inl (Undefined ''element before the first of a vector'')
              else Inr st4))) = Inr st'"
    using assms unfolding stat_loadParams_def by (auto split: if_splits)
  show ?thesis
  proof (cases ok)
    case False
    then show ?thesis using rest by (auto simp: stat_ready_def split: if_splits)
  next
    case True
    then obtain st3 u where st3: "parseColumnDtype parse sp (param (tm_param_map task) ''ColumnInfo'') st2 = Inr st3"
      "check_types (col_type st3) (sort (target_columns st3)) = Inr u" "length (target_columns st3) mod 2 ^ 16 \<noteq> 0"
      "st' = st3\<lparr>target_columns := sort (target_columns st3)\<rparr>"
      using rest by (auto simp: Let_def split: if_splits)
    have "st_type st3 \<noteq> UNKNOWN_t"
      using parseColumnName_type [of parse _ st1 st2] parseColumnDtype_type [OF st3(1)] st2 True by simp
    moreover have "target_columns st3 \<noteq> []" using st3(3) by auto
    then have "sort (target_columns st3) \<noteq> []" by (metis length_0_conv length_sort)
    moreover have "\<forall>c \<in> set (sort (target_columns st3)). \<exists>t \<in> {LONG, INTEGER, DOUBLE}. map_of (col_type st3) c = Some t"
      using check_typesD [OF st3(2)] by blast
    ultimately show ?thesis using st3(4) by (simp add: stat_ready_def)
  qed
qed

lemma bindR_pure_Inl: "bindR r (\<lambda>x. Inr (f x)) = Inl e \<longleftrightarrow> r = Inl e"
  by (cases r) simp_all

lemma column_sum_errors:
  assumes "map_of types c = Some t" "t \<in> {LONG, INTEGER, DOUBLE}" "column_sum F C table types c = Inl e"
  shows "e = (if map_of table c = None then Code 1 else Undefined ''array of another type'')"
proof -
  have "read_ints C col = Inl e \<Longrightarrow> e = Undefined ''array of another type''"
    "read_doubles C col = Inl e \<Longrightarrow> e = Undefined ''array of another type''" for col
    by (cases col; auto simp: unread_def split: if_splits)+
  then show ?thesis using assms by (auto simp: column_sum_def bindR_pure_Inl split: option.splits if_splits)
qed

text \<open>Steps that succeed at all parties.\<close>

definition pick3 :: "(nat \<Rightarrow> 'a) \<Rightarrow> nat \<Rightarrow> 'a" where
  "pick3 g p = (if p = 0 then g 0 else if p = 1 then g 1 else g 2)"

lemma pick3_eq: "p \<in> {0, 1, 2} \<Longrightarrow> pick3 g p = g p"
  by (auto simp: pick3_def)

lemma par3_pick3: "(\<And>p. p \<in> {0, 1, 2} \<Longrightarrow> f p = Inr (g p)) \<Longrightarrow> par3 f = Inr (pick3 g)"
  by (simp add: par3_def pick3_def fun_eq_iff)

lemma par3_cong: "(\<And>p. p \<in> {0, 1, 2} \<Longrightarrow> f p = g p) \<Longrightarrow> par3 f = par3 g"
  by (simp add: par3_def)

lemma mm_run_cong:
  assumes "\<And>p. p \<in> {0, 1, 2} \<Longrightarrow> d p = d' p \<and> c p = c' p \<and> t p = t' p"
  shows "mm_run L X F C B V op d c t rt = mm_run L X F C B V op d' c' t' rt"
proof -
  have "par3 (\<lambda>p. mm_PlainTextDataCompute F C (mm_type op) (d p) (c p) (t p)) =
      par3 (\<lambda>p. mm_PlainTextDataCompute F C (mm_type op) (d' p) (c' p) (t' p))"
    using assms by (intro par3_cong) simp
  then show ?thesis by (simp only: mm_run_def)
qed

section \<open>An example\<close>

text \<open>Three parties that hold the tables \<open>example_tables\<close> and ask for the minimum of the column \<^verbatim>\<open>a\<close>.\<close>

definition example_parse :: "string \<Rightarrow> json option" where
  "example_parse s =
     (if s = ''detail'' then Some (JObj [(''features'', JArr [JObj [(''resourceId'', JStr ''ds''), (''checked'', JArr [JStr ''a''])]]), (''type'', JStr ''4'')])
      else if s = ''long'' \<or> s = ''integer'' \<or> s = ''double'' then
        Some (JObj [(''ds'', JObj [(''columns'', JObj [(''a'', JInt (if s = ''long'' then 3 else if s = ''integer'' then 1 else 2))]),
          (''newDataSetId'', JStr ''new''), (''outputFilePath'', JStr ''out'')])])
      else None)"

definition example_config :: "nat \<Rightarrow> PartyConfig" where
  "example_config p = \<lparr>pc_node_id = ''party'', pc_party_id = p, pc_task_id = [], pc_job_id = [], pc_request_id = [],
     node_id_map = [], node_map = []\<rparr>"

definition example_task :: "nat \<Rightarrow> task_message" where
  "example_task p = \<lparr>tm_proxy = Some new_pb_node, tm_party_datasets = [(''party'', \<lparr>pd_detail = False, pd_data = [(''Data_File'', ''ds'')]\<rparr>)],
     tm_param_map = [(''TaskDetail'', ''detail''), (''ColumnInfo'', if p = 0 then ''long'' else if p = 1 then ''integer'' else ''double'')]\<rparr>"

definition example_state :: "nat \<Rightarrow> real MPCStatisticsExecutor" where
  "example_state p = (new_MPCStatisticsExecutor (example_config p))\<lparr>target_columns := [''a''], new_ds_id := ''new'',
     output_path := CompletePath ''/data'' ''out'', ds_name := ''ds'', st_dataset_id := ''ds'', col_type := example_types p, st_type := MIN_t\<rparr>"

lemma example_loadParams:
  "stat_loadParams example_parse ''/data'' (example_task p) (new_MPCStatisticsExecutor (example_config p)) = Inr (example_state p)"
  by (simp add: stat_loadParams_def example_task_def load_ds_name_def new_MPCStatisticsExecutor_def example_config_def
      param_def parseColumnName_def parseColumnDtype_def example_parse_def found_or_def require_def HasMember_def json_get_def
      array_or_def string_or_def object_or_def GetString_def GetInt_def parse_type_def columnDtypeFromInteger_def map_insert_def
      example_state_def example_types_def Let_def ex_bool_eq)

section \<open>Properties\<close>

text \<open>
  C31. Parameters are checked once and for all: when \<^verbatim>\<open>loadParams\<close> succeeds, there is nothing to do, or
  there are columns, sorted, the kind of statistics is known, and every column has a numeric type; so
  that summing up a column can only fail because the table lacks it or holds values of another type.
\<close>

theorem statistics_params_typed:
  assumes "stat_loadParams parse sp task st = Inr st'"
  shows "stat_ready st' \<and>
    (\<not> do_nothing st' \<longrightarrow> (\<forall>F C table. \<forall>c \<in> set (target_columns st'). \<forall>e.
      column_sum F C table (col_type st') c = Inl e \<longrightarrow>
        e = (if map_of table c = None then Code 1 else Undefined ''array of another type'')))"
proof (intro conjI impI allI ballI)
  show r: "stat_ready st'" by (rule loadParams_ready [OF assms])
  fix F C table c e
  assume "\<not> do_nothing st'" "c \<in> set (target_columns st')" "column_sum F C table (col_type st') c = Inl e"
  then show "e = (if map_of table c = None then Code 1 else Undefined ''array of another type'')"
    using r column_sum_errors unfolding stat_ready_def by metis
qed

theorem statistics_params_typed_witness:
  "stat_ready (example_state 1) \<and>
    column_sum fp_real cmp_real [] (col_type (example_state 1)) ''a'' = Inl (Code 1)"
proof -
  have "\<not> do_nothing (example_state 1)" "''a'' \<in> set (target_columns (example_state 1))"
    by (simp_all add: example_state_def new_MPCStatisticsExecutor_def)
  with statistics_params_typed [OF example_loadParams [of 1]]
  have "stat_ready (example_state 1)" and e: "column_sum fp_real cmp_real [] (col_type (example_state 1)) ''a'' = Inl e \<Longrightarrow>
      e = (if map_of [] ''a'' = (None :: real column option) then Code 1 else Undefined ''array of another type'')" for e
    by blast+
  moreover have "\<exists>e. column_sum fp_real cmp_real [] (col_type (example_state 1)) ''a'' = Inl e"
    by (simp add: column_sum_def)
  ultimately show ?thesis by auto
qed

text \<open>
  C4. The statistics task for minima and maxima: when the three parties read their parameters for the
  same kind of statistics and get their tables with values in the range of fixed point, the task ends, and every party saves, under its own
  column names and in sorted order, a row with the extreme values: in position \<open>i\<close> the number whose
  fixed-point form is the smallest (largest) among those of all values of column \<open>i\<close> of all parties. For a maximum, every column needs at one
  party a value that is at least the smallest positive normal double, from which the search starts; without one
  the maximum is lost.
\<close>

theorem statistics_task_extremes:
  fixes F :: "'d fp_ops" and sts :: "nat \<Rightarrow> 'd MPCStatisticsExecutor"
  assumes "mm_env L B V num rng F C X" "ty = MIN_t \<or> ty = MAX_t"
    and "\<forall>p \<in> {0, 1, 2}. stat_loadParams parse sp (task p) (new_MPCStatisticsExecutor (config p)) = Inr (sts p) \<and>
      \<not> do_nothing (sts p) \<and> st_type (sts p) = ty \<and>
      load p (st_dataset_id (sts p)) (st_dataset_detail (sts p)) = Some (dataset p) \<and> (\<forall>path t. write p path t)"
    and "party_data rng F dataset (\<lambda>p. target_columns (sts p)) (\<lambda>p. col_type (sts p)) n vals"
    and "ty = MAX_t \<longrightarrow> (\<forall>i < n. \<exists>p \<in> {0, 1, 2}. \<exists>v \<in> set (vals p i). fp_le C (fp_min C) v)"
  shows "\<exists>out rs rt'. statistics_task L X F C B V dv parse sp config task load write rt = Inr (out, rt') \<and> length rs = n \<and>
    (\<forall>p \<in> {0, 1, 2}. out p = Some (new_ds_id (sts p), output_path (sts p),
      zip (target_columns (sts p)) (map (\<lambda>r. FLOAT64s [[r]]) rs))) \<and>
    (\<forall>i < n. \<exists>z. best (ahead ty sle) (fx_of_double X ` (\<Union>p \<in> {0, 1, 2}. set (vals p i))) z \<and>
      rs ! i = fx_to_double X z)"
proof -
  have p: "stat_loadParams parse sp (task p) (new_MPCStatisticsExecutor (config p)) = Inr (sts p)"
    "\<not> do_nothing (sts p)" "st_type (sts p) = ty" "write p path t"
    "load p (st_dataset_id (sts p)) (st_dataset_detail (sts p)) = Some (dataset p)"
    "length (target_columns (sts p)) = n" if "p \<in> {0, 1, 2}" for p path t
    using assms(3,4) that unfolding party_data_def by blast+
  have ty: "ty \<noteq> UNKNOWN_t" "\<not> (ty = AVG_t \<or> ty = SUM_t)" using assms(2) by auto
  define sts3 where "sts3 p = (sts p)\<lparr>input_value := Some (dataset p), st_type := ty, st_executor := Some ty\<rparr>" for p
  have ld: "stat_loadDataset (load p) (sts p) = Inr ((sts p)\<lparr>input_value := Some (dataset p)\<rparr>)" if "p \<in> {0, 1, 2}" for p
    using p [OF that] by (simp add: stat_loadDataset_def)
  have ie: "InitEngine 0 ((sts p)\<lparr>input_value := Some (dataset p)\<rparr>) = Inr (sts3 p)" if "p \<in> {0, 1, 2}" for p
    using p(3) [OF that] ty(1) by (simp add: InitEngine_def sts3_def)
  obtain op rt' where op1: "mm_run L X F C B V (new_MPCMinOrMax ty) dataset (\<lambda>p. target_columns (sts p)) (\<lambda>p. col_type (sts p)) rt = Inr (op, rt')"
    "length (mm_getResult op) = n"
    "\<forall>i < n. \<exists>z. best (ahead ty sle) (fx_of_double X ` (\<Union>p \<in> {0, 1, 2}. candidates C ty (vals p i))) z \<and>
      mm_getResult op ! i = fx_to_double X z"
    using extreme_run [OF assms(1,2,4), of rt] by (elim exE conjE)
  have "\<exists>z. best (ahead ty sle) (fx_of_double X ` (\<Union>p \<in> {0, 1, 2}. set (vals p i))) z \<and> mm_getResult op ! i = fx_to_double X z" if i: "i < n" for i
  proof -
    obtain z where z: "best (ahead ty sle) (fx_of_double X ` (\<Union>p \<in> {0, 1, 2}. candidates C ty (vals p i))) z" "mm_getResult op ! i = fx_to_double X z"
      using op1(3) i by blast
    have "\<forall>p \<in> {0, 1, 2}. \<forall>v \<in> set (vals p i). rng v" using assms(4) i unfolding party_data_def party_column_def by blast
    then show ?thesis using best_of_values [OF assms(1,2) _ _ z(1)] assms(5) i z(2) by blast
  qed
  note op = op1(1,2) this
  let ?sts4 = "\<lambda>p. (pick3 sts3 p)\<lparr>st_result := mm_getResult op\<rparr>"
  let ?out = "\<lambda>p. Some (new_ds_id (sts p), output_path (sts p), zip (target_columns (sts p)) (map (\<lambda>r. FLOAT64s [[r]]) (mm_getResult op)))"
  have 1: "par3 (\<lambda>p. stat_loadParams parse sp (task p) (new_MPCStatisticsExecutor (config p))) = Inr (pick3 sts)"
    by (rule par3_pick3) (rule p(1))
  have 2: "par3 (\<lambda>p. stat_loadDataset (load p) (pick3 sts p)) = Inr (pick3 (\<lambda>p. (sts p)\<lparr>input_value := Some (dataset p)\<rparr>))"
    by (rule par3_pick3) (simp only: pick3_eq ld)
  have 3: "par3 (\<lambda>p. InitEngine 0 (pick3 (\<lambda>p. (sts p)\<lparr>input_value := Some (dataset p)\<rparr>) p)) = Inr (pick3 sts3)"
    by (rule par3_pick3) (simp only: pick3_eq ie)
  have nd: "\<not> do_nothing (pick3 sts3 p)" "st_executor (pick3 sts3 p) = Some ty" for p
    using p(2) by (auto simp: pick3_def sts3_def)
  have "par3 (\<lambda>p. deref (input_value (pick3 sts3 p))) = Inr (pick3 dataset)"
    by (rule par3_pick3) (simp only: pick3_eq, simp add: sts3_def deref_def)
  moreover have "mm_run L X F C B V (new_MPCMinOrMax ty) (pick3 dataset) (\<lambda>p. target_columns (pick3 sts3 p))
      (\<lambda>p. col_type (pick3 sts3 p)) rt = Inr (op, rt')"
    unfolding op(1) [symmetric] by (rule mm_run_cong) (simp only: pick3_eq, simp add: sts3_def)
  ultimately have 4: "stat_execute L X F C B V dv (pick3 sts3) rt = Inr (?sts4, rt')"
    using nd ty(2) by (simp add: stat_execute_def same_executor_def)
  have 5: "par3 (\<lambda>p. stat_saveModel (write p) (?sts4 p)) = Inr (pick3 ?out)"
  proof (rule par3_pick3)
    fix q :: nat assume q: "q \<in> {0, 1, 2}"
    have "?sts4 q = (sts3 q)\<lparr>st_result := mm_getResult op\<rparr>" using pick3_eq [OF q, of sts3] by simp
    then show "stat_saveModel (write q) (?sts4 q) = Inr (?out q)"
      using p(2,4,6) [OF q] op(2) by (simp add: stat_saveModel_def sts3_def)
  qed
  have "statistics_task L X F C B V dv parse sp config task load write rt = Inr (pick3 ?out, rt')"
    by (simp only: statistics_task_def ExecuteImpl_def 1 2 3 4 5 bindR_simps prod.case)
  moreover have "\<forall>q \<in> {0, 1, 2}. pick3 ?out q = ?out q" by (blast intro: pick3_eq)
  ultimately show ?thesis using op(2) op(3) by blast
qed

theorem statistics_task_extremes_witness:
  "\<exists>out rt'. statistics_task lib_ref fx_real fp_real cmp_real bin_ref reveal_ref (\<lambda>A B rt. Inl (Raised ''division''))
      example_parse ''/data'' example_config example_task (\<lambda>p i d. Some (example_tables p)) (\<lambda>p path t. True) () = Inr (out, rt') \<and>
    (\<exists>path. out 2 = Some (''new'', path, [(''a'', FLOAT64s [[-5]])]))"
proof -
  let ?A = "fx_of_double fx_real ` (\<Union>p \<in> {0, 1, 2}. set (example_values p 0))"
  have st: "target_columns (example_state p) = [''a'']" "col_type (example_state p) = example_types p"
    "\<not> do_nothing (example_state p)" "st_type (example_state p) = MIN_t" "new_ds_id (example_state p) = ''new''" for p
    by (simp_all add: example_state_def new_MPCStatisticsExecutor_def)
  have "party_data rng_real fp_real example_tables (\<lambda>p. target_columns (example_state p)) (\<lambda>p. col_type (example_state p)) 1 example_values"
    unfolding st by (rule example_party_data)
  from statistics_task_extremes [OF mm_env_real _ _ this _, of MIN_t example_parse "''/data''" example_task example_config
      "\<lambda>p i d. Some (example_tables p)" "\<lambda>p path t. True" "\<lambda>A B rt. Inl (Raised ''division'')" "()"]
  obtain out rs rt' z where o: "statistics_task lib_ref fx_real fp_real cmp_real bin_ref reveal_ref (\<lambda>A B rt. Inl (Raised ''division''))
      example_parse ''/data'' example_config example_task (\<lambda>p i d. Some (example_tables p)) (\<lambda>p path t. True) () = Inr (out, rt')"
    "length rs = 1" "out 2 = Some (''new'', output_path (example_state 2), zip [''a''] (map (\<lambda>r. FLOAT64s [[r]]) rs))"
    and z: "best (ahead MIN_t sle) ?A z" "rs ! 0 = fx_to_double fx_real z"
    by (auto simp: st example_loadParams)
  have "?A = {196608, -327680, 131072, 262144, -32768}"
    by (auto simp: example_values_def fx_real_def trunc16_def)
  with z(1) have "best (ahead MIN_t sle) {196608, -327680, 131072, 262144, -32768} z" by (simp only:)
  then have "z = -327680" by (auto simp: best_def ahead_def sle_def)
  with z(2) o(2) have "rs = [-5]" by (cases rs) (simp_all add: fx_real_def)
  with o show ?thesis by simp
qed

text \<open>
  An auxiliary party does not change sums and averages: when two parties bring numbers and row
  counts and the third takes part without data, all get the sum of the two parties' numbers in fixed
  point (and, for an average, its quotient by the sum of their counts).
\<close>

theorem auxiliary_sum_neutral:
  assumes "aby3_ok L" "fx_of_double X (fp_of_i64 F 0) = 0" "op = 2 \<or> op = 3"
    and "MakeAuxiliaryComputeData F C op [r, int n] = Inr aux"
    and "length xs = n" "length ys = n" "length ks = n" "length ms = n"
    and "\<forall>p \<in> {0, 1, 2}. st_type (sts p) = UNKNOWN_t \<and> tm_proxy (task p) \<noteq> None"
  shows "\<exists>res rt'. ExecuteTask L X F B V dv sts task (\<lambda>p. op)
      (\<lambda>p. if p = 0 then (xs, ks) else if p = 1 then (ys, ms) else aux) rt = Inr (res, rt') \<and>
    (\<forall>p. res p = map (\<lambda>i. let total = fx_to_double X (fx_of_double X (xs ! i) + fx_of_double X (ys ! i)) in
      if op = 2 then fp_div F total (fx_to_double X (fx_of_double X (fp_of_i64 F (ks ! i)) + fx_of_double X (fp_of_i64 F (ms ! i))))
      else total) [0..<n])"
proof -
  let ?ty = "if op = 2 then AVG_t else SUM_t"
  let ?zero = "fp_of_i64 F 0"
  have aux: "aux = (replicate n ?zero, replicate n 0)"
    using assms(3,4) by (auto simp: MakeAuxiliaryComputeData_def split: if_splits)
  let ?in = "\<lambda>p. if p = (0::nat) then (xs, ks) else if p = 1 then (ys, ms) else aux"
  let ?info = "\<lambda>p. map2 (\<lambda>x n. (x, fp_of_i64 F n)) (fst (?in p)) (snd (?in p))"
  have info: "par3 (\<lambda>p. data_info F (fst (?in p)) (snd (?in p))) = Inr (pick3 ?info)"
    by (rule par3_pick3) (use assms(5-8) aux in \<open>auto simp: data_info_def\<close>)
  have ie: "par3 (\<lambda>p. if tm_proxy (task p) = None then Inl (Code 1) else InitEngine op (sts p)) = Inr (pick3 (\<lambda>p. (sts p)\<lparr>st_type := ?ty, st_executor := Some ?ty\<rparr>))"
  proof (rule par3_pick3)
    fix p :: nat assume "p \<in> {0, 1, 2}"
    with assms(9) have "st_type (sts p) = UNKNOWN_t \<and> tm_proxy (task p) \<noteq> None" by blast
    with assms(3) show "(if tm_proxy (task p) = None then Inl (Code 1) else InitEngine op (sts p)) = Inr ((sts p)\<lparr>st_type := ?ty, st_executor := Some ?ty\<rparr>)"
      by (elim disjE) (simp_all add: InitEngine_def)
  qed
  have same: "same_executor (pick3 (\<lambda>p. (sts p)\<lparr>st_type := ?ty, st_executor := Some ?ty\<rparr>)) = Inr ?ty"
    by (simp add: same_executor_def pick3_def)
  let ?d = "\<lambda>p. map fst (pick3 ?info p)" and ?k = "\<lambda>p. map snd (pick3 ?info p)"
  have d: "?d 0 = xs" "?d 1 = ys" "?d 2 = replicate n ?zero"
    "?k 0 = map (fp_of_i64 F) ks" "?k 1 = map (fp_of_i64 F) ms" "?k 2 = replicate n ?zero"
    using assms(5-8) aux by (auto simp: pick3_def intro!: nth_equalityI)
  obtain ops rt' where ops: "sum_CipherTextDataCompute L X F dv (new_MPCSumOrAvg ?ty) ?d ?k rt = Inr (ops, rt')"
    "\<forall>p. sum_getResult (ops p) = map (\<lambda>i. let total = fx_to_double X (fixed_sum X ?d i) in
       if ?ty = AVG_t then fp_div F total (fx_to_double X (fixed_sum X ?k i)) else total) [0..<n]"
  proof -
    have "length (?d 0) = n" "length (?d 1) = n" "length (?d 2) = n" "length (?k 0) = n" "length (?k 1) = n" "length (?k 2) = n"
      unfolding d using assms(5-8) by simp_all
    from sum_ciphertext [OF assms(1) this, of X F dv ?ty rt] that show ?thesis by blast
  qed
  have "fixed_sum X ?d i = fx_of_double X (xs ! i) + fx_of_double X (ys ! i)"
    "fixed_sum X ?k i = fx_of_double X (fp_of_i64 F (ks ! i)) + fx_of_double X (fp_of_i64 F (ms ! i))" if "i < n" for i
    using that assms(2,7,8) by (simp_all only: fixed_sum_def d) simp_all
  then have r: "\<forall>p. sum_getResult (ops p) = map (\<lambda>i. let total = fx_to_double X (fx_of_double X (xs ! i) + fx_of_double X (ys ! i)) in
      if op = 2 then fp_div F total (fx_to_double X (fx_of_double X (fp_of_i64 F (ks ! i)) + fx_of_double X (fp_of_i64 F (ms ! i))))
      else total) [0..<n]"
    using ops(2) by (simp add: Let_def)
  have "(?ty = AVG_t \<or> ?ty = SUM_t) = True" by simp
  then have "stat_execute_info L X F B V dv (pick3 (\<lambda>p. (sts p)\<lparr>st_type := ?ty, st_executor := Some ?ty\<rparr>)) (pick3 ?info) rt =
      Inr (\<lambda>p. sum_getResult (ops p), rt')"
    by (simp only: stat_execute_info_def Let_def same bindR_simps if_True ops(1) prod.case)
  then have "ExecuteTask L X F B V dv sts task (\<lambda>p. op) ?in rt = Inr (\<lambda>p. sum_getResult (ops p), rt')"
    by (simp only: ExecuteTask_def info ie bindR_simps sum.case)
  with r show ?thesis by blast
qed

theorem auxiliary_sum_neutral_witness:
  "\<exists>res rt'. ExecuteTask lib_ref fx_real fp_real bin_ref reveal_ref (\<lambda>A B rt. Inl (Raised ''division''))
      (\<lambda>p. new_MPCStatisticsExecutor (example_config p)) example_task (\<lambda>p. 2)
      (\<lambda>p. if p = 0 then ([3], [2]) else if p = 1 then ([7 / 2], [1]) else ([0], [0])) () = Inr (res, rt') \<and> res 2 = [13 / 6]"
proof -
  have "fx_of_double fx_real (fp_of_i64 fp_real 0) = 0" by (simp add: fx_real_def fp_real_def trunc16_def)
  moreover have "MakeAuxiliaryComputeData fp_real cmp_real 2 [5, int 1] = Inr ([0], [0])"
    by (simp add: MakeAuxiliaryComputeData_def fp_real_def)
  moreover have "\<forall>p \<in> {0, 1, 2}. st_type (new_MPCStatisticsExecutor (example_config p) :: real MPCStatisticsExecutor) = UNKNOWN_t \<and>
      tm_proxy (example_task p) \<noteq> None"
    by (simp add: new_MPCStatisticsExecutor_def example_task_def)
  ultimately obtain res rt' where r: "ExecuteTask lib_ref fx_real fp_real bin_ref reveal_ref (\<lambda>A B rt. Inl (Raised ''division''))
      (\<lambda>p. new_MPCStatisticsExecutor (example_config p)) example_task (\<lambda>p. 2)
      (\<lambda>p. if p = 0 then ([3], [2]) else if p = 1 then ([7 / 2], [1]) else ([0], [0])) () = Inr (res, rt')"
    "\<forall>p. res p = map (\<lambda>i. let total = fx_to_double fx_real (fx_of_double fx_real ([3] ! i) + fx_of_double fx_real ([7 / 2] ! i)) in
      if (2::int) = 2 then fp_div fp_real total (fx_to_double fx_real (fx_of_double fx_real (fp_of_i64 fp_real ([2] ! i)) +
        fx_of_double fx_real (fp_of_i64 fp_real ([1] ! i)))) else total) [0..<1]"
    using auxiliary_sum_neutral [OF aby3_ok_ref, of fx_real fp_real 2 cmp_real 5 1 "([0], [0])" "[3]" "[7 / 2]" "[2]" "[1]"
        "\<lambda>p. new_MPCStatisticsExecutor (example_config p)" example_task bin_ref reveal_ref "\<lambda>A B rt. Inl (Raised ''division'')" "()"]
    by (elim meta_impE) (simp_all only: list.size simp_thms, auto)
  from r(2) have "res 2 = [13 / 6]" by (simp add: Let_def fx_real_def fp_real_def trunc16_def)
  with r(1) show ?thesis by blast
qed

text \<open>
  The largest double does not fit into fixed point; on the machines the program is built for the
  conversion gives \<open>- (2 ^ 63)\<close>, and a comparison with it is settled by a difference that wraps around.
\<close>

lemma sign_against_min:
  assumes "- (2 ^ 63) \<le> sint (a :: i64)" "sint a < 0"
  shows "\<not> bit (a - 2 ^ 63) 63"
proof -
  have "a - 2 ^ 63 = word_of_int (sint a + 2 ^ 63)" by simp
  moreover have "sint (word_of_int (sint a + 2 ^ 63) :: i64) = sint a + 2 ^ 63"
    using assms by (intro sint_small) simp_all
  ultimately have "sint (a - 2 ^ 63) = sint a + 2 ^ 63" by (simp only:)
  then show ?thesis using bit_last_iff [of "a - 2 ^ 63"] assms(1) by simp
qed

lemma find_party_aux:
  assumes "bin_ok B" "reveal_ok B V" "m 0 = number a" "m 1 = number b" "m 2 = number (2 ^ 63)"
    and "\<bar>sint a\<bar> < 2 ^ 62" "\<bar>sint b\<bar> < 2 ^ 62" "sint a < 0 \<or> sint b < 0"
  shows "\<exists>rt'. find_party B V m rt = Inr (2, m, rt')"
proof -
  have f: "- (2 ^ 63) \<le> sint a - sint b" "sint a - sint b < 2 ^ 63" "- (2 ^ 63) \<le> sint a" "- (2 ^ 63) \<le> sint b"
    using assms(6,7) by (simp_all add: abs_less_iff)
  obtain rt1 where 1: "compare_two B V 0 1 m rt = Inr (sint a < sint b, m, rt1)"
    using compare_two_ok [OF assms(1,2) _ assms(3,4) f(1,2), of 2 rt] by (auto simp: two_of_three_def)
  show ?thesis
  proof (cases "sint a < sint b")
    case True
    then have "\<not> bit (a - 2 ^ 63) 63" using assms(8) f(3) by (intro sign_against_min) linarith+
    moreover obtain rt2 where "compare_two B V 0 2 m rt1 = Inr (bit (a - 2 ^ 63) 63, m, rt2)"
      using compare_two_bits [OF assms(1,2) _ assms(3,5), of 1 rt1] by (auto simp: two_of_three_def)
    ultimately show ?thesis using 1 True by (simp add: find_party_def)
  next
    case False
    then have "\<not> bit (b - 2 ^ 63) 63" using assms(8) f(4) by (intro sign_against_min) linarith+
    moreover obtain rt2 where "compare_two B V 1 2 m rt1 = Inr (bit (b - 2 ^ 63) 63, m, rt2)"
      using compare_two_bits [OF assms(1,2) _ assms(4,5), of 0 rt1] by (auto simp: two_of_three_def)
    ultimately show ?thesis using 1 False by (simp add: find_party_def)
  qed
qed

text \<open>
  An auxiliary party spoils a minimum: if the conversion takes the largest double, its neutral
  number, to \<open>- (2 ^ 63)\<close>, then whenever the minimum of the two parties' numbers is negative all parties
  get that value, the least fixed-point number, instead of the minimum.
\<close>

theorem auxiliary_minimum_wrong:
  assumes "aby3_ok L" "bin_ok B" "reveal_ok B V" "fx_of_double X (fp_max C) = 2 ^ 63"
    and "MakeAuxiliaryComputeData F C 1 [r, 1] = Inr aux"
    and "\<forall>p \<in> {0, 1, 2}. st_type (sts p) = UNKNOWN_t \<and> tm_proxy (task p) \<noteq> None"
    and "\<bar>sint (fx_of_double X x)\<bar> < 2 ^ 62" "\<bar>sint (fx_of_double X y)\<bar> < 2 ^ 62"
    and "sint (fx_of_double X x) < 0 \<or> sint (fx_of_double X y) < 0"
  shows "\<exists>res rt'. ExecuteTask L X F B V dv sts task (\<lambda>p. 1)
      (\<lambda>p. if p = 0 then ([x], [k]) else if p = 1 then ([y], [l]) else aux) rt = Inr (res, rt') \<and>
    (\<forall>p. res p = [fx_to_double X (2 ^ 63)])"
proof -
  have aux: "aux = ([fp_max C], [0])"
    using assms(5) by (simp add: MakeAuxiliaryComputeData_def)
  let ?in = "\<lambda>p. if p = (0::nat) then ([x], [k]) else if p = 1 then ([y], [l]) else aux"
  let ?info = "\<lambda>p. map2 (\<lambda>x n. (x, fp_of_i64 F n)) (fst (?in p)) (snd (?in p))"
  have info: "par3 (\<lambda>p. data_info F (fst (?in p)) (snd (?in p))) = Inr (pick3 ?info)"
    by (rule par3_pick3) (use aux in \<open>auto simp: data_info_def\<close>)
  let ?sts = "pick3 (\<lambda>p. (sts p)\<lparr>st_type := MIN_t, st_executor := Some MIN_t\<rparr>)"
  have ie: "par3 (\<lambda>p. if tm_proxy (task p) = None then Inl (Code 1) else InitEngine 1 (sts p)) = Inr ?sts"
  proof (rule par3_pick3)
    fix p :: nat assume "p \<in> {0, 1, 2}"
    with assms(6) have "st_type (sts p) = UNKNOWN_t \<and> tm_proxy (task p) \<noteq> None" by blast
    then show "(if tm_proxy (task p) = None then Inl (Code 1) else InitEngine 1 (sts p)) = Inr ((sts p)\<lparr>st_type := MIN_t, st_executor := Some MIN_t\<rparr>)"
      by (simp add: InitEngine_def)
  qed
  let ?h = "\<lambda>p. hd (map fst (pick3 ?info p))"
  let ?m = "\<lambda>p. number (fx_of_double X (?h p))"
  have m: "?m 0 = number (fx_of_double X x)" "?m 1 = number (fx_of_double X y)" "?m 2 = number (2 ^ 63)"
    using aux assms(4) by (simp_all add: pick3_def)
  obtain rt1 where 1: "find_party B V ?m rt = Inr (2, ?m, rt1)"
    using find_party_aux [OF assms(2,3), of ?m, OF m assms(7-9)] by blast
  obtain rt2 where 2: "announce L X V 2 ?m rt1 = Inr (fx_to_double X (2 ^ 63), rt2)"
    using announce_ok [OF assms(1,3), of 2 ?m, OF _ m(3)] by blast
  have 3: "minValueOfAllParty L X B V ?h rt = Inr (fx_to_double X (2 ^ 63), rt2)"
    by (simp only: minValueOfAllParty_def Let_def 1 2 bindR_simps prod.case)
  have "map fst (pick3 ?info 0) \<noteq> []" "map fst (pick3 ?info 1) \<noteq> []" "map fst (pick3 ?info 2) \<noteq> []"
    "tl (map fst (pick3 ?info 0)) = []" "tl (map fst (pick3 ?info 1)) = []" "tl (map fst (pick3 ?info 2)) = []"
    "length (map fst (pick3 ?info 0)) = 1"
    using aux by (simp_all add: pick3_def)
  then have "for_columns (minValueOfAllParty L X B V) (length (map fst (pick3 ?info 0))) (\<lambda>p. map fst (pick3 ?info p)) rt =
      Inr ([fx_to_double X (2 ^ 63)], rt2)"
    using 3 by (simp only: One_nat_def for_columns.simps simp_thms if_True if_False bindR_simps prod.case)
  then have "mm_CipherTextDataCompute L X F B V (new_MPCMinOrMax MIN_t) (\<lambda>p. map fst (pick3 ?info p)) rt =
      Inr (\<lparr>mm_type = MIN_t, mpc_result = [fx_to_double X (2 ^ 63)]\<rparr>, rt2)"
    by (simp add: mm_CipherTextDataCompute_def new_MPCMinOrMax_def del: for_columns.simps)
  moreover have "same_executor ?sts = Inr MIN_t" by (simp add: same_executor_def pick3_def)
  ultimately have "stat_execute_info L X F B V dv ?sts (pick3 ?info) rt = Inr (\<lambda>p. [fx_to_double X (2 ^ 63)], rt2)"
    by (simp add: stat_execute_info_def mm_getResult_def)
  then have "ExecuteTask L X F B V dv sts task (\<lambda>p. 1) ?in rt = Inr (\<lambda>p. [fx_to_double X (2 ^ 63)], rt2)"
    by (simp only: ExecuteTask_def info ie bindR_simps sum.case)
  then show ?thesis by blast
qed

text \<open>The conversion of the processor: out of range it gives the least integer.\<close>

definition fx_x86 :: "(real, unit) fx_lib" where
  "fx_x86 = fx_real\<lparr>fx_of_double := (\<lambda>x. if \<bar>x\<bar> < 2 ^ 47 then word_of_int (trunc16 x) else 2 ^ 63)\<rparr>"

theorem auxiliary_minimum_wrong_witness:
  "\<exists>res rt'. ExecuteTask lib_ref fx_x86 fp_real bin_ref reveal_ref (\<lambda>A B rt. Inl (Raised ''division''))
      (\<lambda>p. new_MPCStatisticsExecutor (example_config p)) example_task (\<lambda>p. 1)
      (\<lambda>p. if p = 0 then ([3], [2]) else if p = 1 then ([-1], [1]) else ([fp_max cmp_real], [0])) () = Inr (res, rt') \<and>
    res 0 = [- (2 ^ 47)]"
proof -
  have big: "fx_of_double fx_x86 (fp_max cmp_real) = 2 ^ 63"
    by (simp add: fx_x86_def cmp_real_def)
  have vals: "fx_of_double fx_x86 3 = 196608" "fx_of_double fx_x86 (-1) = -65536"
    by (simp_all add: fx_x86_def trunc16_def)
  have aux: "MakeAuxiliaryComputeData fp_real cmp_real 1 [5, 1] = Inr ([fp_max cmp_real], [0])"
    by (simp add: MakeAuxiliaryComputeData_def)
  have st: "\<forall>p \<in> {0, 1, 2}. st_type (new_MPCStatisticsExecutor (example_config p) :: real MPCStatisticsExecutor) = UNKNOWN_t \<and>
      tm_proxy (example_task p) \<noteq> None"
    by (simp add: new_MPCStatisticsExecutor_def example_task_def)
  have rv: "reveal_ok bin_ref reveal_ref" by (simp add: reveal_ok_def reveal_ref_def bin_ref_def sharing_open)
  have r: "\<bar>sint (fx_of_double fx_x86 3)\<bar> < 2 ^ 62" "\<bar>sint (fx_of_double fx_x86 (-1))\<bar> < 2 ^ 62"
    "sint (fx_of_double fx_x86 3) < 0 \<or> sint (fx_of_double fx_x86 (-1)) < 0"
    unfolding vals by simp_all
  have "fx_to_double fx_x86 (2 ^ 63) = - (2 ^ 47)" by (simp add: fx_x86_def fx_real_def)
  then show ?thesis
    using auxiliary_minimum_wrong [OF aby3_ok_ref bin_ok_ref rv big aux st r] by metis
qed

end
