(* ===== verification/Missing_Values.thy ===== *)
theory Missing_Values
  imports Missing_Columns Statistics_Task
begin

text \<open>
  \<^verbatim>\<open>MissingProcess\<close> of \<^verbatim>\<open>algorithm/missing_val_processing.cc\<close>: three parties hold tables with missing or unreadable
  cells; in every numeric column such cells are replaced by the maximum, the minimum or the average over the
  columns of all parties, which is computed on shares. What one party does with its own column is
  in \<open>Missing_Columns\<close>.
\<close>

section \<open>State\<close>

record 'd MissingProcess =
  mp_party_name :: string
  mp_party_id :: nat
  mp_col_and_dtype :: "u32 std_map"
  mp_local_col_names :: "string list"
  mp_data_file_path :: string
  mp_dataset_id :: string
  mp_is_dataset_detail :: bool
  mp_replace_type :: string
  mp_conn_info :: string
  mp_table :: "'d mtable option"
  mp_db_both_index :: "nat list std_map"
  mp_use_db :: bool
  mp_table_name :: string
  mp_new_dataset_id :: string
  mp_new_dataset_path :: string
  mp_platform_type :: string
  mp_job_id :: string
  mp_task_id :: string

definition new_MissingProcess :: "PartyConfig \<Rightarrow> 'd MissingProcess" where
  "new_MissingProcess config = \<lparr>mp_party_name = pc_node_id config, mp_party_id = pc_party_id config, mp_col_and_dtype = [],
     mp_local_col_names = [], mp_data_file_path = [], mp_dataset_id = [], mp_is_dataset_detail = False, mp_replace_type = [],
     mp_conn_info = [], mp_table = None, mp_db_both_index = [], mp_use_db = False, mp_table_name = [],
     mp_new_dataset_id = [], mp_new_dataset_path = [], mp_platform_type = [], mp_job_id = [], mp_task_id = []\<rparr>"

definition set_task_info :: "string \<Rightarrow> string \<Rightarrow> string \<Rightarrow> 'd MissingProcess \<Rightarrow> 'd MissingProcess" where
  "set_task_info platform_type job_id task_id mp = mp\<lparr>mp_platform_type := platform_type, mp_job_id := job_id, mp_task_id := task_id\<rparr>"

section \<open>Parameters\<close>

text \<open>\<^verbatim>\<open>_spiltStr\<close>: the loop would not end for an empty separator.\<close>

partial_function (option) spilt_loop :: "string \<Rightarrow> string \<Rightarrow> string list \<Rightarrow> string list option" where
  "spilt_loop strs split strlist =
     (case find_rel split strs of
        None \<Rightarrow> Some strlist
      | Some pos \<Rightarrow> spilt_loop (drop (pos + length split) strs) split (strlist @ [take pos strs]))"

definition spiltStr :: "string \<Rightarrow> string \<Rightarrow> string list option" where
  "spiltStr str split = (if str = [] then Some [] else spilt_loop (str @ split) split [])"

text \<open>\<^verbatim>\<open>std::map::insert\<close> on a map whose order of iteration matters.\<close>

fun sorted_insert :: "string \<Rightarrow> 'v \<Rightarrow> 'v std_map \<Rightarrow> 'v std_map" where
  "sorted_insert k v [] = [(k, v)]"
| "sorted_insert k v ((k', v') # m) =
     (if k < k' then (k, v) # (k', v') # m else if k = k' then (k', v') # m else (k', v') # sorted_insert k v m)"

fun read_dtypes :: "(string \<times> json) list \<Rightarrow> u32 std_map \<Rightarrow> u32 std_map res" where
  "read_dtypes [] m = Inr m"
| "read_dtypes ((col_name, v) # ms) m = bindR (GetInt v) (\<lambda>n. read_dtypes ms (sorted_insert col_name (word_of_int n) m))"

definition mp_data_file :: "task_message \<Rightarrow> 'd MissingProcess \<Rightarrow> 'd MissingProcess res" where
  "mp_data_file task mp =
     (case map_of (tm_party_datasets task) (mp_party_name mp) of
        None \<Rightarrow> Inl (Code (-1))
      | Some ds \<Rightarrow>
          (case map_of (pd_data ds) ''Data_File'' of
             None \<Rightarrow> Inl (Code (-1))
           | Some file \<Rightarrow>
               if pd_detail ds then
                 (case map_of (tm_param_map task) ''Data_File'' of
                    None \<Rightarrow> Inl (Code (-1))
                  | Some path \<Rightarrow> Inr (mp\<lparr>mp_is_dataset_detail := True, mp_data_file_path := path, mp_dataset_id := file\<rparr>))
               else Inr (mp\<lparr>mp_data_file_path := file, mp_dataset_id := file\<rparr>)))"

text \<open>A path that begins with \<^verbatim>\<open>sqlite\<close> has a database and a table in its parts.\<close>

definition mp_database :: "'d MissingProcess \<Rightarrow> 'd MissingProcess res" where
  "mp_database mp =
     (if str_find (mp_data_file_path mp) ''sqlite'' 0 = Some 0 then
        (case spiltStr (mp_data_file_path mp) ''#'' of
           None \<Rightarrow> Inl (Undefined ''endless loop'')
         | Some conn_info \<Rightarrow>
             if length conn_info < 3 then Inl (Undefined ''reads past a vector'')
             else Inr (mp\<lparr>mp_use_db := True, mp_conn_info := mp_data_file_path mp,
               mp_data_file_path := conn_info ! 1, mp_table_name := conn_info ! 2\<rparr>))
      else Inr (mp\<lparr>mp_use_db := False\<rparr>))"

definition mp_column_info :: "(string \<Rightarrow> json option) \<Rightarrow> string \<Rightarrow> string \<Rightarrow> 'd MissingProcess \<Rightarrow> 'd MissingProcess res" where
  "mp_column_info parse storage_path json_str mp =
     (case parse json_str of
        None \<Rightarrow> Inl (Undefined ''not an object'')
      | Some doc \<Rightarrow>
          bindR (json_get doc (mp_data_file_path mp)) (\<lambda>doc_ds.
          bindR (json_get doc_ds ''columns'') (\<lambda>vals.
          bindR (case vals of JObj ms \<Rightarrow> read_dtypes ms (mp_col_and_dtype mp) | _ \<Rightarrow> Inl (Undefined ''not an object'')) (\<lambda>dtypes.
          bindR (json_get doc_ds ''newDataSetId'') (\<lambda>new_id. bindR (GetString new_id) (\<lambda>new_dataset_id.
            let path = (case json_get doc_ds ''outputFilePath'' of
                          Inr (JStr s) \<Rightarrow> s
                        | _ \<Rightarrow> ''./'' @ new_dataset_id @ ''.csv'') in
            Inr (mp\<lparr>mp_col_and_dtype := dtypes, mp_new_dataset_id := new_dataset_id,
              mp_new_dataset_path := CompletePath storage_path path\<rparr>)))))))"

definition mp_loadParams ::
  "(string \<Rightarrow> json option) \<Rightarrow> string \<Rightarrow> task_message \<Rightarrow> 'd MissingProcess \<Rightarrow> 'd MissingProcess res" where
  "mp_loadParams parse storage_path task mp =
     (if tm_proxy task = None then Inl (Code (-1))
      else bindR (mp_data_file task mp) (\<lambda>mp1.
        let rt = param (tm_param_map task) ''Replace_Type'' in
        bindR (mp_database (mp1\<lparr>mp_replace_type := (if rt = [] then ''MAX'' else rt)\<rparr>)) (\<lambda>mp2.
          mp_column_info parse storage_path (param (tm_param_map task) ''ColumnInfo'') mp2)))"

section \<open>Loading the table\<close>

text \<open>
  What is used of the dataset service and of Arrow's CSV reader: the path of the dataset's file, opening
  it, making a reader for columns that are forced to be text, and reading.
\<close>

record 'd csv_lib =
  csv_path :: "string \<Rightarrow> bool \<Rightarrow> string option"
  csv_open :: "string \<Rightarrow> bool"
  csv_make :: "string \<Rightarrow> bool"
  csv_read :: "string \<Rightarrow> string list \<Rightarrow> 'd mtable option"

text \<open>
  The check that all columns have as many values as the last one, and this number. The loop copies the values of every
  column as doubles, whatever the type of the column is, and does not use the copy; a column of another type is read
  through the wrong class.
\<close>

fun check_lengths :: "'d fp_cmp \<Rightarrow> nat \<Rightarrow> 'd mtable \<Rightarrow> int res" where
  "check_lengths C array_len [] = Inr (int array_len)"
| "check_lengths C array_len ((name, col) # cols) =
     bindR (as_doubles C col) (\<lambda>tmp_data.
       if col_length col \<noteq> array_len then Inr (-1) else check_lengths C array_len cols)"

definition same_lengths :: "'d fp_cmp \<Rightarrow> 'd mtable \<Rightarrow> int res" where
  "same_lengths C table =
     (if table = [] then Inl (Undefined ''column of an empty table'')
      else check_lengths C (col_length (snd (last table))) table)"

definition target_columns_of :: "u32 std_map \<Rightarrow> string list" where
  "target_columns_of m = map fst (filter (\<lambda>(name, t). t = 1 \<or> t = 2 \<or> t = 3) m)"

definition mp_LoadDatasetFromCSV :: "'d fp_cmp \<Rightarrow> 'd csv_lib \<Rightarrow> 'd MissingProcess \<Rightarrow> (int \<times> 'd MissingProcess) res" where
  "mp_LoadDatasetFromCSV C K mp =
     (case csv_path K (mp_dataset_id mp) (mp_is_dataset_detail mp) of
        None \<Rightarrow> Inr (-1, mp)
      | Some filename \<Rightarrow>
          if \<not> csv_open K filename then Inr (-1, mp)
          else if \<not> csv_make K filename then Inr (-2, mp)
          else
            (case csv_read K filename (target_columns_of (mp_col_and_dtype mp)) of
               None \<Rightarrow> Inr (-3, mp)
             | Some table \<Rightarrow>
                 bindR (same_lengths C table) (\<lambda>n.
                   Inr (n, mp\<lparr>mp_table := Some table, mp_local_col_names := map fst table\<rparr>))))"

text \<open>
  \<^verbatim>\<open>SQLiteDriver::read\<close> with a connection string returns no cursor; were there one, it would deliver a table
  and the rows to replace.
\<close>

definition SQLiteDriver_read :: "string \<Rightarrow> (u32 std_map \<Rightarrow> ('d mtable \<times> nat list std_map) option) option" where
  "SQLiteDriver_read conn_str = None"

definition mp_LoadDatasetFromDB :: "'d fp_cmp \<Rightarrow> 'd MissingProcess \<Rightarrow> (int \<times> 'd MissingProcess) res" where
  "mp_LoadDatasetFromDB C mp =
     (case SQLiteDriver_read (mp_conn_info mp) of
        None \<Rightarrow> Inr (-1, mp)
      | Some sql_cursor \<Rightarrow>
          (case sql_cursor (mp_col_and_dtype mp) of
             None \<Rightarrow> Inr (-1, mp)
           | Some (table, both_index) \<Rightarrow>
               bindR (same_lengths C table) (\<lambda>n.
                 Inr (n, mp\<lparr>mp_table := Some table, mp_db_both_index := both_index, mp_local_col_names := map fst table\<rparr>))))"

definition mp_loadDataset :: "'d fp_cmp \<Rightarrow> 'd csv_lib \<Rightarrow> 'd MissingProcess \<Rightarrow> 'd MissingProcess res" where
  "mp_loadDataset C K mp =
     bindR (if mp_use_db mp then mp_LoadDatasetFromDB C mp else mp_LoadDatasetFromCSV C K mp) (\<lambda>(ret, mp1).
       if ret \<le> 0 then Inl (Code (-1)) else Inr mp1)"

section \<open>The value that all parties agree on\<close>

text \<open>
  Two comparisons find the party with the extreme value. For a maximum the second of two numbers wins when the
  first is smaller, for a minimum when it is not.
\<close>

definition extreme_party ::
  "('b, 'rt) bin_lib \<Rightarrow> ('b, 'rt) reveal_lib \<Rightarrow> bool \<Rightarrow> (nat \<Rightarrow> mat) \<Rightarrow> 'rt \<Rightarrow> (nat \<times> (nat \<Rightarrow> mat) \<times> 'rt) res" where
  "extreme_party B V find_max m rt =
     bindR (compare_two B V 0 1 m rt) (\<lambda>(mpc_res, m1, rt1).
       let flag = (if mpc_res = find_max then 1 else 0) in
       bindR (compare_two B V flag 2 m1 rt1) (\<lambda>(mpc_res2, m2, rt2).
         Inr (if mpc_res2 = find_max then 2 else flag, m2, rt2)))"

definition announce_int ::
  "'rt aby3_lib \<Rightarrow> ('b, 'rt) reveal_lib \<Rightarrow> nat \<Rightarrow> (nat \<Rightarrow> mat) \<Rightarrow> 'rt \<Rightarrow> (i64 \<times> 'rt) res" where
  "announce_int L V party m rt =
     bindR (lib_local_int L party (m party) (\<lambda>p. (1, 1)) rt) (\<lambda>(sh, rt1).
     bindR (lib_revealAll V sh rt1) (\<lambda>(plain, rt2).
       case m_data plain of
         [] \<Rightarrow> Inl (Undefined ''element of an empty matrix'')
       | v # _ \<Rightarrow> Inr (v, rt2)))"

text \<open>The average: all parties share their sum and their count, the totals are revealed and divided.\<close>

definition sum_matrix :: "i64 \<Rightarrow> i64 \<Rightarrow> mat" where
  "sum_matrix s n = \<lparr>m_rows = 2, m_cols = 1, m_data = [s, n]\<rparr>"

definition total_of_all ::
  "'rt aby3_lib \<Rightarrow> ('b, 'rt) reveal_lib \<Rightarrow> (nat \<Rightarrow> mat) \<Rightarrow> 'rt \<Rightarrow> ((i64 \<times> i64) \<times> 'rt) res" where
  "total_of_all L V m rt =
     bindR (lib_local_int L 0 (m 0) (\<lambda>p. (2, 1)) rt) (\<lambda>(S0, rt0).
     bindR (lib_local_int L 1 (m 1) (\<lambda>p. (2, 1)) rt0) (\<lambda>(S1, rt1).
     bindR (lib_local_int L 2 (m 2) (\<lambda>p. (2, 1)) rt1) (\<lambda>(S2, rt2).
     bindR (lib_revealAll V (\<lambda>p. lib_add L (lib_add L (S0 p) (S1 p)) (S2 p)) rt2) (\<lambda>(plain_sum, rt3).
       case m_data plain_sum of
         [s, n] \<Rightarrow> Inr ((s, n), rt3)
       | _ \<Rightarrow> Inl (Undefined ''element of an empty matrix'')))))"

text \<open>Division of integers rounds towards zero and stops the program for a zero divisor.\<close>

definition trunc_div :: "int \<Rightarrow> int \<Rightarrow> int" where
  "trunc_div a b = sgn a * sgn b * (\<bar>a\<bar> div \<bar>b\<bar>)"

definition divide_i64 :: "i64 \<Rightarrow> i64 \<Rightarrow> i64 res" where
  "divide_i64 a b = (if b = 0 then Inl (Undefined ''division by zero'') else Inr (word_of_int (trunc_div (sint a) (sint b))))"

definition int_max_value ::
  "'rt aby3_lib \<Rightarrow> ('b, 'rt) bin_lib \<Rightarrow> ('b, 'rt) reveal_lib \<Rightarrow> (nat \<Rightarrow> i64 pass) \<Rightarrow> 'rt \<Rightarrow> (i64 \<times> 'rt) res" where
  "int_max_value L B V ps rt =
     bindR (extreme_party B V True (\<lambda>p. number (ps_max (ps p))) rt) (\<lambda>(flag, m, rt1). announce_int L V flag m rt1)"

definition int_min_value ::
  "'rt aby3_lib \<Rightarrow> ('b, 'rt) bin_lib \<Rightarrow> ('b, 'rt) reveal_lib \<Rightarrow> (nat \<Rightarrow> i64 pass) \<Rightarrow> 'rt \<Rightarrow> (i64 \<times> 'rt) res" where
  "int_min_value L B V ps rt =
     bindR (extreme_party B V False (\<lambda>p. number (ps_min (ps p))) rt) (\<lambda>(flag, m, rt1). announce_int L V flag m rt1)"

definition int_avg_value ::
  "'rt aby3_lib \<Rightarrow> ('b, 'rt) reveal_lib \<Rightarrow> (nat \<Rightarrow> i64 pass) \<Rightarrow> 'rt \<Rightarrow> (i64 \<times> 'rt) res" where
  "int_avg_value L V ps rt =
     bindR (total_of_all L V (\<lambda>p. sum_matrix (ps_sum (ps p)) (ucast (ps_count (ps p)))) rt) (\<lambda>((s, n), rt1).
     bindR (divide_i64 s n) (\<lambda>col_avg. Inr (col_avg, rt1)))"

text \<open>An unknown way to replace is not noticed: nothing is computed and nothing replaced.\<close>

definition int_value ::
  "'rt aby3_lib \<Rightarrow> ('b, 'rt) bin_lib \<Rightarrow> ('b, 'rt) reveal_lib \<Rightarrow> string \<Rightarrow> (nat \<Rightarrow> i64 pass) \<Rightarrow> 'rt \<Rightarrow> (i64 option \<times> 'rt) res" where
  "int_value L B V replace_type ps rt =
     (if replace_type = ''MAX'' then bindR (int_max_value L B V ps rt) (\<lambda>(v, rt1). Inr (Some v, rt1))
      else if replace_type = ''MIN'' then bindR (int_min_value L B V ps rt) (\<lambda>(v, rt1). Inr (Some v, rt1))
      else if replace_type = ''AVG'' then bindR (int_avg_value L V ps rt) (\<lambda>(v, rt1). Inr (Some v, rt1))
      else Inr (None, rt))"

text \<open>For doubles the comparison and the totals work on fixed-point numbers.\<close>

definition double_max_value ::
  "'rt aby3_lib \<Rightarrow> ('d, 'rt) fx_lib \<Rightarrow> ('b, 'rt) bin_lib \<Rightarrow> ('b, 'rt) reveal_lib \<Rightarrow> (nat \<Rightarrow> 'd pass) \<Rightarrow> 'rt \<Rightarrow> ('d \<times> 'rt) res" where
  "double_max_value L X B V ps rt =
     bindR (extreme_party B V True (\<lambda>p. number (fx_of_double X (ps_max (ps p)))) rt) (\<lambda>(flag, m, rt1). announce L X V flag m rt1)"

definition double_min_value ::
  "'rt aby3_lib \<Rightarrow> ('d, 'rt) fx_lib \<Rightarrow> ('b, 'rt) bin_lib \<Rightarrow> ('b, 'rt) reveal_lib \<Rightarrow> (nat \<Rightarrow> 'd pass) \<Rightarrow> 'rt \<Rightarrow> ('d \<times> 'rt) res" where
  "double_min_value L X B V ps rt =
     bindR (extreme_party B V False (\<lambda>p. number (fx_of_double X (ps_min (ps p)))) rt) (\<lambda>(flag, m, rt1). announce L X V flag m rt1)"

definition double_avg_value ::
  "'rt aby3_lib \<Rightarrow> ('d, 'rt) fx_lib \<Rightarrow> 'd fp_ops \<Rightarrow> ('b, 'rt) reveal_lib \<Rightarrow> (nat \<Rightarrow> 'd pass) \<Rightarrow> 'rt \<Rightarrow> ('d \<times> 'rt) res" where
  "double_avg_value L X F V ps rt =
     bindR (total_of_all L V (\<lambda>p. sum_matrix (fx_of_double X (ps_sum (ps p)))
         (fx_of_double X (fp_of_i64 F (ucast (ps_count (ps p)))))) rt) (\<lambda>((s, n), rt1).
       Inr (fp_div F (fx_to_double X s) (fx_to_double X n), rt1))"

definition double_value ::
  "'rt aby3_lib \<Rightarrow> ('d, 'rt) fx_lib \<Rightarrow> 'd fp_ops \<Rightarrow> ('b, 'rt) bin_lib \<Rightarrow> ('b, 'rt) reveal_lib \<Rightarrow> string \<Rightarrow> (nat \<Rightarrow> 'd pass) \<Rightarrow> 'rt \<Rightarrow>
   ('d option \<times> 'rt) res" where
  "double_value L X F B V replace_type ps rt =
     (if replace_type = ''MAX'' then bindR (double_max_value L X B V ps rt) (\<lambda>(v, rt1). Inr (Some v, rt1))
      else if replace_type = ''MIN'' then bindR (double_min_value L X B V ps rt) (\<lambda>(v, rt1). Inr (Some v, rt1))
      else if replace_type = ''AVG'' then bindR (double_avg_value L X F V ps rt) (\<lambda>(v, rt1). Inr (Some v, rt1))
      else Inr (None, rt))"

section \<open>Execution\<close>

text \<open>What a party receives from itself, from the next and from the previous party.\<close>

definition exchange :: "(nat \<Rightarrow> 'a) \<Rightarrow> nat \<Rightarrow> 'a \<times> 'a \<times> 'a" where
  "exchange sent p = (sent p, sent ((p + 1) mod 3), sent ((p + 2) mod 3))"

definition agree :: "'a \<times> 'a \<times> 'a \<Rightarrow> bool" where
  "agree r = (case r of (a, b, c) \<Rightarrow> a = b \<and> a = c \<and> b = c)"

text \<open>An exception leaves \<^verbatim>\<open>execute\<close> with the party's number in front.\<close>

definition in_party :: "nat \<Rightarrow> 'a res \<Rightarrow> 'a res" where
  "in_party p r = (case r of Inl (Raised e) \<Rightarrow> Inl (Raised (''In party '' @ to_string_nat p @ '': '' @ e)) | _ \<Rightarrow> r)"

definition check_columns :: "(nat \<Rightarrow> 'd MissingProcess) \<Rightarrow> unit res" where
  "check_columns sts =
     bindR (par3 (\<lambda>p. in_party p (
       if agree (exchange (\<lambda>q. length (mp_col_and_dtype (sts q))) p) then Inr ()
       else Inl (Raised ''The target data columns of the three parties are inconsistent!'')))) (\<lambda>_.
     bindR (par3 (\<lambda>p. in_party p (
       if agree (exchange (\<lambda>q. map snd (mp_col_and_dtype (sts q))) p) then Inr ()
       else Inl (Raised ''The data column types of the three parties are inconsistent!'')))) (\<lambda>_. Inr ()))"

fun position :: "string \<Rightarrow> string list \<Rightarrow> nat option" where
  "position x [] = None"
| "position x (y # ys) = (if y = x then Some 0 else map_option Suc (position x ys))"

datatype 'd local_pass = NoColumn | OtherType nat | IntPass nat "i64 pass" | DoublePass nat "'d pass"

definition marked_rows :: "'d MissingProcess \<Rightarrow> string \<Rightarrow> nat list option" where
  "marked_rows mp name =
     (if mp_use_db mp then Some (case map_of (mp_db_both_index mp) name of Some rows \<Rightarrow> rows | None \<Rightarrow> []) else None)"

text \<open>The part of the loop body that works on the party's own column.\<close>

definition local_part ::
  "'d fp_ops \<Rightarrow> 'd fp_cmp \<Rightarrow> 'd fp_text \<Rightarrow> 'd MissingProcess \<Rightarrow> string \<times> u32 \<Rightarrow> 'd local_pass res" where
  "local_part F C T mp col =
     (case col of (name, dtype) \<Rightarrow>
        (case position name (mp_local_col_names mp) of
           None \<Rightarrow> Inr NoColumn
         | Some col_index \<Rightarrow>
             bindR (deref (mp_table mp)) (\<lambda>table.
               if dtype = 1 \<or> dtype = 3 then
                 bindR (int_pass C table col_index (marked_rows mp name)) (\<lambda>ps. Inr (IntPass col_index ps))
               else if dtype = 2 then
                 bindR (double_pass F C T table col_index (marked_rows mp name)) (\<lambda>ps. Inr (DoublePass col_index ps))
               else Inr (OtherType col_index))))"

definition put_value ::
  "'d fp_cmp \<Rightarrow> 'd fp_text \<Rightarrow> 'd replacement \<Rightarrow> nat \<Rightarrow> nat list list \<Rightarrow> string \<Rightarrow> 'd MissingProcess \<Rightarrow> 'd MissingProcess res" where
  "put_value C T v col_index abnormal_index name mp =
     bindR (deref (mp_table mp)) (\<lambda>table.
     bindR (replaceValue C T name table col_index v abnormal_index (marked_rows mp name)) (\<lambda>t.
       Inr (mp\<lparr>mp_table := Some t\<rparr>)))"

fun the_int :: "'d local_pass \<Rightarrow> (nat \<times> i64 pass) option" where
  "the_int (IntPass i ps) = Some (i, ps)"
| "the_int _ = None"

fun the_double :: "'d local_pass \<Rightarrow> (nat \<times> 'd pass) option" where
  "the_double (DoublePass i ps) = Some (i, ps)"
| "the_double _ = None"

definition is_other :: "'d local_pass \<Rightarrow> bool" where
  "is_other l \<longleftrightarrow> (case l of OtherType _ \<Rightarrow> True | _ \<Rightarrow> False)"

definition all3 :: "(nat \<Rightarrow> bool) \<Rightarrow> bool" where
  "all3 P \<longleftrightarrow> P 0 \<and> P 1 \<and> P 2"

text \<open>
  The loop body at all parties; \<open>cols p\<close> is the entry that party \<open>p\<close> has reached. A party without the column
  goes on to the next entry: when the others have it, the parties no longer talk about the same thing.
\<close>

definition process_column ::
  "'rt aby3_lib \<Rightarrow> ('d, 'rt) fx_lib \<Rightarrow> 'd fp_ops \<Rightarrow> 'd fp_cmp \<Rightarrow> 'd fp_text \<Rightarrow> ('b, 'rt) bin_lib \<Rightarrow> ('b, 'rt) reveal_lib \<Rightarrow>
   (nat \<Rightarrow> string \<times> u32) \<Rightarrow> (nat \<Rightarrow> 'd MissingProcess) \<Rightarrow> 'rt \<Rightarrow> ((nat \<Rightarrow> 'd MissingProcess) \<times> 'rt) res" where
  "process_column L X F C T B V cols sts rt =
     bindR (par3 (\<lambda>p. in_party p (local_part F C T (sts p) (cols p)))) (\<lambda>l.
       let rty = (\<lambda>p. mp_replace_type (sts p)) in
       if all3 (\<lambda>p. l p = NoColumn) then Inr (sts, rt)
       else if \<not> all3 (\<lambda>p. rty p = rty 0) then Inl (Undefined ''parties disagree'')
       else if all3 (\<lambda>p. is_other (l p)) then Inr (sts, rt)
       else if all3 (\<lambda>p. the_int (l p) \<noteq> None) then
         let ps = (\<lambda>p. the (the_int (l p))) in
         bindR (int_value L B V (rty 0) (\<lambda>p. snd (ps p)) rt) (\<lambda>(v, rt1).
           case v of
             None \<Rightarrow> Inr (sts, rt1)
           | Some x \<Rightarrow> bindR (par3 (\<lambda>p. in_party p (put_value C T (ReplaceInt x) (fst (ps p)) (ps_abnormal (snd (ps p))) (fst (cols p)) (sts p)))) (\<lambda>sts1.
               Inr (sts1, rt1)))
       else if all3 (\<lambda>p. the_double (l p) \<noteq> None) then
         let ps = (\<lambda>p. the (the_double (l p))) in
         bindR (double_value L X F B V (rty 0) (\<lambda>p. snd (ps p)) rt) (\<lambda>(v, rt1).
           case v of
             None \<Rightarrow> Inr (sts, rt1)
           | Some x \<Rightarrow> bindR (par3 (\<lambda>p. in_party p (put_value C T (ReplaceDouble x) (fst (ps p)) (ps_abnormal (snd (ps p))) (fst (cols p)) (sts p)))) (\<lambda>sts1.
               Inr (sts1, rt1)))
       else Inl (Undefined ''parties disagree''))"

fun process_columns ::
  "((nat \<Rightarrow> string \<times> u32) \<Rightarrow> 's \<Rightarrow> 'rt \<Rightarrow> ('s \<times> 'rt) res) \<Rightarrow> (nat \<Rightarrow> string \<times> u32) list \<Rightarrow> 's \<Rightarrow> 'rt \<Rightarrow> ('s \<times> 'rt) res" where
  "process_columns step [] sts rt = Inr (sts, rt)"
| "process_columns step (cols # rest) sts rt = bindR (step cols sts rt) (\<lambda>(sts1, rt1). process_columns step rest sts1 rt1)"

definition mp_execute ::
  "'rt aby3_lib \<Rightarrow> ('d, 'rt) fx_lib \<Rightarrow> 'd fp_ops \<Rightarrow> 'd fp_cmp \<Rightarrow> 'd fp_text \<Rightarrow> ('b, 'rt) bin_lib \<Rightarrow> ('b, 'rt) reveal_lib \<Rightarrow>
   (nat \<Rightarrow> 'd MissingProcess) \<Rightarrow> 'rt \<Rightarrow> ((nat \<Rightarrow> 'd MissingProcess) \<times> 'rt) res" where
  "mp_execute L X F C T B V sts rt =
     bindR (check_columns sts) (\<lambda>_.
       process_columns (process_column L X F C T B V)
         (map (\<lambda>i p. mp_col_and_dtype (sts p) ! i) [0..<length (mp_col_and_dtype (sts 0))]) sts rt)"

section \<open>Saving, and the task\<close>

text \<open>The table goes to a new CSV file (\<open>write\<close>), which is registered under the new id.\<close>

definition mp_saveModel ::
  "(string \<Rightarrow> 'd mtable \<Rightarrow> bool) \<Rightarrow> 'd MissingProcess \<Rightarrow> (string \<times> string \<times> 'd mtable) res" where
  "mp_saveModel write mp =
     bindR (deref (mp_table mp)) (\<lambda>table.
       if write (mp_new_dataset_path mp) table then Inr (mp_new_dataset_id mp, mp_new_dataset_path mp, table)
       else Inl (Code (-1)))"

definition missing_task ::
  "'rt aby3_lib \<Rightarrow> ('d, 'rt) fx_lib \<Rightarrow> 'd fp_ops \<Rightarrow> 'd fp_cmp \<Rightarrow> 'd fp_text \<Rightarrow> ('b, 'rt) bin_lib \<Rightarrow> ('b, 'rt) reveal_lib \<Rightarrow>
   (string \<Rightarrow> json option) \<Rightarrow> string \<Rightarrow> (nat \<Rightarrow> PartyConfig) \<Rightarrow> (nat \<Rightarrow> task_message) \<Rightarrow> (nat \<Rightarrow> 'd csv_lib) \<Rightarrow>
   (nat \<Rightarrow> string \<Rightarrow> 'd mtable \<Rightarrow> bool) \<Rightarrow> 'rt \<Rightarrow> ((nat \<Rightarrow> string \<times> string \<times> 'd mtable) \<times> 'rt) res" where
  "missing_task L X F C T B V parse storage_path config task K write rt =
     ExecuteImpl (\<lambda>p. mp_loadParams parse storage_path (task p) (new_MissingProcess (config p)))
       (\<lambda>p. mp_loadDataset C (K p)) (\<lambda>p mp. Inr mp) (mp_execute L X F C T B V) (\<lambda>p. mp_saveModel (write p)) rt"

section \<open>Lemmas on the parameters and the loading\<close>

text \<open>For the separator that is used, the loop ends and splits as \<^verbatim>\<open>str_split\<close> does.\<close>

lemma find_rel_char: "find_rel [c] s = (if c \<in> set s then Some (length (takeWhile (\<lambda>x. x \<noteq> c) s)) else None)"
  by (induction s) auto

lemma spilt_loop_char: "spilt_loop (str @ [c]) [c] acc = Some (acc @ str_split str c)"
proof (induction str c arbitrary: acc rule: str_split.induct)
  case (1 str c)
  let ?w = "takeWhile (\<lambda>x. x \<noteq> c) str"
  show ?case
  proof (cases "dropWhile (\<lambda>x. x \<noteq> c) str")
    case Nil
    then have w: "c \<notin> set str" "?w = str" by (auto simp: dropWhile_eq_Nil_conv takeWhile_eq_all_conv)
    then have "find_rel [c] (str @ [c]) = Some (length str)" by (simp add: find_rel_char takeWhile_append2)
    then have "spilt_loop (str @ [c]) [c] acc = spilt_loop [] [c] (acc @ [str])"
      by (simp add: spilt_loop.simps [of "str @ [c]"])
    also have "\<dots> = Some (acc @ [str])" by (simp add: spilt_loop.simps [of "[]"])
    also have "[str] = str_split str c" by (subst str_split.simps) (simp only: Let_def Nil w list.case)
    finally show ?thesis .
  next
    case (Cons x rest)
    then have x: "x = c" using hd_dropWhile [of "\<lambda>x. x \<noteq> c" str] by simp
    have str: "str = ?w @ c # rest" using takeWhile_dropWhile_id [of "\<lambda>x. x \<noteq> c" str] Cons x by simp
    then have "c \<in> set str" by (metis in_set_conv_decomp)
    then have "find_rel [c] (str @ [c]) = Some (length ?w)" by (simp add: find_rel_char takeWhile_append1)
    moreover have "drop (length ?w + 1) (str @ [c]) = rest @ [c]" "take (length ?w) (str @ [c]) = ?w"
      by (subst str, simp)+
    ultimately have "spilt_loop (str @ [c]) [c] acc = spilt_loop (rest @ [c]) [c] (acc @ [?w])"
      by (simp add: spilt_loop.simps [of "str @ [c]"])
    then show ?thesis using 1 [OF refl, of x rest "acc @ [?w]"] Cons by (simp add: str_split.simps [of str c])
  qed
qed

lemma spiltStr_char: "str \<noteq> [] \<Longrightarrow> spiltStr str [c] = Some (str_split str c)"
  using spilt_loop_char [of str c "[]"] by (simp add: spiltStr_def)

text \<open>The map of column types stays sorted by name, so that its order does not depend on the document.\<close>

lemma sorted_insert_keys: "set (map fst (sorted_insert k v m)) = insert k (set (map fst m))"
  by (induction k v m rule: sorted_insert.induct) (simp_all add: insert_commute)

lemma sorted_insert_sorted: "sorted_wrt (<) (map fst m) \<Longrightarrow> sorted_wrt (<) (map fst (sorted_insert k v m))"
proof (induction m)
  case (Cons e m)
  obtain k' v' where e: "e = (k', v')" by (cases e)
  show ?case
  proof (cases "k < k' \<or> k = k'")
    case True
    then show ?thesis using Cons.prems e by auto
  next
    case False
    then have "k' < k" using less_linear by blast
    then have "\<forall>y \<in> set (map fst (sorted_insert k v m)). k' < y" using Cons.prems e by (simp add: sorted_insert_keys del: set_map)
    then show ?thesis using Cons False e by simp
  qed
qed simp

lemma read_dtypes_sorted:
  "read_dtypes ms m = Inr m' \<Longrightarrow> sorted_wrt (<) (map fst m) \<Longrightarrow> sorted_wrt (<) (map fst m')"
  by (induction ms m rule: read_dtypes.induct) (auto simp: sorted_insert_sorted)

lemma database_never_loads: "mp_use_db mp \<Longrightarrow> mp_loadDataset C K mp = Inl (Code (-1))"
  by (simp add: mp_loadDataset_def mp_LoadDatasetFromDB_def SQLiteDriver_read_def)

section \<open>Lemmas on the agreed value\<close>

lemmas int_value_defs = int_value_def int_max_value_def int_min_value_def int_avg_value_def

lemma extreme_party_ok:
  assumes "bin_ok B" "reveal_ok B V" "\<forall>p \<in> {0, 1, 2}. m p = number (a p)"
    and "\<forall>p \<in> {0, 1, 2}. \<bar>sint (a p)\<bar> < 2 ^ 62"
  shows "\<exists>w \<in> {0, 1, 2}. \<exists>rt'. extreme_party B V find_max m rt = Inr (w, m, rt') \<and>
    (\<forall>p \<in> {0, 1, 2}. if find_max then sint (a p) \<le> sint (a w) else sint (a w) \<le> sint (a p))"
proof -
  have c: "\<exists>rt'. compare_two B V i j m rt = Inr (sint (a i) < sint (a j), m, rt')"
    if "two_of_three k i j" for i j k rt
  proof -
    have ij: "i \<in> {0, 1, 2}" "j \<in> {0, 1, 2}" using that by (auto simp: two_of_three_def)
    have "- (2 ^ 63) \<le> sint (a i) - sint (a j)" "sint (a i) - sint (a j) < 2 ^ 63"
      using bspec [OF assms(4) ij(1)] bspec [OF assms(4) ij(2)] by (auto simp: abs_less_iff)
    then show ?thesis by (rule compare_two_ok [OF assms(1,2) that bspec [OF assms(3) ij(1)] bspec [OF assms(3) ij(2)]])
  qed
  obtain rt1 where 1: "compare_two B V 0 1 m rt = Inr (sint (a 0) < sint (a 1), m, rt1)"
    using c [of 2 0 1] by (auto simp: two_of_three_def)
  obtain rt2 where 2: "compare_two B V 0 2 m rt1 = Inr (sint (a 0) < sint (a 2), m, rt2)"
    using c [of 1 0 2] by (auto simp: two_of_three_def)
  obtain rt3 where 3: "compare_two B V 1 2 m rt1 = Inr (sint (a 1) < sint (a 2), m, rt3)"
    using c [of 0 1 2] by (auto simp: two_of_three_def)
  show ?thesis
  proof (cases "(sint (a 0) < sint (a 1)) = find_max")
    case True
    then have e: "extreme_party B V find_max m rt = Inr (if (sint (a 1) < sint (a 2)) = find_max then 2 else 1, m, rt3)"
      using 1 3 by (simp add: extreme_party_def Let_def)
    show ?thesis unfolding e using True by (cases find_max; cases "sint (a 1) < sint (a 2)") simp_all
  next
    case False
    then have e: "extreme_party B V find_max m rt = Inr (if (sint (a 0) < sint (a 2)) = find_max then 2 else 0, m, rt2)"
      using 1 2 by (simp add: extreme_party_def Let_def)
    show ?thesis unfolding e using False by (cases find_max; cases "sint (a 0) < sint (a 2)") simp_all
  qed
qed

lemma announce_int_ok:
  assumes "aby3_ok L" "reveal_ok B V" "party \<in> {0, 1, 2}" "m party = number v"
  shows "\<exists>rt'. announce_int L V party m rt = Inr (v, rt')"
proof -
  have "party < 3" using assms(3) by auto
  moreover have "mat_ok (number v)" "shape (number v) = (1, 1)" by (simp_all add: number_def mat_ok_def shape_def)
  ultimately obtain S rt1 where "lib_local_int L party (number v) (\<lambda>p. (1, 1)) rt = Inr (S, rt1)" "sharing S (number v)"
    using lib_local [OF assms(1), of party "number v" "\<lambda>p. (1, 1)" rt] by auto
  moreover from this(2) obtain rt2 where "lib_revealAll V S rt1 = Inr (number v, rt2)"
    using assms(2) unfolding reveal_ok_def by blast
  ultimately show ?thesis using assms(4) by (simp add: announce_int_def number_def)
qed

lemma total_of_all_ok:
  assumes "aby3_ok L" "reveal_ok B V" "\<forall>p \<in> {0, 1, 2}. m p = sum_matrix (s p) (n p)"
  shows "\<exists>rt'. total_of_all L V m rt = Inr ((s 0 + s 1 + s 2, n 0 + n 1 + n 2), rt')"
proof -
  have ok: "mat_ok (sum_matrix s n)" "shape (sum_matrix s n) = (2, 1)" for s n
    by (simp_all add: sum_matrix_def mat_ok_def shape_def)
  have sh: "\<exists>S rt'. lib_local_int L p (m p) (\<lambda>q. (2, 1)) rt = Inr (S, rt') \<and> sharing S (sum_matrix (s p) (n p))"
    if "p \<in> {0, 1, 2}" for p rt
    using lib_local [OF assms(1), of p "sum_matrix (s p) (n p)" "\<lambda>q. (2, 1)" rt] bspec [OF assms(3) that] that ok by auto
  obtain S0 rt0 where 0: "lib_local_int L 0 (m 0) (\<lambda>q. (2, 1)) rt = Inr (S0, rt0)" "sharing S0 (sum_matrix (s 0) (n 0))"
    using sh [of 0 rt] by blast
  obtain S1 rt1 where 1: "lib_local_int L 1 (m 1) (\<lambda>q. (2, 1)) rt0 = Inr (S1, rt1)" "sharing S1 (sum_matrix (s 1) (n 1))"
    using sh [of 1 rt0] by blast
  obtain S2 rt2 where 2: "lib_local_int L 2 (m 2) (\<lambda>q. (2, 1)) rt1 = Inr (S2, rt2)" "sharing S2 (sum_matrix (s 2) (n 2))"
    using sh [of 2 rt1] by blast
  have "sharing (\<lambda>p. lib_add L (lib_add L (S0 p) (S1 p)) (S2 p))
      (map2_mat (+) (map2_mat (+) (sum_matrix (s 0) (n 0)) (sum_matrix (s 1) (n 1))) (sum_matrix (s 2) (n 2)))"
    using assms(1) 0(2) 1(2) 2(2) ok by (intro share_add) simp_all
  also have "map2_mat (+) (map2_mat (+) (sum_matrix (s 0) (n 0)) (sum_matrix (s 1) (n 1))) (sum_matrix (s 2) (n 2)) =
      sum_matrix (s 0 + s 1 + s 2) (n 0 + n 1 + n 2)" by (simp add: map2_mat_def sum_matrix_def)
  finally obtain rt3 where "lib_revealAll V (\<lambda>p. lib_add L (lib_add L (S0 p) (S1 p)) (S2 p)) rt2 =
      Inr (sum_matrix (s 0 + s 1 + s 2) (n 0 + n 1 + n 2), rt3)"
    using assms(2) unfolding reveal_ok_def by blast
  then show ?thesis using 0(1) 1(1) 2(1) by (simp add: total_of_all_def sum_matrix_def)
qed

lemma lowest_minus:
  assumes "0 < sint v"
  shows "\<not> bit (- (2 ^ 63) - v :: i64) 63"
proof -
  have "- (2 ^ 63) - v = word_of_int (2 ^ 63 - sint v)"
    using word_of_int_eq_iff [where 'a = 64, of "- (2 ^ 63) - sint v" "2 ^ 63 - sint v"] by (simp add: take_bit_eq_mod mod_eq_dvd_iff)
  moreover have "sint (word_of_int (2 ^ 63 - sint v) :: i64) = 2 ^ 63 - sint v"
    using assms sint_range_size [of v] by (intro sint_small) (simp_all add: word_size)
  ultimately have "sint (- (2 ^ 63) - v) = 2 ^ 63 - sint v" by (simp only:)
  then show ?thesis using sint_range_size [of v] bit_last_iff [of "- (2 ^ 63) - v"] by (simp add: word_size)
qed

section \<open>Lemmas on the pass over integers\<close>

lemma add_values_fields:
  "sc_max (add_values add lt vs s) = foldl (\<lambda>m v. if lt m v then v else m) (sc_max s) vs"
  "sc_min (add_values add lt vs s) = foldl (\<lambda>m v. if lt v m then v else m) (sc_min s) vs"
  "sc_sum (add_values add lt vs s) = foldl add (sc_sum s) vs"
  by (induction vs arbitrary: s) (simp_all add: add_values_def take_value_def)

lemma foldl_slt_max: "sint (foldl (\<lambda>m v. if slt m v then v else m) a vs) = Max (insert (sint a) (sint ` set vs))"
proof (induction vs arbitrary: a)
  case (Cons v vs)
  have "Max (insert (sint a) (sint ` set (v # vs))) = max (sint a) (Max (insert (sint v) (sint ` set vs)))"
    by (simp add: Max_insert)
  also have "\<dots> = Max (insert (max (sint a) (sint v)) (sint ` set vs))"
    by (cases "vs = []") (simp_all add: Max_insert max.assoc)
  also have "\<dots> = Max (insert (sint (if slt a v then v else a)) (sint ` set vs))"
    by (simp add: slt_def max_def)
  finally show ?case using Cons by simp
qed simp

lemma foldl_slt_min: "sint (foldl (\<lambda>m v. if slt v m then v else m) a vs) = Min (insert (sint a) (sint ` set vs))"
proof (induction vs arbitrary: a)
  case (Cons v vs)
  have "Min (insert (sint a) (sint ` set (v # vs))) = min (sint a) (Min (insert (sint v) (sint ` set vs)))"
    by (simp add: Min_insert)
  also have "\<dots> = Min (insert (min (sint a) (sint v)) (sint ` set vs))"
    by (cases "vs = []") (simp_all add: Min_insert min.assoc)
  also have "\<dots> = Min (insert (sint (if slt v a then v else a)) (sint ` set vs))"
    by (simp add: slt_def min_def)
  finally show ?case using Cons by simp
qed simp

lemma foldl_plus_word: "foldl (+) a vs = a + word_of_int (sum_list (map sint vs))" for a :: i64
  by (induction vs arbitrary: a) (simp_all add: ac_simps)

lemma i64_limits:
  "sint (- (2 ^ 63) :: i64) = - (2 ^ 63)" "sint (2 ^ 63 - 1 :: i64) = 2 ^ 63 - 1"
  using sint_small [of "- (2 ^ 63)"] sint_small [of "2 ^ 63 - 1"] by simp_all

lemma sint_bounds: "- (2 ^ 63) \<le> sint v" "sint v < 2 ^ 63" for v :: i64
  using sint_range_size [of v] by (simp_all add: word_size)

text \<open>The integers that a party can read in the chunks of a column.\<close>

definition ints_of :: "string option list list \<Rightarrow> int list" where
  "ints_of chunks = map sint (readable int_cell (concat chunks))"

definition int_start :: "i64 scan" where
  "int_start = new_scan 0 (- (2 ^ 63)) (2 ^ 63 - 1)"

lemma int_text_pass:
  fixes chunks :: "string option list list"
  defines "ps \<equiv> text_pass (+) slt int_cell int_start (length (concat chunks)) chunks"
  shows "ps_abnormal ps = map (bad_from int_cell 0) chunks"
    and "ps_sum ps = word_of_int (sum_list (ints_of chunks))"
    and "ps_count ps = word_of_int (int (length (ints_of chunks)))"
    and "sint (ps_max ps) = Max (insert (- (2 ^ 63)) (set (ints_of chunks)))"
    and "sint (ps_min ps) = Min (insert (2 ^ 63 - 1) (set (ints_of chunks)))"
proof -
  obtain s abnormal where s: "scan_chunks (+) slt int_cell chunks int_start = (s, abnormal)" by fastforce
  obtain n k where nk: "abnormal = map (bad_from int_cell 0) chunks"
    "s = (add_values (+) slt (readable int_cell (concat chunks)) int_start)\<lparr>sc_abnormal_num := n, sc_null_num := k\<rparr>"
    "n + k + length (readable int_cell (concat chunks)) = length (concat chunks)"
    using scan_chunks_spec [OF s] by (auto simp: int_start_def new_scan_def)
  note fields = add_values_fields [where add = "(+)" and lt = slt and s = int_start]
  have start: "sc_sum int_start = 0" "sc_max int_start = - (2 ^ 63)" "sc_min int_start = 2 ^ 63 - 1"
    by (simp_all add: int_start_def new_scan_def)
  show "ps_abnormal ps = map (bad_from int_cell 0) chunks" using s nk(1) by (simp add: ps_def text_pass_def)
  show "ps_sum ps = word_of_int (sum_list (ints_of chunks))"
    using s nk(2) fields(3) by (simp add: ps_def text_pass_def start foldl_plus_word ints_of_def)
  have "int (length (concat chunks)) - int k - int n = int (length (ints_of chunks))"
    using nk(3) by (simp add: ints_of_def)
  moreover have "ps_count ps = word_of_int (int (length (concat chunks)) - int k - int n)"
    using s nk(2) by (simp add: ps_def text_pass_def)
  ultimately show "ps_count ps = word_of_int (int (length (ints_of chunks)))" by (simp only:)
  show "sint (ps_max ps) = Max (insert (- (2 ^ 63)) (set (ints_of chunks)))"
    using s nk(2) foldl_slt_max [of "- (2 ^ 63)"] by (simp add: ps_def text_pass_def fields start ints_of_def i64_limits del: foldl_map)
  show "sint (ps_min ps) = Min (insert (2 ^ 63 - 1) (set (ints_of chunks)))"
    using s nk(2) foldl_slt_min [of "2 ^ 63 - 1"] by (simp add: ps_def text_pass_def fields start ints_of_def i64_limits del: foldl_map)
qed

lemma ints_bounds: "x \<in> set (ints_of chunks) \<Longrightarrow> - (2 ^ 63) \<le> x \<and> x \<le> 2 ^ 63 - 1"
proof -
  assume "x \<in> set (ints_of chunks)"
  then obtain v :: i64 where "x = sint v" by (auto simp: ints_of_def)
  then show ?thesis using sint_bounds [of v] by linarith
qed

lemma int_pass_extremes:
  fixes chunks :: "string option list list"
  defines "ps \<equiv> text_pass (+) slt int_cell int_start (length (concat chunks)) chunks"
  assumes "ints_of chunks \<noteq> []"
  shows "sint (ps_max ps) = Max (set (ints_of chunks))" "sint (ps_min ps) = Min (set (ints_of chunks))"
proof -
  have "Max (set (ints_of chunks)) \<in> set (ints_of chunks)" "Min (set (ints_of chunks)) \<in> set (ints_of chunks)"
    using assms(2) by (simp_all add: Max_in Min_in)
  then have "- (2 ^ 63) \<le> Max (set (ints_of chunks))" "Min (set (ints_of chunks)) \<le> 2 ^ 63 - 1"
    using ints_bounds by blast+
  then show "sint (ps_max ps) = Max (set (ints_of chunks))" "sint (ps_min ps) = Min (set (ints_of chunks))"
    using int_text_pass(4,5) [of chunks] assms(2) by (simp_all add: ps_def)
qed

section \<open>Lemmas on one column\<close>

text \<open>The column \<open>name\<close> at position \<open>i\<close> of a table that came from a CSV file.\<close>

definition csv_column :: "'d MissingProcess \<Rightarrow> string \<Rightarrow> nat \<Rightarrow> string option list list \<Rightarrow> bool" where
  "csv_column mp name i chunks \<longleftrightarrow> \<not> mp_use_db mp \<and> position name (mp_local_col_names mp) = Some i \<and>
     (\<exists>table. mp_table mp = Some table \<and> i < length table \<and> table ! i = (name, Strs chunks) \<and> chunks \<noteq> [] \<and>
        chunk_count (snd (table ! 0)) = length chunks \<and> num_rows table = length (concat chunks))"

definition with_column :: "nat \<Rightarrow> string \<Rightarrow> 'd mcol \<Rightarrow> 'd MissingProcess \<Rightarrow> 'd MissingProcess" where
  "with_column i name c mp = mp\<lparr>mp_table := map_option (\<lambda>t. t[i := (name, c)]) (mp_table mp)\<rparr>"

definition int_dtype :: "u32 \<Rightarrow> bool" where
  "int_dtype t \<longleftrightarrow> t = 1 \<or> t = 3"

lemma local_part_int:
  assumes "csv_column mp name i chunks" "int_dtype t"
  shows "local_part F C T mp (name, t) = Inr (IntPass i (text_pass (+) slt int_cell int_start (length (concat chunks)) chunks))"
proof -
  obtain table where "mp_table mp = Some table" "table ! i = (name, Strs chunks)"
    "chunk_count (snd (table ! 0)) = length chunks" "num_rows table = length (concat chunks)"
    using assms(1) unfolding csv_column_def by blast
  then show ?thesis using assms
    by (auto simp: csv_column_def local_part_def int_pass_def marked_rows_def first_chunks_def Let_def int_start_def int_dtype_def)
qed

lemma length_fill [simp]: "length (fill_missing conv v cells) = length cells"
  by (simp add: fill_missing_def)

lemma put_value_int:
  assumes "csv_column mp name i chunks"
  shows "put_value C T (ReplaceInt v) i (map (bad_from int_cell 0) chunks) name mp =
    Inr (with_column i name (I64s [fill_missing int_cell v (concat chunks)]) mp)"
proof -
  obtain table where "mp_table mp = Some table" "i < length table" "table ! i = (name, Strs chunks)" "chunks \<noteq> []"
    "num_rows table = length (concat chunks)" using assms unfolding csv_column_def by blast
  moreover have "marked_rows mp name = None" using assms by (simp add: csv_column_def marked_rows_def)
  moreover have "col_length (I64s [fill_missing int_cell v (concat chunks)]) = length (concat chunks)"
    by (simp add: col_length_def)
  ultimately show ?thesis
    using build_text_int [of chunks T v]
    by (simp add: put_value_def replaceValue_def replacement_text_def SetColumn_def with_column_def Let_def del: length_concat)
qed

text \<open>What the cells are to be replaced by: \<open>vals\<close> are the integers of all parties.\<close>

definition replacement_ref :: "string \<Rightarrow> int list \<Rightarrow> int" where
  "replacement_ref replace_type vals =
     (if replace_type = ''MAX'' then Max (set vals) else if replace_type = ''MIN'' then Min (set vals)
      else trunc_div (sum_list vals) (int (length vals)))"

definition all_ints :: "(nat \<Rightarrow> string option list list) \<Rightarrow> int list" where
  "all_ints chunks = ints_of (chunks 0) @ ints_of (chunks 1) @ ints_of (chunks 2)"

text \<open>Every party can read a number; numbers, sums and counts are not too large.\<close>

definition ints_fit :: "(nat \<Rightarrow> string option list list) \<Rightarrow> bool" where
  "ints_fit chunks \<longleftrightarrow> (\<forall>p \<in> {0, 1, 2}. ints_of (chunks p) \<noteq> [] \<and> length (ints_of (chunks p)) < 2 ^ 32) \<and>
     (\<forall>x \<in> set (all_ints chunks). \<bar>x\<bar> < 2 ^ 62) \<and> \<bar>sum_list (all_ints chunks)\<bar> < 2 ^ 63"

lemma all_ints_set: "set (all_ints chunks) = set (ints_of (chunks 0)) \<union> set (ints_of (chunks 1)) \<union> set (ints_of (chunks 2))"
  by (simp add: all_ints_def Un_assoc)

lemma best_of_three:
  assumes "w \<in> {0, 1, 2}" "\<forall>p \<in> {0, 1, 2}. ints_of (chunks p) \<noteq> []"
  shows "\<forall>p \<in> {0, 1, 2}. Max (set (ints_of (chunks p))) \<le> Max (set (ints_of (chunks w))) \<Longrightarrow>
      Max (set (ints_of (chunks w))) = Max (set (all_ints chunks))"
    and "\<forall>p \<in> {0, 1, 2}. Min (set (ints_of (chunks w))) \<le> Min (set (ints_of (chunks p))) \<Longrightarrow>
      Min (set (ints_of (chunks w))) = Min (set (all_ints chunks))"
proof -
  have sub: "set (ints_of (chunks p)) \<subseteq> set (all_ints chunks)" if "p \<in> {0, 1, 2}" for p
    using that by (auto simp: all_ints_set)
  have ne: "set (ints_of (chunks p)) \<noteq> {}" if "p \<in> {0, 1, 2}" for p using assms(2) that by auto
  have mem: "\<exists>p \<in> {0, 1, 2}. x \<in> set (ints_of (chunks p))" if "x \<in> set (all_ints chunks)" for x
    using that by (auto simp: all_ints_set)
  show "Max (set (ints_of (chunks w))) = Max (set (all_ints chunks))"
    if m: "\<forall>p \<in> {0, 1, 2}. Max (set (ints_of (chunks p))) \<le> Max (set (ints_of (chunks w)))"
  proof (rule Max_eqI [symmetric])
    show "Max (set (ints_of (chunks w))) \<in> set (all_ints chunks)" using Max_in [OF _ ne [OF assms(1)]] sub [OF assms(1)] by auto
    fix y assume "y \<in> set (all_ints chunks)"
    then obtain p where p: "p \<in> {0, 1, 2}" "y \<in> set (ints_of (chunks p))" using mem by blast
    then show "y \<le> Max (set (ints_of (chunks w)))" using bspec [OF m p(1)] Max_ge [OF finite_set p(2)] by linarith
  qed simp
  show "Min (set (ints_of (chunks w))) = Min (set (all_ints chunks))"
    if m: "\<forall>p \<in> {0, 1, 2}. Min (set (ints_of (chunks w))) \<le> Min (set (ints_of (chunks p)))"
  proof (rule Min_eqI [symmetric])
    show "Min (set (ints_of (chunks w))) \<in> set (all_ints chunks)" using Min_in [OF _ ne [OF assms(1)]] sub [OF assms(1)] by auto
    fix y assume "y \<in> set (all_ints chunks)"
    then obtain p where p: "p \<in> {0, 1, 2}" "y \<in> set (ints_of (chunks p))" using mem by blast
    then show "Min (set (ints_of (chunks w))) \<le> y" using bspec [OF m p(1)] Min_le [OF finite_set p(2)] by linarith
  qed simp
qed

lemma word_of_sint: "sint v = k \<Longrightarrow> v = word_of_int k" for v :: i64
  by auto

lemma ucast_small:
  assumes "0 \<le> k" "k < 2 ^ 32"
  shows "(ucast (word_of_int k :: u32) :: i64) = word_of_int k"
  using assms by (intro word_uint_eqI) (simp add: uint_word_of_int take_bit_int_eq_self unsigned_ucast_eq)

lemma int_value_ok:
  assumes libs: "aby3_ok L" "bin_ok B" "reveal_ok B V" and fit: "ints_fit chunks"
    and rty: "replace_type \<in> {''MAX'', ''MIN'', ''AVG''}"
    and ps: "\<forall>p \<in> {0, 1, 2}. ps p = text_pass (+) slt int_cell int_start (length (concat (chunks p))) (chunks p)"
  shows "\<exists>rt'. int_value L B V replace_type ps rt = Inr (Some (word_of_int (replacement_ref replace_type (all_ints chunks))), rt')"
proof -
  have ne: "\<forall>p \<in> {0, 1, 2}. ints_of (chunks p) \<noteq> []" using fit unfolding ints_fit_def by blast
  have ext: "sint (ps_max (ps p)) = Max (set (ints_of (chunks p)))" "sint (ps_min (ps p)) = Min (set (ints_of (chunks p)))"
    if "p \<in> {0, 1, 2}" for p
    using int_pass_extremes [OF bspec [OF ne that]] bspec [OF ps that] by simp_all
  have small: "\<bar>x\<bar> < 2 ^ 62" if "x \<in> set (ints_of (chunks p))" "p \<in> {0, 1, 2}" for x p
    using fit that unfolding ints_fit_def all_ints_set by auto
  have s1: "\<forall>p \<in> {0, 1, 2}. \<bar>sint (ps_max (ps p))\<bar> < 2 ^ 62"
  proof
    fix p :: nat assume p: "p \<in> {0, 1, 2}"
    have "Max (set (ints_of (chunks p))) \<in> set (ints_of (chunks p))" using bspec [OF ne p] by (simp add: Max_in)
    then show "\<bar>sint (ps_max (ps p))\<bar> < 2 ^ 62" using small p ext(1) [OF p] by simp
  qed
  have s2: "\<forall>p \<in> {0, 1, 2}. \<bar>sint (ps_min (ps p))\<bar> < 2 ^ 62"
  proof
    fix p :: nat assume p: "p \<in> {0, 1, 2}"
    have "Min (set (ints_of (chunks p))) \<in> set (ints_of (chunks p))" using bspec [OF ne p] by (simp add: Min_in)
    then show "\<bar>sint (ps_min (ps p))\<bar> < 2 ^ 62" using small p ext(2) [OF p] by simp
  qed
  consider "replace_type = ''MAX''" | "replace_type = ''MIN''" | "replace_type = ''AVG''" using rty by blast
  then show ?thesis
  proof cases
    case 1
    obtain w rt1 where w: "w \<in> {0, 1, 2}" "extreme_party B V True (\<lambda>p. number (ps_max (ps p))) rt = Inr (w, \<lambda>p. number (ps_max (ps p)), rt1)"
      "\<forall>p \<in> {0, 1, 2}. sint (ps_max (ps p)) \<le> sint (ps_max (ps w))"
      using extreme_party_ok [OF libs(2,3), of "\<lambda>p. number (ps_max (ps p))" "\<lambda>p. ps_max (ps p)" True rt] s1 by auto
    obtain rt2 where a: "announce_int L V w (\<lambda>p. number (ps_max (ps p))) rt1 = Inr (ps_max (ps w), rt2)"
      using announce_int_ok [OF libs(1,3) w(1), of "\<lambda>p. number (ps_max (ps p))", OF refl] by blast
    have "\<forall>p \<in> {0, 1, 2}. Max (set (ints_of (chunks p))) \<le> Max (set (ints_of (chunks w)))" using w(3) ext(1) w(1) by metis
    then have "sint (ps_max (ps w)) = Max (set (all_ints chunks))" using best_of_three(1) [OF w(1) ne] ext(1) [OF w(1)] by simp
    from word_of_sint [OF this] show ?thesis using 1 w(2) a by (simp add: int_value_defs replacement_ref_def)
  next
    case 2
    obtain w rt1 where w: "w \<in> {0, 1, 2}" "extreme_party B V False (\<lambda>p. number (ps_min (ps p))) rt = Inr (w, \<lambda>p. number (ps_min (ps p)), rt1)"
      "\<forall>p \<in> {0, 1, 2}. sint (ps_min (ps w)) \<le> sint (ps_min (ps p))"
      using extreme_party_ok [OF libs(2,3), of "\<lambda>p. number (ps_min (ps p))" "\<lambda>p. ps_min (ps p)" False rt] s2 by auto
    obtain rt2 where a: "announce_int L V w (\<lambda>p. number (ps_min (ps p))) rt1 = Inr (ps_min (ps w), rt2)"
      using announce_int_ok [OF libs(1,3) w(1), of "\<lambda>p. number (ps_min (ps p))", OF refl] by blast
    have "\<forall>p \<in> {0, 1, 2}. Min (set (ints_of (chunks w))) \<le> Min (set (ints_of (chunks p)))" using w(3) ext(2) w(1) by metis
    then have "sint (ps_min (ps w)) = Min (set (all_ints chunks))" using best_of_three(2) [OF w(1) ne] ext(2) [OF w(1)] by simp
    from word_of_sint [OF this] show ?thesis using 2 w(2) a by (simp add: int_value_defs replacement_ref_def)
  next
    case 3
    let ?s = "\<lambda>p. word_of_int (sum_list (ints_of (chunks p))) :: i64" and ?n = "\<lambda>p. word_of_int (int (length (ints_of (chunks p)))) :: i64"
    have m: "\<forall>p \<in> {0, 1, 2}. sum_matrix (ps_sum (ps p)) (ucast (ps_count (ps p))) = sum_matrix (?s p) (?n p)"
    proof
      fix p :: nat assume p: "p \<in> {0, 1, 2}"
      have "length (ints_of (chunks p)) < 2 ^ 32" using fit p unfolding ints_fit_def by blast
      then show "sum_matrix (ps_sum (ps p)) (ucast (ps_count (ps p))) = sum_matrix (?s p) (?n p)"
        using int_text_pass(2,3) [of "chunks p"] bspec [OF ps p] ucast_small [of "int (length (ints_of (chunks p)))"] by simp
    qed
    obtain rt1 where t: "total_of_all L V (\<lambda>p. sum_matrix (ps_sum (ps p)) (ucast (ps_count (ps p)))) rt =
        Inr ((?s 0 + ?s 1 + ?s 2, ?n 0 + ?n 1 + ?n 2), rt1)"
      using total_of_all_ok [OF libs(1,3) m] by blast
    let ?S = "sum_list (all_ints chunks)" and ?N = "int (length (all_ints chunks))"
    have tot: "?s 0 + ?s 1 + ?s 2 = word_of_int ?S" "?n 0 + ?n 1 + ?n 2 = word_of_int ?N"
      by (simp_all add: all_ints_def)
    have "0 < length (all_ints chunks)" using bspec [OF ne, of 0] by (simp add: all_ints_def)
    moreover have "length (ints_of (chunks p)) < 2 ^ 32" if "p \<in> {0, 1, 2}" for p using fit that unfolding ints_fit_def by blast
    from this [of 0] this [of 1] this [of 2] have "length (all_ints chunks) < 3 * 2 ^ 32" by (simp add: all_ints_def)
    ultimately have N: "0 < ?N" "?N < 2 ^ 63" by simp_all
    have S: "\<bar>?S\<bar> < 2 ^ 63" using fit by (simp add: ints_fit_def)
    have sints: "sint (word_of_int ?S :: i64) = ?S" "sint (word_of_int ?N :: i64) = ?N"
      by (rule sint_small; use S N in linarith)+
    then have "word_of_int ?N \<noteq> (0 :: i64)" using N(1) by (metis less_irrefl sint_0)
    then have "divide_i64 (word_of_int ?S) (word_of_int ?N) = Inr (word_of_int (trunc_div ?S ?N))"
      unfolding divide_i64_def sints by simp
    then show ?thesis using 3 t unfolding tot by (simp add: int_value_defs replacement_ref_def)
  qed
qed

text \<open>A value is always found for a maximum or a minimum, whether or not it is the right one.\<close>

lemma int_value_total:
  assumes "aby3_ok L" "bin_ok B" "reveal_ok B V" "replace_type \<in> {''MAX'', ''MIN''}"
  shows "\<exists>v rt'. int_value L B V replace_type ps rt = Inr (Some v, rt')"
proof -
  have e: "\<exists>w \<in> {0, 1, 2}. \<exists>rt'. extreme_party B V find_max (\<lambda>p. number (f p)) rt = Inr (w, \<lambda>p. number (f p), rt')" for find_max f
  proof -
    have c: "\<exists>r rt'. compare_two B V i j (\<lambda>p. number (f p)) rt = Inr (r, \<lambda>p. number (f p), rt')" if "two_of_three k i j" for i j k rt
      using compare_two_bits [OF assms(2,3) that refl refl] by blast
    obtain r rt1 where 1: "compare_two B V 0 1 (\<lambda>p. number (f p)) rt = Inr (r, \<lambda>p. number (f p), rt1)"
      using c [of 2 0 1 rt] by (auto simp: two_of_three_def)
    have "\<exists>k. two_of_three k (if r = find_max then 1 else 0) 2" by (auto simp: two_of_three_def)
    then obtain r' rt2 where "compare_two B V (if r = find_max then 1 else 0) 2 (\<lambda>p. number (f p)) rt1 = Inr (r', \<lambda>p. number (f p), rt2)"
      using c by blast
    then show ?thesis using 1 by (cases "r' = find_max"; cases "r = find_max") (simp_all add: extreme_party_def Let_def)
  qed
  have a: "\<exists>v rt'. announce_int L V w (\<lambda>p. number (f p)) rt = Inr (v, rt')" if "w \<in> {0, 1, 2}" for w f rt
    using announce_int_ok [OF assms(1,3) that, of "\<lambda>p. number (f p)", OF refl] by blast
  obtain w rt1 where w: "w \<in> {0, 1, 2}" "extreme_party B V True (\<lambda>p. number (ps_max (ps p))) rt = Inr (w, \<lambda>p. number (ps_max (ps p)), rt1)"
    using e [of True "\<lambda>p. ps_max (ps p)"] by blast
  obtain u rt2 where u: "u \<in> {0, 1, 2}" "extreme_party B V False (\<lambda>p. number (ps_min (ps p))) rt = Inr (u, \<lambda>p. number (ps_min (ps p)), rt2)"
    using e [of False "\<lambda>p. ps_min (ps p)"] by blast
  show ?thesis using assms(4) w(2) u(2) a [OF w(1), of "\<lambda>p. ps_max (ps p)" rt1] a [OF u(1), of "\<lambda>p. ps_min (ps p)" rt2]
    by (auto simp: int_value_defs)
qed

text \<open>The loop body on a column of integers, when the secure part yields \<open>v\<close>.\<close>

lemma process_with_value:
  fixes sts :: "nat \<Rightarrow> 'd MissingProcess"
  assumes val: "\<And>ps. \<forall>p \<in> {0, 1, 2}. ps p = text_pass (+) slt int_cell int_start (length (concat (chunks p))) (chunks p) \<Longrightarrow>
      \<exists>rt'. int_value L B V replace_type ps rt = Inr (Some v, rt')"
    and rty: "\<forall>p \<in> {0, 1, 2}. mp_replace_type (sts p) = replace_type"
    and cols: "\<forall>p \<in> {0, 1, 2}. csv_column (sts p) (name p) (i p) (chunks p) \<and> cols p = (name p, t p) \<and> int_dtype (t p)"
  shows "\<exists>rt'. process_column L X F C T B V cols sts rt =
    Inr (pick3 (\<lambda>p. with_column (i p) (name p) (I64s [fill_missing int_cell v (concat (chunks p))]) (sts p)), rt')"
proof -
  let ?ps = "\<lambda>p. text_pass (+) slt int_cell int_start (length (concat (chunks p))) (chunks p)"
  define l :: "nat \<Rightarrow> 'd local_pass" where "l = pick3 (\<lambda>p. IntPass (i p) (?ps p))"
  have local: "par3 (\<lambda>p. in_party p (local_part F C T (sts p) (cols p))) = Inr l"
    unfolding l_def
  proof (rule par3_pick3)
    fix p :: nat assume "p \<in> {0, 1, 2}"
    then have "csv_column (sts p) (name p) (i p) (chunks p)" "cols p = (name p, t p)" "int_dtype (t p)" using cols by blast+
    then show "in_party p (local_part F C T (sts p) (cols p)) = Inr (IntPass (i p) (?ps p))"
      using local_part_int [of "sts p" "name p" "i p" "chunks p" "t p" F C T] by (simp add: in_party_def)
  qed
  let ?pp = "\<lambda>p. the (the_int (l p))"
  have pp: "?pp p = (i p, ?ps p)" if "p \<in> {0, 1, 2}" for p using that by (simp add: l_def pick3_eq)
  obtain rt1 where v: "int_value L B V replace_type (\<lambda>p. snd (?pp p)) rt = Inr (Some v, rt1)"
    using val [of "\<lambda>p. snd (?pp p)"] pp by (metis (no_types, lifting) snd_conv)
  have put: "par3 (\<lambda>p. in_party p (put_value C T (ReplaceInt v) (fst (?pp p)) (ps_abnormal (snd (?pp p))) (fst (cols p)) (sts p))) =
      Inr (pick3 (\<lambda>p. with_column (i p) (name p) (I64s [fill_missing int_cell v (concat (chunks p))]) (sts p)))"
  proof (rule par3_pick3)
    fix p :: nat assume p: "p \<in> {0, 1, 2}"
    then have "csv_column (sts p) (name p) (i p) (chunks p)" "fst (cols p) = name p" using cols by auto
    then show "in_party p (put_value C T (ReplaceInt v) (fst (?pp p)) (ps_abnormal (snd (?pp p))) (fst (cols p)) (sts p)) =
        Inr (with_column (i p) (name p) (I64s [fill_missing int_cell v (concat (chunks p))]) (sts p))"
      using put_value_int [of "sts p" "name p" "i p" "chunks p" C T v] pp [OF p] int_text_pass(1) [of "chunks p"] by (simp add: in_party_def)
  qed
  have k: "all3 (\<lambda>p. mp_replace_type (sts p) = mp_replace_type (sts 0))" "mp_replace_type (sts 0) = replace_type"
    "\<not> all3 (\<lambda>p. l p = NoColumn)" "\<not> all3 (\<lambda>p. is_other (l p))"
    "all3 (\<lambda>p. the_int (l p) \<noteq> None)"
    using rty by (simp_all add: all3_def l_def pick3_def is_other_def)
  show ?thesis unfolding process_column_def local using k v put by (simp add: Let_def)
qed

lemma process_int_column:
  assumes libs: "aby3_ok L" "bin_ok B" "reveal_ok B V" and fit: "ints_fit chunks"
    and rty: "replace_type \<in> {''MAX'', ''MIN'', ''AVG''}" "\<forall>p \<in> {0, 1, 2}. mp_replace_type (sts p) = replace_type"
    and cols: "\<forall>p \<in> {0, 1, 2}. csv_column (sts p) (name p) (i p) (chunks p) \<and> cols p = (name p, t p) \<and> int_dtype (t p)"
  shows "\<exists>rt'. process_column L X F C T B V cols sts rt =
    Inr (pick3 (\<lambda>p. with_column (i p) (name p)
      (I64s [fill_missing int_cell (word_of_int (replacement_ref replace_type (all_ints chunks))) (concat (chunks p))]) (sts p)), rt')"
  using process_with_value [OF int_value_ok [OF libs fit rty(1)] rty(2) cols] .

section \<open>Lemmas on the whole table\<close>

text \<open>
  The table of a party after the task: every column that the parameters name is filled with the value the
  parties agreed on, the other columns stay.
\<close>

definition text_chunks :: "'d mcol \<Rightarrow> string option list list" where
  "text_chunks c = (case c of Strs chunks \<Rightarrow> chunks | _ \<Rightarrow> [])"

definition chunks_at :: "'d MissingProcess \<Rightarrow> nat \<Rightarrow> string option list list" where
  "chunks_at mp k = (case map_of (the (mp_table mp)) (fst (mp_col_and_dtype mp ! k)) of Some c \<Rightarrow> text_chunks c | None \<Rightarrow> [])"

definition agreed_value :: "string \<Rightarrow> (nat \<Rightarrow> 'd MissingProcess) \<Rightarrow> nat \<Rightarrow> i64" where
  "agreed_value replace_type sts k = word_of_int (replacement_ref replace_type (all_ints (\<lambda>q. chunks_at (sts q) k)))"

definition filled_upto :: "string \<Rightarrow> (nat \<Rightarrow> 'd MissingProcess) \<Rightarrow> nat \<Rightarrow> nat \<Rightarrow> 'd mtable" where
  "filled_upto replace_type sts k p =
     map (\<lambda>(name, c). case position name (take k (map fst (mp_col_and_dtype (sts p)))) of
            None \<Rightarrow> (name, c)
          | Some j \<Rightarrow> (name, I64s [fill_missing int_cell (agreed_value replace_type sts j) (concat (text_chunks c))]))
       (the (mp_table (sts p)))"

definition filled_table :: "string \<Rightarrow> (nat \<Rightarrow> 'd MissingProcess) \<Rightarrow> nat \<Rightarrow> 'd mtable" where
  "filled_table replace_type sts p = filled_upto replace_type sts (length (mp_col_and_dtype (sts p))) p"

text \<open>A party whose table came from a small CSV file, all columns asked for being integers.\<close>

definition int_party :: "'d MissingProcess \<Rightarrow> bool" where
  "int_party mp \<longleftrightarrow> \<not> mp_use_db mp \<and> distinct (map fst (mp_col_and_dtype mp)) \<and>
     (case mp_table mp of
        None \<Rightarrow> False
      | Some t \<Rightarrow> mp_local_col_names mp = map fst t \<and> distinct (map fst t) \<and>
          (\<forall>c \<in> set t. chunk_count (snd c) = 1 \<and> col_length (snd c) = num_rows t) \<and>
          (\<forall>(name, d) \<in> set (mp_col_and_dtype mp). int_dtype d \<and> (\<exists>cells. map_of t name = Some (Strs [cells]))))"

lemma position_Some: "position x xs = Some i \<longleftrightarrow> i < length xs \<and> xs ! i = x \<and> (\<forall>j < i. xs ! j \<noteq> x)"
proof (induction xs arbitrary: i)
  case (Cons y ys)
  then show ?case by (cases i) (auto simp: nth_Cons split: nat.splits)
qed simp

lemma position_None: "position x xs = None \<longleftrightarrow> x \<notin> set xs"
  by (induction xs) auto

lemma position_distinct: "distinct xs \<Longrightarrow> i < length xs \<Longrightarrow> position (xs ! i) xs = Some i"
  by (auto simp: position_Some distinct_conv_nth)

lemma position_take:
  assumes "distinct xs" "k < length xs"
  shows "position x (take (Suc k) xs) = (if x = xs ! k then Some k else position x (take k xs))"
proof -
  have p: "position x (ys @ [y]) = (case position x ys of Some j \<Rightarrow> Some j | None \<Rightarrow> if x = y then Some (length ys) else None)" for ys y
    by (induction ys) (auto split: option.splits)
  have "xs ! k \<notin> set (take k xs)" using assms by (auto simp: in_set_conv_nth distinct_conv_nth)
  then have "position (xs ! k) (take k xs) = None" by (simp add: position_None)
  then show ?thesis using assms(2) by (simp add: take_Suc_conv_app_nth p split: option.splits)
qed

lemma filled_names: "map fst (filled_upto replace_type sts k p) = map fst (the (mp_table (sts p)))"
  by (auto simp: filled_upto_def split: option.splits prod.splits)

lemma chunks_fill: "chunk_count (I64s [xs]) = 1" "col_length (I64s [xs]) = length xs"
  by (simp_all add: chunk_count_def col_length_def)

lemma int_partyD:
  assumes "int_party mp" "k < length (mp_col_and_dtype mp)"
  obtains t i cells where "mp_table mp = Some t" "mp_local_col_names mp = map fst t" "distinct (map fst t)"
    "i < length t" "t ! i = (fst (mp_col_and_dtype mp ! k), Strs [cells])" "chunks_at mp k = [cells]"
    "int_dtype (snd (mp_col_and_dtype mp ! k))" "num_rows t = length cells"
    "\<forall>c \<in> set t. chunk_count (snd c) = 1 \<and> col_length (snd c) = num_rows t"
proof -
  obtain t where t: "mp_table mp = Some t" "mp_local_col_names mp = map fst t" "distinct (map fst t)"
    "\<forall>c \<in> set t. chunk_count (snd c) = 1 \<and> col_length (snd c) = num_rows t"
    "\<forall>(name, d) \<in> set (mp_col_and_dtype mp). int_dtype d \<and> (\<exists>cells. map_of t name = Some (Strs [cells]))"
    using assms(1) by (auto simp: int_party_def split: option.splits)
  have "mp_col_and_dtype mp ! k \<in> set (mp_col_and_dtype mp)" using assms(2) by simp
  from bspec [OF t(5) this] obtain cells where c: "int_dtype (snd (mp_col_and_dtype mp ! k))"
    "map_of t (fst (mp_col_and_dtype mp ! k)) = Some (Strs [cells])" by (auto simp: split_def)
  then have mem: "(fst (mp_col_and_dtype mp ! k), Strs [cells]) \<in> set t" by (simp add: map_of_SomeD)
  then obtain i where i: "i < length t" "t ! i = (fst (mp_col_and_dtype mp ! k), Strs [cells])" by (auto simp: in_set_conv_nth)
  have "num_rows t = length cells" using bspec [OF t(4) mem] by (simp add: col_length_def)
  then show thesis using that t i c by (simp add: chunks_at_def text_chunks_def)
qed

text \<open>After \<open>k\<close> columns, the next column is still as it was.\<close>

lemma next_column:
  assumes "int_party (sts p)" "k < length (mp_col_and_dtype (sts p))"
  shows "\<exists>i. csv_column ((sts p)\<lparr>mp_table := Some (filled_upto replace_type sts k p)\<rparr>) (fst (mp_col_and_dtype (sts p) ! k)) i (chunks_at (sts p) k) \<and>
    int_dtype (snd (mp_col_and_dtype (sts p) ! k)) \<and>
    with_column i (fst (mp_col_and_dtype (sts p) ! k)) (I64s [fill_missing int_cell (agreed_value replace_type sts k) (concat (chunks_at (sts p) k))])
      ((sts p)\<lparr>mp_table := Some (filled_upto replace_type sts k p)\<rparr>) = (sts p)\<lparr>mp_table := Some (filled_upto replace_type sts (Suc k) p)\<rparr>"
proof -
  let ?names = "map fst (mp_col_and_dtype (sts p))" and ?f = "\<lambda>k. filled_upto replace_type sts k p"
  obtain t i cells where t: "mp_table (sts p) = Some t" "mp_local_col_names (sts p) = map fst t" "distinct (map fst t)"
    "i < length t" "t ! i = (fst (mp_col_and_dtype (sts p) ! k), Strs [cells])" "chunks_at (sts p) k = [cells]"
    "int_dtype (snd (mp_col_and_dtype (sts p) ! k))" "num_rows t = length cells"
    "\<forall>c \<in> set t. chunk_count (snd c) = 1 \<and> col_length (snd c) = num_rows t"
    using int_partyD [OF assms] .
  have d: "distinct ?names" "k < length ?names" using assms by (auto simp: int_party_def)
  have ntk: "position (?names ! k) (take k ?names) = None"
    using d by (auto simp: position_None in_set_conv_nth distinct_conv_nth)
  have len: "length (?f k) = length t" using t(1) by (simp add: filled_upto_def)
  have i: "?f k ! i = (?names ! k, Strs [cells])" using t(1,4,5) ntk assms(2) by (simp add: filled_upto_def)
  have pos: "position (?names ! k) (map fst t) = Some i" using position_distinct [OF t(3), of i] t(4,5) assms(2) by simp
  have inv: "chunk_count (snd c) = 1 \<and> col_length (snd c) = length cells" if "c \<in> set (?f k)" for c
  proof -
    let ?g = "\<lambda>(name, c). case position name (take k ?names) of None \<Rightarrow> (name, c)
        | Some j \<Rightarrow> (name, I64s [fill_missing int_cell (agreed_value replace_type sts j) (concat (text_chunks c))])"
    have "c \<in> ?g ` set t" using that t(1) by (simp add: filled_upto_def)
    then obtain e where "e \<in> set t" "c = ?g e" by blast
    then obtain name c0 where "(name, c0) \<in> set t" and c: "c = (case position name (take k ?names) of None \<Rightarrow> (name, c0)
        | Some j \<Rightarrow> (name, I64s [fill_missing int_cell (agreed_value replace_type sts j) (concat (text_chunks c0))]))"
      by (cases e rule: prod.exhaust) simp
    from this(1) have c0: "chunk_count c0 = 1" "col_length c0 = length cells" using t(8,9) by auto
    show ?thesis
    proof (cases "position name (take k ?names)")
      case None
      then show ?thesis using c c0 by simp
    next
      case (Some j)
      then have "name \<in> set ?names" using position_None [of name "take k ?names"] by (auto dest: in_set_takeD)
      then obtain cells' where "map_of t name = Some (Strs [cells'])"
        using assms(1) t(1) by (auto simp: int_party_def)
      then have "c0 = Strs [cells']" using \<open>(name, c0) \<in> set t\<close> t(3) by simp
      then show ?thesis using c c0 Some by (simp add: chunks_fill text_chunks_def col_length_def)
    qed
  qed
  have ne: "?f k \<noteq> []" using len t(4) by auto
  have csv: "csv_column ((sts p)\<lparr>mp_table := Some (?f k)\<rparr>) (?names ! k) i [cells]"
    using assms(1) t(1,2,4) len i pos inv [of "?f k ! 0"] ne
    by (cases "?f k") (auto simp: csv_column_def int_party_def num_rows_def split: prod.splits)
  have "(?f k)[i := (?names ! k, I64s [fill_missing int_cell (agreed_value replace_type sts k) cells])] = ?f (Suc k)"
  proof (rule nth_equalityI)
    fix j assume "j < length ((?f k)[i := (?names ! k, I64s [fill_missing int_cell (agreed_value replace_type sts k) cells])])"
    then have j: "j < length t" using len by simp
    show "(?f k)[i := (?names ! k, I64s [fill_missing int_cell (agreed_value replace_type sts k) cells])] ! j = ?f (Suc k) ! j"
    proof (cases "j = i")
      case True
      then show ?thesis using t(1,4,5) len position_take [OF d, of "?names ! k"] assms(2)
        by (simp add: filled_upto_def text_chunks_def)
    next
      case False
      then have "map fst t ! j \<noteq> map fst t ! i" using t(3,4) j by (simp add: nth_eq_iff_index_eq del: nth_map)
      then have "fst (t ! j) \<noteq> ?names ! k" using t(4,5) j assms(2) by simp
      then show ?thesis using False j t(1) position_take [OF d, of "fst (t ! j)"] by (simp add: filled_upto_def split_def)
    qed
  qed (simp add: len t(1) filled_upto_def)
  then show ?thesis using csv t(6,7) assms(2) by (intro exI [of _ i]) (simp add: with_column_def)
qed

lemma process_columns_inv:
  assumes "\<And>k st rt. k < n \<Longrightarrow> R k st \<Longrightarrow> \<exists>st' rt'. step (g k) st rt = Inr (st', rt') \<and> R (Suc k) st'"
  shows "k \<le> n \<Longrightarrow> R k st \<Longrightarrow> \<exists>st' rt'. process_columns step (map g [k..<n]) st rt = Inr (st', rt') \<and> R n st'"
proof (induction "n - k" arbitrary: k st rt)
  case (Suc m)
  then have k: "k < n" by simp
  obtain st1 rt1 where 1: "step (g k) st rt = Inr (st1, rt1)" "R (Suc k) st1" using assms [OF k Suc.prems(2)] by blast
  obtain st2 rt2 where "process_columns step (map g [Suc k..<n]) st1 rt1 = Inr (st2, rt2)" "R n st2"
    using Suc.hyps(1) [of "Suc k" st1 rt1] Suc.hyps(2) k 1(2) by (metis Suc_leI diff_Suc_eq_diff_pred diff_Suc_1 diff_commute)
  then show ?case using 1(1) k by (simp add: upt_conv_Cons)
qed simp

lemma execute_fills:
  assumes "aby3_ok L" "bin_ok B" "reveal_ok B V" "replace_type \<in> {''MAX'', ''MIN'', ''AVG''}"
    and "\<forall>p \<in> {0, 1, 2}. int_party (sts p) \<and> mp_replace_type (sts p) = replace_type \<and> map snd (mp_col_and_dtype (sts p)) = types"
    and "\<forall>k < length types. ints_fit (\<lambda>p. chunks_at (sts p) k)"
  shows "\<exists>sts' rt'. mp_execute L X F C T B V sts rt = Inr (sts', rt') \<and>
    (\<forall>p \<in> {0, 1, 2}. sts' p = (sts p)\<lparr>mp_table := Some (filled_table replace_type sts p)\<rparr>)"
proof -
  have party: "int_party (sts p)" "mp_replace_type (sts p) = replace_type" "map snd (mp_col_and_dtype (sts p)) = types"
    "length (mp_col_and_dtype (sts p)) = length types" if "p \<in> {0, 1, 2}" for p
    using assms(5) that by (auto dest: arg_cong [of _ _ length])
  let ?R = "\<lambda>k st. \<forall>p \<in> {0, 1, 2}. st p = (sts p)\<lparr>mp_table := Some (filled_upto replace_type sts k p)\<rparr>"
  have step: "\<exists>st' rt'. process_column L X F C T B V (\<lambda>p. mp_col_and_dtype (sts p) ! k) st rt = Inr (st', rt') \<and> ?R (Suc k) st'"
    if k: "k < length types" and R: "?R k st" for k st rt
  proof -
    let ?P = "\<lambda>p i. csv_column (st p) (fst (mp_col_and_dtype (sts p) ! k)) i (chunks_at (sts p) k) \<and>
      int_dtype (snd (mp_col_and_dtype (sts p) ! k)) \<and>
      with_column i (fst (mp_col_and_dtype (sts p) ! k)) (I64s [fill_missing int_cell (agreed_value replace_type sts k) (concat (chunks_at (sts p) k))])
        (st p) = (sts p)\<lparr>mp_table := Some (filled_upto replace_type sts (Suc k) p)\<rparr>"
    have "\<forall>p \<in> {0, 1, 2}. \<exists>i. ?P p i"
    proof
      fix p :: nat assume p: "p \<in> {0, 1, 2}"
      have "k < length (mp_col_and_dtype (sts p))" using party(4) [OF p] k by simp
      from next_column [of sts p k replace_type, OF party(1) [OF p] this] show "\<exists>i. ?P p i" unfolding bspec [OF R p] .
    qed
    from bchoice [OF this] obtain i where i: "\<forall>p \<in> {0, 1, 2}. ?P p (i p)" by blast
    have rty: "\<forall>p \<in> {0, 1, 2}. mp_replace_type (st p) = replace_type" using party(2) R by simp
    have cols: "\<forall>p \<in> {0, 1, 2}. csv_column (st p) (fst (mp_col_and_dtype (sts p) ! k)) (i p) (chunks_at (sts p) k) \<and>
        mp_col_and_dtype (sts p) ! k = (fst (mp_col_and_dtype (sts p) ! k), snd (mp_col_and_dtype (sts p) ! k)) \<and>
        int_dtype (snd (mp_col_and_dtype (sts p) ! k))"
      using i by simp
    obtain rt' where "process_column L X F C T B V (\<lambda>p. mp_col_and_dtype (sts p) ! k) st rt =
        Inr (pick3 (\<lambda>p. with_column (i p) (fst (mp_col_and_dtype (sts p) ! k))
          (I64s [fill_missing int_cell (agreed_value replace_type sts k) (concat (chunks_at (sts p) k))]) (st p)), rt')"
      using process_int_column [OF assms(1-3) mp [OF spec [OF assms(6)] k] assms(4) rty cols, of X F C T rt] unfolding agreed_value_def by blast
    then show ?thesis using i by (auto simp: pick3_eq)
  qed
  have "?R 0 sts"
  proof
    fix p :: nat assume "p \<in> {0, 1, 2}"
    then have "int_party (sts p)" using party by blast
    then obtain t where "mp_table (sts p) = Some t" by (auto simp: int_party_def split: option.splits)
    then show "sts p = (sts p)\<lparr>mp_table := Some (filled_upto replace_type sts 0 p)\<rparr>" by (simp add: filled_upto_def)
  qed
  from process_columns_inv [where n = "length types" and R = ?R and step = "process_column L X F C T B V" and
      g = "\<lambda>k p. mp_col_and_dtype (sts p) ! k" and k = 0 and st = sts and rt = rt, OF step le0 this]
  obtain sts' rt' where e: "process_columns (process_column L X F C T B V)
      (map (\<lambda>k p. mp_col_and_dtype (sts p) ! k) [0..<length types]) sts rt = Inr (sts', rt')" "?R (length types) sts'" by blast
  have "check_columns sts = Inr ()"
    using party(3,4) by (simp add: check_columns_def par3_def in_party_def agree_def exchange_def numeral_2_eq_2)
  then have "mp_execute L X F C T B V sts rt = Inr (sts', rt')" using e(1) party(4) [of 0] by (simp add: mp_execute_def)
  then show ?thesis using e(2) party(4) by (auto simp: filled_table_def)
qed

section \<open>An example\<close>

text \<open>
  Three small tables with a column \<^verbatim>\<open>a\<close>. Text is converted to doubles by reading an integer prefix; this stands
  for an implementation and plays no role for integer columns.
\<close>

definition text_example :: "real fp_text" where
  "text_example = \<lparr>fp_stod_len = (\<lambda>s. case int_prefix s of Some v \<Rightarrow> Inr (real_of_int v, int_prefix_length s) | None \<Rightarrow> Inl Invalid_argument),
     fp_to_string = (\<lambda>d. to_string_i64 (word_of_int \<lfloor>d\<rfloor>))\<rparr>"

definition missing_cells :: "nat \<Rightarrow> string option list" where
  "missing_cells p = (if p = 0 then [Some ''3'', None, Some ''x''] else if p = 1 then [Some ''-5''] else [None, Some ''7''])"

definition missing_csv :: "nat \<Rightarrow> real csv_lib" where
  "missing_csv p = \<lparr>csv_path = (\<lambda>id detail. Some id), csv_open = (\<lambda>f. True), csv_make = (\<lambda>f. True),
     csv_read = (\<lambda>f cols. Some [(''b'', Others [length (missing_cells p)]), (''a'', Strs [missing_cells p])])\<rparr>"

definition missing_loaded :: "string \<Rightarrow> nat \<Rightarrow> real MissingProcess" where
  "missing_loaded replace_type p = (new_MissingProcess (example_config p))\<lparr>mp_col_and_dtype := [(''a'', 1)], mp_data_file_path := ''ds'',
     mp_dataset_id := ''ds'', mp_replace_type := replace_type, mp_new_dataset_id := ''new'', mp_new_dataset_path := ''/data/./new.csv''\<rparr>"

definition missing_example :: "string \<Rightarrow> nat \<Rightarrow> real MissingProcess" where
  "missing_example replace_type p = (missing_loaded replace_type p)\<lparr>mp_local_col_names := [''b'', ''a''],
     mp_table := Some [(''b'', Others [length (missing_cells p)]), (''a'', Strs [missing_cells p])]\<rparr>"

lemma example_cells: "int_cell ''3'' = Some 3" "int_cell ''x'' = None" "int_cell ''-5'' = Some (-5)" "int_cell ''7'' = Some 7"
  by code_simp+

lemma example_chunks: "chunks_at (missing_example r p) 0 = [missing_cells p]"
  by (simp add: chunks_at_def missing_example_def missing_loaded_def text_chunks_def)

lemma example_ints: "ints_of [missing_cells p] = (if p = 0 then [3] else if p = 1 then [-5] else [7])"
  by (simp add: ints_of_def missing_cells_def cell_value_def example_cells)

lemma example_party: "int_party (missing_example r p)"
  by (simp add: int_party_def missing_example_def missing_loaded_def new_MissingProcess_def chunk_count_def col_length_def num_rows_def int_dtype_def)

lemma example_fit: "ints_fit (\<lambda>p. chunks_at (missing_example r p) 0)"
  by (simp add: ints_fit_def example_chunks example_ints all_ints_def)

lemma example_all: "all_ints (\<lambda>q. chunks_at (missing_example r q) 0) = [3, -5, 7]"
  by (simp add: all_ints_def example_chunks example_ints)

lemma example_filled:
  "filled_table ''AVG'' (missing_example ''AVG'') 0 = [(''b'', Others [3]), (''a'', I64s [[3, 1, 1]])]"
  "filled_table ''MAX'' (missing_example ''MAX'') 2 = [(''b'', Others [2]), (''a'', I64s [[7, 7]])]"
proof -
  have "agreed_value ''AVG'' (missing_example ''AVG'') 0 = 1" "agreed_value ''MAX'' (missing_example ''MAX'') 0 = 7"
    unfolding agreed_value_def example_all by (simp_all add: replacement_ref_def trunc_div_def)
  then show "filled_table ''AVG'' (missing_example ''AVG'') 0 = [(''b'', Others [3]), (''a'', I64s [[3, 1, 1]])]"
    "filled_table ''MAX'' (missing_example ''MAX'') 2 = [(''b'', Others [2]), (''a'', I64s [[7, 7]])]"
    by (simp_all add: filled_table_def filled_upto_def)
       (simp_all add: missing_example_def missing_loaded_def missing_cells_def fill_missing_def cell_value_def example_cells text_chunks_def)
qed

lemma reveal_ok_ref: "reveal_ok bin_ref reveal_ref"
  by (simp add: reveal_ok_def reveal_ref_def bin_ref_def sharing_open)

section \<open>Properties\<close>

text \<open>
  C5. The replacement of missing values. Three parties hold tables of text in memory (one chunk a column) and ask for the same
  number of integer columns; in every column each party has at least one number, and the numbers, their sum
  and their count fit. Then the secure part ends and every party saves its table: each
  cell of such a column that holds a number keeps it, every other cell gets the maximum, the minimum or the average,
  rounded towards zero, of the numbers that all parties have in this column, and the other columns stay as they were.
  (How the table gets into memory is another matter: the loader of CSV files copies columns of text as doubles.)
\<close>

theorem missing_values_filled:
  assumes "aby3_ok L" "bin_ok B" "reveal_ok B V" "replace_type \<in> {''MAX'', ''MIN'', ''AVG''}"
    and "\<forall>p \<in> {0, 1, 2}. int_party (sts p) \<and> mp_replace_type (sts p) = replace_type \<and> map snd (mp_col_and_dtype (sts p)) = types"
    and "\<forall>k < length types. ints_fit (\<lambda>p. chunks_at (sts p) k)"
    and "\<forall>p \<in> {0, 1, 2}. \<forall>path t. write p path t"
  shows "\<exists>sts' rt'. mp_execute L X F C T B V sts rt = Inr (sts', rt') \<and>
    (\<forall>p \<in> {0, 1, 2}. mp_saveModel (write p) (sts' p) =
      Inr (mp_new_dataset_id (sts p), mp_new_dataset_path (sts p), filled_table replace_type sts p))"
proof -
  obtain sts' rt' where e: "mp_execute L X F C T B V sts rt = Inr (sts', rt')"
    "\<forall>p \<in> {0, 1, 2}. sts' p = (sts p)\<lparr>mp_table := Some (filled_table replace_type sts p)\<rparr>"
    using execute_fills [OF assms(1-6)] by blast
  moreover have "mp_saveModel (write p) (sts' p) = Inr (mp_new_dataset_id (sts p), mp_new_dataset_path (sts p), filled_table replace_type sts p)"
    if "p \<in> {0, 1, 2}" for p using bspec [OF e(2) that] bspec [OF assms(7) that] by (simp add: mp_saveModel_def)
  ultimately show ?thesis by blast
qed

theorem missing_values_filled_witness:
  "(\<exists>sts' rt'. mp_execute lib_ref fx_real fp_real cmp_real text_example bin_ref reveal_ref (missing_example ''AVG'') () = Inr (sts', rt') \<and>
     mp_saveModel (\<lambda>path t. True) (sts' 0) = Inr (''new'', ''/data/./new.csv'', [(''b'', Others [3]), (''a'', I64s [[3, 1, 1]])])) \<and>
   (\<exists>sts' rt'. mp_execute lib_ref fx_real fp_real cmp_real text_example bin_ref reveal_ref (missing_example ''MAX'') () = Inr (sts', rt') \<and>
     mp_saveModel (\<lambda>path t. True) (sts' 2) = Inr (''new'', ''/data/./new.csv'', [(''b'', Others [2]), (''a'', I64s [[7, 7]])]))"
proof -
  have types: "map snd (mp_col_and_dtype (missing_example r p)) = [1]" "mp_replace_type (missing_example r p) = r"
    "mp_new_dataset_id (missing_example r p) = ''new''" "mp_new_dataset_path (missing_example r p) = ''/data/./new.csv''" for r p
    by (simp_all add: missing_example_def missing_loaded_def)
  have r: "\<exists>sts' rt'. mp_execute lib_ref fx_real fp_real cmp_real text_example bin_ref reveal_ref (missing_example r) () = Inr (sts', rt') \<and>
      (\<forall>p \<in> {0, 1, 2}. mp_saveModel (\<lambda>path t. True) (sts' p) =
        Inr (mp_new_dataset_id (missing_example r p), mp_new_dataset_path (missing_example r p), filled_table r (missing_example r) p))"
    if "r \<in> {''MAX'', ''AVG''}" for r
    by (rule missing_values_filled [where types = "[1]"])
      (use that in \<open>auto simp: aby3_ok_ref bin_ok_ref reveal_ok_ref example_party types example_fit\<close>)
  from r [of "''AVG''"] r [of "''MAX''"] show ?thesis by (auto simp: example_filled types)
qed

text \<open>
  C37. Loading a table of text reads its columns through the wrong class. The loader has Arrow deliver every column
  to be processed as text, and then copies all columns as doubles to compare their lengths: if the
  file can be read, its columns have equal lengths and one of them holds at least one text, the load reads an array of text as
  an array of doubles, which is undefined.
\<close>

theorem text_column_unreadable:
  assumes "\<not> mp_use_db mp" "csv_path K (mp_dataset_id mp) (mp_is_dataset_detail mp) = Some f" "csv_open K f" "csv_make K f"
    and "csv_read K f (target_columns_of (mp_col_and_dtype mp)) = Some table"
    and "\<forall>c \<in> set table. col_length (snd c) = n" "(name, Strs chunks) \<in> set table" "concat chunks \<noteq> []"
  shows "mp_loadDataset C K mp = Inl (Undefined ''array of another type'')"
proof -
  have "check_lengths C n table = Inl (Undefined ''array of another type'')" using assms(6,7)
  proof (induction table)
    case (Cons c cols)
    obtain x cc where c: "c = (x, cc)" by (cases c)
    show ?case
    proof (cases "as_doubles C cc")
      case (Inl e)
      then show ?thesis using c by (cases cc) (auto simp: unread_def split: if_splits)
    next
      case (Inr ds)
      have "as_doubles C (Strs chunks) \<noteq> Inr ds" using assms(8) by (auto simp: unread_def)
      then have "c \<noteq> (name, Strs chunks)" using Inr c by auto
      then show ?thesis using Cons c Inr by auto
    qed
  qed simp
  moreover have "table \<noteq> []" using assms(7) by auto
  moreover from this have "col_length (snd (last table)) = n" using assms(6) last_in_set by blast
  ultimately show ?thesis using assms(1-5) by (simp add: mp_loadDataset_def mp_LoadDatasetFromCSV_def same_lengths_def)
qed

theorem text_column_unreadable_witness:
  "mp_loadDataset cmp_real (missing_csv 1) (missing_loaded ''MAX'' 1) = Inl (Undefined ''array of another type'')"
  by (rule text_column_unreadable [where f = "''ds''" and name = "''a''" and n = 1 and chunks = "[missing_cells 1]" and table = "[(''b'', Others [1]), (''a'', Strs [missing_cells 1])]"])
     (simp_all add: missing_csv_def missing_loaded_def new_MissingProcess_def missing_cells_def col_length_def)

text \<open>
  A party that has no number in a column spoils it. Its maximum is the least 64-bit number, which the
  comparison subtracts a positive number from: the difference overflows, the party wins, and the missing
  cells of all three tables become \<open>-(2 ^ 63)\<close>, although the two others have positive numbers.
\<close>

theorem party_without_numbers:
  assumes "aby3_ok L" "bin_ok B" "reveal_ok B V" "\<forall>p \<in> {0, 1, 2}. mp_replace_type (sts p) = ''MAX''"
    and "\<forall>p \<in> {0, 1, 2}. csv_column (sts p) (name p) (i p) (chunks p) \<and> cols p = (name p, t p) \<and> int_dtype (t p)"
    and "ints_of (chunks 0) = []" "\<exists>x \<in> set (ints_of (chunks 1)). 0 < x" "\<exists>x \<in> set (ints_of (chunks 2)). 0 < x"
  shows "\<exists>rt'. process_column L X F C T B V cols sts rt =
    Inr (pick3 (\<lambda>p. with_column (i p) (name p) (I64s [fill_missing int_cell (- (2 ^ 63)) (concat (chunks p))]) (sts p)), rt')"
proof (rule process_with_value [OF _ assms(4,5)])
  fix ps :: "nat \<Rightarrow> i64 pass"
  assume ps: "\<forall>p \<in> {0, 1, 2}. ps p = text_pass (+) slt int_cell int_start (length (concat (chunks p))) (chunks p)"
  let ?m = "\<lambda>p. number (ps_max (ps p))"
  have m: "sint (ps_max (ps p)) = Max (insert (- (2 ^ 63)) (set (ints_of (chunks p))))" if "p \<in> {0, 1, 2}" for p
    using int_text_pass(4) [of "chunks p"] bspec [OF ps that] by simp
  have "sint (ps_max (ps 0)) = - (2 ^ 63)" using m [of 0] assms(6) by simp
  from word_of_sint [OF this] have m0: "ps_max (ps 0) = - (2 ^ 63)" by simp
  have pos: "0 < sint (ps_max (ps p))" if "\<exists>x \<in> set (ints_of (chunks p)). 0 < x" "p \<in> {0, 1, 2}" for p
    unfolding m [OF that(2)] using that(1) by (auto simp: Max_gr_iff)
  have wins: "\<exists>rt'. compare_two B V 0 p ?m rt = Inr (False, ?m, rt')" if "two_of_three k 0 p" "0 < sint (ps_max (ps p))" for p k rt
    using compare_two_bits [OF assms(2,3) that(1), of ?m, OF refl refl, of rt] lowest_minus [OF that(2)] m0 by simp
  obtain rt1 where 1: "compare_two B V 0 1 ?m rt = Inr (False, ?m, rt1)"
    using wins [of 2 1 rt] pos [of 1] assms(7) by (auto simp: two_of_three_def)
  obtain rt2 where 2: "compare_two B V 0 2 ?m rt1 = Inr (False, ?m, rt2)"
    using wins [of 1 2 rt1] pos [of 2] assms(8) by (auto simp: two_of_three_def)
  obtain rt3 where "announce_int L V 0 ?m rt2 = Inr (- (2 ^ 63), rt3)"
    using announce_int_ok [OF assms(1,3), of 0 ?m "- (2 ^ 63)" rt2] m0 by auto
  then show "\<exists>rt'. int_value L B V ''MAX'' ps rt = Inr (Some (- (2 ^ 63)), rt')"
    using 1 2 by (simp add: int_value_defs extreme_party_def Let_def)
qed

theorem party_without_numbers_witness:
  "\<exists>sts' rt'. process_column lib_ref fx_real fp_real cmp_real text_example bin_ref reveal_ref (\<lambda>p. (''a'', 1))
      (\<lambda>p. (missing_example ''MAX'' p)\<lparr>mp_table := Some [(''a'', Strs [if p = 0 then [None] else [Some ''7'', None]])], mp_local_col_names := [''a'']\<rparr>) () = Inr (sts', rt') \<and>
    mp_table (sts' 1) = Some [(''a'', I64s [[7, - (2 ^ 63)]])]"
proof -
  let ?chunks = "\<lambda>p :: nat. [if p = 0 then [None] else [Some ''7'', None]] :: string option list list"
  let ?sts = "\<lambda>p. (missing_example ''MAX'' p)\<lparr>mp_table := Some [(''a'', Strs (?chunks p))], mp_local_col_names := [''a'']\<rparr>"
  have c: "\<forall>p \<in> {0, 1, 2}. csv_column (?sts p) ''a'' 0 (?chunks p) \<and> (''a'', 1) = (''a'', 1) \<and> int_dtype 1"
    by (simp add: csv_column_def missing_example_def missing_loaded_def new_MissingProcess_def num_rows_def col_length_def chunk_count_def int_dtype_def)
  have t: "\<forall>p \<in> {0, 1, 2}. mp_replace_type (?sts p) = ''MAX''" by (simp add: missing_example_def missing_loaded_def)
  have n: "ints_of (?chunks 0) = []" "\<exists>x \<in> set (ints_of (?chunks 1)). 0 < x" "\<exists>x \<in> set (ints_of (?chunks 2)). 0 < x"
    by (simp_all add: ints_of_def cell_value_def example_cells)
  obtain rt' where "process_column lib_ref fx_real fp_real cmp_real text_example bin_ref reveal_ref (\<lambda>p. (''a'', 1)) ?sts () =
      Inr (pick3 (\<lambda>p. with_column 0 ''a'' (I64s [fill_missing int_cell (- (2 ^ 63)) (concat (?chunks p))]) (?sts p)), rt')"
    using party_without_numbers [OF aby3_ok_ref bin_ok_ref reveal_ok_ref t c n] by blast
  then show ?thesis by (intro exI conjI) (assumption, simp add: pick3_def with_column_def fill_missing_def cell_value_def example_cells)
qed

text \<open>
  Larger files are not handled. A table whose columns have several chunks, as Arrow delivers for files of
  more than a block, is all right for its first column; but then column 0 has one chunk, the pass over any other
  integer column looks only at its first chunk, and the rebuilding reads past the end of the list of abnormal cells.
\<close>

theorem second_column_undefined:
  assumes "aby3_ok L" "bin_ok B" "reveal_ok B V" "replace_type \<in> {''MAX'', ''MIN''}"
    and "\<forall>p \<in> {0, 1, 2}. mp_replace_type (sts p) = replace_type \<and> \<not> mp_use_db (sts p) \<and>
      mp_table (sts p) = Some [(a, Strs (as p)), (b, Strs (bs p))] \<and> mp_local_col_names (sts p) = [a, b] \<and>
      length (as p) = length (bs p) \<and> 2 \<le> length (as p) \<and> length (concat (as p)) = length (concat (bs p))"
    and "a \<noteq> b" "ints_fit as" "int_dtype t" "int_dtype u"
  shows "process_columns (process_column L X F C T B V) [\<lambda>p. (a, t), \<lambda>p. (b, u)] sts rt = Inl (Undefined ''reads past a vector'')"
proof -
  let ?v = "word_of_int (replacement_ref replace_type (all_ints as)) :: i64"
  let ?mp = "\<lambda>p. with_column 0 a (I64s [fill_missing int_cell ?v (concat (as p))]) (sts p)"
  have st: "mp_replace_type (sts p) = replace_type" "\<not> mp_use_db (sts p)" "mp_table (sts p) = Some [(a, Strs (as p)), (b, Strs (bs p))]"
    "mp_local_col_names (sts p) = [a, b]" "length (as p) = length (bs p)" "2 \<le> length (as p)" "length (concat (as p)) = length (concat (bs p))"
    if "p \<in> {0, 1, 2}" for p using assms(5) that by blast+
  have csv: "\<forall>p \<in> {0, 1, 2}. csv_column (sts p) a 0 (as p) \<and> (a, t) = (a, t) \<and> int_dtype t"
  proof
    fix p :: nat assume p: "p \<in> {0, 1, 2}"
    have "as p \<noteq> []" using st(6) [OF p] by auto
    then show "csv_column (sts p) a 0 (as p) \<and> (a, t) = (a, t) \<and> int_dtype t"
      using st [OF p] assms(8) by (simp add: csv_column_def chunk_count_def num_rows_def col_length_def length_concat)
  qed
  obtain rt1 where 1: "process_column L X F C T B V (\<lambda>p. (a, t)) sts rt = Inr (pick3 ?mp, rt1)"
    using process_int_column [OF assms(1-3,7) _ _ csv, of replace_type X F C T rt] assms(4) st(1) by auto
  let ?ps = "\<lambda>p. text_pass (+) slt int_cell int_start (length (concat (as p))) [hd (bs p)]"
  have tab: "mp_table (?mp p) = Some [(a, I64s [fill_missing int_cell ?v (concat (as p))]), (b, Strs (bs p))]" "\<not> mp_use_db (?mp p)"
    "mp_local_col_names (?mp p) = [a, b]" "mp_replace_type (?mp p) = replace_type" if "p \<in> {0, 1, 2}" for p
    using st [OF that] by (simp_all add: with_column_def)
  have hd: "take 1 (bs p) = [hd (bs p)]" "1 \<le> length (bs p)" if "p \<in> {0, 1, 2}" for p
    using st(5,6) [OF that] by (cases "bs p"; simp)+
  have local: "local_part F C T (?mp p) (b, u) = Inr (IntPass 1 (?ps p))" if "p \<in> {0, 1, 2}" for p
    using tab [OF that] hd [OF that] assms(6,9)
    by (auto simp: local_part_def int_pass_def marked_rows_def first_chunks_def Let_def chunk_count_def num_rows_def col_length_def int_start_def int_dtype_def)
  define l where "l = pick3 (\<lambda>p. IntPass 1 (?ps p) :: 'c local_pass)"
  have par: "par3 (\<lambda>p. in_party p (local_part F C T (pick3 ?mp p) (b, u))) = Inr l"
    unfolding l_def by (rule par3_pick3) (simp add: pick3_eq local in_party_def)
  obtain v rt2 where v: "int_value L B V replace_type (\<lambda>p. snd (the (the_int (l p)))) rt1 = Inr (Some v, rt2)"
    using int_value_total [OF assms(1-4)] by blast
  have l0: "the (the_int (l 0)) = (1, ?ps 0)" by (simp add: l_def pick3_def)
  have "ps_abnormal (?ps 0) = [bad_from int_cell 0 (hd (bs 0))]" by (simp add: text_pass_def scan_cells_spec)
  moreover obtain c c' cs where bs: "bs 0 = c # c' # cs"
    using st(5,6) [of 0] by (cases "bs 0"; cases "tl (bs 0)") auto
  moreover have "mp_table (pick3 ?mp 0) = Some [(a, I64s [fill_missing int_cell ?v (concat (as 0))]), (b, Strs (bs 0))]"
    "marked_rows (pick3 ?mp 0) b = None" using tab [of 0] by (simp_all add: pick3_def marked_rows_def)
  ultimately have "put_value C T (ReplaceInt v) 1 (ps_abnormal (?ps 0)) b (pick3 ?mp 0) = Inl (Undefined ''reads past a vector'')"
    using bad_bound [of _ int_cell 0 c] by (simp add: put_value_def replaceValue_def buildNewColumn_text_def replace_at_def Let_def)
  then have put: "par3 (\<lambda>p. in_party p (put_value C T (ReplaceInt v) (fst (the (the_int (l p)))) (ps_abnormal (snd (the (the_int (l p))))) b (pick3 ?mp p))) =
      Inl (Undefined ''reads past a vector'')" by (simp add: par3_def l0 in_party_def)
  have k: "all3 (\<lambda>p. mp_replace_type (pick3 ?mp p) = mp_replace_type (pick3 ?mp 0))" "mp_replace_type (pick3 ?mp 0) = replace_type"
    "\<not> all3 (\<lambda>p. l p = NoColumn)" "\<not> all3 (\<lambda>p. is_other (l p))" "all3 (\<lambda>p. the_int (l p) \<noteq> None)"
    using tab(4) by (simp_all add: all3_def l_def pick3_def is_other_def)
  have "process_column L X F C T B V (\<lambda>p. (b, u)) (pick3 ?mp) rt1 = Inl (Undefined ''reads past a vector'')"
    unfolding process_column_def par using k v put by (simp add: Let_def)
  then show ?thesis using 1 by simp
qed

theorem second_column_undefined_witness:
  "process_columns (process_column lib_ref fx_real fp_real cmp_real text_example bin_ref reveal_ref) [\<lambda>p. (''a'', 1), \<lambda>p. (''b'', 1)]
     (\<lambda>p. (missing_example ''MAX'' p)\<lparr>mp_table := Some [(''a'', Strs [[Some ''3''], [None]]), (''b'', Strs [[Some ''7''], [None]])],
        mp_local_col_names := [''a'', ''b'']\<rparr>) () = Inl (Undefined ''reads past a vector'')"
proof -
  have fit: "ints_fit (\<lambda>p. [[Some ''3''], [None]])"
    by (simp add: ints_fit_def all_ints_def ints_of_def cell_value_def example_cells)
  show ?thesis
    by (rule second_column_undefined [where replace_type = "''MAX''" and bs = "\<lambda>p. [[Some ''7''], [None]]", OF aby3_ok_ref bin_ok_ref reveal_ok_ref _ _ _ fit])
      (simp_all add: missing_example_def missing_loaded_def new_MissingProcess_def int_dtype_def)
qed

end
