(* ===== verification/Meta_Service.thy ===== *)
theory Meta_Service
  imports Json_Doc Grpc_Channel
begin

text \<open>
  The descriptions of datasets and where they are found: \<^verbatim>\<open>service/dataset/model.cc\<close>, \<^verbatim>\<open>model.h\<close>, the client of the
  meta service \<^verbatim>\<open>meta_service/grpc_impl.cc\<close>, the service in memory \<^verbatim>\<open>meta_service/memory_impl.cc\<close> with its storage,
  and \<^verbatim>\<open>MakeArrowDataType\<close> of \<^verbatim>\<open>util/arrow_wrapper_util.cc\<close>. An Arrow type is represented by its id.
\<close>

section \<open>Schemas\<close>

text \<open>
  The types that are rebuilt from their ids; the 256-bit decimals (24) become 128-bit ones (23), every other
  id text (13).
\<close>

definition MakeArrowDataType :: "int \<Rightarrow> int" where
  "MakeArrowDataType type =
     (if (1 \<le> type \<and> type \<le> 14) \<or> (16 \<le> type \<and> type \<le> 20) \<or> type = 23 then type
      else if type = 24 then 23 else 13)"

type_synonym schema = "(string \<times> int) list"

definition FromFields :: "(string \<times> int) list \<Rightarrow> schema" where
  "FromFields field_info = map (\<lambda>(name, type). (name, MakeArrowDataType type)) field_info"

definition schema_doc :: "schema \<Rightarrow> json" where
  "schema_doc schema = JArr (map (\<lambda>(name, type). JObj [(name, JInt type)]) schema)"

definition schema_toJSON :: "(json \<Rightarrow> string) \<Rightarrow> schema \<Rightarrow> string" where
  "schema_toJSON dump schema = dump (schema_doc schema)"

fun field_items :: "(string \<Rightarrow> int) \<Rightarrow> (string \<times> json) list \<Rightarrow> (string \<times> int) list res" where
  "field_items trunc [] = Inr []"
| "field_items trunc ((name, type) # rest) =
     bindR (nl_int trunc type) (\<lambda>t. bindR (field_items trunc rest) (\<lambda>fs. Inr ((name, t) # fs)))"

definition extractFields :: "(string \<Rightarrow> int) \<Rightarrow> json \<Rightarrow> (string \<times> int) list res" where
  "extractFields trunc j =
     (case j of JArr items \<Rightarrow> field_items trunc (concat (map nl_items items)) | _ \<Rightarrow> Inr [])"

text \<open>The constructor from a text: whatever is thrown on the way leaves an empty schema.\<close>

definition new_TableSchema :: "(string \<Rightarrow> int) \<Rightarrow> (string \<Rightarrow> json option) \<Rightarrow> string \<Rightarrow> schema" where
  "new_TableSchema trunc parse text =
     (case bindR (nl_parse parse text) (extractFields trunc) of Inr fs \<Rightarrow> FromFields fs | Inl _ \<Rightarrow> [])"

section \<open>Descriptions\<close>

datatype DatasetVisbility = PUBLIC | PRIVATE

datatype DatasetType = TABLE | ARRAY | TENSOR

text \<open>A visibility and a type that no constructor has set are \<open>None\<close>, as is the empty pointer to a schema.\<close>

record DatasetMeta =
  dm_id :: string
  dm_data_url :: string
  dm_server_meta :: string
  dm_access_meta :: string
  dm_description :: string
  dm_visibility :: "DatasetVisbility option"
  dm_driver_type :: string
  dm_data_type :: "DatasetType option"
  dm_schema :: "schema option"

definition new_DatasetMeta :: DatasetMeta where
  "new_DatasetMeta = \<lparr>dm_id = [], dm_data_url = [], dm_server_meta = [], dm_access_meta = [], dm_description = [],
     dm_visibility = None, dm_driver_type = [], dm_data_type = None, dm_schema = None\<rparr>"

text \<open>The constructor from a dataset: the driver gives its type, the node's address and the path of the data.\<close>

definition dataset_meta ::
  "schema \<Rightarrow> string \<Rightarrow> string \<Rightarrow> string \<Rightarrow> string \<Rightarrow> DatasetVisbility \<Rightarrow> string \<Rightarrow> DatasetMeta" where
  "dataset_meta table_schema driver_type nodelet_addr data_url description visibility dataset_access_info =
     \<lparr>dm_id = description, dm_data_url = nodelet_addr @ '':'' @ data_url, dm_server_meta = nodelet_addr,
      dm_access_meta = dataset_access_info, dm_description = description, dm_visibility = Some visibility,
      dm_driver_type = driver_type, dm_data_type = Some TABLE, dm_schema = Some table_schema\<rparr>"

definition visibility_int :: "DatasetVisbility \<Rightarrow> int" where
  "visibility_int v = (case v of PUBLIC \<Rightarrow> 0 | PRIVATE \<Rightarrow> 1)"

definition data_type_int :: "DatasetType \<Rightarrow> int" where
  "data_type_int t = (case t of TABLE \<Rightarrow> 0 | ARRAY \<Rightarrow> 1 | TENSOR \<Rightarrow> 2)"

definition the_set :: "'a option \<Rightarrow> 'a res" where
  "the_set x = (case x of Some y \<Rightarrow> Inr y | None \<Rightarrow> Inl (Undefined ''member not initialised''))"

definition meta_toJSON :: "(json \<Rightarrow> string) \<Rightarrow> DatasetMeta \<Rightarrow> string res" where
  "meta_toJSON dump m =
     bindR (the_set (dm_data_type m)) (\<lambda>data_type. bindR (the_set (dm_visibility m)) (\<lambda>visibility.
     bindR (the_set (dm_schema m)) (\<lambda>schema.
       Inr (dump (JObj
         [(''access_meta'', JStr (dm_access_meta m)), (''data_type'', JInt (data_type_int data_type)),
          (''data_url'', JStr (dm_data_url m)), (''description'', JStr (dm_description m)),
          (''driver_type'', JStr (dm_driver_type m)), (''id'', JStr (dm_id m)),
          (''schema'', JStr (schema_toJSON dump schema)), (''server_meta'', JStr (dm_server_meta m)),
          (''visibility'', JInt (visibility_int visibility))])))))"

text \<open>
  \<^verbatim>\<open>fromJSON\<close> updates the description in place; a schema is only built for tables. An integer that names no
  enumerator stays in the member: it is \<open>None\<close> here.
\<close>

definition member :: "json \<Rightarrow> string \<Rightarrow> string res" where
  "member j name = bindR (nl_at j name) nl_string"

definition meta_fromJSON ::
  "(string \<Rightarrow> int) \<Rightarrow> (string \<Rightarrow> json option) \<Rightarrow> string \<Rightarrow> DatasetMeta \<Rightarrow> DatasetMeta res" where
  "meta_fromJSON trunc parse text m =
     bindR (nl_parse parse text) (\<lambda>j. bindR (member j ''id'') (\<lambda>sid. bindR (member j ''data_url'') (\<lambda>data_url.
     bindR (member j ''description'') (\<lambda>description. bindR (bindR (nl_at j ''data_type'') (nl_int trunc)) (\<lambda>data_type.
     bindR (bindR (nl_at j ''visibility'') (nl_int trunc)) (\<lambda>visibility. bindR (member j ''schema'') (\<lambda>schema_text.
     bindR (member j ''driver_type'') (\<lambda>driver_type.
     bindR (if nl_contains j ''server_meta'' then member j ''server_meta'' else Inr (dm_server_meta m)) (\<lambda>server_meta.
     bindR (if nl_contains j ''access_meta'' then member j ''access_meta'' else Inr (dm_access_meta m)) (\<lambda>access_meta.
       Inr \<lparr>dm_id = sid, dm_data_url = data_url, dm_server_meta = server_meta, dm_access_meta = access_meta,
            dm_description = description,
            dm_visibility = (if visibility = 0 then Some PUBLIC else if visibility = 1 then Some PRIVATE else None),
            dm_driver_type = driver_type,
            dm_data_type = (if data_type = 0 then Some TABLE else if data_type = 1 then Some ARRAY
              else if data_type = 2 then Some TENSOR else None),
            dm_schema = (if data_type = 0 then Some (new_TableSchema trunc parse schema_text) else None)\<rparr>))))))))))"

definition saveAsPublic :: "DatasetMeta \<Rightarrow> DatasetMeta" where
  "saveAsPublic m = m\<lparr>dm_access_meta := []\<rparr>"

section \<open>Messages\<close>

record MetaInfo =
  mi_id :: string
  mi_driver :: string
  mi_access_info :: string
  mi_address :: string
  mi_visibility :: DatasetVisbility
  mi_data_type :: "(string \<times> int) list"

definition empty_MetaInfo :: MetaInfo where
  "empty_MetaInfo = \<lparr>mi_id = [], mi_driver = [], mi_access_info = [], mi_address = [], mi_visibility = PUBLIC, mi_data_type = []\<rparr>"

definition MetaToPbMetaInfo :: "DatasetMeta \<Rightarrow> MetaInfo \<Rightarrow> MetaInfo res" where
  "MetaToPbMetaInfo meta pb =
     (let pb1 = pb\<lparr>mi_id := dm_id meta, mi_driver := dm_driver_type meta, mi_access_info := dm_access_meta meta,
                   mi_address := dm_server_meta meta\<rparr> in
      bindR (the_set (dm_visibility meta)) (\<lambda>visibility. bindR (the_set (dm_schema meta)) (\<lambda>schema.
        Inr (pb1\<lparr>mi_visibility := visibility, mi_data_type := mi_data_type pb1 @ schema\<rparr>))))"

definition PbMetaInfoToMeta :: "MetaInfo \<Rightarrow> DatasetMeta \<Rightarrow> DatasetMeta" where
  "PbMetaInfoToMeta pb meta =
     meta\<lparr>dm_server_meta := mi_address pb, dm_access_meta := mi_access_info pb, dm_visibility := Some (mi_visibility pb),
          dm_id := mi_id pb, dm_driver_type := mi_driver pb, dm_data_type := Some TABLE,
          dm_schema := Some (FromFields (mi_data_type pb))\<rparr>"

record DatasetData =
  dd_available :: bool
  dd_meta_info :: MetaInfo

record GetDatasetResponse =
  gd_success :: bool
  gd_data_set :: "DatasetData list"

section \<open>The client of the meta service\<close>

text \<open>
  A call is tried again while it fails, one time more often than the limit says. \<open>None\<close> is the end
  without an answer.
\<close>

function meta_retry :: "('n \<Rightarrow> (bool \<times> 'p) \<times> 'n) \<Rightarrow> nat \<Rightarrow> 'n \<Rightarrow> 'p option \<times> 'n" where
  "meta_retry call retry_time n =
     (let ((ok, reply), n') = call n in
      if ok then (Some reply, n')
      else if retry_time < retry_max_times then meta_retry call (retry_time + 1) n' else (None, n'))"
  by pat_completeness auto

termination meta_retry
  by (relation "measure (\<lambda>(call, retry_time, n). retry_max_times - retry_time)") auto

declare meta_retry.simps [simp del]

definition PutMeta :: "(MetaInfo \<Rightarrow> 'n \<Rightarrow> (bool \<times> bool) \<times> 'n) \<Rightarrow> DatasetMeta \<Rightarrow> 'n \<Rightarrow> (retcode \<times> 'n) res" where
  "PutMeta NewDataset_rpc meta n =
     bindR (MetaToPbMetaInfo meta empty_MetaInfo) (\<lambda>meta_info.
       Inr (case meta_retry (NewDataset_rpc meta_info) 0 n of
              (Some success, n') \<Rightarrow> (if success then SUCCESS else FAIL, n')
            | (None, n') \<Rightarrow> (FAIL, n')))"

text \<open>
  \<^verbatim>\<open>GetMeta\<close> hands the first dataset of the answer to its handler when it is available, and nothing when the
  answer has no dataset.
\<close>

definition GetMeta ::
  "(string list \<Rightarrow> 'n \<Rightarrow> (bool \<times> GetDatasetResponse) \<times> 'n) \<Rightarrow> (DatasetMeta \<Rightarrow> 'h \<Rightarrow> retcode \<times> 'h) \<Rightarrow> string \<Rightarrow> 'h \<Rightarrow> 'n \<Rightarrow>
   (retcode \<times> 'h) \<times> 'n" where
  "GetMeta GetDataset_rpc handler dataset_id h n =
     (case meta_retry (GetDataset_rpc [dataset_id]) 0 n of
        (None, n') \<Rightarrow> ((FAIL, h), n')
      | (Some reply, n') \<Rightarrow>
          if \<not> gd_success reply then ((FAIL, h), n')
          else (case gd_data_set reply of
            [] \<Rightarrow> ((SUCCESS, h), n')
          | dataset # _ \<Rightarrow>
              if dd_available dataset
              then (let (ret, h') = handler (PbMetaInfoToMeta (dd_meta_info dataset) new_DatasetMeta) h in
                    (if ret \<noteq> SUCCESS then FAIL else SUCCESS, h'), n')
              else ((FAIL, h), n')))"

text \<open>The available datasets of an answer, each with the tag the map has under its id.\<close>

definition tagged :: "string std_map \<Rightarrow> DatasetData \<Rightarrow> (DatasetMeta \<times> string) list" where
  "tagged id2tag dataset =
     (if dd_available dataset
      then (case map_of id2tag (mi_id (dd_meta_info dataset)) of
              Some dataset_tag \<Rightarrow> [(PbMetaInfoToMeta (dd_meta_info dataset) new_DatasetMeta, dataset_tag)]
            | None \<Rightarrow> [])
      else [])"

definition id_tags :: "(string \<times> string) list \<Rightarrow> string std_map" where
  "id_tags datasets_with_tag = fold (\<lambda>(dataset_id, dataset_tag). map_assign dataset_id dataset_tag) datasets_with_tag []"

text \<open>The second result is the list the handler was called with.\<close>

definition FindPeerListFromDatasets ::
  "(string list \<Rightarrow> 'n \<Rightarrow> (bool \<times> GetDatasetResponse) \<times> 'n) \<Rightarrow> (string \<times> string) list \<Rightarrow> 'n \<Rightarrow>
   (retcode \<times> (DatasetMeta \<times> string) list option) res \<times> 'n" where
  "FindPeerListFromDatasets GetDataset_rpc datasets_with_tag n =
     (if datasets_with_tag = [] then (Inr (FAIL, None), n)
      else (case meta_retry (GetDataset_rpc (map fst datasets_with_tag)) 0 n of
        (None, n') \<Rightarrow> (Inr (FAIL, None), n')
      | (Some reply, n') \<Rightarrow>
          if \<not> gd_success reply then (Inr (FAIL, None), n')
          else
            let meta_list = concat (map (tagged (id_tags datasets_with_tag)) (gd_data_set reply)) in
            if length datasets_with_tag \<noteq> length meta_list
            then (Inl (Raised ''Failed to get all dataset's meta, no handler triggered.''), n')
            else (Inr (SUCCESS, Some meta_list), n')))"

definition GetAllMetas ::
  "(string list \<Rightarrow> 'n \<Rightarrow> (bool \<times> GetDatasetResponse) \<times> 'n) \<Rightarrow> DatasetMeta list \<Rightarrow> 'n \<Rightarrow> (retcode \<times> DatasetMeta list) \<times> 'n" where
  "GetAllMetas GetDataset_rpc metas n =
     (case meta_retry (GetDataset_rpc []) 0 n of
        (None, n') \<Rightarrow> ((FAIL, metas), n')
      | (Some reply, n') \<Rightarrow>
          if \<not> gd_success reply then ((FAIL, metas), n')
          else ((SUCCESS, map (\<lambda>dataset. PbMetaInfoToMeta (dd_meta_info dataset) new_DatasetMeta)
                 (filter dd_available (gd_data_set reply))), n'))"

section \<open>The service in memory\<close>

text \<open>\<^verbatim>\<open>emplace\<close> keeps an entry that is already there.\<close>

definition PutValue :: "string \<Rightarrow> string \<Rightarrow> string std_map \<Rightarrow> string std_map" where
  "PutValue key value values = map_insert key value values"

definition GetValue :: "string \<Rightarrow> string std_map \<Rightarrow> string option" where
  "GetValue key values = map_of values key"

definition Erase :: "string \<Rightarrow> string std_map \<Rightarrow> string std_map" where
  "Erase key values = filter (\<lambda>e. fst e \<noteq> key) values"

definition memory_PutMeta :: "(json \<Rightarrow> string) \<Rightarrow> DatasetMeta \<Rightarrow> string std_map \<Rightarrow> (retcode \<times> string std_map) res" where
  "memory_PutMeta dump meta values =
     bindR (meta_toJSON dump meta) (\<lambda>meta_str. Inr (SUCCESS, PutValue (dm_id meta) meta_str values))"

text \<open>A missing entry leaves the text empty, and it is parsed all the same.\<close>

definition memory_GetMeta ::
  "(string \<Rightarrow> int) \<Rightarrow> (string \<Rightarrow> json option) \<Rightarrow> (DatasetMeta \<Rightarrow> 'h \<Rightarrow> retcode \<times> 'h) \<Rightarrow> string \<Rightarrow> string std_map \<Rightarrow> 'h \<Rightarrow> (retcode \<times> 'h) res" where
  "memory_GetMeta trunc parse handler dataset_id values h =
     (let meta_str = (case GetValue dataset_id values of Some v \<Rightarrow> v | None \<Rightarrow> []) in
      bindR (meta_fromJSON trunc parse meta_str new_DatasetMeta) (\<lambda>meta.
        let (ret, h') = handler meta h in Inr (if ret \<noteq> SUCCESS then FAIL else SUCCESS, h')))"

section \<open>Descriptions survive their text\<close>

lemma MakeArrowDataType_idem [simp]: "MakeArrowDataType (MakeArrowDataType t) = MakeArrowDataType t"
  by (simp add: MakeArrowDataType_def)

lemma FromFields_idem [simp]: "FromFields (FromFields fs) = FromFields fs"
  by (simp add: FromFields_def case_prod_beta comp_def)

lemma field_items_doc:
  "field_items trunc (concat (map nl_items (map (\<lambda>(name, type). JObj [(name, JInt type)]) schema))) = Inr schema"
  by (induction schema) (auto simp: nl_items_def nl_int_def)

lemma schema_text:
  assumes "parse (schema_toJSON dump schema) = Some (schema_doc schema)"
  shows "new_TableSchema trunc parse (schema_toJSON dump schema) = FromFields schema"
  using assms field_items_doc [of trunc schema]
  by (simp add: new_TableSchema_def nl_parse_def schema_doc_def extractFields_def)

lemma meta_text:
  assumes "\<And>j. parse (dump j) = Some j"
    and "dm_visibility m \<noteq> None" "dm_data_type m = Some TABLE" "dm_schema m = Some schema" "FromFields schema = schema"
  shows "\<exists>text. meta_toJSON dump m = Inr text \<and> meta_fromJSON trunc parse text m0 = Inr m"
proof -
  obtain v where v: "dm_visibility m = Some v" using assms(2) by auto
  have s: "new_TableSchema trunc parse (schema_toJSON dump schema) = schema"
    using schema_text [of parse dump schema trunc] assms(1,5) by (simp add: schema_toJSON_def)
  show ?thesis
    by (cases v) (auto simp: meta_toJSON_def meta_fromJSON_def the_set_def member_def assms v s nl_defs data_type_int_def
        visibility_int_def intro!: DatasetMeta.equality)
qed

text \<open>
  The service in memory gives back the first description stored under an id; what is stored later
  under the same id is dropped without an error.
\<close>

lemma memory_first_wins:
  assumes "\<And>j. parse (dump j) = Some j"
    and "dm_visibility m \<noteq> None" "dm_data_type m = Some TABLE" "dm_schema m = Some schema" "FromFields schema = schema"
    and "map_of values (dm_id m) = None"
    and "memory_PutMeta dump m values = Inr (ret, values')"
    and "memory_PutMeta dump m' values' = Inr (ret', values'')"
  shows "memory_GetMeta trunc parse handler (dm_id m) values'' h =
      Inr (case handler m h of (r, h') \<Rightarrow> (if r \<noteq> SUCCESS then FAIL else SUCCESS, h'))"
proof -
  obtain str where t: "meta_toJSON dump m = Inr str" "meta_fromJSON trunc parse str new_DatasetMeta = Inr m"
    using meta_text [OF assms(1-5), of trunc new_DatasetMeta] by auto
  from assms(6-8) t have "GetValue (dm_id m) values'' = Some str"
    by (auto simp: memory_PutMeta_def PutValue_def GetValue_def)
  with t show ?thesis by (simp add: memory_GetMeta_def case_prod_beta Let_def)
qed

section \<open>What the meta service sends back\<close>

lemma meta_message:
  assumes "MetaToPbMetaInfo m empty_MetaInfo = Inr pb"
  shows "PbMetaInfoToMeta pb new_DatasetMeta =
    m\<lparr>dm_data_url := [], dm_description := [], dm_data_type := Some TABLE, dm_schema := map_option FromFields (dm_schema m)\<rparr>"
  using assms
  by (auto simp: MetaToPbMetaInfo_def PbMetaInfoToMeta_def the_set_def new_DatasetMeta_def empty_MetaInfo_def Let_def
      split: option.splits intro!: DatasetMeta.equality)

text \<open>The tag of an id is the one given last.\<close>

lemma id_tags_last: "map_of (id_tags ds) i = map_of (rev ds) i"
proof (induction ds rule: rev_induct)
  case (snoc d ds)
  then show ?case by (cases d) (auto simp: id_tags_def)
qed (simp add: id_tags_def)

lemma id_tags_distinct: "distinct (map fst ds) \<Longrightarrow> map_of (id_tags ds) i = map_of ds i"
  unfolding id_tags_last by (rule fun_cong [OF map_of_inject_set [THEN iffD2]]) (simp_all add: rev_map [symmetric])

lemma find_peers_tags:
  assumes "FindPeerListFromDatasets rpc ds n = (Inr (ret, Some metas), n')" and "(m, tag) \<in> set metas"
  shows "map_of (id_tags ds) (dm_id m) = Some tag"
  using assms
  by (auto simp: FindPeerListFromDatasets_def tagged_def PbMetaInfoToMeta_def Let_def
      split: if_splits prod.splits option.splits)

end
