(* ===== verification/Task_Language.thy ===== *)
theory Task_Language
  imports Meta_Service Vm_Node Party_Config "HOL-Library.Multiset" "HOL-Library.List_Lexorder" "HOL-Library.Char_ord"
begin

text \<open>
  Reading a task before it is distributed: the language parsers of \<^verbatim>\<open>task/language\<close>, which collect the datasets of
  a task, and the first half of \<^verbatim>\<open>task/semantic/parser.cc\<close>, which looks up where the datasets are and completes
  the table of the parties. A protobuf map is a list in the order in which it is iterated, which no
  program can rely on; after the table of the parties has been rebuilt, \<open>order\<close> gives its new order.
\<close>

section \<open>Language parsers\<close>

record LanguageParser =
  lp_python :: bool
  task_request :: PushTaskRequest
  input_datasets_with_tag :: "(string \<times> string) list"

definition LanguageParserFactory_Create :: "PushTaskRequest \<Rightarrow> LanguageParser option" where
  "LanguageParserFactory_Create request =
     (case pt_language (pr_task request) of
        PROTO \<Rightarrow> Some \<lparr>lp_python = False, task_request = request, input_datasets_with_tag = []\<rparr>
      | PYTHON \<Rightarrow> Some \<lparr>lp_python = True, task_request = request, input_datasets_with_tag = []\<rparr>
      | _ \<Rightarrow> None)"

definition party_dataset_ids :: "pb_task \<Rightarrow> (string \<times> string) list" where
  "party_dataset_ids t =
     concat (map (\<lambda>(party_name, dataset_map). map (\<lambda>(_, dataset_id). (dataset_id, party_name)) (ds_data dataset_map))
       (pt_party_datasets t))"

definition proto_parseDatasets :: "LanguageParser \<Rightarrow> LanguageParser" where
  "proto_parseDatasets p =
     p\<lparr>input_datasets_with_tag := input_datasets_with_tag p @
         filter (\<lambda>(dataset_id, _). dataset_id \<noteq> []) (party_dataset_ids (pr_task (task_request p)))\<rparr>"

text \<open>The parser of Python tasks drops a pair when the concatenation of its two names has been seen before.\<close>

fun py_datasets :: "string list \<Rightarrow> (string \<times> string) list \<Rightarrow> (string \<times> string) list" where
  "py_datasets dup_filter [] = []"
| "py_datasets dup_filter ((dataset_id, party_name) # rest) =
     (if dataset_id = [] then py_datasets dup_filter rest
      else let uniq_id = party_name @ dataset_id in
        if uniq_id \<in> set dup_filter then py_datasets dup_filter rest
        else (dataset_id, party_name) # py_datasets (uniq_id # dup_filter) rest)"

definition py_parseDatasets :: "LanguageParser \<Rightarrow> LanguageParser" where
  "py_parseDatasets p =
     p\<lparr>input_datasets_with_tag := input_datasets_with_tag p @ py_datasets [] (party_dataset_ids (pr_task (task_request p)))\<rparr>"

definition parseDatasets :: "LanguageParser \<Rightarrow> LanguageParser" where
  "parseDatasets p = (if lp_python p then py_parseDatasets p else proto_parseDatasets p)"

section \<open>The table of the parties\<close>

definition merged_parties :: "Node std_map \<Rightarrow> pb_node std_map \<Rightarrow> Node std_map" where
  "merged_parties party_access_info current =
     (let filtered_party = fold (\<lambda>(party_name, pb_node). map_insert party_name (pbNode2Node pb_node new_Node)) current [] in
      sort_key fst (fold (\<lambda>(party_name, node). map_insert party_name node) party_access_info filtered_party))"

definition number_parties :: "Node std_map \<Rightarrow> pb_node std_map" where
  "number_parties filtered_party =
     map (\<lambda>(party_id, party_name, node). (party_name, (node2PbNode node new_pb_node)\<lparr>pb_party_id := int party_id\<rparr>))
       (enumerate 0 filtered_party)"

definition set_parties :: "pb_node std_map \<Rightarrow> LanguageParser \<Rightarrow> LanguageParser" where
  "set_parties info p =
     p\<lparr>task_request := (task_request p)\<lparr>pr_task := (pr_task (task_request p))\<lparr>pt_party_access_info := info\<rparr>\<rparr>\<rparr>"

definition MergePartyAccessInfo :: "(pb_node std_map \<Rightarrow> pb_node std_map) \<Rightarrow> Node std_map \<Rightarrow> LanguageParser \<Rightarrow> LanguageParser" where
  "MergePartyAccessInfo order party_access_info p =
     set_parties (order (number_parties
       (merged_parties party_access_info (pt_party_access_info (pr_task (task_request p)))))) p"

text \<open>A later dataset of a party replaces the address of an earlier one.\<close>

fun metasToPartyAccessInfo :: "(DatasetMeta \<times> string) list \<Rightarrow> Node std_map \<Rightarrow> Node std_map res" where
  "metasToPartyAccessInfo [] party_access_info = Inr party_access_info"
| "metasToPartyAccessInfo ((meta_info, party_name) # rest) party_access_info =
     bindR (node_fromString (dm_server_meta meta_info) new_Node) (\<lambda>access_info.
       metasToPartyAccessInfo rest (map_assign party_name access_info party_access_info))"

type_synonym 'n find_peers = "(string \<times> string) list \<Rightarrow> 'n \<Rightarrow> (retcode \<times> (DatasetMeta \<times> string) list option) res \<times> 'n"

definition aux_by_dataset :: "'n find_peers \<Rightarrow> string \<Rightarrow> 'n \<Rightarrow> pb_node res \<times> 'n" where
  "aux_by_dataset find_peer dataset_id n =
     (case find_peer [(dataset_id, ''default'')] n of
        (Inl e, n') \<Rightarrow> (Inl e, n')
      | (Inr (_, Some [(meta_info, _)]), n') \<Rightarrow>
          (bindR (node_fromString (dm_server_meta meta_info) new_Node) (\<lambda>access_info. Inr (node2PbNode access_info new_pb_node)), n')
      | (Inr _, n') \<Rightarrow> (Inr new_pb_node, n'))"

definition aux_by_address :: "(string \<Rightarrow> int) \<Rightarrow> json \<Rightarrow> pb_node res" where
  "aux_by_address trunc js_info =
     bindR (member js_info ''ip'') (\<lambda>ip. bindR (bindR (nl_at js_info ''port'') (nl_int trunc)) (\<lambda>port.
     bindR (bindR (nl_at js_info ''use_tls'') nl_bool) (\<lambda>use_tls.
       Inr (new_pb_node\<lparr>pb_ip := ip, pb_port := word_of_int port, pb_use_tls := use_tls\<rparr>))))"

text \<open>
  \<^verbatim>\<open>ProcessAuxiliaryServer\<close>: the entry is written whatever the search found, with an empty node when it found
  nothing. The parameter is read as text; of another kind of value that is the empty text.
\<close>

definition set_auxiliary :: "pb_node \<Rightarrow> LanguageParser \<Rightarrow> LanguageParser" where
  "set_auxiliary node p =
     (let t = pr_task (task_request p) in
      p\<lparr>task_request := (task_request p)\<lparr>pr_task :=
        t\<lparr>pt_auxiliary_server := map_assign ''AUXILIARY_COMPUTE_NODE'' node (pt_auxiliary_server t)\<rparr>\<rparr>\<rparr>)"

definition ProcessAuxiliaryServer ::
  "(string \<Rightarrow> int) \<Rightarrow> (string \<Rightarrow> json option) \<Rightarrow> 'n find_peers \<Rightarrow> LanguageParser \<Rightarrow> 'n \<Rightarrow> LanguageParser res \<times> 'n" where
  "ProcessAuxiliaryServer trunc parse find_peer p n =
     (case map_of (pt_params (pr_task (task_request p))) ''auxiliary_server'' of
        None \<Rightarrow> (Inr p, n)
      | Some pv \<Rightarrow>
          let info = (case pv_value pv of value_string s \<Rightarrow> s | _ \<Rightarrow> []) in
          (case bindR (nl_parse parse info) (\<lambda>js_info.
                bindR (bindR (nl_at js_info ''is_dataset'') nl_bool) (\<lambda>is_dataset.
                  if is_dataset then bindR (member js_info ''dataset_id'') (\<lambda>dataset_id. Inr (Inl dataset_id))
                  else bindR (aux_by_address trunc js_info) (\<lambda>node. Inr (Inr node)))) of
             Inl e \<Rightarrow> (Inl e, n)
           | Inr (Inr node) \<Rightarrow> (Inr (set_auxiliary node p), n)
           | Inr (Inl dataset_id) \<Rightarrow>
               let (found, n') = aux_by_dataset find_peer dataset_id n in
               (bindR found (\<lambda>node. Inr (set_auxiliary node p)), n')))"

definition ParseDatasetToPartyAccessInfo ::
  "(string \<Rightarrow> int) \<Rightarrow> (string \<Rightarrow> json option) \<Rightarrow> 'n find_peers \<Rightarrow> (pb_node std_map \<Rightarrow> pb_node std_map) \<Rightarrow>
   LanguageParser \<Rightarrow> 'n \<Rightarrow> LanguageParser res \<times> 'n" where
  "ParseDatasetToPartyAccessInfo trunc parse find_peer order p n =
     (case find_peer (input_datasets_with_tag p) n of
        (Inl e, n') \<Rightarrow> (Inl e, n')
      | (Inr (_, None), n') \<Rightarrow> ProcessAuxiliaryServer trunc parse find_peer p n'
      | (Inr (_, Some metas), n') \<Rightarrow>
          (case metasToPartyAccessInfo metas [] of
             Inl e \<Rightarrow> (Inl e, n')
           | Inr info \<Rightarrow> ProcessAuxiliaryServer trunc parse find_peer (MergePartyAccessInfo order info p) n'))"

section \<open>The datasets of a Python task\<close>

text \<open>
  Where the concatenations of names tell the pairs apart, the filter only drops repeated pairs. Two
  different pairs with one concatenation are mistaken for each other, and the second is lost.
\<close>

lemma py_datasets_set:
  "inj_on (\<lambda>(d, party). party @ d) (set es) \<Longrightarrow>
   set (py_datasets seen es) = {(d, party) \<in> set es. d \<noteq> [] \<and> party @ d \<notin> set seen}"
proof (induction es arbitrary: seen)
  case (Cons e es)
  obtain d party where e: "e = (d, party)" by (cases e)
  have inj: "inj_on (\<lambda>(d, party). party @ d) (set es)" using Cons.prems by (simp add: inj_on_insert)
  have same: "(d', party') = (d, party)" if "(d', party') \<in> set es" "party' @ d' = party @ d" for d' party'
    using inj_onD [OF Cons.prems, of "(d', party')" "(d, party)"] that by (simp add: e)
  note IH = Cons.IH [OF inj]
  consider "d = []" | "d \<noteq> []" "party @ d \<in> set seen" | "d \<noteq> []" "party @ d \<notin> set seen" by blast
  then show ?case
  proof cases
    case 3
    then have "set (py_datasets seen (e # es)) = insert (d, party) {(d', p) \<in> set es. d' \<noteq> [] \<and> p @ d' \<notin> insert (party @ d) (set seen)}"
      using IH [of "(party @ d) # seen"] by (simp add: e Let_def)
    also have "\<dots> = {(d', p) \<in> set (e # es). d' \<noteq> [] \<and> p @ d' \<notin> set seen}" using 3 by (auto simp: e dest: same)
    finally show ?thesis .
  qed (auto simp: e IH)
qed simp

lemma py_datasets_collide: "py_datasets [] [(''c'', ''ab''), (''bc'', ''a'')] = [(''c'', ''ab'')]"
  by simp

section \<open>The numbers of the parties\<close>

lemma fold_insert_keeps:
  "map_wf m \<Longrightarrow> map_wf (fold (\<lambda>(k, v). map_insert k (f v)) es m) \<and>
   (\<forall>k. map_of (fold (\<lambda>(k, v). map_insert k (f v)) es m) k =
     (case map_of m k of Some v \<Rightarrow> Some v | None \<Rightarrow> map_option f (map_of es k)))"
proof (induction es arbitrary: m)
  case (Cons e es)
  obtain k v where e: "e = (k, v)" by (cases e)
  have "map_wf (map_insert k (f v) m)" using Cons.prems by simp
  from Cons.IH [OF this] show ?case by (simp add: e split: option.splits)
qed (simp add: option.case_eq_if)

lemma map_of_mset: "map_wf m \<Longrightarrow> mset m' = mset m \<Longrightarrow> map_wf m' \<and> map_of m' = map_of m"
proof -
  assume "map_wf m" "mset m' = mset m"
  moreover from this have "mset (map fst m') = mset (map fst m)" by simp
  ultimately have "distinct (map fst m')" by (metis map_wf_def mset_eq_imp_distinct_iff)
  moreover have "set m' = set m" using \<open>mset m' = mset m\<close> by (metis set_mset_mset)
  ultimately show ?thesis using \<open>map_wf m\<close> by (simp add: map_wf_def map_of_inject_set)
qed

lemma merged_parties_result:
  assumes "map_wf current"
  shows "map_wf (merged_parties info current) \<and> sorted (map fst (merged_parties info current)) \<and>
    (\<forall>k. map_of (merged_parties info current) k =
      (case map_of current k of Some pb \<Rightarrow> Some (pbNode2Node pb new_Node) | None \<Rightarrow> map_of info k))"
proof -
  let ?c = "fold (\<lambda>(party_name, pb_node). map_insert party_name (pbNode2Node pb_node new_Node)) current []"
  let ?m = "fold (\<lambda>(party_name, node). map_insert party_name node) info ?c"
  have c: "map_wf ?c \<and> (\<forall>k. map_of ?c k = map_option (\<lambda>pb. pbNode2Node pb new_Node) (map_of current k))"
    using fold_insert_keeps [of "[]" "\<lambda>pb. pbNode2Node pb new_Node" current] by simp
  then have m: "map_wf ?m \<and> (\<forall>k. map_of ?m k = (case map_of ?c k of Some v \<Rightarrow> Some v | None \<Rightarrow> map_of info k))"
    using fold_insert_keeps [of ?c "\<lambda>node. node" info] by (simp add: option.map_ident split: option.splits)
  have "merged_parties info current = sort_key fst ?m" by (simp add: merged_parties_def)
  moreover from m map_of_mset [of ?m "sort_key fst ?m"] have "map_wf (sort_key fst ?m) \<and> map_of (sort_key fst ?m) = map_of ?m" by simp
  ultimately show ?thesis using m c by (auto split: option.splits)
qed

lemma number_parties_keys: "map fst (number_parties ps) = map fst ps"
  by (rule nth_equalityI) (simp_all add: number_parties_def nth_enumerate_eq case_prod_beta)

lemma number_parties_ids: "map (\<lambda>e. pb_party_id (snd e)) (number_parties ps) = map int [0..<length ps]"
  by (rule nth_equalityI) (simp_all add: number_parties_def nth_enumerate_eq case_prod_beta)

lemma number_parties_nth:
  "i < length ps \<Longrightarrow> number_parties ps ! i = (fst (ps ! i), (node2PbNode (snd (ps ! i)) new_pb_node)\<lparr>pb_party_id := int i\<rparr>)"
  by (simp add: number_parties_def nth_enumerate_eq case_prod_beta)

lemma node_there_and_back [simp]: "pbNode2Node (node2PbNode n p) n' = n"
  by (simp add: pbNode2Node_def node2PbNode_def)

lemma node_of_numbered [simp]: "pbNode2Node (p\<lparr>pb_party_id := i\<rparr>) n = pbNode2Node p n"
  by (simp add: pbNode2Node_def)

lemma number_parties_node:
  assumes "map_wf ps" "map_of (number_parties ps) k = Some pb"
  shows "map_of ps k = Some (pbNode2Node pb new_Node)" "0 \<le> pb_party_id pb" "pb_party_id pb < int (length ps)"
    "fst (ps ! nat (pb_party_id pb)) = k"
proof -
  from assms(2) obtain i where i: "i < length ps" "number_parties ps ! i = (k, pb)"
    by (metis in_set_conv_nth length_map map_of_SomeD number_parties_keys)
  then show "map_of ps k = Some (pbNode2Node pb new_Node)" "0 \<le> pb_party_id pb" "pb_party_id pb < int (length ps)"
    "fst (ps ! nat (pb_party_id pb)) = k"
    using number_parties_nth [of i ps] assms(1) by (auto simp: map_wf_def)
qed

lemma number_parties_ok:
  assumes "map_wf ps" "length ps \<le> 2 ^ 16"
  shows "parties_ok (number_parties ps)"
proof -
  have "distinct (map fst (number_parties ps))" using assms(1) by (simp add: number_parties_keys map_wf_def)
  moreover have "distinct (map (\<lambda>e. pb_party_id (snd e)) (number_parties ps))"
    by (simp add: number_parties_ids distinct_map)
  moreover have "0 \<le> pb_party_id (snd e) \<and> pb_party_id (snd e) < 2 ^ 16" if "e \<in> set (number_parties ps)" for e
  proof -
    have "pb_party_id (snd e) \<in> set (map (\<lambda>e. pb_party_id (snd e)) (number_parties ps))" using that by simp
    then show ?thesis using assms(2) unfolding number_parties_ids by auto
  qed
  ultimately show ?thesis by (simp add: parties_ok_def)
qed

lemma parties_ok_mset: "parties_ok info \<Longrightarrow> mset info' = mset info \<Longrightarrow> parties_ok info'"
proof -
  assume a: "parties_ok info" "mset info' = mset info"
  then have "set info' = set info" "mset (map fst info') = mset (map fst info)"
    "mset (map (\<lambda>e. pb_party_id (snd e)) info') = mset (map (\<lambda>e. pb_party_id (snd e)) info)"
    by (auto dest: mset_eq_setD)
  with a(1) show ?thesis unfolding parties_ok_def by (metis mset_eq_imp_distinct_iff)
qed

lemma merge_request:
  "pt_party_access_info (pr_task (task_request (MergePartyAccessInfo order info p))) =
     order (number_parties (merged_parties info (pt_party_access_info (pr_task (task_request p)))))"
  by (simp add: MergePartyAccessInfo_def set_parties_def)

text \<open>
  Completing the table of the parties. Whatever order the container has afterwards, the table
  satisfies what the parties rely on when they arrange themselves by name and number; it has the
  parties of the request and those found by their datasets, a party of the request keeps its
  address, and the numbers follow the alphabetical order of the names.
\<close>

theorem merge_numbers_parties:
  assumes was: "was = pt_party_access_info (pr_task (task_request p))"
    and now: "now = pt_party_access_info (pr_task (task_request (MergePartyAccessInfo order info p)))"
    and "map_wf was" "length (merged_parties info was) \<le> 2 ^ 16" and order: "\<And>m. mset (order m) = mset m"
  shows "parties_ok now \<and>
    (\<forall>name. map_option (\<lambda>pb. pbNode2Node pb new_Node) (map_of now name) =
       (case map_of was name of Some pb \<Rightarrow> Some (pbNode2Node pb new_Node) | None \<Rightarrow> map_of info name)) \<and>
    (\<forall>a b pa pb. map_of now a = Some pa \<and> map_of now b = Some pb \<and> a < b \<longrightarrow> pb_party_id pa < pb_party_id pb) \<and>
    pb_party_id ` snd ` set now = {0..<int (length now)}"
proof -
  let ?ps = "merged_parties info was"
  have wf: "map_wf ?ps" and srt: "sorted (map fst ?ps)"
    and look: "\<And>k. map_of ?ps k = (case map_of was k of Some pb \<Rightarrow> Some (pbNode2Node pb new_Node) | None \<Rightarrow> map_of info k)"
    using merged_parties_result [of was info] assms(3) by simp_all
  have nows: "now = order (number_parties ?ps)" by (simp add: now was merge_request)
  have nwf: "map_wf (number_parties ?ps)" using wf by (simp add: map_wf_def number_parties_keys)
  have same: "map_of now = map_of (number_parties ?ps)" "mset now = mset (number_parties ?ps)"
    using map_of_mset [OF nwf, of now] order by (simp_all add: nows)
  have ok: "parties_ok now"
    using number_parties_ok [OF wf] assms(4) parties_ok_mset [OF _ same(2)] by simp
  have "map_option (\<lambda>pb. pbNode2Node pb new_Node) (map_of now name) = map_of ?ps name" for name
  proof (cases "map_of (number_parties ?ps) name")
    case None
    then have "map_of ?ps name = None" by (metis map_of_eq_None_iff number_parties_keys set_map)
    with None show ?thesis by (simp add: same)
  next
    case (Some pb)
    then show ?thesis using number_parties_node(1) [OF wf Some] by (simp add: same)
  qed
  moreover have "pb_party_id pa < pb_party_id pb"
    if "map_of now a = Some pa" "map_of now b = Some pb" "a < b" for a b pa pb
  proof -
    note A = number_parties_node [OF wf that(1) [unfolded same]] and B = number_parties_node [OF wf that(2) [unfolded same]]
    show ?thesis
    proof (rule ccontr)
      assume "\<not> pb_party_id pa < pb_party_id pb"
      then have "nat (pb_party_id pb) \<le> nat (pb_party_id pa)" by simp
      then have "map fst ?ps ! nat (pb_party_id pb) \<le> map fst ?ps ! nat (pb_party_id pa)"
        using srt A(2,3) by (intro sorted_nth_mono) auto
      with A B that(3) show False by (simp add: nat_less_iff)
    qed
  qed
  moreover have "pb_party_id ` snd ` set now = {0..<int (length now)}"
  proof -
    have "pb_party_id ` snd ` set now = set (map (\<lambda>e. pb_party_id (snd e)) (number_parties ?ps))"
      using mset_eq_setD [OF same(2)] by (simp add: image_image)
    moreover have "length now = length ?ps" using mset_eq_length [OF same(2)] by (simp add: number_parties_def)
    ultimately show ?thesis unfolding number_parties_ids by (simp add: image_int_atLeastLessThan)
  qed
  ultimately show ?thesis using ok look by (simp; blast)
qed

definition example_node :: "string \<Rightarrow> u32 \<Rightarrow> pb_node" where
  "example_node ip port = new_pb_node\<lparr>pb_node_id := ''n'', pb_ip := ip, pb_port := port\<rparr>"

definition example_request :: PushTaskRequest where
  "example_request = \<lparr>pr_task = \<lparr>pt_type = ACTOR_TASK, pt_language = PROTO, pt_code = [], pt_node_map = [], pt_task_info = empty_TaskContext,
     pt_party_name = [], pt_params = [],
     pt_party_datasets = [(''B'', \<lparr>ds_data = [(''x'', ''d'')], ds_detail = False\<rparr>), (''A'', \<lparr>ds_data = [(''x'', ''d'')], ds_detail = False\<rparr>)],
     pt_party_access_info = [(''C'', example_node ''h'' 1)], pt_auxiliary_server = []\<rparr>, pr_manual_launch = False\<rparr>"

definition example_parser :: LanguageParser where
  "example_parser = \<lparr>lp_python = False, task_request = example_request, input_datasets_with_tag = []\<rparr>"

theorem merge_numbers_parties_witness:
  "map_option pb_party_id (map_of (pt_party_access_info (pr_task (task_request
     (MergePartyAccessInfo rev [(''A'', new_Node)] example_parser)))) ''C'') = Some 1"
proof -
  define now where "now = pt_party_access_info (pr_task (task_request (MergePartyAccessInfo rev [(''A'', new_Node)] example_parser)))"
  define was where "was = pt_party_access_info (pr_task (task_request example_parser))"
  have "map_wf was" "length (merged_parties [(''A'', new_Node)] was) \<le> 2 ^ 16"
    by (simp_all add: was_def example_parser_def example_request_def map_wf_def merged_parties_def map_insert_def)
  from merge_numbers_parties [OF was_def now_def this]
  have f: "\<And>name. map_option (\<lambda>pb. pbNode2Node pb new_Node) (map_of now name) =
       (case map_of was name of Some pb \<Rightarrow> Some (pbNode2Node pb new_Node) | None \<Rightarrow> map_of [(''A'', new_Node)] name)"
    "\<And>a b pa pb. map_of now a = Some pa \<and> map_of now b = Some pb \<and> a < b \<longrightarrow> pb_party_id pa < pb_party_id pb"
    "pb_party_id ` snd ` set now = {0..<int (length now)}" by simp_all
  have "length now = 2"
    by (simp add: now_def merge_request number_parties_def merged_parties_def example_parser_def example_request_def map_insert_def)
  moreover obtain pa pc where "map_of now ''A'' = Some pa" "map_of now ''C'' = Some pc"
    using f(1) [of "''A''"] f(1) [of "''C''"]
    by (auto simp: was_def example_parser_def example_request_def split: option.splits)
  moreover from this have "pb_party_id pa \<in> {0..<int (length now)}" "pb_party_id pc \<in> {0..<int (length now)}"
    unfolding f(3) [symmetric] by (force dest!: map_of_SomeD)+
  moreover have "pb_party_id pa < pb_party_id pc" using f(2) [of "''A''" pa "''C''" pc] calculation by simp
  ultimately show ?thesis by (simp add: now_def [symmetric])
qed

section \<open>Datasets that two parties share\<close>

text \<open>What the parser relies on: a dataset comes back with the tag that was given last for its id.\<close>

locale peer_finder =
  fixes find_peer :: "'n find_peers"
  assumes tags: "find_peer ds n = (Inr (ret, Some metas), n') \<Longrightarrow> (m, tag) \<in> set metas \<Longrightarrow> map_of (rev ds) (dm_id m) = Some tag"
begin

lemma unlisted_tag:
  assumes "find_peer ds n = (Inr (ret, Some metas), n')" "\<And>i. map_of (rev ds) i \<noteq> Some party"
  shows "party \<notin> snd ` set metas"
  using tags [OF assms(1)] assms(2) by fastforce

end

interpretation grpc: peer_finder "FindPeerListFromDatasets rpc"
  by unfold_locales (metis find_peers_tags id_tags_last)

lemma metas_names: "metasToPartyAccessInfo metas info = Inr info' \<Longrightarrow> set (map fst info') = snd ` set metas \<union> set (map fst info)"
proof (induction metas arbitrary: info)
  case (Cons e metas)
  obtain m party where e: "e = (m, party)" by (cases e)
  from Cons.prems obtain node where "metasToPartyAccessInfo metas (map_assign party node info) = Inr info'" by (auto simp: e)
  from Cons.IH [OF this] show ?case by (simp add: e map_assign_keys)
qed simp

lemma auxiliary_keeps_table:
  "ProcessAuxiliaryServer trunc parse find_peer p n = (Inr p', n') \<Longrightarrow>
   pt_party_access_info (pr_task (task_request p')) = pt_party_access_info (pr_task (task_request p))"
  by (auto simp: ProcessAuxiliaryServer_def set_auxiliary_def Let_def split: option.splits sum.splits prod.splits)

lemma parse_table:
  assumes "ParseDatasetToPartyAccessInfo trunc parse find_peer order p n = (Inr p', n')"
  obtains (unchanged) ret n1 where "find_peer (input_datasets_with_tag p) n = (Inr (ret, None), n1)"
      "pt_party_access_info (pr_task (task_request p')) = pt_party_access_info (pr_task (task_request p))"
  | (merged) ret metas n1 info where "find_peer (input_datasets_with_tag p) n = (Inr (ret, Some metas), n1)"
      "metasToPartyAccessInfo metas [] = Inr info"
      "pt_party_access_info (pr_task (task_request p')) =
        pt_party_access_info (pr_task (task_request (MergePartyAccessInfo order info p)))"
  using assms
  by (auto simp: ParseDatasetToPartyAccessInfo_def dest: auxiliary_keeps_table split: prod.splits sum.splits option.splits)

lemma merged_names:
  assumes "map_wf current" "\<And>m. mset (order m) = mset m"
  shows "set (map fst (order (number_parties (merged_parties info current)))) = set (map fst current) \<union> set (map fst info)"
proof -
  have "set (map fst (order (number_parties (merged_parties info current)))) = set (map fst (merged_parties info current))"
    by (metis assms(2) mset_eq_setD number_parties_keys set_map)
  moreover have "k \<in> set (map fst (merged_parties info current)) \<longleftrightarrow> k \<in> set (map fst current) \<union> set (map fst info)" for k
  proof -
    have "k \<in> set (map fst (merged_parties info current)) \<longleftrightarrow> map_of (merged_parties info current) k \<noteq> None"
      by (simp add: map_of_eq_None_iff)
    also have "\<dots> \<longleftrightarrow> map_of current k \<noteq> None \<or> map_of info k \<noteq> None"
      using merged_parties_result [OF assms(1), of info] by (auto split: option.splits)
    finally show ?thesis by (auto simp: map_of_eq_None_iff)
  qed
  ultimately show ?thesis by blast
qed

text \<open>
  C36. Two parties that use the same dataset: the client of the meta service keeps one tag for each
  id, the one given last. A party every dataset of which is listed again for another party is
  therefore never found, whatever the meta service answers: unless the request has its address it
  does not take part in the task.
\<close>

theorem shared_dataset_loses_party:
  assumes "ParseDatasetToPartyAccessInfo trunc parse (FindPeerListFromDatasets rpc) order p n = (Inr p', n')"
    and "map_wf (pt_party_access_info (pr_task (task_request p)))" and "\<And>m. mset (order m) = mset m"
    and "\<And>i. map_of (rev (input_datasets_with_tag p)) i \<noteq> Some party"
    and "map_of (pt_party_access_info (pr_task (task_request p))) party = None"
  shows "map_of (pt_party_access_info (pr_task (task_request p'))) party = None"
  using assms(1)
proof (cases rule: parse_table)
  case unchanged
  with assms(5) show ?thesis by simp
next
  case (merged ret metas n1 info)
  have "party \<notin> snd ` set metas" using grpc.unlisted_tag [OF merged(1)] assms(4) by blast
  then have "party \<notin> set (map fst info)" using metas_names [OF merged(2)] by simp
  moreover have "party \<notin> set (map fst (pt_party_access_info (pr_task (task_request p))))"
    using assms(5) by (simp add: map_of_eq_None_iff)
  ultimately show ?thesis
    using merged_names [OF assms(2,3), of info] unfolding merged(3) merge_request map_of_eq_None_iff by simp
qed

definition example_answer :: "string list \<Rightarrow> unit \<Rightarrow> (bool \<times> GetDatasetResponse) \<times> unit" where
  "example_answer ids n = ((True, \<lparr>gd_success = True,
     gd_data_set = map (\<lambda>i. \<lparr>dd_available = True, dd_meta_info = empty_MetaInfo\<lparr>mi_id := i, mi_address := ''n:h:5:0:''\<rparr>\<rparr>) ids\<rparr>), n)"

lemma example_address: "node_fromString ''n:h:5:0:'' new_Node = Inr (new_Node\<lparr>nd_id := ''n'', nd_ip := ''h'', nd_port := 5\<rparr>)"
  by code_simp

lemma example_datasets: "input_datasets_with_tag (parseDatasets example_parser) = [(''d'', ''B''), (''d'', ''A'')]"
  by (simp add: example_parser_def parseDatasets_def proto_parseDatasets_def party_dataset_ids_def example_request_def)

theorem shared_dataset_loses_party_witness:
  "\<exists>p'. ParseDatasetToPartyAccessInfo (\<lambda>_. 0) (\<lambda>_. None) (FindPeerListFromDatasets example_answer) rev
      (parseDatasets example_parser) () = (Inr p', ()) \<and>
    map_of (pt_party_access_info (pr_task (task_request p'))) ''B'' = None"
proof -
  let ?p = "parseDatasets example_parser"
  have t: "pr_task (task_request ?p) = pr_task example_request"
    by (simp add: example_parser_def parseDatasets_def proto_parseDatasets_def)
  have "meta_retry (example_answer [''d'', ''d'']) 0 () = (Some (snd (fst (example_answer [''d'', ''d''] ()))), ())"
    by (subst meta_retry.simps) (simp add: example_answer_def)
  then obtain metas where f: "FindPeerListFromDatasets example_answer (input_datasets_with_tag ?p) () = (Inr (SUCCESS, Some metas), ())"
    and m: "\<forall>e \<in> set metas. dm_server_meta (fst e) = ''n:h:5:0:''"
    by (simp add: example_datasets FindPeerListFromDatasets_def example_answer_def tagged_def id_tags_def map_assign_def
        PbMetaInfoToMeta_def Let_def)
  have "\<exists>info'. metasToPartyAccessInfo metas info = Inr info'" for info
    using m by (induction metas arbitrary: info) (auto simp: example_address)
  then obtain info where i: "metasToPartyAccessInfo metas [] = Inr info" by blast
  define p' where "p' = MergePartyAccessInfo rev info ?p"
  have "pt_params (pr_task (task_request p')) = []"
    by (simp add: p'_def MergePartyAccessInfo_def set_parties_def t example_request_def)
  with f i have p': "ParseDatasetToPartyAccessInfo (\<lambda>_. 0) (\<lambda>_. None) (FindPeerListFromDatasets example_answer) rev ?p () = (Inr p', ())"
    by (simp add: ParseDatasetToPartyAccessInfo_def ProcessAuxiliaryServer_def p'_def)
  have "map_of (pt_party_access_info (pr_task (task_request p'))) ''B'' = None"
    by (rule shared_dataset_loses_party [OF p']) (simp_all add: t example_request_def map_wf_def example_datasets)
  with p' show ?thesis by blast
qed

end
