(* ===== verification/Interleave.thy ===== *)
theory Interleave
  imports Main "HOL-Library.Multiset"
begin

text \<open>
  Threads that are started together and joined: each is the list of its actions on the shared state,
  in program order. A schedule says whose turn it is; a turn of a thread that has ended does
  nothing, and what the schedule leaves undone is done before the join returns. The step relation
  below is the reference: every complete run of it is a schedule's, and every schedule's run is one.
\<close>

section \<open>Runs\<close>

definition turn :: "('a \<Rightarrow> 's \<Rightarrow> 's) \<Rightarrow> nat \<Rightarrow> 'a list list \<times> 's \<Rightarrow> 'a list list \<times> 's" where
  "turn act i c =
     (let (ts, s) = c in
      if i < length ts then (case ts ! i of [] \<Rightarrow> (ts, s) | a # rest \<Rightarrow> (ts[i := rest], act a s)) else (ts, s))"

definition run_threads :: "('a \<Rightarrow> 's \<Rightarrow> 's) \<Rightarrow> nat list \<Rightarrow> 'a list list \<Rightarrow> 's \<Rightarrow> 's" where
  "run_threads act picks ts s = (let (ts', s') = fold (turn act) picks (ts, s) in fold act (concat ts') s')"

inductive thread_step :: "('a \<Rightarrow> 's \<Rightarrow> 's) \<Rightarrow> 'a list list \<times> 's \<Rightarrow> 'a list list \<times> 's \<Rightarrow> bool" for act where
  take_step: "i < length ts \<Longrightarrow> ts ! i = a # rest \<Longrightarrow> thread_step act (ts, s) (ts[i := rest], act a s)"

definition ended :: "'a list list \<Rightarrow> bool" where
  "ended ts \<longleftrightarrow> (\<forall>t \<in> set ts. t = [])"

section \<open>Schedules and steps agree\<close>

lemma turn_step: "turn act i c = c \<or> thread_step act c (turn act i c)"
  by (cases c) (auto simp: turn_def Let_def intro: take_step split: list.splits)

lemma turns_steps: "(thread_step act)\<^sup>*\<^sup>* c (fold (turn act) picks c)"
proof (induction picks arbitrary: c)
  case (Cons i picks)
  then show ?case using turn_step [of act i c] by (metis converse_rtranclp_into_rtranclp fold_simps(2))
qed simp

lemma finish_first:
  "(thread_step act)\<^sup>*\<^sup>* ((t # ts), s) (([] # ts), fold act t s)"
proof (induction t arbitrary: s)
  case (Cons a t)
  have "thread_step act ((a # t) # ts, s) (t # ts, act a s)" using take_step [of 0 "(a # t) # ts" a t act s] by simp
  with Cons.IH [of "act a s"] show ?case by (simp add: converse_rtranclp_into_rtranclp)
qed simp

lemma step_Cons: "thread_step act (ts, s) (ts', s') \<Longrightarrow> thread_step act (t # ts, s) (t # ts', s')"
proof (erule thread_step.cases)
  fix i us a rest u
  assume "(ts, s) = (us, u)" "(ts', s') = (us[i := rest], act a u)" "i < length us" "us ! i = a # rest"
  then show ?thesis using take_step [of "Suc i" "t # ts" a rest act s] by simp
qed

lemma steps_Cons: "(thread_step act)\<^sup>*\<^sup>* (ts, s) (ts', s') \<Longrightarrow> (thread_step act)\<^sup>*\<^sup>* (t # ts, s) (t # ts', s')"
  by (induction rule: rtranclp_induct2) (auto intro: step_Cons rtranclp.rtrancl_into_rtrancl)

lemma finish_all: "(thread_step act)\<^sup>*\<^sup>* (ts, s) (map (\<lambda>_. []) ts, fold act (concat ts) s)"
proof (induction ts arbitrary: s)
  case (Cons t ts)
  have "(thread_step act)\<^sup>*\<^sup>* ([] # ts, fold act t s) ([] # map (\<lambda>_. []) ts, fold act (concat ts) (fold act t s))"
    by (rule steps_Cons [OF Cons.IH])
  with finish_first [of act t ts s] show ?case by simp
qed simp

lemma run_is_interleaving: "\<exists>ts'. (thread_step act)\<^sup>*\<^sup>* (ts, s) (ts', run_threads act picks ts s) \<and> ended ts'"
proof -
  obtain us u where f: "fold (turn act) picks (ts, s) = (us, u)" by fastforce
  have "(thread_step act)\<^sup>*\<^sup>* (ts, s) (map (\<lambda>_. []) us, fold act (concat us) u)"
    using turns_steps [of act "(ts, s)" picks] finish_all [of act us u] by (simp add: f)
  then show ?thesis by (auto simp: run_threads_def f ended_def intro!: exI [of _ "map (\<lambda>_. []) us"])
qed

lemma step_turn: "thread_step act c c' \<Longrightarrow> \<exists>i. turn act i c = c'"
proof (erule thread_step.cases)
  fix i ts a rest s
  assume "c = (ts, s)" "c' = (ts[i := rest], act a s)" "i < length ts" "ts ! i = a # rest"
  then have "turn act i c = c'" by (simp add: turn_def)
  then show ?thesis by blast
qed

lemma interleaving_is_run:
  assumes "(thread_step act)\<^sup>*\<^sup>* (ts, s) (ts', s')" "ended ts'"
  shows "\<exists>picks. run_threads act picks ts s = s'"
proof -
  have "\<exists>picks. fold (turn act) picks (ts, s) = (ts', s')" using assms(1)
  proof (induction rule: rtranclp_induct2)
    case refl
    have "fold (turn act) [] (ts, s) = (ts, s)" by simp
    then show ?case by blast
  next
    case (step us u us' u')
    from step_turn [OF step.hyps(2)] obtain i where "turn act i (us, u) = (us', u')" by blast
    moreover from step.IH obtain picks where "fold (turn act) picks (ts, s) = (us, u)" by blast
    ultimately have "fold (turn act) (picks @ [i]) (ts, s) = (us', u')" by simp
    then show ?case by blast
  qed
  then obtain picks where "fold (turn act) picks (ts, s) = (ts', s')" by blast
  moreover have "concat ts' = []" using assms(2) by (simp add: ended_def)
  ultimately have "run_threads act picks ts s = s'" by (simp add: run_threads_def del: concat_eq_Nil_conv)
  then show ?thesis by blast
qed

section \<open>Actions that commute in a view of the state\<close>

lemma mset_concat_turn:
  assumes "i < length ts" "ts ! i = a # rest"
  shows "mset (concat ts) = mset (a # concat (ts[i := rest]))"
proof -
  have "ts = take i ts @ (a # rest) # drop (Suc i) ts" using assms by (metis id_take_nth_drop)
  then have "concat ts = concat (take i ts) @ a # rest @ concat (drop (Suc i) ts)" by (metis append_Cons concat.simps(2) concat_append)
  moreover have "concat (ts[i := rest]) = concat (take i ts) @ rest @ concat (drop (Suc i) ts)"
    using assms(1) by (simp add: upd_conv_take_nth_drop)
  ultimately show ?thesis by simp
qed

locale commuting_actions =
  fixes act :: "'a \<Rightarrow> 's \<Rightarrow> 's" and view :: "'s \<Rightarrow> 'v" and eff :: "'a \<Rightarrow> 'v \<Rightarrow> 'v"
  assumes view_act: "view (act a s) = eff a (view s)" and eff_commute: "eff a (eff b v) = eff b (eff a v)"
begin

lemma view_fold: "view (fold act as s) = fold eff as (view s)"
  by (induction as arbitrary: s) (simp_all add: view_act)

lemma eff_perm: "mset as = mset bs \<Longrightarrow> fold eff as v = fold eff bs v"
  using fold_multiset_equiv [of as eff bs] by (auto simp: eff_commute fun_eq_iff)

lemma turn_view:
  "fold eff (concat (fst (turn act i c))) (view (snd (turn act i c))) = fold eff (concat (fst c)) (view (snd c))"
proof -
  obtain ts s where c: "c = (ts, s)" by (cases c)
  show ?thesis
  proof (cases "i < length ts \<and> ts ! i \<noteq> []")
    case True
    then obtain a rest where i: "i < length ts" "ts ! i = a # rest" by (meson neq_Nil_conv)
    then have "turn act i c = (ts[i := rest], act a s)" by (simp add: turn_def c)
    moreover have "fold eff (concat ts) (view s) = fold eff (a # concat (ts[i := rest])) (view s)"
      by (rule eff_perm [OF mset_concat_turn [OF i]])
    ultimately show ?thesis by (simp add: c view_act)
  next
    case False
    then have "turn act i c = c" by (auto simp: turn_def c)
    then show ?thesis by simp
  qed
qed

lemma any_order: "view (run_threads act picks ts s) = fold eff (concat ts) (view s)"
proof -
  have "fold eff (concat (fst (fold (turn act) picks c))) (view (snd (fold (turn act) picks c))) =
      fold eff (concat (fst c)) (view (snd c))" for c
    by (induction picks arbitrary: c) (simp_all add: turn_view)
  from this [of "(ts, s)"] show ?thesis by (simp add: run_threads_def case_prod_beta view_fold Let_def)
qed

end

end
