(* ===== verification/Task_Scheduler.thy ===== *)
theory Task_Scheduler
  imports Vm_Node Interleave
begin

text \<open>
  The schedulers of \<^verbatim>\<open>task/semantic/scheduler\<close>, which send a task to its parties. A scheduler starts a thread for each
  party and joins them all; a thread calls the party and then acts on the members of the scheduler.
  The answer to a call is a parameter, so that every behaviour of the network is covered; the
  interleaving of the threads' actions is given by a schedule. The node of the scheduler itself, from
  the server's configuration, is a parameter too.
\<close>

section \<open>State\<close>

record VMScheduler =
  sc_error :: bool
  sc_error_msg :: "string std_map"
  task_server_info :: "Node list"

definition new_VMScheduler :: VMScheduler where
  "new_VMScheduler = \<lparr>sc_error = False, sc_error_msg = [], task_server_info = []\<rparr>"

text \<open>What a thread does to the members, one atomic action each.\<close>

datatype sched_act = SetError | SetMsg string string | AddServer Node

definition do_act :: "sched_act \<Rightarrow> VMScheduler \<Rightarrow> VMScheduler" where
  "do_act a s =
     (case a of
        SetError \<Rightarrow> s\<lparr>sc_error := True\<rparr>
      | SetMsg party_name error_msg \<Rightarrow> s\<lparr>sc_error_msg := map_assign party_name error_msg (sc_error_msg s)\<rparr>
      | AddServer node_info \<Rightarrow> s\<lparr>task_server_info := task_server_info s @ [node_info]\<rparr>)"

type_synonym party_call = "string \<Rightarrow> Node \<Rightarrow> PushTaskRequest \<Rightarrow> retcode \<times> PushTaskReply"

section \<open>A thread\<close>

definition server_node :: "pb_node \<Rightarrow> Node" where
  "server_node node = \<lparr>nd_id = [], nd_ip = pb_ip node, nd_port = pb_port node, nd_use_tls = pb_use_tls node, nd_role = pb_role node\<rparr>"

definition parseNotifyServer :: "PushTaskReply \<Rightarrow> sched_act list" where
  "parseNotifyServer reply = map (\<lambda>node. AddServer (server_node node)) (rp_task_server reply)"

definition AddSchedulerNode :: "Node \<Rightarrow> pb_task \<Rightarrow> pb_task" where
  "AddSchedulerNode local_node task =
     task\<lparr>pt_auxiliary_server := map_assign ''SCHEDULER_NODE'' (node2PbNode local_node new_pb_node) (pt_auxiliary_server task)\<rparr>"

definition send_request :: "Node \<Rightarrow> string \<Rightarrow> PushTaskRequest \<Rightarrow> PushTaskRequest" where
  "send_request local_node party_name request =
     request\<lparr>pr_task := AddSchedulerNode local_node ((pr_task request)\<lparr>pt_party_name := party_name\<rparr>)\<rparr>"

definition VM_ScheduleTask :: "Node \<Rightarrow> party_call \<Rightarrow> PushTaskRequest \<Rightarrow> string \<Rightarrow> Node \<Rightarrow> retcode \<times> sched_act list" where
  "VM_ScheduleTask local_node call request party_name dest_node =
     (let (ret, reply) = call party_name dest_node (send_request local_node party_name request) in
      if ret = SUCCESS then (SUCCESS, parseNotifyServer reply) else (FAIL, [SetError]))"

definition ABY3_ScheduleTask :: "Node \<Rightarrow> party_call \<Rightarrow> PushTaskRequest \<Rightarrow> string \<Rightarrow> Node \<Rightarrow> retcode \<times> sched_act list" where
  "ABY3_ScheduleTask local_node call request party_name dest_node =
     (let (ret, reply) = call party_name dest_node (send_request local_node party_name request) in
      if ret = SUCCESS then (SUCCESS, parseNotifyServer reply)
      else (FAIL, [SetError, SetMsg party_name (''submit task to : '' @ node_to_string dest_node @ '' reply failed'')]))"

text \<open>The scheduler of Python tasks only logs a failed call.\<close>

definition FL_ScheduleTask :: "Node \<Rightarrow> party_call \<Rightarrow> PushTaskRequest \<Rightarrow> string \<Rightarrow> Node \<Rightarrow> retcode \<times> sched_act list" where
  "FL_ScheduleTask local_node call request party_name dest_node =
     (let (ret, reply) = call party_name dest_node (send_request local_node party_name request) in
      if ret = SUCCESS then (SUCCESS, parseNotifyServer reply) else (FAIL, []))"

text \<open>The query of a private information retrieval is removed from what the server gets.\<close>

definition clear_client_data :: "pb_task \<Rightarrow> pb_task" where
  "clear_client_data task =
     task\<lparr>pt_params := map (\<lambda>(k, v). (k, if k = ''clientData'' then empty_ParamValue else v)) (pt_params task)\<rparr>"

definition PIR_request :: "Node \<Rightarrow> string \<Rightarrow> PushTaskRequest \<Rightarrow> PushTaskRequest" where
  "PIR_request local_node party_name request =
     send_request local_node party_name
       (if party_name = ''SERVER'' then request\<lparr>pr_task := clear_client_data (pr_task request)\<rparr> else request)"

definition PIR_ScheduleTask :: "Node \<Rightarrow> party_call \<Rightarrow> PushTaskRequest \<Rightarrow> string \<Rightarrow> Node \<Rightarrow> retcode \<times> sched_act list" where
  "PIR_ScheduleTask local_node call request party_name dest_node =
     (let (ret, reply) = call party_name dest_node (PIR_request local_node party_name request) in
      if ret = SUCCESS then (SUCCESS, parseNotifyServer reply) else (FAIL, [SetError]))"

section \<open>Distributing a task\<close>

definition start_messages :: "pb_node std_map \<Rightarrow> VMScheduler \<Rightarrow> VMScheduler" where
  "start_messages parties s = s\<lparr>sc_error_msg := fold (\<lambda>(party_name, _). map_insert party_name []) parties (sc_error_msg s)\<rparr>"

text \<open>Start a thread for every party and join them; the return values of the threads are not used.\<close>

definition schedule_all :: "(string \<Rightarrow> Node \<Rightarrow> retcode \<times> sched_act list) \<Rightarrow> nat list \<Rightarrow> pb_node std_map \<Rightarrow> VMScheduler \<Rightarrow> VMScheduler" where
  "schedule_all ScheduleTask picks parties s =
     run_threads do_act picks (map (\<lambda>(party_name, pb_node). snd (ScheduleTask party_name (pbNode2Node pb_node new_Node))) parties) s"

definition dispatch_result :: "VMScheduler \<Rightarrow> retcode \<times> VMScheduler" where
  "dispatch_result s = (if sc_error s then FAIL else SUCCESS, s)"

definition VM_dispatch :: "Node \<Rightarrow> party_call \<Rightarrow> nat list \<Rightarrow> PushTaskRequest \<Rightarrow> VMScheduler \<Rightarrow> retcode \<times> VMScheduler" where
  "VM_dispatch local_node call picks request s =
     (let participate_node = pt_party_access_info (pr_task request) in
      dispatch_result (schedule_all (VM_ScheduleTask local_node call request) picks participate_node (start_messages participate_node s)))"

definition FL_dispatch :: "Node \<Rightarrow> party_call \<Rightarrow> nat list \<Rightarrow> PushTaskRequest \<Rightarrow> VMScheduler \<Rightarrow> retcode \<times> VMScheduler" where
  "FL_dispatch local_node call picks request s =
     (let party_access_info = pt_party_access_info (pr_task request) in
      dispatch_result (schedule_all (FL_ScheduleTask local_node call request) picks party_access_info (start_messages party_access_info s)))"

section \<open>Three parties\<close>

text \<open>The remainder of C, with the sign of the first operand; the decimal text of an integer.\<close>

definition c_rem :: "int \<Rightarrow> int \<Rightarrow> int" where
  "c_rem a b = sgn a * (\<bar>a\<bar> mod b)"

definition str_int :: "int \<Rightarrow> string" where
  "str_int i = (if i < 0 then ''-'' else []) @ to_string_nat (nat \<bar>i\<bar>)"

definition link_name :: "TaskContext \<Rightarrow> int \<Rightarrow> int \<Rightarrow> string" where
  "link_name task_info a b =
     tc_job_id task_info @ ''_'' @ tc_task_id task_info @ ''_'' @ str_int (min a b) @ str_int (max a b)"

definition ABY3_endpoint :: "TaskContext \<Rightarrow> pb_node list \<Rightarrow> int \<Rightarrow> int \<Rightarrow> EndPoint" where
  "ABY3_endpoint task_info party_nodes party_id peer =
     \<lparr>ep_ip = pb_ip (party_nodes ! nat peer), ep_port = min party_id peer + 12120, ep_name = link_name task_info party_id peer,
      ep_link_type = (if party_id < peer then LT_SERVER else LT_CLIENT)\<rparr>"

text \<open>
  The two links of a party. \<^verbatim>\<open>party_nodes\<close> lists the nodes in the order of the container, and it is indexed by the
  neighbour's number; an index outside it and an overflow of the sum are undefined.
\<close>

definition ABY3_add_vm :: "int \<Rightarrow> TaskContext \<Rightarrow> pb_node list \<Rightarrow> pb_node \<Rightarrow> pb_node res" where
  "ABY3_add_vm party_id task_info party_nodes node =
     (let next = c_rem (party_id + 1) 3; prev = c_rem (party_id + 2) 3 in
      if party_id + 2 \<ge> 2 ^ 31 then Inl (Undefined ''signed overflow'')
      else if next < 0 \<or> prev < 0 \<or> length party_nodes \<le> nat next \<or> length party_nodes \<le> nat prev
      then Inl (Undefined ''element past the end of a vector'')
      else Inr (node\<lparr>pb_vm := pb_vm node @
        [\<lparr>vm_party_id = party_id, vm_next = ABY3_endpoint task_info party_nodes party_id next,
          vm_prev = ABY3_endpoint task_info party_nodes party_id prev\<rparr>]\<rparr>))"

fun ABY3_add_vms :: "TaskContext \<Rightarrow> pb_node list \<Rightarrow> pb_node std_map \<Rightarrow> pb_node std_map res" where
  "ABY3_add_vms task_info party_nodes [] = Inr []"
| "ABY3_add_vms task_info party_nodes ((name, node) # rest) =
     bindR (ABY3_add_vm (pb_party_id node) task_info party_nodes node) (\<lambda>node'.
     bindR (ABY3_add_vms task_info party_nodes rest) (\<lambda>rest'. Inr ((name, node') # rest')))"

definition ABY3_prepare :: "PushTaskRequest \<Rightarrow> PushTaskRequest res" where
  "ABY3_prepare request =
     (let t = pr_task request; party_info = pt_party_access_info t in
      if pt_type t \<noteq> ACTOR_TASK then Inr request
      else
        let dup_filter = remdups (map (\<lambda>(_, node). node_to_string (pbNode2Node node new_Node)) party_info);
            dup_names = remdups (map fst party_info) in
        if length dup_filter \<noteq> 3
        then Inl (Raised (''ABY3 protocol need 3 party, but get '' @ to_string_nat (length dup_filter)))
        else if length dup_names \<noteq> 3 then Inl (Raised ''ABY3 protocol: different party set same name'')
        else bindR (ABY3_add_vms (pt_task_info t) (map snd party_info) party_info) (\<lambda>party_access_info.
          Inr (request\<lparr>pr_task := t\<lparr>pt_party_access_info := party_access_info\<rparr>\<rparr>)))"

definition ABY3_dispatch :: "Node \<Rightarrow> party_call \<Rightarrow> nat list \<Rightarrow> PushTaskRequest \<Rightarrow> VMScheduler \<Rightarrow> (retcode \<times> VMScheduler) res" where
  "ABY3_dispatch local_node call picks request s =
     bindR (ABY3_prepare request) (\<lambda>send.
       let party_access_info = pt_party_access_info (pr_task send) in
       Inr (dispatch_result (schedule_all (ABY3_ScheduleTask local_node call send) picks party_access_info
         (start_messages party_access_info s))))"

section \<open>Private information retrieval\<close>

text \<open>A query given by its keywords is asked by the scheduler's own node.\<close>

definition PIR_client :: "Node \<Rightarrow> pb_task \<Rightarrow> pb_task" where
  "PIR_client local_node t =
     (case map_of (pt_params t) ''clientData'' of
        Some pv \<Rightarrow>
          if pv_is_array pv
          then let party_info = (case map_of (pt_party_access_info t) ''CLIENT'' of Some n \<Rightarrow> n | None \<Rightarrow> new_pb_node) in
            t\<lparr>pt_party_access_info := map_assign ''CLIENT'' (node2PbNode local_node party_info) (pt_party_access_info t)\<rparr>
          else t
      | None \<Rightarrow> t)"

definition PIR_dispatch :: "Node \<Rightarrow> party_call \<Rightarrow> nat list \<Rightarrow> PushTaskRequest \<Rightarrow> VMScheduler \<Rightarrow> (retcode \<times> VMScheduler) res" where
  "PIR_dispatch local_node call picks request s =
     (let push_request = request\<lparr>pr_task := PIR_client local_node (pr_task request)\<rparr>;
          participate_node = pt_party_access_info (pr_task push_request);
          dup_filter = remdups (map (\<lambda>(_, node). node_to_string (pbNode2Node node new_Node)) participate_node);
          offline = (map_of (pt_params (pr_task push_request)) ''DbInfo'' \<noteq> None);
          s1 = (if offline then s else start_messages participate_node s) in
      if \<not> offline \<and> length dup_filter < 2
      then Inl (Raised (''PIR task need 2 party to participate for this task.but get '' @ to_string_nat (length dup_filter)))
      else Inr (dispatch_result (schedule_all (PIR_ScheduleTask local_node call push_request) picks participate_node s1)))"

section \<open>Neural networks\<close>

text \<open>
  \<^verbatim>\<open>MPCScheduler\<close> with its two implementations, for two and for three parties. \<open>ms_falcon\<close> says which of them it is.
\<close>

record MPCScheduler =
  ms_falcon :: bool
  ms_peer_list :: "pb_node list"
  ms_peer_dataset_map :: "(string \<times> string) list std_map"
  ms_party_num :: nat

definition empty_EndPoint :: EndPoint where
  "empty_EndPoint = \<lparr>ep_ip = [], ep_port = 0, ep_name = [], ep_link_type = LT_SERVER\<rparr>"

definition CRYPTFLOW2_add_vm :: "pb_node list \<Rightarrow> nat \<Rightarrow> pb_node \<Rightarrow> pb_node" where
  "CRYPTFLOW2_add_vm peers i node =
     node\<lparr>pb_vm := pb_vm node @
       [\<lparr>vm_party_id = int i,
         vm_next = (if i = 0
           then \<lparr>ep_ip = pb_ip (peers ! i), ep_port = 30020, ep_name = ''CRYPTFLOW2_Server'', ep_link_type = LT_SERVER\<rparr>
           else \<lparr>ep_ip = pb_ip (peers ! (i - 1)), ep_port = 30020, ep_name = ''CRYPTFLOW2_Client'', ep_link_type = LT_CLIENT\<rparr>),
         vm_prev = empty_EndPoint\<rparr>]\<rparr>"

definition Falcon_server :: "pb_node list \<Rightarrow> nat \<Rightarrow> int \<Rightarrow> string \<Rightarrow> EndPoint" where
  "Falcon_server peers i port name = \<lparr>ep_ip = pb_ip (peers ! i), ep_port = port, ep_name = ''Falcon_server_'' @ name, ep_link_type = LT_SERVER\<rparr>"

definition Falcon_client :: "pb_node list \<Rightarrow> nat \<Rightarrow> int \<Rightarrow> string \<Rightarrow> EndPoint" where
  "Falcon_client peers i port name = \<lparr>ep_ip = pb_ip (peers ! i), ep_port = port, ep_name = ''Falcon_client_'' @ name, ep_link_type = LT_CLIENT\<rparr>"

definition Falcon_add_vm :: "pb_node list \<Rightarrow> nat \<Rightarrow> pb_node \<Rightarrow> pb_node" where
  "Falcon_add_vm peers i node =
     (let (vm0, vm1) =
        (if i = 0 then
           (\<lparr>vm_party_id = int i, vm_next = Falcon_server peers i 32003 ''0'', vm_prev = Falcon_server peers i 32006 ''1''\<rparr>,
            \<lparr>vm_party_id = int i, vm_next = Falcon_client peers 1 32001 ''0'', vm_prev = Falcon_client peers 2 32002 ''1''\<rparr>)
         else if i = 1 then
           (\<lparr>vm_party_id = int i, vm_next = Falcon_server peers i 32001 ''2'', vm_prev = Falcon_server peers i 32007 ''3''\<rparr>,
            \<lparr>vm_party_id = int i, vm_next = Falcon_client peers 0 32003 ''2'', vm_prev = Falcon_client peers 2 32005 ''3''\<rparr>)
         else
           (\<lparr>vm_party_id = int i, vm_next = Falcon_server peers i 32002 ''4'', vm_prev = Falcon_server peers i 32005 ''5''\<rparr>,
            \<lparr>vm_party_id = int i, vm_next = Falcon_client peers 0 32006 ''4'', vm_prev = Falcon_client peers 1 32007 ''4''\<rparr>))
      in node\<lparr>pb_vm := pb_vm node @ [vm0, vm1]\<rparr>)"

definition mpc_add_vm :: "MPCScheduler \<Rightarrow> nat \<Rightarrow> pb_node \<Rightarrow> pb_node" where
  "mpc_add_vm ms = (if ms_falcon ms then Falcon_add_vm (ms_peer_list ms) else CRYPTFLOW2_add_vm (ms_peer_list ms))"

text \<open>A thread of these schedulers: it sends nothing when the node has no datasets, and looks at the answer in any case.\<close>

definition push_task :: "Node \<Rightarrow> party_call \<Rightarrow> (string \<times> string) list std_map \<Rightarrow> PushTaskRequest \<Rightarrow> string \<Rightarrow> Node \<Rightarrow> sched_act list" where
  "push_task local_node submit peer_dataset_map request node_id dest_node =
     (case map_of peer_dataset_map node_id of
        None \<Rightarrow> []
      | Some dataset_param_list \<Rightarrow>
          let t = pr_task request;
              params = fold (\<lambda>(dataset_id, tag). map_assign tag \<lparr>pv_var_type = VT_STRING, pv_is_array = False, pv_value = value_string dataset_id\<rparr>)
                dataset_param_list (pt_params t);
              push_request = request\<lparr>pr_task := AddSchedulerNode local_node (t\<lparr>pt_params := params\<rparr>)\<rparr> in
          parseNotifyServer (snd (submit node_id dest_node push_request)))"

definition mpc_node_map :: "MPCScheduler \<Rightarrow> pb_task \<Rightarrow> pb_task" where
  "mpc_node_map ms t =
     t\<lparr>pt_type := NODE_TASK,
       pt_node_map := fold (\<lambda>i. let node = ms_peer_list ms ! i in map_assign (pb_node_id node) (mpc_add_vm ms i node))
         [0..<ms_party_num ms] (pt_node_map t)\<rparr>"

text \<open>
  The distribution. A node that is missing after a thread has been started ends the program, since
  the vector of the running threads is destroyed; two nodes with one address write the entry a
  running thread reads.
\<close>

definition MPC_dispatch :: "Node \<Rightarrow> party_call \<Rightarrow> nat list \<Rightarrow> MPCScheduler \<Rightarrow> PushTaskRequest \<Rightarrow> VMScheduler \<Rightarrow> (retcode \<times> VMScheduler) res" where
  "MPC_dispatch local_node submit picks ms push_request s =
     (let actor = (pt_type (pr_task push_request) = ACTOR_TASK) in
      if actor \<and> length (ms_peer_list ms) \<noteq> ms_party_num ms then Inr (FAIL, s)
      else
        let request = (if actor then push_request\<lparr>pr_task := mpc_node_map ms (pr_task push_request)\<rparr> else push_request);
            node_map = pt_node_map (pr_task request);
            ids = map (\<lambda>i. ''node'' @ to_string_nat i) [0..<ms_party_num ms];
            found = takeWhile (\<lambda>node_id. map_of node_map node_id \<noteq> None) ids;
            nodes = map (\<lambda>node_id. (node_id, the (map_of node_map node_id))) found in
        if found \<noteq> ids
        then (if found = [] then Inr (FAIL, s) else Inl (Undefined ''running threads destroyed''))
        else if \<not> distinct (map (\<lambda>(_, n). pb_ip n @ '':'' @ to_string_nat (unat (pb_port n))) nodes)
        then Inl (Undefined ''data race'')
        else Inr (dispatch_result (run_threads do_act picks
          (map (\<lambda>(node_id, n). push_task local_node submit (ms_peer_dataset_map ms) request node_id (pbNode2Node n new_Node)) nodes) s)))"

section \<open>Choosing a scheduler\<close>

datatype scheduler = FLScheduler | BaseScheduler | PIRScheduler | ABY3Scheduler | MPC MPCScheduler | TEEScheduler

text \<open>
  The schedulers of neural networks are made by their default constructors, after their storage has
  been set to zero: they have no peers.
\<close>

definition default_MPCScheduler :: "bool \<Rightarrow> MPCScheduler" where
  "default_MPCScheduler falcon = \<lparr>ms_falcon = falcon, ms_peer_list = [], ms_peer_dataset_map = [], ms_party_num = 0\<rparr>"

definition CreateMPCScheduler :: "pb_task \<Rightarrow> scheduler" where
  "CreateMPCScheduler task_config =
     (if pt_code task_config = ''maxpool'' then MPC (default_MPCScheduler False)
      else if pt_code task_config = ''lenet'' then MPC (default_MPCScheduler True)
      else ABY3Scheduler)"

definition CreateProtoScheduler :: "pb_task \<Rightarrow> scheduler option" where
  "CreateProtoScheduler task_config =
     (case pt_type task_config of
        ACTOR_TASK \<Rightarrow> Some (CreateMPCScheduler task_config)
      | PSI_TASK \<Rightarrow> Some BaseScheduler
      | PIR_TASK \<Rightarrow> Some PIRScheduler
      | TEE_TASK \<Rightarrow> Some TEEScheduler
      | _ \<Rightarrow> None)"

definition CreateScheduler :: "pb_task \<Rightarrow> scheduler option" where
  "CreateScheduler task_config =
     (case pt_language task_config of
        PYTHON \<Rightarrow> Some FLScheduler
      | PROTO \<Rightarrow> CreateProtoScheduler task_config
      | _ \<Rightarrow> None)"

text \<open>\<^verbatim>\<open>TEEScheduler::dispatch\<close> ends without a return statement.\<close>

definition dispatch :: "Node \<Rightarrow> party_call \<Rightarrow> nat list \<Rightarrow> scheduler \<Rightarrow> PushTaskRequest \<Rightarrow> VMScheduler \<Rightarrow> (retcode \<times> VMScheduler) res" where
  "dispatch local_node call picks sched request s =
     (case sched of
        FLScheduler \<Rightarrow> Inr (FL_dispatch local_node call picks request s)
      | BaseScheduler \<Rightarrow> Inr (VM_dispatch local_node call picks request s)
      | PIRScheduler \<Rightarrow> PIR_dispatch local_node call picks request s
      | ABY3Scheduler \<Rightarrow> ABY3_dispatch local_node call picks request s
      | MPC ms \<Rightarrow> MPC_dispatch local_node call picks ms request s
      | TEEScheduler \<Rightarrow> Inl (Undefined ''no return value''))"

section \<open>Any order of the threads\<close>

text \<open>The error flag and the collection of the servers do not depend on the order of the actions.\<close>

definition outcome :: "VMScheduler \<Rightarrow> bool \<times> Node multiset" where
  "outcome s = (sc_error s, mset (task_server_info s))"

fun effect :: "sched_act \<Rightarrow> bool \<times> Node multiset \<Rightarrow> bool \<times> Node multiset" where
  "effect SetError (e, M) = (True, M)"
| "effect (SetMsg party_name msg) v = v"
| "effect (AddServer n) (e, M) = (e, add_mset n M)"

interpretation sched: commuting_actions do_act outcome effect
proof
  show "outcome (do_act a s) = effect a (outcome s)" for a s by (cases a) (simp_all add: outcome_def do_act_def)
  show "effect a (effect b v) = effect b (effect a v)" for a b v by (cases a; cases b; cases v) simp_all
qed

fun added :: "sched_act list \<Rightarrow> Node list" where
  "added [] = []"
| "added (AddServer n # as) = n # added as"
| "added (_ # as) = added as"

lemma fold_effect: "fold effect as (e, M) = (e \<or> SetError \<in> set as, M + mset (added as))"
proof (induction as arbitrary: e M)
  case (Cons a as)
  then show ?case by (cases a) simp_all
qed simp

lemma added_append [simp]: "added (as @ bs) = added as @ added bs"
proof (induction as)
  case (Cons a as)
  then show ?case by (cases a) simp_all
qed simp

lemma added_concat: "added (concat ass) = concat (map added ass)"
  by (induction ass) simp_all

lemma added_servers [simp]: "added (map (\<lambda>n. AddServer (f n)) ns) = map f ns"
  by (induction ns) simp_all

lemma notify_acts [simp]:
  "SetError \<notin> set (parseNotifyServer reply)" "added (parseNotifyServer reply) = map server_node (rp_task_server reply)"
  by (auto simp: parseNotifyServer_def)

lemma schedule_all_outcome:
  "outcome (schedule_all ScheduleTask picks parties s) =
     (sc_error s \<or> (\<exists>(name, pb) \<in> set parties. SetError \<in> set (snd (ScheduleTask name (pbNode2Node pb new_Node)))),
      mset (task_server_info s) +
        mset (concat (map (\<lambda>(name, pb). added (snd (ScheduleTask name (pbNode2Node pb new_Node)))) parties)))"
  using sched.any_order [of picks "map (\<lambda>(name, pb). snd (ScheduleTask name (pbNode2Node pb new_Node))) parties" s]
  by (simp add: schedule_all_def outcome_def fold_effect added_concat comp_def split_def)

text \<open>The specification of a distribution: it fails when a party fails, and has the servers of all others.\<close>

definition all_answers :: "(string \<Rightarrow> Node \<Rightarrow> retcode \<times> PushTaskReply) \<Rightarrow> pb_node std_map \<Rightarrow> (retcode \<times> PushTaskReply) list" where
  "all_answers ask parties = map (\<lambda>(name, pb). ask name (pbNode2Node pb new_Node)) parties"

definition distribution :: "(retcode \<times> PushTaskReply) list \<Rightarrow> retcode \<times> Node multiset" where
  "distribution answers =
     (if \<exists>a \<in> set answers. fst a = FAIL then FAIL else SUCCESS,
      mset (concat (map (\<lambda>(ret, reply). if ret = SUCCESS then map server_node (rp_task_server reply) else []) answers)))"

definition result_of :: "retcode \<times> VMScheduler \<Rightarrow> retcode \<times> Node multiset" where
  "result_of r = (fst r, mset (task_server_info (snd r)))"

definition reports :: "(string \<Rightarrow> Node \<Rightarrow> retcode \<times> PushTaskReply) \<Rightarrow> (string \<Rightarrow> Node \<Rightarrow> retcode \<times> sched_act list) \<Rightarrow> bool" where
  "reports ask ScheduleTask \<longleftrightarrow> (\<forall>name node. case ask name node of (ret, reply) \<Rightarrow>
     (SetError \<in> set (snd (ScheduleTask name node)) \<longleftrightarrow> ret = FAIL) \<and>
     added (snd (ScheduleTask name node)) = (if ret = SUCCESS then map server_node (rp_task_server reply) else []))"

lemma not_success [simp]: "ret \<noteq> SUCCESS \<longleftrightarrow> ret = FAIL" for ret :: retcode
  by (cases ret) simp_all

lemma VM_reports: "reports (\<lambda>name node. call name node (send_request l name request)) (VM_ScheduleTask l call request)"
  by (simp add: reports_def VM_ScheduleTask_def Let_def split: prod.splits)

lemma ABY3_reports: "reports (\<lambda>name node. call name node (send_request l name request)) (ABY3_ScheduleTask l call request)"
  by (simp add: reports_def ABY3_ScheduleTask_def Let_def split: prod.splits)

lemma PIR_reports: "reports (\<lambda>name node. call name node (PIR_request l name request)) (PIR_ScheduleTask l call request)"
  by (simp add: reports_def PIR_ScheduleTask_def Let_def split: prod.splits)

lemma schedule_result:
  assumes "reports ask ScheduleTask" "\<not> sc_error s" "task_server_info s = []"
  shows "result_of (dispatch_result (schedule_all ScheduleTask picks parties s)) = distribution (all_answers ask parties)"
proof -
  have e: "SetError \<in> set (snd (ScheduleTask name node)) \<longleftrightarrow> fst (ask name node) = FAIL" for name node
    using assms(1) by (simp add: reports_def case_prod_beta)
  have a: "added (snd (ScheduleTask name node)) =
      (if fst (ask name node) = SUCCESS then map server_node (rp_task_server (snd (ask name node))) else [])" for name node
    using assms(1) by (simp add: reports_def case_prod_beta)
  have "outcome (schedule_all ScheduleTask picks parties s) =
      (\<exists>a \<in> set (all_answers ask parties). fst a = FAIL, snd (distribution (all_answers ask parties)))"
    unfolding schedule_all_outcome
    by (simp add: e a assms(2,3) all_answers_def distribution_def comp_def split_def)
  then show ?thesis by (simp add: result_of_def dispatch_result_def outcome_def distribution_def)
qed

text \<open>
  The scheduler of Python tasks reports success whatever the parties answer, in any order of its
  threads; it has the servers of the parties that answered. When all parties fail, the task is
  taken for distributed and nobody works on it.
\<close>

theorem fl_reports_no_failure:
  "result_of (FL_dispatch local_node call picks request new_VMScheduler) =
     (SUCCESS, snd (distribution (all_answers (\<lambda>name node. call name node (send_request local_node name request))
        (pt_party_access_info (pr_task request)))))"
proof -
  let ?parties = "pt_party_access_info (pr_task request)"
  have "outcome (schedule_all (FL_ScheduleTask local_node call request) picks ?parties (start_messages ?parties new_VMScheduler)) =
      (False, snd (distribution (all_answers (\<lambda>name node. call name node (send_request local_node name request)) ?parties)))"
    unfolding schedule_all_outcome
    by (auto simp: FL_ScheduleTask_def start_messages_def new_VMScheduler_def distribution_def all_answers_def Let_def
        comp_def split_def intro!: arg_cong [of _ _ "\<lambda>x. mset (concat x)"])
  then show ?thesis by (simp add: FL_dispatch_def result_of_def dispatch_result_def outcome_def Let_def)
qed

section \<open>The query stays with the client\<close>

text \<open>What is sent to whom when a retrieval task is distributed.\<close>

definition PIR_sent :: "Node \<Rightarrow> PushTaskRequest \<Rightarrow> (string \<times> Node \<times> PushTaskRequest) list" where
  "PIR_sent local_node request =
     (let push_request = request\<lparr>pr_task := PIR_client local_node (pr_task request)\<rparr> in
      map (\<lambda>(party_name, node). (party_name, pbNode2Node node new_Node, PIR_request local_node party_name push_request))
        (pt_party_access_info (pr_task push_request)))"

definition set_query :: "ParamValue \<Rightarrow> PushTaskRequest \<Rightarrow> PushTaskRequest" where
  "set_query q request =
     request\<lparr>pr_task := (pr_task request)\<lparr>pt_params := map_assign ''clientData'' q (pt_params (pr_task request))\<rparr>\<rparr>"

text \<open>The distribution asks nothing but this: calls that agree on it give the same result.\<close>

lemma PIR_sent_complete:
  assumes "\<forall>(name, node, q) \<in> set (PIR_sent local_node request). call name node q = call' name node q"
  shows "PIR_dispatch local_node call picks request s = PIR_dispatch local_node call' picks request s"
proof -
  let ?r = "request\<lparr>pr_task := PIR_client local_node (pr_task request)\<rparr>"
  have "PIR_ScheduleTask local_node call ?r name (pbNode2Node pb new_Node) = PIR_ScheduleTask local_node call' ?r name (pbNode2Node pb new_Node)"
    if "(name, pb) \<in> set (pt_party_access_info (pr_task ?r))" for name pb
    using assms that by (force simp: PIR_sent_def PIR_ScheduleTask_def Let_def)
  then have "schedule_all (PIR_ScheduleTask local_node call ?r) picks (pt_party_access_info (pr_task ?r)) s' =
      schedule_all (PIR_ScheduleTask local_node call' ?r) picks (pt_party_access_info (pr_task ?r)) s'" for s'
    unfolding schedule_all_def by (auto intro!: arg_cong [of _ _ "\<lambda>ts. run_threads do_act picks ts s'"])
  then show ?thesis unfolding PIR_dispatch_def Let_def by simp
qed

lemma PIR_client_query:
  assumes "pv_is_array q = pv_is_array q'"
  shows "pt_party_access_info (PIR_client l (t\<lparr>pt_params := map_assign ''clientData'' q (pt_params t)\<rparr>)) =
      pt_party_access_info (PIR_client l (t\<lparr>pt_params := map_assign ''clientData'' q' (pt_params t)\<rparr>))"
    "clear_client_data (PIR_client l (t\<lparr>pt_params := map_assign ''clientData'' q (pt_params t)\<rparr>)) =
      clear_client_data (PIR_client l (t\<lparr>pt_params := map_assign ''clientData'' q' (pt_params t)\<rparr>))"
  using assms by (simp_all add: PIR_client_def clear_client_data_def Let_def) (simp_all add: map_assign_def)

text \<open>
  C18. Distributing a private information retrieval: the messages it sends, which are all it depends
  on, tell the server nothing about the query. For two queries of the same form every message to
  the server is the same.
\<close>

theorem pir_query_private:
  assumes "pv_is_array q = pv_is_array q'"
  shows "filter (\<lambda>(name, _). name = ''SERVER'') (PIR_sent local_node (set_query q request)) =
      filter (\<lambda>(name, _). name = ''SERVER'') (PIR_sent local_node (set_query q' request)) \<and>
    (\<forall>r. (\<forall>(name, node, m) \<in> set (PIR_sent local_node r). call name node m = call' name node m) \<longrightarrow>
       PIR_dispatch local_node call picks r s = PIR_dispatch local_node call' picks r s)"
proof
  let ?client = "\<lambda>q. PIR_client local_node (pr_task (set_query q request))"
  have parties: "pt_party_access_info (?client q) = pt_party_access_info (?client q')"
    and clear: "clear_client_data (?client q) = clear_client_data (?client q')"
    using PIR_client_query [OF assms, of local_node "pr_task request"] by (simp_all add: set_query_def)
  have "PIR_request local_node ''SERVER'' ((set_query q request)\<lparr>pr_task := ?client q\<rparr>) =
      PIR_request local_node ''SERVER'' ((set_query q' request)\<lparr>pr_task := ?client q'\<rparr>)"
    using clear by (simp add: PIR_request_def set_query_def)
  then show "filter (\<lambda>(name, _). name = ''SERVER'') (PIR_sent local_node (set_query q request)) =
      filter (\<lambda>(name, _). name = ''SERVER'') (PIR_sent local_node (set_query q' request))"
    unfolding PIR_sent_def Let_def by (simp add: parties filter_map comp_def split_def cong: filter_cong)
  show "\<forall>r. (\<forall>(name, node, m) \<in> set (PIR_sent local_node r). call name node m = call' name node m) \<longrightarrow>
       PIR_dispatch local_node call picks r s = PIR_dispatch local_node call' picks r s"
    using PIR_sent_complete by blast
qed

definition pir_example :: PushTaskRequest where
  "pir_example = \<lparr>pr_task = \<lparr>pt_type = PIR_TASK, pt_language = PROTO, pt_code = [], pt_node_map = [], pt_task_info = empty_TaskContext,
     pt_party_name = [], pt_params = [], pt_party_datasets = [], pt_party_access_info = [(''SERVER'', new_pb_node)],
     pt_auxiliary_server = []\<rparr>, pr_manual_launch = False\<rparr>"

definition query_words :: "string list \<Rightarrow> ParamValue" where
  "query_words ks = \<lparr>pv_var_type = VT_STRING, pv_is_array = True, pv_value = value_string_array ks\<rparr>"

theorem pir_query_private_witness:
  "filter (\<lambda>(name, _). name = ''SERVER'') (PIR_sent new_Node (set_query (query_words [''x'']) pir_example)) =
     filter (\<lambda>(name, _). name = ''SERVER'') (PIR_sent new_Node (set_query (query_words [''y'', ''z'']) pir_example)) \<and>
   length (filter (\<lambda>(name, _). name = ''SERVER'') (PIR_sent new_Node (set_query (query_words [''x'']) pir_example))) = 1"
  using pir_query_private [of "query_words [''x'']" "query_words [''y'', ''z'']" new_Node pir_example]
  by (simp add: query_words_def PIR_sent_def PIR_client_def set_query_def pir_example_def map_assign_def Let_def)

section \<open>The ring of links\<close>

definition ring_vm :: "TaskContext \<Rightarrow> pb_node list \<Rightarrow> int \<Rightarrow> VirtualMachine" where
  "ring_vm task_info party_nodes i =
     \<lparr>vm_party_id = i, vm_next = ABY3_endpoint task_info party_nodes i ((i + 1) mod 3),
      vm_prev = ABY3_endpoint task_info party_nodes i ((i + 2) mod 3)\<rparr>"

lemma add_vm_ring:
  assumes "i \<in> {0, 1, 2}" "length nodes = 3"
  shows "ABY3_add_vm i ti nodes node = Inr (node\<lparr>pb_vm := pb_vm node @ [ring_vm ti nodes i]\<rparr>)"
proof -
  have "c_rem (i + 1) 3 = (i + 1) mod 3" "c_rem (i + 2) 3 = (i + 2) mod 3" using assms(1) by (auto simp: c_rem_def)
  then show ?thesis using assms by (auto simp: ABY3_add_vm_def ring_vm_def)
qed

lemma add_vms_ring:
  assumes "\<forall>e \<in> set info. pb_party_id (snd e) \<in> {0, 1, 2}" "length nodes = 3"
  shows "ABY3_add_vms ti nodes info =
    Inr (map (\<lambda>(name, node). (name, node\<lparr>pb_vm := pb_vm node @ [ring_vm ti nodes (pb_party_id node)]\<rparr>)) info)"
  using assms(1) by (induction info) (auto simp: add_vm_ring assms(2))

lemma ring_links:
  assumes "i \<in> {0, 1, 2 :: int}"
  defines "j \<equiv> (i + 1) mod 3"
  shows "ep_port (vm_next (ring_vm ti nodes i)) = ep_port (vm_prev (ring_vm ti nodes j))"
    "ep_name (vm_next (ring_vm ti nodes i)) = ep_name (vm_prev (ring_vm ti nodes j))"
    "ep_link_type (vm_next (ring_vm ti nodes i)) \<noteq> ep_link_type (vm_prev (ring_vm ti nodes j))"
    "ep_ip (vm_next (ring_vm ti nodes i)) = pb_ip (nodes ! nat j)"
    "ep_ip (vm_prev (ring_vm ti nodes j)) = pb_ip (nodes ! nat i)"
  using assms(1) by (auto simp: ring_vm_def ABY3_endpoint_def link_name_def j_def)

text \<open>
  The ring of three parties numbered 0, 1 and 2: when the preparation of a task succeeds, every
  party gets two links, to its neighbours, and keeps everything else. The two ends of a link agree
  on port and name, and one end is the server and the other the client. The address an end holds is
  that of the party which stands at the neighbour's number in the container.
\<close>

theorem aby3_links_agree:
  assumes "ABY3_prepare request = Inr request'" "pt_type (pr_task request) = ACTOR_TASK"
    and "info = pt_party_access_info (pr_task request)" "map_wf info" "\<forall>e \<in> set info. pb_party_id (snd e) \<in> {0, 1, 2}"
  shows "\<exists>vm. pt_party_access_info (pr_task request') =
      map (\<lambda>(name, node). (name, node\<lparr>pb_vm := pb_vm node @ [vm (pb_party_id node)]\<rparr>)) info \<and>
    (\<forall>i \<in> {0, 1, 2}. \<forall>j. j = (i + 1) mod 3 \<longrightarrow>
      ep_port (vm_next (vm i)) = ep_port (vm_prev (vm j)) \<and> ep_name (vm_next (vm i)) = ep_name (vm_prev (vm j)) \<and>
      ep_link_type (vm_next (vm i)) \<noteq> ep_link_type (vm_prev (vm j)) \<and>
      ep_ip (vm_next (vm i)) = pb_ip (snd (info ! nat j)) \<and> ep_ip (vm_prev (vm j)) = pb_ip (snd (info ! nat i)))"
proof -
  let ?nodes = "map snd info"
  let ?vm = "ring_vm (pt_task_info (pr_task request)) ?nodes"
  have three: "length (map fst info) = 3"
    using assms(1-4) by (auto simp: ABY3_prepare_def Let_def map_wf_def distinct_remdups_id split: if_splits)
  then have "pt_party_access_info (pr_task request') = map (\<lambda>(name, node). (name, node\<lparr>pb_vm := pb_vm node @ [?vm (pb_party_id node)]\<rparr>)) info"
    using assms(1,2) add_vms_ring [OF assms(5), of ?nodes "pt_task_info (pr_task request)"]
    by (auto simp: ABY3_prepare_def Let_def assms(3) [symmetric] split: if_splits)
  moreover have "ep_port (vm_next (?vm i)) = ep_port (vm_prev (?vm j)) \<and> ep_name (vm_next (?vm i)) = ep_name (vm_prev (?vm j)) \<and>
      ep_link_type (vm_next (?vm i)) \<noteq> ep_link_type (vm_prev (?vm j)) \<and>
      ep_ip (vm_next (?vm i)) = pb_ip (snd (info ! nat j)) \<and> ep_ip (vm_prev (?vm j)) = pb_ip (snd (info ! nat i))"
    if "i \<in> {0, 1, 2}" "j = (i + 1) mod 3" for i j
  proof -
    have "nat j < length info" "nat i < length info" using that three by auto
    then show ?thesis using ring_links [OF that(1), of "pt_task_info (pr_task request)" ?nodes] by (simp add: that(2))
  qed
  ultimately show ?thesis by blast
qed

definition ring_node :: "string \<Rightarrow> int \<Rightarrow> pb_node" where
  "ring_node ip i = new_pb_node\<lparr>pb_ip := ip, pb_party_id := i\<rparr>"

definition ring_request :: "pb_node std_map \<Rightarrow> PushTaskRequest" where
  "ring_request parties = pir_example\<lparr>pr_task := (pr_task pir_example)\<lparr>pt_type := ACTOR_TASK, pt_party_access_info := parties\<rparr>\<rparr>"

definition ring_parties :: "pb_node std_map" where
  "ring_parties = [(''A'', ring_node ''a'' 0), (''B'', ring_node ''b'' 1), (''C'', ring_node ''c'' 2)]"

lemma ring_prepared: "\<not> isl (ABY3_prepare (ring_request ring_parties))"
  by code_simp

text \<open>In the opposite order the numbers miss: party A, number 0, is told its own address for its neighbour C.\<close>

lemma ring_reversed:
  "map (\<lambda>(name, node). (name, map (\<lambda>vm. (ep_ip (vm_next vm), ep_ip (vm_prev vm))) (pb_vm node)))
     (pt_party_access_info (pr_task (projr (ABY3_prepare (ring_request (rev ring_parties)))))) =
   [(''C'', [(''c'', ''b'')]), (''B'', [(''a'', ''c'')]), (''A'', [(''b'', ''a'')])]"
  by code_simp

theorem aby3_links_agree_witness:
  "\<exists>request' vm. ABY3_prepare (ring_request ring_parties) = Inr request' \<and>
    map (\<lambda>(name, node). (name, pb_vm node)) (pt_party_access_info (pr_task request')) = [(''A'', [vm 0]), (''B'', [vm 1]), (''C'', [vm (2 :: int)])] \<and>
    ep_ip (vm_next (vm 0)) = ''b'' \<and> ep_name (vm_next (vm 2)) = ep_name (vm_prev (vm 0))"
proof -
  obtain request' where r: "ABY3_prepare (ring_request ring_parties) = Inr request'"
    using ring_prepared by (cases "ABY3_prepare (ring_request ring_parties)") simp_all
  have info: "ring_parties = pt_party_access_info (pr_task (ring_request ring_parties))" "pt_type (pr_task (ring_request ring_parties)) = ACTOR_TASK"
    "map_wf ring_parties" "\<forall>e \<in> set ring_parties. pb_party_id (snd e) \<in> {0, 1, 2}"
    by (simp_all add: ring_request_def ring_parties_def map_wf_def ring_node_def)
  from aby3_links_agree [OF r info(2,1,3,4)] obtain vm where
    vm: "pt_party_access_info (pr_task request') = map (\<lambda>(name, node). (name, node\<lparr>pb_vm := pb_vm node @ [vm (pb_party_id node)]\<rparr>)) ring_parties"
    "ep_ip (vm_next (vm 0)) = pb_ip (snd (ring_parties ! nat 1))" "ep_name (vm_next (vm 2)) = ep_name (vm_prev (vm 0))"
    by fastforce
  then have "map (\<lambda>(name, node). (name, pb_vm node)) (pt_party_access_info (pr_task request')) = [(''A'', [vm 0]), (''B'', [vm 1]), (''C'', [vm 2])]"
    "ep_ip (vm_next (vm 0)) = ''b''"
    by (simp_all add: ring_parties_def ring_node_def new_pb_node_def)
  with r vm(3) show ?thesis by (intro exI [of _ request'] exI [of _ vm] conjI)
qed

section \<open>Schedulers without peers\<close>

lemma no_threads [simp]: "run_threads do_act picks [] s = s"
proof -
  have "fold (turn do_act) picks ([], s) = ([], s)" by (induction picks) (simp_all add: turn_def)
  then show ?thesis by (simp add: run_threads_def)
qed

lemma default_mpc_dispatch:
  "MPC_dispatch local_node submit picks (default_MPCScheduler falcon) request s = Inr (dispatch_result s)"
  by (simp add: MPC_dispatch_def default_MPCScheduler_def)

end
