(* ===== verification/Task_Dispatch.thy ===== *)
theory Task_Dispatch
  imports Task_Language Task_Scheduler
begin

text \<open>
  The second half of \<^verbatim>\<open>task/semantic/parser.cc\<close>, which picks a scheduler and distributes the task, and the whole of
  \<^verbatim>\<open>VMNodeImpl::DispatchTask\<close> with the parsers and schedulers in place of its parameter.
\<close>

section \<open>From the request to the parties\<close>

text \<open>What surrounds the node: the libraries, the meta service, the answers of the parties, and the schedule of the threads.\<close>

record 'n dispatch_env =
  de_trunc :: "string \<Rightarrow> int"
  de_parse :: "string \<Rightarrow> json option"
  de_find :: "'n find_peers"
  de_order :: "pb_node std_map \<Rightarrow> pb_node std_map"
  de_local :: Node
  de_call :: party_call
  de_picks :: "nat list"

definition schedule_parsed :: "'n dispatch_env \<Rightarrow> LanguageParser \<Rightarrow> (retcode \<times> Node list) res" where
  "schedule_parsed env p =
     (let task_config = pr_task (task_request p) in
      if pt_party_access_info task_config = [] then Inr (FAIL, [])
      else (case CreateScheduler task_config of
        None \<Rightarrow> Inr (FAIL, [])
      | Some scheduler_ptr \<Rightarrow>
          bindR (dispatch (de_local env) (de_call env) (de_picks env) scheduler_ptr (task_request p) new_VMScheduler) (\<lambda>(ret, s).
            Inr (ret, task_server_info s))))"

text \<open>The functions for the two languages differ only in the type they cast the parser to.\<close>

definition scheduleTask :: "'n dispatch_env \<Rightarrow> LanguageParser \<Rightarrow> 'n \<Rightarrow> (retcode \<times> Node list) res \<times> 'n" where
  "scheduleTask env p n =
     (let (parsed, n') = ParseDatasetToPartyAccessInfo (de_trunc env) (de_parse env) (de_find env) (de_order env) p n in
      (bindR parsed (schedule_parsed env), n'))"

definition parseTaskSyntaxTree :: "'n dispatch_env \<Rightarrow> LanguageParser option \<Rightarrow> 'n \<Rightarrow> (retcode \<times> Node list) res \<times> 'n" where
  "parseTaskSyntaxTree env lan_parser n =
     (case lan_parser of
        None \<Rightarrow> (Inr (FAIL, []), n)
      | Some p \<Rightarrow>
          (case pt_language (pr_task (task_request p)) of
             PROTO \<Rightarrow> scheduleTask env p n
           | PYTHON \<Rightarrow> scheduleTask env p n
           | _ \<Rightarrow> (Inr (FAIL, []), n)))"

text \<open>The part of \<^verbatim>\<open>DispatchTask\<close> inside its \<^verbatim>\<open>try\<close>.\<close>

definition distribute :: "'n dispatch_env \<Rightarrow> PushTaskRequest \<Rightarrow> 'n \<Rightarrow> dispatch_outcome res \<times> 'n" where
  "distribute env request n =
     (case LanguageParserFactory_Create request of
        None \<Rightarrow> (Inr NoParser, n)
      | Some p \<Rightarrow>
          (case parseTaskSyntaxTree env (Some (parseDatasets p)) n of
             (Inr (ret, task_server), n') \<Rightarrow> (Inr (Dispatched ret task_server), n')
           | (Inl (Raised what), n') \<Rightarrow> (Inr (Threw what), n')
           | (Inl e, n') \<Rightarrow> (Inl e, n')))"

text \<open>
  The new worker is registered before the task is distributed: \<open>early\<close> are the reports that reach it while the
  distribution is under way, before the number of parties is set.
\<close>

definition DispatchTask ::
  "'n dispatch_env \<Rightarrow> Node \<Rightarrow> TaskStatus list \<Rightarrow> PushTaskRequest \<Rightarrow> PushTaskReply \<Rightarrow> VMNodeImpl \<Rightarrow> 'n \<Rightarrow>
   ((retcode \<times> PushTaskReply) \<times> VMNodeImpl) res \<times> 'n" where
  "DispatchTask env service_node early request reply vn n =
     (let (r, vn1) = DispatchTask_begin (pt_task_info (pr_task request)) vn;
          (outcome, n') = distribute env request n in
      (bindR outcome (\<lambda>out. bindR (at_worker r (\<lambda>w. bindR (report_all early w) (\<lambda>w1. Inr ((), w1))) vn1) (\<lambda>(_, vn2).
         DispatchTask_end out service_node r reply vn2)), n'))"

section \<open>Distribution as the parties see it\<close>

text \<open>
  For the three schedulers that report failures: the request they start from, when they accept it, and
  what they send to a party.
\<close>

definition prepared :: "Node \<Rightarrow> scheduler \<Rightarrow> PushTaskRequest \<Rightarrow> PushTaskRequest res" where
  "prepared local_node sched request =
     (case sched of
        BaseScheduler \<Rightarrow> Inr request
      | ABY3Scheduler \<Rightarrow> ABY3_prepare request
      | PIRScheduler \<Rightarrow>
          let push_request = request\<lparr>pr_task := PIR_client local_node (pr_task request)\<rparr> in
          if map_of (pt_params (pr_task push_request)) ''DbInfo'' = None \<and>
             length (remdups (map (\<lambda>(_, node). node_to_string (pbNode2Node node new_Node)) (pt_party_access_info (pr_task push_request)))) < 2
          then Inl (Raised ''too few parties'') else Inr push_request
      | _ \<Rightarrow> Inl (Raised ''other scheduler''))"

definition asked :: "Node \<Rightarrow> scheduler \<Rightarrow> PushTaskRequest \<Rightarrow> string \<Rightarrow> PushTaskRequest" where
  "asked local_node sched request name =
     (if sched = PIRScheduler then PIR_request local_node name request else send_request local_node name request)"

definition party_answers :: "Node \<Rightarrow> party_call \<Rightarrow> scheduler \<Rightarrow> PushTaskRequest \<Rightarrow> (retcode \<times> PushTaskReply) list" where
  "party_answers local_node call sched request =
     all_answers (\<lambda>name node. call name node (asked local_node sched request name)) (pt_party_access_info (pr_task request))"

lemma fresh_scheduler [simp]:
  "\<not> sc_error new_VMScheduler" "task_server_info new_VMScheduler = []"
  "sc_error (start_messages parties s) = sc_error s" "task_server_info (start_messages parties s) = task_server_info s"
  by (simp_all add: new_VMScheduler_def start_messages_def)

lemma dispatch_distribution:
  assumes "prepared local_node sched request = Inr q"
  shows "\<exists>r. dispatch local_node call picks sched request new_VMScheduler = Inr r \<and>
    result_of r = distribution (party_answers local_node call sched q)"
proof (cases sched)
  case BaseScheduler
  then show ?thesis using assms schedule_result [OF VM_reports]
    by (simp add: prepared_def dispatch_def VM_dispatch_def party_answers_def asked_def Let_def)
next
  case ABY3Scheduler
  then show ?thesis using assms schedule_result [OF ABY3_reports]
    by (simp add: prepared_def dispatch_def ABY3_dispatch_def party_answers_def asked_def Let_def)
next
  case PIRScheduler
  then have q: "q = request\<lparr>pr_task := PIR_client local_node (pr_task request)\<rparr>"
    using assms by (simp add: prepared_def Let_def split: if_splits)
  define s1 where "s1 = (if map_of (pt_params (pr_task q)) ''DbInfo'' \<noteq> None then new_VMScheduler
    else start_messages (pt_party_access_info (pr_task q)) new_VMScheduler)"
  have "PIR_dispatch local_node call picks request new_VMScheduler =
      Inr (dispatch_result (schedule_all (PIR_ScheduleTask local_node call q) picks (pt_party_access_info (pr_task q)) s1))"
    using assms PIRScheduler unfolding PIR_dispatch_def prepared_def Let_def q [symmetric] s1_def
    by (simp split: if_splits)
  moreover have "\<not> sc_error s1" "task_server_info s1 = []" by (simp_all add: s1_def)
  ultimately show ?thesis using schedule_result [OF PIR_reports] PIRScheduler
    by (simp add: dispatch_def party_answers_def asked_def)
qed (use assms in \<open>simp_all add: prepared_def\<close>)

lemma created_parser:
  assumes "LanguageParserFactory_Create request = Some p"
  shows "task_request (parseDatasets p) = request"
    "parseTaskSyntaxTree env (Some (parseDatasets p)) n = scheduleTask env (parseDatasets p) n"
  using assms
  by (auto simp: LanguageParserFactory_Create_def parseDatasets_def py_parseDatasets_def proto_parseDatasets_def
      parseTaskSyntaxTree_def split: Language.splits)

lemma distribute_result:
  assumes "LanguageParserFactory_Create request = Some p"
    and "ParseDatasetToPartyAccessInfo (de_trunc env) (de_parse env) (de_find env) (de_order env) (parseDatasets p) n = (Inr p', n')"
    and "pt_party_access_info (pr_task (task_request p')) \<noteq> []" "CreateScheduler (pr_task (task_request p')) = Some sched"
    and "dispatch (de_local env) (de_call env) (de_picks env) sched (task_request p') new_VMScheduler = Inr (ret, s)"
  shows "distribute env request n = (Inr (Dispatched ret (task_server_info s)), n')"
proof -
  have "parseTaskSyntaxTree env (Some (parseDatasets p)) n = (Inr (ret, task_server_info s), n')"
    unfolding created_parser(2) [OF assms(1)] by (simp add: scheduleTask_def schedule_parsed_def assms(2-5))
  then show ?thesis by (simp add: distribute_def assms(1))
qed

lemma begin_worker:
  "fst (DispatchTask_begin task_info vn) = length (worker_store vn)"
  "worker_store (snd (DispatchTask_begin task_info vn)) = worker_store vn @ [new_Worker (vn_node_id vn) task_info]"
  by (simp_all add: DispatchTask_begin_def CreateWorker_def)

text \<open>The node after the early reports, and what follows when the distribution has succeeded.\<close>

lemma early_reports:
  assumes "report_all early (new_Worker (vn_node_id vn) task_info) = Inr w1"
  shows "at_worker (fst (DispatchTask_begin task_info vn)) (\<lambda>w. bindR (report_all early w) (\<lambda>w1. Inr ((), w1))) (snd (DispatchTask_begin task_info vn)) =
    Inr ((), (snd (DispatchTask_begin task_info vn))\<lparr>worker_store := worker_store vn @ [w1]\<rparr>)"
  using assms by (simp add: at_worker_def begin_worker)

lemma dispatched_worker:
  "\<exists>vn'. DispatchTask_end (Dispatched SUCCESS servers) service_node (fst (DispatchTask_begin task_info vn)) reply
        ((snd (DispatchTask_begin task_info vn))\<lparr>worker_store := worker_store vn @ [w1]\<rparr>) =
      Inr ((SUCCESS, reply\<lparr>rp_task_server := rp_task_server reply @ [node2PbNode service_node new_pb_node],
                            rp_party_count := int (length servers)\<rparr>), vn') \<and>
    worker_store vn' ! length (worker_store vn) = setPartyCount (length servers) w1"
  by (simp add: DispatchTask_end_def begin_worker at_worker_def)

text \<open>
  C16. Distributing a task with the basic scheduler, the one for ABY3 or the one for information retrieval (those for Python tasks, for
  \<^verbatim>\<open>maxpool\<close> and \<^verbatim>\<open>lenet\<close> and for enclaves do not report failures). Whatever the order in which
  the threads run, and whatever reports reach the node meanwhile (\<open>early\<close>): if a call fails, the distribution fails and the submitter is told so; otherwise
  it succeeds, the submitter is told how many servers the parties named, and the scheduler's worker
  decides the task by the early and the later reports for that many parties (\<open>verdict_after\<close>).
\<close>

theorem dispatch_task:
  assumes "LanguageParserFactory_Create request = Some p"
    and "ParseDatasetToPartyAccessInfo (de_trunc env) (de_parse env) (de_find env) (de_order env) (parseDatasets p) n = (Inr p', n')"
    and "pt_party_access_info (pr_task (task_request p')) \<noteq> []" "CreateScheduler (pr_task (task_request p')) = Some sched"
    and "prepared (de_local env) sched (task_request p') = Inr q"
    and "answers = party_answers (de_local env) (de_call env) sched q"
    and "servers = sum_list (map (\<lambda>(_, a). length (rp_task_server a)) answers)"
  shows "if \<exists>a \<in> set answers. fst a = FAIL
    then \<exists>vn'. DispatchTask env service_node early request reply vn n =
      (Inr ((FAIL, reply\<lparr>rp_ret_code := 1, rp_msg_info := ''dispatch task to party failed''\<rparr>), vn'), n')
    else \<exists>vn'. DispatchTask env service_node early request reply vn n =
      (Inr ((SUCCESS, reply\<lparr>rp_task_server := rp_task_server reply @ [node2PbNode service_node new_pb_node],
                            rp_party_count := int servers\<rparr>), vn'), n') \<and>
      (\<forall>late. \<exists>w. report_all late (worker_store vn' ! length (worker_store vn)) = Inr w \<and> waitUntilTaskFinish w = verdict_after servers early late)"
proof -
  let ?info = "pt_task_info (pr_task request)"
  from dispatch_distribution [OF assms(5), of "de_call env" "de_picks env"] obtain ret s where
    d: "dispatch (de_local env) (de_call env) (de_picks env) sched (task_request p') new_VMScheduler = Inr (ret, s)"
    and out: "(ret, mset (task_server_info s)) = distribution answers"
    by (auto simp: result_of_def assms(6))
  note dist = distribute_result [OF assms(1-4) d]
  obtain w1 where w1: "report_all early (new_Worker (vn_node_id vn) ?info) = Inr w1"
    using reports_around_count [of early "vn_node_id vn" ?info] by blast
  have run: "DispatchTask env service_node early request reply vn n =
      (DispatchTask_end (Dispatched ret (task_server_info s)) service_node (fst (DispatchTask_begin ?info vn)) reply
        ((snd (DispatchTask_begin ?info vn))\<lparr>worker_store := worker_store vn @ [w1]\<rparr>), n')"
    using early_reports [OF w1] by (simp add: DispatchTask_def case_prod_beta Let_def dist)
  show ?thesis
  proof (cases "\<exists>a \<in> set answers. fst a = FAIL")
    case True
    then have "ret = FAIL" using out by (simp add: distribution_def)
    then show ?thesis using True run by (simp add: DispatchTask_end_def)
  next
    case False
    then have ret: "ret = SUCCESS" and "mset (task_server_info s) = snd (distribution answers)"
      using out by (simp_all add: distribution_def)
    then have "length (task_server_info s) = size (snd (distribution answers))" by (metis size_mset)
    also have "\<dots> = servers"
    proof -
      have "\<forall>a \<in> set answers. fst a = SUCCESS" using False by (metis retcode.exhaust)
      then show ?thesis unfolding assms(7) distribution_def
        by (induction answers) (auto simp: length_concat comp_def split_def)
    qed
    finally have "length (task_server_info s) = servers" .
    with dispatched_worker [of "task_server_info s" service_node ?info vn reply w1] obtain vn' where vn':
      "DispatchTask env service_node early request reply vn n =
        (Inr ((SUCCESS, reply\<lparr>rp_task_server := rp_task_server reply @ [node2PbNode service_node new_pb_node],
                              rp_party_count := int servers\<rparr>), vn'), n')"
      "worker_store vn' ! length (worker_store vn) = setPartyCount servers w1"
      using run ret by auto
    have "\<exists>w. report_all late (setPartyCount servers w1) = Inr w \<and> waitUntilTaskFinish w = verdict_after servers early late" for late
      using reports_around_count [of early "vn_node_id vn" ?info late servers] w1 by (auto simp: collected_def waitUntilTaskFinish_def)
    then show ?thesis using False vn' by auto
  qed
qed

definition psi_request :: PushTaskRequest where
  "psi_request = \<lparr>pr_task = \<lparr>pt_type = PSI_TASK, pt_language = PROTO, pt_code = [], pt_node_map = [], pt_task_info = empty_TaskContext,
     pt_party_name = [], pt_params = [], pt_party_datasets = [],
     pt_party_access_info = [(''CLIENT'', example_node ''c'' 1), (''SERVER'', example_node ''s'' 2)],
     pt_auxiliary_server = []\<rparr>, pr_manual_launch = False\<rparr>"

definition empty_reply :: PushTaskReply where
  "empty_reply = \<lparr>rp_ret_code = 0, rp_msg_info = [], rp_party_count = 0, rp_task_server = []\<rparr>"

definition example_env :: "unit dispatch_env" where
  "example_env = \<lparr>de_trunc = (\<lambda>_. 0), de_parse = (\<lambda>_. None), de_find = FindPeerListFromDatasets example_answer, de_order = rev,
     de_local = new_Node, de_call = (\<lambda>name node q. (SUCCESS, empty_reply\<lparr>rp_task_server := [new_pb_node]\<rparr>)), de_picks = [1, 0]\<rparr>"

theorem dispatch_task_witness:
  "\<exists>vn'. DispatchTask example_env new_Node [] psi_request empty_reply (new_VMNodeImpl ''n'') () =
      (Inr ((SUCCESS, empty_reply\<lparr>rp_task_server := [node2PbNode new_Node new_pb_node], rp_party_count := 2\<rparr>), vn'), ()) \<and>
    (\<forall>sts. \<exists>w. report_all sts (worker_store vn' ! 0) = Inr w \<and> waitUntilTaskFinish w = verdict 2 sts)"
proof -
  define p where "p = \<lparr>lp_python = False, task_request = psi_request, input_datasets_with_tag = []\<rparr>"
  have c: "LanguageParserFactory_Create psi_request = Some p" by (simp add: LanguageParserFactory_Create_def psi_request_def p_def)
  have d: "parseDatasets p = p"
    by (simp add: p_def parseDatasets_def proto_parseDatasets_def party_dataset_ids_def psi_request_def)
  have e: "ParseDatasetToPartyAccessInfo (de_trunc example_env) (de_parse example_env) (de_find example_env) (de_order example_env) (parseDatasets p) () = (Inr p, ())"
    unfolding d by (simp add: example_env_def ParseDatasetToPartyAccessInfo_def FindPeerListFromDatasets_def p_def
        ProcessAuxiliaryServer_def psi_request_def)
  have f: "pt_party_access_info (pr_task (task_request p)) \<noteq> []" "CreateScheduler (pr_task (task_request p)) = Some BaseScheduler"
    "prepared (de_local example_env) BaseScheduler (task_request p) = Inr psi_request"
    by (simp_all add: p_def psi_request_def CreateScheduler_def CreateProtoScheduler_def prepared_def)
  have "party_answers (de_local example_env) (de_call example_env) BaseScheduler psi_request =
      replicate 2 (SUCCESS, empty_reply\<lparr>rp_task_server := [new_pb_node]\<rparr>)"
    by (simp add: party_answers_def all_answers_def example_env_def psi_request_def numeral_2_eq_2)
  with dispatch_task [OF c e f refl refl, of new_Node "[]" empty_reply "new_VMNodeImpl ''n''"]
  show ?thesis by (simp add: empty_reply_def new_VMNodeImpl_def verdict_no_early numeral_2_eq_2)
qed

section \<open>Tasks nobody works on\<close>

lemma same_scheduler:
  "pt_language t = pt_language t' \<Longrightarrow> pt_type t = pt_type t' \<Longrightarrow> pt_code t = pt_code t' \<Longrightarrow> CreateScheduler t = CreateScheduler t'"
  by (simp add: CreateScheduler_def CreateProtoScheduler_def CreateMPCScheduler_def split: Language.split TaskType.split)

lemma auxiliary_keeps_kind:
  "ProcessAuxiliaryServer trunc parse find_peer p n = (Inr p', n') \<Longrightarrow>
   CreateScheduler (pr_task (task_request p')) = CreateScheduler (pr_task (task_request p))"
  by (rule same_scheduler)
    (auto simp: ProcessAuxiliaryServer_def set_auxiliary_def Let_def split: option.splits sum.splits prod.splits)

lemma merge_keeps_kind:
  "CreateScheduler (pr_task (task_request (MergePartyAccessInfo order info p))) = CreateScheduler (pr_task (task_request p))"
  by (rule same_scheduler) (simp_all add: MergePartyAccessInfo_def set_parties_def)

lemma parse_keeps_kind:
  "ParseDatasetToPartyAccessInfo trunc parse find_peer order p n = (Inr p', n') \<Longrightarrow>
   CreateScheduler (pr_task (task_request p')) = CreateScheduler (pr_task (task_request p))"
  by (auto simp: ParseDatasetToPartyAccessInfo_def merge_keeps_kind dest!: auxiliary_keeps_kind
      split: prod.splits sum.splits option.splits)

lemma verdict_nobody: "\<not> failed early \<Longrightarrow> \<not> failed late \<Longrightarrow> verdict_after 0 early late = None"
  by (auto simp: verdict_after_def completes_def list_ex_iff reported_def take_Suc_conv_app_nth)

text \<open>
  The tasks \<^verbatim>\<open>maxpool\<close> and \<^verbatim>\<open>lenet\<close>: their schedulers are made without peers. The distribution reports success for no party,
  whatever the parties would answer, nobody gets the task, and the scheduler's thread waits forever:
  no reports without a failure, early or late, end the task.
\<close>

theorem unconfigured_task_waits:
  assumes "LanguageParserFactory_Create request = Some p"
    and "ParseDatasetToPartyAccessInfo (de_trunc env) (de_parse env) (de_find env) (de_order env) (parseDatasets p) n = (Inr p', n')"
    and "pt_party_access_info (pr_task (task_request p')) \<noteq> []"
    and "pt_language (pr_task request) = PROTO" "pt_type (pr_task request) = ACTOR_TASK" "pt_code (pr_task request) \<in> {''maxpool'', ''lenet''}"
  shows "\<exists>vn'. DispatchTask env service_node early request reply vn n =
      (Inr ((SUCCESS, reply\<lparr>rp_task_server := rp_task_server reply @ [node2PbNode service_node new_pb_node], rp_party_count := 0\<rparr>), vn'), n') \<and>
    (\<forall>late. \<not> failed early \<and> \<not> failed late \<longrightarrow>
      (\<exists>w. report_all late (worker_store vn' ! length (worker_store vn)) = Inr w \<and> waitUntilTaskFinish w = None))"
proof -
  from parse_keeps_kind [OF assms(2)] created_parser(1) [OF assms(1)] assms(4-6) obtain falcon where
    k: "CreateScheduler (pr_task (task_request p')) = Some (MPC (default_MPCScheduler falcon))"
    by (auto simp: CreateScheduler_def CreateProtoScheduler_def CreateMPCScheduler_def)
  have "dispatch (de_local env) (de_call env) (de_picks env) (MPC (default_MPCScheduler falcon)) (task_request p') new_VMScheduler =
      Inr (SUCCESS, new_VMScheduler)"
    by (simp add: dispatch_def default_mpc_dispatch dispatch_result_def)
  from distribute_result [OF assms(1-3) k this] have dist: "distribute env request n = (Inr (Dispatched SUCCESS []), n')" by simp
  let ?info = "pt_task_info (pr_task request)"
  obtain w1 where w1: "report_all early (new_Worker (vn_node_id vn) ?info) = Inr w1"
    using reports_around_count [of early "vn_node_id vn" ?info] by blast
  from dispatched_worker [of "[]" service_node ?info vn reply w1] obtain vn' where vn':
    "DispatchTask env service_node early request reply vn n =
      (Inr ((SUCCESS, reply\<lparr>rp_task_server := rp_task_server reply @ [node2PbNode service_node new_pb_node], rp_party_count := 0\<rparr>), vn'), n')"
    "worker_store vn' ! length (worker_store vn) = setPartyCount 0 w1"
    using early_reports [OF w1] dist by (auto simp: DispatchTask_def case_prod_beta Let_def)
  have "\<exists>w. report_all late (setPartyCount 0 w1) = Inr w \<and> waitUntilTaskFinish w = verdict_after 0 early late" for late
    using reports_around_count [of early "vn_node_id vn" ?info late 0] w1 by (auto simp: collected_def waitUntilTaskFinish_def)
  then show ?thesis using vn' verdict_nobody by metis
qed

definition lenet_request :: PushTaskRequest where
  "lenet_request = psi_request\<lparr>pr_task := (pr_task psi_request)\<lparr>pt_type := ACTOR_TASK, pt_code := ''lenet''\<rparr>\<rparr>"

theorem unconfigured_task_waits_witness:
  "\<exists>vn' w. DispatchTask example_env new_Node [] lenet_request empty_reply (new_VMNodeImpl ''n'') () =
      (Inr ((SUCCESS, empty_reply\<lparr>rp_task_server := [node2PbNode new_Node new_pb_node], rp_party_count := 0\<rparr>), vn'), ()) \<and>
    report_all [empty_TaskStatus\<lparr>ts_party := ''CLIENT'', ts_status := ST_SUCCESS\<rparr>] (worker_store vn' ! 0) = Inr w \<and>
    waitUntilTaskFinish w = None"
proof -
  define p where "p = \<lparr>lp_python = False, task_request = lenet_request, input_datasets_with_tag = []\<rparr>"
  have c: "LanguageParserFactory_Create lenet_request = Some p"
    by (simp add: LanguageParserFactory_Create_def lenet_request_def psi_request_def p_def)
  have d: "parseDatasets p = p"
    by (simp add: p_def parseDatasets_def proto_parseDatasets_def party_dataset_ids_def lenet_request_def psi_request_def)
  have e: "ParseDatasetToPartyAccessInfo (de_trunc example_env) (de_parse example_env) (de_find example_env) (de_order example_env) (parseDatasets p) () = (Inr p, ())"
    unfolding d by (simp add: example_env_def ParseDatasetToPartyAccessInfo_def FindPeerListFromDatasets_def p_def
        ProcessAuxiliaryServer_def lenet_request_def psi_request_def)
  have f: "pt_party_access_info (pr_task (task_request p)) \<noteq> []" "pt_language (pr_task lenet_request) = PROTO"
    "pt_type (pr_task lenet_request) = ACTOR_TASK" "pt_code (pr_task lenet_request) \<in> {''maxpool'', ''lenet''}"
    by (simp_all add: p_def lenet_request_def psi_request_def)
  from unconfigured_task_waits [OF c e f, of new_Node "[]" empty_reply "new_VMNodeImpl ''n''"] obtain vn' where
    v: "DispatchTask example_env new_Node [] lenet_request empty_reply (new_VMNodeImpl ''n'') () =
      (Inr ((SUCCESS, empty_reply\<lparr>rp_task_server := [node2PbNode new_Node new_pb_node], rp_party_count := 0\<rparr>), vn'), ())"
    and w: "\<not> failed sts \<Longrightarrow>
      \<exists>w. report_all sts (worker_store vn' ! 0) = Inr w \<and> waitUntilTaskFinish w = None" for sts
    by (auto simp: empty_reply_def new_VMNodeImpl_def failed_def)
  from w [of "[empty_TaskStatus\<lparr>ts_party := ''CLIENT'', ts_status := ST_SUCCESS\<rparr>]"] v show ?thesis by (auto simp: failed_def)
qed

end
