(* ===== verification/Data_Access.thy ===== *)
theory Data_Access
  imports Meta_Service
begin

text \<open>
  The data store: how values of a database become Arrow arrays (\<^verbatim>\<open>util/arrow_wrapper_util.cc\<close>), the descriptions that say
  where a dataset is (\<^verbatim>\<open>DataSetAccessInfo\<close> of \<^verbatim>\<open>data_store/driver.cc\<close> and its variants for CSV files, SQLite, MySQL and
  images), their texts, and the factory that makes descriptions and drivers. Reading the YAML
  configuration is left out.
\<close>

section \<open>Arrays from text\<close>

text \<open>
  The ids of Arrow's types. \<^verbatim>\<open>float\<close> is a type \<open>'f\<close>; what is used of it is \<^verbatim>\<open>std::stof\<close>, zero and the conversion to \<^verbatim>\<open>double\<close>.
\<close>

datatype ('f, 'd) arrow_array = Int32Array "32 word list" | Int64Array "i64 list" | FloatArray "'f list"
  | DoubleArray "'d list" | StringArray "string list" | BinaryArray "string list"

record ('f, 'd) float_lib =
  fl_stof :: "string \<Rightarrow> 'f option"
  fl_zero :: 'f
  fl_to_double :: "'f \<Rightarrow> 'd"

definition stoi_or_zero :: "string \<Rightarrow> int" where
  "stoi_or_zero s = (case stoi s of Inr v \<Rightarrow> v | Inl _ \<Rightarrow> 0)"

definition stof_or_zero :: "('f, 'd) float_lib \<Rightarrow> string \<Rightarrow> 'f" where
  "stof_or_zero N s = (case fl_stof N s of Some v \<Rightarrow> v | None \<Rightarrow> fl_zero N)"

definition Int32ArrowArrayBuilder :: "string list \<Rightarrow> ('f, 'd) arrow_array" where
  "Int32ArrowArrayBuilder arr = Int32Array (map (\<lambda>item. word_of_int (stoi_or_zero item)) arr)"

definition Int64ArrowArrayBuilder :: "string list \<Rightarrow> ('f, 'd) arrow_array" where
  "Int64ArrowArrayBuilder arr = Int64Array (map (\<lambda>item. word_of_int (stoi_or_zero item)) arr)"

definition FloatArrowArrayBuilder :: "('f, 'd) float_lib \<Rightarrow> string list \<Rightarrow> ('f, 'd) arrow_array" where
  "FloatArrowArrayBuilder N arr = FloatArray (map (stof_or_zero N) arr)"

definition DoubleArrowArrayBuilder :: "('f, 'd) float_lib \<Rightarrow> string list \<Rightarrow> ('f, 'd) arrow_array" where
  "DoubleArrowArrayBuilder N arr = DoubleArray (map (\<lambda>item. fl_to_double N (stof_or_zero N item)) arr)"

definition StringArrowArrayBuilder :: "string list \<Rightarrow> ('f, 'd) arrow_array" where
  "StringArrowArrayBuilder arr = StringArray arr"

definition BinaryArrowArrayBuilder :: "string list \<Rightarrow> ('f, 'd) arrow_array" where
  "BinaryArrowArrayBuilder arr = BinaryArray arr"

definition MakeArrowArray :: "('f, 'd) float_lib \<Rightarrow> int \<Rightarrow> string list \<Rightarrow> ('f, 'd) arrow_array" where
  "MakeArrowArray N field_type arr =
     (if field_type = 9 \<or> field_type = 8 then Int64ArrowArrayBuilder arr
      else if 2 \<le> field_type \<and> field_type \<le> 7 then Int32ArrowArrayBuilder arr
      else if field_type = 11 then FloatArrowArrayBuilder N arr
      else if field_type = 12 then DoubleArrowArrayBuilder N arr
      else StringArrowArrayBuilder arr)"

definition sql_type_2_arrow_type_map :: "int std_map" where
  "sql_type_2_arrow_type_map =
     [(''bigint'', 9), (''integer'', 9), (''tinyint'', 2), (''int'', 7), (''mediumint'', 7), (''smallint'', 7), (''float'', 11),
      (''double'', 12), (''varchar'', 13), (''char'', 13), (''text'', 13), (''binary'', 14), (''varbinary'', 14), (''blob'', 14),
      (''datetime'', 17), (''time'', 20), (''year'', 16), (''timestamp'', 13), (''DEFAULT_TYPE'', 13)]"

definition SqlType2ArrowType :: "string \<Rightarrow> int" where
  "SqlType2ArrowType sql_type =
     (case map_of sql_type_2_arrow_type_map (strToLower sql_type) of Some t \<Rightarrow> t | None \<Rightarrow> 13)"

section \<open>Descriptions of where data is\<close>

record mysql_info =
  my_ip :: string
  my_port :: u32
  my_user_name :: string
  my_password :: string
  my_database :: string
  my_db_name :: string
  my_table_name :: string
  my_db_url :: string
  my_query_colums :: "string list"

datatype access_kind =
    CSVAccess string
  | SQLiteAccess string string
  | MySQLAccess mysql_info
  | ImageAccess string string

record DataSetAccessInfo =
  ai_schema :: schema
  ai_arrow_schema :: "schema option"
  ai_kind :: access_kind

definition MakeArrowSchema :: "DataSetAccessInfo \<Rightarrow> DataSetAccessInfo" where
  "MakeArrowSchema ai = ai\<lparr>ai_arrow_schema := Some (FromFields (ai_schema ai))\<rparr>"

definition SetDatasetSchema :: "schema \<Rightarrow> DataSetAccessInfo \<Rightarrow> DataSetAccessInfo" where
  "SetDatasetSchema schema_info ai =
     (if ai_schema ai \<noteq> [] then ai else MakeArrowSchema (ai\<lparr>ai_schema := schema_info\<rparr>))"

text \<open>
  \<^verbatim>\<open>ParseSchema\<close>: a field whose type is no number ends the loop with what has been read, and without an
  Arrow schema.
\<close>

definition nl_elements :: "json \<Rightarrow> json list" where
  "nl_elements j = (case j of JArr xs \<Rightarrow> xs | JObj ms \<Rightarrow> map snd ms | JNull \<Rightarrow> [] | v \<Rightarrow> [v])"

fun push_fields :: "(string \<Rightarrow> int) \<Rightarrow> (string \<times> json) list \<Rightarrow> schema \<Rightarrow> bool \<times> schema" where
  "push_fields trunc [] schema = (True, schema)"
| "push_fields trunc ((key, val) # rest) schema =
     (case nl_int trunc val of Inr t \<Rightarrow> push_fields trunc rest (schema @ [(key, t)]) | Inl _ \<Rightarrow> (False, schema))"

definition ParseSchema :: "(string \<Rightarrow> int) \<Rightarrow> json \<Rightarrow> DataSetAccessInfo \<Rightarrow> retcode \<times> DataSetAccessInfo" where
  "ParseSchema trunc json_schema ai =
     (if ai_schema ai \<noteq> [] then (SUCCESS, ai)
      else case push_fields trunc (concat (map nl_items (nl_elements json_schema))) [] of
             (False, s) \<Rightarrow> (FAIL, ai\<lparr>ai_schema := s\<rparr>)
           | (True, s) \<Rightarrow> (SUCCESS, MakeArrowSchema (ai\<lparr>ai_schema := s\<rparr>)))"

definition SchemaToJsonString :: "(json \<Rightarrow> string) \<Rightarrow> DataSetAccessInfo \<Rightarrow> string" where
  "SchemaToJsonString dump ai = (case ai_arrow_schema ai of None \<Rightarrow> [] | Some s \<Rightarrow> schema_toJSON dump s)"

text \<open>\<^verbatim>\<open>toString\<close>: the members of an object are printed in the order of their names.\<close>

definition query_index_text :: "string list \<Rightarrow> string" where
  "query_index_text cols = concat (map (\<lambda>col. col @ '','') cols)"

definition csv_doc :: "string \<Rightarrow> string \<Rightarrow> json" where
  "csv_doc schema_text file_path =
     JObj [(''data_path'', JStr file_path), (''schema'', JStr schema_text), (''type'', JStr ''CSV'')]"

definition sqlite_doc :: "string \<Rightarrow> string \<Rightarrow> json" where
  "sqlite_doc db_path table_name =
     JObj [(''db_path'', JStr db_path), (''tableName'', JStr table_name), (''type'', JStr ''SQLITE'')]"

definition mysql_doc :: "string \<Rightarrow> mysql_info \<Rightarrow> json" where
  "mysql_doc schema_text my =
     JObj ([(''database'', JStr (my_database my)), (''dbName'', JStr (my_db_name my)), (''dbUrl'', JStr (my_db_url my)),
            (''host'', JStr (my_ip my)), (''password'', JStr (my_password my)), (''port'', JInt (uint (my_port my)))] @
           (if my_query_colums my = [] then [] else [(''query_index'', JStr (query_index_text (my_query_colums my)))]) @
           [(''schema'', JStr schema_text), (''tableName'', JStr (my_table_name my)),
            (''type'', JStr ''MYSQL''), (''username'', JStr (my_user_name my))])"

definition image_doc :: "string \<Rightarrow> string \<Rightarrow> json" where
  "image_doc image_dir annotations_file =
     JObj [(''annotations_file'', JStr annotations_file), (''image_dir'', JStr image_dir), (''type'', JStr ''IMAGE'')]"

definition access_doc :: "(json \<Rightarrow> string) \<Rightarrow> DataSetAccessInfo \<Rightarrow> json" where
  "access_doc dump ai =
     (case ai_kind ai of
        CSVAccess file_path \<Rightarrow> csv_doc (SchemaToJsonString dump ai) file_path
      | SQLiteAccess db_path table_name \<Rightarrow> sqlite_doc db_path table_name
      | MySQLAccess my \<Rightarrow> mysql_doc (SchemaToJsonString dump ai) my
      | ImageAccess image_dir annotations_file \<Rightarrow> image_doc image_dir annotations_file)"

definition access_toString :: "(json \<Rightarrow> string) \<Rightarrow> DataSetAccessInfo \<Rightarrow> string" where
  "access_toString dump ai = dump (access_doc dump ai)"

section \<open>Reading descriptions\<close>

text \<open>\<^verbatim>\<open>operator[]\<close> of a constant document must not be called with a name that is missing.\<close>

definition nl_const_at :: "json \<Rightarrow> string \<Rightarrow> json res" where
  "nl_const_at j name =
     (case j of
        JObj ms \<Rightarrow> (case map_of ms name of Some v \<Rightarrow> Inr v | None \<Rightarrow> Inl (Undefined ''no such member''))
      | _ \<Rightarrow> Inl (Raised ''type_error''))"

definition const_member :: "json \<Rightarrow> string \<Rightarrow> string res" where
  "const_member j name = bindR (nl_const_at j name) nl_string"

text \<open>\<open>catch_as r h\<close>: what is thrown in \<open>r\<close> is handled by \<open>h\<close>.\<close>

definition catch_as :: "'a res \<Rightarrow> 'a res \<Rightarrow> 'a res" where
  "catch_as r h = (case r of Inl (Raised _) \<Rightarrow> h | _ \<Rightarrow> r)"

definition csv_ParseFromJsonImpl :: "(string \<Rightarrow> json option) \<Rightarrow> json \<Rightarrow> access_kind res" where
  "csv_ParseFromJsonImpl parse meta_info =
     catch_as
       (bindR (const_member meta_info ''access_meta'') (\<lambda>access_info. bindR (nl_parse parse access_info) (\<lambda>js.
          bindR (bindR (nl_at js ''data_path'') nl_string) (\<lambda>path. Inr (CSVAccess path)))))
       (bindR (const_member meta_info ''access_meta'') (\<lambda>path.
          if path = [] then Inl (Raised ''get dataset path failed'') else Inr (CSVAccess path)))"

definition sqlite_ParseFromJsonImpl :: "json \<Rightarrow> access_kind res" where
  "sqlite_ParseFromJsonImpl js =
     bindR (const_member js ''db_path'') (\<lambda>db_path. bindR (const_member js ''tableName'') (\<lambda>table_name.
       Inr (SQLiteAccess db_path table_name)))"

definition mysql_ParseFromJsonImpl :: "(string \<Rightarrow> int) \<Rightarrow> json \<Rightarrow> mysql_info \<Rightarrow> access_kind res" where
  "mysql_ParseFromJsonImpl trunc js my =
     bindR (const_member js ''host'') (\<lambda>ip. bindR (bindR (nl_const_at js ''port'') (nl_int trunc)) (\<lambda>port.
     bindR (const_member js ''username'') (\<lambda>user_name. bindR (const_member js ''password'') (\<lambda>password.
     bindR (if nl_contains js ''database'' then const_member js ''database'' else Inr (my_database my)) (\<lambda>database.
     bindR (const_member js ''dbName'') (\<lambda>db_name. bindR (const_member js ''tableName'') (\<lambda>table_name.
     bindR (if nl_contains js ''dbUrl'' then const_member js ''dbUrl'' else Inr (my_db_url my)) (\<lambda>db_url.
       Inr (MySQLAccess \<lparr>my_ip = ip, my_port = word_of_int port, my_user_name = user_name, my_password = password,
         my_database = database, my_db_name = db_name, my_table_name = table_name, my_db_url = db_url, my_query_colums = []\<rparr>)))))))))"

definition image_ParseFromJsonImpl :: "json \<Rightarrow> access_kind res" where
  "image_ParseFromJsonImpl js =
     bindR (const_member js ''image_dir'') (\<lambda>image_dir. bindR (const_member js ''annotations_file'') (\<lambda>annotations_file.
       Inr (ImageAccess image_dir annotations_file)))"

text \<open>
  \<^verbatim>\<open>ParseFromMetaInfoImpl\<close> of the four variants, from the text of the access information. \<^verbatim>\<open>FAIL\<close> is \<open>Code 1\<close>; for SQLite
  and images it replaces every exception, for MySQL the exception goes on, for CSV the text itself is taken as the path.
\<close>

definition csv_ParseFromMetaInfoImpl :: "(string \<Rightarrow> json option) \<Rightarrow> (string \<Rightarrow> bool) \<Rightarrow> string \<Rightarrow> string \<Rightarrow> access_kind res" where
  "csv_ParseFromMetaInfoImpl parse exists access_info file_path =
     (if access_info = [] then Inr (CSVAccess file_path)
      else catch_as
        (bindR (nl_parse parse access_info) (\<lambda>js. bindR (bindR (nl_at js ''data_path'') nl_string) (\<lambda>path. Inr (CSVAccess path))))
        (if exists access_info then Inr (CSVAccess access_info) else Inl (Raised ''file_path is not exist'')))"

definition sqlite_ParseFromMetaInfoImpl :: "(string \<Rightarrow> json option) \<Rightarrow> string \<Rightarrow> access_kind \<Rightarrow> access_kind res" where
  "sqlite_ParseFromMetaInfoImpl parse access_info kind =
     (if access_info = [] then Inr kind
      else catch_as (bindR (nl_parse parse access_info) sqlite_ParseFromJsonImpl) (Inl (Code 1)))"

definition mysql_ParseFromMetaInfoImpl ::
  "(string \<Rightarrow> int) \<Rightarrow> (string \<Rightarrow> json option) \<Rightarrow> string \<Rightarrow> mysql_info \<Rightarrow> access_kind res" where
  "mysql_ParseFromMetaInfoImpl trunc parse access_info my =
     (if access_info = [] then Inr (MySQLAccess my)
      else bindR (nl_parse parse access_info) (\<lambda>js. mysql_ParseFromJsonImpl trunc js my))"

definition image_ParseFromMetaInfoImpl :: "(string \<Rightarrow> json option) \<Rightarrow> string \<Rightarrow> access_kind res" where
  "image_ParseFromMetaInfoImpl parse access_info =
     catch_as (bindR (nl_parse parse access_info) image_ParseFromJsonImpl) (Inl (Code 1))"

definition ParseFromMetaInfoImpl ::
  "(string \<Rightarrow> int) \<Rightarrow> (string \<Rightarrow> json option) \<Rightarrow> (string \<Rightarrow> bool) \<Rightarrow> string \<Rightarrow> access_kind \<Rightarrow> access_kind res" where
  "ParseFromMetaInfoImpl trunc parse exists access_info kind =
     (case kind of
        CSVAccess file_path \<Rightarrow> csv_ParseFromMetaInfoImpl parse exists access_info file_path
      | SQLiteAccess _ _ \<Rightarrow> sqlite_ParseFromMetaInfoImpl parse access_info kind
      | MySQLAccess my \<Rightarrow> mysql_ParseFromMetaInfoImpl trunc parse access_info my
      | ImageAccess _ _ \<Rightarrow> image_ParseFromMetaInfoImpl parse access_info)"

lemmas meta_info_defs = ParseFromMetaInfoImpl_def csv_ParseFromMetaInfoImpl_def sqlite_ParseFromMetaInfoImpl_def
  mysql_ParseFromMetaInfoImpl_def image_ParseFromMetaInfoImpl_def

record DatasetMetaInfo =
  dmi_id :: string
  dmi_driver_type :: string
  dmi_access_info :: string
  dmi_schema :: schema

definition FromMetaInfo ::
  "(string \<Rightarrow> int) \<Rightarrow> (string \<Rightarrow> json option) \<Rightarrow> (string \<Rightarrow> bool) \<Rightarrow> DatasetMetaInfo \<Rightarrow> DataSetAccessInfo \<Rightarrow> DataSetAccessInfo res" where
  "FromMetaInfo trunc parse exists meta_info ai =
     (let ai1 = (if dmi_schema meta_info = [] then ai
                 else MakeArrowSchema (ai\<lparr>ai_schema := ai_schema ai @ dmi_schema meta_info\<rparr>)) in
      bindR (ParseFromMetaInfoImpl trunc parse exists (dmi_access_info meta_info) (ai_kind ai1)) (\<lambda>k. Inr (ai1\<lparr>ai_kind := k\<rparr>)))"

text \<open>
  \<^verbatim>\<open>fromJsonString\<close>, from the text of a whole dataset description. The general one turns exceptions into \<^verbatim>\<open>FAIL\<close>, the
  one for CSV takes the text as the path and reports what it had before.
\<close>

definition parse_schema_member ::
  "(string \<Rightarrow> int) \<Rightarrow> (string \<Rightarrow> json option) \<Rightarrow> json \<Rightarrow> DataSetAccessInfo \<Rightarrow> (retcode \<times> DataSetAccessInfo) res" where
  "parse_schema_member trunc parse js ai =
     (if nl_contains js ''schema'' then
        bindR (member js ''schema'') (\<lambda>s. bindR (nl_parse parse s) (\<lambda>js_schema. Inr (ParseSchema trunc js_schema ai)))
      else Inr (SUCCESS, ai))"

definition ParseFromJsonImpl ::
  "(string \<Rightarrow> int) \<Rightarrow> (string \<Rightarrow> json option) \<Rightarrow> json \<Rightarrow> access_kind \<Rightarrow> access_kind res" where
  "ParseFromJsonImpl trunc parse js kind =
     (case kind of
        CSVAccess _ \<Rightarrow> csv_ParseFromJsonImpl parse js
      | SQLiteAccess _ _ \<Rightarrow> sqlite_ParseFromJsonImpl js
      | MySQLAccess my \<Rightarrow> mysql_ParseFromJsonImpl trunc js my
      | ImageAccess _ _ \<Rightarrow> catch_as (image_ParseFromJsonImpl js) (Inl (Code 1)))"

definition csv_fromJsonString ::
  "(string \<Rightarrow> int) \<Rightarrow> (string \<Rightarrow> json option) \<Rightarrow> string \<Rightarrow> DataSetAccessInfo \<Rightarrow> DataSetAccessInfo res" where
  "csv_fromJsonString trunc parse text ai =
     (case bindR (nl_parse parse text) (\<lambda>js. bindR (parse_schema_member trunc parse js ai) (\<lambda>r. Inr (js, r))) of
        Inl _ \<Rightarrow> Inr (ai\<lparr>ai_kind := CSVAccess text\<rparr>)
      | Inr (js, ret, ai1) \<Rightarrow>
          catch_as (bindR (csv_ParseFromJsonImpl parse js) (\<lambda>k. Inr (ai1\<lparr>ai_kind := k\<rparr>)))
            (if ret = SUCCESS then Inr (ai1\<lparr>ai_kind := CSVAccess text\<rparr>) else Inl (Code 1)))"

definition fromJsonString ::
  "(string \<Rightarrow> int) \<Rightarrow> (string \<Rightarrow> json option) \<Rightarrow> string \<Rightarrow> DataSetAccessInfo \<Rightarrow> DataSetAccessInfo res" where
  "fromJsonString trunc parse text ai =
     (case ai_kind ai of
        CSVAccess _ \<Rightarrow> csv_fromJsonString trunc parse text ai
      | kind \<Rightarrow>
          catch_as
            (bindR (nl_parse parse text) (\<lambda>js. bindR (parse_schema_member trunc parse js ai) (\<lambda>(ret, ai1).
             bindR (bindR (member js ''access_meta'') (nl_parse parse)) (\<lambda>js_access.
             bindR (ParseFromJsonImpl trunc parse js_access kind) (\<lambda>k. Inr (ai1\<lparr>ai_kind := k\<rparr>))))))
            (Inl (Code 1)))"

section \<open>The factory\<close>

record DataDriver =
  dr_type :: string
  dr_nodelet :: string
  dr_access_info :: "DataSetAccessInfo option"

text \<open>\<open>mysql\<close> tells whether the program was built with the MySQL driver.\<close>

definition new_mysql_info :: mysql_info where
  "new_mysql_info = \<lparr>my_ip = [], my_port = 0, my_user_name = [], my_password = [], my_database = [], my_db_name = [],
     my_table_name = [], my_db_url = [], my_query_colums = []\<rparr>"

definition getDriver :: "bool \<Rightarrow> string \<Rightarrow> string \<Rightarrow> DataSetAccessInfo option \<Rightarrow> DataDriver res" where
  "getDriver mysql driverName nodeletAddr access_info =
     (let driver_name = strToUpper driverName in
      if driver_name = ''CSV'' \<or> driver_name = ''SQLITE'' \<or> driver_name = ''IMAGE'' then
        Inr \<lparr>dr_type = driver_name, dr_nodelet = nodeletAddr, dr_access_info = access_info\<rparr>
      else if driver_name = ''MYSQL'' then
        (if mysql then Inr \<lparr>dr_type = driver_name, dr_nodelet = nodeletAddr, dr_access_info = access_info\<rparr>
         else Inl (Raised ''MySQL is not enabled''))
      else Inl (Raised (''[DataDriverFactory] Invalid driver name ['' @ driverName @ '']'')))"

definition createAccessInfoInternal :: "bool \<Rightarrow> string \<Rightarrow> DataSetAccessInfo res" where
  "createAccessInfoInternal mysql driver_type =
     (let drive_type = strToUpper driver_type; make = (\<lambda>k. Inr \<lparr>ai_schema = [], ai_arrow_schema = None, ai_kind = k\<rparr>) in
      if drive_type = ''CSV'' then make (CSVAccess [])
      else if drive_type = ''SQLITE'' then make (SQLiteAccess [] [])
      else if drive_type = ''MYSQL'' then (if mysql then make (MySQLAccess new_mysql_info) else Inl (Raised ''MySQL is not enabled''))
      else if drive_type = ''IMAGE'' then make (ImageAccess [] [])
      else Inl (Raised (''unsupported driver type: '' @ drive_type)))"

definition fail_raises :: "'a res \<Rightarrow> 'a res" where
  "fail_raises r = (case r of Inl (Code _) \<Rightarrow> Inl (Raised ''create dataset access info failed'') | _ \<Rightarrow> r)"

definition createAccessInfo_text ::
  "bool \<Rightarrow> (string \<Rightarrow> int) \<Rightarrow> (string \<Rightarrow> json option) \<Rightarrow> string \<Rightarrow> string \<Rightarrow> DataSetAccessInfo res" where
  "createAccessInfo_text mysql trunc parse driver_type meta_info =
     bindR (createAccessInfoInternal mysql driver_type) (\<lambda>ai. fail_raises (fromJsonString trunc parse meta_info ai))"

definition createAccessInfo ::
  "bool \<Rightarrow> (string \<Rightarrow> int) \<Rightarrow> (string \<Rightarrow> json option) \<Rightarrow> (string \<Rightarrow> bool) \<Rightarrow> string \<Rightarrow> DatasetMetaInfo \<Rightarrow> DataSetAccessInfo res" where
  "createAccessInfo mysql trunc parse exists driver_type meta_info =
     bindR (createAccessInfoInternal mysql driver_type) (\<lambda>ai. fail_raises (FromMetaInfo trunc parse exists meta_info ai))"


section \<open>Arrays\<close>

text \<open>
  A column of 64-bit integers is read with \<^verbatim>\<open>std::stoi\<close>: the numbers that do not fit in an \<^verbatim>\<open>int\<close> become zero.
\<close>

lemma int64_column:
  "MakeArrowArray N 9 (map to_string_nat vs) = Int64Array (map (\<lambda>v. if v < 2 ^ 31 then of_nat v else 0) vs)"
  by (auto simp: MakeArrowArray_def Int64ArrowArrayBuilder_def stoi_or_zero_def stoi_to_string stoi_to_string_large)

text \<open>A text that is no number, such as the mark of an empty cell, becomes zero as well.\<close>

lemma not_a_number_is_zero:
  assumes "stoi s = Inl e" "2 \<le> t" "t \<le> 9"
  shows "MakeArrowArray N t [s] = (if t \<le> 7 then Int32Array [0] else Int64Array [0])"
  using assms
  by (auto simp: MakeArrowArray_def Int64ArrowArrayBuilder_def Int32ArrowArrayBuilder_def stoi_or_zero_def)

fun array_length :: "('f, 'd) arrow_array \<Rightarrow> nat" where
  "array_length (Int32Array xs) = length xs"
| "array_length (Int64Array xs) = length xs"
| "array_length (FloatArray xs) = length xs"
| "array_length (DoubleArray xs) = length xs"
| "array_length (StringArray xs) = length xs"
| "array_length (BinaryArray xs) = length xs"

lemma MakeArrowArray_length [simp]: "array_length (MakeArrowArray N t xs) = length xs"
  by (simp add: MakeArrowArray_def Int64ArrowArrayBuilder_def Int32ArrowArrayBuilder_def FloatArrowArrayBuilder_def
      DoubleArrowArrayBuilder_def StringArrowArrayBuilder_def)

section \<open>Descriptions survive their text\<close>

lemma catch_as_simps [simp]:
  "catch_as (Inr x) h = Inr x" "catch_as (Inl (Raised m)) h = h" "catch_as (Inl (Code c)) h = Inl (Code c)"
  "catch_as (Inl (Undefined m)) h = Inl (Undefined m)"
  by (simp_all add: catch_as_def)

lemma push_fields_doc:
  "push_fields trunc (concat (map nl_items (map (\<lambda>(name, type). JObj [(name, JInt type)]) s))) acc = (True, acc @ s)"
  by (induction s arbitrary: acc) (auto simp: nl_items_def nl_int_def)

lemma ParseSchema_doc:
  "ai_schema ai = [] \<Longrightarrow> ParseSchema trunc (schema_doc s) ai = (SUCCESS, MakeArrowSchema (ai\<lparr>ai_schema := s\<rparr>))"
  using push_fields_doc [of trunc s "[]"]
  by (simp add: ParseSchema_def schema_doc_def nl_elements_def)

lemma ParseSchema_keeps: "ai_schema ai \<noteq> [] \<Longrightarrow> ParseSchema trunc j ai = (SUCCESS, ai)"
  by (simp add: ParseSchema_def)

text \<open>The kind of a description and the name the factory knows it by; which columns to query is not restored.\<close>

definition kind_name :: "access_kind \<Rightarrow> string" where
  "kind_name k = (case k of CSVAccess _ \<Rightarrow> ''CSV'' | SQLiteAccess _ _ \<Rightarrow> ''SQLITE'' | MySQLAccess _ \<Rightarrow> ''MYSQL'' | ImageAccess _ _ \<Rightarrow> ''IMAGE'')"

definition all_columns :: "access_kind \<Rightarrow> bool" where
  "all_columns k = (case k of MySQLAccess my \<Rightarrow> my_query_colums my = [] | _ \<Rightarrow> True)"

definition readable_text :: "(string \<Rightarrow> json option) \<Rightarrow> (json \<Rightarrow> string) \<Rightarrow> DataSetAccessInfo \<Rightarrow> bool" where
  "readable_text parse dump ai \<longleftrightarrow> access_toString dump ai \<noteq> [] \<and> parse (access_toString dump ai) = Some (access_doc dump ai)"

lemmas access_defs = const_member_def nl_const_at_def nl_defs access_doc_def csv_doc_def sqlite_doc_def mysql_doc_def image_doc_def

lemma access_text:
  assumes "readable_text parse dump ai" "all_columns (ai_kind ai)" "kind_name k = kind_name (ai_kind ai)"
  shows "ParseFromMetaInfoImpl trunc parse exists (access_toString dump ai) k = Inr (ai_kind ai)"
proof (cases "ai_kind ai")
  case (CSVAccess path)
  with assms(3) obtain p where "k = CSVAccess p" by (cases k) (auto simp: kind_name_def)
  with CSVAccess assms(1) show ?thesis
    by (simp add: readable_text_def meta_info_defs access_defs)
next
  case (SQLiteAccess path tbl)
  with assms(3) obtain p q where "k = SQLiteAccess p q" by (cases k) (auto simp: kind_name_def)
  with SQLiteAccess assms(1) show ?thesis
    by (simp add: readable_text_def meta_info_defs access_defs sqlite_ParseFromJsonImpl_def)
next
  case (MySQLAccess my)
  with assms(3) obtain p where "k = MySQLAccess p" by (cases k) (auto simp: kind_name_def)
  with MySQLAccess assms(1,2) show ?thesis
    by (simp add: readable_text_def meta_info_defs access_defs mysql_ParseFromJsonImpl_def all_columns_def)
next
  case (ImageAccess dir ann)
  with assms(3) obtain p q where "k = ImageAccess p q" by (cases k) (auto simp: kind_name_def)
  with ImageAccess assms(1) show ?thesis
    by (simp add: readable_text_def meta_info_defs access_defs image_ParseFromJsonImpl_def)
qed

lemma createAccessInfo_text_kind:
  assumes "readable_text parse dump ai" "all_columns (ai_kind ai)"
    and "dmi_access_info m = access_toString dump ai" "strToUpper ty = kind_name (ai_kind ai)" "kind_name (ai_kind ai) = ''MYSQL'' \<Longrightarrow> mysql"
  shows "createAccessInfo mysql trunc parse exists ty m =
    Inr \<lparr>ai_schema = dmi_schema m, ai_arrow_schema = (if dmi_schema m = [] then None else Some (FromFields (dmi_schema m))),
         ai_kind = ai_kind ai\<rparr>"
proof -
  obtain k where k: "createAccessInfoInternal mysql ty = Inr \<lparr>ai_schema = [], ai_arrow_schema = None, ai_kind = k\<rparr>"
      "kind_name k = kind_name (ai_kind ai)"
    using assms(4,5) by (cases "ai_kind ai") (auto simp: createAccessInfoInternal_def kind_name_def)
  from access_text [of parse dump ai k trunc "exists", OF assms(1,2) k(2)] show ?thesis
    by (simp add: createAccessInfo_def k(1) FromMetaInfo_def assms(3) MakeArrowSchema_def Let_def fail_raises_def)
qed


text \<open>The kind of a description is the one its type asks for.\<close>

lemma ParseFromMetaInfoImpl_kind: "ParseFromMetaInfoImpl trunc parse exists t k = Inr k' \<Longrightarrow> kind_name k' = kind_name k"
  by (cases k)
    (auto simp: meta_info_defs kind_name_def catch_as_def sqlite_ParseFromJsonImpl_def mysql_ParseFromJsonImpl_def
      image_ParseFromJsonImpl_def bindR_eq_Inr split: if_splits sum.splits failure.splits)

lemma createAccessInfoInternal_kind:
  "createAccessInfoInternal mysql ty = Inr ai \<Longrightarrow>
   kind_name (ai_kind ai) = strToUpper ty \<and> (strToUpper ty = ''MYSQL'' \<longrightarrow> mysql) \<and> ai_schema ai = [] \<and> ai_arrow_schema ai = None"
  by (auto simp: createAccessInfoInternal_def kind_name_def Let_def split: if_splits)

lemma createAccessInfo_kind:
  assumes "createAccessInfo mysql trunc parse exists ty m = Inr ai"
  shows "kind_name (ai_kind ai) = strToUpper ty" "strToUpper ty = ''MYSQL'' \<longrightarrow> mysql"
proof -
  obtain ai0 where i: "createAccessInfoInternal mysql ty = Inr ai0" "fail_raises (FromMetaInfo trunc parse exists m ai0) = Inr ai"
    using assms by (auto simp: createAccessInfo_def bindR_eq_Inr)
  then have "FromMetaInfo trunc parse exists m ai0 = Inr ai" by (auto simp: fail_raises_def split: sum.splits failure.splits)
  then obtain k where "ParseFromMetaInfoImpl trunc parse exists (dmi_access_info m) (ai_kind ai0) = Inr k" "ai_kind ai = k"
    by (auto simp: FromMetaInfo_def Let_def bindR_eq_Inr MakeArrowSchema_def split: if_splits)
  with ParseFromMetaInfoImpl_kind createAccessInfoInternal_kind [OF i(1)]
  show "kind_name (ai_kind ai) = strToUpper ty" "strToUpper ty = ''MYSQL'' \<longrightarrow> mysql" by metis+
qed

lemma getDriver_kind:
  assumes "strToUpper ty = kind_name k" "kind_name k = ''MYSQL'' \<longrightarrow> mysql"
  shows "getDriver mysql ty addr info = Inr \<lparr>dr_type = kind_name k, dr_nodelet = addr, dr_access_info = info\<rparr>"
  using assms by (cases k) (auto simp: getDriver_def kind_name_def)

lemma kind_name_upper [simp]: "strToUpper (kind_name k) = kind_name k"
proof -
  have "strToUpper ''CSV'' = ''CSV''" "strToUpper ''SQLITE'' = ''SQLITE''" "strToUpper ''MYSQL'' = ''MYSQL''" "strToUpper ''IMAGE'' = ''IMAGE''"
    by code_simp+
  then show ?thesis by (cases k) (simp_all add: kind_name_def)
qed

end
