(* ===== verification/Csv_Driver.thy ===== *)
theory Csv_Driver
  imports Data_Access
begin

text \<open>
  The driver for CSV files, \<^verbatim>\<open>data_store/csv/csv_driver.cc\<close>: the title line with its byte order mark, writing a table, guessing the
  schema of a file from its first lines, and the options with which Arrow reads it. Arrow's reader and writer,
  the shell and the permission to write are parameters.
\<close>

section \<open>Files\<close>

record filesys =
  fs_files :: "string std_map"
  fs_dirs :: "string list"

record csv_options =
  co_skip_rows :: int
  co_column_names :: "string list"
  co_include_columns :: "string list"
  co_column_types :: "int std_map"

record 'tab csv_io =
  cl_read :: "csv_options \<Rightarrow> string \<Rightarrow> 'tab option"
  cl_write :: "bool \<Rightarrow> 'tab \<Rightarrow> string option"
  cl_schema :: "'tab \<Rightarrow> schema"
  cl_system :: "string \<Rightarrow> filesys \<Rightarrow> int \<times> filesys"
  cl_writable :: "filesys \<Rightarrow> string \<Rightarrow> bool"

text \<open>The position of the last slash; a path that starts with its only slash has no directory to make.\<close>

fun find_last_of :: "string \<Rightarrow> char \<Rightarrow> nat option" where
  "find_last_of [] c = None"
| "find_last_of (x # xs) c =
     (case find_last_of xs c of Some i \<Rightarrow> Some (Suc i) | None \<Rightarrow> if x = c then Some 0 else None)"

definition path_exists :: "filesys \<Rightarrow> string \<Rightarrow> bool" where
  "path_exists fs path \<longleftrightarrow> path \<in> set (fs_dirs fs) \<or> map_of (fs_files fs) path \<noteq> None"

definition ValidateDir :: "'tab csv_io \<Rightarrow> string \<Rightarrow> filesys \<Rightarrow> int \<times> filesys" where
  "ValidateDir L file_path fs =
     (if file_path = [] then (- 1, fs)
      else case find_last_of file_path (CHR ''/'') of
             None \<Rightarrow> (0, fs)
           | Some pos \<Rightarrow>
               if pos = 0 then (0, fs)
               else let path = take pos file_path in
                    if path_exists fs path then (0, fs)
                    else let (ret, fs') = cl_system L (''mkdir -p '' @ path) fs in (if ret \<noteq> 0 then - 1 else 0, fs'))"

definition write_file :: "string \<Rightarrow> string \<Rightarrow> filesys \<Rightarrow> filesys" where
  "write_file path content fs = fs\<lparr>fs_files := map_assign path content (fs_files fs)\<rparr>"

section \<open>The byte order mark\<close>

definition kBOM :: string where
  "kBOM = [CHR 0xEF, CHR 0xBB, CHR 0xBF]"

fun bom_loop :: "string \<Rightarrow> string \<Rightarrow> string \<Rightarrow> string res" where
  "bom_loop [] data origin_data = Inr data"
| "bom_loop (b # bs) [] origin_data =
     (if origin_data = [] then Inr [] else Inl (Raised ''UTF8 string too short (truncated byte order mark?)''))"
| "bom_loop (b # bs) (c # cs) origin_data = (if c \<noteq> b then Inr origin_data else bom_loop bs cs origin_data)"

definition SkipUTF8BOM :: "string \<Rightarrow> string res" where
  "SkipUTF8BOM origin_data = (if origin_data = [] then Inr [] else bom_loop kBOM origin_data origin_data)"

section \<open>Writing\<close>

text \<open>The last comma of the title becomes the end of the line. A file that cannot be opened goes unnoticed here.\<close>

definition title_text :: "string list \<Rightarrow> string" where
  "title_text col_name =
     (let header_str = kBOM @ concat (map (\<lambda>item. item @ '','') col_name) in
      header_str[length header_str - 1 := CHR 0x0A])"

definition WriteHeader :: "'tab csv_io \<Rightarrow> string list \<Rightarrow> string \<Rightarrow> filesys \<Rightarrow> retcode \<times> filesys" where
  "WriteHeader L col_name file_path fs =
     (let (ret, fs1) = ValidateDir L file_path fs in
      if ret \<noteq> 0 then (FAIL, fs1)
      else if col_name = [] then (SUCCESS, fs1)
      else (SUCCESS, if cl_writable L fs1 file_path then write_file file_path (title_text col_name) fs1 else fs1))"

definition WriteContent ::
  "'tab csv_io \<Rightarrow> 'tab \<Rightarrow> string \<Rightarrow> bool \<Rightarrow> bool \<Rightarrow> filesys \<Rightarrow> (retcode \<times> filesys) res" where
  "WriteContent L table file_path include_header append_flag fs =
     (let (ret, fs1) = ValidateDir L file_path fs in
      if ret \<noteq> 0 then Inr (FAIL, fs1)
      else if \<not> cl_writable L fs1 file_path then Inl (Raised (''Open file '' @ file_path @ '' failed. ''))
      else let old = (if append_flag then (case map_of (fs_files fs1) file_path of Some t \<Rightarrow> t | None \<Rightarrow> []) else []) in
           case cl_write L include_header table of
             None \<Rightarrow> Inl (Raised ''Write content to csv file failed. '')
           | Some content \<Rightarrow> Inr (SUCCESS, write_file file_path (old @ content) fs1))"

definition WriteImpl :: "'tab csv_io \<Rightarrow> string list \<Rightarrow> 'tab \<Rightarrow> string \<Rightarrow> filesys \<Rightarrow> (retcode \<times> filesys) res" where
  "WriteImpl L fields_name table file_path fs =
     (case WriteHeader L fields_name file_path fs of
        (FAIL, fs1) \<Rightarrow> Inr (FAIL, fs1)
      | (_, fs1) \<Rightarrow> WriteContent L table file_path False True fs1)"

text \<open>\<^verbatim>\<open>CSVDriver::write\<close> and \<^verbatim>\<open>CSVCursor::write\<close>: the title has the names of the table's own schema.\<close>

definition csv_write :: "'tab csv_io \<Rightarrow> 'tab \<Rightarrow> string \<Rightarrow> filesys \<Rightarrow> (int \<times> filesys) res" where
  "csv_write L table file_path fs =
     bindR (WriteImpl L (map fst (cl_schema L table)) table file_path fs) (\<lambda>(ret, fs').
       Inr (if ret = SUCCESS then 0 else - 1, fs'))"

section \<open>Reading\<close>

definition read_text :: "'tab csv_io \<Rightarrow> csv_options \<Rightarrow> string \<Rightarrow> 'tab res" where
  "read_text L opt input =
     (case cl_read L opt input of Some table \<Rightarrow> Inr table | None \<Rightarrow> Inl (Raised ''read data failed, ''))"

definition ReadCSVData :: "'tab csv_io \<Rightarrow> string \<Rightarrow> csv_options \<Rightarrow> 'tab res" where
  "ReadCSVData L data_buff opt = read_text L opt data_buff"

definition ReadCSVFile :: "'tab csv_io \<Rightarrow> filesys \<Rightarrow> string \<Rightarrow> csv_options \<Rightarrow> 'tab res" where
  "ReadCSVFile L fs file_path opt =
     (case map_of (fs_files fs) file_path of
        None \<Rightarrow> Inl (Raised (''Failed to open file: '' @ file_path))
      | Some input \<Rightarrow> read_text L opt input)"

text \<open>\<^verbatim>\<open>std::getline\<close> on what is left of a stream; \<open>None\<close> is the stream at its end.\<close>

definition std_getline :: "string \<Rightarrow> string \<times> string option" where
  "std_getline left =
     (takeWhile (\<lambda>c. c \<noteq> CHR 0x0A) left,
      case dropWhile (\<lambda>c. c \<noteq> CHR 0x0A) left of [] \<Rightarrow> None | _ # rest \<Rightarrow> Some rest)"

fun raw_loop :: "nat \<Rightarrow> string option \<Rightarrow> string \<Rightarrow> string" where
  "raw_loop 0 csv_data content_buf = content_buf"
| "raw_loop (Suc n) None content_buf = content_buf"
| "raw_loop (Suc n) (Some left) content_buf =
     (let (tmp_buf, csv_data) = std_getline left in
      raw_loop n csv_data (if tmp_buf = [] then content_buf else content_buf @ tmp_buf @ [CHR 0x0A]))"

definition ReadRawData :: "filesys \<Rightarrow> string \<Rightarrow> nat \<Rightarrow> string res" where
  "ReadRawData fs file_path line_number =
     (case map_of (fs_files fs) file_path of
        None \<Rightarrow> Inl (Raised (''open csv file: '' @ file_path @ '' failed''))
      | Some content \<Rightarrow> Inr (raw_loop line_number (Some content) []))"

text \<open>Only the first end of line and the first carriage return of the last name are removed.\<close>

definition trim_quotes :: "string \<Rightarrow> string" where
  "trim_quotes s = rev (dropWhile (\<lambda>ch. ch = CHR 0x22) (rev (dropWhile (\<lambda>ch. ch = CHR 0x22) s)))"

definition clean_names :: "string list \<Rightarrow> string list res" where
  "clean_names colum_names =
     (if colum_names = [] then Inr []
      else let l = length colum_names - 1;
               names1 = colum_names[l := remove1 (CHR 0x0D) (remove1 (CHR 0x0A) (colum_names ! l))] in
           bindR (SkipUTF8BOM (names1 ! 0)) (\<lambda>first_item. Inr (map trim_quotes (names1[0 := first_item]))))"

text \<open>\<open>None\<close> is the return code \<^verbatim>\<open>FAIL\<close>.\<close>

definition GetColumnNames :: "filesys \<Rightarrow> DataSetAccessInfo option \<Rightarrow> char \<Rightarrow> string list option res" where
  "GetColumnNames fs access_info delimiter =
     (case map_option ai_kind access_info of
        Some (CSVAccess file_path) \<Rightarrow>
          bindR (ReadRawData fs file_path 1) (\<lambda>tile_row.
            if tile_row = [] then Inr None
            else bindR (clean_names (str_split tile_row delimiter)) (\<lambda>names. Inr (Some names)))
      | _ \<Rightarrow> Inr None)"

section \<open>Options\<close>

definition default_options :: csv_options where
  "default_options = \<lparr>co_skip_rows = 0, co_column_names = [], co_include_columns = [], co_column_types = []\<rparr>"

definition add_field :: "string \<times> int \<Rightarrow> csv_options \<Rightarrow> csv_options" where
  "add_field field opt =
     opt\<lparr>co_include_columns := co_include_columns opt @ [fst field],
         co_column_types := map_assign (fst field) (snd field) (co_column_types opt)\<rparr>"

text \<open>An index is only compared with the number of fields from above.\<close>

fun add_selected :: "schema \<Rightarrow> int list \<Rightarrow> csv_options \<Rightarrow> csv_options res" where
  "add_selected arrow_schema [] opt = Inr opt"
| "add_selected arrow_schema (index # rest) opt =
     (if index < int (length arrow_schema) then
        if index < 0 then Inl (Undefined ''field index'')
        else add_selected arrow_schema rest (add_field (arrow_schema ! nat index) opt)
      else Inl (Raised ''index is out of range, index: ''))"

definition deref_schema :: "DataSetAccessInfo \<Rightarrow> schema res" where
  "deref_schema ai = (case ai_arrow_schema ai of Some s \<Rightarrow> Inr s | None \<Rightarrow> Inl (Undefined ''null schema''))"

definition BuildConvertOptions :: "DataSetAccessInfo \<Rightarrow> int list \<Rightarrow> csv_options \<Rightarrow> csv_options res" where
  "BuildConvertOptions ai selected_index opt =
     (if ai_schema ai = [] then Inl (Raised ''no schema is set for dataset'')
      else bindR (deref_schema ai) (\<lambda>arrow_schema.
        if selected_index \<noteq> [] then add_selected arrow_schema selected_index opt
        else Inr (fold add_field arrow_schema opt)))"

definition BuildConvertOptions_schema :: "schema \<Rightarrow> csv_options \<Rightarrow> csv_options" where
  "BuildConvertOptions_schema data_schema opt = fold add_field data_schema opt"

definition MakeCsvOptions :: "DataSetAccessInfo \<Rightarrow> int list \<Rightarrow> schema option \<Rightarrow> csv_options res" where
  "MakeCsvOptions ai selected_index data_schema =
     bindR (deref_schema ai) (\<lambda>arrow_schema.
       let opt = default_options\<lparr>co_skip_rows := 1, co_column_names := map fst arrow_schema\<rparr> in
       case data_schema of
         None \<Rightarrow> BuildConvertOptions ai selected_index opt
       | Some s \<Rightarrow> Inr (BuildConvertOptions_schema s opt))"

fun index_names :: "schema \<Rightarrow> int list \<Rightarrow> string list \<Rightarrow> string list res" where
  "index_names arrow_schema [] column_name = Inr column_name"
| "index_names arrow_schema (index # rest) column_name =
     (if index < int (length arrow_schema) then
        if index < 0 then Inl (Undefined ''field index'')
        else index_names arrow_schema rest (column_name @ [fst (arrow_schema ! nat index)])
      else Inl (Raised ''index is invalid''))"

definition ColumnIndexToColumnName :: "DataSetAccessInfo \<Rightarrow> int list \<Rightarrow> string list res" where
  "ColumnIndexToColumnName ai column_index = bindR (deref_schema ai) (\<lambda>arrow_schema. index_names arrow_schema column_index [])"

section \<open>Cursor and driver\<close>

record csv_cursor =
  cc_file_path :: string
  cc_selected :: "int list"

record csv_driver =
  cd_access_info :: "DataSetAccessInfo option"
  cd_filePath :: string

text \<open>The access information a cursor finds in its driver; a driver without one cannot be read.\<close>

definition cursor_info :: "csv_driver \<Rightarrow> DataSetAccessInfo res" where
  "cursor_info d = (case cd_access_info d of Some ai \<Rightarrow> Inr ai | None \<Rightarrow> Inl (Undefined ''null access info''))"

definition csv_readMeta :: "'tab csv_io \<Rightarrow> filesys \<Rightarrow> csv_driver \<Rightarrow> csv_cursor \<Rightarrow> 'tab res" where
  "csv_readMeta L fs d c =
     bindR (cursor_info d) (\<lambda>ai. bindR (MakeCsvOptions ai (cc_selected c) None) (\<lambda>opt.
     bindR (ReadRawData fs (cc_file_path c) 100) (\<lambda>content_buf. ReadCSVData L content_buf opt)))"

definition csv_cursor_read :: "'tab csv_io \<Rightarrow> filesys \<Rightarrow> csv_driver \<Rightarrow> csv_cursor \<Rightarrow> schema option \<Rightarrow> 'tab res" where
  "csv_cursor_read L fs d c data_schema =
     bindR (cursor_info d) (\<lambda>ai. bindR (MakeCsvOptions ai (cc_selected c) data_schema) (\<lambda>opt.
       ReadCSVFile L fs (cc_file_path c) opt))"

definition initCursor :: "string \<Rightarrow> csv_driver \<Rightarrow> csv_cursor \<times> csv_driver" where
  "initCursor filePath d = (\<lparr>cc_file_path = filePath, cc_selected = []\<rparr>, d\<lparr>cd_filePath := filePath\<rparr>)"

text \<open>\<^verbatim>\<open>CSVDriver::read\<close>: a schema that is not known is guessed from the first hundred lines.\<close>

definition csv_driver_read :: "'tab csv_io \<Rightarrow> filesys \<Rightarrow> csv_driver \<Rightarrow> (csv_cursor option \<times> csv_driver) res" where
  "csv_driver_read L fs d =
     (case cd_access_info d of
        Some ai \<Rightarrow>
          (case ai_kind ai of
             CSVAccess file_path \<Rightarrow>
               if ai_schema ai = [] then
                 bindR (GetColumnNames fs (Some ai) (CHR '','')) (\<lambda>names.
                 case names of
                   None \<Rightarrow> Inr (None, d)
                 | Some column_names \<Rightarrow>
                     bindR (ReadRawData fs file_path 100) (\<lambda>content_buf.
                     bindR (ReadCSVData L content_buf (default_options\<lparr>co_skip_rows := 1, co_column_names := column_names\<rparr>)) (\<lambda>arrow_data.
                       let (c, d') = initCursor file_path (d\<lparr>cd_access_info := Some (SetDatasetSchema (cl_schema L arrow_data) ai)\<rparr>) in
                       Inr (Some c, d'))))
               else let (c, d') = initCursor file_path d in Inr (Some c, d')
           | _ \<Rightarrow> Inl (Raised ''file access info is unavailable''))
      | None \<Rightarrow> Inl (Raised ''file access info is unavailable''))"

definition csv_GetCursor :: "int list \<Rightarrow> csv_driver \<Rightarrow> (csv_cursor \<times> csv_driver) res" where
  "csv_GetCursor col_index d =
     (case map_option ai_kind (cd_access_info d) of
        Some (CSVAccess file_path) \<Rightarrow>
          Inr (\<lparr>cc_file_path = file_path, cc_selected = col_index\<rparr>, d\<lparr>cd_filePath := file_path\<rparr>)
      | _ \<Rightarrow> Inl (Raised ''file access info is unavailable''))"

text \<open>The cursor for images reads the file with the annotations; what goes wrong gives the null dataset.\<close>

definition image_cursor_read :: "'tab csv_io \<Rightarrow> filesys \<Rightarrow> DataSetAccessInfo option \<Rightarrow> 'tab option res" where
  "image_cursor_read L fs access_info =
     (case map_option ai_kind access_info of
        Some (ImageAccess _ annotations_file) \<Rightarrow>
          (case map_of (fs_files fs) annotations_file of
             None \<Rightarrow> Inr None
           | Some input \<Rightarrow> Inr (cl_read L default_options input))
      | _ \<Rightarrow> Inl (Undefined ''null access info''))"

section \<open>Lines and titles\<close>

text \<open>The loop over the lines against a reference: the first lines of the text, those without a character left out.\<close>

lemma raw_loop_lines:
  "raw_loop n (Some str) acc =
     acc @ concat (map (\<lambda>l. l @ [CHR 0x0A]) (filter (\<lambda>l. l \<noteq> []) (take n (str_split str (CHR 0x0A)))))"
proof (induction n arbitrary: str acc)
  case (Suc n)
  show ?case
  proof (cases "dropWhile (\<lambda>c. c \<noteq> CHR 0x0A) str")
    case Nil
    have "std_getline str = (takeWhile (\<lambda>c. c \<noteq> CHR 0x0A) str, None)" by (simp only: std_getline_def Nil list.case)
    moreover have "str_split str (CHR 0x0A) = [takeWhile (\<lambda>c. c \<noteq> CHR 0x0A) str]"
      by (subst str_split.simps) (simp only: Nil list.case Let_def)
    ultimately show ?thesis by (cases n) simp_all
  next
    case (Cons x rest)
    have "std_getline str = (takeWhile (\<lambda>c. c \<noteq> CHR 0x0A) str, Some rest)" by (simp only: std_getline_def Cons list.case)
    moreover have "str_split str (CHR 0x0A) = takeWhile (\<lambda>c. c \<noteq> CHR 0x0A) str # str_split rest (CHR 0x0A)"
      by (subst str_split.simps) (simp only: Cons list.case Let_def)
    ultimately show ?thesis by (simp add: Suc)
  qed
qed simp

lemma first_line:
  assumes "CHR 0x0A \<notin> set t" "t \<noteq> []"
  shows "raw_loop 1 (Some (t @ CHR 0x0A # content)) [] = t @ [CHR 0x0A]"
proof -
  have "takeWhile (\<lambda>c. c \<noteq> CHR 0x0A) (t @ CHR 0x0A # content) = t" using assms(1) by (induction t) auto
  with assms(2) show ?thesis by (simp add: raw_loop_lines str_split.simps [of "t @ CHR 0x0A # content"] split: list.split)
qed

lemma SkipUTF8BOM_mark [simp]: "SkipUTF8BOM (kBOM @ s) = Inr s"
  by (simp add: SkipUTF8BOM_def kBOM_def)

lemma join_prefix: "names \<noteq> [] \<Longrightarrow> p @ join sep names = join sep (names[0 := p @ names ! 0])"
  by (cases names; cases "tl names") auto

lemma join_suffix: "names \<noteq> [] \<Longrightarrow> join sep names @ q = join sep (butlast names @ [last names @ q])"
proof (induction names)
  case (Cons n names)
  then show ?case by (cases names; cases "butlast names") (auto split: if_splits)
qed simp

lemma join_titles:
  assumes "col_name \<noteq> []"
  shows "title_text col_name = kBOM @ join '','' col_name @ [CHR 0x0A]"
proof -
  have "concat (map (\<lambda>item. item @ '','') col_name) = join '','' col_name @ '',''"
    using assms by (induction col_name rule: induct_list012) auto
  moreover have "(xs @ [c])[length (xs @ [c]) - 1 := d] = xs @ [d]" for xs :: string and c d by simp
  from this [of "kBOM @ join '','' col_name" "CHR '',''" "CHR 0x0A"]
  have "(kBOM @ join '','' col_name @ '','')[length (kBOM @ join '','' col_name @ '','') - 1 := CHR 0x0A] =
      kBOM @ join '','' col_name @ [CHR 0x0A]" by simp
  ultimately show ?thesis by (simp only: title_text_def Let_def)
qed

text \<open>Names that a title line can carry.\<close>

definition title_name :: "string \<Rightarrow> bool" where
  "title_name n \<longleftrightarrow> CHR '','' \<notin> set n \<and> CHR 0x0A \<notin> set n \<and> CHR 0x0D \<notin> set n \<and>
     (n = [] \<or> hd n \<noteq> CHR 0x22 \<and> last n \<noteq> CHR 0x22)"

lemma trim_quotes_id: "title_name n \<Longrightarrow> trim_quotes n = n"
proof (cases n rule: rev_cases)
  case (snoc m c)
  moreover assume "title_name n"
  ultimately show ?thesis by (cases m) (auto simp: trim_quotes_def title_name_def)
qed (simp add: trim_quotes_def)

lemma update_last: "xs \<noteq> [] \<Longrightarrow> (butlast xs @ [y])[length xs - 1 := last xs] = xs"
  by (cases xs rule: rev_cases) simp_all

lemma title_split:
  assumes "names \<noteq> []" "\<forall>n \<in> set names. title_name n"
  shows "clean_names (str_split (kBOM @ join '','' names @ [CHR 0x0A]) (CHR '','')) = Inr names"
proof -
  let ?ws = "names[0 := kBOM @ names ! 0]"
  let ?xs = "butlast ?ws @ [last ?ws @ [CHR 0x0A]]"
  have ws: "?ws \<noteq> []" "\<forall>w \<in> set ?ws. CHR '','' \<notin> set w \<and> CHR 0x0A \<notin> set w \<and> CHR 0x0D \<notin> set w"
    using assms by (auto simp: title_name_def kBOM_def dest!: set_update_subset_insert [THEN subsetD])
  have j: "kBOM @ join '','' names @ [CHR 0x0A] = join '','' ?xs"
    using join_prefix [OF assms(1), of kBOM "'',''"] join_suffix [OF ws(1), of "'',''" "[CHR 0x0A]"]
    by (simp only: flip: append_assoc)
  have x: "\<forall>w \<in> set ?xs. CHR '','' \<notin> set w"
    using ws by (auto dest: in_set_butlastD last_in_set)
  have split: "str_split (kBOM @ join '','' names @ [CHR 0x0A]) (CHR '','') = ?xs"
    unfolding j using x by (intro str_split_join) auto
  have l: "CHR 0x0A \<notin> set (last ?ws)" "CHR 0x0D \<notin> set (last ?ws)" using ws last_in_set by blast+
  have "remove1 (CHR 0x0D) (remove1 (CHR 0x0A) (last ?ws @ [CHR 0x0A])) = last ?ws"
    using l by (simp add: remove1_append remove1_idem)
  then have "?xs[length ?xs - 1 := remove1 (CHR 0x0D) (remove1 (CHR 0x0A) (?xs ! (length ?xs - 1)))] = ?ws"
    using ws(1) update_last [OF ws(1), of "last ?ws @ [CHR 0x0A]"] by (simp add: nth_append)
  moreover have "?ws ! 0 = kBOM @ names ! 0" using assms(1) by simp
  moreover have "map trim_quotes names = names" using assms(2) by (simp add: map_idI trim_quotes_id)
  ultimately show ?thesis unfolding split by (simp add: clean_names_def Let_def)
qed

section \<open>Options\<close>

lemma add_selected_fold:
  "\<forall>i \<in> set idx. 0 \<le> i \<and> i < int (length s) \<Longrightarrow>
   add_selected s idx opt = Inr (fold add_field (map (\<lambda>i. s ! nat i) idx) opt)"
  by (induction idx arbitrary: opt) auto

lemma fold_add_field:
  "co_include_columns (fold add_field fs opt) = co_include_columns opt @ map fst fs"
  "map_of (co_column_types (fold add_field fs opt)) = map_of (co_column_types opt) ++ map_of (rev fs)"
  "co_skip_rows (fold add_field fs opt) = co_skip_rows opt"
  "co_column_names (fold add_field fs opt) = co_column_names opt"
proof (induction fs arbitrary: opt)
  case (Cons f fs)
  have "map_of (map_assign (fst f) (snd f) m) = map_of m ++ [fst f \<mapsto> snd f]" for m :: "int std_map"
    by (rule ext) (simp add: map_add_def)
  moreover case 2
  ultimately show ?case using Cons(2) [of "add_field f opt"]
    by (cases f) (simp add: add_field_def fun_upd_def)
qed (simp_all add: add_field_def)

text \<open>
  A cursor for some columns of a driver whose schema has not been read: reading dereferences the null schema.
\<close>

lemma cursor_without_schema:
  assumes "cd_access_info d = Some ai" "ai_kind ai = CSVAccess path" "ai_arrow_schema ai = None"
  shows "csv_GetCursor idx d = Inr (\<lparr>cc_file_path = path, cc_selected = idx\<rparr>, d\<lparr>cd_filePath := path\<rparr>)"
    "csv_cursor_read L fs (d\<lparr>cd_filePath := path\<rparr>) c data_schema = Inl (Undefined ''null schema'')"
    "csv_readMeta L fs (d\<lparr>cd_filePath := path\<rparr>) c = Inl (Undefined ''null schema'')"
  using assms by (simp_all add: csv_GetCursor_def csv_cursor_read_def csv_readMeta_def cursor_info_def MakeCsvOptions_def deref_schema_def)

section \<open>Writing with a working shell\<close>

text \<open>A shell that makes the directory of a path when told to, and a path that can be opened for writing.\<close>

definition working_shell :: "'tab csv_io \<Rightarrow> string \<Rightarrow> bool" where
  "working_shell L file_path \<longleftrightarrow>
     (\<forall>pos fs. find_last_of file_path (CHR ''/'') = Some pos \<longrightarrow>
        cl_system L (''mkdir -p '' @ take pos file_path) fs = (0, fs\<lparr>fs_dirs := take pos file_path # fs_dirs fs\<rparr>)) \<and>
     (\<forall>fs. cl_writable L fs file_path)"

lemma ValidateDir_works:
  assumes "working_shell L path" "path \<noteq> []"
  obtains dirs where "ValidateDir L path fs = (0, fs\<lparr>fs_dirs := dirs\<rparr>)"
    "\<And>fs'. fs_dirs fs' = dirs \<Longrightarrow> fs_files fs' = map_assign path t (fs_files fs) \<Longrightarrow> ValidateDir L path fs' = (0, fs')"
proof (cases "find_last_of path (CHR ''/'')")
  case None
  then show thesis using assms(2) by (intro that [of "fs_dirs fs"]) (simp_all add: ValidateDir_def)
next
  case (Some pos)
  let ?dir = "take pos path"
  have sys: "cl_system L (''mkdir -p '' @ ?dir) fs = (0, fs\<lparr>fs_dirs := ?dir # fs_dirs fs\<rparr>)"
    using assms(1) Some by (simp add: working_shell_def)
  consider "pos = 0" | "pos \<noteq> 0" "path_exists fs ?dir" | "pos \<noteq> 0" "\<not> path_exists fs ?dir" by blast
  then show thesis
  proof cases
    case 1
    then show ?thesis using Some assms(2) by (intro that [of "fs_dirs fs"]) (simp_all add: ValidateDir_def)
  next
    case 2
    then show ?thesis using Some assms(2)
      by (intro that [of "fs_dirs fs"]) (auto simp: ValidateDir_def path_exists_def Let_def)
  next
    case 3
    then show ?thesis using Some assms(2) sys
      by (intro that [of "?dir # fs_dirs fs"]) (simp_all add: ValidateDir_def path_exists_def Let_def)
  qed
qed

lemma written_file:
  assumes "working_shell L path" "path \<noteq> []" "names \<noteq> []" "cl_write L False table = Some body"
  shows "\<exists>fs'. WriteImpl L names table path fs = Inr (SUCCESS, fs') \<and>
    map_of (fs_files fs') path = Some (title_text names @ body) \<and>
    (\<forall>other. other \<noteq> path \<longrightarrow> map_of (fs_files fs') other = map_of (fs_files fs) other)"
proof -
  obtain dirs where v: "ValidateDir L path fs = (0, fs\<lparr>fs_dirs := dirs\<rparr>)"
    "\<And>fs'. fs_dirs fs' = dirs \<Longrightarrow> fs_files fs' = map_assign path (title_text names) (fs_files fs) \<Longrightarrow> ValidateDir L path fs' = (0, fs')"
    using ValidateDir_works [OF assms(1,2)] by blast
  have w: "cl_writable L fs' path" for fs' using assms(1) by (simp add: working_shell_def)
  let ?fs1 = "write_file path (title_text names) (fs\<lparr>fs_dirs := dirs\<rparr>)"
  have "ValidateDir L path ?fs1 = (0, ?fs1)" by (intro v(2)) (simp_all add: write_file_def)
  then show ?thesis using v(1) w assms(3,4) by (simp add: WriteImpl_def WriteHeader_def WriteContent_def write_file_def)
qed

section \<open>Properties\<close>

text \<open>
  C29. What the driver writes it can read back. Let the shell make the directories it is asked for, the
  path be open for writing and Arrow print the table. For a list of names, not empty, without commas, ends of lines,
  carriage returns and quotation marks at their ends, \<^verbatim>\<open>Write\<close> succeeds; the file then holds the byte order mark,
  the names and the rows, no other file has changed, and \<^verbatim>\<open>GetColumnNames\<close>, which the driver uses to
  guess a schema, gives exactly these names.
\<close>

theorem csv_title_round_trip:
  assumes "working_shell L path" "path \<noteq> []" "names \<noteq> []" "\<forall>n \<in> set names. title_name n"
    and "cl_write L False table = Some body" "ai_kind ai = CSVAccess path"
  shows "\<exists>fs'. WriteImpl L names table path fs = Inr (SUCCESS, fs') \<and>
    map_of (fs_files fs') path = Some (kBOM @ join '','' names @ [CHR 0x0A] @ body) \<and>
    (\<forall>other. other \<noteq> path \<longrightarrow> map_of (fs_files fs') other = map_of (fs_files fs) other) \<and>
    GetColumnNames fs' (Some ai) (CHR '','') = Inr (Some names)"
proof -
  obtain fs' where w: "WriteImpl L names table path fs = Inr (SUCCESS, fs')"
    "map_of (fs_files fs') path = Some (kBOM @ join '','' names @ [CHR 0x0A] @ body)"
    "\<forall>other. other \<noteq> path \<longrightarrow> map_of (fs_files fs') other = map_of (fs_files fs) other"
    using written_file [OF assms(1-3,5), of fs] assms(3) by (auto simp: join_titles)
  let ?t = "kBOM @ join '','' names"
  have "CHR 0x0A \<notin> set (join '','' names)"
    using assms(4) by (induction names rule: induct_list012) (auto simp: title_name_def)
  then have "raw_loop 1 (Some (?t @ CHR 0x0A # body)) [] = ?t @ [CHR 0x0A]"
    by (intro first_line) (simp_all add: kBOM_def)
  then have "ReadRawData fs' path 1 = Inr (?t @ [CHR 0x0A])" by (simp add: ReadRawData_def w(2))
  with title_split [OF assms(3,4)] have "GetColumnNames fs' (Some ai) (CHR '','') = Inr (Some names)"
    by (simp add: GetColumnNames_def assms(6))
  with w show ?thesis by blast
qed

definition plain_shell :: "unit csv_io" where
  "plain_shell = \<lparr>cl_read = (\<lambda>_ _. None), cl_write = (\<lambda>_ _. Some ''1,2''), cl_schema = (\<lambda>_. []),
     cl_system = (\<lambda>cmd fs. (0, fs\<lparr>fs_dirs := drop 9 cmd # fs_dirs fs\<rparr>)), cl_writable = (\<lambda>_ _. True)\<rparr>"

theorem csv_title_round_trip_witness:
  "\<exists>fs'. WriteImpl plain_shell [''id'', ''x y''] () ''out/a.csv'' \<lparr>fs_files = [(''b'', ''t'')], fs_dirs = []\<rparr> = Inr (SUCCESS, fs') \<and>
    map_of (fs_files fs') ''out/a.csv'' = Some (kBOM @ join '','' [''id'', ''x y''] @ [CHR 0x0A] @ ''1,2'') \<and>
    (\<forall>other. other \<noteq> ''out/a.csv'' \<longrightarrow> map_of (fs_files fs') other = map_of [(''b'', ''t'')] other) \<and>
    GetColumnNames fs' (Some \<lparr>ai_schema = [], ai_arrow_schema = None, ai_kind = CSVAccess ''out/a.csv''\<rparr>) (CHR '','') =
      Inr (Some [''id'', ''x y''])"
  using csv_title_round_trip [of plain_shell "''out/a.csv''" "[''id'', ''x y'']" "()" "''1,2''"
      "\<lparr>ai_schema = [], ai_arrow_schema = None, ai_kind = CSVAccess ''out/a.csv''\<rparr>" "\<lparr>fs_files = [(''b'', ''t'')], fs_dirs = []\<rparr>"]
  by (simp add: plain_shell_def working_shell_def title_name_def)

text \<open>
  A schema that is not known is guessed once and then used for the whole file. When the title line
  gives names and Arrow can read the first hundred lines under these names, \<^verbatim>\<open>CSVDriver::read\<close> returns a cursor and
  stores the types Arrow found, rebuilt from their ids. From then on a cursor for the columns of a list of indexes
  (all columns for the empty list) makes Arrow read the whole file, the first line skipped, asks for exactly these
  columns in this order, and gives each the type of the schema, the last one for a name that occurs twice.
\<close>

theorem csv_schema_guessed:
  assumes "cd_access_info d = Some ai" "ai_kind ai = CSVAccess path" "ai_schema ai = []"
    and "map_of (fs_files fs) path = Some content" "GetColumnNames fs (Some ai) (CHR '','') = Inr (Some names)"
    and "cl_read L (default_options\<lparr>co_skip_rows := 1, co_column_names := names\<rparr>) (raw_loop 100 (Some content) []) = Some t"
    and "cl_schema L t \<noteq> []" "\<forall>i \<in> set idx. 0 \<le> i \<and> i < int (length (cl_schema L t))"
  shows "\<exists>d' opt. csv_driver_read L fs d = Inr (Some \<lparr>cc_file_path = path, cc_selected = []\<rparr>, d') \<and>
    csv_cursor_read L fs d' \<lparr>cc_file_path = path, cc_selected = idx\<rparr> None = read_text L opt content \<and>
    co_skip_rows opt = 1 \<and> co_column_names opt = map fst (cl_schema L t) \<and>
    (let s = FromFields (cl_schema L t); sel = (if idx = [] then s else map (\<lambda>i. s ! nat i) idx) in
     co_include_columns opt = map fst sel \<and> map_of (co_column_types opt) = map_of (rev sel))"
proof -
  let ?s = "FromFields (cl_schema L t)"
  let ?sel = "if idx = [] then ?s else map (\<lambda>i. ?s ! nat i) idx"
  let ?d' = "d\<lparr>cd_access_info := Some (SetDatasetSchema (cl_schema L t) ai), cd_filePath := path\<rparr>"
  let ?opt = "fold add_field ?sel (default_options\<lparr>co_skip_rows := 1, co_column_names := map fst ?s\<rparr>)"
  have n: "map fst ?s = map fst (cl_schema L t)" by (simp add: FromFields_def case_prod_beta)
  have "csv_driver_read L fs d = Inr (Some \<lparr>cc_file_path = path, cc_selected = []\<rparr>, ?d')"
    using assms(1-6)
    by (simp add: csv_driver_read_def ReadRawData_def ReadCSVData_def read_text_def initCursor_def)
  moreover have "\<forall>i \<in> set idx. 0 \<le> i \<and> i < int (length ?s)" using assms(8) by (simp add: FromFields_def)
  then have "csv_cursor_read L fs ?d' \<lparr>cc_file_path = path, cc_selected = idx\<rparr> None = read_text L ?opt content"
    using assms(3,4,7)
    by (auto simp: csv_cursor_read_def cursor_info_def MakeCsvOptions_def deref_schema_def SetDatasetSchema_def
        MakeArrowSchema_def BuildConvertOptions_def add_selected_fold ReadCSVFile_def)
  ultimately show ?thesis
    using fold_add_field [of ?sel "default_options\<lparr>co_skip_rows := 1, co_column_names := map fst ?s\<rparr>"] n
    by (intro exI [of _ ?d'] exI [of _ ?opt]) (simp add: default_options_def Let_def)
qed

definition one_reader :: "nat csv_io" where
  "one_reader = \<lparr>cl_read = (\<lambda>opt s. Some (length s)), cl_write = (\<lambda>_ _. None), cl_schema = (\<lambda>_. [(''a'', 9), (''b'', 24)]),
     cl_system = (\<lambda>_ fs. (1, fs)), cl_writable = (\<lambda>_ _. False)\<rparr>"

definition ab_info :: DataSetAccessInfo where
  "ab_info = \<lparr>ai_schema = [], ai_arrow_schema = None, ai_kind = CSVAccess ''f''\<rparr>"

definition ab_files :: filesys where
  "ab_files = \<lparr>fs_files = [(''f'', ''a,b'' @ [CHR 0x0A] @ ''1,2'')], fs_dirs = []\<rparr>"

lemma ab_names: "GetColumnNames ab_files (Some ab_info) (CHR '','') = Inr (Some [''a'', ''b''])"
  by code_simp

theorem csv_schema_guessed_witness:
  "\<exists>d' opt. csv_driver_read one_reader ab_files \<lparr>cd_access_info = Some ab_info, cd_filePath = []\<rparr> =
      Inr (Some \<lparr>cc_file_path = ''f'', cc_selected = []\<rparr>, d') \<and>
    csv_cursor_read one_reader ab_files d' \<lparr>cc_file_path = ''f'', cc_selected = [1]\<rparr> None =
      read_text one_reader opt (''a,b'' @ [CHR 0x0A] @ ''1,2'') \<and>
    co_skip_rows opt = 1 \<and> co_column_names opt = [''a'', ''b''] \<and>
    co_include_columns opt = [''b''] \<and> map_of (co_column_types opt) = [''b'' \<mapsto> 23]"
  using csv_schema_guessed [of "\<lparr>cd_access_info = Some ab_info, cd_filePath = []\<rparr>" ab_info "''f''" ab_files
      "''a,b'' @ [CHR 0x0A] @ ''1,2''" "[''a'', ''b'']" one_reader
      "length (raw_loop 100 (Some (''a,b'' @ [CHR 0x0A] @ ''1,2'')) [])" "[1]"] ab_names
  by (simp add: ab_info_def ab_files_def one_reader_def FromFields_def MakeArrowDataType_def)

end
