(* ===== verification/Sql_Drivers.thy ===== *)
theory Sql_Drivers
  imports Data_Access
begin

text \<open>
  The drivers for databases, \<^verbatim>\<open>data_store/sqlite/sqlite_driver.cc\<close> and \<^verbatim>\<open>data_store/mysql/mysql_driver.cc\<close>: reading the schema of a
  table, the texts of the queries, and the conversion of what comes back to Arrow arrays. The databases
  are parameters that answer a query with rows of texts.
\<close>

section \<open>Tables and queries\<close>

text \<open>A table has the fields of its schema and an array for each.\<close>

record ('f, 'd) sql_table =
  at_schema :: schema
  at_arrays :: "('f, 'd) arrow_array list"

definition query_columns :: "string list \<Rightarrow> string" where
  "query_columns names =
     (let sql_str = ''SELECT '' @ concat (map (\<lambda>col_name. ''`'' @ col_name @ ''`,'') names) in
      sql_str[length sql_str - 1 := CHR '' ''])"

section \<open>SQLite\<close>

text \<open>\<open>sq_open\<close>: can the file be opened; \<open>sq_rows\<close>: the rows a query gives, \<open>None\<close> when SQLite refuses it.\<close>

record sqlite_lib =
  sq_open :: "string \<Rightarrow> bool"
  sq_rows :: "string \<Rightarrow> string \<Rightarrow> string list list option"

record sqlite_driver =
  sq_access_info :: "DataSetAccessInfo option"
  sq_connector :: "string option"
  sq_table_schema :: "string std_map"
  sq_table_cols :: "string list"

record sql_cursor =
  sc_sql :: string
  sc_selected :: "int list"

definition new_sqlite_driver :: "DataSetAccessInfo option \<Rightarrow> sqlite_driver" where
  "new_sqlite_driver access_info =
     \<lparr>sq_access_info = access_info, sq_connector = None, sq_table_schema = [], sq_table_cols = []\<rparr>"

definition statement :: "sqlite_lib \<Rightarrow> string \<Rightarrow> string \<Rightarrow> string list list res" where
  "statement S db sql = (case sq_rows S db sql of Some rows \<Rightarrow> Inr rows | None \<Rightarrow> Inl (Raised ''SQLite::Exception''))"

text \<open>\<^verbatim>\<open>GetDBTableSchema\<close>: a row of the answer has the number, the name and the type of a column.\<close>

fun table_rows :: "string list list \<Rightarrow> sqlite_driver \<times> json list \<Rightarrow> (sqlite_driver \<times> json list) res" where
  "table_rows [] (d, js_schema) = Inr (d, js_schema)"
| "table_rows ((cid # column_name # column_type # _) # rest) (d, js_schema) =
     table_rows rest
       (d\<lparr>sq_table_schema := map_assign column_name column_type (sq_table_schema d),
          sq_table_cols := sq_table_cols d @ [column_name]\<rparr>,
        js_schema @ [JObj [(column_name, JInt (SqlType2ArrowType column_type))]])"
| "table_rows (_ # rest) (d, js_schema) = Inl (Raised ''Column index out of range.'')"

definition GetDBTableSchema :: "sqlite_lib \<Rightarrow> (string \<Rightarrow> int) \<Rightarrow> string \<Rightarrow> sqlite_driver \<Rightarrow> (retcode \<times> sqlite_driver) res" where
  "GetDBTableSchema S trunc db d =
     (case sq_access_info d of
        None \<Rightarrow> Inr (FAIL, d)
      | Some ai \<Rightarrow>
          (case ai_kind ai of
             SQLiteAccess _ table_name \<Rightarrow>
               bindR (statement S db (''PRAGMA table_info('' @ table_name @ '')'')) (\<lambda>rows.
               bindR (table_rows rows (d, [])) (\<lambda>(d1, js_schema).
                 Inr (SUCCESS, d1\<lparr>sq_access_info := Some (snd (ParseSchema trunc (JArr js_schema) ai))\<rparr>)))
           | _ \<Rightarrow> Inr (FAIL, d)))"

definition sqlite_buildQuerySQL :: "schema \<Rightarrow> string \<Rightarrow> string res" where
  "sqlite_buildQuerySQL schema table_name =
     (if schema = [] then Inl (Raised ''dataset schema is empty'')
      else Inr (query_columns (map fst schema) @ ''FROM '' @ table_name))"

text \<open>An index is only compared with the number of fields from above.\<close>

fun sqlite_index_names :: "schema \<Rightarrow> int list \<Rightarrow> string list res" where
  "sqlite_index_names schema [] = Inr []"
| "sqlite_index_names schema (index # rest) =
     (if index < int (length schema) then
        if index < 0 then Inl (Undefined ''schema index'')
        else bindR (sqlite_index_names schema rest) (\<lambda>names. Inr (fst (schema ! nat index) # names))
      else Inl (Raised ''query index is out of range''))"

definition sqlite_BuildQuerySQL :: "schema \<Rightarrow> string \<Rightarrow> int list \<Rightarrow> string res" where
  "sqlite_BuildQuerySQL schema table_name col_index =
     bindR (sqlite_index_names schema col_index) (\<lambda>names. Inr (query_columns names @ '' FROM '' @ table_name))"

definition all_fields :: "schema \<Rightarrow> int list" where
  "all_fields schema = map int [0..<length schema]"

definition new_sqlite_cursor :: "string \<Rightarrow> sqlite_driver \<Rightarrow> sql_cursor" where
  "new_sqlite_cursor sql d =
     \<lparr>sc_sql = sql, sc_selected = (case sq_access_info d of Some ai \<Rightarrow> all_fields (ai_schema ai) | None \<Rightarrow> [])\<rparr>"

text \<open>The connection is opened once and kept.\<close>

definition sqlite_connection :: "sqlite_lib \<Rightarrow> string \<Rightarrow> sqlite_driver \<Rightarrow> (string \<times> sqlite_driver) res" where
  "sqlite_connection S db_path d =
     (case sq_connector d of
        Some db \<Rightarrow> Inr (db, d)
      | None \<Rightarrow> if sq_open S db_path then Inr (db_path, d\<lparr>sq_connector := Some db_path\<rparr>)
                else Inl (Raised ''create cursor failed: ''))"

definition sqlite_read :: "sqlite_lib \<Rightarrow> (string \<Rightarrow> int) \<Rightarrow> sqlite_driver \<Rightarrow> (sql_cursor option \<times> sqlite_driver) res" where
  "sqlite_read S trunc d =
     (case sq_access_info d of
        None \<Rightarrow> Inr (None, d)
      | Some ai \<Rightarrow>
          (case ai_kind ai of
             SQLiteAccess db_path table_name \<Rightarrow>
               bindR (sqlite_connection S db_path d) (\<lambda>(db, d1).
               bindR (if ai_schema ai = [] then GetDBTableSchema S trunc db d1 else Inr (SUCCESS, d1)) (\<lambda>(ret, d2).
                 if ret \<noteq> SUCCESS then Inr (None, d2)
                 else let schema = (case sq_access_info d2 of Some ai2 \<Rightarrow> ai_schema ai2 | None \<Rightarrow> []) in
                   bindR (sqlite_buildQuerySQL schema table_name) (\<lambda>query_sql.
                     if query_sql = [] then Inr (None, d2)
                     else Inr (Some (new_sqlite_cursor query_sql d2), d2))))
           | _ \<Rightarrow> Inr (None, d)))"

definition sqlite_GetCursor :: "int list \<Rightarrow> sqlite_driver \<Rightarrow> sql_cursor option res" where
  "sqlite_GetCursor col_index d =
     (case sq_access_info d of
        None \<Rightarrow> Inr None
      | Some ai \<Rightarrow>
          (case ai_kind ai of
             SQLiteAccess _ table_name \<Rightarrow>
               bindR (sqlite_BuildQuerySQL (ai_schema ai) table_name col_index) (\<lambda>query_sql.
                 if query_sql = [] then Inl (Raised ''get query sql failed'')
                 else Inr (Some \<lparr>sc_sql = query_sql, sc_selected = col_index\<rparr>))
           | _ \<Rightarrow> Inr None))"

text \<open>
  \<^verbatim>\<open>readInternal\<close>: the result has room for the selected columns. A cell of a column beyond them would be
  written outside it.
\<close>

definition push_row :: "string list \<Rightarrow> string list list \<Rightarrow> string list list res" where
  "push_row row query_result =
     (if length query_result < length row then Inl (Undefined ''column outside the result'')
      else Inr (map (\<lambda>i. if i < length row then query_result ! i @ [row ! i] else query_result ! i) [0..<length query_result]))"

fun push_rows :: "string list list \<Rightarrow> string list list \<Rightarrow> string list list res" where
  "push_rows [] query_result = Inr query_result"
| "push_rows (row # rows) query_result = bindR (push_row row query_result) (push_rows rows)"

fun select_arrays ::
  "('f, 'd) float_lib \<Rightarrow> schema \<Rightarrow> int list \<Rightarrow> string list list \<Rightarrow> ('f, 'd) sql_table \<Rightarrow> ('f, 'd) sql_table res" where
  "select_arrays N table_schema [] cells tab = Inr tab"
| "select_arrays N table_schema (index # rest) cells tab =
     (if index < int (length table_schema) then
        if index < 0 then Inl (Undefined ''field index'')
        else let field = table_schema ! nat index in
             select_arrays N table_schema rest (tl cells)
               \<lparr>at_schema = at_schema tab @ [field], at_arrays = at_arrays tab @ [MakeArrowArray N (snd field) (hd cells)]\<rparr>
      else Inl (Raised ''index out of range, current index: ''))"

definition readInternal ::
  "('f, 'd) float_lib \<Rightarrow> sqlite_lib \<Rightarrow> sqlite_driver \<Rightarrow> sql_cursor \<Rightarrow> string \<Rightarrow> ('f, 'd) sql_table res" where
  "readInternal N S d c query_sql =
     (case sq_connector d of
        None \<Rightarrow> Inl (Raised ''db connector for sqlite is invalid'')
      | Some db \<Rightarrow>
          bindR (statement S db query_sql) (\<lambda>rows.
          bindR (push_rows rows (replicate (length (sc_selected c)) [])) (\<lambda>query_result.
            case sq_access_info d of
              None \<Rightarrow> Inl (Undefined ''null access info'')
            | Some ai \<Rightarrow>
                (case ai_arrow_schema ai of
                   None \<Rightarrow> Inl (Undefined ''null schema'')
                 | Some table_schema \<Rightarrow>
                     select_arrays N table_schema (sc_selected c) query_result \<lparr>at_schema = [], at_arrays = []\<rparr>))))"

definition sqlite_readMeta ::
  "('f, 'd) float_lib \<Rightarrow> sqlite_lib \<Rightarrow> sqlite_driver \<Rightarrow> sql_cursor \<Rightarrow> ('f, 'd) sql_table res" where
  "sqlite_readMeta N S d c = readInternal N S d c (sc_sql c @ '' limit 100'')"

definition sqlite_cursor_read ::
  "('f, 'd) float_lib \<Rightarrow> sqlite_lib \<Rightarrow> sqlite_driver \<Rightarrow> sql_cursor \<Rightarrow> ('f, 'd) sql_table res" where
  "sqlite_cursor_read N S d c = readInternal N S d c (sc_sql c)"

section \<open>MySQL\<close>

text \<open>
  \<open>ml_connect\<close>: does the server accept the connection; \<open>ml_query\<close>: the number of columns and the rows of a query, \<open>None\<close> when
  the server refuses it. A cell without a value has the length zero, as the empty text has.
\<close>

record mysql_lib =
  ml_connect :: "mysql_info \<Rightarrow> bool"
  ml_query :: "mysql_info \<Rightarrow> string \<Rightarrow> (nat \<times> string list list) option"

record mysql_driver =
  md_access_info :: "DataSetAccessInfo option"
  md_connected :: bool
  md_table_schema :: "string std_map"
  md_table_cols :: "string list"

definition mysql_connect :: "mysql_lib \<Rightarrow> mysql_info \<Rightarrow> mysql_driver \<Rightarrow> mysql_driver res" where
  "mysql_connect M my d =
     (if md_connected d then Inr d
      else if ml_connect M my then Inr (d\<lparr>md_connected := True\<rparr>)
      else Inl (Raised ''connect failed, ''))"

definition executeQuery :: "mysql_lib \<Rightarrow> mysql_info \<Rightarrow> string \<Rightarrow> (nat \<times> string list list) option res" where
  "executeQuery M my sql_query =
     (if sql_query = [] then Inr None
      else case ml_query M my sql_query of
             None \<Rightarrow> Inl (Raised ''query execute failed: '')
           | Some r \<Rightarrow> Inr (Some r))"

text \<open>The rows of the answer: \<^verbatim>\<open>table_schema_\<close> keeps the first type of a name, the schema has both.\<close>

definition column_item :: "string list \<Rightarrow> json" where
  "column_item row = JObj [(row ! 0, JInt (SqlType2ArrowType (row ! 1)))]"

definition schema_query :: "string \<Rightarrow> string \<Rightarrow> string" where
  "schema_query db_name table_name =
     ''SELECT `column_name`, `data_type` FROM information_schema.COLUMNS WHERE TABLE_NAME = '' @ [CHR 0x27] @ table_name @
     [CHR 0x27] @ '' and TABLE_SCHEMA = '' @ [CHR 0x27] @ db_name @ [CHR 0x27] @ '' ORDER BY column_name ASC;''"

definition getTableSchema ::
  "mysql_lib \<Rightarrow> (string \<Rightarrow> int) \<Rightarrow> DataSetAccessInfo \<Rightarrow> mysql_info \<Rightarrow> mysql_driver \<Rightarrow> (retcode \<times> mysql_driver) res" where
  "getTableSchema M trunc ai my d =
     bindR (executeQuery M my (schema_query (my_db_name my) (my_table_name my))) (\<lambda>answer.
       case answer of
         None \<Rightarrow> Inr (FAIL, d)
       | Some (num_fields, rows) \<Rightarrow>
           if num_fields \<noteq> 2 then Inl (Raised ''2 num_fields is expected, but get '')
           else Inr (SUCCESS,
             d\<lparr>md_table_cols := map (\<lambda>row. row ! 0) rows,
               md_table_schema := fold (\<lambda>row. map_insert (row ! 0) (row ! 1)) rows [],
               md_access_info := Some (snd (ParseSchema trunc (JArr (map column_item rows)) ai))\<rparr>))"

fun mysql_index_names :: "schema \<Rightarrow> int list \<Rightarrow> string list res" where
  "mysql_index_names schema [] = Inr []"
| "mysql_index_names schema (index # rest) =
     (if 0 \<le> index \<and> index < int (length schema)
      then bindR (mysql_index_names schema rest) (\<lambda>names. Inr (fst (schema ! nat index) # names))
      else Inl (Raised ''index is out of range, ''))"

definition mysql_BuildQuerySQL :: "schema \<Rightarrow> string \<Rightarrow> int list \<Rightarrow> string res" where
  "mysql_BuildQuerySQL schema table_name col_index =
     bindR (mysql_index_names schema col_index) (\<lambda>names. Inr (query_columns names @ '' FROM '' @ table_name))"

definition mysql_buildQuerySQL :: "schema \<Rightarrow> string \<Rightarrow> string" where
  "mysql_buildQuerySQL schema table_name = query_columns (map fst schema) @ '' FROM '' @ table_name"

text \<open>The schema is asked for when it is not known yet.\<close>

definition ensure_schema :: "mysql_lib \<Rightarrow> (string \<Rightarrow> int) \<Rightarrow> DataSetAccessInfo \<Rightarrow> mysql_info \<Rightarrow> mysql_driver \<Rightarrow> (retcode \<times> mysql_driver) res" where
  "ensure_schema M trunc ai my d =
     (if ai_schema ai \<noteq> [] then Inr (SUCCESS, d)
      else bindR (mysql_connect M my d) (\<lambda>d1. bindR (executeQuery M my (''USE '' @ my_db_name my)) (\<lambda>_.
           getTableSchema M trunc ai my d1)))"

definition known_schema :: "mysql_driver \<Rightarrow> schema" where
  "known_schema d = (case md_access_info d of Some ai \<Rightarrow> ai_schema ai | None \<Rightarrow> [])"

definition mysql_GetCursor_all :: "mysql_lib \<Rightarrow> (string \<Rightarrow> int) \<Rightarrow> mysql_driver \<Rightarrow> (sql_cursor option \<times> mysql_driver) res" where
  "mysql_GetCursor_all M trunc d =
     (case md_access_info d of
        Some ai \<Rightarrow>
          (case ai_kind ai of
             MySQLAccess my \<Rightarrow>
               bindR (ensure_schema M trunc ai my d) (\<lambda>(ret, d1).
                 if ret \<noteq> SUCCESS then Inr (None, d1)
                 else Inr (Some \<lparr>sc_sql = mysql_buildQuerySQL (known_schema d1) (my_table_name my), sc_selected = all_fields (known_schema d1)\<rparr>, d1))
           | _ \<Rightarrow> Inl (Raised ''access info for mysql is not available''))
      | None \<Rightarrow> Inl (Raised ''access info for mysql is not available''))"

definition mysql_GetCursor :: "mysql_lib \<Rightarrow> (string \<Rightarrow> int) \<Rightarrow> int list \<Rightarrow> mysql_driver \<Rightarrow> (sql_cursor option \<times> mysql_driver) res" where
  "mysql_GetCursor M trunc col_index d =
     (case md_access_info d of
        Some ai \<Rightarrow>
          (case ai_kind ai of
             MySQLAccess my \<Rightarrow>
               bindR (ensure_schema M trunc ai my d) (\<lambda>(ret, d1).
                 if ret \<noteq> SUCCESS then Inr (None, d1)
                 else bindR (mysql_BuildQuerySQL (known_schema d1) (my_table_name my) col_index) (\<lambda>query_sql.
                   if query_sql = [] then Inl (Raised ''query_sql is empty'')
                   else Inr (Some \<lparr>sc_sql = query_sql, sc_selected = col_index\<rparr>, d1)))
           | _ \<Rightarrow> Inl (Raised ''access info for mysql is not available''))
      | None \<Rightarrow> Inl (Raised ''access info for mysql is not available''))"

fun pick_fields :: "schema \<Rightarrow> int list \<Rightarrow> schema res" where
  "pick_fields arrow_schema [] = Inr []"
| "pick_fields arrow_schema (index # rest) =
     (if 0 \<le> index \<and> index < int (length arrow_schema)
      then bindR (pick_fields arrow_schema rest) (\<lambda>fs. Inr (arrow_schema ! nat index # fs))
      else Inl (Raised ''index out of range, current index: ''))"

definition makeArrowSchema :: "DataSetAccessInfo \<Rightarrow> sql_cursor \<Rightarrow> schema res" where
  "makeArrowSchema ai c =
     (case ai_arrow_schema ai of
        None \<Rightarrow> Inl (Undefined ''null schema'')
      | Some arrow_schema \<Rightarrow> pick_fields arrow_schema (sc_selected c))"

text \<open>
  \<^verbatim>\<open>fetchData\<close>: the i-th column of the answer gets the type of the i-th field of the schema that is passed;
  cells of length zero become \<^verbatim>\<open>NA\<close>.
\<close>

definition cell_text :: "string \<Rightarrow> string" where
  "cell_text cell = (if cell = [] then ''NA'' else cell)"

definition fetchData ::
  "('f, 'd) float_lib \<Rightarrow> mysql_lib \<Rightarrow> mysql_info \<Rightarrow> sql_cursor \<Rightarrow> string \<Rightarrow> schema \<Rightarrow> ('f, 'd) arrow_array list res" where
  "fetchData N M my c query_sql table_schema =
     (if \<not> ml_connect M my then Inl (Raised ''connect failed:'')
      else if query_sql = [] then Inl (Raised ''empty query sql is invalid'')
      else case ml_query M my query_sql of
        None \<Rightarrow> Inl (Raised ''query execute failed: '')
      | Some (num_fields, rows) \<Rightarrow>
          if num_fields \<noteq> length (sc_selected c) then Inl (Raised ''query column size does not match, query size: '')
          else if length table_schema < num_fields then Inl (Raised ''index out of range, current index: '')
          else Inr (map (\<lambda>i. MakeArrowArray N (snd (table_schema ! i)) (map (\<lambda>row. cell_text (row ! i)) rows)) [0..<num_fields]))"

definition mysql_info_of :: "mysql_driver \<Rightarrow> (DataSetAccessInfo \<times> mysql_info) res" where
  "mysql_info_of d =
     (case md_access_info d of
        Some ai \<Rightarrow> (case ai_kind ai of MySQLAccess my \<Rightarrow> Inr (ai, my) | _ \<Rightarrow> Inl (Undefined ''reinterpret_cast''))
      | None \<Rightarrow> Inl (Undefined ''null access info''))"

definition mysql_readMeta ::
  "('f, 'd) float_lib \<Rightarrow> mysql_lib \<Rightarrow> mysql_driver \<Rightarrow> sql_cursor \<Rightarrow> ('f, 'd) sql_table res" where
  "mysql_readMeta N M d c =
     bindR (mysql_info_of d) (\<lambda>(ai, my). bindR (makeArrowSchema ai c) (\<lambda>schema.
       case ai_arrow_schema ai of
         None \<Rightarrow> Inl (Undefined ''null schema'')
       | Some table_schema \<Rightarrow>
           bindR (fetchData N M my c (sc_sql c @ '' LIMIT 10'') table_schema) (\<lambda>array_data.
             Inr \<lparr>at_schema = schema, at_arrays = array_data\<rparr>)))"

text \<open>\<^verbatim>\<open>read\<close>, with the schema of the selected columns or one that is given.\<close>

definition mysql_ReadImpl ::
  "('f, 'd) float_lib \<Rightarrow> mysql_lib \<Rightarrow> mysql_driver \<Rightarrow> sql_cursor \<Rightarrow> schema \<Rightarrow> ('f, 'd) sql_table res" where
  "mysql_ReadImpl N M d c schema =
     bindR (mysql_info_of d) (\<lambda>(ai, my). bindR (fetchData N M my c (sc_sql c) schema) (\<lambda>array_data.
       Inr \<lparr>at_schema = schema, at_arrays = array_data\<rparr>))"

definition mysql_cursor_read ::
  "('f, 'd) float_lib \<Rightarrow> mysql_lib \<Rightarrow> mysql_driver \<Rightarrow> sql_cursor \<Rightarrow> ('f, 'd) sql_table res" where
  "mysql_cursor_read N M d c =
     bindR (mysql_info_of d) (\<lambda>(ai, my). bindR (makeArrowSchema ai c) (mysql_ReadImpl N M d c))"

section \<open>What the queries say\<close>

definition select_text :: "string list \<Rightarrow> string" where
  "select_text names = ''SELECT '' @ join '','' (map (\<lambda>n. ''`'' @ n @ ''`'') names)"

lemma query_columns_text:
  assumes "names \<noteq> []"
  shows "query_columns names = select_text names @ '' ''"
proof -
  have "concat (map (\<lambda>n. ''`'' @ n @ ''`,'') names) = join '','' (map (\<lambda>n. ''`'' @ n @ ''`'') names) @ '',''"
    using assms by (induction names rule: induct_list012) auto
  moreover have "(xs @ [c])[length (xs @ [c]) - 1 := d] = xs @ [d]" for xs :: string and c d by simp
  from this [of "select_text names" "CHR '',''" "CHR '' ''"]
  have "(''SELECT '' @ join '','' (map (\<lambda>n. ''`'' @ n @ ''`'') names) @ '','')
      [length (''SELECT '' @ join '','' (map (\<lambda>n. ''`'' @ n @ ''`'') names) @ '','') - 1 := CHR '' ''] = select_text names @ '' ''"
    by (simp add: select_text_def)
  ultimately show ?thesis by (simp only: query_columns_def Let_def)
qed

lemma query_not_empty [simp]: "query_columns names \<noteq> []"
  by (simp add: query_columns_def Let_def)

lemma SqlType2ArrowType_rebuilt [simp]: "MakeArrowDataType (SqlType2ArrowType ty) = SqlType2ArrowType ty"
proof -
  have "\<forall>(n, t) \<in> set sql_type_2_arrow_type_map. MakeArrowDataType t = t"
    by (simp add: sql_type_2_arrow_type_map_def MakeArrowDataType_def)
  then have "MakeArrowDataType t = t" if "map_of sql_type_2_arrow_type_map n = Some t" for n t
    using map_of_SomeD [OF that] by blast
  moreover have "MakeArrowDataType 13 = 13" by (simp add: MakeArrowDataType_def)
  ultimately show ?thesis by (simp add: SqlType2ArrowType_def split: option.split)
qed

section \<open>What the answers become\<close>

lemma push_rows_columns:
  assumes "\<forall>row \<in> set rows. length row = length cells"
  shows "push_rows rows cells = Inr (map (\<lambda>k. cells ! k @ map (\<lambda>row. row ! k) rows) [0..<length cells])"
  using assms
proof (induction rows arbitrary: cells)
  case (Cons row rows)
  let ?cells = "map (\<lambda>k. cells ! k @ [row ! k]) [0..<length cells]"
  have p: "push_row row cells = Inr ?cells" using Cons.prems by (simp add: push_row_def)
  have "push_rows rows ?cells = Inr (map (\<lambda>k. ?cells ! k @ map (\<lambda>row. row ! k) rows) [0..<length ?cells])"
    using Cons.prems by (intro Cons.IH) simp
  with p show ?case by (simp cong: map_cong)
qed (simp add: map_nth)

lemma select_arrays_range:
  "\<forall>i \<in> set idx. 0 \<le> i \<and> i < int (length s) \<Longrightarrow> length cells = length idx \<Longrightarrow>
   select_arrays N s idx cells tab = Inr \<lparr>at_schema = at_schema tab @ map (\<lambda>i. s ! nat i) idx,
     at_arrays = at_arrays tab @ map2 (\<lambda>i c. MakeArrowArray N (snd (s ! nat i)) c) idx cells\<rparr>"
proof (induction idx arbitrary: cells tab)
  case (Cons i idx)
  then show ?case by (cases cells) (simp_all add: Let_def)
qed simp

lemma sqlite_index_names_range:
  "\<forall>i \<in> set idx. 0 \<le> i \<and> i < int (length s) \<Longrightarrow> sqlite_index_names s idx = Inr (map (\<lambda>i. fst (s ! nat i)) idx)"
  by (induction idx) auto

lemma mysql_index_names_range:
  "\<forall>i \<in> set idx. 0 \<le> i \<and> i < int (length s) \<Longrightarrow> mysql_index_names s idx = Inr (map (\<lambda>i. fst (s ! nat i)) idx)"
  by (induction idx) auto

lemma pick_fields_range:
  "\<forall>i \<in> set idx. 0 \<le> i \<and> i < int (length s) \<Longrightarrow> pick_fields s idx = Inr (map (\<lambda>i. s ! nat i) idx)"
  by (induction idx) auto

text \<open>A negative index: an exception in one driver, a read in front of the array in the other.\<close>

lemma negative_index:
  "i < 0 \<Longrightarrow> mysql_index_names s (i # idx) = Inl (Raised ''index is out of range, '')"
  "i < 0 \<Longrightarrow> sqlite_index_names s (i # idx) = Inl (Undefined ''schema index'')"
  by simp_all

text \<open>The rows that \<^verbatim>\<open>PRAGMA table_info\<close> answers, and the schema they declare.\<close>

type_synonym table_decl = "string \<times> string \<times> string \<times> string \<times> string \<times> string"

definition table_info :: "table_decl list \<Rightarrow> schema" where
  "table_info cols = map (\<lambda>(cid, column_name, column_type, notnull, dflt_value, pk). (column_name, SqlType2ArrowType column_type)) cols"

lemma FromFields_table_info [simp]: "FromFields (table_info cols) = table_info cols"
  by (simp add: FromFields_def table_info_def case_prod_beta comp_def)

lemma table_rows_info:
  "\<exists>d'. table_rows (map (\<lambda>(cid, n, t, notnull, dflt_value, pk). [cid, n, t, notnull, dflt_value, pk]) cols) (d, js) =
     Inr (d', js @ map (\<lambda>(n, t). JObj [(n, JInt t)]) (table_info cols)) \<and>
     sq_access_info d' = sq_access_info d \<and> sq_connector d' = sq_connector d"
proof (induction cols arbitrary: d js)
  case (Cons col cols)
  obtain cid n t nn dv pk where col: "col = (cid, n, t, nn, dv, pk)" by (cases col)
  show ?case
    using Cons [of "d\<lparr>sq_table_schema := map_assign n t (sq_table_schema d), sq_table_cols := sq_table_cols d @ [n]\<rparr>"
        "js @ [JObj [(n, JInt (SqlType2ArrowType t))]]"]
    by (auto simp: col table_info_def)
qed (simp add: table_info_def)

lemma GetDBTableSchema_ok:
  assumes "sq_access_info d = Some ai" "ai_kind ai = SQLiteAccess path tbl" "ai_schema ai = []"
    and "sq_rows S db (''PRAGMA table_info('' @ tbl @ '')'') = Some (map (\<lambda>(cid, n, t, notnull, dflt_value, pk). [cid, n, t, notnull, dflt_value, pk]) cols)"
  shows "\<exists>d'. GetDBTableSchema S trunc db d = Inr (SUCCESS, d') \<and> sq_connector d' = sq_connector d \<and>
    sq_access_info d' = Some (MakeArrowSchema (ai\<lparr>ai_schema := table_info cols\<rparr>))"
proof -
  obtain d1 where d1: "table_rows (map (\<lambda>(cid, n, t, notnull, dflt_value, pk). [cid, n, t, notnull, dflt_value, pk]) cols) (d, []) =
      Inr (d1, map (\<lambda>(n, t). JObj [(n, JInt t)]) (table_info cols))" "sq_connector d1 = sq_connector d"
    using table_rows_info [of cols d "[]"] by auto
  have "ParseSchema trunc (JArr (map (\<lambda>(n, t). JObj [(n, JInt t)]) (table_info cols))) ai =
      (SUCCESS, MakeArrowSchema (ai\<lparr>ai_schema := table_info cols\<rparr>))"
    using ParseSchema_doc [OF assms(3), of trunc "table_info cols"] by (simp add: schema_doc_def)
  with d1 assms show ?thesis by (simp add: GetDBTableSchema_def statement_def)
qed

lemma FromFields_nth:
  "length (FromFields fs) = length fs" "k < length fs \<Longrightarrow> fst (FromFields fs ! k) = fst (fs ! k)"
  by (simp_all add: FromFields_def case_prod_beta)

section \<open>Properties\<close>

lemma map2_zip_upt: "length xs = n \<Longrightarrow> map2 f (map int [0..<n]) xs = map (\<lambda>k. f (int k) (xs ! k)) [0..<n]"
  by (rule nth_equalityI) simp_all

text \<open>
  C30. A SQLite table is read as its own declaration says. When the file opens, \<^verbatim>\<open>PRAGMA table_info\<close> lists the
  columns (in rows of number, name, type, not-null flag, default value and key flag), and the query for these columns, in the order of the declaration, each between back-quotes,
  gives rows with one cell for each, then \<^verbatim>\<open>read\<close> of a driver that knows no schema returns a cursor, and reading
  from it gives a table: the fields are the declared names with the Arrow type of their SQL type, and
  the array of each field is made from the cells of its column, in the order of the rows.
\<close>

theorem sqlite_table_read:
  assumes "sq_access_info d = Some ai" "ai_kind ai = SQLiteAccess path tbl" "ai_schema ai = []" "sq_connector d = None"
    and "sq_open S path" "cols \<noteq> []"
    and "sq_rows S path (''PRAGMA table_info('' @ tbl @ '')'') = Some (map (\<lambda>(cid, n, t, notnull, dflt_value, pk). [cid, n, t, notnull, dflt_value, pk]) cols)"
    and "sq_rows S path (select_text (map fst (table_info cols)) @ '' FROM '' @ tbl) = Some rows"
    and "\<forall>row \<in> set rows. length row = length cols"
  shows "\<exists>c d'. sqlite_read S trunc d = Inr (Some c, d') \<and>
    sqlite_cursor_read N S d' c = Inr \<lparr>at_schema = table_info cols,
      at_arrays = map (\<lambda>k. MakeArrowArray N (snd (table_info cols ! k)) (map (\<lambda>row. row ! k) rows)) [0..<length cols]\<rparr>"
proof -
  let ?s = "table_info cols" and ?d1 = "d\<lparr>sq_connector := Some path\<rparr>"
  have l: "length ?s = length cols" "?s \<noteq> []" using assms(6) by (simp_all add: table_info_def)
  obtain d' where d': "GetDBTableSchema S trunc path ?d1 = Inr (SUCCESS, d')" "sq_connector d' = Some path"
    "sq_access_info d' = Some (MakeArrowSchema (ai\<lparr>ai_schema := ?s\<rparr>))"
    using GetDBTableSchema_ok [of ?d1 ai path tbl S path cols trunc] assms(1-3,7) by auto
  define q where "q = select_text (map fst ?s) @ '' FROM '' @ tbl"
  have "sqlite_buildQuerySQL ?s tbl = Inr q" "q \<noteq> []"
    using l(2) by (simp_all add: sqlite_buildQuerySQL_def query_columns_text q_def select_text_def)
  then have "sqlite_read S trunc d = Inr (Some \<lparr>sc_sql = q, sc_selected = all_fields ?s\<rparr>, d')"
    using d' assms(1-5) by (simp add: sqlite_read_def sqlite_connection_def new_sqlite_cursor_def MakeArrowSchema_def Let_def)
  moreover have p: "push_rows rows (replicate (length cols) []) = Inr (map (\<lambda>k. map (\<lambda>row. row ! k) rows) [0..<length cols])"
    using push_rows_columns [of rows "replicate (length cols) []"] assms(9) by (simp cong: map_cong)
  have "sqlite_cursor_read N S d' \<lparr>sc_sql = q, sc_selected = all_fields ?s\<rparr> =
      select_arrays N ?s (map int [0..<length cols]) (map (\<lambda>k. map (\<lambda>row. row ! k) rows) [0..<length cols])
        \<lparr>at_schema = [], at_arrays = []\<rparr>"
    using d' assms(8) p by (simp add: sqlite_cursor_read_def readInternal_def statement_def q_def all_fields_def l MakeArrowSchema_def)
  moreover have "\<dots> = Inr \<lparr>at_schema = ?s,
      at_arrays = map (\<lambda>k. MakeArrowArray N (snd (?s ! k)) (map (\<lambda>row. row ! k) rows)) [0..<length cols]\<rparr>"
    using l(1) map_nth [of ?s] by (subst select_arrays_range) (auto simp: map2_zip_upt comp_def)
  ultimately show ?thesis by auto
qed

definition people_db :: sqlite_lib where
  "people_db = \<lparr>sq_open = (\<lambda>path. path = ''p.db''),
     sq_rows = (\<lambda>path sql. if sql = ''PRAGMA table_info(t)'' then Some [[''0'', ''name'', ''varchar'', ''1'', [], ''1''], [''1'', ''age'', ''integer'', ''0'', [], ''0'']]
       else if sql = ''SELECT `name`,`age` FROM t'' then Some [[''eve'', ''31''], [''bob'', ''4000000000'']] else None)\<rparr>"

definition people_info :: DataSetAccessInfo where
  "people_info = \<lparr>ai_schema = [], ai_arrow_schema = None, ai_kind = SQLiteAccess ''p.db'' ''t''\<rparr>"

definition unit_floats :: "(unit, unit) float_lib" where
  "unit_floats = \<lparr>fl_stof = (\<lambda>_. None), fl_zero = (), fl_to_double = id\<rparr>"

lemma people_table:
  "table_info [(''0'', ''name'', ''varchar'', ''1'', [], ''1''), (''1'', ''age'', ''integer'', ''0'', [], ''0'')] = [(''name'', 13), (''age'', 9)]"
  by code_simp

lemma stoi_small: "stoi ''31'' = Inr 31"
  by code_simp

lemma stoi_na: "stoi ''NA'' = Inl (Raised ''stoi'')"
  by code_simp

lemma stoi_large: "stoi ''4000000000'' = Inl (Raised ''stoi'')"
  by (simp add: stoi_def int_prefix_def digit_val_def isspace_def)

theorem sqlite_table_read_witness:
  "\<exists>c d'. sqlite_read people_db (\<lambda>_. 0) (new_sqlite_driver (Some people_info)) = Inr (Some c, d') \<and>
    sqlite_cursor_read unit_floats people_db d' c = Inr \<lparr>at_schema = [(''name'', 13), (''age'', 9)],
      at_arrays = [StringArray [''eve'', ''bob''], Int64Array [31, 0]]\<rparr>"
  using sqlite_table_read [of "new_sqlite_driver (Some people_info)" people_info "''p.db''" "''t''" people_db
      "[(''0'', ''name'', ''varchar'', ''1'', [], ''1''), (''1'', ''age'', ''integer'', ''0'', [], ''0'')]" "[[''eve'', ''31''], [''bob'', ''4000000000'']]" "\<lambda>_. 0" unit_floats]
  by (simp add: people_table stoi_small stoi_large people_db_def people_info_def new_sqlite_driver_def select_text_def MakeArrowArray_def
      StringArrowArrayBuilder_def Int64ArrowArrayBuilder_def stoi_or_zero_def upt_rec)

text \<open>
  C39. Selected columns of a SQLite table cannot be read. A driver as the factory makes it has no connection,
  and \<^verbatim>\<open>GetCursor\<close> for a list of indexes does not open one: for a description with a schema and indexes within
  it, the cursor is handed out, and both \<^verbatim>\<open>read\<close> and \<^verbatim>\<open>readMeta\<close> of it raise an exception, whatever the database holds.
\<close>

theorem sqlite_selection_unreadable:
  assumes "ai_kind ai = SQLiteAccess path tbl" "\<forall>i \<in> set idx. 0 \<le> i \<and> i < int (length (ai_schema ai))"
  shows "\<exists>c. sqlite_GetCursor idx (new_sqlite_driver (Some ai)) = Inr (Some c) \<and>
    sqlite_cursor_read N S (new_sqlite_driver (Some ai)) c = Inl (Raised ''db connector for sqlite is invalid'') \<and>
    sqlite_readMeta N S (new_sqlite_driver (Some ai)) c = Inl (Raised ''db connector for sqlite is invalid'')"
  using assms
  by (simp add: sqlite_GetCursor_def new_sqlite_driver_def sqlite_BuildQuerySQL_def sqlite_index_names_range
      sqlite_cursor_read_def sqlite_readMeta_def readInternal_def)

theorem sqlite_selection_unreadable_witness:
  "\<exists>c. sqlite_GetCursor [1] (new_sqlite_driver (Some (people_info\<lparr>ai_schema := [(''name'', 13), (''age'', 9)]\<rparr>))) = Inr (Some c) \<and>
    sqlite_cursor_read unit_floats people_db (new_sqlite_driver (Some (people_info\<lparr>ai_schema := [(''name'', 13), (''age'', 9)]\<rparr>))) c =
      Inl (Raised ''db connector for sqlite is invalid'') \<and>
    sqlite_readMeta unit_floats people_db (new_sqlite_driver (Some (people_info\<lparr>ai_schema := [(''name'', 13), (''age'', 9)]\<rparr>))) c =
      Inl (Raised ''db connector for sqlite is invalid'')"
  using sqlite_selection_unreadable [of "people_info\<lparr>ai_schema := [(''name'', 13), (''age'', 9)]\<rparr>" "''p.db''" "''t''" "[1]"
      unit_floats people_db]
  by (simp add: people_info_def)

text \<open>
  Selected columns of a MySQL table. For a driver that knows the schema and indexes within it, the cursor
  queries exactly the columns of the indexes in their order. Reading gives the fields of these columns, and
  the i-th array is made with the type of the i-th selected field; \<^verbatim>\<open>readMeta\<close> gives the same fields, but makes the
  i-th array with the type of the i-th field of the whole schema, another type unless the first columns were selected.
\<close>

theorem mysql_selected_columns:
  assumes "md_access_info d = Some ai" "ai_kind ai = MySQLAccess my" "ai_arrow_schema ai = Some s" "FromFields (ai_schema ai) = s"
    and "idx \<noteq> []" "\<forall>i \<in> set idx. 0 \<le> i \<and> i < int (length s)" "length idx \<le> length s" "ml_connect M my"
    and "ml_query M my (select_text (map (\<lambda>i. fst (s ! nat i)) idx) @ ''  FROM '' @ my_table_name my) = Some (length idx, rows)"
    and "ml_query M my (select_text (map (\<lambda>i. fst (s ! nat i)) idx) @ ''  FROM '' @ my_table_name my @ '' LIMIT 10'') = Some (length idx, rows10)"
  shows "\<exists>c. mysql_GetCursor M trunc idx d = Inr (Some c, d) \<and>
    mysql_cursor_read N M d c = Inr \<lparr>at_schema = map (\<lambda>i. s ! nat i) idx,
      at_arrays = map (\<lambda>k. MakeArrowArray N (snd (s ! nat (idx ! k))) (map (\<lambda>row. cell_text (row ! k)) rows)) [0..<length idx]\<rparr> \<and>
    mysql_readMeta N M d c = Inr \<lparr>at_schema = map (\<lambda>i. s ! nat i) idx,
      at_arrays = map (\<lambda>k. MakeArrowArray N (snd (s ! k)) (map (\<lambda>row. cell_text (row ! k)) rows10)) [0..<length idx]\<rparr>"
proof -
  define q where "q = select_text (map (\<lambda>i. fst (s ! nat i)) idx) @ ''  FROM '' @ my_table_name my"
  let ?c = "\<lparr>sc_sql = q, sc_selected = idx\<rparr>"
  have l: "length (ai_schema ai) = length s" using FromFields_nth(1) [of "ai_schema ai"] assms(4) by simp
  have f: "fst (ai_schema ai ! k) = fst (s ! k)" if "k < length s" for k
    using FromFields_nth(2) [of k "ai_schema ai"] that l assms(4) by simp
  have "0 < length s" using assms(5,7) by (cases idx) auto
  then have ne: "ai_schema ai \<noteq> []" "q \<noteq> []" using l by (auto simp: q_def select_text_def)
  have "map (\<lambda>i. fst (ai_schema ai ! nat i)) idx = map (\<lambda>i. fst (s ! nat i)) idx"
    using assms(6) by (intro map_cong refl f) auto
  then have "mysql_BuildQuerySQL (ai_schema ai) (my_table_name my) idx = Inr q"
    using assms(5,6) l by (simp add: mysql_BuildQuerySQL_def mysql_index_names_range query_columns_text q_def cong: map_cong)
  then have "mysql_GetCursor M trunc idx d = Inr (Some ?c, d)"
    using assms(1,2) ne by (simp add: mysql_GetCursor_def ensure_schema_def known_schema_def)
  moreover have m: "makeArrowSchema ai ?c = Inr (map (\<lambda>i. s ! nat i) idx)" "mysql_info_of d = Inr (ai, my)"
    using assms(1-3,6) by (simp_all add: makeArrowSchema_def pick_fields_range mysql_info_of_def)
  have q: "ml_query M my q = Some (length idx, rows)" "ml_query M my (q @ '' LIMIT 10'') = Some (length idx, rows10)"
    using assms(9,10) by (simp_all add: q_def)
  have "fetchData N M my ?c q (map (\<lambda>i. s ! nat i) idx) =
      Inr (map (\<lambda>k. MakeArrowArray N (snd (s ! nat (idx ! k))) (map (\<lambda>row. cell_text (row ! k)) rows)) [0..<length idx])"
    using assms(8) ne(2) q(1) by (simp add: fetchData_def)
  moreover have "fetchData N M my ?c (q @ '' LIMIT 10'') s =
      Inr (map (\<lambda>k. MakeArrowArray N (snd (s ! k)) (map (\<lambda>row. cell_text (row ! k)) rows10)) [0..<length idx])"
    using assms(7,8) q(2) by (simp add: fetchData_def)
  ultimately show ?thesis
    using m assms(3) by (intro exI [of _ ?c]) (simp add: mysql_cursor_read_def mysql_readMeta_def mysql_ReadImpl_def)
qed

definition shop_info :: DataSetAccessInfo where
  "shop_info = \<lparr>ai_schema = [(''name'', 13), (''price'', 9)], ai_arrow_schema = Some [(''name'', 13), (''price'', 9)],
     ai_kind = MySQLAccess (new_mysql_info\<lparr>my_table_name := ''t''\<rparr>)\<rparr>"

definition shop_db :: mysql_lib where
  "shop_db = \<lparr>ml_connect = (\<lambda>_. True), ml_query = (\<lambda>_ sql. Some (1, [[''31''], [[]]]))\<rparr>"

definition shop_driver :: mysql_driver where
  "shop_driver = \<lparr>md_access_info = Some shop_info, md_connected = False, md_table_schema = [], md_table_cols = []\<rparr>"

theorem mysql_selected_columns_witness:
  "\<exists>c. mysql_GetCursor shop_db (\<lambda>_. 0) [1] shop_driver = Inr (Some c, shop_driver) \<and>
    mysql_cursor_read unit_floats shop_db shop_driver c = Inr \<lparr>at_schema = [(''price'', 9)], at_arrays = [Int64Array [31, 0]]\<rparr> \<and>
    mysql_readMeta unit_floats shop_db shop_driver c =
      Inr \<lparr>at_schema = [(''price'', 9)], at_arrays = [StringArray [''31'', ''NA'']]\<rparr>"
  using mysql_selected_columns [of shop_driver shop_info "new_mysql_info\<lparr>my_table_name := ''t''\<rparr>" "[(''name'', 13), (''price'', 9)]"
      "[1]" shop_db "[[''31''], [[]]]" "[[''31''], [[]]]" "\<lambda>_. 0" unit_floats]
  by (simp add: shop_driver_def shop_info_def shop_db_def FromFields_def MakeArrowDataType_def MakeArrowArray_def
      StringArrowArrayBuilder_def Int64ArrowArrayBuilder_def stoi_or_zero_def cell_text_def stoi_small stoi_na)

end
