(* ===== verification/Dataset_Service.thy ===== *)
theory Dataset_Service
  imports Csv_Driver Sql_Drivers
begin

text \<open>
  The dataset service of a node, \<^verbatim>\<open>service/dataset/service.cc\<close>: it makes drivers from descriptions, registers datasets with the meta
  service and finds them there again; with the descriptions read from YAML files. What a driver
  reads is a parameter with a contract that the drivers for CSV files, SQLite, MySQL and images satisfy; the calls of the meta service are parameters as in \<open>Meta_Service\<close>.
\<close>

section \<open>Descriptions in YAML\<close>

text \<open>
  \<open>None\<close> is a node that is not defined. A name in a scalar is an exception, in a list it is not defined.
  What the text of an empty value is differs between versions of the library: \<open>de_null\<close>.
\<close>

datatype yaml = YNull | YScalar string | YSeq "yaml list" | YMap "(string \<times> yaml) list"

record data_env =
  de_mysql :: bool
  de_trunc :: "string \<Rightarrow> int"
  de_parse :: "string \<Rightarrow> json option"
  de_dump :: "json \<Rightarrow> string"
  de_exists :: "string \<Rightarrow> bool"
  de_null :: "string res"
  de_as_int :: "string \<Rightarrow> int option"

definition yaml_at :: "yaml option \<Rightarrow> string \<Rightarrow> yaml option res" where
  "yaml_at y name =
     (case y of
        None \<Rightarrow> Inl (Raised ''InvalidNode'')
      | Some (YScalar _) \<Rightarrow> Inl (Raised ''BadSubscript'')
      | Some (YMap ms) \<Rightarrow> Inr (map_of ms name)
      | Some _ \<Rightarrow> Inr None)"

definition as_string :: "data_env \<Rightarrow> yaml option \<Rightarrow> string res" where
  "as_string E y =
     (case y of
        Some (YScalar s) \<Rightarrow> Inr s
      | Some YNull \<Rightarrow> de_null E
      | None \<Rightarrow> Inl (Raised ''InvalidNode'')
      | Some _ \<Rightarrow> Inl (Raised ''BadConversion''))"

definition as_int :: "data_env \<Rightarrow> yaml option \<Rightarrow> int res" where
  "as_int E y =
     (case y of
        Some (YScalar s) \<Rightarrow> (case de_as_int E s of Some n \<Rightarrow> Inr n | None \<Rightarrow> Inl (Raised ''BadConversion''))
      | None \<Rightarrow> Inl (Raised ''InvalidNode'')
      | Some _ \<Rightarrow> Inl (Raised ''BadConversion''))"

definition yaml_string :: "data_env \<Rightarrow> yaml option \<Rightarrow> string \<Rightarrow> string res" where
  "yaml_string E y name = bindR (yaml_at y name) (as_string E)"

definition yaml_int :: "data_env \<Rightarrow> yaml option \<Rightarrow> string \<Rightarrow> int res" where
  "yaml_int E y name = bindR (yaml_at y name) (as_int E)"

text \<open>The nodes a loop runs over; the entries of a map are pairs, which are no nodes of their own.\<close>

definition yaml_children :: "yaml \<Rightarrow> yaml option list" where
  "yaml_children y = (case y of YSeq xs \<Rightarrow> map Some xs | YMap ms \<Rightarrow> map (\<lambda>_. None) ms | _ \<Rightarrow> [])"

fun yaml_fields :: "data_env \<Rightarrow> yaml option list \<Rightarrow> schema \<Rightarrow> bool \<times> schema" where
  "yaml_fields E [] schema = (True, schema)"
| "yaml_fields E (field # rest) schema =
     (case bindR (yaml_string E field ''name'') (\<lambda>col_name. bindR (yaml_int E field ''type'') (\<lambda>type. Inr (col_name, type))) of
        Inr f \<Rightarrow> yaml_fields E rest (schema @ [f])
      | Inl _ \<Rightarrow> (False, schema))"

definition ParseSchema_yaml :: "data_env \<Rightarrow> yaml \<Rightarrow> DataSetAccessInfo \<Rightarrow> retcode \<times> DataSetAccessInfo" where
  "ParseSchema_yaml E yaml_schema ai =
     (if ai_schema ai \<noteq> [] then (SUCCESS, ai)
      else case yaml_fields E (yaml_children yaml_schema) [] of
             (False, s) \<Rightarrow> (FAIL, ai\<lparr>ai_schema := s\<rparr>)
           | (True, s) \<Rightarrow> (SUCCESS, MakeArrowSchema (ai\<lparr>ai_schema := s\<rparr>)))"

text \<open>A member that need not be there.\<close>

definition yaml_optional :: "data_env \<Rightarrow> yaml option \<Rightarrow> string \<Rightarrow> string \<Rightarrow> string res" where
  "yaml_optional E y name old =
     bindR (yaml_at y name) (\<lambda>m. if m = None then Inr old else as_string E m)"

definition sqlite_ParseFromYaml :: "data_env \<Rightarrow> yaml option \<Rightarrow> access_kind res" where
  "sqlite_ParseFromYaml E y =
     catch_as
       (bindR (yaml_string E y ''source'') (\<lambda>db_path. bindR (yaml_string E y ''table_name'') (\<lambda>table_name.
          Inr (SQLiteAccess db_path table_name))))
       (Inl (Code 1))"

definition mysql_ParseFromYaml :: "data_env \<Rightarrow> yaml option \<Rightarrow> mysql_info \<Rightarrow> access_kind res" where
  "mysql_ParseFromYaml E y my =
     bindR (yaml_string E y ''host'') (\<lambda>ip. bindR (yaml_int E y ''port'') (\<lambda>port.
     bindR (yaml_string E y ''username'') (\<lambda>user_name. bindR (yaml_string E y ''password'') (\<lambda>password.
     bindR (yaml_optional E y ''database'' (my_database my)) (\<lambda>database.
     bindR (yaml_string E y ''dbName'') (\<lambda>db_name. bindR (yaml_string E y ''tableName'') (\<lambda>table_name.
     bindR (yaml_optional E y ''dbUrl'' (my_db_url my)) (\<lambda>db_url.
       Inr (MySQLAccess (my\<lparr>my_ip := ip, my_port := word_of_int port, my_user_name := user_name, my_password := password,
         my_database := database, my_db_name := db_name, my_table_name := table_name, my_db_url := db_url\<rparr>))))))))))"

definition image_ParseFromYaml :: "data_env \<Rightarrow> yaml option \<Rightarrow> access_kind res" where
  "image_ParseFromYaml E y =
     bindR (yaml_string E y ''image_dir'') (\<lambda>image_dir. bindR (yaml_string E y ''annotations_file'') (\<lambda>annotations_file.
       Inr (ImageAccess image_dir annotations_file)))"

definition ParseFromYamlConfigImpl :: "data_env \<Rightarrow> yaml option \<Rightarrow> access_kind \<Rightarrow> access_kind res" where
  "ParseFromYamlConfigImpl E y kind =
     (case kind of
        CSVAccess _ \<Rightarrow> bindR (yaml_string E y ''source'') (\<lambda>file_path. Inr (CSVAccess file_path))
      | SQLiteAccess _ _ \<Rightarrow> sqlite_ParseFromYaml E y
      | MySQLAccess my \<Rightarrow> mysql_ParseFromYaml E y my
      | ImageAccess _ _ \<Rightarrow> image_ParseFromYaml E y)"

definition fromYamlConfig :: "data_env \<Rightarrow> yaml option \<Rightarrow> DataSetAccessInfo \<Rightarrow> DataSetAccessInfo res" where
  "fromYamlConfig E y ai =
     catch_as
       (bindR (yaml_at y ''schema'') (\<lambda>js_schema.
        let ai1 = (case js_schema of Some s \<Rightarrow> snd (ParseSchema_yaml E s ai) | None \<Rightarrow> ai) in
        bindR (ParseFromYamlConfigImpl E y (ai_kind ai1)) (\<lambda>k. Inr (ai1\<lparr>ai_kind := k\<rparr>))))
       (Inl (Code 1))"

definition createAccessInfo_yaml :: "data_env \<Rightarrow> string \<Rightarrow> yaml option \<Rightarrow> DataSetAccessInfo res" where
  "createAccessInfo_yaml E driver_type y =
     bindR (createAccessInfoInternal (de_mysql E) driver_type) (\<lambda>ai. fail_raises (fromYamlConfig E y ai))"

section \<open>Reading through a driver\<close>

text \<open>\<open>dl_read\<close> gives a cursor or none, \<open>dl_readMeta\<close> the schema of what the cursor reads and the address of the data, or none.\<close>

record 'c driver_lib =
  dl_read :: "DataDriver \<Rightarrow> ('c option \<times> DataDriver) res"
  dl_readMeta :: "'c \<Rightarrow> DataDriver \<Rightarrow> (schema \<times> string) option res"

text \<open>The four drivers behind this interface. A cursor of a database takes the driver with its connection along.\<close>

definition csv_of :: "DataDriver \<Rightarrow> csv_driver" where
  "csv_of d = \<lparr>cd_access_info = dr_access_info d, cd_filePath = []\<rparr>"

definition csv_driver_lib :: "'tab csv_io \<Rightarrow> filesys \<Rightarrow> csv_cursor driver_lib" where
  "csv_driver_lib L fs =
     \<lparr>dl_read = (\<lambda>d. bindR (csv_driver_read L fs (csv_of d)) (\<lambda>(c, cd). Inr (c, d\<lparr>dr_access_info := cd_access_info cd\<rparr>))),
      dl_readMeta = (\<lambda>c d. bindR (csv_readMeta L fs (csv_of d) c) (\<lambda>tab. Inr (Some (cl_schema L tab, cc_file_path c))))\<rparr>"

definition sqlite_driver_lib ::
  "('f, 'd) float_lib \<Rightarrow> sqlite_lib \<Rightarrow> (string \<Rightarrow> int) \<Rightarrow> (sql_cursor \<times> sqlite_driver) driver_lib" where
  "sqlite_driver_lib N S trunc =
     \<lparr>dl_read = (\<lambda>d. bindR (sqlite_read S trunc (new_sqlite_driver (dr_access_info d))) (\<lambda>(c, sd).
        Inr (map_option (\<lambda>c. (c, sd)) c, d\<lparr>dr_access_info := sq_access_info sd\<rparr>))),
      dl_readMeta = (\<lambda>(c, sd) d. bindR (sqlite_readMeta N S sd c) (\<lambda>tab. Inr (Some (at_schema tab, []))))\<rparr>"

definition mysql_of :: "DataDriver \<Rightarrow> mysql_driver" where
  "mysql_of d = \<lparr>md_access_info = dr_access_info d, md_connected = False, md_table_schema = [], md_table_cols = []\<rparr>"

definition mysql_driver_lib ::
  "('f, 'd) float_lib \<Rightarrow> mysql_lib \<Rightarrow> (string \<Rightarrow> int) \<Rightarrow> (sql_cursor \<times> mysql_driver) driver_lib" where
  "mysql_driver_lib N M trunc =
     \<lparr>dl_read = (\<lambda>d. bindR (mysql_GetCursor_all M trunc (mysql_of d)) (\<lambda>(c, md).
        Inr (map_option (\<lambda>c. (c, md)) c, d\<lparr>dr_access_info := md_access_info md\<rparr>))),
      dl_readMeta = (\<lambda>(c, md) d. bindR (mysql_readMeta N M md c) (\<lambda>tab. Inr (Some (at_schema tab, []))))\<rparr>"

definition image_driver_lib :: "'tab csv_io \<Rightarrow> filesys \<Rightarrow> unit driver_lib" where
  "image_driver_lib L fs =
     \<lparr>dl_read = (\<lambda>d. Inr (Some (), d)),
      dl_readMeta = (\<lambda>_ d. bindR (image_cursor_read L fs (dr_access_info d)) (\<lambda>tab. Inr (map_option (\<lambda>t. (cl_schema L t, [])) tab)))\<rparr>"

section \<open>The service\<close>

record dataset_service =
  ds_driver_manager :: "DataDriver std_map"
  ds_nodelet_addr :: string

definition registerDriver :: "string \<Rightarrow> DataDriver \<Rightarrow> dataset_service \<Rightarrow> dataset_service" where
  "registerDriver dataset_id driver ds = ds\<lparr>ds_driver_manager := map_assign dataset_id driver (ds_driver_manager ds)\<rparr>"

definition unRegisterDriver :: "string \<Rightarrow> dataset_service \<Rightarrow> dataset_service" where
  "unRegisterDriver dataset_id ds =
     ds\<lparr>ds_driver_manager := filter (\<lambda>e. fst e \<noteq> dataset_id) (ds_driver_manager ds)\<rparr>"

text \<open>
  \<^verbatim>\<open>newDataset\<close>: the description that was stored, or none. The driver is returned with the schema it may have found.
\<close>

definition newDataset ::
  "'c driver_lib \<Rightarrow> (MetaInfo \<Rightarrow> 'n \<Rightarrow> (bool \<times> bool) \<times> 'n) \<Rightarrow> DataDriver \<Rightarrow> string \<Rightarrow> string \<Rightarrow> 'n \<Rightarrow>
   (DatasetMeta option \<times> DataDriver \<times> 'n) res" where
  "newDataset D NewDataset_rpc driver dataset_id dataset_access_info n =
     bindR (dl_read D driver) (\<lambda>(cursor, driver1).
       case cursor of
         None \<Rightarrow> Inr (None, driver1, n)
       | Some c \<Rightarrow>
           bindR (dl_readMeta D c driver1) (\<lambda>dataset.
             case dataset of
               None \<Rightarrow> Inr (None, driver1, n)
             | Some (schema, url) \<Rightarrow>
                 let meta = dataset_meta schema (dr_type driver1) (dr_nodelet driver1) url dataset_id PUBLIC dataset_access_info in
                 bindR (PutMeta NewDataset_rpc meta n) (\<lambda>(ret, n').
                   Inr (if ret = SUCCESS then Some meta else None, driver1, n'))))"

definition regDataset :: "(MetaInfo \<Rightarrow> 'n \<Rightarrow> (bool \<times> bool) \<times> 'n) \<Rightarrow> DatasetMeta \<Rightarrow> 'n \<Rightarrow> 'n res" where
  "regDataset NewDataset_rpc meta n = bindR (PutMeta NewDataset_rpc meta n) (\<lambda>(_, n'). Inr n')"

text \<open>\<^verbatim>\<open>readDataset\<close>: \<open>read_url\<close> is what a driver reads at an address; the result says what the handler was given.\<close>

definition readDataset ::
  "(string list \<Rightarrow> 'n \<Rightarrow> (bool \<times> GetDatasetResponse) \<times> 'n) \<Rightarrow> bool \<Rightarrow> (DataDriver \<Rightarrow> string \<Rightarrow> 'a res) \<Rightarrow> dataset_service \<Rightarrow>
   string \<Rightarrow> 'n \<Rightarrow> (retcode \<times> 'a option res) \<times> 'n" where
  "readDataset GetDataset_rpc mysql read_url ds dataset_id n =
     (let ((_, h), n') = GetMeta GetDataset_rpc
        (\<lambda>meta _. case bindR (getDriver mysql (dm_driver_type meta) (ds_nodelet_addr ds) None) (\<lambda>driver. read_url driver (dm_data_url meta)) of
           Inr dataset \<Rightarrow> (SUCCESS, Inr (Some dataset))
         | Inl e \<Rightarrow> (FAIL, Inl e)) dataset_id (Inr None) n in
      ((SUCCESS, h), n'))"

definition deleteDataset :: "string \<Rightarrow> dataset_service \<Rightarrow> retcode \<times> dataset_service" where
  "deleteDataset dataset_id ds = (SUCCESS, ds)"

text \<open>
  \<^verbatim>\<open>getDriver\<close>, from the text of a description or through the meta service. A null driver is \<open>None\<close>. The
  first three steps with the text are outside the block that catches exceptions.
\<close>

definition make_driver :: "data_env \<Rightarrow> dataset_service \<Rightarrow> DatasetMetaInfo \<Rightarrow> DataDriver res" where
  "make_driver E ds meta_info =
     bindR (createAccessInfo (de_mysql E) (de_trunc E) (de_parse E) (de_exists E) (dmi_driver_type meta_info) meta_info) (\<lambda>access_info.
       getDriver (de_mysql E) (dmi_driver_type meta_info) (ds_nodelet_addr ds) (Some access_info))"

definition getDriver_access :: "data_env \<Rightarrow> dataset_service \<Rightarrow> string \<Rightarrow> DataDriver option res" where
  "getDriver_access E ds dataset_id =
     bindR (nl_parse (de_parse E) dataset_id) (\<lambda>oJson. bindR (member oJson ''type'') (\<lambda>driver_type.
     bindR (bindR (member oJson ''schema'') (nl_parse (de_parse E))) (\<lambda>filed_list.
     bindR (field_items (de_trunc E) (concat (map nl_items (nl_elements filed_list)))) (\<lambda>schema.
       catch_as
         (bindR (make_driver E ds \<lparr>dmi_id = [], dmi_driver_type = driver_type, dmi_access_info = dataset_id, dmi_schema = schema\<rparr>)
            (\<lambda>driver. Inr (Some driver)))
         (Inr None)))))"

definition driver_handler ::
  "data_env \<Rightarrow> dataset_service \<Rightarrow> DatasetMeta \<Rightarrow> DataDriver option res \<Rightarrow> retcode \<times> DataDriver option res" where
  "driver_handler E ds meta h =
     (case dm_schema meta of
        None \<Rightarrow> (FAIL, Inl (Undefined ''null schema''))
      | Some schema \<Rightarrow>
          (case make_driver E ds \<lparr>dmi_id = dm_id meta, dmi_driver_type = dm_driver_type meta, dmi_access_info = dm_access_meta meta,
               dmi_schema = schema\<rparr> of
             Inr driver \<Rightarrow> (SUCCESS, Inr (Some driver))
           | Inl (Undefined m) \<Rightarrow> (FAIL, Inl (Undefined m))
           | Inl _ \<Rightarrow> (FAIL, h)))"

definition service_getDriver ::
  "data_env \<Rightarrow> (string list \<Rightarrow> 'n \<Rightarrow> (bool \<times> GetDatasetResponse) \<times> 'n) \<Rightarrow> dataset_service \<Rightarrow> string \<Rightarrow> bool \<Rightarrow> 'n \<Rightarrow>
   DataDriver option res \<times> 'n" where
  "service_getDriver E GetDataset_rpc ds dataset_id is_access_info n =
     (if is_access_info then (getDriver_access E ds dataset_id, n)
      else let ((_, driver), n') = GetMeta GetDataset_rpc (driver_handler E ds) dataset_id (Inr None) n in (driver, n'))"

text \<open>\<^verbatim>\<open>restoreDatasetFromLocalStorage\<close>: what is thrown for one description leaves out the rest of its steps.\<close>

definition restore_one ::
  "data_env \<Rightarrow> (MetaInfo \<Rightarrow> 'n \<Rightarrow> (bool \<times> bool) \<times> 'n) \<Rightarrow> DatasetMeta \<Rightarrow> dataset_service \<times> 'n \<Rightarrow> dataset_service \<times> 'n" where
  "restore_one E NewDataset_rpc meta s =
     (let (ds, n) = s in
      case bindR (meta_toJSON (de_dump E) meta) (\<lambda>meta_info.
           bindR (createAccessInfo_text (de_mysql E) (de_trunc E) (de_parse E) (dm_driver_type meta) meta_info) (\<lambda>access_info.
             getDriver (de_mysql E) (dm_driver_type meta) (ds_nodelet_addr ds) (Some access_info))) of
        Inl _ \<Rightarrow> (ds, n)
      | Inr driver \<Rightarrow>
          let ds1 = registerDriver (dm_description meta) driver ds in
          (case PutMeta NewDataset_rpc (meta\<lparr>dm_server_meta := ds_nodelet_addr ds\<rparr>) n of
             Inl _ \<Rightarrow> (ds1, n)
           | Inr (_, n') \<Rightarrow> (ds1, n')))"

definition restoreDatasetFromLocalStorage ::
  "data_env \<Rightarrow> (MetaInfo \<Rightarrow> 'n \<Rightarrow> (bool \<times> bool) \<times> 'n) \<Rightarrow> (string list \<Rightarrow> 'n \<Rightarrow> (bool \<times> GetDatasetResponse) \<times> 'n) \<Rightarrow>
   dataset_service \<Rightarrow> 'n \<Rightarrow> dataset_service \<times> 'n" where
  "restoreDatasetFromLocalStorage E NewDataset_rpc GetDataset_rpc ds n =
     (let ((_, metas), n1) = GetAllMetas GetDataset_rpc [] n in fold (restore_one E NewDataset_rpc) metas (ds, n1))"

text \<open>\<^verbatim>\<open>loadDefaultDatasets\<close>: the driver reads twice, and what is thrown for one dataset does not stop the others.\<close>

definition load_one ::
  "data_env \<Rightarrow> 'c driver_lib \<Rightarrow> (MetaInfo \<Rightarrow> 'n \<Rightarrow> (bool \<times> bool) \<times> 'n) \<Rightarrow> string \<Rightarrow> yaml option \<Rightarrow> dataset_service \<times> 'n \<Rightarrow>
   dataset_service \<times> 'n" where
  "load_one E D NewDataset_rpc nodelet_addr dataset s =
     (let (ds, n) = s in
      case bindR (yaml_string E dataset ''model'') (\<lambda>dataset_type. bindR (yaml_string E dataset ''description'') (\<lambda>dataset_uid.
           bindR (createAccessInfo_yaml E dataset_type dataset) (\<lambda>access_info.
           bindR (getDriver (de_mysql E) dataset_type nodelet_addr (Some access_info)) (\<lambda>driver.
             Inr (dataset_uid, access_toString (de_dump E) access_info, driver))))) of
        Inl _ \<Rightarrow> (ds, n)
      | Inr (dataset_uid, access_info_str, driver) \<Rightarrow>
          (case dl_read D driver of
             Inl _ \<Rightarrow> (registerDriver dataset_uid driver ds, n)
           | Inr (None, driver1) \<Rightarrow> (registerDriver dataset_uid driver1 ds, n)
           | Inr (Some _, driver1) \<Rightarrow>
               (case newDataset D NewDataset_rpc driver1 dataset_uid access_info_str n of
                  Inl _ \<Rightarrow> (registerDriver dataset_uid driver1 ds, n)
                | Inr (_, driver2, n') \<Rightarrow> (registerDriver dataset_uid driver2 ds, n'))))"

definition loadDefaultDatasets ::
  "data_env \<Rightarrow> 'c driver_lib \<Rightarrow> (MetaInfo \<Rightarrow> 'n \<Rightarrow> (bool \<times> bool) \<times> 'n) \<Rightarrow> string \<Rightarrow> yaml \<Rightarrow> dataset_service \<Rightarrow> 'n \<Rightarrow>
   (dataset_service \<times> 'n) res" where
  "loadDefaultDatasets E D NewDataset_rpc nodelet_addr config ds n =
     bindR (yaml_at (Some config) ''datasets'') (\<lambda>datasets.
       case datasets of
         None \<Rightarrow> Inr (ds, n)
       | Some y \<Rightarrow> Inr (fold (load_one E D NewDataset_rpc nodelet_addr) (yaml_children y) (ds, n)))"

section \<open>The contract of a driver\<close>

text \<open>
  Reading may fill in the schema of a driver, but keeps what it is and where its data is. Then what \<^verbatim>\<open>newDataset\<close> publishes
  is about the driver it was given.
\<close>

definition same_source :: "DataDriver \<Rightarrow> DataDriver \<Rightarrow> bool" where
  "same_source d d' \<longleftrightarrow> dr_type d' = dr_type d \<and> dr_nodelet d' = dr_nodelet d \<and>
     map_option ai_kind (dr_access_info d') = map_option ai_kind (dr_access_info d)"

locale driver_contract =
  fixes D :: "'c driver_lib"
  assumes read_keeps: "dl_read D d = Inr (c, d') \<Longrightarrow> same_source d d'"
begin

lemma newDataset_keeps:
  assumes "newDataset D put d i acc n = Inr (m, d', n')"
  shows "same_source d d'"
proof -
  obtain c d1 where "dl_read D d = Inr (c, d1)" "d' = d1"
    using assms by (auto simp: newDataset_def bindR_eq_Inr Let_def split: option.splits)
  then show ?thesis using read_keeps by blast
qed

lemma newDataset_published:
  assumes "newDataset D put d i acc n = Inr (Some m, d', n')"
  shows "dm_id m = i \<and> dm_access_meta m = acc \<and> dm_driver_type m = dr_type d \<and> dm_server_meta m = dr_nodelet d \<and> dm_visibility m = Some PUBLIC"
proof -
  obtain c d1 schema url where "dl_read D d = Inr (c, d1)"
    "m = dataset_meta schema (dr_type d1) (dr_nodelet d1) url i PUBLIC acc"
    using assms by (auto simp: newDataset_def bindR_eq_Inr Let_def split: option.splits if_splits)
  with read_keeps [of d c d1] show ?thesis by (simp add: same_source_def dataset_meta_def)
qed

end

lemma csv_driver_read_kind:
  "csv_driver_read L fs d = Inr (c, d') \<Longrightarrow> map_option ai_kind (cd_access_info d') = map_option ai_kind (cd_access_info d)"
  by (auto simp: csv_driver_read_def initCursor_def bindR_eq_Inr SetDatasetSchema_def MakeArrowSchema_def Let_def
      split: option.splits access_kind.splits if_splits)

interpretation csv_data: driver_contract "csv_driver_lib L fs" for L fs
  by unfold_locales (auto simp: csv_driver_lib_def csv_of_def same_source_def bindR_eq_Inr dest!: csv_driver_read_kind)

lemma ParseSchema_kind [simp]: "ai_kind (snd (ParseSchema trunc j ai)) = ai_kind ai"
  by (simp add: ParseSchema_def MakeArrowSchema_def split: prod.split bool.split)

lemma table_rows_info_kept: "table_rows rows (d, js) = Inr (d', js') \<Longrightarrow> sq_access_info d' = sq_access_info d"
  by (induction rows "(d, js)" arbitrary: d js rule: table_rows.induct) auto

lemma GetDBTableSchema_kind:
  "GetDBTableSchema S trunc db d = Inr (ret, d') \<Longrightarrow> map_option ai_kind (sq_access_info d') = map_option ai_kind (sq_access_info d)"
  by (auto simp: GetDBTableSchema_def bindR_eq_Inr split: option.splits access_kind.splits)

lemma sqlite_connection_info: "sqlite_connection S path d = Inr (db, d') \<Longrightarrow> sq_access_info d' = sq_access_info d"
  by (auto simp: sqlite_connection_def split: option.splits if_splits)

lemma sqlite_read_kind:
  "sqlite_read S trunc d = Inr (c, d') \<Longrightarrow> map_option ai_kind (sq_access_info d') = map_option ai_kind (sq_access_info d)"
  by (auto simp: sqlite_read_def Let_def split: option.splits access_kind.splits if_splits
      dest!: sqlite_connection_info GetDBTableSchema_kind)

interpretation sqlite_data: driver_contract "sqlite_driver_lib N S trunc" for N S trunc
  by unfold_locales
    (auto simp: sqlite_driver_lib_def new_sqlite_driver_def same_source_def bindR_eq_Inr dest!: sqlite_read_kind)

lemma getTableSchema_kind:
  assumes "getTableSchema M trunc ai my d = Inr (ret, d')" "md_access_info d = Some ai"
  shows "map_option ai_kind (md_access_info d') = Some (ai_kind ai)"
proof -
  obtain answer where a: "executeQuery M my (schema_query (my_db_name my) (my_table_name my)) = Inr answer"
    using assms(1) by (auto simp: getTableSchema_def bindR_eq_Inr)
  show ?thesis
  proof (cases answer)
    case None
    then show ?thesis using assms a by (simp add: getTableSchema_def)
  next
    case (Some r)
    then show ?thesis using assms a by (cases r) (auto simp: getTableSchema_def split: if_splits)
  qed
qed

lemma ensure_schema_kind:
  "ensure_schema M trunc ai my d = Inr (ret, d') \<Longrightarrow> md_access_info d = Some ai \<Longrightarrow>
   map_option ai_kind (md_access_info d') = Some (ai_kind ai)"
  by (auto simp: ensure_schema_def mysql_connect_def bindR_eq_Inr split: if_splits dest!: getTableSchema_kind)

lemma mysql_GetCursor_kind:
  "mysql_GetCursor_all M trunc d = Inr (c, d') \<Longrightarrow> map_option ai_kind (md_access_info d') = map_option ai_kind (md_access_info d)"
  by (auto simp: mysql_GetCursor_all_def bindR_eq_Inr split: if_splits option.splits access_kind.splits dest!: ensure_schema_kind)

interpretation mysql_data: driver_contract "mysql_driver_lib N M trunc" for N M trunc
  by unfold_locales (auto simp: mysql_driver_lib_def mysql_of_def same_source_def bindR_eq_Inr dest!: mysql_GetCursor_kind)

interpretation image_data: driver_contract "image_driver_lib L fs" for L fs
  by unfold_locales (simp add: image_driver_lib_def same_source_def)

section \<open>Making drivers\<close>

lemma make_driver_text:
  assumes "readable_text (de_parse E) (de_dump E) ai" "all_columns (ai_kind ai)" "kind_name (ai_kind ai) = ''MYSQL'' \<longrightarrow> de_mysql E"
    and "dmi_access_info m = access_toString (de_dump E) ai" "dmi_driver_type m = kind_name (ai_kind ai)"
  shows "make_driver E ds m = Inr \<lparr>dr_type = kind_name (ai_kind ai), dr_nodelet = ds_nodelet_addr ds,
    dr_access_info = Some \<lparr>ai_schema = dmi_schema m, ai_arrow_schema = (if dmi_schema m = [] then None else Some (FromFields (dmi_schema m))),
      ai_kind = ai_kind ai\<rparr>\<rparr>"
  using createAccessInfo_text_kind [OF assms(1,2,4), of "dmi_driver_type m" "de_mysql E" "de_trunc E" "de_exists E"] assms(3,5)
    getDriver_kind [of "dmi_driver_type m" "ai_kind ai" "de_mysql E"]
  by (simp add: make_driver_def)

lemma doc_members:
  "member (access_doc dump ai) ''type'' = Inr (kind_name (ai_kind ai))"
  "member (access_doc dump ai) ''schema'' =
     (if kind_name (ai_kind ai) = ''CSV'' \<or> kind_name (ai_kind ai) = ''MYSQL'' then Inr (SchemaToJsonString dump ai)
      else Inl (Raised ''type_error''))"
  by (cases "ai_kind ai"; simp add: member_def access_doc_def csv_doc_def sqlite_doc_def mysql_doc_def image_doc_def nl_at_def nl_string_def kind_name_def)+

text \<open>What the client of the meta service hands on has no address of the data and no description.\<close>

lemma PbMetaInfoToMeta_empty:
  "dm_data_url (PbMetaInfoToMeta pb new_DatasetMeta) = []" "dm_description (PbMetaInfoToMeta pb new_DatasetMeta) = []"
  by (simp_all add: PbMetaInfoToMeta_def new_DatasetMeta_def)

lemma restore_one_names:
  "dm_description meta = [] \<Longrightarrow>
   fst ` set (ds_driver_manager (fst (restore_one E put meta s))) \<subseteq> insert [] (fst ` set (ds_driver_manager (fst s)))"
  by (cases s) (auto simp: restore_one_def registerDriver_def map_assign_def Let_def split: sum.splits prod.splits)

lemma restore_all_names:
  "\<forall>meta \<in> set metas. dm_description meta = [] \<Longrightarrow>
   fst ` set (ds_driver_manager (fst (fold (restore_one E put) metas s))) \<subseteq> insert [] (fst ` set (ds_driver_manager (fst s)))"
proof (induction metas arbitrary: s)
  case (Cons meta metas)
  have "fst ` set (ds_driver_manager (fst (fold (restore_one E put) metas (restore_one E put meta s)))) \<subseteq>
      insert [] (fst ` set (ds_driver_manager (fst (restore_one E put meta s))))"
    using Cons.prems by (intro Cons.IH) simp
  moreover have "fst ` set (ds_driver_manager (fst (restore_one E put meta s))) \<subseteq> insert [] (fst ` set (ds_driver_manager (fst s)))"
    using Cons.prems by (intro restore_one_names) simp
  ultimately show ?case by auto
qed auto

section \<open>Properties\<close>

text \<open>
  The text of a description as an id. \<^verbatim>\<open>getDriver\<close> with the flag \<^verbatim>\<open>is_acces_info\<close> takes the text that \<^verbatim>\<open>toString\<close> writes. For
  a CSV file or a MySQL table whose schema is known it gives a driver of this kind for this place, with that
  schema. For the same kinds without a schema, and for SQLite tables and images always, it raises
  an exception: their texts have no schema to read.
\<close>

theorem driver_from_text:
  assumes "readable_text (de_parse E) (de_dump E) ai" "all_columns (ai_kind ai)" "kind_name (ai_kind ai) = ''MYSQL'' \<longrightarrow> de_mysql E"
    and "de_parse E [] = None" "\<And>s. ai_arrow_schema ai = Some s \<Longrightarrow> de_parse E (schema_toJSON (de_dump E) s) = Some (schema_doc s)"
  shows "service_getDriver E get ds (access_toString (de_dump E) ai) True n =
    (if kind_name (ai_kind ai) = ''CSV'' \<or> kind_name (ai_kind ai) = ''MYSQL'' then
       (case ai_arrow_schema ai of
          None \<Rightarrow> Inl (Raised ''parse_error'')
        | Some s \<Rightarrow> Inr (Some \<lparr>dr_type = kind_name (ai_kind ai), dr_nodelet = ds_nodelet_addr ds,
            dr_access_info = Some \<lparr>ai_schema = s, ai_arrow_schema = (if s = [] then None else Some (FromFields s)), ai_kind = ai_kind ai\<rparr>\<rparr>))
     else Inl (Raised ''type_error''), n)"
proof -
  have p: "de_parse E (access_toString (de_dump E) ai) = Some (access_doc (de_dump E) ai)"
    using assms(1) by (simp add: readable_text_def)
  show ?thesis
  proof (cases "ai_arrow_schema ai")
    case None
    then show ?thesis using assms(4) by (simp add: service_getDriver_def getDriver_access_def p doc_members SchemaToJsonString_def nl_parse_def)
  next
    case (Some s)
    have f: "field_items (de_trunc E) (concat (map nl_items (nl_elements (schema_doc s)))) = Inr s"
      using field_items_doc [of "de_trunc E" s] by (simp add: schema_doc_def nl_elements_def)
    show ?thesis
      using Some assms(5) [OF Some] f
        make_driver_text [OF assms(1-3), of "\<lparr>dmi_id = [], dmi_driver_type = kind_name (ai_kind ai),
          dmi_access_info = access_toString (de_dump E) ai, dmi_schema = s\<rparr>" ds]
      by (simp add: service_getDriver_def getDriver_access_def p doc_members SchemaToJsonString_def nl_parse_def)
  qed
qed

definition photo_info :: DataSetAccessInfo where
  "photo_info = \<lparr>ai_schema = [], ai_arrow_schema = None, ai_kind = ImageAccess ''d'' ''a.csv''\<rparr>"

definition photo_env :: data_env where
  "photo_env = \<lparr>de_mysql = False, de_trunc = (\<lambda>_. 0),
     de_parse = (\<lambda>s. if s = ''photos'' then Some (access_doc (\<lambda>_. ''photos'') photo_info) else None), de_dump = (\<lambda>_. ''photos''),
     de_exists = (\<lambda>_. True), de_null = Inr ''null'', de_as_int = (\<lambda>_. None)\<rparr>"

theorem driver_from_text_witness:
  "service_getDriver photo_env (\<lambda>_ n. ((False, \<lparr>gd_success = False, gd_data_set = []\<rparr>), n)) \<lparr>ds_driver_manager = [], ds_nodelet_addr = ''n''\<rparr>
    ''photos'' True () = (Inl (Raised ''type_error''), ())"
  using driver_from_text [of photo_env photo_info "\<lambda>_ n. ((False, \<lparr>gd_success = False, gd_data_set = []\<rparr>), n)"
      "\<lparr>ds_driver_manager = [], ds_nodelet_addr = ''n''\<rparr>" "()"]
  by (simp add: photo_env_def photo_info_def readable_text_def access_toString_def all_columns_def kind_name_def)

text \<open>
  Restoring the datasets of the meta service: however many descriptions it has, the table of drivers gets
  no other name than the empty one, because the descriptions that the client builds have none.
\<close>

theorem restored_without_names:
  "fst ` set (ds_driver_manager (fst (restoreDatasetFromLocalStorage E put get ds n))) \<subseteq> insert [] (fst ` set (ds_driver_manager ds))"
proof -
  obtain ret metas n1 where g: "GetAllMetas get [] n = ((ret, metas), n1)" by (metis prod.exhaust)
  then have "\<forall>meta \<in> set metas. dm_description meta = []"
    by (auto simp: GetAllMetas_def PbMetaInfoToMeta_empty split: option.splits prod.splits if_splits)
  from restore_all_names [OF this, of E put "(ds, n1)"] show ?thesis by (simp add: restoreDatasetFromLocalStorage_def g)
qed

text \<open>Reading a dataset by its id: the driver is asked for the data at the empty address, whatever was registered.\<close>

lemma readDataset_no_address:
  assumes "\<And>d. read_url d [] = Inl e" "get [i] n = ((True, \<lparr>gd_success = True, gd_data_set = dataset # others\<rparr>), n')"
    and "dd_available dataset" "getDriver mysql (mi_driver (dd_meta_info dataset)) (ds_nodelet_addr ds) None = Inr d"
  shows "readDataset get mysql read_url ds i n = ((SUCCESS, Inl e), n')"
proof -
  have "meta_retry (get [i]) 0 n = (Some \<lparr>gd_success = True, gd_data_set = dataset # others\<rparr>, n')"
    by (subst meta_retry.simps) (simp add: assms(2))
  moreover have "dm_driver_type (PbMetaInfoToMeta pb new_DatasetMeta) = mi_driver pb" for pb
    by (simp add: PbMetaInfoToMeta_def)
  ultimately show ?thesis
    using assms(1,3,4) by (simp add: readDataset_def GetMeta_def PbMetaInfoToMeta_empty)
qed

end
