(* ===== verification/Data_Node.thy ===== *)
theory Data_Node
  imports Dataset_Service
begin

text \<open>
  The gRPC service of a node for its data, \<^verbatim>\<open>node/ds.cc\<close>: registering datasets, and downloading files, where one thread reads
  blocks into a queue and another sends them.
\<close>

section \<open>Registering datasets\<close>

text \<open>A reply starts with the code zero, success, and empty texts.\<close>

record NewDatasetResponse =
  nr_ret_code :: retcode
  nr_dataset_url :: string
  nr_ret_msg :: string

definition new_response :: NewDatasetResponse where
  "new_response = \<lparr>nr_ret_code = SUCCESS, nr_dataset_url = [], nr_ret_msg = []\<rparr>"

definition SetResponseErrorMsg :: "string \<Rightarrow> NewDatasetResponse \<Rightarrow> NewDatasetResponse" where
  "SetResponseErrorMsg err_msg reply = reply\<lparr>nr_ret_code := FAIL, nr_ret_msg := err_msg\<rparr>"

definition ConvertToDatasetMetaInfo :: "MetaInfo \<Rightarrow> DatasetMetaInfo" where
  "ConvertToDatasetMetaInfo pb =
     \<lparr>dmi_id = mi_id pb, dmi_driver_type = mi_driver pb, dmi_access_info = mi_access_info pb, dmi_schema = mi_data_type pb\<rparr>"

definition what :: "failure \<Rightarrow> string" where
  "what e = (case e of Raised m \<Rightarrow> take 1024 m | _ \<Rightarrow> [])"

text \<open>
  \<^verbatim>\<open>RegisterDatasetProcess\<close>. The service keeps the driver object, so what the driver finds out while reading is seen in
  its table as well. Without a dataset the message is the one of the thread, which is never set.
\<close>

definition RegisterDatasetProcess ::
  "data_env \<Rightarrow> 'c driver_lib \<Rightarrow> (MetaInfo \<Rightarrow> 'n \<Rightarrow> (bool \<times> bool) \<times> 'n) \<Rightarrow> string \<Rightarrow> DatasetMetaInfo \<Rightarrow> NewDatasetResponse \<Rightarrow>
   dataset_service \<Rightarrow> 'n \<Rightarrow> (retcode \<times> NewDatasetResponse \<times> dataset_service \<times> 'n) res" where
  "RegisterDatasetProcess E D NewDataset_rpc location meta_info reply ds n =
     (case bindR (createAccessInfo (de_mysql E) (de_trunc E) (de_parse E) (de_exists E) (dmi_driver_type meta_info) meta_info) (\<lambda>access_info.
           bindR (getDriver (de_mysql E) (dmi_driver_type meta_info) location (Some access_info)) (\<lambda>driver.
             Inr (access_toString (de_dump E) access_info, driver))) of
        Inl (Undefined m) \<Rightarrow> Inl (Undefined m)
      | Inl e \<Rightarrow> Inr (FAIL, SetResponseErrorMsg (what e) reply, ds, n)
      | Inr (access_meta, driver) \<Rightarrow>
          (case newDataset D NewDataset_rpc driver (dmi_id meta_info) access_meta n of
             Inl (Undefined m) \<Rightarrow> Inl (Undefined m)
           | Inl e \<Rightarrow> Inr (FAIL, SetResponseErrorMsg (what e) reply, registerDriver (dmi_id meta_info) driver ds, n)
           | Inr (None, driver1, n') \<Rightarrow>
               Inr (FAIL, SetResponseErrorMsg [] reply,
                 unRegisterDriver (dmi_id meta_info) (registerDriver (dmi_id meta_info) driver1 ds), n')
           | Inr (Some mate, driver1, n') \<Rightarrow>
               Inr (SUCCESS, reply\<lparr>nr_ret_code := SUCCESS, nr_dataset_url := dm_data_url mate\<rparr>,
                 registerDriver (dmi_id meta_info) driver1 ds, n')))"

definition UnRegisterDatasetProcess :: "DatasetMetaInfo \<Rightarrow> NewDatasetResponse \<Rightarrow> retcode \<times> NewDatasetResponse" where
  "UnRegisterDatasetProcess meta_info reply = (SUCCESS, reply\<lparr>nr_ret_code := SUCCESS\<rparr>)"

fun duplicate_field :: "string list \<Rightarrow> schema \<Rightarrow> string option" where
  "duplicate_field dup [] = None"
| "duplicate_field dup ((field_name, _) # rest) =
     (if field_name \<in> set dup then Some field_name else duplicate_field (field_name # dup) rest)"

definition int_text :: "int \<Rightarrow> string" where
  "int_text i = (if i < 0 then ''-'' else []) @ to_string_nat (nat \<bar>i\<bar>)"

text \<open>The operations are 0 (register), 1 (unregister) and 2 (update).\<close>

definition ds_NewDataset ::
  "data_env \<Rightarrow> 'c driver_lib \<Rightarrow> (MetaInfo \<Rightarrow> 'n \<Rightarrow> (bool \<times> bool) \<times> 'n) \<Rightarrow> string \<Rightarrow> int \<Rightarrow> MetaInfo \<Rightarrow> dataset_service \<Rightarrow> 'n \<Rightarrow>
   (NewDatasetResponse \<times> dataset_service \<times> 'n) res" where
  "ds_NewDataset E D NewDataset_rpc location op_type pb ds n =
     (let meta_info = ConvertToDatasetMetaInfo pb in
      case duplicate_field [] (dmi_schema meta_info) of
        Some field_name \<Rightarrow>
          Inr (SetResponseErrorMsg (''Duplicate Field name: '' @ field_name @ '' in dataset Schema'') new_response, ds, n)
      | None \<Rightarrow>
          if op_type = 0 \<or> op_type = 2 then
            bindR (RegisterDatasetProcess E D NewDataset_rpc location meta_info new_response ds n) (\<lambda>(_, r). Inr r)
          else if op_type = 1 then Inr (snd (UnRegisterDatasetProcess meta_info new_response), ds, n)
          else Inr (SetResponseErrorMsg (''unsupported operation type: '' @ int_text op_type) new_response, ds, n))"

section \<open>Downloading files\<close>

record DataBlock =
  db_data :: string
  db_is_last :: bool
  db_file_name :: string

text \<open>The blocks of a file, \<open>B\<close> bytes each, what is left over, and the mark that ends the file.\<close>

fun full_blocks :: "nat \<Rightarrow> string \<Rightarrow> nat \<Rightarrow> string \<Rightarrow> DataBlock list" where
  "full_blocks B name 0 fin = []"
| "full_blocks B name (Suc i) fin =
     \<lparr>db_data = take B fin, db_is_last = False, db_file_name = name\<rparr> # full_blocks B name i (drop B fin)"

definition end_block :: DataBlock where
  "end_block = \<lparr>db_data = [], db_is_last = True, db_file_name = []\<rparr>"

definition file_blocks :: "nat \<Rightarrow> string \<Rightarrow> string \<Rightarrow> DataBlock list" where
  "file_blocks B name content =
     (let filesize = length content; block_num = filesize div B; last_block_size = filesize mod B in
      full_blocks B name block_num content @
      (if last_block_size \<noteq> 0
       then [\<lparr>db_data = take last_block_size (drop (block_num * B) content), db_is_last = False, db_file_name = name\<rparr>] else []))"

text \<open>
  \<^verbatim>\<open>DownloadDataImpl\<close>: what is pushed, and the exception that ends it. A path exists (\<open>exists\<close>) or not; what can be read is
  in the files.
\<close>

fun DownloadDataImpl ::
  "nat \<Rightarrow> string \<Rightarrow> (string \<Rightarrow> bool) \<Rightarrow> filesys \<Rightarrow> string list \<Rightarrow> DataBlock list \<times> string option" where
  "DownloadDataImpl B storage exists fs [] = ([], None)"
| "DownloadDataImpl B storage exists fs (file_name # rest) =
     (let file_path = CompletePath storage file_name in
      if \<not> exists file_path then ([], Some (''file: '' @ file_path @ '' is not exist''))
      else case map_of (fs_files fs) file_path of
             None \<Rightarrow> ([], Some (''open file '' @ file_path @ '' failed''))
           | Some content \<Rightarrow>
               let (blocks, err) = DownloadDataImpl B storage exists fs rest in
               (file_blocks B file_name content @ [end_block] @ blocks, err))"

record DownloadRespone =
  do_file_name :: string
  do_code :: retcode
  do_info :: string
  do_data :: string

definition ok_response :: "DataBlock \<Rightarrow> DownloadRespone" where
  "ok_response b = \<lparr>do_file_name = db_file_name b, do_code = SUCCESS, do_info = ''SUCCESS'', do_data = db_data b\<rparr>"

definition fail_response :: "string \<Rightarrow> DownloadRespone" where
  "fail_response msg = \<lparr>do_file_name = [], do_code = FAIL, do_info = msg, do_data = []\<rparr>"

text \<open>
  The two threads. The reader pushes its blocks (\<open>dl_todo\<close>), then, if it ends with an exception, sets the message and the
  flag and stops the queue; its function then ends without returning a value, from where on
  the behaviour is undefined (\<open>dl_undefined\<close>). The sender takes a block (the empty one from a stopped queue), sends it or the
  message, and looks at the flag again before it takes the next.
\<close>

datatype sender = Waiting | Holds DataBlock | Written | Finished

record download =
  dl_todo :: "DataBlock list"
  dl_exception :: "string option"
  dl_queue :: "DataBlock list"
  dl_error :: bool
  dl_error_msg :: string
  dl_stopped :: bool
  dl_sender :: sender
  dl_sent :: "DownloadRespone list"
  dl_undefined :: bool

definition empty_block :: DataBlock where
  "empty_block = \<lparr>db_data = [], db_is_last = False, db_file_name = []\<rparr>"

definition start_download :: "DataBlock list \<times> string option \<Rightarrow> download" where
  "start_download r = \<lparr>dl_todo = fst r, dl_exception = snd r, dl_queue = [], dl_error = False, dl_error_msg = [],
     dl_stopped = False, dl_sender = Waiting, dl_sent = [], dl_undefined = False\<rparr>"

text \<open>\<^verbatim>\<open>DownloadData\<close>: for an empty list one message is sent and nothing is started.\<close>

definition ds_DownloadData ::
  "nat \<Rightarrow> string \<Rightarrow> (string \<Rightarrow> bool) \<Rightarrow> filesys \<Rightarrow> string list \<Rightarrow> DownloadRespone list + download" where
  "ds_DownloadData B storage exists fs file_list =
     (if file_list = [] then Inl [fail_response ''download list is empty, no data file for download'']
      else Inr (start_download (DownloadDataImpl B storage exists fs file_list)))"

inductive download_step :: "download \<Rightarrow> download \<Rightarrow> bool" where
  push: "\<not> dl_undefined s \<Longrightarrow> dl_todo s = b # bs \<Longrightarrow> download_step s (s\<lparr>dl_todo := bs, dl_queue := dl_queue s @ [b]\<rparr>)"
| raise: "\<not> dl_undefined s \<Longrightarrow> dl_todo s = [] \<Longrightarrow> dl_exception s = Some msg \<Longrightarrow> \<not> dl_error s \<Longrightarrow>
    download_step s (s\<lparr>dl_error_msg := msg, dl_error := True\<rparr>)"
| shutdown: "\<not> dl_undefined s \<Longrightarrow> dl_error s \<Longrightarrow> \<not> dl_stopped s \<Longrightarrow> download_step s (s\<lparr>dl_stopped := True\<rparr>)"
| no_return: "\<not> dl_undefined s \<Longrightarrow> dl_stopped s \<Longrightarrow> download_step s (s\<lparr>dl_undefined := True\<rparr>)"
| take_block: "\<not> dl_undefined s \<Longrightarrow> dl_sender s = Waiting \<Longrightarrow> \<not> dl_stopped s \<Longrightarrow> dl_queue s = b # bs \<Longrightarrow>
    download_step s (s\<lparr>dl_queue := bs, dl_sender := (if db_is_last b then Finished else Holds b)\<rparr>)"
| take_stopped: "\<not> dl_undefined s \<Longrightarrow> dl_sender s = Waiting \<Longrightarrow> dl_stopped s \<Longrightarrow>
    download_step s (s\<lparr>dl_sender := Holds empty_block\<rparr>)"
| write_ok: "\<not> dl_undefined s \<Longrightarrow> dl_sender s = Holds b \<Longrightarrow> \<not> dl_error s \<Longrightarrow>
    download_step s (s\<lparr>dl_sent := dl_sent s @ [ok_response b], dl_sender := Written\<rparr>)"
| write_fail: "\<not> dl_undefined s \<Longrightarrow> dl_sender s = Holds b \<Longrightarrow> dl_error s \<Longrightarrow>
    download_step s (s\<lparr>dl_sent := dl_sent s @ [fail_response (dl_error_msg s)], dl_sender := Written\<rparr>)"
| again: "\<not> dl_undefined s \<Longrightarrow> dl_sender s = Written \<Longrightarrow>
    download_step s (s\<lparr>dl_sender := (if dl_error s then Finished else Waiting)\<rparr>)"

inductive_cases download_stepE: "download_step s s'"

section \<open>Blocks\<close>

lemma full_blocks_data: "concat (map db_data (full_blocks B name n c)) = take (n * B) c"
  by (induction n arbitrary: c) (simp_all add: take_add)

lemma file_blocks_data: "concat (map db_data (file_blocks B name c)) = c"
proof -
  have "take (length c div B * B) c @ take (length c mod B) (drop (length c div B * B) c) = take (length c div B * B + length c mod B) c"
    by (rule take_add [symmetric])
  then show ?thesis by (auto simp: file_blocks_def full_blocks_data Let_def)
qed

lemma full_blocks_shape:
  "b \<in> set (full_blocks B name n c) \<Longrightarrow> \<not> db_is_last b \<and> db_file_name b = name \<and> length (db_data b) \<le> B"
  by (induction n arbitrary: c) auto

lemma file_blocks_shape:
  assumes "b \<in> set (file_blocks B name c)"
  shows "\<not> db_is_last b \<and> db_file_name b = name" "0 < B \<Longrightarrow> length (db_data b) \<le> B"
proof -
  show "\<not> db_is_last b \<and> db_file_name b = name"
    using assms full_blocks_shape [of b B name] by (auto simp: file_blocks_def Let_def split: if_splits)
  assume "0 < B"
  then have "length c mod B < B" by simp
  then show "length (db_data b) \<le> B"
    using assms full_blocks_shape [of b B name] by (auto simp: file_blocks_def Let_def split: if_splits)
qed

lemma end_block_last [simp]: "db_is_last end_block" "\<not> db_is_last empty_block"
  by (simp_all add: end_block_def empty_block_def)

section \<open>What the two threads keep\<close>

text \<open>
  \<open>all\<close> is what the reader pushes in the whole run. As long as there is no error, the blocks sent, the one that is held, the queue
  and what is still to be pushed are together all blocks, in order; after an error nothing but its message is sent.
\<close>

definition held_by :: "sender \<Rightarrow> DataBlock list \<Rightarrow> bool" where
  "held_by t mid \<longleftrightarrow>
     (case t of Waiting \<Rightarrow> mid = [] | Written \<Rightarrow> mid = [] | Holds b \<Rightarrow> mid = [b] \<and> \<not> db_is_last b
      | Finished \<Rightarrow> (\<exists>e. mid = [e] \<and> db_is_last e))"

definition healthy :: "DataBlock list \<Rightarrow> DataBlock list \<Rightarrow> download \<Rightarrow> bool" where
  "healthy all sb s \<longleftrightarrow> \<not> dl_error s \<and> \<not> dl_stopped s \<and> \<not> dl_undefined s \<and> dl_sent s = map ok_response sb \<and>
     (\<exists>mid. all = sb @ mid @ dl_queue s @ dl_todo s \<and> held_by (dl_sender s) mid)"

definition broken :: "DataBlock list \<Rightarrow> download \<Rightarrow> bool" where
  "broken sb s \<longleftrightarrow> dl_error s \<and> dl_todo s = [] \<and> dl_exception s = Some (dl_error_msg s) \<and>
     (dl_sent s = map ok_response sb \<or>
      dl_sent s = map ok_response sb @ [fail_response (dl_error_msg s)] \<and> dl_sender s \<in> {Written, Finished})"

definition download_inv :: "DataBlock list \<Rightarrow> string option \<Rightarrow> download \<Rightarrow> bool" where
  "download_inv all ex s \<longleftrightarrow> dl_exception s = ex \<and>
     (\<exists>sb rest. all = sb @ rest \<and> (\<forall>b \<in> set sb. \<not> db_is_last b) \<and> (healthy all sb s \<or> broken sb s))"

lemma download_inv_start: "download_inv (fst r) (snd r) (start_download r)"
  unfolding download_inv_def
  by (intro conjI exI [of _ "[]"] exI [of _ "fst r"]) (simp_all add: healthy_def held_by_def start_download_def)

lemma healthy_step:
  assumes "healthy all sb s" "download_step s s'" "\<forall>b \<in> set sb. \<not> db_is_last b"
  shows "\<exists>sb' rest. all = sb' @ rest \<and> (\<forall>b \<in> set sb'. \<not> db_is_last b) \<and> (healthy all sb' s' \<or> broken sb' s')"
proof -
  obtain mid where h: "\<not> dl_error s" "\<not> dl_stopped s" "dl_sent s = map ok_response sb"
    "all = sb @ mid @ dl_queue s @ dl_todo s" "held_by (dl_sender s) mid"
    using assms(1) by (auto simp: healthy_def)
  from assms(2) show ?thesis
  proof cases
    case (push b bs)
    then have "healthy all sb s'" using h by (auto simp: healthy_def)
    with h(4) assms(3) show ?thesis by blast
  next
    case (raise msg)
    then have "broken sb s'" using h by (simp add: broken_def)
    with h(4) assms(3) show ?thesis by blast
  next
    case (take_block b bs)
    then have "healthy all sb s'" using h by (auto simp: healthy_def held_by_def)
    with h(4) assms(3) show ?thesis by blast
  next
    case (write_ok b)
    then have m: "mid = [b]" "\<not> db_is_last b" using h(5) by (auto simp: held_by_def)
    then have "healthy all (sb @ [b]) s'" using h write_ok by (auto simp: healthy_def held_by_def)
    with h(4) m assms(3) show ?thesis by (intro exI [of _ "sb @ [b]"] exI [of _ "dl_queue s @ dl_todo s"]) auto
  next
    case again
    then have "healthy all sb s'" using h by (auto simp: healthy_def held_by_def)
    with h(4) assms(3) show ?thesis by blast
  qed (use h in auto)
qed

lemma broken_step: "broken sb s \<Longrightarrow> download_step s s' \<Longrightarrow> broken sb s'"
  by (erule download_stepE) (auto simp: broken_def split: if_splits)

lemma step_exception: "download_step s s' \<Longrightarrow> dl_exception s' = dl_exception s"
  by (erule download_stepE) auto

lemma download_inv_step:
  assumes "download_inv all ex s" "download_step s s'"
  shows "download_inv all ex s'"
proof -
  obtain sb rest where i: "all = sb @ rest" "\<forall>b \<in> set sb. \<not> db_is_last b" "healthy all sb s \<or> broken sb s"
    using assms(1) by (auto simp: download_inv_def)
  then have "\<exists>sb' rest. all = sb' @ rest \<and> (\<forall>b \<in> set sb'. \<not> db_is_last b) \<and> (healthy all sb' s' \<or> broken sb' s')"
    using healthy_step [OF _ assms(2)] broken_step [OF _ assms(2)] by blast
  then show ?thesis using assms(1) step_exception [OF assms(2)] by (simp add: download_inv_def)
qed

lemma download_inv_run: "download_step\<^sup>*\<^sup>* s s' \<Longrightarrow> download_inv all ex s \<Longrightarrow> download_inv all ex s'"
  by (induction rule: rtranclp_induct) (auto intro: download_inv_step)

text \<open>The blocks before the first end mark are those of the first file.\<close>

lemma before_end:
  assumes "sb @ rest = xs @ e # ys" "\<forall>b \<in> set sb. \<not> db_is_last b" "\<forall>b \<in> set xs. \<not> db_is_last b" "db_is_last e"
  shows "\<exists>k. sb = take k xs" "rest = e' # zs \<Longrightarrow> db_is_last e' \<Longrightarrow> sb = xs"
proof -
  have *: "length sb \<le> length xs"
  proof (rule ccontr)
    assume "\<not> length sb \<le> length xs"
    then have "(sb @ rest) ! length xs \<in> set sb" by (simp add: nth_append)
    with assms show False by auto
  qed
  then have sb: "sb = take (length sb) xs"
    using arg_cong [OF assms(1), of "take (length sb)"] by simp
  then show "\<exists>k. sb = take k xs" by blast
  assume r: "rest = e' # zs" "db_is_last e'"
  have "(xs @ e # ys) ! length sb = e'" using assms(1) r(1) by (metis nth_append_length)
  then have "\<not> length sb < length xs" using r(2) assms(3) by (metis nth_append nth_mem)
  with * sb show "sb = xs" by simp
qed

section \<open>The threads come to an end\<close>

definition download_weight :: "download \<Rightarrow> nat" where
  "download_weight s = 4 * length (dl_todo s) + 3 * length (dl_queue s) + (if dl_error s then 0 else 5) + (if dl_stopped s then 0 else 1) +
     (if dl_undefined s then 0 else 1) +
     (case dl_sender s of Finished \<Rightarrow> 0 | Written \<Rightarrow> 1 | Holds _ \<Rightarrow> 2 | Waiting \<Rightarrow> if dl_error s then 3 else 0)"

lemma step_weight:
  "download_step s s' \<Longrightarrow> dl_stopped s \<longrightarrow> dl_error s \<Longrightarrow> download_weight s' < download_weight s \<and> (dl_stopped s' \<longrightarrow> dl_error s')"
  by (erule download_stepE) (auto simp: download_weight_def split: sender.splits)

lemma run_weight:
  "(download_step ^^ k) s s' \<Longrightarrow> dl_stopped s \<longrightarrow> dl_error s \<Longrightarrow>
   k + download_weight s' \<le> download_weight s \<and> (dl_stopped s' \<longrightarrow> dl_error s')"
proof (induction k arbitrary: s')
  case (Suc k)
  then obtain s1 where "(download_step ^^ k) s s1" "download_step s1 s'" by auto
  with Suc step_weight [of s1 s'] show ?case by fastforce
qed simp

lemma download_progress:
  assumes "download_inv all ex s" "ex = None \<Longrightarrow> \<exists>b \<in> set all. db_is_last b" "dl_sender s \<noteq> Finished" "\<not> dl_undefined s"
  shows "\<exists>s'. download_step s s'"
proof (cases "dl_sender s")
  case Waiting
  consider "dl_stopped s" | "\<not> dl_stopped s" "dl_queue s \<noteq> []" | "dl_todo s \<noteq> []" | "\<not> dl_stopped s" "dl_error s"
    | "\<not> dl_stopped s" "\<not> dl_error s" "dl_queue s = []" "dl_todo s = []" by blast
  then show ?thesis
  proof cases
    case 2
    then obtain b bs where "dl_queue s = b # bs" by (cases "dl_queue s") auto
    with Waiting 2 show ?thesis using take_block assms(4) by blast
  next
    case 3
    then obtain b bs where "dl_todo s = b # bs" by (cases "dl_todo s") auto
    then show ?thesis using push assms(4) by blast
  next
    case 5
    obtain sb where "\<forall>b \<in> set sb. \<not> db_is_last b" "healthy all sb s \<or> broken sb s" "dl_exception s = ex"
      using assms(1) by (auto simp: download_inv_def)
    with 5 Waiting have "all = sb" by (auto simp: healthy_def broken_def held_by_def)
    with assms(2) \<open>\<forall>b \<in> set sb. \<not> db_is_last b\<close> obtain msg where "ex = Some msg" by (cases ex) auto
    with 5 \<open>dl_exception s = ex\<close> show ?thesis using raise assms(4) by blast
  qed (use Waiting take_stopped shutdown assms(4) in blast)+
next
  case (Holds b)
  then show ?thesis using write_ok write_fail assms(4) by blast
next
  case Written
  then show ?thesis using again assms(4) by blast
qed (use assms(3) in simp)

lemma DownloadDataImpl_end: "files \<noteq> [] \<Longrightarrow> snd (DownloadDataImpl B st ex fs files) = None \<Longrightarrow>
    \<exists>b \<in> set (fst (DownloadDataImpl B st ex fs files)). db_is_last b"
  by (cases files) (auto simp: Let_def split: if_splits option.splits prod.splits)

lemma download_can_finish:
  assumes "download_inv all None s" "\<exists>b \<in> set all. db_is_last b" "dl_stopped s \<longrightarrow> dl_error s"
  shows "\<exists>s'. download_step\<^sup>*\<^sup>* s s' \<and> dl_sender s' = Finished"
  using assms
proof (induction "download_weight s" arbitrary: s rule: less_induct)
  case less
  show ?case
  proof (cases "dl_sender s = Finished")
    case False
    have "\<not> dl_undefined s" using less.prems(1) by (auto simp: download_inv_def healthy_def broken_def)
    then obtain s1 where s1: "download_step s s1" using download_progress less.prems(1,2) False by blast
    with less.hyps [of s1] step_weight [OF s1 less.prems(3)] download_inv_step [OF less.prems(1) s1] less.prems(2)
    obtain s' where "download_step\<^sup>*\<^sup>* s1 s'" "dl_sender s' = Finished" by blast
    with s1 show ?thesis by (meson converse_rtranclp_into_rtranclp)
  qed blast
qed

section \<open>Through the meta service and back\<close>

text \<open>A meta service that gives the description registered last under an id.\<close>

definition meta_store ::
  "(MetaInfo \<Rightarrow> 'n \<Rightarrow> (bool \<times> bool) \<times> 'n) \<Rightarrow> (string list \<Rightarrow> 'n \<Rightarrow> (bool \<times> GetDatasetResponse) \<times> 'n) \<Rightarrow> bool" where
  "meta_store put get \<longleftrightarrow>
     (\<forall>pb n. \<exists>n' n''. put pb n = ((True, True), n') \<and>
        get [mi_id pb] n' = ((True, \<lparr>gd_success = True, gd_data_set = [\<lparr>dd_available = True, dd_meta_info = pb\<rparr>]\<rparr>), n''))"

lemma FromFields_Nil [simp]: "FromFields s = [] \<longleftrightarrow> s = []"
  by (simp add: FromFields_def)

lemma put_then_get:
  assumes "meta_store put get" "dm_visibility m = Some v" "dm_schema m = Some schema"
  shows "\<exists>n'. PutMeta put m n = Inr (SUCCESS, n') \<and>
    (\<exists>n''. \<forall>handler h. GetMeta get handler (dm_id m) h n' =
      (let (ret, h') = handler (m\<lparr>dm_data_url := [], dm_description := [], dm_data_type := Some TABLE, dm_schema := Some (FromFields schema)\<rparr>) h
       in (if ret \<noteq> SUCCESS then FAIL else SUCCESS, h'), n''))"
proof -
  obtain pb where pb: "MetaToPbMetaInfo m empty_MetaInfo = Inr pb" "mi_id pb = dm_id m"
    using assms(2,3) by (auto simp: MetaToPbMetaInfo_def the_set_def empty_MetaInfo_def Let_def)
  obtain n' n'' where g: "put pb n = ((True, True), n')"
    "get [dm_id m] n' = ((True, \<lparr>gd_success = True, gd_data_set = [\<lparr>dd_available = True, dd_meta_info = pb\<rparr>]\<rparr>), n'')"
    using assms(1) pb(2) unfolding meta_store_def by metis
  have "meta_retry (put pb) 0 n = (Some True, n')" by (subst meta_retry.simps) (simp add: g(1))
  then have "PutMeta put m n = Inr (SUCCESS, n')" by (simp add: PutMeta_def pb(1))
  moreover have "meta_retry (get [dm_id m]) 0 n' = (Some \<lparr>gd_success = True, gd_data_set = [\<lparr>dd_available = True, dd_meta_info = pb\<rparr>]\<rparr>, n'')"
    by (subst meta_retry.simps) (simp add: g(2))
  ultimately show ?thesis using meta_message [OF pb(1)] assms(3) by (auto simp: GetMeta_def Let_def split: prod.splits)
qed

section \<open>Properties\<close>

text \<open>
  C19. A dataset that one node registers is found by another. Let the meta service keep what it is told, the
  description of the request be accepted, its text be readable, and a driver that keeps its contract (as the four
  drivers do) read the data. Then
  \<^verbatim>\<open>NewDataset\<close> answers with success, and afterwards \<^verbatim>\<open>getDriver\<close> of any node that knows the id gives a driver of the kind of the
  request, for the place in the request, with the schema that was read from the data, its types rebuilt from
  their ids.
\<close>

theorem registered_dataset_found:
  assumes "meta_store put get" "duplicate_field [] (mi_data_type pb) = None"
    and "createAccessInfo (de_mysql E) (de_trunc E) (de_parse E) (de_exists E) (mi_driver pb) (ConvertToDatasetMetaInfo pb) = Inr ai"
    and "all_columns (ai_kind ai)" "readable_text (de_parse E) (de_dump E) ai"
    and "dl_read D \<lparr>dr_type = kind_name (ai_kind ai), dr_nodelet = location, dr_access_info = Some ai\<rparr> = Inr (Some c, driver1)"
    and "driver_contract D" "dl_readMeta D c driver1 = Inr (Some (schema, url))"
  shows "\<exists>reply ds' n'. ds_NewDataset E D put location 0 pb ds n = Inr (reply, ds', n') \<and> nr_ret_code reply = SUCCESS \<and>
    map_of (ds_driver_manager ds') (mi_id pb) = Some driver1 \<and>
    (\<forall>other. \<exists>n''. service_getDriver E get other (mi_id pb) False n' =
      (Inr (Some \<lparr>dr_type = kind_name (ai_kind ai), dr_nodelet = ds_nodelet_addr other,
         dr_access_info = Some \<lparr>ai_schema = FromFields schema, ai_arrow_schema = (if schema = [] then None else Some (FromFields schema)),
           ai_kind = ai_kind ai\<rparr>\<rparr>), n''))"
proof -
  let ?m = "dataset_meta schema (dr_type driver1) (dr_nodelet driver1) url (mi_id pb) PUBLIC (access_toString (de_dump E) ai)"
  note k = createAccessInfo_kind [OF assms(3)]
  have t: "dr_type driver1 = kind_name (ai_kind ai)"
    using driver_contract.read_keeps [OF assms(7,6)] by (simp add: same_source_def)
  have kind: "kind_name (ai_kind ai) = ''MYSQL'' \<longrightarrow> de_mysql E" using k by auto
  have driver: "getDriver (de_mysql E) (mi_driver pb) location (Some ai) =
      Inr \<lparr>dr_type = kind_name (ai_kind ai), dr_nodelet = location, dr_access_info = Some ai\<rparr>"
    using getDriver_kind [of "mi_driver pb" "ai_kind ai"] k kind by simp
  obtain n' n'' where p: "PutMeta put ?m n = Inr (SUCCESS, n')"
    "\<And>handler (h :: DataDriver option res). GetMeta get handler (dm_id ?m) h n' =
      (let (ret, h') = handler (?m\<lparr>dm_data_url := [], dm_description := [], dm_data_type := Some TABLE, dm_schema := Some (FromFields schema)\<rparr>) h
       in (if ret \<noteq> SUCCESS then FAIL else SUCCESS, h'), n'')"
    using put_then_get [OF assms(1), of ?m PUBLIC schema n] by (auto simp: dataset_meta_def)
  have "newDataset D put \<lparr>dr_type = kind_name (ai_kind ai), dr_nodelet = location, dr_access_info = Some ai\<rparr> (mi_id pb)
      (access_toString (de_dump E) ai) n = Inr (Some ?m, driver1, n')"
    using assms(6,8) p(1) by (simp add: newDataset_def Let_def)
  with driver assms(2,3) have "ds_NewDataset E D put location 0 pb ds n =
      Inr (new_response\<lparr>nr_ret_code := SUCCESS, nr_dataset_url := dm_data_url ?m\<rparr>, registerDriver (mi_id pb) driver1 ds, n')"
    by (simp add: ds_NewDataset_def RegisterDatasetProcess_def ConvertToDatasetMetaInfo_def)
  moreover have "service_getDriver E get other (mi_id pb) False n' =
      (Inr (Some \<lparr>dr_type = kind_name (ai_kind ai), dr_nodelet = ds_nodelet_addr other,
         dr_access_info = Some \<lparr>ai_schema = FromFields schema, ai_arrow_schema = (if schema = [] then None else Some (FromFields schema)),
           ai_kind = ai_kind ai\<rparr>\<rparr>), n'')" for other
    using p(2) [of "driver_handler E other" "Inr None"] t
      make_driver_text [OF assms(5,4) kind, of "\<lparr>dmi_id = mi_id pb, dmi_driver_type = kind_name (ai_kind ai),
        dmi_access_info = access_toString (de_dump E) ai, dmi_schema = FromFields schema\<rparr>" other]
    by (simp add: service_getDriver_def dataset_meta_def driver_handler_def)
  ultimately show ?thesis by (auto simp: registerDriver_def)
qed

text \<open>The CSV file of two columns again, registered without a schema under the id \<open>x\<close>.\<close>

definition ab_request :: MetaInfo where
  "ab_request = \<lparr>mi_id = ''x'', mi_driver = ''csv'', mi_access_info = ''f'', mi_address = [], mi_visibility = PUBLIC, mi_data_type = []\<rparr>"

definition ab_env :: data_env where
  "ab_env = \<lparr>de_mysql = False, de_trunc = (\<lambda>_. 0),
     de_parse = (\<lambda>s. if s = ''doc'' then Some (access_doc (\<lambda>_. ''doc'') ab_info) else None), de_dump = (\<lambda>_. ''doc''),
     de_exists = (\<lambda>p. p = ''f''), de_null = Inr ''null'', de_as_int = (\<lambda>_. None)\<rparr>"

definition store_put :: "MetaInfo \<Rightarrow> MetaInfo \<Rightarrow> (bool \<times> bool) \<times> MetaInfo" where
  "store_put pb n = ((True, True), pb)"

definition store_get :: "string list \<Rightarrow> MetaInfo \<Rightarrow> (bool \<times> GetDatasetResponse) \<times> MetaInfo" where
  "store_get ids n = ((True, \<lparr>gd_success = True, gd_data_set = [\<lparr>dd_available = True, dd_meta_info = n\<rparr>]\<rparr>), n)"

definition ab_driver :: DataDriver where
  "ab_driver = \<lparr>dr_type = ''CSV'', dr_nodelet = ''n1'', dr_access_info = Some (SetDatasetSchema [(''a'', 9), (''b'', 24)] ab_info)\<rparr>"

lemma csv_upper: "strToUpper ''csv'' = ''CSV''"
  by code_simp

lemma ab_accepted:
  "createAccessInfo (de_mysql ab_env) (de_trunc ab_env) (de_parse ab_env) (de_exists ab_env) (mi_driver ab_request)
    (ConvertToDatasetMetaInfo ab_request) = Inr ab_info"
  by (simp add: createAccessInfo_def createAccessInfoInternal_def ab_env_def ab_request_def ConvertToDatasetMetaInfo_def csv_upper
      FromMetaInfo_def meta_info_defs nl_parse_def ab_info_def fail_raises_def)

lemma ab_read:
  "dl_read (csv_driver_lib one_reader ab_files) \<lparr>dr_type = ''CSV'', dr_nodelet = ''n1'', dr_access_info = Some ab_info\<rparr> =
     Inr (Some \<lparr>cc_file_path = ''f'', cc_selected = []\<rparr>, ab_driver)"
  "dl_readMeta (csv_driver_lib one_reader ab_files) \<lparr>cc_file_path = ''f'', cc_selected = []\<rparr> ab_driver =
     Inr (Some ([(''a'', 9), (''b'', 24)], ''f''))"
  using ab_names
  by (simp_all add: csv_driver_lib_def csv_of_def csv_driver_read_def ab_info_def ab_files_def ReadRawData_def ReadCSVData_def read_text_def
      one_reader_def initCursor_def ab_driver_def csv_readMeta_def cursor_info_def MakeCsvOptions_def deref_schema_def
      SetDatasetSchema_def MakeArrowSchema_def BuildConvertOptions_def)

theorem registered_dataset_found_witness:
  "\<exists>reply ds' n'. ds_NewDataset ab_env (csv_driver_lib one_reader ab_files) store_put ''n1'' 0 ab_request
      \<lparr>ds_driver_manager = [], ds_nodelet_addr = ''n1''\<rparr> empty_MetaInfo = Inr (reply, ds', n') \<and> nr_ret_code reply = SUCCESS \<and>
    map_of (ds_driver_manager ds') ''x'' = Some ab_driver \<and>
    (\<forall>other. \<exists>n''. service_getDriver ab_env store_get other ''x'' False n' =
      (Inr (Some \<lparr>dr_type = ''CSV'', dr_nodelet = ds_nodelet_addr other,
         dr_access_info = Some \<lparr>ai_schema = [(''a'', 9), (''b'', 23)], ai_arrow_schema = Some [(''a'', 9), (''b'', 23)],
           ai_kind = CSVAccess ''f''\<rparr>\<rparr>), n''))"
proof -
  have "meta_store store_put store_get" by (simp add: meta_store_def store_put_def store_get_def)
  moreover have "duplicate_field [] (mi_data_type ab_request) = None" by (simp add: ab_request_def)
  moreover have "all_columns (ai_kind ab_info)" "kind_name (ai_kind ab_info) = ''CSV''" by (simp_all add: ab_info_def all_columns_def kind_name_def)
  moreover have "readable_text (de_parse ab_env) (de_dump ab_env) ab_info" by (simp add: readable_text_def access_toString_def ab_env_def)
  ultimately show ?thesis
    using registered_dataset_found [of store_put store_get ab_request ab_env ab_info "csv_driver_lib one_reader ab_files" "''n1''"
        "\<lparr>cc_file_path = ''f'', cc_selected = []\<rparr>" ab_driver "[(''a'', 9), (''b'', 24)]" "''f''"
        "\<lparr>ds_driver_manager = [], ds_nodelet_addr = ''n1''\<rparr>" empty_MetaInfo] ab_accepted ab_read
    by (simp add: csv_data.driver_contract_axioms ab_request_def ab_driver_def FromFields_def MakeArrowDataType_def ab_info_def)
qed

text \<open>
  C23. Only the first file of a download arrives. The reader marks the end of every file, and the sender stops at the first
  mark. In every interleaving of the two threads, when the sender has finished a download whose first file can be
  read, it has sent some of the first blocks of this file, each with the file's name and at most \<open>B\<close> bytes, and after them at most
  the message of an error of a later file. If all files can be read, it has sent exactly the blocks of the first
  file, which make up its content: nothing of the other files that were asked for.
\<close>

theorem download_first_file:
  assumes "ds_DownloadData B storage exists fs (name # files) = Inr s0" "0 < B" "download_step\<^sup>*\<^sup>* s0 s" "dl_sender s = Finished"
    and "exists (CompletePath storage name)" "map_of (fs_files fs) (CompletePath storage name) = Some content"
  shows "\<exists>k fails. dl_sent s = map ok_response (take k (file_blocks B name content)) @ map fail_response fails \<and> length fails \<le> 1 \<and>
    (\<forall>b \<in> set (file_blocks B name content). db_file_name b = name \<and> length (db_data b) \<le> B) \<and>
    (dl_exception s0 = None \<longrightarrow> dl_sent s = map ok_response (file_blocks B name content) \<and> concat (map do_data (dl_sent s)) = content)"
proof -
  let ?fb = "file_blocks B name content"
  obtain blocks err where r: "DownloadDataImpl B storage exists fs files = (blocks, err)" by (cases "DownloadDataImpl B storage exists fs files")
  let ?all = "?fb @ end_block # blocks"
  have s0: "s0 = start_download (?all, err)" using assms(1,5,6) r by (auto simp: ds_DownloadData_def)
  have "download_inv ?all err s"
    using download_inv_run [OF assms(3)] download_inv_start [of "(?all, err)"] s0 by simp
  then obtain sb rest where i: "?all = sb @ rest" "\<forall>b \<in> set sb. \<not> db_is_last b" "healthy ?all sb s \<or> broken sb s" "dl_exception s = err"
    by (auto simp: download_inv_def)
  have nl: "\<forall>b \<in> set ?fb. \<not> db_is_last b" using file_blocks_shape by blast
  obtain k where k: "sb = take k ?fb" using before_end(1) [OF i(1) [symmetric] i(2) nl] by auto
  have sent: "\<exists>fails. dl_sent s = map ok_response sb @ map fail_response fails \<and> length fails \<le> 1"
    using i(3) by (auto simp: healthy_def broken_def intro: exI [of _ "[]"] exI [of _ "[dl_error_msg s]"])
  have "dl_sent s = map ok_response ?fb" if "err = None"
  proof -
    have h: "healthy ?all sb s" using i(3,4) that by (auto simp: broken_def)
    then obtain e where "?all = sb @ e # dl_queue s @ dl_todo s" "db_is_last e"
      using assms(4) by (auto simp: healthy_def held_by_def)
    then have "sb = ?fb" using before_end(2) [of sb "e # dl_queue s @ dl_todo s" ?fb end_block blocks e] i(2) nl by simp
    with h show ?thesis by (simp add: healthy_def)
  qed
  moreover have "do_data \<circ> ok_response = db_data" by (simp add: fun_eq_iff ok_response_def)
  ultimately have "err = None \<longrightarrow> dl_sent s = map ok_response ?fb \<and> concat (map do_data (dl_sent s)) = content"
    using file_blocks_data [of B name content] by simp
  moreover have "dl_exception s0 = err" by (simp add: s0 start_download_def)
  moreover have "\<forall>b \<in> set ?fb. db_file_name b = name \<and> length (db_data b) \<le> B" using file_blocks_shape assms(2) by blast
  moreover obtain fails where "dl_sent s = map ok_response (take k ?fb) @ map fail_response fails" "length fails \<le> 1"
    using sent unfolding k by blast
  ultimately show ?thesis by metis
qed

text \<open>Two files of three and one byte, in blocks of two bytes.\<close>

definition two_files :: filesys where
  "two_files = \<lparr>fs_files = [(''/a'', ''xyz''), (''/b'', ''w'')], fs_dirs = []\<rparr>"

definition two_downloads :: download where
  "two_downloads = start_download (DownloadDataImpl 2 [] (\<lambda>_. True) two_files [''/a'', ''/b''])"

lemma two_blocks: "file_blocks 2 ''/a'' ''xyz'' =
    [\<lparr>db_data = ''xy'', db_is_last = False, db_file_name = ''/a''\<rparr>, \<lparr>db_data = ''z'', db_is_last = False, db_file_name = ''/a''\<rparr>]"
  by code_simp

theorem download_first_file_witness:
  "\<exists>s. download_step\<^sup>*\<^sup>* two_downloads s \<and> dl_sender s = Finished \<and> concat (map do_data (dl_sent s)) = ''xyz''"
proof -
  let ?r = "DownloadDataImpl 2 [] (\<lambda>_. True) two_files [''/a'', ''/b'']"
  have x: "snd ?r = None" "\<exists>b \<in> set (fst ?r). db_is_last b"
    by (auto simp: two_files_def CompletePath_def)
  then obtain s where s: "download_step\<^sup>*\<^sup>* two_downloads s" "dl_sender s = Finished"
    using download_can_finish [of "fst ?r" two_downloads] download_inv_start [of ?r] by (auto simp: two_downloads_def start_download_def)
  have "ds_DownloadData 2 [] (\<lambda>_. True) two_files (''/a'' # [''/b'']) = Inr two_downloads"
    by (simp add: ds_DownloadData_def two_downloads_def)
  moreover have "dl_exception two_downloads = None" using x by (simp add: two_downloads_def start_download_def)
  moreover have "map_of (fs_files two_files) (CompletePath [] ''/a'') = Some ''xyz''" by (simp add: two_files_def CompletePath_def)
  ultimately have "concat (map do_data (dl_sent s)) = ''xyz''"
    using download_first_file [of 2 "[]" "\<lambda>_. True" two_files "''/a''" "[''/b'']" two_downloads s "''xyz''"] s by auto
  with s show ?thesis by blast
qed

text \<open>
  C24. Where a download ends. From the start of a download of at least one file, no run of the two threads has more
  than four steps for each block and seven more. A run that has come to its end has, if all files can be read, pushed all
  blocks and finished sending, without undefined behaviour; if a file cannot be read, every run ends in the
  undefined behaviour of the reader's function, which leaves its handler of exceptions without returning a value.
\<close>

theorem download_ends:
  assumes "ds_DownloadData B storage exists fs file_list = Inr s0"
  shows "((download_step ^^ k) s0 s \<longrightarrow> k \<le> 4 * length (dl_todo s0) + 7) \<and>
    (download_step\<^sup>*\<^sup>* s0 s \<and> (\<nexists>s'. download_step s s') \<longrightarrow>
      (if dl_exception s0 = None then dl_sender s = Finished \<and> dl_todo s = [] \<and> \<not> dl_undefined s else dl_undefined s))"
proof -
  let ?r = "DownloadDataImpl B storage exists fs file_list"
  have s0: "s0 = start_download ?r" "file_list \<noteq> []" using assms by (auto simp: ds_DownloadData_def split: if_splits)
  have st: "dl_stopped s0 \<longrightarrow> dl_error s0" "download_weight s0 = 4 * length (dl_todo s0) + 7" "dl_exception s0 = snd ?r"
    by (simp_all add: s0 start_download_def download_weight_def)
  have "if snd ?r = None then dl_sender s = Finished \<and> dl_todo s = [] \<and> \<not> dl_undefined s else dl_undefined s"
    if run: "download_step\<^sup>*\<^sup>* s0 s" and stuck: "\<nexists>s'. download_step s s'"
  proof -
    have inv: "download_inv (fst ?r) (snd ?r) s" using download_inv_run [OF run] download_inv_start [of ?r] s0(1) by simp
    have todo: "dl_undefined s \<or> dl_todo s = []" using stuck push by (cases "dl_todo s") blast+
    show ?thesis
    proof (cases "snd ?r")
      case None
      have u: "\<not> dl_undefined s" using inv None by (auto simp: download_inv_def healthy_def broken_def)
      then have "dl_sender s = Finished" using download_progress [OF inv DownloadDataImpl_end [OF s0(2)]] stuck by blast
      then show ?thesis using None u todo by simp
    next
      case (Some msg)
      then have "dl_exception s = Some msg" using inv by (simp add: download_inv_def)
      then have "dl_undefined s" using todo stuck raise shutdown no_return by blast
      then show ?thesis using Some by simp
    qed
  qed
  then show ?thesis using run_weight [of k s0 s] st by auto
qed

definition missing_download :: download where
  "missing_download = start_download (DownloadDataImpl 2 [] (\<lambda>p. p \<noteq> ''/c'') two_files [''/c''])"

theorem download_ends_witness:
  "\<exists>s. download_step\<^sup>*\<^sup>* missing_download s \<and> dl_undefined s"
proof -
  let ?s1 = "missing_download\<lparr>dl_error_msg := ''file: /c is not exist'', dl_error := True\<rparr>"
  let ?s2 = "?s1\<lparr>dl_stopped := True\<rparr>" and ?s = "?s1\<lparr>dl_stopped := True, dl_undefined := True\<rparr>"
  have m: "missing_download = start_download ([], Some ''file: /c is not exist'')" by (simp add: missing_download_def CompletePath_def)
  have 1: "download_step missing_download ?s1" by (rule raise) (simp_all add: m start_download_def)
  have 2: "download_step ?s1 ?s2" by (rule shutdown) (simp_all add: m start_download_def)
  have 3: "download_step ?s2 ?s" using no_return [of ?s2] by (simp add: m start_download_def)
  have run: "download_step\<^sup>*\<^sup>* missing_download ?s"
    using 1 2 3 by (meson converse_rtranclp_into_rtranclp r_into_rtranclp)
  have "\<nexists>s'. download_step ?s s'" by (auto elim!: download_stepE)
  then have "dl_undefined ?s"
    using download_ends [of 2 "[]" "\<lambda>p. p \<noteq> ''/c''" two_files "[''/c'']" missing_download 0 ?s] run
    by (simp add: ds_DownloadData_def missing_download_def CompletePath_def start_download_def)
  with run show ?thesis by blast
qed

end
