(* ===== verification/Psi_Data.thy ===== *)
theory Psi_Data
  imports Csv_Driver "HOL-Library.Multiset"
begin

text \<open>
  The data of a set intersection, \<^verbatim>\<open>kernel/psi/util.cc\<close>: which columns may be used, reading the rows of a table with several
  threads, and saving rows as a CSV file. The threads of a loop write to different places of one vector; what they
  do together is modelled as their writes in any order (\<open>il\<close>). Numbers of rows are below \<open>2^31\<close>, as the loops with
  32-bit indexes need.
\<close>

section \<open>Threads that fill a vector\<close>

text \<open>The writes are pairs of a place and what is written there; \<open>g\<close> combines it with the old value.\<close>

definition par_writes ::
  "('b \<Rightarrow> 'a \<Rightarrow> 'a) \<Rightarrow> ((nat \<times> 'b) list \<Rightarrow> (nat \<times> 'b) list) \<Rightarrow> (nat \<times> 'b) list \<Rightarrow> 'a list \<Rightarrow> 'a list res" where
  "par_writes g il ws v =
     (if list_all (\<lambda>w. fst w < length v) ws then Inr (fold (\<lambda>(p, x) u. u[p := g x (u ! p)]) (il ws) v)
      else Inl (Undefined ''element outside the vector''))"

definition any_writes :: "('w list \<Rightarrow> 'w list) \<Rightarrow> bool" where
  "any_writes il \<longleftrightarrow> (\<forall>ws. mset (il ws) = mset ws)"

section \<open>Types of columns\<close>

definition isNumeric32Type :: "int \<Rightarrow> bool" where
  "isNumeric32Type type_id \<longleftrightarrow> type_id \<in> {2, 3, 4, 5, 6, 7}"

definition isNumeric64Type :: "int \<Rightarrow> bool" where
  "isNumeric64Type type_id \<longleftrightarrow> type_id \<in> {8, 9}"

definition isNumeric :: "int \<Rightarrow> bool" where
  "isNumeric type_id \<longleftrightarrow> isNumeric64Type type_id \<or> isNumeric32Type type_id"

definition isString :: "int \<Rightarrow> bool" where
  "isString type_id \<longleftrightarrow> type_id = 13 \<or> type_id = 14 \<or> type_id = 15"

definition IsValidDataType :: "int \<Rightarrow> bool" where
  "IsValidDataType type_id \<longleftrightarrow> isNumeric type_id \<or> isString type_id"

definition validationDataColum :: "int list \<Rightarrow> nat \<Rightarrow> bool" where
  "validationDataColum data_cols table_max_colums \<longleftrightarrow> length data_cols = table_max_colums"

section \<open>Rows of a table\<close>

text \<open>A table of texts: for each column its name and its chunks.\<close>

record text_table =
  tt_num_rows :: nat
  tt_columns :: "(string \<times> string list list) list"

definition DATA_RECORD_SEP :: string where
  "DATA_RECORD_SEP = ''####''"

text \<open>The first column fills the rows, the others are appended.\<close>

definition set_cell :: "string \<Rightarrow> string \<Rightarrow> string" where
  "set_cell x old = x"

definition append_cell :: "string \<Rightarrow> string \<Rightarrow> string" where
  "append_cell x old = old @ DATA_RECORD_SEP @ x"

text \<open>
  One chunk: the rows are divided evenly among the threads; a remainder is given to one thread more, which takes as
  many rows as the others.
\<close>

definition worker_threads :: "nat \<Rightarrow> nat" where
  "worker_threads cpu_core_num = nat (max (int (cpu_core_num div 2) - 1) 1)"

definition array_threads :: "nat \<Rightarrow> nat \<Rightarrow> nat" where
  "array_threads cores element_number =
     (let thread_num = worker_threads cores in
      if element_number < 100000 \<or> element_number \<le> thread_num then 1 else thread_num)"

text \<open>The numbers of elements of a thread are \<^verbatim>\<open>int32_t\<close> in the code; chunks of up to \<open>2 ^ 30\<close> rows stay in this range.\<close>

definition array_ranges :: "nat \<Rightarrow> nat \<Rightarrow> (nat \<times> nat) list" where
  "array_ranges thread_num element_number =
     (let element_per_thread = element_number div thread_num;
          threads = (if element_per_thread * thread_num < element_number then thread_num + 1 else thread_num) in
      map (\<lambda>i. (i * element_per_thread, min ((i + 1) * element_per_thread) element_number)) [0..<threads])"

definition range_writes :: "string list \<Rightarrow> nat \<times> nat \<Rightarrow> (nat \<times> string) list" where
  "range_writes cells r = map (\<lambda>j. (j, cells ! j)) [fst r..<snd r]"

fun extract_rest ::
  "((nat \<times> string) list \<Rightarrow> (nat \<times> string) list) \<Rightarrow> (nat \<times> nat) list \<Rightarrow> (string \<times> string list list) list \<Rightarrow> string list \<Rightarrow> string list \<Rightarrow>
   (retcode \<times> string list \<times> string list) res" where
  "extract_rest il ranges [] col_data col_name = Inr (SUCCESS, col_data, col_name)"
| "extract_rest il ranges ((name, chunks) # rest) col_data col_name =
     (case chunks of
        [cells] \<Rightarrow>
          if \<not> list_all (\<lambda>r. snd r \<le> length cells) ranges then Inl (Undefined ''cell outside the column'')
          else bindR (par_writes append_cell il (concat (map (range_writes cells) ranges)) col_data) (\<lambda>col_data1.
            extract_rest il ranges rest col_data1 (col_name @ [name]))
      | _ \<Rightarrow> Inr (FAIL, col_data, col_name @ [name]))"

definition ExtractDataFromArray ::
  "((nat \<times> string) list \<Rightarrow> (nat \<times> string) list) \<Rightarrow> nat \<Rightarrow> text_table \<Rightarrow> string list \<Rightarrow> string list \<Rightarrow> (retcode \<times> string list \<times> string list) res" where
  "ExtractDataFromArray il cores table col_data col_name =
     (case tt_columns table of
        (name, [cells]) # rest \<Rightarrow>
          let ranges = array_ranges (array_threads cores (length cells)) (length cells) in
          bindR (par_writes set_cell il (concat (map (range_writes cells) ranges)) col_data) (\<lambda>col_data1.
            extract_rest il ranges rest col_data1 (col_name @ [name]))
      | _ \<Rightarrow> Inr (FAIL, col_data, col_name))"

text \<open>
  Several chunks: the chunks are divided among at most ten threads, the last one takes the rest. A thread starts at
  the place where the first column's chunks say. Without a chunk the number of threads is zero, and a division by it stops the process.
\<close>

definition chunk_threads :: "nat \<Rightarrow> nat \<Rightarrow> nat" where
  "chunk_threads cores chunk_size =
     (let thread_num = nat (max (min (int (cores div 2) - 1) 10) 1) in if chunk_size \<le> thread_num then chunk_size else thread_num)"

definition chunk_ranges :: "nat \<Rightarrow> nat \<Rightarrow> (nat \<times> nat) list" where
  "chunk_ranges thread_num chunk_size =
     (let chunk_per_thread = chunk_size div thread_num;
          threads = (if chunk_per_thread * thread_num < chunk_size then thread_num + 1 else thread_num) in
      map (\<lambda>i. (i * chunk_per_thread, if i = threads - 1 then chunk_size else (i + 1) * chunk_per_thread)) [0..<threads])"

definition chunk_writes :: "nat list \<Rightarrow> string list list \<Rightarrow> nat \<times> nat \<Rightarrow> (nat \<times> string) list" where
  "chunk_writes trunk_index chunks r =
     enumerate (sum_list (take (fst r) trunk_index)) (concat (drop (fst r) (take (snd r) chunks)))"

fun trunk_rest ::
  "((nat \<times> string) list \<Rightarrow> (nat \<times> string) list) \<Rightarrow> (nat \<times> nat) list \<Rightarrow> nat list \<Rightarrow> (string \<times> string list list) list \<Rightarrow> string list \<Rightarrow>
   string list \<Rightarrow> (retcode \<times> string list \<times> string list) res" where
  "trunk_rest il ranges lens [] col_data col_name = Inr (SUCCESS, col_data, col_name)"
| "trunk_rest il ranges lens ((name, chunks) # rest) col_data col_name =
     (if length chunks \<noteq> length lens then Inr (FAIL, col_data, col_name @ [name])
      else bindR (par_writes append_cell il (concat (map (chunk_writes lens chunks) ranges)) col_data) (\<lambda>col_data1.
             trunk_rest il ranges lens rest col_data1 (col_name @ [name])))"

definition ExtractDataFromTrunkArray ::
  "((nat \<times> string) list \<Rightarrow> (nat \<times> string) list) \<Rightarrow> nat \<Rightarrow> text_table \<Rightarrow> string list \<Rightarrow> string list \<Rightarrow> (retcode \<times> string list \<times> string list) res" where
  "ExtractDataFromTrunkArray il cores table col_data col_name =
     (case tt_columns table of
        [] \<Rightarrow> Inl (Undefined ''column 0'')
      | (name, chunks) # rest \<Rightarrow>
          let thread_num = chunk_threads cores (length chunks); lens = map length chunks; ranges = chunk_ranges thread_num (length chunks) in
          if thread_num = 0 then Inl (Undefined ''division by zero'')
          else bindR (par_writes set_cell il (concat (map (chunk_writes lens chunks) ranges)) col_data) (\<lambda>col_data1.
                 trunk_rest il ranges lens rest col_data1 (col_name @ [name])))"

text \<open>What the two report is not looked at.\<close>

definition LoadDatasetFromTable ::
  "((nat \<times> string) list \<Rightarrow> (nat \<times> string) list) \<Rightarrow> nat \<Rightarrow> text_table \<Rightarrow> (retcode \<times> string list \<times> string list) res" where
  "LoadDatasetFromTable il cores table =
     (let col_data = replicate (tt_num_rows table) [] in
      case tt_columns table of
        [] \<Rightarrow> Inr (FAIL, col_data, [])
      | (_, chunks) # _ \<Rightarrow>
          bindR (if length chunks = 1 then ExtractDataFromArray il cores table col_data []
                 else ExtractDataFromTrunkArray il cores table col_data []) (\<lambda>(_, r). Inr (SUCCESS, r)))"

text \<open>
  \<^verbatim>\<open>LoadDatasetInternal\<close>: \<open>read\<close> is what the cursor for the selected columns gives for the schema asked for, \<open>None\<close> when
  it is null. The types are checked, then every column is asked for as text.
\<close>

fun text_schema :: "schema \<Rightarrow> int list \<Rightarrow> schema res" where
  "text_schema s [] = Inr []"
| "text_schema s (index # rest) =
     (if index < 0 \<or> int (length s) \<le> index then Inl (Undefined ''schema index'')
      else let field = s ! nat index in
           if \<not> IsValidDataType (snd field) then Inl (Raised (fst field @ '' is not supported for PSI''))
           else bindR (text_schema s rest) (\<lambda>fs. Inr ((fst field, 13) # fs)))"

definition LoadDatasetInternal ::
  "((nat \<times> string) list \<Rightarrow> (nat \<times> string) list) \<Rightarrow> nat \<Rightarrow> schema \<Rightarrow> bool \<Rightarrow> (schema \<Rightarrow> text_table option res) \<Rightarrow> int list \<Rightarrow>
   (retcode \<times> string list \<times> string list) res" where
  "LoadDatasetInternal il cores schema has_cursor read col_index =
     (if \<not> has_cursor then Inr (FAIL, [], [])
      else bindR (text_schema schema col_index) (\<lambda>new_schema. bindR (read new_schema) (\<lambda>ds.
        case ds of
          None \<Rightarrow> Inr (FAIL, [], [])
        | Some table \<Rightarrow>
            if \<not> validationDataColum col_index (length (tt_columns table)) then Inr (FAIL, [], [])
            else LoadDatasetFromTable il cores table)))"

section \<open>Saving rows\<close>

text \<open>A row is split at the separator; a last cell that is empty is lost there.\<close>

fun split_rows :: "nat \<Rightarrow> string list \<Rightarrow> string list list res" where
  "split_rows n [] = Inr []"
| "split_rows n (row # rows) =
     (case str_split_pattern row DATA_RECORD_SEP of
        None \<Rightarrow> Inl (Undefined ''endless loop'')
      | Some vec \<Rightarrow>
          if length vec \<noteq> n then Inl (Raised ''number of data columns does not match, expected: '')
          else bindR (split_rows n rows) (\<lambda>r. Inr (vec # r)))"

definition result_columns :: "string list \<Rightarrow> string list \<Rightarrow> string list list res" where
  "result_columns data col_names =
     (if length col_names = 1 then Inr [data]
      else bindR (split_rows (length col_names) data) (\<lambda>rows. Inr (map (\<lambda>j. map (\<lambda>row. row ! j) rows) [0..<length col_names])))"

text \<open>\<open>mk\<close> makes the table of the names, all declared as 64-bit integers, and the columns of text.\<close>

definition SaveDataToCSVFile ::
  "'tab csv_io \<Rightarrow> (schema \<Rightarrow> string list list \<Rightarrow> 'tab) \<Rightarrow> string list \<Rightarrow> string \<Rightarrow> string list \<Rightarrow> filesys \<Rightarrow> (retcode \<times> filesys) res" where
  "SaveDataToCSVFile L mk data file_path col_names fs =
     bindR (result_columns data col_names) (\<lambda>cols.
       let (v, fs1) = ValidateDir L file_path fs in
       if v \<noteq> 0 then Inl (Raised (''Can'' @ CHR 0x27 # ''t access file path: '' @ file_path))
       else bindR (csv_write L (mk (map (\<lambda>n. (n, 9)) col_names) cols) file_path fs1) (\<lambda>(ret, fs2).
         if ret \<noteq> 0 then Inl (Raised (''Save PSI result to file '' @ file_path @ '' failed.'')) else Inr (SUCCESS, fs2)))"

section \<open>Writes in any order\<close>

lemma fold_writes_length [simp]: "length (fold (\<lambda>(p, x) u. u[p := g x (u ! p)]) ws v) = length v"
  by (induction ws arbitrary: v) auto

lemma fold_writes_other:
  "q \<notin> fst ` set ws \<Longrightarrow> fold (\<lambda>(p, x) u. u[p := g x (u ! p)]) ws v ! q = v ! q"
  by (induction ws arbitrary: v) auto

lemma fold_writes_nth:
  assumes "distinct (map fst ws)" "(q, x) \<in> set ws" "q < length v"
  shows "fold (\<lambda>(p, x) u. u[p := g x (u ! p)]) ws v ! q = g x (v ! q)"
  using assms
proof (induction ws arbitrary: v)
  case (Cons w ws)
  show ?case
  proof (cases "w = (q, x)")
    case True
    then show ?thesis using Cons.prems by (simp add: fold_writes_other)
  next
    case False
    then have w: "(q, x) \<in> set ws" using Cons.prems(2) by simp
    then have "q \<in> set (map fst ws)" by force
    then have "fst w \<noteq> q" using Cons.prems(1) by auto
    then show ?thesis using Cons w by (cases w) simp
  qed
qed simp

lemma par_writes_all:
  assumes "any_writes il" "mset ws = mset (enumerate 0 xs)" "length xs = length v"
  shows "par_writes g il ws v = Inr (map2 g xs v)"
proof -
  have m: "mset (il ws) = mset (enumerate 0 xs)" using assms(1,2) by (simp add: any_writes_def)
  have s: "set (il ws) = set (enumerate 0 xs)" "set ws = set (enumerate 0 xs)" using m assms(2) by (metis set_mset_mset)+
  have "mset (map fst (il ws)) = mset (map fst (enumerate 0 xs))" using m by (metis mset_map)
  then have "mset (map fst (il ws)) = mset [0..<length xs]" by (simp add: map_fst_enumerate)
  then have d: "distinct (map fst (il ws))" using distinct_upt mset_eq_imp_distinct_iff by blast
  have "fold (\<lambda>(p, x) u. u[p := g x (u ! p)]) (il ws) v = map2 g xs v"
  proof (rule nth_equalityI)
    fix q assume "q < length (fold (\<lambda>(p, x) u. u[p := g x (u ! p)]) (il ws) v)"
    then have q: "q < length v" by simp
    then have "(q, xs ! q) \<in> set (il ws)" unfolding s using assms(3) by (simp add: in_set_enumerate_eq)
    with d q assms(3) show "fold (\<lambda>(p, x) u. u[p := g x (u ! p)]) (il ws) v ! q = map2 g xs v ! q"
      by (simp add: fold_writes_nth)
  qed (use assms(3) in simp)
  moreover have "list_all (\<lambda>w. fst w < length v) ws"
    unfolding list_all_iff s using assms(3) by (auto simp: in_set_enumerate_eq)
  ultimately show ?thesis by (simp add: par_writes_def)
qed

section \<open>The threads share the work\<close>

lemma concat_blocks: "concat (map (\<lambda>i. [i * p..<(i + 1) * p]) [0..<k]) = [0..<k * p]"
proof (induction k)
  case (Suc k)
  have "[0..<Suc k * p] = [0..<k * p] @ [k * p..<k * p + p]" using upt_add_eq_append [of 0 "k * p" p] by (simp add: add.commute)
  then show ?case using Suc by (simp add: add.commute)
qed simp

text \<open>All rows are read once, provided that the remainder is no larger than the share of a thread.\<close>

lemma array_ranges_cover:
  assumes "0 < t" "n mod t \<le> n div t"
  shows "concat (map (\<lambda>r. [fst r..<snd r]) (array_ranges t n)) = [0..<n]"
proof -
  let ?p = "n div t"
  have n: "n = t * ?p + n mod t" by simp
  have first: "map (\<lambda>i. [i * ?p..<min ((i + 1) * ?p) n]) [0..<t] = map (\<lambda>i. [i * ?p..<(i + 1) * ?p]) [0..<t]"
  proof (intro map_cong refl)
    fix i assume "i \<in> set [0..<t]"
    then have "(i + 1) * ?p \<le> t * ?p" by (intro mult_le_mono1) auto
    then have "min ((i + 1) * ?p) n = (i + 1) * ?p" using n by (intro min_absorb1) linarith
    then show "[i * ?p..<min ((i + 1) * ?p) n] = [i * ?p..<(i + 1) * ?p]" by (simp only:)
  qed
  show ?thesis
  proof (cases "?p * t < n")
    case True
    have "(t + 1) * ?p = t * ?p + ?p" by simp
    then have last: "min ((t + 1) * ?p) n = n" using n assms(2) by (intro min_absorb2) linarith
    have "concat (map (\<lambda>r. [fst r..<snd r]) (array_ranges t n)) =
        concat (map (\<lambda>i. [i * ?p..<min ((i + 1) * ?p) n]) [0..<t]) @ [t * ?p..<min ((t + 1) * ?p) n]"
      using True by (simp add: array_ranges_def Let_def comp_def)
    also have "\<dots> = [0..<t * ?p] @ [t * ?p..<n]" unfolding first concat_blocks last ..
    also have "\<dots> = [0..<n]" using n upt_add_eq_append [of 0 "t * ?p" "n mod t"] by simp
    finally show ?thesis .
  next
    case False
    then have e: "t * ?p = n" by (metis le_neq_implies_less mult.commute times_div_less_eq_dividend)
    have "map (\<lambda>r. [fst r..<snd r]) (array_ranges t n) = map (\<lambda>i. [i * ?p..<min ((i + 1) * ?p) n]) [0..<t]"
      using False by (simp add: array_ranges_def Let_def comp_def)
    then show ?thesis by (simp only: first concat_blocks e)
  qed
qed

lemma square_share:
  assumes "0 < t" "t * t \<le> n"
  shows "n mod t \<le> (n :: nat) div t"
proof -
  have "t \<le> n div t" using assms by (simp add: less_eq_div_iff_mult_less_eq)
  moreover have "n mod t < t" using assms(1) by simp
  ultimately show ?thesis by linarith
qed

lemma chunk_ranges_cover:
  assumes "0 < t"
  shows "concat (map (\<lambda>r. [fst r..<snd r]) (chunk_ranges t c)) = [0..<c]"
proof -
  let ?p = "c div t"
  have c: "c = t * ?p + c mod t" by simp
  show ?thesis
  proof (cases "?p * t < c")
    case True
    have first: "map (\<lambda>i. [i * ?p..<if i = t then c else (i + 1) * ?p]) [0..<t] = map (\<lambda>i. [i * ?p..<(i + 1) * ?p]) [0..<t]"
      by (intro map_cong refl) auto
    have "concat (map (\<lambda>r. [fst r..<snd r]) (chunk_ranges t c)) =
        concat (map (\<lambda>i. [i * ?p..<if i = t then c else (i + 1) * ?p]) [0..<t]) @ [t * ?p..<c]"
      using True by (simp add: chunk_ranges_def Let_def comp_def)
    also have "\<dots> = concat (map (\<lambda>i. [i * ?p..<(i + 1) * ?p]) [0..<t]) @ [t * ?p..<c]" unfolding first ..
    also have "\<dots> = [0..<c]" unfolding concat_blocks using c upt_add_eq_append [of 0 "t * ?p" "c mod t"] by simp
    finally show ?thesis .
  next
    case False
    then have e: "t * ?p = c" by (metis le_neq_implies_less mult.commute times_div_less_eq_dividend)
    have all: "map (\<lambda>i. [i * ?p..<if i = t - 1 then c else (i + 1) * ?p]) [0..<t] = map (\<lambda>i. [i * ?p..<(i + 1) * ?p]) [0..<t]"
    proof (intro map_cong refl)
      fix i
      have "i = t - 1 \<Longrightarrow> (i + 1) * ?p = c" using e assms by simp
      then show "[i * ?p..<if i = t - 1 then c else (i + 1) * ?p] = [i * ?p..<(i + 1) * ?p]" by presburger
    qed
    have "map (\<lambda>r. [fst r..<snd r]) (chunk_ranges t c) = map (\<lambda>i. [i * ?p..<if i = t - 1 then c else (i + 1) * ?p]) [0..<t]"
      using False by (simp add: chunk_ranges_def Let_def comp_def)
    then show ?thesis by (simp only: all concat_blocks e)
  qed
qed

lemma chunk_ranges_bound: "r \<in> set (chunk_ranges t c) \<Longrightarrow> fst r \<le> snd r \<and> snd r \<le> c"
proof -
  assume "r \<in> set (chunk_ranges t c)"
  then obtain i where i: "i < (if c div t * t < c then t + 1 else t)"
    "r = (i * (c div t), if i = (if c div t * t < c then t + 1 else t) - 1 then c else (i + 1) * (c div t))"
    by (auto simp: chunk_ranges_def Let_def split: if_splits)
  have le: "t * (c div t) \<le> c" by simp
  have "i * (c div t) \<le> t * (c div t)" using i(1) by (intro mult_le_mono1) (auto split: if_splits)
  then have f: "i * (c div t) \<le> c" using le by (rule order_trans)
  show ?thesis
  proof (cases "i = (if c div t * t < c then t + 1 else t) - 1")
    case True
    then show ?thesis using i(2) f by simp
  next
    case False
    then have "(i + 1) * (c div t) \<le> t * (c div t)" using i(1) by (intro mult_le_mono1) (auto split: if_splits)
    then have "(i + 1) * (c div t) \<le> c" using le by (rule order_trans)
    then show ?thesis using i(2) False by simp
  qed
qed

section \<open>What the threads write\<close>

lemma enumerate_nth: "enumerate 0 xs = map (\<lambda>j. (j, xs ! j)) [0..<length xs]"
  by (rule nth_equalityI) (simp_all add: nth_enumerate_eq)

lemma concat_map_map: "concat (map (\<lambda>r. map f (h r)) rs) = map f (concat (map h rs))"
  by (induction rs) simp_all

lemma range_writes_all:
  assumes "concat (map (\<lambda>r. [fst r..<snd r]) ranges) = [0..<length cells]"
  shows "concat (map (range_writes cells) ranges) = enumerate 0 cells"
proof -
  have "concat (map (range_writes cells) ranges) = map (\<lambda>j. (j, cells ! j)) (concat (map (\<lambda>r. [fst r..<snd r]) ranges))"
    by (simp add: range_writes_def [abs_def] concat_map_map [symmetric])
  with assms show ?thesis by (simp add: enumerate_nth)
qed

lemma enumerate_concat:
  "enumerate m (concat css) = concat (map (\<lambda>j. enumerate (m + sum_list (take j (map length css))) (css ! j)) [0..<length css])"
proof (induction css arbitrary: m)
  case (Cons cs css)
  have "[0..<length (cs # css)] = 0 # map Suc [0..<length css]" by (metis length_Cons map_Suc_upt upt_conv_Cons zero_less_Suc)
  then show ?case using Cons [of "m + length cs"] by (simp add: enumerate_append_eq comp_def add.assoc del: upt_Suc)
qed simp

lemma chunk_writes_each:
  assumes "s \<le> e" "e \<le> length chunks" "lens = map length chunks"
  shows "chunk_writes lens chunks (s, e) = concat (map (\<lambda>j. enumerate (sum_list (take j lens)) (chunks ! j)) [s..<e])"
proof -
  let ?css = "drop s (take e chunks)"
  have len: "length ?css = e - s" using assms(2) by simp
  have "chunk_writes lens chunks (s, e) =
      concat (map (\<lambda>j. enumerate (sum_list (take s lens) + sum_list (take j (map length ?css))) (?css ! j)) [0..<e - s])"
    using enumerate_concat [of "sum_list (take s lens)" ?css] len by (simp add: chunk_writes_def)
  also have "\<dots> = concat (map (\<lambda>j. enumerate (sum_list (take (s + j) lens)) (chunks ! (s + j))) [0..<e - s])"
  proof (intro arg_cong [of _ _ concat] map_cong refl)
    fix j assume "j \<in> set [0..<e - s]"
    then have j: "j < e - s" by simp
    have "take j (map length ?css) = take j (drop s lens)"
      using j assms(3) by (simp add: drop_map take_map drop_take min_def)
    then have "sum_list (take s lens) + sum_list (take j (map length ?css)) = sum_list (take (s + j) lens)"
      by (simp add: take_add)
    then show "enumerate (sum_list (take s lens) + sum_list (take j (map length ?css))) (?css ! j) =
        enumerate (sum_list (take (s + j) lens)) (chunks ! (s + j))" using j assms(1,2) by simp
  qed
  also have "\<dots> = concat (map (\<lambda>j. enumerate (sum_list (take j lens)) (chunks ! j)) (map ((+) s) [0..<e - s]))"
    by (simp add: comp_def)
  also have "map ((+) s) [0..<e - s] = [s..<e]"
  proof -
    have "(+) s = (\<lambda>i. i + s)" by (simp add: fun_eq_iff)
    then show ?thesis using map_add_upt [of s "e - s"] assms(1) by simp
  qed
  finally show ?thesis .
qed

lemma concat_map_concat: "concat (map (\<lambda>r. concat (map f (h r))) rs) = concat (map f (concat (map h rs)))"
  by (induction rs) simp_all

lemma chunk_writes_all:
  assumes "0 < t" "lens = map length chunks"
  shows "concat (map (chunk_writes lens chunks) (chunk_ranges t (length chunks))) = enumerate 0 (concat chunks)"
proof -
  have "concat (map (chunk_writes lens chunks) (chunk_ranges t (length chunks))) =
      concat (map (\<lambda>r. concat (map (\<lambda>j. enumerate (sum_list (take j lens)) (chunks ! j)) [fst r..<snd r])) (chunk_ranges t (length chunks)))"
  proof (intro arg_cong [of _ _ concat] map_cong refl)
    fix r assume "r \<in> set (chunk_ranges t (length chunks))"
    then show "chunk_writes lens chunks r = concat (map (\<lambda>j. enumerate (sum_list (take j lens)) (chunks ! j)) [fst r..<snd r])"
      using chunk_ranges_bound [of r t "length chunks"] chunk_writes_each [of "fst r" "snd r" chunks lens] assms(2) by simp
  qed
  then show ?thesis
    using chunk_ranges_cover [OF assms(1), of "length chunks"] enumerate_concat [of 0 chunks] assms(2)
    by (simp add: concat_map_concat)
qed

section \<open>The rows that are loaded\<close>

text \<open>
  A table as Arrow makes it: every column has the rows of the table, and its chunks have the lengths of the first
  column's chunks.
\<close>

definition table_wf :: "text_table \<Rightarrow> bool" where
  "table_wf table \<longleftrightarrow>
     (case tt_columns table of
        [] \<Rightarrow> False
      | (_, chunks) # rest \<Rightarrow>
          chunks \<noteq> [] \<and> length (concat chunks) = tt_num_rows table \<and> list_all (\<lambda>c. map length (snd c) = map length chunks) rest)"

definition table_cell :: "string \<times> string list list \<Rightarrow> nat \<Rightarrow> string" where
  "table_cell col i = concat (snd col) ! i"

definition table_row :: "text_table \<Rightarrow> nat \<Rightarrow> string list" where
  "table_row table i = map (\<lambda>col. table_cell col i) (tt_columns table)"

lemma join_snoc: "ws \<noteq> [] \<Longrightarrow> join sep (ws @ [w]) = join sep ws @ sep @ w"
  by (induction ws rule: induct_list012) simp_all

lemma same_chunks: "map length c = map length d \<Longrightarrow> length (concat c) = length (concat d)"
  by (simp add: length_concat)

text \<open>The columns before hold the rows \<open>P i\<close>; the others are appended to them.\<close>

lemma append_rows:
  assumes "length cells = n" "\<And>i. i < n \<Longrightarrow> P i \<noteq> []"
  shows "map2 append_cell cells (map (\<lambda>i. join DATA_RECORD_SEP (P i)) [0..<n]) =
    map (\<lambda>i. join DATA_RECORD_SEP (P i @ [cells ! i])) [0..<n]"
  using assms by (intro nth_equalityI) (simp_all add: append_cell_def join_snoc)

lemma first_rows:
  assumes "length cells = n" "length v = n"
  shows "map2 set_cell cells v = map (\<lambda>i. join DATA_RECORD_SEP [cells ! i]) [0..<n]"
  using assms by (intro nth_equalityI) (simp_all add: set_cell_def)

lemma par_append:
  assumes "any_writes il" "length cells = n" "\<And>i. P i \<noteq> []"
  shows "par_writes append_cell il (enumerate 0 cells) (map (\<lambda>i. join DATA_RECORD_SEP (P i)) [0..<n]) =
    Inr (map (\<lambda>i. join DATA_RECORD_SEP (P i @ [cells ! i])) [0..<n])"
proof -
  let ?v = "map (\<lambda>i. join DATA_RECORD_SEP (P i)) [0..<n]"
  have "par_writes append_cell il (enumerate 0 cells) ?v = Inr (map2 append_cell cells ?v)"
    by (rule par_writes_all [OF assms(1) refl]) (simp add: assms(2))
  then show ?thesis by (simp only: append_rows [OF assms(2,3)])
qed

lemma extract_rest_rows:
  assumes il: "any_writes il" and cover: "concat (map (\<lambda>r. [fst r..<snd r]) ranges) = [0..<n]"
    and ends: "list_all (\<lambda>r. snd r \<le> n) ranges" and cols: "list_all (\<lambda>c. map length (snd c) = [n]) rest"
    and P: "\<And>i. P i \<noteq> []"
  shows "extract_rest il ranges rest (map (\<lambda>i. join DATA_RECORD_SEP (P i)) [0..<n]) names =
    Inr (SUCCESS, map (\<lambda>i. join DATA_RECORD_SEP (P i @ map (\<lambda>col. table_cell col i) rest)) [0..<n], names @ map fst rest)"
  using cols P
proof (induction rest arbitrary: P names)
  case (Cons col rest)
  obtain name chunks where col: "col = (name, chunks)" by (cases col)
  then obtain cells where cells: "chunks = [cells]" "length cells = n" using Cons.prems(1) by (cases chunks) auto
  have w: "concat (map (range_writes cells) ranges) = enumerate 0 cells"
    by (rule range_writes_all) (use cover cells in simp)
  have "par_writes append_cell il (concat (map (range_writes cells) ranges)) (map (\<lambda>i. join DATA_RECORD_SEP (P i)) [0..<n]) =
      Inr (map (\<lambda>i. join DATA_RECORD_SEP (P i @ [cells ! i])) [0..<n])"
    unfolding w by (rule par_append [OF il cells(2) Cons.prems(2)])
  then show ?case
    using Cons.IH [of "\<lambda>i. P i @ [cells ! i]" "names @ [name]"] Cons.prems ends col cells by (simp add: table_cell_def)
qed simp

lemma trunk_rest_rows:
  assumes il: "any_writes il" and t: "0 < t" and n: "n = sum_list lens"
    and cols: "list_all (\<lambda>c. map length (snd c) = lens) rest" and P: "\<And>i. P i \<noteq> []"
  shows "trunk_rest il (chunk_ranges t (length lens)) lens rest (map (\<lambda>i. join DATA_RECORD_SEP (P i)) [0..<n]) names =
    Inr (SUCCESS, map (\<lambda>i. join DATA_RECORD_SEP (P i @ map (\<lambda>col. table_cell col i) rest)) [0..<n], names @ map fst rest)"
  using cols P
proof (induction rest arbitrary: P names)
  case (Cons col rest)
  obtain name chunks where col: "col = (name, chunks)" by (cases col)
  then have lens: "lens = map length chunks" using Cons.prems(1) by simp
  have len: "length (concat chunks) = n" using n lens by (simp add: length_concat)
  have w: "concat (map (chunk_writes lens chunks) (chunk_ranges t (length lens))) = enumerate 0 (concat chunks)"
    using chunk_writes_all [OF t lens] lens by simp
  have "par_writes append_cell il (concat (map (chunk_writes lens chunks) (chunk_ranges t (length lens))))
      (map (\<lambda>i. join DATA_RECORD_SEP (P i)) [0..<n]) = Inr (map (\<lambda>i. join DATA_RECORD_SEP (P i @ [concat chunks ! i])) [0..<n])"
    unfolding w by (rule par_append [OF il len Cons.prems(2)])
  then show ?case
    using Cons.IH [of "\<lambda>i. P i @ [concat chunks ! i]" "names @ [name]"] Cons.prems col lens by (simp add: table_cell_def)
qed simp

text \<open>On a machine with at most 635 hardware threads no row is left out.\<close>

lemma array_threads_share:
  assumes "cores \<le> 635"
  shows "0 < array_threads cores n" "n mod array_threads cores n \<le> n div array_threads cores n"
proof -
  let ?t = "worker_threads cores"
  have t: "0 < ?t" "?t \<le> 316" using assms by (auto simp: worker_threads_def)
  then have "?t * ?t \<le> 316 * 316" by (intro mult_le_mono) auto
  then have "n mod ?t \<le> n div ?t" if "100000 \<le> n" using that t(1) by (intro square_share) linarith+
  then show "0 < array_threads cores n" "n mod array_threads cores n \<le> n div array_threads cores n"
    using t(1) by (auto simp: array_threads_def Let_def)
qed

lemma array_ranges_end: "list_all (\<lambda>r. snd r \<le> n) (array_ranges t n)"
  by (simp add: array_ranges_def Let_def list_all_iff)

lemma array_rows:
  assumes il: "any_writes il" and cores: "cores \<le> 635"
    and cols: "tt_columns table = (name, [cells]) # rest" "list_all (\<lambda>c. map length (snd c) = [length cells]) rest"
    and len: "length v = length cells"
  shows "ExtractDataFromArray il cores table v [] =
    Inr (SUCCESS, map (\<lambda>i. join DATA_RECORD_SEP (table_row table i)) [0..<length cells], map fst (tt_columns table))"
proof -
  let ?n = "length cells"
  let ?ranges = "array_ranges (array_threads cores ?n) ?n"
  have cover: "concat (map (\<lambda>r. [fst r..<snd r]) ?ranges) = [0..<?n]"
    by (rule array_ranges_cover) (rule array_threads_share [OF cores])+
  have "par_writes set_cell il (concat (map (range_writes cells) ?ranges)) v = Inr (map (\<lambda>i. join DATA_RECORD_SEP [cells ! i]) [0..<?n])"
    unfolding range_writes_all [OF cover] using par_writes_all [OF il refl, of cells v] len first_rows [of cells ?n v] by simp
  then show ?thesis
    using extract_rest_rows [OF il cover array_ranges_end cols(2), of "\<lambda>i. [cells ! i]" "[name]"] cols(1)
    by (simp add: ExtractDataFromArray_def Let_def table_row_def table_cell_def del: join_simps)
qed

lemma trunk_rows:
  assumes il: "any_writes il" and cols: "tt_columns table = (name, chunks) # rest" "chunks \<noteq> []"
      "list_all (\<lambda>c. map length (snd c) = map length chunks) rest"
    and len: "length v = length (concat chunks)"
  shows "ExtractDataFromTrunkArray il cores table v [] =
    Inr (SUCCESS, map (\<lambda>i. join DATA_RECORD_SEP (table_row table i)) [0..<length (concat chunks)], map fst (tt_columns table))"
proof -
  let ?n = "length (concat chunks)"
  let ?t = "chunk_threads cores (length chunks)"
  have t: "0 < ?t" using cols(2) by (auto simp: chunk_threads_def Let_def)
  have n: "?n = sum_list (map length chunks)" by (simp add: length_concat)
  have "par_writes set_cell il (concat (map (chunk_writes (map length chunks) chunks) (chunk_ranges ?t (length chunks)))) v =
      Inr (map (\<lambda>i. join DATA_RECORD_SEP [concat chunks ! i]) [0..<?n])"
    unfolding chunk_writes_all [OF t refl] using par_writes_all [OF il refl, of "concat chunks" v] len first_rows [of "concat chunks" ?n v] by simp
  then show ?thesis
    using trunk_rest_rows [OF il t n cols(3), of "\<lambda>i. [concat chunks ! i]" "[name]"] cols(1) t
    by (simp add: ExtractDataFromTrunkArray_def Let_def table_row_def table_cell_def del: join_simps)
qed

lemma load_rows:
  assumes il: "any_writes il" and cores: "cores \<le> 635" and wf: "table_wf table"
  shows "LoadDatasetFromTable il cores table =
    Inr (SUCCESS, map (\<lambda>i. join DATA_RECORD_SEP (table_row table i)) [0..<tt_num_rows table], map fst (tt_columns table))"
proof -
  obtain name chunks rest where c: "tt_columns table = (name, chunks) # rest"
    using wf by (auto simp: table_wf_def split: list.splits)
  then have w: "chunks \<noteq> []" "length (concat chunks) = tt_num_rows table" "list_all (\<lambda>c. map length (snd c) = map length chunks) rest"
    using wf by (simp_all add: table_wf_def)
  show ?thesis
  proof (cases "length chunks = 1")
    case True
    then obtain cells where e: "chunks = [cells]" by (cases chunks) auto
    then have n: "length cells = tt_num_rows table" using w(2) by simp
    have "ExtractDataFromArray il cores table (replicate (tt_num_rows table) []) [] =
        Inr (SUCCESS, map (\<lambda>i. join DATA_RECORD_SEP (table_row table i)) [0..<tt_num_rows table], map fst (tt_columns table))"
      using array_rows [OF il cores, of table name cells rest "replicate (tt_num_rows table) []"] c w(3) e unfolding n by (simp add: n)
    moreover have "LoadDatasetFromTable il cores table =
        bindR (ExtractDataFromArray il cores table (replicate (tt_num_rows table) []) []) (\<lambda>(_, r). Inr (SUCCESS, r))"
      using True by (simp add: LoadDatasetFromTable_def c)
    ultimately show ?thesis by simp
  next
    case False
    have "ExtractDataFromTrunkArray il cores table (replicate (tt_num_rows table) []) [] =
        Inr (SUCCESS, map (\<lambda>i. join DATA_RECORD_SEP (table_row table i)) [0..<tt_num_rows table], map fst (tt_columns table))"
      using trunk_rows [OF il c w(1,3), of "replicate (tt_num_rows table) []" cores] unfolding w(2) by simp
    moreover have "LoadDatasetFromTable il cores table =
        bindR (ExtractDataFromTrunkArray il cores table (replicate (tt_num_rows table) []) []) (\<lambda>(_, r). Inr (SUCCESS, r))"
      using False by (simp add: LoadDatasetFromTable_def c)
    ultimately show ?thesis by simp
  qed
qed

text \<open>With more threads the last rows can stay empty: 100165 rows on 640 hardware threads are read up to row 100160.\<close>

lemma array_ranges_last:
  assumes "0 < t"
  shows "snd (last (array_ranges t n)) = min ((if n div t * t < n then t + 1 else t) * (n div t)) n"
proof -
  define k where "k = (if n div t * t < n then t + 1 else t)"
  obtain j where j: "k = Suc j" using assms by (cases k) (auto simp: k_def split: if_splits)
  show ?thesis unfolding array_ranges_def Let_def k_def [symmetric] j by simp
qed

lemma rows_left_out: "snd (last (array_ranges (array_threads 640 100165) 100165)) = 100160"
  by (subst array_ranges_last) (simp_all add: array_threads_def worker_threads_def Let_def)

section \<open>Saving what was loaded\<close>

lemma split_row:
  assumes "row \<noteq> []" "\<forall>c \<in> set row. CHR ''#'' \<notin> set c"
  shows "str_split_pattern (join DATA_RECORD_SEP row) DATA_RECORD_SEP = Some (if last row = [] then butlast row else row)"
proof -
  let ?s = "join DATA_RECORD_SEP row"
  have "split_loop ?s DATA_RECORD_SEP 0 (str_find ?s DATA_RECORD_SEP 0) [] = Some (butlast row, length ?s - length (last row))"
    using split_loop_join [of DATA_RECORD_SEP row ?s "[]" 0 "[]"] assms by (simp add: DATA_RECORD_SEP_def)
  moreover have "length ?s - length (last row) \<noteq> length ?s \<longleftrightarrow> last row \<noteq> []"
    using length_join_last [OF assms(1), of DATA_RECORD_SEP] by (cases "last row") auto
  ultimately show ?thesis using assms(1) drop_join_last [OF assms(1), of DATA_RECORD_SEP] by (simp add: str_split_pattern_def)
qed

lemma split_rows_ok:
  assumes "\<forall>row \<in> set rows. length row = n \<and> row \<noteq> [] \<and> last row \<noteq> [] \<and> (\<forall>c \<in> set row. CHR ''#'' \<notin> set c)"
  shows "split_rows n (map (join DATA_RECORD_SEP) rows) = Inr rows"
  using assms by (induction rows) (simp_all add: split_row)

lemma split_rows_short:
  assumes "\<forall>row \<in> set rows. length row = n \<and> row \<noteq> [] \<and> (\<forall>c \<in> set row. CHR ''#'' \<notin> set c)" "\<exists>row \<in> set rows. last row = []"
  shows "\<exists>e. split_rows n (map (join DATA_RECORD_SEP) rows) = Inl (Raised e)"
  using assms
proof (induction rows)
  case (Cons row rows)
  have row: "length row = n" "row \<noteq> []" "\<forall>c \<in> set row. CHR ''#'' \<notin> set c" using Cons.prems(1) by auto
  show ?case
  proof (cases "last row = []")
    case True
    moreover have "length (butlast row) \<noteq> n" using row(1,2) by (cases row) auto
    ultimately show ?thesis using split_row [OF row(2,3)] by simp
  next
    case False
    then have "\<exists>e. split_rows n (map (join DATA_RECORD_SEP) rows) = Inl (Raised e)" using Cons by auto
    then show ?thesis using False row split_row [OF row(2,3)] by auto
  qed
qed simp

lemma rows_columns:
  assumes "rows = map (table_row table) is"
  shows "map (\<lambda>j. map (\<lambda>row. row ! j) rows) [0..<length (tt_columns table)] =
    map (\<lambda>col. map (table_cell col) is) (tt_columns table)"
  using assms by (intro nth_equalityI) (simp_all add: table_row_def)

section \<open>Properties\<close>

text \<open>
  C26. Loading a table gives its rows, whatever the threads do: for a table whose columns have the same chunks, on a
  machine with at most 635 hardware threads, \<^verbatim>\<open>LoadDatasetFromTable\<close> makes the elements row by row, each the
  cells of the row in the order of the columns joined with the separator, and the names of the columns. This holds for any order of
  the threads' writes, for one chunk and for several, and for every way the rows or chunks divide among the threads.
\<close>

theorem psi_rows_loaded:
  assumes "any_writes il" "cores \<le> 635" "table_wf table"
  shows "LoadDatasetFromTable il cores table =
    Inr (SUCCESS, map (\<lambda>i. join DATA_RECORD_SEP (table_row table i)) [0..<tt_num_rows table], map fst (tt_columns table))"
  using assms by (rule load_rows)

definition small_psi_table :: text_table where
  "small_psi_table = \<lparr>tt_num_rows = 3, tt_columns = [(''id'', [[''1''], [''2'', ''3'']]), (''name'', [[''a''], [''b'', ''c'']])]\<rparr>"

theorem psi_rows_loaded_witness:
  "LoadDatasetFromTable rev 8 small_psi_table = Inr (SUCCESS, [''1####a'', ''2####b'', ''3####c''], [''id'', ''name''])"
proof -
  have "any_writes rev" "table_wf small_psi_table" by (simp_all add: any_writes_def table_wf_def small_psi_table_def)
  then have "LoadDatasetFromTable rev 8 small_psi_table =
      Inr (SUCCESS, map (\<lambda>i. join DATA_RECORD_SEP (table_row small_psi_table i)) [0..<tt_num_rows small_psi_table],
        map fst (tt_columns small_psi_table))" by (intro psi_rows_loaded) simp_all
  then show ?thesis by (simp add: small_psi_table_def table_row_def table_cell_def DATA_RECORD_SEP_def upt_rec)
qed

text \<open>
  C27. What is saved are the cells that were loaded: when rows of a table with at least two columns are loaded and some of them
  (the rows \<open>is\<close>, in their order) are the result, the columns written to the file are the columns of the table at
  these rows, provided that no cell has the character of the separator and no row ends with an empty cell. If a selected row ends with an empty cell,
  nothing is written: an exception is raised.
\<close>

theorem psi_rows_saved:
  assumes "any_writes il" "cores \<le> 635" "table_wf table" "2 \<le> length (tt_columns table)"
    and "list_all (\<lambda>i. i < tt_num_rows table \<and> list_all (\<lambda>c. CHR ''#'' \<notin> set c) (table_row table i)) is"
  shows "\<exists>data names. LoadDatasetFromTable il cores table = Inr (SUCCESS, data, names) \<and>
    (if list_all (\<lambda>i. last (table_row table i) \<noteq> []) is
     then result_columns (map ((!) data) is) names = Inr (map (\<lambda>col. map (table_cell col) is) (tt_columns table))
     else \<exists>e. result_columns (map ((!) data) is) names = Inl (Raised e))"
proof -
  let ?data = "map (\<lambda>i. join DATA_RECORD_SEP (table_row table i)) [0..<tt_num_rows table]"
  let ?names = "map fst (tt_columns table)" and ?rows = "map (table_row table) is"
  have data: "map ((!) ?data) is = map (join DATA_RECORD_SEP) ?rows" using assms(5) by (auto simp: list_all_iff)
  have n: "length ?names \<noteq> 1" using assms(4) by simp
  have rows: "\<forall>row \<in> set ?rows. length row = length ?names \<and> row \<noteq> [] \<and> (\<forall>c \<in> set row. CHR ''#'' \<notin> set c)"
    using assms(4,5) by (auto simp: list_all_iff table_row_def)
  have "result_columns (map ((!) ?data) is) ?names = Inr (map (\<lambda>col. map (table_cell col) is) (tt_columns table))"
    if "list_all (\<lambda>i. last (table_row table i) \<noteq> []) is"
  proof -
    have "split_rows (length ?names) (map (join DATA_RECORD_SEP) ?rows) = Inr ?rows"
      by (rule split_rows_ok) (use rows that in \<open>auto simp: list_all_iff\<close>)
    then show ?thesis unfolding data using n rows_columns [of ?rows table "is"] by (simp add: result_columns_def)
  qed
  moreover have "\<exists>e. result_columns (map ((!) ?data) is) ?names = Inl (Raised e)"
    if "\<not> list_all (\<lambda>i. last (table_row table i) \<noteq> []) is"
  proof -
    have "\<exists>e. split_rows (length ?names) (map (join DATA_RECORD_SEP) ?rows) = Inl (Raised e)"
      by (rule split_rows_short [OF rows]) (use that in \<open>auto simp: list_all_iff\<close>)
    then show ?thesis unfolding data using n by (auto simp: result_columns_def)
  qed
  ultimately show ?thesis using load_rows [OF assms(1-3)] by auto
qed

theorem psi_rows_saved_witness:
  "\<exists>data names. LoadDatasetFromTable rev 8 small_psi_table = Inr (SUCCESS, data, names) \<and>
    result_columns (map ((!) data) [2, 0]) names = Inr [[''3'', ''1''], [''c'', ''a'']]"
proof -
  have "any_writes rev" "table_wf small_psi_table" by (simp_all add: any_writes_def table_wf_def small_psi_table_def)
  then show ?thesis using psi_rows_saved [of rev 8 small_psi_table "[2, 0]"]
    by (simp add: small_psi_table_def table_row_def table_cell_def)
qed

end
