(* ===== verification/Psi_Operator.thy ===== *)
theory Psi_Operator
  imports Psi_Data Task_Worker "HOL-Library.Sublist"
begin

text \<open>
  The operators of the set intersection, \<^verbatim>\<open>kernel/psi/operator\<close>: the base class with the exchange of the result
  (\<^verbatim>\<open>base_psi.cc\<close>), the protocol over elliptic curves (\<^verbatim>\<open>ecdh_psi.cc\<close>) and the one over oblivious transfers
  (\<^verbatim>\<open>kkrt_psi.cc\<close>), and the factory. The protocols themselves are in libraries, which are parameters; what is
  shown is that around them the operators give the intersection or the difference. Messages are below \<open>2^31\<close> bytes.
\<close>

section \<open>Options\<close>

text \<open>The kind of result is a number given by the task; only 1 is looked for. Nothing in the sources sets the flag for stopping.\<close>

record psi_options =
  po_party_info :: "Node std_map"
  po_self_party :: string
  po_result_type :: int
  po_code :: string
  po_proxy_node :: Node

record psi_operator =
  op_options :: psi_options
  op_stop :: bool
  op_peer_node :: Node

definition PARTY_CLIENT :: string where "PARTY_CLIENT = ''CLIENT''"
definition PARTY_SERVER :: string where "PARTY_SERVER = ''SERVER''"
definition PARTY_TEE_COMPUTE :: string where "PARTY_TEE_COMPUTE = ''TEE_COMPUTE''"
definition DIFFERENCE :: int where "DIFFERENCE = 1"
definition psi_key :: string where "psi_key = ''default''"

definition empty_Node :: Node where
  "empty_Node = \<lparr>nd_id = [], nd_ip = [], nd_port = 0, nd_use_tls = False, nd_role = []\<rparr>"

definition GetNodeByName :: "psi_options \<Rightarrow> string \<Rightarrow> Node option" where
  "GetNodeByName opts party_name = map_of (po_party_info opts) party_name"

definition PeerNode :: "psi_options \<Rightarrow> Node" where
  "PeerNode opts =
     (let peer = (if po_self_party opts = PARTY_CLIENT then Some PARTY_SERVER
                  else if po_self_party opts = PARTY_SERVER then Some PARTY_CLIENT else None) in
      case peer of
        None \<Rightarrow> empty_Node
      | Some peer_node_name \<Rightarrow> (case GetNodeByName opts peer_node_name of None \<Rightarrow> empty_Node | Some n \<Rightarrow> n))"

definition new_psi_operator :: "psi_options \<Rightarrow> psi_operator" where
  "new_psi_operator opts = \<lparr>op_options = opts, op_stop = False, op_peer_node = PeerNode opts\<rparr>"

section \<open>Exchange of the result\<close>

definition IgnoreResult :: "string \<Rightarrow> bool" where
  "IgnoreResult party_name \<longleftrightarrow> party_name = PARTY_TEE_COMPUTE"

definition IgnoreParty :: "psi_options \<Rightarrow> string \<Rightarrow> bool" where
  "IgnoreParty opts party_name \<longleftrightarrow> party_name = po_self_party opts \<or> IgnoreResult party_name"

text \<open>The parties are visited in the order of their names.\<close>

definition BroadcastPartyList :: "psi_options \<Rightarrow> Node list" where
  "BroadcastPartyList opts = map snd (filter (\<lambda>e. \<not> IgnoreParty opts (fst e)) (sort_key fst (po_party_info opts)))"

text \<open>A length in network byte order, eight bytes.\<close>

definition htonll :: "nat \<Rightarrow> string" where
  "htonll n = map (\<lambda>i. char_of (n div 256 ^ (7 - i))) [0..<8]"

definition ntohll :: "string \<Rightarrow> nat" where
  "ntohll s = foldl (\<lambda>a c. 256 * a + of_char c) 0 s"

definition frame :: "string \<Rightarrow> string" where
  "frame item = htonll (length item) @ item"

definition result_text :: "string list \<Rightarrow> string" where
  "result_text result = concat (map frame result)"

text \<open>That a message could not be sent is not reported.\<close>

definition BroadcastResult :: "(Node \<Rightarrow> 'n channel) \<Rightarrow> psi_options \<Rightarrow> string list \<Rightarrow> 'n \<Rightarrow> retcode \<times> 'n" where
  "BroadcastResult G opts result n =
     (SUCCESS, fold (\<lambda>party_info n. snd (Send G psi_key party_info (result_text result) n)) (BroadcastPartyList opts) n)"

text \<open>The lengths in the message are trusted: one that exceeds it reads outside the buffer.\<close>

function parse_items :: "string \<Rightarrow> string list res" where
  "parse_items d =
     (if d = [] then Inr []
      else if length d < 8 then Inl (Undefined ''read outside the buffer'')
      else let len = ntohll (take 8 d); rest = drop 8 d in
           if length rest < len then Inl (Undefined ''read outside the buffer'')
           else bindR (parse_items (drop len rest)) (\<lambda>items. Inr (take len rest # items)))"
  by pat_completeness auto

termination
  by (relation "measure length") auto

declare parse_items.simps [simp del]

text \<open>A failure counts only when data came with it, so that a failed receive without data is an empty result.\<close>

definition ReceiveResult :: "(Node \<Rightarrow> 'n channel) \<Rightarrow> psi_options \<Rightarrow> string list \<Rightarrow> 'n \<Rightarrow> ((retcode \<times> string list) \<times> 'n) res" where
  "ReceiveResult G opts result n =
     (let ((ret, recv_data_str), n1) = Recv_from G psi_key (po_proxy_node opts) n in
      if ret \<noteq> SUCCESS \<and> recv_data_str \<noteq> [] then Inr ((FAIL, result), n1)
      else bindR (parse_items recv_data_str) (\<lambda>items. Inr ((SUCCESS, result @ items), n1)))"

definition BroadcastPsiResult :: "(Node \<Rightarrow> 'n channel) \<Rightarrow> psi_options \<Rightarrow> string list \<Rightarrow> 'n \<Rightarrow> ((retcode \<times> string list) \<times> 'n) res" where
  "BroadcastPsiResult G opts result n =
     (if IgnoreResult (po_self_party opts) then Inr ((SUCCESS, result), n)
      else if po_self_party opts = PARTY_CLIENT then let (ret, n1) = BroadcastResult G opts result n in Inr ((ret, result), n1)
      else ReceiveResult G opts result n)"

text \<open>\<open>on_execute\<close> is the protocol of the derived class.\<close>

definition psi_Execute ::
  "(Node \<Rightarrow> 'n channel) \<Rightarrow> psi_operator \<Rightarrow> (string list \<Rightarrow> string list \<Rightarrow> 'n \<Rightarrow> ((retcode \<times> string list) \<times> 'n) res) \<Rightarrow>
   string list \<Rightarrow> bool \<Rightarrow> string list \<Rightarrow> 'n \<Rightarrow> ((retcode \<times> string list) \<times> 'n) res" where
  "psi_Execute G op on_execute input sync_result result n =
     bindR (on_execute input result n) (\<lambda>((ret, result1), n1).
       if ret \<noteq> SUCCESS then Inr ((FAIL, result1), n1)
       else if sync_result then BroadcastPsiResult G (op_options op) result1 n1
       else Inr ((ret, result1), n1))"

section \<open>Elements of the result\<close>

definition resize_to :: "nat \<Rightarrow> string list \<Rightarrow> string list" where
  "resize_to n v = take n v @ replicate (n - length v) []"

definition result_ranges :: "nat \<Rightarrow> nat \<Rightarrow> (nat \<times> nat) list" where
  "result_ranges block_size result_size =
     (let block_num = result_size div block_size in
      map (\<lambda>i. (i * block_size, (i + 1) * block_size)) [0..<block_num] @
      (if result_size mod block_size \<noteq> 0 then [(block_num * block_size, result_size)] else []))"

definition index_writes :: "string list \<Rightarrow> nat list \<Rightarrow> nat \<times> nat \<Rightarrow> (nat \<times> string) list" where
  "index_writes input intersection_index r = map (\<lambda>j. (j, input ! (intersection_index ! j))) [fst r..<snd r]"

text \<open>The difference asks for a vector of the size that remains; more indexes than elements make this number wrap around, and \<^verbatim>\<open>reserve\<close> throws.\<close>

definition GetResult ::
  "((nat \<times> string) list \<Rightarrow> (nat \<times> string) list) \<Rightarrow> psi_options \<Rightarrow> string list \<Rightarrow> nat list \<Rightarrow> string list \<Rightarrow> string list res" where
  "GetResult il opts input intersection_index result =
     (if po_result_type opts = DIFFERENCE then
        (if length input < length intersection_index then Inl (Raised ''vector::reserve'')
         else Inr (result @ map ((!) input) (filter (\<lambda>i. i \<notin> set intersection_index) [0..<length input])))
      else if \<not> list_all (\<lambda>i. i < length input) intersection_index then Inl (Undefined ''element outside the vector'')
      else par_writes set_cell il
             (concat (map (index_writes input intersection_index) (result_ranges 10000000 (length intersection_index))))
             (resize_to (length intersection_index) result))"

section \<open>The protocol over elliptic curves\<close>

text \<open>The messages of the PSI library; of a server setup the operators look at two kinds of data structure.\<close>

datatype data_structure = Gcs int int | BloomFilter int | OtherStructure

record ServerSetup =
  ss_bits :: string
  ss_data :: data_structure

text \<open>
  The library: a client and a server with keys of their own. A call that ends with an error status makes \<^verbatim>\<open>value()\<close> throw.
  \<open>pw_\<close> are the serialisers of the messages; a parser gives what the message holds after the call, its verdict is not looked at.
\<close>

record ('ck, 'sk, 'req) psi_library =
  pl_CreateRequest :: "'ck \<Rightarrow> string list \<Rightarrow> 'req option"
  pl_CreateSetupMessage :: "'sk \<Rightarrow> real \<Rightarrow> nat \<Rightarrow> string list \<Rightarrow> ServerSetup option"
  pl_ProcessRequest :: "'sk \<Rightarrow> 'req \<Rightarrow> string list option"
  pl_GetIntersection :: "'ck \<Rightarrow> ServerSetup \<Rightarrow> string list \<Rightarrow> int list option"
  pw_request :: "'req \<Rightarrow> string"
  pw_parse_request :: "string \<Rightarrow> 'req"
  pw_response :: "string list \<Rightarrow> string"
  pw_parse_response :: "string \<Rightarrow> string list"
  pw_setup :: "ServerSetup \<Rightarrow> string"
  pw_parse_setup :: "string \<Rightarrow> ServerSetup"
  pw_params :: "ParamValue std_map \<Rightarrow> bool \<times> string"
  pw_parse_params :: "string \<Rightarrow> ParamValue std_map"

definition status_value :: "'a option \<Rightarrow> 'a res" where
  "status_value x = (case x of None \<Rightarrow> Inl (Raised ''bad status'') | Some v \<Rightarrow> Inr v)"

text \<open>The flag \<^verbatim>\<open>reveal_intersection_\<close> of the client is always set, the server takes over what it receives; \<open>ck\<close> and \<open>sk\<close> are the new keys for it.\<close>

definition init_params :: "nat \<Rightarrow> ParamValue std_map" where
  "init_params element_size =
     [(''dataset_size'', \<lparr>pv_var_type = VT_INT64, pv_is_array = False, pv_value = value_int64 (word_of_nat element_size)\<rparr>),
      (''reveal_intersection'', \<lparr>pv_var_type = VT_INT32, pv_is_array = False, pv_value = value_int32 1\<rparr>)]"

definition BuildInitParam :: "('ck, 'sk, 'req) psi_library \<Rightarrow> psi_operator \<Rightarrow> nat \<Rightarrow> retcode \<times> string" where
  "BuildInitParam L op element_size =
     (if op_stop op then (FAIL, [])
      else let (success, init_param) = pw_params L (init_params element_size) in (if success then SUCCESS else FAIL, init_param))"

definition copy_setup :: "ServerSetup \<Rightarrow> ServerSetup option" where
  "copy_setup s = (if ss_data s = OtherStructure then None else Some \<lparr>ss_bits = ss_bits s, ss_data = ss_data s\<rparr>)"

definition read_frame :: "string \<Rightarrow> (string \<times> string) res" where
  "read_frame buf =
     (if length buf < 8 \<or> length buf - 8 < ntohll (take 8 buf) then Inl (Undefined ''read outside the buffer'')
      else Inr (take (ntohll (take 8 buf)) (drop 8 buf), drop (ntohll (take 8 buf)) (drop 8 buf)))"

definition ParsePsiResponseFromeString ::
  "('ck, 'sk, 'req) psi_library \<Rightarrow> psi_operator \<Rightarrow> string \<Rightarrow> (ServerSetup \<times> string list) option res" where
  "ParsePsiResponseFromeString L op response_str =
     (if op_stop op then Inr None
      else bindR (read_frame response_str) (\<lambda>(response, rest). bindR (read_frame rest) (\<lambda>(ssetup, _).
        case copy_setup (pw_parse_setup L ssetup) of
          None \<Rightarrow> Inr None
        | Some server_setup \<Rightarrow> Inr (Some (server_setup, pw_parse_response L response)))))"

definition SendPSIRequestAndWaitResponse ::
  "(Node \<Rightarrow> 'n channel) \<Rightarrow> ('ck, 'sk, 'req) psi_library \<Rightarrow> psi_operator \<Rightarrow> 'req \<Rightarrow> 'n \<Rightarrow> ((ServerSetup \<times> string list) option \<times> 'n) res" where
  "SendPSIRequestAndWaitResponse G L op request n =
     (if op_stop op then Inr (None, n)
      else let (ret, n1) = Send G psi_key (op_peer_node op) (pw_request L request) n in
           if ret \<noteq> SUCCESS then Inr (None, n1)
           else let ((ret2, recv_data_str), n2) = Recv_from G psi_key (po_proxy_node (op_options op)) n1 in
                if ret2 \<noteq> SUCCESS \<or> recv_data_str = [] then Inr (None, n2)
                else bindR (ParsePsiResponseFromeString L op recv_data_str) (\<lambda>r. Inr (r, n2)))"

definition GetIntersection ::
  "('ck, 'sk, 'req) psi_library \<Rightarrow> psi_operator \<Rightarrow> 'ck \<Rightarrow> string list \<Rightarrow> ServerSetup \<times> string list \<Rightarrow> string list \<Rightarrow>
   (retcode \<times> string list) res" where
  "GetIntersection L op client origin_data response result =
     (if op_stop op then Inr (FAIL, result)
      else case copy_setup (fst response) of
        None \<Rightarrow> Inr (FAIL, result)
      | Some server_setup \<Rightarrow>
          bindR (status_value (pl_GetIntersection L client server_setup (snd response))) (\<lambda>intersection.
            if po_result_type (op_options op) = DIFFERENCE then
              Inr (SUCCESS, result @ map ((!) origin_data) (filter (\<lambda>i. int i \<notin> set intersection) [0..<length origin_data]))
            else if \<not> list_all (\<lambda>i. 0 \<le> i \<and> i < int (length origin_data)) intersection then Inl (Undefined ''element outside the vector'')
            else Inr (SUCCESS, result @ map (\<lambda>i. origin_data ! nat i) intersection)))"

text \<open>What \<^verbatim>\<open>BuildInitParam\<close> reports is not looked at.\<close>

definition ExecuteAsClient ::
  "(Node \<Rightarrow> 'n channel) \<Rightarrow> ('ck, 'sk, 'req) psi_library \<Rightarrow> 'ck \<Rightarrow> psi_operator \<Rightarrow> string list \<Rightarrow> string list \<Rightarrow> 'n \<Rightarrow>
   ((retcode \<times> string list) \<times> 'n) res" where
  "ExecuteAsClient G L ck op input result n =
     (if op_stop op then Inr ((FAIL, result), n)
      else let (ret, n1) = Send G psi_key (op_peer_node op) (snd (BuildInitParam L op (length input))) n in
           if ret \<noteq> SUCCESS then Inr ((FAIL, result), n1)
           else bindR (status_value (pl_CreateRequest L ck input)) (\<lambda>client_request.
             bindR (SendPSIRequestAndWaitResponse G L op client_request n1) (\<lambda>(task_response, n2).
               case task_response of
                 None \<Rightarrow> Inr ((FAIL, result), n2)
               | Some response \<Rightarrow>
                   bindR (GetIntersection L op ck input response result) (\<lambda>(ret, result1). Inr ((ret, result1), n2)))))"

definition get_int64 :: "ParamValue \<Rightarrow> i64" where
  "get_int64 v = (case pv_value v of value_int64 i \<Rightarrow> i | _ \<Rightarrow> 0)"

definition get_int32 :: "ParamValue \<Rightarrow> int" where
  "get_int32 v = (case pv_value v of value_int32 i \<Rightarrow> sint i | _ \<Rightarrow> 0)"

text \<open>The number of elements of the client as \<^verbatim>\<open>size_t\<close>, and whether it wants to know them.\<close>

definition RecvInitParam ::
  "(Node \<Rightarrow> 'n channel) \<Rightarrow> ('ck, 'sk, 'req) psi_library \<Rightarrow> psi_operator \<Rightarrow> 'n \<Rightarrow> (nat \<times> bool) option \<times> 'n" where
  "RecvInitParam G L op n =
     (if op_stop op then (None, n)
      else let ((ret, init_param_str), n1) = Recv_from G psi_key (po_proxy_node (op_options op)) n in
           if ret \<noteq> SUCCESS then (None, n1)
           else let parm_map = pw_parse_params L init_param_str in
                case map_of parm_map ''dataset_size'' of
                  None \<Rightarrow> (None, n1)
                | Some sz \<Rightarrow>
                    (case map_of parm_map ''reveal_intersection'' of
                       None \<Rightarrow> (None, n1)
                     | Some flag \<Rightarrow> (Some (unat (get_int64 sz), 0 < get_int32 flag), n1)))"

definition InitRequest :: "(Node \<Rightarrow> 'n channel) \<Rightarrow> ('ck, 'sk, 'req) psi_library \<Rightarrow> psi_operator \<Rightarrow> 'n \<Rightarrow> 'req option \<times> 'n" where
  "InitRequest G L op n =
     (if op_stop op then (None, n)
      else let ((ret, request_str), n1) = Recv_from G psi_key (po_proxy_node (op_options op)) n in
           (if ret \<noteq> SUCCESS then None else Some (pw_parse_request L request_str), n1))"

definition PreparePSIResponse ::
  "(Node \<Rightarrow> 'n channel) \<Rightarrow> ('ck, 'sk, 'req) psi_library \<Rightarrow> psi_operator \<Rightarrow> string list \<Rightarrow> ServerSetup \<Rightarrow> 'n \<Rightarrow> retcode \<times> 'n" where
  "PreparePSIResponse G L op psi_response setup_info n =
     (if op_stop op then (FAIL, n)
      else let (ret, n1) = Send G psi_key (op_peer_node op) (frame (pw_response L psi_response) @ frame (pw_setup L setup_info)) n in
           (if ret \<noteq> SUCCESS then FAIL else SUCCESS, n1))"

text \<open>The rate of false positives that the server asks for, \<^verbatim>\<open>fpr_\<close>.\<close>

definition fpr :: real where
  "fpr = 1 / 10000"

text \<open>\<open>sk\<close> gives the server's new key for the flag. Whether the answer could be sent is not looked at.\<close>

definition ExecuteAsServer ::
  "(Node \<Rightarrow> 'n channel) \<Rightarrow> ('ck, 'sk, 'req) psi_library \<Rightarrow> (bool \<Rightarrow> 'sk) \<Rightarrow> psi_operator \<Rightarrow> string list \<Rightarrow> 'n \<Rightarrow> (retcode \<times> 'n) res" where
  "ExecuteAsServer G L sk op input n =
     (if op_stop op then Inr (FAIL, n)
      else let (params, n1) = RecvInitParam G L op n in
           case params of
             None \<Rightarrow> Inr (FAIL, n1)
           | Some (num_client_elements, reveal) \<Rightarrow>
               bindR (status_value (pl_CreateSetupMessage L (sk reveal) fpr num_client_elements input)) (\<lambda>server_setup.
                 let (psi_request, n2) = InitRequest G L op n1 in
                 case psi_request of
                   None \<Rightarrow> Inr (FAIL, n2)
                 | Some request \<Rightarrow>
                     bindR (status_value (pl_ProcessRequest L (sk reveal) request)) (\<lambda>server_response.
                       let (_, n3) = PreparePSIResponse G L op server_response server_setup n2 in Inr (SUCCESS, n3))))"

definition ecdh_OnExecute ::
  "(Node \<Rightarrow> 'n channel) \<Rightarrow> ('ck, 'sk, 'req) psi_library \<Rightarrow> 'ck \<Rightarrow> (bool \<Rightarrow> 'sk) \<Rightarrow> psi_operator \<Rightarrow> string list \<Rightarrow> string list \<Rightarrow> 'n \<Rightarrow>
   ((retcode \<times> string list) \<times> 'n) res" where
  "ecdh_OnExecute G L ck sk op input result n =
     (if input = [] then Inr ((FAIL, result), n)
      else if po_self_party (op_options op) = PARTY_CLIENT then ExecuteAsClient G L ck op input result n
      else if po_self_party (op_options op) = PARTY_SERVER then
        bindR (ExecuteAsServer G L sk op input n) (\<lambda>(ret, n1). Inr ((ret, result), n1))
      else Inr ((FAIL, result), n))"

section \<open>The protocol over oblivious transfers\<close>

text \<open>
  The library's channel and protocol: sizes and one byte are exchanged, then the two sides run on their sets of
  blocks, and the receiver gets the positions of its blocks that the sender has. \<open>hash\<close> is the random oracle with a result of one block.
\<close>

record ('b, 'n) kkrt_library =
  kl_hash :: "string \<Rightarrow> 'b"
  kl_send_size :: "u64 \<Rightarrow> 'n \<Rightarrow> 'n"
  kl_recv_sizes :: "'n \<Rightarrow> u64 list \<times> 'n"
  kl_send_byte :: "'n \<Rightarrow> 'n"
  kl_recv_byte :: "'n \<Rightarrow> 'n"
  kl_receiver :: "u64 \<Rightarrow> u64 \<Rightarrow> 'b list \<Rightarrow> 'n \<Rightarrow> nat list \<times> 'n"
  kl_sender :: "u64 \<Rightarrow> u64 \<Rightarrow> 'b list \<Rightarrow> 'n \<Rightarrow> 'n"

definition hash_ranges :: "nat \<Rightarrow> nat \<Rightarrow> (nat \<times> nat) list" where
  "hash_ranges max_block data_size =
     (let block_num = (if data_size mod max_block \<noteq> 0 then data_size div max_block + 1 else data_size div max_block) in
      map (\<lambda>i. (i * max_block, min ((i + 1) * max_block) data_size)) [0..<block_num])"

text \<open>The vector has already the size of the input; \<open>b\<close> is the block it is filled with. One thread writes when one range is enough.\<close>

definition HashDataParallel ::
  "('b, 'n) kkrt_library \<Rightarrow> ((nat \<times> 'b) list \<Rightarrow> (nat \<times> 'b) list) \<Rightarrow> 'b \<Rightarrow> string list \<Rightarrow> 'b list res" where
  "HashDataParallel K il b input =
     (let ranges = hash_ranges 10000000 (length input);
          writes = (\<lambda>r. map (\<lambda>j. (j, kl_hash K (input ! j))) [fst r..<snd r]) in
      par_writes (\<lambda>x _. x) (if length ranges = 1 then (\<lambda>ws. ws) else il) (concat (map writes ranges)) (replicate (length input) b))"

definition first_size :: "u64 list \<Rightarrow> u64 res" where
  "first_size dest = (case dest of [] \<Rightarrow> Inl (Undefined ''element of an empty vector'') | s # _ \<Rightarrow> Inr s)"

definition KkrtRecv ::
  "('b, 'n) kkrt_library \<Rightarrow> ((nat \<times> 'b) list \<Rightarrow> (nat \<times> 'b) list) \<Rightarrow> 'b \<Rightarrow> string list \<Rightarrow> 'n \<Rightarrow> (nat list \<times> 'n) res" where
  "KkrtRecv K il b input n =
     (let recvSize = word_of_nat (length input); (dest, n1) = kl_recv_sizes K (kl_send_size K recvSize n) in
      bindR (first_size dest) (\<lambda>sendSize. bindR (HashDataParallel K il b input) (\<lambda>recvSet.
        Inr (kl_receiver K sendSize recvSize recvSet (kl_send_byte K (kl_recv_byte K n1))))))"

definition KkrtSend ::
  "('b, 'n) kkrt_library \<Rightarrow> ((nat \<times> 'b) list \<Rightarrow> (nat \<times> 'b) list) \<Rightarrow> 'b \<Rightarrow> string list \<Rightarrow> 'n \<Rightarrow> 'n res" where
  "KkrtSend K il b input n =
     (let sendSize = word_of_nat (length input); (dest, n1) = kl_recv_sizes K (kl_send_size K sendSize n) in
      bindR (first_size dest) (\<lambda>recvSize. bindR (HashDataParallel K il b input) (\<lambda>sendSet.
        Inr (kl_sender K sendSize recvSize sendSet (kl_recv_byte K (kl_send_byte K n1))))))"

text \<open>A channel is made when the other party is known; \<open>open_channel\<close> gives the library over the channels to it and from the proxy.\<close>

definition BuildChannelInterface :: "psi_options \<Rightarrow> (Node \<Rightarrow> Node \<Rightarrow> ('b, 'n) kkrt_library) \<Rightarrow> ('b, 'n) kkrt_library option" where
  "BuildChannelInterface opts open_channel =
     (let peer = (if po_self_party opts = PARTY_CLIENT then Some PARTY_SERVER
                  else if po_self_party opts = PARTY_SERVER then Some PARTY_CLIENT else None) in
      case peer of
        None \<Rightarrow> None
      | Some peer_party_name \<Rightarrow> map_option (\<lambda>node. open_channel node (po_proxy_node opts)) (map_of (po_party_info opts) peer_party_name))"

definition kkrt_OnExecute ::
  "(Node \<Rightarrow> Node \<Rightarrow> ('b, 'n) kkrt_library) \<Rightarrow> ((nat \<times> 'b) list \<Rightarrow> (nat \<times> 'b) list) \<Rightarrow> 'b \<Rightarrow>
   ((nat \<times> string) list \<Rightarrow> (nat \<times> string) list) \<Rightarrow> psi_operator \<Rightarrow> string list \<Rightarrow> string list \<Rightarrow> 'n \<Rightarrow> ((retcode \<times> string list) \<times> 'n) res" where
  "kkrt_OnExecute open_channel il b il' op input result n =
     (if input = [] then Inr ((FAIL, result), n)
      else case BuildChannelInterface (op_options op) open_channel of
        None \<Rightarrow> Inr ((FAIL, result), n)
      | Some K \<Rightarrow>
          if po_self_party (op_options op) = PARTY_CLIENT then
            bindR (KkrtRecv K il b input n) (\<lambda>(result_index, n1).
              bindR (GetResult il' (op_options op) input result_index result) (\<lambda>result1. Inr ((SUCCESS, result1), n1)))
          else bindR (KkrtSend K il b input n) (\<lambda>n1. Inr ((SUCCESS, result), n1)))"

section \<open>The factory\<close>

text \<open>Built without SGX: the operator for an enclave cannot be made. \<open>None\<close> is the null pointer for an unknown kind.\<close>

datatype psi_kind = ECDH | KKRT

definition psi_Create :: "int \<Rightarrow> psi_options \<Rightarrow> (psi_kind \<times> psi_operator) option res" where
  "psi_Create psi_type opts =
     (if psi_type = 1 then Inr (Some (KKRT, new_psi_operator opts))
      else if psi_type = 0 then Inr (Some (ECDH, new_psi_operator opts))
      else if psi_type = 2 then Inl (Raised ''sgx is not enabled'')
      else Inr None)"

section \<open>Framed messages\<close>

lemma ntohll_append: "ntohll (s @ [c]) = 256 * ntohll s + of_char c"
  by (simp add: ntohll_def)

lemma ntohll_digits: "ntohll (map (\<lambda>i. char_of (n div 256 ^ (k - Suc i))) [0..<k]) = n mod 256 ^ k"
proof (induction k arbitrary: n)
  case (Suc k)
  have front: "map (\<lambda>i. char_of (n div 256 ^ (Suc k - Suc i))) [0..<k] = map (\<lambda>i. char_of (n div 256 div 256 ^ (k - Suc i))) [0..<k]"
  proof (intro map_cong refl)
    fix i assume "i \<in> set [0..<k]"
    then have "Suc k - Suc i = Suc (k - Suc i)" by auto
    then show "(char_of (n div 256 ^ (Suc k - Suc i)) :: char) = char_of (n div 256 div 256 ^ (k - Suc i))"
      by (simp only: power_Suc div_mult2_eq)
  qed
  have "map (\<lambda>i. char_of (n div 256 ^ (Suc k - Suc i))) [0..<Suc k] =
      map (\<lambda>i. char_of (n div 256 div 256 ^ (k - Suc i))) [0..<k] @ [char_of n]"
    unfolding upt_Suc_append [OF le0] map_append front by simp
  then have "ntohll (map (\<lambda>i. char_of (n div 256 ^ (Suc k - Suc i))) [0..<Suc k]) = 256 * (n div 256 mod 256 ^ k) + n mod 256"
    by (simp only: ntohll_append Suc of_char_of)
  also have "\<dots> = n mod 256 ^ Suc k" by (simp add: mod_mult2_eq)
  finally show ?case .
qed (simp add: ntohll_def)

lemma ntohll_htonll: "n < 2 ^ 64 \<Longrightarrow> ntohll (htonll n) = n"
proof -
  assume n: "n < 2 ^ 64"
  have "map (\<lambda>i. char_of (n div 256 ^ (7 - i))) [0..<8] = map (\<lambda>i. char_of (n div 256 ^ (8 - Suc i)) :: char) [0..<8]"
    by (intro map_cong refl) simp
  then show ?thesis using ntohll_digits [of n 8] n by (simp only: htonll_def) simp
qed

lemma length_htonll [simp]: "length (htonll n) = 8"
  by (simp add: htonll_def)

lemma take_frame: "take 8 (frame a @ rest) = htonll (length a)" "drop 8 (frame a @ rest) = a @ rest"
  by (simp_all add: frame_def)

lemma read_frame_frame: "length a < 2 ^ 64 \<Longrightarrow> read_frame (frame a @ rest) = Inr (a, rest)"
  unfolding read_frame_def by (simp only: take_frame ntohll_htonll) (simp add: frame_def)

lemma parse_items_frame: "length a < 2 ^ 64 \<Longrightarrow> parse_items (frame a @ rest) = bindR (parse_items rest) (\<lambda>items. Inr (a # items))"
proof -
  assume a: "length a < 2 ^ 64"
  have "frame a @ rest \<noteq> []" "\<not> length (frame a @ rest) < 8" by (simp_all add: frame_def htonll_def)
  then show ?thesis by (subst parse_items.simps) (simp only: take_frame ntohll_htonll [OF a], simp)
qed

lemma parse_result_text:
  "list_all (\<lambda>x. length x < 2 ^ 64) items \<Longrightarrow> parse_items (result_text items) = Inr items"
proof (induction items)
  case Nil
  show ?case by (simp add: result_text_def parse_items.simps)
next
  case (Cons a items)
  then show ?case using parse_items_frame [of a "result_text items"] by (simp add: result_text_def)
qed

section \<open>Blocks of a vector\<close>

lemma result_ranges_cover: "concat (map (\<lambda>r. [fst r..<snd r]) (result_ranges b n)) = [0..<n]"
proof -
  let ?k = "n div b"
  have "concat (map (\<lambda>r. [fst r..<snd r]) (result_ranges b n)) = [0..<?k * b] @ (if n mod b \<noteq> 0 then [?k * b..<n] else [])"
    using concat_blocks [of b ?k] by (simp add: result_ranges_def Let_def comp_def)
  also have "\<dots> = [0..<n]"
    using upt_add_eq_append [of 0 "?k * b" "n mod b"] div_mult_mod_eq [of n b] by (cases "n mod b = 0") simp_all
  finally show ?thesis .
qed

lemma index_writes_all:
  "concat (map (index_writes input idx) (result_ranges b (length idx))) = enumerate 0 (map ((!) input) idx)"
proof -
  have "concat (map (index_writes input idx) (result_ranges b (length idx))) =
      map (\<lambda>j. (j, input ! (idx ! j))) (concat (map (\<lambda>r. [fst r..<snd r]) (result_ranges b (length idx))))"
    by (simp add: index_writes_def [abs_def] concat_map_map [symmetric])
  then show ?thesis by (simp add: result_ranges_cover enumerate_nth)
qed

lemma map2_first: "length xs = length v \<Longrightarrow> map2 (\<lambda>x _. x) xs v = xs"
  by (intro nth_equalityI) simp_all

lemma resize_to_length [simp]: "length (resize_to n v) = n"
  by (simp add: resize_to_def)

lemma GetResult_intersection:
  assumes "any_writes il" "po_result_type opts \<noteq> DIFFERENCE" "list_all (\<lambda>i. i < length input) idx"
  shows "GetResult il opts input idx result = Inr (map ((!) input) idx)"
proof -
  have "par_writes set_cell il (enumerate 0 (map ((!) input) idx)) (resize_to (length idx) result) =
      Inr (map2 set_cell (map ((!) input) idx) (resize_to (length idx) result))"
    by (rule par_writes_all [OF assms(1) refl]) simp
  moreover have "map2 set_cell (map ((!) input) idx) (resize_to (length idx) result) = map ((!) input) idx"
    by (intro nth_equalityI) (simp_all add: set_cell_def)
  ultimately show ?thesis using assms(2,3) by (simp only: GetResult_def index_writes_all) simp
qed

lemma hash_ranges_cover:
  assumes "0 < b"
  shows "concat (map (\<lambda>r. [fst r..<snd r]) (hash_ranges b n)) = [0..<n]"
proof -
  let ?k = "n div b"
  have n: "n = ?k * b + n mod b" by simp
  have first: "map (\<lambda>i. [i * b..<min ((i + 1) * b) n]) [0..<?k] = map (\<lambda>i. [i * b..<(i + 1) * b]) [0..<?k]"
  proof (intro map_cong refl)
    fix i assume "i \<in> set [0..<?k]"
    then have "(i + 1) * b \<le> ?k * b" by (intro mult_le_mono1) auto
    then have "min ((i + 1) * b) n = (i + 1) * b" using n by (intro min_absorb1) linarith
    then show "[i * b..<min ((i + 1) * b) n] = [i * b..<(i + 1) * b]" by (simp only:)
  qed
  show ?thesis
  proof (cases "n mod b = 0")
    case True
    have "map (\<lambda>r. [fst r..<snd r]) (hash_ranges b n) = map (\<lambda>i. [i * b..<min ((i + 1) * b) n]) [0..<?k]"
      using True by (simp add: hash_ranges_def comp_def)
    then show ?thesis using n True by (simp only: first concat_blocks) simp
  next
    case False
    have "n mod b < b" using assms by simp
    moreover have "(?k + 1) * b = ?k * b + b" by simp
    ultimately have last: "min ((?k + 1) * b) n = n" using n by (intro min_absorb2) linarith
    have "map (\<lambda>r. [fst r..<snd r]) (hash_ranges b n) =
        map (\<lambda>i. [i * b..<min ((i + 1) * b) n]) [0..<?k] @ [[?k * b..<min ((?k + 1) * b) n]]"
      using False by (simp add: hash_ranges_def comp_def)
    then have "concat (map (\<lambda>r. [fst r..<snd r]) (hash_ranges b n)) = [0..<?k * b] @ [?k * b..<n]"
      by (simp only: first last concat_append concat_blocks) simp
    also have "\<dots> = [0..<n]" using upt_add_eq_append [of 0 "?k * b" "n mod b"] n by simp
    finally show ?thesis .
  qed
qed

text \<open>Any order of the threads hashes every element once.\<close>

lemma HashDataParallel_map:
  assumes "any_writes il"
  shows "HashDataParallel K il b input = Inr (map (kl_hash K) input)"
proof -
  define rs where "rs = hash_ranges 10000000 (length input)"
  let ?il = "if length rs = 1 then (\<lambda>ws. ws) else il"
  have il: "any_writes ?il" using assms by (simp add: any_writes_def)
  have "concat (map (\<lambda>r. map (\<lambda>j. (j, kl_hash K (input ! j))) [fst r..<snd r]) rs) =
      map (\<lambda>j. (j, kl_hash K (input ! j))) [0..<length input]"
    using hash_ranges_cover [of 10000000 "length input"] by (simp add: concat_map_map rs_def)
  also have "\<dots> = enumerate 0 (map (kl_hash K) input)" by (simp add: enumerate_nth)
  finally have w: "concat (map (\<lambda>r. map (\<lambda>j. (j, kl_hash K (input ! j))) [fst r..<snd r]) rs) = enumerate 0 (map (kl_hash K) input)" .
  have "par_writes (\<lambda>x _. x) ?il (enumerate 0 (map (kl_hash K) input)) (replicate (length input) b) =
      Inr (map2 (\<lambda>x _. x) (map (kl_hash K) input) (replicate (length input) b))"
    by (rule par_writes_all [OF il refl]) simp
  then show ?thesis by (simp only: HashDataParallel_def Let_def rs_def [symmetric] w) (simp add: map2_first)
qed

section \<open>Two parties\<close>

text \<open>
  A party alone with its messages: what it is still going to receive, and what it has sent to whom. Two parties have run
  together when each received what the other sent.
\<close>

type_synonym transcript = "string list \<times> (Node \<times> string) list"

definition box_channel :: "Node \<Rightarrow> transcript channel" where
  "box_channel node =
     \<lparr>ch_send = (\<lambda>key msg (i, s). (SUCCESS, (i, s @ [(node, msg)]))),
      ch_sendRecv = (\<lambda>key msg buf n. ((FAIL, buf), n)),
      ch_forwardRecv = (\<lambda>key (i, s). case i of [] \<Rightarrow> ([], ([], s)) | m # rest \<Rightarrow> (m, (rest, s))),
      ch_CheckSendCompleteStatus = (\<lambda>key expected n. (FAIL, n))\<rparr>"

lemma transcript_simps [simp]:
  "Send box_channel key node msg (i, s) = (SUCCESS, (i, s @ [(node, msg)]))"
  "Recv_from box_channel key node (m # i, s) = (if m = [] then (FAIL, m) else (SUCCESS, m), (i, s))"
  by (simp_all add: Send_def Recv_from_def box_channel_def)

definition psi_party :: "string \<Rightarrow> Node \<Rightarrow> Node \<Rightarrow> Node \<Rightarrow> int \<Rightarrow> psi_operator" where
  "psi_party party client server proxy result_type =
     new_psi_operator \<lparr>po_party_info = [(PARTY_SERVER, server), (PARTY_CLIENT, client)], po_self_party = party,
       po_result_type = result_type, po_code = [], po_proxy_node = proxy\<rparr>"

text \<open>
  What the calls of the library give for the two sets, what its intersection means, and that the messages survive their serialisation.
  The structure in which the server's elements are sent has false positives: the indexes contain those of all common elements, each
  once, and maybe some more.
\<close>

definition psi_calls ::
  "('ck, 'sk, 'req) psi_library \<Rightarrow> 'ck \<Rightarrow> 'sk \<Rightarrow> string list \<Rightarrow> string list \<Rightarrow> 'req \<Rightarrow> ServerSetup \<Rightarrow> string list \<Rightarrow> int list \<Rightarrow> bool" where
  "psi_calls L ck sk cs ss req ssetup resp idx \<longleftrightarrow>
     pl_CreateRequest L ck cs = Some req \<and> pl_CreateSetupMessage L sk fpr (length cs) ss = Some ssetup \<and> ss_data ssetup \<noteq> OtherStructure \<and>
     pl_ProcessRequest L sk req = Some resp \<and> pl_GetIntersection L ck ssetup resp = Some idx"

definition psi_indexes :: "string list \<Rightarrow> string list \<Rightarrow> int list \<Rightarrow> bool" where
  "psi_indexes cs ss idx \<longleftrightarrow> distinct idx \<and> set idx \<subseteq> int ` {..<length cs} \<and> (\<forall>i < length cs. cs ! i \<in> set ss \<longrightarrow> int i \<in> set idx)"

definition false_hits :: "string list \<Rightarrow> string list \<Rightarrow> int list \<Rightarrow> string list" where
  "false_hits cs ss idx = filter (\<lambda>x. x \<notin> set ss) (map (\<lambda>i. cs ! nat i) idx)"

definition psi_wires :: "('ck, 'sk, 'req) psi_library \<Rightarrow> nat \<Rightarrow> 'req \<Rightarrow> ServerSetup \<Rightarrow> string list \<Rightarrow> bool" where
  "psi_wires L n req ssetup resp \<longleftrightarrow>
     (let t = snd (pw_params L (init_params n)) in
      t \<noteq> [] \<and> list_all (\<lambda>k. map_of (pw_parse_params L t) k = map_of (init_params n) k) [''dataset_size'', ''reveal_intersection'']) \<and>
     pw_request L req \<noteq> [] \<and> pw_parse_request L (pw_request L req) = req \<and>
     length (pw_response L resp) < 2 ^ 64 \<and> pw_parse_response L (pw_response L resp) = resp \<and>
     length (pw_setup L ssetup) < 2 ^ 64 \<and> pw_parse_setup L (pw_setup L ssetup) = ssetup"

lemma broadcast_list: "BroadcastPartyList (op_options (psi_party PARTY_CLIENT client server proxy rt)) = [server]"
  by (simp add: BroadcastPartyList_def psi_party_def new_psi_operator_def IgnoreParty_def IgnoreResult_def PARTY_CLIENT_def
      PARTY_SERVER_def PARTY_TEE_COMPUTE_def filter_sort)

lemma party_simps [simp]:
  "op_stop (psi_party p c s x rt) = False" "po_self_party (op_options (psi_party p c s x rt)) = p"
  "po_result_type (op_options (psi_party p c s x rt)) = rt" "po_proxy_node (op_options (psi_party p c s x rt)) = x"
  "op_peer_node (psi_party PARTY_CLIENT c s x rt) = s" "op_peer_node (psi_party PARTY_SERVER c s x rt) = c"
  by (simp_all add: psi_party_def new_psi_operator_def PeerNode_def GetNodeByName_def PARTY_CLIENT_def PARTY_SERVER_def)

lemma copy_setup_id: "ss_data ssetup \<noteq> OtherStructure \<Longrightarrow> copy_setup ssetup = Some ssetup"
  by (simp add: copy_setup_def)

lemma parse_response:
  assumes "psi_wires L n req ssetup resp" "ss_data ssetup \<noteq> OtherStructure" "op_stop op = False"
  shows "ParsePsiResponseFromeString L op (frame (pw_response L resp) @ frame (pw_setup L ssetup)) = Inr (Some (ssetup, resp))"
proof -
  have "read_frame (frame (pw_setup L ssetup)) = Inr (pw_setup L ssetup, [])"
    using read_frame_frame [of "pw_setup L ssetup" "[]"] assms(1) by (simp add: psi_wires_def)
  then show ?thesis using assms by (simp add: ParsePsiResponseFromeString_def read_frame_frame psi_wires_def copy_setup_id)
qed

definition psi_selected :: "int \<Rightarrow> string list \<Rightarrow> int list \<Rightarrow> string list" where
  "psi_selected rt cs idx =
     (if rt = DIFFERENCE then map ((!) cs) (filter (\<lambda>i. int i \<notin> set idx) [0..<length cs]) else map (\<lambda>i. cs ! nat i) idx)"

lemma frame_not_empty [simp]: "frame a \<noteq> []"
  by (simp add: frame_def htonll_def)

lemma client_run:
  assumes "psi_calls L ck sk cs ss req ssetup resp idx" "psi_indexes cs ss idx" "psi_wires L (length cs) req ssetup resp" "cs \<noteq> []"
  shows "ecdh_OnExecute box_channel L ck sk' (psi_party PARTY_CLIENT client server proxy rt) cs []
      ((frame (pw_response L resp) @ frame (pw_setup L ssetup)) # i, s) =
    Inr ((SUCCESS, psi_selected rt cs idx),
      (i, s @ [(server, snd (pw_params L (init_params (length cs)))), (server, pw_request L req)]))"
proof -
  have "list_all (\<lambda>i. 0 \<le> i \<and> i < int (length cs)) idx" using assms(2) by (auto simp: psi_indexes_def list_all_iff)
  then show ?thesis using assms(1,4)
    by (simp add: ecdh_OnExecute_def ExecuteAsClient_def BuildInitParam_def SendPSIRequestAndWaitResponse_def GetIntersection_def
        parse_response [OF assms(3)] psi_calls_def status_value_def copy_setup_id psi_selected_def split: prod.split)
qed

lemma server_run:
  assumes "psi_calls L ck (sk True) cs ss req ssetup resp idx" "psi_wires L (length cs) req ssetup resp" "ss \<noteq> []" "length cs < 2 ^ 64"
  shows "ecdh_OnExecute box_channel L ck' sk (psi_party PARTY_SERVER client server proxy rt) ss result
      (snd (pw_params L (init_params (length cs))) # pw_request L req # i, s) =
    Inr ((SUCCESS, result), (i, s @ [(client, frame (pw_response L resp) @ frame (pw_setup L ssetup))]))"
proof -
  have p: "PARTY_SERVER \<noteq> PARTY_CLIENT" by (simp add: PARTY_SERVER_def PARTY_CLIENT_def)
  have "unat (word_of_nat (length cs) :: 64 word) = length cs" using assms(4) by (simp add: unat_of_nat take_bit_nat_eq_self)
  then show ?thesis using assms(1-3) p
    by (simp add: ecdh_OnExecute_def ExecuteAsServer_def RecvInitParam_def InitRequest_def PreparePSIResponse_def psi_calls_def
        status_value_def psi_wires_def Let_def init_params_def get_int64_def get_int32_def)
qed

lemma selected_intersection:
  assumes "psi_indexes cs ss idx" "rt \<noteq> DIFFERENCE"
  shows "mset (psi_selected rt cs idx) = mset (filter (\<lambda>x. x \<in> set ss) cs) + mset (false_hits cs ss idx)"
proof -
  let ?sel = "map (\<lambda>i. cs ! nat i) idx"
  have "mset (filter (\<lambda>i. cs ! nat i \<in> set ss) idx) = mset (map int (filter (\<lambda>i. cs ! i \<in> set ss) [0..<length cs]))"
    using assms(1) by (intro set_eq_iff_mset_eq_distinct [THEN iffD1]) (auto simp: psi_indexes_def distinct_map)
  then have "mset (map (\<lambda>i. cs ! nat i) (filter (\<lambda>i. cs ! nat i \<in> set ss) idx)) =
      mset (map (\<lambda>i. cs ! nat i) (map int (filter (\<lambda>i. cs ! i \<in> set ss) [0..<length cs])))" by (simp only: mset_map)
  also have "map (\<lambda>i. cs ! nat i) (map int (filter (\<lambda>i. cs ! i \<in> set ss) [0..<length cs])) = filter (\<lambda>x. x \<in> set ss) (map ((!) cs) [0..<length cs])"
    by (simp add: filter_map comp_def)
  finally have "mset (filter (\<lambda>x. x \<in> set ss) ?sel) = mset (filter (\<lambda>x. x \<in> set ss) cs)" by (simp add: filter_map comp_def map_nth)
  moreover have "mset ?sel = mset (filter (\<lambda>x. x \<in> set ss) ?sel) + mset (filter (\<lambda>x. x \<notin> set ss) ?sel)"
    by (simp only: mset_filter multiset_partition [symmetric])
  ultimately show ?thesis using assms(2) by (simp add: psi_selected_def false_hits_def)
qed

lemma filter_count: "length (filter (\<lambda>x. P x \<and> Q x) xs) + length (filter (\<lambda>x. P x \<and> \<not> Q x) xs) = length (filter P xs)"
  by (induction xs) auto

lemma selected_difference:
  assumes "psi_indexes cs ss idx"
  shows "subseq (psi_selected DIFFERENCE cs idx) (filter (\<lambda>x. x \<notin> set ss) cs)"
    and "length (psi_selected DIFFERENCE cs idx) + length (false_hits cs ss idx) = length (filter (\<lambda>x. x \<notin> set ss) cs)"
proof -
  let ?all = "filter (\<lambda>i. cs ! i \<notin> set ss) [0..<length cs]"
  have sel: "filter (\<lambda>i. int i \<notin> set idx) [0..<length cs] = filter (\<lambda>i. int i \<notin> set idx) ?all"
    using assms by (auto simp: psi_indexes_def intro!: filter_cong)
  have cs: "filter (\<lambda>x. x \<notin> set ss) cs = map ((!) cs) ?all"
    using filter_map [of "\<lambda>x. x \<notin> set ss" "(!) cs" "[0..<length cs]"] by (simp add: map_nth comp_def)
  show "subseq (psi_selected DIFFERENCE cs idx) (filter (\<lambda>x. x \<notin> set ss) cs)"
    unfolding cs psi_selected_def if_P [OF refl] sel by (intro subseq_map subseq_filter_left)
  have "mset (filter (\<lambda>i. cs ! nat i \<notin> set ss) idx) = mset (map int (filter (\<lambda>i. cs ! i \<notin> set ss \<and> int i \<in> set idx) [0..<length cs]))"
    using assms by (intro set_eq_iff_mset_eq_distinct [THEN iffD1]) (auto simp: psi_indexes_def distinct_map image_iff)
  from mset_eq_length [OF this]
  have "length (filter (\<lambda>i. cs ! nat i \<notin> set ss) idx) = length (filter (\<lambda>i. cs ! i \<notin> set ss \<and> int i \<in> set idx) [0..<length cs])" by simp
  then show "length (psi_selected DIFFERENCE cs idx) + length (false_hits cs ss idx) = length (filter (\<lambda>x. x \<notin> set ss) cs)"
    using filter_count [of "\<lambda>i. cs ! i \<notin> set ss" "\<lambda>i. int i \<in> set idx" "[0..<length cs]"]
    by (simp add: psi_selected_def sel cs false_hits_def filter_map comp_def)
qed

text \<open>What a client has to get, up to the given false hits.\<close>

definition psi_answer :: "int \<Rightarrow> string list \<Rightarrow> string list \<Rightarrow> string list \<Rightarrow> string list \<Rightarrow> bool" where
  "psi_answer rt cs ss wrong result \<longleftrightarrow>
     (if rt = DIFFERENCE then subseq result (filter (\<lambda>x. x \<notin> set ss) cs) \<and> length result + length wrong = length (filter (\<lambda>x. x \<notin> set ss) cs)
      else mset result = mset (filter (\<lambda>x. x \<in> set ss) cs) + mset wrong)"

lemma psi_answer_exact:
  "psi_answer rt cs ss [] result \<longleftrightarrow>
     (if rt = DIFFERENCE then result = filter (\<lambda>x. x \<notin> set ss) cs else mset result = mset (filter (\<lambda>x. x \<in> set ss) cs))"
  by (auto simp: psi_answer_def intro: subseq_same_length)

lemma selected_answer: "psi_indexes cs ss idx \<Longrightarrow> psi_answer rt cs ss (false_hits cs ss idx) (psi_selected rt cs idx)"
  by (simp add: psi_answer_def selected_difference selected_intersection)

text \<open>
  Two parties that run the protocol over elliptic curves agree: there are messages with which the client, receiving the
  server's answer, sends its two messages and, when the result is to be synchronised, the result, and with which the server, receiving these, sends that
  answer; both end with success. The client's result is the elements of the client that the server has, each as often as the client has it
  (or, for the difference, those the server does not have, in their order), up to the false hits of the library, and the server ends with the same result when it is synchronised and
  with none otherwise.
\<close>

lemma ecdh_agree:
  assumes "psi_calls L ck (sk True) cs ss req ssetup resp idx" "psi_indexes cs ss idx" "psi_wires L (length cs) req ssetup resp"
    and "cs \<noteq> []" "ss \<noteq> []" "length cs < 2 ^ 64" "list_all (\<lambda>x. length x < 2 ^ 64) cs"
  shows "\<exists>answer to_server result.
    psi_Execute box_channel (psi_party PARTY_CLIENT client server proxy rt)
      (ecdh_OnExecute box_channel L ck sk (psi_party PARTY_CLIENT client server proxy rt)) cs sync [] ([answer], []) =
      Inr ((SUCCESS, result), ([], map (\<lambda>m. (server, m)) to_server)) \<and>
    psi_Execute box_channel (psi_party PARTY_SERVER client server proxy rt)
      (ecdh_OnExecute box_channel L ck sk (psi_party PARTY_SERVER client server proxy rt)) ss sync [] (to_server, []) =
      Inr ((SUCCESS, if sync then result else []), ([], [(client, answer)])) \<and>
    psi_answer rt cs ss (false_hits cs ss idx) result"
proof -
  let ?c = "psi_party PARTY_CLIENT client server proxy rt" and ?s = "psi_party PARTY_SERVER client server proxy rt"
  let ?answer = "frame (pw_response L resp) @ frame (pw_setup L ssetup)" and ?res = "psi_selected rt cs idx"
  let ?init = "snd (pw_params L (init_params (length cs)))"
  let ?msgs = "[?init, pw_request L req] @ (if sync then [result_text ?res] else [])"
  have roles: "PARTY_SERVER \<noteq> PARTY_CLIENT" "\<not> IgnoreResult PARTY_SERVER" "\<not> IgnoreResult PARTY_CLIENT"
    by (simp_all add: PARTY_SERVER_def PARTY_CLIENT_def IgnoreResult_def PARTY_TEE_COMPUTE_def)
  have "set ?res \<subseteq> set cs" using assms(2) by (auto simp: psi_selected_def psi_indexes_def)
  then have items: "parse_items (result_text ?res) = Inr ?res" using assms(7) by (intro parse_result_text) (auto simp: list_all_iff)
  have "psi_Execute box_channel ?c (ecdh_OnExecute box_channel L ck sk ?c) cs sync [] ([?answer], []) =
      Inr ((SUCCESS, ?res), ([], map (\<lambda>m. (server, m)) ?msgs))"
    using client_run [OF assms(1-4), of sk client server proxy rt "[]" "[]"] roles
    by (simp add: psi_Execute_def BroadcastPsiResult_def BroadcastResult_def broadcast_list)
  moreover have "psi_Execute box_channel ?s (ecdh_OnExecute box_channel L ck sk ?s) ss sync [] (?msgs, []) =
      Inr ((SUCCESS, if sync then ?res else []), ([], [(client, ?answer)]))"
    using server_run [of L ck sk cs ss req ssetup resp idx ck client server proxy rt "[]" "drop 2 ?msgs" "[]"] assms(1,3,5,6) roles items
    by (auto simp: psi_Execute_def BroadcastPsiResult_def ReceiveResult_def Let_def split: if_splits)
  ultimately show ?thesis using selected_answer [OF assms(2), of rt] by blast
qed

section \<open>Properties\<close>

text \<open>A library for elements of one letter; the letter \<^verbatim>\<open>z\<close> is a false positive.\<close>

definition letters_library :: "(unit, bool, string list) psi_library" where
  "letters_library =
     \<lparr>pl_CreateRequest = (\<lambda>_ cs. Some cs), pl_CreateSetupMessage = (\<lambda>_ _ _ ss. Some \<lparr>ss_bits = concat ss, ss_data = Gcs 1 2\<rparr>),
      pl_ProcessRequest = (\<lambda>_ q. Some q),
      pl_GetIntersection = (\<lambda>_ ssetup q. Some (map int (filter (\<lambda>i. hd (q ! i) \<in> set (CHR ''z'' # ss_bits ssetup)) [0..<length q]))),
      pw_request = (\<lambda>q. CHR ''q'' # concat q), pw_parse_request = (\<lambda>t. map (\<lambda>c. [c]) (tl t)),
      pw_response = concat, pw_parse_response = map (\<lambda>c. [c]),
      pw_setup = ss_bits, pw_parse_setup = (\<lambda>t. \<lparr>ss_bits = t, ss_data = Gcs 1 2\<rparr>),
      pw_params = (\<lambda>_. (True, ''p'')), pw_parse_params = (\<lambda>_. init_params 3)\<rparr>"

text \<open>
  C28. The result of the protocol over oblivious transfers, for the client: when the library's receiver gives the positions of
  those of its blocks that the server's blocks contain, each once, and the hash has no collision among the elements of both, then the
  client's result is the elements that the server has, each as often as the client has it, and for the difference those that the server
  does not have, in their order. This holds for any order of the threads that hash and that collect the result.
\<close>

theorem kkrt_client_result:
  assumes "any_writes il" "any_writes il'" "cs \<noteq> []"
    and "K = open_channel server proxy" "kl_recv_sizes K (kl_send_size K (word_of_nat (length cs)) n) = (m # ms, n1)"
    and "kl_receiver K m (word_of_nat (length cs)) (map (kl_hash K) cs) (kl_send_byte K (kl_recv_byte K n1)) = (idx, n2)"
    and "distinct idx" "set idx = set (filter (\<lambda>i. kl_hash K (cs ! i) \<in> kl_hash K ` set ss) [0..<length cs])"
    and "inj_on (kl_hash K) (set cs \<union> set ss)"
  shows "\<exists>result. kkrt_OnExecute open_channel il b il' (psi_party PARTY_CLIENT client server proxy rt) cs [] n = Inr ((SUCCESS, result), n2) \<and>
    (if rt = DIFFERENCE then result = filter (\<lambda>x. x \<notin> set ss) cs else mset result = mset (filter (\<lambda>x. x \<in> set ss) cs))"
proof -
  let ?op = "psi_party PARTY_CLIENT client server proxy rt"
  have same: "kl_hash K (cs ! i) \<in> kl_hash K ` set ss \<longleftrightarrow> cs ! i \<in> set ss" if "i < length cs" for i
    using assms(9) that by (auto dest!: inj_onD)
  have "filter (\<lambda>i. kl_hash K (cs ! i) \<in> kl_hash K ` set ss) [0..<length cs] = filter (\<lambda>i. cs ! i \<in> set ss) [0..<length cs]"
    by (intro filter_cong) (simp_all add: same)
  then have idx: "set idx = set (filter (\<lambda>i. cs ! i \<in> set ss) [0..<length cs])" using assms(8) by simp
  then have indexes: "psi_indexes cs ss (map int idx)" "false_hits cs ss (map int idx) = []"
    using assms(7) by (auto simp: psi_indexes_def distinct_map false_hits_def filter_empty_conv)
  have range: "list_all (\<lambda>i. i < length cs) idx" using assms(8) by (auto simp: list_all_iff)
  have card: "length idx \<le> length cs"
    using assms(7) range by (metis card_lessThan card_mono distinct_card finite_lessThan lessThan_iff list_all_iff subsetI)
  have "GetResult il' (op_options ?op) cs idx [] = Inr (psi_selected rt cs (map int idx))"
  proof (cases "rt = DIFFERENCE")
    case True
    then show ?thesis using card by (auto simp: GetResult_def psi_selected_def image_iff intro!: filter_cong)
  next
    case False
    then show ?thesis using GetResult_intersection [OF assms(2) _ range, of "op_options ?op" "[]"] by (simp add: psi_selected_def comp_def)
  qed
  moreover have "BuildChannelInterface (op_options ?op) open_channel = Some K"
    using assms(4) by (simp add: BuildChannelInterface_def psi_party_def new_psi_operator_def PARTY_CLIENT_def PARTY_SERVER_def)
  moreover have "KkrtRecv K il b cs n = Inr (idx, n2)"
    using assms(5,6) by (simp add: KkrtRecv_def HashDataParallel_map [OF assms(1)] first_size_def Let_def)
  ultimately have "kkrt_OnExecute open_channel il b il' ?op cs [] n = Inr ((SUCCESS, psi_selected rt cs (map int idx)), n2)"
    using assms(3) by (simp add: kkrt_OnExecute_def)
  then show ?thesis using selected_answer [OF indexes(1), of rt] unfolding indexes(2) psi_answer_exact by blast
qed

definition letters_kkrt :: "(string, 'n) kkrt_library" where
  "letters_kkrt =
     \<lparr>kl_hash = (\<lambda>s. s), kl_send_size = (\<lambda>_ n. n), kl_recv_sizes = (\<lambda>n. ([2], n)), kl_send_byte = (\<lambda>n. n), kl_recv_byte = (\<lambda>n. n),
      kl_receiver = (\<lambda>_ _ bs n. (filter (\<lambda>i. bs ! i \<in> {''b'', ''c''}) [0..<length bs], n)), kl_sender = (\<lambda>_ _ _ n. n)\<rparr>"

theorem kkrt_client_result_witness:
  "\<exists>result. kkrt_OnExecute (\<lambda>_ _. letters_kkrt) rev [] rev (psi_party PARTY_CLIENT empty_Node empty_Node empty_Node 1)
     [''a'', ''b''] [] () = Inr ((SUCCESS, result), ()) \<and> result = [''a'']"
proof -
  have "any_writes (rev :: (nat \<times> string) list \<Rightarrow> _)" by (simp add: any_writes_def)
  then show ?thesis
    using kkrt_client_result [of rev rev "[''a'', ''b'']" letters_kkrt "\<lambda>_ _. letters_kkrt" empty_Node empty_Node "()" 2 "[]" "()" "[1]" "()"
        "[''b'', ''c'']" "[]" empty_Node 1]
    by (simp add: letters_kkrt_def DIFFERENCE_def)
qed

end
