(* ===== verification/Psi_Task.thy ===== *)
theory Psi_Task
  imports Psi_Operator Dataset_Service Party_Config
begin

text \<open>
  The task of a set intersection, \<^verbatim>\<open>task/semantic/psi_task.cc\<close>: the parameters from the message, the elements from the
  dataset, the operator, and the file with the result. The property at the end joins the whole path of two parties, from their messages and tables to
  what is saved.
\<close>

section \<open>State and surroundings\<close>

record psi_task =
  pk_data_index :: "int list"
  pk_columns :: "string list"
  pk_psi_type :: int
  pk_dataset_id :: string
  pk_detail :: bool
  pk_result_path :: string
  pk_elements :: "string list"
  pk_result :: "string list"
  pk_broadcast :: bool
  pk_options :: psi_options
  pk_unique :: bool

definition new_psi_task :: psi_task where
  "new_psi_task =
     \<lparr>pk_data_index = [], pk_columns = [], pk_psi_type = 1, pk_dataset_id = [], pk_detail = False, pk_result_path = [],
      pk_elements = [], pk_result = [], pk_broadcast = False,
      pk_options = \<lparr>po_party_info = [], po_self_party = [], po_result_type = 0, po_code = [], po_proxy_node = empty_Node\<rparr>, pk_unique = True\<rparr>"

text \<open>
  What the task works with: the channels, the two libraries with the keys and the orders in which their threads write, the number of hardware
  threads, the CSV driver's files with \<open>pe_make\<close> for making a table, the storage directory, the dataset service (\<open>service_getDriver\<close>), and the cursor of
  a driver for some columns: the schema of the driver, whether there is a cursor, and what it reads for a schema.
\<close>

record ('ck, 'sk, 'req, 'b, 'n, 'tab) psi_env =
  pe_channel :: "Node \<Rightarrow> 'n channel"
  pe_library :: "('ck, 'sk, 'req) psi_library"
  pe_client_key :: 'ck
  pe_server_key :: "bool \<Rightarrow> 'sk"
  pe_kkrt :: "Node \<Rightarrow> Node \<Rightarrow> ('b, 'n) kkrt_library"
  pe_hash_order :: "(nat \<times> 'b) list \<Rightarrow> (nat \<times> 'b) list"
  pe_block :: 'b
  pe_order :: "(nat \<times> string) list \<Rightarrow> (nat \<times> string) list"
  pe_cores :: nat
  pe_csv :: "'tab csv_io"
  pe_make :: "schema \<Rightarrow> string list list \<Rightarrow> 'tab"
  pe_storage :: string
  pe_driver :: "string \<Rightarrow> bool \<Rightarrow> 'n \<Rightarrow> DataDriver option res \<times> 'n"
  pe_cursor :: "DataDriver \<Rightarrow> int list \<Rightarrow> (schema \<times> bool \<times> (schema \<Rightarrow> text_table option res)) res"

text \<open>The cursor of the CSV driver, with \<open>to_text\<close> for the texts of a table.\<close>

definition csv_text_cursor ::
  "'tab csv_io \<Rightarrow> ('tab \<Rightarrow> text_table) \<Rightarrow> filesys \<Rightarrow> DataDriver \<Rightarrow> int list \<Rightarrow> (schema \<times> bool \<times> (schema \<Rightarrow> text_table option res)) res" where
  "csv_text_cursor L to_text fs driver col_index =
     bindR (csv_GetCursor col_index (csv_of driver)) (\<lambda>(c, cd). bindR (cursor_info cd) (\<lambda>ai.
       Inr (ai_schema ai, True, \<lambda>new_schema. bindR (csv_cursor_read L fs cd c (Some new_schema)) (\<lambda>tab. Inr (Some (to_text tab))))))"

section \<open>Parameters\<close>

definition psi_IsClient :: "pb_task \<Rightarrow> bool" where
  "psi_IsClient t \<longleftrightarrow> pt_party_name t = PARTY_CLIENT"

definition psi_IsServer :: "pb_task \<Rightarrow> bool" where
  "psi_IsServer t \<longleftrightarrow> pt_party_name t = PARTY_SERVER"

definition psi_IsTeeCompute :: "pb_task \<Rightarrow> bool" where
  "psi_IsTeeCompute t \<longleftrightarrow> pt_party_name t = PARTY_TEE_COMPUTE"

definition get_string :: "ParamValue \<Rightarrow> string" where
  "get_string v = (case pv_value v of value_string s \<Rightarrow> s | _ \<Rightarrow> [])"

definition get_int32_array :: "ParamValue \<Rightarrow> int list" where
  "get_int32_array v = (case pv_value v of value_int32_array is \<Rightarrow> map sint is | _ \<Rightarrow> [])"

definition psi_BuildOptions :: "pb_task \<Rightarrow> psi_options \<Rightarrow> retcode \<times> psi_options" where
  "psi_BuildOptions t opts =
     (let opts1 = opts\<lparr>po_self_party := pt_party_name t, po_result_type := 0, po_code := pt_code t,
            po_party_info := fold (\<lambda>(name, pb). map_assign name (pbNode2Node pb empty_Node)) (pt_party_access_info t) (po_party_info opts)\<rparr>;
          (proxy, found) = ExtractProxyNode (map_of (pt_auxiliary_server t) ''PROXY_NODE'') (po_proxy_node opts1) in
      if \<not> found then (FAIL, opts1)
      else let opts2 = opts1\<lparr>po_proxy_node := proxy\<rparr> in
           case map_of (pt_params t) ''psiType'' of
             None \<Rightarrow> (SUCCESS, opts2)
           | Some v \<Rightarrow> (SUCCESS, opts2\<lparr>po_result_type := get_int32 v\<rparr>))"

text \<open>The last part of \<^verbatim>\<open>LoadParams\<close>, for a party with a dataset.\<close>

definition load_index :: "pb_task \<Rightarrow> psi_task \<Rightarrow> psi_task" where
  "load_index t p =
     (let index_keyword = (if psi_IsClient t then ''clientIndex'' else if psi_IsServer t then ''serverIndex'' else []) in
      case map_of (pt_params t) index_keyword of
        None \<Rightarrow> p
      | Some v \<Rightarrow> p\<lparr>pk_data_index := pk_data_index p @ (if pv_is_array v then get_int32_array v else [get_int32 v])\<rparr>)"

definition load_path :: "string \<Rightarrow> pb_task \<Rightarrow> psi_task \<Rightarrow> psi_task" where
  "load_path storage t p =
     (if psi_IsTeeCompute t then p
      else let result_path_keyword = (if psi_IsClient t then ''outputFullFilename'' else if psi_IsServer t then ''server_outputFullFilname'' else []) in
           case map_of (pt_params t) result_path_keyword of
             None \<Rightarrow> p
           | Some v \<Rightarrow> p\<lparr>pk_result_path := CompletePath storage (get_string v)\<rparr>)"

definition load_flag :: "pb_task \<Rightarrow> string \<Rightarrow> bool \<Rightarrow> bool" where
  "load_flag t name old = (case map_of (pt_params t) name of None \<Rightarrow> old | Some v \<Rightarrow> 0 < get_int32 v)"

text \<open>Without a dataset for the party the index and the path of the result are not read.\<close>

definition psi_LoadParams :: "string \<Rightarrow> pb_task \<Rightarrow> psi_task \<Rightarrow> (retcode \<times> psi_task) res" where
  "psi_LoadParams storage t p =
     (let (ret, opts) = psi_BuildOptions t (pk_options p); p1 = p\<lparr>pk_options := opts\<rparr> in
      if ret \<noteq> SUCCESS then Inr (FAIL, p1)
      else let psi_type = (case map_of (pt_params t) ''psiTag'' of None \<Rightarrow> pk_psi_type p1 | Some v \<Rightarrow> get_int32 v);
               p2 = p1\<lparr>pk_psi_type := psi_type\<rparr> in
           if psi_type \<notin> {0, 1, 2} then Inl (Raised ''PsiTag is unknown'')
           else let p3 = p2\<lparr>pk_unique := load_flag t ''UniqueValues'' (pk_unique p2),
                      pk_broadcast := load_flag t ''sync_result_to_server'' (pk_broadcast p2)\<rparr> in
                case map_of (pt_party_datasets t) (pt_party_name t) of
                  None \<Rightarrow> Inr (SUCCESS, p3)
                | Some d \<Rightarrow>
                    let p4 = (case map_of (ds_data d) (pt_party_name t) of None \<Rightarrow> p3 | Some i \<Rightarrow> p3\<lparr>pk_dataset_id := i\<rparr>);
                        p5 = (if ds_detail d then p4\<lparr>pk_detail := True\<rparr> else p4) in
                    Inr (SUCCESS, load_path storage t (load_index t p5)))"

section \<open>Elements\<close>

fun filter_duplicated :: "string set \<Rightarrow> string list \<Rightarrow> string list" where
  "filter_duplicated dup [] = []"
| "filter_duplicated dup (item # items) =
     (if item \<in> dup then filter_duplicated dup items else item # filter_duplicated (insert item dup) items)"

definition psi_LoadDataset ::
  "('ck, 'sk, 'req, 'b, 'n, 'tab) psi_env \<Rightarrow> psi_task \<Rightarrow> 'n \<Rightarrow> ((retcode \<times> psi_task) \<times> 'n) res" where
  "psi_LoadDataset E p n =
     (if pk_dataset_id p = [] \<or> pk_data_index p = [] then Inr ((SUCCESS, p), n)
      else let (driver, n1) = pe_driver E (pk_dataset_id p) (pk_detail p) n in
           bindR driver (\<lambda>d. case d of
             None \<Rightarrow> Inr ((FAIL, p), n1)
           | Some driver \<Rightarrow>
               bindR (pe_cursor E driver (pk_data_index p)) (\<lambda>(schema, has_cursor, read).
               bindR (LoadDatasetInternal (pe_order E) (pe_cores E) schema has_cursor read (pk_data_index p)) (\<lambda>(ret, data, names).
                 if ret \<noteq> SUCCESS then Inr ((FAIL, p), n1)
                 else let elements = (if pk_unique p then filter_duplicated {} data else data) in
                      Inr ((SUCCESS, p\<lparr>pk_elements := elements, pk_columns := names\<rparr>), n1)))))"

section \<open>Running the task\<close>

definition on_execute ::
  "('ck, 'sk, 'req, 'b, 'n, 'tab) psi_env \<Rightarrow> psi_kind \<Rightarrow> psi_operator \<Rightarrow> string list \<Rightarrow> string list \<Rightarrow> 'n \<Rightarrow> ((retcode \<times> string list) \<times> 'n) res" where
  "on_execute E kind op =
     (case kind of
        ECDH \<Rightarrow> ecdh_OnExecute (pe_channel E) (pe_library E) (pe_client_key E) (pe_server_key E) op
      | KKRT \<Rightarrow> kkrt_OnExecute (pe_kkrt E) (pe_hash_order E) (pe_block E) (pe_order E) op)"

text \<open>\<open>None\<close> is a failure.\<close>

definition psi_InitOperator :: "psi_task \<Rightarrow> (psi_kind \<times> psi_operator) option res" where
  "psi_InitOperator p = psi_Create (pk_psi_type p) (pk_options p)"

definition psi_ExecuteOperator ::
  "('ck, 'sk, 'req, 'b, 'n, 'tab) psi_env \<Rightarrow> psi_kind \<times> psi_operator \<Rightarrow> psi_task \<Rightarrow> 'n \<Rightarrow> ((retcode \<times> psi_task) \<times> 'n) res" where
  "psi_ExecuteOperator E op p n =
     bindR (psi_Execute (pe_channel E) (snd op) (on_execute E (fst op) (snd op)) (pk_elements p) (pk_broadcast p) (pk_result p) n) (\<lambda>((ret, result), n1).
       Inr ((ret, p\<lparr>pk_result := result\<rparr>), n1))"

definition NeedSaveResult :: "pb_task \<Rightarrow> psi_task \<Rightarrow> bool" where
  "NeedSaveResult t p \<longleftrightarrow> \<not> psi_IsTeeCompute t \<and> \<not> (psi_IsServer t \<and> \<not> pk_broadcast p)"

definition psi_SaveResult :: "('ck, 'sk, 'req, 'b, 'n, 'tab) psi_env \<Rightarrow> pb_task \<Rightarrow> psi_task \<Rightarrow> filesys \<Rightarrow> (retcode \<times> filesys) res" where
  "psi_SaveResult E t p fs =
     (if \<not> NeedSaveResult t p then Inr (SUCCESS, fs)
      else bindR (SaveDataToCSVFile (pe_csv E) (pe_make E) (pk_result p) (pk_result_path p) (pk_columns p) fs) (\<lambda>(ret, fs1).
        if ret \<noteq> SUCCESS then Inr (FAIL, fs1) else Inr (ret, fs1)))"

definition break_unless :: "retcode \<Rightarrow> string \<Rightarrow> unit res" where
  "break_unless ret msg = (if ret \<noteq> SUCCESS then Inl (Raised msg) else Inr ())"

definition psi_execute ::
  "('ck, 'sk, 'req, 'b, 'n, 'tab) psi_env \<Rightarrow> pb_task \<Rightarrow> psi_task \<Rightarrow> filesys \<Rightarrow> 'n \<Rightarrow> (int \<times> filesys \<times> 'n) res" where
  "psi_execute E t p fs n =
     bindR (psi_LoadParams (pe_storage E) t p) (\<lambda>(ret, p1). bindR (break_unless ret ''Psi load task params failed.'') (\<lambda>_.
     bindR (psi_LoadDataset E p1 n) (\<lambda>((ret, p2), n1). bindR (break_unless ret ''Psi load dataset failed.'') (\<lambda>_.
     bindR (psi_InitOperator p2) (\<lambda>op.
       case op of
         None \<Rightarrow> Inl (Raised ''Psi init operator failed.'')
       | Some op \<Rightarrow>
           bindR (psi_ExecuteOperator E op p2 n1) (\<lambda>((ret, p3), n2). bindR (break_unless ret ''Psi execute operator failed.'') (\<lambda>_.
           bindR (psi_SaveResult E t p3 fs) (\<lambda>(ret, fs1). bindR (break_unless ret ''Psi save result failed.'') (\<lambda>_.
             Inr (0, fs1, n2))))))))))"

text \<open>The entry for Python gives its own elements. It reports success whatever happened; the operator's verdict is not even looked at.\<close>

definition psi_ExecuteTask ::
  "('ck, 'sk, 'req, 'b, 'n, 'tab) psi_env \<Rightarrow> pb_task \<Rightarrow> psi_task \<Rightarrow> string list \<Rightarrow> string list \<Rightarrow> 'n \<Rightarrow> ((retcode \<times> string list) \<times> 'n) res" where
  "psi_ExecuteTask E t p input result n =
     bindR (psi_LoadParams (pe_storage E) t p) (\<lambda>(ret, p1).
       if ret \<noteq> SUCCESS then Inr ((SUCCESS, result), n)
       else bindR (psi_InitOperator p1) (\<lambda>op.
         case op of
           None \<Rightarrow> Inr ((SUCCESS, result), n)
         | Some (kind, op) \<Rightarrow>
             bindR (psi_Execute (pe_channel E) op (on_execute E kind op) input (pk_broadcast p1) result n) (\<lambda>((_, result1), n1).
               Inr ((SUCCESS, result1), n1))))"

section \<open>Loading\<close>

lemma filter_duplicated_spec: "distinct (filter_duplicated dup xs) \<and> set (filter_duplicated dup xs) = set xs - dup"
  by (induction dup xs rule: filter_duplicated.induct) auto

text \<open>The elements a party takes from its table.\<close>

definition psi_elements :: "bool \<Rightarrow> text_table \<Rightarrow> string list" where
  "psi_elements unique table =
     (let rows = map (\<lambda>i. join DATA_RECORD_SEP (table_row table i)) [0..<tt_num_rows table] in
      if unique then filter_duplicated {} rows else rows)"

text \<open>The dataset \<open>i\<close> can be read at the columns \<open>idx\<close>, and gives the table.\<close>

definition psi_loads :: "('ck, 'sk, 'req, 'b, 'n, 'tab) psi_env \<Rightarrow> string \<Rightarrow> int list \<Rightarrow> text_table \<Rightarrow> bool" where
  "psi_loads E i idx table \<longleftrightarrow>
     any_writes (pe_order E) \<and> pe_cores E \<le> 635 \<and> i \<noteq> [] \<and> idx \<noteq> [] \<and> table_wf table \<and> length (tt_columns table) = length idx \<and>
     (\<exists>driver schema new_schema read. (\<forall>n. pe_driver E i False n = (Inr (Some driver), n)) \<and>
        pe_cursor E driver idx = Inr (schema, True, read) \<and> text_schema schema idx = Inr new_schema \<and> read new_schema = Inr (Some table))"

lemma load_elements:
  assumes "psi_loads E i idx table" "pk_dataset_id p = i" "pk_data_index p = idx" "\<not> pk_detail p"
  shows "psi_LoadDataset E p n =
    Inr ((SUCCESS, p\<lparr>pk_elements := psi_elements (pk_unique p) table, pk_columns := map fst (tt_columns table)\<rparr>), n)"
proof -
  obtain driver schema new_schema read where d: "pe_driver E i False n = (Inr (Some driver), n)"
      "pe_cursor E driver idx = Inr (schema, True, read)" "text_schema schema idx = Inr new_schema" "read new_schema = Inr (Some table)"
    using assms(1) by (auto simp: psi_loads_def)
  have l: "any_writes (pe_order E)" "pe_cores E \<le> 635" "table_wf table" "length (tt_columns table) = length idx" "i \<noteq> []" "idx \<noteq> []"
    using assms(1) by (simp_all add: psi_loads_def)
  have "LoadDatasetInternal (pe_order E) (pe_cores E) schema True read idx =
      Inr (SUCCESS, map (\<lambda>i. join DATA_RECORD_SEP (table_row table i)) [0..<tt_num_rows table], map fst (tt_columns table))"
    using d(3,4) l(4) load_rows [OF l(1-3)] by (simp add: LoadDatasetInternal_def validationDataColum_def)
  then show ?thesis using assms(2-4) d l(5,6) by (simp add: psi_LoadDataset_def psi_elements_def)
qed

section \<open>The message of a task\<close>

definition int_param :: "32 word \<Rightarrow> ParamValue" where
  "int_param i = \<lparr>pv_var_type = VT_INT32, pv_is_array = False, pv_value = value_int32 i\<rparr>"

definition index_param :: "32 word list \<Rightarrow> ParamValue" where
  "index_param is = \<lparr>pv_var_type = VT_INT32, pv_is_array = True, pv_value = value_int32_array is\<rparr>"

definition text_param :: "string \<Rightarrow> ParamValue" where
  "text_param s = \<lparr>pv_var_type = VT_STRING, pv_is_array = False, pv_value = value_string s\<rparr>"

record psi_order =
  or_client :: pb_node
  or_server :: pb_node
  or_proxy :: pb_node
  or_result_type :: "32 word"
  or_sync :: bool
  or_unique :: bool
  or_client_index :: "32 word list"
  or_server_index :: "32 word list"
  or_client_path :: string
  or_server_path :: string
  or_client_data :: string
  or_server_data :: string

text \<open>What the scheduler sends the party for an intersection with the protocol over elliptic curves.\<close>

definition psi_message :: "psi_order \<Rightarrow> string \<Rightarrow> pb_task" where
  "psi_message q party =
     \<lparr>pt_type = PSI_TASK, pt_language = PROTO, pt_code = [], pt_node_map = [], pt_task_info = empty_TaskContext, pt_party_name = party,
      pt_params = [(''psiTag'', int_param 0), (''psiType'', int_param (or_result_type q)), (''UniqueValues'', int_param (if or_unique q then 1 else 0)),
        (''sync_result_to_server'', int_param (if or_sync q then 1 else 0)), (''clientIndex'', index_param (or_client_index q)),
        (''serverIndex'', index_param (or_server_index q)), (''outputFullFilename'', text_param (or_client_path q)),
        (''server_outputFullFilname'', text_param (or_server_path q))],
      pt_party_datasets = [(PARTY_CLIENT, \<lparr>ds_data = [(PARTY_CLIENT, or_client_data q)], ds_detail = False\<rparr>),
        (PARTY_SERVER, \<lparr>ds_data = [(PARTY_SERVER, or_server_data q)], ds_detail = False\<rparr>)],
      pt_party_access_info = [(PARTY_CLIENT, or_client q), (PARTY_SERVER, or_server q)],
      pt_auxiliary_server = [(''PROXY_NODE'', or_proxy q)]\<rparr>"

abbreviation order_client :: "psi_order \<Rightarrow> Node" where "order_client q \<equiv> pbNode2Node (or_client q) empty_Node"
abbreviation order_server :: "psi_order \<Rightarrow> Node" where "order_server q \<equiv> pbNode2Node (or_server q) empty_Node"

definition order_party :: "psi_order \<Rightarrow> string \<Rightarrow> psi_operator" where
  "order_party q party = psi_party party (order_client q) (order_server q) (pbNode2Node (or_proxy q) empty_Node) (sint (or_result_type q))"

definition loaded_task :: "string \<Rightarrow> psi_order \<Rightarrow> string \<Rightarrow> psi_task" where
  "loaded_task storage q party =
     new_psi_task\<lparr>pk_data_index := map sint (if party = PARTY_CLIENT then or_client_index q else or_server_index q), pk_psi_type := 0,
       pk_dataset_id := (if party = PARTY_CLIENT then or_client_data q else or_server_data q),
       pk_result_path := CompletePath storage (if party = PARTY_CLIENT then or_client_path q else or_server_path q),
       pk_broadcast := or_sync q, pk_options := op_options (order_party q party), pk_unique := or_unique q\<rparr>"

lemmas psi_names = PARTY_CLIENT_def PARTY_SERVER_def PARTY_TEE_COMPUTE_def

lemma params_loaded:
  assumes "party = PARTY_CLIENT \<or> party = PARTY_SERVER"
  shows "psi_LoadParams storage (psi_message q party) new_psi_task = Inr (SUCCESS, loaded_task storage q party)"
  using assms
  by (auto simp: psi_LoadParams_def psi_BuildOptions_def psi_message_def new_psi_task_def loaded_task_def order_party_def psi_party_def
      new_psi_operator_def load_path_def load_index_def load_flag_def psi_IsClient_def psi_IsServer_def psi_IsTeeCompute_def psi_names
      int_param_def index_param_def text_param_def get_int32_def get_int32_array_def get_string_def ExtractProxyNode_def map_assign_def Let_def)

section \<open>Saving\<close>

lemma save_success: "SaveDataToCSVFile L mk data path names fs = Inr (ret, fs1) \<Longrightarrow> ret = SUCCESS"
  by (cases "ValidateDir L path fs") (auto simp: SaveDataToCSVFile_def split: if_splits)

lemma save_result:
  assumes "NeedSaveResult t p"
  shows "bindR (psi_SaveResult E t p fs) (\<lambda>(ret, fs1). bindR (break_unless ret msg) (\<lambda>_. Inr (0, fs1, n))) =
    bindR (SaveDataToCSVFile (pe_csv E) (pe_make E) (pk_result p) (pk_result_path p) (pk_columns p) fs) (\<lambda>(_, fs1). Inr (0 :: int, fs1, n))"
proof (cases "SaveDataToCSVFile (pe_csv E) (pe_make E) (pk_result p) (pk_result_path p) (pk_columns p) fs")
  case (Inr a)
  then obtain fs1 where "a = (SUCCESS, fs1)" using save_success by (cases a) blast
  then show ?thesis using Inr assms by (simp add: psi_SaveResult_def break_unless_def)
qed (simp add: psi_SaveResult_def assms)

text \<open>A party that has loaded its elements and whose operator succeeds saves what the operator gave, if it is to be saved.\<close>

lemma party_executes:
  assumes party: "party = PARTY_CLIENT \<or> party = PARTY_SERVER"
    and "psi_loads E (if party = PARTY_CLIENT then or_client_data q else or_server_data q)
      (map sint (if party = PARTY_CLIENT then or_client_index q else or_server_index q)) table"
    and "psi_Execute (pe_channel E) (order_party q party)
      (ecdh_OnExecute (pe_channel E) (pe_library E) (pe_client_key E) (pe_server_key E) (order_party q party))
      (psi_elements (or_unique q) table) (or_sync q) [] n = Inr ((SUCCESS, result), n1)"
  shows "psi_execute E (psi_message q party) new_psi_task fs n =
    (if party = PARTY_SERVER \<and> \<not> or_sync q then Inr (0, fs, n1)
     else bindR (SaveDataToCSVFile (pe_csv E) (pe_make E) result
        (CompletePath (pe_storage E) (if party = PARTY_CLIENT then or_client_path q else or_server_path q)) (map fst (tt_columns table)) fs)
        (\<lambda>(_, fs1). Inr (0, fs1, n1)))"
proof -
  let ?p = "loaded_task (pe_storage E) q party"
  let ?p2 = "?p\<lparr>pk_elements := psi_elements (or_unique q) table, pk_columns := map fst (tt_columns table)\<rparr>"
  have "psi_LoadDataset E ?p n = Inr ((SUCCESS, ?p2), n)"
    using load_elements [OF assms(2), of ?p n] by (simp add: loaded_task_def new_psi_task_def)
  moreover have "psi_InitOperator ?p2 = Inr (Some (ECDH, order_party q party))"
    by (simp add: psi_InitOperator_def psi_Create_def loaded_task_def order_party_def psi_party_def new_psi_operator_def)
  moreover have "psi_ExecuteOperator E (ECDH, order_party q party) ?p2 n = Inr ((SUCCESS, ?p2\<lparr>pk_result := result\<rparr>), n1)"
    using assms(3) by (simp add: psi_ExecuteOperator_def on_execute_def loaded_task_def new_psi_task_def)
  ultimately have run: "psi_execute E (psi_message q party) new_psi_task fs n =
      bindR (psi_SaveResult E (psi_message q party) (?p2\<lparr>pk_result := result\<rparr>) fs) (\<lambda>(ret, fs1).
        bindR (break_unless ret ''Psi save result failed.'') (\<lambda>_. Inr (0, fs1, n1)))"
    by (simp add: psi_execute_def params_loaded [OF party] break_unless_def)
  have need: "NeedSaveResult (psi_message q party) (?p2\<lparr>pk_result := result\<rparr>) \<longleftrightarrow> \<not> (party = PARTY_SERVER \<and> \<not> or_sync q)"
    using party by (auto simp: NeedSaveResult_def psi_IsTeeCompute_def psi_IsServer_def psi_message_def loaded_task_def psi_names)
  show ?thesis
  proof (cases "party = PARTY_SERVER \<and> \<not> or_sync q")
    case True
    then have "\<not> NeedSaveResult (psi_message q party) (?p2\<lparr>pk_result := result\<rparr>)" using need by blast
    then show ?thesis unfolding run using True by (simp add: psi_SaveResult_def break_unless_def)
  next
    case False
    then have "NeedSaveResult (psi_message q party) (?p2\<lparr>pk_result := result\<rparr>)" using need by blast
    note save = save_result [OF this]
    have "pk_result_path ?p = CompletePath (pe_storage E) (if party = PARTY_CLIENT then or_client_path q else or_server_path q)"
      by (simp add: loaded_task_def)
    then show ?thesis unfolding run save if_not_P [OF False] by simp
  qed
qed

section \<open>Properties\<close>

text \<open>
  C6. A task of set intersection from the messages to the files: a client and a server get the messages of a
  task with the protocol over elliptic curves, load their tables at the columns asked for (without repeated rows, when that is asked for), and run the
  protocol. There is a run in which each receives what the other sends; in it the client saves under the names of its columns all rows of its table that the
  server's table has too and the false positives of the PSI library, nothing else (for the difference, the rows that the server's table has not, in their order, less the
  false positives), in the file of the message, and the server saves the same rows under the names of its own columns exactly when the result is to be synchronised, and otherwise leaves its files alone.
\<close>

theorem psi_task_run:
  assumes "psi_loads Ec (or_client_data q) (map sint (or_client_index q)) ct" "psi_loads Es (or_server_data q) (map sint (or_server_index q)) st"
    and "pe_channel Ec = box_channel" "pe_channel Es = box_channel" "pe_library Es = pe_library Ec"
    and cs: "cs = psi_elements (or_unique q) ct" and ss: "ss = psi_elements (or_unique q) st"
    and "psi_calls (pe_library Ec) (pe_client_key Ec) (pe_server_key Es True) cs ss req ssetup resp idx" "psi_indexes cs ss idx"
    and "psi_wires (pe_library Ec) (length cs) req ssetup resp"
    and "cs \<noteq> []" "ss \<noteq> []" "length cs < 2 ^ 64" "list_all (\<lambda>x. length x < 2 ^ 64) cs"
  shows "\<exists>answer to_server result.
    psi_execute Ec (psi_message q PARTY_CLIENT) new_psi_task fc ([answer], []) =
      bindR (SaveDataToCSVFile (pe_csv Ec) (pe_make Ec) result (CompletePath (pe_storage Ec) (or_client_path q)) (map fst (tt_columns ct)) fc)
        (\<lambda>(_, fs1). Inr (0, fs1, ([], map (\<lambda>m. (order_server q, m)) to_server))) \<and>
    psi_execute Es (psi_message q PARTY_SERVER) new_psi_task fs (to_server, []) =
      (if or_sync q then
         bindR (SaveDataToCSVFile (pe_csv Es) (pe_make Es) result (CompletePath (pe_storage Es) (or_server_path q)) (map fst (tt_columns st)) fs)
           (\<lambda>(_, fs1). Inr (0, fs1, ([], [(order_client q, answer)])))
       else Inr (0, fs, ([], [(order_client q, answer)]))) \<and>
    (let wrong = filter (\<lambda>x. x \<notin> set ss) (map (\<lambda>i. cs ! nat i) idx) in
     if sint (or_result_type q) = DIFFERENCE
     then subseq result (filter (\<lambda>x. x \<notin> set ss) cs) \<and> length result + length wrong = length (filter (\<lambda>x. x \<notin> set ss) cs)
     else mset result = mset (filter (\<lambda>x. x \<in> set ss) cs) + mset wrong)"
proof -
  let ?c = "order_party q PARTY_CLIENT" and ?s = "order_party q PARTY_SERVER" and ?L = "pe_library Ec"
  have client: "ecdh_OnExecute box_channel L ck sk ?c = ecdh_OnExecute box_channel L ck sk' ?c" for L ck sk sk'
    by (simp add: fun_eq_iff ecdh_OnExecute_def order_party_def)
  have server: "ecdh_OnExecute box_channel L ck sk ?s = ecdh_OnExecute box_channel L ck' sk ?s" for L ck ck' sk
    by (simp add: fun_eq_iff ecdh_OnExecute_def order_party_def psi_names)
  obtain answer to_server result where run:
    "psi_Execute box_channel ?c (ecdh_OnExecute box_channel ?L (pe_client_key Ec) (pe_server_key Es) ?c) cs (or_sync q) [] ([answer], []) =
      Inr ((SUCCESS, result), ([], map (\<lambda>m. (order_server q, m)) to_server))"
    "psi_Execute box_channel ?s (ecdh_OnExecute box_channel ?L (pe_client_key Ec) (pe_server_key Es) ?s) ss (or_sync q) [] (to_server, []) =
      Inr ((SUCCESS, if or_sync q then result else []), ([], [(order_client q, answer)]))"
    "psi_answer (sint (or_result_type q)) cs ss (false_hits cs ss idx) result"
    using ecdh_agree [of ?L "pe_client_key Ec" "pe_server_key Es" cs ss req ssetup resp idx "order_client q" "order_server q"
        "pbNode2Node (or_proxy q) empty_Node" "sint (or_result_type q)" "or_sync q"] assms(8-14)
    unfolding order_party_def by blast
  have roles: "PARTY_SERVER \<noteq> PARTY_CLIENT" by (simp add: psi_names)
  have "psi_execute Ec (psi_message q PARTY_CLIENT) new_psi_task fc ([answer], []) =
      bindR (SaveDataToCSVFile (pe_csv Ec) (pe_make Ec) result (CompletePath (pe_storage Ec) (or_client_path q)) (map fst (tt_columns ct)) fc)
        (\<lambda>(_, fs1). Inr (0, fs1, ([], map (\<lambda>m. (order_server q, m)) to_server)))"
    using party_executes [of PARTY_CLIENT Ec q ct "([answer], [])" result "([], map (\<lambda>m. (order_server q, m)) to_server)" fc]
      run(1) client [of ?L "pe_client_key Ec" "pe_server_key Ec" "pe_server_key Es"] assms(1,3) roles unfolding cs by simp
  moreover have "psi_execute Es (psi_message q PARTY_SERVER) new_psi_task fs (to_server, []) =
      (if or_sync q then
         bindR (SaveDataToCSVFile (pe_csv Es) (pe_make Es) result (CompletePath (pe_storage Es) (or_server_path q)) (map fst (tt_columns st)) fs)
           (\<lambda>(_, fs1). Inr (0, fs1, ([], [(order_client q, answer)])))
       else Inr (0, fs, ([], [(order_client q, answer)])))"
    using party_executes [of PARTY_SERVER Es q st "(to_server, [])" "if or_sync q then result else []" "([], [(order_client q, answer)])" fs]
      run(2) server [of ?L "pe_client_key Es" "pe_server_key Es" "pe_client_key Ec"] assms(2,4,5) roles unfolding ss by simp
  ultimately show ?thesis using run(3) unfolding psi_answer_def false_hits_def Let_def by blast
qed

definition letters_table :: "string list \<Rightarrow> text_table" where
  "letters_table cells = \<lparr>tt_num_rows = length cells, tt_columns = [(''x'', [cells])]\<rparr>"

definition letters_env :: "string list \<Rightarrow> (unit, bool, string list, string, transcript, unit) psi_env" where
  "letters_env cells =
     \<lparr>pe_channel = box_channel, pe_library = letters_library, pe_client_key = (), pe_server_key = (\<lambda>r. r), pe_kkrt = (\<lambda>_ _. letters_kkrt),
      pe_hash_order = rev, pe_block = [], pe_order = rev, pe_cores = 8, pe_csv = plain_shell, pe_make = (\<lambda>_ _. ()), pe_storage = ''/data'',
      pe_driver = (\<lambda>_ _ n. (Inr (Some \<lparr>dr_type = ''CSV'', dr_nodelet = [], dr_access_info = None\<rparr>), n)),
      pe_cursor = (\<lambda>_ _. Inr ([(''x'', 13)], True, \<lambda>_. Inr (Some (letters_table cells))))\<rparr>"

definition letters_order :: psi_order where
  "letters_order =
     \<lparr>or_client = new_pb_node, or_server = new_pb_node, or_proxy = new_pb_node, or_result_type = 0, or_sync = False, or_unique = True,
      or_client_index = [0], or_server_index = [0], or_client_path = ''c'', or_server_path = ''s'', or_client_data = ''dc'', or_server_data = ''ds''\<rparr>"

lemma letters_loads: "i \<noteq> [] \<Longrightarrow> psi_loads (letters_env cells) i [0] (letters_table cells)"
  by (simp add: psi_loads_def letters_env_def letters_table_def table_wf_def any_writes_def IsValidDataType_def isString_def)

theorem psi_task_run_witness:
  "\<exists>answer to_server result.
    psi_execute (letters_env [''a'', ''b'', ''a'', ''z'']) (psi_message letters_order PARTY_CLIENT) new_psi_task ab_files ([answer], []) =
      bindR (SaveDataToCSVFile plain_shell (\<lambda>_ _. ()) result ''/data/c'' [''x''] ab_files)
        (\<lambda>(_, fs1). Inr (0, fs1, ([], map (\<lambda>m. (order_server letters_order, m)) to_server))) \<and>
    psi_execute (letters_env [''b'', ''c'']) (psi_message letters_order PARTY_SERVER) new_psi_task ab_files (to_server, []) =
      Inr (0, ab_files, ([], [(order_client letters_order, answer)])) \<and>
    mset result = {#''b'', ''z''#}"
proof -
  let ?ssetup = "\<lparr>ss_bits = ''bc'', ss_data = Gcs 1 2\<rparr>"
  have e: "psi_elements (or_unique letters_order) (letters_table [''a'', ''b'', ''a'', ''z'']) = [''a'', ''b'', ''z'']"
    "psi_elements (or_unique letters_order) (letters_table [''b'', ''c'']) = [''b'', ''c'']"
    by (simp_all add: psi_elements_def letters_table_def letters_order_def table_row_def table_cell_def upt_rec)
  have "psi_calls letters_library () True [''a'', ''b'', ''z''] [''b'', ''c''] [''a'', ''b'', ''z''] ?ssetup [''a'', ''b'', ''z''] [1, 2]"
    by (simp add: psi_calls_def letters_library_def)
  moreover have "psi_indexes [''a'', ''b'', ''z''] [''b'', ''c''] [1, 2]" by (auto simp: psi_indexes_def less_Suc_eq)
  moreover have "psi_wires letters_library (length [''a'', ''b'', ''z'']) [''a'', ''b'', ''z''] ?ssetup [''a'', ''b'', ''z'']"
    by (simp add: psi_wires_def letters_library_def flip: numeral_3_eq_3)
  ultimately show ?thesis
    using psi_task_run [of "letters_env [''a'', ''b'', ''a'', ''z'']" letters_order "letters_table [''a'', ''b'', ''a'', ''z'']" "letters_env [''b'', ''c'']"
        "letters_table [''b'', ''c'']" "[''a'', ''b'', ''z'']" "[''b'', ''c'']" "[''a'', ''b'', ''z'']" ?ssetup "[''a'', ''b'', ''z'']" "[1, 2]" ab_files ab_files] e
      letters_loads [of "''dc''" "[''a'', ''b'', ''a'', ''z'']"] letters_loads [of "''ds''" "[''b'', ''c'']"]
    by (simp add: letters_order_def letters_env_def letters_table_def DIFFERENCE_def CompletePath_def add_mset_commute)
qed

end
