(* ===== verification/Spec2Isabelle.thy ===== *)
theory Spec2Isabelle
  imports Paillier_Keygen Crt_Datapack Mpc_Division Arithmetic_Run Node_Run Missing_Values Task_Dispatch Data_Node Psi_Task
begin

text \<open>
  A verification library for PrimiHub, a platform on which several parties compute on their private data.
  Paths below are relative to \<^verbatim>\<open>src/primihub\<close> unless they start with \<^verbatim>\<open>src/\<close>.

  \<^bold>\<open>The program.\<close> A client submits a task to a node; the node's scheduler sends it to the nodes of the parties;
  each of these creates a worker, which runs the task in a thread or a process. The workers of a task exchange
  data through link contexts, mailboxes that the gRPC service of a node fills. One kind of task evaluates an
  arithmetic expression over columns that belong to three parties, another computes statistics of such columns,
  both with the ABY3 protocols on replicated shares; the expression is parsed once and run by a local executor, on plain columns, or by a secure one.
  A third replaces missing and abnormal values of columns, a fourth intersects the keys of two tables (set intersection). Tasks read
  their tables through drivers, from CSV files or databases that the owner registered with the dataset service of its node. The
  repository also carries an optimised Paillier cryptosystem with CRT packing, used by the federated algorithms.

  \<^bold>\<open>Shared theories.\<close> \<open>Prelude\<close> (machine integers, the result type with its three kinds of failure, ordered maps,
  collections of simplification rules, modular arithmetic), \<open>Number_Facts\<close> (primes, Fermat's theorem, units),
  \<open>Digits\<close> (decimal texts, \<^verbatim>\<open>stoi\<close>, \<^verbatim>\<open>atoi\<close>), \<open>Gmp\<close> (the GMP functions as a locale of documented laws, with a reference
  implementation that satisfies them).

  \<^bold>\<open>Paillier\<close> (\<^verbatim>\<open>algorithm/opt_paillier\<close>). \<open>Powmod\<close>: fixed-base windowed exponentiation with its table,
  proved equal to the modular power for exponents that fit the table. \<open>Aby_Utils\<close>: random integers and sizes. \<open>Paillier\<close>:
  keys, the three encryptions, the two decryptions, homomorphic operations, signed texts; a locale
  states what a provider of powers of the generator promises and is interpreted for the plain, the CRT and
  the fixed-base computation. \<open>Paillier_Keygen\<close>: key generation as a search over a stream of random blocks; every key it
  returns satisfies the invariant the cryptosystem needs, when the numbers that GMP's probabilistic test let pass are prime. \<open>Crt_Datapack\<close>: packing of integers by residues.

  \<^bold>\<open>Expressions\<close> (\<^verbatim>\<open>executor/express.cc\<close>). \<open>Expr_Parser\<close>: the tokeniser and shunting-yard parser, the acceptance test, and printing of
  expression trees as the reference. \<open>Column_Config\<close>: owners, types and values of columns. \<open>Express_Eval\<close>: the postfix machine as a
  locale over values and operations, with the theorem that it computes the meaning of the tree. \<open>Local_Executor\<close> and
  \<open>Mpc_Executor\<close>, \<open>Mpc_Fixed\<close> interpret it on plain columns and on triples of shares, in integer and in fixed-point mode.

  \<^bold>\<open>Shares\<close> (\<^verbatim>\<open>operator/aby3_operator.cc\<close>, \<^verbatim>\<open>.h\<close>). \<open>Aby3_Operator\<close>: matrices of 64-bit words, replicated sharing among three parties, the
  local operations and those that call the library; the ABY3 library is a parameter with named laws
  (\<open>aby3_ok\<close>), satisfied by a reference implementation. \<open>Fixed_Operator\<close>: the fixed-point templates. \<open>Mpc_Compare\<close>: secure comparison.
  \<open>Mpc_Division\<close>: the division of fixed-point columns, with a bound on its error for a library whose products are accurate to a unit.

  \<^bold>\<open>Arithmetic task\<close> (\<^verbatim>\<open>algorithm/arithmetic.cc\<close>, \<^verbatim>\<open>common/party_config.cc\<close>, \<^verbatim>\<open>algorithm/base.h\<close>, \<^verbatim>\<open>util/util.cc\<close>). \<open>Text_Util\<close>: splitting, node texts,
  paths. \<open>Party_Config\<close>: names and numbers of the parties. \<open>Arithmetic\<close>: parameters, reading the table, preparing and running the
  executor, saving. \<open>Arithmetic_Run\<close> composes them: from the task message to the saved column, the three parties
  together compute the value of the expression.

  \<^bold>\<open>Statistics task\<close> (\<^verbatim>\<open>executor/statistics.cc\<close>, \<^verbatim>\<open>algorithm/mpc_statistics.cc\<close>, \<^verbatim>\<open>task/semantic/mpc_task.cc\<close>). \<open>Mpc_Statistics\<close>: sums, averages,
  minima and maxima, the local pass over a table and the secure part. \<open>Statistics_Run\<close> composes the two, with a bound on the
  error of a sum, and shows which maximum is lost (the search for it starts at the smallest positive double). \<open>Statistics_Task\<close>: parameters, running and saving, also with a party
  that has no data; from the task message to the saved row.

  \<^bold>\<open>Missing values\<close> (\<^verbatim>\<open>algorithm/missing_val_processing.cc\<close>). \<open>Missing_Columns\<close>: the parameters, the reading of text columns with their
  missing and abnormal rows, and the sums, counts and extremes a party contributes. \<open>Missing_Values\<close>: the secure average, minimum and
  maximum, the replacement, the saved table; from tables in memory, the three parties together write the same value at every missing row. The loader
  of CSV files, which reads columns of text as doubles, has undefined behaviour.

  \<^bold>\<open>Data store\<close> (\<^verbatim>\<open>data_store\<close>, \<^verbatim>\<open>service/dataset\<close>, \<^verbatim>\<open>node/ds.cc\<close>). \<open>Data_Access\<close>: access information and schemas. \<open>Csv_Driver\<close>, \<open>Sql_Drivers\<close>:
  the drivers for CSV files, images, SQLite and MySQL, with the queries they build and the rows they return. \<open>Dataset_Service\<close>: registration
  and lookup of drivers; what the service needs of a driver is a locale, interpreted on the four drivers. \<open>Data_Node\<close>: the
  handlers of the data service, and downloads by a reading and a sending thread as a step relation: what they send, and that
  they end, in undefined behaviour when a file cannot be read (the reading function then returns no value).

  \<^bold>\<open>Set intersection\<close> (\<^verbatim>\<open>kernel/psi\<close>, \<^verbatim>\<open>task/semantic/psi_task.cc\<close>). \<open>Psi_Data\<close>: keys loaded by threads, for every order of their writes, and the
  rows saved. \<open>Psi_Operator\<close>: the base class and the ECDH and KKRT protocols; the libraries are parameters with their documented
  laws, and a protocol is a pair of transcripts of what the two parties send. \<open>Psi_Task\<close>: the task from its message to the file
  with the common keys, both parties together, and with the false positives that the ECDH library may give.

  \<^bold>\<open>Messages\<close> (\<^verbatim>\<open>util/threadsafe_queue.h\<close>, \<^verbatim>\<open>util/network\<close>). \<open>Ts_Queue\<close>: the blocking queue, with its threads, mutex and condition
  variable as a step relation that refines an atomic queue; calls under way come to rest, and no thread then sleeps while an
  item waits. \<open>Link_Context\<close>: keyed mailboxes, a
  locale interpreted on the three families of queues. \<open>Grpc_Channel\<close>: packages, deadlines and retries.

  \<^bold>\<open>Nodes\<close> (\<^verbatim>\<open>node\<close>). \<open>Task_Worker\<close>: running a task and collecting the reports of the parties, before and after their number is set, into a verdict. \<open>Vm_Node\<close>: the
  registry of workers, the handlers, and one turn of each thread. \<open>Node_Interface\<close>: the service, and what a channel of
  another node gets from it over a network that loses calls and replies and breaks streams. \<open>Node_Run\<close>: the node as a state machine with its
  invariant; a step is a whole turn of a handler or thread, so that races on maps the code does not lock are outside it.

  \<^bold>\<open>Distribution\<close> (\<^verbatim>\<open>task/language\<close>, \<^verbatim>\<open>task/semantic/parser.cc\<close>, \<^verbatim>\<open>task/semantic/scheduler\<close>, \<^verbatim>\<open>service/dataset\<close>). \<open>Json_Doc\<close>: JSON
  documents and the two ways the sources read them. \<open>Meta_Service\<close>: descriptions of datasets, their texts and messages, the client
  of the meta service and the service in memory. \<open>Task_Language\<close>: the parsers of a task, and the table of its parties, completed
  from the datasets and numbered. \<open>Interleave\<close>: threads that are joined, as schedules and as a step relation, with a locale for
  actions that commute in a view of the state. \<open>Task_Scheduler\<close>: the schedulers, interpreting that locale; which messages they
  send, and the links of three parties. \<open>Task_Dispatch\<close> composes them with \<open>Vm_Node\<close>: from the submitted request to the verdict on
  the parties' reports, for every order of the threads and with reports that arrive during the distribution.

  \<^bold>\<open>State and effects.\<close> Objects are records that operations take and return; objects that are shared (workers) are
  references into a store. Exceptions, return codes and undefined behaviour are values (\<open>failure\<close>). A call that
  waits yields \<open>None\<close>. Integers are words where the code computes with their width. Floating point is a parameter:
  results hold for every implementation or name the law they use.

  \<^bold>\<open>Bounds and fuel.\<close> Loops are structural recursion or come with a termination proof, for the packages and the
  retries by the remaining length and the remaining attempts. \<open>fetch_loop\<close> has fuel for one turn more than reports
  wait, which is how often the source's loop turns. \<open>split_loop\<close> (splitting at a pattern) is a partial function, and a
  theorem says when it returns. Polling is driven by a list of ticks; searches for primes by the stream of
  random blocks.

  \<^bold>\<open>Not modelled.\<close> Third-party code: GMP, ABY3, APSI, KKRT, Arrow, the database clients, gRPC, Poco and protobuf appear as
  parameters with stated laws, or not at all. Logistic regression and the other training algorithms are floating-point
  iterations whose results no law of the source describes. The sigmoid and the remaining
  conversions of \<^verbatim>\<open>aby3_operator.h\<close> are left out; the executors that divide take the quotient as a parameter. Private
  information retrieval is a sequence of calls of APSI and of the network. \<^verbatim>\<open>SQLiteCursor::read_from_abnormal\<close> and the
  overloads of \<^verbatim>\<open>kernel/psi/util.cc\<close> that nothing calls are left out, and so are the operator and scheduler for enclaves, the
  command line client, configuration files and the event bus, the channel of the MPC library, the Python bindings and the
  vendored files. Pure input and output (logging, HTTP reports, device files) has no definition.
\<close>

end
